(* ===== verification/Prelude.thy ===== *)
theory Prelude
  imports Main "HOL-Library.Char_ord" "HOL-Library.List_Lexorder" "HOL-Library.Word"
begin

text \<open>
  What the component theories share: machine integers, the result type of fallible code,
  the ordered map that stands for Rust's \<open>BTreeMap\<close>, and the functions of Rust's
  \<open>str\<close> and \<open>Option\<close> that the sources call.

  A Rust string is a \<open>string\<close>, one \<open>char\<close> per Unicode scalar value: the model
  covers the scalar values below 256. The order of strings is lexicographic in the scalar
  values, which is also the order of their UTF-8 encodings, the one \<open>BTreeMap<String, _>\<close>
  iterates in.
\<close>

section \<open>Types and collections\<close>

type_synonym u16 = "16 word"
type_synonym u32 = "32 word"
type_synonym u64 = "64 word"
type_synonym usize = "64 word"

text \<open>Fallible code: \<open>Inl\<close> carries the message of the \<open>anyhow\<close> error.\<close>

type_synonym 'a result = "string + 'a"

named_theorems bmap_simps \<open>equations of the ordered map\<close>
named_theorems result_simps \<open>equations of the result type\<close>

section \<open>Results\<close>

text \<open>The question mark operator: an error returns at once, a value is passed on.\<close>

fun rbind :: "'e + 'a \<Rightarrow> ('a \<Rightarrow> 'e + 'b) \<Rightarrow> 'e + 'b" where
  "rbind (Inl e) f = Inl e"
| "rbind (Inr x) f = f x"

lemma rbind_cong [fundef_cong]:
  "r = r' \<Longrightarrow> (\<And>x. r' = Inr x \<Longrightarrow> f x = g x) \<Longrightarrow> rbind r f = rbind r' g"
  by (cases r') auto

lemma rbind_eq_Inr [result_simps]: "rbind r f = Inr y \<longleftrightarrow> (\<exists>x. r = Inr x \<and> f x = Inr y)"
  by (cases r) auto

lemma rbind_eq_Inl [result_simps]:
  "rbind r f = Inl e \<longleftrightarrow> r = Inl e \<or> (\<exists>x. r = Inr x \<and> f x = Inl e)"
  by (cases r) auto

fun map_err :: "('e \<Rightarrow> 'f) \<Rightarrow> 'e + 'a \<Rightarrow> 'f + 'a" where
  "map_err f (Inl e) = Inl (f e)"
| "map_err f (Inr x) = Inr x"

lemma map_err_eq_Inr [simp, result_simps]: "map_err f r = Inr x \<longleftrightarrow> r = Inr x"
  by (cases r) auto

lemma map_err_eq_Inl [result_simps]: "map_err f r = Inl e \<longleftrightarrow> (\<exists>d. r = Inl d \<and> e = f d)"
  by (cases r) auto

text \<open>A \<open>for\<close> loop whose body may return an error: the first error ends it.\<close>

fun rforeach :: "('a \<Rightarrow> 'e + unit) \<Rightarrow> 'a list \<Rightarrow> 'e + unit" where
  "rforeach f [] = Inr ()"
| "rforeach f (x # xs) = rbind (f x) (\<lambda>_. rforeach f xs)"

lemma rforeach_ok [result_simps]: "rforeach f xs = Inr () \<longleftrightarrow> (\<forall>x \<in> set xs. f x = Inr ())"
  by (induction xs) (auto simp: rbind_eq_Inr)

lemma rforeach_err: "rforeach f xs = Inl e \<Longrightarrow> \<exists>x \<in> set xs. f x = Inl e"
  by (induction xs) (auto simp: rbind_eq_Inl)

text \<open>Mapping a fallible function over a list, in order.\<close>

fun rmap :: "('a \<Rightarrow> 'e + 'b) \<Rightarrow> 'a list \<Rightarrow> 'e + 'b list" where
  "rmap f [] = Inr []"
| "rmap f (x # xs) = rbind (f x) (\<lambda>y. rbind (rmap f xs) (\<lambda>ys. Inr (y # ys)))"

lemma rmap_Inr: "rmap f xs = Inr ys \<longleftrightarrow> list_all2 (\<lambda>x y. f x = Inr y) xs ys"
proof (induction xs arbitrary: ys)
  case Nil
  then show ?case by auto
next
  case (Cons x xs)
  then show ?case by (cases ys) (auto simp: rbind_eq_Inr)
qed

section \<open>Option\<close>

fun opt_or :: "'a option \<Rightarrow> 'a option \<Rightarrow> 'a option" where
  "opt_or None y = y"
| "opt_or (Some x) y = Some x"

fun unwrap_or :: "'a option \<Rightarrow> 'a \<Rightarrow> 'a" where
  "unwrap_or None d = d"
| "unwrap_or (Some x) d = x"

fun ok_or :: "'e \<Rightarrow> 'a option \<Rightarrow> 'e + 'a" where
  "ok_or e None = Inl e"
| "ok_or e (Some x) = Inr x"

lemma ok_or_eq_Inr [simp, result_simps]: "ok_or e r = Inr x \<longleftrightarrow> r = Some x"
  by (cases r) auto

lemma ok_or_eq_Inl [simp, result_simps]: "ok_or e r = Inl d \<longleftrightarrow> r = None \<and> d = e"
  by (cases r) auto

section \<open>Lists\<close>

lemma map_filter_append: "List.map_filter f (xs @ ys) = List.map_filter f xs @ List.map_filter f ys"
  by (simp add: List.map_filter_def)

lemma map_filter_rev: "List.map_filter f (rev xs) = rev (List.map_filter f xs)"
  by (simp add: List.map_filter_def rev_map rev_filter)

section \<open>The ordered map\<close>

text \<open>
  \<open>BTreeMap<K, V>\<close>: the list of its entries in ascending order of their keys. \<open>map_of\<close>
  is \<open>get\<close>, \<open>bm_keys\<close> and \<open>bm_values\<close> are the iterators, and \<open>bm_ok\<close> says
  that a list is the entry list of a map.
\<close>

type_synonym ('k, 'v) bmap = "('k \<times> 'v) list"

definition bm_ok :: "('k::linorder, 'v) bmap \<Rightarrow> bool" where
  "bm_ok m \<longleftrightarrow> sorted_wrt (<) (map fst m)"

definition bm_keys :: "('k, 'v) bmap \<Rightarrow> 'k list" where
  "bm_keys m = map fst m"

definition bm_values :: "('k, 'v) bmap \<Rightarrow> 'v list" where
  "bm_values m = map snd m"

definition bm_contains :: "('k, 'v) bmap \<Rightarrow> 'k \<Rightarrow> bool" where
  "bm_contains m k \<longleftrightarrow> map_of m k \<noteq> None"

fun bm_insert :: "'k::linorder \<Rightarrow> 'v \<Rightarrow> ('k, 'v) bmap \<Rightarrow> ('k, 'v) bmap" where
  "bm_insert k v [] = [(k, v)]"
| "bm_insert k v ((k', v') # m) =
     (if k = k' then (k, v) # m
      else if k < k' then (k, v) # (k', v') # m
      else (k', v') # bm_insert k v m)"

definition bm_remove :: "'k \<Rightarrow> ('k, 'v) bmap \<Rightarrow> ('k, 'v) bmap" where
  "bm_remove k m = filter (\<lambda>(k', _). k' \<noteq> k) m"

text \<open>\<open>get_mut\<close> followed by a write through the reference: nothing happens to an absent key.\<close>

definition bm_update :: "'k \<Rightarrow> ('v \<Rightarrow> 'v) \<Rightarrow> ('k, 'v) bmap \<Rightarrow> ('k, 'v) bmap" where
  "bm_update k f m = map (\<lambda>(k', v). (k', if k' = k then f v else v)) m"

definition bm_map :: "('k \<Rightarrow> 'v \<Rightarrow> 'w) \<Rightarrow> ('k, 'v) bmap \<Rightarrow> ('k, 'w) bmap" where
  "bm_map f m = map (\<lambda>(k, v). (k, f k v)) m"

definition bm_retain :: "('k \<Rightarrow> 'v \<Rightarrow> bool) \<Rightarrow> ('k, 'v) bmap \<Rightarrow> ('k, 'v) bmap" where
  "bm_retain p m = filter (\<lambda>(k, v). p k v) m"

text \<open>\<open>extend\<close>: later entries overwrite; \<open>or_insert\<close>: an existing entry stays.\<close>

fun bm_extend :: "('k::linorder, 'v) bmap \<Rightarrow> ('k \<times> 'v) list \<Rightarrow> ('k, 'v) bmap" where
  "bm_extend m [] = m"
| "bm_extend m ((k, v) # kvs) = bm_extend (bm_insert k v m) kvs"

definition bm_or_insert :: "'k::linorder \<Rightarrow> 'v \<Rightarrow> ('k, 'v) bmap \<Rightarrow> ('k, 'v) bmap" where
  "bm_or_insert k v m = (if bm_contains m k then m else bm_insert k v m)"

subsection \<open>What the operations do to a lookup\<close>

lemma map_of_bm_insert [simp, bmap_simps]: "map_of (bm_insert k v m) = (map_of m)(k \<mapsto> v)"
  by (induction k v m rule: bm_insert.induct) auto

lemma map_of_bm_remove [simp, bmap_simps]: "map_of (bm_remove k m) = (map_of m)(k := None)"
  by (induction m) (auto simp: bm_remove_def)

lemma map_of_bm_update [simp, bmap_simps]:
  "map_of (bm_update k f m) = (map_of m)(k := map_option f (map_of m k))"
  by (induction m) (auto simp: bm_update_def)

lemma map_of_bm_map [simp, bmap_simps]:
  "map_of (bm_map f m) k = map_option (f k) (map_of m k)"
  by (induction m) (auto simp: bm_map_def)

lemma map_of_bm_extend [bmap_simps]: "map_of (bm_extend m kvs) = map_of m ++ map_of (rev kvs)"
  by (induction m kvs rule: bm_extend.induct) (auto simp: map_add_def fun_eq_iff split: option.splits)

lemma map_of_bm_or_insert [bmap_simps]:
  "map_of (bm_or_insert k v m) = (if map_of m k = None then (map_of m)(k \<mapsto> v) else map_of m)"
  by (simp add: bm_or_insert_def bm_contains_def)

lemma bm_contains_iff: "bm_contains m k \<longleftrightarrow> k \<in> set (bm_keys m)"
  by (simp add: bm_contains_def bm_keys_def map_of_eq_None_iff)

lemma set_bm_keys: "set (bm_keys m) = dom (map_of m)"
  by (simp add: bm_keys_def dom_map_of_conv_image_fst)

lemma bm_keys_update [simp]: "bm_keys (bm_update k f m) = bm_keys m"
  by (auto simp: bm_keys_def bm_update_def)

lemma bm_keys_map [simp]: "bm_keys (bm_map f m) = bm_keys m"
  by (auto simp: bm_keys_def bm_map_def)

lemma set_bm_keys_insert [simp]: "set (bm_keys (bm_insert k v m)) = insert k (set (bm_keys m))"
  by (auto simp: set_bm_keys)

subsection \<open>Every operation keeps the entries ordered\<close>

lemma bm_ok_distinct: "bm_ok m \<Longrightarrow> distinct (bm_keys m)"
  by (simp add: bm_ok_def bm_keys_def strict_sorted_iff)

lemma bm_ok_Nil [simp, intro]: "bm_ok []"
  by (simp add: bm_ok_def)

lemma bm_ok_Cons: "bm_ok ((k, v) # m) \<longleftrightarrow> (\<forall>k' \<in> set (bm_keys m). k < k') \<and> bm_ok m"
  by (simp add: bm_ok_def bm_keys_def)

lemma bm_keys_Nil [simp]: "bm_keys [] = []"
  by (simp add: bm_keys_def)

lemma bm_keys_Cons [simp]: "bm_keys ((k, v) # m) = k # bm_keys m"
  by (simp add: bm_keys_def)

lemma bm_ok_insert [intro]: "bm_ok m \<Longrightarrow> bm_ok (bm_insert k v m)"
  by (induction k v m rule: bm_insert.induct) (auto simp: bm_ok_Cons)

lemma bm_ok_update [simp]: "bm_ok (bm_update k f m) = bm_ok m"
  by (metis bm_keys_def bm_keys_update bm_ok_def)

lemma bm_ok_map [simp]: "bm_ok (bm_map f m) = bm_ok m"
  by (metis bm_keys_def bm_keys_map bm_ok_def)

lemma bm_ok_filter: "bm_ok m \<Longrightarrow> bm_ok (filter P m)"
  by (induction m) (auto simp: bm_ok_Cons bm_keys_def)

lemma bm_ok_remove [intro]: "bm_ok m \<Longrightarrow> bm_ok (bm_remove k m)"
  by (simp add: bm_remove_def bm_ok_filter)

lemma bm_ok_retain [intro]: "bm_ok m \<Longrightarrow> bm_ok (bm_retain p m)"
  by (simp add: bm_retain_def bm_ok_filter)

lemma bm_ok_extend [intro]: "bm_ok m \<Longrightarrow> bm_ok (bm_extend m kvs)"
  by (induction m kvs rule: bm_extend.induct) auto

lemma bm_ok_or_insert [intro]: "bm_ok m \<Longrightarrow> bm_ok (bm_or_insert k v m)"
  by (auto simp: bm_or_insert_def)

lemma map_of_bm_retain [bmap_simps]:
  assumes "bm_ok m"
  shows "map_of (bm_retain p m) k = (case map_of m k of None \<Rightarrow> None | Some v \<Rightarrow> if p k v then Some v else None)"
  using assms
proof (induction m)
  case Nil
  then show ?case by (simp add: bm_retain_def)
next
  case (Cons kv m)
  obtain k' v where kv: "kv = (k', v)" by fastforce
  have "map_of m k' = None"
    using Cons.prems by (auto simp: kv bm_ok_Cons set_bm_keys domIff)
  with Cons show ?case
    by (auto simp: kv bm_ok_Cons bm_retain_def split: option.splits)
qed

text \<open>Two ordered maps with the same lookups are the same map.\<close>

lemma bm_list_from_keys:
  assumes "distinct (map fst m)"
  shows "map (\<lambda>k. (k, the (map_of m k))) (map fst m) = m"
proof -
  have "(fst kv, the (map_of m (fst kv))) = kv" if "kv \<in> set m" for kv
    using map_of_is_SomeI [OF assms, of "fst kv" "snd kv"] that by simp
  then show ?thesis by (simp add: map_idI)
qed

lemma bm_ok_eqI:
  assumes "bm_ok m" and "bm_ok n" and "map_of m = map_of n"
  shows "m = n"
proof -
  have "set (map fst m) = set (map fst n)"
    using assms(3) by (metis dom_map_of_conv_image_fst set_map)
  then have keys: "map fst m = map fst n"
    using assms(1,2) by (simp add: bm_ok_def strict_sorted_equal)
  have "m = map (\<lambda>k. (k, the (map_of m k))) (map fst m)"
    using assms(1) by (intro bm_list_from_keys [symmetric]) (simp add: bm_ok_def strict_sorted_iff)
  also have "\<dots> = map (\<lambda>k. (k, the (map_of n k))) (map fst n)"
    by (simp only: keys assms(3))
  also have "\<dots> = n"
    using assms(2) by (intro bm_list_from_keys) (simp add: bm_ok_def strict_sorted_iff)
  finally show ?thesis .
qed

lemma bm_entry_iff: "bm_ok m \<Longrightarrow> (k, v) \<in> set m \<longleftrightarrow> map_of m k = Some v"
  by (metis bm_keys_def bm_ok_distinct map_of_eq_Some_iff)

lemma set_bm_values: "bm_ok m \<Longrightarrow> set (bm_values m) = ran (map_of m)"
  by (metis bm_keys_def bm_ok_distinct bm_values_def ran_map_of_zip ran_distinct set_map)

end
