(* ===== verification/Names.thy ===== *)
theory Names
  imports Rust_Strings
begin

text \<open>
  Names and the files, units and port owners derived from them: \<open>src/src/util.rs\<close>
  (\<open>sanitize_env_key\<close>, \<open>expand_home\<close>), \<open>src/src/ids.rs\<close>, \<open>src/src/paths.rs\<close>,
  the unit names of \<open>src/src/app/launch/prepare.rs\<close> and the port owners of
  \<open>src/src/app/runtime.rs\<close>. The data directory, the home directory and the hash of
  \<open>blake3\<close> are parameters, the fields of \<open>path_env\<close>.
\<close>

section \<open>Names\<close>

type_synonym run_id = string
type_synonym service_name = string

definition sanitize_char :: "char \<Rightarrow> char" where
  "sanitize_char ch = (if is_ascii_alphanumeric ch then to_ascii_uppercase ch else CHR ''_'')"

definition sanitize_env_key :: "string \<Rightarrow> string" where
  "sanitize_env_key name =
     (let out = map sanitize_char name in if out = [] then ''_'' else out)"

definition name_char :: "char \<Rightarrow> bool" where
  "name_char ch \<longleftrightarrow> is_ascii_alphanumeric ch \<or> ch \<in> set ''._-''"

definition validate_name_for_path_component :: "string \<Rightarrow> string \<Rightarrow> unit result" where
  "validate_name_for_path_component kind value =
     (if value = [] then Inl (kind @ '' name cannot be empty'')
      else if value = ''.'' \<or> value = ''..'' then
        Inl (''invalid '' @ kind @ '' name '' @ quoted value)
      else if \<not> list_all name_char value then
        Inl (''invalid '' @ kind @ '' name '' @ quoted value @ '' (allowed: A-Z, a-z, 0-9, ''
             @ quoted ''.'' @ '', '' @ quoted ''_'' @ '', '' @ quoted ''-'' @ '')'')
      else Inr ())"

section \<open>Paths of the data directory\<close>

record path_env =
  pe_base_dir :: "string result"
  pe_home :: "string option"
  pe_blake3_hex :: "string \<Rightarrow> string"

definition expand_home :: "path_env \<Rightarrow> string \<Rightarrow> string" where
  "expand_home pe path =
     (case (path_strip_tilde path, pe_home pe) of
        (Some stripped, Some home) \<Rightarrow> path_join home stripped
      | _ \<Rightarrow> path)"

definition absolutize_path :: "path_env \<Rightarrow> string \<Rightarrow> string \<Rightarrow> string" where
  "absolutize_path pe base path =
     (let expanded = expand_home pe path in
      if is_absolute expanded then expanded else path_join base expanded)"

definition project_hash :: "path_env \<Rightarrow> string \<Rightarrow> string" where
  "project_hash pe path = take 12 (pe_blake3_hex pe path)"

definition base_join :: "path_env \<Rightarrow> string \<Rightarrow> string result" where
  "base_join pe name = rbind (pe_base_dir pe) (\<lambda>base. Inr (path_join base name))"

definition daemon_dir :: "path_env \<Rightarrow> string result" where
  "daemon_dir pe = base_join pe ''daemon''"

definition daemon_state_path :: "path_env \<Rightarrow> string result" where
  "daemon_state_path pe = rbind (daemon_dir pe) (\<lambda>d. Inr (path_join d ''state.json''))"

definition daemon_socket_path :: "path_env \<Rightarrow> string result" where
  "daemon_socket_path pe = rbind (daemon_dir pe) (\<lambda>d. Inr (path_join d ''devstackd.sock''))"

definition local_units_path :: "path_env \<Rightarrow> string result" where
  "local_units_path pe = rbind (daemon_dir pe) (\<lambda>d. Inr (path_join d ''local-units.json''))"

definition daemon_lock_path :: "path_env \<Rightarrow> string result" where
  "daemon_lock_path pe = rbind (daemon_dir pe) (\<lambda>d. Inr (path_join d ''daemon.lock''))"

definition dashboard_dir :: "path_env \<Rightarrow> string result" where
  "dashboard_dir pe = base_join pe ''dashboard''"

definition logs_index_dir :: "path_env \<Rightarrow> string result" where
  "logs_index_dir pe = base_join pe ''logs_index''"

definition logs_ingest_state_path :: "path_env \<Rightarrow> string result" where
  "logs_ingest_state_path pe = rbind (logs_index_dir pe) (\<lambda>d. Inr (path_join d ''ingest_state.json''))"

definition projects_path :: "path_env \<Rightarrow> string result" where
  "projects_path pe = base_join pe ''projects.json''"

definition sources_path :: "path_env \<Rightarrow> string result" where
  "sources_path pe = base_join pe ''sources.json''"

definition sources_state_path :: "path_env \<Rightarrow> string result" where
  "sources_state_path pe = base_join pe ''sources_state.json''"

definition runs_dir :: "path_env \<Rightarrow> string result" where
  "runs_dir pe = base_join pe ''runs''"

definition run_dir :: "path_env \<Rightarrow> run_id \<Rightarrow> string result" where
  "run_dir pe run_id =
     rbind (validate_name_for_path_component ''run id'' run_id) (\<lambda>_.
     rbind (runs_dir pe) (\<lambda>d. Inr (path_join d run_id)))"

definition run_manifest_path :: "path_env \<Rightarrow> run_id \<Rightarrow> string result" where
  "run_manifest_path pe run_id = rbind (run_dir pe run_id) (\<lambda>d. Inr (path_join d ''manifest.json''))"

definition run_snapshot_path :: "path_env \<Rightarrow> run_id \<Rightarrow> string result" where
  "run_snapshot_path pe run_id =
     rbind (run_dir pe run_id) (\<lambda>d. Inr (path_join d ''devstack.yml.snapshot''))"

definition run_logs_dir :: "path_env \<Rightarrow> run_id \<Rightarrow> string result" where
  "run_logs_dir pe run_id = rbind (run_dir pe run_id) (\<lambda>d. Inr (path_join d ''logs''))"

definition run_log_path :: "path_env \<Rightarrow> run_id \<Rightarrow> service_name \<Rightarrow> string result" where
  "run_log_path pe run_id service =
     rbind (validate_name_for_path_component ''service'' service) (\<lambda>_.
     rbind (run_logs_dir pe run_id) (\<lambda>d. Inr (path_join d (service @ ''.log''))))"

definition run_task_logs_dir :: "path_env \<Rightarrow> run_id \<Rightarrow> string result" where
  "run_task_logs_dir pe run_id =
     rbind (validate_name_for_path_component ''run id'' run_id) (\<lambda>_.
     rbind (base_join pe ''task-logs'') (\<lambda>d. Inr (path_join d run_id)))"

definition task_log_path :: "path_env \<Rightarrow> run_id \<Rightarrow> string \<Rightarrow> string result" where
  "task_log_path pe run_id task_name =
     rbind (validate_name_for_path_component ''task'' task_name) (\<lambda>_.
     rbind (run_task_logs_dir pe run_id) (\<lambda>d. Inr (path_join d (task_name @ ''.log''))))"

definition task_history_path :: "path_env \<Rightarrow> run_id \<Rightarrow> string result" where
  "task_history_path pe run_id =
     rbind (run_task_logs_dir pe run_id) (\<lambda>d. Inr (path_join d ''history.json''))"

definition globals_root :: "path_env \<Rightarrow> string result" where
  "globals_root pe = base_join pe ''globals''"

definition global_key :: "path_env \<Rightarrow> string \<Rightarrow> string \<Rightarrow> string result" where
  "global_key pe project_dir name =
     rbind (validate_name_for_path_component ''service'' name) (\<lambda>_.
     Inr (project_hash pe project_dir @ ''__'' @ name))"

definition global_dir :: "path_env \<Rightarrow> string \<Rightarrow> string \<Rightarrow> string result" where
  "global_dir pe project_dir name =
     rbind (globals_root pe) (\<lambda>root.
     rbind (global_key pe project_dir name) (\<lambda>key. Inr (path_join root key)))"

definition global_manifest_path :: "path_env \<Rightarrow> string \<Rightarrow> string \<Rightarrow> string result" where
  "global_manifest_path pe project_dir name =
     rbind (global_dir pe project_dir name) (\<lambda>d. Inr (path_join d ''manifest.json''))"

definition global_logs_dir :: "path_env \<Rightarrow> string \<Rightarrow> string \<Rightarrow> string result" where
  "global_logs_dir pe project_dir name =
     rbind (global_dir pe project_dir name) (\<lambda>d. Inr (path_join d ''logs''))"

definition global_log_path :: "path_env \<Rightarrow> string \<Rightarrow> string \<Rightarrow> string result" where
  "global_log_path pe project_dir name =
     rbind (validate_name_for_path_component ''service'' name) (\<lambda>_.
     rbind (global_logs_dir pe project_dir name) (\<lambda>d. Inr (path_join d (name @ ''.log''))))"

definition task_hashes_dir :: "path_env \<Rightarrow> string \<Rightarrow> string result" where
  "task_hashes_dir pe project_dir =
     rbind (base_join pe ''task-hashes'') (\<lambda>d. Inr (path_join d (project_hash pe project_dir)))"

definition ad_hoc_task_logs_dir :: "path_env \<Rightarrow> string \<Rightarrow> string result" where
  "ad_hoc_task_logs_dir pe project_dir =
     rbind (base_join pe ''task-logs'') (\<lambda>d.
     Inr (path_join d (''adhoc-'' @ project_hash pe project_dir)))"

definition ad_hoc_task_log_path :: "path_env \<Rightarrow> string \<Rightarrow> string \<Rightarrow> string result" where
  "ad_hoc_task_log_path pe project_dir task_name =
     rbind (validate_name_for_path_component ''task'' task_name) (\<lambda>_.
     rbind (ad_hoc_task_logs_dir pe project_dir) (\<lambda>d. Inr (path_join d (task_name @ ''.log''))))"

definition ad_hoc_task_history_path :: "path_env \<Rightarrow> string \<Rightarrow> string result" where
  "ad_hoc_task_history_path pe project_dir =
     rbind (ad_hoc_task_logs_dir pe project_dir) (\<lambda>d. Inr (path_join d ''history.json''))"

section \<open>Units and port owners\<close>

text \<open>\<open>InstanceScope\<close> of \<open>src/src/model/instance_scope.rs\<close>.\<close>

datatype instance_scope =
    Scope_Run (scope_run_id: run_id) (scope_stack: string)
  | Scope_Global (scope_key: string) (scope_project_dir: string) (scope_name: string)

definition unit_name_for_run :: "string \<Rightarrow> string \<Rightarrow> string" where
  "unit_name_for_run run_id service =
     ''devstack-run-'' @ sanitize_env_key run_id @ ''-'' @ sanitize_env_key service @ ''.service''"

definition unit_name_for_global :: "string \<Rightarrow> string \<Rightarrow> string" where
  "unit_name_for_global key service =
     ''devstack-global-'' @ sanitize_env_key key @ ''-'' @ sanitize_env_key service @ ''.service''"

fun unit_name_for_scope :: "instance_scope \<Rightarrow> string \<Rightarrow> string" where
  "unit_name_for_scope (Scope_Run run_id stack) service = unit_name_for_run run_id service"
| "unit_name_for_scope (Scope_Global key project_dir name) service = unit_name_for_global key service"

fun log_path_for_scope :: "path_env \<Rightarrow> instance_scope \<Rightarrow> string \<Rightarrow> string \<Rightarrow> string result" where
  "log_path_for_scope pe (Scope_Run run_id stack) project_dir service = run_log_path pe run_id service"
| "log_path_for_scope pe (Scope_Global key pd name) project_dir service =
     global_log_path pe project_dir name"

definition port_owner :: "string \<Rightarrow> string \<Rightarrow> string" where
  "port_owner run_id service = ''run:'' @ run_id @ '':'' @ service"

definition capture_backend_port_owner :: "string \<Rightarrow> string \<Rightarrow> string" where
  "capture_backend_port_owner run_id service =
     ''run:'' @ run_id @ '':'' @ service @ '':api-capture-backend''"

definition global_port_owner :: "string \<Rightarrow> string \<Rightarrow> string" where
  "global_port_owner key service = ''global:'' @ key @ '':'' @ service"

section \<open>Validated names\<close>

text \<open>What validation accepts, as a predicate.\<close>

definition safe_name :: "string \<Rightarrow> bool" where
  "safe_name s \<longleftrightarrow> s \<noteq> [] \<and> s \<noteq> ''.'' \<and> s \<noteq> ''..'' \<and> list_all name_char s"

lemma validate_name_ok: "validate_name_for_path_component kind s = Inr () \<longleftrightarrow> safe_name s"
  by (auto simp: validate_name_for_path_component_def safe_name_def)

lemma validate_name_Inr: "validate_name_for_path_component kind s = Inr u \<longleftrightarrow> safe_name s"
  by (cases u) (simp add: validate_name_ok)

lemma name_char_plain:
  assumes "name_char c"
  shows "c \<noteq> CHR ''/''" and "c \<noteq> CHR '':''" and "c \<noteq> CHR '' ''"
  using assms by (auto simp: name_char_def char_class_defs)

lemma safe_name_no_slash: "safe_name s \<Longrightarrow> CHR ''/'' \<notin> set s"
  by (auto simp: safe_name_def list_all_iff dest: name_char_plain)

lemma safe_name_no_colon: "safe_name s \<Longrightarrow> CHR '':'' \<notin> set s"
  by (auto simp: safe_name_def list_all_iff dest: name_char_plain)

lemma safe_name_relative: "safe_name s \<Longrightarrow> \<not> is_absolute s"
  using safe_name_no_slash [of s] by (auto simp: is_absolute_iff)

lemma safe_name_nonempty: "safe_name s \<Longrightarrow> s \<noteq> []"
  by (simp add: safe_name_def)

lemma safe_name_last: "safe_name s \<Longrightarrow> last s \<noteq> CHR ''/''"
  by (metis last_in_set safe_name_no_slash safe_name_nonempty)

lemmas safe_name_simps = safe_name_nonempty safe_name_last safe_name_relative

text \<open>A separator that does not occur in the left part determines the split.\<close>

lemma append_sep_inj:
  fixes c :: char
  assumes "a @ c # x = b @ c # y" and "c \<notin> set a" and "c \<notin> set b"
  shows "a = b \<and> x = y"
proof -
  from assms(1) have "split_on c (a @ c # x) = split_on c (b @ c # y)" by simp
  then have "a = b \<and> split_on c x = split_on c y"
    using assms(2,3) by (simp add: split_on_append_sep)
  then show ?thesis by (metis join_split_on)
qed

lemma base_join_Inr:
  "base_join pe n = Inr d \<longleftrightarrow> (\<exists>b. pe_base_dir pe = Inr b \<and> d = path_join b n)"
  by (auto simp: base_join_def rbind_eq_Inr)

lemma run_dir_Inr:
  "run_dir pe r = Inr d \<longleftrightarrow>
     (\<exists>b. pe_base_dir pe = Inr b \<and> safe_name r \<and> d = path_join b ''runs'' @ CHR ''/'' # r)"
  by (auto simp: run_dir_def runs_dir_def base_join_Inr rbind_eq_Inr validate_name_Inr
      path_join_dir path_join_last safe_name_simps)

lemma run_log_path_Inr:
  "run_log_path pe r s = Inr p \<longleftrightarrow>
     (\<exists>b. pe_base_dir pe = Inr b \<and> safe_name r \<and> safe_name s \<and>
          p = path_join b ''runs'' @ CHR ''/'' # r @ ''/logs/'' @ s @ ''.log'')"
  by (auto simp: run_log_path_def run_logs_dir_def run_dir_Inr rbind_eq_Inr validate_name_Inr
      path_join_dir path_join_last safe_name_simps)

section \<open>Sanitised names\<close>

lemma sanitize_char_range:
  "is_ascii_upper (sanitize_char c) \<or> is_ascii_digit (sanitize_char c) \<or> sanitize_char c = CHR ''_''"
  by (auto simp: sanitize_char_def to_ascii_uppercase_def char_class_defs)

lemma sanitize_env_key_chars: "c \<in> set (sanitize_env_key s) \<Longrightarrow>
    is_ascii_upper c \<or> is_ascii_digit c \<or> c = CHR ''_''"
  using sanitize_char_range by (fastforce simp: sanitize_env_key_def Let_def split: if_splits)

lemma sanitize_env_key_no_dash: "CHR ''-'' \<notin> set (sanitize_env_key s)"
  using sanitize_env_key_chars by (fastforce simp: char_class_defs)

lemma sanitize_env_key_nonempty: "sanitize_env_key s \<noteq> []"
  by (simp add: sanitize_env_key_def Let_def)

section \<open>Properties\<close>

text \<open>
  A log path that \<open>run_log_path\<close> gives out lies in the \<open>logs\<close> directory of its own
  run's directory below \<open>runs\<close>, both names being single path components that are neither
  \<open>.\<close> nor \<open>..\<close>; two such paths are equal only for the same run and service.
\<close>

theorem run_log_paths_separate:
  assumes "run_log_path pe r s = Inr p" and "run_log_path pe r' s' = Inr p'"
  shows "(p = p' \<longleftrightarrow> r = r' \<and> s = s') \<and>
    (\<exists>d. runs_dir pe = Inr d \<and> p = d @ ''/'' @ r @ ''/logs/'' @ s @ ''.log'' \<and>
      CHR ''/'' \<notin> set r \<union> set s \<and> r \<notin> {[], ''.'', ''..''})"
proof -
  obtain b where b: "pe_base_dir pe = Inr b"
      "p = path_join b ''runs'' @ CHR ''/'' # r @ ''/logs/'' @ s @ ''.log''" "safe_name r" "safe_name s"
    using assms(1) by (auto simp: run_log_path_Inr)
  have b': "p' = path_join b ''runs'' @ CHR ''/'' # r' @ ''/logs/'' @ s' @ ''.log''" "safe_name r'" "safe_name s'"
    using assms(2) b(1) by (auto simp: run_log_path_Inr)
  have "r = r' \<and> s = s'" if "p = p'"
  proof -
    have "r @ CHR ''/'' # ''logs/'' @ s @ ''.log'' = r' @ CHR ''/'' # ''logs/'' @ s' @ ''.log''"
      using that b(2) b'(1) by simp
    from append_sep_inj [OF this safe_name_no_slash [OF b(3)] safe_name_no_slash [OF b'(2)]]
    show ?thesis by simp
  qed
  then have "p = p' \<longleftrightarrow> r = r' \<and> s = s'" using b(2) b'(1) by auto
  moreover have "runs_dir pe = Inr (path_join b ''runs'')"
    using b(1) by (auto simp: runs_dir_def base_join_Inr)
  moreover have "CHR ''/'' \<notin> set r \<union> set s \<and> r \<notin> {[], ''.'', ''..''}"
    using b(3,4) safe_name_no_slash by (auto simp: safe_name_def)
  ultimately show ?thesis using b(2) by auto
qed

definition example_path_env :: path_env where
  "example_path_env =
     \<lparr>pe_base_dir = Inr ''/home/u/.local/share/devstack'', pe_home = Some ''/home/u'',
      pe_blake3_hex = (\<lambda>p. replicate 64 (CHR ''0''))\<rparr>"

theorem run_log_paths_separate_witness:
  "run_log_path example_path_env ''run-1'' ''api'' \<noteq> run_log_path example_path_env ''run-1'' ''web''"
proof -
  have ok: "run_log_path example_path_env ''run-1'' ''api'' =
        Inr ''/home/u/.local/share/devstack/runs/run-1/logs/api.log''"
      "run_log_path example_path_env ''run-1'' ''web'' =
        Inr ''/home/u/.local/share/devstack/runs/run-1/logs/web.log''"
    by (auto simp: run_log_path_Inr example_path_env_def safe_name_def name_char_def char_class_defs
        path_join_def ends_with_single)
  show ?thesis using run_log_paths_separate [OF ok] ok by auto
qed

text \<open>
  The systemd units of two services are the same unit exactly when both the run ids and
  the service names sanitise to the same text; a unit of a run is never a unit of a global.
\<close>

theorem unit_names_equal_iff:
  "(unit_name_for_run r s = unit_name_for_run r' s' \<longleftrightarrow>
      sanitize_env_key r = sanitize_env_key r' \<and> sanitize_env_key s = sanitize_env_key s') \<and>
   (unit_name_for_global r s = unit_name_for_global r' s' \<longleftrightarrow>
      sanitize_env_key r = sanitize_env_key r' \<and> sanitize_env_key s = sanitize_env_key s') \<and>
   unit_name_for_run r s \<noteq> unit_name_for_global r' s'"
proof -
  have eq: "sanitize_env_key a @ CHR ''-'' # sanitize_env_key b @ t =
      sanitize_env_key c @ CHR ''-'' # sanitize_env_key d @ t \<longleftrightarrow>
      sanitize_env_key a = sanitize_env_key c \<and> sanitize_env_key b = sanitize_env_key d" for a b c d t
    using append_sep_inj [OF _ sanitize_env_key_no_dash sanitize_env_key_no_dash]
    by (metis append_same_eq)
  show ?thesis by (simp add: unit_name_for_run_def unit_name_for_global_def eq)
qed

text \<open>Two services a stack may hold together, of which systemd sees one unit.\<close>

lemma unit_name_collision:
  "safe_name ''a-b'' \<and> safe_name ''a_b'' \<and> ''a-b'' \<noteq> ''a_b'' \<and>
   unit_name_for_run r ''a-b'' = unit_name_for_run r ''a_b''"
  by (simp add: unit_name_for_run_def sanitize_env_key_def sanitize_char_def char_class_defs
      safe_name_def name_char_def to_ascii_uppercase_def)

text \<open>
  The owners under which ports are reserved tell services apart: for validated names the
  owner of a service's port, the owner of its capture backend and the owner of a global's port
  are pairwise different, and each determines its run (or key) and service.
\<close>

theorem port_owners_distinct:
  assumes "safe_name r" and "safe_name r'" and "safe_name s" and "safe_name s'"
  shows "(port_owner r s = port_owner r' s' \<longleftrightarrow> r = r' \<and> s = s') \<and>
    (capture_backend_port_owner r s = capture_backend_port_owner r' s' \<longleftrightarrow> r = r' \<and> s = s') \<and>
    port_owner r s \<noteq> capture_backend_port_owner r' s' \<and>
    port_owner r s \<noteq> global_port_owner key name \<and>
    capture_backend_port_owner r s \<noteq> global_port_owner key name"
proof -
  note no_colon = safe_name_no_colon [OF assms(1)] safe_name_no_colon [OF assms(2)]
    safe_name_no_colon [OF assms(3)] safe_name_no_colon [OF assms(4)]
  have run: "r @ CHR '':'' # b = r' @ CHR '':'' # b' \<longleftrightarrow> r = r' \<and> b = b'" for b b'
    using append_sep_inj [OF _ no_colon(1,2)] by blast
  have "s \<noteq> s' @ '':api-capture-backend''" using no_colon(3) by auto
  then show ?thesis
    by (simp add: port_owner_def capture_backend_port_owner_def global_port_owner_def run)
qed

theorem port_owners_distinct_witness:
  "port_owner ''run-1'' ''api'' \<noteq> capture_backend_port_owner ''run-1'' ''api''"
proof -
  have safe: "safe_name ''run-1''" "safe_name ''api''"
    by (auto simp: safe_name_def name_char_def char_class_defs)
  show ?thesis using port_owners_distinct [OF safe(1,1,2,2)] by blast
qed

end
