(* ===== verification/Config.thy ===== *)
theory Config
  imports Names
begin

text \<open>
  The configuration file, \<open>src/src/config/model.rs\<close>: its records, the map type that
  refuses duplicate keys, and the derived settings of a service (scheme, port variable,
  capture, readiness). The readiness types are those of \<open>src/src/model/readiness.rs\<close>, the
  capture defaults those of \<open>src/src/model/service.rs\<close>. A \<open>UniqueMap\<close> is the ordered map
  it wraps; a \<open>Duration\<close> is a number of milliseconds.
\<close>

section \<open>Records\<close>

text \<open>\<open>UniqueMap\<close>'s visitor: entries are inserted in file order, a repeated key is an error.\<close>

type_synonym 'v unique_map = "(string, 'v) bmap"

fun visit_map :: "'v unique_map \<Rightarrow> (string \<times> 'v) list \<Rightarrow> 'v unique_map result" where
  "visit_map values [] = Inr values"
| "visit_map values ((key, value) # rest) =
     (if bm_contains values key then Inl (''duplicate key '' @ debug_str key)
      else visit_map (bm_insert key value values) rest)"

definition unique_map_deserialize :: "(string \<times> 'v) list \<Rightarrow> 'v unique_map result" where
  "unique_map_deserialize entries = visit_map [] entries"

record task_definition =
  td_cmd :: string
  td_cwd :: "string option"
  td_watch :: "string list"
  td_env :: "(string, string) bmap"
  td_env_file :: "string option"

datatype task_config =
    Task_Command string
  | Task_Structured task_definition

datatype port_config =
    Port_None string
  | Port_Fixed u16

record readiness_http =
  rh_path :: string
  rh_expect_status :: "u16 list option"

record readiness_config =
  rc_tcp :: "unit option"
  rc_http :: "readiness_http option"
  rc_log_regex :: "string option"
  rc_cmd :: "string option"
  rc_delay_ms :: "u64 option"
  rc_exit :: "unit option"
  rc_timeout_ms :: "u64 option"

record service_config =
  sc_cmd :: string
  sc_deps :: "string list"
  sc_scheme :: "string option"
  sc_port_env :: "string option"
  sc_port :: "port_config option"
  sc_capture_api :: "bool option"
  sc_capture_api_body_limit :: "usize option"
  sc_capture_api_ignore :: "string list"
  sc_readiness :: "readiness_config option"
  sc_env_file :: "string option"
  sc_env :: "(string, string) bmap"
  sc_cwd :: "string option"
  sc_watch :: "string list"
  sc_ignore :: "string list"
  sc_auto_restart :: bool
  sc_init :: "string list option"
  sc_post_init :: "string list option"
  sc_tasks :: "task_config unique_map option"

record stack_config =
  st_services :: "service_config unique_map"

record config_file =
  cf_version :: "8 word"
  cf_stacks :: "stack_config unique_map"
  cf_default_stack :: "string option"
  cf_globals :: "service_config unique_map option"
  cf_tasks :: "task_config unique_map option"
  cf_env :: "(string, string) bmap"
  cf_env_file :: "string option"

text \<open>The configuration of a service of which only the command is given.\<close>

definition bare_service :: "string \<Rightarrow> service_config" where
  "bare_service cmd =
     \<lparr>sc_cmd = cmd, sc_deps = [], sc_scheme = None, sc_port_env = None, sc_port = None,
      sc_capture_api = None, sc_capture_api_body_limit = None, sc_capture_api_ignore = [],
      sc_readiness = None, sc_env_file = None, sc_env = [], sc_cwd = None, sc_watch = [],
      sc_ignore = [], sc_auto_restart = False, sc_init = None, sc_post_init = None,
      sc_tasks = None\<rparr>"

section \<open>Readiness kinds\<close>

datatype readiness_kind =
    RK_Tcp
  | RK_Http string u16 u16
  | RK_LogRegex string
  | RK_Cmd string
  | RK_Delay nat
  | RK_Exit
  | RK_None

record readiness_spec =
  rs_kind :: readiness_kind
  rs_timeout :: nat

section \<open>Derived settings\<close>

fun port_is_none :: "port_config \<Rightarrow> bool" where
  "port_is_none (Port_None value) = (value = ''none'')"
| "port_is_none (Port_Fixed value) = False"

fun port_fixed :: "port_config \<Rightarrow> u16 option" where
  "port_fixed (Port_Fixed value) = Some value"
| "port_fixed (Port_None value) = None"

definition default_capture_api_body_limit_bytes :: usize where
  "default_capture_api_body_limit_bytes = 256 * 1024"

definition default_capture_api_ignore_paths :: "string list" where
  "default_capture_api_ignore_paths =
     [''/health'', ''/healthz'', ''/api/health'', ''/api/healthz'', ''/ready'', ''/readyz'',
      ''/live'', ''/livez'', ''/ping'', ''/metrics'']"

definition svc_scheme :: "service_config \<Rightarrow> string" where
  "svc_scheme svc = unwrap_or (sc_scheme svc) ''http''"

definition svc_port_env :: "service_config \<Rightarrow> string" where
  "svc_port_env svc = unwrap_or (sc_port_env svc) ''PORT''"

definition svc_capture_api_body_limit :: "service_config \<Rightarrow> usize" where
  "svc_capture_api_body_limit svc =
     unwrap_or (sc_capture_api_body_limit svc) default_capture_api_body_limit_bytes"

definition capture_api_requested :: "service_config \<Rightarrow> bool" where
  "capture_api_requested svc = unwrap_or (sc_capture_api svc) True"

definition capture_api_explicitly_enabled :: "service_config \<Rightarrow> bool" where
  "capture_api_explicitly_enabled svc \<longleftrightarrow> sc_capture_api svc = Some True"

definition has_service_port :: "service_config \<Rightarrow> bool" where
  "has_service_port svc = unwrap_or (map_option (\<lambda>p. \<not> port_is_none p) (sc_port svc)) True"

definition http_capture_by_default :: "service_config \<Rightarrow> bool" where
  "http_capture_by_default svc \<longleftrightarrow>
     sc_scheme svc = Some ''http'' \<or> Option.bind (sc_readiness svc) rc_http \<noteq> None"

definition capture_api_enabled :: "service_config \<Rightarrow> bool \<Rightarrow> bool \<Rightarrow> string \<Rightarrow> bool" where
  "capture_api_enabled svc allowed has_port scheme =
     (if \<not> allowed \<or> \<not> capture_api_requested svc \<or> \<not> has_port \<or> scheme \<noteq> ''http'' then False
      else capture_api_explicitly_enabled svc \<or> http_capture_by_default svc)"

definition push_new :: "string list \<Rightarrow> string \<Rightarrow> string list" where
  "push_new paths pattern = (if pattern \<in> set paths then paths else paths @ [pattern])"

definition capture_api_ignore_paths :: "service_config \<Rightarrow> string list" where
  "capture_api_ignore_paths svc =
     foldl push_new default_capture_api_ignore_paths (sc_capture_api_ignore svc)"

definition cwd_or :: "service_config \<Rightarrow> string \<Rightarrow> string" where
  "cwd_or svc project_dir = unwrap_or (sc_cwd svc) project_dir"

definition normalize_expect_status :: "u16 list option \<Rightarrow> (u16 \<times> u16) result" where
  "normalize_expect_status expected =
     (case expected of
        Some values \<Rightarrow>
          if length values \<noteq> 2 then Inl ''expect_status must have two values''
          else let lo = values ! 0; hi = values ! 1 in
            if hi < lo then Inl ''expect_status min > max'' else Inr (lo, hi)
      | None \<Rightarrow> Inr (200, 399))"

definition chosen_kinds :: "readiness_config \<Rightarrow> readiness_kind list result" where
  "chosen_kinds r =
     rbind (case rc_http r of
              None \<Rightarrow> Inr []
            | Some http \<Rightarrow>
                rbind (normalize_expect_status (rh_expect_status http)) (\<lambda>(lo, hi).
                Inr [RK_Http (rh_path http) lo hi])) (\<lambda>http_kinds.
     Inr ((case rc_tcp r of None \<Rightarrow> [] | Some _ \<Rightarrow> [RK_Tcp]) @ http_kinds
          @ (case rc_log_regex r of None \<Rightarrow> [] | Some regex \<Rightarrow> [RK_LogRegex regex])
          @ (case rc_cmd r of None \<Rightarrow> [] | Some cmd \<Rightarrow> [RK_Cmd cmd])
          @ (case rc_delay_ms r of None \<Rightarrow> [] | Some ms \<Rightarrow> [RK_Delay (unat ms)])
          @ (case rc_exit r of None \<Rightarrow> [] | Some _ \<Rightarrow> [RK_Exit])))"

definition found_checks :: "readiness_config \<Rightarrow> string list" where
  "found_checks r =
     (if rc_tcp r = None then [] else [''tcp''])
     @ (if rc_http r = None then [] else [''http''])
     @ (if rc_log_regex r = None then [] else [''log_regex''])
     @ (if rc_cmd r = None then [] else [''cmd''])
     @ (if rc_delay_ms r = None then [] else [''delay_ms''])
     @ (if rc_exit r = None then [] else [''exit''])"

definition readiness_kind_of :: "service_config \<Rightarrow> bool \<Rightarrow> readiness_kind result" where
  "readiness_kind_of svc has_port =
     (case sc_readiness svc of
        Some r \<Rightarrow>
          rbind (chosen_kinds r) (\<lambda>chosen.
          if length chosen \<noteq> 1 then
            if found_checks r = [] then
              Inl ''readiness must specify exactly one check (found none)''
            else Inl (''readiness must specify exactly one check (found: ''
                      @ join_with '', '' (found_checks r) @ '')'')
          else Inr (hd chosen))
      | None \<Rightarrow> if has_port then Inr RK_Tcp else Inr RK_None)"

definition readiness_spec_of :: "service_config \<Rightarrow> bool \<Rightarrow> readiness_spec result" where
  "readiness_spec_of svc has_port =
     rbind (readiness_kind_of svc has_port) (\<lambda>kind.
     let timeout = unwrap_or (map_option unat (Option.bind (sc_readiness svc) rc_timeout_ms)) 30000
     in Inr \<lparr>rs_kind = kind, rs_timeout = timeout\<rparr>)"

section \<open>The capture body limit\<close>

datatype capture_api_body_limit_config =
    Limit_Bytes usize
  | Limit_Text string

definition parse_usize :: "string \<Rightarrow> usize result" where
  "parse_usize digits =
     (if digits_value digits < 2 ^ 64 then Inr (of_nat (digits_value digits))
      else Inl ''number too large to fit in target type'')"

definition checked_mul :: "usize \<Rightarrow> usize \<Rightarrow> usize option" where
  "checked_mul a b = (if unat a * unat b < 2 ^ 64 then Some (a * b) else None)"

definition unit_multiplier :: "string \<Rightarrow> usize option" where
  "unit_multiplier unit =
     (if unit \<in> {'''', ''b'', ''byte'', ''bytes''} then Some 1
      else if unit \<in> {''k'', ''kb'', ''kib''} then Some 1024
      else if unit \<in> {''m'', ''mb'', ''mib''} then Some (1024 * 1024)
      else if unit \<in> {''g'', ''gb'', ''gib''} then Some (1024 * 1024 * 1024)
      else None)"

fun parse_capture_api_body_limit :: "capture_api_body_limit_config \<Rightarrow> usize result" where
  "parse_capture_api_body_limit (Limit_Bytes bytes) = Inr bytes"
| "parse_capture_api_body_limit (Limit_Text text0) =
     (let text = trim text0 in
      if text = [] then Inl ''capture_api_body_limit cannot be empty''
      else let digits = takeWhile is_ascii_digit text in
      if digits = [] then Inl ''capture_api_body_limit must start with a byte count''
      else rbind (parse_usize digits) (\<lambda>count.
        let unit = filter (\<lambda>c. c \<noteq> CHR '' '')
                     (map to_ascii_lowercase (trim (dropWhile is_ascii_digit text))) in
        (case unit_multiplier unit of
           None \<Rightarrow> Inl (''unsupported capture_api_body_limit unit '' @ debug_str unit
                        @ ''; use bytes, kb, mb, or gb'')
         | Some multiplier \<Rightarrow>
             ok_or ''capture_api_body_limit is too large'' (checked_mul count multiplier))))"

section \<open>Facts about the derived settings\<close>

lemma visit_map_Inr:
  assumes "bm_ok acc"
  shows "visit_map acc kvs = Inr m \<longleftrightarrow>
    distinct (map fst kvs) \<and> set (map fst kvs) \<inter> set (bm_keys acc) = {} \<and> m = bm_extend acc kvs"
  using assms
proof (induction acc kvs arbitrary: m rule: visit_map.induct)
  case (2 acc k v rest)
  then show ?case
    by (auto simp: bm_contains_iff bm_ok_insert)
qed auto

lemma map_of_rev_distinct: "distinct (map fst kvs) \<Longrightarrow> map_of (rev kvs) = map_of kvs"
  by (rule map_of_inject_set [THEN iffD2]) (auto simp: rev_map [symmetric])

lemma unique_map_deserialize_Inr:
  "unique_map_deserialize kvs = Inr m \<longleftrightarrow>
     distinct (map fst kvs) \<and> bm_ok m \<and> map_of m = map_of kvs"
proof -
  have "unique_map_deserialize kvs = Inr m \<longleftrightarrow> distinct (map fst kvs) \<and> m = bm_extend [] kvs"
    by (simp add: unique_map_deserialize_def visit_map_Inr)
  moreover have "bm_ok (bm_extend ([] :: (string, 'a) bmap) kvs)" by (rule bm_ok_extend) simp
  moreover have "distinct (map fst kvs) \<Longrightarrow> map_of (bm_extend [] kvs) = map_of kvs"
    by (simp add: map_of_bm_extend map_of_rev_distinct)
  ultimately show ?thesis by (metis bm_ok_eqI)
qed

lemma push_new_fold_set: "set (foldl push_new acc ps) = set acc \<union> set ps"
  by (induction ps arbitrary: acc) (auto simp: push_new_def)

lemma push_new_fold_distinct: "distinct acc \<Longrightarrow> distinct (foldl push_new acc ps)"
  by (induction ps arbitrary: acc) (auto simp: push_new_def)

lemma chosen_found_length:
  "chosen_kinds r = Inr ks \<Longrightarrow> length ks = length (found_checks r)"
  by (auto simp: chosen_kinds_def found_checks_def rbind_eq_Inr split: option.splits)

lemma readiness_spec_kind:
  "readiness_spec_of svc hp = Inr spec \<Longrightarrow> readiness_kind_of svc hp = Inr (rs_kind spec)"
  by (auto simp: readiness_spec_of_def rbind_eq_Inr Let_def)

lemma readiness_spec_of_ok:
  "(\<exists>spec. readiness_spec_of svc hp = Inr spec) \<longleftrightarrow> (\<exists>k. readiness_kind_of svc hp = Inr k)"
  by (auto simp: readiness_spec_of_def rbind_eq_Inr Let_def)

lemma readiness_kind_of_ok_iff:
  "(\<exists>k. readiness_kind_of svc hp = Inr k) \<longleftrightarrow>
     (case sc_readiness svc of
        None \<Rightarrow> True
      | Some r \<Rightarrow> length (found_checks r) = 1 \<and>
          (\<forall>http. rc_http r = Some http \<longrightarrow>
             (\<exists>lo_hi. normalize_expect_status (rh_expect_status http) = Inr lo_hi)))"
proof (cases "sc_readiness svc")
  case (Some r)
  have "(\<exists>ks. chosen_kinds r = Inr ks) \<longleftrightarrow>
      (\<forall>http. rc_http r = Some http \<longrightarrow>
         (\<exists>lo_hi. normalize_expect_status (rh_expect_status http) = Inr lo_hi))"
    by (auto simp: chosen_kinds_def rbind_eq_Inr split: option.splits)
  moreover have "(\<exists>k. readiness_kind_of svc hp = Inr k) \<longleftrightarrow>
      (\<exists>ks. chosen_kinds r = Inr ks \<and> length ks = 1)"
    using Some by (cases "chosen_kinds r") (auto simp: readiness_kind_of_def)
  ultimately show ?thesis
    using Some chosen_found_length [of r] by auto
qed (auto simp: readiness_kind_of_def)

lemma readiness_kind_independent_of_port:
  "(\<exists>k. readiness_kind_of svc hp = Inr k) \<longleftrightarrow> (\<exists>k. readiness_kind_of svc hp' = Inr k)"
  by (simp add: readiness_kind_of_ok_iff)

section \<open>Facts about the body limit\<close>

lemma checked_mul_Some:
  "checked_mul a b = Some c \<longleftrightarrow> unat a * unat b < 2 ^ 64 \<and> unat c = unat a * unat b"
proof -
  have "unat (a * b) = unat a * unat b" if "unat a * unat b < 2 ^ 64"
    using that unat_mult_lem [of a b] by simp
  then show ?thesis
    by (auto simp: checked_mul_def) (metis word_unat_eq_iff)
qed

lemma whitespace_not_digit: "is_whitespace c \<Longrightarrow> \<not> is_ascii_digit c"
  by (auto simp: char_class_defs)

lemma trim_start_pad:
  "list_all is_whitespace ws \<Longrightarrow> s = [] \<or> \<not> is_whitespace (hd s) \<Longrightarrow> trim_start (ws @ s) = s"
  by (induction ws) (cases s; auto simp: trim_start_def)+

lemma trim_end_pad:
  "list_all is_whitespace ws \<Longrightarrow> s = [] \<or> \<not> is_whitespace (last s) \<Longrightarrow> trim_end (s @ ws) = s"
proof (induction ws rule: rev_induct)
  case Nil
  then show ?case by (cases s rule: rev_cases) (auto simp: trim_end_def)
next
  case (snoc w ws)
  then show ?case by (auto simp: trim_end_def)
qed

lemma trim_pad:
  assumes "list_all is_whitespace ws" and "list_all is_whitespace ws'"
    and "s \<noteq> []" and "\<not> is_whitespace (hd s)" and "\<not> is_whitespace (last s)"
  shows "trim (ws @ s @ ws') = s"
  using assms by (simp add: trim_def trim_start_pad trim_end_pad)

section \<open>Properties\<close>

text \<open>
  The text form of \<open>capture_api_body_limit\<close> with any white space around the count and the
  unit, in any case of letters, gives exactly the count times the unit's size when the
  product fits in 64 bits, and an error otherwise: it never wraps.
\<close>

theorem capture_limit_text:
  assumes "list_all is_whitespace w1" and "list_all is_whitespace w2" and "list_all is_whitespace w3"
    and "u \<noteq> []" and "list_all is_ascii_alphanumeric u" and "\<not> is_ascii_digit (hd u)"
    and "unit_multiplier (map to_ascii_lowercase u) = Some m"
  shows "parse_capture_api_body_limit (Limit_Text (w1 @ show_nat n @ w2 @ u @ w3)) =
    (if 2 ^ 64 \<le> n then Inl ''number too large to fit in target type''
     else if 2 ^ 64 \<le> n * unat m then Inl ''capture_api_body_limit is too large''
     else Inr (word_of_nat (n * unat m)))"
proof -
  have alnum: "\<not> is_whitespace c \<and> c \<noteq> CHR '' ''" if "is_ascii_alphanumeric c" for c
    using that by (auto simp: char_class_defs)
  have u: "\<not> is_whitespace (hd u)" "\<not> is_whitespace (last u)"
    using assms(4,5) alnum by (auto simp: list_all_iff)
  have digits: "list_all is_ascii_digit (show_nat n)" by (simp add: list_all_iff show_nat_digits)
  have head: "\<not> is_whitespace (hd (show_nat n))"
    using whitespace_not_digit show_nat_digits [of "hd (show_nat n)" n] by auto
  define body where "body = show_nat n @ w2 @ u"
  have trim: "trim (w1 @ body @ w3) = body"
    using assms(1,3,4) head u(2) by (intro trim_pad) (auto simp: body_def)
  have stop: "w2 @ u \<noteq> [] \<and> \<not> is_ascii_digit (hd (w2 @ u))"
    using assms(2,4,6) whitespace_not_digit by (cases w2) auto
  have "takeWhile is_ascii_digit body = show_nat n"
    using digits stop unfolding body_def by (cases "w2 @ u") (auto simp: list_all_iff takeWhile_append2)
  moreover have "dropWhile is_ascii_digit body = w2 @ u"
    using digits stop unfolding body_def by (cases "w2 @ u") (auto simp: list_all_iff dropWhile_append2)
  moreover have "trim (w2 @ u) = u" using trim_pad [of w2 "[]" u] assms(2,4) u by simp
  moreover have "filter (\<lambda>c. c \<noteq> CHR '' '') (map to_ascii_lowercase u) = map to_ascii_lowercase u"
  proof -
    have "to_ascii_lowercase c \<noteq> CHR '' ''" if "is_ascii_alphanumeric c" for c
    proof
      assume "to_ascii_lowercase c = CHR '' ''"
      then have "(code (to_ascii_lowercase c) :: nat) = 32" by simp
      then show False using that by (auto simp: code_to_ascii_lowercase char_class_defs split: if_splits)
    qed
    then show ?thesis using assms(5) by (auto simp: filter_id_conv list_all_iff)
  qed
  moreover have "body \<noteq> []" by (simp add: body_def)
  ultimately have eq: "parse_capture_api_body_limit (Limit_Text (w1 @ body @ w3)) =
      rbind (parse_usize (show_nat n)) (\<lambda>count.
        ok_or ''capture_api_body_limit is too large'' (checked_mul count m))"
    using assms(7) by (simp add: trim Let_def)
  have unat_n: "unat (word_of_nat n :: usize) = n" if "n < 2 ^ 64"
    using that by (simp add: unsigned_of_nat take_bit_nat_eq_self_iff)
  have mono: "n * unat m < 2 ^ 64 \<Longrightarrow> unat m \<noteq> 0 \<Longrightarrow> n < 2 ^ 64"
    by (metis le_less_trans mult.right_neutral mult_le_mono2 less_one not_less)
  show ?thesis
  proof (cases "n < 2 ^ 64")
    case True
    then show ?thesis
      using eq unat_n by (auto simp: body_def parse_usize_def digits_value_show_nat checked_mul_def)
  next
    case False
    then show ?thesis using eq by (simp add: body_def parse_usize_def digits_value_show_nat)
  qed
qed

lemma show_nat_512: "show_nat 512 = ''512''"
  by code_simp

theorem capture_limit_text_witness:
  "parse_capture_api_body_limit (Limit_Text '' 512 KiB '') = Inr 524288"
proof -
  have unit: "unit_multiplier (map to_ascii_lowercase ''KiB'') = Some 1024" by code_simp
  show ?thesis
    using capture_limit_text [of "'' ''" "'' ''" "'' ''" "''KiB''" 1024 512, OF _ _ _ _ _ _ unit]
    by (simp add: char_class_defs show_nat_512 del: parse_capture_api_body_limit.simps)
qed

text \<open>
  The readiness check of a service is well formed exactly when its section names one
  check and any expected status range has two ordered bounds, whether or not the service has
  a port; without a section the check is a TCP connect when there is a port and none otherwise.
\<close>

theorem readiness_kind_exactly_one:
  "(\<exists>k. readiness_kind_of svc has_port = Inr k) =
     (case sc_readiness svc of
        None \<Rightarrow> True
      | Some r \<Rightarrow> length (found_checks r) = 1 \<and>
          (case Option.bind (rc_http r) rh_expect_status of
             None \<Rightarrow> True
           | Some expected \<Rightarrow> (\<exists>lo hi. expected = [lo, hi] \<and> lo \<le> hi))) \<and>
   readiness_kind_of (svc\<lparr>sc_readiness := None\<rparr>) has_port =
     Inr (if has_port then RK_Tcp else RK_None)"
proof -
  have "(\<exists>lh. normalize_expect_status e = Inr lh) \<longleftrightarrow>
      (case e of None \<Rightarrow> True | Some expected \<Rightarrow> (\<exists>lo hi. expected = [lo, hi] \<and> lo \<le> hi))" for e
  proof (cases e)
    case (Some expected)
    then show ?thesis
      by (cases expected; cases "tl expected"; cases "tl (tl expected)")
        (auto simp: normalize_expect_status_def Let_def not_less)
  qed (simp add: normalize_expect_status_def)
  then have "(\<exists>k. readiness_kind_of svc has_port = Inr k) =
     (case sc_readiness svc of
        None \<Rightarrow> True
      | Some r \<Rightarrow> length (found_checks r) = 1 \<and>
          (case Option.bind (rc_http r) rh_expect_status of
             None \<Rightarrow> True
           | Some expected \<Rightarrow> (\<exists>lo hi. expected = [lo, hi] \<and> lo \<le> hi)))"
    by (cases "sc_readiness svc"; cases "rc_http (the (sc_readiness svc))")
      (simp_all add: readiness_kind_of_ok_iff)
  then show ?thesis by (simp add: readiness_kind_of_def)
qed

text \<open>
  A map of the configuration file is accepted exactly when no key occurs twice, and then
  holds exactly the entries of the file.
\<close>

theorem unique_map_accepts_distinct:
  "(unique_map_deserialize kvs = Inr m) =
     (distinct (map fst kvs) \<and> bm_ok m \<and> map_of m = map_of kvs)"
  by (rule unique_map_deserialize_Inr)

end
