(* ===== verification/Config_Plan.thy ===== *)
theory Config_Plan
  imports Config
begin

text \<open>
  The start order of a stack, \<open>src/src/config/plan.rs\<close>: Kahn's algorithm over the
  dependencies of the services, and the restriction of a plan to the services some targets
  need. A degree is an \<open>int\<close> (the source's is an \<open>i32\<close>, which overflows only past
  \<open>2 ^ 31\<close> dependencies of one service). The main results: the order is a permutation of
  the services with every dependency first, it exists exactly when the dependencies have no
  cycle, and the restriction keeps what the targets reach.
\<close>

section \<open>Kahn's algorithm\<close>

type_synonym services = "(string, service_config) bmap"
type_synonym dep_graph = "(string, string list) bmap"
type_synonym degrees = "(string, int) bmap"

definition add_dep_edge :: "string \<Rightarrow> dep_graph \<times> degrees \<Rightarrow> string \<Rightarrow> dep_graph \<times> degrees" where
  "add_dep_edge service_name gd dep =
     (let (graph, in_degree) = gd in
      if bm_contains graph dep then
        (bm_update dep (\<lambda>edges. edges @ [service_name]) graph,
         bm_update service_name (\<lambda>d. d + 1) in_degree)
      else (graph, in_degree))"

definition add_service_edges :: "dep_graph \<times> degrees \<Rightarrow> string \<times> service_config \<Rightarrow> dep_graph \<times> degrees" where
  "add_service_edges gd entry = foldl (add_dep_edge (fst entry)) gd (sc_deps (snd entry))"

definition build_dep_graph :: "services \<Rightarrow> dep_graph \<times> degrees" where
  "build_dep_graph services =
     foldl add_service_edges (bm_map (\<lambda>_ _. []) services, bm_map (\<lambda>_ _. 0) services) services"

definition relax :: "string list \<times> degrees \<Rightarrow> string \<Rightarrow> string list \<times> degrees" where
  "relax qd dependent =
     (let (queue, in_degree) = qd;
          in_degree' = bm_update dependent (\<lambda>d. d - 1) in_degree in
      (if map_of in_degree' dependent = Some 0 then queue @ [dependent] else queue, in_degree'))"

definition pos_count :: "degrees \<Rightarrow> nat" where
  "pos_count in_degree = length (filter (\<lambda>(k, d). 0 < d) in_degree)"

lemma pos_count_decr: "pos_count (bm_update k (\<lambda>d. d - 1) deg) \<le> pos_count deg"
  by (induction deg) (auto simp: pos_count_def bm_update_def split: if_splits)

lemma pos_count_decr_zero:
  "map_of deg k = Some 1 \<Longrightarrow> pos_count (bm_update k (\<lambda>d. d - 1) deg) < pos_count deg"
proof (induction deg)
  case (Cons kd deg)
  then show ?case
    using pos_count_decr [of k deg]
    by (cases kd) (auto simp: pos_count_def bm_update_def split: if_splits)
qed simp

lemma relax_measure:
  "length (fst (relax qd x)) + pos_count (snd (relax qd x)) \<le> length (fst qd) + pos_count (snd qd)"
proof -
  obtain q deg where qd: "qd = (q, deg)" by fastforce
  show ?thesis
  proof (cases "map_of deg x = Some 1")
    case True
    then show ?thesis using pos_count_decr_zero [OF True] by (simp add: qd relax_def)
  next
    case False
    then have "map_of (bm_update x (\<lambda>d. d - 1) deg) x \<noteq> Some 0" by (auto simp: bmap_simps)
    then show ?thesis using pos_count_decr [of x deg] by (simp add: qd relax_def)
  qed
qed

lemma relax_fold_measure:
  "length (fst (foldl relax qd ds)) + pos_count (snd (foldl relax qd ds))
     \<le> length (fst qd) + pos_count (snd qd)"
proof (induction ds arbitrary: qd)
  case (Cons x ds)
  show ?case using Cons [of "relax qd x"] relax_measure [of qd x] by simp
qed simp

function topo_loop :: "dep_graph \<Rightarrow> string list \<Rightarrow> degrees \<Rightarrow> string list \<Rightarrow> string list" where
  "topo_loop graph [] in_degree result = result"
| "topo_loop graph (service # queue) in_degree result =
     (let qd = foldl relax (queue, in_degree) (unwrap_or (map_of graph service) []) in
      topo_loop graph (fst qd) (snd qd) (result @ [service]))"
  by pat_completeness auto
termination
proof (relation "measure (\<lambda>(graph, queue, deg, result). length queue + pos_count deg)")
  fix graph :: dep_graph and service queue and in_degree :: degrees and result qd
  assume "qd = foldl relax (queue, in_degree) (unwrap_or (map_of graph service) [])"
  then show "((graph, fst qd, snd qd, result @ [service]), graph, service # queue, in_degree, result)
      \<in> measure (\<lambda>(graph, queue, deg, result). length queue + pos_count deg)"
    using relax_fold_measure [of "(queue, in_degree)" "unwrap_or (map_of graph service) []"] by simp
qed simp

definition topo_order :: "services \<Rightarrow> string list" where
  "topo_order services =
     (let (graph, in_degree) = build_dep_graph services;
          queue = map fst (filter (\<lambda>(_, degree). degree = 0) in_degree) in
      topo_loop graph queue in_degree [])"

definition topo_sort :: "services \<Rightarrow> string list result" where
  "topo_sort services =
     (let result = topo_order services in
      if length result \<noteq> length services then Inl ''circular dependency detected''
      else Inr result)"

section \<open>Plans\<close>

record stack_plan =
  sp_name :: string
  sp_services :: services
  sp_order :: "string list"

definition stack_plan_of :: "config_file \<Rightarrow> string \<Rightarrow> stack_plan result" where
  "stack_plan_of config name =
     (case map_of (cf_stacks config) name of
        None \<Rightarrow> Inl (''stack '' @ name @ '' not found'')
      | Some stack \<Rightarrow>
          let services = st_services stack in
          rbind (topo_sort services) (\<lambda>order.
          Inr \<lparr>sp_name = name, sp_services = services, sp_order = order\<rparr>))"

text \<open>The loop of \<open>filter_to\<close>: \<open>needed\<close> is its \<open>BTreeSet\<close>, the list its queue.\<close>

function filter_loop :: "services \<Rightarrow> string \<Rightarrow> string set \<Rightarrow> string list \<Rightarrow> string set result" where
  "filter_loop services plan_name needed [] = Inr needed"
| "filter_loop services plan_name needed (name # queue) =
     (case map_of services name of
        None \<Rightarrow> Inl (''unknown service '' @ quoted name @ '' in stack '' @ quoted plan_name)
      | Some svc \<Rightarrow>
          if name \<in> needed then filter_loop services plan_name needed queue
          else filter_loop services plan_name (insert name needed) (queue @ sc_deps svc))"
  by pat_completeness auto
termination
proof (relation "inv_image (less_than <*lex*> less_than)
    (\<lambda>(services, plan_name, needed, queue). (card (dom (map_of services) - needed), length queue))")
  fix services :: services and plan_name name :: string and needed queue svc
  assume svc: "map_of services name = Some svc" and new: "name \<notin> needed"
  have "dom (map_of services) - insert name needed \<subset> dom (map_of services) - needed"
    using svc new by auto
  then have "card (dom (map_of services) - insert name needed) < card (dom (map_of services) - needed)"
    by (intro psubset_card_mono) (auto simp: finite_dom_map_of)
  then show "((services, plan_name, insert name needed, queue @ sc_deps svc), services, plan_name, needed, name # queue)
      \<in> inv_image (less_than <*lex*> less_than)
          (\<lambda>(services, plan_name, needed, queue). (card (dom (map_of services) - needed), length queue))"
    by simp
qed auto

definition filter_to :: "stack_plan \<Rightarrow> string list \<Rightarrow> stack_plan result" where
  "filter_to plan targets =
     rbind (filter_loop (sp_services plan) (sp_name plan) {} targets) (\<lambda>needed.
     Inr \<lparr>sp_name = sp_name plan,
          sp_services = bm_retain (\<lambda>name _. name \<in> needed) (sp_services plan),
          sp_order = filter (\<lambda>name. name \<in> needed) (sp_order plan)\<rparr>)"

definition stack_plan_filtered :: "config_file \<Rightarrow> string \<Rightarrow> string list \<Rightarrow> stack_plan result" where
  "stack_plan_filtered config name only =
     rbind (stack_plan_of config name) (\<lambda>plan.
     if only = [] then Inr plan else filter_to plan only)"

definition globals_map :: "config_file \<Rightarrow> services" where
  "globals_map config = unwrap_or (cf_globals config) []"

section \<open>The dependency graph\<close>

definition deps_of :: "services \<Rightarrow> string \<Rightarrow> string list" where
  "deps_of services s = (case map_of services s of None \<Rightarrow> [] | Some svc \<Rightarrow> sc_deps svc)"

definition known_deps :: "services \<Rightarrow> string \<Rightarrow> string list" where
  "known_deps services s = filter (bm_contains services) (deps_of services s)"

text \<open>\<open>(d, s)\<close>: service \<open>s\<close> of the stack depends on the service \<open>d\<close> of the stack.\<close>

definition dep_rel :: "services \<Rightarrow> (string \<times> string) set" where
  "dep_rel services = {(d, s). d \<in> set (known_deps services s)}"

lemma deps_of_absent: "map_of services s = None \<Longrightarrow> deps_of services s = []"
  by (simp add: deps_of_def)

lemma add_dep_edge_fold:
  assumes "foldl (add_dep_edge s0) (g, dg) ds = (g', dg')"
  shows "map_of g' d = map_option (\<lambda>e. e @ replicate (count_list ds d) s0) (map_of g d) \<and>
    map_of dg' = (map_of dg)(s0 := map_option (\<lambda>n. n + int (length (filter (bm_contains g) ds))) (map_of dg s0))"
  using assms
proof (induction ds arbitrary: g dg)
  case Nil
  then show ?case by (auto simp: option.map_ident)
next
  case (Cons x ds)
  obtain g1 dg1 where step: "add_dep_edge s0 (g, dg) x = (g1, dg1)" by fastforce
  have contains: "bm_contains g1 = bm_contains g"
    using step by (auto simp: add_dep_edge_def bm_contains_def fun_eq_iff split: if_splits)
  have rest: "foldl (add_dep_edge s0) (g1, dg1) ds = (g', dg')" using Cons.prems step by simp
  have "map_of g1 d = map_option (\<lambda>e. e @ (if d = x then [s0] else [])) (map_of g d)"
    using step by (auto simp: add_dep_edge_def bm_contains_def option.map_ident split: if_splits)
  moreover have "map_of dg1 = (map_of dg)(s0 := map_option (\<lambda>n. n + (if bm_contains g x then 1 else 0)) (map_of dg s0))"
    using step by (auto simp: add_dep_edge_def option.map_ident split: if_splits)
  ultimately show ?case
    using Cons.IH [OF rest] by (cases "map_of g d"; cases "map_of dg s0") (auto simp: contains)
qed

lemma add_service_edges_fold:
  assumes "distinct (map fst es)"
    and "\<And>k. map_of g0 k = (if k \<in> K then Some [] else None)"
    and "\<And>k. map_of dg0 k = (if k \<in> K then Some 0 else None)"
    and "foldl add_service_edges (g0, dg0) es = (g, dg)"
  shows "\<forall>d. map_of g d = None \<longleftrightarrow> d \<notin> K"
    and "\<forall>d e. map_of g d = Some e \<longrightarrow> (\<forall>s. count_list e s = count_list (deps_of es s) d)"
    and "\<forall>s. map_of dg s = (if s \<in> K then Some (int (length (filter (\<lambda>d. d \<in> K) (deps_of es s)))) else None)"
proof -
  have "(\<forall>d. map_of g d = None \<longleftrightarrow> d \<notin> K)
      \<and> (\<forall>d e. map_of g d = Some e \<longrightarrow> (\<forall>s. count_list e s = count_list (deps_of es s) d))
      \<and> (\<forall>s. map_of dg s = (if s \<in> K then Some (int (length (filter (\<lambda>d. d \<in> K) (deps_of es s)))) else None))"
    using assms(1,4)
  proof (induction es arbitrary: g dg rule: rev_induct)
    case Nil
    then show ?case using assms(2,3) by (auto simp: deps_of_def split: if_splits)
  next
    case (snoc e es)
    obtain s0 svc where e: "e = (s0, svc)" by fastforce
    obtain g1 dg1 where before: "foldl add_service_edges (g0, dg0) es = (g1, dg1)" by fastforce
    have step: "foldl (add_dep_edge s0) (g1, dg1) (sc_deps svc) = (g, dg)"
    proof -
      have "add_service_edges (g1, dg1) e = (g, dg)" using snoc.prems(2) before by simp
      then show ?thesis by (simp add: e add_service_edges_def)
    qed
    have new: "map_of es s0 = None" using snoc.prems(1) by (auto simp: e map_of_eq_None_iff)
    have deps: "deps_of (es @ [e]) s = (if s = s0 then sc_deps svc else deps_of es s)" for s
      using new by (auto simp: deps_of_def e map_add_def split: option.splits)
    have deps0: "deps_of es s0 = []" using new by (rule deps_of_absent)
    have ih: "\<forall>d. map_of g1 d = None \<longleftrightarrow> d \<notin> K"
      "\<forall>d e. map_of g1 d = Some e \<longrightarrow> (\<forall>s. count_list e s = count_list (deps_of es s) d)"
      "\<forall>s. map_of dg1 s = (if s \<in> K then Some (int (length (filter (\<lambda>d. d \<in> K) (deps_of es s)))) else None)"
      using snoc.IH [OF _ before] snoc.prems(1) by auto
    have contains: "bm_contains g1 = (\<lambda>d. d \<in> K)"
      using ih(1) by (auto simp: bm_contains_def fun_eq_iff)
    note g = conjunct1 [OF add_dep_edge_fold [OF step]]
    note dg = conjunct2 [OF add_dep_edge_fold [OF step]]
    have "count_list (replicate n s0) s = (if s = s0 then n else 0)" for n s
      by (induction n) auto
    then show ?case
      using ih deps0 by (auto simp: g dg deps contains)
  qed
  then show "\<forall>d. map_of g d = None \<longleftrightarrow> d \<notin> K"
    and "\<forall>d e. map_of g d = Some e \<longrightarrow> (\<forall>s. count_list e s = count_list (deps_of es s) d)"
    and "\<forall>s. map_of dg s = (if s \<in> K then Some (int (length (filter (\<lambda>d. d \<in> K) (deps_of es s)))) else None)"
    by blast+
qed

lemma build_dep_graph_spec:
  assumes "bm_ok services" and "build_dep_graph services = (g, dg)"
  shows "map_of g d = None \<longleftrightarrow> \<not> bm_contains services d"
    and "map_of g d = Some e \<Longrightarrow> count_list e s = count_list (deps_of services s) d"
    and "map_of dg s = (if bm_contains services s then Some (int (length (known_deps services s))) else None)"
    and "bm_keys dg = bm_keys services"
proof -
  let ?K = "{k. bm_contains services k}"
  have dist: "distinct (map fst services)"
    using bm_ok_distinct [OF assms(1)] by (simp add: bm_keys_def)
  have g0: "map_of (bm_map (\<lambda>_ _. []) services) k = (if k \<in> ?K then Some [] else None)"
    and dg0: "map_of (bm_map (\<lambda>_ _. 0) services) k = (if k \<in> ?K then Some 0 else None)" for k
    by (auto simp: bm_contains_def)
  note fold = add_service_edges_fold [OF dist g0 dg0 assms(2) [unfolded build_dep_graph_def]]
  show "map_of g d = None \<longleftrightarrow> \<not> bm_contains services d"
    and "map_of g d = Some e \<Longrightarrow> count_list e s = count_list (deps_of services s) d"
    and "map_of dg s = (if bm_contains services s then Some (int (length (known_deps services s))) else None)"
    using fold by (auto simp: known_deps_def)
  have inner: "bm_keys (snd (foldl (add_dep_edge s0) gd ds)) = bm_keys (snd gd)" for s0 gd ds
    by (induction ds arbitrary: gd) (auto simp: add_dep_edge_def split: prod.splits)
  have "bm_keys (snd (foldl add_service_edges gd es)) = bm_keys (snd gd)" for gd es
    by (induction es arbitrary: gd) (auto simp: add_service_edges_def inner)
  from this [of _ services] show "bm_keys dg = bm_keys services"
    using assms(2) by (metis bm_keys_map build_dep_graph_def snd_conv)
qed

section \<open>One round of the loop\<close>

text \<open>
  Visiting the dependents \<open>ds\<close> of a service takes each degree down by the number of
  occurrences and queues, once each, the services whose degree reaches zero.
\<close>

lemma relax_fold:
  assumes "foldl relax (q, deg) ds = (q', deg')"
    and "\<forall>k. int (count_list ds k) \<le> D k" and "\<forall>k. map_of deg k = (if k \<in> K then Some (D k) else None)"
    and "set ds \<subseteq> K"
  shows "\<exists>p. q' = q @ p \<and> distinct p \<and> set p = {k \<in> K. 0 < D k \<and> D k = int (count_list ds k)} \<and>
    (\<forall>k. map_of deg' k = (if k \<in> K then Some (D k - int (count_list ds k)) else None))"
  using assms
proof (induction ds arbitrary: q deg D)
  case Nil
  then show ?case by auto
next
  case (Cons x ds)
  let ?D = "D(x := D x - 1)"
  obtain q1 deg1 where step: "relax (q, deg) x = (q1, deg1)" by fastforce
  have x: "x \<in> K" "1 \<le> D x" using Cons.prems(2,4) by (auto dest: spec [of _ x])
  have rest: "foldl relax (q1, deg1) ds = (q', deg')" using Cons.prems(1) step by simp
  have deg1: "\<forall>k. map_of deg1 k = (if k \<in> K then Some (?D k) else None)"
    using step Cons.prems(3) x by (auto simp: relax_def split: if_splits)
  have q1: "q1 = (if D x = 1 then q @ [x] else q)"
    using step Cons.prems(3) x by (auto simp: relax_def split: if_splits)
  have bound: "\<forall>k. int (count_list ds k) \<le> ?D k"
  proof
    fix k show "int (count_list ds k) \<le> ?D k"
      using Cons.prems(2) [THEN spec, of k] by (auto split: if_splits)
  qed
  obtain p where p: "q' = q1 @ p" "distinct p"
      "set p = {k \<in> K. 0 < ?D k \<and> ?D k = int (count_list ds k)}"
      "\<forall>k. map_of deg' k = (if k \<in> K then Some (?D k - int (count_list ds k)) else None)"
    using Cons.IH [OF rest bound deg1] Cons.prems(4) by auto
  have deg': "\<forall>k. map_of deg' k = (if k \<in> K then Some (D k - int (count_list (x # ds) k)) else None)"
    using p(4) by auto
  show ?case
  proof (cases "D x = 1")
    case True
    then have none: "count_list ds x = 0" using bound [THEN spec, of x] by simp
    have "set (x # p) = {k \<in> K. 0 < D k \<and> D k = int (count_list (x # ds) k)}"
      using x none True by (auto simp: p(3))
    moreover have "x \<notin> set p" using True by (simp add: p(3))
    ultimately show ?thesis
      using True p(1,2) deg' q1 by (intro exI [of _ "x # p"]) auto
  next
    case False
    have "set p = {k \<in> K. 0 < D k \<and> D k = int (count_list (x # ds) k)}"
      using x False by (auto simp: p(3))
    then show ?thesis
      using False p(1,2) deg' q1 by (intro exI [of _ p]) auto
  qed
qed

section \<open>The loop invariant\<close>

text \<open>Every dependency of a listed service stands before it.\<close>

definition deps_first :: "services \<Rightarrow> string list \<Rightarrow> bool" where
  "deps_first services order \<longleftrightarrow>
     (\<forall>i < length order. set (known_deps services (order ! i)) \<subseteq> set (take i order))"

text \<open>The degree of a service: its dependencies outside the result.\<close>

definition open_deps :: "services \<Rightarrow> string list \<Rightarrow> string \<Rightarrow> int" where
  "open_deps services result s =
     int (length (filter (\<lambda>d. d \<notin> set result) (known_deps services s)))"

definition topo_inv :: "services \<Rightarrow> string list \<Rightarrow> degrees \<Rightarrow> string list \<Rightarrow> bool" where
  "topo_inv services queue deg result \<longleftrightarrow>
     distinct (result @ queue) \<and>
     set (result @ queue) = {s. bm_contains services s \<and> open_deps services result s = 0} \<and>
     (\<forall>s. map_of deg s = (if bm_contains services s then Some (open_deps services result s) else None)) \<and>
     deps_first services result"

lemma deps_first_snoc:
  "deps_first services (order @ [s]) \<longleftrightarrow>
     deps_first services order \<and> set (known_deps services s) \<subseteq> set order"
  by (auto simp: deps_first_def nth_append less_Suc_eq)

lemma filter_notin_snoc:
  "s \<notin> set result \<Longrightarrow>
   length (filter (\<lambda>d. d \<notin> set result) xs) =
     length (filter (\<lambda>d. d \<notin> set (result @ [s])) xs) + count_list xs s"
  by (induction xs) auto

lemma open_deps_snoc:
  assumes "s \<notin> set result" and "bm_contains services s"
  shows "open_deps services (result @ [s]) k =
    open_deps services result k - int (count_list (deps_of services k) s)"
proof -
  have "count_list (known_deps services k) s = count_list (deps_of services k) s"
  proof -
    have "count_list (filter P xs) s = count_list xs s" if "P s" for P and xs :: "string list"
      using that by (induction xs) auto
    then show ?thesis using assms(2) by (simp add: known_deps_def)
  qed
  then show ?thesis
    using filter_notin_snoc [OF assms(1), of "known_deps services k"] by (simp add: open_deps_def)
qed

lemma open_deps_zero: "open_deps services result s = 0 \<longleftrightarrow> set (known_deps services s) \<subseteq> set result"
  by (auto simp: open_deps_def filter_empty_conv)

lemma known_deps_subset: "d \<in> set (known_deps services s) \<Longrightarrow> bm_contains services d"
  by (simp add: known_deps_def)

lemma known_deps_owner: "d \<in> set (known_deps services s) \<Longrightarrow> bm_contains services s"
  by (cases "map_of services s") (auto simp: known_deps_def deps_of_def bm_contains_def)

lemma topo_inv_step:
  assumes ok: "bm_ok services" and graph: "build_dep_graph services = (graph, dg)"
    and inv: "topo_inv services (s # queue) deg result"
    and step: "foldl relax (queue, deg) (unwrap_or (map_of graph s) []) = (q', deg')"
  shows "topo_inv services q' deg' (result @ [s])"
proof -
  let ?K = "{k. bm_contains services k}"
  have s: "bm_contains services s" "s \<notin> set result" "s \<notin> set queue" "open_deps services result s = 0"
    using inv unfolding topo_inv_def by auto
  obtain ds where ds: "map_of graph s = Some ds"
    using build_dep_graph_spec(1) [OF ok graph, of s] s(1) by auto
  have count: "count_list ds k = count_list (deps_of services k) s" for k
    by (rule build_dep_graph_spec(2) [OF ok graph ds])
  have snoc: "open_deps services (result @ [s]) k = open_deps services result k - int (count_list ds k)" for k
    using open_deps_snoc [OF s(2,1)] by (simp add: count)
  have nonneg: "0 \<le> open_deps services r k" for r k by (simp add: open_deps_def)
  have bound: "\<forall>k. int (count_list ds k) \<le> open_deps services result k"
    using snoc nonneg by (metis diff_ge_0_iff_ge)
  have known: "set ds \<subseteq> ?K"
  proof
    fix k assume "k \<in> set ds"
    then have "count_list (deps_of services k) s \<noteq> 0" by (metis count count_list_0_iff)
    then show "k \<in> ?K" by (auto simp: deps_of_def bm_contains_def split: option.splits)
  qed
  have degs: "\<forall>k. map_of deg k = (if k \<in> ?K then Some (open_deps services result k) else None)"
    using inv by (simp add: topo_inv_def)
  obtain p where p: "q' = queue @ p" "distinct p"
      "set p = {k \<in> ?K. 0 < open_deps services result k \<and> open_deps services result k = int (count_list ds k)}"
      "\<forall>k. map_of deg' k = (if k \<in> ?K then Some (open_deps services result k - int (count_list ds k)) else None)"
    using relax_fold [OF _ bound degs known, of queue q' deg'] step by (auto simp: ds)
  have old: "set (result @ s # queue) = {k. bm_contains services k \<and> open_deps services result k = 0}"
    and dist: "distinct (result @ s # queue)"
    using inv by (simp_all add: topo_inv_def)
  have "open_deps services (result @ [s]) k = 0 \<longleftrightarrow>
      open_deps services result k = 0 \<or>
      (0 < open_deps services result k \<and> open_deps services result k = int (count_list ds k))" for k
    using bound [THEN spec, of k] nonneg [of result k] by (auto simp: snoc)
  then have "set ((result @ [s]) @ q') = {k. bm_contains services k \<and> open_deps services (result @ [s]) k = 0}"
    using old by (auto simp: p(1,3))
  moreover have "set p \<inter> set (result @ s # queue) = {}"
    unfolding old p(3) by auto
  then have "distinct ((result @ [s]) @ q')"
    using dist p(2) by (auto simp: p(1))
  moreover have "deps_first services (result @ [s])"
    using inv s(4) by (simp add: deps_first_snoc topo_inv_def open_deps_zero)
  ultimately show ?thesis
    using p(4) by (simp add: topo_inv_def snoc)
qed

section \<open>Correctness of the order\<close>

lemma topo_loop_inv:
  assumes "bm_ok services" and "build_dep_graph services = (graph, dg)"
    and "topo_inv services queue deg result"
  shows "\<exists>deg'. topo_inv services [] deg' (topo_loop graph queue deg result)"
  using assms
proof (induction graph queue deg result rule: topo_loop.induct)
  case (2 graph service queue deg result)
  obtain q' deg' where qd: "foldl relax (queue, deg) (unwrap_or (map_of graph service) []) = (q', deg')"
    by fastforce
  have "topo_inv services q' deg' (result @ [service])"
    by (rule topo_inv_step [OF "2.prems" qd])
  then show ?case using "2.IH" "2.prems"(1,2) qd by simp
qed auto

lemma topo_inv_start:
  assumes "bm_ok services" and "build_dep_graph services = (graph, deg)"
  shows "topo_inv services (map fst (filter (\<lambda>(_, degree). degree = 0) deg)) deg []"
proof -
  note spec = build_dep_graph_spec [OF assms]
  have ok: "bm_ok deg" using spec(4) assms(1) by (simp add: bm_ok_def bm_keys_def)
  have "set (map fst (filter (\<lambda>(_, degree). degree = 0) deg)) = {s. map_of deg s = Some 0}"
    using bm_entry_iff [OF ok] by force
  moreover have "distinct (map fst (filter (\<lambda>(_, degree). degree = 0) deg))"
    using bm_ok_distinct [OF ok] by (simp add: bm_keys_def distinct_map_filter)
  ultimately show ?thesis
    by (auto simp: topo_inv_def spec(3) open_deps_def deps_first_def split: if_splits)
qed

lemma topo_order_inv:
  assumes "bm_ok services"
  shows "\<exists>deg. topo_inv services [] deg (topo_order services)"
proof -
  obtain graph deg where g: "build_dep_graph services = (graph, deg)" by fastforce
  show ?thesis
    using topo_loop_inv [OF assms g topo_inv_start [OF assms g]] by (simp add: topo_order_def g)
qed

lemma bm_keys_card: "bm_ok m \<Longrightarrow> card (set (bm_keys m)) = length m"
  by (metis bm_keys_def bm_ok_distinct distinct_card length_map)

lemma topo_sort_Inr:
  assumes "bm_ok services"
  shows "topo_sort services = Inr order \<longleftrightarrow>
    order = topo_order services \<and> set order = set (bm_keys services)"
proof -
  obtain deg where inv: "topo_inv services [] deg (topo_order services)"
    using topo_order_inv [OF assms] by blast
  have sub: "set (topo_order services) \<subseteq> set (bm_keys services)"
    and dist: "distinct (topo_order services)"
    using inv by (auto simp: topo_inv_def bm_contains_iff)
  have "length (topo_order services) = length services \<longleftrightarrow> set (topo_order services) = set (bm_keys services)"
    using sub dist bm_keys_card [OF assms]
    by (metis List.finite_set card_subset_eq distinct_card)
  then show ?thesis by (auto simp: topo_sort_def Let_def)
qed

lemma topo_sort_Inl:
  "topo_sort services = Inl e \<Longrightarrow> e = ''circular dependency detected''"
  by (simp add: topo_sort_def Let_def split: if_splits)

lemma topo_sort_sound:
  assumes "bm_ok services" and "topo_sort services = Inr order"
  shows "distinct order" and "set order = set (bm_keys services)" and "deps_first services order"
proof -
  obtain deg where "topo_inv services [] deg (topo_order services)"
    using topo_order_inv [OF assms(1)] by blast
  then show "distinct order" and "deps_first services order"
    using assms by (auto simp: topo_sort_Inr topo_inv_def)
  show "set order = set (bm_keys services)"
    using topo_sort_Inr [OF assms(1)] assms(2) by blast
qed

lemma deps_first_acyclic:
  assumes "deps_first services order" and "set order = set (bm_keys services)"
  shows "acyclic (dep_rel services)"
proof -
  define pos where "pos s = (LEAST i. i < length order \<and> order ! i = s)" for s
  have less: "pos d < pos s" if "(d, s) \<in> dep_rel services" for d s
  proof -
    have d: "d \<in> set (known_deps services s)" using that by (simp add: dep_rel_def)
    then have "s \<in> set order"
      using assms(2) known_deps_owner by (auto simp: bm_contains_iff)
    then have s: "pos s < length order \<and> order ! pos s = s"
      unfolding pos_def by (metis (mono_tags, lifting) LeastI in_set_conv_nth)
    then have "set (known_deps services (order ! pos s)) \<subseteq> set (take (pos s) order)"
      using assms(1) s unfolding deps_first_def by blast
    then have "d \<in> set (take (pos s) order)" using d s by auto
    then obtain i where "i < pos s" "order ! i = d" using s by (auto simp: in_set_conv_nth)
    then show ?thesis
      using s unfolding pos_def [of d] by (metis (mono_tags, lifting) Least_le le_less_trans less_trans)
  qed
  have "wf (dep_rel services)"
    by (rule wf_subset [OF wf_measure [of pos]]) (auto simp: less)
  then show ?thesis by (rule wf_acyclic)
qed

lemma dep_rel_finite: "finite (dep_rel services)"
proof (rule finite_subset)
  show "dep_rel services \<subseteq> set (bm_keys services) \<times> set (bm_keys services)"
    using known_deps_owner known_deps_subset by (fastforce simp: dep_rel_def bm_contains_iff)
qed simp

lemma topo_sort_complete:
  assumes "bm_ok services" and "acyclic (dep_rel services)"
  shows "topo_sort services = Inr (topo_order services)"
proof -
  obtain deg where inv: "topo_inv services [] deg (topo_order services)"
    using topo_order_inv [OF assms(1)] by blast
  have "s \<in> set (topo_order services)" if "bm_contains services s" for s
    using finite_acyclic_wf [OF dep_rel_finite assms(2)] that
  proof (induction s rule: wf_induct_rule)
    case (less s)
    then have "set (known_deps services s) \<subseteq> set (topo_order services)"
      by (auto simp: dep_rel_def known_deps_subset)
    then have "open_deps services (topo_order services) s = 0" by (simp add: open_deps_zero)
    then show ?case using less.prems inv by (auto simp: topo_inv_def)
  qed
  moreover have "set (topo_order services) \<subseteq> set (bm_keys services)"
    using inv by (auto simp: topo_inv_def bm_contains_iff)
  ultimately show ?thesis using assms(1) by (auto simp: topo_sort_Inr bm_contains_iff)
qed

section \<open>Restricting a plan\<close>

text \<open>What the targets reach along the dependencies, known or not.\<close>

definition needs :: "services \<Rightarrow> (string \<times> string) set" where
  "needs services = {(s, d). d \<in> set (deps_of services s)}"

definition reachable :: "services \<Rightarrow> string list \<Rightarrow> string set" where
  "reachable services targets = (needs services)\<^sup>* `` set targets"

lemma filter_loop_spec:
  assumes "needed \<union> set queue \<subseteq> reachable services targets"
    and "set targets \<subseteq> needed \<union> set queue"
    and "\<forall>s \<in> needed. bm_contains services s \<and> set (deps_of services s) \<subseteq> needed \<union> set queue"
  shows "case filter_loop services plan_name needed queue of
      Inr result \<Rightarrow> result = reachable services targets \<and> (\<forall>s \<in> result. bm_contains services s)
    | Inl e \<Rightarrow> (\<exists>s \<in> reachable services targets. \<not> bm_contains services s)"
  using assms
proof (induction services plan_name needed queue rule: filter_loop.induct)
  case (1 services plan_name needed)
  have "needs services `` needed \<subseteq> needed" using "1.prems"(3) by (auto simp: needs_def)
  then have "(needs services)\<^sup>* `` needed = needed" by (rule Image_closed_trancl)
  then have "reachable services targets \<subseteq> needed"
    using "1.prems"(2) unfolding reachable_def by (metis Image_mono Un_empty_right order_refl set_empty2)
  then show ?case using "1.prems" by auto
next
  case (2 services plan_name needed name queue)
  show ?case
  proof (cases "map_of services name")
    case None
    then show ?thesis using "2.prems"(1) by (auto simp: bm_contains_def)
  next
    case (Some svc)
    show ?thesis
    proof (cases "name \<in> needed")
      case True
      then have "needed \<union> set (name # queue) = needed \<union> set queue" by auto
      then show ?thesis using "2.IH"(1) [OF Some True] "2.prems" Some True by simp
    next
      case False
      have deps: "deps_of services name = sc_deps svc" by (simp add: deps_of_def Some)
      have "name \<in> reachable services targets" using "2.prems"(1) by simp
      then have "set (sc_deps svc) \<subseteq> reachable services targets"
        unfolding reachable_def deps [symmetric] by (auto simp: needs_def intro: rtrancl_into_rtrancl)
      then have "insert name needed \<union> set (queue @ sc_deps svc) \<subseteq> reachable services targets"
        using "2.prems"(1) by auto
      moreover have "set targets \<subseteq> insert name needed \<union> set (queue @ sc_deps svc)"
        using "2.prems"(2) by auto
      moreover have "\<forall>s \<in> insert name needed. bm_contains services s \<and>
          set (deps_of services s) \<subseteq> insert name needed \<union> set (queue @ sc_deps svc)"
        using "2.prems"(3) by (auto simp: deps bm_contains_def Some)
      ultimately show ?thesis using "2.IH"(2) [OF Some False] Some False by simp
    qed
  qed
qed

lemma filter_loop_start:
  "case filter_loop services plan_name {} targets of
      Inr result \<Rightarrow> result = reachable services targets \<and> (\<forall>s \<in> result. bm_contains services s)
    | Inl e \<Rightarrow> (\<exists>s \<in> reachable services targets. \<not> bm_contains services s)"
  by (rule filter_loop_spec) (auto simp: reachable_def)

lemma filter_to_Inr:
  assumes "filter_to plan targets = Inr plan'"
  shows "\<forall>s \<in> reachable (sp_services plan) targets. bm_contains (sp_services plan) s"
    and "sp_services plan' = bm_retain (\<lambda>s _. s \<in> reachable (sp_services plan) targets) (sp_services plan)"
    and "sp_order plan' = filter (\<lambda>s. s \<in> reachable (sp_services plan) targets) (sp_order plan)"
  using assms filter_loop_start [of "sp_services plan" targets "sp_name plan"]
  by (auto simp: filter_to_def rbind_eq_Inr split: sum.splits)

lemma filter_to_Inl:
  "(\<exists>e. filter_to plan targets = Inl e) \<longleftrightarrow>
     (\<exists>s \<in> reachable (sp_services plan) targets. \<not> bm_contains (sp_services plan) s)"
  using filter_loop_start [of "sp_services plan" targets "sp_name plan"]
  by (auto simp: filter_to_def rbind_eq_Inl split: sum.splits)

lemma deps_first_filter:
  assumes "deps_first services order" and "distinct order"
    and "\<And>s d. s \<in> N \<Longrightarrow> d \<in> set (known_deps services s) \<Longrightarrow> d \<in> N"
    and "\<And>s. s \<in> N \<Longrightarrow> known_deps services' s = known_deps services s"
  shows "deps_first services' (filter (\<lambda>s. s \<in> N) order)"
  using assms(1,2)
proof (induction order rule: rev_induct)
  case (snoc s order)
  then show ?case
    using assms(3,4) by (auto simp: deps_first_snoc)
qed (simp add: deps_first_def)

section \<open>Properties\<close>

lemma deps_first_iff:
  "deps_first services order \<longleftrightarrow>
     (\<forall>i < length order. \<forall>d \<in> set (deps_of services (order ! i)).
        bm_contains services d \<longrightarrow> d \<in> set (take i order))"
  by (auto simp: deps_first_def known_deps_def)

text \<open>
  C1. When \<open>topo_sort\<close> returns an order, the order lists every service of the stack exactly
  once, and every dependency of a service that is in the stack stands before the service.
\<close>

theorem topo_sort_orders_services:
  assumes "bm_ok services" and "topo_sort services = Inr order"
  shows "distinct order \<and> set order = set (bm_keys services) \<and>
    (\<forall>i < length order. \<forall>d \<in> set (deps_of services (order ! i)).
       bm_contains services d \<longrightarrow> d \<in> set (take i order))"
  using topo_sort_sound [OF assms] by (simp add: deps_first_iff)

definition example_services :: services where
  "example_services =
     [(''api'', bare_service ''run-api''\<lparr>sc_deps := [''db'', ''mq'']\<rparr>),
      (''db'', bare_service ''run-db''),
      (''mq'', bare_service ''run-mq''\<lparr>sc_deps := [''db'']\<rparr>)]"

definition cyclic_services :: services where
  "cyclic_services =
     [(''a'', bare_service ''run-a''\<lparr>sc_deps := [''b'']\<rparr>),
      (''b'', bare_service ''run-b''\<lparr>sc_deps := [''a'']\<rparr>)]"

lemmas topo_eval = build_dep_graph_def add_service_edges_def add_dep_edge_def relax_def bm_map_def
  bm_update_def bm_contains_def topo_order_def topo_sort_def bare_service_def Let_def

lemma example_services_ok: "bm_ok example_services"
  by (simp add: example_services_def bm_ok_def)

lemma cyclic_services_ok: "bm_ok cyclic_services"
  by (simp add: cyclic_services_def bm_ok_def)

lemma example_order: "topo_sort example_services = Inr [''db'', ''mq'', ''api'']"
  by (simp add: example_services_def topo_eval)

lemma cyclic_order: "topo_sort cyclic_services = Inl ''circular dependency detected''"
  by (simp add: cyclic_services_def topo_eval)

theorem topo_sort_orders_services_witness:
  "topo_sort example_services = Inr [''db'', ''mq'', ''api''] \<and>
   set (bm_keys example_services) = {''db'', ''mq'', ''api''} \<and>
   ''db'' \<in> set (take 1 [''db'', ''mq'', ''api''])"
  using topo_sort_orders_services [OF example_services_ok example_order] example_order by simp

text \<open>
  C2. \<open>topo_sort\<close> fails, with the message about a circular dependency, exactly when the
  dependencies inside the stack have a cycle: an acyclic stack always has its order.
\<close>

theorem topo_sort_fails_iff_cyclic:
  assumes "bm_ok services"
  shows "topo_sort services = Inl ''circular dependency detected'' \<longleftrightarrow> \<not> acyclic (dep_rel services)"
proof (cases "topo_sort services")
  case (Inl e)
  then show ?thesis using topo_sort_Inl [OF Inl] topo_sort_complete [OF assms] by auto
next
  case (Inr order)
  then show ?thesis using topo_sort_sound [OF assms Inr] deps_first_acyclic by auto
qed

theorem topo_sort_fails_iff_cyclic_witness: "\<not> acyclic (dep_rel cyclic_services)"
  using topo_sort_fails_iff_cyclic [OF cyclic_services_ok] cyclic_order by simp

text \<open>
  C3. A plan restricted to some targets starts exactly the services the targets reach along
  their dependencies, each after the dependencies it needs; the restriction succeeds exactly
  when everything the targets reach is a service of the stack.
\<close>

theorem stack_plan_filtered_services:
  assumes "map_of (cf_stacks config) name = Some stack" and "bm_ok (st_services stack)"
    and "acyclic (dep_rel (st_services stack))" and "only \<noteq> []"
  shows "case stack_plan_filtered config name only of
      Inl e \<Rightarrow> \<not> reachable (st_services stack) only \<subseteq> set (bm_keys (st_services stack))
    | Inr plan \<Rightarrow>
        set (bm_keys (sp_services plan)) = reachable (st_services stack) only \<and>
        distinct (sp_order plan) \<and> set (sp_order plan) = reachable (st_services stack) only \<and>
        deps_first (st_services stack) (sp_order plan) \<and>
        (\<forall>s \<in> set (sp_order plan). map_of (sp_services plan) s = map_of (st_services stack) s)"
proof -
  let ?S = "st_services stack" and ?R = "reachable (st_services stack) only"
  have sort: "topo_sort ?S = Inr (topo_order ?S)" by (rule topo_sort_complete [OF assms(2,3)])
  note sound = topo_sort_sound [OF assms(2) sort]
  define plan where "plan = \<lparr>sp_name = name, sp_services = ?S, sp_order = topo_order ?S\<rparr>"
  have eq: "stack_plan_filtered config name only = filter_to plan only"
    using assms(1,4) sort by (simp add: stack_plan_filtered_def stack_plan_of_def plan_def Let_def)
  have sub: "?R \<subseteq> set (bm_keys ?S) \<longleftrightarrow> (\<forall>s \<in> ?R. bm_contains ?S s)"
    by (auto simp: bm_contains_iff)
  have closed: "d \<in> ?R" if "s \<in> ?R" "d \<in> set (known_deps ?S s)" for s d
    using that by (auto simp: reachable_def needs_def known_deps_def intro: rtrancl_into_rtrancl)
  show ?thesis
  proof (cases "filter_to plan only")
    case (Inl e)
    then show ?thesis using filter_to_Inl [of plan only] sub by (auto simp: eq plan_def)
  next
    case (Inr plan')
    note F = filter_to_Inr [OF Inr]
    have R: "?R \<subseteq> set (bm_keys ?S)" using F(1) sub by (simp add: plan_def)
    have get: "map_of (sp_services plan') s = (if s \<in> ?R then map_of ?S s else None)" for s
      using F(2) assms(2) by (auto simp: plan_def map_of_bm_retain split: option.splits)
    have keys: "set (bm_keys (sp_services plan')) = ?R"
      using R by (auto simp: set_bm_keys get domIff split: if_splits)
    have order: "sp_order plan' = filter (\<lambda>s. s \<in> ?R) (topo_order ?S)" using F(3) by (simp add: plan_def)
    have "set (sp_order plan') = ?R" using R sound(2) by (auto simp: order)
    moreover have "deps_first ?S (sp_order plan')"
      unfolding order by (rule deps_first_filter [OF sound(3,1) closed]) auto
    ultimately show ?thesis
      using Inr keys sound(1) get by (simp add: eq order)
  qed
qed

definition example_config :: config_file where
  "example_config =
     \<lparr>cf_version = 1, cf_stacks = [(''dev'', \<lparr>st_services = example_services\<rparr>)],
      cf_default_stack = Some ''dev'', cf_globals = None, cf_tasks = None, cf_env = [],
      cf_env_file = None\<rparr>"

lemma example_acyclic: "acyclic (dep_rel example_services)"
  using topo_sort_sound [OF example_services_ok example_order] by (intro deps_first_acyclic)

theorem stack_plan_filtered_services_witness:
  "case stack_plan_filtered example_config ''dev'' [''mq''] of
     Inl e \<Rightarrow> False
   | Inr plan \<Rightarrow> sp_order plan = [''db'', ''mq''] \<and> set (bm_keys (sp_services plan)) = {''db'', ''mq''}"
proof -
  have run: "stack_plan_filtered example_config ''dev'' [''mq''] =
      Inr \<lparr>sp_name = ''dev'', sp_services = drop 1 example_services, sp_order = [''db'', ''mq'']\<rparr>"
    using example_order
    by (simp add: stack_plan_filtered_def stack_plan_of_def example_config_def filter_to_def
        example_services_def bm_retain_def bare_service_def Let_def)
  show ?thesis
    using stack_plan_filtered_services [of example_config "''dev''" "\<lparr>st_services = example_services\<rparr>" "[''mq'']"]
      example_services_ok example_acyclic run
    by (auto simp: example_config_def)
qed

end
