(* ===== verification/Config_Validate.thy ===== *)
theory Config_Validate
  imports Config_Plan
begin

text \<open>
  Loading and validation of the configuration: \<open>src/src/config/validate.rs\<close> and
  \<open>src/src/config/load.rs\<close>. The parsers of TOML and YAML and the file system are
  parameters. The main result: what validation accepts can be planned, for every stack.
\<close>

section \<open>Checks of one service\<close>

definition in_stack :: "string \<Rightarrow> string \<Rightarrow> string \<Rightarrow> string" where
  "in_stack stack service msg = ''service '' @ service @ '' in stack '' @ stack @ '': '' @ msg"

definition validate_service_port :: "string \<Rightarrow> string \<Rightarrow> service_config \<Rightarrow> unit result" where
  "validate_service_port stack service svc =
     (case sc_port svc of
        Some (Port_Fixed port_num) \<Rightarrow>
          if \<not> (1024 \<le> port_num \<and> port_num \<le> 65535) then
            Inl (in_stack stack service
              (''port must be in range 1024-65535, got '' @ show_word port_num))
          else Inr ()
      | Some (Port_None value) \<Rightarrow>
          if value \<noteq> ''none'' then
            Inl (in_stack stack service (''invalid port value '' @ [CHR 0x22] @ value @ [CHR 0x22]
              @ '', must be a number or '' @ [CHR 0x22] @ ''none'' @ [CHR 0x22]))
          else Inr ()
      | None \<Rightarrow> Inr ())"

definition validate_service_capture ::
  "string \<Rightarrow> string \<Rightarrow> service_config \<Rightarrow> bool \<Rightarrow> unit result" where
  "validate_service_capture stack service svc allowed =
     (if \<not> capture_api_requested svc then Inr ()
      else if \<not> allowed then
        if capture_api_explicitly_enabled svc then
          Inl (in_stack stack service ''capture_api is only supported for stack services'')
        else Inr ()
      else if \<not> has_service_port svc then
        if capture_api_explicitly_enabled svc then
          Inl (in_stack stack service ''capture_api requires a service port'')
        else Inr ()
      else if svc_scheme svc \<noteq> ''http'' then
        if capture_api_explicitly_enabled svc then
          Inl (in_stack stack service ''capture_api only supports http services'')
        else Inr ()
      else Inr ())"

definition validate_service_readiness :: "string \<Rightarrow> string \<Rightarrow> service_config \<Rightarrow> unit result" where
  "validate_service_readiness stack service svc =
     (let has_port = unwrap_or (map_option (\<lambda>p. \<not> port_is_none p) (sc_port svc)) True in
      rbind (map_err (\<lambda>err. in_stack stack service (''readiness error: '' @ err))
               (readiness_kind_of svc has_port)) (\<lambda>_. Inr ()))"

definition validate_service_tasks :: "string \<Rightarrow> string \<Rightarrow> service_config \<Rightarrow> unit result" where
  "validate_service_tasks stack service svc =
     (case sc_tasks svc of
        None \<Rightarrow> Inr ()
      | Some tasks \<Rightarrow>
          rforeach (\<lambda>task_name.
            map_err (\<lambda>err. ''invalid task name on service '' @ service @ '' in stack '' @ stack @ '': '' @ err)
              (validate_name_for_path_component ''task'' task_name)) (bm_keys tasks))"

definition has_task :: "string \<Rightarrow> service_config \<Rightarrow> task_config unique_map option \<Rightarrow> bool" where
  "has_task name service global_tasks =
     (if (\<exists>ts \<in> set_option (sc_tasks service). bm_contains ts name) then True
      else if (\<exists>ts \<in> set_option global_tasks. bm_contains ts name) then True
      else False)"

definition validate_service_init_tasks ::
  "string \<Rightarrow> string \<Rightarrow> service_config \<Rightarrow> task_config unique_map option \<Rightarrow> unit result" where
  "validate_service_init_tasks stack service svc global_tasks =
     (case sc_init svc of
        None \<Rightarrow> Inr ()
      | Some init_tasks \<Rightarrow>
          rforeach (\<lambda>init_task.
            if \<not> has_task init_task svc global_tasks then
              Inl (in_stack stack service (''unknown init task '' @ quoted init_task))
            else Inr ()) init_tasks)"

definition validate_service_post_init_tasks ::
  "string \<Rightarrow> string \<Rightarrow> service_config \<Rightarrow> task_config unique_map option \<Rightarrow> unit result" where
  "validate_service_post_init_tasks stack service svc global_tasks =
     (case sc_post_init svc of
        None \<Rightarrow> Inr ()
      | Some post_init_tasks \<Rightarrow>
          rforeach (\<lambda>post_init_task.
            if \<not> has_task post_init_task svc global_tasks then
              Inl (in_stack stack service (''unknown post_init task '' @ quoted post_init_task))
            else Inr ()) post_init_tasks)"

definition validate_service_auto_restart :: "string \<Rightarrow> string \<Rightarrow> service_config \<Rightarrow> unit result" where
  "validate_service_auto_restart stack service svc =
     (if sc_auto_restart svc \<and> sc_watch svc = [] then
        Inl (in_stack stack service ''auto_restart requires watch patterns'')
      else Inr ())"

text \<open>The checks that stack services and globals share, in the order both run them.\<close>

definition validate_service ::
  "string \<Rightarrow> string \<Rightarrow> service_config \<Rightarrow> bool \<Rightarrow> task_config unique_map option \<Rightarrow> unit result" where
  "validate_service stack svc_name svc capture_allowed tasks =
     rbind (validate_service_port stack svc_name svc) (\<lambda>_.
     rbind (validate_service_capture stack svc_name svc capture_allowed) (\<lambda>_.
     rbind (validate_service_readiness stack svc_name svc) (\<lambda>_.
     rbind (validate_service_tasks stack svc_name svc) (\<lambda>_.
     rbind (validate_service_init_tasks stack svc_name svc tasks) (\<lambda>_.
     rbind (validate_service_post_init_tasks stack svc_name svc tasks) (\<lambda>_.
     validate_service_auto_restart stack svc_name svc))))))"

section \<open>The whole file\<close>

definition validate_stack :: "task_config unique_map option \<Rightarrow> string \<times> stack_config \<Rightarrow> unit result" where
  "validate_stack tasks entry =
     (let (stack_name, stack) = entry; services = st_services stack in
      rbind (rforeach (\<lambda>(svc_name, svc).
        rbind (map_err (\<lambda>err. ''invalid service name in stack '' @ quoted stack_name @ '': '' @ err)
                 (validate_name_for_path_component ''service'' svc_name)) (\<lambda>_.
        rbind (validate_service stack_name svc_name svc True tasks) (\<lambda>_.
        rforeach (\<lambda>dep.
          if \<not> bm_contains services dep then
            Inl (''service '' @ quoted svc_name @ '' in stack '' @ quoted stack_name
                 @ '' depends on unknown service '' @ quoted dep)
          else Inr ()) (sc_deps svc)))) services) (\<lambda>_.
      rbind (map_err (\<lambda>err. ''stack '' @ quoted stack_name @ '': '' @ err) (topo_sort services)) (\<lambda>_.
      Inr ())))"

definition validate_global :: "task_config unique_map option \<Rightarrow> string \<times> service_config \<Rightarrow> unit result" where
  "validate_global tasks entry =
     (let (svc_name, svc) = entry in
      rbind (map_err (\<lambda>err. ''invalid global service name: '' @ err)
               (validate_name_for_path_component ''service'' svc_name)) (\<lambda>_.
      rbind (validate_service ''globals'' svc_name svc False tasks) (\<lambda>_.
      if sc_deps svc \<noteq> [] then Inl (''global service '' @ quoted svc_name @ '' cannot have deps'')
      else Inr ())))"

definition validate_config :: "config_file \<Rightarrow> unit result" where
  "validate_config config =
     rbind (case cf_default_stack config of
              None \<Rightarrow> Inr ()
            | Some default_stack \<Rightarrow>
                if \<not> bm_contains (cf_stacks config) default_stack then
                  Inl (''default_stack '' @ quoted default_stack @ '' not found in stacks'')
                else Inr ()) (\<lambda>_.
     rbind (rforeach (validate_stack (cf_tasks config)) (cf_stacks config)) (\<lambda>_.
     rbind (case cf_tasks config of
              None \<Rightarrow> Inr ()
            | Some tasks \<Rightarrow>
                rforeach (\<lambda>task_name. map_err (\<lambda>err. ''invalid task name: '' @ err)
                    (validate_name_for_path_component ''task'' task_name)) (bm_keys tasks)) (\<lambda>_.
     case cf_globals config of
       None \<Rightarrow> Inr ()
     | Some globals \<Rightarrow> rforeach (validate_global (cf_tasks config)) globals)))"

section \<open>Loading\<close>

text \<open>What loading takes from outside: the bytes of a file, the UTF-8 check and the two parsers.\<close>

record config_loader =
  cl_read :: "string \<Rightarrow> string result"
  cl_utf8 :: "string \<Rightarrow> string result"
  cl_toml :: "string \<Rightarrow> config_file result"
  cl_yaml :: "string \<Rightarrow> config_file result"

text \<open>\<open>Path::extension\<close>: what follows the last dot of the file name, a leading dot excepted.\<close>

definition path_extension :: "string \<Rightarrow> string option" where
  "path_extension path =
     (let parts = split_on (CHR ''.'') (last (split_on (CHR ''/'') path)) in
      if length parts \<le> 1 \<or> (length parts = 2 \<and> hd parts = []) then None
      else Some (last parts))"

definition parse_toml :: "config_loader \<Rightarrow> string \<Rightarrow> config_file result" where
  "parse_toml loader raw =
     rbind (map_err (\<lambda>_. ''read toml as utf-8'') (cl_utf8 loader raw)) (\<lambda>txt.
     map_err (\<lambda>_. ''parse toml'') (cl_toml loader txt))"

definition load_from_path :: "config_loader \<Rightarrow> string \<Rightarrow> config_file result" where
  "load_from_path loader path =
     rbind (map_err (\<lambda>_. ''read config '' @ debug_str path) (cl_read loader path)) (\<lambda>raw.
     rbind (if path_extension path = Some ''toml'' then parse_toml loader raw
            else if path_extension path = Some ''yaml'' \<or> path_extension path = Some ''yml'' then
              map_err (\<lambda>_. ''parse yaml'') (cl_yaml loader raw)
            else (case cl_yaml loader raw of
                    Inr cfg \<Rightarrow> Inr cfg
                  | Inl _ \<Rightarrow> parse_toml loader raw)) (\<lambda>config.
     if cf_version config \<noteq> 1 then
       Inl (''unsupported config version '' @ show_word (cf_version config))
     else rbind (validate_config config) (\<lambda>_. Inr config)))"

definition config_default_path :: "(string \<Rightarrow> bool) \<Rightarrow> string \<Rightarrow> string" where
  "config_default_path exists project_dir =
     (let toml = path_join project_dir ''devstack.toml'' in
      if exists toml then toml
      else let yaml = path_join project_dir ''devstack.yml'' in
      if exists yaml then yaml
      else let yaml_alt = path_join project_dir ''devstack.yaml'' in
      if exists yaml_alt then yaml_alt
      else toml)"

text \<open>
  The walk to the root: \<open>ancestors\<close> are the directory, its parent, and so on, which is what
  iterating \<open>Path::parent\<close> visits.
\<close>

fun find_nearest_path :: "(string \<Rightarrow> bool) \<Rightarrow> string list \<Rightarrow> string option" where
  "find_nearest_path is_file [] = None"
| "find_nearest_path is_file (dir # ancestors) =
     (let toml = path_join dir ''devstack.toml'' in
      if is_file toml then Some toml
      else let yaml = path_join dir ''devstack.yml'' in
      if is_file yaml then Some yaml
      else let yaml_alt = path_join dir ''devstack.yaml'' in
      if is_file yaml_alt then Some yaml_alt
      else find_nearest_path is_file ancestors)"

section \<open>What validation establishes\<close>

text \<open>Unit results: the only success.\<close>

lemma unit_result_Inr: "(r :: unit result) = Inr u \<longleftrightarrow> r = Inr ()"
  by (cases u) simp

lemma rbind_unit_ok [result_simps]:
  "rbind (r :: unit result) f = Inr y \<longleftrightarrow> r = Inr () \<and> f () = Inr y"
  by (cases r) auto

lemma validate_stack_ok:
  assumes "validate_stack tasks (stack_name, stack) = Inr ()"
  shows "(svc_name, svc) \<in> set (st_services stack) \<Longrightarrow>
      safe_name svc_name \<and> validate_service stack_name svc_name svc True tasks = Inr () \<and>
      (\<forall>dep \<in> set (sc_deps svc). bm_contains (st_services stack) dep)"
    and "\<exists>order. topo_sort (st_services stack) = Inr order"
  using assms
  by (auto simp: validate_stack_def Let_def rbind_unit_ok rforeach_ok rbind_eq_Inr validate_name_Inr
      split: if_splits)

lemma validate_config_stack:
  assumes "validate_config config = Inr ()" and "(name, stack) \<in> set (cf_stacks config)"
  shows "validate_stack (cf_tasks config) (name, stack) = Inr ()"
  using assms by (auto simp: validate_config_def rbind_unit_ok rforeach_ok)

lemma validate_config_global:
  assumes "validate_config config = Inr ()" and "cf_globals config = Some globals"
    and "(name, svc) \<in> set globals"
  shows "validate_global (cf_tasks config) (name, svc) = Inr ()"
  using assms by (auto simp: validate_config_def rbind_unit_ok rforeach_ok split: option.splits)

lemma validate_service_ok:
  assumes "validate_service stack name svc allowed tasks = Inr ()"
  shows "\<forall>port. sc_port svc = Some (Port_Fixed port) \<longrightarrow> 1024 \<le> unat port"
    and "\<forall>v. sc_port svc = Some (Port_None v) \<longrightarrow> v = ''none''"
    and "\<exists>spec. readiness_spec_of svc has_port = Inr spec"
    and "\<forall>t \<in> set (unwrap_or (sc_init svc) [] @ unwrap_or (sc_post_init svc) []). has_task t svc tasks"
    and "sc_auto_restart svc \<longrightarrow> sc_watch svc \<noteq> []"
    and "sc_capture_api svc = Some True \<longrightarrow> allowed \<and> has_service_port svc \<and> svc_scheme svc = ''http''"
proof -
  note v = assms [unfolded validate_service_def rbind_unit_ok]
  show "\<forall>port. sc_port svc = Some (Port_Fixed port) \<longrightarrow> 1024 \<le> unat port"
    using v by (auto simp: validate_service_port_def word_le_nat_alt split: if_splits)
  show "\<forall>w. sc_port svc = Some (Port_None w) \<longrightarrow> w = ''none''"
    using v by (auto simp: validate_service_port_def split: if_splits)
  have "\<exists>k. readiness_kind_of svc (unwrap_or (map_option (\<lambda>p. \<not> port_is_none p) (sc_port svc)) True) = Inr k"
    using v by (auto simp: validate_service_readiness_def rbind_eq_Inr Let_def)
  then show "\<exists>spec. readiness_spec_of svc has_port = Inr spec"
    by (metis readiness_kind_independent_of_port readiness_spec_of_ok)
  show "\<forall>t \<in> set (unwrap_or (sc_init svc) [] @ unwrap_or (sc_post_init svc) []). has_task t svc tasks"
    using v by (auto simp: validate_service_init_tasks_def validate_service_post_init_tasks_def
        rforeach_ok split: option.splits if_splits)
  show "sc_auto_restart svc \<longrightarrow> sc_watch svc \<noteq> []"
    using v by (auto simp: validate_service_auto_restart_def split: if_splits)
  show "sc_capture_api svc = Some True \<longrightarrow> allowed \<and> has_service_port svc \<and> svc_scheme svc = ''http''"
    using v by (auto simp: validate_service_capture_def capture_api_requested_def
        capture_api_explicitly_enabled_def split: if_splits)
qed

section \<open>Properties\<close>

text \<open>
  C4. What \<open>validate\<close> accepts can be launched: every stack has a plan whose order lists all
  its services, and every service of a stack has a name that is a single path component, only
  dependencies and init tasks that exist, a fixed port outside the privileged range, and a
  readiness check whatever its port.
\<close>

theorem validated_config_plans:
  assumes "validate_config config = Inr ()" and "bm_ok (cf_stacks config)"
    and "map_of (cf_stacks config) name = Some stack" and "bm_ok (st_services stack)"
  shows "(\<exists>plan. stack_plan_of config name = Inr plan \<and> sp_services plan = st_services stack \<and>
        set (sp_order plan) = set (bm_keys (st_services stack))) \<and>
    (\<forall>s svc. map_of (st_services stack) s = Some svc \<longrightarrow>
        safe_name s \<and> (\<forall>dep \<in> set (sc_deps svc). bm_contains (st_services stack) dep) \<and>
        (\<forall>t \<in> set (unwrap_or (sc_init svc) [] @ unwrap_or (sc_post_init svc) []).
           has_task t svc (cf_tasks config)) \<and>
        (\<forall>port. sc_port svc = Some (Port_Fixed port) \<longrightarrow> 1024 \<le> unat port) \<and>
        (\<forall>has_port. \<exists>spec. readiness_spec_of svc has_port = Inr spec))"
proof -
  have "(name, stack) \<in> set (cf_stacks config)" using assms(2,3) by (simp add: bm_entry_iff)
  note stack = validate_config_stack [OF assms(1) this]
  obtain order where order: "topo_sort (st_services stack) = Inr order"
    using validate_stack_ok(2) [OF stack] by blast
  have "\<exists>plan. stack_plan_of config name = Inr plan \<and> sp_services plan = st_services stack \<and>
        set (sp_order plan) = set (bm_keys (st_services stack))"
    using order topo_sort_sound(2) [OF assms(4) order] assms(3) by (simp add: stack_plan_of_def Let_def)
  moreover have "safe_name s \<and> (\<forall>dep \<in> set (sc_deps svc). bm_contains (st_services stack) dep) \<and>
        validate_service name s svc True (cf_tasks config) = Inr ()"
    if "map_of (st_services stack) s = Some svc" for s svc
    using validate_stack_ok(1) [OF stack, of s svc] that by (simp add: map_of_SomeD)
  ultimately show ?thesis
    using validate_service_ok(1,3,4) [of name _ _ True "cf_tasks config"] by blast
qed

lemma example_config_valid: "validate_config example_config = Inr ()"
  by code_simp

theorem validated_config_plans_witness:
  "\<exists>plan. stack_plan_of example_config ''dev'' = Inr plan \<and>
     set (sp_order plan) = {''api'', ''db'', ''mq''}"
proof -
  have ok: "bm_ok (cf_stacks example_config)" by (simp add: example_config_def bm_ok_def)
  have get: "map_of (cf_stacks example_config) ''dev'' = Some \<lparr>st_services = example_services\<rparr>"
    by (simp add: example_config_def)
  have keys: "set (bm_keys example_services) = {''api'', ''db'', ''mq''}"
    by (simp add: example_services_def)
  have ok': "bm_ok (st_services \<lparr>st_services = example_services\<rparr>)" by (simp add: example_services_ok)
  from validated_config_plans [OF example_config_valid ok get ok'] keys
  show ?thesis by auto
qed

end
