(* ===== verification/Json.thy ===== *)
theory Json
  imports Rust_Strings
begin

text \<open>
  The values of \<open>serde_json\<close> that the sources build. The crate is compiled with its
  insertion-ordered maps, so an object is the list of its entries in the order of their
  first insertion, and inserting an existing key replaces the value in its place. Parsing and
  printing are the crate's and are parameters where they are used.
\<close>

datatype json =
    J_Null
  | J_Bool bool
  | J_Num int
  | J_Str string
  | J_Arr "json list"
  | J_Obj "(string \<times> json) list"

type_synonym json_map = "(string \<times> json) list"

fun jo_insert :: "string \<Rightarrow> json \<Rightarrow> json_map \<Rightarrow> json_map" where
  "jo_insert k v [] = [(k, v)]"
| "jo_insert k v ((k', v') # m) = (if k = k' then (k, v) # m else (k', v') # jo_insert k v m)"

fun json_get :: "json \<Rightarrow> string \<Rightarrow> json option" where
  "json_get (J_Obj m) k = map_of m k"
| "json_get _ k = None"

fun json_str :: "json \<Rightarrow> string option" where
  "json_str (J_Str s) = Some s"
| "json_str _ = None"

lemma map_of_jo_insert [simp]: "map_of (jo_insert k v m) = (map_of m)(k \<mapsto> v)"
  by (induction m) auto

lemma set_jo_insert: "fst ` set (jo_insert k v m) = insert k (fst ` set m)"
  by (simp flip: dom_map_of_conv_image_fst)

lemma distinct_jo_insert: "distinct (map fst m) \<Longrightarrow> distinct (map fst (jo_insert k v m))"
  by (induction m) (auto simp: set_jo_insert)

end
