(* ===== verification/Env.thy ===== *)
theory Env
  imports Json Config
begin

text \<open>
  The environment of a service: variable references (\<open>src/src/config/env.rs\<close>) and the maps
  and paths of \<open>src/src/app/launch/context.rs\<close>. The process environment, the template engine
  \<open>minijinja\<close>, the reader of \<open>.env\<close> files \<open>dotenvy\<close> and the printer of \<open>serde_json\<close>
  are parameters.
\<close>

section \<open>References to variables\<close>

definition ident_char :: "char \<Rightarrow> bool" where
  "ident_char c \<longleftrightarrow> is_ascii_alphanumeric c \<or> c = CHR ''_''"

text \<open>
  \<open>vars\<close> is \<open>std::env::var\<close>. After \<open>${\<close> everything up to the closing brace, or up to the end,
  is the name; after \<open>$\<close> alone the name is the longest run of identifier characters.
\<close>

function resolve_env_vars :: "(string \<Rightarrow> string option) \<Rightarrow> string \<Rightarrow> string" where
  "resolve_env_vars vars [] = []"
| "resolve_env_vars vars (ch # rest) =
     (if ch = CHR ''$'' then
        (if rest \<noteq> [] \<and> hd rest = CHR ''{'' then
           let var_name = takeWhile (\<lambda>c. c \<noteq> CHR ''}'') (tl rest);
               after = dropWhile (\<lambda>c. c \<noteq> CHR ''}'') (tl rest);
               closed = (after \<noteq> []) in
           (case vars var_name of
              Some env_val \<Rightarrow> env_val
            | None \<Rightarrow> ''${'' @ var_name @ (if closed then ''}'' else []))
           @ resolve_env_vars vars (tl after)
         else
           let var_name = takeWhile ident_char rest in
           (if var_name \<noteq> [] then
              (case vars var_name of Some env_val \<Rightarrow> env_val | None \<Rightarrow> ''$'' @ var_name)
            else ''$'')
           @ resolve_env_vars vars (dropWhile ident_char rest))
      else ch # resolve_env_vars vars rest)"
  by pat_completeness auto
termination
proof (relation "measure (\<lambda>(vars, s). length s)")
  fix ch and rest var_name after :: string and vars closed
  assume "after = dropWhile (\<lambda>c. c \<noteq> CHR ''}'') (tl rest)"
  moreover have "length (tl (dropWhile (\<lambda>c. c \<noteq> CHR ''}'') (tl rest))) \<le> length rest"
    using length_dropWhile_le [of "\<lambda>c. c \<noteq> CHR ''}''" "tl rest"] by simp
  ultimately show "((vars, tl after), vars, ch # rest) \<in> measure (\<lambda>(vars, s). length s)" by simp
next
  fix ch and rest :: string and vars :: "string \<Rightarrow> string option"
  show "((vars, dropWhile ident_char rest), vars, ch # rest) \<in> measure (\<lambda>(vars, s). length s)"
    using length_dropWhile_le [of ident_char rest] by simp
qed auto

declare resolve_env_vars.simps(2) [simp del]

definition resolve_env_map ::
  "(string \<Rightarrow> string option) \<Rightarrow> (string, string) bmap \<Rightarrow> (string, string) bmap" where
  "resolve_env_map vars env = bm_map (\<lambda>_ v. resolve_env_vars vars v) env"

section \<open>The variables devstack sets\<close>

definition readiness_url :: "string \<Rightarrow> u16 \<Rightarrow> string" where
  "readiness_url scheme port =
     (if scheme = ''https'' then ''https://localhost:'' @ show_word port
      else ''http://localhost:'' @ show_word port)"

type_synonym port_map = "(string, u16 option) bmap"
type_synonym env_map = "(string, string) bmap"

definition scheme_of :: "env_map \<Rightarrow> string \<Rightarrow> string" where
  "scheme_of schemes service = unwrap_or (map_of schemes service) ''http''"

definition port_env_entries :: "env_map \<Rightarrow> port_map \<Rightarrow> (string \<times> string) list" where
  "port_env_entries schemes ports =
     concat (map (\<lambda>(service, port). case port of
         None \<Rightarrow> []
       | Some p \<Rightarrow>
           [(''DEV_PORT_'' @ sanitize_env_key service, show_word p),
            (''DEV_URL_'' @ sanitize_env_key service, readiness_url (scheme_of schemes service) p)])
       ports)"

definition listen_env_entries :: "port_map \<Rightarrow> (string \<times> string) list" where
  "listen_env_entries ports =
     concat (map (\<lambda>(service, port). case port of
         None \<Rightarrow> []
       | Some p \<Rightarrow> [(''DEV_LISTEN_PORT_'' @ sanitize_env_key service, show_word p)]) ports)"

fun scope_env_entries :: "instance_scope \<Rightarrow> (string \<times> string) list" where
  "scope_env_entries (Scope_Run run_id stack) = [(''DEV_RUN_ID'', run_id), (''DEV_STACK'', stack)]"
| "scope_env_entries (Scope_Global key project_dir name) =
     [(''DEV_STACK'', ''globals''), (''DEV_GLOBAL_KEY'', key), (''DEV_GLOBAL_NAME'', name)]"

definition build_base_env ::
  "instance_scope \<Rightarrow> string \<Rightarrow> port_map \<Rightarrow> port_map \<Rightarrow> env_map \<Rightarrow> env_map" where
  "build_base_env scope project_dir ports listen_ports schemes =
     bm_extend [] (scope_env_entries scope @ [(''DEV_PROJECT_DIR'', project_dir)]
       @ port_env_entries schemes ports @ listen_env_entries listen_ports)"

definition dep_env_entries :: "string list \<Rightarrow> port_map \<Rightarrow> env_map \<Rightarrow> (string \<times> string) list" where
  "dep_env_entries deps ports schemes =
     concat (map (\<lambda>dep. case map_of ports dep of
         Some (Some p) \<Rightarrow>
           [(''DEV_DEP_'' @ sanitize_env_key dep @ ''_PORT'', show_word p),
            (''DEV_DEP_'' @ sanitize_env_key dep @ ''_URL'', readiness_url (scheme_of schemes dep) p)]
       | _ \<Rightarrow> []) deps)"

definition inject_dep_env ::
  "env_map \<Rightarrow> service_config \<Rightarrow> port_map \<Rightarrow> env_map \<Rightarrow> env_map" where
  "inject_dep_env env svc ports schemes = bm_extend env (dep_env_entries (sc_deps svc) ports schemes)"

definition merge_env_file :: "env_map \<Rightarrow> env_map \<Rightarrow> env_map" where
  "merge_env_file env file_env =
     bm_extend env (filter (\<lambda>(key, _). \<not> starts_with key ''DEV_'') file_env)"

section \<open>Templates\<close>

definition template_service_entry :: "port_map \<Rightarrow> env_map \<Rightarrow> string \<Rightarrow> u16 option \<Rightarrow> json" where
  "template_service_entry listen_ports schemes service port =
     (let listen_port = Option.bind (map_of listen_ports service) (\<lambda>p. p) in
      J_Obj ((case port of
          Some p \<Rightarrow> [(''port'', J_Num (uint p)),
                    (''url'', J_Str (readiness_url (scheme_of schemes service) p))]
        | None \<Rightarrow> [(''port'', J_Null), (''url'', J_Null)])
        @ [(''listen_port'', case listen_port of Some p \<Rightarrow> J_Num (uint p) | None \<Rightarrow> J_Null)]))"

definition underscore :: "string \<Rightarrow> string" where
  "underscore s = map (\<lambda>c. if c = CHR ''-'' then CHR ''_'' else c) s"

definition add_template_service ::
  "port_map \<Rightarrow> env_map \<Rightarrow> json_map \<Rightarrow> string \<times> u16 option \<Rightarrow> json_map" where
  "add_template_service listen_ports schemes services entry =
     (let (service, port) = entry;
          v = template_service_entry listen_ports schemes service port;
          services' = (if underscore service \<noteq> service
                       then jo_insert (underscore service) v services else services) in
      jo_insert service v services')"

definition build_template_context ::
  "instance_scope \<Rightarrow> string \<Rightarrow> port_map \<Rightarrow> port_map \<Rightarrow> env_map \<Rightarrow> json" where
  "build_template_context scope project_dir ports listen_ports schemes =
     (let services = foldl (add_template_service listen_ports schemes) [] ports;
          (run_id, stack_name, global) =
            (case scope of
               Scope_Run run_id stack \<Rightarrow> (J_Str run_id, stack, J_Null)
             | Scope_Global key _ name \<Rightarrow>
                 (J_Null, ''globals'', J_Obj [(''key'', J_Str key), (''name'', J_Str name)])) in
      J_Obj [(''run'', J_Obj [(''id'', run_id)]), (''global'', global),
             (''project'', J_Obj [(''dir'', J_Str project_dir)]),
             (''stack'', J_Obj [(''name'', J_Str stack_name)]), (''services'', J_Obj services)])"

text \<open>What preparation takes from outside.\<close>

record prepare_env =
  pv_paths :: path_env
  pv_vars :: "string \<Rightarrow> string option"
  pv_render :: "string \<Rightarrow> json \<Rightarrow> string result"
  pv_exists :: "string \<Rightarrow> bool"
  pv_dotenv :: "string \<Rightarrow> (string \<times> string) result list result"
  pv_json_to_vec :: "json \<Rightarrow> string result"
  pv_watch_hash :: "string \<Rightarrow> string list option \<Rightarrow> string list \<Rightarrow> string list \<Rightarrow> string \<Rightarrow> string result"

fun render_env :: "prepare_env \<Rightarrow> env_map \<Rightarrow> json \<Rightarrow> env_map result" where
  "render_env pv [] ctx = Inr []"
| "render_env pv ((key, v) # env) ctx =
     rbind (pv_render pv v ctx) (\<lambda>rendered.
     rbind (render_env pv env ctx) (\<lambda>out. Inr ((key, rendered) # out)))"

definition render_patterns :: "prepare_env \<Rightarrow> string list \<Rightarrow> json \<Rightarrow> string list result" where
  "render_patterns pv patterns ctx = rmap (\<lambda>pattern. pv_render pv pattern ctx) patterns"

definition resolve_rendered_path :: "prepare_env \<Rightarrow> string \<Rightarrow> json \<Rightarrow> string result" where
  "resolve_rendered_path pv template ctx =
     rbind (pv_render pv template ctx) (\<lambda>rendered. Inr (expand_home (pv_paths pv) rendered))"

definition resolve_cwd_path :: "prepare_env \<Rightarrow> string \<Rightarrow> json \<Rightarrow> string \<Rightarrow> string result" where
  "resolve_cwd_path pv template ctx base_dir =
     rbind (resolve_rendered_path pv template ctx) (\<lambda>rendered.
     if is_absolute rendered then Inr rendered else Inr (path_join base_dir rendered))"

definition resolve_env_file_path :: "prepare_env \<Rightarrow> service_config \<Rightarrow> string \<Rightarrow> json \<Rightarrow> string result" where
  "resolve_env_file_path pv svc cwd ctx =
     (case sc_env_file svc of
        Some env_file \<Rightarrow>
          rbind (resolve_rendered_path pv env_file ctx) (\<lambda>rendered.
          if is_absolute rendered then Inr rendered else Inr (path_join cwd rendered))
      | None \<Rightarrow> Inr (path_join cwd ''.env''))"

fun collect_env_items :: "env_map \<Rightarrow> (string \<times> string) result list \<Rightarrow> env_map result" where
  "collect_env_items env [] = Inr env"
| "collect_env_items env (item # items) =
     rbind item (\<lambda>(key, v). collect_env_items (bm_insert key v env) items)"

definition load_env_file :: "prepare_env \<Rightarrow> string \<Rightarrow> env_map result" where
  "load_env_file pv path =
     (if \<not> pv_exists pv path then Inr []
      else rbind (map_err (\<lambda>_. ''read env file '' @ path) (pv_dotenv pv path)) (\<lambda>items.
        collect_env_items [] items))"

section \<open>Facts about references\<close>

lemma resolve_plain [simp]: "ch \<noteq> CHR ''$'' \<Longrightarrow> resolve_env_vars vars (ch # rest) = ch # resolve_env_vars vars rest"
  by (simp add: resolve_env_vars.simps(2))

lemma resolve_plain_append: "CHR ''$'' \<notin> set a \<Longrightarrow> resolve_env_vars vars (a @ s) = a @ resolve_env_vars vars s"
  by (induction a) auto

lemma resolve_braced:
  assumes "CHR ''}'' \<notin> set n"
  shows "resolve_env_vars vars (''${'' @ n @ CHR ''}'' # s) =
    (case vars n of Some v \<Rightarrow> v | None \<Rightarrow> ''${'' @ n @ ''}'') @ resolve_env_vars vars s"
proof -
  have "takeWhile (\<lambda>c. c \<noteq> CHR ''}'') (n @ CHR ''}'' # s) = n"
    and "dropWhile (\<lambda>c. c \<noteq> CHR ''}'') (n @ CHR ''}'' # s) = CHR ''}'' # s"
    using assms by (auto simp: takeWhile_append dropWhile_append)
  then show ?thesis by (simp add: resolve_env_vars.simps(2) Let_def split: option.splits)
qed

lemma resolve_named:
  assumes "n \<noteq> []" and "list_all ident_char n" and "s = [] \<or> \<not> ident_char (hd s)"
  shows "resolve_env_vars vars (CHR ''$'' # n @ s) =
    (case vars n of Some v \<Rightarrow> v | None \<Rightarrow> ''$'' @ n) @ resolve_env_vars vars s"
proof -
  have "hd (n @ s) \<noteq> CHR ''{''"
    using assms(1,2) by (cases n) (auto simp: ident_char_def char_class_defs)
  moreover have "takeWhile ident_char (n @ s) = n" "dropWhile ident_char (n @ s) = s"
    using assms(2,3) by (cases s; auto simp: list_all_iff takeWhile_append2 dropWhile_append2)+
  ultimately show ?thesis
    using assms(1) by (simp add: resolve_env_vars.simps(2) Let_def split: option.splits)
qed

lemma resolve_unset: "resolve_env_vars (\<lambda>_. None) s = s"
proof (induction "\<lambda>_ :: string. None :: string option" s rule: resolve_env_vars.induct)
  case (2 ch rest)
  show ?case
  proof (cases "ch = CHR ''$''")
    case True
    show ?thesis
    proof (cases "rest \<noteq> [] \<and> hd rest = CHR ''{''")
      case brace: True
      then obtain r where r: "rest = CHR ''{'' # r" by (cases rest) auto
      let ?d = "dropWhile (\<lambda>c. c \<noteq> CHR ''}'') r"
      have ih: "resolve_env_vars (\<lambda>_. None) (tl ?d) = tl ?d"
        using "2.hyps"(1) [OF True brace refl refl] r by simp
      have "(if d \<noteq> [] then ''}'' else []) @ tl d = d" if "d \<noteq> [] \<Longrightarrow> hd d = CHR ''}''" for d
        using that by (cases d) auto
      from this [of ?d] have close: "(if ?d \<noteq> [] then ''}'' else []) @ tl ?d = ?d"
        using hd_dropWhile [of "\<lambda>c. c \<noteq> CHR ''}''" r] by blast
      have "resolve_env_vars (\<lambda>_. None) (ch # rest) =
          ''${'' @ takeWhile (\<lambda>c. c \<noteq> CHR ''}'') r @ ((if ?d \<noteq> [] then ''}'' else []) @ tl ?d)"
        using True r ih by (simp add: resolve_env_vars.simps(2) Let_def)
      then show ?thesis using True r by (simp only: close) simp
    next
      case False
      then have ih: "resolve_env_vars (\<lambda>_. None) (dropWhile ident_char rest) = dropWhile ident_char rest"
        using "2.hyps"(2) [OF True False refl] by simp
      have "resolve_env_vars (\<lambda>_. None) (ch # rest) = ch # takeWhile ident_char rest @ dropWhile ident_char rest"
        using True False ih
        by (auto simp: resolve_env_vars.simps(2) Let_def takeWhile_eq_Nil_iff dropWhile_eq_self_iff)
      then show ?thesis by simp
    qed
  next
    case False
    then show ?thesis using "2.hyps"(3) by simp
  qed
qed simp

section \<open>Facts about the maps\<close>

lemma merge_env_file_get:
  assumes "bm_ok file_env"
  shows "map_of (merge_env_file env file_env) k =
    (if starts_with k ''DEV_'' then map_of env k
     else (case map_of file_env k of None \<Rightarrow> map_of env k | Some v \<Rightarrow> Some v))"
proof -
  let ?P = "\<lambda>(key :: string, _ :: string). \<not> starts_with key ''DEV_''"
  have "distinct (map fst (filter ?P file_env))"
    using bm_ok_distinct [OF assms] by (simp add: bm_keys_def distinct_map_filter)
  then have "map_of (merge_env_file env file_env) k =
      (map_of env ++ map_of (filter ?P file_env)) k"
    by (simp add: merge_env_file_def map_of_bm_extend map_of_rev_distinct)
  moreover have "map_of (filter ?P file_env) k = (if starts_with k ''DEV_'' then None else map_of file_env k)"
    using map_of_bm_retain [OF assms, of "\<lambda>key _. \<not> starts_with key ''DEV_''" k]
    by (auto simp: bm_retain_def split: option.splits)
  ultimately show ?thesis by (auto simp: map_add_def split: option.splits)
qed

lemma bm_ok_merge_env_file [intro]: "bm_ok env \<Longrightarrow> bm_ok (merge_env_file env f)"
  by (auto simp: merge_env_file_def)

lemma bm_ok_inject_dep_env [intro]: "bm_ok env \<Longrightarrow> bm_ok (inject_dep_env env svc ports schemes)"
  by (auto simp: inject_dep_env_def)

lemma bm_ok_build_base_env: "bm_ok (build_base_env scope dir ports listens schemes)"
  by (auto simp: build_base_env_def)

lemma collect_env_items_ok: "bm_ok env \<Longrightarrow> collect_env_items env items = Inr out \<Longrightarrow> bm_ok out"
  by (induction items arbitrary: env) (auto simp: rbind_eq_Inr bm_ok_insert)

lemma load_env_file_ok: "load_env_file pv path = Inr env \<Longrightarrow> bm_ok env"
  by (auto simp: load_env_file_def rbind_eq_Inr intro: collect_env_items_ok [OF bm_ok_Nil] split: if_splits)

lemma render_env_keys: "render_env pv env ctx = Inr out \<Longrightarrow> map fst out = map fst env"
  by (induction pv env ctx arbitrary: out rule: render_env.induct) (auto simp: rbind_eq_Inr)

lemma render_env_get:
  "render_env pv env ctx = Inr out \<Longrightarrow>
   map_of out k = (case map_of env k of None \<Rightarrow> None | Some t \<Rightarrow> Some (projr (pv_render pv t ctx)))"
  by (induction pv env ctx arbitrary: out rule: render_env.induct) (auto simp: rbind_eq_Inr)

section \<open>Properties\<close>

text \<open>
  References resolve in one pass, from left to right: with no variable set every text is
  unchanged, text without a dollar sign is copied, and \<open>${NAME}\<close> becomes the value of the
  variable, which is not expanded again, or stays as written when the variable is not set.
\<close>

theorem resolve_env_vars_one_pass:
  assumes "CHR ''$'' \<notin> set a" and "CHR ''}'' \<notin> set n"
  shows "resolve_env_vars vars (a @ ''${'' @ n @ ''}'' @ s) =
      a @ (case vars n of Some v \<Rightarrow> v | None \<Rightarrow> ''${'' @ n @ ''}'') @ resolve_env_vars vars s \<and>
    resolve_env_vars (\<lambda>_. None) s = s"
  using resolve_plain_append [OF assms(1)] resolve_braced [OF assms(2)] resolve_unset by simp

theorem resolve_env_vars_one_pass_witness:
  "resolve_env_vars (\<lambda>n. if n = ''HOST'' then Some ''$PORT'' else None) ''http://${HOST}/x'' = ''http://$PORT/x''"
  using resolve_env_vars_one_pass [of "''http://''" "''HOST''" "\<lambda>n. if n = ''HOST'' then Some ''$PORT'' else None" "''/x''"]
  by simp

end
