(* ===== verification/Ports.thy ===== *)
theory Ports
  imports Config
begin

text \<open>
  The port reservations that all daemons of a machine share, \<open>src/src/port.rs\<close>: one registry
  file under a file lock, holding for each reserved port its owner and the process of the
  daemon that reserved it. Every operation reads the file, drops the reservations of dead
  processes, acts, and writes the file back when it succeeded. What the operating system
  answers (the lock, which processes live, which ports can be bound) is a parameter; the ports
  that binding to port 0 hands out are a list of answers, and \<open>None\<close> means that the search
  for a free port has not ended within it.
\<close>

section \<open>The registry\<close>

record reservation =
  re_owner :: string
  re_daemon_pid :: u32

type_synonym registry = "(u16, reservation) bmap"

text \<open>The file: missing or blank, a registry as \<open>serde_json\<close> stored it, or unreadable text.\<close>

datatype reg_file =
    Reg_Blank
  | Reg_Stored registry
  | Reg_Corrupt

text \<open>The step at which writing the file fails.\<close>

datatype write_fault =
    Fault_None
  | Fault_Set_Len string
  | Fault_Write string
  | Fault_Sync string

record port_os =
  os_pid :: u32
  os_kill :: "u32 \<Rightarrow> int option"
  os_bind :: "u16 \<Rightarrow> string option"
  os_open :: "string option"
  os_flock :: "string option"
  os_write :: write_fault

definition is_pid_alive :: "port_os \<Rightarrow> u32 \<Rightarrow> bool" where
  "is_pid_alive os pid =
     (if pid = 0 \<or> 2147483647 < pid then False
      else (case os_kill os pid of None \<Rightarrow> True | Some errno \<Rightarrow> errno = 1))"

definition cleanup_stale :: "port_os \<Rightarrow> registry \<Rightarrow> registry" where
  "cleanup_stale os reg = bm_retain (\<lambda>_ entry. is_pid_alive os (re_daemon_pid entry)) reg"

fun read_registry :: "reg_file \<Rightarrow> registry result" where
  "read_registry Reg_Blank = Inr []"
| "read_registry (Reg_Stored reg) = Inr reg"
| "read_registry Reg_Corrupt = Inl ''parse port reservation registry''"

fun write_registry :: "write_fault \<Rightarrow> reg_file \<Rightarrow> registry \<Rightarrow> unit result \<times> reg_file" where
  "write_registry Fault_None file reg = (Inr (), Reg_Stored reg)"
| "write_registry (Fault_Set_Len e) file reg = (Inl e, file)"
| "write_registry (Fault_Write e) file reg = (Inl e, Reg_Corrupt)"
| "write_registry (Fault_Sync e) file reg = (Inl e, Reg_Stored reg)"

definition open_registry :: "port_os \<Rightarrow> reg_file \<Rightarrow> registry result" where
  "open_registry os file =
     (case os_open os of
        Some e \<Rightarrow> Inl e
      | None \<Rightarrow>
          (case os_flock os of
             Some e \<Rightarrow> Inl e
           | None \<Rightarrow> rbind (read_registry file) (\<lambda>reg. Inr (cleanup_stale os reg))))"

definition finish_registry :: "port_os \<Rightarrow> reg_file \<Rightarrow> 'a result \<times> registry \<Rightarrow> 'a result \<times> reg_file" where
  "finish_registry os file outcome =
     (case outcome of
        (Inl e, _) \<Rightarrow> (Inl e, file)
      | (Inr out, reg) \<Rightarrow>
          (case write_registry (os_write os) file reg of
             (Inl e, file') \<Rightarrow> (Inl e, file')
           | (Inr _, file') \<Rightarrow> (Inr out, file')))"

definition with_registry ::
  "port_os \<Rightarrow> (registry \<Rightarrow> 'a result \<times> registry) \<Rightarrow> reg_file \<Rightarrow> 'a result \<times> reg_file" where
  "with_registry os action file =
     (case open_registry os file of
        Inl e \<Rightarrow> (Inl e, file)
      | Inr reg \<Rightarrow> finish_registry os file (action reg))"

text \<open>The same around an action that may not have ended.\<close>

definition with_registry_loop ::
  "port_os \<Rightarrow> (registry \<Rightarrow> ('a result \<times> registry) option) \<Rightarrow> reg_file \<Rightarrow> ('a result \<times> reg_file) option" where
  "with_registry_loop os action file =
     (case open_registry os file of
        Inl e \<Rightarrow> Some (Inl e, file)
      | Inr reg \<Rightarrow> map_option (finish_registry os file) (action reg))"

section \<open>Operations\<close>

definition my_entry :: "port_os \<Rightarrow> string \<Rightarrow> reservation" where
  "my_entry os owner = \<lparr>re_owner = owner, re_daemon_pid = os_pid os\<rparr>"

definition reserved_by_another :: "u16 \<Rightarrow> string" where
  "reserved_by_another port =
     ''port '' @ show_word port @ '' is reserved by another devstack service''"

definition ensure_available :: "port_os \<Rightarrow> u16 \<Rightarrow> unit result" where
  "ensure_available os port =
     (case os_bind os port of
        None \<Rightarrow> Inr ()
      | Some _ \<Rightarrow> Inl (''port '' @ show_word port @ '' is unavailable''))"

definition reserve_specific_port ::
  "port_os \<Rightarrow> u16 \<Rightarrow> string \<Rightarrow> bool \<Rightarrow> registry \<Rightarrow> unit result \<times> registry" where
  "reserve_specific_port os port owner require_available reg =
     (case map_of reg port of
        Some entry \<Rightarrow>
          if re_owner entry = owner then (Inr (), reg)
          else (Inl (reserved_by_another port), reg)
      | None \<Rightarrow>
          (case (if require_available then ensure_available os port else Inr ()) of
             Inl e \<Rightarrow> (Inl e, reg)
           | Inr _ \<Rightarrow> (Inr (), bm_insert port (my_entry os owner) reg)))"

definition reserve_port :: "port_os \<Rightarrow> u16 \<Rightarrow> string \<Rightarrow> reg_file \<Rightarrow> unit result \<times> reg_file" where
  "reserve_port os port owner = with_registry os (reserve_specific_port os port owner False)"

definition reserve_available_port :: "port_os \<Rightarrow> u16 \<Rightarrow> string \<Rightarrow> reg_file \<Rightarrow> unit result \<times> reg_file" where
  "reserve_available_port os port owner = with_registry os (reserve_specific_port os port owner True)"

definition release_in_registry :: "u16 \<Rightarrow> string \<Rightarrow> registry \<Rightarrow> unit result \<times> registry" where
  "release_in_registry port owner reg =
     (case map_of reg port of
        Some entry \<Rightarrow>
          if re_owner entry = owner then (Inr (), bm_remove port reg)
          else (Inl (reserved_by_another port), reg)
      | None \<Rightarrow> (Inr (), reg))"

definition release_port :: "port_os \<Rightarrow> u16 \<Rightarrow> string \<Rightarrow> reg_file \<Rightarrow> unit result \<times> reg_file" where
  "release_port os port owner = with_registry os (release_in_registry port owner)"

text \<open>
  The search for a free port: every answer of the system that is already reserved is skipped.
  The value carries the answers left.
\<close>

fun allocate_ephemeral_port ::
  "port_os \<Rightarrow> string \<Rightarrow> u16 result list \<Rightarrow> registry \<Rightarrow> ((u16 \<times> u16 result list) result \<times> registry) option" where
  "allocate_ephemeral_port os owner [] reg = None"
| "allocate_ephemeral_port os owner (Inl e # answers) reg = Some (Inl e, reg)"
| "allocate_ephemeral_port os owner (Inr port # answers) reg =
     (if bm_contains reg port then allocate_ephemeral_port os owner answers reg
      else Some (Inr (port, answers), bm_insert port (my_entry os owner) reg))"

definition reserve_ephemeral_port ::
  "port_os \<Rightarrow> string \<Rightarrow> u16 result list \<Rightarrow> reg_file \<Rightarrow> ((u16 \<times> u16 result list) result \<times> reg_file) option" where
  "reserve_ephemeral_port os owner answers =
     with_registry_loop os (allocate_ephemeral_port os owner answers)"

text \<open>The loop of \<open>allocate_ports\<close>; \<open>allocated\<close> is the list of entries so far.\<close>

fun allocate_loop ::
  "port_os \<Rightarrow> (string \<Rightarrow> string) \<Rightarrow> (string \<times> service_config) list \<Rightarrow> u16 result list \<Rightarrow> registry \<Rightarrow>
     (((string \<times> u16 option) list \<times> u16 result list) result \<times> registry) option" where
  "allocate_loop os owner_for [] answers reg = Some (Inr ([], answers), reg)"
| "allocate_loop os owner_for ((name, svc) # services) answers reg =
     (case (case sc_port svc of
              Some (Port_Fixed port) \<Rightarrow>
                (case reserve_specific_port os port (owner_for name) True reg of
                   (Inl e, reg') \<Rightarrow> Some (Inl e, reg')
                 | (Inr _, reg') \<Rightarrow> Some (Inr (Some port, answers), reg'))
            | Some (Port_None _) \<Rightarrow> Some (Inr (None, answers), reg)
            | None \<Rightarrow>
                (case allocate_ephemeral_port os (owner_for name) answers reg of
                   None \<Rightarrow> None
                 | Some (Inl e, reg') \<Rightarrow> Some (Inl e, reg')
                 | Some (Inr (port, answers'), reg') \<Rightarrow> Some (Inr (Some port, answers'), reg'))) of
        None \<Rightarrow> None
      | Some (Inl e, reg') \<Rightarrow> Some (Inl e, reg')
      | Some (Inr (port, answers'), reg') \<Rightarrow>
          (case allocate_loop os owner_for services answers' reg' of
             None \<Rightarrow> None
           | Some (Inl e, reg'') \<Rightarrow> Some (Inl e, reg'')
           | Some (Inr (allocated, rest), reg'') \<Rightarrow> Some (Inr ((name, port) # allocated, rest), reg'')))"

definition allocate_ports ::
  "port_os \<Rightarrow> (string, service_config) bmap \<Rightarrow> (string \<Rightarrow> string) \<Rightarrow> u16 result list \<Rightarrow> reg_file \<Rightarrow>
     (((string \<times> u16 option) list \<times> u16 result list) result \<times> reg_file) option" where
  "allocate_ports os services owner_for answers =
     with_registry_loop os (allocate_loop os owner_for services answers)"

section \<open>The live holder of a port\<close>

definition owners :: "registry \<Rightarrow> u16 \<Rightarrow> string option" where
  "owners reg port = map_option re_owner (map_of reg port)"

definition live_registry :: "port_os \<Rightarrow> registry \<Rightarrow> bool" where
  "live_registry os reg \<longleftrightarrow> bm_ok reg \<and> (\<forall>(p, e) \<in> set reg. is_pid_alive os (re_daemon_pid e))"

text \<open>Who holds a port: the owner of its reservation when the reserving daemon lives.\<close>

definition holder :: "port_os \<Rightarrow> reg_file \<Rightarrow> u16 \<Rightarrow> string option" where
  "holder os file port =
     (case file of Reg_Stored reg \<Rightarrow> owners (cleanup_stale os reg) port | _ \<Rightarrow> None)"

text \<open>The registry works: the file can be opened, locked, read and written, and this daemon lives.\<close>

definition registry_usable :: "port_os \<Rightarrow> reg_file \<Rightarrow> bool" where
  "registry_usable os file \<longleftrightarrow>
     os_open os = None \<and> os_flock os = None \<and> os_write os = Fault_None \<and> is_pid_alive os (os_pid os) \<and>
     (case file of Reg_Blank \<Rightarrow> True | Reg_Stored reg \<Rightarrow> bm_ok reg | Reg_Corrupt \<Rightarrow> False)"

lemma cleanup_stale_live: "bm_ok reg \<Longrightarrow> live_registry os (cleanup_stale os reg)"
  by (auto simp: live_registry_def cleanup_stale_def bm_retain_def bm_ok_filter)

lemma cleanup_stale_id: "live_registry os reg \<Longrightarrow> cleanup_stale os reg = reg"
  by (auto simp: live_registry_def cleanup_stale_def bm_retain_def filter_id_conv)

lemma holder_stored: "live_registry os reg \<Longrightarrow> holder os (Reg_Stored reg) = owners reg"
  by (auto simp: holder_def cleanup_stale_id)

lemma usable_stored: "registry_usable os file \<Longrightarrow> live_registry os reg \<Longrightarrow> registry_usable os (Reg_Stored reg)"
  by (auto simp: registry_usable_def live_registry_def)

lemma open_registry_usable:
  assumes "registry_usable os file"
  obtains reg where "open_registry os file = Inr reg" and "live_registry os reg"
    and "holder os file = owners reg"
proof (cases "file")
  case Reg_Blank
  then show ?thesis
    using assms that [of "[]"]
    by (auto simp: open_registry_def registry_usable_def live_registry_def holder_def owners_def
        cleanup_stale_def bm_retain_def fun_eq_iff)
next
  case (Reg_Stored reg)
  then show ?thesis
    using assms that [of "cleanup_stale os reg"] cleanup_stale_live [of reg os]
    by (auto simp: open_registry_def registry_usable_def holder_def fun_eq_iff)
qed (use assms in \<open>simp add: registry_usable_def\<close>)

text \<open>What a working registry does with the outcome of an action.\<close>

definition commit :: "reg_file \<Rightarrow> 'a result \<times> registry \<Rightarrow> 'a result \<times> reg_file" where
  "commit file outcome =
     (case outcome of (Inl e, _) \<Rightarrow> (Inl e, file) | (Inr out, reg) \<Rightarrow> (Inr out, Reg_Stored reg))"

lemma commit_simps [simp]:
  "commit file (Inl e, reg) = (Inl e, file)"
  "commit file (Inr out, reg) = (Inr out, Reg_Stored reg)"
  by (simp_all add: commit_def)

lemma commit_eq_Inl: "commit file r = (Inl e, file') \<longleftrightarrow> fst r = Inl e \<and> file' = file"
  by (cases r; cases "fst r") auto

lemma commit_eq_Inr: "commit file r = (Inr out, file') \<longleftrightarrow> (\<exists>reg. r = (Inr out, reg) \<and> file' = Reg_Stored reg)"
  by (cases r; cases "fst r") auto

lemma finish_registry_usable: "registry_usable os file \<Longrightarrow> finish_registry os file = commit file"
  by (auto simp: fun_eq_iff finish_registry_def commit_def registry_usable_def split: prod.splits sum.splits)

lemma with_registry_usable:
  assumes "registry_usable os file"
  obtains reg where "live_registry os reg" and "holder os file = owners reg"
    and "\<And>action. with_registry os action file = commit file (action reg)"
  using open_registry_usable [OF assms] finish_registry_usable [OF assms]
  by (metis (no_types, lifting) old.sum.simps(6) with_registry_def)

lemma with_registry_loop_usable:
  assumes "registry_usable os file"
  obtains reg where "live_registry os reg" and "holder os file = owners reg"
    and "\<And>action. with_registry_loop os action file = map_option (commit file) (action reg)"
  using open_registry_usable [OF assms] finish_registry_usable [OF assms]
  by (metis (no_types, lifting) old.sum.simps(6) with_registry_loop_def)

lemma live_registry_insert:
  assumes "live_registry os reg" and "is_pid_alive os (os_pid os)"
  shows "live_registry os (bm_insert port (my_entry os owner) reg)"
proof -
  have ok: "bm_ok (bm_insert port (my_entry os owner) reg)"
    using assms(1) by (auto simp: live_registry_def bm_ok_insert)
  have "is_pid_alive os (re_daemon_pid e)"
    if "(p, e) \<in> set (bm_insert port (my_entry os owner) reg)" for p e
  proof -
    have "map_of (bm_insert port (my_entry os owner) reg) p = Some e"
      using that ok by (simp add: bm_entry_iff del: map_of_bm_insert)
    then show ?thesis
      using assms by (auto simp: live_registry_def my_entry_def dest: map_of_SomeD split: if_splits)
  qed
  with ok show ?thesis by (auto simp: live_registry_def)
qed

lemma live_registry_remove: "live_registry os reg \<Longrightarrow> live_registry os (bm_remove port reg)"
  by (auto simp: live_registry_def bm_remove_def bm_ok_filter)

lemma owners_insert: "owners (bm_insert port (my_entry os owner) reg) = (owners reg)(port \<mapsto> owner)"
  by (auto simp: owners_def my_entry_def fun_eq_iff)

lemma owners_remove: "owners (bm_remove port reg) = (owners reg)(port := None)"
  by (auto simp: owners_def fun_eq_iff)

lemma reserve_specific_port_owners:
  assumes "reserve_specific_port os port owner req reg = (r, reg')"
  shows "(r = Inr () \<longrightarrow> owners reg' = (owners reg)(port \<mapsto> owner) \<and> owners reg port \<in> {None, Some owner} \<and>
      (owners reg port = None \<and> req \<longrightarrow> os_bind os port = None)) \<and>
    ((\<exists>e. r = Inl e) \<longrightarrow> reg' = reg)"
  using assms
  by (auto simp: reserve_specific_port_def owners_insert ensure_available_def
      split: option.splits if_splits) (auto simp: owners_def fun_eq_iff)

lemma reserve_specific_port_live:
  assumes "reserve_specific_port os port owner req reg = (r, reg')" and "live_registry os reg"
    and "is_pid_alive os (os_pid os)"
  shows "live_registry os reg'"
  using assms by (auto simp: reserve_specific_port_def live_registry_insert
      split: option.splits if_splits sum.splits)

section \<open>The interface the daemon uses\<close>

text \<open>
  What the lifecycle of services relies on: a ledger of holders in which a reservation never
  takes a port from another holder, and a release gives up the holder's own port only.
\<close>

locale port_ledger =
  fixes usable :: "'s \<Rightarrow> bool"
    and held :: "'s \<Rightarrow> u16 \<Rightarrow> string option"
    and reserve :: "u16 \<Rightarrow> string \<Rightarrow> 's \<Rightarrow> unit result \<times> 's"
    and release :: "u16 \<Rightarrow> string \<Rightarrow> 's \<Rightarrow> unit result \<times> 's"
  assumes reserve_free: "usable s \<Longrightarrow> held s p \<in> {None, Some owner} \<Longrightarrow>
      \<exists>s'. reserve p owner s = (Inr (), s') \<and> usable s' \<and> held s' = (held s)(p \<mapsto> owner)"
    and reserve_taken: "usable s \<Longrightarrow> held s p \<notin> {None, Some owner} \<Longrightarrow>
      \<exists>e. reserve p owner s = (Inl e, s)"
    and release_own: "usable s \<Longrightarrow> held s p \<in> {None, Some owner} \<Longrightarrow>
      \<exists>s'. release p owner s = (Inr (), s') \<and> usable s' \<and> held s' = (held s)(p := None)"
    and release_other: "usable s \<Longrightarrow> held s p \<notin> {None, Some owner} \<Longrightarrow>
      \<exists>e. release p owner s = (Inl e, s)"
begin

text \<open>Running one operation over a list of ports and owners, until the first error.\<close>

fun each :: "(u16 \<Rightarrow> string \<Rightarrow> 's \<Rightarrow> unit result \<times> 's) \<Rightarrow> (u16 \<times> string) list \<Rightarrow> 's \<Rightarrow> unit result \<times> 's" where
  "each op [] s = (Inr (), s)"
| "each op ((p, owner) # rest) s =
     (case op p owner s of (Inl e, s') \<Rightarrow> (Inl e, s') | (Inr _, s') \<Rightarrow> each op rest s')"

lemma release_each_held:
  assumes "usable s" and "\<forall>(p, owner) \<in> set ports. held s p \<in> {None, Some owner}"
  shows "\<exists>s'. each release ports s = (Inr (), s') \<and> usable s' \<and>
    held s' = (\<lambda>p. if p \<in> fst ` set ports then None else held s p)"
  using assms
proof (induction ports arbitrary: s)
  case (Cons po ports)
  obtain p owner where po: "po = (p, owner)" by fastforce
  obtain s1 where s1: "release p owner s = (Inr (), s1)" "usable s1" "held s1 = (held s)(p := None)"
    using release_own [of s p owner] Cons.prems by (auto simp: po)
  have "\<forall>(q, o') \<in> set ports. held s1 q \<in> {None, Some o'}"
    using Cons.prems(2) by (auto simp: s1(3) po split: if_splits)
  from Cons.IH [OF s1(2) this] show ?case
    using s1 by (auto simp: po fun_eq_iff)
qed (auto simp: fun_eq_iff)

lemma reserve_each_free:
  assumes "usable s" and "distinct (map fst ports)"
    and "\<forall>(p, owner) \<in> set ports. held s p \<in> {None, Some owner}"
  shows "\<exists>s'. each reserve ports s = (Inr (), s') \<and> usable s' \<and> held s' = held s ++ map_of ports"
  using assms
proof (induction ports arbitrary: s)
  case (Cons po ports)
  obtain p owner where po: "po = (p, owner)" by fastforce
  obtain s1 where s1: "reserve p owner s = (Inr (), s1)" "usable s1" "held s1 = (held s)(p \<mapsto> owner)"
    using reserve_free [of s p owner] Cons.prems by (auto simp: po)
  have new: "p \<notin> fst ` set ports" using Cons.prems(2) by (simp add: po)
  have "held s1 q \<in> {None, Some o'}" if "(q, o') \<in> set ports" for q o'
  proof -
    have "q \<noteq> p" using new that by (metis fst_conv image_eqI)
    then show ?thesis using Cons.prems(3) that by (auto simp: s1(3) po)
  qed
  then have "\<forall>(q, o') \<in> set ports. held s1 q \<in> {None, Some o'}" by blast
  then obtain s' where s': "each reserve ports s1 = (Inr (), s')" "usable s'"
      "held s' = held s1 ++ map_of ports"
    using Cons.IH [OF s1(2)] Cons.prems(2) by (auto simp: po)
  have "held s' = held s ++ map_of (po # ports)"
    using new by (simp add: s'(3) s1(3) po map_add_upd_left dom_map_of_conv_image_fst)
  moreover have "each reserve (po # ports) s = (Inr (), s')" using s1(1) s'(1) by (simp add: po)
  ultimately show ?case using s'(2) by blast
qed auto

end

lemma reserve_port_ledger:
  assumes "registry_usable os s"
  shows "holder os s p \<in> {None, Some owner} \<Longrightarrow>
      \<exists>s'. reserve_port os p owner s = (Inr (), s') \<and> registry_usable os s' \<and> holder os s' = (holder os s)(p \<mapsto> owner)"
    and "holder os s p \<notin> {None, Some owner} \<Longrightarrow> \<exists>e. reserve_port os p owner s = (Inl e, s)"
proof -
  have pid: "is_pid_alive os (os_pid os)" using assms by (simp add: registry_usable_def)
  obtain reg where reg: "live_registry os reg" "holder os s = owners reg"
    and run: "\<And>action :: registry \<Rightarrow> unit result \<times> registry.
        with_registry os action s = commit s (action reg)"
    using with_registry_usable [OF assms] by metis
  obtain r reg' where step: "reserve_specific_port os p owner False reg = (r, reg')" by fastforce
  note owns = reserve_specific_port_owners [OF step]
    and live = reserve_specific_port_live [OF step reg(1) pid]
  have ok: "r = Inr () \<longleftrightarrow> owners reg p \<in> {None, Some owner}"
    using step by (auto simp: reserve_specific_port_def owners_def split: option.splits if_splits)
  show "\<exists>s'. reserve_port os p owner s = (Inr (), s') \<and> registry_usable os s' \<and> holder os s' = (holder os s)(p \<mapsto> owner)"
    if "holder os s p \<in> {None, Some owner}"
    using that owns live ok reg(2) usable_stored [OF assms live]
    by (simp add: reserve_port_def run step holder_stored)
  show "\<exists>e. reserve_port os p owner s = (Inl e, s)" if "holder os s p \<notin> {None, Some owner}"
    using that ok reg(2) by (cases r) (auto simp: reserve_port_def run step)
qed

lemma release_port_ledger:
  assumes "registry_usable os s"
  shows "holder os s p \<in> {None, Some owner} \<Longrightarrow>
      \<exists>s'. release_port os p owner s = (Inr (), s') \<and> registry_usable os s' \<and> holder os s' = (holder os s)(p := None)"
    and "holder os s p \<notin> {None, Some owner} \<Longrightarrow> \<exists>e. release_port os p owner s = (Inl e, s)"
proof -
  obtain reg where reg: "live_registry os reg" "holder os s = owners reg"
    and run: "\<And>action :: registry \<Rightarrow> unit result \<times> registry.
        with_registry os action s = commit s (action reg)"
    using with_registry_usable [OF assms] by metis
  have same: "owners reg p = None \<Longrightarrow> owners reg = (owners reg)(p := None)" by (auto simp: fun_eq_iff)
  show "\<exists>s'. release_port os p owner s = (Inr (), s') \<and> registry_usable os s' \<and> holder os s' = (holder os s)(p := None)"
    if "holder os s p \<in> {None, Some owner}"
  proof (cases "map_of reg p")
    case None
    then show ?thesis
      using same reg usable_stored [OF assms reg(1)]
      by (simp add: release_port_def run release_in_registry_def holder_stored owners_def)
  next
    case (Some e)
    then show ?thesis
      using that reg live_registry_remove [OF reg(1), of p] usable_stored [OF assms]
      by (simp add: release_port_def run release_in_registry_def holder_stored owners_remove owners_def)
  qed
  show "\<exists>e. release_port os p owner s = (Inl e, s)" if "holder os s p \<notin> {None, Some owner}"
    using that reg(2) by (auto simp: release_port_def run release_in_registry_def owners_def split: option.splits)
qed

interpretation ports: port_ledger "registry_usable os" "holder os" "reserve_port os" "release_port os" for os
  by unfold_locales (simp_all add: reserve_port_ledger release_port_ledger)

section \<open>Allocation\<close>

lemma allocate_ephemeral_port_Inr:
  "allocate_ephemeral_port os owner answers reg = Some (Inr (port, rest), reg') \<Longrightarrow>
   reg' = bm_insert port (my_entry os owner) reg \<and> owners reg port = None"
  by (induction os owner answers reg rule: allocate_ephemeral_port.induct)
    (auto simp: owners_def bm_contains_def split: if_splits)

lemma allocate_ephemeral_port_returns:
  "(\<exists>r. allocate_ephemeral_port os owner answers reg = Some r) \<longleftrightarrow>
     (\<exists>a \<in> set answers. case a of Inl _ \<Rightarrow> True | Inr port \<Rightarrow> \<not> bm_contains reg port)"
  by (induction os owner answers reg rule: allocate_ephemeral_port.induct) auto

text \<open>One service of the loop, as a function of its own.\<close>

definition allocate_one ::
  "port_os \<Rightarrow> string \<Rightarrow> service_config \<Rightarrow> u16 result list \<Rightarrow> registry \<Rightarrow>
     ((u16 option \<times> u16 result list) result \<times> registry) option" where
  "allocate_one os owner svc answers reg =
     (case sc_port svc of
        Some (Port_Fixed port) \<Rightarrow>
          (case reserve_specific_port os port owner True reg of
             (Inl e, reg') \<Rightarrow> Some (Inl e, reg')
           | (Inr _, reg') \<Rightarrow> Some (Inr (Some port, answers), reg'))
      | Some (Port_None _) \<Rightarrow> Some (Inr (None, answers), reg)
      | None \<Rightarrow>
          (case allocate_ephemeral_port os owner answers reg of
             None \<Rightarrow> None
           | Some (Inl e, reg') \<Rightarrow> Some (Inl e, reg')
           | Some (Inr (port, answers'), reg') \<Rightarrow> Some (Inr (Some port, answers'), reg')))"

lemma allocate_loop_Cons:
  "allocate_loop os owner_for ((name, svc) # services) answers reg =
     (case allocate_one os (owner_for name) svc answers reg of
        None \<Rightarrow> None
      | Some (Inl e, reg') \<Rightarrow> Some (Inl e, reg')
      | Some (Inr (port, answers'), reg') \<Rightarrow>
          (case allocate_loop os owner_for services answers' reg' of
             None \<Rightarrow> None
           | Some (Inl e, reg'') \<Rightarrow> Some (Inl e, reg'')
           | Some (Inr (allocated, rest), reg'') \<Rightarrow> Some (Inr ((name, port) # allocated, rest), reg'')))"
  by (simp add: allocate_one_def)

lemma allocate_one_Inr:
  assumes "allocate_one os owner svc answers reg = Some (Inr (port, rest), reg')"
    and "live_registry os reg" and "is_pid_alive os (os_pid os)"
  shows "live_registry os reg'"
    and "case port of None \<Rightarrow> owners reg' = owners reg
      | Some p \<Rightarrow> owners reg p \<in> {None, Some owner} \<and> owners reg' = (owners reg)(p \<mapsto> owner)"
proof -
  have "live_registry os reg' \<and> (case port of None \<Rightarrow> owners reg' = owners reg
      | Some p \<Rightarrow> owners reg p \<in> {None, Some owner} \<and> owners reg' = (owners reg)(p \<mapsto> owner))"
    using assms
    by (auto simp: allocate_one_def owners_insert live_registry_insert
        split: option.splits port_config.splits prod.splits sum.splits
        dest!: allocate_ephemeral_port_Inr dest: reserve_specific_port_owners reserve_specific_port_live)
  then show "live_registry os reg'"
    and "case port of None \<Rightarrow> owners reg' = owners reg
      | Some p \<Rightarrow> owners reg p \<in> {None, Some owner} \<and> owners reg' = (owners reg)(p \<mapsto> owner)"
    by auto
qed

lemma allocate_loop_Inr:
  assumes "allocate_loop os owner_for services answers reg = Some (Inr (allocated, rest), reg')"
    and "live_registry os reg" and "is_pid_alive os (os_pid os)"
  shows "live_registry os reg' \<and> map fst allocated = map fst services \<and>
    (\<forall>p. owners reg p \<noteq> None \<longrightarrow> owners reg' p = owners reg p) \<and>
    (\<forall>n p. (n, Some p) \<in> set allocated \<longrightarrow>
       owners reg' p = Some (owner_for n) \<and> owners reg p \<in> {None, Some (owner_for n)})"
  using assms
proof (induction services arbitrary: answers reg allocated)
  case Nil
  then show ?case by auto
next
  case (Cons ns services)
  obtain name svc where ns: "ns = (name, svc)" by fastforce
  obtain port answers1 reg1 allocated1 where
    one: "allocate_one os (owner_for name) svc answers reg = Some (Inr (port, answers1), reg1)"
    and more: "allocate_loop os owner_for services answers1 reg1 = Some (Inr (allocated1, rest), reg')"
    and allocated: "allocated = (name, port) # allocated1"
    using Cons.prems(1) unfolding ns allocate_loop_Cons
    by (auto split: option.splits prod.splits sum.splits)
  note first = allocate_one_Inr [OF one Cons.prems(2,3)]
  note ih = Cons.IH [OF more first(1) Cons.prems(3)]
  show ?case
  proof (cases port)
    case None
    then show ?thesis using ih first(2) by (simp add: ns allocated)
  next
    case (Some p)
    then have free: "owners reg p \<in> {None, Some (owner_for name)}"
      and reg1: "owners reg1 = (owners reg)(p \<mapsto> owner_for name)" using first(2) by auto
    have keep: "\<forall>q. owners reg q \<noteq> None \<longrightarrow> owners reg' q = owners reg q"
      using ih free by (auto simp: reg1)
    have "owners reg' p = Some (owner_for name)" using ih by (simp add: reg1)
    moreover have "owners reg q \<in> {None, Some (owner_for n)}"
      if "owners reg1 q \<in> {None, Some (owner_for n)}" "owners reg' q = Some (owner_for n)" for q n
      using that keep by (metis insertCI singletonD)
    ultimately show ?thesis
      using ih free keep by (auto simp: ns allocated Some)
  qed
qed

text \<open>How many different free ports the answers still hold.\<close>

definition fresh_answers :: "u16 result list \<Rightarrow> registry \<Rightarrow> u16 set" where
  "fresh_answers answers reg = {p. Inr p \<in> set answers \<and> \<not> bm_contains reg p}"

lemma fresh_answers_finite: "finite (fresh_answers answers reg)"
proof (rule finite_subset)
  show "fresh_answers answers reg \<subseteq> projr ` set answers"
    by (force simp: fresh_answers_def image_iff)
qed simp

lemma bm_contains_insert [simp]: "bm_contains (bm_insert k v m) k' \<longleftrightarrow> k' = k \<or> bm_contains m k'"
  by (auto simp: bm_contains_def)

lemma allocate_ephemeral_port_fresh:
  "allocate_ephemeral_port os owner answers reg = Some (Inr (port, rest), reg') \<Longrightarrow>
   fresh_answers answers reg \<subseteq> insert port (fresh_answers rest reg')"
proof (induction os owner answers reg rule: allocate_ephemeral_port.induct)
  case (3 os owner p answers reg)
  then show ?case by (auto simp: fresh_answers_def split: if_splits)
qed auto

lemma allocate_one_returns:
  assumes "fresh_answers answers reg \<noteq> {}"
  shows "\<exists>r. allocate_one os owner svc answers reg = Some r"
proof -
  obtain p where "Inr p \<in> set answers" "\<not> bm_contains reg p" using assms by (auto simp: fresh_answers_def)
  then have "\<exists>r. allocate_ephemeral_port os owner answers reg = Some r"
    unfolding allocate_ephemeral_port_returns by (intro bexI [of _ "Inr p"]) auto
  then show ?thesis
    by (auto simp: allocate_one_def split: option.splits port_config.splits prod.splits sum.splits)
qed

lemma reserve_specific_port_fresh:
  assumes "reserve_specific_port os port owner req reg = (r, reg')"
  shows "fresh_answers answers reg \<subseteq> insert port (fresh_answers answers reg')"
proof -
  have "bm_contains reg' p \<Longrightarrow> p = port \<or> bm_contains reg p" for p
    using assms by (auto simp: reserve_specific_port_def split: option.splits if_splits sum.splits)
  then show ?thesis by (auto simp: fresh_answers_def)
qed

lemma allocate_one_fresh:
  assumes "allocate_one os owner svc answers reg = Some (Inr (port, rest), reg')"
  shows "\<exists>p. fresh_answers answers reg \<subseteq> insert p (fresh_answers rest reg')"
proof (cases "sc_port svc")
  case None
  then obtain p where "allocate_ephemeral_port os owner answers reg = Some (Inr (p, rest), reg')"
    using assms by (auto simp: allocate_one_def split: option.splits prod.splits sum.splits)
  then show ?thesis using allocate_ephemeral_port_fresh by blast
next
  case (Some c)
  then show ?thesis
  proof (cases c)
    case (Port_None v)
    then have "rest = answers" "reg' = reg" using assms Some by (auto simp: allocate_one_def)
    then show ?thesis by blast
  next
    case (Port_Fixed p)
    obtain r reg1 where step: "reserve_specific_port os p owner True reg = (r, reg1)" by fastforce
    then have "rest = answers" "reg' = reg1"
      using assms Some Port_Fixed by (auto simp: allocate_one_def split: sum.splits)
    then show ?thesis using reserve_specific_port_fresh [OF step] by blast
  qed
qed

lemma allocate_loop_returns:
  "length services \<le> card (fresh_answers answers reg) \<Longrightarrow>
   \<exists>r. allocate_loop os owner_for services answers reg = Some r"
proof (induction services arbitrary: answers reg)
  case (Cons ns services)
  obtain name svc where ns: "ns = (name, svc)" by fastforce
  have "fresh_answers answers reg \<noteq> {}" using Cons.prems by auto
  then obtain r where r: "allocate_one os (owner_for name) svc answers reg = Some r"
    using allocate_one_returns by blast
  show ?case
  proof (cases "fst r")
    case (Inl e)
    then show ?thesis using r by (cases r) (simp add: ns allocate_loop_Cons del: allocate_loop.simps)
  next
    case (Inr out)
    obtain port rest reg' where out: "r = (Inr (port, rest), reg')" using Inr by (cases r; cases out) auto
    obtain p where p: "fresh_answers answers reg \<subseteq> insert p (fresh_answers rest reg')"
      using allocate_one_fresh r out by blast
    have "card (fresh_answers answers reg) \<le> card (insert p (fresh_answers rest reg'))"
      using p by (intro card_mono) (auto simp: fresh_answers_finite)
    also have "\<dots> \<le> Suc (card (fresh_answers rest reg'))"
      by (simp add: card_insert_if fresh_answers_finite)
    finally have "length services \<le> card (fresh_answers rest reg')" using Cons.prems by simp
    from Cons.IH [OF this] obtain r' where "allocate_loop os owner_for services rest reg' = Some r'" by blast
    then show ?thesis
      unfolding ns allocate_loop_Cons r out by (simp split: prod.split sum.split)
  qed
qed simp

section \<open>Properties\<close>

text \<open>
  C5. A successful allocation gives every service an entry; each allocated port is then held
  by its own service, was free or already its own before, and no two services share one. No
  port that anybody held is taken away.
\<close>

theorem allocate_ports_exclusive:
  assumes "registry_usable os file" and "inj_on owner_for (fst ` set services)"
    and "allocate_ports os services owner_for answers file = Some (Inr (allocated, rest), file')"
  shows "map fst allocated = map fst services \<and>
    (\<forall>n p. (n, Some p) \<in> set allocated \<longrightarrow>
       holder os file' p = Some (owner_for n) \<and> holder os file p \<in> {None, Some (owner_for n)}) \<and>
    (\<forall>n n' p. (n, Some p) \<in> set allocated \<longrightarrow> (n', Some p) \<in> set allocated \<longrightarrow> n = n') \<and>
    (\<forall>p. holder os file p \<noteq> None \<longrightarrow> holder os file' p = holder os file p)"
proof -
  have pid: "is_pid_alive os (os_pid os)" using assms(1) by (simp add: registry_usable_def)
  obtain reg where reg: "live_registry os reg" "holder os file = owners reg"
    and run: "\<And>action :: registry \<Rightarrow> (((string \<times> u16 option) list \<times> u16 result list) result \<times> registry) option.
        with_registry_loop os action file = map_option (commit file) (action reg)"
    using with_registry_loop_usable [OF assms(1)] by metis
  obtain reg' where loop: "allocate_loop os owner_for services answers reg = Some (Inr (allocated, rest), reg')"
    and file': "file' = Reg_Stored reg'"
    using assms(3) by (auto simp: allocate_ports_def run commit_eq_Inr)
  note ih = allocate_loop_Inr [OF loop reg(1) pid]
  then have held: "holder os file' = owners reg'" by (simp add: file' holder_stored)
  have names: "n \<in> fst ` set services" if "(n, q) \<in> set allocated" for n q
    using that ih by (metis fst_conv image_eqI set_map)
  have "n = n'" if "(n, Some p) \<in> set allocated" "(n', Some p) \<in> set allocated" for n n' p
    using that ih names assms(2) by (metis inj_on_eq_iff option.inject)
  then show ?thesis using ih by (auto simp: held reg(2))
qed

definition example_os :: port_os where
  "example_os =
     \<lparr>os_pid = 7, os_kill = (\<lambda>pid. if pid = 7 then None else Some 3), os_bind = (\<lambda>_. None),
      os_open = None, os_flock = None, os_write = Fault_None\<rparr>"

definition example_file :: reg_file where
  "example_file =
     Reg_Stored [(4000, \<lparr>re_owner = ''run:r0:web'', re_daemon_pid = 7\<rparr>),
                 (5000, \<lparr>re_owner = ''stale'', re_daemon_pid = 9\<rparr>)]"

definition two_services :: "(string, service_config) bmap" where
  "two_services =
     [(''api'', bare_service ''run-api''), (''web'', bare_service ''run-web''\<lparr>sc_port := Some (Port_Fixed 5000)\<rparr>)]"

lemma example_os_usable: "registry_usable example_os example_file"
  by (simp add: registry_usable_def example_os_def example_file_def is_pid_alive_def bm_ok_def)

lemma example_allocation:
  "allocate_ports example_os two_services (port_owner ''r1'') [Inr 4000, Inr 6000] example_file =
     Some (Inr ([(''api'', Some 6000), (''web'', Some 5000)], []),
       Reg_Stored [(4000, \<lparr>re_owner = ''run:r0:web'', re_daemon_pid = 7\<rparr>),
                   (5000, \<lparr>re_owner = ''run:r1:web'', re_daemon_pid = 7\<rparr>),
                   (6000, \<lparr>re_owner = ''run:r1:api'', re_daemon_pid = 7\<rparr>)])"
  by (simp add: allocate_ports_def with_registry_loop_def open_registry_def example_os_def
      example_file_def cleanup_stale_def bm_retain_def is_pid_alive_def two_services_def
      bare_service_def bm_contains_def reserve_specific_port_def ensure_available_def my_entry_def
      finish_registry_def port_owner_def)

theorem allocate_ports_exclusive_witness:
  "holder example_os (Reg_Stored [(4000, \<lparr>re_owner = ''run:r0:web'', re_daemon_pid = 7\<rparr>),
      (5000, \<lparr>re_owner = ''run:r1:web'', re_daemon_pid = 7\<rparr>),
      (6000, \<lparr>re_owner = ''run:r1:api'', re_daemon_pid = 7\<rparr>)]) 6000 = Some ''run:r1:api''"
proof -
  have "inj_on (port_owner ''r1'') (fst ` set two_services)"
    by (simp add: two_services_def port_owner_def)
  from allocate_ports_exclusive [OF example_os_usable this example_allocation]
  show ?thesis by (simp add: port_owner_def)
qed

text \<open>
  C14. An allocation, a reservation or a release that fails on a working registry leaves the
  file as it was, so a stack whose second port is taken keeps none of the first.
\<close>

theorem failed_port_operations_change_nothing:
  assumes "registry_usable os file"
  shows "(\<forall>e file'. allocate_ports os services owner_for answers file = Some (Inl e, file') \<longrightarrow> file' = file) \<and>
    (\<forall>e file'. reserve_port os port owner file = (Inl e, file') \<longrightarrow> file' = file) \<and>
    (\<forall>e file'. reserve_available_port os port owner file = (Inl e, file') \<longrightarrow> file' = file) \<and>
    (\<forall>e file'. release_port os port owner file = (Inl e, file') \<longrightarrow> file' = file)"
  using open_registry_usable [OF assms]
  by (auto simp: allocate_ports_def reserve_port_def reserve_available_port_def release_port_def
      with_registry_def with_registry_loop_def finish_registry_usable [OF assms] commit_eq_Inl
      split: sum.splits)

theorem failed_port_operations_change_nothing_witness:
  "snd (release_port example_os 4000 ''run:r1:web'' example_file) = example_file"
proof -
  have failed: "release_port example_os 4000 ''run:r1:web'' example_file =
      (Inl (reserved_by_another 4000), snd (release_port example_os 4000 ''run:r1:web'' example_file))"
    by (simp add: release_port_def with_registry_def open_registry_def example_os_def
        example_file_def cleanup_stale_def bm_retain_def is_pid_alive_def release_in_registry_def
        finish_registry_def)
  note unchanged = failed_port_operations_change_nothing [OF example_os_usable]
  from unchanged [THEN conjunct2, THEN conjunct2, THEN conjunct2, rule_format, OF failed]
  show ?thesis .
qed

text \<open>
  C6. The search for ports ends: when the free ports among the system's answers are at least
  as many as the services, the allocation returns, with ports or with an error.
\<close>

theorem allocate_ports_returns:
  assumes "open_registry os file = Inr reg" and "length services \<le> card (fresh_answers answers reg)"
  shows "\<exists>outcome file'. allocate_ports os services owner_for answers file = Some (outcome, file')"
  using allocate_loop_returns [OF assms(2), of os owner_for] assms(1)
  by (auto simp: allocate_ports_def with_registry_loop_def)

theorem allocate_ports_returns_witness:
  "\<exists>outcome file'. allocate_ports example_os two_services (port_owner ''r2'') [Inr 6000, Inr 4000, Inr 7000] example_file =
     Some (outcome, file')"
proof (rule allocate_ports_returns)
  let ?reg = "[(4000 :: u16, \<lparr>re_owner = ''run:r0:web'', re_daemon_pid = 7\<rparr>)]"
  show "open_registry example_os example_file = Inr ?reg" by code_simp
  have "fresh_answers [Inr 6000, Inr 4000, Inr 7000] ?reg = {6000, 7000}"
    by (auto simp: fresh_answers_def bm_contains_def)
  then show "length two_services \<le> card (fresh_answers [Inr 6000, Inr 4000, Inr 7000] ?reg)"
    by (simp add: two_services_def)
qed

text \<open>
  Giving back a list of ports one by one succeeds when each is free or held by the owner
  it is released for, and frees exactly these ports: nobody else's reservation is touched.
\<close>

theorem release_ports_frees_exactly:
  assumes "registry_usable os file" and "\<forall>(p, owner) \<in> set ports. holder os file p \<in> {None, Some owner}"
  shows "\<exists>file'. ports.each (release_port os) ports file = (Inr (), file') \<and>
    holder os file' = (\<lambda>p. if p \<in> fst ` set ports then None else holder os file p)"
  using ports.release_each_held [OF assms] by blast

theorem release_ports_frees_exactly_witness:
  "\<exists>file'. ports.each (release_port example_os) [(4000, ''run:r0:web'')] example_file = (Inr (), file') \<and>
    holder example_os file' 4000 = None"
proof -
  have "\<forall>(p, owner) \<in> set [(4000 :: u16, ''run:r0:web'')]. holder example_os example_file p \<in> {None, Some owner}"
    by (simp add: holder_def example_file_def owners_def cleanup_stale_def bm_retain_def
        is_pid_alive_def example_os_def)
  from release_ports_frees_exactly [OF example_os_usable this] show ?thesis by auto
qed

end
