(* ===== verification/Model.thy ===== *)
theory Model
  imports Config Json
begin

text \<open>
  The records the daemon keeps in memory: \<open>src/src/model\<close>, the handles of
  \<open>src/src/app/handles.rs\<close> and the events of \<open>src/src/api.rs\<close>. A handle is shared between
  the copies of a record that the stores hand out, so it is an identifier here: stopping a
  handle sets its flag for every copy, and an operation returns the identifiers it stopped.
  The clock is a parameter of the operations that read it.
\<close>

section \<open>Services\<close>

datatype service_state = Sv_Starting | Sv_Ready | Sv_Degraded | Sv_Stopped | Sv_Failed

datatype run_lifecycle = Run_Starting | Run_Running | Run_Degraded | Run_Stopped

record service_spec =
  ss_name :: string
  ss_deps :: "string list"
  ss_readiness :: readiness_spec
  ss_auto_restart :: bool
  ss_watch_patterns :: "string list"
  ss_ignore_patterns :: "string list"

record launch_plan =
  lp_unit_name :: string
  lp_cwd :: string
  lp_env :: "(string, string) bmap"
  lp_cmd :: string
  lp_log_path :: string
  lp_port :: "u16 option"
  lp_listen_port :: "u16 option"
  lp_scheme :: string
  lp_url :: "string option"
  lp_capture_api :: bool
  lp_capture_api_body_limit :: usize
  lp_capture_api_ignore :: "string list"
  lp_watch_hash :: string
  lp_watch_fingerprint :: string
  lp_watch_extra_files :: "string list"

record runtime_state =
  rt_state :: service_state
  rt_last_failure :: "string option"
  rt_last_started_at :: "string option"
  rt_watch_paused :: bool

type_synonym handle_id = nat

record service_handles =
  h_health :: "handle_id option"
  h_watch :: "handle_id option"
  h_api_capture :: "handle_id option"

record service_record =
  sr_spec :: service_spec
  sr_launch :: launch_plan
  sr_runtime :: runtime_state
  sr_handles :: service_handles

definition default_runtime :: runtime_state where
  "default_runtime =
     \<lparr>rt_state = Sv_Starting, rt_last_failure = None, rt_last_started_at = None, rt_watch_paused = False\<rparr>"

definition no_handles :: service_handles where
  "no_handles = \<lparr>h_health = None, h_watch = None, h_api_capture = None\<rparr>"

definition new_service_record :: "service_spec \<Rightarrow> launch_plan \<Rightarrow> service_record" where
  "new_service_record spec launch =
     \<lparr>sr_spec = spec, sr_launch = launch, sr_runtime = default_runtime, sr_handles = no_handles\<rparr>"

definition set_state :: "string \<Rightarrow> service_state \<Rightarrow> service_record \<Rightarrow> service_record" where
  "set_state now state record =
     (let record' = (if state = Sv_Ready
                     then record\<lparr>sr_runtime := (sr_runtime record)\<lparr>rt_last_started_at := Some now\<rparr>\<rparr>
                     else record) in
      record'\<lparr>sr_runtime := (sr_runtime record')\<lparr>rt_state := state\<rparr>\<rparr>)"

definition set_failure :: "string \<Rightarrow> service_record \<Rightarrow> service_record" where
  "set_failure reason record =
     record\<lparr>sr_runtime := (sr_runtime record)\<lparr>rt_state := Sv_Failed, rt_last_failure := Some reason\<rparr>\<rparr>"

text \<open>The three stops: the handle is taken out of the record, its flag goes up.\<close>

definition stop_health_monitor :: "service_record \<Rightarrow> service_record \<times> handle_id list" where
  "stop_health_monitor record =
     (case h_health (sr_handles record) of
        None \<Rightarrow> (record, [])
      | Some h \<Rightarrow> (record\<lparr>sr_handles := (sr_handles record)\<lparr>h_health := None\<rparr>\<rparr>, [h]))"

definition stop_watch :: "service_record \<Rightarrow> service_record \<times> handle_id list" where
  "stop_watch record =
     (case h_watch (sr_handles record) of
        None \<Rightarrow> (record, [])
      | Some h \<Rightarrow> (record\<lparr>sr_handles := (sr_handles record)\<lparr>h_watch := None\<rparr>\<rparr>, [h]))"

definition stop_api_capture :: "service_record \<Rightarrow> service_record \<times> handle_id list" where
  "stop_api_capture record =
     (case h_api_capture (sr_handles record) of
        None \<Rightarrow> (record, [])
      | Some h \<Rightarrow> (record\<lparr>sr_handles := (sr_handles record)\<lparr>h_api_capture := None\<rparr>\<rparr>, [h]))"

definition watch_active :: "service_record \<Rightarrow> bool" where
  "watch_active record \<longleftrightarrow>
     ss_auto_restart (sr_spec record) \<and> h_watch (sr_handles record) \<noteq> None
     \<and> \<not> rt_watch_paused (sr_runtime record)"

abbreviation sr_state :: "service_record \<Rightarrow> service_state" where
  "sr_state record \<equiv> rt_state (sr_runtime record)"

section \<open>Runs, globals, agents, tasks\<close>

record run_record =
  rr_run_id :: run_id
  rr_stack :: string
  rr_project_dir :: string
  rr_config_dir :: string
  rr_base_env :: "(string, string) bmap"
  rr_services :: "(string, service_record) bmap"
  rr_state :: run_lifecycle
  rr_created_at :: string
  rr_stopped_at :: "string option"

definition new_run_record ::
  "string \<Rightarrow> run_id \<Rightarrow> string \<Rightarrow> string \<Rightarrow> string \<Rightarrow> (string, string) bmap \<Rightarrow> run_record" where
  "new_run_record now run_id stack project_dir config_dir base_env =
     \<lparr>rr_run_id = run_id, rr_stack = stack, rr_project_dir = project_dir,
      rr_config_dir = config_dir, rr_base_env = base_env, rr_services = [],
      rr_state = Run_Starting, rr_created_at = now, rr_stopped_at = None\<rparr>"

definition run_is_stopped :: "run_record \<Rightarrow> bool" where
  "run_is_stopped run \<longleftrightarrow> rr_state run = Run_Stopped"

definition run_is_active :: "run_record \<Rightarrow> bool" where
  "run_is_active run \<longleftrightarrow> \<not> run_is_stopped run"

definition mark_stopped :: "string \<Rightarrow> run_record \<Rightarrow> run_record" where
  "mark_stopped now run = run\<lparr>rr_state := Run_Stopped, rr_stopped_at := Some now\<rparr>"

record global_record =
  gr_key :: string
  gr_name :: string
  gr_project_dir :: string
  gr_config_path :: string
  gr_service_config :: service_config
  gr_tasks_map :: "(string, task_config) bmap"
  gr_service :: service_record
  gr_state :: run_lifecycle
  gr_created_at :: string
  gr_stopped_at :: "string option"

record agent_session =
  as_agent_id :: string
  as_project_dir :: string
  as_stack :: "string option"
  as_command :: string
  as_pid :: u32
  as_created_at :: string
  as_pending :: "string list"

definition new_agent_session ::
  "string \<Rightarrow> string \<Rightarrow> string \<Rightarrow> string option \<Rightarrow> string \<Rightarrow> u32 \<Rightarrow> agent_session" where
  "new_agent_session now agent_id project_dir stack command pid =
     \<lparr>as_agent_id = agent_id, as_project_dir = project_dir, as_stack = stack,
      as_command = command, as_pid = pid, as_created_at = now, as_pending = []\<rparr>"

definition agent_queue_message :: "string \<Rightarrow> agent_session \<Rightarrow> nat \<times> agent_session" where
  "agent_queue_message message session =
     (let pending = as_pending session @ [message] in
      (length pending, session\<lparr>as_pending := pending\<rparr>))"

definition agent_drain_messages :: "agent_session \<Rightarrow> string list \<times> agent_session" where
  "agent_drain_messages session = (as_pending session, session\<lparr>as_pending := []\<rparr>)"

definition agent_update ::
  "string \<Rightarrow> string option \<Rightarrow> string \<Rightarrow> u32 \<Rightarrow> agent_session \<Rightarrow> agent_session" where
  "agent_update project_dir stack command pid session =
     session\<lparr>as_project_dir := project_dir, as_stack := stack, as_command := command, as_pid := pid\<rparr>"

datatype task_state = Task_Running | Task_Completed | Task_Failed

record task_execution =
  te_execution_id :: string
  te_task :: string
  te_project_dir :: string
  te_run_id :: "string option"
  te_state :: task_state
  te_started_at :: string
  te_started_instant :: nat
  te_finished_at :: "string option"
  te_exit_code :: "int option"
  te_duration_ms :: "nat option"

section \<open>Events\<close>

datatype run_event_kind = Run_Event_Created | Run_Event_State_Changed | Run_Event_Removed

datatype task_event_kind = Task_Event_Started | Task_Event_Completed | Task_Event_Failed

datatype daemon_event =
    Ev_Run run_event_kind run_id "run_lifecycle option" "string option" "string option"
  | Ev_Service run_id service_name service_state
  | Ev_Task task_event_kind task_execution
  | Ev_Global string run_lifecycle

definition run_created_event :: "run_record \<Rightarrow> daemon_event" where
  "run_created_event run =
     Ev_Run Run_Event_Created (rr_run_id run) (Some (rr_state run)) (Some (rr_stack run))
       (Some (rr_project_dir run))"

definition run_state_changed_event :: "run_record \<Rightarrow> daemon_event" where
  "run_state_changed_event run =
     Ev_Run Run_Event_State_Changed (rr_run_id run) (Some (rr_state run)) None None"

definition run_removed_event :: "run_id \<Rightarrow> daemon_event" where
  "run_removed_event run_id = Ev_Run Run_Event_Removed run_id None None None"

definition service_state_changed_event :: "run_id \<Rightarrow> service_name \<Rightarrow> service_state \<Rightarrow> daemon_event" where
  "service_state_changed_event run_id service state = Ev_Service run_id service state"

definition global_state_changed_event :: "string \<Rightarrow> run_lifecycle \<Rightarrow> daemon_event" where
  "global_state_changed_event key state = Ev_Global key state"

definition task_event :: "task_execution \<Rightarrow> task_event_kind \<Rightarrow> daemon_event" where
  "task_event task kind = Ev_Task kind task"

section \<open>Application errors\<close>

datatype app_error =
    Not_Found string
  | Bad_Request string
  | Internal string

type_synonym 'a app_result = "app_error + 'a"

definition internal_error :: "'a result \<Rightarrow> 'a app_result" where
  "internal_error r = map_err Internal r"

fun error_status :: "app_error \<Rightarrow> nat \<times> json" where
  "error_status (Not_Found message) = (404, J_Obj [(''error'', J_Str message)])"
| "error_status (Bad_Request message) = (400, J_Obj [(''error'', J_Str message)])"
| "error_status (Internal message) = (500, J_Obj [(''error'', J_Str message)])"

section \<open>Facts\<close>

lemma set_state_fields [simp]:
  "sr_state (set_state now state r) = state"
  "sr_spec (set_state now state r) = sr_spec r"
  "sr_launch (set_state now state r) = sr_launch r"
  "sr_handles (set_state now state r) = sr_handles r"
  "rt_last_failure (sr_runtime (set_state now state r)) = rt_last_failure (sr_runtime r)"
  "rt_watch_paused (sr_runtime (set_state now state r)) = rt_watch_paused (sr_runtime r)"
  by (simp_all add: set_state_def Let_def)

lemma set_failure_fields [simp]:
  "sr_state (set_failure reason r) = Sv_Failed"
  "sr_spec (set_failure reason r) = sr_spec r"
  "sr_launch (set_failure reason r) = sr_launch r"
  "sr_handles (set_failure reason r) = sr_handles r"
  "rt_last_failure (sr_runtime (set_failure reason r)) = Some reason"
  by (simp_all add: set_failure_def)

lemma stop_fields [simp]:
  "sr_spec (fst (stop_health_monitor r)) = sr_spec r"
  "sr_launch (fst (stop_health_monitor r)) = sr_launch r"
  "sr_runtime (fst (stop_health_monitor r)) = sr_runtime r"
  "h_health (sr_handles (fst (stop_health_monitor r))) = None"
  "sr_spec (fst (stop_watch r)) = sr_spec r"
  "sr_launch (fst (stop_watch r)) = sr_launch r"
  "sr_runtime (fst (stop_watch r)) = sr_runtime r"
  "h_watch (sr_handles (fst (stop_watch r))) = None"
  "sr_spec (fst (stop_api_capture r)) = sr_spec r"
  "sr_launch (fst (stop_api_capture r)) = sr_launch r"
  "sr_runtime (fst (stop_api_capture r)) = sr_runtime r"
  "h_api_capture (sr_handles (fst (stop_api_capture r))) = None"
  by (simp_all add: stop_health_monitor_def stop_watch_def stop_api_capture_def split: option.split)

text \<open>The stops as updates: every copy of a record gives up its handle, which is returned.\<close>

lemma stop_handles [simp]:
  "sr_handles (fst (stop_health_monitor r)) = (sr_handles r)\<lparr>h_health := None\<rparr>"
  "sr_handles (fst (stop_watch r)) = (sr_handles r)\<lparr>h_watch := None\<rparr>"
  "sr_handles (fst (stop_api_capture r)) = (sr_handles r)\<lparr>h_api_capture := None\<rparr>"
  by (cases "sr_handles r"; simp add: stop_health_monitor_def stop_watch_def stop_api_capture_def split: option.split)+

lemma set_stopped [simp]:
  "set (snd (stop_health_monitor r)) = set_option (h_health (sr_handles r))"
  "set (snd (stop_watch r)) = set_option (h_watch (sr_handles r))"
  "set (snd (stop_api_capture r)) = set_option (h_api_capture (sr_handles r))"
  by (simp_all add: stop_health_monitor_def stop_watch_def stop_api_capture_def split: option.split)

end
