(* ===== verification/Stores.thy ===== *)
theory Stores
  imports Model Ports
begin

text \<open>
  The in-memory stores of \<open>src/src/stores\<close> and the selection of runs of
  \<open>src/src/app/runtime.rs\<close>. Each store is a map behind a mutex, so each of its methods is one
  atomic step: a function from the map to the answer and the map afterwards. \<open>kill\<close> is the
  answer of \<open>kill(pid, 0)\<close>, \<open>canon\<close> is \<open>canonicalize\<close>, \<open>now\<close> the clock and
  \<open>instant\<close> the monotonic clock in milliseconds.
\<close>

section \<open>The contract of a keyed store\<close>

text \<open>
  What the daemon relies on in each of its maps: a lookup after an insertion or a removal,
  and that both keep the map well formed.
\<close>

locale keyed_store =
  fixes wf :: "'s \<Rightarrow> bool"
    and get :: "'s \<Rightarrow> 'k \<Rightarrow> 'v option"
    and put :: "'k \<Rightarrow> 'v \<Rightarrow> 's \<Rightarrow> 's"
    and del :: "'k \<Rightarrow> 's \<Rightarrow> 's"
  assumes get_put: "wf s \<Longrightarrow> get (put k v s) = (get s)(k \<mapsto> v)"
    and get_del: "wf s \<Longrightarrow> get (del k s) = (get s)(k := None)"
    and wf_put: "wf s \<Longrightarrow> wf (put k v s)"
    and wf_del: "wf s \<Longrightarrow> wf (del k s)"
begin

text \<open>Creation refuses a key that is taken.\<close>

definition create :: "'k \<Rightarrow> 'v \<Rightarrow> 's \<Rightarrow> bool \<times> 's" where
  "create k v s = (if get s k \<noteq> None then (False, s) else (True, put k v s))"

text \<open>Removal answers what was there.\<close>

definition take :: "'k \<Rightarrow> 's \<Rightarrow> 'v option \<times> 's" where
  "take k s = (get s k, del k s)"

lemma create_again: "wf s \<Longrightarrow> create k v s = (True, s') \<Longrightarrow> create k w s' = (False, s')"
  by (auto simp: create_def get_put split: if_splits)

lemma create_then_take:
  "wf s \<Longrightarrow> create k v s = (True, s') \<Longrightarrow> fst (take k s') = Some v \<and> get (snd (take k s')) = get s"
  by (auto simp: create_def take_def get_put get_del wf_put fun_eq_iff split: if_splits)

lemma create_others: "wf s \<Longrightarrow> create k v s = (b, s') \<Longrightarrow> k' \<noteq> k \<Longrightarrow> get s' k' = get s k'"
  by (auto simp: create_def get_put split: if_splits)

lemma create_wf: "wf s \<Longrightarrow> create k v s = (b, s') \<Longrightarrow> wf s'"
  by (auto simp: create_def wf_put split: if_splits)

end

interpretation btree: keyed_store bm_ok map_of bm_insert bm_remove
  by unfold_locales (auto simp: bm_ok_insert bm_ok_remove)

section \<open>Runs\<close>

type_synonym run_store = "(string, run_record) bmap"

definition create_run :: "run_record \<Rightarrow> run_store \<Rightarrow> unit result \<times> run_store" where
  "create_run run runs =
     (let run_id = rr_run_id run in
      if bm_contains runs run_id then (Inl (''run '' @ run_id @ '' already exists''), runs)
      else (Inr (), bm_insert run_id run runs))"

definition get_run :: "run_id \<Rightarrow> run_store \<Rightarrow> run_record option" where
  "get_run run_id runs = map_of runs run_id"

definition list_runs :: "run_store \<Rightarrow> run_record list" where
  "list_runs runs = bm_values runs"

definition remove_run :: "run_id \<Rightarrow> run_store \<Rightarrow> run_record option \<times> run_store" where
  "remove_run run_id runs = (map_of runs run_id, bm_remove run_id runs)"

definition run_not_found :: "run_id \<Rightarrow> string" where
  "run_not_found run_id = ''run '' @ run_id @ '' not found''"

definition with_run_mut ::
  "run_id \<Rightarrow> (run_record \<Rightarrow> 'a \<times> run_record) \<Rightarrow> run_store \<Rightarrow> 'a result \<times> run_store" where
  "with_run_mut run_id f runs =
     (case map_of runs run_id of
        None \<Rightarrow> (Inl (run_not_found run_id), runs)
      | Some run \<Rightarrow> (let (out, run') = f run in (Inr out, bm_update run_id (\<lambda>_. run') runs)))"

definition with_run :: "run_id \<Rightarrow> (run_record \<Rightarrow> 'a) \<Rightarrow> run_store \<Rightarrow> 'a result" where
  "with_run run_id f runs =
     (case map_of runs run_id of
        None \<Rightarrow> Inl (run_not_found run_id)
      | Some run \<Rightarrow> Inr (f run))"

definition set_service_state ::
  "string \<Rightarrow> run_id \<Rightarrow> service_name \<Rightarrow> service_state \<Rightarrow> service_record \<Rightarrow> daemon_event option \<times> service_record" where
  "set_service_state now run_id service state record =
     (if sr_state record = state then (None, record)
      else (Some (service_state_changed_event run_id service state), set_state now state record))"

text \<open>The loop over the services: \<open>(all_ready, any_degraded)\<close>.\<close>

fun run_state_step :: "bool \<times> bool \<Rightarrow> service_record \<Rightarrow> bool \<times> bool" where
  "run_state_step (all_ready, any_degraded) service =
     (case sr_state service of
        Sv_Ready \<Rightarrow> (all_ready, any_degraded)
      | Sv_Starting \<Rightarrow> (False, any_degraded)
      | Sv_Degraded \<Rightarrow> (False, True)
      | Sv_Failed \<Rightarrow> (False, True)
      | Sv_Stopped \<Rightarrow> (False, any_degraded))"

definition recompute_run_state :: "run_record \<Rightarrow> daemon_event option \<times> run_record" where
  "recompute_run_state run =
     (if rr_state run = Run_Stopped then (None, run)
      else
        let previous = rr_state run;
            (all_ready, any_degraded) = foldl run_state_step (True, False) (bm_values (rr_services run));
            state = (if any_degraded then Run_Degraded
                     else if all_ready then Run_Running else Run_Starting);
            run' = run\<lparr>rr_state := state\<rparr> in
        (if state \<noteq> previous then Some (run_state_changed_event run') else None, run'))"

text \<open>
  Selection: a stable sort by creation time, latest first, of the active runs of a project,
  of which the first is taken.
\<close>

definition same_project_dir :: "(string \<Rightarrow> string option) \<Rightarrow> string \<Rightarrow> string \<Rightarrow> bool" where
  "same_project_dir canon run_project_dir project_dir =
     (if run_project_dir = project_dir then True
      else unwrap_or (canon run_project_dir) run_project_dir = unwrap_or (canon project_dir) project_dir)"

fun insert_latest :: "string \<times> string \<Rightarrow> (string \<times> string) list \<Rightarrow> (string \<times> string) list" where
  "insert_latest x [] = [x]"
| "insert_latest x (y # ys) = (if fst x < fst y then y # insert_latest x ys else x # y # ys)"

fun sort_latest :: "(string \<times> string) list \<Rightarrow> (string \<times> string) list" where
  "sort_latest [] = []"
| "sort_latest (x # xs) = insert_latest x (sort_latest xs)"

definition latest_candidate :: "(string \<times> string) list \<Rightarrow> string option" where
  "latest_candidate candidates = (case sort_latest candidates of [] \<Rightarrow> None | c # _ \<Rightarrow> Some (snd c))"

definition run_selectable :: "run_record \<Rightarrow> bool" where
  "run_selectable run \<longleftrightarrow> rr_state run \<noteq> Run_Stopped \<and> rr_stopped_at run = None"

definition find_latest_active_run_for_project ::
  "(string \<Rightarrow> string option) \<Rightarrow> string \<Rightarrow> run_store \<Rightarrow> string option" where
  "find_latest_active_run_for_project canon project_dir runs =
     latest_candidate (map (\<lambda>run. (rr_created_at run, rr_run_id run))
       (filter run_selectable
         (filter (\<lambda>run. same_project_dir canon (rr_project_dir run) project_dir) (bm_values runs))))"

definition find_latest_run_for_project_stack ::
  "(string \<Rightarrow> string option) \<Rightarrow> string \<Rightarrow> string \<Rightarrow> run_store \<Rightarrow> string option" where
  "find_latest_run_for_project_stack canon project_dir stack runs =
     latest_candidate (map (\<lambda>run. (rr_created_at run, rr_run_id run))
       (filter run_selectable
         (filter (\<lambda>run. same_project_dir canon (rr_project_dir run) project_dir)
           (filter (\<lambda>run. rr_stack run = stack) (bm_values runs)))))"

section \<open>Globals\<close>

type_synonym global_store = "(string, global_record) bmap"

text \<open>The handles of the record that is replaced are stopped; the list holds them.\<close>

definition stop_all_handles :: "service_record \<Rightarrow> service_record \<times> handle_id list" where
  "stop_all_handles record =
     (let (r1, hs1) = stop_health_monitor record;
          (r2, hs2) = stop_watch r1;
          (r3, hs3) = stop_api_capture r2 in (r3, hs1 @ hs2 @ hs3))"

definition upsert_global :: "global_record \<Rightarrow> global_store \<Rightarrow> handle_id list \<times> global_store" where
  "upsert_global record globals =
     (let stopped = (case map_of globals (gr_key record) of
            None \<Rightarrow> []
          | Some previous \<Rightarrow> snd (stop_all_handles (gr_service previous))) in
      (stopped, bm_insert (gr_key record) record (bm_remove (gr_key record) globals)))"

definition get_global :: "string \<Rightarrow> global_store \<Rightarrow> global_record option" where
  "get_global key globals = map_of globals key"

definition list_globals :: "global_store \<Rightarrow> global_record list" where
  "list_globals globals = bm_values globals"

definition with_global_mut ::
  "string \<Rightarrow> (global_record \<Rightarrow> 'a \<times> global_record) \<Rightarrow> global_store \<Rightarrow> 'a result \<times> global_store" where
  "with_global_mut key f globals =
     (case map_of globals key of
        None \<Rightarrow> (Inl (''global '' @ key @ '' not found''), globals)
      | Some global \<Rightarrow> (let (out, global') = f global in (Inr out, bm_update key (\<lambda>_. global') globals)))"

section \<open>Navigation\<close>

definition set_intent :: "'i \<Rightarrow> 'i option \<Rightarrow> 'i option" where
  "set_intent intent store = Some intent"

definition get_intent :: "'i option \<Rightarrow> 'i option" where
  "get_intent store = store"

definition clear_intent :: "'i option \<Rightarrow> bool \<times> 'i option" where
  "clear_intent store = (store \<noteq> None, None)"

definition update_intent :: "('i \<Rightarrow> 'i) \<Rightarrow> 'i option \<Rightarrow> bool \<times> 'i option" where
  "update_intent updater store =
     (case store of Some intent \<Rightarrow> (True, Some (updater intent)) | None \<Rightarrow> (False, None))"

section \<open>Agent sessions\<close>

type_synonym agent_store = "(string, agent_session) bmap"
type_synonym kill_answer = "u32 \<Rightarrow> int option"

definition agent_pid_alive :: "kill_answer \<Rightarrow> u32 \<Rightarrow> bool" where
  "agent_pid_alive kill pid =
     (if pid = 0 \<or> 2147483647 < pid then False
      else (case kill pid of None \<Rightarrow> True | Some errno \<Rightarrow> errno = 1))"

definition cleanup_stale_sessions_internal :: "kill_answer \<Rightarrow> agent_store \<Rightarrow> agent_store" where
  "cleanup_stale_sessions_internal kill sessions =
     bm_retain (\<lambda>_ session. agent_pid_alive kill (as_pid session)) sessions"

definition register_session ::
  "kill_answer \<Rightarrow> string \<Rightarrow> string \<Rightarrow> string \<Rightarrow> string option \<Rightarrow> string \<Rightarrow> u32 \<Rightarrow> agent_store \<Rightarrow>
     agent_session \<times> agent_store" where
  "register_session kill now agent_id project_dir stack command pid sessions =
     (let guard = cleanup_stale_sessions_internal kill sessions;
          guard' = bm_or_insert agent_id
                     (new_agent_session now agent_id project_dir stack command pid) guard;
          entry = agent_update project_dir stack command pid (the (map_of guard' agent_id)) in
      (entry, bm_update agent_id (\<lambda>_. entry) guard'))"

definition unregister_session :: "kill_answer \<Rightarrow> string \<Rightarrow> agent_store \<Rightarrow> bool \<times> agent_store" where
  "unregister_session kill agent_id sessions =
     (let guard = cleanup_stale_sessions_internal kill sessions in
      (map_of guard agent_id \<noteq> None, bm_remove agent_id guard))"

definition session_not_found :: "string \<Rightarrow> string" where
  "session_not_found agent_id = ''agent session '' @ agent_id @ '' not found''"

definition queue_message ::
  "kill_answer \<Rightarrow> string \<Rightarrow> string \<Rightarrow> agent_store \<Rightarrow> nat result \<times> agent_store" where
  "queue_message kill agent_id message sessions =
     (let guard = cleanup_stale_sessions_internal kill sessions in
      (case map_of guard agent_id of
         None \<Rightarrow> (Inl (session_not_found agent_id), guard)
       | Some session \<Rightarrow>
           (let (n, session') = agent_queue_message message session in
            (Inr n, bm_update agent_id (\<lambda>_. session') guard))))"

definition poll_messages :: "kill_answer \<Rightarrow> string \<Rightarrow> agent_store \<Rightarrow> string list result \<times> agent_store" where
  "poll_messages kill agent_id sessions =
     (let guard = cleanup_stale_sessions_internal kill sessions in
      (case map_of guard agent_id of
         None \<Rightarrow> (Inl (session_not_found agent_id), guard)
       | Some session \<Rightarrow>
           (let (messages, session') = agent_drain_messages session in
            (Inr messages, bm_update agent_id (\<lambda>_. session') guard))))"

text \<open>\<open>max_by\<close> keeps the later of two equal maxima.\<close>

definition session_le :: "agent_session \<Rightarrow> agent_session \<Rightarrow> bool" where
  "session_le a b \<longleftrightarrow> as_created_at a < as_created_at b
     \<or> (as_created_at a = as_created_at b \<and> as_agent_id a \<le> as_agent_id b)"

fun max_session :: "agent_session option \<Rightarrow> agent_session list \<Rightarrow> agent_session option" where
  "max_session best [] = best"
| "max_session best (x # xs) =
     (case best of
        None \<Rightarrow> max_session (Some x) xs
      | Some b \<Rightarrow> max_session (Some (if session_le b x then x else b)) xs)"

definition find_latest_for_project ::
  "kill_answer \<Rightarrow> string \<Rightarrow> agent_store \<Rightarrow> agent_session option \<times> agent_store" where
  "find_latest_for_project kill project_dir sessions =
     (let guard = cleanup_stale_sessions_internal kill sessions in
      (max_session None (filter (\<lambda>s. as_project_dir s = project_dir) (bm_values guard)), guard))"

definition list_sessions :: "kill_answer \<Rightarrow> agent_store \<Rightarrow> agent_session list \<times> agent_store" where
  "list_sessions kill sessions =
     (let guard = cleanup_stale_sessions_internal kill sessions in (bm_values guard, guard))"

definition cleanup_stale_sessions :: "kill_answer \<Rightarrow> agent_store \<Rightarrow> nat \<times> agent_store" where
  "cleanup_stale_sessions kill sessions =
     (let guard = cleanup_stale_sessions_internal kill sessions in (length sessions - length guard, guard))"

section \<open>Detached tasks\<close>

type_synonym task_store = "(string, task_execution) bmap"

definition elapsed_ms :: "nat \<Rightarrow> nat \<Rightarrow> nat" where
  "elapsed_ms instant started = min (instant - started) (2 ^ 64 - 1)"

definition new_task_execution ::
  "string \<Rightarrow> nat \<Rightarrow> string \<Rightarrow> string \<Rightarrow> string \<Rightarrow> string option \<Rightarrow> task_execution" where
  "new_task_execution now instant execution_id task project_dir run_id =
     \<lparr>te_execution_id = execution_id, te_task = task, te_project_dir = project_dir,
      te_run_id = run_id, te_state = Task_Running, te_started_at = now,
      te_started_instant = instant, te_finished_at = None, te_exit_code = None,
      te_duration_ms = None\<rparr>"

definition mark_completed :: "string \<Rightarrow> nat \<Rightarrow> int \<Rightarrow> task_execution \<Rightarrow> task_execution" where
  "mark_completed now instant exit_code task =
     task\<lparr>te_state := (if exit_code = 0 then Task_Completed else Task_Failed),
          te_exit_code := Some exit_code, te_finished_at := Some now,
          te_duration_ms := Some (elapsed_ms instant (te_started_instant task))\<rparr>"

definition mark_task_failed :: "string \<Rightarrow> nat \<Rightarrow> task_execution \<Rightarrow> task_execution" where
  "mark_task_failed now instant task =
     task\<lparr>te_state := Task_Failed, te_finished_at := Some now,
          te_duration_ms := Some (elapsed_ms instant (te_started_instant task))\<rparr>"

definition current_duration_ms :: "nat \<Rightarrow> task_execution \<Rightarrow> nat" where
  "current_duration_ms instant task =
     unwrap_or (te_duration_ms task) (elapsed_ms instant (te_started_instant task))"

definition add_task :: "task_execution \<Rightarrow> task_store \<Rightarrow> unit result \<times> task_store" where
  "add_task task tasks =
     (if bm_contains tasks (te_execution_id task) then
        (Inl (''task execution '' @ te_execution_id task @ '' already exists''), tasks)
      else (Inr (), bm_insert (te_execution_id task) task tasks))"

definition get_task :: "string \<Rightarrow> task_store \<Rightarrow> task_execution option" where
  "get_task execution_id tasks = map_of tasks execution_id"

definition list_tasks_for_run :: "run_id \<Rightarrow> task_store \<Rightarrow> task_execution list" where
  "list_tasks_for_run run_id tasks = filter (\<lambda>t. te_run_id t = Some run_id) (bm_values tasks)"

text \<open>The store's own comparison of directories: two paths that cannot be resolved are equal.\<close>

definition store_same_project_dir :: "(string \<Rightarrow> string option) \<Rightarrow> string \<Rightarrow> string \<Rightarrow> bool" where
  "store_same_project_dir canon a b \<longleftrightarrow> canon a = canon b"

definition has_running_task ::
  "(string \<Rightarrow> string option) \<Rightarrow> string \<Rightarrow> run_id option \<Rightarrow> string \<Rightarrow> task_store \<Rightarrow> bool" where
  "has_running_task canon task_name run_id project_dir tasks =
     list_ex (\<lambda>t. te_state t = Task_Running \<and> te_task t = task_name \<and>
         (case (te_run_id t, run_id) of
            (Some existing, Some candidate) \<Rightarrow> existing = candidate
          | (None, None) \<Rightarrow> store_same_project_dir canon (te_project_dir t) project_dir
          | _ \<Rightarrow> False)) (bm_values tasks)"

definition update_task_state ::
  "string \<Rightarrow> nat \<Rightarrow> string \<Rightarrow> int option \<Rightarrow> task_store \<Rightarrow> task_execution result \<times> task_store" where
  "update_task_state now instant execution_id exit_code tasks =
     (case map_of tasks execution_id of
        None \<Rightarrow> (Inl (''task execution '' @ execution_id @ '' not found''), tasks)
      | Some task \<Rightarrow>
          (let task' = (case exit_code of
                 Some exit \<Rightarrow> mark_completed now instant exit task
               | None \<Rightarrow> mark_task_failed now instant task) in
           (Inr task', bm_update execution_id (\<lambda>_. task') tasks)))"

definition remove_task :: "string \<Rightarrow> task_store \<Rightarrow> task_execution option \<times> task_store" where
  "remove_task execution_id tasks = (map_of tasks execution_id, bm_remove execution_id tasks)"

definition cleanup_finished_tasks :: "nat \<Rightarrow> nat \<Rightarrow> task_store \<Rightarrow> nat \<times> task_store" where
  "cleanup_finished_tasks instant max_age_secs tasks =
     (let cutoff = (if max_age_secs * 1000 \<le> instant then instant - max_age_secs * 1000 else instant);
          tasks' = bm_retain (\<lambda>_ task. case te_state task of
                       Task_Running \<Rightarrow> True
                     | _ \<Rightarrow> cutoff < te_started_instant task) tasks in
      (length tasks - length tasks', tasks'))"

section \<open>Facts about runs\<close>

lemma create_run_btree:
  "create_run run runs =
     (let (created, runs') = btree.create (rr_run_id run) run runs in
      (if created then Inr () else Inl (''run '' @ rr_run_id run @ '' already exists''), runs'))"
  by (simp add: create_run_def btree.create_def bm_contains_def Let_def)

lemma add_task_btree:
  "add_task task tasks =
     (let (created, tasks') = btree.create (te_execution_id task) task tasks in
      (if created then Inr ()
       else Inl (''task execution '' @ te_execution_id task @ '' already exists''), tasks'))"
  by (simp add: add_task_def btree.create_def bm_contains_def Let_def)

lemma remove_run_btree: "remove_run run_id runs = btree.take run_id runs"
  by (simp add: remove_run_def btree.take_def)

lemma run_state_fold:
  "foldl run_state_step (a, d) services =
     (a \<and> (\<forall>s \<in> set services. sr_state s = Sv_Ready),
      d \<or> (\<exists>s \<in> set services. sr_state s \<in> {Sv_Degraded, Sv_Failed}))"
  by (induction services arbitrary: a d) (auto split: service_state.splits)

text \<open>The state a run has by its services, as the specification of the recomputation.\<close>

definition run_state_of :: "service_record list \<Rightarrow> run_lifecycle" where
  "run_state_of services =
     (if \<exists>s \<in> set services. sr_state s \<in> {Sv_Degraded, Sv_Failed} then Run_Degraded
      else if \<forall>s \<in> set services. sr_state s = Sv_Ready then Run_Running
      else Run_Starting)"

lemma recompute_run_state_eq:
  "recompute_run_state run =
     (if rr_state run = Run_Stopped then (None, run)
      else let run' = run\<lparr>rr_state := run_state_of (bm_values (rr_services run))\<rparr> in
        (if rr_state run' = rr_state run then None else Some (run_state_changed_event run'), run'))"
  by (auto simp: recompute_run_state_def run_state_fold run_state_of_def Let_def)

lemma recompute_run_state_fields [simp]:
  "rr_services (snd (recompute_run_state run)) = rr_services run"
  "rr_run_id (snd (recompute_run_state run)) = rr_run_id run"
  "rr_stopped_at (snd (recompute_run_state run)) = rr_stopped_at run"
  "rr_created_at (snd (recompute_run_state run)) = rr_created_at run"
  "rr_stack (snd (recompute_run_state run)) = rr_stack run"
  "rr_project_dir (snd (recompute_run_state run)) = rr_project_dir run"
  by (simp_all add: recompute_run_state_eq Let_def)

lemma recompute_run_state_stopped: "rr_state run = Run_Stopped \<Longrightarrow> recompute_run_state run = (None, run)"
  by (simp add: recompute_run_state_eq)

lemma recompute_run_state_twice:
  "recompute_run_state (snd (recompute_run_state run)) = (None, snd (recompute_run_state run))"
  by (auto simp: recompute_run_state_eq Let_def run_state_of_def)

section \<open>Facts about the selection\<close>

lemma set_insert_latest: "set (insert_latest x ys) = insert x (set ys)"
  by (induction ys) auto

lemma set_sort_latest: "set (sort_latest xs) = set xs"
  by (induction xs) (auto simp: set_insert_latest)

lemma insert_latest_hd:
  "\<forall>y \<in> set ys. fst y \<le> fst (hd ys) \<Longrightarrow> \<forall>y \<in> set (insert_latest x ys). fst y \<le> fst (hd (insert_latest x ys))"
  by (cases ys) (auto simp: set_insert_latest not_less)

lemma sort_latest_hd: "\<forall>y \<in> set (sort_latest xs). fst y \<le> fst (hd (sort_latest xs))"
  by (induction xs) (auto dest: insert_latest_hd simp del: insert_latest.simps)

lemma latest_candidate_Some:
  assumes "latest_candidate candidates = Some r"
  shows "\<exists>t. (t, r) \<in> set candidates \<and> (\<forall>(t', _) \<in> set candidates. t' \<le> t)"
proof -
  obtain c cs where sorted: "sort_latest candidates = c # cs" and r: "r = snd c"
    using assms by (auto simp: latest_candidate_def split: list.splits)
  have members: "set candidates = insert c (set cs)"
    using set_sort_latest [of candidates] by (simp add: sorted)
  have "\<forall>y \<in> insert c (set cs). fst y \<le> fst c"
    using sort_latest_hd [of candidates] by (simp add: sorted)
  then show ?thesis using r unfolding members by (intro exI [of _ "fst c"]) auto
qed

lemma latest_candidate_None: "latest_candidate candidates = None \<longleftrightarrow> candidates = []"
  using set_sort_latest [of candidates] by (auto simp: latest_candidate_def split: list.splits)

section \<open>Facts about agent sessions\<close>

lemma cleanup_get:
  assumes "bm_ok sessions"
  shows "map_of (cleanup_stale_sessions_internal kill sessions) a =
    (case map_of sessions a of
       None \<Rightarrow> None
     | Some session \<Rightarrow> if agent_pid_alive kill (as_pid session) then Some session else None)"
  by (simp add: cleanup_stale_sessions_internal_def map_of_bm_retain [OF assms])

lemma cleanup_ok [intro]: "bm_ok sessions \<Longrightarrow> bm_ok (cleanup_stale_sessions_internal kill sessions)"
  by (auto simp: cleanup_stale_sessions_internal_def)

text \<open>Queueing several messages, one call each.\<close>

fun queue_messages :: "kill_answer \<Rightarrow> string \<Rightarrow> string list \<Rightarrow> agent_store \<Rightarrow> agent_store" where
  "queue_messages kill agent_id [] sessions = sessions"
| "queue_messages kill agent_id (m # ms) sessions =
     queue_messages kill agent_id ms (snd (queue_message kill agent_id m sessions))"

lemma queue_message_session:
  assumes "bm_ok sessions" and "map_of sessions a = Some session" and "agent_pid_alive kill (as_pid session)"
  shows "map_of (snd (queue_message kill a m sessions)) a = Some (session\<lparr>as_pending := as_pending session @ [m]\<rparr>)"
    and "bm_ok (snd (queue_message kill a m sessions))"
  using assms cleanup_ok [OF assms(1), of kill]
  by (auto simp: queue_message_def cleanup_get [OF assms(1)] agent_queue_message_def Let_def)

lemma queue_messages_session:
  assumes "bm_ok sessions" and "map_of sessions a = Some session" and "agent_pid_alive kill (as_pid session)"
  shows "bm_ok (queue_messages kill a ms sessions) \<and>
    map_of (queue_messages kill a ms sessions) a = Some (session\<lparr>as_pending := as_pending session @ ms\<rparr>)"
  using assms
proof (induction ms arbitrary: sessions session)
  case (Cons m ms)
  note q = queue_message_session [OF Cons.prems]
  from Cons.IH [OF q(2) q(1)] Cons.prems(3) show ?case by simp
qed simp

lemma poll_messages_session:
  assumes "bm_ok sessions" and "map_of sessions a = Some session" and "agent_pid_alive kill (as_pid session)"
  obtains after where "poll_messages kill a sessions = (Inr (as_pending session), after)"
    and "bm_ok after" and "map_of after a = Some (session\<lparr>as_pending := []\<rparr>)"
  using assms cleanup_ok [OF assms(1), of kill]
  by (auto simp: poll_messages_def cleanup_get [OF assms(1)] agent_drain_messages_def Let_def)

section \<open>Properties\<close>

text \<open>
  Recomputing the state of a run never revives a stopped run; otherwise the run is
  degraded exactly when some service is degraded or failed, running exactly when all are
  ready, and starting in the remaining cases. An event goes out exactly when the state
  changes, and nothing but the state changes.
\<close>

theorem recompute_run_state_spec:
  "recompute_run_state run =
     (if rr_state run = Run_Stopped then (None, run)
      else
        let services = bm_values (rr_services run);
            state = (if \<exists>s \<in> set services. sr_state s \<in> {Sv_Degraded, Sv_Failed} then Run_Degraded
                     else if \<forall>s \<in> set services. sr_state s = Sv_Ready then Run_Running
                     else Run_Starting);
            run' = run\<lparr>rr_state := state\<rparr> in
        (if state = rr_state run then None else Some (run_state_changed_event run'), run'))"
  by (simp add: recompute_run_state_eq run_state_of_def Let_def)

definition example_record :: "string \<Rightarrow> service_state \<Rightarrow> service_record" where
  "example_record name state =
     \<lparr>sr_spec = \<lparr>ss_name = name, ss_deps = [], ss_readiness = \<lparr>rs_kind = RK_Tcp, rs_timeout = 30000\<rparr>,
        ss_auto_restart = False, ss_watch_patterns = [], ss_ignore_patterns = []\<rparr>,
      sr_launch = \<lparr>lp_unit_name = unit_name_for_run ''r1'' name, lp_cwd = ''/p'', lp_env = [],
        lp_cmd = ''run'', lp_log_path = ''/l'', lp_port = Some 6000, lp_listen_port = Some 6000,
        lp_scheme = ''http'', lp_url = None, lp_capture_api = False, lp_capture_api_body_limit = 0,
        lp_capture_api_ignore = [], lp_watch_hash = ''h'', lp_watch_fingerprint = [],
        lp_watch_extra_files = []\<rparr>,
      sr_runtime = \<lparr>rt_state = state, rt_last_failure = None, rt_last_started_at = None, rt_watch_paused = False\<rparr>,
      sr_handles = no_handles\<rparr>"

definition example_run :: run_record where
  "example_run =
     (new_run_record ''t0'' ''r1'' ''dev'' ''/p'' ''/p'' [])
       \<lparr>rr_services := [(''api'', example_record ''api'' Sv_Failed), (''web'', example_record ''web'' Sv_Ready)]\<rparr>"

theorem recompute_run_state_spec_witness:
  "rr_state (snd (recompute_run_state example_run)) = Run_Degraded"
  by (subst recompute_run_state_spec)
    (simp add: example_run_def new_run_record_def bm_values_def example_record_def Let_def)

text \<open>
  Messages queued for a live agent session are polled exactly once and in the order in
  which they were queued, after those that were pending.
\<close>

theorem agent_messages_fifo:
  assumes "bm_ok sessions" and "map_of sessions a = Some session" and "agent_pid_alive kill (as_pid session)"
  shows "\<exists>after. poll_messages kill a (queue_messages kill a ms sessions) =
      (Inr (as_pending session @ ms), after) \<and>
    fst (poll_messages kill a after) = Inr []"
proof -
  let ?s = "session\<lparr>as_pending := as_pending session @ ms\<rparr>"
  have alive: "agent_pid_alive kill (as_pid ?s)" using assms(3) by simp
  obtain after where after: "poll_messages kill a (queue_messages kill a ms sessions) = (Inr (as_pending ?s), after)"
      "bm_ok after" "map_of after a = Some (?s\<lparr>as_pending := []\<rparr>)"
    using poll_messages_session [OF conjunct1 [OF queue_messages_session [OF assms]]
        conjunct2 [OF queue_messages_session [OF assms]] alive] by blast
  have "agent_pid_alive kill (as_pid (?s\<lparr>as_pending := []\<rparr>))" using assms(3) by simp
  then have "fst (poll_messages kill a after) = Inr []"
    using poll_messages_session [OF after(2,3)] by fastforce
  with after(1) show ?thesis by auto
qed

theorem agent_messages_fifo_witness:
  "\<exists>after. poll_messages (\<lambda>_. None) ''a''
      (queue_messages (\<lambda>_. None) ''a'' [''m1'', ''m2''] [(''a'', new_agent_session ''t'' ''a'' ''/p'' None ''c'' 7)]) =
      (Inr [''m1'', ''m2''], after) \<and> fst (poll_messages (\<lambda>_. None) ''a'' after) = Inr []"
  using agent_messages_fifo [of "[(''a'', new_agent_session ''t'' ''a'' ''/p'' None ''c'' 7)]" "''a''"
      "new_agent_session ''t'' ''a'' ''/p'' None ''c'' 7" "\<lambda>_. None" "[''m1'', ''m2'']"]
  by (simp add: bm_ok_def new_agent_session_def agent_pid_alive_def)

text \<open>
  The run chosen for a project is an active run of that project that was created no
  earlier than any other active run of it, and a run is chosen whenever there is one.
\<close>

theorem latest_active_run_selected:
  assumes "bm_ok runs" and "\<forall>(k, run) \<in> set runs. rr_run_id run = k"
  shows "case find_latest_active_run_for_project canon dir runs of
      None \<Rightarrow> \<not> (\<exists>run \<in> ran (map_of runs). run_selectable run \<and> same_project_dir canon (rr_project_dir run) dir)
    | Some r \<Rightarrow> (\<exists>run. map_of runs r = Some run \<and> run_selectable run \<and>
        same_project_dir canon (rr_project_dir run) dir \<and>
        (\<forall>other \<in> ran (map_of runs). run_selectable other \<longrightarrow>
           same_project_dir canon (rr_project_dir other) dir \<longrightarrow> rr_created_at other \<le> rr_created_at run))"
proof -
  let ?ok = "\<lambda>run. run_selectable run \<and> same_project_dir canon (rr_project_dir run) dir"
  let ?cands = "map (\<lambda>run. (rr_created_at run, rr_run_id run)) (filter run_selectable
      (filter (\<lambda>run. same_project_dir canon (rr_project_dir run) dir) (bm_values runs)))"
  have cands: "set ?cands = (\<lambda>run. (rr_created_at run, rr_run_id run)) ` {run \<in> ran (map_of runs). ?ok run}"
    using set_bm_values [OF assms(1)] by auto
  show ?thesis
  proof (cases "find_latest_active_run_for_project canon dir runs")
    case None
    then have "?cands = []"
      by (simp only: find_latest_active_run_for_project_def latest_candidate_None)
    then have "set ?cands = {}" by (metis list.set(1))
    then have "{run \<in> ran (map_of runs). ?ok run} = {}" unfolding cands by blast
    then show ?thesis using None by auto
  next
    case (Some r)
    then obtain t where t: "(t, r) \<in> set ?cands" "\<forall>(t', _) \<in> set ?cands. t' \<le> t"
      using latest_candidate_Some unfolding find_latest_active_run_for_project_def by blast
    then obtain run where run: "run \<in> ran (map_of runs)" "?ok run" "t = rr_created_at run" "r = rr_run_id run"
      unfolding cands by auto
    obtain k where k: "map_of runs k = Some run" using run(1) by (auto simp: ran_def)
    then have "k = r" using assms(2) run(4) by (auto dest: map_of_SomeD)
    have "rr_created_at other \<le> rr_created_at run" if "other \<in> ran (map_of runs)" "?ok other" for other
      using t(2) that unfolding cands run(3) by auto
    then show ?thesis using Some k \<open>k = r\<close> run(2) by auto
  qed
qed

theorem latest_active_run_selected_witness:
  "find_latest_active_run_for_project (\<lambda>_. None) ''/p'' [(''r1'', example_run)] = Some ''r1'' \<and>
   run_selectable example_run"
proof -
  have run: "find_latest_active_run_for_project (\<lambda>_. None) ''/p'' [(''r1'', example_run)] = Some ''r1''"
    by (simp add: find_latest_active_run_for_project_def bm_values_def example_run_def new_run_record_def
        same_project_dir_def run_selectable_def latest_candidate_def)
  have "bm_ok [(''r1'', example_run)]" "\<forall>(k, run) \<in> set [(''r1'', example_run)]. rr_run_id run = k"
    by (auto simp: bm_ok_def example_run_def new_run_record_def)
  from latest_active_run_selected [OF this, of "\<lambda>_. None" "''/p''"] run show ?thesis by auto
qed

text \<open>The store compares resolved paths, so a task of one missing directory blocks another's.\<close>

lemma unresolvable_dirs_conflict:
  "canon a = None \<Longrightarrow> canon b = None \<Longrightarrow>
   has_running_task canon ''build'' None b [(''x'', new_task_execution now instant ''x'' ''build'' a None)]"
  by (simp add: has_running_task_def bm_values_def new_task_execution_def store_same_project_dir_def)

end
