(* ===== verification/Prepare.thy ===== *)
theory Prepare
  imports Env Model Stores
begin

text \<open>
  Preparation of a service for launch: \<open>src/src/app/launch/prepare.rs\<close>, the fingerprint of
  \<open>src/src/app/launch/context.rs\<close>, and \<open>apply_prepared_to_runtime\<close> of
  \<open>src/src/app/launch/watch.rs\<close>. The outside world of preparation is the record
  \<open>prepare_env\<close> of \<open>Env\<close>.
\<close>

record prepared_service =
  ps_name :: string
  ps_unit_name :: string
  ps_port :: "u16 option"
  ps_listen_port :: "u16 option"
  ps_scheme :: string
  ps_url :: "string option"
  ps_capture_api :: bool
  ps_capture_api_body_limit :: usize
  ps_capture_api_ignore :: "string list"
  ps_deps :: "string list"
  ps_readiness :: readiness_spec
  ps_log_path :: string
  ps_cwd :: string
  ps_env :: env_map
  ps_cmd :: string
  ps_watch_hash :: string
  ps_watch_patterns :: "string list"
  ps_ignore_patterns :: "string list"
  ps_watch_extra_files :: "string list"
  ps_watch_fingerprint :: string
  ps_auto_restart :: bool

definition prepared_launch_plan :: "prepared_service \<Rightarrow> launch_plan" where
  "prepared_launch_plan p =
     \<lparr>lp_unit_name = ps_unit_name p, lp_cwd = ps_cwd p, lp_env = ps_env p, lp_cmd = ps_cmd p,
      lp_log_path = ps_log_path p, lp_port = ps_port p, lp_listen_port = ps_listen_port p,
      lp_scheme = ps_scheme p, lp_url = ps_url p, lp_capture_api = ps_capture_api p,
      lp_capture_api_body_limit = ps_capture_api_body_limit p,
      lp_capture_api_ignore = ps_capture_api_ignore p, lp_watch_hash = ps_watch_hash p,
      lp_watch_fingerprint = ps_watch_fingerprint p,
      lp_watch_extra_files = ps_watch_extra_files p\<rparr>"

definition prepared_spec :: "prepared_service \<Rightarrow> service_spec" where
  "prepared_spec p =
     \<lparr>ss_name = ps_name p, ss_deps = ps_deps p, ss_readiness = ps_readiness p,
      ss_auto_restart = ps_auto_restart p, ss_watch_patterns = ps_watch_patterns p,
      ss_ignore_patterns = ps_ignore_patterns p\<rparr>"

definition into_service_record ::
  "prepared_service \<Rightarrow> service_state \<Rightarrow> string option \<Rightarrow> string option \<Rightarrow> service_record" where
  "into_service_record p state last_failure last_started_at =
     (let record = new_service_record (prepared_spec p) (prepared_launch_plan p) in
      record\<lparr>sr_runtime := (sr_runtime record)
        \<lparr>rt_state := state, rt_last_failure := last_failure, rt_last_started_at := last_started_at\<rparr>\<rparr>)"

section \<open>The fingerprint\<close>

text \<open>The derived \<open>Debug\<close> form of a readiness specification, its duration included.\<close>

definition strip_zeros :: "string \<Rightarrow> string" where
  "strip_zeros s = rev (dropWhile (\<lambda>c. c = CHR ''0'') (rev s))"

definition debug_duration :: "nat \<Rightarrow> string" where
  "debug_duration ms =
     (let secs = ms div 1000; frac = ms mod 1000 in
      if 0 < secs then
        show_nat secs
          @ (if frac = 0 then []
             else ''.'' @ strip_zeros (digit_char (frac div 100) # digit_char (frac div 10 mod 10)
                                       # [digit_char (frac mod 10)]))
          @ ''s''
      else if 0 < ms then show_nat ms @ ''ms'' else ''0ns'')"

fun debug_readiness_kind :: "readiness_kind \<Rightarrow> string" where
  "debug_readiness_kind RK_Tcp = ''Tcp''"
| "debug_readiness_kind (RK_Http path lo hi) =
     ''Http { path: '' @ debug_str path @ '', expect_min: '' @ show_word lo @ '', expect_max: ''
     @ show_word hi @ '' }''"
| "debug_readiness_kind (RK_LogRegex pattern) = ''LogRegex { pattern: '' @ debug_str pattern @ '' }''"
| "debug_readiness_kind (RK_Cmd cmd) = ''Cmd { command: '' @ debug_str cmd @ '' }''"
| "debug_readiness_kind (RK_Delay ms) = ''Delay { duration: '' @ debug_duration ms @ '' }''"
| "debug_readiness_kind RK_Exit = ''Exit''"
| "debug_readiness_kind RK_None = ''None''"

definition debug_readiness :: "readiness_spec \<Rightarrow> string" where
  "debug_readiness spec =
     ''ReadinessSpec { kind: '' @ debug_readiness_kind (rs_kind spec) @ '', timeout: ''
     @ debug_duration (rs_timeout spec) @ '' }''"

definition json_port :: "u16 option \<Rightarrow> json" where
  "json_port port = (case port of None \<Rightarrow> J_Null | Some p \<Rightarrow> J_Num (uint p))"

definition watch_payload ::
  "service_config \<Rightarrow> string \<Rightarrow> string \<Rightarrow> u16 option \<Rightarrow> u16 option \<Rightarrow> string \<Rightarrow> bool \<Rightarrow> usize \<Rightarrow>
     string list \<Rightarrow> readiness_spec \<Rightarrow> string \<Rightarrow> env_map \<Rightarrow> string list \<Rightarrow> string list \<Rightarrow> json" where
  "watch_payload svc cmd cwd port listen_port scheme capture limit capture_ignore readiness env_file env watch ignore =
     J_Obj
       [(''cmd'', J_Str cmd), (''cwd'', J_Str cwd), (''port'', json_port port),
        (''listen_port'', json_port listen_port), (''scheme'', J_Str scheme),
        (''capture_api'', J_Bool capture), (''capture_api_body_limit'', J_Num (uint limit)),
        (''capture_api_ignore'', J_Arr (map J_Str capture_ignore)),
        (''deps'', J_Arr (map J_Str (sc_deps svc))), (''port_env'', J_Str (svc_port_env svc)),
        (''readiness'', J_Str (debug_readiness readiness)), (''env_file'', J_Str env_file),
        (''env'', J_Obj (map (\<lambda>(k, v). (k, J_Str v)) env)), (''watch'', J_Arr (map J_Str watch)),
        (''ignore'', J_Arr (map J_Str ignore))]"

section \<open>Preparing one service\<close>

text \<open>The environment in the order the sources of variables are laid over each other.\<close>

definition prepared_env ::
  "prepare_env \<Rightarrow> service_config \<Rightarrow> json \<Rightarrow> port_map \<Rightarrow> u16 option \<Rightarrow> env_map \<Rightarrow> env_map \<Rightarrow>
     env_map \<Rightarrow> string option \<Rightarrow> string \<Rightarrow> env_map result" where
  "prepared_env pv svc ctx ports listen_port schemes base_env global_env global_env_file env_file_path =
     rbind (case global_env_file of
              None \<Rightarrow> Inr base_env
            | Some path \<Rightarrow> rbind (load_env_file pv path) (\<lambda>f. Inr (merge_env_file base_env f))) (\<lambda>env1.
     rbind (render_env pv global_env ctx) (\<lambda>rendered_global_env.
     let env2 = bm_extend env1 rendered_global_env in
     rbind (load_env_file pv env_file_path) (\<lambda>file_env.
     let env3 = merge_env_file env2 file_env;
         env4 = inject_dep_env env3 svc ports schemes;
         env5 = (case listen_port of
                   Some p \<Rightarrow> bm_insert (svc_port_env svc) (show_word p) env4
                 | None \<Rightarrow> env4) in
     rbind (render_env pv (sc_env svc) ctx) (\<lambda>rendered_env.
     let env6 = bm_extend env5 rendered_env;
         env7 = resolve_env_map (pv_vars pv) env6 in
     Inr (bm_insert ''DEV_GRACE_MS'' ''2000'' env7)))))"

definition capture_ignore_for :: "service_config \<Rightarrow> string list" where
  "capture_ignore_for svc =
     (case Option.bind (sc_readiness svc) rc_http of
        Some http \<Rightarrow> push_new (capture_api_ignore_paths svc) (rh_path http)
      | None \<Rightarrow> capture_api_ignore_paths svc)"

definition is_run_scope :: "instance_scope \<Rightarrow> bool" where
  "is_run_scope scope = (case scope of Scope_Run _ _ \<Rightarrow> True | Scope_Global _ _ _ \<Rightarrow> False)"

definition prepare_service ::
  "prepare_env \<Rightarrow> instance_scope \<Rightarrow> string \<Rightarrow> string \<Rightarrow> string \<Rightarrow> service_config \<Rightarrow> port_map \<Rightarrow>
     port_map \<Rightarrow> env_map \<Rightarrow> env_map \<Rightarrow> env_map \<Rightarrow> string option \<Rightarrow> prepared_service result" where
  "prepare_service pv scope project_dir config_dir svc_name svc ports listen_ports schemes
      base_env global_env global_env_file =
     (let port = unwrap_or (map_of ports svc_name) None;
          listen_port = unwrap_or (map_of listen_ports svc_name) port;
          scheme = svc_scheme svc;
          url = map_option (readiness_url scheme) port;
          capture = capture_api_enabled svc (is_run_scope scope) (port \<noteq> None) scheme;
          limit = svc_capture_api_body_limit svc;
          capture_ignore = capture_ignore_for svc;
          ctx = build_template_context scope project_dir ports listen_ports schemes in
      rbind (resolve_cwd_path pv (cwd_or svc project_dir) ctx config_dir) (\<lambda>cwd.
      rbind (resolve_env_file_path pv svc cwd ctx) (\<lambda>env_file_path.
      rbind (prepared_env pv svc ctx ports listen_port schemes base_env global_env global_env_file
               env_file_path) (\<lambda>env.
      rbind (readiness_spec_of svc (listen_port \<noteq> None)) (\<lambda>readiness.
      let unit_name = unit_name_for_scope scope svc_name in
      rbind (log_path_for_scope (pv_paths pv) scope project_dir svc_name) (\<lambda>log_path.
      rbind (pv_render pv (sc_cmd svc) ctx) (\<lambda>cmd.
      rbind (render_patterns pv (sc_watch svc) ctx) (\<lambda>watch.
      rbind (render_patterns pv (sc_ignore svc) ctx) (\<lambda>ignore.
      if sc_auto_restart svc \<and> list_all (\<lambda>pattern. trim pattern = []) watch then
        Inl (''service '' @ svc_name @ '' sets auto_restart=true but has no watch patterns'')
      else
      rbind (pv_json_to_vec pv (watch_payload svc cmd cwd port listen_port scheme capture limit
               capture_ignore readiness env_file_path env watch ignore)) (\<lambda>fingerprint.
      rbind (pv_watch_hash pv cwd (if watch = [] then None else Some watch) ignore
               [env_file_path] fingerprint) (\<lambda>watch_hash.
      Inr \<lparr>ps_name = svc_name, ps_unit_name = unit_name, ps_port = port,
           ps_listen_port = listen_port, ps_scheme = scheme, ps_url = url,
           ps_capture_api = capture, ps_capture_api_body_limit = limit,
           ps_capture_api_ignore = capture_ignore, ps_deps = sc_deps svc,
           ps_readiness = readiness, ps_log_path = log_path, ps_cwd = cwd, ps_env = env,
           ps_cmd = cmd, ps_watch_hash = watch_hash, ps_watch_patterns = watch,
           ps_ignore_patterns = ignore, ps_watch_extra_files = [env_file_path],
           ps_watch_fingerprint = fingerprint, ps_auto_restart = sc_auto_restart svc\<rparr>)))))))))))"

section \<open>Ports of a refreshed run\<close>

record service_snapshot =
  sn_watch_hash :: "string option"
  sn_state :: service_state
  sn_port :: "u16 option"
  sn_listen_port :: "u16 option"

type_synonym snapshots = "(string, service_snapshot) bmap"

definition snapshot_port :: "snapshots \<Rightarrow> string \<Rightarrow> u16 option" where
  "snapshot_port existing name = Option.bind (map_of existing name) sn_port"

definition snapshot_listen_port :: "snapshots \<Rightarrow> string \<Rightarrow> u16 option" where
  "snapshot_listen_port existing name = Option.bind (map_of existing name) sn_listen_port"

text \<open>
  The first loop: the port of each service, and the services left for allocation. One service
  answers its port and whether it is to be allocated.
\<close>

definition refresh_one ::
  "port_os \<Rightarrow> string \<Rightarrow> snapshots \<Rightarrow> bool \<Rightarrow> string \<Rightarrow> service_config \<Rightarrow> reg_file \<Rightarrow>
     (u16 option \<times> bool) result \<times> reg_file" where
  "refresh_one os run_id existing reuse_ports name svc file =
     (let owner = port_owner run_id name in
      case sc_port svc of
        Some (Port_Fixed v) \<Rightarrow>
          (case (if snapshot_port existing name = Some v then reserve_port os v owner file
                 else reserve_available_port os v owner file) of
             (Inl e, file') \<Rightarrow> (Inl e, file')
           | (Inr _, file') \<Rightarrow> (Inr (Some v, False), file'))
      | Some (Port_None _) \<Rightarrow> (Inr (None, False), file)
      | None \<Rightarrow>
          (case (if reuse_ports then snapshot_port existing name else None) of
             Some p \<Rightarrow>
               (case reserve_port os p owner file of
                  (Inl e, file') \<Rightarrow> (Inl e, file')
                | (Inr _, file') \<Rightarrow> (Inr (Some p, False), file'))
           | None \<Rightarrow> (Inr (None, True), file)))"

fun refresh_ports_loop ::
  "port_os \<Rightarrow> string \<Rightarrow> snapshots \<Rightarrow> bool \<Rightarrow> (string \<times> service_config) list \<Rightarrow> reg_file \<Rightarrow>
     ((string \<times> u16 option) list \<times> (string \<times> service_config) list) result \<times> reg_file" where
  "refresh_ports_loop os run_id existing reuse_ports [] file = (Inr ([], []), file)"
| "refresh_ports_loop os run_id existing reuse_ports ((name, svc) # services) file =
     (case refresh_one os run_id existing reuse_ports name svc file of
        (Inl e, file') \<Rightarrow> (Inl e, file')
      | (Inr (port, alloc), file') \<Rightarrow>
          (case refresh_ports_loop os run_id existing reuse_ports services file' of
             (Inl e, file'') \<Rightarrow> (Inl e, file'')
           | (Inr (ports, needs), file'') \<Rightarrow>
               (Inr ((name, port) # ports, if alloc then (name, svc) # needs else needs), file'')))"

definition resolve_ports_for_refresh ::
  "port_os \<Rightarrow> string \<Rightarrow> (string, service_config) bmap \<Rightarrow> snapshots \<Rightarrow> bool \<Rightarrow> u16 result list \<Rightarrow>
     reg_file \<Rightarrow> (port_map result \<times> reg_file) option" where
  "resolve_ports_for_refresh os run_id services existing reuse_ports answers file =
     (case refresh_ports_loop os run_id existing reuse_ports services file of
        (Inl e, file') \<Rightarrow> Some (Inl e, file')
      | (Inr (ports, needs), file') \<Rightarrow>
          if needs = [] then Some (Inr ports, file')
          else (case allocate_ports os needs (port_owner run_id) answers file' of
                  None \<Rightarrow> None
                | Some (Inl e, file'') \<Rightarrow> Some (Inl e, file'')
                | Some (Inr (allocated, _), file'') \<Rightarrow> Some (Inr (bm_extend ports allocated), file'')))"

section \<open>Applying a preparation to a running service\<close>

definition capture_config_changed :: "launch_plan \<Rightarrow> prepared_service \<Rightarrow> bool" where
  "capture_config_changed launch p \<longleftrightarrow>
     lp_capture_api launch \<noteq> ps_capture_api p
     \<or> lp_capture_api_body_limit launch \<noteq> ps_capture_api_body_limit p
     \<or> lp_capture_api_ignore launch \<noteq> ps_capture_api_ignore p
     \<or> lp_port launch \<noteq> ps_port p
     \<or> lp_listen_port launch \<noteq> ps_listen_port p"

definition apply_prepared_to_runtime ::
  "service_record \<Rightarrow> prepared_service \<Rightarrow> bool \<Rightarrow> service_record \<times> handle_id list" where
  "apply_prepared_to_runtime service0 p reset_state =
     (let (service1, stopped1) =
            (if reset_state then
               let (s, hs) = stop_health_monitor service0;
                   (s', hs') = stop_watch s in
               (s'\<lparr>sr_runtime := (sr_runtime s')\<lparr>rt_state := Sv_Starting, rt_last_failure := None\<rparr>\<rparr>,
                hs @ hs')
             else (service0, []));
          service2 = service1\<lparr>sr_spec := prepared_spec p\<rparr>;
          config_changed = capture_config_changed (sr_launch service2) p;
          service3 = service2\<lparr>sr_launch := prepared_launch_plan p\<rparr>;
          service4 = (if ss_auto_restart (sr_spec service3) \<noteq> ps_auto_restart p
                      then service3\<lparr>sr_runtime := (sr_runtime service3)\<lparr>rt_watch_paused := False\<rparr>\<rparr>
                      else service3) in
      if config_changed then
        let (s, hs) = stop_api_capture service4 in (s, stopped1 @ hs)
      else (service4, stopped1))"

section \<open>Facts about the environment\<close>

lemma show_nat_no_dollar: "CHR ''$'' \<notin> set (show_nat n)"
  using show_nat_digits [of "CHR ''$''" n] by (auto simp: is_ascii_digit_def)

lemma resolve_show_word [simp]: "resolve_env_vars vars (show_word p) = show_word p"
  using resolve_plain_append [of "show_word p" vars "[]"] show_nat_no_dollar by (simp add: show_word_def)

lemma map_of_resolve_env_map [simp]:
  "map_of (resolve_env_map vars env) k = map_option (resolve_env_vars vars) (map_of env k)"
  by (simp add: resolve_env_map_def)

lemma render_env_distinct:
  "render_env pv env ctx = Inr out \<Longrightarrow> bm_ok env \<Longrightarrow> map_of (rev out) = map_of out"
  by (metis bm_keys_def bm_ok_distinct map_of_rev_distinct render_env_keys)

lemma merge_env_file_Nil [simp]: "merge_env_file env [] = env"
  by (simp add: merge_env_file_def)

text \<open>The maps that are laid over each other, named.\<close>

lemma prepared_env_layers:
  assumes "prepared_env pv svc ctx ports listen_port schemes base_env global_env global_env_file path = Inr env"
  obtains gfile genv fenv senv where
    "(case global_env_file of None \<Rightarrow> gfile = [] | Some p \<Rightarrow> load_env_file pv p = Inr gfile)"
    "render_env pv global_env ctx = Inr genv" "load_env_file pv path = Inr fenv"
    "render_env pv (sc_env svc) ctx = Inr senv"
    "env = bm_insert ''DEV_GRACE_MS'' ''2000'' (resolve_env_map (pv_vars pv) (bm_extend
      (case listen_port of
         Some p \<Rightarrow> bm_insert (svc_port_env svc) (show_word p)
           (inject_dep_env (merge_env_file (bm_extend (merge_env_file base_env gfile) genv) fenv) svc ports schemes)
       | None \<Rightarrow> inject_dep_env (merge_env_file (bm_extend (merge_env_file base_env gfile) genv) fenv) svc ports schemes)
      senv))"
proof -
  show thesis
  proof (cases global_env_file)
    case None
    with assms obtain genv fenv senv where parts: "render_env pv global_env ctx = Inr genv"
        "load_env_file pv path = Inr fenv" "render_env pv (sc_env svc) ctx = Inr senv"
      and "env = bm_insert ''DEV_GRACE_MS'' ''2000'' (resolve_env_map (pv_vars pv) (bm_extend
        (case listen_port of
           Some p \<Rightarrow> bm_insert (svc_port_env svc) (show_word p)
             (inject_dep_env (merge_env_file (bm_extend base_env genv) fenv) svc ports schemes)
         | None \<Rightarrow> inject_dep_env (merge_env_file (bm_extend base_env genv) fenv) svc ports schemes)
        senv))"
      by (auto simp: prepared_env_def rbind_eq_Inr Let_def)
    then show thesis
      by (intro that [of "[]", OF _ parts]) (simp_all add: None split: option.split)
  next
    case (Some file_path)
    with assms that show thesis by (auto simp: prepared_env_def rbind_eq_Inr Let_def)
  qed
qed

lemma prepare_service_parts:
  assumes "prepare_service pv scope project_dir config_dir svc_name svc ports listen_ports schemes
      base_env global_env global_env_file = Inr p"
  obtains path where
    "ps_listen_port p = unwrap_or (map_of listen_ports svc_name) (unwrap_or (map_of ports svc_name) None)"
    "ps_port p = unwrap_or (map_of ports svc_name) None"
    "ps_watch_extra_files p = [path]"
    "prepared_env pv svc (build_template_context scope project_dir ports listen_ports schemes) ports
       (ps_listen_port p) schemes base_env global_env global_env_file path = Inr (ps_env p)"
    "ps_name p = svc_name" "ps_deps p = sc_deps svc"
    "ps_unit_name p = unit_name_for_scope scope svc_name"
    "readiness_spec_of svc (ps_listen_port p \<noteq> None) = Inr (ps_readiness p)"
    "ps_auto_restart p = sc_auto_restart svc"
    "ps_auto_restart p \<longrightarrow> \<not> list_all (\<lambda>pattern. trim pattern = []) (ps_watch_patterns p)"
  using assms
  by (auto simp: prepare_service_def Let_def rbind_eq_Inr split: if_splits)

lemma render_env_rendered:
  "render_env pv env ctx = Inr out \<Longrightarrow> map_of env k = Some t \<Longrightarrow> \<exists>text. pv_render pv t ctx = Inr text"
  by (induction pv env ctx arbitrary: out rule: render_env.induct) (auto simp: rbind_eq_Inr split: if_splits)

section \<open>Properties of a preparation\<close>

text \<open>The variables of the dependencies.\<close>

lemma dep_env_entry:
  "(k, v) \<in> set (dep_env_entries deps ports schemes) \<longleftrightarrow>
     (\<exists>d \<in> set deps. \<exists>n. map_of ports d = Some (Some n) \<and>
        (k = ''DEV_DEP_'' @ sanitize_env_key d @ ''_PORT'' \<and> v = show_word n \<or>
         k = ''DEV_DEP_'' @ sanitize_env_key d @ ''_URL'' \<and> v = readiness_url (scheme_of schemes d) n))"
proof -
  have one: "(k, v) \<in> set (case p of Some (Some n) \<Rightarrow> [(a, f n), (b, g n)] | _ \<Rightarrow> []) \<longleftrightarrow>
      (\<exists>n. p = Some (Some n) \<and> (k = a \<and> v = f n \<or> k = b \<and> v = g n))" for p :: "u16 option option" and a b f g
    by (auto split: option.split)
  show ?thesis unfolding dep_env_entries_def by (simp add: one eq_commute [of "Some _" "map_of ports _"] del: append.simps)
qed

lemma dep_env_absent:
  assumes "\<forall>d \<in> set deps. (\<exists>n. map_of ports d = Some (Some n)) \<longrightarrow>
    k \<noteq> ''DEV_DEP_'' @ sanitize_env_key d @ ''_PORT'' \<and> k \<noteq> ''DEV_DEP_'' @ sanitize_env_key d @ ''_URL''"
  shows "map_of (rev (dep_env_entries deps ports schemes)) k = None"
proof -
  have "k \<noteq> key" if "(key, v) \<in> set (dep_env_entries deps ports schemes)" for key v
    using that assms unfolding dep_env_entry by blast
  then show ?thesis by (fastforce simp: map_of_eq_None_iff)
qed

lemma map_of_unique:
  assumes "(k, v) \<in> set xs" and "\<And>w. (k, w) \<in> set xs \<Longrightarrow> w = v"
  shows "map_of xs k = Some v"
proof -
  obtain w where w: "map_of xs k = Some w" using weak_map_of_SomeI [OF assms(1)] by blast
  then show ?thesis using assms(2) [OF map_of_SomeD [OF w]] by simp
qed

lemma dep_env_present:
  assumes "d \<in> set deps" and "map_of ports d = Some (Some n)"
    and "\<forall>d' \<in> set deps. sanitize_env_key d' = sanitize_env_key d \<longrightarrow> d' = d"
  shows "map_of (rev (dep_env_entries deps ports schemes)) (''DEV_DEP_'' @ sanitize_env_key d @ ''_PORT'') = Some (show_word n)"
    and "map_of (rev (dep_env_entries deps ports schemes)) (''DEV_DEP_'' @ sanitize_env_key d @ ''_URL'') =
      Some ((if map_of schemes d = Some ''https'' then ''https://localhost:'' else ''http://localhost:'') @ show_word n)"
proof -
  have suffix: "a @ ''_PORT'' \<noteq> b @ ''_URL''" for a b
  proof
    assume "a @ ''_PORT'' = b @ ''_URL''"
    then have "last (a @ ''_PORT'') = last (b @ ''_URL'')" by simp
    then show False by simp
  qed
  have url: "readiness_url (scheme_of schemes d) n =
      (if map_of schemes d = Some ''https'' then ''https://localhost:'' else ''http://localhost:'') @ show_word n"
    by (cases "map_of schemes d") (simp_all add: readiness_url_def scheme_of_def)
  let ?entries = "dep_env_entries deps ports schemes"
  show "map_of (rev (dep_env_entries deps ports schemes)) (''DEV_DEP_'' @ sanitize_env_key d @ ''_PORT'') = Some (show_word n)"
  proof (rule map_of_unique)
    show "(''DEV_DEP_'' @ sanitize_env_key d @ ''_PORT'', show_word n) \<in> set (rev ?entries)"
      using assms(1,2) unfolding set_rev dep_env_entry by blast
    show "v = show_word n" if entry: "(''DEV_DEP_'' @ sanitize_env_key d @ ''_PORT'', v) \<in> set (rev ?entries)" for v
    proof -
      obtain d' m where d: "d' \<in> set deps" "map_of ports d' = Some (Some m)"
        "''DEV_DEP_'' @ sanitize_env_key d @ ''_PORT'' = ''DEV_DEP_'' @ sanitize_env_key d' @ ''_PORT''" "v = show_word m"
        using entry suffix unfolding set_rev dep_env_entry same_append_eq by blast
      then have "sanitize_env_key d' = sanitize_env_key d" by simp
      then show ?thesis using d assms by auto
    qed
  qed
  show "map_of (rev (dep_env_entries deps ports schemes)) (''DEV_DEP_'' @ sanitize_env_key d @ ''_URL'') =
      Some ((if map_of schemes d = Some ''https'' then ''https://localhost:'' else ''http://localhost:'') @ show_word n)"
  proof (rule map_of_unique)
    show "(''DEV_DEP_'' @ sanitize_env_key d @ ''_URL'',
        (if map_of schemes d = Some ''https'' then ''https://localhost:'' else ''http://localhost:'') @ show_word n) \<in> set (rev ?entries)"
      using assms(1,2) unfolding url [symmetric] set_rev dep_env_entry by blast
    show "v = (if map_of schemes d = Some ''https'' then ''https://localhost:'' else ''http://localhost:'') @ show_word n"
      if entry: "(''DEV_DEP_'' @ sanitize_env_key d @ ''_URL'', v) \<in> set (rev ?entries)" for v
    proof -
      obtain d' m where d: "d' \<in> set deps" "map_of ports d' = Some (Some m)"
        "''DEV_DEP_'' @ sanitize_env_key d @ ''_URL'' = ''DEV_DEP_'' @ sanitize_env_key d' @ ''_URL''" "v = readiness_url (scheme_of schemes d') m"
        using entry suffix [symmetric] unfolding set_rev dep_env_entry same_append_eq by blast
      then have "sanitize_env_key d' = sanitize_env_key d" by simp
      then show ?thesis using d assms url by auto
    qed
  qed
qed

text \<open>
  C7. What a service finds in its environment: its own grace period, its own entries rendered
  and resolved, its listen port under the variable it names, the port and the URL of each dependency
  that has a port, and for every other variable whose name starts with \<open>DEV_\<close> the one devstack
  computed (or the configuration sets). Neither of the env files can replace a variable whose name
  starts with \<open>DEV_\<close>. Two dependencies whose names give the same key share their variables.
\<close>

theorem prepared_environment:
  assumes "prepare_service pv scope project_dir config_dir svc_name svc ports listen_ports schemes
      base_env global_env global_env_file = Inr p"
    and "bm_ok (sc_env svc)" and "bm_ok global_env"
  shows "map_of (ps_env p) ''DEV_GRACE_MS'' = Some ''2000'' \<and>
    (\<forall>k t. map_of (sc_env svc) k = Some t \<and> k \<noteq> ''DEV_GRACE_MS'' \<longrightarrow>
       (\<exists>text. pv_render pv t (build_template_context scope project_dir ports listen_ports schemes) = Inr text \<and>
          map_of (ps_env p) k = Some (resolve_env_vars (pv_vars pv) text))) \<and>
    (\<forall>port. ps_listen_port p = Some port \<and> map_of (sc_env svc) (svc_port_env svc) = None \<and>
       svc_port_env svc \<noteq> ''DEV_GRACE_MS'' \<longrightarrow> map_of (ps_env p) (svc_port_env svc) = Some (show_word port)) \<and>
    (\<forall>k. starts_with k ''DEV_'' \<and> k \<noteq> ''DEV_GRACE_MS'' \<and> k \<noteq> svc_port_env svc \<and>
       map_of (sc_env svc) k = None \<and> map_of global_env k = None \<and>
       (\<forall>d \<in> set (sc_deps svc). (\<exists>n. map_of ports d = Some (Some n)) \<longrightarrow>
          k \<noteq> ''DEV_DEP_'' @ sanitize_env_key d @ ''_PORT'' \<and> k \<noteq> ''DEV_DEP_'' @ sanitize_env_key d @ ''_URL'') \<longrightarrow>
       map_of (ps_env p) k = map_option (resolve_env_vars (pv_vars pv)) (map_of base_env k)) \<and>
    (\<forall>d \<in> set (sc_deps svc). \<forall>n. map_of ports d = Some (Some n) \<and>
       (\<forall>d' \<in> set (sc_deps svc). sanitize_env_key d' = sanitize_env_key d \<longrightarrow> d' = d) \<longrightarrow>
       (\<forall>k. k = ''DEV_DEP_'' @ sanitize_env_key d @ ''_PORT'' \<and> k \<noteq> svc_port_env svc \<and> map_of (sc_env svc) k = None \<longrightarrow>
          map_of (ps_env p) k = Some (show_word n)) \<and>
       (\<forall>k. k = ''DEV_DEP_'' @ sanitize_env_key d @ ''_URL'' \<and> k \<noteq> svc_port_env svc \<and> map_of (sc_env svc) k = None \<longrightarrow>
          map_of (ps_env p) k = Some (resolve_env_vars (pv_vars pv)
            ((if map_of schemes d = Some ''https'' then ''https://localhost:'' else ''http://localhost:'') @ show_word n))))"
proof -
  let ?ctx = "build_template_context scope project_dir ports listen_ports schemes"
  obtain path where env: "prepared_env pv svc ?ctx ports (ps_listen_port p) schemes base_env global_env
      global_env_file path = Inr (ps_env p)"
    using prepare_service_parts [OF assms(1)] by metis
  obtain gfile genv fenv senv where layers:
      "(case global_env_file of None \<Rightarrow> gfile = [] | Some p \<Rightarrow> load_env_file pv p = Inr gfile)"
      "render_env pv global_env ?ctx = Inr genv" "load_env_file pv path = Inr fenv"
      "render_env pv (sc_env svc) ?ctx = Inr senv"
    and result: "ps_env p = bm_insert ''DEV_GRACE_MS'' ''2000'' (resolve_env_map (pv_vars pv) (bm_extend
      (case ps_listen_port p of
         Some port \<Rightarrow> bm_insert (svc_port_env svc) (show_word port)
           (inject_dep_env (merge_env_file (bm_extend (merge_env_file base_env gfile) genv) fenv) svc ports schemes)
       | None \<Rightarrow> inject_dep_env (merge_env_file (bm_extend (merge_env_file base_env gfile) genv) fenv) svc ports schemes)
      senv))"
    by (rule prepared_env_layers [OF env])
  have ok: "bm_ok gfile" "bm_ok fenv"
    using layers(1,3) load_env_file_ok by (auto split: option.splits)
  note get = map_of_bm_extend render_env_distinct [OF layers(4) assms(2)]
    render_env_distinct [OF layers(2) assms(3)] merge_env_file_get [OF ok(1)] merge_env_file_get [OF ok(2)]
  have senv: "map_of senv k = (case map_of (sc_env svc) k of None \<Rightarrow> None | Some t \<Rightarrow> Some (projr (pv_render pv t ?ctx)))"
    and genv: "map_of genv k = (case map_of global_env k of None \<Rightarrow> None | Some t \<Rightarrow> Some (projr (pv_render pv t ?ctx)))" for k
    using render_env_get [OF layers(4)] render_env_get [OF layers(2)] by auto
  have rendered: "\<exists>text. pv_render pv t ?ctx = Inr text" if "map_of (sc_env svc) k = Some t" for k t
    using render_env_rendered [OF layers(4) that] .
  have grace: "map_of (ps_env p) ''DEV_GRACE_MS'' = Some ''2000''" by (simp add: result)
  moreover have "\<exists>text. pv_render pv t ?ctx = Inr text \<and>
      map_of (ps_env p) k = Some (resolve_env_vars (pv_vars pv) text)"
    if "map_of (sc_env svc) k = Some t" "k \<noteq> ''DEV_GRACE_MS''" for k t
    using rendered [OF that(1)] that by (auto simp: result get senv map_add_def)
  moreover have "map_of (ps_env p) (svc_port_env svc) = Some (show_word port)"
    if "ps_listen_port p = Some port" "map_of (sc_env svc) (svc_port_env svc) = None"
      "svc_port_env svc \<noteq> ''DEV_GRACE_MS''" for port
    using that by (simp add: result get senv map_add_def)
  moreover have "map_of (ps_env p) k = map_option (resolve_env_vars (pv_vars pv)) (map_of base_env k)"
    if "starts_with k ''DEV_''" "k \<noteq> ''DEV_GRACE_MS''" "k \<noteq> svc_port_env svc" "map_of (sc_env svc) k = None"
      "map_of global_env k = None" "\<forall>d \<in> set (sc_deps svc). (\<exists>n. map_of ports d = Some (Some n)) \<longrightarrow>
        k \<noteq> ''DEV_DEP_'' @ sanitize_env_key d @ ''_PORT'' \<and> k \<noteq> ''DEV_DEP_'' @ sanitize_env_key d @ ''_URL''" for k
    using that dep_env_absent [OF that(6), of schemes]
    by (simp add: result get senv genv map_add_def inject_dep_env_def split: option.split)
  moreover have "map_of (ps_env p) k = Some (resolve_env_vars (pv_vars pv) v)"
    if "map_of (rev (dep_env_entries (sc_deps svc) ports schemes)) k = Some v" "k \<noteq> svc_port_env svc"
      "map_of (sc_env svc) k = None" "k \<noteq> ''DEV_GRACE_MS''" for k v
    using that by (simp add: result get senv map_add_def inject_dep_env_def split: option.split)
  ultimately show ?thesis
    using dep_env_present(1) [where schemes = schemes] dep_env_present(2) [where schemes = schemes] resolve_show_word by simp
qed

definition example_pv :: prepare_env where
  "example_pv =
     \<lparr>pv_paths = \<lparr>pe_base_dir = Inr ''/data'', pe_home = Some ''/home/u'', pe_blake3_hex = (\<lambda>_. ''0'')\<rparr>,
      pv_vars = (\<lambda>_. None), pv_render = (\<lambda>template _. Inr template), pv_exists = (\<lambda>_. False),
      pv_dotenv = (\<lambda>_. Inr []), pv_json_to_vec = (\<lambda>_. Inr ''{}''),
      pv_watch_hash = (\<lambda>_ _ _ _ _. Inr ''h'')\<rparr>"

definition example_preparation :: "prepared_service result" where
  "example_preparation =
     prepare_service example_pv (Scope_Run ''r1'' ''dev'') ''/p'' ''/p'' ''api'' (bare_service ''run''\<lparr>sc_deps := [''db'']\<rparr>)
       [(''api'', Some 3000), (''db'', Some 5432)] [(''api'', Some 3000)] [] [(''DEV_RUN_ID'', ''r1'')] [] None"

lemma example_preparation_ok:
  "(case example_preparation of Inl _ \<Rightarrow> False | Inr p \<Rightarrow> ps_listen_port p = Some 3000)"
proof -
  have log: "log_path_for_scope (pv_paths example_pv) (Scope_Run ''r1'' ''dev'') ''/p'' ''api'' = Inr ''/data/runs/r1/logs/api.log''"
    by code_simp
  have pv: "pv_render example_pv t c = Inr t" "pv_json_to_vec example_pv j = Inr ''{}''"
    "pv_watch_hash example_pv a b d e f = Inr ''h''" "load_env_file example_pv path = Inr []" for t c j a b d e f path
    by (simp_all add: load_env_file_def example_pv_def)
  have svc: "sc_env (bare_service c) = []" "sc_env_file (bare_service c) = None"
    "sc_watch (bare_service c) = []" "sc_ignore (bare_service c) = []" "\<not> sc_auto_restart (bare_service c)"
    "sc_readiness (bare_service c) = None" for c
    by (simp_all add: bare_service_def)
  show ?thesis
    by (simp add: example_preparation_def prepare_service_def Let_def resolve_cwd_path_def log pv svc
        resolve_env_file_path_def resolve_rendered_path_def render_patterns_def prepared_env_def
        readiness_spec_of_def readiness_kind_of_def del: log_path_for_scope.simps)
qed

lemma show_ports: "show_word (3000 :: u16) = ''3000''" "show_word (5432 :: u16) = ''5432''"
  by (simp_all add: show_word_def show_nat.simps digit_char_def) code_simp+

theorem prepared_environment_witness:
  "\<exists>p. example_preparation = Inr p \<and> map_of (ps_env p) ''DEV_RUN_ID'' = Some ''r1'' \<and>
     map_of (ps_env p) ''PORT'' = Some ''3000'' \<and> map_of (ps_env p) ''DEV_DEP_DB_PORT'' = Some ''5432''"
proof -
  obtain p where p: "example_preparation = Inr p" "ps_listen_port p = Some 3000"
    using example_preparation_ok by (auto split: sum.splits)
  have "bm_ok (sc_env (bare_service ''run''\<lparr>sc_deps := [''db'']\<rparr>))" "bm_ok ([] :: (string, string) bmap)"
    by (simp_all add: bare_service_def)
  note env = prepared_environment [OF p(1) [unfolded example_preparation_def] this, THEN conjunct2, THEN conjunct2]
  have db: "sanitize_env_key ''db'' = ''DB''" by code_simp
  have "map_of (ps_env p) ''PORT'' = Some ''3000''"
    using env [THEN conjunct1, rule_format, of 3000] p(2) by (simp add: bare_service_def svc_port_env_def show_ports)
  moreover have "map_of (ps_env p) ''DEV_RUN_ID'' = Some ''r1''"
    using env [THEN conjunct2, THEN conjunct1, rule_format, of "''DEV_RUN_ID''"]
    by (simp add: bare_service_def svc_port_env_def example_pv_def resolve_unset db)
  moreover have "map_of (ps_env p) ''DEV_DEP_DB_PORT'' = Some ''5432''"
    using env [THEN conjunct2, THEN conjunct2, rule_format, of "''db''" 5432]
    by (simp add: bare_service_def svc_port_env_def show_ports db)
  ultimately show ?thesis using p(1) by blast
qed

section \<open>Facts about the ports of a refreshed run\<close>

lemma port_owner_inj: "port_owner r n = port_owner r n' \<longleftrightarrow> n = n'"
  by (simp add: port_owner_def)

text \<open>The port a service keeps or asks for by number, before anything is allocated.\<close>

definition kept_port :: "snapshots \<Rightarrow> bool \<Rightarrow> string \<Rightarrow> service_config \<Rightarrow> u16 option" where
  "kept_port existing reuse_ports name svc =
     (case sc_port svc of
        Some (Port_Fixed v) \<Rightarrow> Some v
      | Some (Port_None _) \<Rightarrow> None
      | None \<Rightarrow> if reuse_ports then snapshot_port existing name else None)"

lemma reserve_available_port_ledger:
  assumes "registry_usable os s" and "reserve_available_port os p owner s = (Inr (), s')"
  shows "registry_usable os s' \<and> holder os s p \<in> {None, Some owner} \<and> holder os s' = (holder os s)(p \<mapsto> owner)"
proof -
  have pid: "is_pid_alive os (os_pid os)" using assms by (simp add: registry_usable_def)
  obtain reg where reg: "live_registry os reg" "holder os s = owners reg"
    and run: "\<And>action :: registry \<Rightarrow> unit result \<times> registry.
        with_registry os action s = commit s (action reg)"
    using with_registry_usable [OF assms(1)] by metis
  obtain r reg' where step: "reserve_specific_port os p owner True reg = (r, reg')" by fastforce
  have "r = Inr ()" "s' = Reg_Stored reg'"
    using assms(2) by (auto simp: reserve_available_port_def run step commit_eq_Inr)
  then show ?thesis
    using reserve_specific_port_owners [OF step] reserve_specific_port_live [OF step reg(1) pid] reg
      usable_stored [OF assms(1)] by (auto simp: holder_stored)
qed

lemma reserve_port_ledger_Inr:
  assumes "registry_usable os s" and "reserve_port os p owner s = (Inr (), s')"
  shows "registry_usable os s' \<and> holder os s p \<in> {None, Some owner} \<and> holder os s' = (holder os s)(p \<mapsto> owner)"
proof -
  have free: "holder os s p \<in> {None, Some owner}"
    using ports.reserve_taken [OF assms(1), of p owner] assms(2) by fastforce
  from ports.reserve_free [OF assms(1) this] assms(2) free show ?thesis by auto
qed

text \<open>What the first loop has done when it succeeds.\<close>

definition refresh_done ::
  "port_os \<Rightarrow> string \<Rightarrow> snapshots \<Rightarrow> bool \<Rightarrow> (string \<times> service_config) list \<Rightarrow> (string \<times> u16 option) list \<Rightarrow>
     (string \<times> service_config) list \<Rightarrow> reg_file \<Rightarrow> reg_file \<Rightarrow> bool" where
  "refresh_done os run_id existing reuse services ports needs before after \<longleftrightarrow>
     registry_usable os after \<and>
     ports = map (\<lambda>(n, svc). (n, kept_port existing reuse n svc)) services \<and>
     needs = filter (\<lambda>(n, svc). sc_port svc = None \<and> kept_port existing reuse n svc = None) services \<and>
     (\<forall>p. holder os before p \<noteq> None \<longrightarrow> holder os after p = holder os before p) \<and>
     (\<forall>n p. (n, Some p) \<in> set ports \<longrightarrow> holder os after p = Some (port_owner run_id n) \<and>
        holder os before p \<in> {None, Some (port_owner run_id n)})"

lemma refresh_done_Cons:
  assumes first: "case kept_port existing reuse n svc of
        None \<Rightarrow> mid = before
      | Some p \<Rightarrow> holder os before p \<in> {None, Some (port_owner run_id n)} \<and>
          holder os mid = (holder os before)(p \<mapsto> port_owner run_id n)"
    and rest: "refresh_done os run_id existing reuse services ports needs mid after"
    and alloc: "alloc = (sc_port svc = None \<and> kept_port existing reuse n svc = None)"
  shows "refresh_done os run_id existing reuse ((n, svc) # services)
    ((n, kept_port existing reuse n svc) # ports) (if alloc then (n, svc) # needs else needs) before after"
proof (cases "kept_port existing reuse n svc")
  case None
  then show ?thesis using assms by (auto simp: refresh_done_def)
next
  case (Some p)
  then have mid: "holder os mid = (holder os before)(p \<mapsto> port_owner run_id n)"
    and free: "holder os before p \<in> {None, Some (port_owner run_id n)}" using first by auto
  have keep: "\<forall>q. holder os before q \<noteq> None \<longrightarrow> holder os after q = holder os before q"
    using rest free by (auto simp: refresh_done_def mid)
  moreover have "holder os after p = Some (port_owner run_id n)"
    using rest by (simp add: refresh_done_def mid)
  moreover have "holder os before q \<in> {None, Some o'}" if "holder os mid q \<in> {None, Some o'}" "holder os after q = Some o'" for q o'
    using that keep by (metis insertCI singletonD)
  ultimately show ?thesis
    using rest alloc free Some by (auto simp: refresh_done_def)
qed

lemma refresh_one_Inr:
  assumes "refresh_one os run_id existing reuse n svc before = (Inr (port, alloc), mid)"
    and "registry_usable os before"
  shows "port = kept_port existing reuse n svc \<and> alloc = (sc_port svc = None \<and> port = None) \<and>
    registry_usable os mid \<and>
    (case port of
       None \<Rightarrow> mid = before
     | Some p \<Rightarrow> holder os before p \<in> {None, Some (port_owner run_id n)} \<and>
         holder os mid = (holder os before)(p \<mapsto> port_owner run_id n))"
proof (cases "sc_port svc")
  case None
  then have kept: "kept_port existing reuse n svc = (if reuse then snapshot_port existing n else None)"
    by (simp add: kept_port_def)
  show ?thesis
  proof (cases "if reuse then snapshot_port existing n else None")
    case no: None
    then show ?thesis using assms by (simp add: refresh_one_def None kept)
  next
    case (Some p)
    obtain r mid' where res: "reserve_port os p (port_owner run_id n) before = (r, mid')" by fastforce
    have ok: "port = Some p" "\<not> alloc" "r = Inr ()" "mid' = mid"
      using assms(1) None by (auto simp: refresh_one_def Some res split: sum.splits)
    then show ?thesis
      using reserve_port_ledger_Inr [OF assms(2), of p] res by (simp add: kept Some None)
  qed
next
  case (Some c)
  show ?thesis
  proof (cases c)
    case (Port_None v)
    then show ?thesis using assms Some by (simp add: refresh_one_def kept_port_def)
  next
    case (Port_Fixed v)
    let ?reserve = "if snapshot_port existing n = Some v then reserve_port os v (port_owner run_id n) before
        else reserve_available_port os v (port_owner run_id n) before"
    obtain r mid' where res: "?reserve = (r, mid')" by fastforce
    have ok: "port = Some v" "\<not> alloc" "r = Inr ()" "mid' = mid"
      using assms(1) by (auto simp: refresh_one_def Some Port_Fixed res split: sum.splits)
    then have "registry_usable os mid \<and> holder os before v \<in> {None, Some (port_owner run_id n)} \<and>
        holder os mid = (holder os before)(v \<mapsto> port_owner run_id n)"
      using res reserve_port_ledger_Inr [OF assms(2)] reserve_available_port_ledger [OF assms(2)]
      by (simp split: if_splits)
    then show ?thesis using ok by (simp add: kept_port_def Some Port_Fixed)
  qed
qed

lemma refresh_ports_loop_Inr:
  assumes "refresh_ports_loop os run_id existing reuse services before = (Inr (ports, needs), after)"
    and "registry_usable os before"
  shows "refresh_done os run_id existing reuse services ports needs before after"
  using assms
proof (induction services arbitrary: before ports needs)
  case Nil
  then show ?case by (auto simp: refresh_done_def)
next
  case (Cons ns services)
  obtain n svc where ns: "ns = (n, svc)" by fastforce
  obtain port alloc mid ports' needs' where
    one: "refresh_one os run_id existing reuse n svc before = (Inr (port, alloc), mid)"
    and more: "refresh_ports_loop os run_id existing reuse services mid = (Inr (ports', needs'), after)"
    and out: "ports = (n, port) # ports'" "needs = (if alloc then (n, svc) # needs' else needs')"
    using Cons.prems(1) by (auto simp: ns split: prod.splits sum.splits)
  note first = refresh_one_Inr [OF one Cons.prems(2)]
  then have kept: "port = kept_port existing reuse n svc"
    and flag: "alloc = (sc_port svc = None \<and> kept_port existing reuse n svc = None)"
    and usable: "registry_usable os mid" by simp_all
  from first have step: "case kept_port existing reuse n svc of
        None \<Rightarrow> mid = before
      | Some p \<Rightarrow> holder os before p \<in> {None, Some (port_owner run_id n)} \<and>
          holder os mid = (holder os before)(p \<mapsto> port_owner run_id n)"
    unfolding kept [symmetric] by blast
  show ?case
    unfolding ns out kept by (rule refresh_done_Cons [OF step Cons.IH [OF more usable] flag])
qed

lemma allocate_loop_kinds:
  assumes "allocate_loop os owner_for services answers reg = Some (Inr (allocated, rest), reg')"
    and "\<forall>(n, svc) \<in> set services. sc_port svc = None"
  shows "\<forall>(n, port) \<in> set allocated. port \<noteq> None"
  using assms
proof (induction services arbitrary: answers reg allocated)
  case (Cons ns services)
  obtain name svc where ns: "ns = (name, svc)" by fastforce
  obtain port answers1 reg1 allocated1 where
    one: "allocate_one os (owner_for name) svc answers reg = Some (Inr (port, answers1), reg1)"
    and more: "allocate_loop os owner_for services answers1 reg1 = Some (Inr (allocated1, rest), reg')"
    and allocated: "allocated = (name, port) # allocated1"
    using Cons.prems(1) unfolding ns allocate_loop_Cons
    by (auto split: option.splits prod.splits sum.splits)
  have "port \<noteq> None"
    using one Cons.prems(2) by (auto simp: ns allocate_one_def split: option.splits prod.splits sum.splits)
  with Cons.IH [OF more] Cons.prems(2) show ?case by (auto simp: ns allocated)
qed simp

lemma allocate_ports_Inr:
  assumes "registry_usable os file" and "allocate_ports os services owner_for answers file = Some (Inr (allocated, rest), file')"
  shows "map fst allocated = map fst services \<and>
    (\<forall>p. holder os file p \<noteq> None \<longrightarrow> holder os file' p = holder os file p) \<and>
    (\<forall>n p. (n, Some p) \<in> set allocated \<longrightarrow>
       holder os file' p = Some (owner_for n) \<and> holder os file p \<in> {None, Some (owner_for n)}) \<and>
    ((\<forall>(n, svc) \<in> set services. sc_port svc = None) \<longrightarrow> (\<forall>(n, port) \<in> set allocated. port \<noteq> None))"
proof -
  have pid: "is_pid_alive os (os_pid os)" using assms(1) by (simp add: registry_usable_def)
  obtain reg where reg: "live_registry os reg" "holder os file = owners reg"
    and run: "\<And>action :: registry \<Rightarrow> (((string \<times> u16 option) list \<times> u16 result list) result \<times> registry) option.
        with_registry_loop os action file = map_option (commit file) (action reg)"
    using with_registry_loop_usable [OF assms(1)] by metis
  obtain reg' where loop: "allocate_loop os owner_for services answers reg = Some (Inr (allocated, rest), reg')"
    and file': "file' = Reg_Stored reg'"
    using assms(2) by (auto simp: allocate_ports_def run commit_eq_Inr)
  show ?thesis
    using allocate_loop_Inr [OF loop reg(1) pid] allocate_loop_kinds [OF loop]
    by (simp add: file' holder_stored reg(2))
qed

lemma map_of_map_kept:
  "map_of (map (\<lambda>(n, svc). (n, f n svc)) services) k = map_option (f k) (map_of services k)"
  by (induction services) auto

text \<open>What a successful resolution gives each service.\<close>

definition refreshed_port ::
  "port_os \<Rightarrow> string \<Rightarrow> snapshots \<Rightarrow> bool \<Rightarrow> reg_file \<Rightarrow> reg_file \<Rightarrow> string \<Rightarrow> service_config \<Rightarrow> u16 option \<Rightarrow> bool" where
  "refreshed_port os run_id existing reuse before after n svc port \<longleftrightarrow>
     (case kept_port existing reuse n svc of
        Some p \<Rightarrow> port = Some p
      | None \<Rightarrow> (port = None) = (sc_port svc \<noteq> None)) \<and>
     (case port of
        None \<Rightarrow> True
      | Some p \<Rightarrow> holder os after p = Some (port_owner run_id n) \<and>
          holder os before p \<in> {None, Some (port_owner run_id n)})"

lemma resolve_ports_for_refresh_Inr:
  assumes "registry_usable os file" and "bm_ok services"
    and "resolve_ports_for_refresh os run_id services existing reuse answers file = Some (Inr ports, file')"
    and "map_of services n = Some svc"
  shows "\<exists>port. map_of ports n = Some port \<and> refreshed_port os run_id existing reuse file file' n svc port"
    and "\<forall>p. holder os file p \<noteq> None \<longrightarrow> holder os file' p = holder os file p"
proof -
  obtain kept needs mid where loop: "refresh_ports_loop os run_id existing reuse services file = (Inr (kept, needs), mid)"
    and rest: "if needs = [] then ports = kept \<and> file' = mid
      else (\<exists>allocated answers'. allocate_ports os needs (port_owner run_id) answers mid = Some (Inr (allocated, answers'), file') \<and>
        ports = bm_extend kept allocated)"
    using assms(3) by (auto simp: resolve_ports_for_refresh_def split: prod.splits sum.splits option.splits if_splits)
  note "done" = refresh_ports_loop_Inr [OF loop assms(1)]
  let ?kept = "kept_port existing reuse n svc"
  have kept: "map_of kept n = Some ?kept"
    using "done" assms(4) by (simp add: refresh_done_def map_of_map_kept)
  then have mem: "(n, ?kept) \<in> set kept" by (rule map_of_SomeD)
  have kept_held: "holder os mid q = Some (port_owner run_id n) \<and> holder os file q \<in> {None, Some (port_owner run_id n)}"
    if "?kept = Some q" for q
    using "done" mem that by (simp add: refresh_done_def)
  have kept_before: "\<forall>p. holder os file p \<noteq> None \<longrightarrow> holder os mid p = holder os file p"
    using "done" by (simp add: refresh_done_def)
  have needs: "(n', s) \<in> set needs \<longleftrightarrow> (n', s) \<in> set services \<and> sc_port s = None \<and> kept_port existing reuse n' s = None" for n' s
    using "done" by (auto simp: refresh_done_def)
  have mine: "n \<in> fst ` set needs \<longleftrightarrow> sc_port svc = None \<and> ?kept = None"
  proof -
    have "n \<in> fst ` set needs \<longleftrightarrow> (\<exists>s. (n, s) \<in> set needs)" by (auto simp: image_iff) (metis fst_conv)
    then show ?thesis by (simp add: needs bm_entry_iff [OF assms(2)] assms(4))
  qed
  show "(\<exists>port. map_of ports n = Some port \<and> refreshed_port os run_id existing reuse file file' n svc port)"
    "\<forall>p. holder os file p \<noteq> None \<longrightarrow> holder os file' p = holder os file p"
  proof (atomize (full), cases "needs = []")
    case True
    then have "ports = kept" "file' = mid" using rest by simp_all
    moreover have "?kept = None \<Longrightarrow> sc_port svc \<noteq> None" using mine True by auto
    ultimately show "(\<exists>port. map_of ports n = Some port \<and> refreshed_port os run_id existing reuse file file' n svc port)
        \<and> (\<forall>p. holder os file p \<noteq> None \<longrightarrow> holder os file' p = holder os file p)"
      using kept kept_held kept_before by (auto simp: refreshed_port_def split: option.split)
  next
    case False
    then obtain allocated answers' where
      alloc: "allocate_ports os needs (port_owner run_id) answers mid = Some (Inr (allocated, answers'), file')"
      and ports: "ports = bm_extend kept allocated" using rest by auto
    have usable: "registry_usable os mid" using "done" by (simp add: refresh_done_def)
    note got = allocate_ports_Inr [OF usable alloc]
    have keep: "\<forall>p. holder os file p \<noteq> None \<longrightarrow> holder os file' p = holder os file p"
      using got kept_before by metis
    have before: "holder os file q \<in> {None, Some w}" if "holder os file' q = Some w" for q w
      using keep that by (metis insertCI singletonD)
    have names: "fst ` set allocated = fst ` set needs" using got by (metis image_set)
    have "\<exists>port. map_of ports n = Some port \<and> refreshed_port os run_id existing reuse file file' n svc port"
    proof (cases "n \<in> fst ` set needs")
      case True
      then have "map_of (rev allocated) n \<noteq> None" using names by (simp add: map_of_eq_None_iff)
      then obtain port where port: "map_of (rev allocated) n = Some port" by auto
      then have inside: "(n, port) \<in> set allocated" by (auto dest: map_of_SomeD)
      have "\<forall>(n, svc) \<in> set needs. sc_port svc = None" using needs by auto
      then have "\<forall>(n, port) \<in> set allocated. port \<noteq> None" using got by blast
      then have "port \<noteq> None" using inside by blast
      then obtain q where q: "port = Some q" by blast
      then have held: "holder os file' q = Some (port_owner run_id n)" using got inside by blast
      moreover have "?kept = None" "sc_port svc = None" using mine True by auto
      moreover have "map_of ports n = Some port" by (simp add: ports map_of_bm_extend port)
      ultimately show ?thesis using before [OF held] by (simp add: refreshed_port_def q)
    next
      case False
      then have "map_of (rev allocated) n = None" using names by (simp add: map_of_eq_None_iff)
      then have "map_of ports n = Some ?kept" by (simp add: ports map_of_bm_extend map_add_def kept)
      moreover have "?kept = None \<Longrightarrow> sc_port svc \<noteq> None" using mine False by auto
      moreover have "holder os file' q = Some (port_owner run_id n)" if "?kept = Some q" for q
        using kept_held [OF that] got by auto
      ultimately show ?thesis using before by (auto simp: refreshed_port_def split: option.split)
    qed
    with keep show "(\<exists>port. map_of ports n = Some port \<and> refreshed_port os run_id existing reuse file file' n svc port)
        \<and> (\<forall>p. holder os file p \<noteq> None \<longrightarrow> holder os file' p = holder os file p)" by blast
  qed
qed

text \<open>
  The ports of a refreshed run: a fixed port is used as configured, a running service keeps
  its port when ports are reused, and only a service that turned its port off has none. Each
  port is then held by its service, was free or its own before, and nobody else's reservation
  is taken.
\<close>

theorem refreshed_ports:
  assumes "registry_usable os file" and "bm_ok services"
    and "resolve_ports_for_refresh os run_id services existing reuse answers file = Some (Inr ports, file')"
    and "map_of services n = Some svc"
  shows "\<exists>port. map_of ports n = Some port \<and>
      (\<forall>v. sc_port svc = Some (Port_Fixed v) \<longrightarrow> port = Some v) \<and>
      (port = None \<longleftrightarrow> (\<exists>v. sc_port svc = Some (Port_None v))) \<and>
      (\<forall>p. sc_port svc = None \<and> reuse \<and> snapshot_port existing n = Some p \<longrightarrow> port = Some p) \<and>
      (\<forall>p. port = Some p \<longrightarrow> holder os file' p = Some (port_owner run_id n) \<and>
         holder os file p \<in> {None, Some (port_owner run_id n)}) \<and>
      (\<forall>p. holder os file p \<noteq> None \<longrightarrow> holder os file' p = holder os file p)"
proof -
  obtain port where port: "map_of ports n = Some port" "refreshed_port os run_id existing reuse file file' n svc port"
    using resolve_ports_for_refresh_Inr(1) [OF assms] by blast
  have "port = None \<longleftrightarrow> (\<exists>v. sc_port svc = Some (Port_None v))"
    using port(2) by (auto simp: refreshed_port_def kept_port_def split: option.splits port_config.splits)
  then show ?thesis
    using port resolve_ports_for_refresh_Inr(2) [OF assms]
    by (intro exI [of _ port]) (auto simp: refreshed_port_def kept_port_def split: option.splits)
qed

lemma apply_prepared_eq:
  "apply_prepared_to_runtime service p reset =
     (let (s, hs) = (if reset then
            let (s, hs) = stop_health_monitor service; (s', hs') = stop_watch s in
            (s'\<lparr>sr_runtime := (sr_runtime service)\<lparr>rt_state := Sv_Starting, rt_last_failure := None\<rparr>\<rparr>, hs @ hs')
          else (service, []));
          s' = s\<lparr>sr_spec := prepared_spec p, sr_launch := prepared_launch_plan p\<rparr> in
      if capture_config_changed (sr_launch service) p then let (s'', hs') = stop_api_capture s' in (s'', hs @ hs') else (s', hs))"
  by (simp add: apply_prepared_to_runtime_def Let_def case_prod_beta prepared_spec_def)

text \<open>
  Applying a preparation leaves exactly the specification and launch plan of a newly built
  record. A reset stops the health monitor and the watcher and restarts the state; the capture
  proxy is stopped exactly when the capture settings or ports changed. The pause of the watcher
  survives in every case.
\<close>

theorem apply_prepared_result:
  assumes "apply_prepared_to_runtime service p reset = (service', stopped)"
  shows "sr_spec service' = prepared_spec p \<and> sr_launch service' = prepared_launch_plan p \<and>
    rt_watch_paused (sr_runtime service') = rt_watch_paused (sr_runtime service) \<and>
    (if reset then
       sr_state service' = Sv_Starting \<and> rt_last_failure (sr_runtime service') = None \<and>
       h_health (sr_handles service') = None \<and> h_watch (sr_handles service') = None
     else sr_runtime service' = sr_runtime service \<and>
       h_health (sr_handles service') = h_health (sr_handles service) \<and>
       h_watch (sr_handles service') = h_watch (sr_handles service)) \<and>
    h_api_capture (sr_handles service') =
      (if capture_config_changed (sr_launch service) p then None else h_api_capture (sr_handles service)) \<and>
    set stopped \<union> set_option (h_health (sr_handles service')) \<union> set_option (h_watch (sr_handles service'))
      \<union> set_option (h_api_capture (sr_handles service')) =
    set_option (h_health (sr_handles service)) \<union> set_option (h_watch (sr_handles service))
      \<union> set_option (h_api_capture (sr_handles service))"
proof -
  have "service' = fst (apply_prepared_to_runtime service p reset)"
    and "stopped = snd (apply_prepared_to_runtime service p reset)" using assms by simp_all
  then show ?thesis
    by (cases reset; cases "capture_config_changed (sr_launch service) p";
      simp add: apply_prepared_eq case_prod_beta Let_def) blast+
qed

definition example_refresh :: "snapshots" where
  "example_refresh =
     [(''api'', \<lparr>sn_watch_hash = Some ''h'', sn_state = Sv_Ready, sn_port = Some 6000, sn_listen_port = Some 6000\<rparr>)]"

lemma example_refresh_result:
  "resolve_ports_for_refresh example_os ''r1'' two_services example_refresh True [] example_file =
     Some (Inr [(''api'', Some 6000), (''web'', Some 5000)],
       Reg_Stored [(4000, \<lparr>re_owner = ''run:r0:web'', re_daemon_pid = 7\<rparr>),
                   (5000, \<lparr>re_owner = ''run:r1:web'', re_daemon_pid = 7\<rparr>),
                   (6000, \<lparr>re_owner = ''run:r1:api'', re_daemon_pid = 7\<rparr>)])"
  by (simp add: resolve_ports_for_refresh_def two_services_def refresh_one_def bare_service_def
      example_refresh_def snapshot_port_def reserve_port_def reserve_available_port_def
      with_registry_def open_registry_def example_os_def example_file_def cleanup_stale_def
      bm_retain_def is_pid_alive_def reserve_specific_port_def ensure_available_def my_entry_def
      finish_registry_def port_owner_def)

theorem refreshed_ports_witness:
  "holder example_os (Reg_Stored [(4000, \<lparr>re_owner = ''run:r0:web'', re_daemon_pid = 7\<rparr>),
      (5000, \<lparr>re_owner = ''run:r1:web'', re_daemon_pid = 7\<rparr>),
      (6000, \<lparr>re_owner = ''run:r1:api'', re_daemon_pid = 7\<rparr>)]) 6000 = Some ''run:r1:api''"
proof -
  have "bm_ok two_services" "map_of two_services ''api'' = Some (bare_service ''run-api'')"
    by (simp_all add: two_services_def bm_ok_def)
  from refreshed_ports [OF example_os_usable this(1) example_refresh_result this(2)]
  show ?thesis by (auto simp: port_owner_def)
qed

definition example_prepared :: prepared_service where
  "example_prepared = projr example_preparation"

theorem apply_prepared_result_witness:
  "sr_state (fst (apply_prepared_to_runtime (example_record ''api'' Sv_Failed) example_prepared True)) = Sv_Starting"
  using apply_prepared_result [of "example_record ''api'' Sv_Failed" example_prepared True] by (metis prod.collapse)

end
