(* ===== verification/Readiness.thy ===== *)
theory Readiness
  imports Model
begin

text \<open>
  Waiting for a service: \<open>src/src/services/readiness\<close>. What a probe observes is a parameter:
  the record \<open>probes\<close> gives, at each time, what systemd says of a unit, whether a connection
  to a port succeeds, the status of a request, the outcome of a command, and the text of the log.
  Round \<open>i\<close> of a waiting loop observes at the times \<open>2 * i\<close> and \<open>2 * i + 1\<close>, and reads the clock
  at the end of the round.
\<close>

section \<open>What a probe observes\<close>

record unit_status =
  us_active_state :: string
  us_sub_state :: string
  us_result :: "string option"

record probes =
  pb_status :: "nat \<Rightarrow> string \<Rightarrow> unit_status option result"
  pb_connect :: "nat \<Rightarrow> u16 \<Rightarrow> bool"
  pb_http_status :: "nat \<Rightarrow> u16 \<Rightarrow> string \<Rightarrow> u16 result"
  pb_command :: "nat \<Rightarrow> string \<Rightarrow> string \<Rightarrow> (string, string) bmap \<Rightarrow> bool result"
  pb_read_log :: "nat \<Rightarrow> string \<Rightarrow> string option"
  pb_regex :: "string \<Rightarrow> (string \<Rightarrow> bool) result"
  pb_clock :: "nat \<Rightarrow> nat"

text \<open>\<open>ReadinessContext\<close>; whether it carries a systemd manager is a flag.\<close>

record readiness_context =
  rx_port :: "u16 option"
  rx_scheme :: string
  rx_log_path :: string
  rx_cwd :: string
  rx_env :: "(string, string) bmap"
  rx_unit_name :: "string option"
  rx_systemd :: bool

section \<open>Single checks\<close>

definition is_success_status :: "u16 \<Rightarrow> u16 \<Rightarrow> u16 \<Rightarrow> bool" where
  "is_success_status status lo hi \<longleftrightarrow> lo \<le> status \<and> status \<le> hi"

definition http_ready :: "probes \<Rightarrow> nat \<Rightarrow> u16 \<Rightarrow> string \<Rightarrow> u16 \<Rightarrow> u16 \<Rightarrow> bool result" where
  "http_ready pb t port path lo hi =
     rbind (pb_http_status pb t port path) (\<lambda>status. Inr (is_success_status status lo hi))"

definition log_regex_ready :: "probes \<Rightarrow> nat \<Rightarrow> string \<Rightarrow> string \<Rightarrow> bool result" where
  "log_regex_ready pb t path pattern =
     (case pb_read_log pb t path of
        None \<Rightarrow> Inr False
      | Some content \<Rightarrow>
          rbind (map_err (\<lambda>_. ''compile log regex'') (pb_regex pb pattern)) (\<lambda>regex. Inr (regex content)))"

definition cmd_ready :: "probes \<Rightarrow> nat \<Rightarrow> string \<Rightarrow> readiness_context \<Rightarrow> bool result" where
  "cmd_ready pb t command ctx =
     map_err (\<lambda>_. ''run readiness command'') (pb_command pb t command (rx_cwd ctx) (rx_env ctx))"

definition exit_status_ready :: "unit_status \<Rightarrow> bool result" where
  "exit_status_ready status =
     (if us_active_state status = ''failed'' then
        Inl (''service failed (result='' @ unwrap_or (us_result status) ''unknown'' @ '')'')
      else if us_active_state status = ''active'' \<and> us_sub_state status = ''exited''
        \<and> (us_result status = Some ''success'' \<or> us_result status = None) then Inr True
      else if us_active_state status = ''inactive'' then
        (if us_result status = Some ''success'' then Inr True
         else if us_sub_state status \<in> {''exited'', ''dead''} \<and> us_result status = None then Inr True
         else (case us_result status of
                 Some result \<Rightarrow> Inl (''service exited (result='' @ result @ '')'')
               | None \<Rightarrow> Inr False))
      else Inr False)"

definition exit_ready_once :: "probes \<Rightarrow> nat \<Rightarrow> readiness_context \<Rightarrow> bool result" where
  "exit_ready_once pb t ctx =
     (if \<not> rx_systemd ctx then Inl ''exit readiness requires systemd''
      else rbind (ok_or ''exit readiness requires unit name'' (rx_unit_name ctx)) (\<lambda>unit_name.
        rbind (pb_status pb t unit_name) (\<lambda>status.
        case status of None \<Rightarrow> Inr False | Some s \<Rightarrow> exit_status_ready s)))"

definition check_ready_once :: "probes \<Rightarrow> nat \<Rightarrow> readiness_spec \<Rightarrow> readiness_context \<Rightarrow> bool result" where
  "check_ready_once pb t spec ctx =
     (case rs_kind spec of
        RK_Tcp \<Rightarrow>
          (case rx_port ctx of
             Some port \<Rightarrow> Inr (pb_connect pb t port)
           | None \<Rightarrow> Inl ''TCP readiness check requires port'')
      | RK_Http path lo hi \<Rightarrow>
          (case rx_port ctx of
             Some port \<Rightarrow> http_ready pb t port path lo hi
           | None \<Rightarrow> Inl ''HTTP readiness check requires port'')
      | RK_LogRegex pattern \<Rightarrow> log_regex_ready pb t (rx_log_path ctx) pattern
      | RK_Cmd command \<Rightarrow> cmd_ready pb t command ctx
      | RK_Exit \<Rightarrow> exit_ready_once pb t ctx
      | RK_Delay _ \<Rightarrow> Inr False
      | RK_None \<Rightarrow> Inr True)"

definition status_failure :: "unit_status \<Rightarrow> string option" where
  "status_failure status =
     (if us_active_state status = ''failed'' then
        Some (''service exited before readiness (active_state=failed, sub_state='' @ us_sub_state status
              @ '', result='' @ unwrap_or (us_result status) ''unknown'' @ '')'')
      else if us_active_state status = ''inactive'' then
        (if us_result status = Some ''success'' then None
         else map_option (\<lambda>result.
           ''service exited before readiness (active_state=inactive, sub_state='' @ us_sub_state status
           @ '', result='' @ result @ '')'') (us_result status))
      else None)"

definition readiness_process_failure :: "probes \<Rightarrow> nat \<Rightarrow> readiness_context \<Rightarrow> string option result" where
  "readiness_process_failure pb t ctx =
     (if \<not> rx_systemd ctx then Inr None
      else (case rx_unit_name ctx of
        None \<Rightarrow> Inr None
      | Some unit_name \<Rightarrow>
          rbind (pb_status pb t unit_name) (\<lambda>status.
          case status of None \<Rightarrow> Inr None | Some s \<Rightarrow> Inr (status_failure s))))"

section \<open>Waiting\<close>

text \<open>
  Every wait is a loop of rounds that sleeps between them: a round decides, or hands its state
  to the next. \<open>None\<close> means that the rounds followed were not enough.
\<close>

fun retry :: "(nat \<Rightarrow> 's \<Rightarrow> 'o + 's) \<Rightarrow> nat \<Rightarrow> nat \<Rightarrow> 's \<Rightarrow> 'o option" where
  "retry round 0 i s = None"
| "retry round (Suc fuel) i s =
     (case round i s of
        Inl outcome \<Rightarrow> Some outcome
      | Inr s' \<Rightarrow> retry round fuel (Suc i) s')"

text \<open>One round of the polling loop: a decision, or the error to remember.\<close>

definition timed_out :: "string option \<Rightarrow> string" where
  "timed_out last_err =
     (case last_err of Some err \<Rightarrow> ''readiness timed out: '' @ err | None \<Rightarrow> ''readiness timed out'')"

definition poll_round ::
  "probes \<Rightarrow> readiness_spec \<Rightarrow> readiness_context \<Rightarrow> nat \<Rightarrow> nat \<Rightarrow> string option \<Rightarrow>
     unit result + string option" where
  "poll_round pb spec ctx deadline i last_err =
     (case readiness_process_failure pb (2 * i) ctx of
        Inl e \<Rightarrow> Inl (Inl e)
      | Inr (Some reason) \<Rightarrow> Inl (Inl reason)
      | Inr None \<Rightarrow>
          (case check_ready_once pb (2 * i) spec ctx of
             Inr True \<Rightarrow> Inl (Inr ())
           | checked \<Rightarrow>
               let last_err' = (case checked of Inl err \<Rightarrow> Some err | Inr _ \<Rightarrow> last_err) in
               (case readiness_process_failure pb (2 * i + 1) ctx of
                  Inl e \<Rightarrow> Inl (Inl e)
                | Inr (Some reason) \<Rightarrow> Inl (Inl reason)
                | Inr None \<Rightarrow>
                    if deadline \<le> pb_clock pb (2 * i + 1) then Inl (Inl (timed_out last_err'))
                    else Inr last_err')))"

definition wait_for_delay :: "nat \<Rightarrow> nat \<Rightarrow> unit result" where
  "wait_for_delay duration timeout =
     (if timeout < duration then Inl ''readiness timed out'' else Inr ())"

definition exit_round ::
  "probes \<Rightarrow> readiness_context \<Rightarrow> nat \<Rightarrow> nat \<Rightarrow> string option \<Rightarrow> unit result + string option" where
  "exit_round pb ctx deadline i last_err =
     (case exit_ready_once pb (2 * i) ctx of
        Inr True \<Rightarrow> Inl (Inr ())
      | checked \<Rightarrow>
          let last_err' = (case checked of Inl err \<Rightarrow> Some err | Inr _ \<Rightarrow> last_err) in
          if deadline \<le> pb_clock pb (2 * i + 1) then Inl (Inl (timed_out last_err'))
          else Inr last_err')"

definition log_round ::
  "probes \<Rightarrow> (string \<Rightarrow> bool) \<Rightarrow> string \<Rightarrow> nat \<Rightarrow> nat \<Rightarrow> unit \<Rightarrow> unit result + unit" where
  "log_round pb regex path deadline i u =
     (if (case pb_read_log pb (2 * i) path of Some content \<Rightarrow> regex content | None \<Rightarrow> False)
      then Inl (Inr ())
      else if deadline \<le> pb_clock pb (2 * i + 1) then Inl (Inl ''readiness timed out'')
      else Inr ())"

definition wait_for_log_regex ::
  "nat \<Rightarrow> probes \<Rightarrow> nat \<Rightarrow> string \<Rightarrow> string \<Rightarrow> nat \<Rightarrow> unit result option" where
  "wait_for_log_regex fuel pb start path pattern timeout =
     (case map_err (\<lambda>_. ''compile regex'') (pb_regex pb pattern) of
        Inl e \<Rightarrow> Some (Inl e)
      | Inr regex \<Rightarrow> retry (log_round pb regex path (start + timeout)) fuel 0 ())"

text \<open>\<open>start\<close> is the clock when the wait begins, \<open>fuel\<close> the number of rounds followed.\<close>

definition wait_for_ready ::
  "nat \<Rightarrow> probes \<Rightarrow> nat \<Rightarrow> readiness_spec \<Rightarrow> readiness_context \<Rightarrow> unit result option" where
  "wait_for_ready fuel pb start spec ctx =
     (case rs_kind spec of
        RK_Delay duration \<Rightarrow> Some (wait_for_delay duration (rs_timeout spec))
      | RK_Exit \<Rightarrow> retry (exit_round pb ctx (start + rs_timeout spec)) fuel 0 None
      | RK_LogRegex pattern \<Rightarrow> wait_for_log_regex fuel pb start (rx_log_path ctx) pattern (rs_timeout spec)
      | _ \<Rightarrow> retry (poll_round pb spec ctx (start + rs_timeout spec)) fuel 0 None)"

section \<open>The contract of a wait\<close>

text \<open>What the loops have in common: a round that reads the clock past the deadline decides.\<close>

locale bounded_wait =
  fixes round :: "nat \<Rightarrow> 's \<Rightarrow> 'o + 's"
    and clock :: "nat \<Rightarrow> nat"
    and deadline :: nat
  assumes decides: "deadline \<le> clock i \<Longrightarrow> \<exists>outcome. round i s = Inl outcome"
begin

lemma returns:
  assumes "deadline \<le> clock n" and "i \<le> n" and "n < i + fuel"
  shows "\<exists>outcome. retry round fuel i s = Some outcome"
  using assms
proof (induction fuel arbitrary: i s)
  case (Suc fuel)
  show ?case
  proof (cases "i = n")
    case True
    from decides [OF Suc.prems(1)] obtain outcome where "round n s = Inl outcome" by blast
    then show ?thesis by (simp add: True)
  next
    case False
    then have "\<exists>outcome. retry round fuel (Suc i) s' = Some outcome" for s'
      using Suc.prems by (intro Suc.IH) simp_all
    then show ?thesis by (cases "round i s") simp_all
  qed
qed simp

lemma enough: "retry round fuel i s = Some outcome \<Longrightarrow> retry round (fuel + extra) i s = Some outcome"
  by (induction fuel arbitrary: i s) (simp_all split: sum.splits)

lemma decided_in_a_round:
  "retry round fuel i s = Some outcome \<Longrightarrow>
   \<exists>n s'. i \<le> n \<and> n < i + fuel \<and> round n s' = Inl outcome \<and> (\<forall>j. i \<le> j \<and> j < n \<longrightarrow> (\<exists>s1 s2. round j s1 = Inr s2))"
proof (induction fuel arbitrary: i s)
  case (Suc fuel)
  show ?case
  proof (cases "round i s")
    case (Inl out)
    then show ?thesis using Suc.prems by (intro exI [of _ i] exI [of _ s]) auto
  next
    case (Inr s1)
    then obtain n s' where n: "Suc i \<le> n" "n < Suc i + fuel" "round n s' = Inl outcome"
        "\<forall>j. Suc i \<le> j \<and> j < n \<longrightarrow> (\<exists>s1 s2. round j s1 = Inr s2)"
      using Suc.IH [of "Suc i" s1] Suc.prems by auto
    have "\<exists>s1 s2. round j s1 = Inr s2" if "i \<le> j" "j < n" for j
      using n(4) that Inr by (cases "j = i") auto
    with n show ?thesis by (intro exI [of _ n] exI [of _ s']) auto
  qed
qed simp

lemma decided_at:
  assumes "i \<le> n" and "n < i + fuel" and "\<And>s. round n s = Inl outcome"
    and "\<And>j s. i \<le> j \<Longrightarrow> j < n \<Longrightarrow> \<exists>s'. round j s = Inr s'"
  shows "retry round fuel i s = Some outcome"
  using assms(1,2,4)
proof (induction fuel arbitrary: i s)
  case (Suc fuel)
  show ?case
  proof (cases "i = n")
    case True
    then show ?thesis using assms(3) [of s] by simp
  next
    case False
    then obtain s' where "round i s = Inr s'" using Suc.prems by fastforce
    then show ?thesis using Suc.IH [of "Suc i" s'] Suc.prems False by simp
  qed
qed simp

end

interpretation poll: bounded_wait "poll_round pb spec ctx deadline" "\<lambda>i. pb_clock pb (2 * i + 1)" deadline
  for pb spec ctx deadline
  by unfold_locales (auto simp: poll_round_def Let_def split: sum.split option.split bool.split)

interpretation exit: bounded_wait "exit_round pb ctx deadline" "\<lambda>i. pb_clock pb (2 * i + 1)" deadline
  for pb ctx deadline
  by unfold_locales (auto simp: exit_round_def Let_def split: sum.split bool.split)

interpretation log: bounded_wait "log_round pb regex path deadline" "\<lambda>i. pb_clock pb (2 * i + 1)" deadline
  for pb regex path deadline
  by unfold_locales (auto simp: log_round_def)

section \<open>Facts\<close>

definition polled :: "readiness_kind \<Rightarrow> bool" where
  "polled kind \<longleftrightarrow> (case kind of RK_Delay _ \<Rightarrow> False | RK_Exit \<Rightarrow> False | RK_LogRegex _ \<Rightarrow> False | _ \<Rightarrow> True)"

lemma wait_for_ready_polled:
  "polled (rs_kind spec) \<Longrightarrow>
   wait_for_ready fuel pb start spec ctx = retry (poll_round pb spec ctx (start + rs_timeout spec)) fuel 0 None"
  by (cases "rs_kind spec") (auto simp: wait_for_ready_def polled_def)

text \<open>What lets a round go by without a decision.\<close>

definition undecided :: "probes \<Rightarrow> readiness_spec \<Rightarrow> readiness_context \<Rightarrow> nat \<Rightarrow> nat \<Rightarrow> bool" where
  "undecided pb spec ctx deadline i \<longleftrightarrow>
     readiness_process_failure pb (2 * i) ctx = Inr None \<and>
     check_ready_once pb (2 * i) spec ctx \<noteq> Inr True \<and>
     readiness_process_failure pb (2 * i + 1) ctx = Inr None \<and> pb_clock pb (2 * i + 1) < deadline"

lemma poll_round_Inr: "(\<exists>s'. poll_round pb spec ctx deadline i s = Inr s') \<longleftrightarrow> undecided pb spec ctx deadline i"
  by (auto simp: poll_round_def undecided_def Let_def split: sum.splits option.splits bool.splits)

lemma poll_round_ready:
  "poll_round pb spec ctx deadline i s = Inl (Inr ()) \<longleftrightarrow>
   readiness_process_failure pb (2 * i) ctx = Inr None \<and> check_ready_once pb (2 * i) spec ctx = Inr True"
  by (auto simp: poll_round_def Let_def split: sum.splits option.splits bool.splits)

section \<open>Properties\<close>

text \<open>
  Waiting ends: once the clock has passed the deadline in some round, that many rounds are
  enough for an answer, and following more of them does not change it.
\<close>

theorem wait_for_ready_ends:
  assumes "start + rs_timeout spec \<le> pb_clock pb (2 * n + 1)"
  shows "\<exists>outcome. \<forall>fuel > n. wait_for_ready fuel pb start spec ctx = Some outcome"
proof -
  let ?deadline = "start + rs_timeout spec"
  have stable: "\<exists>outcome. \<forall>fuel > n. w fuel = Some outcome"
    if "\<exists>outcome. w (Suc n) = Some outcome" "\<And>fuel outcome extra. w fuel = Some outcome \<Longrightarrow> w (fuel + extra) = Some outcome"
    for w :: "nat \<Rightarrow> unit result option"
    using that by (metis less_iff_Suc_add add_Suc)
  note poll = poll.returns [OF assms, of 0 "Suc n"] and exit = exit.returns [OF assms, of 0 "Suc n"]
    and log = log.returns [OF assms, of 0 "Suc n"]
  show ?thesis
  proof (cases "rs_kind spec")
    case (RK_LogRegex pattern)
    show ?thesis
    proof (cases "pb_regex pb pattern")
      case (Inl e)
      then show ?thesis by (simp add: wait_for_ready_def wait_for_log_regex_def RK_LogRegex)
    next
      case (Inr regex)
      show ?thesis
        by (rule stable) (use log log.enough in \<open>simp_all add: wait_for_ready_def wait_for_log_regex_def RK_LogRegex Inr\<close>)
    qed
  next
    case RK_Exit
    show ?thesis
      by (rule stable) (use exit exit.enough in \<open>simp_all add: wait_for_ready_def RK_Exit\<close>)
  next
    case (RK_Delay d)
    then show ?thesis by (simp add: wait_for_ready_def)
  qed (rule stable; use poll poll.enough in \<open>simp add: wait_for_ready_def\<close>)+
qed

text \<open>
  C8. A polled service is reported ready exactly when some round finds no failed process and a
  passing check, after rounds that all found no failed process, no passing check and time left;
  so a check that passes after the process has failed never counts.
\<close>

theorem wait_for_ready_succeeds_iff:
  assumes "\<forall>d p. rs_kind spec \<notin> {RK_Delay d, RK_Exit, RK_LogRegex p}"
  shows "wait_for_ready fuel pb start spec ctx = Some (Inr ()) \<longleftrightarrow>
    (\<exists>n < fuel. readiness_process_failure pb (2 * n) ctx = Inr None \<and>
       check_ready_once pb (2 * n) spec ctx = Inr True \<and>
       (\<forall>i < n. readiness_process_failure pb (2 * i) ctx = Inr None \<and>
          check_ready_once pb (2 * i) spec ctx \<noteq> Inr True \<and>
          readiness_process_failure pb (2 * i + 1) ctx = Inr None \<and>
          pb_clock pb (2 * i + 1) < start + rs_timeout spec))"
proof -
  let ?deadline = "start + rs_timeout spec"
  let ?round = "poll_round pb spec ctx ?deadline"
  have wait: "wait_for_ready fuel pb start spec ctx = retry ?round fuel 0 None"
    using assms by (intro wait_for_ready_polled) (simp add: polled_def split: readiness_kind.split)
  have "retry ?round fuel 0 None = Some (Inr ()) \<longleftrightarrow>
      (\<exists>n < fuel. readiness_process_failure pb (2 * n) ctx = Inr None \<and>
        check_ready_once pb (2 * n) spec ctx = Inr True \<and> (\<forall>i < n. undecided pb spec ctx ?deadline i))"
    (is "?l \<longleftrightarrow> ?r")
  proof
    assume ?l
    from poll.decided_in_a_round [OF this] obtain n s where
      "n < fuel" "?round n s = Inl (Inr ())" "\<forall>j < n. \<exists>s1 s2. ?round j s1 = Inr s2" by auto
    then show ?r using poll_round_ready poll_round_Inr by (metis (full_types))
  next
    assume ?r
    then obtain n where n: "n < fuel" "\<forall>i < n. undecided pb spec ctx ?deadline i"
      and ready: "\<And>s. ?round n s = Inl (Inr ())"
      by (auto simp: poll_round_ready)
    have "\<exists>s'. ?round j s = Inr s'" if "j < n" for j s
      using n(2) that by (simp add: poll_round_Inr)
    then show ?l using n(1) by (intro poll.decided_at [OF _ _ ready]) auto
  qed
  then show ?thesis unfolding wait by (simp add: undecided_def)
qed

definition example_probes :: probes where
  "example_probes =
     \<lparr>pb_status = (\<lambda>t unit. Inr (Some \<lparr>us_active_state = ''active'', us_sub_state = ''running'', us_result = None\<rparr>)),
      pb_connect = (\<lambda>t port. 2 \<le> t), pb_http_status = (\<lambda>t port path. Inr 200),
      pb_command = (\<lambda>t command cwd env. Inr True), pb_read_log = (\<lambda>t path. None),
      pb_regex = (\<lambda>pattern. Inr (\<lambda>_. False)), pb_clock = (\<lambda>t. 100 * t)\<rparr>"

definition example_context :: readiness_context where
  "example_context =
     \<lparr>rx_port = Some 3000, rx_scheme = ''http'', rx_log_path = ''/l'', rx_cwd = ''/p'', rx_env = [],
      rx_unit_name = Some ''u.service'', rx_systemd = True\<rparr>"

theorem wait_for_ready_ends_witness:
  "\<exists>outcome. wait_for_ready 10 example_probes 0 \<lparr>rs_kind = RK_Exit, rs_timeout = 1000\<rparr> example_context = Some outcome"
  using wait_for_ready_ends [of 0 "\<lparr>rs_kind = RK_Exit, rs_timeout = 1000\<rparr>" example_probes 5 example_context]
  by (auto simp: example_probes_def)

theorem wait_for_ready_succeeds_iff_witness:
  "wait_for_ready 2 example_probes 0 \<lparr>rs_kind = RK_Tcp, rs_timeout = 30000\<rparr> example_context = Some (Inr ())"
  by (subst wait_for_ready_succeeds_iff)
    (simp_all add: example_probes_def example_context_def check_ready_once_def
      readiness_process_failure_def status_failure_def exI [of _ 1])

end
