(* ===== verification/Logfmt.thy ===== *)
theory Logfmt
  imports Json
begin

text \<open>
  The format of a log line, \<open>src/src/logfmt.rs\<close>: wrapping a line of output into JSON, reading
  back its time, stream and message, the level of a line, and health-check noise. The JSON parser
  is a parameter \<open>parse\<close> and the printer a parameter \<open>print\<close>; numbers are integers. The regular
  expressions of the source are written out as functions.
\<close>

section \<open>Levels\<close>

definition is_word_char :: "char \<Rightarrow> bool" where
  "is_word_char c \<longleftrightarrow> is_ascii_alphanumeric c \<or> c = CHR ''_''"

text \<open>\<open>prev\<close> is the character before the rest of the text, if any.\<close>

fun keyword_from :: "string \<Rightarrow> char option \<Rightarrow> string \<Rightarrow> bool" where
  "keyword_from keyword prev [] =
     (keyword = [] \<and> (case prev of None \<Rightarrow> True | Some p \<Rightarrow> \<not> is_word_char p))"
| "keyword_from keyword prev (c # s) =
     ((eq_ignore_ascii_case (take (length keyword) (c # s)) keyword
        \<and> (case prev of None \<Rightarrow> True | Some p \<Rightarrow> \<not> is_word_char p)
        \<and> (case drop (length keyword) (c # s) of [] \<Rightarrow> True | d # _ \<Rightarrow> \<not> is_word_char d))
      \<or> keyword_from keyword (Some c) s)"

definition contains_keyword_case_insensitive :: "string \<Rightarrow> string \<Rightarrow> bool" where
  "contains_keyword_case_insensitive content keyword = keyword_from keyword None content"

definition detect_log_level_fast :: "string \<Rightarrow> string" where
  "detect_log_level_fast content =
     (if list_ex (contains_keyword_case_insensitive content)
           [''error'', ''fatal'', ''panic'', ''exception'', ''traceback''] then ''error''
      else if list_ex (contains_keyword_case_insensitive content) [''warn'', ''warning''] then ''warn''
      else ''info'')"

definition normalize_plain_text_level :: "string \<Rightarrow> string option" where
  "normalize_plain_text_level level =
     (let is = eq_ignore_ascii_case level in
      if is ''error'' \<or> is ''fatal'' \<or> is ''panic'' then Some ''error''
      else if is ''warn'' \<or> is ''warning'' then Some ''warn''
      else if is ''info'' then Some ''info''
      else if is ''debug'' then Some ''debug''
      else if is ''trace'' then Some ''trace''
      else None)"

text \<open>The alternatives of both expressions, a longer one tried before its prefix.\<close>

definition level_words :: "string list" where
  "level_words = [''error'', ''fatal'', ''panic'', ''warning'', ''warn'', ''info'', ''debug'', ''trace'']"

definition level_before :: "(string \<Rightarrow> bool) \<Rightarrow> string \<Rightarrow> string option" where
  "level_before follows s =
     find (\<lambda>level. eq_ignore_ascii_case (take (length level) s) level \<and> follows (drop (length level) s))
       level_words"

definition space_or_end :: "string \<Rightarrow> bool" where
  "space_or_end s \<longleftrightarrow> (case s of [] \<Rightarrow> True | c # _ \<Rightarrow> is_whitespace c)"

text \<open>\<open>BRACKET_LEVEL_RE\<close>\<close>

definition bracket_level :: "string \<Rightarrow> string option" where
  "bracket_level content =
     (case trim_start content of
        c # s \<Rightarrow>
          if c = CHR ''['' then
            level_before (\<lambda>r. case r of d # r' \<Rightarrow> d = CHR '']'' \<and> space_or_end r' | [] \<Rightarrow> False) s
          else None
      | [] \<Rightarrow> None)"

text \<open>The optional date and time of \<open>PREFIX_LEVEL_RE\<close>.\<close>

definition date_form :: "string \<Rightarrow> bool" where
  "date_form s \<longleftrightarrow>
     length s = 11 \<and> list_all is_ascii_digit (take 4 s) \<and> s ! 4 = CHR ''-''
     \<and> list_all is_ascii_digit (take 2 (drop 5 s)) \<and> s ! 7 = CHR ''-''
     \<and> list_all is_ascii_digit (take 2 (drop 8 s)) \<and> (s ! 10 = CHR ''T'' \<or> s ! 10 = CHR ''t'')"

definition skip_date :: "string \<Rightarrow> string" where
  "skip_date s =
     (let rest = drop 11 s;
          time = takeWhile (\<lambda>c. \<not> is_whitespace c) rest;
          after = dropWhile (\<lambda>c. \<not> is_whitespace c) rest in
      if date_form (take 11 s) \<and> time \<noteq> [] \<and> after \<noteq> [] then trim_start after else s)"

definition prefix_level :: "string \<Rightarrow> string option" where
  "prefix_level content =
     level_before (\<lambda>r. space_or_end r \<or> (r \<noteq> [] \<and> hd r = CHR '':'')) (skip_date (trim_start content))"

definition detect_log_level_regex :: "string \<Rightarrow> string option" where
  "detect_log_level_regex content =
     (case bracket_level content of
        Some level \<Rightarrow> normalize_plain_text_level level
      | None \<Rightarrow>
          (case prefix_level content of
             Some level \<Rightarrow> normalize_plain_text_level level
           | None \<Rightarrow> None))"

definition detect_log_level :: "string \<Rightarrow> string" where
  "detect_log_level content =
     (let fast_level = detect_log_level_fast content in
      if fast_level \<noteq> ''info'' then fast_level
      else unwrap_or (detect_log_level_regex content) ''info'')"

definition normalize_numeric_level :: "int \<Rightarrow> string option" where
  "normalize_numeric_level level =
     (if level = 10 then Some ''trace''
      else if level = 20 then Some ''debug''
      else if level = 30 then Some ''info''
      else if level = 40 then Some ''warn''
      else if level = 50 \<or> level = 60 then Some ''error''
      else None)"

text \<open>\<open>str::parse::<i64>\<close>: an optional sign and digits, in range.\<close>

definition parse_i64 :: "string \<Rightarrow> int option" where
  "parse_i64 s =
     (let (negative, digits) =
            (case s of
               c # r \<Rightarrow> if c = CHR ''-'' then (True, r) else if c = CHR ''+'' then (False, r) else (False, s)
             | [] \<Rightarrow> (False, []));
          v = (if negative then - int (digits_value digits) else int (digits_value digits)) in
      if digits \<noteq> [] \<and> list_all is_ascii_digit digits \<and> - (2 ^ 63) \<le> v \<and> v < 2 ^ 63 then Some v else None)"

definition normalize_level_token :: "string \<Rightarrow> string option" where
  "normalize_level_token token =
     (let lower = lowercase (trim token) in
      if lower = [] then None
      else case parse_i64 lower of
          Some num \<Rightarrow> normalize_numeric_level num
        | None \<Rightarrow>
            if lower \<in> {''warning'', ''warn''} then Some ''warn''
            else if lower \<in> {''error'', ''err'', ''fatal'', ''panic''} then Some ''error''
            else if lower = ''trace'' then Some ''trace''
            else if lower = ''debug'' then Some ''debug''
            else if lower \<in> {''info'', ''information''} then Some ''info''
            else Some lower)"

definition normalize_level_value :: "json \<Rightarrow> string option" where
  "normalize_level_value v =
     (case v of
        J_Num n \<Rightarrow> if - (2 ^ 63) \<le> n \<and> n < 2 ^ 63 then normalize_numeric_level n else None
      | J_Str s \<Rightarrow> normalize_level_token s
      | _ \<Rightarrow> None)"

section \<open>Reading a line back\<close>

type_synonym json_parser = "string \<Rightarrow> json option"

definition parse_json_object :: "json_parser \<Rightarrow> string \<Rightarrow> json_map option" where
  "parse_json_object parse line =
     (let trimmed = trim line in
      if \<not> starts_with trimmed ''{'' then None
      else (case parse trimmed of Some (J_Obj m) \<Rightarrow> Some m | _ \<Rightarrow> None))"

definition show_int :: "int \<Rightarrow> string" where
  "show_int n = (if n < 0 then ''-'' @ show_nat (nat (- n)) else show_nat (nat n))"

fun value_as_string :: "json \<Rightarrow> string option" where
  "value_as_string (J_Str s) = Some s"
| "value_as_string (J_Num n) = Some (show_int n)"
| "value_as_string (J_Bool b) = Some (if b then ''true'' else ''false'')"
| "value_as_string _ = None"

definition find_char :: "char \<Rightarrow> string \<Rightarrow> (string \<times> string) option" where
  "find_char c s =
     (if c \<in> set s then Some (takeWhile (\<lambda>d. d \<noteq> c) s, tl (dropWhile (\<lambda>d. d \<noteq> c) s)) else None)"

definition extract_bracket_timestamp :: "string \<Rightarrow> string option" where
  "extract_bracket_timestamp line =
     Option.bind (strip_prefix line ''['') (\<lambda>rest.
     map_option fst (find_char (CHR '']'') rest))"

definition extract_bracket_content :: "string \<Rightarrow> (string \<times> string) option" where
  "extract_bracket_content line =
     Option.bind (strip_prefix line ''['') (\<lambda>rest.
     Option.bind (find_char (CHR '']'') rest) (\<lambda>(_, after).
     Option.bind (strip_prefix (trim_start after) ''['') (\<lambda>rest2.
     map_option (\<lambda>(stream, content). (stream, trim_start content)) (find_char (CHR '']'') rest2))))"

definition first_field :: "string list \<Rightarrow> json_map \<Rightarrow> string option" where
  "first_field fields m =
     (case List.map_filter (\<lambda>f. Option.bind (map_of m f) value_as_string) fields of
        [] \<Rightarrow> None | v # _ \<Rightarrow> Some v)"

definition extract_timestamp_str :: "json_parser \<Rightarrow> string \<Rightarrow> string option" where
  "extract_timestamp_str parse line =
     (case Option.bind (parse_json_object parse line) (first_field [''time'', ''ts'', ''timestamp'']) of
        Some ts \<Rightarrow> Some ts
      | None \<Rightarrow> extract_bracket_timestamp line)"

definition object_stream :: "json_map \<Rightarrow> string" where
  "object_stream m =
     (case Option.bind (map_of m ''stream'') value_as_string of
        Some s \<Rightarrow> if s = [] then ''stdout'' else s
      | None \<Rightarrow> ''stdout'')"

definition object_message :: "json_map \<Rightarrow> string \<Rightarrow> string" where
  "object_message m line =
     unwrap_or (Option.bind (opt_or (map_of m ''msg'') (map_of m ''message'')) value_as_string) line"

definition extract_log_content :: "json_parser \<Rightarrow> string \<Rightarrow> string \<times> string" where
  "extract_log_content parse line =
     (case parse_json_object parse line of
        Some m \<Rightarrow> (object_stream m, object_message m line)
      | None \<Rightarrow> unwrap_or (extract_bracket_content line) (''stdout'', line))"

definition level_for_stream :: "string \<Rightarrow> string \<Rightarrow> string" where
  "level_for_stream detected stream =
     (if detected = ''info'' \<and> stream = ''stderr'' then ''warn'' else detected)"

definition object_level :: "json_map \<Rightarrow> string" where
  "object_level m =
     (case Option.bind (opt_or (map_of m ''level'') (map_of m ''severity'')) normalize_level_value of
        Some level \<Rightarrow> level
      | None \<Rightarrow>
          (let msg = unwrap_or (Option.bind (map_of m ''msg'') json_str) [];
               stream = unwrap_or (Option.bind (map_of m ''stream'') json_str) ''stdout'' in
           level_for_stream (detect_log_level msg) stream))"

definition classify_line_level :: "json_parser \<Rightarrow> string \<Rightarrow> string" where
  "classify_line_level parse line =
     (case parse_json_object parse line of
        Some m \<Rightarrow> object_level m
      | None \<Rightarrow>
          (let (stream, content) = extract_log_content parse line in
           level_for_stream (detect_log_level content) stream))"

record parsed_log_line =
  pl_timestamp :: "string option"
  pl_stream :: string
  pl_message :: string
  pl_level :: string
  pl_json :: "json_map option"

definition parse_log_line :: "json_parser \<Rightarrow> string \<Rightarrow> parsed_log_line" where
  "parse_log_line parse line =
     (case parse_json_object parse line of
        Some m \<Rightarrow>
          \<lparr>pl_timestamp = first_field [''time'', ''ts'', ''timestamp''] m, pl_stream = object_stream m,
           pl_message = object_message m line, pl_level = object_level m, pl_json = Some m\<rparr>
      | None \<Rightarrow>
          (let (stream, message) = unwrap_or (extract_bracket_content line) (''stdout'', line) in
           \<lparr>pl_timestamp = extract_bracket_timestamp line, pl_stream = stream, pl_message = message,
            pl_level = level_for_stream (detect_log_level message) stream, pl_json = None\<rparr>))"

section \<open>Writing a line\<close>

text \<open>The printer of \<open>serde_json\<close> does not fail on a value of this type.\<close>

definition log_payload :: "json_parser \<Rightarrow> string \<Rightarrow> json_map" where
  "log_payload parse content =
     (case parse content of
        Some (J_Obj m) \<Rightarrow>
          if starts_with (trim_start content) ''{'' then m else [(''msg'', J_Str content)]
      | _ \<Rightarrow> [(''msg'', J_Str content)])"

definition encode_log_line ::
  "json_parser \<Rightarrow> (json \<Rightarrow> string) \<Rightarrow> string \<Rightarrow> string \<Rightarrow> string \<Rightarrow> string" where
  "encode_log_line parse print stream content timestamp =
     print (J_Obj (jo_insert ''stream'' (J_Str stream)
       (jo_insert ''time'' (J_Str timestamp) (log_payload parse (trim_newlines content)))))"

section \<open>Terminal escapes\<close>

text \<open>
  \<open>ANSI_RE\<close>: each alternative gives the text after a sequence whose escape character and
  first character stood before \<open>r\<close>. The first character decides between the alternatives.
\<close>

definition csi_rest :: "string \<Rightarrow> string option" where
  "csi_rest r =
     (case dropWhile (\<lambda>d. is_ascii_digit d \<or> d = CHR '';'' \<or> d = CHR ''?'') r of
        d # r' \<Rightarrow> if is_ascii_upper d \<or> is_ascii_lower d then Some r' else None
      | [] \<Rightarrow> None)"

definition osc_rest :: "string \<Rightarrow> string option" where
  "osc_rest r =
     (case dropWhile (\<lambda>d. d \<noteq> CHR 0x07 \<and> d \<noteq> CHR 0x1B) r of
        d # r' \<Rightarrow> if d = CHR 0x07 then Some r' else strip_prefix r' [CHR 0x5C]
      | [] \<Rightarrow> None)"

definition charset_rest :: "string \<Rightarrow> string option" where
  "charset_rest r = (case r of d # r' \<Rightarrow> if d = CHR ''A'' \<or> d = CHR ''B'' then Some r' else None | [] \<Rightarrow> None)"

definition single_escape :: "char \<Rightarrow> bool" where
  "single_escape c \<longleftrightarrow> c \<in> set ''=>NOMDEHcZ78''"

definition ansi_rest :: "string \<Rightarrow> string option" where
  "ansi_rest s =
     (case s of
        [] \<Rightarrow> None
      | c # r \<Rightarrow>
          if c = CHR ''['' then csi_rest r
          else if c = CHR '']'' then osc_rest r
          else if c = CHR ''('' then charset_rest r
          else if single_escape c then Some r
          else None)"

lemma dropWhile_rest: "dropWhile P r = d # r' \<Longrightarrow> length r' \<le> length r"
  using length_dropWhile_le [of P r] by simp

lemma csi_rest_shorter: "csi_rest r = Some r' \<Longrightarrow> length r' \<le> length r"
  by (auto simp: csi_rest_def simp del: dropWhile_eq_Cons_conv split: list.splits if_splits dest: dropWhile_rest)

lemma osc_rest_shorter: "osc_rest r = Some r' \<Longrightarrow> length r' \<le> length r"
  by (auto simp: osc_rest_def strip_prefix_eq_Some simp del: dropWhile_eq_Cons_conv
      split: list.splits if_splits dest!: dropWhile_rest)

lemma charset_rest_shorter: "charset_rest r = Some r' \<Longrightarrow> length r' \<le> length r"
  by (simp add: charset_rest_def split: list.splits if_splits)

lemma ansi_rest_shorter: "ansi_rest s = Some r \<Longrightarrow> length r < length s"
  by (cases s) (auto simp: ansi_rest_def less_Suc_eq_le csi_rest_shorter osc_rest_shorter
      charset_rest_shorter split: if_splits)

function strip_ansi :: "string \<Rightarrow> string" where
  "strip_ansi [] = []"
| "strip_ansi (c # s) =
     (if c = CHR 0x1B then
        (case ansi_rest s of Some r \<Rightarrow> strip_ansi r | None \<Rightarrow> c # strip_ansi s)
      else c # strip_ansi s)"
  by pat_completeness auto
termination
  by (relation "measure length") (auto dest: ansi_rest_shorter)

definition strip_ansi_if_needed :: "string \<Rightarrow> string" where
  "strip_ansi_if_needed input = (if CHR 0x1B \<in> set input then strip_ansi input else input)"

section \<open>Health checks\<close>

text \<open>The search for a request line whose path ends, or goes on, after the endpoint.\<close>

definition endpoint_boundary :: "string \<Rightarrow> bool" where
  "endpoint_boundary s \<longleftrightarrow>
     (case s of [] \<Rightarrow> True | c # _ \<Rightarrow> c \<in> set '' ?/'' \<or> c = CHR 0x22 \<or> c = CHR 0x27)"

fun request_from :: "string \<Rightarrow> string \<Rightarrow> bool" where
  "request_from needle [] = (needle = [])"
| "request_from needle (c # s) =
     ((starts_with (c # s) needle \<and> endpoint_boundary (drop (length needle) (c # s)))
      \<or> request_from needle s)"

definition contains_request_for_endpoint :: "string \<Rightarrow> string \<Rightarrow> string \<Rightarrow> bool" where
  "contains_request_for_endpoint message_lower verb endpoint =
     request_from (verb @ '' '' @ endpoint) message_lower"

definition is_health_check_message :: "string \<Rightarrow> bool" where
  "is_health_check_message message =
     (let lower = lowercase message in
      list_ex (contains_str lower) [''kube-probe'', ''liveness probe'', ''readiness probe'', ''startup probe'']
      \<or> list_ex (\<lambda>verb. list_ex (contains_request_for_endpoint lower verb)
            [''/health'', ''/api/health'', ''/healthz'', ''/livez'', ''/readyz'', ''/liveness'', ''/readiness''])
          [''get'', ''head'', ''options''])"

definition is_health_check_line :: "json_parser \<Rightarrow> string \<Rightarrow> bool" where
  "is_health_check_line parse line = is_health_check_message (snd (extract_log_content parse line))"

section \<open>Facts\<close>

lemma trim_start_first: "trim_start s = c # r \<Longrightarrow> \<not> is_whitespace c"
  unfolding trim_start_def by (metis hd_dropWhile list.distinct(1) list.sel(1))

lemma trim_start_id: "\<not> is_whitespace c \<Longrightarrow> trim_start (c # s) = c # s"
  by (simp add: trim_start_def)

lemma trim_keeps_first:
  assumes "trim_start s = c # r"
  shows "\<exists>t. trim s = c # t"
proof -
  have "\<not> is_whitespace c" using assms by (rule trim_start_first)
  then show ?thesis
    by (auto simp: trim_def trim_end_def assms dropWhile_append intro: exI [of _ "rev (dropWhile is_whitespace (rev r))"])
qed

lemma brace_not_white: "\<not> is_whitespace (CHR ''{'')" "\<not> is_whitespace (CHR ''}'')"
  by (simp_all add: is_whitespace_def)

lemma trim_braces: "trim (''{'' @ s @ ''}'') = ''{'' @ s @ ''}''"
  by (simp add: trim_def trim_start_id trim_end_def brace_not_white)

lemma parse_json_object_no_bracket:
  assumes "parse_json_object parse line = Some m"
  shows "extract_bracket_timestamp line = None"
proof -
  have "strip_prefix line ''['' = None"
  proof (rule ccontr)
    assume "strip_prefix line ''['' \<noteq> None"
    then obtain r where line: "line = CHR ''['' # r" by (auto simp: strip_prefix_eq_Some)
    have "\<not> is_whitespace (CHR ''['')" by (simp add: is_whitespace_def)
    then have start: "trim_start line = CHR ''['' # r" by (simp add: line trim_start_id)
    from trim_keeps_first [OF this] obtain t where "trim line = CHR ''['' # t" by blast
    then have "\<not> starts_with (trim line) ''{''" by simp
    then show False using assms by (simp add: parse_json_object_def Let_def)
  qed
  then show ?thesis by (simp add: extract_bracket_timestamp_def)
qed

text \<open>The parts of a line.\<close>

lemma parse_log_line_parts:
  "pl_timestamp (parse_log_line parse line) = extract_timestamp_str parse line \<and>
   (pl_stream (parse_log_line parse line), pl_message (parse_log_line parse line)) = extract_log_content parse line \<and>
   pl_level (parse_log_line parse line) = classify_line_level parse line"
proof (cases "parse_json_object parse line")
  case None
  then show ?thesis
    by (simp add: parse_log_line_def extract_timestamp_str_def extract_log_content_def classify_line_level_def
        split: prod.split)
next
  case (Some m)
  then show ?thesis
    using parse_json_object_no_bracket [OF Some]
    by (simp add: parse_log_line_def extract_timestamp_str_def extract_log_content_def classify_line_level_def
        split: option.split)
qed

lemma parse_log_line_json: "pl_json (parse_log_line parse line) = parse_json_object parse line"
  by (simp add: parse_log_line_def split: option.split prod.split)

section \<open>Properties\<close>

text \<open>
  Reading a line in one pass gives what the separate readers give: the same time, stream,
  message and level.
\<close>

theorem parse_log_line_agrees:
  "pl_timestamp (parse_log_line parse line) = extract_timestamp_str parse line \<and>
   (pl_stream (parse_log_line parse line), pl_message (parse_log_line parse line)) = extract_log_content parse line \<and>
   pl_level (parse_log_line parse line) = classify_line_level parse line"
  by (rule parse_log_line_parts)

text \<open>
  A line of output wrapped into JSON and read back has the time and stream it was wrapped
  with; plain output comes back as the message, without its line ending, and a JSON line keeps
  its own message. (The printer and the parser round-trip on the wrapped object.)
\<close>

theorem log_line_round_trip:
  assumes "wrapped = jo_insert ''stream'' (J_Str stream)
      (jo_insert ''time'' (J_Str timestamp) (log_payload parse (trim_newlines content)))"
    and "print (J_Obj wrapped) = ''{'' @ body @ ''}''"
    and "parse (print (J_Obj wrapped)) = Some (J_Obj wrapped)" and "stream \<noteq> []"
  shows "extract_timestamp_str parse (encode_log_line parse print stream content timestamp) = Some timestamp \<and>
    extract_log_content parse (encode_log_line parse print stream content timestamp) =
      (stream,
       case parse (trim_newlines content) of
         Some (J_Obj m) \<Rightarrow>
           if starts_with (trim_start (trim_newlines content)) ''{''
           then object_message m (encode_log_line parse print stream content timestamp)
           else trim_newlines content
       | _ \<Rightarrow> trim_newlines content)"
proof -
  have line: "encode_log_line parse print stream content timestamp = ''{'' @ body @ ''}''"
    using assms(1,2) by (simp add: encode_log_line_def)
  have trimmed: "trim (''{'' @ body @ ''}'') = ''{'' @ body @ ''}''" by (rule trim_braces)
  have object: "parse_json_object parse (''{'' @ body @ ''}'') = Some wrapped"
    using assms(2,3) trimmed by (simp add: parse_json_object_def Let_def)
  have object': "parse_json_object parse (CHR ''{'' # body @ ''}'') = Some wrapped"
    using object by simp
  have fields: "map_of wrapped ''time'' = Some (J_Str timestamp)" "map_of wrapped ''stream'' = Some (J_Str stream)"
    "map_of wrapped ''msg'' = map_of (log_payload parse (trim_newlines content)) ''msg''"
    "map_of wrapped ''message'' = map_of (log_payload parse (trim_newlines content)) ''message''"
    by (simp_all add: assms(1))
  have stamp: "extract_timestamp_str parse (''{'' @ body @ ''}'') = Some timestamp"
    by (simp add: extract_timestamp_str_def object' first_field_def fields List.map_filter_simps)
  have content: "extract_log_content parse (''{'' @ body @ ''}'') =
      (stream, object_message (log_payload parse (trim_newlines content)) (''{'' @ body @ ''}''))"
    using assms(4) by (simp add: extract_log_content_def object' object_stream_def object_message_def fields)
  show ?thesis
    unfolding line stamp content
    by (simp add: log_payload_def object_message_def split: option.split json.split)
qed

theorem log_line_round_trip_witness:
  "extract_log_content (\<lambda>s. if s = ''{}'' then Some (J_Obj [(''msg'', J_Str ''hi''), (''time'', J_Str ''t''), (''stream'', J_Str ''stderr'')]) else None)
     (encode_log_line (\<lambda>s. if s = ''{}'' then Some (J_Obj [(''msg'', J_Str ''hi''), (''time'', J_Str ''t''), (''stream'', J_Str ''stderr'')]) else None)
       (\<lambda>_. ''{}'') ''stderr'' (''hi'' @ [CHR 0x0A]) ''t'') = (''stderr'', ''hi'')"
proof -
  let ?o = "[(''msg'', J_Str ''hi''), (''time'', J_Str ''t''), (''stream'', J_Str ''stderr'')]"
  let ?parse = "\<lambda>s. if s = ''{}'' then Some (J_Obj ?o) else None"
  have "?o = jo_insert ''stream'' (J_Str ''stderr'')
      (jo_insert ''time'' (J_Str ''t'') (log_payload ?parse (trim_newlines (''hi'' @ [CHR 0x0A]))))"
    by (simp add: log_payload_def trim_newlines_def)
  from log_line_round_trip [OF this, where print = "\<lambda>_. ''{}''" and body = "[]"]
  show ?thesis by (simp add: trim_newlines_def)
qed

end
