(* ===== verification/App.thy ===== *)
theory App
  imports Config_Validate Prepare Readiness Logfmt
begin

text \<open>
  The state the daemon's handlers share (\<open>src/src/app/context.rs\<close>), the manifests they write
  (\<open>src/src/persistence/manifest.rs\<close>, \<open>src/src/app/runtime.rs\<close>), and the transitions of one
  service (\<open>src/src/app/launch/readiness.rs\<close>, \<open>src/src/app/launch/watch.rs\<close>). A handler is a
  function from the state to its answer and the state afterwards. What it cannot control is the
  record \<open>world\<close>: the answers of systemd, which may depend on all commands sent so far, of the
  file system and of the port registry. A panic of an \<open>unwrap\<close> is the error \<open>panicked\<close>.
\<close>

section \<open>Commands to systemd\<close>

record exec_start =
  ex_path :: string
  ex_argv :: "string list"
  ex_ignore_failure :: bool

record unit_properties =
  up_description :: string
  up_working_directory :: string
  up_environment :: "string list"
  up_exec_start :: exec_start
  up_kill_mode :: string
  up_kill_signal :: int
  up_timeout_stop_usec :: nat
  up_send_sigkill :: bool
  up_restart :: string
  up_restart_usec :: nat
  up_start_limit_interval_usec :: nat
  up_start_limit_burst :: nat
  up_remain_after_exit :: bool

definition new_unit_properties ::
  "string \<Rightarrow> string \<Rightarrow> string list \<Rightarrow> exec_start \<Rightarrow> unit_properties" where
  "new_unit_properties description working_directory environment exec =
     \<lparr>up_description = description, up_working_directory = working_directory,
      up_environment = environment, up_exec_start = exec, up_kill_mode = ''control-group'',
      up_kill_signal = 2, up_timeout_stop_usec = 2000000, up_send_sigkill = True,
      up_restart = ''on-failure'', up_restart_usec = 250000,
      up_start_limit_interval_usec = 30000000, up_start_limit_burst = 20,
      up_remain_after_exit = False\<rparr>"

datatype unit_command =
    Unit_Start string unit_properties
  | Unit_Stop string
  | Unit_Restart string
  | Unit_Kill string int

section \<open>Manifests\<close>

record persisted_service =
  pe_port :: "u16 option"
  pe_url :: "string option"
  pe_listen_port :: "u16 option"
  pe_capture_api :: bool
  pe_capture_api_body_limit :: usize
  pe_capture_api_ignore :: "string list"
  pe_state :: service_state
  pe_watch_hash :: "string option"
  pe_last_failure :: "string option"
  pe_last_started_at :: "string option"
  pe_watch_paused :: bool

record persisted_run =
  pr_run_id :: string
  pr_project_dir :: string
  pr_config_dir :: string
  pr_manifest_path :: string
  pr_stack :: string
  pr_services :: "(string, persisted_service) bmap"
  pr_env :: "(string, string) bmap"
  pr_state :: run_lifecycle
  pr_created_at :: string
  pr_stopped_at :: "string option"

definition run_manifest_is_restorable :: "(string \<Rightarrow> bool) \<Rightarrow> persisted_run \<Rightarrow> bool" where
  "run_manifest_is_restorable exists manifest \<longleftrightarrow>
     pr_state manifest \<noteq> Run_Stopped \<and> pr_stopped_at manifest = None \<and> exists (pr_project_dir manifest)"

definition persisted_service_of :: "service_record \<Rightarrow> persisted_service" where
  "persisted_service_of service =
     \<lparr>pe_port = lp_port (sr_launch service), pe_url = lp_url (sr_launch service),
      pe_listen_port = lp_listen_port (sr_launch service),
      pe_capture_api = lp_capture_api (sr_launch service),
      pe_capture_api_body_limit = lp_capture_api_body_limit (sr_launch service),
      pe_capture_api_ignore = lp_capture_api_ignore (sr_launch service),
      pe_state = sr_state service, pe_watch_hash = Some (lp_watch_hash (sr_launch service)),
      pe_last_failure = rt_last_failure (sr_runtime service),
      pe_last_started_at = rt_last_started_at (sr_runtime service),
      pe_watch_paused = rt_watch_paused (sr_runtime service)\<rparr>"

definition persisted_run_of :: "run_record \<Rightarrow> string \<Rightarrow> persisted_run" where
  "persisted_run_of run path =
     \<lparr>pr_run_id = rr_run_id run, pr_project_dir = rr_project_dir run,
      pr_config_dir = rr_config_dir run, pr_manifest_path = path, pr_stack = rr_stack run,
      pr_services = bm_map (\<lambda>_. persisted_service_of) (rr_services run), pr_env = rr_base_env run,
      pr_state = rr_state run, pr_created_at = rr_created_at run, pr_stopped_at = rr_stopped_at run\<rparr>"

section \<open>The state and the world\<close>

text \<open>Background work a handler starts: the readiness task of a service and its health monitor.\<close>

record post_init_context =
  pi_tasks_map :: "(string, task_config) bmap"
  pi_post_init_tasks :: "string list"
  pi_project_dir :: string
  pi_run_id :: "string option"
  pi_base_env :: "(string, string) bmap"
  pi_service_log :: "(string \<times> string) option"

datatype background =
    Readiness_Task run_id service_name readiness_spec readiness_context "post_init_context option"
  | Health_Monitor run_id service_name

text \<open>The statistics behind a health handle.\<close>

record health_snapshot =
  hs_passes :: nat
  hs_failures :: nat
  hs_consecutive_failures :: nat
  hs_last_check_at :: "string option"
  hs_last_ok :: "bool option"

definition default_health :: health_snapshot where
  "default_health =
     \<lparr>hs_passes = 0, hs_failures = 0, hs_consecutive_failures = 0, hs_last_check_at = None, hs_last_ok = None\<rparr>"

record app_state =
  ap_runs :: run_store
  ap_globals :: global_store
  ap_ports :: reg_file
  ap_events :: "daemon_event list"
  ap_units :: "unit_command list"
  ap_stopped :: "handle_id list"
  ap_paused :: "(handle_id, bool) bmap"
  ap_health :: "(handle_id, health_snapshot) bmap"
  ap_next_handle :: handle_id
  ap_manifests :: "(string, persisted_run) bmap"
  ap_state_file :: "string list option"
  ap_background :: "background list"

record world =
  wo_now :: string
  wo_paths :: path_env
  wo_os :: port_os
  wo_unit :: "unit_command list \<Rightarrow> unit_command \<Rightarrow> unit result"
  wo_unit_status :: "unit_command list \<Rightarrow> nat \<Rightarrow> string \<Rightarrow> unit_status option result"
  wo_write :: "string \<Rightarrow> string option"
  wo_watcher :: "run_id \<Rightarrow> service_name \<Rightarrow> unit result"
  wo_proxy :: "run_id \<Rightarrow> service_name \<Rightarrow> u16 \<Rightarrow> u16 \<Rightarrow> unit result"
  wo_binary :: string
  wo_exists :: "string \<Rightarrow> bool"
  wo_remove_dir :: "string \<Rightarrow> bool"
  wo_config :: "string \<Rightarrow> config_file result"
  wo_read_log :: "string \<Rightarrow> string option"
  wo_json :: json_parser

section \<open>Elementary effects\<close>

definition emit_events :: "daemon_event list \<Rightarrow> app_state \<Rightarrow> app_state" where
  "emit_events events st = st\<lparr>ap_events := ap_events st @ events\<rparr>"

definition raise_flags :: "handle_id list \<Rightarrow> app_state \<Rightarrow> app_state" where
  "raise_flags handles st = st\<lparr>ap_stopped := ap_stopped st @ handles\<rparr>"

definition set_paused :: "handle_id option \<Rightarrow> bool \<Rightarrow> app_state \<Rightarrow> app_state" where
  "set_paused handle paused st =
     (case handle of
        None \<Rightarrow> st
      | Some h \<Rightarrow> st\<lparr>ap_paused := bm_insert h paused (ap_paused st)\<rparr>)"

definition new_handle :: "app_state \<Rightarrow> handle_id \<times> app_state" where
  "new_handle st = (ap_next_handle st, st\<lparr>ap_next_handle := Suc (ap_next_handle st)\<rparr>)"

definition unit_call :: "world \<Rightarrow> unit_command \<Rightarrow> app_state \<Rightarrow> unit result \<times> app_state" where
  "unit_call wo command st =
     (wo_unit wo (ap_units st) command, st\<lparr>ap_units := ap_units st @ [command]\<rparr>)"

text \<open>\<open>with_run_mut\<close> on the shared store, and a write to one service of a run.\<close>

definition with_run_state ::
  "run_id \<Rightarrow> (run_record \<Rightarrow> 'a \<times> run_record) \<Rightarrow> app_state \<Rightarrow> 'a result \<times> app_state" where
  "with_run_state run_id f st =
     (let (r, runs) = with_run_mut run_id f (ap_runs st) in (r, st\<lparr>ap_runs := runs\<rparr>))"

definition update_service ::
  "service_name \<Rightarrow> (service_record \<Rightarrow> 'a \<times> service_record) \<Rightarrow> 'a \<Rightarrow> run_record \<Rightarrow> 'a \<times> run_record" where
  "update_service service f absent run =
     (case map_of (rr_services run) service of
        None \<Rightarrow> (absent, run)
      | Some record \<Rightarrow>
          (let (out, record') = f record in
           (out, run\<lparr>rr_services := bm_update service (\<lambda>_. record') (rr_services run)\<rparr>)))"

definition panicked :: "string \<Rightarrow> string" where
  "panicked e = ''panic: '' @ e"

text \<open>\<open>remove_dir_all\<close>, whose failure is ignored: the manifests below the directory go.\<close>

definition remove_dir_all :: "world \<Rightarrow> string \<Rightarrow> app_state \<Rightarrow> app_state" where
  "remove_dir_all wo dir st =
     (if wo_remove_dir wo dir
      then st\<lparr>ap_manifests := bm_retain (\<lambda>path _. \<not> starts_with path (dir @ ''/'')) (ap_manifests st)\<rparr>
      else st)"

section \<open>Manifests and answers\<close>

definition write_daemon_state :: "world \<Rightarrow> app_state \<Rightarrow> unit result \<times> app_state" where
  "write_daemon_state wo st =
     (case daemon_state_path (wo_paths wo) of
        Inl e \<Rightarrow> (Inl e, st)
      | Inr path \<Rightarrow>
          (case wo_write wo path of
             Some e \<Rightarrow> (Inl e, st)
           | None \<Rightarrow> (Inr (), st\<lparr>ap_state_file := Some (bm_keys (ap_runs st))\<rparr>)))"

definition persist_manifest :: "world \<Rightarrow> run_id \<Rightarrow> app_state \<Rightarrow> unit result \<times> app_state" where
  "persist_manifest wo run_id st =
     (case get_run run_id (ap_runs st) of
        None \<Rightarrow> (Inl (run_not_found run_id), st)
      | Some run \<Rightarrow>
          (case run_manifest_path (wo_paths wo) (rr_run_id run) of
             Inl e \<Rightarrow> (Inl (panicked e), st)
           | Inr path \<Rightarrow>
               (case wo_write wo path of
                  Some e \<Rightarrow> (Inl e, st)
                | None \<Rightarrow>
                    write_daemon_state wo
                      (st\<lparr>ap_manifests := bm_insert path (persisted_run_of run path) (ap_manifests st)\<rparr>))))"

record service_response =
  sp_port :: "u16 option"
  sp_url :: "string option"
  sp_capture_api :: bool
  sp_capture_api_body_limit :: usize
  sp_capture_api_ignore :: "string list"
  sp_state :: service_state
  sp_last_failure :: "string option"

record run_response =
  rp_run_id :: string
  rp_project_dir :: string
  rp_stack :: string
  rp_manifest_path :: string
  rp_services :: "(string, service_response) bmap"
  rp_env :: "(string, string) bmap"
  rp_state :: run_lifecycle
  rp_created_at :: string
  rp_stopped_at :: "string option"

definition service_response_of :: "service_record \<Rightarrow> service_response" where
  "service_response_of service =
     \<lparr>sp_port = lp_port (sr_launch service), sp_url = lp_url (sr_launch service),
      sp_capture_api = lp_capture_api (sr_launch service),
      sp_capture_api_body_limit = lp_capture_api_body_limit (sr_launch service),
      sp_capture_api_ignore = lp_capture_api_ignore (sr_launch service),
      sp_state = sr_state service, sp_last_failure = rt_last_failure (sr_runtime service)\<rparr>"

definition run_response_from_record :: "run_record \<Rightarrow> string \<Rightarrow> run_response" where
  "run_response_from_record run manifest_path =
     \<lparr>rp_run_id = rr_run_id run, rp_project_dir = rr_project_dir run, rp_stack = rr_stack run,
      rp_manifest_path = manifest_path,
      rp_services = bm_map (\<lambda>_. service_response_of) (rr_services run), rp_env = rr_base_env run,
      rp_state = rr_state run, rp_created_at = rr_created_at run, rp_stopped_at = rr_stopped_at run\<rparr>"

definition run_response_of :: "world \<Rightarrow> run_id \<Rightarrow> app_state \<Rightarrow> run_response result" where
  "run_response_of wo run_id st =
     (case get_run run_id (ap_runs st) of
        None \<Rightarrow> Inl (run_not_found run_id)
      | Some run \<Rightarrow>
          (case run_manifest_path (wo_paths wo) (rr_run_id run) of
             Inl e \<Rightarrow> Inl (panicked e)
           | Inr path \<Rightarrow> Inr (run_response_from_record run path)))"

section \<open>Ports of a service\<close>

definition release_service_port ::
  "world \<Rightarrow> run_id \<Rightarrow> service_name \<Rightarrow> u16 option \<Rightarrow> app_state \<Rightarrow> unit result \<times> app_state" where
  "release_service_port wo run_id service port st =
     (case port of
        None \<Rightarrow> (Inr (), st)
      | Some p \<Rightarrow>
          (let (r, ports) = release_port (wo_os wo) p (port_owner run_id service) (ap_ports st) in
           (r, st\<lparr>ap_ports := ports\<rparr>)))"

definition release_service_capture_backend_port ::
  "world \<Rightarrow> run_id \<Rightarrow> service_name \<Rightarrow> u16 option \<Rightarrow> u16 option \<Rightarrow> app_state \<Rightarrow> unit result \<times> app_state" where
  "release_service_capture_backend_port wo run_id service port public_port st =
     (case port of
        None \<Rightarrow> (Inr (), st)
      | Some p \<Rightarrow>
          if Some p = public_port then (Inr (), st)
          else (let (r, ports) = release_port (wo_os wo) p (capture_backend_port_owner run_id service) (ap_ports st) in
            (r, st\<lparr>ap_ports := ports\<rparr>)))"

section \<open>Facts\<close>

text \<open>What the elementary effects leave alone.\<close>

named_theorems effects \<open>fields an operation does not change\<close>

lemma emit_events_effects [simp, effects]:
  "ap_runs (emit_events events st) = ap_runs st" "ap_units (emit_events events st) = ap_units st"
  "ap_ports (emit_events events st) = ap_ports st" "ap_stopped (emit_events events st) = ap_stopped st"
  "ap_next_handle (emit_events events st) = ap_next_handle st"
  "ap_background (emit_events events st) = ap_background st"
  "ap_manifests (emit_events events st) = ap_manifests st"
  "ap_events (emit_events events st) = ap_events st @ events"
  by (simp_all add: emit_events_def)

lemma raise_flags_effects [simp, effects]:
  "ap_runs (raise_flags handles st) = ap_runs st" "ap_units (raise_flags handles st) = ap_units st"
  "ap_ports (raise_flags handles st) = ap_ports st"
  "ap_stopped (raise_flags handles st) = ap_stopped st @ handles"
  "ap_next_handle (raise_flags handles st) = ap_next_handle st"
  "ap_background (raise_flags handles st) = ap_background st"
  "ap_manifests (raise_flags handles st) = ap_manifests st"
  "ap_events (raise_flags handles st) = ap_events st"
  by (simp_all add: raise_flags_def)

lemma set_paused_effects [simp, effects]:
  "ap_runs (set_paused handle paused st) = ap_runs st" "ap_units (set_paused handle paused st) = ap_units st"
  "ap_ports (set_paused handle paused st) = ap_ports st" "ap_stopped (set_paused handle paused st) = ap_stopped st"
  "ap_next_handle (set_paused handle paused st) = ap_next_handle st"
  "ap_background (set_paused handle paused st) = ap_background st"
  "ap_events (set_paused handle paused st) = ap_events st"
  by (simp_all add: set_paused_def split: option.split)

lemma with_run_state_eq:
  "with_run_state run_id f st =
     (case map_of (ap_runs st) run_id of
        None \<Rightarrow> (Inl (run_not_found run_id), st)
      | Some run \<Rightarrow> (Inr (fst (f run)), st\<lparr>ap_runs := bm_update run_id (\<lambda>_. snd (f run)) (ap_runs st)\<rparr>))"
  by (simp add: with_run_state_def with_run_mut_def split: option.split prod.split)

lemma with_run_state_effects [effects]:
  "with_run_state run_id f st = (r, st') \<Longrightarrow>
   ap_units st' = ap_units st \<and> ap_ports st' = ap_ports st \<and> ap_stopped st' = ap_stopped st \<and>
   ap_next_handle st' = ap_next_handle st \<and> ap_background st' = ap_background st \<and>
   ap_events st' = ap_events st \<and> bm_keys (ap_runs st') = bm_keys (ap_runs st)"
  by (auto simp: with_run_state_eq split: option.splits)

lemma write_daemon_state_effects [simp, effects]:
  "ap_runs (snd (write_daemon_state wo st)) = ap_runs st" "ap_units (snd (write_daemon_state wo st)) = ap_units st"
  "ap_ports (snd (write_daemon_state wo st)) = ap_ports st"
  "ap_stopped (snd (write_daemon_state wo st)) = ap_stopped st"
  "ap_next_handle (snd (write_daemon_state wo st)) = ap_next_handle st"
  "ap_background (snd (write_daemon_state wo st)) = ap_background st"
  "ap_manifests (snd (write_daemon_state wo st)) = ap_manifests st"
  "ap_events (snd (write_daemon_state wo st)) = ap_events st"
  by (simp_all add: write_daemon_state_def split: sum.split option.split)

lemma persist_manifest_effects [simp, effects]:
  "ap_runs (snd (persist_manifest wo run_id st)) = ap_runs st"
  "ap_units (snd (persist_manifest wo run_id st)) = ap_units st"
  "ap_ports (snd (persist_manifest wo run_id st)) = ap_ports st"
  "ap_stopped (snd (persist_manifest wo run_id st)) = ap_stopped st"
  "ap_next_handle (snd (persist_manifest wo run_id st)) = ap_next_handle st"
  "ap_background (snd (persist_manifest wo run_id st)) = ap_background st"
  "ap_events (snd (persist_manifest wo run_id st)) = ap_events st"
  by (simp_all add: persist_manifest_def split: sum.split option.split)

lemma release_service_port_effects [simp, effects]:
  "ap_runs (snd (release_service_port wo r s p st)) = ap_runs st"
  "ap_units (snd (release_service_port wo r s p st)) = ap_units st"
  "ap_runs (snd (release_service_capture_backend_port wo r s p q st)) = ap_runs st"
  "ap_units (snd (release_service_capture_backend_port wo r s p q st)) = ap_units st"
  by (simp_all add: release_service_port_def release_service_capture_backend_port_def Let_def
      split: option.split prod.split)

lemma unit_call_effects [simp, effects]:
  "ap_runs (snd (unit_call wo command st)) = ap_runs st"
  "ap_units (snd (unit_call wo command st)) = ap_units st @ [command]"
  "ap_ports (snd (unit_call wo command st)) = ap_ports st"
  "ap_stopped (snd (unit_call wo command st)) = ap_stopped st"
  "ap_next_handle (snd (unit_call wo command st)) = ap_next_handle st"
  "ap_events (snd (unit_call wo command st)) = ap_events st"
  by (simp_all add: unit_call_def)

lemma update_service_eq:
  "update_service service f absent run =
     (case map_of (rr_services run) service of
        None \<Rightarrow> (absent, run)
      | Some record \<Rightarrow>
          (fst (f record), run\<lparr>rr_services := bm_update service (\<lambda>_. snd (f record)) (rr_services run)\<rparr>))"
  by (simp add: update_service_def split: option.split prod.split)

end
