(* ===== verification/Launch.thy ===== *)
theory Launch
  imports App
begin

text \<open>
  Launching one service: \<open>src/src/app/launch/start.rs\<close>, the transitions of
  \<open>src/src/app/launch/readiness.rs\<close>, the watcher and the capture proxy of
  \<open>src/src/app/launch/watch.rs\<close>, and \<open>src/src/app/commands/restart.rs\<close>. The answer of
  \<open>wait_for_prepared_service\<close> is an argument \<open>waited\<close>: it is the waiting of theory
  \<open>Readiness\<close> followed by the post-init tasks.
\<close>

section \<open>Starting the unit\<close>

fun scope_identifier :: "instance_scope \<Rightarrow> string" where
  "scope_identifier (Scope_Run run_id stack) = run_id"
| "scope_identifier (Scope_Global key project_dir name) = key"

fun scope_label :: "instance_scope \<Rightarrow> string" where
  "scope_label (Scope_Run run_id stack) = run_id"
| "scope_label (Scope_Global key project_dir name) = ''global:'' @ key"

text \<open>The shim that runs the service, as systemd is told to run it.\<close>

definition shim_exec :: "world \<Rightarrow> instance_scope \<Rightarrow> prepared_service \<Rightarrow> exec_start" where
  "shim_exec wo scope p =
     \<lparr>ex_path = wo_binary wo,
      ex_argv = [wo_binary wo, ''__shim'', ''--run-id'', scope_identifier scope, ''--service'',
        ps_name p, ''--cmd'', ps_cmd p, ''--cwd'', ps_cwd p, ''--log-file'', ps_log_path p],
      ex_ignore_failure = False\<rparr>"

definition shim_properties :: "world \<Rightarrow> instance_scope \<Rightarrow> prepared_service \<Rightarrow> unit_properties" where
  "shim_properties wo scope p =
     (new_unit_properties (''devstack '' @ scope_label scope @ '' '' @ ps_name p) (ps_cwd p)
        (map (\<lambda>(key, v). key @ ''='' @ v) (ps_env p)) (shim_exec wo scope p))
     \<lparr>up_restart := ''no'', up_remain_after_exit := (rs_kind (ps_readiness p) = RK_Exit)\<rparr>"

text \<open>
  A unit that is still there is stopped first. Waiting for it to go (at most 50 polls of its
  status) does not change the state.
\<close>

definition start_prepared_service ::
  "world \<Rightarrow> instance_scope \<Rightarrow> prepared_service \<Rightarrow> bool \<Rightarrow> app_state \<Rightarrow> unit result \<times> app_state" where
  "start_prepared_service wo scope p restart_existing st =
     (let st1 = (if restart_existing then snd (unit_call wo (Unit_Stop (ps_unit_name p)) st) else st);
          (r, st2) = unit_call wo (Unit_Start (ps_unit_name p) (shim_properties wo scope p)) st1 in
      (map_err (\<lambda>_. ''start unit '' @ ps_unit_name p) r, st2))"

section \<open>Ready and failed\<close>

definition event_list :: "daemon_event option \<Rightarrow> daemon_event list" where
  "event_list e = (case e of None \<Rightarrow> [] | Some ev \<Rightarrow> [ev])"

definition set_last_failure :: "string option \<Rightarrow> service_record \<Rightarrow> service_record" where
  "set_last_failure reason record =
     record\<lparr>sr_runtime := (sr_runtime record)\<lparr>rt_last_failure := reason\<rparr>\<rparr>"

text \<open>A service closure followed by the recomputation of the state of its run.\<close>

definition then_recompute ::
  "(run_record \<Rightarrow> daemon_event list \<times> run_record) \<Rightarrow> run_record \<Rightarrow> daemon_event list \<times> run_record" where
  "then_recompute f run =
     (let (events, run1) = f run; (ev, run2) = recompute_run_state run1 in (events @ event_list ev, run2))"

definition ready_service ::
  "string \<Rightarrow> run_id \<Rightarrow> service_name \<Rightarrow> handle_id \<Rightarrow> service_record \<Rightarrow> (bool \<times> daemon_event list) \<times> service_record" where
  "ready_service now run_id service handle record =
     (let (ev, record1) = set_service_state now run_id service Sv_Ready record;
          record2 = set_last_failure None record1;
          start = (h_health (sr_handles record2) = None \<and> rs_kind (ss_readiness (sr_spec record2)) \<noteq> RK_Exit);
          record3 = (if start then record2\<lparr>sr_handles := (sr_handles record2)\<lparr>h_health := Some handle\<rparr>\<rparr>
                     else record2) in
      ((start, event_list ev), record3))"

definition mark_service_ready :: "world \<Rightarrow> run_id \<Rightarrow> service_name \<Rightarrow> app_state \<Rightarrow> unit result \<times> app_state" where
  "mark_service_ready wo run_id service st =
     (case with_run_state run_id (\<lambda>run.
         let ((start, events), run1) =
               update_service service (ready_service (wo_now wo) run_id service (ap_next_handle st)) (False, []) run;
             (ev, run2) = recompute_run_state run1 in
         ((start, events @ event_list ev), run2)) st of
        (Inl e, st1) \<Rightarrow> (Inl e, st1)
      | (Inr (start, events), st1) \<Rightarrow>
          (let st2 = emit_events events st1 in
           (Inr (),
            if start then
              st2\<lparr>ap_next_handle := Suc (ap_next_handle st2),
                  ap_health := bm_insert (ap_next_handle st2) default_health (ap_health st2),
                  ap_background := ap_background st2 @ [Health_Monitor run_id service]\<rparr>
            else st2)))"

definition fail_service :: "string \<Rightarrow> run_id \<Rightarrow> service_name \<Rightarrow> string \<Rightarrow> service_record \<Rightarrow> daemon_event list \<times> service_record" where
  "fail_service now run_id service reason record =
     (let (ev, record1) = set_service_state now run_id service Sv_Failed record in
      (event_list ev, set_last_failure (Some reason) record1))"

definition mark_service_failed ::
  "world \<Rightarrow> run_id \<Rightarrow> service_name \<Rightarrow> string \<Rightarrow> app_state \<Rightarrow> unit result \<times> app_state" where
  "mark_service_failed wo run_id service reason st =
     (case with_run_state run_id
         (then_recompute (update_service service (fail_service (wo_now wo) run_id service reason) [])) st of
        (Inl e, st1) \<Rightarrow> (Inl e, st1)
      | (Inr events, st1) \<Rightarrow> (Inr (), emit_events events st1))"

section \<open>Why a service did not become ready\<close>

definition format_terminal_unit_status :: "unit_status \<Rightarrow> string option" where
  "format_terminal_unit_status status =
     (let failed = (us_active_state status = ''failed''
            \<or> (us_active_state status = ''inactive''
               \<and> (case us_result status of Some result \<Rightarrow> result \<noteq> ''success'' | None \<Rightarrow> False))) in
      if \<not> failed then None
      else Some (''exited before readiness (active_state='' @ us_active_state status @ '', sub_state=''
        @ us_sub_state status @ '', result='' @ unwrap_or (us_result status) ''unknown'' @ '')''))"

definition tail_log_messages :: "world \<Rightarrow> string \<Rightarrow> nat \<Rightarrow> string list" where
  "tail_log_messages wo log_path limit =
     (case wo_read_log wo log_path of
        None \<Rightarrow> []
      | Some content \<Rightarrow>
          List.map_filter (\<lambda>line.
            let trimmed = trim (snd (extract_log_content (wo_json wo) line)) in
            if trimmed = [] then None else Some trimmed)
          (rev (take limit (rev (lines_of content)))))"

definition newline :: string where
  "newline = [CHR 0x0A]"

definition enrich_readiness_error ::
  "world \<Rightarrow> service_name \<Rightarrow> string \<Rightarrow> string \<Rightarrow> string \<Rightarrow> app_state \<Rightarrow> string" where
  "enrich_readiness_error wo service unit_name log_path err st =
     (let message =
            (case wo_unit_status wo (ap_units st) 0 unit_name of
               Inr (Some status) \<Rightarrow>
                 (case format_terminal_unit_status status of
                    Some reason \<Rightarrow> ''service '' @ reason @ '' for '' @ [CHR 0x27] @ service @ [CHR 0x27]
                  | None \<Rightarrow> err)
             | _ \<Rightarrow> err);
          recent_logs = tail_log_messages wo log_path 10 in
      if recent_logs = [] then message
      else message @ newline @ ''last log lines:'' @ newline @ join_with newline recent_logs)"

section \<open>Handling readiness\<close>

definition readiness_context_of :: "prepared_service \<Rightarrow> readiness_context" where
  "readiness_context_of p =
     \<lparr>rx_port = ps_listen_port p, rx_scheme = ps_scheme p, rx_log_path = ps_log_path p,
      rx_cwd = ps_cwd p, rx_env = ps_env p, rx_unit_name = Some (ps_unit_name p), rx_systemd = True\<rparr>"

definition wait_for_prepared_service ::
  "nat \<Rightarrow> probes \<Rightarrow> nat \<Rightarrow> (post_init_context \<Rightarrow> unit result) \<Rightarrow> service_name \<Rightarrow> prepared_service \<Rightarrow>
     post_init_context option \<Rightarrow> unit result option" where
  "wait_for_prepared_service fuel pb start run_post_init service p post_init =
     (case wait_for_ready fuel pb start (ps_readiness p) (readiness_context_of p) of
        None \<Rightarrow> None
      | Some (Inl e) \<Rightarrow> Some (Inl e)
      | Some (Inr _) \<Rightarrow>
          (case post_init of
             None \<Rightarrow> Some (Inr ())
           | Some pi \<Rightarrow>
               Some (map_err (\<lambda>err. service @ '' post_init task failed: '' @ err) (run_post_init pi))))"

definition handle_readiness ::
  "world \<Rightarrow> unit result \<Rightarrow> run_id \<Rightarrow> prepared_service \<Rightarrow> bool \<Rightarrow> post_init_context option \<Rightarrow> app_state \<Rightarrow>
     unit app_result \<times> app_state" where
  "handle_readiness wo waited run_id p no_wait post_init st =
     (if no_wait then
        (Inr (), st\<lparr>ap_background := ap_background st @
           [Readiness_Task run_id (ps_name p) (ps_readiness p) (readiness_context_of p) post_init]\<rparr>)
      else
        (case waited of
           Inr _ \<Rightarrow>
             (let (r, st1) = mark_service_ready wo run_id (ps_name p) st in (internal_error r, st1))
         | Inl err \<Rightarrow>
             (let detailed = enrich_readiness_error wo (ps_name p) (ps_unit_name p) (ps_log_path p) err st in
              case mark_service_failed wo run_id (ps_name p) detailed st of
                (Inl e, st1) \<Rightarrow> (Inl (Internal e), st1)
              | (Inr _, st1) \<Rightarrow> (Inl (Internal detailed), st1))))"

text \<open>What the background task does once its wait has answered.\<close>

definition readiness_task_done ::
  "world \<Rightarrow> unit result \<Rightarrow> run_id \<Rightarrow> service_name \<Rightarrow> string \<Rightarrow> string \<Rightarrow> app_state \<Rightarrow> app_state" where
  "readiness_task_done wo waited run_id service unit_name log_path st =
     (let st1 = (case waited of
             Inr _ \<Rightarrow> snd (mark_service_ready wo run_id service st)
           | Inl err \<Rightarrow>
               snd (mark_service_failed wo run_id service
                 (enrich_readiness_error wo service unit_name log_path err st) st)) in
      snd (persist_manifest wo run_id st1))"

definition build_post_init_context ::
  "service_config \<Rightarrow> (string, task_config) bmap \<Rightarrow> string \<Rightarrow> string option \<Rightarrow> (string, string) bmap \<Rightarrow>
     (string \<times> string) option \<Rightarrow> post_init_context option" where
  "build_post_init_context service tasks_map project_dir run_id base_env service_log =
     (case sc_post_init service of
        None \<Rightarrow> None
      | Some post_init \<Rightarrow>
          if post_init = [] then None
          else Some \<lparr>pi_tasks_map = tasks_map, pi_post_init_tasks = post_init,
                     pi_project_dir = project_dir, pi_run_id = run_id, pi_base_env = base_env,
                     pi_service_log = service_log\<rparr>)"

definition load_post_init_context_for_run_service ::
  "world \<Rightarrow> run_id \<Rightarrow> string \<Rightarrow> string \<Rightarrow> service_name \<Rightarrow> (string, string) bmap \<Rightarrow>
     (string \<times> string) option \<Rightarrow> post_init_context option result" where
  "load_post_init_context_for_run_service wo run_id stack project_dir service service_env service_log =
     rbind (run_snapshot_path (wo_paths wo) run_id) (\<lambda>snapshot_path.
     if \<not> wo_exists wo snapshot_path then Inr None
     else rbind (wo_config wo snapshot_path) (\<lambda>config.
       let tasks_map = unwrap_or (cf_tasks config) [] in
       rbind (if stack = ''globals'' then Inr (map_of (globals_map config) service)
              else rbind (stack_plan_of config stack) (\<lambda>plan. Inr (map_of (sp_services plan) service)))
         (\<lambda>service_config.
       Inr (Option.bind service_config (\<lambda>svc.
         build_post_init_context svc
           (case sc_tasks svc of Some svc_tasks \<Rightarrow> bm_extend tasks_map svc_tasks | None \<Rightarrow> tasks_map)
           project_dir (Some run_id) service_env service_log)))))"

section \<open>The watcher of a service\<close>

text \<open>
  The first closure decides whether a watcher is wanted: its pause flag when one is to be
  started, and the handles it stops.
\<close>

datatype watch_decision =
    Watch_Stop "handle_id list"
  | Watch_Keep handle_id bool
  | Watch_Start bool
  | Watch_Absent

definition watch_wanted :: "service_record \<Rightarrow> bool" where
  "watch_wanted record \<longleftrightarrow>
     ss_auto_restart (sr_spec record) \<and> rt_last_started_at (sr_runtime record) \<noteq> None"

definition decide_watch :: "service_record \<Rightarrow> watch_decision \<times> service_record" where
  "decide_watch record =
     (if \<not> watch_wanted record then
        (let (record', stopped) = stop_watch record in (Watch_Stop stopped, record'))
      else (case h_watch (sr_handles record) of
              Some h \<Rightarrow> (Watch_Keep h (rt_watch_paused (sr_runtime record)), record)
            | None \<Rightarrow> (Watch_Start (rt_watch_paused (sr_runtime record)), record)))"

text \<open>The second closure, which may find that the service has changed in the meantime.\<close>

definition install_watch :: "handle_id \<Rightarrow> service_record \<Rightarrow> bool option \<times> service_record" where
  "install_watch handle record =
     (if watch_wanted record \<and> h_watch (sr_handles record) = None then
        (Some (rt_watch_paused (sr_runtime record)),
         record\<lparr>sr_handles := (sr_handles record)\<lparr>h_watch := Some handle\<rparr>\<rparr>)
      else (None, record))"

definition finish_watch :: "run_id \<Rightarrow> service_name \<Rightarrow> handle_id \<Rightarrow> app_state \<Rightarrow> app_state" where
  "finish_watch run_id service handle st =
     (case with_run_state run_id (update_service service (install_watch handle) None) st of
        (Inr (Some paused), st1) \<Rightarrow> set_paused (Some handle) paused st1
      | (_, st1) \<Rightarrow> raise_flags [handle] st1)"

definition sync_service_auto_restart_watcher ::
  "world \<Rightarrow> run_id \<Rightarrow> service_name \<Rightarrow> app_state \<Rightarrow> unit result \<times> app_state" where
  "sync_service_auto_restart_watcher wo run_id service st =
     (case with_run_state run_id (update_service service decide_watch Watch_Absent) st of
        (Inr (Watch_Stop stopped), st1) \<Rightarrow> (Inr (), raise_flags stopped st1)
      | (Inr (Watch_Keep h paused), st1) \<Rightarrow> (Inr (), set_paused (Some h) paused st1)
      | (Inr (Watch_Start paused), st1) \<Rightarrow>
          (case wo_watcher wo run_id service of
             Inl e \<Rightarrow> (Inl e, st1)
           | Inr _ \<Rightarrow>
               (let (handle, st2) = new_handle st1 in
                (Inr (), finish_watch run_id service handle (set_paused (Some handle) paused st2))))
      | (_, st1) \<Rightarrow> (Inr (), st1))"

section \<open>The capture proxy of a service\<close>

datatype capture_decision =
    Capture_Stop "handle_id list"
  | Capture_Keep
  | Capture_Start u16 u16

definition decide_capture :: "service_record \<Rightarrow> capture_decision \<times> service_record" where
  "decide_capture record =
     (if \<not> lp_capture_api (sr_launch record) \<or> sr_state record = Sv_Stopped
         \<or> rt_last_started_at (sr_runtime record) = None then
        (let (record', stopped) = stop_api_capture record in (Capture_Stop stopped, record'))
      else if h_api_capture (sr_handles record) \<noteq> None then (Capture_Keep, record)
      else (case (lp_port (sr_launch record), lp_listen_port (sr_launch record)) of
              (Some public_port, Some target_port) \<Rightarrow> (Capture_Start public_port target_port, record)
            | _ \<Rightarrow> (Capture_Keep, record)))"

definition install_capture :: "handle_id \<Rightarrow> service_record \<Rightarrow> bool \<times> service_record" where
  "install_capture handle record =
     (if lp_capture_api (sr_launch record) \<and> h_api_capture (sr_handles record) = None then
        (True, record\<lparr>sr_handles := (sr_handles record)\<lparr>h_api_capture := Some handle\<rparr>\<rparr>)
      else (False, record))"

definition finish_capture :: "run_id \<Rightarrow> service_name \<Rightarrow> handle_id \<Rightarrow> app_state \<Rightarrow> unit result \<times> app_state" where
  "finish_capture run_id service handle st =
     (case with_run_state run_id (update_service service (install_capture handle) False) st of
        (Inl e, st1) \<Rightarrow> (Inl e, st1)
      | (Inr True, st1) \<Rightarrow> (Inr (), st1)
      | (Inr False, st1) \<Rightarrow> (Inr (), raise_flags [handle] st1))"

definition sync_service_api_capture_proxy ::
  "world \<Rightarrow> run_id \<Rightarrow> service_name \<Rightarrow> app_state \<Rightarrow> unit result \<times> app_state" where
  "sync_service_api_capture_proxy wo run_id service st =
     (case with_run_state run_id (update_service service decide_capture Capture_Keep) st of
        (Inr (Capture_Stop stopped), st1) \<Rightarrow> (Inr (), raise_flags stopped st1)
      | (Inr (Capture_Start public_port target_port), st1) \<Rightarrow>
          (case wo_proxy wo run_id service public_port target_port of
             Inl e \<Rightarrow> (Inl e, st1)
           | Inr _ \<Rightarrow> (let (handle, st2) = new_handle st1 in finish_capture run_id service handle st2))
      | (_, st1) \<Rightarrow> (Inr (), st1))"

section \<open>Restarting a service\<close>

record restart_snapshot =
  rs_unit_name :: string
  rs_readiness :: readiness_spec
  rs_context :: readiness_context
  rs_stack :: string
  rs_project_dir :: string

definition restart_not_found :: "service_name \<Rightarrow> app_error" where
  "restart_not_found service = Not_Found (''service '' @ service @ '' not found'')"

definition snapshot_of_record :: "run_record \<Rightarrow> service_record \<Rightarrow> restart_snapshot" where
  "snapshot_of_record run record =
     \<lparr>rs_unit_name = lp_unit_name (sr_launch record), rs_readiness = ss_readiness (sr_spec record),
      rs_context =
        \<lparr>rx_port = lp_listen_port (sr_launch record), rx_scheme = lp_scheme (sr_launch record),
         rx_log_path = lp_log_path (sr_launch record), rx_cwd = lp_cwd (sr_launch record),
         rx_env = lp_env (sr_launch record), rx_unit_name = Some (lp_unit_name (sr_launch record)),
         rx_systemd = True\<rparr>,
      rs_stack = rr_stack run, rs_project_dir = rr_project_dir run\<rparr>"

definition begin_restart ::
  "string \<Rightarrow> run_id \<Rightarrow> service_name \<Rightarrow> run_record \<Rightarrow>
     (restart_snapshot \<times> daemon_event list) app_result \<times> run_record" where
  "begin_restart now run_id service run =
     (case map_of (rr_services run) service of
        None \<Rightarrow> (Inl (restart_not_found service), run)
      | Some record \<Rightarrow>
          (let (ev, record1) = set_service_state now run_id service Sv_Starting record;
               record2 = set_last_failure None record1;
               run1 = run\<lparr>rr_services := bm_update service (\<lambda>_. record2) (rr_services run)\<rparr>;
               (ev2, run2) = recompute_run_state run1 in
           (Inr (snapshot_of_record run record2, event_list ev @ event_list ev2), run2)))"

definition set_started_at :: "string \<Rightarrow> service_record \<Rightarrow> unit \<times> service_record" where
  "set_started_at now record =
     ((), record\<lparr>sr_runtime := (sr_runtime record)\<lparr>rt_last_started_at := Some now\<rparr>\<rparr>)"

definition finish_with_response ::
  "world \<Rightarrow> run_id \<Rightarrow> app_state \<Rightarrow> run_response app_result \<times> app_state" where
  "finish_with_response wo run_id st =
     (case persist_manifest wo run_id st of
        (Inl e, st1) \<Rightarrow> (Inl (Internal e), st1)
      | (Inr _, st1) \<Rightarrow> (internal_error (run_response_of wo run_id st1), st1))"

text \<open>
  \<open>waited\<close> is the answer of \<open>wait_for_ready\<close>, \<open>run_post_init\<close> the answer of the post-init
  tasks of the context they are given.
\<close>

definition restart_wait ::
  "world \<Rightarrow> unit result \<Rightarrow> (post_init_context \<Rightarrow> unit result) \<Rightarrow> run_id \<Rightarrow> service_name \<Rightarrow>
     post_init_context option \<Rightarrow> app_state \<Rightarrow> run_response app_result \<times> app_state" where
  "restart_wait wo waited run_post_init run_id service post_init st =
     (case (case waited of
              Inl err \<Rightarrow> Some err
            | Inr _ \<Rightarrow>
                (case post_init of
                   None \<Rightarrow> None
                 | Some pi \<Rightarrow>
                     (case run_post_init pi of
                        Inr _ \<Rightarrow> None
                      | Inl err \<Rightarrow> Some (''post_init task failed: '' @ err)))) of
        Some reason \<Rightarrow>
          (case mark_service_failed wo run_id service reason st of
             (Inl e, st1) \<Rightarrow> (Inl (Internal e), st1)
           | (Inr _, st1) \<Rightarrow> (Inl (Internal reason), snd (persist_manifest wo run_id st1)))
      | None \<Rightarrow>
          (case mark_service_ready wo run_id service st of
             (Inl e, st1) \<Rightarrow> (Inl (Internal e), st1)
           | (Inr _, st1) \<Rightarrow> finish_with_response wo run_id st1))"

definition restart_service_inner ::
  "world \<Rightarrow> unit result \<Rightarrow> (post_init_context \<Rightarrow> unit result) \<Rightarrow> run_id \<Rightarrow> service_name \<Rightarrow> bool \<Rightarrow>
     app_state \<Rightarrow> run_response app_result \<times> app_state" where
  "restart_service_inner wo waited run_post_init run_id service no_wait st =
     (case with_run_state run_id (begin_restart (wo_now wo) run_id service) st of
        (Inl _, st1) \<Rightarrow> (Inl (Not_Found (run_not_found run_id)), st1)
      | (Inr (Inl e), st1) \<Rightarrow> (Inl e, st1)
      | (Inr (Inr (snap, events)), st1) \<Rightarrow>
          (let st2 = emit_events events st1;
               ctx = rs_context snap in
           case load_post_init_context_for_run_service wo run_id (rs_stack snap) (rs_project_dir snap)
                  service (rx_env ctx) (Some (rx_log_path ctx, ''post_init'')) of
             Inl e \<Rightarrow> (Inl (Internal e), st2)
           | Inr post_init \<Rightarrow>
               (case unit_call wo (Unit_Restart (rs_unit_name snap)) st2 of
                  (Inl e, st3) \<Rightarrow> (Inl (Internal e), st3)
                | (Inr _, st3) \<Rightarrow>
                    (let st4 = snd (with_run_state run_id
                                      (update_service service (set_started_at (wo_now wo)) ()) st3) in
                     if no_wait then
                       finish_with_response wo run_id
                         (st4\<lparr>ap_background := ap_background st4 @
                           [Readiness_Task run_id service (rs_readiness snap) ctx post_init]\<rparr>)
                     else restart_wait wo waited run_post_init run_id service post_init st4))))"

definition restart_service_no_wait ::
  "world \<Rightarrow> run_id \<Rightarrow> service_name \<Rightarrow> app_state \<Rightarrow> run_response app_result \<times> app_state" where
  "restart_service_no_wait wo run_id service st =
     restart_service_inner wo (Inr ()) (\<lambda>_. Inr ()) run_id service True st"

section \<open>The health monitor\<close>

text \<open>The variables of the monitor's loop.\<close>

record health_monitor =
  hm_handle :: handle_id
  hm_readiness :: readiness_spec
  hm_context :: readiness_context
  hm_restart_count :: nat
  hm_consecutive_failures :: nat

definition start_health_monitor :: "run_id \<Rightarrow> service_name \<Rightarrow> app_state \<Rightarrow> health_monitor option" where
  "start_health_monitor run_id service st =
     Option.bind (get_run run_id (ap_runs st)) (\<lambda>run.
     Option.bind (map_of (rr_services run) service) (\<lambda>record.
     Option.bind (h_health (sr_handles record)) (\<lambda>handle.
     Some \<lparr>hm_handle = handle, hm_readiness = ss_readiness (sr_spec record),
           hm_context = rs_context (snapshot_of_record run record),
           hm_restart_count = 0, hm_consecutive_failures = 0\<rparr>)))"

definition count_check :: "string \<Rightarrow> bool \<Rightarrow> nat \<Rightarrow> health_snapshot \<Rightarrow> health_snapshot" where
  "count_check checked_at ok consecutive snapshot =
     (let s = snapshot\<lparr>hs_last_check_at := Some checked_at, hs_last_ok := Some ok,
                       hs_consecutive_failures := consecutive\<rparr> in
      if ok then s\<lparr>hs_passes := hs_passes s + 1\<rparr> else s\<lparr>hs_failures := hs_failures s + 1\<rparr>)"

definition health_failing :: string where
  "health_failing = ''health checks failing''"

definition recover_service ::
  "string \<Rightarrow> run_id \<Rightarrow> service_name \<Rightarrow> service_record \<Rightarrow> daemon_event list \<times> service_record" where
  "recover_service now run_id service record =
     (if sr_state record = Sv_Degraded \<and> rt_last_failure (sr_runtime record) = Some health_failing then
        (let (ev, record1) = set_service_state now run_id service Sv_Ready record in
         (event_list ev, set_last_failure None record1))
      else ([], record))"

definition degrade_service ::
  "string \<Rightarrow> run_id \<Rightarrow> service_name \<Rightarrow> service_record \<Rightarrow> daemon_event list \<times> service_record" where
  "degrade_service now run_id service record =
     (if sr_state record = Sv_Ready then
        (let (ev, record1) = set_service_state now run_id service Sv_Degraded record in
         (event_list ev, set_last_failure (Some health_failing) record1))
      else ([], record))"

text \<open>\<open>with_run_mut(...).unwrap_or_default()\<close>\<close>

definition run_events ::
  "run_id \<Rightarrow> (run_record \<Rightarrow> daemon_event list \<times> run_record) \<Rightarrow> app_state \<Rightarrow> daemon_event list \<times> app_state" where
  "run_events run_id f st =
     (case with_run_state run_id f st of (Inl _, st1) \<Rightarrow> ([], st1) | (Inr events, st1) \<Rightarrow> (events, st1))"

text \<open>
  One round, from the test of the stop flag after the pause to the end of the loop body.
  \<open>None\<close>: the monitor has ended.
\<close>

definition health_check :: "world \<Rightarrow> run_id \<Rightarrow> service_name \<Rightarrow> bool \<Rightarrow> health_monitor \<Rightarrow> app_state \<Rightarrow>
    (health_monitor \<times> bool) \<times> app_state" where
  "health_check wo run_id service ok m st =
     (let consecutive = (if ok then 0 else min (hm_consecutive_failures m + 1) (2 ^ 32 - 1));
          m1 = m\<lparr>hm_consecutive_failures := consecutive,
                 hm_restart_count := (if ok then 0 else hm_restart_count m)\<rparr>;
          st1 = st\<lparr>ap_health := bm_update (hm_handle m) (count_check (wo_now wo) ok consecutive) (ap_health st)\<rparr>;
          (events, st2) =
            (if ok then run_events run_id (then_recompute (update_service service (recover_service (wo_now wo) run_id service) [])) st1
             else if 3 \<le> consecutive then
               run_events run_id (then_recompute (update_service service (degrade_service (wo_now wo) run_id service) [])) st1
             else ([], st1));
          should_restart = (\<not> ok \<and> 3 \<le> consecutive \<and> events \<noteq> [] \<and> hm_restart_count m1 < 3);
          st3 = emit_events events st2;
          st4 = (if events \<noteq> [] then snd (persist_manifest wo run_id st3) else st3) in
      ((m1, should_restart), st4))"

definition restart_limit ::
  "world \<Rightarrow> run_id \<Rightarrow> service_name \<Rightarrow> app_state \<Rightarrow> app_state" where
  "restart_limit wo run_id service st =
     (let (events, st1) = run_events run_id
            (then_recompute (update_service service
               (fail_service (wo_now wo) run_id service ''health restart limit exceeded'') [])) st in
      snd (persist_manifest wo run_id (emit_events events st1)))"

definition health_round ::
  "world \<Rightarrow> probes \<Rightarrow> nat \<Rightarrow> run_id \<Rightarrow> service_name \<Rightarrow> health_monitor \<Rightarrow> app_state \<Rightarrow>
     health_monitor option \<times> app_state" where
  "health_round wo pb t run_id service m st =
     (if hm_handle m \<in> set (ap_stopped st) then (None, st)
      else
        (let ok = (case check_ready_once pb t (hm_readiness m) (hm_context m) of Inl _ \<Rightarrow> False | Inr b \<Rightarrow> b);
             ((m1, should_restart), st1) = health_check wo run_id service ok m st in
         if should_restart then
           (let m2 = m1\<lparr>hm_restart_count := hm_restart_count m1 + 1\<rparr>;
                st2 = snd (restart_service_no_wait wo run_id service st1) in
            if 3 \<le> hm_restart_count m2 then (None, restart_limit wo run_id service st2)
            else (Some m2, st2))
         else (Some m1, st1)))"

section \<open>Facts\<close>

lemma recompute_events [simp]: "event_list None = []" "event_list (Some e) = [e]"
  by (simp_all add: event_list_def)

lemma mark_service_effects [simp]:
  "ap_units (snd (mark_service_ready wo run_id service st)) = ap_units st"
  "ap_ports (snd (mark_service_ready wo run_id service st)) = ap_ports st"
  "ap_stopped (snd (mark_service_ready wo run_id service st)) = ap_stopped st"
  "ap_units (snd (mark_service_failed wo run_id service reason st)) = ap_units st"
  "ap_ports (snd (mark_service_failed wo run_id service reason st)) = ap_ports st"
  "ap_stopped (snd (mark_service_failed wo run_id service reason st)) = ap_stopped st"
  by (simp_all add: mark_service_ready_def mark_service_failed_def with_run_state_eq Let_def
      split: option.split prod.split sum.split)

lemma finish_watch_effects [simp]:
  "ap_units (finish_watch run_id service handle st) = ap_units st"
  "ap_ports (finish_watch run_id service handle st) = ap_ports st"
  by (simp_all add: finish_watch_def with_run_state_eq split: option.split)

lemma sync_watcher_effects [simp]:
  "ap_units (snd (sync_service_auto_restart_watcher wo run_id service st)) = ap_units st"
  "ap_ports (snd (sync_service_auto_restart_watcher wo run_id service st)) = ap_ports st"
  by (simp_all add: sync_service_auto_restart_watcher_def with_run_state_eq new_handle_def
      split: option.split watch_decision.split sum.split)

lemma finish_capture_effects [simp]:
  "ap_units (snd (finish_capture run_id service handle st)) = ap_units st"
  "ap_ports (snd (finish_capture run_id service handle st)) = ap_ports st"
  by (simp_all add: finish_capture_def with_run_state_eq split: option.split bool.split)

lemma sync_capture_effects [simp]:
  "ap_units (snd (sync_service_api_capture_proxy wo run_id service st)) = ap_units st"
  "ap_ports (snd (sync_service_api_capture_proxy wo run_id service st)) = ap_ports st"
  by (simp_all add: sync_service_api_capture_proxy_def with_run_state_eq new_handle_def
      split: option.split capture_decision.split sum.split)

lemma finish_with_response_effects [simp]:
  "ap_runs (snd (finish_with_response wo run_id st)) = ap_runs st"
  "ap_units (snd (finish_with_response wo run_id st)) = ap_units st"
  "ap_ports (snd (finish_with_response wo run_id st)) = ap_ports st"
  "ap_stopped (snd (finish_with_response wo run_id st)) = ap_stopped st"
  by (simp_all add: finish_with_response_def case_prod_beta split: sum.split)

lemma restart_wait_units [simp]: "ap_units (snd (restart_wait wo waited run_post_init run_id service post_init st)) = ap_units st"
  by (simp add: restart_wait_def case_prod_beta split: option.split sum.split)

lemma with_run_state_units [simp]:
  "ap_units (snd (with_run_state run_id f st)) = ap_units st"
  "ap_ports (snd (with_run_state run_id f st)) = ap_ports st"
  "ap_stopped (snd (with_run_state run_id f st)) = ap_stopped st"
  by (simp_all add: with_run_state_eq split: option.split)

lemma restart_service_units:
  "ap_units (snd (restart_service_inner wo waited run_post_init run_id service no_wait st)) \<in>
     {ap_units st} \<union> {ap_units st @ [Unit_Restart u] | u. True}"
  by (simp add: restart_service_inner_def case_prod_beta Let_def split: sum.split)

section \<open>Facts about the monitor\<close>

lemma health_check_effects [simp]:
  "ap_units (snd (health_check wo run_id service ok m st)) = ap_units st"
  "hm_restart_count (fst (fst (health_check wo run_id service ok m st))) = (if ok then 0 else hm_restart_count m)"
  "hm_handle (fst (fst (health_check wo run_id service ok m st))) = hm_handle m"
  "hm_readiness (fst (fst (health_check wo run_id service ok m st))) = hm_readiness m"
  by (simp_all add: health_check_def run_events_def case_prod_beta Let_def split: sum.split)

lemma health_check_restarts:
  "snd (fst (health_check wo run_id service ok m st)) \<Longrightarrow> \<not> ok \<and> hm_restart_count m < 3"
  by (auto simp: health_check_def case_prod_beta Let_def split: if_splits)

lemma restart_limit_units [simp]: "ap_units (restart_limit wo run_id service st) = ap_units st"
  by (simp add: restart_limit_def run_events_def case_prod_beta Let_def split: sum.split)

text \<open>
  What a round sends, and how often the monitor has restarted the service since the last passing
  check.
\<close>

lemma health_round_failed:
  assumes "check_ready_once pb t (hm_readiness m) (hm_context m) \<noteq> Inr True"
    and "health_round wo pb t run_id service m st = (m', st')"
  shows "(ap_units st' = ap_units st \<and> (\<forall>m1. m' = Some m1 \<longrightarrow> hm_restart_count m1 = hm_restart_count m \<and>
             hm_readiness m1 = hm_readiness m \<and> hm_context m1 = hm_context m)) \<or>
    (hm_restart_count m < 3 \<and> (\<exists>sent. ap_units st' = ap_units st @ sent \<and> length sent \<le> 1 \<and> (\<forall>c \<in> set sent. \<exists>u. c = Unit_Restart u)) \<and>
      (\<forall>m1. m' = Some m1 \<longrightarrow> hm_restart_count m1 = hm_restart_count m + 1 \<and> hm_restart_count m1 < 3 \<and>
         hm_readiness m1 = hm_readiness m \<and> hm_context m1 = hm_context m))"
proof (cases "hm_handle m \<in> set (ap_stopped st)")
  case True
  then show ?thesis using assms(2) by (auto simp: health_round_def)
next
  case False
  let ?c = "health_check wo run_id service False m st"
  have ok: "(case check_ready_once pb t (hm_readiness m) (hm_context m) of Inl _ \<Rightarrow> False | Inr b \<Rightarrow> b) = False"
    using assms(1) by (auto split: sum.split)
  have ctx: "hm_context (fst (fst ?c)) = hm_context m"
    by (simp add: health_check_def case_prod_beta Let_def)
  show ?thesis
  proof (cases "snd (fst ?c)")
    case no: False
    then show ?thesis
      using assms(2) False by (auto simp: health_round_def ok case_prod_beta Let_def ctx)
  next
    case yes: True
    let ?s = "snd (restart_service_no_wait wo run_id service (snd ?c))"
    have count: "hm_restart_count m < 3" using health_check_restarts [OF yes] by blast
    have sent: "\<exists>sent. ap_units ?s = ap_units st @ sent \<and> length sent \<le> 1 \<and> (\<forall>c \<in> set sent. \<exists>u. c = Unit_Restart u)"
      using restart_service_units [of wo "Inr ()" "\<lambda>_. Inr ()" run_id service True "snd ?c"]
      by (auto simp: restart_service_no_wait_def)
    have "st' = (if 3 \<le> hm_restart_count m + 1 then restart_limit wo run_id service ?s else ?s)"
      "m' = (if 3 \<le> hm_restart_count m + 1 then None
             else Some ((fst (fst ?c))\<lparr>hm_restart_count := hm_restart_count m + 1\<rparr>))"
      using assms(2) False yes by (auto simp: health_round_def ok case_prod_beta Let_def)
    then show ?thesis using sent count ctx by auto
  qed
qed

text \<open>
  Rounds of a monitor with anything else happening between them (\<open>others\<close>): the commands its
  own rounds sent, and what is left of it.
\<close>

type_synonym health_step = "world \<times> probes \<times> nat \<times> (app_state \<Rightarrow> app_state)"

fun health_rounds ::
  "run_id \<Rightarrow> service_name \<Rightarrow> health_step list \<Rightarrow> health_monitor \<Rightarrow> app_state \<Rightarrow>
     unit_command list \<times> health_monitor option \<times> app_state" where
  "health_rounds run_id service [] m st = ([], Some m, st)"
| "health_rounds run_id service ((wo, pb, t, others) # steps) m st =
     (let (m', st1) = health_round wo pb t run_id service m (others st);
          sent = drop (length (ap_units (others st))) (ap_units st1) in
      case m' of
        None \<Rightarrow> (sent, None, st1)
      | Some m1 \<Rightarrow> (let (later, out) = health_rounds run_id service steps m1 st1 in (sent @ later, out)))"

lemma health_rounds_failed:
  assumes "\<forall>(wo, pb, t, others) \<in> set steps. check_ready_once pb t (hm_readiness m) (hm_context m) \<noteq> Inr True"
    and "hm_restart_count m < 3"
  shows "length (fst (health_rounds run_id service steps m st)) \<le> 3 - hm_restart_count m \<and>
    (\<forall>c \<in> set (fst (health_rounds run_id service steps m st)). \<exists>u. c = Unit_Restart u)"
  using assms
proof (induction steps arbitrary: m st)
  case (Cons step steps)
  obtain wo pb t others where step: "step = (wo, pb, t, others)" by (metis surj_pair)
  obtain m' st1 where round: "health_round wo pb t run_id service m (others st) = (m', st1)" by fastforce
  have fails: "check_ready_once pb t (hm_readiness m) (hm_context m) \<noteq> Inr True"
    using Cons.prems(1) by (simp add: step)
  note r = health_round_failed [OF fails round]
  then have one: "length (drop (length (ap_units (others st))) (ap_units st1)) \<le> 1"
    and kind: "\<forall>c \<in> set (drop (length (ap_units (others st))) (ap_units st1)). \<exists>u. c = Unit_Restart u" by auto
  show ?case
  proof (cases m')
    case None
    then show ?thesis using one kind Cons.prems(2) by (simp add: step round)
  next
    case (Some m1)
    have same: "hm_readiness m1 = hm_readiness m" "hm_context m1 = hm_context m" "hm_restart_count m1 < 3"
      using r Some Cons.prems(2) by auto
    have "\<forall>(wo, pb, t, others) \<in> set steps. check_ready_once pb t (hm_readiness m1) (hm_context m1) \<noteq> Inr True"
      using Cons.prems(1) same by auto
    note ih = Cons.IH [OF this same(3), of st1]
    have "length (drop (length (ap_units (others st))) (ap_units st1)) + (3 - hm_restart_count m1) \<le> 3 - hm_restart_count m"
      using r Some Cons.prems(2) by auto
    then show ?thesis using ih kind by (auto simp: step round Some case_prod_beta)
  qed
qed simp

section \<open>Properties\<close>

text \<open>
  C9. A health monitor sends nothing but restarts of its unit, and at most three of them as
  long as no check passes, whatever else happens between its rounds.
\<close>

theorem health_restarts_bounded:
  assumes "start_health_monitor run_id service st = Some m"
    and "\<forall>(wo, pb, t, others) \<in> set steps. check_ready_once pb t (hm_readiness m) (hm_context m) \<noteq> Inr True"
  shows "length (fst (health_rounds run_id service steps m st')) \<le> 3 \<and>
    (\<forall>c \<in> set (fst (health_rounds run_id service steps m st')). \<exists>u. c = Unit_Restart u)"
proof -
  have "hm_restart_count m = 0"
    using assms(1) by (auto simp: start_health_monitor_def bind_eq_Some_conv)
  then show ?thesis using health_rounds_failed [OF assms(2), of run_id service st'] by simp
qed

definition example_state :: "run_record \<Rightarrow> app_state" where
  "example_state run =
     \<lparr>ap_runs = [(rr_run_id run, run)], ap_globals = [], ap_ports = Reg_Blank, ap_events = [],
      ap_units = [], ap_stopped = [], ap_paused = [], ap_health = [], ap_next_handle = 7,
      ap_manifests = [], ap_state_file = None, ap_background = []\<rparr>"

definition example_world :: world where
  "example_world =
     \<lparr>wo_now = ''t1'', wo_paths = pv_paths example_pv, wo_os = example_os,
      wo_unit = (\<lambda>_ _. Inr ()), wo_unit_status = (\<lambda>_ _ _. Inr None), wo_write = (\<lambda>_. None),
      wo_watcher = (\<lambda>_ _. Inr ()), wo_proxy = (\<lambda>_ _ _ _. Inr ()), wo_binary = ''/bin/devstack'',
      wo_exists = (\<lambda>_. False), wo_remove_dir = (\<lambda>_. True),
      wo_config = (\<lambda>_. Inl ''missing''), wo_read_log = (\<lambda>_. None), wo_json = (\<lambda>_. None)\<rparr>"

definition with_health :: "handle_id \<Rightarrow> service_record \<Rightarrow> service_record" where
  "with_health h record = record\<lparr>sr_handles := (sr_handles record)\<lparr>h_health := Some h\<rparr>\<rparr>"

definition running_run :: run_record where
  "running_run =
     (new_run_record ''t0'' ''r1'' ''dev'' ''/p'' ''/p'' [])
       \<lparr>rr_services := [(''web'', with_health 3 (example_record ''web'' Sv_Ready))], rr_state := Run_Running\<rparr>"

definition example_monitor :: health_monitor where
  "example_monitor = the (start_health_monitor ''r1'' ''web'' (example_state running_run))"

lemma example_monitor_started:
  "start_health_monitor ''r1'' ''web'' (example_state running_run) = Some example_monitor"
  by (simp add: example_monitor_def start_health_monitor_def example_state_def running_run_def
      new_run_record_def get_run_def with_health_def)

theorem health_restarts_bounded_witness:
  "length (fst (health_rounds ''r1'' ''web''
     (replicate 20 (example_world, example_probes\<lparr>pb_connect := \<lambda>_ _. False\<rparr>, 0, \<lambda>st. st)) example_monitor
     (example_state running_run))) \<le> 3"
proof -
  have "rs_kind (hm_readiness example_monitor) = RK_Tcp"
    by (simp add: example_monitor_def start_health_monitor_def example_state_def running_run_def
        new_run_record_def get_run_def with_health_def example_record_def)
  then have "check_ready_once (example_probes\<lparr>pb_connect := \<lambda>_ _. False\<rparr>) 0 (hm_readiness example_monitor)
      (hm_context example_monitor) \<noteq> Inr True"
    by (simp add: check_ready_once_def split: option.split)
  then have "\<forall>(wo, pb, t, others) \<in> set (replicate 20 (example_world, example_probes\<lparr>pb_connect := \<lambda>_ _. False\<rparr>, 0 :: nat,
      \<lambda>st :: app_state. st)). check_ready_once pb t (hm_readiness example_monitor) (hm_context example_monitor) \<noteq> Inr True"
    by simp
  from health_restarts_bounded [OF example_monitor_started this] show ?thesis by blast
qed

text \<open>
  The health check of a service that is ready after a delay never passes: with a failure
  count of two, the next round of its monitor degrades the ready service and restarts its unit,
  whatever the service does.
\<close>

theorem delayed_service_restarted:
  assumes "rs_kind (hm_readiness m) = RK_Delay d" and "hm_consecutive_failures m = 2" and "hm_restart_count m < 3"
    and "hm_handle m \<notin> set (ap_stopped st)"
    and "map_of (ap_runs st) run_id = Some run" and "map_of (rr_services run) service = Some record"
    and "sr_state record = Sv_Ready"
    and "run_snapshot_path (wo_paths wo) run_id = Inr path" and "\<not> wo_exists wo path"
  shows "ap_units (snd (health_round wo pb t run_id service m st)) =
      ap_units st @ [Unit_Restart (lp_unit_name (sr_launch record))] \<and>
    service_state_changed_event run_id service Sv_Degraded \<in> set (ap_events (snd (health_check wo run_id service False m st)))"
proof -
  have check: "check_ready_once pb t (hm_readiness m) (hm_context m) = Inr False"
    by (simp add: check_ready_once_def assms(1))
  define f where "f = then_recompute (update_service service (degrade_service (wo_now wo) run_id service) [])"
  have f: "fst (f run) = service_state_changed_event run_id service Sv_Degraded # tl (fst (f run))"
    and record': "\<exists>record'. map_of (rr_services (snd (f run))) service = Some record' \<and> sr_launch record' = sr_launch record"
    using assms(6,7)
    by (simp_all add: f_def then_recompute_def update_service_eq degrade_service_def set_service_state_def
        case_prod_beta Let_def set_last_failure_def)
  let ?c = "health_check wo run_id service False m st"
  have events: "ap_events (snd ?c) = ap_events st @ fst (f run)" and restart: "snd (fst ?c)"
    and runs: "ap_runs (snd ?c) = bm_update run_id (\<lambda>_. snd (f run)) (ap_runs st)"
    using assms(2,3,5) f
    by (simp_all add: health_check_def run_events_def with_run_state_eq f_def [symmetric] Let_def)
      (metis list.distinct(1))+
  obtain record' where r': "map_of (rr_services (snd (f run))) service = Some record'" "sr_launch record' = sr_launch record"
    using record' by blast
  have post: "load_post_init_context_for_run_service wo run_id stack dir service env log = Inr None" for stack dir env log
    by (simp add: load_post_init_context_for_run_service_def assms(8,9))
  have "ap_units (snd (restart_service_no_wait wo run_id service (snd ?c))) =
      ap_units st @ [Unit_Restart (lp_unit_name (sr_launch record))]"
    using assms(5) r'
    by (simp add: restart_service_no_wait_def restart_service_inner_def with_run_state_eq runs begin_restart_def
        set_service_state_def snapshot_of_record_def set_last_failure_def post case_prod_beta Let_def
        split: sum.split)
  then have "ap_units (snd (health_round wo pb t run_id service m st)) =
      ap_units st @ [Unit_Restart (lp_unit_name (sr_launch record))]"
    using assms(4) restart by (simp add: health_round_def check case_prod_beta Let_def)
  moreover have "service_state_changed_event run_id service Sv_Degraded \<in> set (ap_events (snd ?c))"
    unfolding events by (subst f) simp
  ultimately show ?thesis by blast
qed

definition delayed_record :: service_record where
  "delayed_record =
     (example_record ''web'' Sv_Ready)
       \<lparr>sr_spec := (sr_spec (example_record ''web'' Sv_Ready))\<lparr>ss_readiness := \<lparr>rs_kind = RK_Delay 500, rs_timeout = 30000\<rparr>\<rparr>\<rparr>"

definition delayed_run :: run_record where
  "delayed_run = running_run\<lparr>rr_services := [(''web'', with_health 3 delayed_record)]\<rparr>"

definition delayed_monitor :: health_monitor where
  "delayed_monitor =
     \<lparr>hm_handle = 3, hm_readiness = \<lparr>rs_kind = RK_Delay 500, rs_timeout = 30000\<rparr>, hm_context = example_context,
      hm_restart_count = 0, hm_consecutive_failures = 2\<rparr>"

theorem delayed_service_restarted_witness:
  "ap_units (snd (health_round example_world example_probes 0 ''r1'' ''web'' delayed_monitor (example_state delayed_run))) =
     [Unit_Restart (unit_name_for_run ''r1'' ''web'')]"
proof -
  let ?st = "example_state delayed_run"
  have facts: "rs_kind (hm_readiness delayed_monitor) = RK_Delay 500" "hm_consecutive_failures delayed_monitor = 2"
    "hm_restart_count delayed_monitor < 3" "hm_handle delayed_monitor \<notin> set (ap_stopped ?st)"
    "map_of (ap_runs ?st) ''r1'' = Some delayed_run"
    "map_of (rr_services delayed_run) ''web'' = Some (with_health 3 delayed_record)"
    "sr_state (with_health 3 delayed_record) = Sv_Ready" "\<not> wo_exists example_world path" for path
    by (simp_all add: delayed_monitor_def example_state_def delayed_run_def running_run_def new_run_record_def
        with_health_def delayed_record_def example_record_def example_world_def)
  have path: "run_snapshot_path (wo_paths example_world) ''r1'' = Inr ''/data/runs/r1/devstack.yml.snapshot''"
    by code_simp
  from delayed_service_restarted [OF facts(1-7) path facts(8)] show ?thesis
    by (simp add: example_state_def with_health_def delayed_record_def example_record_def)
qed

text \<open>
  A watcher or a capture proxy that has been started is never lost, whatever happened to the
  service meanwhile: either its handle is in the record of the service, or its stop flag is up.
\<close>

theorem started_helpers_owned_or_stopped:
  "(handle \<in> set (ap_stopped (finish_watch run_id service handle st)) \<or>
    (\<exists>run record. map_of (ap_runs (finish_watch run_id service handle st)) run_id = Some run \<and>
       map_of (rr_services run) service = Some record \<and> h_watch (sr_handles record) = Some handle \<and>
       map_of (ap_paused (finish_watch run_id service handle st)) handle = Some (rt_watch_paused (sr_runtime record)))) \<and>
   (fst (finish_capture run_id service handle st) = Inr () \<longrightarrow>
    handle \<in> set (ap_stopped (snd (finish_capture run_id service handle st))) \<or>
    (\<exists>run record. map_of (ap_runs (snd (finish_capture run_id service handle st))) run_id = Some run \<and>
       map_of (rr_services run) service = Some record \<and> h_api_capture (sr_handles record) = Some handle))"
proof (cases "map_of (ap_runs st) run_id")
  case None
  then show ?thesis by (simp add: finish_watch_def finish_capture_def with_run_state_eq)
next
  case run: (Some run)
  show ?thesis
  proof (cases "map_of (rr_services run) service")
    case None
    then show ?thesis using run
      by (simp add: finish_watch_def finish_capture_def with_run_state_eq update_service_eq)
  next
    case (Some service_rec)
    then show ?thesis using run
      by (auto simp: finish_watch_def finish_capture_def with_run_state_eq update_service_eq install_watch_def
          install_capture_def set_paused_def)
  qed
qed

theorem started_helpers_owned_or_stopped_witness:
  "fst (finish_capture ''r1'' ''gone'' 9 (example_state running_run)) = Inr () \<and>
   9 \<in> set (ap_stopped (snd (finish_capture ''r1'' ''gone'' 9 (example_state running_run))))"
proof -
  have ok: "fst (finish_capture ''r1'' ''gone'' 9 (example_state running_run)) = Inr ()"
    and gone: "\<not> (\<exists>run record. map_of (ap_runs (snd (finish_capture ''r1'' ''gone'' 9 (example_state running_run)))) ''r1'' = Some run \<and>
       map_of (rr_services run) ''gone'' = Some record \<and> h_api_capture (sr_handles record) = Some 9)"
    by (simp_all add: finish_capture_def with_run_state_eq update_service_eq example_state_def running_run_def new_run_record_def)
  show ?thesis
    using started_helpers_owned_or_stopped [of 9 "''r1''" "''gone''" "example_state running_run"] ok gone by blast
qed

text \<open>
  A readiness answer that arrives after its run was stopped makes the service ready again and
  starts a monitor for it, although the run stays stopped.
\<close>

lemma ready_after_stop:
  assumes "map_of (ap_runs st) run_id = Some run" and "rr_state run = Run_Stopped"
    and "map_of (rr_services run) service = Some record" and "h_health (sr_handles record) = None"
    and "rs_kind (ss_readiness (sr_spec record)) \<noteq> RK_Exit"
  shows "\<exists>run' record'. map_of (ap_runs (snd (mark_service_ready wo run_id service st))) run_id = Some run' \<and>
    rr_state run' = Run_Stopped \<and> map_of (rr_services run') service = Some record' \<and> sr_state record' = Sv_Ready \<and>
    Health_Monitor run_id service \<in> set (ap_background (snd (mark_service_ready wo run_id service st)))"
  using assms
  by (simp add: mark_service_ready_def with_run_state_eq update_service_eq ready_service_def set_service_state_def
      set_last_failure_def case_prod_beta Let_def recompute_run_state_def emit_events_def)

end
