(* ===== verification/Lifecycle.thy ===== *)
theory Lifecycle
  imports Launch "HOL-Library.Sublist"
begin

text \<open>
  The commands on runs: \<open>src/src/app/commands/runs.rs\<close>, \<open>watch.rs\<close>, \<open>gc.rs\<close> and
  \<open>reconcile.rs\<close>. The answers of the init tasks of a service and of waiting for it are
  arguments \<open>init\<close> and \<open>waits\<close>.
\<close>

section \<open>Stopping a run\<close>

text \<open>The three handles of every service: all are stopped, the proxies after the closure.\<close>

definition take_handles :: "service_record \<Rightarrow> service_record" where
  "take_handles record = record\<lparr>sr_handles := no_handles\<rparr>"

definition monitor_handles :: "service_record \<Rightarrow> handle_id list" where
  "monitor_handles record =
     (case h_health (sr_handles record) of None \<Rightarrow> [] | Some h \<Rightarrow> [h])
     @ (case h_watch (sr_handles record) of None \<Rightarrow> [] | Some h \<Rightarrow> [h])"

definition proxy_handles :: "service_record \<Rightarrow> handle_id list" where
  "proxy_handles record = (case h_api_capture (sr_handles record) of None \<Rightarrow> [] | Some h \<Rightarrow> [h])"

definition take_run_handles :: "run_record \<Rightarrow> handle_id list \<times> run_record" where
  "take_run_handles run =
     (let services = bm_values (rr_services run) in
      (concat (map monitor_handles services) @ concat (map proxy_handles services),
       run\<lparr>rr_services := bm_map (\<lambda>_. take_handles) (rr_services run)\<rparr>))"

definition stop_service_handles :: "run_id \<Rightarrow> app_state \<Rightarrow> app_state" where
  "stop_service_handles run_id st =
     (case with_run_state run_id take_run_handles st of
        (Inl _, st1) \<Rightarrow> st1
      | (Inr handles, st1) \<Rightarrow> raise_flags handles st1)"

type_synonym service_ports = "(service_name \<times> u16 option \<times> u16 option) list"

definition service_ports_of :: "run_record \<Rightarrow> service_ports" where
  "service_ports_of run =
     map (\<lambda>(name, service). (name, lp_port (sr_launch service), lp_listen_port (sr_launch service)))
       (rr_services run)"

fun unit_calls :: "world \<Rightarrow> unit_command list \<Rightarrow> app_state \<Rightarrow> app_state" where
  "unit_calls wo [] st = st"
| "unit_calls wo (command # commands) st = unit_calls wo commands (snd (unit_call wo command st))"

definition release_both_ports ::
  "world \<Rightarrow> run_id \<Rightarrow> service_name \<times> u16 option \<times> u16 option \<Rightarrow> app_state \<Rightarrow> unit result \<times> app_state" where
  "release_both_ports wo run_id entry st =
     (let (service, port, listen_port) = entry in
      case release_service_capture_backend_port wo run_id service listen_port port st of
        (Inl e, st1) \<Rightarrow> (Inl e, st1)
      | (Inr _, st1) \<Rightarrow> release_service_port wo run_id service port st1)"

fun release_all_ports ::
  "world \<Rightarrow> run_id \<Rightarrow> service_ports \<Rightarrow> app_state \<Rightarrow> unit result \<times> app_state" where
  "release_all_ports wo run_id [] st = (Inr (), st)"
| "release_all_ports wo run_id (entry # entries) st =
     (case release_both_ports wo run_id entry st of
        (Inl e, st1) \<Rightarrow> (Inl e, st1)
      | (Inr _, st1) \<Rightarrow> release_all_ports wo run_id entries st1)"

fun stop_services ::
  "string \<Rightarrow> run_id \<Rightarrow> (string, service_record) bmap \<Rightarrow> daemon_event list \<times> (string, service_record) bmap" where
  "stop_services now run_id [] = ([], [])"
| "stop_services now run_id ((name, service) # services) =
     (let (ev, service') = set_service_state now run_id name Sv_Stopped service;
          (events, services') = stop_services now run_id services in
      (event_list ev @ events, (name, service') # services'))"

definition stop_run :: "string \<Rightarrow> run_id \<Rightarrow> run_record \<Rightarrow> daemon_event list \<times> run_record" where
  "stop_run now run_id run =
     (let run1 = run\<lparr>rr_state := Run_Stopped, rr_stopped_at := Some now\<rparr>;
          (events, services) = stop_services now run_id (rr_services run1);
          run2 = run1\<lparr>rr_services := services\<rparr> in
      (events @ [run_state_changed_event run2], run2))"

text \<open>The part that \<open>down\<close> and \<open>kill\<close> share, from the ports to the answer.\<close>

definition finish_stop ::
  "world \<Rightarrow> run_id \<Rightarrow> service_ports \<Rightarrow> app_state \<Rightarrow> run_response app_result \<times> app_state" where
  "finish_stop wo run_id services st =
     (case release_all_ports wo run_id services st of
        (Inl e, st1) \<Rightarrow> (Inl (Internal e), st1)
      | (Inr _, st1) \<Rightarrow>
          (case with_run_state run_id (stop_run (wo_now wo) run_id) st1 of
             (Inl e, st2) \<Rightarrow> (Inl (Internal e), st2)
           | (Inr events, st2) \<Rightarrow> finish_with_response wo run_id (emit_events events st2)))"

definition purge_run :: "world \<Rightarrow> run_id \<Rightarrow> app_state \<Rightarrow> unit app_result \<times> app_state" where
  "purge_run wo run_id st =
     (case run_dir (wo_paths wo) run_id of
        Inl e \<Rightarrow> (Inl (Internal e), st)
      | Inr dir \<Rightarrow>
          (let (removed, runs) = remove_run run_id (ap_runs st);
               st1 = remove_dir_all wo dir (st\<lparr>ap_runs := runs\<rparr>);
               st2 = (if removed \<noteq> None then emit_events [run_removed_event run_id] st1 else st1) in
           (Inr (), snd (write_daemon_state wo st2))))"

definition down :: "world \<Rightarrow> run_id \<Rightarrow> bool \<Rightarrow> app_state \<Rightarrow> run_response app_result \<times> app_state" where
  "down wo run_id purge st =
     (let st1 = stop_service_handles run_id st in
      case with_run run_id service_ports_of (ap_runs st1) of
        Inl _ \<Rightarrow> (Inl (Not_Found (run_not_found run_id)), st1)
      | Inr services \<Rightarrow>
          (case finish_stop wo run_id services
                  (unit_calls wo (map (\<lambda>(service, _, _). Unit_Stop (unit_name_for_run run_id service)) services) st1) of
             (Inl e, st2) \<Rightarrow> (Inl e, st2)
           | (Inr response, st2) \<Rightarrow>
               if purge then
                 (case purge_run wo run_id st2 of
                    (Inl e, st3) \<Rightarrow> (Inl e, st3)
                  | (Inr _, st3) \<Rightarrow> (Inr response, st3))
               else (Inr response, st2)))"

definition kill :: "world \<Rightarrow> run_id \<Rightarrow> app_state \<Rightarrow> run_response app_result \<times> app_state" where
  "kill wo run_id st =
     (let st1 = stop_service_handles run_id st in
      case with_run run_id service_ports_of (ap_runs st1) of
        Inl _ \<Rightarrow> (Inl (Not_Found (run_not_found run_id)), st1)
      | Inr services \<Rightarrow>
          finish_stop wo run_id services
            (unit_calls wo
               (concat (map (\<lambda>(service, _, _). [Unit_Kill (unit_name_for_run run_id service) 9,
                                                Unit_Stop (unit_name_for_run run_id service)]) services)) st1))"

section \<open>Launching the services of a run\<close>

record launch_resources =
  lr_config_dir :: string
  lr_tasks_map :: "(string, task_config) bmap"
  lr_port_map :: port_map
  lr_listen_port_map :: port_map
  lr_service_schemes :: env_map
  lr_base_env :: env_map
  lr_global_env :: env_map
  lr_global_env_file_path :: "string option"

definition service_needs_restart ::
  "bool \<Rightarrow> snapshots \<Rightarrow> service_name \<Rightarrow> prepared_service \<Rightarrow> bool" where
  "service_needs_restart force existing service_name p \<longleftrightarrow>
     force
     \<or> (case map_of existing service_name of
          None \<Rightarrow> True
        | Some snapshot \<Rightarrow>
            sn_watch_hash snapshot \<noteq> Some (ps_watch_hash p)
            \<or> sn_state snapshot \<in> {Sv_Stopped, Sv_Failed, Sv_Degraded})"

definition resolve_service_tasks ::
  "service_config \<Rightarrow> (string, task_config) bmap \<Rightarrow> (string, task_config) bmap" where
  "resolve_service_tasks service global_tasks =
     (case sc_tasks service of
        Some service_tasks \<Rightarrow> bm_extend global_tasks service_tasks
      | None \<Rightarrow> global_tasks)"

definition replace_service_record ::
  "service_name \<Rightarrow> service_record \<Rightarrow> run_record \<Rightarrow> (service_state option \<times> handle_id list) \<times> run_record" where
  "replace_service_record service_name record run =
     (let previous = map_of (rr_services run) service_name;
          services = bm_remove service_name (rr_services run);
          stopped = (case previous of None \<Rightarrow> [] | Some p \<Rightarrow> snd (stop_all_handles p)) in
      ((map_option sr_state previous, stopped),
       run\<lparr>rr_services := bm_insert service_name record services\<rparr>))"

definition apply_unchanged :: "prepared_service \<Rightarrow> service_record \<Rightarrow> handle_id list \<times> service_record" where
  "apply_unchanged p record =
     (let (record', stopped) = apply_prepared_to_runtime record p False in (stopped, record'))"

definition sync_unchanged_service ::
  "world \<Rightarrow> run_id \<Rightarrow> service_name \<Rightarrow> prepared_service \<Rightarrow> app_state \<Rightarrow> unit app_result \<times> app_state" where
  "sync_unchanged_service wo run_id service_name p st =
     (case with_run_state run_id (update_service service_name (apply_unchanged p) []) st of
        (Inl e, st1) \<Rightarrow> (Inl (Internal e), st1)
      | (Inr stopped, st1) \<Rightarrow>
          (let st2 = raise_flags stopped st1;
               st3 = snd (sync_service_auto_restart_watcher wo run_id service_name st2);
               st4 = snd (sync_service_api_capture_proxy wo run_id service_name st3) in
           (Inr (), st4)))"

definition record_failed_init_service ::
  "world \<Rightarrow> run_id \<Rightarrow> service_name \<Rightarrow> prepared_service \<Rightarrow> string \<Rightarrow> app_state \<Rightarrow> unit app_result \<times> app_state" where
  "record_failed_init_service wo run_id service_name p err st =
     (let record = into_service_record p Sv_Failed (Some (''init task failed: '' @ err)) None in
      case with_run_state run_id (replace_service_record service_name record) st of
        (Inl e, st1) \<Rightarrow> (Inl (Internal e), st1)
      | (Inr (_, stopped), st1) \<Rightarrow>
          (let st2 = emit_events [service_state_changed_event run_id service_name Sv_Failed]
                       (raise_flags stopped st1) in
           (Inr (), snd (sync_service_auto_restart_watcher wo run_id service_name st2))))"

definition store_service_launch_result ::
  "world \<Rightarrow> run_id \<Rightarrow> service_name \<Rightarrow> prepared_service \<Rightarrow> unit result \<Rightarrow> app_state \<Rightarrow> unit app_result \<times> app_state" where
  "store_service_launch_result wo run_id service_name p start_result st =
     (let (initial_state, failure_reason, last_started_at) =
            (case start_result of
               Inr _ \<Rightarrow> (Sv_Starting, None, Some (wo_now wo))
             | Inl err \<Rightarrow> (Sv_Failed, Some err, None));
          record = into_service_record p initial_state failure_reason last_started_at in
      case with_run_state run_id (replace_service_record service_name record) st of
        (Inl e, st1) \<Rightarrow> (Inl (Internal e), st1)
      | (Inr (previous_state, stopped), st1) \<Rightarrow>
          (let st2 = emit_events
                 (if previous_state \<noteq> Some initial_state
                  then [service_state_changed_event run_id service_name initial_state] else [])
                 (raise_flags stopped st1) in
           (Inr (), snd (sync_service_auto_restart_watcher wo run_id service_name st2))))"

text \<open>The ports of a replaced service, once its unit has been started again.\<close>

definition release_previous_ports ::
  "world \<Rightarrow> run_id \<Rightarrow> service_name \<Rightarrow> snapshots \<Rightarrow> prepared_service \<Rightarrow> app_state \<Rightarrow> unit result \<times> app_state" where
  "release_previous_ports wo run_id service_name existing p st =
     (let previous_port = snapshot_port existing service_name;
          previous_listen_port = snapshot_listen_port existing service_name in
      case (if previous_port \<noteq> None \<and> previous_port \<noteq> ps_port p
            then release_service_port wo run_id service_name previous_port st else (Inr (), st)) of
        (Inl e, st1) \<Rightarrow> (Inl e, st1)
      | (Inr _, st1) \<Rightarrow>
          if previous_listen_port \<noteq> None \<and> previous_listen_port \<noteq> ps_listen_port p
             \<and> previous_listen_port \<noteq> previous_port
          then release_service_capture_backend_port wo run_id service_name previous_listen_port previous_port st1
          else (Inr (), st1))"

text \<open>
  One service: prepared, left alone when nothing changed, else its init tasks run, its unit is
  started, its record replaced, and its readiness awaited.
\<close>

definition unit_name_missing :: "service_name \<Rightarrow> string" where
  "unit_name_missing service_name = ''service '' @ service_name @ '' missing''"

definition after_start ::
  "world \<Rightarrow> unit result \<Rightarrow> run_id \<Rightarrow> string \<Rightarrow> service_config \<Rightarrow> (string, task_config) bmap \<Rightarrow>
     prepared_service \<Rightarrow> bool \<Rightarrow> app_state \<Rightarrow> unit app_result \<times> app_state" where
  "after_start wo waited run_id project_dir service resolved_tasks p no_wait st =
     (case sync_service_api_capture_proxy wo run_id (ps_name p) st of
        (Inl err, st1) \<Rightarrow>
          (let reason = ''API capture proxy failed: '' @ err in
           case mark_service_failed wo run_id (ps_name p) reason st1 of
             (Inl e, st2) \<Rightarrow> (Inl (Internal e), st2)
           | (Inr _, st2) \<Rightarrow> (Inl (Internal reason), snd (persist_manifest wo run_id st2)))
      | (Inr _, st1) \<Rightarrow>
          (case handle_readiness wo waited run_id p no_wait
                  (build_post_init_context service resolved_tasks project_dir (Some run_id) (ps_env p)
                     (Some (ps_log_path p, ''post_init''))) st1 of
             (Inl e, st2) \<Rightarrow> (Inl e, snd (persist_manifest wo run_id st2))
           | (Inr _, st2) \<Rightarrow> (Inr (), st2)))"

definition start_and_store ::
  "world \<Rightarrow> unit result \<Rightarrow> instance_scope \<Rightarrow> run_id \<Rightarrow> string \<Rightarrow> service_config \<Rightarrow>
     (string, task_config) bmap \<Rightarrow> prepared_service \<Rightarrow> bool \<Rightarrow> snapshots \<Rightarrow> app_state \<Rightarrow>
     unit app_result \<times> app_state" where
  "start_and_store wo waited scope run_id project_dir service resolved_tasks p no_wait existing st =
     (let (start_result, st1) = start_prepared_service wo scope p (bm_contains existing (ps_name p)) st in
      case release_previous_ports wo run_id (ps_name p) existing p st1 of
        (Inl e, st2) \<Rightarrow> (Inl (Internal e), st2)
      | (Inr _, st2) \<Rightarrow>
          (case store_service_launch_result wo run_id (ps_name p) p start_result st2 of
             (Inl e, st3) \<Rightarrow> (Inl e, st3)
           | (Inr _, st3) \<Rightarrow>
               (case start_result of
                  Inl _ \<Rightarrow> (Inr (), st3)
                | Inr _ \<Rightarrow> after_start wo waited run_id project_dir service resolved_tasks p no_wait st3)))"

definition launch_service ::
  "world \<Rightarrow> prepare_env \<Rightarrow> (prepared_service \<Rightarrow> unit result) \<Rightarrow> (prepared_service \<Rightarrow> unit result) \<Rightarrow>
     instance_scope \<Rightarrow> run_id \<Rightarrow> stack_plan \<Rightarrow> string \<Rightarrow> launch_resources \<Rightarrow> bool \<Rightarrow> bool \<Rightarrow> snapshots \<Rightarrow>
     service_name \<Rightarrow> app_state \<Rightarrow> unit app_result \<times> app_state" where
  "launch_service wo pv init waits scope run_id plan project_dir resources no_wait force existing service_name st =
     (case map_of (sp_services plan) service_name of
        None \<Rightarrow> (Inl (Bad_Request (unit_name_missing service_name)), st)
      | Some service \<Rightarrow>
          (case prepare_service pv scope project_dir (lr_config_dir resources) service_name service
                  (lr_port_map resources) (lr_listen_port_map resources) (lr_service_schemes resources)
                  (lr_base_env resources) (lr_global_env resources) (lr_global_env_file_path resources) of
             Inl e \<Rightarrow> (Inl (Internal e), st)
           | Inr p \<Rightarrow>
               if existing \<noteq> [] \<and> \<not> service_needs_restart force existing service_name p then
                 sync_unchanged_service wo run_id service_name p st
               else
                 (case (case sc_init service of
                          None \<Rightarrow> Inr ()
                        | Some tasks \<Rightarrow> if tasks = [] then Inr () else init p) of
                    Inl err \<Rightarrow> record_failed_init_service wo run_id service_name p err st
                  | Inr _ \<Rightarrow>
                      start_and_store wo (waits p) scope run_id project_dir service
                        (resolve_service_tasks service (lr_tasks_map resources)) p no_wait existing st)))"

fun launch_each :: "(service_name \<Rightarrow> app_state \<Rightarrow> unit app_result \<times> app_state) \<Rightarrow> service_name list \<Rightarrow>
    app_state \<Rightarrow> unit app_result \<times> app_state" where
  "launch_each launch [] st = (Inr (), st)"
| "launch_each launch (service # services) st =
     (case launch service st of
        (Inl e, st1) \<Rightarrow> (Inl e, st1)
      | (Inr _, st1) \<Rightarrow> launch_each launch services st1)"

definition launch_services ::
  "world \<Rightarrow> prepare_env \<Rightarrow> (prepared_service \<Rightarrow> unit result) \<Rightarrow> (prepared_service \<Rightarrow> unit result) \<Rightarrow>
     run_id \<Rightarrow> stack_plan \<Rightarrow> string \<Rightarrow> launch_resources \<Rightarrow> bool \<Rightarrow> bool \<Rightarrow> snapshots \<Rightarrow>
     app_state \<Rightarrow> unit app_result \<times> app_state" where
  "launch_services wo pv init waits run_id plan project_dir resources no_wait force existing st =
     launch_each
       (launch_service wo pv init waits (Scope_Run run_id (sp_name plan)) run_id plan project_dir
          resources no_wait force existing)
       (sp_order plan) st"

section \<open>Around a launch\<close>

definition create_run_record ::
  "world \<Rightarrow> run_id \<Rightarrow> stack_plan \<Rightarrow> string \<Rightarrow> launch_resources \<Rightarrow> app_state \<Rightarrow> unit app_result \<times> app_state" where
  "create_run_record wo run_id plan project_dir resources st =
     (let run = new_run_record (wo_now wo) run_id (sp_name plan) project_dir (lr_config_dir resources)
            (lr_base_env resources);
          (r, runs) = create_run run (ap_runs st);
          st1 = st\<lparr>ap_runs := runs\<rparr> in
      case r of
        Inl e \<Rightarrow> (Inl (Internal e), st1)
      | Inr _ \<Rightarrow>
          (Inr (), (case get_run run_id (ap_runs st1) of
                      Some run' \<Rightarrow> emit_events [run_created_event run'] st1
                    | None \<Rightarrow> st1)))"

definition finalize_run_launch :: "world \<Rightarrow> run_id \<Rightarrow> app_state \<Rightarrow> run_response app_result \<times> app_state" where
  "finalize_run_launch wo run_id st =
     (case with_run_state run_id recompute_run_state st of
        (Inl e, st1) \<Rightarrow> (Inl (Internal e), st1)
      | (Inr ev, st1) \<Rightarrow> finish_with_response wo run_id (emit_events (event_list ev) st1))"

definition relaunch_run :: "env_map \<Rightarrow> run_record \<Rightarrow> daemon_event list \<times> run_record" where
  "relaunch_run base_env run =
     (let run1 = run\<lparr>rr_base_env := base_env\<rparr> in
      if rr_state run1 = Run_Stopped then
        (let run2 = run1\<lparr>rr_state := Run_Starting, rr_stopped_at := None\<rparr> in
         ([run_state_changed_event run2], run2))
      else ([], run1))"

definition update_run_launch_resources :: "run_id \<Rightarrow> env_map \<Rightarrow> app_state \<Rightarrow> unit app_result \<times> app_state" where
  "update_run_launch_resources run_id base_env st =
     (case with_run_state run_id (relaunch_run base_env) st of
        (Inl e, st1) \<Rightarrow> (Inl (Internal e), st1)
      | (Inr events, st1) \<Rightarrow> (Inr (), emit_events events st1))"

definition snapshot_of_service :: "service_record \<Rightarrow> service_snapshot" where
  "snapshot_of_service service =
     \<lparr>sn_watch_hash = Some (lp_watch_hash (sr_launch service)), sn_state = sr_state service,
      sn_port = lp_port (sr_launch service), sn_listen_port = lp_listen_port (sr_launch service)\<rparr>"

text \<open>Services that left the stack: their units are stopped, then their records and ports go.\<close>

fun remove_services :: "service_name list \<Rightarrow> run_record \<Rightarrow> handle_id list \<times> run_record" where
  "remove_services [] run = ([], run)"
| "remove_services (name # names) run =
     (let stopped = (case map_of (rr_services run) name of
            None \<Rightarrow> []
          | Some service \<Rightarrow> snd (stop_all_handles service));
          (rest, run') = remove_services names (run\<lparr>rr_services := bm_remove name (rr_services run)\<rparr>) in
      (stopped @ rest, run'))"

definition drop_services ::
  "service_name list \<Rightarrow> run_record \<Rightarrow> (handle_id list \<times> daemon_event list) \<times> run_record" where
  "drop_services removed run =
     (let (stopped, run1) = remove_services removed run;
          (ev, run2) = recompute_run_state run1 in
      ((stopped, event_list ev), run2))"

definition remove_services_missing_from_stack ::
  "world \<Rightarrow> run_id \<Rightarrow> service_name list \<Rightarrow> snapshots \<Rightarrow> app_state \<Rightarrow> unit app_result \<times> app_state" where
  "remove_services_missing_from_stack wo run_id removed existing st =
     (if removed = [] then (Inr (), st)
      else
        (let st1 = unit_calls wo (map (\<lambda>name. Unit_Stop (unit_name_for_run run_id name)) removed) st in
         case with_run_state run_id (drop_services removed) st1 of
           (Inl e, st2) \<Rightarrow> (Inl (Internal e), st2)
         | (Inr (stopped, events), st2) \<Rightarrow>
             (case release_all_ports wo run_id
                     (map (\<lambda>name. (name, snapshot_port existing name, snapshot_listen_port existing name)) removed)
                     (raise_flags stopped st2) of
                (Inl e, st3) \<Rightarrow> (Inl (Internal e), st3)
              | (Inr _, st3) \<Rightarrow> (Inr (), emit_events events st3))))"

section \<open>Pausing watchers\<close>

definition pause_record :: "bool \<Rightarrow> service_record \<Rightarrow> service_record" where
  "pause_record paused record =
     record\<lparr>sr_runtime := (sr_runtime record)\<lparr>rt_watch_paused := paused\<rparr>\<rparr>"

definition no_auto_restart :: "service_name \<Rightarrow> app_error" where
  "no_auto_restart service =
     Bad_Request (''service '' @ service @ '' does not have auto_restart enabled'')"

text \<open>The handles whose flag is to be set, and the services that were touched.\<close>

definition pause_services ::
  "bool \<Rightarrow> service_name option \<Rightarrow> run_record \<Rightarrow> (handle_id list \<times> service_name list) app_result \<times> run_record" where
  "pause_services paused target run =
     (case target of
        Some service \<Rightarrow>
          (case map_of (rr_services run) service of
             None \<Rightarrow> (Inl (restart_not_found service), run)
           | Some record \<Rightarrow>
               if \<not> ss_auto_restart (sr_spec record) then (Inl (no_auto_restart service), run)
               else (Inr (case h_watch (sr_handles record) of None \<Rightarrow> [] | Some h \<Rightarrow> [h], [service]),
                     run\<lparr>rr_services := bm_update service (pause_record paused) (rr_services run)\<rparr>))
      | None \<Rightarrow>
          (let touched = filter (\<lambda>(_, record). ss_auto_restart (sr_spec record)) (rr_services run) in
           (Inr (concat (map (\<lambda>(_, record). case h_watch (sr_handles record) of None \<Rightarrow> [] | Some h \<Rightarrow> [h]) touched),
                 map fst touched),
            run\<lparr>rr_services := bm_map (\<lambda>_ record. if ss_auto_restart (sr_spec record)
                                               then pause_record paused record else record) (rr_services run)\<rparr>)))"

definition set_all_paused :: "bool \<Rightarrow> handle_id list \<Rightarrow> app_state \<Rightarrow> app_state" where
  "set_all_paused paused handles st = foldl (\<lambda>s h. set_paused (Some h) paused s) st handles"

definition set_watch_paused ::
  "bool \<Rightarrow> run_id \<Rightarrow> service_name option \<Rightarrow> app_state \<Rightarrow> service_name list app_result \<times> app_state" where
  "set_watch_paused paused run_id target st =
     (case with_run_state run_id (pause_services paused target) st of
        (Inl _, st1) \<Rightarrow> (Inl (Not_Found (run_not_found run_id)), st1)
      | (Inr (Inl e), st1) \<Rightarrow> (Inl e, st1)
      | (Inr (Inr (handles, targets)), st1) \<Rightarrow> (Inr targets, set_all_paused paused handles st1))"

definition pause_watch :: "run_id \<Rightarrow> service_name option \<Rightarrow> app_state \<Rightarrow> unit app_result \<times> app_state" where
  "pause_watch run_id service st =
     (let (r, st1) = set_watch_paused True run_id service st in (rbind r (\<lambda>_. Inr ()), st1))"

definition resume_watch :: "world \<Rightarrow> run_id \<Rightarrow> service_name option \<Rightarrow> app_state \<Rightarrow> unit app_result \<times> app_state" where
  "resume_watch wo run_id service st =
     (case set_watch_paused False run_id service st of
        (Inl e, st1) \<Rightarrow> (Inl e, st1)
      | (Inr targets, st1) \<Rightarrow>
          (Inr (), foldl (\<lambda>s target. snd (sync_service_auto_restart_watcher wo run_id target s)) st1 targets))"

section \<open>Collecting stopped runs\<close>

text \<open>\<open>parse_time\<close> reads a time of day and date, \<open>threshold\<close> is the oldest time that is kept.\<close>

definition gc_removable :: "(string \<Rightarrow> int option) \<Rightarrow> int \<Rightarrow> run_record \<Rightarrow> bool" where
  "gc_removable parse_time threshold run \<longleftrightarrow>
     rr_state run = Run_Stopped
     \<and> (case rr_stopped_at run of
          None \<Rightarrow> True
        | Some stopped_at \<Rightarrow>
            (case parse_time stopped_at of
               Some stopped_time \<Rightarrow> stopped_time \<le> threshold
             | None \<Rightarrow> False))"

fun gc_runs ::
  "world \<Rightarrow> (string \<Rightarrow> int option) \<Rightarrow> int \<Rightarrow> run_id list \<Rightarrow> app_state \<Rightarrow> run_id list result \<times> app_state" where
  "gc_runs wo parse_time threshold [] st = (Inr [], st)"
| "gc_runs wo parse_time threshold (run_id # run_ids) st =
     (case map_of (ap_runs st) run_id of
        None \<Rightarrow> gc_runs wo parse_time threshold run_ids st
      | Some run \<Rightarrow>
          if \<not> gc_removable parse_time threshold run then gc_runs wo parse_time threshold run_ids st
          else (case run_dir (wo_paths wo) run_id of
                  Inl e \<Rightarrow> (Inl (panicked e), st)
                | Inr dir \<Rightarrow>
                    (let st1 = remove_dir_all wo dir st;
                         (removed, st2) = gc_runs wo parse_time threshold run_ids
                           (st1\<lparr>ap_runs := bm_remove run_id (ap_runs st1)\<rparr>) in
                     (rbind removed (\<lambda>rs. Inr (run_id # rs)), st2))))"

text \<open>The part of \<open>run_gc\<close> on runs. A run id that is no directory name is a panic.\<close>

definition run_gc :: "world \<Rightarrow> (string \<Rightarrow> int option) \<Rightarrow> int \<Rightarrow> app_state \<Rightarrow> run_id list result \<times> app_state" where
  "run_gc wo parse_time threshold st =
     (case gc_runs wo parse_time threshold (bm_keys (ap_runs st)) st of
        (Inl e, st1) \<Rightarrow> (Inl e, st1)
      | (Inr removed, st1) \<Rightarrow>
          (Inr removed, snd (write_daemon_state wo (emit_events (map run_removed_event removed) st1))))"

section \<open>Facts about stopping\<close>

lemma unit_calls_eq: "unit_calls wo commands st = st\<lparr>ap_units := ap_units st @ commands\<rparr>"
  by (induction commands arbitrary: st) (simp_all add: unit_call_def)

text \<open>The ports of the services with the names they are held under.\<close>

definition held_ports :: "run_id \<Rightarrow> service_ports \<Rightarrow> (u16 \<times> string) list" where
  "held_ports run_id entries =
     concat (map (\<lambda>(service, port, listen_port).
       (case listen_port of
          None \<Rightarrow> []
        | Some l \<Rightarrow> if Some l = port then [] else [(l, capture_backend_port_owner run_id service)])
       @ (case port of None \<Rightarrow> [] | Some p \<Rightarrow> [(p, port_owner run_id service)])) entries)"

lemma each_append:
  "ports.each op (xs @ ys) s =
     (case ports.each op xs s of (Inl e, s') \<Rightarrow> (Inl e, s') | (Inr _, s') \<Rightarrow> ports.each op ys s')"
  by (induction op xs s rule: ports.each.induct) (auto split: prod.split sum.split)

lemma release_all_ports_each:
  "release_all_ports wo run_id entries st =
     (fst (ports.each (release_port (wo_os wo)) (held_ports run_id entries) (ap_ports st)),
      st\<lparr>ap_ports := snd (ports.each (release_port (wo_os wo)) (held_ports run_id entries) (ap_ports st))\<rparr>)"
proof (induction entries arbitrary: st)
  case Nil
  then show ?case by (simp add: held_ports_def)
next
  case (Cons entry entries)
  obtain s port listen_port where entry: "entry = (s, port, listen_port)" by (metis surj_pair)
  have one: "release_both_ports wo run_id entry st' =
      (fst (ports.each (release_port (wo_os wo)) (held_ports run_id [entry]) (ap_ports st')),
       st'\<lparr>ap_ports := snd (ports.each (release_port (wo_os wo)) (held_ports run_id [entry]) (ap_ports st'))\<rparr>)" for st'
    by (cases listen_port; cases port)
      (auto simp: entry release_both_ports_def held_ports_def release_service_port_def
        release_service_capture_backend_port_def Let_def split: prod.split sum.split)
  have split: "held_ports run_id (entry # entries) = held_ports run_id [entry] @ held_ports run_id entries"
    by (simp add: held_ports_def)
  show ?case
    by (simp add: one Cons.IH split each_append case_prod_beta split: sum.split)
qed

lemma stop_services_eq:
  "snd (stop_services now run_id services) =
     map (\<lambda>(n, s). (n, snd (set_service_state now run_id n Sv_Stopped s))) services"
  by (induction services) (auto simp: case_prod_beta Let_def)

lemma set_service_state_result [simp]:
  "sr_state (snd (set_service_state now run_id service state record)) = state"
  "sr_handles (snd (set_service_state now run_id service state record)) = sr_handles record"
  "sr_launch (snd (set_service_state now run_id service state record)) = sr_launch record"
  "sr_spec (snd (set_service_state now run_id service state record)) = sr_spec record"
  by (simp_all add: set_service_state_def)

lemma stop_run_result:
  "rr_state (snd (stop_run now run_id run)) = Run_Stopped"
  "rr_stopped_at (snd (stop_run now run_id run)) = Some now"
  "rr_run_id (snd (stop_run now run_id run)) = rr_run_id run"
  "bm_keys (rr_services (snd (stop_run now run_id run))) = bm_keys (rr_services run)"
  "(\<forall>s \<in> set (bm_values (rr_services run)). P (sr_handles s)) \<Longrightarrow>
   \<forall>s \<in> set (bm_values (rr_services (snd (stop_run now run_id run)))). sr_state s = Sv_Stopped \<and> P (sr_handles s)"
  by (auto simp: stop_run_def stop_services_eq bm_keys_def bm_values_def case_prod_beta Let_def)

lemma finish_with_response_ok:
  assumes "map_of (ap_runs st) run_id = Some run" and "run_manifest_path (wo_paths wo) (rr_run_id run) = Inr path"
    and "daemon_state_path (wo_paths wo) = Inr state_path" and "\<forall>p. wo_write wo p = None"
  shows "finish_with_response wo run_id st =
    (Inr (run_response_from_record run path),
     st\<lparr>ap_manifests := bm_insert path (persisted_run_of run path) (ap_manifests st),
        ap_state_file := Some (bm_keys (ap_runs st))\<rparr>)"
  using assms
  by (simp add: finish_with_response_def persist_manifest_def get_run_def write_daemon_state_def
      run_response_of_def internal_error_def)

text \<open>Stopping a run whose ports are its own, from the closure on its handles to the answer.\<close>

lemma finish_stop_ok:
  assumes "map_of (ap_runs st) run_id = Some run" and "run_manifest_path (wo_paths wo) (rr_run_id run) = Inr path"
    and "daemon_state_path (wo_paths wo) = Inr state_path" and "\<forall>p. wo_write wo p = None"
    and "registry_usable (wo_os wo) (ap_ports st)"
    and "\<forall>(p, owner) \<in> set (held_ports run_id entries). holder (wo_os wo) (ap_ports st) p \<in> {None, Some owner}"
  shows "\<exists>response st'. finish_stop wo run_id entries st = (Inr response, st') \<and>
    map_of (ap_runs st') run_id = Some (snd (stop_run (wo_now wo) run_id run)) \<and>
    ap_units st' = ap_units st \<and> ap_stopped st' = ap_stopped st \<and>
    holder (wo_os wo) (ap_ports st') =
      (\<lambda>p. if p \<in> fst ` set (held_ports run_id entries) then None else holder (wo_os wo) (ap_ports st) p) \<and>
    map_of (ap_manifests st') path = Some (persisted_run_of (snd (stop_run (wo_now wo) run_id run)) path)"
proof -
  obtain ports where ports: "ports.each (release_port (wo_os wo)) (held_ports run_id entries) (ap_ports st) = (Inr (), ports)"
    and held: "holder (wo_os wo) ports =
      (\<lambda>p. if p \<in> fst ` set (held_ports run_id entries) then None else holder (wo_os wo) (ap_ports st) p)"
    using ports.release_each_held [OF assms(5,6)] by blast
  let ?run' = "snd (stop_run (wo_now wo) run_id run)"
  let ?st1 = "emit_events (fst (stop_run (wo_now wo) run_id run))
      (st\<lparr>ap_ports := ports, ap_runs := bm_update run_id (\<lambda>_. ?run') (ap_runs st)\<rparr>)"
  have run': "map_of (ap_runs ?st1) run_id = Some ?run'" using assms(1) by simp
  have path': "run_manifest_path (wo_paths wo) (rr_run_id ?run') = Inr path"
    using assms(2) by (simp add: stop_run_result)
  have "finish_stop wo run_id entries st = finish_with_response wo run_id ?st1"
    by (simp add: finish_stop_def release_all_ports_each ports with_run_state_eq assms(1))
  then show ?thesis
    unfolding finish_with_response_ok [OF run' path' assms(3,4)]
    using assms(1) by (simp add: held)
qed

lemma take_handles_fields [simp]:
  "sr_handles (take_handles r) = no_handles" "sr_launch (take_handles r) = sr_launch r"
  "sr_runtime (take_handles r) = sr_runtime r" "sr_spec (take_handles r) = sr_spec r"
  by (simp_all add: take_handles_def)

lemma bm_values_map: "bm_values (bm_map f m) = map (\<lambda>(k, v). f k v) m"
  by (simp add: bm_values_def bm_map_def case_prod_beta o_def)

lemma service_ports_of_taken:
  "service_ports_of (run\<lparr>rr_services := bm_map (\<lambda>_. take_handles) (rr_services run)\<rparr>) = service_ports_of run"
  by (simp add: service_ports_of_def bm_map_def case_prod_beta o_def)

definition handles_of :: "service_record \<Rightarrow> handle_id set" where
  "handles_of record = set (monitor_handles record) \<union> set (proxy_handles record)"

section \<open>Properties\<close>

text \<open>
  C10. Taking a run down on a working machine succeeds: the run and all its services are stopped
  and keep no handle, every monitor, watcher and proxy they had is stopped, each unit is told to
  stop, exactly the ports of the run are free again, and the manifest on disk says stopped.
\<close>

theorem down_stops_everything:
  assumes "map_of (ap_runs st) run_id = Some run" and "run_manifest_path (wo_paths wo) (rr_run_id run) = Inr path"
    and "daemon_state_path (wo_paths wo) = Inr state_path" and "\<forall>p. wo_write wo p = None"
    and "registry_usable (wo_os wo) (ap_ports st)"
    and "\<forall>(p, owner) \<in> set (held_ports run_id (service_ports_of run)). holder (wo_os wo) (ap_ports st) p \<in> {None, Some owner}"
  shows "\<exists>response st' run'. down wo run_id False st = (Inr response, st') \<and>
    map_of (ap_runs st') run_id = Some run' \<and> rr_state run' = Run_Stopped \<and> rr_stopped_at run' = Some (wo_now wo) \<and>
    bm_keys (rr_services run') = bm_keys (rr_services run) \<and>
    (\<forall>s \<in> set (bm_values (rr_services run')). sr_state s = Sv_Stopped \<and> sr_handles s = no_handles) \<and>
    (\<forall>s \<in> set (bm_values (rr_services run)). handles_of s \<subseteq> set (ap_stopped st')) \<and>
    ap_units st' = ap_units st @ map (\<lambda>s. Unit_Stop (unit_name_for_run run_id s)) (bm_keys (rr_services run)) \<and>
    holder (wo_os wo) (ap_ports st') =
      (\<lambda>p. if p \<in> fst ` set (held_ports run_id (service_ports_of run)) then None else holder (wo_os wo) (ap_ports st) p) \<and>
    (\<exists>m. map_of (ap_manifests st') path = Some m \<and> pr_state m = Run_Stopped)"
proof -
  define run1 where "run1 = run\<lparr>rr_services := bm_map (\<lambda>_. take_handles) (rr_services run)\<rparr>"
  define handles where "handles = concat (map monitor_handles (bm_values (rr_services run)))
      @ concat (map proxy_handles (bm_values (rr_services run)))"
  let ?cmds = "map (\<lambda>s. Unit_Stop (unit_name_for_run run_id s)) (bm_keys (rr_services run))"
  let ?st1 = "(raise_flags handles (st\<lparr>ap_runs := bm_update run_id (\<lambda>_. run1) (ap_runs st)\<rparr>))\<lparr>ap_units := ap_units st @ ?cmds\<rparr>"
  have handles: "stop_service_handles run_id st = raise_flags handles (st\<lparr>ap_runs := bm_update run_id (\<lambda>_. run1) (ap_runs st)\<rparr>)"
    by (simp add: stop_service_handles_def take_run_handles_def with_run_state_eq assms(1) run1_def handles_def Let_def)
  have run1: "map_of (ap_runs ?st1) run_id = Some run1" using assms(1) by simp
  have ports: "service_ports_of run1 = service_ports_of run" by (simp add: run1_def service_ports_of_taken)
  have "(\<lambda>(service, _, _). Unit_Stop (unit_name_for_run run_id service)) = (\<lambda>x. Unit_Stop (unit_name_for_run run_id (fst x)))"
    by auto
  then have cmds: "map (\<lambda>(service, _, _). Unit_Stop (unit_name_for_run run_id service)) (service_ports_of run) = ?cmds"
    by (simp add: service_ports_of_def bm_keys_def case_prod_beta o_def)
  have "rr_run_id run1 = rr_run_id run" by (simp add: run1_def)
  then have path1: "run_manifest_path (wo_paths wo) (rr_run_id run1) = Inr path" using assms(2) by simp
  have usable: "registry_usable (wo_os wo) (ap_ports ?st1)" using assms(5) by simp
  have mine: "\<forall>(p, owner) \<in> set (held_ports run_id (service_ports_of run)). holder (wo_os wo) (ap_ports ?st1) p \<in> {None, Some owner}"
    using assms(6) by simp
  obtain response st' where stop: "finish_stop wo run_id (service_ports_of run) ?st1 = (Inr response, st')"
    and result: "map_of (ap_runs st') run_id = Some (snd (stop_run (wo_now wo) run_id run1))"
      "ap_units st' = ap_units ?st1" "ap_stopped st' = ap_stopped ?st1"
      "holder (wo_os wo) (ap_ports st') =
        (\<lambda>p. if p \<in> fst ` set (held_ports run_id (service_ports_of run)) then None else holder (wo_os wo) (ap_ports ?st1) p)"
      "map_of (ap_manifests st') path = Some (persisted_run_of (snd (stop_run (wo_now wo) run_id run1)) path)"
    using finish_stop_ok [OF run1 path1 assms(3,4) usable mine] by blast
  have down: "down wo run_id False st = (Inr response, st')"
    using stop assms(1)
    by (simp add: down_def handles with_run_def ports cmds unit_calls_eq Let_def)
  have none: "\<forall>s \<in> set (bm_values (rr_services run1)). sr_handles s = no_handles"
    by (auto simp: run1_def bm_values_map)
  have "\<forall>s \<in> set (bm_values (rr_services run)). handles_of s \<subseteq> set (ap_stopped st')"
    by (auto simp: result(3) handles_def handles_of_def)
  moreover have "ap_ports ?st1 = ap_ports st" "ap_units ?st1 = ap_units st @ ?cmds" by simp_all
  moreover have "bm_keys (rr_services run1) = bm_keys (rr_services run)" by (simp add: run1_def)
  moreover have "pr_state (persisted_run_of r path) = rr_state r" for r by (simp add: persisted_run_of_def)
  ultimately show ?thesis
    using down result(1) result(2) result(4) result(5) stop_run_result(5) [OF none]
    unfolding \<open>ap_ports ?st1 = ap_ports st\<close>
    by (intro exI [of _ response] exI [of _ st'] exI [of _ "snd (stop_run (wo_now wo) run_id run1)"])
      (simp add: stop_run_result)
qed

definition example_down :: app_state where
  "example_down =
     (example_state running_run)
       \<lparr>ap_ports := Reg_Stored [(6000, \<lparr>re_owner = port_owner ''r1'' ''web'', re_daemon_pid = 7\<rparr>)]\<rparr>"

lemma example_down_facts:
  "map_of (ap_runs example_down) ''r1'' = Some running_run"
  "service_ports_of running_run = [(''web'', Some 6000, Some 6000)]"
  "registry_usable (wo_os example_world) (ap_ports example_down)"
  "ap_units example_down = []" "bm_keys (rr_services running_run) = [''web'']"
  "bm_values (rr_services running_run) = [with_health 3 (example_record ''web'' Sv_Ready)]"
  "holder (wo_os example_world) (ap_ports example_down) 6000 = Some (port_owner ''r1'' ''web'')"
  "rr_run_id running_run = ''r1''"
  by (simp_all add: example_down_def example_state_def running_run_def new_run_record_def service_ports_of_def
      with_health_def example_record_def registry_usable_def example_world_def example_os_def
      is_pid_alive_def bm_ok_def bm_keys_def bm_values_def holder_def owners_def cleanup_stale_def bm_retain_def)

lemma example_down_paths:
  "run_manifest_path (wo_paths example_world) ''r1'' = Inr ''/data/runs/r1/manifest.json''"
  "daemon_state_path (wo_paths example_world) = Inr ''/data/daemon/state.json''"
  by code_simp+

theorem down_stops_everything_witness:
  "\<exists>response st' run'. down example_world ''r1'' False example_down = (Inr response, st') \<and>
     map_of (ap_runs st') ''r1'' = Some run' \<and> rr_state run' = Run_Stopped \<and>
     3 \<in> set (ap_stopped st') \<and> ap_units st' = [Unit_Stop (unit_name_for_run ''r1'' ''web'')] \<and>
     holder (wo_os example_world) (ap_ports st') 6000 = None"
proof -
  have writes: "\<forall>p. wo_write example_world p = None" by (simp add: example_world_def)
  have held: "held_ports ''r1'' [(''web'', Some 6000, Some 6000)] = [(6000, port_owner ''r1'' ''web'')]"
    by (simp add: held_ports_def)
  have mine: "\<forall>(p, owner) \<in> set (held_ports ''r1'' (service_ports_of running_run)).
      holder (wo_os example_world) (ap_ports example_down) p \<in> {None, Some owner}"
    by (simp add: example_down_facts held)
  have handle: "3 \<in> handles_of (with_health 3 (example_record ''web'' Sv_Ready))"
    by (simp add: handles_of_def monitor_handles_def with_health_def)
  have path: "run_manifest_path (wo_paths example_world) (rr_run_id running_run) = Inr ''/data/runs/r1/manifest.json''"
    by (simp add: example_down_facts example_down_paths)
  from down_stops_everything [OF example_down_facts(1) path example_down_paths(2) writes
      example_down_facts(3) mine]
  show ?thesis
    unfolding example_down_facts held by (elim exE conjE, intro exI conjI) (use handle in auto)
qed

section \<open>What a launch commands\<close>

lemma handle_readiness_units [simp]:
  "ap_units (snd (handle_readiness wo waited run_id p no_wait post_init st)) = ap_units st"
  by (simp add: handle_readiness_def case_prod_beta Let_def split: sum.split)

lemma after_start_units [simp]:
  "ap_units (snd (after_start wo waited run_id project_dir service tasks p no_wait st)) = ap_units st"
  by (simp add: after_start_def case_prod_beta Let_def split: sum.split)

lemma release_previous_ports_units [simp]:
  "ap_units (snd (release_previous_ports wo run_id service existing p st)) = ap_units st"
  by (simp add: release_previous_ports_def case_prod_beta Let_def split: sum.split)

lemma store_service_launch_result_units [simp]:
  "ap_units (snd (store_service_launch_result wo run_id service p r st)) = ap_units st"
  by (simp add: store_service_launch_result_def case_prod_beta Let_def split: sum.split)

lemma sync_unchanged_service_units [simp]:
  "ap_units (snd (sync_unchanged_service wo run_id service p st)) = ap_units st"
  by (simp add: sync_unchanged_service_def case_prod_beta Let_def split: sum.split)

lemma record_failed_init_service_units [simp]:
  "ap_units (snd (record_failed_init_service wo run_id service p err st)) = ap_units st"
  by (simp add: record_failed_init_service_def case_prod_beta Let_def split: sum.split)

text \<open>The commands that start one service.\<close>

definition launch_commands ::
  "world \<Rightarrow> instance_scope \<Rightarrow> snapshots \<Rightarrow> prepared_service \<Rightarrow> unit_command list" where
  "launch_commands wo scope existing p =
     (if bm_contains existing (ps_name p) then [Unit_Stop (ps_unit_name p)] else [])
     @ [Unit_Start (ps_unit_name p) (shim_properties wo scope p)]"

lemma start_and_store_units:
  "ap_units (snd (start_and_store wo waited scope run_id project_dir service tasks p no_wait existing st)) =
     ap_units st @ launch_commands wo scope existing p"
  by (simp add: start_and_store_def start_prepared_service_def launch_commands_def case_prod_beta Let_def
      split: sum.split)

lemma launch_service_units:
  "(\<exists>p. ps_name p = service_name \<and> ps_unit_name p = unit_name_for_scope scope service_name \<and>
      ap_units (snd (launch_service wo pv init waits scope run_id plan project_dir resources no_wait force
        existing service_name st)) = ap_units st @ launch_commands wo scope existing p)
   \<or> ap_units (snd (launch_service wo pv init waits scope run_id plan project_dir resources no_wait force
        existing service_name st)) = ap_units st"
  by (auto simp: launch_service_def start_and_store_units split: option.split sum.split
      elim!: prepare_service_parts)

lemma launch_each_units:
  assumes "\<And>s st. (\<exists>p. N s p \<and> ap_units (snd (launch s st)) = ap_units st @ C p) \<or>
      ap_units (snd (launch s st)) = ap_units st"
  shows "\<exists>ps ss. subseq ss services \<and> list_all2 N ss ps \<and>
    ap_units (snd (launch_each launch services st)) = ap_units st @ concat (map C ps)"
proof (induction services arbitrary: st)
  case Nil
  then show ?case by (intro exI [of _ "[]"]) simp
next
  case (Cons s services)
  let ?st1 = "snd (launch s st)"
  have first: "\<exists>ps ss. subseq ss [s] \<and> list_all2 N ss ps \<and> ap_units ?st1 = ap_units st @ concat (map C ps)"
    using assms [of s st]
  proof (elim disjE exE conjE)
    fix p assume "N s p" "ap_units ?st1 = ap_units st @ C p"
    then show ?thesis by (intro exI [of _ "[p]"] exI [of _ "[s]"]) simp
  next
    assume "ap_units ?st1 = ap_units st"
    then show ?thesis by (intro exI [of _ "[]"]) simp
  qed
  then obtain ps ss where 1: "subseq ss [s]" "list_all2 N ss ps" "ap_units ?st1 = ap_units st @ concat (map C ps)"
    by blast
  obtain qs ts where 2: "subseq ts services" "list_all2 N ts qs"
      "ap_units (snd (launch_each launch services ?st1)) = ap_units ?st1 @ concat (map C qs)"
    using Cons.IH by blast
  show ?case
  proof (cases "fst (launch s st)")
    case (Inl e)
    moreover have "subseq ss (s # services)" using 1(1) by (metis append_Cons append_Nil list_emb_append2 list_emb_prefix)
    ultimately show ?thesis using 1(2,3) by (intro exI [of _ ps] exI [of _ ss]) (simp add: case_prod_beta)
  next
    case (Inr u)
    have "subseq (ss @ ts) (s # services)" using list_emb_append_mono [OF 1(1) 2(1)] by simp
    moreover have "list_all2 N (ss @ ts) (ps @ qs)" using 1(2) 2(2) by (rule list_all2_appendI)
    ultimately show ?thesis
      using Inr 1(3) 2(3) by (intro exI [of _ "ps @ qs"] exI [of _ "ss @ ts"]) (simp add: case_prod_beta)
  qed
qed

lemma launch_each_all:
  assumes "\<And>s st. fst (launch s st) = Inr () \<Longrightarrow>
      \<exists>p. N s p \<and> ap_units (snd (launch s st)) = ap_units st @ C p"
    and "fst (launch_each launch services st) = Inr ()"
  shows "\<exists>ps. list_all2 N services ps \<and>
    ap_units (snd (launch_each launch services st)) = ap_units st @ concat (map C ps)"
  using assms(2)
proof (induction services arbitrary: st)
  case (Cons s services)
  then have ok: "fst (launch s st) = Inr ()" "fst (launch_each launch services (snd (launch s st))) = Inr ()"
    by (simp_all add: case_prod_beta split: sum.splits)
  obtain p where 1: "N s p" "ap_units (snd (launch s st)) = ap_units st @ C p" using assms(1) [OF ok(1)] by blast
  obtain ps where 2: "list_all2 N services ps" "ap_units (snd (launch_each launch services (snd (launch s st)))) =
      ap_units (snd (launch s st)) @ concat (map C ps)"
    using Cons.IH [OF ok(2)] by blast
  show ?case using ok(1) 1 2 by (intro exI [of _ "p # ps"]) (simp add: case_prod_beta)
qed simp

lemma launch_service_starts:
  assumes "fst (launch_service wo pv init waits scope run_id plan project_dir resources no_wait force [] s st) = Inr ()"
    and "\<And>p. init p = Inr ()"
  shows "\<exists>p. (\<exists>service. map_of (sp_services plan) s = Some service \<and> prepare_service pv scope project_dir (lr_config_dir resources) s service (lr_port_map resources)
      (lr_listen_port_map resources) (lr_service_schemes resources) (lr_base_env resources) (lr_global_env resources)
      (lr_global_env_file_path resources) = Inr p) \<and>
    ps_name p = s \<and> ps_unit_name p = unit_name_for_scope scope s \<and>
    ap_units (snd (launch_service wo pv init waits scope run_id plan project_dir resources no_wait force [] s st)) =
      ap_units st @ launch_commands wo scope [] p"
  using assms
  by (auto simp: launch_service_def start_and_store_units split: option.splits sum.splits if_splits
      elim!: prepare_service_parts)

section \<open>The order of a launch\<close>

text \<open>
  Whatever fails, a launch issues its commands in the order of the plan: it starts the units
  of some of the planned services, each service at most once and in that order, and stops a
  unit only right before starting it, when the run had the service already.
\<close>

theorem launch_follows_plan:
  "\<exists>ps. subseq (map ps_name ps) (sp_order plan) \<and>
     map ps_unit_name ps = map (\<lambda>p. unit_name_for_run run_id (ps_name p)) ps \<and>
     ap_units (snd (launch_services wo pv init waits run_id plan project_dir resources no_wait force existing st)) =
       ap_units st @ concat (map (\<lambda>p.
         (if bm_contains existing (ps_name p) then [Unit_Stop (ps_unit_name p)] else [])
         @ [Unit_Start (ps_unit_name p) (shim_properties wo (Scope_Run run_id (sp_name plan)) p)]) ps)"
proof -
  let ?scope = "Scope_Run run_id (sp_name plan)"
  let ?N = "\<lambda>s p. ps_name p = s \<and> ps_unit_name p = unit_name_for_scope ?scope s"
  let ?launch = "launch_service wo pv init waits ?scope run_id plan project_dir resources no_wait force existing"
  have "(\<exists>p. ?N s p \<and> ap_units (snd (?launch s st')) = ap_units st' @ launch_commands wo ?scope existing p) \<or>
      ap_units (snd (?launch s st')) = ap_units st'" for s st'
    using launch_service_units [of s ?scope wo pv init waits run_id plan project_dir resources no_wait force existing st']
    by blast
  then obtain ps ss where 1: "subseq ss (sp_order plan)" "list_all2 ?N ss ps"
      "ap_units (snd (launch_services wo pv init waits run_id plan project_dir resources no_wait force existing st)) =
        ap_units st @ concat (map (launch_commands wo ?scope existing) ps)"
    using launch_each_units [of ?N ?launch "launch_commands wo ?scope existing" "sp_order plan" st]
    unfolding launch_services_def by blast
  have names: "map ps_name ps = ss" "map ps_unit_name ps = map (\<lambda>p. unit_name_for_run run_id (ps_name p)) ps"
    using 1(2) by (induction rule: list_all2_induct) simp_all
  show ?thesis
    using 1(1,3) names unfolding launch_commands_def [abs_def] by (intro exI [of _ ps]) simp
qed

text \<open>
  C11. When a new run launches without an error and no init task fails, every service of the
  stack is started exactly once, as it was prepared from its configuration, and only after every service
  of the stack that its configuration names as a dependency.
\<close>

theorem launch_starts_dependencies_first:
  assumes "map_of (cf_stacks config) name = Some stack" and "bm_ok (st_services stack)"
    and "stack_plan_of config name = Inr plan" and "\<And>p. init p = Inr ()"
    and "fst (launch_services wo pv init waits run_id plan project_dir resources no_wait force [] st) = Inr ()"
  shows "\<exists>ps. distinct (map ps_name ps) \<and> set (map ps_name ps) = set (bm_keys (st_services stack)) \<and>
    (\<forall>i < length ps. \<exists>service. map_of (st_services stack) (ps_name (ps ! i)) = Some service \<and>
       prepare_service pv (Scope_Run run_id (sp_name plan)) project_dir (lr_config_dir resources) (ps_name (ps ! i)) service
         (lr_port_map resources) (lr_listen_port_map resources) (lr_service_schemes resources) (lr_base_env resources)
         (lr_global_env resources) (lr_global_env_file_path resources) = Inr (ps ! i) \<and>
       (\<forall>d \<in> set (sc_deps service). bm_contains (st_services stack) d \<longrightarrow> d \<in> ps_name ` set (take i ps))) \<and>
    ap_units (snd (launch_services wo pv init waits run_id plan project_dir resources no_wait force [] st)) =
      ap_units st @ map (\<lambda>p. Unit_Start (unit_name_for_run run_id (ps_name p))
        (shim_properties wo (Scope_Run run_id (sp_name plan)) p)) ps"
proof -
  let ?S = "st_services stack" and ?scope = "Scope_Run run_id (sp_name plan)"
  let ?prepared = "\<lambda>s service p. prepare_service pv ?scope project_dir (lr_config_dir resources) s service
    (lr_port_map resources) (lr_listen_port_map resources) (lr_service_schemes resources) (lr_base_env resources)
    (lr_global_env resources) (lr_global_env_file_path resources) = Inr p"
  let ?N = "\<lambda>s p. (\<exists>service. map_of (sp_services plan) s = Some service \<and> ?prepared s service p) \<and>
    ps_name p = s \<and> ps_unit_name p = unit_name_for_scope ?scope s"
  have plan: "topo_sort ?S = Inr (sp_order plan)" "sp_services plan = ?S"
    using assms(1,3) by (auto simp: stack_plan_of_def Let_def rbind_eq_Inr split: option.splits)
  note sound = topo_sort_sound [OF assms(2) plan(1)]
  let ?launch = "launch_service wo pv init waits ?scope run_id plan project_dir resources no_wait force []"
  have "\<exists>p. ?N s p \<and> ap_units (snd (?launch s st')) = ap_units st' @ launch_commands wo ?scope [] p"
    if "fst (?launch s st') = Inr ()" for s st'
    using launch_service_starts [OF that assms(4)] by blast
  then obtain ps where 1: "list_all2 ?N (sp_order plan) ps"
      "ap_units (snd (launch_services wo pv init waits run_id plan project_dir resources no_wait force [] st)) =
        ap_units st @ concat (map (launch_commands wo ?scope []) ps)"
    using launch_each_all [of ?launch ?N "launch_commands wo ?scope []" "sp_order plan" st] assms(5)
    unfolding launch_services_def by blast
  have names: "map ps_name ps = sp_order plan" and units: "concat (map (launch_commands wo ?scope []) ps) =
      map (\<lambda>p. Unit_Start (unit_name_for_run run_id (ps_name p)) (shim_properties wo ?scope p)) ps"
    using 1(1) by (induction rule: list_all2_induct) (simp_all add: launch_commands_def bm_contains_def)
  have ordered: "\<exists>service. map_of ?S (ps_name (ps ! i)) = Some service \<and> ?prepared (ps_name (ps ! i)) service (ps ! i) \<and>
      (\<forall>d \<in> set (sc_deps service). bm_contains ?S d \<longrightarrow> d \<in> ps_name ` set (take i ps))" if i: "i < length ps" for i
  proof -
    have len: "length ps = length (sp_order plan)" using names by (metis length_map)
    have name: "ps_name (ps ! i) = sp_order plan ! i" using i by (metis names nth_map)
    obtain service where s: "map_of ?S (sp_order plan ! i) = Some service" "?prepared (sp_order plan ! i) service (ps ! i)"
      using list_all2_nthD2 [OF 1(1) i] plan(2) by auto
    have "d \<in> ps_name ` set (take i ps)" if "d \<in> set (sc_deps service)" "bm_contains ?S d" for d
    proof -
      have "d \<in> set (deps_of ?S (sp_order plan ! i))" using that(1) s(1) by (simp add: deps_of_def)
      then have "d \<in> set (take i (sp_order plan))" using sound(3) i that(2) len by (simp add: deps_first_iff)
      then show ?thesis by (simp add: names [symmetric] take_map)
    qed
    then show ?thesis using s name by auto
  qed
  have count: "distinct (map ps_name ps)" "set (map ps_name ps) = set (bm_keys ?S)" using sound(1,2) by (simp_all add: names)
  show ?thesis
    using count ordered 1(2) units by (intro exI [of _ ps]) simp
qed

text \<open>No step of a launch adds or removes a run.\<close>

lemma with_run_state_keys [simp]: "bm_keys (ap_runs (snd (with_run_state run_id f st))) = bm_keys (ap_runs st)"
  by (simp add: with_run_state_eq split: option.split)

lemma mark_service_keys [simp]:
  "bm_keys (ap_runs (snd (mark_service_ready wo run_id service st))) = bm_keys (ap_runs st)"
  "bm_keys (ap_runs (snd (mark_service_failed wo run_id service reason st))) = bm_keys (ap_runs st)"
  by (simp_all add: mark_service_ready_def mark_service_failed_def with_run_state_eq Let_def
      split: option.split prod.split sum.split)

lemma finish_helpers_keys [simp]:
  "bm_keys (ap_runs (finish_watch run_id service handle st)) = bm_keys (ap_runs st)"
  "bm_keys (ap_runs (snd (finish_capture run_id service handle st))) = bm_keys (ap_runs st)"
  by (simp_all add: finish_watch_def finish_capture_def case_prod_beta split: option.split bool.split sum.split)

lemma new_handle_runs [simp]: "ap_runs (snd (new_handle st)) = ap_runs st"
  by (simp add: new_handle_def)

lemma sync_watcher_keys [simp]:
  "bm_keys (ap_runs (snd (sync_service_auto_restart_watcher wo run_id service st))) = bm_keys (ap_runs st)"
  by (simp add: sync_service_auto_restart_watcher_def case_prod_beta split: watch_decision.split sum.split)

lemma sync_capture_keys [simp]:
  "bm_keys (ap_runs (snd (sync_service_api_capture_proxy wo run_id service st))) = bm_keys (ap_runs st)"
  by (simp add: sync_service_api_capture_proxy_def case_prod_beta split: capture_decision.split sum.split)

lemma handle_readiness_keys [simp]:
  "bm_keys (ap_runs (snd (handle_readiness wo waited run_id p no_wait post_init st))) = bm_keys (ap_runs st)"
  by (simp add: handle_readiness_def case_prod_beta Let_def split: sum.split)

lemma after_start_keys [simp]:
  "bm_keys (ap_runs (snd (after_start wo waited run_id project_dir service tasks p no_wait st))) = bm_keys (ap_runs st)"
  by (simp add: after_start_def case_prod_beta Let_def split: sum.split)

lemma start_parts_keys [simp]:
  "ap_runs (snd (start_prepared_service wo scope p restart st)) = ap_runs st"
  "ap_runs (snd (release_previous_ports wo run_id service existing p st)) = ap_runs st"
  by (simp_all add: start_prepared_service_def release_previous_ports_def case_prod_beta Let_def split: sum.split)

lemma store_service_launch_result_keys [simp]:
  "bm_keys (ap_runs (snd (store_service_launch_result wo run_id service p r st))) = bm_keys (ap_runs st)"
  by (simp add: store_service_launch_result_def case_prod_beta Let_def split: sum.split)

lemma start_and_store_keys [simp]:
  "bm_keys (ap_runs (snd (start_and_store wo waited scope run_id project_dir service tasks p no_wait existing st))) =
     bm_keys (ap_runs st)"
  by (simp add: start_and_store_def case_prod_beta Let_def split: sum.split)

lemma with_run_state_ok: "run_id \<in> set (bm_keys (ap_runs st)) \<Longrightarrow> fst (with_run_state run_id f st) \<noteq> Inl e"
  by (auto simp: with_run_state_eq set_bm_keys)

lemma sync_capture_ok:
  assumes "run_id \<in> set (bm_keys (ap_runs st))" and "\<And>r s a b. wo_proxy wo r s a b = Inr ()"
  shows "fst (sync_service_api_capture_proxy wo run_id service st) = Inr ()"
proof -
  have "fst (finish_capture run_id service h st') = Inr ()" if "run_id \<in> set (bm_keys (ap_runs st'))" for h st'
    using that by (simp add: with_run_state_ok finish_capture_def case_prod_beta split: sum.split bool.split)
  then show ?thesis
    using assms
    by (simp add: with_run_state_ok sync_service_api_capture_proxy_def case_prod_beta split: sum.split capture_decision.split)
qed

lemma start_and_store_ok:
  assumes "run_id \<in> set (bm_keys (ap_runs st))" and "\<And>r s a b. wo_proxy wo r s a b = Inr ()"
  shows "fst (start_and_store wo waited scope run_id project_dir service tasks p True [] st) = Inr ()"
proof -
  let ?st1 = "snd (start_prepared_service wo scope p False st)" and ?r = "fst (start_prepared_service wo scope p False st)"
  let ?stored = "store_service_launch_result wo run_id (ps_name p) p ?r ?st1"
  have released: "release_previous_ports wo run_id (ps_name p) [] p st' = (Inr (), st')" for st'
    by (simp add: release_previous_ports_def snapshot_port_def snapshot_listen_port_def Let_def)
  have stored: "fst ?stored = Inr ()"
    using assms(1)
    by (simp add: with_run_state_ok store_service_launch_result_def case_prod_beta Let_def split: sum.split)
  have keys: "run_id \<in> set (bm_keys (ap_runs (snd ?stored)))" using assms(1) by simp
  have synced: "fst (sync_service_api_capture_proxy wo run_id (ps_name p) (snd ?stored)) = Inr ()"
    by (rule sync_capture_ok [OF keys assms(2)])
  have "fst (after_start wo waited run_id project_dir service tasks p True (snd ?stored)) = Inr ()"
    using synced by (simp add: after_start_def handle_readiness_def case_prod_beta)
  then show ?thesis
    using stored
    by (cases ?r) (simp_all add: start_and_store_def bm_contains_def released case_prod_beta)
qed

text \<open>Without waiting, a first launch succeeds as soon as its services can be prepared.\<close>

lemma launch_services_ok:
  assumes "run_id \<in> set (bm_keys (ap_runs st))" and "\<And>r s a b. wo_proxy wo r s a b = Inr ()" and "\<And>p. init p = Inr ()"
    and "\<And>s. s \<in> set (sp_order plan) \<Longrightarrow> \<exists>service p. map_of (sp_services plan) s = Some service \<and>
      prepare_service pv (Scope_Run run_id (sp_name plan)) project_dir (lr_config_dir resources) s service
        (lr_port_map resources) (lr_listen_port_map resources) (lr_service_schemes resources)
        (lr_base_env resources) (lr_global_env resources) (lr_global_env_file_path resources) = Inr p"
  shows "fst (launch_services wo pv init waits run_id plan project_dir resources True force [] st) = Inr ()"
proof -
  let ?launch = "launch_service wo pv init waits (Scope_Run run_id (sp_name plan)) run_id plan project_dir resources True force []"
  have one: "fst (?launch s st') = Inr () \<and> run_id \<in> set (bm_keys (ap_runs (snd (?launch s st'))))"
    if s: "s \<in> set (sp_order plan)" and st': "run_id \<in> set (bm_keys (ap_runs st'))" for s st'
  proof -
    obtain service p where "map_of (sp_services plan) s = Some service"
      "prepare_service pv (Scope_Run run_id (sp_name plan)) project_dir (lr_config_dir resources) s service
        (lr_port_map resources) (lr_listen_port_map resources) (lr_service_schemes resources)
        (lr_base_env resources) (lr_global_env resources) (lr_global_env_file_path resources) = Inr p"
      using assms(4) [OF s] by blast
    then have "?launch s st' = start_and_store wo (waits p) (Scope_Run run_id (sp_name plan)) run_id project_dir service
        (resolve_service_tasks service (lr_tasks_map resources)) p True [] st'"
      by (simp add: launch_service_def assms(3) split: option.split)
    then show ?thesis using start_and_store_ok [OF st' assms(2)] st' by simp
  qed
  have "fst (launch_each ?launch services st') = Inr ()"
    if "set services \<subseteq> set (sp_order plan)" and "run_id \<in> set (bm_keys (ap_runs st'))" for services st'
    using that by (induction services arbitrary: st') (use one in \<open>simp_all add: case_prod_beta\<close>)
  then show ?thesis using assms(1) by (simp add: launch_services_def)
qed

definition pair_services :: services where
  "pair_services = [(''api'', bare_service ''run-api''\<lparr>sc_deps := [''db'']\<rparr>), (''db'', bare_service ''run-db'')]"

definition pair_config :: config_file where
  "pair_config =
     \<lparr>cf_version = 1, cf_stacks = [(''dev'', \<lparr>st_services = pair_services\<rparr>)], cf_default_stack = None,
      cf_globals = None, cf_tasks = None, cf_env = [], cf_env_file = None\<rparr>"

definition pair_plan :: stack_plan where
  "pair_plan = \<lparr>sp_name = ''dev'', sp_services = pair_services, sp_order = [''db'', ''api'']\<rparr>"

definition pair_resources :: launch_resources where
  "pair_resources =
     \<lparr>lr_config_dir = ''/p'', lr_tasks_map = [], lr_port_map = [], lr_listen_port_map = [],
      lr_service_schemes = [], lr_base_env = [], lr_global_env = [], lr_global_env_file_path = None\<rparr>"

lemma pair_plan_of: "stack_plan_of pair_config ''dev'' = Inr pair_plan"
proof -
  have "topo_sort pair_services = Inr [''db'', ''api'']" unfolding pair_services_def by code_simp
  then show ?thesis by (simp add: stack_plan_of_def pair_config_def pair_plan_def Let_def)
qed

lemma pair_log_paths:
  "log_path_for_scope (pv_paths example_pv) (Scope_Run ''r1'' ''dev'') ''/p'' ''api'' = Inr ''/data/runs/r1/logs/api.log''"
  "log_path_for_scope (pv_paths example_pv) (Scope_Run ''r1'' ''dev'') ''/p'' ''db'' = Inr ''/data/runs/r1/logs/db.log''"
  by code_simp+

lemma pair_prepared:
  assumes "log_path_for_scope (pv_paths example_pv) (Scope_Run ''r1'' ''dev'') ''/p'' s = Inr path"
  shows "\<exists>p. prepare_service example_pv (Scope_Run ''r1'' ''dev'') ''/p'' ''/p'' s (bare_service c\<lparr>sc_deps := deps\<rparr>)
    [] [] [] [] [] None = Inr p"
proof -
  have pv: "pv_render example_pv t c = Inr t" "pv_json_to_vec example_pv j = Inr ''{}''"
    "pv_watch_hash example_pv a b d e f = Inr ''h''" "load_env_file example_pv path = Inr []" for t c j a b d e f path
    by (simp_all add: load_env_file_def example_pv_def)
  show ?thesis
    by (simp add: prepare_service_def Let_def resolve_cwd_path_def assms pv
        resolve_env_file_path_def resolve_rendered_path_def render_patterns_def prepared_env_def
        readiness_spec_of_def readiness_kind_of_def bare_service_def del: log_path_for_scope.simps)
qed

lemma pair_ready:
  assumes "s \<in> set (sp_order pair_plan)"
  shows "\<exists>service p. map_of (sp_services pair_plan) s = Some service \<and>
      prepare_service example_pv (Scope_Run ''r1'' (sp_name pair_plan)) ''/p'' (lr_config_dir pair_resources) s service
        (lr_port_map pair_resources) (lr_listen_port_map pair_resources) (lr_service_schemes pair_resources)
        (lr_base_env pair_resources) (lr_global_env pair_resources) (lr_global_env_file_path pair_resources) = Inr p"
proof -
  have db: "bare_service ''run-db'' = bare_service ''run-db''\<lparr>sc_deps := []\<rparr>" by (simp add: bare_service_def)
  show ?thesis
    using assms pair_prepared [OF pair_log_paths(1), of "[''db'']" "''run-api''"]
      pair_prepared [OF pair_log_paths(2), of "[]" "''run-db''"]
    by (auto simp: pair_plan_def pair_resources_def pair_services_def db [symmetric])
qed

theorem launch_starts_dependencies_first_witness:
  "\<exists>ps. distinct (map ps_name ps) \<and> set (map ps_name ps) = {''api'', ''db''} \<and>
     ap_units (snd (launch_services example_world example_pv (\<lambda>_. Inr ()) (\<lambda>_. Inr ()) ''r1'' pair_plan ''/p''
       pair_resources True False [] (example_state running_run))) =
     map (\<lambda>p. Unit_Start (unit_name_for_run ''r1'' (ps_name p))
       (shim_properties example_world (Scope_Run ''r1'' ''dev'') p)) ps"
proof -
  have stack: "map_of (cf_stacks pair_config) ''dev'' = Some \<lparr>st_services = pair_services\<rparr>" "bm_ok pair_services"
    by (simp_all add: pair_config_def pair_services_def bm_ok_def)
  have "fst (launch_services example_world example_pv (\<lambda>_. Inr ()) (\<lambda>_. Inr ()) ''r1'' pair_plan ''/p''
      pair_resources True False [] (example_state running_run)) = Inr ()"
    by (rule launch_services_ok [OF _ _ _ pair_ready])
      (simp_all add: example_state_def running_run_def new_run_record_def bm_keys_def example_world_def)
  from launch_starts_dependencies_first [OF stack(1) _ pair_plan_of _ this] stack(2)
  have "\<exists>ps. distinct (map ps_name ps) \<and> set (map ps_name ps) = set (bm_keys pair_services) \<and>
     ap_units (snd (launch_services example_world example_pv (\<lambda>_. Inr ()) (\<lambda>_. Inr ()) ''r1'' pair_plan ''/p''
       pair_resources True False [] (example_state running_run))) =
     ap_units (example_state running_run) @ map (\<lambda>p. Unit_Start (unit_name_for_run ''r1'' (ps_name p))
       (shim_properties example_world (Scope_Run ''r1'' (sp_name pair_plan)) p)) ps"
    by auto
  then show ?thesis
    by (simp add: pair_plan_def example_state_def pair_services_def bm_keys_def)
qed

end
