(* ===== verification/Housekeeping.thy ===== *)
theory Housekeeping
  imports Lifecycle
begin

text \<open>
  Properties of the commands of theory \<open>Lifecycle\<close> that keep a run as it is: refreshing an
  unchanged service, pausing watchers, and collecting stopped runs.
\<close>

section \<open>Synchronising the helpers of a service\<close>

text \<open>Two runs that differ only in the handles their services hold.\<close>

definition sans_handles :: "service_record \<Rightarrow> service_record" where
  "sans_handles record = record\<lparr>sr_handles := no_handles\<rparr>"

definition service_at :: "app_state \<Rightarrow> run_id \<Rightarrow> service_name \<Rightarrow> service_record option" where
  "service_at st run_id service = Option.bind (map_of (ap_runs st) run_id) (\<lambda>run. map_of (rr_services run) service)"

lemma service_at_updated:
  assumes "\<And>record. g (snd (f record)) = g record"
  shows "map_option g (service_at (snd (with_run_state r (update_service s f absent) st)) r' s') =
    map_option g (service_at st r' s')"
  using assms
  by (auto simp: service_at_def with_run_state_eq update_service_eq split: option.split)

lemma helper_closures_sans [simp]:
  "sans_handles (snd (decide_watch record)) = sans_handles record"
  "sans_handles (snd (install_watch h record)) = sans_handles record"
  "sans_handles (snd (decide_capture record)) = sans_handles record"
  "sans_handles (snd (install_capture h record)) = sans_handles record"
  by (simp_all add: decide_watch_def install_watch_def decide_capture_def install_capture_def sans_handles_def
      stop_watch_def stop_api_capture_def case_prod_beta split: option.split)

lemma service_at_frame [simp]:
  "service_at (raise_flags hs st) = service_at st" "service_at (set_paused h b st) = service_at st"
  "service_at (emit_events es st) = service_at st" "service_at (snd (new_handle st)) = service_at st"
  by (simp_all add: service_at_def new_handle_def fun_eq_iff)

lemma finish_helpers_sans [simp]:
  "map_option sans_handles (service_at (finish_watch r s h st) r' s') = map_option sans_handles (service_at st r' s')"
  "map_option sans_handles (service_at (snd (finish_capture r s h st)) r' s') = map_option sans_handles (service_at st r' s')"
  by (simp_all add: finish_watch_def finish_capture_def case_prod_beta service_at_updated
      split: sum.split option.split bool.split)

lemma sync_helpers_sans [simp]:
  "map_option sans_handles (service_at (snd (sync_service_auto_restart_watcher wo r s st)) r' s') =
     map_option sans_handles (service_at st r' s')"
  "map_option sans_handles (service_at (snd (sync_service_api_capture_proxy wo r s st)) r' s') =
     map_option sans_handles (service_at st r' s')"
  by (simp_all add: sync_service_auto_restart_watcher_def sync_service_api_capture_proxy_def case_prod_beta
      service_at_updated split: sum.split watch_decision.split capture_decision.split)

section \<open>Properties\<close>

text \<open>
  A refresh leaves a service alone that is running with the fingerprint it is prepared with:
  systemd gets no command and the registry is not touched; the record takes over the prepared
  specification and launch plan, but keeps its state, its last failure and its start time; no other
  service changes in more than its handles.
\<close>

theorem unchanged_service_left_alone:
  assumes "service_at st run_id service_name = Some record" and "map_of (sp_services plan) service_name = Some service"
    and "prepare_service pv scope project_dir (lr_config_dir resources) service_name service (lr_port_map resources)
      (lr_listen_port_map resources) (lr_service_schemes resources) (lr_base_env resources) (lr_global_env resources)
      (lr_global_env_file_path resources) = Inr p"
    and "map_of existing service_name = Some snapshot" and "sn_watch_hash snapshot = Some (ps_watch_hash p)"
    and "sn_state snapshot \<in> {Sv_Starting, Sv_Ready}"
  shows "\<exists>st' record'. launch_service wo pv init waits scope run_id plan project_dir resources no_wait False
      existing service_name st = (Inr (), st') \<and>
    ap_units st' = ap_units st \<and> ap_ports st' = ap_ports st \<and>
    service_at st' run_id service_name = Some record' \<and> sr_spec record' = prepared_spec p \<and>
    sr_launch record' = prepared_launch_plan p \<and> sr_runtime record' = sr_runtime record \<and>
    (\<forall>r s. (r, s) \<noteq> (run_id, service_name) \<longrightarrow>
       map_option sans_handles (service_at st' r s) = map_option sans_handles (service_at st r s))"
proof -
  let ?f = "update_service service_name (apply_unchanged p) []"
  let ?st1 = "snd (with_run_state run_id ?f st)"
  let ?applied = "fst (apply_prepared_to_runtime record p False)"
  have "existing \<noteq> []" using assms(4) by auto
  then have launch: "launch_service wo pv init waits scope run_id plan project_dir resources no_wait False existing
      service_name st = sync_unchanged_service wo run_id service_name p st"
    using assms(2-6) by (auto simp: launch_service_def service_needs_restart_def)
  obtain run where run: "map_of (ap_runs st) run_id = Some run" "map_of (rr_services run) service_name = Some record"
    using assms(1) by (auto simp: service_at_def bind_eq_Some_conv)
  have first: "fst (with_run_state run_id ?f st) = Inr (snd (apply_prepared_to_runtime record p False))"
    using run by (simp add: with_run_state_eq update_service_eq apply_unchanged_def case_prod_beta Let_def)
  have at: "service_at ?st1 r s = (if (r, s) = (run_id, service_name) then Some ?applied else service_at st r s)" for r s
    using run by (simp add: with_run_state_eq update_service_eq apply_unchanged_def service_at_def case_prod_beta Let_def)
  obtain st' where st': "sync_unchanged_service wo run_id service_name p st = (Inr (), st')"
    and same: "ap_units st' = ap_units st" "ap_ports st' = ap_ports st"
      "map_option sans_handles (service_at st' r s) = map_option sans_handles (service_at ?st1 r s)" for r s
    using first by (simp add: sync_unchanged_service_def case_prod_beta Let_def)
  obtain record' where record': "service_at st' run_id service_name = Some record'"
      "sans_handles record' = sans_handles ?applied"
    using same(3) [of run_id service_name, unfolded at] by (auto split: if_splits)
  then have fields: "sr_spec record' = sr_spec ?applied" "sr_launch record' = sr_launch ?applied"
      "sr_runtime record' = sr_runtime ?applied"
    by (auto simp: sans_handles_def dest: arg_cong [of _ _ sr_spec] arg_cong [of _ _ sr_launch] arg_cong [of _ _ sr_runtime])
  have applied: "sr_spec ?applied = prepared_spec p" "sr_launch ?applied = prepared_launch_plan p"
      "sr_runtime ?applied = sr_runtime record"
    by (simp_all add: apply_prepared_eq case_prod_beta Let_def)
  show ?thesis
    using launch st' same(1,2) record'(1) fields applied same(3) [unfolded at]
    by (intro exI [of _ st'] exI [of _ record']) auto
qed

definition api_run :: run_record where
  "api_run =
     (new_run_record ''t0'' ''r1'' ''dev'' ''/p'' ''/p'' [])
       \<lparr>rr_services := [(''api'', example_record ''api'' Sv_Ready)], rr_state := Run_Running\<rparr>"

theorem unchanged_service_left_alone_witness:
  "\<exists>(p :: prepared_service) st'. launch_service example_world example_pv (\<lambda>_. Inr ()) (\<lambda>_. Inr ()) (Scope_Run ''r1'' ''dev'') ''r1'' pair_plan
      ''/p'' pair_resources True False [(''api'', \<lparr>sn_watch_hash = Some (ps_watch_hash p), sn_state = Sv_Ready,
        sn_port = None, sn_listen_port = None\<rparr>)] ''api'' (example_state api_run) = (Inr (), st') \<and> ap_units st' = []"
proof -
  have service: "map_of (sp_services pair_plan) ''api'' = Some (bare_service ''run-api''\<lparr>sc_deps := [''db'']\<rparr>)"
    by (simp add: pair_plan_def pair_services_def)
  obtain p where p: "prepare_service example_pv (Scope_Run ''r1'' ''dev'') ''/p'' (lr_config_dir pair_resources) ''api''
      (bare_service ''run-api''\<lparr>sc_deps := [''db'']\<rparr>) (lr_port_map pair_resources) (lr_listen_port_map pair_resources)
      (lr_service_schemes pair_resources) (lr_base_env pair_resources) (lr_global_env pair_resources)
      (lr_global_env_file_path pair_resources) = Inr p"
    using pair_prepared [OF pair_log_paths(1), of "[''db'']" "''run-api''"] by (auto simp: pair_resources_def)
  have at: "service_at (example_state api_run) ''r1'' ''api'' = Some (example_record ''api'' Sv_Ready)"
    by (simp add: service_at_def example_state_def api_run_def new_run_record_def)
  have none: "ap_units (example_state api_run) = []" by (simp add: example_state_def)
  let ?snapshot = "\<lparr>sn_watch_hash = Some (ps_watch_hash p), sn_state = Sv_Ready, sn_port = None, sn_listen_port = None\<rparr>"
  have "map_of [(''api'', ?snapshot)] ''api'' = Some ?snapshot" "sn_watch_hash ?snapshot = Some (ps_watch_hash p)"
    "sn_state ?snapshot \<in> {Sv_Starting, Sv_Ready}" by simp_all
  from unchanged_service_left_alone [OF at service p this, where wo = example_world and init = "\<lambda>_. Inr ()"
      and waits = "\<lambda>_. Inr ()" and no_wait = True] none
  show ?thesis by (intro exI [of _ p]) auto
qed

text \<open>
  Pausing the watcher of a service that restarts itself marks the service as paused and raises
  the pause flag of its running watcher; resuming lowers both. Any other service is refused.
\<close>

theorem pause_watch_reaches_watcher:
  assumes "service_at st run_id service = Some record"
  shows "case set_watch_paused paused run_id (Some service) st of
      (Inl e, st') \<Rightarrow> \<not> ss_auto_restart (sr_spec record) \<and> e = no_auto_restart service \<and> service_at st' = service_at st
    | (Inr targets, st') \<Rightarrow> ss_auto_restart (sr_spec record) \<and> targets = [service] \<and>
        service_at st' run_id service = Some (pause_record paused record) \<and>
        (case h_watch (sr_handles record) of
           None \<Rightarrow> ap_paused st' = ap_paused st
         | Some h \<Rightarrow> map_of (ap_paused st') h = Some paused)"
proof -
  obtain run where run: "map_of (ap_runs st) run_id = Some run" "map_of (rr_services run) service = Some record"
    using assms by (auto simp: service_at_def bind_eq_Some_conv)
  show ?thesis
    using run
    by (auto simp: set_watch_paused_def with_run_state_eq pause_services_def service_at_def set_all_paused_def
        set_paused_def bind_eq_Some_conv fun_eq_iff split: option.split)
qed

definition watched_record :: service_record where
  "watched_record =
     (example_record ''api'' Sv_Ready)
       \<lparr>sr_spec := (sr_spec (example_record ''api'' Sv_Ready))\<lparr>ss_auto_restart := True\<rparr>,
        sr_handles := no_handles\<lparr>h_watch := Some 4\<rparr>\<rparr>"

theorem pause_watch_reaches_watcher_witness:
  "case set_watch_paused True ''r1'' (Some ''api'') (example_state (api_run\<lparr>rr_services := [(''api'', watched_record)]\<rparr>)) of
     (r, st') \<Rightarrow> r = Inr [''api''] \<and> map_of (ap_paused st') 4 = Some True"
proof -
  let ?st = "example_state (api_run\<lparr>rr_services := [(''api'', watched_record)]\<rparr>)"
  have "service_at ?st ''r1'' ''api'' = Some watched_record"
    by (simp add: service_at_def example_state_def api_run_def new_run_record_def)
  note reached = pause_watch_reaches_watcher [OF this, of True]
  obtain r st' where st': "set_watch_paused True ''r1'' (Some ''api'') ?st = (r, st')" by fastforce
  show ?thesis using reached unfolding st' by (cases r) (simp_all add: watched_record_def)
qed

lemma gc_runs_removed:
  assumes "map_of (ap_runs st) run_id = Some run" and "gc_removable parse_time threshold run"
    and "run_dir (wo_paths wo) run_id = Inr dir"
  shows "\<exists>st1. ap_runs st1 = bm_remove run_id (ap_runs st) \<and> ap_ports st1 = ap_ports st \<and> ap_units st1 = ap_units st \<and>
    ap_events st1 = ap_events st \<and>
    gc_runs wo parse_time threshold (run_id # run_ids) st =
      (rbind (fst (gc_runs wo parse_time threshold run_ids st1)) (\<lambda>rs. Inr (run_id # rs)),
       snd (gc_runs wo parse_time threshold run_ids st1))"
proof -
  define st1 where "st1 = remove_dir_all wo dir st"
  have "ap_runs st1 = ap_runs st" "ap_ports st1 = ap_ports st" "ap_units st1 = ap_units st" "ap_events st1 = ap_events st"
    by (simp_all add: st1_def remove_dir_all_def)
  then show ?thesis
    using assms by (intro exI [of _ "st1\<lparr>ap_runs := bm_remove run_id (ap_runs st1)\<rparr>"])
      (simp add: st1_def [symmetric] case_prod_beta Let_def)
qed

abbreviation removable_in :: "(string \<Rightarrow> int option) \<Rightarrow> int \<Rightarrow> app_state \<Rightarrow> run_id \<Rightarrow> bool" where
  "removable_in parse_time threshold st \<equiv>
     \<lambda>r. \<exists>run. map_of (ap_runs st) r = Some run \<and> gc_removable parse_time threshold run"

lemma gc_runs_spec:
  assumes "bm_ok (ap_runs st)" and "distinct run_ids"
    and "\<And>r. r \<in> set run_ids \<Longrightarrow> \<exists>dir. run_dir (wo_paths wo) r = Inr dir"
  shows "\<exists>st'. gc_runs wo parse_time threshold run_ids st = (Inr (filter (removable_in parse_time threshold st) run_ids), st') \<and>
    bm_ok (ap_runs st') \<and>
    map_of (ap_runs st') =
      (\<lambda>r. if r \<in> set run_ids \<and> removable_in parse_time threshold st r then None else map_of (ap_runs st) r) \<and>
    ap_ports st' = ap_ports st \<and> ap_units st' = ap_units st \<and> ap_events st' = ap_events st"
  using assms
proof (induction run_ids arbitrary: st)
  case (Cons run_id run_ids)
  show ?case
  proof (cases "removable_in parse_time threshold st run_id")
    case True
    then obtain run where run: "map_of (ap_runs st) run_id = Some run" "gc_removable parse_time threshold run" by blast
    obtain dir where dir: "run_dir (wo_paths wo) run_id = Inr dir" using Cons.prems(3) [of run_id] by auto
    obtain st1 where st1: "ap_runs st1 = bm_remove run_id (ap_runs st)" "ap_ports st1 = ap_ports st"
      "ap_units st1 = ap_units st" "ap_events st1 = ap_events st" "gc_runs wo parse_time threshold (run_id # run_ids) st =
        (rbind (fst (gc_runs wo parse_time threshold run_ids st1)) (\<lambda>rs. Inr (run_id # rs)),
         snd (gc_runs wo parse_time threshold run_ids st1))"
      using gc_runs_removed [OF run dir] by blast
    have same: "filter (removable_in parse_time threshold st1) run_ids = filter (removable_in parse_time threshold st) run_ids"
      using Cons.prems(2) by (intro filter_cong) (auto simp: st1(1))
    have "bm_ok (ap_runs st1)" using Cons.prems(1) by (simp add: st1(1) bm_ok_remove)
    from Cons.IH [OF this] Cons.prems(2,3) obtain st' where
      "gc_runs wo parse_time threshold run_ids st1 = (Inr (filter (removable_in parse_time threshold st) run_ids), st')"
      "bm_ok (ap_runs st')" "map_of (ap_runs st') =
        (\<lambda>r. if r \<in> set run_ids \<and> removable_in parse_time threshold st1 r then None else map_of (ap_runs st1) r)"
      "ap_ports st' = ap_ports st" "ap_units st' = ap_units st" "ap_events st' = ap_events st"
      using same st1 by auto
    then show ?thesis
      using True run st1(5) Cons.prems(2) by (intro exI [of _ st']) (auto simp: st1(1) fun_eq_iff simp del: gc_runs.simps)
  next
    case False
    then have "gc_runs wo parse_time threshold (run_id # run_ids) st = gc_runs wo parse_time threshold run_ids st"
      by (auto split: option.split)
    then show ?thesis using Cons.IH [of st] Cons.prems False by (auto simp: fun_eq_iff)
  qed
qed simp

text \<open>
  C12. The collection removes exactly the runs that are stopped and whose stop time, if there is one, is
  readable and no later than the threshold, and reports each of them. It keeps every other run, sends
  systemd nothing and releases no port.
\<close>

theorem gc_removes_old_stopped_runs:
  assumes "bm_ok (ap_runs st)" and "\<And>r. r \<in> set (bm_keys (ap_runs st)) \<Longrightarrow> \<exists>dir. run_dir (wo_paths wo) r = Inr dir"
  shows "\<exists>removed st'. run_gc wo parse_time threshold st = (Inr removed, st') \<and>
    removed = filter (\<lambda>r. \<exists>run. map_of (ap_runs st) r = Some run \<and> rr_state run = Run_Stopped \<and>
      (\<forall>at. rr_stopped_at run = Some at \<longrightarrow> (\<exists>t. parse_time at = Some t \<and> t \<le> threshold))) (bm_keys (ap_runs st)) \<and>
    ap_runs st' = bm_retain (\<lambda>r _. r \<notin> set removed) (ap_runs st) \<and>
    ap_units st' = ap_units st \<and> ap_ports st' = ap_ports st \<and>
    ap_events st' = ap_events st @ map run_removed_event removed"
proof -
  obtain st1 where spec: "gc_runs wo parse_time threshold (bm_keys (ap_runs st)) st =
      (Inr (filter (removable_in parse_time threshold st) (bm_keys (ap_runs st))), st1)" "bm_ok (ap_runs st1)"
    "map_of (ap_runs st1) = (\<lambda>r. if r \<in> set (bm_keys (ap_runs st)) \<and> removable_in parse_time threshold st r
      then None else map_of (ap_runs st) r)"
    "ap_ports st1 = ap_ports st" "ap_units st1 = ap_units st" "ap_events st1 = ap_events st"
    using gc_runs_spec [OF assms(1) bm_ok_distinct [OF assms(1)] assms(2), of parse_time threshold] by blast
  have old: "gc_removable parse_time threshold run \<longleftrightarrow> rr_state run = Run_Stopped \<and>
      (\<forall>at. rr_stopped_at run = Some at \<longrightarrow> (\<exists>t. parse_time at = Some t \<and> t \<le> threshold))" for run
    by (auto simp: gc_removable_def split: option.splits)
  let ?removed = "filter (removable_in parse_time threshold st) (bm_keys (ap_runs st))"
  have "ap_runs st1 = bm_retain (\<lambda>r _. r \<notin> set ?removed) (ap_runs st)"
    by (rule bm_ok_eqI [OF spec(2) bm_ok_retain [OF assms(1)]])
      (auto simp: spec(3) map_of_bm_retain [OF assms(1)] set_bm_keys fun_eq_iff split: option.split)
  then show ?thesis using spec by (simp add: run_gc_def old)
qed

definition old_run :: run_record where
  "old_run = (new_run_record ''t0'' ''r2'' ''dev'' ''/p'' ''/p'' [])\<lparr>rr_state := Run_Stopped, rr_stopped_at := Some ''t0''\<rparr>"

theorem gc_removes_old_stopped_runs_witness:
  "\<exists>st'. run_gc example_world (\<lambda>_. Some 5) 10 ((example_state api_run)\<lparr>ap_runs := [(''r1'', api_run), (''r2'', old_run)]\<rparr>) =
     (Inr [''r2''], st') \<and> ap_runs st' = [(''r1'', api_run)]"
proof -
  let ?st = "(example_state api_run)\<lparr>ap_runs := [(''r1'', api_run), (''r2'', old_run)]\<rparr>"
  have dirs: "run_dir (wo_paths example_world) ''r1'' = Inr ''/data/runs/r1''"
    "run_dir (wo_paths example_world) ''r2'' = Inr ''/data/runs/r2''" by code_simp+
  have "bm_ok (ap_runs ?st)" by (simp add: bm_ok_def)
  from gc_removes_old_stopped_runs [OF this, where wo = example_world and parse_time = "\<lambda>_. Some 5" and threshold = 10] dirs
  show ?thesis
    by (auto simp: bm_keys_def bm_retain_def api_run_def old_run_def new_run_record_def)
qed

end
