(* ===== verification/Status.thy ===== *)
theory Status
  imports Launch
begin

text \<open>
  What the daemon answers about a run, \<open>src/src/app/queries/status.rs\<close>, with the reader of the
  last lines of a log and its cache, and \<open>src/src/app/commands/reconcile.rs\<close>, which writes
  the answer back into the run. The lines of a log are bytes here; \<open>String::from_utf8_lossy\<close>
  is the parameter \<open>decode\<close>, since the text of this model has no scalar values above 255.
\<close>

section \<open>The last lines of a log\<close>

record error_line =
  er_timestamp :: "string option"
  er_message :: string

definition recent_error_from_raw :: "json_parser \<Rightarrow> string \<Rightarrow> error_line" where
  "recent_error_from_raw parse raw_line =
     \<lparr>er_timestamp = extract_timestamp_str parse raw_line, er_message = snd (extract_log_content parse raw_line)\<rparr>"

text \<open>What a line contributes, before the limit is considered.\<close>

definition stderr_line :: "json_parser \<Rightarrow> (string \<Rightarrow> string) \<Rightarrow> string \<Rightarrow> error_line option" where
  "stderr_line parse decode raw =
     (if \<not> contains_str raw ''stderr'' then None
      else (let line = strip_ansi_if_needed (trim_newlines (decode raw)) in
            if line = [] then None
            else if fst (extract_log_content parse line) \<noteq> ''stderr'' then None
            else Some (recent_error_from_raw parse line)))"

definition push_recent_stderr_line ::
  "json_parser \<Rightarrow> (string \<Rightarrow> string) \<Rightarrow> nat \<Rightarrow> string \<Rightarrow> error_line list \<Rightarrow> error_line list" where
  "push_recent_stderr_line parse decode limit raw found =
     (if limit \<le> length found then found
      else (case stderr_line parse decode raw of None \<Rightarrow> found | Some e \<Rightarrow> found @ [e]))"

definition rposition :: "char \<Rightarrow> string \<Rightarrow> nat option" where
  "rposition c s =
     (if c \<in> set s then Some (length s - 1 - length (takeWhile (\<lambda>d. d \<noteq> c) (rev s))) else None)"

lemma rposition_Some:
  assumes "rposition c s = Some i"
  shows "i < length s" and "s = take i s @ c # drop (Suc i) s" and "c \<notin> set (drop (Suc i) s)"
proof -
  have "c \<in> set s" using assms by (auto simp: rposition_def split: if_splits)
  then obtain ys zs where s: "s = ys @ c # zs" "c \<notin> set zs" by (meson split_list_last)
  have "takeWhile (\<lambda>d. d \<noteq> c) (rev s) = rev zs"
    using s by (simp add: takeWhile_append2) (metis (mono_tags, lifting) set_rev takeWhile_append2 takeWhile.simps(2) append_Nil2)
  then have "i = length ys" using assms s by (auto simp: rposition_def)
  then show "i < length s" "s = take i s @ c # drop (Suc i) s" "c \<notin> set (drop (Suc i) s)" using s by auto
qed

text \<open>The lines of a chunk from its end, and what is left before its first newline.\<close>

function scan_chunk ::
  "(string \<Rightarrow> error_line list \<Rightarrow> error_line list) \<Rightarrow> nat \<Rightarrow> string \<Rightarrow> error_line list \<Rightarrow> error_line list \<times> string" where
  "scan_chunk push limit chunk found =
     (case rposition (CHR 0x0A) chunk of
        None \<Rightarrow> (found, chunk)
      | Some i \<Rightarrow>
          (let found' = push (drop (Suc i) chunk) found in
           if limit \<le> length found' then (found', take i chunk)
           else scan_chunk push limit (take i chunk) found'))"
  by auto
termination by (relation "measure (\<lambda>(push, limit, chunk, found). length chunk)") (auto dest: rposition_Some(1))

declare scan_chunk.simps [simp del]

definition chunk_size :: nat where
  "chunk_size = 65536"

text \<open>The chunks of the file from its end; \<open>offset\<close> bytes are not read yet.\<close>

function read_back ::
  "(string \<Rightarrow> error_line list \<Rightarrow> error_line list) \<Rightarrow> nat \<Rightarrow> string \<Rightarrow> nat \<Rightarrow> string \<Rightarrow> error_line list \<Rightarrow>
     error_line list \<times> string" where
  "read_back push limit bytes offset trailing found =
     (if 0 < offset \<and> length found < limit then
        (let read_len = min offset chunk_size;
             offset' = offset - read_len;
             chunk = take read_len (drop offset' bytes) @ trailing;
             (found', trailing') = scan_chunk push limit chunk found in
         read_back push limit bytes offset' trailing' found')
      else (found, trailing))"
  by auto
termination by (relation "measure (\<lambda>(push, limit, bytes, offset, trailing, found). offset)") (auto simp: chunk_size_def)

declare read_back.simps [simp del]

definition recent_stderr_lines_from_bytes ::
  "json_parser \<Rightarrow> (string \<Rightarrow> string) \<Rightarrow> string \<Rightarrow> nat \<Rightarrow> error_line list" where
  "recent_stderr_lines_from_bytes parse decode bytes limit =
     (let push = push_recent_stderr_line parse decode limit;
          (found, trailing) = read_back push limit bytes (length bytes) [] [];
          found' = (if length found < limit \<and> trailing \<noteq> [] then push trailing found else found) in
      rev found')"

text \<open>The file as it is when it is opened; \<open>None\<close> when there is none.\<close>

definition recent_stderr_lines_from_file ::
  "json_parser \<Rightarrow> (string \<Rightarrow> string) \<Rightarrow> string option \<Rightarrow> nat \<Rightarrow> error_line list" where
  "recent_stderr_lines_from_file parse decode content limit =
     (if limit = 0 then []
      else (case content of
              None \<Rightarrow> []
            | Some bytes \<Rightarrow> recent_stderr_lines_from_bytes parse decode bytes limit))"

section \<open>The reader reads the last lines\<close>

definition last_stderr_lines ::
  "json_parser \<Rightarrow> (string \<Rightarrow> string) \<Rightarrow> string \<Rightarrow> nat \<Rightarrow> error_line list" where
  "last_stderr_lines parse decode bytes limit =
     (let all = List.map_filter (stderr_line parse decode) (split_on (CHR 0x0A) bytes) in
      drop (length all - limit) all)"

lemma split_on_last: "c \<notin> set zs \<Longrightarrow> split_on c (ys @ c # zs) = split_on c ys @ [zs]"
proof (induction ys)
  case Nil
  then show ?case by (simp add: split_on_absent)
next
  case (Cons y ys)
  obtain p ps where "split_on c ys = p # ps" by (meson split_on_nonempty list.exhaust)
  then show ?case using Cons by simp
qed

text \<open>What the lines of a text give when they are pushed from the last one on.\<close>

definition pushed :: "(string \<Rightarrow> error_line option) \<Rightarrow> nat \<Rightarrow> error_line list \<Rightarrow> string \<Rightarrow> error_line list" where
  "pushed entry limit found txt = take limit (found @ List.map_filter entry (rev (split_on (CHR 0x0A) txt)))"

lemma take_then_append: "take n (take n xs @ ys) = take n (xs @ ys)"
  by (cases "n \<le> length xs") simp_all

lemma push_eq:
  "length found \<le> limit \<Longrightarrow>
   push_recent_stderr_line parse decode limit raw found = take limit (found @ List.map_filter (stderr_line parse decode) [raw])"
  by (auto simp: push_recent_stderr_line_def map_filter_simps split: option.split)

lemma pushed_last_line:
  assumes "CHR 0x0A \<notin> set line"
  shows "pushed entry limit found (txt @ CHR 0x0A # line) = pushed entry limit (take limit (found @ List.map_filter entry [line])) txt"
proof -
  have "pushed entry limit found (txt @ CHR 0x0A # line) =
      take limit ((found @ List.map_filter entry [line]) @ List.map_filter entry (rev (split_on (CHR 0x0A) txt)))"
    using map_filter_append [of entry "[line]" "rev (split_on (CHR 0x0A) txt)"]
    by (simp only: pushed_def split_on_last [OF assms] rev_append rev.simps append_Nil append_Cons append_assoc)
  also have "\<dots> = pushed entry limit (take limit (found @ List.map_filter entry [line])) txt"
    by (simp only: pushed_def take_then_append)
  finally show ?thesis .
qed

lemma pushed_full: "length found = limit \<Longrightarrow> pushed entry limit found txt = found"
  by (simp add: pushed_def)

lemma scan_chunk_pushed:
  assumes "push = push_recent_stderr_line parse decode limit" and "entry = stderr_line parse decode"
    and "length found < limit" and "scan_chunk push limit chunk found = (found', rest)"
  shows "pushed entry limit found (before @ chunk) = pushed entry limit found' (before @ rest) \<and>
    length found' \<le> limit \<and> (length found' < limit \<longrightarrow> CHR 0x0A \<notin> set rest)"
  using assms(3,4)
proof (induction chunk arbitrary: found rule: measure_induct_rule [where f = length])
  case (less chunk)
  show ?case
  proof (cases "rposition (CHR 0x0A) chunk")
    case None
    then have "found' = found" "rest = chunk" using less.prems(2) by (simp_all add: scan_chunk.simps [of push limit chunk found])
    moreover have "CHR 0x0A \<notin> set chunk" using None by (simp add: rposition_def split: if_splits)
    ultimately show ?thesis using less.prems(1) by simp
  next
    case (Some i)
    note line = rposition_Some [OF Some]
    define next_found where "next_found = push (drop (Suc i) chunk) found"
    have pushed: "next_found = take limit (found @ List.map_filter entry [drop (Suc i) chunk])"
      using push_eq less.prems(1) by (simp add: next_found_def assms(1,2))
    have "before @ chunk = (before @ take i chunk) @ CHR 0x0A # drop (Suc i) chunk" using line(2) by simp
    then have step: "pushed entry limit found (before @ chunk) = pushed entry limit next_found (before @ take i chunk)"
      using pushed_last_line [OF line(3)] pushed by metis
    have bound: "length next_found \<le> limit" using pushed by simp
    show ?thesis
    proof (cases "limit \<le> length next_found")
      case True
      then have "found' = next_found" "rest = take i chunk"
        using less.prems(2) Some by (simp_all add: scan_chunk.simps [of push limit chunk found] next_found_def)
      then show ?thesis using step bound True by simp
    next
      case False
      then have "scan_chunk push limit (take i chunk) next_found = (found', rest)"
        using less.prems(2) Some by (simp add: scan_chunk.simps [of push limit chunk found] next_found_def)
      then show ?thesis using less.IH [of "take i chunk" next_found] line(1) False step by simp
    qed
  qed
qed

lemma read_back_pushed:
  assumes "push = push_recent_stderr_line parse decode limit" and "entry = stderr_line parse decode"
    and "offset \<le> length bytes" and "length found \<le> limit"
    and "length found < limit \<Longrightarrow> CHR 0x0A \<notin> set trailing"
    and "read_back push limit bytes offset trailing found = (found', rest)"
  shows "length found' \<le> limit \<and>
    pushed entry limit found (take offset bytes @ trailing) = (if length found' < limit then pushed entry limit found' rest else found') \<and>
    (length found' < limit \<longrightarrow> CHR 0x0A \<notin> set rest)"
  using assms(3-6)
proof (induction offset arbitrary: trailing found rule: less_induct)
  case (less offset)
  show ?case
  proof (cases "0 < offset \<and> length found < limit")
    case False
    then show ?thesis
      using less.prems by (auto simp: read_back.simps [of push limit bytes offset trailing found] pushed_full)
  next
    case True
    define low where "low = offset - min offset chunk_size"
    have low: "low < offset" "low \<le> length bytes" "offset = low + min offset chunk_size"
      using True less.prems(1) by (auto simp: low_def chunk_size_def)
    obtain found1 rest1 where scan: "scan_chunk push limit (take (min offset chunk_size) (drop low bytes) @ trailing) found = (found1, rest1)"
      by fastforce
    have more: "read_back push limit bytes low rest1 found1 = (found', rest)"
      using less.prems(4) True scan by (simp add: read_back.simps [of push limit bytes offset trailing found] low_def Let_def)
    have "take offset bytes = take low bytes @ take (min offset chunk_size) (drop low bytes)"
      using low(3) by (metis take_add)
    then have step: "pushed entry limit found (take offset bytes @ trailing) = pushed entry limit found1 (take low bytes @ rest1)"
      and bound: "length found1 \<le> limit" and clean: "length found1 < limit \<longrightarrow> CHR 0x0A \<notin> set rest1"
      using scan_chunk_pushed [OF assms(1,2) conjunct2 [OF True] scan, of "take low bytes"] by simp_all
    show ?thesis using less.IH [OF low(1,2) bound _ more] clean step by simp
  qed
qed

lemma reader_reads_last_lines: "recent_stderr_lines_from_bytes parse decode bytes limit = last_stderr_lines parse decode bytes limit"
proof -
  define push where "push = push_recent_stderr_line parse decode limit"
  define entry where "entry = stderr_line parse decode"
  obtain found rest where read: "read_back push limit bytes (length bytes) [] [] = (found, rest)" by fastforce
  note all = read_back_pushed [OF push_def entry_def order.refl _ _ read, simplified]
  have "(if length found < limit \<and> rest \<noteq> [] then push rest found else found) = pushed entry limit [] bytes"
  proof (cases "length found < limit")
    case True
    then have lines: "split_on (CHR 0x0A) rest = [rest]" using all by (simp add: split_on_absent)
    have "entry [] = None" by (simp add: entry_def stderr_line_def)
    then have "(if rest \<noteq> [] then push rest found else found) = take limit (found @ List.map_filter entry [rest])"
      using True by (auto simp: push_def push_eq entry_def map_filter_simps)
    then show ?thesis using all True by (simp add: pushed_def lines)
  next
    case False
    then show ?thesis using all by simp
  qed
  then have "recent_stderr_lines_from_bytes parse decode bytes limit = rev (pushed entry limit [] bytes)"
    by (simp add: recent_stderr_lines_from_bytes_def push_def [symmetric] read Let_def)
  then show ?thesis
    by (simp add: pushed_def last_stderr_lines_def entry_def [symmetric] Let_def map_filter_rev take_rev)
qed

section \<open>The cache\<close>

text \<open>
  A file has its bytes and its time of modification. The cache is consulted with the file as it
  is then, and filled when the file looks unchanged after it was read: the three moments are
  \<open>lv_before\<close>, \<open>lv_read\<close> and \<open>lv_after\<close>.
\<close>

type_synonym file_state = "(string \<times> nat option) option"

record log_view =
  lv_before :: file_state
  lv_read :: file_state
  lv_after :: file_state

record cache_entry =
  ce_len :: nat
  ce_modified :: "nat option"
  ce_limit :: nat
  ce_lines :: "error_line list"

type_synonym line_cache = "(string, cache_entry) bmap"

definition recent_stderr_signature :: "file_state \<Rightarrow> (nat \<times> nat option) option" where
  "recent_stderr_signature f = map_option (\<lambda>(bytes, modified). (length bytes, modified)) f"

definition cached_recent_stderr_lines ::
  "string \<Rightarrow> nat \<Rightarrow> nat \<times> nat option \<Rightarrow> line_cache \<Rightarrow> error_line list option" where
  "cached_recent_stderr_lines path limit sig cache =
     Option.bind (map_of cache path) (\<lambda>entry.
       if ce_limit entry = limit \<and> ce_len entry = fst sig \<and> ce_modified entry = snd sig
       then Some (ce_lines entry) else None)"

definition recent_stderr_lines ::
  "json_parser \<Rightarrow> (string \<Rightarrow> string) \<Rightarrow> log_view \<Rightarrow> string \<Rightarrow> nat \<Rightarrow> line_cache \<Rightarrow> error_line list \<times> line_cache" where
  "recent_stderr_lines parse decode view path limit cache =
     (if limit = 0 then ([], cache)
      else (case recent_stderr_signature (lv_before view) of
              None \<Rightarrow> ([], bm_remove path cache)
            | Some sig \<Rightarrow>
                (case cached_recent_stderr_lines path limit sig cache of
                   Some found \<Rightarrow> (found, cache)
                 | None \<Rightarrow>
                     (let found = recent_stderr_lines_from_file parse decode (map_option fst (lv_read view)) limit in
                      (found,
                       if recent_stderr_signature (lv_after view) = Some sig
                       then bm_insert path \<lparr>ce_len = fst sig, ce_modified = snd sig, ce_limit = limit, ce_lines = found\<rparr> cache
                       else cache)))))"

section \<open>The status of a run\<close>

record service_status =
  vs_desired :: string
  vs_systemd :: "unit_status option"
  vs_ready :: bool
  vs_state :: service_state
  vs_last_failure :: "string option"
  vs_health :: "health_snapshot option"
  vs_health_check_stats :: "health_snapshot option"
  vs_uptime_seconds :: "nat option"
  vs_recent_errors :: "error_line list"
  vs_url :: "string option"
  vs_auto_restart :: bool
  vs_watch_paused :: bool
  vs_watch_active :: bool

record run_status =
  vr_run_id :: string
  vr_stack :: string
  vr_project_dir :: string
  vr_state :: run_lifecycle
  vr_services :: "(string, service_status) bmap"

text \<open>The unit says that something went wrong.\<close>

definition unit_in_trouble :: "unit_status \<Rightarrow> bool" where
  "unit_in_trouble u \<longleftrightarrow>
     us_active_state u = ''failed'' \<or> us_result u = Some ''start-limit-hit'' \<or>
     (us_active_state u \<noteq> ''active'' \<and> (case us_result u of Some result \<Rightarrow> result \<noteq> ''success'' | None \<Rightarrow> False))"

definition trouble_state :: "service_state \<Rightarrow> service_state" where
  "trouble_state state =
     (case state of Sv_Starting \<Rightarrow> Sv_Failed | Sv_Ready \<Rightarrow> Sv_Degraded | _ \<Rightarrow> state)"

definition derived_state ::
  "run_lifecycle \<Rightarrow> unit_status option \<Rightarrow> service_record \<Rightarrow> service_state \<times> string option" where
  "derived_state run_state systemd service =
     (case systemd of
        Some u \<Rightarrow>
          if run_state \<noteq> Run_Stopped \<and> unit_in_trouble u then
            (trouble_state (sr_state service),
             if rt_last_failure (sr_runtime service) = None \<and> us_result u \<noteq> Some ''success'' then us_result u
             else rt_last_failure (sr_runtime service))
          else (sr_state service, rt_last_failure (sr_runtime service))
      | None \<Rightarrow> (sr_state service, rt_last_failure (sr_runtime service)))"

text \<open>Times are nanoseconds; \<open>whole_seconds\<close> cuts towards zero.\<close>

definition uptime_seconds_since :: "(string \<Rightarrow> int option) \<Rightarrow> int \<Rightarrow> string option \<Rightarrow> nat option" where
  "uptime_seconds_since parse_time now last_started_at =
     Option.bind last_started_at (\<lambda>s. Option.bind (parse_time s) (\<lambda>started.
       let d = now - started;
           elapsed = (if d < 0 then - ((- d) div 1000000000) else d div 1000000000) in
       if elapsed < 0 then Some 0 else Some (nat elapsed)))"

record status_env =
  se_decode :: "string \<Rightarrow> string"
  se_parse_time :: "string \<Rightarrow> int option"
  se_now :: int
  se_log :: "string \<Rightarrow> log_view"

definition service_status_of ::
  "world \<Rightarrow> status_env \<Rightarrow> app_state \<Rightarrow> run_lifecycle \<Rightarrow> service_record \<Rightarrow> line_cache \<Rightarrow> service_status \<times> line_cache" where
  "service_status_of wo se st run_state service cache =
     (let systemd = (case wo_unit_status wo (ap_units st) 0 (lp_unit_name (sr_launch service)) of Inr u \<Rightarrow> u | Inl _ \<Rightarrow> None);
          (state, failure) = derived_state run_state systemd service;
          health = map_option (\<lambda>h. unwrap_or (map_of (ap_health st) h) default_health) (h_health (sr_handles service));
          path = lp_log_path (sr_launch service);
          (errors, cache') = recent_stderr_lines (wo_json wo) (se_decode se) (se_log se path) path 3 cache in
      (\<lparr>vs_desired = (if run_state = Run_Stopped then ''stopped'' else ''running''), vs_systemd = systemd,
        vs_ready = (state = Sv_Ready), vs_state = state, vs_last_failure = failure, vs_health = health,
        vs_health_check_stats = health,
        vs_uptime_seconds = uptime_seconds_since (se_parse_time se) (se_now se) (rt_last_started_at (sr_runtime service)),
        vs_recent_errors = errors, vs_url = lp_url (sr_launch service),
        vs_auto_restart = ss_auto_restart (sr_spec service),
        vs_watch_paused = rt_watch_paused (sr_runtime service), vs_watch_active = watch_active service\<rparr>, cache'))"

fun status_services ::
  "world \<Rightarrow> status_env \<Rightarrow> app_state \<Rightarrow> run_lifecycle \<Rightarrow> (string, service_record) bmap \<Rightarrow> line_cache \<Rightarrow>
     (string, service_status) bmap \<times> line_cache" where
  "status_services wo se st run_state [] cache = ([], cache)"
| "status_services wo se st run_state ((name, service) # services) cache =
     (let (status, cache1) = service_status_of wo se st run_state service cache;
          (rest, cache2) = status_services wo se st run_state services cache1 in
      ((name, status) # rest, cache2))"

fun status_step :: "bool \<times> bool \<Rightarrow> service_status \<Rightarrow> bool \<times> bool" where
  "status_step (any_degraded, all_ready) service =
     (case vs_state service of
        Sv_Ready \<Rightarrow> (any_degraded, all_ready)
      | Sv_Starting \<Rightarrow> (any_degraded, False)
      | Sv_Degraded \<Rightarrow> (True, False)
      | Sv_Failed \<Rightarrow> (True, False)
      | Sv_Stopped \<Rightarrow> (any_degraded, False))"

definition build_status ::
  "world \<Rightarrow> status_env \<Rightarrow> run_id \<Rightarrow> app_state \<Rightarrow> line_cache \<Rightarrow> run_status app_result \<times> line_cache" where
  "build_status wo se run_id st cache =
     (case get_run run_id (ap_runs st) of
        None \<Rightarrow> (Inl (Not_Found (run_not_found run_id)), cache)
      | Some run \<Rightarrow>
          (let (services, cache') = status_services wo se st (rr_state run) (rr_services run) cache;
               (any_degraded, all_ready) = foldl status_step (False, True) (bm_values services);
               state = (if any_degraded then Run_Degraded
                        else if all_ready then Run_Running else rr_state run) in
           (Inr \<lparr>vr_run_id = rr_run_id run, vr_stack = rr_stack run, vr_project_dir = rr_project_dir run,
                  vr_state = state, vr_services = services\<rparr>, cache')))"

section \<open>Reconciling a run with its units\<close>

definition reconcile_service ::
  "run_id \<Rightarrow> service_name \<Rightarrow> service_status \<Rightarrow> service_record \<Rightarrow> (bool \<times> daemon_event list) \<times> service_record" where
  "reconcile_service run_id name status service =
     (let (changed1, events, service1) =
            (if sr_state service \<noteq> vs_state status
             then (True, [service_state_changed_event run_id name (vs_state status)],
                   service\<lparr>sr_runtime := (sr_runtime service)\<lparr>rt_state := vs_state status\<rparr>\<rparr>)
             else (False, [], service));
          (changed2, service2) =
            (if rt_last_failure (sr_runtime service1) \<noteq> vs_last_failure status
             then (True, set_last_failure (vs_last_failure status) service1)
             else (changed1, service1)) in
      ((changed2, events), service2))"

fun reconcile_services ::
  "run_id \<Rightarrow> (string \<times> service_status) list \<Rightarrow> run_record \<Rightarrow> (bool \<times> daemon_event list) \<times> run_record" where
  "reconcile_services run_id [] run = ((False, []), run)"
| "reconcile_services run_id ((name, status) # statuses) run =
     (let ((changed1, events1), run1) = update_service name (reconcile_service run_id name status) (False, []) run;
          ((changed2, events2), run2) = reconcile_services run_id statuses run1 in
      ((changed1 \<or> changed2, events1 @ events2), run2))"

definition reconcile_section :: "run_id \<Rightarrow> run_status \<Rightarrow> run_record \<Rightarrow> (bool \<times> daemon_event list) \<times> run_record" where
  "reconcile_section run_id status run =
     (let previous = rr_state run;
          ((changed, events), run1) = reconcile_services run_id (vr_services status) run;
          run2 = run1\<lparr>rr_state := vr_state status\<rparr> in
      if rr_state run2 \<noteq> previous \<and> rr_state run2 \<noteq> Run_Stopped
      then ((True, events @ [run_state_changed_event run2]), run2)
      else ((changed, events), run2))"

text \<open>\<open>others\<close>: what happens between the answer about the run and the write.\<close>

definition reconcile_run ::
  "world \<Rightarrow> status_env \<Rightarrow> (app_state \<Rightarrow> app_state) \<Rightarrow> run_id \<Rightarrow> app_state \<Rightarrow> line_cache \<Rightarrow>
     run_status app_result \<times> app_state \<times> line_cache" where
  "reconcile_run wo se others run_id st cache =
     (case build_status wo se run_id st cache of
        (Inl e, cache') \<Rightarrow> (Inl e, st, cache')
      | (Inr status, cache') \<Rightarrow>
          (case with_run_state run_id (reconcile_section run_id status) (others st) of
             (Inl e, st1) \<Rightarrow> (Inl (Internal e), st1, cache')
           | (Inr (changed, events), st1) \<Rightarrow>
               (let st2 = emit_events events st1 in
                if changed then
                  (case persist_manifest wo run_id st2 of
                     (Inl e, st3) \<Rightarrow> (Inl (Internal e), st3, cache')
                   | (Inr _, st3) \<Rightarrow> (Inr status, st3, cache'))
                else (Inr status, st2, cache'))))"

fun reconcile_each ::
  "world \<Rightarrow> status_env \<Rightarrow> (app_state \<Rightarrow> app_state) \<Rightarrow> run_id list \<Rightarrow> app_state \<Rightarrow> line_cache \<Rightarrow>
     unit app_result \<times> app_state \<times> line_cache" where
  "reconcile_each wo se others [] st cache = (Inr (), st, cache)"
| "reconcile_each wo se others (run_id # run_ids) st cache =
     (case reconcile_run wo se others run_id st cache of
        (Inl e, st1, cache1) \<Rightarrow> (Inl e, st1, cache1)
      | (Inr _, st1, cache1) \<Rightarrow> reconcile_each wo se others run_ids st1 cache1)"

definition reconcile_runs ::
  "world \<Rightarrow> status_env \<Rightarrow> (app_state \<Rightarrow> app_state) \<Rightarrow> app_state \<Rightarrow> line_cache \<Rightarrow>
     unit app_result \<times> app_state \<times> line_cache" where
  "reconcile_runs wo se others st cache = reconcile_each wo se others (bm_keys (ap_runs st)) st cache"

record watch_status =
  ws_auto_restart :: bool
  ws_active :: bool
  ws_paused :: bool

definition build_watch_status :: "run_id \<Rightarrow> app_state \<Rightarrow> (run_id \<times> (string, watch_status) bmap) app_result" where
  "build_watch_status run_id st =
     (case with_run run_id (\<lambda>run. (run_id, bm_map (\<lambda>_ service.
             \<lparr>ws_auto_restart = ss_auto_restart (sr_spec service), ws_active = watch_active service,
              ws_paused = rt_watch_paused (sr_runtime service)\<rparr>) (rr_services run))) (ap_runs st) of
        Inl _ \<Rightarrow> Inl (Not_Found (run_not_found run_id))
      | Inr answer \<Rightarrow> Inr answer)"

section \<open>Facts about the cache\<close>

text \<open>The bytes of a file, as its size and time of modification determine them.\<close>

definition cache_ok ::
  "json_parser \<Rightarrow> (string \<Rightarrow> string) \<Rightarrow> (string \<Rightarrow> nat \<times> nat option \<Rightarrow> string) \<Rightarrow> line_cache \<Rightarrow> bool" where
  "cache_ok parse decode content cache \<longleftrightarrow>
     (\<forall>path entry. map_of cache path = Some entry \<longrightarrow>
        ce_lines entry = last_stderr_lines parse decode (content path (ce_len entry, ce_modified entry)) (ce_limit entry))"

definition lines_of_file :: "json_parser \<Rightarrow> (string \<Rightarrow> string) \<Rightarrow> file_state \<Rightarrow> nat \<Rightarrow> error_line list" where
  "lines_of_file parse decode f limit =
     (case f of None \<Rightarrow> [] | Some (bytes, _) \<Rightarrow> last_stderr_lines parse decode bytes limit)"

lemma lines_from_file:
  "0 < limit \<Longrightarrow> recent_stderr_lines_from_file parse decode (map_option fst f) limit = lines_of_file parse decode f limit"
  by (auto simp: recent_stderr_lines_from_file_def lines_of_file_def reader_reads_last_lines split: option.split)

section \<open>Facts about reconciling\<close>

definition outcome :: "service_record \<Rightarrow> service_state \<times> string option" where
  "outcome service = (sr_state service, rt_last_failure (sr_runtime service))"

definition reported :: "service_status \<Rightarrow> service_state \<times> string option" where
  "reported status = (vs_state status, vs_last_failure status)"

definition unit_answer :: "world \<Rightarrow> app_state \<Rightarrow> service_record \<Rightarrow> unit_status option" where
  "unit_answer wo st service =
     (case wo_unit_status wo (ap_units st) 0 (lp_unit_name (sr_launch service)) of Inr u \<Rightarrow> u | Inl _ \<Rightarrow> None)"

lemma status_reports_service: "reported (fst (service_status_of wo se st run_state service cache)) =
    derived_state run_state (unit_answer wo st service) service"
  by (simp add: reported_def service_status_of_def unit_answer_def case_prod_beta Let_def)

lemma status_services_reports:
  "map (\<lambda>(name, status). (name, reported status)) (fst (status_services wo se st run_state services cache)) =
     map (\<lambda>(name, service). (name, derived_state run_state (unit_answer wo st service) service)) services"
  by (induction services arbitrary: cache) (auto simp: case_prod_beta status_reports_service Let_def)

lemma trouble_state_again [simp]: "trouble_state (trouble_state state) = trouble_state state"
  by (cases state) (simp_all add: trouble_state_def)

text \<open>What a unit says has its effect once.\<close>

lemma derived_state_again:
  assumes "outcome service' = derived_state run_state u service"
  shows "derived_state run_state u service' = outcome service'"
  using assms by (auto simp: derived_state_def outcome_def split: option.splits if_splits)

lemma reconcile_service_result:
  "outcome (snd (reconcile_service run_id name status service)) = reported status"
  "sr_launch (snd (reconcile_service run_id name status service)) = sr_launch service"
  "sr_handles (snd (reconcile_service run_id name status service)) = sr_handles service"
  "sr_spec (snd (reconcile_service run_id name status service)) = sr_spec service"
  by (auto simp: reconcile_service_def outcome_def reported_def set_last_failure_def Let_def)

lemma reconcile_service_same:
  "outcome service = reported status \<Longrightarrow> reconcile_service run_id name status service = ((False, []), service)"
  by (simp add: reconcile_service_def outcome_def reported_def)

lemma reconcile_services_frame:
  "bm_keys (rr_services (snd (reconcile_services run_id statuses run))) = bm_keys (rr_services run)"
  "rr_state (snd (reconcile_services run_id statuses run)) = rr_state run"
  "rr_run_id (snd (reconcile_services run_id statuses run)) = rr_run_id run"
  by (induction statuses arbitrary: run)
    (auto simp: update_service_eq case_prod_beta Let_def split: option.split)

lemma reconcile_services_lookup:
  assumes "distinct (map fst statuses)"
  shows "map_of (rr_services (snd (reconcile_services run_id statuses run))) name =
    map_option (\<lambda>s. case map_of statuses name of None \<Rightarrow> s | Some status \<Rightarrow> snd (reconcile_service run_id name status s))
      (map_of (rr_services run) name)"
  using assms
proof (induction statuses arbitrary: run)
  case Nil
  show ?case by (cases "map_of (rr_services run) name") simp_all
next
  case (Cons ns statuses)
  obtain n status where ns: "ns = (n, status)" by fastforce
  have fresh: "n \<notin> fst ` set statuses" and rest: "distinct (map fst statuses)" using Cons.prems by (auto simp: ns)
  have "map_of statuses n = None" using fresh by (simp add: map_of_eq_None_iff)
  then show ?case
    using Cons.IH [OF rest]
    by (cases "map_of (rr_services run) n") (auto simp: ns update_service_eq case_prod_beta Let_def option.map_comp comp_def)
qed

lemma reconcile_services_same:
  assumes "distinct (bm_keys (rr_services run))"
    and "\<And>name status s. (name, status) \<in> set statuses \<Longrightarrow> map_of (rr_services run) name = Some s \<Longrightarrow> outcome s = reported status"
  shows "reconcile_services run_id statuses run = ((False, []), run)"
  using assms
proof (induction statuses)
  case (Cons ns statuses)
  obtain n status where ns: "ns = (n, status)" by fastforce
  have same: "update_service n (reconcile_service run_id n status) (False, []) run = ((False, []), run)"
  proof (cases "map_of (rr_services run) n")
    case None
    then show ?thesis by (simp add: update_service_eq)
  next
    case (Some s)
    have "bm_update n (\<lambda>_. s) (rr_services run) = rr_services run"
      using Some Cons.prems(1) unfolding bm_update_def
      by (intro map_idI) (auto simp: bm_keys_def dest: map_of_SomeD intro: eq_key_imp_eq_value)
    then show ?thesis
      using Some Cons.prems(2) [of n status s] by (simp add: ns update_service_eq reconcile_service_same)
  qed
  have "reconcile_services run_id statuses run = ((False, []), run)"
    using Cons.prems by (intro Cons.IH) auto
  then show ?case by (simp add: ns same)
qed simp

text \<open>The answer about a run, and the run after it was written back.\<close>

lemma build_status_answer:
  assumes "build_status wo se run_id st cache = (Inr status, cache')" and "map_of (ap_runs st) run_id = Some run"
  shows "map (\<lambda>(name, s). (name, reported s)) (vr_services status) =
      map (\<lambda>(name, service). (name, derived_state (rr_state run) (unit_answer wo st service) service)) (rr_services run)"
    and "vr_state status = (let (any_degraded, all_ready) = foldl status_step (False, True) (bm_values (vr_services status)) in
      if any_degraded then Run_Degraded else if all_ready then Run_Running else rr_state run)"
  using assms status_services_reports [of wo se st "rr_state run" "rr_services run" cache]
  by (auto simp: build_status_def get_run_def case_prod_beta Let_def)

lemma status_step_fold:
  "foldl status_step (d, r) statuses =
     (d \<or> (\<exists>s \<in> set statuses. vs_state s \<in> {Sv_Degraded, Sv_Failed}), r \<and> (\<forall>s \<in> set statuses. vs_state s = Sv_Ready))"
  by (induction statuses arbitrary: d r) (auto split: service_state.split)

lemma answer_lookup:
  assumes "build_status wo se run_id st cache = (Inr status, cache')" and "map_of (ap_runs st) run_id = Some run"
  shows "map_option reported (map_of (vr_services status) name) =
    map_option (\<lambda>s. derived_state (rr_state run) (unit_answer wo st s) s) (map_of (rr_services run) name)"
proof -
  have "map_of (map (\<lambda>(name, s). (name, reported s)) (vr_services status)) name =
      map_of (map (\<lambda>(name, s). (name, derived_state (rr_state run) (unit_answer wo st s) s)) (rr_services run)) name"
    by (simp only: build_status_answer(1) [OF assms])
  then show ?thesis by (simp add: map_of_map)
qed

lemma answer_keys:
  assumes "build_status wo se run_id st cache = (Inr status, cache')" and "map_of (ap_runs st) run_id = Some run"
  shows "map fst (vr_services status) = bm_keys (rr_services run)"
proof -
  have "map fst (map (\<lambda>(name, s). (name, reported s)) (vr_services status)) =
      map fst (map (\<lambda>(name, s). (name, derived_state (rr_state run) (unit_answer wo st s) s)) (rr_services run))"
    by (simp only: build_status_answer(1) [OF assms])
  then show ?thesis by (simp add: bm_keys_def comp_def case_prod_beta)
qed

text \<open>Every service has the state of the answer afterwards.\<close>

lemma reconciled_services:
  assumes "build_status wo se run_id st cache = (Inr status, cache')" and "map_of (ap_runs st) run_id = Some run"
    and "bm_ok (rr_services run)"
  shows "map_of (rr_services (snd (reconcile_section run_id status run))) name =
      map_option (\<lambda>s. snd (reconcile_service run_id name (the (map_of (vr_services status) name)) s)) (map_of (rr_services run) name)"
    and "map_of (rr_services (snd (reconcile_section run_id status run))) name = Some s' \<Longrightarrow>
      \<exists>s. map_of (rr_services run) name = Some s \<and> sr_launch s' = sr_launch s \<and>
        outcome s' = derived_state (rr_state run) (unit_answer wo st s) s"
    and "rr_state (snd (reconcile_section run_id status run)) = vr_state status"
    and "bm_keys (rr_services (snd (reconcile_section run_id status run))) = bm_keys (rr_services run)"
proof -
  have distinct: "distinct (map fst (vr_services status))"
    using answer_keys [OF assms(1,2)] bm_ok_distinct [OF assms(3)] by simp
  have services: "rr_services (snd (reconcile_section run_id status run)) = rr_services (snd (reconcile_services run_id (vr_services status) run))"
    by (simp add: reconcile_section_def case_prod_beta Let_def)
  show lookup: "map_of (rr_services (snd (reconcile_section run_id status run))) name =
      map_option (\<lambda>s. snd (reconcile_service run_id name (the (map_of (vr_services status) name)) s)) (map_of (rr_services run) name)"
  proof (cases "map_of (rr_services run) name")
    case None
    then show ?thesis by (simp add: services reconcile_services_lookup [OF distinct])
  next
    case (Some s)
    then obtain v where "map_of (vr_services status) name = Some v"
      using answer_lookup [OF assms(1,2), of name] by auto
    then show ?thesis using Some by (simp add: services reconcile_services_lookup [OF distinct])
  qed
  show "\<exists>s. map_of (rr_services run) name = Some s \<and> sr_launch s' = sr_launch s \<and>
        outcome s' = derived_state (rr_state run) (unit_answer wo st s) s"
    if after: "map_of (rr_services (snd (reconcile_section run_id status run))) name = Some s'"
  proof -
    obtain s where s: "map_of (rr_services run) name = Some s"
      and s': "s' = snd (reconcile_service run_id name (the (map_of (vr_services status) name)) s)"
      using after unfolding lookup by auto
    obtain v where v: "map_of (vr_services status) name = Some v" "reported v = derived_state (rr_state run) (unit_answer wo st s) s"
      using answer_lookup [OF assms(1,2), of name] s by auto
    show ?thesis using s v by (intro exI [of _ s]) (simp add: s' reconcile_service_result)
  qed
  show "rr_state (snd (reconcile_section run_id status run)) = vr_state status"
    "bm_keys (rr_services (snd (reconcile_section run_id status run))) = bm_keys (rr_services run)"
    by (simp_all add: reconcile_section_def case_prod_beta Let_def reconcile_services_frame)
qed

definition any_service :: "run_record \<Rightarrow> (service_record \<Rightarrow> bool) \<Rightarrow> bool" where
  "any_service run P \<longleftrightarrow> (\<exists>name s. map_of (rr_services run) name = Some s \<and> P s)"

lemma answer_state:
  assumes "build_status wo se run_id st cache = (Inr status, cache')" and "map_of (ap_runs st) run_id = Some run"
    and "bm_ok (rr_services run)"
  shows "vr_state status =
    (if any_service run (\<lambda>s. fst (derived_state (rr_state run) (unit_answer wo st s) s) \<in> {Sv_Degraded, Sv_Failed}) then Run_Degraded
     else if \<not> any_service run (\<lambda>s. fst (derived_state (rr_state run) (unit_answer wo st s) s) \<noteq> Sv_Ready) then Run_Running
     else rr_state run)"
proof -
  have some: "(\<exists>v \<in> set (bm_values (vr_services status)). Q (vs_state v)) \<longleftrightarrow>
      any_service run (\<lambda>s. Q (fst (derived_state (rr_state run) (unit_answer wo st s) s)))" for Q
  proof -
    have "(\<exists>v \<in> set (bm_values (vr_services status)). Q (vs_state v)) \<longleftrightarrow>
        (\<exists>x \<in> set (map (\<lambda>(name, s). (name, reported s)) (vr_services status)). Q (fst (snd x)))"
      by (force simp: bm_values_def reported_def)
    also have "\<dots> \<longleftrightarrow> (\<exists>(name, s) \<in> set (rr_services run). Q (fst (derived_state (rr_state run) (unit_answer wo st s) s)))"
      unfolding build_status_answer(1) [OF assms(1,2)] by (force simp: case_prod_beta)
    also have "\<dots> \<longleftrightarrow> any_service run (\<lambda>s. Q (fst (derived_state (rr_state run) (unit_answer wo st s) s)))"
      by (auto simp: any_service_def bm_entry_iff [OF assms(3)]) blast+
    finally show ?thesis .
  qed
  show ?thesis
    using some [of "\<lambda>q. q \<in> {Sv_Degraded, Sv_Failed}"] some [of "\<lambda>q. q \<noteq> Sv_Ready"]
    unfolding build_status_answer(2) [OF assms(1,2)] status_step_fold by (auto simp: Let_def)
qed

lemma derived_state_active:
  "run_state \<noteq> Run_Stopped \<Longrightarrow> run_state' \<noteq> Run_Stopped \<Longrightarrow> derived_state run_state u s = derived_state run_state' u s"
  by (cases u) (simp_all add: derived_state_def)

text \<open>The answer about a run that has just been reconciled.\<close>

lemma reconciled_answer:
  assumes first: "build_status wo se run_id st cache = (Inr status, cache1)" and run: "map_of (ap_runs st) run_id = Some run"
    and ok: "bm_ok (rr_services run)" and active: "rr_state run \<noteq> Run_Stopped"
    and run': "run' = snd (reconcile_section run_id status run)" "map_of (ap_runs st') run_id = Some run'" "ap_units st' = ap_units st"
    and again: "build_status wo se run_id st' cache2 = (Inr status', cache3)"
  shows "vr_state status' = vr_state status" and "reconcile_section run_id status' run' = ((False, []), run')"
proof -
  note after = reconciled_services [OF first run ok, folded run'(1)]
  have active': "rr_state run' \<noteq> Run_Stopped"
    using active by (simp add: after(3) answer_state [OF first run ok])
  have ok': "bm_ok (rr_services run')" using ok after(4) by (simp add: bm_ok_def bm_keys_def)
  have same: "derived_state (rr_state run') (unit_answer wo st' s') s' = outcome s' \<and>
      (\<exists>s. map_of (rr_services run) name = Some s \<and> outcome s' = derived_state (rr_state run) (unit_answer wo st s) s)"
    if s': "map_of (rr_services run') name = Some s'" for name s'
  proof -
    obtain s where s: "map_of (rr_services run) name = Some s" "sr_launch s' = sr_launch s"
      "outcome s' = derived_state (rr_state run) (unit_answer wo st s) s" using after(2) [OF s'] by blast
    then have "unit_answer wo st' s' = unit_answer wo st s" by (simp add: unit_answer_def run'(3))
    then have "derived_state (rr_state run) (unit_answer wo st' s') s' = outcome s'"
      using derived_state_again [of s' "rr_state run" "unit_answer wo st s" s] s(3) by simp
    then show ?thesis using s(1,3) derived_state_active [OF active' active] by metis
  qed
  have kept: "\<exists>s'. map_of (rr_services run') name = Some s' \<and> outcome s' = derived_state (rr_state run) (unit_answer wo st s) s"
    if h: "map_of (rr_services run) name = Some s" for name s
  proof -
    obtain s' where "map_of (rr_services run') name = Some s'" using after(1) [of name] h by auto
    then show ?thesis using same [of name s'] h by auto
  qed
  have any: "any_service run' (\<lambda>s. Q (fst (derived_state (rr_state run') (unit_answer wo st' s) s))) \<longleftrightarrow>
      any_service run (\<lambda>s. Q (fst (derived_state (rr_state run) (unit_answer wo st s) s)))" for Q
    unfolding any_service_def using same kept by metis
  let ?D = "any_service run (\<lambda>s. fst (derived_state (rr_state run) (unit_answer wo st s) s) \<in> {Sv_Degraded, Sv_Failed})"
  let ?R = "any_service run (\<lambda>s. fst (derived_state (rr_state run) (unit_answer wo st s) s) \<noteq> Sv_Ready)"
  have "vr_state status' = (if ?D then Run_Degraded else if \<not> ?R then Run_Running else rr_state run')"
    unfolding answer_state [OF again run'(2) ok'] any [of "\<lambda>q. q \<in> {Sv_Degraded, Sv_Failed}"] any [of "\<lambda>q. q \<noteq> Sv_Ready"] ..
  moreover have "vr_state status = (if ?D then Run_Degraded else if \<not> ?R then Run_Running else rr_state run)"
    by (rule answer_state [OF first run ok])
  ultimately show state: "vr_state status' = vr_state status" using after(3) by presburger
  have "outcome s = reported v"
    if v: "(name, v) \<in> set (vr_services status')" and s: "map_of (rr_services run') name = Some s" for name v s
  proof -
    have "distinct (map fst (vr_services status'))"
      using answer_keys [OF again run'(2)] bm_ok_distinct [OF ok'] by simp
    then have "map_of (vr_services status') name = Some v" using v by simp
    then show ?thesis using answer_lookup [OF again run'(2), of name] s same [OF s] by simp
  qed
  then have "reconcile_services run_id (vr_services status') run' = ((False, []), run')"
    by (rule reconcile_services_same [OF bm_ok_distinct [OF ok']])
  then show "reconcile_section run_id status' run' = ((False, []), run')"
    using state after(3) by (simp add: reconcile_section_def Let_def)
qed

section \<open>Properties\<close>

text \<open>
  The errors shown for a log are its last lines that the service wrote to its standard error,
  at most as many as asked for and in the order of the file, although the file is read backwards in
  chunks, and the cache keeps nothing else: as long as size and time of modification tell the contents of
  a file, what is answered are the lines of the file as it was when it was looked at or read.
\<close>

theorem recent_errors_are_last_lines:
  assumes "cache_ok parse decode content cache"
    and "\<And>bytes modified. lv_before view = Some (bytes, modified) \<Longrightarrow> content path (length bytes, modified) = bytes"
    and "recent_stderr_signature (lv_after view) = recent_stderr_signature (lv_before view) \<Longrightarrow> lv_read view = lv_before view"
    and "0 < limit"
  shows "(lv_before view = None \<longrightarrow> fst (recent_stderr_lines parse decode view path limit cache) = []) \<and>
    (lv_before view \<noteq> None \<longrightarrow> fst (recent_stderr_lines parse decode view path limit cache) \<in>
       {lines_of_file parse decode (lv_before view) limit, lines_of_file parse decode (lv_read view) limit}) \<and>
    cache_ok parse decode content (snd (recent_stderr_lines parse decode view path limit cache))"
proof (cases "lv_before view")
  case None
  then show ?thesis
    using assms(1,4) by (simp add: recent_stderr_lines_def recent_stderr_signature_def cache_ok_def)
next
  case (Some f)
  obtain bytes modified where f: "f = (bytes, modified)" by fastforce
  have content: "content path (length bytes, modified) = bytes" using assms(2) Some f by simp
  have sig: "recent_stderr_signature (lv_before view) = Some (length bytes, modified)"
    by (simp add: recent_stderr_signature_def Some f)
  show ?thesis
  proof (cases "cached_recent_stderr_lines path limit (length bytes, modified) cache")
    case None
    then show ?thesis
      using assms(1,3,4) sig content
      by (auto simp: recent_stderr_lines_def Let_def Some f lines_from_file cache_ok_def lines_of_file_def)
  next
    case (Some found)
    then have "found = last_stderr_lines parse decode bytes limit"
      using assms(1) content by (auto simp: cached_recent_stderr_lines_def cache_ok_def bind_eq_Some_conv split: if_splits)
    then show ?thesis
      using assms(1,4) sig Some by (simp add: recent_stderr_lines_def lines_of_file_def \<open>lv_before view = Some f\<close> f)
  qed
qed

text \<open>
  The contract, without the code's order of tests: a unit is sound unless it failed, hit its start limit, or
  is not active and has a result other than success. An unsound unit fails a service that is starting and
  degrades one that was ready; its result is the failure when none was recorded.
\<close>

definition unit_sound :: "unit_status \<Rightarrow> bool" where
  "unit_sound u \<longleftrightarrow> us_active_state u \<noteq> ''failed'' \<and> us_result u \<noteq> Some ''start-limit-hit'' \<and>
     (us_active_state u = ''active'' \<or> us_result u \<in> {None, Some ''success''})"

definition expected_report :: "run_lifecycle \<Rightarrow> unit_status option \<Rightarrow> service_record \<Rightarrow> service_state \<times> string option" where
  "expected_report run_state answer s =
     (case answer of
        Some u \<Rightarrow>
          if run_state = Run_Stopped \<or> unit_sound u then (sr_state s, rt_last_failure (sr_runtime s))
          else (if sr_state s = Sv_Starting then Sv_Failed else if sr_state s = Sv_Ready then Sv_Degraded else sr_state s,
                if us_result u = Some ''success'' then rt_last_failure (sr_runtime s)
                else opt_or (rt_last_failure (sr_runtime s)) (us_result u))
      | None \<Rightarrow> (sr_state s, rt_last_failure (sr_runtime s)))"

lemma derived_state_expected: "derived_state run_state answer s = expected_report run_state answer s"
proof (cases answer)
  case (Some u)
  have "unit_in_trouble u \<longleftrightarrow> \<not> unit_sound u"
    by (auto simp: unit_in_trouble_def unit_sound_def split: option.splits)
  then show ?thesis
    by (cases "rt_last_failure (sr_runtime s)")
      (auto simp: Some derived_state_def expected_report_def trouble_state_def split: service_state.splits)
qed (simp add: derived_state_def expected_report_def)

text \<open>
  C18. The status of a run: every service with the state and failure that its unit gives it, and the
  run degraded when a service is degraded or failed, running when all are ready, and as recorded otherwise.
\<close>

theorem status_follows_units:
  assumes "build_status wo se run_id st cache = (Inr status, cache')" and "map_of (ap_runs st) run_id = Some run"
    and "bm_ok (rr_services run)"
  shows "(\<forall>name. map_option (\<lambda>s. (vs_state s, vs_last_failure s)) (map_of (vr_services status) name) =
      map_option (\<lambda>s. expected_report (rr_state run) (unit_answer wo st s) s) (map_of (rr_services run) name)) \<and>
    vr_state status =
      (if any_service run (\<lambda>s. fst (expected_report (rr_state run) (unit_answer wo st s) s) \<in> {Sv_Degraded, Sv_Failed}) then Run_Degraded
       else if \<not> any_service run (\<lambda>s. fst (expected_report (rr_state run) (unit_answer wo st s) s) \<noteq> Sv_Ready) then Run_Running
       else rr_state run)"
proof -
  have "map_option (\<lambda>s. (vs_state s, vs_last_failure s)) (map_of (vr_services status) name) =
      map_option (\<lambda>s. expected_report (rr_state run) (unit_answer wo st s) s) (map_of (rr_services run) name)" for name
    using answer_lookup [OF assms(1,2), of name] by (simp add: reported_def [abs_def] derived_state_expected)
  then show ?thesis using answer_state [OF assms] by (simp add: derived_state_expected)
qed

text \<open>
  C19. Reconciling a run that is not stopped settles it: with the same answers of systemd, doing it
  again changes nothing, sends no event, writes no manifest and reports the same state.
\<close>

theorem reconcile_settles:
  assumes "reconcile_run wo se (\<lambda>s. s) run_id st cache = (Inr status, st1, cache1)"
    and "map_of (ap_runs st) run_id = Some run" and "bm_ok (rr_services run)" and "rr_state run \<noteq> Run_Stopped"
  shows "\<exists>status' cache2. reconcile_run wo se (\<lambda>s. s) run_id st1 cache1 = (Inr status', st1, cache2) \<and>
    vr_state status' = vr_state status"
proof -
  obtain r cache0 where answer: "build_status wo se run_id st cache = (r, cache0)" by fastforce
  then have r: "r = Inr status"
    using assms(1) by (cases r) (auto simp: reconcile_run_def case_prod_beta Let_def split: sum.splits if_splits)
  note first = answer [unfolded r]
  define run1 where "run1 = snd (reconcile_section run_id status run)"
  have st1: "ap_runs st1 = bm_update run_id (\<lambda>_. run1) (ap_runs st)" "ap_units st1 = ap_units st"
    using assms(1) first
    by (auto simp: reconcile_run_def with_run_state_eq assms(2) case_prod_beta Let_def run1_def split: sum.splits if_splits)
  have found: "map_of (ap_runs st1) run_id = Some run1" by (simp add: st1 assms(2))
  obtain status' cache2 where again: "build_status wo se run_id st1 cache1 = (Inr status', cache2)"
    using found by (auto simp: build_status_def get_run_def case_prod_beta Let_def)
  note same = reconciled_answer [OF first assms(2-4) run1_def found st1(2) again]
  have "bm_update run_id (\<lambda>_. run1) (ap_runs st1) = ap_runs st1"
    by (auto simp: st1(1) bm_update_def)
  then show ?thesis
    using again same found by (simp add: reconcile_run_def with_run_state_eq Let_def emit_events_def)
qed

text \<open>A log, a failed unit, and a run on it.\<close>

definition example_log :: string where
  "example_log = ''[t1] [stdout] up'' @ newline @ ''[t2] [stderr] bad'' @ newline @ ''[t3] [stderr] worse''"

definition example_view :: log_view where
  "example_view = \<lparr>lv_before = Some (example_log, Some 1), lv_read = Some (example_log, Some 1), lv_after = Some (example_log, Some 1)\<rparr>"

theorem recent_errors_are_last_lines_witness:
  "fst (recent_stderr_lines (\<lambda>_. None) (\<lambda>s. s) example_view ''/l'' 1 []) = [\<lparr>er_timestamp = Some ''t3'', er_message = ''worse''\<rparr>]"
proof -
  have "cache_ok (\<lambda>_. None) (\<lambda>s. s) (\<lambda>_ _. example_log) []" by (simp add: cache_ok_def)
  moreover have "\<And>bytes modified. lv_before example_view = Some (bytes, modified) \<Longrightarrow> example_log = bytes"
    "recent_stderr_signature (lv_after example_view) = recent_stderr_signature (lv_before example_view) \<Longrightarrow>
      lv_read example_view = lv_before example_view"
    by (simp_all add: example_view_def)
  ultimately have "fst (recent_stderr_lines (\<lambda>_. None) (\<lambda>s. s) example_view ''/l'' 1 []) =
      lines_of_file (\<lambda>_. None) (\<lambda>s. s) (lv_before example_view) 1"
    using recent_errors_are_last_lines [of "\<lambda>_. None" "\<lambda>s. s" "\<lambda>_ _. example_log" "[]" example_view "''/l''" 1]
    by (auto simp: example_view_def)
  also have "\<dots> = [\<lparr>er_timestamp = Some ''t3'', er_message = ''worse''\<rparr>]"
    by code_simp
  finally show ?thesis .
qed

definition failed_world :: world where
  "failed_world = example_world\<lparr>wo_unit_status := \<lambda>_ _ _. Inr (Some
     \<lparr>us_active_state = ''failed'', us_sub_state = ''failed'', us_result = Some ''exit-code''\<rparr>)\<rparr>"

definition example_status_env :: status_env where
  "example_status_env = \<lparr>se_decode = (\<lambda>s. s), se_parse_time = (\<lambda>_. None), se_now = 0, se_log = (\<lambda>_. example_view)\<rparr>"

lemma running_run_active: "map_of (ap_runs (example_state running_run)) ''r1'' = Some running_run"
  "bm_ok (rr_services running_run)" "rr_state running_run \<noteq> Run_Stopped"
  by (simp_all add: example_state_def running_run_def new_run_record_def bm_ok_def)

lemma failed_any_service:
  "any_service running_run (\<lambda>s. fst (derived_state (rr_state running_run) (unit_answer failed_world (example_state running_run) s) s) \<in>
      {Sv_Degraded, Sv_Failed})"
  by (auto simp: any_service_def running_run_def new_run_record_def derived_state_def unit_answer_def failed_world_def
      unit_in_trouble_def trouble_state_def with_health_def example_record_def)

lemma failed_status:
  assumes "build_status failed_world se ''r1'' (example_state running_run) cache = (Inr status, cache')"
  shows "vr_state status = Run_Degraded"
  using answer_state [OF assms running_run_active(1,2)] failed_any_service by simp

lemma failed_world_persists: "map_of (ap_runs st) ''r1'' = Some run \<Longrightarrow> rr_run_id run = ''r1'' \<Longrightarrow>
    fst (persist_manifest failed_world ''r1'' st) = Inr ()"
proof -
  have "run_manifest_path (wo_paths failed_world) ''r1'' = Inr ''/data/runs/r1/manifest.json''"
    "daemon_state_path (wo_paths failed_world) = Inr ''/data/daemon/state.json''"
    by (simp add: failed_world_def example_world_def, code_simp)+
  moreover have "wo_write failed_world = (\<lambda>_. None)" by (simp add: failed_world_def example_world_def)
  ultimately show "map_of (ap_runs st) ''r1'' = Some run \<Longrightarrow> rr_run_id run = ''r1'' \<Longrightarrow> ?thesis"
    by (simp add: persist_manifest_def get_run_def write_daemon_state_def)
qed

lemma example_reconcile: "\<exists>status st1 cache1.
   reconcile_run failed_world example_status_env (\<lambda>s. s) ''r1'' (example_state running_run) [] = (Inr status, st1, cache1) \<and>
   vr_state status = Run_Degraded"
proof -
  obtain status cache where answer: "build_status failed_world example_status_env ''r1'' (example_state running_run) [] = (Inr status, cache)"
    using running_run_active(1) by (auto simp: build_status_def get_run_def case_prod_beta Let_def)
  obtain changed events run where written: "reconcile_section ''r1'' status running_run = ((changed, events), run)"
    by (metis prod.collapse)
  have "rr_run_id run = ''r1''"
    using written reconcile_services_frame(3) [of "''r1''" "vr_services status" running_run]
    by (auto simp: reconcile_section_def case_prod_beta Let_def running_run_def new_run_record_def split: if_splits)
  then have "fst (persist_manifest failed_world ''r1'' (emit_events events
      ((example_state running_run)\<lparr>ap_runs := bm_update ''r1'' (\<lambda>_. run) (ap_runs (example_state running_run))\<rparr>))) = Inr ()"
    using running_run_active(1) by (intro failed_world_persists [of _ run]) simp_all
  then show ?thesis
    using failed_status [OF answer]
    by (auto simp: reconcile_run_def answer with_run_state_eq running_run_active(1) written case_prod_beta Let_def)
qed

theorem reconcile_settles_witness:
  "\<exists>status st1 cache1 cache2.
     reconcile_run failed_world example_status_env (\<lambda>s. s) ''r1'' (example_state running_run) [] = (Inr status, st1, cache1) \<and>
     (\<exists>status'. reconcile_run failed_world example_status_env (\<lambda>s. s) ''r1'' st1 cache1 = (Inr status', st1, cache2) \<and>
        vr_state status' = Run_Degraded)"
proof -
  obtain status st1 cache1 where first: "reconcile_run failed_world example_status_env (\<lambda>s. s) ''r1'' (example_state running_run) [] =
      (Inr status, st1, cache1)" "vr_state status = Run_Degraded"
    using example_reconcile by blast
  show ?thesis using reconcile_settles [OF first(1) running_run_active] first by auto
qed

theorem status_follows_units_witness:
  "\<exists>status cache. build_status failed_world example_status_env ''r1'' (example_state running_run) [] = (Inr status, cache) \<and>
     vr_state status = Run_Degraded"
proof -
  obtain status cache where answer: "build_status failed_world example_status_env ''r1'' (example_state running_run) [] = (Inr status, cache)"
    using running_run_active(1) by (auto simp: build_status_def get_run_def case_prod_beta Let_def)
  have "any_service running_run (\<lambda>s. fst (derived_state (rr_state running_run) (unit_answer failed_world (example_state running_run) s) s) \<in>
      {Sv_Degraded, Sv_Failed})"
    by (rule failed_any_service)
  then show ?thesis
    using status_follows_units [OF answer running_run_active(1,2)] answer by (simp add: derived_state_expected)
qed

end
