(* ===== verification/Daemon.thy ===== *)
theory Daemon
  imports Housekeeping Status
begin

text \<open>
  The daemon as a state machine. Handlers, monitors and watchers run concurrently and meet at the
  lock of the run store: a step is one critical section of one of them, together with the flags it
  raises. Between the two critical sections that start a watcher or a proxy, its handle belongs to
  no service yet: a configuration is the state with the set of these handles.
\<close>

section \<open>Who holds a handle\<close>

datatype helper = Health_Helper | Watch_Helper | Capture_Helper

lemma all_helper: "(\<forall>k. P k) \<longleftrightarrow> P Health_Helper \<and> P Watch_Helper \<and> P Capture_Helper"
  by (metis helper.exhaust)

lemma ex_helper: "(\<exists>k. P k) \<longleftrightarrow> P Health_Helper \<or> P Watch_Helper \<or> P Capture_Helper"
  by (metis helper.exhaust)

fun helper_at :: "service_handles \<Rightarrow> helper \<Rightarrow> handle_id option" where
  "helper_at hs Health_Helper = h_health hs"
| "helper_at hs Watch_Helper = h_watch hs"
| "helper_at hs Capture_Helper = h_api_capture hs"

definition run_slot :: "run_record \<Rightarrow> service_name \<Rightarrow> helper \<Rightarrow> handle_id option" where
  "run_slot run service k = Option.bind (map_of (rr_services run) service) (\<lambda>rcd. helper_at (sr_handles rcd) k)"

definition slot :: "app_state \<Rightarrow> run_id \<times> service_name \<times> helper \<Rightarrow> handle_id option" where
  "slot st = (\<lambda>(run_id, service, k). Option.bind (map_of (ap_runs st) run_id) (\<lambda>run. run_slot run service k))"

text \<open>
  No handle is held twice, none that is held or on its way to a service has been stopped, and
  every one has been given out: they are below the next one.
\<close>

definition ledger_ok :: "('a \<Rightarrow> handle_id option) \<Rightarrow> handle_id set \<Rightarrow> handle_id set \<Rightarrow> handle_id \<Rightarrow> bool" where
  "ledger_ok slots stopped pending bound \<longleftrightarrow>
     (\<forall>a b h. slots a = Some h \<longrightarrow> slots b = Some h \<longrightarrow> a = b)
     \<and> (\<forall>a h. slots a = Some h \<longrightarrow> h < bound \<and> h \<notin> stopped \<and> h \<notin> pending)
     \<and> (\<forall>h \<in> pending. h < bound \<and> h \<notin> stopped) \<and> (\<forall>h \<in> stopped. h < bound)"

definition runs_ok :: "app_state \<Rightarrow> bool" where
  "runs_ok st \<longleftrightarrow> (\<forall>run_id run. map_of (ap_runs st) run_id = Some run \<longrightarrow> bm_ok (rr_services run))"

definition handles_ok :: "app_state \<times> handle_id set \<Rightarrow> bool" where
  "handles_ok c \<longleftrightarrow>
     (case c of (st, pending) \<Rightarrow>
       runs_ok st \<and> ledger_ok (slot st) (set (ap_stopped st)) pending (ap_next_handle st))"

text \<open>
  The general step: some slots are emptied, the handles that are stopped are among those that
  left a slot or were pending.
\<close>

lemma ledger_release:
  assumes ok: "ledger_ok slots stopped pending bound" and less: "pending' \<subseteq> pending"
    and slots: "\<And>a. slots' a = slots a \<or> slots' a = None"
    and stopped: "\<And>h. h \<in> stopped' \<Longrightarrow> h \<in> stopped \<or> h \<in> pending - pending' \<or> (\<exists>a. slots a = Some h \<and> slots' a = None)"
  shows "ledger_ok slots' stopped' pending' bound"
proof -
  have kept: "slots a = Some h" if "slots' a = Some h" for a h using slots [of a] that by simp
  have free: "h \<notin> stopped'" if "slots' a = Some h" for a h
    using that kept [OF that] stopped [of h] ok unfolding ledger_ok_def
    by (metis DiffE option.distinct(1))
  have waiting: "h \<notin> stopped'" if "h \<in> pending'" for h
    using that less stopped [of h] ok unfolding ledger_ok_def by blast
  have below: "h < bound" if "h \<in> stopped'" for h
    using stopped [OF that] ok unfolding ledger_ok_def by blast
  show ?thesis
    using kept free waiting below less ok unfolding ledger_ok_def by (meson subsetD)
qed

text \<open>A pending handle moves into an empty slot.\<close>

lemma ledger_install:
  assumes ok: "ledger_ok slots stopped pending bound" and "h \<in> pending" and "slots b = None"
  shows "ledger_ok (slots(b := Some h)) stopped (pending - {h}) bound"
  using assms unfolding ledger_ok_def by (auto split: if_splits)

lemma ledger_new:
  assumes "ledger_ok slots stopped pending bound"
  shows "ledger_ok slots stopped (insert bound pending) (Suc bound)"
  using assms unfolding ledger_ok_def by (auto simp: less_Suc_eq)

section \<open>Critical sections on one run\<close>

lemma slot_updated:
  assumes "map_of (ap_runs st) run_id = Some run" and "ap_runs st' = bm_update run_id (\<lambda>_. run') (ap_runs st)"
  shows "slot st' (r, s, k) = (if r = run_id then run_slot run' s k else slot st (r, s, k))"
  using assms by (simp add: slot_def)

lemma slot_cong: "ap_runs st' = ap_runs st \<Longrightarrow> slot st' = slot st"
  by (simp add: slot_def fun_eq_iff)

lemma slot_frame [simp]:
  "slot (raise_flags hs st) = slot st" "slot (emit_events es st) = slot st" "slot (set_paused h b st) = slot st"
  "slot (snd (new_handle st)) = slot st"
  by (simp_all add: slot_def new_handle_def)

lemma runs_ok_frame [simp]:
  "runs_ok (raise_flags hs st) = runs_ok st" "runs_ok (emit_events es st) = runs_ok st"
  "runs_ok (set_paused h b st) = runs_ok st" "runs_ok (snd (new_handle st)) = runs_ok st"
  by (simp_all add: runs_ok_def new_handle_def)

lemma runs_ok_update:
  assumes "runs_ok st" and "map_of (ap_runs st) run_id = Some run" and "bm_ok (rr_services run) \<longrightarrow> bm_ok (rr_services run')"
  shows "runs_ok (st\<lparr>ap_runs := bm_update run_id (\<lambda>_. run') (ap_runs st)\<rparr>)"
  using assms by (auto simp: runs_ok_def)

text \<open>A section that changes no handle.\<close>

definition keeps_handles :: "(run_record \<Rightarrow> run_record) \<Rightarrow> bool" where
  "keeps_handles f \<longleftrightarrow>
     (\<forall>run. run_slot (f run) = run_slot run \<and> (bm_ok (rr_services run) \<longrightarrow> bm_ok (rr_services (f run))))"

lemma slot_keeps:
  assumes "keeps_handles (\<lambda>run. snd (f run))"
  shows "slot (snd (with_run_state run_id f st)) = slot st"
proof
  fix a :: "run_id \<times> service_name \<times> helper"
  obtain r s k where a: "a = (r, s, k)" by (metis surj_pair)
  show "slot (snd (with_run_state run_id f st)) a = slot st a"
    using assms by (auto simp: a slot_def with_run_state_eq keeps_handles_def split: option.split)
qed

lemma with_run_state_next [simp]: "ap_next_handle (snd (with_run_state run_id f st)) = ap_next_handle st"
  by (simp add: with_run_state_eq split: option.split)

lemma handles_ok_keeps:
  assumes "handles_ok (st, pending)" and "keeps_handles (\<lambda>run. snd (f run))"
  shows "handles_ok (snd (with_run_state run_id f st), pending)"
proof -
  have "runs_ok (snd (with_run_state run_id f st))"
    using assms by (auto simp: handles_ok_def with_run_state_eq keeps_handles_def
        intro: runs_ok_update split: option.split)
  then show ?thesis using assms(1) by (simp add: handles_ok_def slot_keeps [OF assms(2)])
qed

lemma keeps_handles_update:
  assumes "\<And>rcd. sr_handles (snd (f rcd)) = sr_handles rcd"
  shows "keeps_handles (\<lambda>run. snd (update_service s f absent run))"
  by (auto simp: keeps_handles_def run_slot_def update_service_eq assms fun_eq_iff split: option.split)

lemma keeps_handles_recompute: "keeps_handles (\<lambda>run. snd (recompute_run_state run))"
  by (simp add: keeps_handles_def run_slot_def fun_eq_iff)

lemma keeps_handles_then_recompute:
  assumes "keeps_handles (\<lambda>run. snd (f run))"
  shows "keeps_handles (\<lambda>run. snd (then_recompute f run))"
  using assms by (simp add: keeps_handles_def then_recompute_def case_prod_beta run_slot_def fun_eq_iff)

text \<open>A section that gives up the handles it stops.\<close>

definition gives_up :: "run_record \<Rightarrow> handle_id list \<Rightarrow> run_record \<Rightarrow> bool" where
  "gives_up run stopped run' \<longleftrightarrow>
     (\<forall>s k. run_slot run' s k = run_slot run s k \<or> run_slot run' s k = None)
     \<and> (\<forall>h \<in> set stopped. \<exists>s k. run_slot run s k = Some h \<and> run_slot run' s k = None)
     \<and> bm_ok (rr_services run')"

lemma handles_ok_gives_up:
  assumes ok: "handles_ok (st, pending)" and run: "map_of (ap_runs st) run_id = Some run"
    and gone: "bm_ok (rr_services run) \<Longrightarrow> gives_up run stopped run'"
  shows "handles_ok (raise_flags stopped (st\<lparr>ap_runs := bm_update run_id (\<lambda>_. run') (ap_runs st)\<rparr>), pending)"
    (is "handles_ok (?st', _)")
proof -
  have "bm_ok (rr_services run)" using ok run by (auto simp: handles_ok_def runs_ok_def)
  note gone = gone [OF this]
  have slot': "slot ?st' (r, s, k) = (if r = run_id then run_slot run' s k else slot st (r, s, k))" for r s k
    by (rule slot_updated [OF run]) simp
  have before: "slot st (run_id, s, k) = run_slot run s k" for s k using run by (simp add: slot_def)
  have empties: "slot ?st' a = slot st a \<or> slot ?st' a = None" for a
    using gone unfolding gives_up_def by (cases a) (metis before slot')
  have stopped: "\<exists>a. slot st a = Some h \<and> slot ?st' a = None" if h: "h \<in> set stopped" for h
  proof -
    obtain s k where "run_slot run s k = Some h" "run_slot run' s k = None"
      using gone h unfolding gives_up_def by blast
    then have "slot st (run_id, s, k) = Some h" "slot ?st' (run_id, s, k) = None" unfolding slot' before by simp_all
    then show ?thesis by blast
  qed
  have "ledger_ok (slot ?st') (set (ap_stopped ?st')) pending (ap_next_handle st)"
    by (rule ledger_release [OF ok [unfolded handles_ok_def prod.case, THEN conjunct2]]) (use empties stopped in auto)
  moreover have "runs_ok ?st'"
    using ok run gone by (auto simp: handles_ok_def gives_up_def intro: runs_ok_update)
  ultimately show ?thesis by (simp add: handles_ok_def)
qed

text \<open>The same on one record.\<close>

definition record_gives_up :: "service_record \<Rightarrow> handle_id list \<Rightarrow> service_record \<Rightarrow> bool" where
  "record_gives_up rcd stopped rcd' \<longleftrightarrow>
     (\<forall>k. helper_at (sr_handles rcd') k = helper_at (sr_handles rcd) k \<or> helper_at (sr_handles rcd') k = None)
     \<and> (\<forall>h \<in> set stopped. \<exists>k. helper_at (sr_handles rcd) k = Some h \<and> helper_at (sr_handles rcd') k = None)"

lemma gives_up_update:
  assumes "bm_ok (rr_services run)" and "map_of (rr_services run) s = Some rcd"
    and "record_gives_up rcd stopped rcd'"
  shows "gives_up run stopped (run\<lparr>rr_services := bm_update s (\<lambda>_. rcd') (rr_services run)\<rparr>)"
  using assms by (fastforce simp: gives_up_def record_gives_up_def run_slot_def)

lemma stops_give_up:
  "record_gives_up r (snd (stop_watch r)) (fst (stop_watch r))"
  "record_gives_up r (snd (stop_api_capture r)) (fst (stop_api_capture r))"
  "record_gives_up r (fst (apply_unchanged p r)) (snd (apply_unchanged p r))"
  by (auto simp: record_gives_up_def all_helper ex_helper apply_unchanged_def apply_prepared_eq case_prod_beta Let_def)

lemma stop_all_handles_set:
  "set (snd (stop_all_handles r)) = {h. \<exists>k. helper_at (sr_handles r) k = Some h}"
  by (auto simp: stop_all_handles_def case_prod_beta Let_def ex_helper)

lemma no_helper [simp]: "helper_at no_handles k = None"
  by (cases k) (simp_all add: no_handles_def)

lemma slot_of_stopped:
  assumes "h \<in> set (case map_of (rr_services run) s of None \<Rightarrow> [] | Some p \<Rightarrow> snd (stop_all_handles p))"
  shows "\<exists>k. run_slot run s k = Some h"
  using assms by (cases "map_of (rr_services run) s") (simp_all add: run_slot_def stop_all_handles_set)

lemma gives_up_replace:
  assumes "bm_ok (rr_services run)" and "sr_handles rcd = no_handles"
  shows "gives_up run (snd (fst (replace_service_record s rcd run))) (snd (replace_service_record s rcd run))"
proof -
  have slot': "run_slot (snd (replace_service_record s rcd run)) s' k = (if s' = s then None else run_slot run s' k)" for s' k
    using assms(2) by (simp add: replace_service_record_def run_slot_def Let_def)
  have "bm_ok (rr_services (snd (replace_service_record s rcd run)))"
    using assms(1) by (auto simp: replace_service_record_def Let_def)
  moreover have "snd (fst (replace_service_record s rcd run)) =
      (case map_of (rr_services run) s of None \<Rightarrow> [] | Some p \<Rightarrow> snd (stop_all_handles p))"
    by (simp add: replace_service_record_def Let_def)
  moreover have "\<exists>s' k. run_slot run s' k = Some h \<and> (if s' = s then None else run_slot run s' k) = None"
    if h: "h \<in> set (case map_of (rr_services run) s of None \<Rightarrow> [] | Some p \<Rightarrow> snd (stop_all_handles p))" for h
    using slot_of_stopped [OF h] by auto
  ultimately show ?thesis unfolding gives_up_def slot' by simp
qed

lemma gives_up_remove:
  assumes "bm_ok (rr_services run)"
  shows "gives_up run (fst (remove_services names run)) (snd (remove_services names run))"
  using assms
proof (induction names arbitrary: run)
  case Nil
  then show ?case by (simp add: gives_up_def)
next
  case (Cons name names)
  let ?run1 = "run\<lparr>rr_services := bm_remove name (rr_services run)\<rparr>"
  have "bm_ok (rr_services ?run1)" using Cons.prems by auto
  note rest = Cons.IH [OF this]
  have slot1: "run_slot ?run1 s k = (if s = name then None else run_slot run s k)" for s k
    by (simp add: run_slot_def)
  have first: "\<exists>s k. run_slot run s k = Some h \<and> run_slot ?run1 s k = None"
    if h: "h \<in> set (case map_of (rr_services run) name of None \<Rightarrow> [] | Some service \<Rightarrow> snd (stop_all_handles service))" for h
    using slot_of_stopped [OF h] unfolding slot1 by auto
  show ?case
    using rest first unfolding gives_up_def remove_services.simps Let_def case_prod_beta fst_conv snd_conv slot1
    by (auto split: if_splits) (metis option.distinct(1))+
qed

lemma gives_up_take:
  assumes "bm_ok (rr_services run)"
  shows "gives_up run (fst (take_run_handles run)) (snd (take_run_handles run))"
proof -
  have slot': "run_slot (snd (take_run_handles run)) s k = None" for s k
    by (cases "map_of (rr_services run) s") (simp_all add: take_run_handles_def run_slot_def Let_def)
  have held: "\<exists>s k. run_slot run s k = Some h" if h: "h \<in> set (fst (take_run_handles run))" for h
  proof -
    obtain r where r: "r \<in> set (bm_values (rr_services run))" "h \<in> set (monitor_handles r) \<union> set (proxy_handles r)"
      using h by (auto simp: take_run_handles_def Let_def)
    then obtain s where "(s, r) \<in> set (rr_services run)" by (auto simp: bm_values_def)
    then have "map_of (rr_services run) s = Some r"
      using bm_ok_distinct [OF assms] by (simp add: bm_keys_def)
    then show ?thesis
      using r(2) by (intro exI [of _ s]) (auto simp: run_slot_def monitor_handles_def proxy_handles_def ex_helper split: option.splits)
  qed
  show ?thesis using assms slot' held by (simp add: gives_up_def) (simp add: take_run_handles_def Let_def)
qed

section \<open>Steps\<close>

text \<open>The handles a decision stops.\<close>

definition watch_stopped :: "watch_decision \<Rightarrow> handle_id list" where
  "watch_stopped d = (case d of Watch_Stop hs \<Rightarrow> hs | _ \<Rightarrow> [])"

definition capture_stopped :: "capture_decision \<Rightarrow> handle_id list" where
  "capture_stopped d = (case d of Capture_Stop hs \<Rightarrow> hs | _ \<Rightarrow> [])"

text \<open>The critical section of the watcher of a service: the pause flag it stores, and whether to restart.\<close>

definition fire_watch :: "string \<Rightarrow> service_record \<Rightarrow> (bool \<times> bool) option \<times> service_record" where
  "fire_watch next_hash service =
     (let paused = rt_watch_paused (sr_runtime service) in
      if \<not> ss_auto_restart (sr_spec service) \<or> paused \<or> lp_watch_hash (sr_launch service) = next_hash
      then (Some (paused, False), service)
      else (Some (paused, True), service\<lparr>sr_launch := (sr_launch service)\<lparr>lp_watch_hash := next_hash\<rparr>\<rparr>))"

text \<open>
  Each rule is one critical section, with the flags it raises. The handles that belong to no service of a run
  are the second component: those on their way to a service, and those of the globals, which give out handles for
  their watchers and stop them among themselves. The last rule stands for everything that leaves runs and
  handles alone: commands to systemd, ports, manifests, events, and a helper that ends by itself, as a health
  monitor does at the limit of restarts: its handle stays where it is.
\<close>

inductive daemon_step :: "world \<Rightarrow> app_state \<times> handle_id set \<Rightarrow> app_state \<times> handle_id set \<Rightarrow> bool" for wo where
  Step_Ready: "daemon_step wo (st, P) (snd (mark_service_ready wo run_id service st), P)"
| Step_Failed: "daemon_step wo (st, P) (snd (mark_service_failed wo run_id service reason st), P)"
| Step_Restart: "daemon_step wo (st, P) (snd (with_run_state run_id (begin_restart (wo_now wo) run_id service) st), P)"
| Step_Started: "daemon_step wo (st, P)
    (snd (with_run_state run_id (update_service service (set_started_at (wo_now wo)) ()) st), P)"
| Step_Recover: "daemon_step wo (st, P) (snd (run_events run_id
    (then_recompute (update_service service (recover_service (wo_now wo) run_id service) [])) st), P)"
| Step_Degrade: "daemon_step wo (st, P) (snd (run_events run_id
    (then_recompute (update_service service (degrade_service (wo_now wo) run_id service) [])) st), P)"
| Step_Limit: "daemon_step wo (st, P) (snd (run_events run_id
    (then_recompute (update_service service (fail_service (wo_now wo) run_id service reason) [])) st), P)"
| Step_Recompute: "daemon_step wo (st, P) (snd (with_run_state run_id recompute_run_state st), P)"
| Step_Stop_Handles: "daemon_step wo (st, P) (stop_service_handles run_id st, P)"
| Step_Stop_Run: "daemon_step wo (st, P) (snd (with_run_state run_id (stop_run (wo_now wo) run_id) st), P)"
| Step_Relaunch: "daemon_step wo (st, P) (snd (with_run_state run_id (relaunch_run base_env) st), P)"
| Step_Replace: "with_run_state run_id (replace_service_record service rcd) st = (Inr (previous, stopped), st1) \<Longrightarrow>
    sr_handles rcd = no_handles \<Longrightarrow> daemon_step wo (st, P) (raise_flags stopped st1, P)"
| Step_Unchanged: "with_run_state run_id (update_service service (apply_unchanged p) []) st = (Inr stopped, st1) \<Longrightarrow>
    daemon_step wo (st, P) (raise_flags stopped st1, P)"
| Step_Drop: "with_run_state run_id (drop_services removed) st = (Inr (stopped, events), st1) \<Longrightarrow>
    daemon_step wo (st, P) (raise_flags stopped st1, P)"
| Step_Pause: "daemon_step wo (st, P) (snd (set_watch_paused paused run_id target st), P)"
| Step_Watch_Decide: "with_run_state run_id (update_service service decide_watch Watch_Absent) st = (Inr d, st1) \<Longrightarrow>
    daemon_step wo (st, P) (raise_flags (watch_stopped d) st1, P)"
| Step_Watch_Start: "with_run_state run_id (update_service service decide_watch Watch_Absent) st = (Inr (Watch_Start paused), st1) \<Longrightarrow>
    wo_watcher wo run_id service = Inr () \<Longrightarrow> new_handle st1 = (h, st2) \<Longrightarrow>
    daemon_step wo (st, P) (set_paused (Some h) paused st2, insert h P)"
| Step_Watch_Fire: "daemon_step wo (st, P) (snd (with_run_state run_id (update_service service (fire_watch next_hash) None) st), P)"
| Step_Global_New: "new_handle st = (h, st2) \<Longrightarrow> daemon_step wo (st, P) (st2\<lparr>ap_globals := globals\<rparr>, insert h P)"
| Step_Global_Stop: "set hs \<subseteq> P \<Longrightarrow> daemon_step wo (st, P) (raise_flags hs (st\<lparr>ap_globals := globals\<rparr>), P - set hs)"
| Step_Watch_Finish: "h \<in> P \<Longrightarrow> daemon_step wo (st, P) (finish_watch run_id service h st, P - {h})"
| Step_Capture_Decide: "with_run_state run_id (update_service service decide_capture Capture_Keep) st = (Inr d, st1) \<Longrightarrow>
    daemon_step wo (st, P) (raise_flags (capture_stopped d) st1, P)"
| Step_Capture_Start: "with_run_state run_id (update_service service decide_capture Capture_Keep) st = (Inr (Capture_Start public target), st1) \<Longrightarrow>
    wo_proxy wo run_id service public target = Inr () \<Longrightarrow> new_handle st1 = (h, st2) \<Longrightarrow>
    daemon_step wo (st, P) (st2, insert h P)"
| Step_Capture_Finish: "h \<in> P \<Longrightarrow> daemon_step wo (st, P) (snd (finish_capture run_id service h st), P - {h})"
| Step_Reconcile: "daemon_step wo (st, P) (snd (with_run_state run_id (reconcile_section run_id status) st), P)"
| Step_Create: "daemon_step wo (st, P) (st\<lparr>ap_runs := snd (create_run (new_run_record now run_id stack dir config_dir env) (ap_runs st))\<rparr>, P)"
| Step_Remove: "daemon_step wo (st, P) (st\<lparr>ap_runs := bm_remove run_id (ap_runs st)\<rparr>, P)"
| Step_Other: "ap_runs st' = ap_runs st \<Longrightarrow> ap_stopped st' = ap_stopped st \<Longrightarrow> ap_next_handle st' = ap_next_handle st \<Longrightarrow>
    daemon_step wo (st, P) (st', P)"

text \<open>A daemon starts with runs whose services hold no handle: none, or those it restored.\<close>

inductive daemon_reachable :: "world \<Rightarrow> app_state \<times> handle_id set \<Rightarrow> bool" for wo where
  Reach_Start: "runs_ok st \<Longrightarrow> (\<And>a. slot st a = None) \<Longrightarrow> ap_stopped st = [] \<Longrightarrow> daemon_reachable wo (st, {})"
| Reach_Step: "daemon_reachable wo c \<Longrightarrow> daemon_step wo c c' \<Longrightarrow> daemon_reachable wo c'"

section \<open>Every step keeps the ledger\<close>

lemma set_service_state_handles [simp]:
  "sr_handles (snd (set_service_state now r s state rcd)) = sr_handles rcd"
  by simp

lemma set_last_failure_handles [simp]: "sr_handles (set_last_failure reason rcd) = sr_handles rcd"
  by (simp add: set_last_failure_def)

named_theorems keeps \<open>sections that change no handle\<close>

lemma keeps_fail [keeps]: "keeps_handles (\<lambda>run. snd (then_recompute (update_service s (fail_service now r s' reason) []) run))"
  by (intro keeps_handles_then_recompute keeps_handles_update) (simp add: fail_service_def case_prod_beta)

lemma keeps_recover [keeps]: "keeps_handles (\<lambda>run. snd (then_recompute (update_service s (recover_service now r s') []) run))"
  by (intro keeps_handles_then_recompute keeps_handles_update) (simp add: recover_service_def case_prod_beta)

lemma keeps_degrade [keeps]: "keeps_handles (\<lambda>run. snd (then_recompute (update_service s (degrade_service now r s') []) run))"
  by (intro keeps_handles_then_recompute keeps_handles_update) (simp add: degrade_service_def case_prod_beta)

lemma keeps_fire [keeps]: "keeps_handles (\<lambda>run. snd (update_service s (fire_watch next_hash) None run))"
  by (intro keeps_handles_update) (simp add: fire_watch_def Let_def)

lemma keeps_started [keeps]: "keeps_handles (\<lambda>run. snd (update_service s (set_started_at now) () run))"
  by (intro keeps_handles_update) (simp add: set_started_at_def)

lemma keeps_restart [keeps]: "keeps_handles (\<lambda>run. snd (begin_restart now r s run))"
  by (auto simp: keeps_handles_def begin_restart_def run_slot_def case_prod_beta Let_def fun_eq_iff split: option.split)

lemma keeps_relaunch [keeps]: "keeps_handles (\<lambda>run. snd (relaunch_run env run))"
  by (simp add: keeps_handles_def relaunch_run_def run_slot_def Let_def fun_eq_iff)

lemma keeps_stop_run [keeps]: "keeps_handles (\<lambda>run. snd (stop_run now r run))"
proof -
  have services: "rr_services (snd (stop_run now r run)) = bm_map (\<lambda>n s. snd (set_service_state now r n Sv_Stopped s)) (rr_services run)" for run
    by (simp add: stop_run_def stop_services_eq bm_map_def case_prod_beta Let_def)
  show ?thesis
    by (auto simp: keeps_handles_def run_slot_def services fun_eq_iff split: Option.bind_split)
qed

lemma keeps_reconcile_services: "keeps_handles (\<lambda>run. snd (reconcile_services run_id statuses run))"
proof (induction statuses)
  case Nil
  show ?case by (simp add: keeps_handles_def)
next
  case (Cons ns statuses)
  obtain n status where ns: "ns = (n, status)" by fastforce
  have "keeps_handles (\<lambda>run. snd (update_service n (reconcile_service run_id n status) (False, []) run))"
    by (rule keeps_handles_update) (rule reconcile_service_result)
  then show ?case using Cons by (auto simp: ns keeps_handles_def case_prod_beta Let_def)
qed

lemma keeps_reconcile [keeps]: "keeps_handles (\<lambda>run. snd (reconcile_section run_id status run))"
  using keeps_reconcile_services [of run_id "vr_services status"]
  by (simp add: keeps_handles_def reconcile_section_def run_slot_def fun_eq_iff case_prod_beta Let_def)

lemma pause_record_handles [simp]: "sr_handles (pause_record paused rcd) = sr_handles rcd"
  by (simp add: pause_record_def)

lemma keeps_pause [keeps]: "keeps_handles (\<lambda>run. snd (pause_services paused target run))"
  by (auto simp: keeps_handles_def pause_services_def run_slot_def fun_eq_iff Let_def split: option.split Option.bind_split)

declare keeps_handles_recompute [keeps]

lemma handles_ok_flags:
  assumes ok: "handles_ok (st, P)" and result: "with_run_state run_id f st = (Inr out, st1)"
    and gone: "\<And>run. bm_ok (rr_services run) \<Longrightarrow> gives_up run (stopped_of (fst (f run))) (snd (f run))"
  shows "handles_ok (raise_flags (stopped_of out) st1, P)"
proof -
  obtain run where run: "map_of (ap_runs st) run_id = Some run" "fst (f run) = out"
    and st1: "st1 = st\<lparr>ap_runs := bm_update run_id (\<lambda>_. snd (f run)) (ap_runs st)\<rparr>"
    using result by (auto simp: with_run_state_eq split: option.splits)
  show ?thesis unfolding st1 run(2) [symmetric] by (intro handles_ok_gives_up [OF ok run(1) gone])
qed

lemma gives_up_service:
  assumes "bm_ok (rr_services run)" and "\<And>r. record_gives_up r (stopped_of (fst (f r))) (snd (f r))"
    and "stopped_of absent = []"
  shows "gives_up run (stopped_of (fst (update_service s f absent run))) (snd (update_service s f absent run))"
proof (cases "map_of (rr_services run) s")
  case None
  then show ?thesis using assms by (simp add: update_service_eq gives_up_def)
next
  case (Some r)
  then show ?thesis using gives_up_update [OF assms(1) Some assms(2)] by (simp add: update_service_eq)
qed

lemma decisions_give_up:
  "record_gives_up r (watch_stopped (fst (decide_watch r))) (snd (decide_watch r))"
  "record_gives_up r (capture_stopped (fst (decide_capture r))) (snd (decide_capture r))"
  using stops_give_up [of r]
  by (auto simp: decide_watch_def decide_capture_def watch_stopped_def capture_stopped_def case_prod_beta
      split: option.split) (simp_all add: record_gives_up_def)

lemma handles_ok_decide_watch:
  assumes "handles_ok (st, P)" and "with_run_state run_id (update_service service decide_watch Watch_Absent) st = (Inr d, st1)"
  shows "handles_ok (raise_flags (watch_stopped d) st1, P)"
  by (rule handles_ok_flags [OF assms]) (rule gives_up_service [OF _ decisions_give_up(1)]; simp add: watch_stopped_def)

lemma handles_ok_decide_capture:
  assumes "handles_ok (st, P)" and "with_run_state run_id (update_service service decide_capture Capture_Keep) st = (Inr d, st1)"
  shows "handles_ok (raise_flags (capture_stopped d) st1, P)"
  by (rule handles_ok_flags [OF assms]) (rule gives_up_service [OF _ decisions_give_up(2)]; simp add: capture_stopped_def)

lemma raise_no_flags [simp]: "raise_flags [] st = st"
  by (simp add: raise_flags_def)

lemma handles_ok_frame:
  assumes "handles_ok (st, P)" and "ap_runs st' = ap_runs st" and "ap_stopped st' = ap_stopped st"
    and "ap_next_handle st' = ap_next_handle st"
  shows "handles_ok (st', P)"
proof -
  have "slot st' = slot st" by (rule slot_cong [OF assms(2)])
  moreover have "runs_ok st' = runs_ok st" by (simp add: runs_ok_def assms(2))
  ultimately show ?thesis using assms(1,3,4) by (simp add: handles_ok_def)
qed

lemma handles_ok_new:
  assumes "handles_ok (st, P)" and "new_handle st = (h, st')"
  shows "handles_ok (st', insert h P)"
proof -
  have "st' = snd (new_handle st)" "h = ap_next_handle st" using assms(2) by (auto simp: new_handle_def)
  then show ?thesis using assms(1) ledger_new [of "slot st"] by (auto simp: handles_ok_def) (simp_all add: new_handle_def)
qed

text \<open>A pending handle goes into an empty place of a record, or is stopped.\<close>

lemma handles_ok_place:
  assumes ok: "handles_ok (st, P)" and h: "h \<in> P" and run: "map_of (ap_runs st) run_id = Some run"
    and service: "map_of (rr_services run) service = Some r" and empty: "helper_at (sr_handles r) k = None"
    and placed: "\<And>j. helper_at (sr_handles r') j = (if j = k then Some h else helper_at (sr_handles r) j)"
    and st': "ap_runs st' = bm_update run_id (\<lambda>_. run\<lparr>rr_services := bm_update service (\<lambda>_. r') (rr_services run)\<rparr>) (ap_runs st)"
      "ap_stopped st' = ap_stopped st" "ap_next_handle st' = ap_next_handle st"
  shows "handles_ok (st', P - {h})"
proof -
  let ?b = "(run_id, service, k)"
  have none: "slot st ?b = None" using run service empty by (simp add: slot_def run_slot_def)
  have "slot st' a = ((slot st)(?b := Some h)) a" for a
    using run service by (cases a) (auto simp: slot_def run_slot_def st'(1) placed)
  then have "slot st' = (slot st)(?b := Some h)" by blast
  moreover have "runs_ok st'"
    using ok run runs_ok_update [of st run_id run "run\<lparr>rr_services := bm_update service (\<lambda>_. r') (rr_services run)\<rparr>"]
    by (simp add: handles_ok_def runs_ok_def st'(1))
  ultimately show ?thesis
    using ledger_install [of "slot st", OF _ h none] ok by (simp add: handles_ok_def st'(2,3))
qed

lemma handles_ok_drop:
  assumes "handles_ok (st, P)" and "h \<in> P"
  shows "handles_ok (raise_flags [h] st, P - {h})"
  using assms ledger_release [of "slot st" "set (ap_stopped st)" P "ap_next_handle st" "P - {h}" "slot st" "insert h (set (ap_stopped st))"]
  by (auto simp: handles_ok_def)

lemma handles_ok_drop_all:
  assumes "handles_ok (st, P)" and "set hs \<subseteq> P"
  shows "handles_ok (raise_flags hs st, P - set hs)"
  using assms ledger_release [of "slot st" "set (ap_stopped st)" P "ap_next_handle st" "P - set hs" "slot st" "set (ap_stopped st) \<union> set hs"]
  by (auto simp: handles_ok_def Un_commute)

lemma handles_ok_same_run:
  assumes "handles_ok (st, P)" and "map_of (ap_runs st) run_id = Some run"
  shows "handles_ok (st\<lparr>ap_runs := bm_update run_id (\<lambda>_. run) (ap_runs st)\<rparr>, P)"
  using handles_ok_gives_up [OF assms, of "[]" run] by (simp add: gives_up_def)

lemma handles_ok_same_record:
  assumes ok: "handles_ok (st, P)" and run: "map_of (ap_runs st) run_id = Some run"
    and r: "map_of (rr_services run) service = Some r" "sr_handles r' = sr_handles r"
    and st': "ap_runs st' = bm_update run_id (\<lambda>_. run') (ap_runs st)"
      "rr_services run' = bm_update service (\<lambda>_. r') (rr_services run)"
      "ap_stopped st' = ap_stopped st" "ap_next_handle st' = ap_next_handle st"
  shows "handles_ok (st', P)"
proof -
  have "handles_ok (raise_flags [] (st\<lparr>ap_runs := bm_update run_id (\<lambda>_. run') (ap_runs st)\<rparr>), P)"
    by (rule handles_ok_gives_up [OF ok run]) (simp add: gives_up_def run_slot_def st'(2) r)
  from handles_ok_frame [OF this, of st'] show ?thesis by (simp add: st')
qed

lemma absent_service:
  assumes "service_at st run_id service = None"
  shows "with_run_state run_id (update_service service f absent) st =
    (case map_of (ap_runs st) run_id of
       None \<Rightarrow> (Inl (run_not_found run_id), st)
     | Some run \<Rightarrow> (Inr absent, st\<lparr>ap_runs := bm_update run_id (\<lambda>_. run) (ap_runs st)\<rparr>))"
  using assms by (auto simp: with_run_state_eq update_service_eq service_at_def split: option.split)

lemma handles_ok_absent:
  assumes "handles_ok (st, P)" and "service_at st run_id service = None"
  shows "handles_ok (snd (with_run_state run_id (update_service service f absent) st), P)"
  using assms by (auto simp: absent_service intro: handles_ok_same_run split: option.split)

lemma service_atE:
  assumes "service_at st run_id service = Some r"
  obtains run where "map_of (ap_runs st) run_id = Some run" and "map_of (rr_services run) service = Some r"
  using assms by (auto simp: service_at_def bind_eq_Some_conv)

lemma handles_ok_finish_watch:
  assumes ok: "handles_ok (st, P)" and h: "h \<in> P"
  shows "handles_ok (finish_watch run_id service h st, P - {h})"
proof (cases "service_at st run_id service")
  case None
  have "finish_watch run_id service h st = raise_flags [h] (snd (with_run_state run_id (update_service service (install_watch h) None) st))"
    unfolding finish_watch_def absent_service [OF None] by (simp split: option.split)
  then show ?thesis using handles_ok_drop [OF handles_ok_absent [OF ok None] h] by simp
next
  case (Some r)
  then obtain run where run: "map_of (ap_runs st) run_id = Some run" "map_of (rr_services run) service = Some r"
    by (rule service_atE)
  let ?st1 = "snd (with_run_state run_id (update_service service (install_watch h) None) st)"
  have st1: "ap_runs ?st1 = bm_update run_id (\<lambda>_. run\<lparr>rr_services := bm_update service (\<lambda>_. snd (install_watch h r)) (rr_services run)\<rparr>) (ap_runs st)"
    using run by (simp add: with_run_state_eq update_service_eq)
  show ?thesis
  proof (cases "watch_wanted r \<and> h_watch (sr_handles r) = None")
    case True
    then have placed: "helper_at (sr_handles (snd (install_watch h r))) j = (if j = Watch_Helper then Some h else helper_at (sr_handles r) j)" for j
      by (cases j) (simp_all add: install_watch_def)
    have "handles_ok (?st1, P - {h})"
      by (rule handles_ok_place [OF ok h run _ placed st1]) (use True in simp_all)
    then show ?thesis
      using True run handles_ok_frame [of ?st1 "P - {h}" "finish_watch run_id service h st"]
      by (simp add: finish_watch_def with_run_state_eq update_service_eq install_watch_def)
  next
    case False
    have "handles_ok (?st1, P)"
      by (rule handles_ok_same_record [OF ok run _ st1]) (use False in \<open>auto simp: install_watch_def\<close>)
    moreover have "finish_watch run_id service h st = raise_flags [h] ?st1"
      using False run by (auto simp: finish_watch_def with_run_state_eq update_service_eq install_watch_def)
    ultimately show ?thesis using handles_ok_drop [OF _ h, of ?st1] by simp
  qed
qed

text \<open>
  A proxy that was started for a run that is gone by then is neither owned nor stopped.
\<close>

lemma handles_ok_finish_capture:
  assumes ok: "handles_ok (st, P)" and h: "h \<in> P"
  shows "handles_ok (snd (finish_capture run_id service h st), P - {h})"
proof (cases "service_at st run_id service")
  case None
  have forget: "handles_ok (st, P - {h})"
    using ok ledger_release [of "slot st" "set (ap_stopped st)" P "ap_next_handle st" "P - {h}" "slot st" "set (ap_stopped st)"]
    by (auto simp: handles_ok_def)
  show ?thesis
  proof (cases "map_of (ap_runs st) run_id")
    case None
    then show ?thesis using forget by (simp add: finish_capture_def with_run_state_eq)
  next
    case (Some run)
    then have "snd (finish_capture run_id service h st) = raise_flags [h] (st\<lparr>ap_runs := bm_update run_id (\<lambda>_. run) (ap_runs st)\<rparr>)"
      unfolding finish_capture_def absent_service [OF \<open>service_at st run_id service = None\<close>] by simp
    then show ?thesis using handles_ok_drop [OF handles_ok_same_run [OF ok Some] h] by simp
  qed
next
  case (Some r)
  then obtain run where run: "map_of (ap_runs st) run_id = Some run" "map_of (rr_services run) service = Some r"
    by (rule service_atE)
  let ?st1 = "snd (with_run_state run_id (update_service service (install_capture h) False) st)"
  have st1: "ap_runs ?st1 = bm_update run_id (\<lambda>_. run\<lparr>rr_services := bm_update service (\<lambda>_. snd (install_capture h r)) (rr_services run)\<rparr>) (ap_runs st)"
    using run by (simp add: with_run_state_eq update_service_eq)
  show ?thesis
  proof (cases "lp_capture_api (sr_launch r) \<and> h_api_capture (sr_handles r) = None")
    case True
    then have placed: "helper_at (sr_handles (snd (install_capture h r))) j = (if j = Capture_Helper then Some h else helper_at (sr_handles r) j)" for j
      by (cases j) (simp_all add: install_capture_def)
    have "handles_ok (?st1, P - {h})"
      by (rule handles_ok_place [OF ok h run _ placed st1]) (use True in simp_all)
    then show ?thesis
      using True run by (simp add: finish_capture_def with_run_state_eq update_service_eq install_capture_def)
  next
    case False
    have "handles_ok (?st1, P)"
      by (rule handles_ok_same_record [OF ok run _ st1]) (use False in \<open>auto simp: install_capture_def\<close>)
    moreover have "snd (finish_capture run_id service h st) = raise_flags [h] ?st1"
      using False run by (auto simp: finish_capture_def with_run_state_eq update_service_eq install_capture_def)
    ultimately show ?thesis using handles_ok_drop [OF _ h, of ?st1] by simp
  qed
qed

lemma handles_ok_same_services:
  assumes "handles_ok (st, P)" and "map_of (ap_runs st) run_id = Some run" and "rr_services run' = rr_services run"
    and "ap_runs st' = bm_update run_id (\<lambda>_. run') (ap_runs st)" "ap_stopped st' = ap_stopped st"
    "ap_next_handle st' = ap_next_handle st"
  shows "handles_ok (st', P)"
proof -
  have "handles_ok (raise_flags [] (st\<lparr>ap_runs := bm_update run_id (\<lambda>_. run') (ap_runs st)\<rparr>), P)"
    by (rule handles_ok_gives_up [OF assms(1,2)]) (simp add: gives_up_def run_slot_def assms(3))
  from handles_ok_frame [OF this, of st'] show ?thesis by (simp add: assms)
qed

lemma ready_service_result:
  "let rcd' = snd (ready_service now r s h rcd) in
   fst (fst (ready_service now r s h rcd)) \<longleftrightarrow> helper_at (sr_handles rcd) Health_Helper = None \<and> sr_handles rcd' \<noteq> sr_handles rcd"
  "sr_handles (snd (ready_service now r s h rcd)) =
     (if fst (fst (ready_service now r s h rcd)) then (sr_handles rcd)\<lparr>h_health := Some h\<rparr> else sr_handles rcd)"
proof -
  show "sr_handles (snd (ready_service now r s h rcd)) =
     (if fst (fst (ready_service now r s h rcd)) then (sr_handles rcd)\<lparr>h_health := Some h\<rparr> else sr_handles rcd)"
    by (simp add: ready_service_def case_prod_beta Let_def)
  then show "let rcd' = snd (ready_service now r s h rcd) in
   fst (fst (ready_service now r s h rcd)) \<longleftrightarrow> helper_at (sr_handles rcd) Health_Helper = None \<and> sr_handles rcd' \<noteq> sr_handles rcd"
    by (cases "sr_handles rcd") (auto simp: ready_service_def case_prod_beta Let_def)
qed

lemma handles_ok_ready:
  assumes ok: "handles_ok (st, P)"
  shows "handles_ok (snd (mark_service_ready wo run_id service st), P)"
proof (cases "map_of (ap_runs st) run_id")
  case None
  then show ?thesis using ok by (simp add: mark_service_ready_def with_run_state_eq)
next
  case run: (Some run)
  let ?n = "ap_next_handle st" and ?st' = "snd (mark_service_ready wo run_id service st)"
  show ?thesis
  proof (cases "map_of (rr_services run) service")
    case None
    have "ap_runs ?st' = bm_update run_id (\<lambda>_. snd (recompute_run_state run)) (ap_runs st)"
      "ap_stopped ?st' = ap_stopped st" "ap_next_handle ?st' = ap_next_handle st"
      using run None by (simp_all add: mark_service_ready_def with_run_state_eq update_service_eq case_prod_beta Let_def)
    then show ?thesis by (intro handles_ok_same_services [OF ok run]) simp_all
  next
    case (Some r)
    let ?r' = "snd (ready_service (wo_now wo) run_id service ?n r)" and ?start = "fst (fst (ready_service (wo_now wo) run_id service ?n r))"
    let ?run1 = "run\<lparr>rr_services := bm_update service (\<lambda>_. ?r') (rr_services run)\<rparr>"
    have runs: "ap_runs ?st' = bm_update run_id (\<lambda>_. snd (recompute_run_state ?run1)) (ap_runs st)"
      and same: "ap_stopped ?st' = ap_stopped st" "ap_next_handle ?st' = (if ?start then Suc ?n else ?n)"
      using run Some by (simp_all add: mark_service_ready_def with_run_state_eq update_service_eq case_prod_beta Let_def)
    show ?thesis
    proof (cases ?start)
      case False
      then have "sr_handles ?r' = sr_handles r" by (simp add: ready_service_result(2))
      then show ?thesis
        using False by (intro handles_ok_same_record [OF ok run Some _ runs]) (simp_all add: same)
    next
      case True
      let ?mid = "st\<lparr>ap_next_handle := Suc ?n, ap_runs := bm_update run_id (\<lambda>_. ?run1) (ap_runs st)\<rparr>"
      have fresh: "handles_ok (st\<lparr>ap_next_handle := Suc ?n\<rparr>, insert ?n P)"
        using handles_ok_new [OF ok] by (simp add: new_handle_def)
      have "?n \<notin> P" using ok by (auto simp: handles_ok_def ledger_ok_def)
      then have less: "insert ?n P - {?n} = P" by simp
      have empty: "helper_at (sr_handles r) Health_Helper = None"
        using True ready_service_result(1) [of "wo_now wo" run_id service ?n r] by (simp add: Let_def)
      have placed: "helper_at (sr_handles ?r') j = (if j = Health_Helper then Some ?n else helper_at (sr_handles r) j)" for j
        using True by (cases j) (simp_all add: ready_service_result(2))
      have "handles_ok (?mid, insert ?n P - {?n})"
        by (rule handles_ok_place [OF fresh _ _ Some empty placed]) (use run in simp_all)
      then have mid: "handles_ok (?mid, P)" by (simp only: less)
      have run': "map_of (ap_runs ?mid) run_id = Some ?run1" using run by simp
      have "bm_update run_id (\<lambda>_. snd (recompute_run_state ?run1)) (ap_runs st) =
          bm_update run_id (\<lambda>_. snd (recompute_run_state ?run1)) (ap_runs ?mid)"
        by (simp add: bm_update_def o_def case_prod_beta)
      then show ?thesis
        using True by (intro handles_ok_same_services [OF mid run', of "snd (recompute_run_state ?run1)"]) (simp_all add: runs same)
    qed
  qed
qed

lemma handles_ok_shrink:
  assumes "handles_ok (st, P)" and "runs_ok st'" and "\<And>a. slot st' a = slot st a \<or> slot st' a = None"
    and "ap_stopped st' = ap_stopped st" and "ap_next_handle st' = ap_next_handle st"
  shows "handles_ok (st', P)"
  using assms ledger_release [of "slot st" "set (ap_stopped st)" P "ap_next_handle st" P "slot st'" "set (ap_stopped st')"]
  by (auto simp: handles_ok_def)

lemma run_events_state: "snd (run_events run_id f st) = snd (with_run_state run_id f st)"
  by (simp add: run_events_def case_prod_beta split: sum.split)

lemma set_all_paused_same [simp]:
  "ap_runs (set_all_paused paused hs st) = ap_runs st" "ap_stopped (set_all_paused paused hs st) = ap_stopped st"
  "ap_next_handle (set_all_paused paused hs st) = ap_next_handle st"
  unfolding set_all_paused_def by (induction hs arbitrary: st) simp_all

lemma mark_service_failed_state:
  "snd (mark_service_failed wo run_id service reason st) =
    (case with_run_state run_id (then_recompute (update_service service (fail_service (wo_now wo) run_id service reason) [])) st of
       (Inl _, st1) \<Rightarrow> st1 | (Inr events, st1) \<Rightarrow> emit_events events st1)"
  by (simp add: mark_service_failed_def case_prod_beta split: sum.split)

lemma handles_ok_emit: "handles_ok (st, P) \<Longrightarrow> handles_ok (emit_events es st, P)"
  by (rule handles_ok_frame) simp_all

lemma handles_ok_failed:
  assumes "handles_ok (st, P)"
  shows "handles_ok (snd (mark_service_failed wo run_id service reason st), P)"
  using handles_ok_keeps [OF assms keeps_fail, of run_id service "wo_now wo" run_id service reason]
  unfolding mark_service_failed_state by (auto simp: case_prod_beta intro: handles_ok_emit split: sum.split)

lemma handles_ok_pause:
  assumes "handles_ok (st, P)"
  shows "handles_ok (snd (set_watch_paused paused run_id target st), P)"
proof -
  have "handles_ok (snd (with_run_state run_id (pause_services paused target) st), P)"
    by (rule handles_ok_keeps [OF assms keeps_pause])
  then show ?thesis
    by (auto simp: set_watch_paused_def case_prod_beta intro: handles_ok_frame split: sum.split)
qed

lemma handles_ok_create:
  assumes ok: "handles_ok (st, P)"
  shows "handles_ok (st\<lparr>ap_runs := snd (create_run (new_run_record now run_id stack dir config_dir env) (ap_runs st))\<rparr>, P)"
proof (rule handles_ok_shrink [OF ok])
  let ?run = "new_run_record now run_id stack dir config_dir env"
  let ?st' = "st\<lparr>ap_runs := snd (create_run ?run (ap_runs st))\<rparr>"
  have empty: "rr_services ?run = []" "rr_run_id ?run = run_id" by (simp_all add: new_run_record_def)
  show "runs_ok ?st'"
    using ok by (auto simp: handles_ok_def runs_ok_def create_run_def empty Let_def)
  show "slot ?st' a = slot st a \<or> slot ?st' a = None" for a
    by (cases a) (auto simp: slot_def create_run_def run_slot_def empty Let_def bm_contains_def)
qed simp_all

lemma handles_ok_remove:
  assumes ok: "handles_ok (st, P)"
  shows "handles_ok (st\<lparr>ap_runs := bm_remove run_id (ap_runs st)\<rparr>, P)"
proof (rule handles_ok_shrink [OF ok])
  show "runs_ok (st\<lparr>ap_runs := bm_remove run_id (ap_runs st)\<rparr>)"
    using ok by (auto simp: handles_ok_def runs_ok_def)
  show "slot (st\<lparr>ap_runs := bm_remove run_id (ap_runs st)\<rparr>) a = slot st a \<or>
      slot (st\<lparr>ap_runs := bm_remove run_id (ap_runs st)\<rparr>) a = None" for a
    by (cases a) (auto simp: slot_def)
qed simp_all

lemma handles_ok_stop_handles:
  assumes "handles_ok (st, P)"
  shows "handles_ok (stop_service_handles run_id st, P)"
  using assms handles_ok_flags [OF assms, of run_id take_run_handles _ _ "\<lambda>hs. hs"] gives_up_take
  by (auto simp: stop_service_handles_def case_prod_beta split: sum.split)
    (auto simp: with_run_state_eq split: option.splits)

lemma handles_ok_replace:
  assumes "handles_ok (st, P)" and "with_run_state run_id (replace_service_record service rcd) st = (Inr (previous, stopped), st1)"
    and "sr_handles rcd = no_handles"
  shows "handles_ok (raise_flags stopped st1, P)"
  using handles_ok_flags [OF assms(1,2), of snd] gives_up_replace [OF _ assms(3)] by simp

lemma handles_ok_unchanged:
  assumes "handles_ok (st, P)" and "with_run_state run_id (update_service service (apply_unchanged p) []) st = (Inr stopped, st1)"
  shows "handles_ok (raise_flags stopped st1, P)"
proof -
  have "gives_up run (fst (update_service service (apply_unchanged p) [] run)) (snd (update_service service (apply_unchanged p) [] run))"
    if "bm_ok (rr_services run)" for run
    using gives_up_service [OF that, of "\<lambda>hs. hs" "apply_unchanged p" "[]" service] stops_give_up(3) by simp
  then show ?thesis using handles_ok_flags [OF assms, of "\<lambda>hs. hs"] by simp
qed

lemma handles_ok_dropped:
  assumes "handles_ok (st, P)" and "with_run_state run_id (drop_services removed) st = (Inr (stopped, events), st1)"
  shows "handles_ok (raise_flags stopped st1, P)"
proof -
  have "gives_up run (fst (fst (drop_services removed run))) (snd (drop_services removed run))" if "bm_ok (rr_services run)" for run
    using gives_up_remove [OF that, of removed] by (simp add: drop_services_def case_prod_beta gives_up_def run_slot_def)
  then show ?thesis using handles_ok_flags [OF assms, of fst] by simp
qed

lemma handles_ok_watch_keep:
  assumes "handles_ok (st, P)" and "with_run_state run_id (update_service service decide_watch Watch_Absent) st = (Inr d, st1)"
    and "watch_stopped d = []"
  shows "handles_ok (st1, P)"
  using handles_ok_decide_watch [OF assms(1,2)] assms(3) by simp

lemma handles_ok_capture_keep:
  assumes "handles_ok (st, P)" and "with_run_state run_id (update_service service decide_capture Capture_Keep) st = (Inr d, st1)"
    and "capture_stopped d = []"
  shows "handles_ok (st1, P)"
  using handles_ok_decide_capture [OF assms(1,2)] assms(3) by simp

lemma daemon_step_ok: "daemon_step wo c c' \<Longrightarrow> handles_ok c \<Longrightarrow> handles_ok c'"
proof (induction rule: daemon_step.induct)
  case (Step_Watch_Start run_id service st paused st1 h st2 P)
  then have "handles_ok (st1, P)" using handles_ok_watch_keep [OF _ Step_Watch_Start(1)] by (simp add: watch_stopped_def)
  then have "handles_ok (st2, insert h P)" by (rule handles_ok_new) (rule Step_Watch_Start)
  then show ?case by (rule handles_ok_frame) (simp_all add: set_paused_def)
next
  case (Step_Global_New st h st2 P globals)
  then have "handles_ok (st2, insert h P)" using handles_ok_new by blast
  then show ?case by (rule handles_ok_frame) simp_all
next
  case (Step_Global_Stop hs P st globals)
  then have "handles_ok (st\<lparr>ap_globals := globals\<rparr>, P)" using handles_ok_frame [of st P "st\<lparr>ap_globals := globals\<rparr>"] by simp
  then show ?case using handles_ok_drop_all Step_Global_Stop(1) by blast
next
  case (Step_Capture_Start run_id service st public target st1 h st2 P)
  then have "handles_ok (st1, P)" using handles_ok_capture_keep [OF _ Step_Capture_Start(1)] by (simp add: capture_stopped_def)
  then show ?case by (rule handles_ok_new) (rule Step_Capture_Start)
qed (simp_all add: handles_ok_ready handles_ok_failed handles_ok_keeps keeps run_events_state handles_ok_stop_handles
    handles_ok_decide_watch handles_ok_decide_capture handles_ok_replace handles_ok_unchanged handles_ok_dropped handles_ok_pause handles_ok_finish_watch
    handles_ok_finish_capture handles_ok_create handles_ok_remove handles_ok_frame)

lemma daemon_reachable_ok: "daemon_reachable wo c \<Longrightarrow> handles_ok c"
proof (induction rule: daemon_reachable.induct)
  case (Reach_Start st)
  then show ?case by (simp add: handles_ok_def ledger_ok_def)
next
  case (Reach_Step c c')
  then show ?case by (blast intro: daemon_step_ok)
qed

section \<open>Properties\<close>

text \<open>
  C13. However the critical sections of handlers, monitors, watchers and globals interleave, a helper that a
  service of a run holds has not been told to stop, and no other service, and no other place of the same
  service, holds it as well. (It need not run: a health monitor that has reached the limit of restarts has ended
  and is held still.)
\<close>

theorem held_helpers_not_stopped:
  assumes "daemon_reachable wo (st, pending)"
    and "service_at st run_id service = Some rcd" and "helper_at (sr_handles rcd) k = Some h"
  shows "h \<notin> set (ap_stopped st) \<and>
    (\<forall>run_id' service' rcd' k'. service_at st run_id' service' = Some rcd' \<longrightarrow>
       helper_at (sr_handles rcd') k' = Some h \<longrightarrow> (run_id', service', k') = (run_id, service, k))"
proof -
  have ledger: "ledger_ok (slot st) (set (ap_stopped st)) pending (ap_next_handle st)"
    using daemon_reachable_ok [OF assms(1)] by (simp add: handles_ok_def)
  have slot: "slot st (r, s, j) = Some g" if "service_at st r s = Some q" "helper_at (sr_handles q) j = Some g" for r s j g q
    using that by (auto simp: slot_def run_slot_def service_at_def bind_eq_Some_conv)
  show ?thesis using ledger slot assms(2,3) unfolding ledger_ok_def by blast
qed

definition fresh_daemon :: app_state where
  "fresh_daemon = (example_state running_run)\<lparr>ap_runs := [], ap_next_handle := 0\<rparr>"

text \<open>One service is launched and becomes ready: its monitor is helper \<open>0\<close>.\<close>

definition web_run :: "service_record \<Rightarrow> run_record" where
  "web_run rcd = (new_run_record ''t0'' ''r1'' ''dev'' ''/p'' ''/p'' [])\<lparr>rr_services := [(''web'', rcd)]\<rparr>"

definition daemon_ready :: app_state where
  "daemon_ready = snd (mark_service_ready example_world ''r1'' ''web''
     (fresh_daemon\<lparr>ap_runs := [(''r1'', web_run (example_record ''web'' Sv_Starting))]\<rparr>))"

lemma daemon_ready_reachable: "daemon_reachable example_world (daemon_ready, {})"
proof -
  let ?run = "new_run_record ''t0'' ''r1'' ''dev'' ''/p'' ''/p'' []"
  let ?st1 = "fresh_daemon\<lparr>ap_runs := snd (create_run ?run (ap_runs fresh_daemon))\<rparr>"
  let ?rcd = "example_record ''web'' Sv_Starting"
  let ?st2 = "?st1\<lparr>ap_runs := [(''r1'', web_run ?rcd)]\<rparr>"
  have start: "daemon_reachable example_world (fresh_daemon, {})"
    by (rule Reach_Start) (simp_all add: fresh_daemon_def example_state_def runs_ok_def slot_def split: prod.split)
  have created: "daemon_reachable example_world (?st1, {})"
    by (rule Reach_Step [OF start]) (rule Step_Create)
  have "with_run_state ''r1'' (replace_service_record ''web'' ?rcd) ?st1 = (Inr (None, []), ?st2)"
    by (simp add: with_run_state_eq fresh_daemon_def create_run_def bm_contains_def new_run_record_def
        replace_service_record_def web_run_def bm_update_def bm_remove_def)
  from Step_Replace [OF this] have "daemon_step example_world (?st1, {}) (raise_flags [] ?st2, {})"
    by (simp add: example_record_def)
  then have "daemon_reachable example_world (?st2, {})"
    using Reach_Step [OF created] by simp
  then show ?thesis
    unfolding daemon_ready_def by (rule Reach_Step) (simp add: Step_Ready)
qed

theorem held_helpers_not_stopped_witness:
  "\<exists>rcd. service_at daemon_ready ''r1'' ''web'' = Some rcd \<and> helper_at (sr_handles rcd) Health_Helper = Some 0 \<and>
     0 \<notin> set (ap_stopped daemon_ready)"
proof -
  have "\<exists>rcd. service_at daemon_ready ''r1'' ''web'' = Some rcd \<and> helper_at (sr_handles rcd) Health_Helper = Some 0"
    by (simp add: daemon_ready_def mark_service_ready_def with_run_state_eq update_service_eq service_at_def web_run_def
        fresh_daemon_def ready_service_def example_record_def case_prod_beta Let_def set_service_state_def set_state_def
        no_handles_def set_last_failure_def)
  then show ?thesis using held_helpers_not_stopped [OF daemon_ready_reachable] by blast
qed

end
