(* ===== verification/Handlers.thy ===== *)
theory Handlers
  imports Daemon
begin

text \<open>
  The handlers on runs as programs over the steps of the daemon: each request, launch, monitor round and
  collection is a sequence of critical sections, so what holds of the steps holds around each of
  them, whatever runs in between.
\<close>

section \<open>Handlers are sequences of steps\<close>

definition performs :: "world \<Rightarrow> app_state \<Rightarrow> app_state \<Rightarrow> bool" where
  "performs wo st st' \<longleftrightarrow> (\<forall>P. handles_ok (st, P) \<longrightarrow> (daemon_step wo)\<^sup>*\<^sup>* (st, P) (st', P))"

lemma daemon_steps_ok: "(daemon_step wo)\<^sup>*\<^sup>* c c' \<Longrightarrow> handles_ok c \<Longrightarrow> handles_ok c'"
  by (induction rule: rtranclp_induct) (auto intro: daemon_step_ok)

lemma performs_refl [simp, intro]: "performs wo st st"
  by (simp add: performs_def)

lemma performs_trans: "performs wo st st1 \<Longrightarrow> performs wo st1 st2 \<Longrightarrow> performs wo st st2"
  unfolding performs_def by (meson daemon_steps_ok rtranclp_trans)

lemma performs_step: "(\<And>P. daemon_step wo (st, P) (st', P)) \<Longrightarrow> performs wo st st'"
  by (auto simp: performs_def)

lemma performs_frame:
  assumes "ap_runs st' = ap_runs st" and "ap_stopped st' = ap_stopped st" and "ap_next_handle st' = ap_next_handle st"
  shows "performs wo st st'"
  by (rule performs_step) (rule Step_Other [OF assms])

named_theorems performed \<open>operations that are sequences of steps\<close>

lemma performs_emit [performed]: "performs wo st st1 \<Longrightarrow> performs wo st (emit_events es st1)"
  by (erule performs_trans) (rule performs_frame; simp)

lemma performs_persist [performed]: "performs wo st st1 \<Longrightarrow> performs wo st (snd (persist_manifest wo run_id st1))"
  by (erule performs_trans) (rule performs_frame; simp)

lemma performs_unit_call [performed]: "performs wo st st1 \<Longrightarrow> performs wo st (snd (unit_call wo command st1))"
  by (erule performs_trans) (rule performs_frame; simp)

lemma performs_ready [performed]: "performs wo st st1 \<Longrightarrow> performs wo st (snd (mark_service_ready wo run_id service st1))"
  by (erule performs_trans) (rule performs_step, rule Step_Ready)

lemma performs_failed [performed]: "performs wo st st1 \<Longrightarrow> performs wo st (snd (mark_service_failed wo run_id service reason st1))"
  by (erule performs_trans) (rule performs_step, rule Step_Failed)

lemma pending_fresh: "handles_ok (st, P) \<Longrightarrow> ap_next_handle st \<notin> P"
  by (auto simp: handles_ok_def ledger_ok_def)

lemma performs_pending:
  assumes begins: "\<And>P. daemon_step wo (st, P) (st1, insert (ap_next_handle st) P)"
    and ends: "\<And>P. daemon_step wo (st1, insert (ap_next_handle st) P) (st2, insert (ap_next_handle st) P - {ap_next_handle st})"
  shows "performs wo st st2"
  unfolding performs_def
proof (intro allI impI)
  fix P
  assume "handles_ok (st, P)"
  then have "insert (ap_next_handle st) P - {ap_next_handle st} = P" using pending_fresh by auto
  then show "(daemon_step wo)\<^sup>*\<^sup>* (st, P) (st2, P)"
    using begins [of P] ends [of P] by (metis converse_rtranclp_into_rtranclp rtranclp.rtrancl_refl)
qed

lemma performs_sync_watcher [performed]:
  assumes "performs wo st st1"
  shows "performs wo st (snd (sync_service_auto_restart_watcher wo run_id service st1))"
proof (rule performs_trans [OF assms])
  obtain r st2 where decided: "with_run_state run_id (update_service service decide_watch Watch_Absent) st1 = (r, st2)"
    by fastforce
  show "performs wo st1 (snd (sync_service_auto_restart_watcher wo run_id service st1))"
  proof (cases r)
    case (Inl e)
    then have "st2 = st1" using decided by (auto simp: with_run_state_eq split: option.splits)
    then show ?thesis using decided Inl by (simp add: sync_service_auto_restart_watcher_def)
  next
    case (Inr d)
    then have decide: "performs wo st1 (raise_flags (watch_stopped d) st2)"
      using decided by (auto intro: performs_step Step_Watch_Decide)
    show ?thesis
    proof (cases "\<exists>paused. d = Watch_Start paused \<and> wo_watcher wo run_id service = Inr ()")
      case True
      then obtain paused where d: "d = Watch_Start paused" "wo_watcher wo run_id service = Inr ()" by blast
      have same: "ap_next_handle st2 = ap_next_handle st1" using with_run_state_next [of run_id _ st1] decided by (metis snd_conv)
      obtain st3 where st3: "new_handle st2 = (ap_next_handle st1, st3)" by (simp add: new_handle_def same)
      have "performs wo st1 (finish_watch run_id service (ap_next_handle st1) (set_paused (Some (ap_next_handle st1)) paused st3))"
        by (rule performs_pending, rule Step_Watch_Start [OF _ d(2) st3], use decided Inr d in simp)
          (rule Step_Watch_Finish, simp)
      then show ?thesis using decided Inr d st3 by (simp add: sync_service_auto_restart_watcher_def)
    next
      case False
      then have "snd (sync_service_auto_restart_watcher wo run_id service st1) = raise_flags (watch_stopped d) st2 \<or>
          (\<exists>h paused. snd (sync_service_auto_restart_watcher wo run_id service st1) =
             set_paused (Some h) paused (raise_flags (watch_stopped d) st2))"
        using decided Inr by (auto simp: sync_service_auto_restart_watcher_def watch_stopped_def
            split: watch_decision.split sum.split)
      then show ?thesis
        using decide performs_trans [OF decide performs_frame] by (auto simp: set_paused_def)
    qed
  qed
qed

lemma performs_sync_capture [performed]:
  assumes "performs wo st st1"
  shows "performs wo st (snd (sync_service_api_capture_proxy wo run_id service st1))"
proof (rule performs_trans [OF assms])
  obtain r st2 where decided: "with_run_state run_id (update_service service decide_capture Capture_Keep) st1 = (r, st2)"
    by fastforce
  show "performs wo st1 (snd (sync_service_api_capture_proxy wo run_id service st1))"
  proof (cases r)
    case (Inl e)
    then have "st2 = st1" using decided by (auto simp: with_run_state_eq split: option.splits)
    then show ?thesis using decided Inl by (simp add: sync_service_api_capture_proxy_def)
  next
    case (Inr d)
    then have decide: "performs wo st1 (raise_flags (capture_stopped d) st2)"
      using decided by (auto intro: performs_step Step_Capture_Decide)
    show ?thesis
    proof (cases "\<exists>public target. d = Capture_Start public target \<and> wo_proxy wo run_id service public target = Inr ()")
      case True
      then obtain public target where d: "d = Capture_Start public target" "wo_proxy wo run_id service public target = Inr ()"
        by blast
      have same: "ap_next_handle st2 = ap_next_handle st1" using with_run_state_next [of run_id _ st1] decided by (metis snd_conv)
      obtain st3 where st3: "new_handle st2 = (ap_next_handle st1, st3)" by (simp add: new_handle_def same)
      have "performs wo st1 (snd (finish_capture run_id service (ap_next_handle st1) st3))"
        by (rule performs_pending, rule Step_Capture_Start [OF _ d(2) st3], use decided Inr d in simp)
          (rule Step_Capture_Finish, simp)
      then show ?thesis using decided Inr d st3 by (simp add: sync_service_api_capture_proxy_def)
    next
      case False
      then have "snd (sync_service_api_capture_proxy wo run_id service st1) = raise_flags (capture_stopped d) st2"
        using decided Inr by (auto simp: sync_service_api_capture_proxy_def capture_stopped_def
            split: capture_decision.split sum.split)
      then show ?thesis using decide by simp
    qed
  qed
qed

lemma performs_section:
  assumes "performs wo st st1" and "\<And>P. daemon_step wo (st1, P) (snd (with_run_state run_id f st1), P)"
  shows "performs wo st (snd (with_run_state run_id f st1))"
  by (rule performs_trans [OF assms(1)]) (rule performs_step, rule assms(2))

lemma performs_started [performed]:
  "performs wo st st1 \<Longrightarrow>
   performs wo st (snd (with_run_state run_id (update_service service (set_started_at (wo_now wo)) ()) st1))"
  by (erule performs_section) (rule Step_Started)

lemma performs_begin_restart [performed]:
  "performs wo st st1 \<Longrightarrow> performs wo st (snd (with_run_state run_id (begin_restart (wo_now wo) run_id service) st1))"
  by (erule performs_section) (rule Step_Restart)

lemma performs_recompute [performed]:
  "performs wo st st1 \<Longrightarrow> performs wo st (snd (with_run_state run_id recompute_run_state st1))"
  by (erule performs_section) (rule Step_Recompute)

lemma performs_stop_run [performed]:
  "performs wo st st1 \<Longrightarrow> performs wo st (snd (with_run_state run_id (stop_run (wo_now wo) run_id) st1))"
  by (erule performs_section) (rule Step_Stop_Run)

lemma performs_relaunch [performed]:
  "performs wo st st1 \<Longrightarrow> performs wo st (snd (with_run_state run_id (relaunch_run base_env) st1))"
  by (erule performs_section) (rule Step_Relaunch)

lemma performs_stop_handles [performed]:
  "performs wo st st1 \<Longrightarrow> performs wo st (stop_service_handles run_id st1)"
  by (erule performs_trans) (rule performs_step, rule Step_Stop_Handles)

lemma performs_pause [performed]:
  "performs wo st st1 \<Longrightarrow> performs wo st (snd (set_watch_paused paused run_id target st1))"
  by (erule performs_trans) (rule performs_step, rule Step_Pause)

lemma performs_finish [performed]: "performs wo st st1 \<Longrightarrow> performs wo st (snd (finish_with_response wo run_id st1))"
  by (simp add: finish_with_response_def case_prod_beta performs_persist split: sum.split)

lemma release_ports_frame [simp]:
  "ap_stopped (snd (release_service_port wo r s p st)) = ap_stopped st"
  "ap_next_handle (snd (release_service_port wo r s p st)) = ap_next_handle st"
  "ap_stopped (snd (release_service_capture_backend_port wo r s p q st)) = ap_stopped st"
  "ap_next_handle (snd (release_service_capture_backend_port wo r s p q st)) = ap_next_handle st"
  by (simp_all add: release_service_port_def release_service_capture_backend_port_def Let_def
      split: option.split prod.split)

lemma performs_release [performed]:
  "performs wo st st1 \<Longrightarrow> performs wo st (snd (release_service_port wo r s p st1))"
  "performs wo st st1 \<Longrightarrow> performs wo st (snd (release_service_capture_backend_port wo r s p q st1))"
  by (erule performs_trans, rule performs_frame; simp)+

lemma performs_release_all [performed]: "performs wo st st1 \<Longrightarrow> performs wo st (snd (release_all_ports wo run_id entries st1))"
  by (erule performs_trans) (rule performs_frame; simp add: release_all_ports_each)

lemma performs_unit_calls [performed]: "performs wo st st1 \<Longrightarrow> performs wo st (unit_calls wo commands st1)"
  by (erule performs_trans) (rule performs_frame; simp add: unit_calls_eq)

lemma performs_start [performed]: "performs wo st st1 \<Longrightarrow> performs wo st (snd (start_prepared_service wo scope p restart st1))"
  by (auto simp: start_prepared_service_def case_prod_beta Let_def intro: performed)

lemma performs_handle_readiness [performed]:
  assumes "performs wo st st1"
  shows "performs wo st (snd (handle_readiness wo waited run_id p no_wait post_init st1))"
proof -
  have "performs wo st (st1\<lparr>ap_background := bg\<rparr>)" for bg
    by (rule performs_trans [OF assms]) (rule performs_frame; simp)
  then show ?thesis
    using performs_ready [OF assms] performs_failed [OF assms]
    by (simp add: handle_readiness_def case_prod_beta Let_def split: sum.split)
qed

lemma performs_after_start [performed]:
  assumes "performs wo st st1"
  shows "performs wo st (snd (after_start wo waited run_id project_dir service tasks p no_wait st1))"
proof -
  note synced = performs_sync_capture [OF assms, of run_id "ps_name p"]
  show ?thesis
    unfolding after_start_def case_prod_beta Let_def
    using synced performs_failed [OF synced] performs_persist [OF performs_failed [OF synced]]
      performs_handle_readiness [OF synced] performs_persist [OF performs_handle_readiness [OF synced]]
    by (simp split: sum.split)
qed

lemma into_service_record_handles [simp]: "sr_handles (into_service_record p state failure started) = no_handles"
  by (simp add: into_service_record_def new_service_record_def Let_def)

lemma performs_replace:
  assumes "performs wo st st1" and "sr_handles record = no_handles"
    and "with_run_state run_id (replace_service_record service record) st1 = (Inr (previous, stopped), st2)"
  shows "performs wo st (raise_flags stopped st2)"
  by (rule performs_trans [OF assms(1)]) (rule performs_step, rule Step_Replace [OF assms(3,2)])

lemma with_run_state_failed: "with_run_state run_id f st = (Inl e, st') \<Longrightarrow> st' = st"
  by (auto simp: with_run_state_eq split: option.splits)

lemma performs_replaced:
  assumes "performs wo st st1" and "sr_handles record = no_handles"
  shows "performs wo st (snd (case with_run_state run_id (replace_service_record service record) st1 of
      (Inl e, st2) \<Rightarrow> (Inl (Internal e), st2)
    | (Inr (previous, stopped), st2) \<Rightarrow>
        (Inr (), snd (sync_service_auto_restart_watcher wo run_id service (emit_events (es previous) (raise_flags stopped st2))))))"
proof (cases "with_run_state run_id (replace_service_record service record) st1")
  case (Pair r st2)
  show ?thesis
  proof (cases r)
    case (Inl e)
    then have "st2 = st1" using Pair by (intro with_run_state_failed) simp
    then show ?thesis using assms(1) by (simp add: Pair Inl)
  next
    case (Inr out)
    obtain previous stopped where out: "out = (previous, stopped)" by fastforce
    have "performs wo st (raise_flags stopped st2)"
      using Pair Inr out by (intro performs_replace [OF assms]) simp
    then show ?thesis by (simp add: Pair Inr out performs_sync_watcher performs_emit)
  qed
qed

lemma performs_store [performed]:
  assumes "performs wo st st1"
  shows "performs wo st (snd (store_service_launch_result wo run_id service p r st1))"
proof (cases r)
  case (Inl err)
  show ?thesis
    unfolding store_service_launch_result_def Inl sum.case prod.case Let_def
    by (rule performs_replaced [OF assms into_service_record_handles])
next
  case (Inr u)
  show ?thesis
    unfolding store_service_launch_result_def Inr sum.case prod.case Let_def
    by (rule performs_replaced [OF assms into_service_record_handles])
qed

lemma performs_failed_init [performed]:
  assumes "performs wo st st1"
  shows "performs wo st (snd (record_failed_init_service wo run_id service p err st1))"
  unfolding record_failed_init_service_def Let_def
  by (rule performs_replaced [OF assms into_service_record_handles])

lemma performs_release_previous [performed]:
  "performs wo st st1 \<Longrightarrow> performs wo st (snd (release_previous_ports wo run_id service existing p st1))"
  by (auto simp: release_previous_ports_def case_prod_beta Let_def intro: performed split: sum.split)

lemma performs_start_and_store [performed]:
  assumes "performs wo st st1"
  shows "performs wo st (snd (start_and_store wo waited scope run_id project_dir service tasks p no_wait existing st1))"
proof -
  note released = performs_release_previous [OF performs_start [OF assms]]
  note stored = performs_store [OF released]
  show ?thesis
    unfolding start_and_store_def case_prod_beta Let_def
    using released stored performs_after_start [OF stored] by (auto split: sum.split)
qed

lemma performs_unchanged [performed]:
  assumes "performs wo st st1"
  shows "performs wo st (snd (sync_unchanged_service wo run_id service p st1))"
proof -
  obtain r st2 where result: "with_run_state run_id (update_service service (apply_unchanged p) []) st1 = (r, st2)"
    by fastforce
  show ?thesis
  proof (cases r)
    case (Inl e)
    then have "st2 = st1" using result by (intro with_run_state_failed) simp
    then show ?thesis using assms by (simp add: sync_unchanged_service_def result Inl)
  next
    case (Inr stopped)
    have "performs wo st (raise_flags stopped st2)"
      by (rule performs_trans [OF assms]) (rule performs_step, rule Step_Unchanged, use result Inr in simp)
    then show ?thesis
      by (simp add: sync_unchanged_service_def result Inr Let_def performs_sync_capture performs_sync_watcher)
  qed
qed

lemma performs_launch_service [performed]:
  "performs wo st st1 \<Longrightarrow>
   performs wo st (snd (launch_service wo pv init waits scope run_id plan project_dir resources no_wait force existing service st1))"
  by (auto simp: launch_service_def intro: performed split: sum.split option.split)

lemma performs_launch_each:
  "(\<And>s st1. performs wo st st1 \<Longrightarrow> performs wo st (snd (launch s st1))) \<Longrightarrow> performs wo st st1 \<Longrightarrow>
   performs wo st (snd (launch_each launch services st1))"
proof (induction services arbitrary: st1)
  case (Cons s services)
  have "performs wo st (snd (launch s st1))" by (rule Cons.prems) (rule Cons.prems)
  then show ?case using Cons.IH [OF Cons.prems(1)] by (auto simp: case_prod_beta split: sum.split)
qed simp

lemma performs_launch_services [performed]:
  "performs wo st st1 \<Longrightarrow>
   performs wo st (snd (launch_services wo pv init waits run_id plan project_dir resources no_wait force existing st1))"
  by (simp add: launch_services_def performs_launch_each performs_launch_service)

lemma performs_create [performed]:
  assumes "performs wo st st1"
  shows "performs wo st (snd (create_run_record wo run_id plan project_dir resources st1))"
proof -
  have "performs wo st (st1\<lparr>ap_runs := snd (create_run (new_run_record (wo_now wo) run_id (sp_name plan) project_dir
      (lr_config_dir resources) (lr_base_env resources)) (ap_runs st1))\<rparr>)"
    by (rule performs_trans [OF assms]) (rule performs_step, rule Step_Create)
  then show ?thesis
    by (auto simp: create_run_record_def case_prod_beta Let_def intro: performed split: sum.split option.split)
qed

lemma performs_finalize [performed]:
  assumes "performs wo st st1"
  shows "performs wo st (snd (finalize_run_launch wo run_id st1))"
  using performs_recompute [OF assms, of run_id]
  by (auto simp: finalize_run_launch_def case_prod_beta intro: performed split: sum.split)

lemma performs_update_resources [performed]:
  assumes "performs wo st st1"
  shows "performs wo st (snd (update_run_launch_resources run_id base_env st1))"
  using performs_relaunch [OF assms, of run_id base_env]
  by (auto simp: update_run_launch_resources_def case_prod_beta intro: performed split: sum.split)

lemma performs_remove_missing [performed]:
  assumes "performs wo st st1"
  shows "performs wo st (snd (remove_services_missing_from_stack wo run_id removed existing st1))"
proof -
  let ?st2 = "unit_calls wo (map (\<lambda>name. Unit_Stop (unit_name_for_run run_id name)) removed) st1"
  have calls: "performs wo st ?st2" by (rule performs_unit_calls [OF assms])
  obtain r st3 where result: "with_run_state run_id (drop_services removed) ?st2 = (r, st3)" by fastforce
  show ?thesis
  proof (cases r)
    case (Inl e)
    then have "st3 = ?st2" using result by (intro with_run_state_failed) simp
    then show ?thesis using assms calls by (simp add: remove_services_missing_from_stack_def result Inl Let_def)
  next
    case (Inr out)
    obtain stopped events where out: "out = (stopped, events)" by fastforce
    have "performs wo st (raise_flags stopped st3)"
      by (rule performs_trans [OF calls]) (rule performs_step, rule Step_Drop, use result Inr out in simp)
    then show ?thesis
      using assms by (auto simp: remove_services_missing_from_stack_def result Inr out Let_def case_prod_beta
          intro: performed split: sum.split)
  qed
qed

lemma performs_remove_run: "performs wo st st1 \<Longrightarrow> performs wo st (st1\<lparr>ap_runs := bm_remove run_id (ap_runs st1)\<rparr>)"
  by (erule performs_trans) (rule performs_step, rule Step_Remove)

lemma performs_remove_dir [performed]: "performs wo st st1 \<Longrightarrow> performs wo st (remove_dir_all wo dir st1)"
  by (erule performs_trans) (rule performs_frame; simp add: remove_dir_all_def)

lemma performs_write_state [performed]: "performs wo st st1 \<Longrightarrow> performs wo st (snd (write_daemon_state wo st1))"
  by (erule performs_trans) (rule performs_frame; simp add: write_daemon_state_def split: sum.split option.split)

lemma performs_purge [performed]:
  assumes "performs wo st st1"
  shows "performs wo st (snd (purge_run wo run_id st1))"
  using performs_remove_run [OF assms, of run_id] assms
  by (auto simp: purge_run_def remove_run_def case_prod_beta Let_def intro!: performed split: sum.split)

lemma performs_finish_stop [performed]:
  assumes "performs wo st st1"
  shows "performs wo st (snd (finish_stop wo run_id services st1))"
proof -
  note released = performs_release_all [OF assms, of run_id services]
  show ?thesis
    using released performs_stop_run [OF released, of run_id]
    by (auto simp: finish_stop_def case_prod_beta intro: performed split: sum.split)
qed

lemma performs_down [performed]: "performs wo st st1 \<Longrightarrow> performs wo st (snd (down wo run_id purge st1))"
  by (auto simp: down_def case_prod_beta Let_def intro!: performed split: sum.split)

lemma performs_kill [performed]: "performs wo st st1 \<Longrightarrow> performs wo st (snd (kill wo run_id st1))"
  by (auto simp: kill_def case_prod_beta Let_def intro!: performed split: sum.split)

lemma performs_background [performed]: "performs wo st st1 \<Longrightarrow> performs wo st (st1\<lparr>ap_background := bg\<rparr>)"
  by (erule performs_trans) (rule performs_frame; simp)

lemma performs_restart_wait [performed]:
  "performs wo st st1 \<Longrightarrow> performs wo st (snd (restart_wait wo waited post run_id service post_init st1))"
  by (auto simp: restart_wait_def case_prod_beta intro: performed split: sum.split option.split)

lemma performs_restart [performed]:
  assumes "performs wo st st1"
  shows "performs wo st (snd (restart_service_inner wo waited post run_id service no_wait st1))"
  using performs_begin_restart [OF assms, of run_id service]
  by (auto simp: restart_service_inner_def case_prod_beta Let_def intro!: performed split: sum.split)

lemma snd_run_events: "snd (run_events run_id f st) = snd (with_run_state run_id f st)"
  by (simp add: run_events_def case_prod_beta split: sum.split)

lemma performs_health_check [performed]:
  assumes "performs wo st st1"
  shows "performs wo st (snd (health_check wo run_id service ok m st1))"
proof -
  have counted: "performs wo st (st1\<lparr>ap_health := hs\<rparr>)" for hs
    by (rule performs_trans [OF assms]) (rule performs_frame; simp)
  have recovered: "performs wo st (snd (run_events run_id (then_recompute (update_service service
      (recover_service (wo_now wo) run_id service) [])) (st1\<lparr>ap_health := hs\<rparr>)))" for hs
    by (rule performs_trans [OF counted]) (rule performs_step, rule Step_Recover)
  have degraded: "performs wo st (snd (run_events run_id (then_recompute (update_service service
      (degrade_service (wo_now wo) run_id service) [])) (st1\<lparr>ap_health := hs\<rparr>)))" for hs
    by (rule performs_trans [OF counted]) (rule performs_step, rule Step_Degrade)
  show ?thesis
    using counted recovered degraded
    by (auto simp: health_check_def case_prod_beta Let_def intro!: performed)
qed

lemma performs_restart_limit [performed]:
  assumes "performs wo st st1"
  shows "performs wo st (restart_limit wo run_id service st1)"
proof -
  have "performs wo st (snd (run_events run_id (then_recompute (update_service service
      (fail_service (wo_now wo) run_id service ''health restart limit exceeded'') [])) st1))"
    by (rule performs_trans [OF assms]) (rule performs_step, rule Step_Limit)
  then show ?thesis by (auto simp: restart_limit_def case_prod_beta Let_def intro!: performed)
qed

lemma performs_health_round [performed]:
  "performs wo st st1 \<Longrightarrow> performs wo st (snd (health_round wo pb t run_id service m st1))"
  by (auto simp: health_round_def restart_service_no_wait_def case_prod_beta Let_def intro!: performed)

lemma performs_readiness_done [performed]:
  "performs wo st st1 \<Longrightarrow> performs wo st (readiness_task_done wo waited run_id service unit_name log_path st1)"
  by (auto simp: readiness_task_done_def Let_def intro!: performed split: sum.split)

lemma performs_pause_watch [performed]:
  "performs wo st st1 \<Longrightarrow> performs wo st (snd (pause_watch run_id service st1))"
  by (simp add: pause_watch_def case_prod_beta performs_pause)

lemma performs_fold:
  "(\<And>s st1. performs wo st st1 \<Longrightarrow> performs wo st (f st1 s)) \<Longrightarrow> performs wo st st1 \<Longrightarrow> performs wo st (foldl f st1 xs)"
  by (induction xs arbitrary: st1) auto

lemma performs_resume_watch [performed]:
  assumes "performs wo st st1"
  shows "performs wo st (snd (resume_watch wo run_id service st1))"
  using performs_pause [OF assms, of False run_id service]
  by (auto simp: resume_watch_def case_prod_beta intro!: performs_fold performs_sync_watcher split: sum.split)

lemma performs_gc_runs [performed]:
  "performs wo st st1 \<Longrightarrow> performs wo st (snd (gc_runs wo parse_time threshold run_ids st1))"
proof (induction run_ids arbitrary: st1)
  case (Cons run_id run_ids)
  have "performs wo st (snd (gc_runs wo parse_time threshold run_ids
      ((remove_dir_all wo dir st1)\<lparr>ap_runs := bm_remove run_id (ap_runs (remove_dir_all wo dir st1))\<rparr>)))" for dir
    by (intro Cons.IH performs_remove_run performs_remove_dir Cons.prems)
  then show ?case using Cons by (auto simp: case_prod_beta Let_def split: option.split sum.split)
qed simp

lemma performs_gc [performed]:
  "performs wo st st1 \<Longrightarrow> performs wo st (snd (run_gc wo parse_time threshold st1))"
  using performs_gc_runs [of wo st st1 parse_time threshold "bm_keys (ap_runs st1)"]
  by (auto simp: run_gc_def case_prod_beta intro!: performed split: sum.split)

lemma performs_reconcile [performed]:
  assumes "performs wo st st1"
  shows "performs wo st (fst (snd (reconcile_run wo se (\<lambda>s. s) run_id st1 cache)))"
proof -
  have "performs wo st (snd (with_run_state run_id (reconcile_section run_id status) st1))" for status
    by (rule performs_trans [OF assms]) (rule performs_step, rule Step_Reconcile)
  then show ?thesis
    using assms by (auto simp: reconcile_run_def case_prod_beta Let_def intro!: performed split: sum.split)
qed

section \<open>Properties\<close>

text \<open>The entry points: what a request, a background task or a monitor does to the state.\<close>

inductive handler :: "world \<Rightarrow> app_state \<Rightarrow> app_state \<Rightarrow> bool" for wo where
  Handle_Create: "handler wo st (snd (create_run_record wo run_id plan project_dir resources st))"
| Handle_Relaunch: "handler wo st (snd (update_run_launch_resources run_id base_env st))"
| Handle_Remove_Missing: "handler wo st (snd (remove_services_missing_from_stack wo run_id removed existing st))"
| Handle_Launch: "handler wo st
    (snd (launch_services wo pv init waits run_id plan project_dir resources no_wait force existing st))"
| Handle_Finalize: "handler wo st (snd (finalize_run_launch wo run_id st))"
| Handle_Down: "handler wo st (snd (down wo run_id purge st))"
| Handle_Kill: "handler wo st (snd (kill wo run_id st))"
| Handle_Restart: "handler wo st (snd (restart_service_inner wo waited post run_id service no_wait st))"
| Handle_Readiness: "handler wo st (readiness_task_done wo waited run_id service unit_name log_path st)"
| Handle_Health: "handler wo st (snd (health_round wo pb t run_id service m st))"
| Handle_Pause: "handler wo st (snd (pause_watch run_id target st))"
| Handle_Resume: "handler wo st (snd (resume_watch wo run_id target st))"
| Handle_Reconcile: "handler wo st (fst (snd (reconcile_run wo se (\<lambda>s. s) run_id st cache)))"
| Handle_Gc: "handler wo st (snd (run_gc wo parse_time threshold st))"

text \<open>
  Each of these entry points on runs is a sequence of the steps of the daemon and leaves no handle on its
  way, so the ledger of helpers holds after each of them, whatever its world answers and wherever it gives
  up. (That a handler does its work is stated where the handler is: this is the frame.)
\<close>

theorem handlers_refine_steps:
  assumes "daemon_reachable wo (st, P)" and "handler wo st st'"
  shows "(daemon_step wo)\<^sup>*\<^sup>* (st, P) (st', P) \<and> daemon_reachable wo (st', P) \<and> handles_ok (st', P)"
proof -
  have "performs wo st st'" using assms(2) by cases (auto intro: performed)
  then have steps: "(daemon_step wo)\<^sup>*\<^sup>* (st, P) (st', P)"
    using daemon_reachable_ok [OF assms(1)] by (simp add: performs_def)
  then have "daemon_reachable wo (st', P)"
    by (induction rule: rtranclp_induct) (auto intro: Reach_Step assms(1))
  then show ?thesis using steps daemon_reachable_ok by blast
qed

theorem handlers_refine_steps_witness:
  "daemon_reachable example_world (snd (down example_world ''r1'' True daemon_ready), {})"
  using handlers_refine_steps [OF daemon_ready_reachable Handle_Down] by blast

end
