(* ===== verification/Manifests.thy ===== *)
theory Manifests
  imports Config_Validate Model App
begin

text \<open>
  The manifests on disk, \<open>src/src/persistence/manifest.rs\<close>: what \<open>serde\<close> writes for a record
  and which objects it reads back, with the two older formats that are still accepted. A manifest
  is an object here; that \<open>serde\<close> also reads a record from an array of its fields is not
  modelled, and neither is which error is reported first: a value that is refused is \<open>None\<close>.
\<close>

section \<open>Reading fields\<close>

text \<open>What the derived readers do with numbers, strings, lists and maps.\<close>

fun dec_str :: "json \<Rightarrow> string option" where
  "dec_str (J_Str s) = Some s"
| "dec_str _ = None"

fun dec_bool :: "json \<Rightarrow> bool option" where
  "dec_bool (J_Bool b) = Some b"
| "dec_bool _ = None"

fun dec_word :: "json \<Rightarrow> 'a::len word option" where
  "dec_word (J_Num n) = (if 0 \<le> n \<and> n < 2 ^ LENGTH('a) then Some (word_of_int n) else None)"
| "dec_word _ = None"

definition dec_i32 :: "json \<Rightarrow> int option" where
  "dec_i32 v = (case v of J_Num n \<Rightarrow> if - (2 ^ 31) \<le> n \<and> n < 2 ^ 31 then Some n else None | _ \<Rightarrow> None)"

definition dec_u64 :: "json \<Rightarrow> nat option" where
  "dec_u64 v = (case v of J_Num n \<Rightarrow> if 0 \<le> n \<and> n < 2 ^ 64 then Some (nat n) else None | _ \<Rightarrow> None)"

definition enc_word :: "'a::len word \<Rightarrow> json" where
  "enc_word w = J_Num (uint w)"

fun omap :: "('a \<Rightarrow> 'b option) \<Rightarrow> 'a list \<Rightarrow> 'b list option" where
  "omap f [] = Some []"
| "omap f (x # xs) = Option.bind (f x) (\<lambda>y. Option.bind (omap f xs) (\<lambda>ys. Some (y # ys)))"

fun dec_list :: "(json \<Rightarrow> 'a option) \<Rightarrow> json \<Rightarrow> 'a list option" where
  "dec_list dec (J_Arr vs) = omap dec vs"
| "dec_list _ _ = None"

fun dec_option :: "(json \<Rightarrow> 'a option) \<Rightarrow> json \<Rightarrow> 'a option option" where
  "dec_option dec J_Null = Some None"
| "dec_option dec v = map_option Some (dec v)"

text \<open>A \<open>BTreeMap\<close>: the entries are inserted one by one.\<close>

fun dec_map :: "(json \<Rightarrow> 'a option) \<Rightarrow> json \<Rightarrow> (string, 'a) bmap option" where
  "dec_map dec (J_Obj m) =
     map_option (bm_extend []) (omap (\<lambda>(k, v). map_option (Pair k) (dec v)) m)"
| "dec_map _ _ = None"

definition enc_option :: "('a \<Rightarrow> json) \<Rightarrow> 'a option \<Rightarrow> json" where
  "enc_option enc v = (case v of None \<Rightarrow> J_Null | Some x \<Rightarrow> enc x)"

definition enc_map :: "('a \<Rightarrow> json) \<Rightarrow> (string, 'a) bmap \<Rightarrow> json" where
  "enc_map enc m = J_Obj (map (\<lambda>(k, v). (k, enc v)) m)"

text \<open>A variant without data is its name, or an object with the name and nothing.\<close>

fun variant_name :: "json \<Rightarrow> string option" where
  "variant_name (J_Str s) = Some s"
| "variant_name (J_Obj [(s, J_Null)]) = Some s"
| "variant_name _ = None"

text \<open>The fields of a record: a missing one, one with a default, and one that may be absent.\<close>

definition dec_field :: "json_map \<Rightarrow> string \<Rightarrow> (json \<Rightarrow> 'a option) \<Rightarrow> 'a option" where
  "dec_field m k dec = Option.bind (map_of m k) dec"

definition dec_default :: "json_map \<Rightarrow> string \<Rightarrow> (json \<Rightarrow> 'a option) \<Rightarrow> 'a \<Rightarrow> 'a option" where
  "dec_default m k dec d = (case map_of m k of None \<Rightarrow> Some d | Some v \<Rightarrow> dec v)"

definition dec_optional :: "json_map \<Rightarrow> string \<Rightarrow> (json \<Rightarrow> 'a option) \<Rightarrow> 'a option option" where
  "dec_optional m k dec = dec_default m k (dec_option dec) None"

text \<open>No field of the record occurs twice; other entries are ignored.\<close>

definition no_duplicate :: "string list \<Rightarrow> json_map \<Rightarrow> bool" where
  "no_duplicate ks m \<longleftrightarrow> distinct (filter (\<lambda>k. k \<in> set ks) (map fst m))"

fun dec_object :: "string list \<Rightarrow> (json_map \<Rightarrow> 'a option) \<Rightarrow> json \<Rightarrow> 'a option" where
  "dec_object ks dec (J_Obj m) = (if no_duplicate ks m then dec m else None)"
| "dec_object _ _ _ = None"

text \<open>An entry that is left out when it is \<open>None\<close>.\<close>

definition some_entry :: "string \<Rightarrow> ('a \<Rightarrow> json) \<Rightarrow> 'a option \<Rightarrow> json_map" where
  "some_entry k enc v = (case v of None \<Rightarrow> [] | Some x \<Rightarrow> [(k, enc x)])"

section \<open>States\<close>

fun service_state_name :: "service_state \<Rightarrow> string" where
  "service_state_name Sv_Starting = ''starting''"
| "service_state_name Sv_Ready = ''ready''"
| "service_state_name Sv_Degraded = ''degraded''"
| "service_state_name Sv_Stopped = ''stopped''"
| "service_state_name Sv_Failed = ''failed''"

fun lifecycle_name :: "run_lifecycle \<Rightarrow> string" where
  "lifecycle_name Run_Starting = ''starting''"
| "lifecycle_name Run_Running = ''running''"
| "lifecycle_name Run_Degraded = ''degraded''"
| "lifecycle_name Run_Stopped = ''stopped''"

definition dec_service_state :: "json \<Rightarrow> service_state option" where
  "dec_service_state v =
     Option.bind (variant_name v) (\<lambda>s.
       find (\<lambda>st. service_state_name st = s) [Sv_Starting, Sv_Ready, Sv_Degraded, Sv_Stopped, Sv_Failed])"

definition dec_lifecycle :: "json \<Rightarrow> run_lifecycle option" where
  "dec_lifecycle v =
     Option.bind (variant_name v) (\<lambda>s.
       find (\<lambda>st. lifecycle_name st = s) [Run_Starting, Run_Running, Run_Degraded, Run_Stopped])"

section \<open>The manifest of a run\<close>

definition persisted_service_fields :: "string list" where
  "persisted_service_fields =
     [''port'', ''url'', ''listen_port'', ''capture_api'', ''capture_api_body_limit'', ''capture_api_ignore'',
      ''state'', ''watch_hash'', ''last_failure'', ''last_started_at'', ''watch_paused'']"

definition enc_persisted_service :: "persisted_service \<Rightarrow> json" where
  "enc_persisted_service p =
     J_Obj ([(''port'', enc_option enc_word (pe_port p)), (''url'', enc_option J_Str (pe_url p))]
       @ some_entry ''listen_port'' enc_word (pe_listen_port p)
       @ [(''capture_api'', J_Bool (pe_capture_api p)),
          (''capture_api_body_limit'', enc_word (pe_capture_api_body_limit p)),
          (''capture_api_ignore'', J_Arr (map J_Str (pe_capture_api_ignore p))),
          (''state'', J_Str (service_state_name (pe_state p)))]
       @ some_entry ''watch_hash'' J_Str (pe_watch_hash p)
       @ some_entry ''last_failure'' J_Str (pe_last_failure p)
       @ some_entry ''last_started_at'' J_Str (pe_last_started_at p)
       @ [(''watch_paused'', J_Bool (pe_watch_paused p))])"

definition dec_persisted_service :: "json \<Rightarrow> persisted_service option" where
  "dec_persisted_service = dec_object persisted_service_fields (\<lambda>m.
     Option.bind (dec_optional m ''port'' dec_word) (\<lambda>port.
     Option.bind (dec_optional m ''url'' dec_str) (\<lambda>url.
     Option.bind (dec_optional m ''listen_port'' dec_word) (\<lambda>listen_port.
     Option.bind (dec_default m ''capture_api'' dec_bool False) (\<lambda>capture_api.
     Option.bind (dec_default m ''capture_api_body_limit'' dec_word default_capture_api_body_limit_bytes) (\<lambda>limit.
     Option.bind (dec_default m ''capture_api_ignore'' (dec_list dec_str) []) (\<lambda>ignore.
     Option.bind (dec_field m ''state'' dec_service_state) (\<lambda>state.
     Option.bind (dec_optional m ''watch_hash'' dec_str) (\<lambda>watch_hash.
     Option.bind (dec_optional m ''last_failure'' dec_str) (\<lambda>last_failure.
     Option.bind (dec_optional m ''last_started_at'' dec_str) (\<lambda>last_started_at.
     Option.bind (dec_default m ''watch_paused'' dec_bool False) (\<lambda>watch_paused.
     Some \<lparr>pe_port = port, pe_url = url, pe_listen_port = listen_port, pe_capture_api = capture_api,
           pe_capture_api_body_limit = limit, pe_capture_api_ignore = ignore, pe_state = state,
           pe_watch_hash = watch_hash, pe_last_failure = last_failure,
           pe_last_started_at = last_started_at, pe_watch_paused = watch_paused\<rparr>))))))))))))"

definition persisted_run_fields :: "string list" where
  "persisted_run_fields =
     [''run_id'', ''project_dir'', ''config_dir'', ''manifest_path'', ''stack'', ''services'', ''env'',
      ''state'', ''created_at'', ''stopped_at'']"

definition enc_persisted_run :: "persisted_run \<Rightarrow> json" where
  "enc_persisted_run r =
     J_Obj [(''run_id'', J_Str (pr_run_id r)), (''project_dir'', J_Str (pr_project_dir r)),
       (''config_dir'', J_Str (pr_config_dir r)), (''manifest_path'', J_Str (pr_manifest_path r)),
       (''stack'', J_Str (pr_stack r)), (''services'', enc_map enc_persisted_service (pr_services r)),
       (''env'', enc_map J_Str (pr_env r)), (''state'', J_Str (lifecycle_name (pr_state r))),
       (''created_at'', J_Str (pr_created_at r)), (''stopped_at'', enc_option J_Str (pr_stopped_at r))]"

text \<open>Manifests written before \<open>config_dir\<close> was added take the project directory.\<close>

definition dec_persisted_run :: "json \<Rightarrow> persisted_run option" where
  "dec_persisted_run = dec_object persisted_run_fields (\<lambda>m.
     Option.bind (dec_field m ''run_id'' dec_str) (\<lambda>run_id.
     Option.bind (dec_field m ''project_dir'' dec_str) (\<lambda>project_dir.
     Option.bind (dec_optional m ''config_dir'' dec_str) (\<lambda>config_dir.
     Option.bind (dec_field m ''manifest_path'' dec_str) (\<lambda>manifest_path.
     Option.bind (dec_field m ''stack'' dec_str) (\<lambda>stack.
     Option.bind (dec_field m ''services'' (dec_map dec_persisted_service)) (\<lambda>services.
     Option.bind (dec_field m ''env'' (dec_map dec_str)) (\<lambda>env.
     Option.bind (dec_field m ''state'' dec_lifecycle) (\<lambda>state.
     Option.bind (dec_field m ''created_at'' dec_str) (\<lambda>created_at.
     Option.bind (dec_optional m ''stopped_at'' dec_str) (\<lambda>stopped_at.
     Some \<lparr>pr_run_id = run_id, pr_project_dir = project_dir,
           pr_config_dir = (case config_dir of
               Some value \<Rightarrow> if trim value \<noteq> [] then value else project_dir
             | None \<Rightarrow> project_dir),
           pr_manifest_path = manifest_path, pr_stack = stack, pr_services = services, pr_env = env,
           pr_state = state, pr_created_at = created_at, pr_stopped_at = stopped_at\<rparr>)))))))))))"

section \<open>Codecs\<close>

text \<open>
  What is written for a value can be read back: the law of a writer and a reader, and how it
  passes to lists, optional values and maps.
\<close>

locale codec =
  fixes enc :: "'a \<Rightarrow> json" and dec :: "json \<Rightarrow> 'a option" and ok :: "'a \<Rightarrow> bool"
  assumes dec_enc: "ok x \<Longrightarrow> dec (enc x) = Some x"
    and not_null: "enc x \<noteq> J_Null"
begin

lemma omap_enc: "(\<And>x. x \<in> set xs \<Longrightarrow> ok x) \<Longrightarrow> omap dec (map enc xs) = Some xs"
  by (induction xs) (simp_all add: dec_enc)

lemma list_round_trip: "list_all ok xs \<Longrightarrow> dec_list dec (J_Arr (map enc xs)) = Some xs"
  by (simp add: omap_enc list_all_iff)

lemma option_dec: "dec_option dec (enc x) = map_option Some (dec (enc x))"
  using not_null [of x] by (cases "enc x") simp_all

lemma option_round_trip: "\<forall>x \<in> set_option v. ok x \<Longrightarrow> dec_option dec (enc_option enc v) = Some v"
  by (cases v) (simp_all add: enc_option_def option_dec dec_enc)

lemma entries_round_trip:
  "\<forall>(k, x) \<in> set m. ok x \<Longrightarrow>
   omap (\<lambda>(k, v). map_option (Pair k) (dec v)) (map (\<lambda>(k, v). (k, enc v)) m) = Some m"
  by (induction m) (auto simp: dec_enc)

end

text \<open>The entries of an ordered map, inserted again one by one.\<close>

lemma map_of_rev_ok:
  assumes "bm_ok m"
  shows "map_of (rev m) = map_of m"
proof -
  have "distinct (map fst m)" using bm_ok_distinct [OF assms] by (simp add: bm_keys_def)
  then have "map_of (rev m) = map_of m \<longleftrightarrow> set (rev m) = set m"
    by (intro map_of_inject_set) (simp_all add: rev_map [symmetric])
  then show ?thesis by simp
qed

lemma bm_extend_ok: "bm_ok m \<Longrightarrow> bm_extend [] m = m"
  by (rule bm_ok_eqI) (auto simp: map_of_bm_extend map_of_rev_ok)

context codec begin

lemma map_round_trip:
  assumes "bm_ok m" and "\<forall>(k, x) \<in> set m. ok x"
  shows "dec_map dec (enc_map enc m) = Some m"
  using entries_round_trip [OF assms(2)] assms(1) by (simp add: enc_map_def bm_extend_ok)

end

interpretation str_codec: codec J_Str dec_str "\<lambda>_. True"
  by unfold_locales simp_all

lemma i32_round_trip [simp]: "- (2 ^ 31) \<le> n \<Longrightarrow> n < 2 ^ 31 \<Longrightarrow> dec_i32 (J_Num n) = Some n"
  by (simp add: dec_i32_def)

lemma u64_round_trip [simp]: "n < 2 ^ 64 \<Longrightarrow> dec_u64 (J_Num (int n)) = Some n"
  by (simp add: dec_u64_def)

lemma dec_i32_Some: "dec_i32 v = Some n \<Longrightarrow> - (2 ^ 31) \<le> n \<and> n < 2 ^ 31"
  by (auto simp: dec_i32_def split: json.splits if_splits)

lemma dec_u64_Some: "dec_u64 v = Some n \<Longrightarrow> n < 2 ^ 64"
  by (auto simp: dec_u64_def split: json.splits if_splits)

lemma dec_enc_word [simp]: "dec_word (enc_word w) = Some w"
  using uint_bounded [of w] by (simp add: enc_word_def)

lemma enc_word_not_null [simp]: "enc_word w \<noteq> J_Null"
  by (simp add: enc_word_def)

interpretation u16_codec: codec "enc_word :: u16 \<Rightarrow> json" dec_word "\<lambda>_. True"
  by unfold_locales simp_all

interpretation usize_codec: codec "enc_word :: usize \<Rightarrow> json" dec_word "\<lambda>_. True"
  by unfold_locales simp_all

interpretation state_codec: codec "\<lambda>s. J_Str (service_state_name s)" dec_service_state "\<lambda>_. True"
proof unfold_locales
  fix x
  show "dec_service_state (J_Str (service_state_name x)) = Some x"
    by (cases x) (simp_all add: dec_service_state_def)
qed simp_all

interpretation lifecycle_codec: codec "\<lambda>s. J_Str (lifecycle_name s)" dec_lifecycle "\<lambda>_. True"
proof unfold_locales
  fix x
  show "dec_lifecycle (J_Str (lifecycle_name x)) = Some x"
    by (cases x) (simp_all add: dec_lifecycle_def)
qed simp_all

text \<open>Optional entries between other fields.\<close>

lemma map_of_some_entry [simp]: "map_of (some_entry k enc v) = (case v of None \<Rightarrow> Map.empty | Some x \<Rightarrow> [k \<mapsto> enc x])"
  by (simp add: some_entry_def split: option.split)

lemma keys_some_entry [simp]: "map fst (some_entry k enc v) = (case v of None \<Rightarrow> [] | Some x \<Rightarrow> [k])"
  by (simp add: some_entry_def split: option.split)

lemma dec_option_present [simp]:
  "dec_option dec_str (J_Str s) = Some (Some s)" "dec_option dec_word (enc_word w) = Some (Some w)"
  by (simp_all add: enc_word_def dec_enc_word [unfolded enc_word_def])

lemma persisted_service_eta:
  "\<lparr>pe_port = pe_port p, pe_url = pe_url p, pe_listen_port = pe_listen_port p, pe_capture_api = pe_capture_api p,
    pe_capture_api_body_limit = pe_capture_api_body_limit p, pe_capture_api_ignore = pe_capture_api_ignore p,
    pe_state = pe_state p, pe_watch_hash = pe_watch_hash p, pe_last_failure = pe_last_failure p,
    pe_last_started_at = pe_last_started_at p, pe_watch_paused = pe_watch_paused p\<rparr> = p"
  by simp

lemma persisted_service_round_trip: "dec_persisted_service (enc_persisted_service p) = Some p"
proof -
  let ?m = "[(''port'', enc_option enc_word (pe_port p)), (''url'', enc_option J_Str (pe_url p))]
       @ some_entry ''listen_port'' enc_word (pe_listen_port p)
       @ [(''capture_api'', J_Bool (pe_capture_api p)),
          (''capture_api_body_limit'', enc_word (pe_capture_api_body_limit p)),
          (''capture_api_ignore'', J_Arr (map J_Str (pe_capture_api_ignore p))),
          (''state'', J_Str (service_state_name (pe_state p)))]
       @ some_entry ''watch_hash'' J_Str (pe_watch_hash p)
       @ some_entry ''last_failure'' J_Str (pe_last_failure p)
       @ some_entry ''last_started_at'' J_Str (pe_last_started_at p)
       @ [(''watch_paused'', J_Bool (pe_watch_paused p))]"
  have "no_duplicate persisted_service_fields ?m"
    by (simp add: no_duplicate_def persisted_service_fields_def split: option.split)
  moreover have ignore: "dec_list dec_str (J_Arr (map J_Str (pe_capture_api_ignore p))) = Some (pe_capture_api_ignore p)"
    by (rule str_codec.list_round_trip) (simp add: list_all_iff)
  moreover have "dec_optional ?m ''port'' dec_word = Some (pe_port p)" "dec_optional ?m ''url'' dec_str = Some (pe_url p)"
    by (simp_all add: dec_optional_def dec_default_def u16_codec.option_round_trip str_codec.option_round_trip)
  moreover have "dec_optional ?m ''listen_port'' dec_word = Some (pe_listen_port p)"
    "dec_optional ?m ''watch_hash'' dec_str = Some (pe_watch_hash p)"
    "dec_optional ?m ''last_failure'' dec_str = Some (pe_last_failure p)"
    "dec_optional ?m ''last_started_at'' dec_str = Some (pe_last_started_at p)"
    by (simp_all add: dec_optional_def dec_default_def map_add_def split: option.split)
  moreover have "dec_default ?m ''capture_api'' dec_bool False = Some (pe_capture_api p)"
    "dec_default ?m ''capture_api_body_limit'' dec_word default_capture_api_body_limit_bytes = Some (pe_capture_api_body_limit p)"
    "dec_default ?m ''capture_api_ignore'' (dec_list dec_str) [] = Some (pe_capture_api_ignore p)"
    "dec_field ?m ''state'' dec_service_state = Some (pe_state p)"
    "dec_default ?m ''watch_paused'' dec_bool False = Some (pe_watch_paused p)"
    by (simp_all add: dec_default_def dec_field_def map_add_def ignore [simplified] state_codec.dec_enc split: option.split)
  ultimately show ?thesis
    by (simp only: dec_persisted_service_def enc_persisted_service_def dec_object.simps if_True bind.bind_lunit persisted_service_eta)
qed

interpretation service_codec: codec enc_persisted_service dec_persisted_service "\<lambda>_. True"
  by unfold_locales (simp_all add: persisted_service_round_trip, simp add: enc_persisted_service_def)

section \<open>The manifest of a global\<close>

record persisted_global =
  pg_key :: string
  pg_name :: string
  pg_project_dir :: string
  pg_config_path :: string
  pg_manifest_path :: string
  pg_service :: persisted_service
  pg_env :: "(string, string) bmap"
  pg_state :: run_lifecycle
  pg_created_at :: string
  pg_stopped_at :: "string option"

definition global_manifest_is_restorable :: "(string \<Rightarrow> bool) \<Rightarrow> persisted_global \<Rightarrow> bool" where
  "global_manifest_is_restorable exists manifest \<longleftrightarrow>
     pg_state manifest \<noteq> Run_Stopped \<and> pg_stopped_at manifest = None \<and>
     exists (pg_project_dir manifest) \<and> exists (pg_config_path manifest)"

definition persisted_global_fields :: "string list" where
  "persisted_global_fields =
     [''key'', ''name'', ''project_dir'', ''config_path'', ''manifest_path'', ''service'', ''env'',
      ''state'', ''created_at'', ''stopped_at'']"

definition enc_persisted_global :: "persisted_global \<Rightarrow> json" where
  "enc_persisted_global g =
     J_Obj [(''key'', J_Str (pg_key g)), (''name'', J_Str (pg_name g)),
       (''project_dir'', J_Str (pg_project_dir g)), (''config_path'', J_Str (pg_config_path g)),
       (''manifest_path'', J_Str (pg_manifest_path g)), (''service'', enc_persisted_service (pg_service g)),
       (''env'', enc_map J_Str (pg_env g)), (''state'', J_Str (lifecycle_name (pg_state g))),
       (''created_at'', J_Str (pg_created_at g)), (''stopped_at'', enc_option J_Str (pg_stopped_at g))]"

definition dec_global_current :: "json \<Rightarrow> persisted_global option" where
  "dec_global_current = dec_object persisted_global_fields (\<lambda>m.
     Option.bind (dec_field m ''key'' dec_str) (\<lambda>key.
     Option.bind (dec_field m ''name'' dec_str) (\<lambda>name.
     Option.bind (dec_field m ''project_dir'' dec_str) (\<lambda>project_dir.
     Option.bind (dec_field m ''config_path'' dec_str) (\<lambda>config_path.
     Option.bind (dec_field m ''manifest_path'' dec_str) (\<lambda>manifest_path.
     Option.bind (dec_field m ''service'' dec_persisted_service) (\<lambda>service.
     Option.bind (dec_field m ''env'' (dec_map dec_str)) (\<lambda>env.
     Option.bind (dec_field m ''state'' dec_lifecycle) (\<lambda>state.
     Option.bind (dec_field m ''created_at'' dec_str) (\<lambda>created_at.
     Option.bind (dec_optional m ''stopped_at'' dec_str) (\<lambda>stopped_at.
     Some \<lparr>pg_key = key, pg_name = name, pg_project_dir = project_dir, pg_config_path = config_path,
           pg_manifest_path = manifest_path, pg_service = service, pg_env = env, pg_state = state,
           pg_created_at = created_at, pg_stopped_at = stopped_at\<rparr>)))))))))))"

text \<open>The older format: a run named \<open>globals\<close> with a single service.\<close>

record legacy_global =
  lg_project_dir :: string
  lg_manifest_path :: string
  lg_services :: "(string, persisted_service) bmap"
  lg_env :: "(string, string) bmap"
  lg_state :: run_lifecycle
  lg_created_at :: string
  lg_stopped_at :: "string option"

definition legacy_global_fields :: "string list" where
  "legacy_global_fields =
     [''project_dir'', ''manifest_path'', ''services'', ''env'', ''state'', ''created_at'', ''stopped_at'']"

definition dec_legacy_global :: "json \<Rightarrow> legacy_global option" where
  "dec_legacy_global = dec_object legacy_global_fields (\<lambda>m.
     Option.bind (dec_field m ''project_dir'' dec_str) (\<lambda>project_dir.
     Option.bind (dec_field m ''manifest_path'' dec_str) (\<lambda>manifest_path.
     Option.bind (dec_field m ''services'' (dec_map dec_persisted_service)) (\<lambda>services.
     Option.bind (dec_field m ''env'' (dec_map dec_str)) (\<lambda>env.
     Option.bind (dec_field m ''state'' dec_lifecycle) (\<lambda>state.
     Option.bind (dec_field m ''created_at'' dec_str) (\<lambda>created_at.
     Option.bind (dec_optional m ''stopped_at'' dec_str) (\<lambda>stopped_at.
     Some \<lparr>lg_project_dir = project_dir, lg_manifest_path = manifest_path, lg_services = services,
           lg_env = env, lg_state = state, lg_created_at = created_at, lg_stopped_at = stopped_at\<rparr>))))))))"

subsection \<open>\<open>Path::parent\<close> and \<open>Path::file_name\<close>\<close>

text \<open>The separators and \<open>.\<close> at the end of a path, which is read from its end.\<close>

fun trim_path_end :: "string \<Rightarrow> string" where
  "trim_path_end (c # d # rest) =
     (if c = CHR ''/'' then trim_path_end (d # rest)
      else if c = CHR ''.'' \<and> d = CHR ''/'' then trim_path_end (d # rest)
      else c # d # rest)"
| "trim_path_end path = path"

definition path_parent :: "string \<Rightarrow> string option" where
  "path_parent p =
     (let q = trim_path_end (rev p) in
      if q = [] \<or> q = ''/'' then None
      else Some (rev (trim_path_end (dropWhile (\<lambda>c. c \<noteq> CHR ''/'') q))))"

definition path_file_name :: "string \<Rightarrow> string option" where
  "path_file_name p =
     (let last = rev (takeWhile (\<lambda>c. c \<noteq> CHR ''/'') (trim_path_end (rev p))) in
      if last \<in> {[], ''.'', ''..''} then None else Some last)"

text \<open>The directory and the directories above it, as \<open>find_nearest_path\<close> visits them.\<close>

lemma trim_path_end_length: "length (trim_path_end p) \<le> length p"
  by (induction p rule: trim_path_end.induct) auto

lemma trim_path_end_slash: "trim_path_end p = CHR ''/'' # rest \<Longrightarrow> rest = []"
  by (induction p rule: trim_path_end.induct) (auto split: if_splits)

lemma path_parent_shorter:
  assumes "path_parent p = Some q"
  shows "length q < length p"
proof -
  let ?r = "trim_path_end (rev p)" and ?up = "dropWhile (\<lambda>c. c \<noteq> CHR ''/'')"
  have r: "?r \<noteq> []" "?r \<noteq> ''/''" and q: "q = rev (trim_path_end (?up ?r))"
    using assms by (auto simp: path_parent_def Let_def split: if_splits)
  obtain c rest where c: "?r = c # rest" using r(1) by (cases ?r) auto
  have "c \<noteq> CHR ''/''" using r(2) trim_path_end_slash [of "rev p" rest] c by auto
  then have "length (?up ?r) \<le> length rest" by (simp add: c length_dropWhile_le)
  then have "length (trim_path_end (?up ?r)) < length ?r"
    using trim_path_end_length [of "?up ?r"] by (simp add: c)
  then show ?thesis using trim_path_end_length [of "rev p"] by (simp add: q)
qed

function path_ancestors :: "string \<Rightarrow> string list" where
  "path_ancestors p = p # (case path_parent p of None \<Rightarrow> [] | Some q \<Rightarrow> path_ancestors q)"
  by auto
termination by (relation "measure length") (auto simp: path_parent_shorter)

declare path_ancestors.simps [simp del]

section \<open>Reading a global\<close>

text \<open>
  What a legacy manifest lacks is found out: the key is the name of its directory, the
  configuration the nearest one.
\<close>

definition global_of_legacy ::
  "path_env \<Rightarrow> (string \<Rightarrow> bool) \<Rightarrow> (string \<Rightarrow> bool) \<Rightarrow> legacy_global \<Rightarrow> persisted_global option" where
  "global_of_legacy pe exists is_file g =
     (case lg_services g of
        [(name, service)] \<Rightarrow>
          Some \<lparr>pg_key = (case Option.bind (path_parent (lg_manifest_path g)) path_file_name of
                  Some key \<Rightarrow> key
                | None \<Rightarrow> (case global_key pe (lg_project_dir g) name of Inr key \<Rightarrow> key | Inl _ \<Rightarrow> ''legacy__'' @ name)),
                pg_name = name, pg_project_dir = lg_project_dir g,
                pg_config_path = (case find_nearest_path is_file (path_ancestors (lg_project_dir g)) of
                  Some path \<Rightarrow> path
                | None \<Rightarrow> config_default_path exists (lg_project_dir g)),
                pg_manifest_path = lg_manifest_path g, pg_service = service, pg_env = lg_env g,
                pg_state = lg_state g, pg_created_at = lg_created_at g, pg_stopped_at = lg_stopped_at g\<rparr>
      | _ \<Rightarrow> None)"

definition dec_persisted_global ::
  "path_env \<Rightarrow> (string \<Rightarrow> bool) \<Rightarrow> (string \<Rightarrow> bool) \<Rightarrow> json \<Rightarrow> persisted_global option" where
  "dec_persisted_global pe exists is_file v =
     (case dec_global_current v of
        Some g \<Rightarrow> Some g
      | None \<Rightarrow> Option.bind (dec_legacy_global v) (global_of_legacy pe exists is_file))"

text \<open>The files: their bytes are read and parsed, whose answers are a parameter.\<close>

record manifest_reader =
  mr_read :: "string \<Rightarrow> string option"
  mr_parse :: "string \<Rightarrow> json option"

definition load_run_manifest :: "manifest_reader \<Rightarrow> string \<Rightarrow> persisted_run result" where
  "load_run_manifest mr path =
     (case mr_read mr path of
        None \<Rightarrow> Inl (''read run manifest '' @ debug_str path)
      | Some data \<Rightarrow> ok_or ''parse run manifest'' (Option.bind (mr_parse mr data) dec_persisted_run))"

definition load_global_manifest ::
  "path_env \<Rightarrow> (string \<Rightarrow> bool) \<Rightarrow> (string \<Rightarrow> bool) \<Rightarrow> manifest_reader \<Rightarrow> string \<Rightarrow> persisted_global result" where
  "load_global_manifest pe exists is_file mr path =
     (case mr_read mr path of
        None \<Rightarrow> Inl (''read global manifest '' @ debug_str path)
      | Some data \<Rightarrow>
          ok_or ''parse global manifest'' (Option.bind (mr_parse mr data) (dec_persisted_global pe exists is_file)))"

section \<open>Round trips\<close>

lemma persisted_run_eta:
  "\<lparr>pr_run_id = pr_run_id r, pr_project_dir = pr_project_dir r, pr_config_dir = pr_config_dir r,
    pr_manifest_path = pr_manifest_path r, pr_stack = pr_stack r, pr_services = pr_services r, pr_env = pr_env r,
    pr_state = pr_state r, pr_created_at = pr_created_at r, pr_stopped_at = pr_stopped_at r\<rparr> = r"
  by simp

lemmas reads = dec_field_def dec_optional_def dec_default_def lifecycle_codec.dec_enc
  service_codec.map_round_trip str_codec.map_round_trip str_codec.option_round_trip persisted_service_round_trip

lemma run_round_trip:
  assumes "bm_ok (pr_services r)" and "bm_ok (pr_env r)" and "trim (pr_config_dir r) \<noteq> []"
  shows "dec_persisted_run (enc_persisted_run r) = Some r"
  using assms by (simp add: dec_persisted_run_def enc_persisted_run_def no_duplicate_def persisted_run_fields_def reads)

lemma run_without_config_dir:
  assumes "bm_ok (pr_services r)" and "bm_ok (pr_env r)" and "enc_persisted_run r = J_Obj m"
  shows "dec_persisted_run (J_Obj (filter (\<lambda>(k, _). k \<noteq> ''config_dir'') m)) = Some (r\<lparr>pr_config_dir := pr_project_dir r\<rparr>)"
  using assms(3) assms(1,2)
  by (auto simp: dec_persisted_run_def enc_persisted_run_def no_duplicate_def persisted_run_fields_def reads)

lemma global_round_trip:
  assumes "bm_ok (pg_env g)"
  shows "dec_persisted_global pe exists is_file (enc_persisted_global g) = Some g"
  using assms
  by (simp add: dec_persisted_global_def dec_global_current_def enc_persisted_global_def no_duplicate_def
      persisted_global_fields_def reads)

text \<open>The object that was written for a global before it had a manifest of its own.\<close>

definition enc_legacy_global :: "legacy_global \<Rightarrow> json" where
  "enc_legacy_global g =
     J_Obj [(''project_dir'', J_Str (lg_project_dir g)), (''manifest_path'', J_Str (lg_manifest_path g)),
       (''services'', enc_map enc_persisted_service (lg_services g)), (''env'', enc_map J_Str (lg_env g)),
       (''state'', J_Str (lifecycle_name (lg_state g))), (''created_at'', J_Str (lg_created_at g)),
       (''stopped_at'', enc_option J_Str (lg_stopped_at g))]"

lemma legacy_round_trip:
  assumes "bm_ok (lg_env g)" and "bm_ok (lg_services g)"
  shows "dec_global_current (enc_legacy_global g) = None" and "dec_legacy_global (enc_legacy_global g) = Some g"
proof -
  show "dec_legacy_global (enc_legacy_global g) = Some g"
    using assms by (simp add: dec_legacy_global_def enc_legacy_global_def no_duplicate_def legacy_global_fields_def reads)
  show "dec_global_current (enc_legacy_global g) = None"
    by (simp add: dec_global_current_def enc_legacy_global_def no_duplicate_def persisted_global_fields_def dec_field_def)
qed

lemma trim_path_end_name: "safe_name name \<Longrightarrow> trim_path_end (rev name @ rest) = rev name @ rest"
proof -
  assume safe: "safe_name name"
  then obtain c cs where name: "rev name = c # cs" unfolding safe_name_def by (cases "rev name") auto
  have chars: "\<forall>d \<in> set (rev name). d \<noteq> CHR ''/''"
    using safe name_char_plain(1) by (auto simp: safe_name_def list_all_iff)
  show ?thesis
  proof (cases cs)
    case Nil
    then have "c \<noteq> CHR ''.''" using safe name by (auto simp: safe_name_def)
    then show ?thesis using chars name Nil by (cases rest) auto
  next
    case (Cons d ds)
    then show ?thesis using chars name by auto
  qed
qed

lemma checked_name_no_slash: "safe_name name \<Longrightarrow> c \<in> set name \<Longrightarrow> c \<noteq> CHR ''/''"
  using name_char_plain(1) by (auto simp: safe_name_def list_all_iff)

lemma up_from_name: "safe_name name \<Longrightarrow> dropWhile (\<lambda>c. c \<noteq> CHR ''/'') (rev name @ CHR ''/'' # rest) = CHR ''/'' # rest"
  by (subst dropWhile_append2) (auto dest: checked_name_no_slash)

lemma last_name: "safe_name name \<Longrightarrow> takeWhile (\<lambda>c. c \<noteq> CHR ''/'') (rev name @ CHR ''/'' # rest) = rev name"
  by (subst takeWhile_append2) (auto dest: checked_name_no_slash)

lemma checked_name_nonempty: "safe_name name \<Longrightarrow> \<exists>c cs. rev name = c # cs"
  by (cases "rev name") (auto simp: safe_name_def)

lemma path_parent_join:
  assumes "safe_name name" and "safe_name up"
  shows "path_parent (dir @ ''/'' @ up @ ''/'' @ name) = Some (dir @ ''/'' @ up)"
proof -
  let ?rest = "CHR ''/'' # rev up @ CHR ''/'' # rev dir"
  have r: "trim_path_end (rev (dir @ ''/'' @ up @ ''/'' @ name)) = rev name @ ?rest"
    using trim_path_end_name [OF assms(1), of ?rest] by simp
  have up: "trim_path_end (rev up @ CHR ''/'' # rev dir) = rev up @ CHR ''/'' # rev dir"
    by (rule trim_path_end_name [OF assms(2)])
  have rest: "trim_path_end ?rest = rev up @ CHR ''/'' # rev dir"
    using checked_name_nonempty [OF assms(2)] up by auto
  obtain c cs where c: "rev name = c # cs" using checked_name_nonempty [OF assms(1)] by blast
  have "rev name @ ?rest \<noteq> []" "rev name @ ?rest \<noteq> ''/''" by (simp_all add: c)
  then show ?thesis
    unfolding path_parent_def r Let_def up_from_name [OF assms(1)] rest by simp
qed

lemma path_file_name_join: "safe_name name \<Longrightarrow> path_file_name (dir @ ''/'' @ name) = Some name"
  using trim_path_end_name [of name "CHR ''/'' # rev dir"]
  by (simp add: path_file_name_def last_name) (auto simp: safe_name_def)

text \<open>The key of a global is the name of the directory its manifest is in.\<close>

lemma manifest_dir_name:
  assumes "safe_name key" and "safe_name file_name"
  shows "Option.bind (path_parent (dir @ ''/'' @ key @ ''/'' @ file_name)) path_file_name = Some key"
  using path_parent_join [OF assms(2,1), of dir] path_file_name_join [OF assms(1), of dir] by simp

section \<open>Properties\<close>

text \<open>
  C15. A manifest that is written is read back as it was: a run whose configuration directory is
  not blank, and a global, for which the current format takes precedence.
\<close>

theorem manifests_round_trip:
  assumes "bm_ok (pr_services r)" and "bm_ok (pr_env r)" and "trim (pr_config_dir r) \<noteq> []" and "bm_ok (pg_env g)"
  shows "dec_persisted_run (enc_persisted_run r) = Some r \<and>
    dec_persisted_global pe exists is_file (enc_persisted_global g) = Some g"
  using assms by (simp add: run_round_trip global_round_trip)

definition example_service :: persisted_service where
  "example_service =
     \<lparr>pe_port = Some 3000, pe_url = None, pe_listen_port = Some 3000, pe_capture_api = False,
      pe_capture_api_body_limit = 7, pe_capture_api_ignore = [''/health''], pe_state = Sv_Ready,
      pe_watch_hash = None, pe_last_failure = None, pe_last_started_at = Some ''t0'', pe_watch_paused = True\<rparr>"

definition example_manifest :: persisted_run where
  "example_manifest =
     \<lparr>pr_run_id = ''r1'', pr_project_dir = ''/p'', pr_config_dir = ''/p/etc'', pr_manifest_path = ''/d/runs/r1/manifest.json'',
      pr_stack = ''dev'', pr_services = [(''api'', example_service), (''web'', example_service)],
      pr_env = [(''A'', ''1'')], pr_state = Run_Running, pr_created_at = ''t0'', pr_stopped_at = None\<rparr>"

definition example_global :: persisted_global where
  "example_global =
     \<lparr>pg_key = ''abc__db'', pg_name = ''db'', pg_project_dir = ''/p'', pg_config_path = ''/p/devstack.toml'',
      pg_manifest_path = ''/d/globals/abc__db/manifest.json'', pg_service = example_service, pg_env = [],
      pg_state = Run_Running, pg_created_at = ''t0'', pg_stopped_at = None\<rparr>"

theorem manifests_round_trip_witness:
  "dec_persisted_run (enc_persisted_run example_manifest) = Some example_manifest \<and>
   dec_persisted_global (pv_paths example_pv) (\<lambda>_. True) (\<lambda>_. True) (enc_persisted_global example_global) = Some example_global"
proof -
  have "bm_ok (pr_services example_manifest)" "bm_ok (pr_env example_manifest)" "bm_ok (pg_env example_global)"
    "trim (pr_config_dir example_manifest) \<noteq> []"
    by (simp_all add: example_manifest_def example_global_def bm_ok_def trim_def trim_start_def trim_end_def
        is_whitespace_def less_eq_char_def less_char_def)
  then show ?thesis using manifests_round_trip by blast
qed

text \<open>
  Older manifests: a run without a configuration directory is read with its project
  directory in that place, and the manifest of a global with a single service in the format of a run is
  read as that service's global, with the key its directory is named after; with no service or
  several it is refused.
\<close>

theorem legacy_manifests_read:
  assumes "bm_ok (pr_services r)" and "bm_ok (pr_env r)" and "enc_persisted_run r = J_Obj m"
    and "bm_ok (lg_env g)" and "bm_ok (lg_services g)"
    and "safe_name key" and "lg_manifest_path g = root @ ''/'' @ key @ ''/manifest.json''"
  shows "dec_persisted_run (J_Obj (filter (\<lambda>(k, _). k \<noteq> ''config_dir'') m)) = Some (r\<lparr>pr_config_dir := pr_project_dir r\<rparr>) \<and>
    (case dec_persisted_global pe exists is_file (enc_legacy_global g) of
       None \<Rightarrow> length (lg_services g) \<noteq> 1
     | Some p \<Rightarrow> lg_services g = [(pg_name p, pg_service p)] \<and> pg_key p = key \<and>
         pg_project_dir p = lg_project_dir g \<and> pg_state p = lg_state g \<and> pg_env p = lg_env g)"
proof -
  have "safe_name ''manifest.json''"
    by (simp add: safe_name_def name_char_def char_class_defs)
  then have named: "Option.bind (path_parent (lg_manifest_path g)) path_file_name = Some key"
    using manifest_dir_name [OF assms(6), of "''manifest.json''" root] by (simp add: assms(7))
  note read = legacy_round_trip [OF assms(4,5)]
  have "case dec_persisted_global pe exists is_file (enc_legacy_global g) of
       None \<Rightarrow> length (lg_services g) \<noteq> 1
     | Some p \<Rightarrow> lg_services g = [(pg_name p, pg_service p)] \<and> pg_key p = key \<and>
         pg_project_dir p = lg_project_dir g \<and> pg_state p = lg_state g \<and> pg_env p = lg_env g"
    by (auto simp: dec_persisted_global_def read global_of_legacy_def named split: list.split prod.split)
  then show ?thesis using run_without_config_dir [OF assms(1-3)] by simp
qed

definition example_legacy :: legacy_global where
  "example_legacy =
     \<lparr>lg_project_dir = ''/p'', lg_manifest_path = ''/d/globals/abc__db/manifest.json'', lg_services = [(''db'', example_service)],
      lg_env = [], lg_state = Run_Running, lg_created_at = ''t0'', lg_stopped_at = None\<rparr>"

theorem legacy_manifests_read_witness:
  "\<exists>p. dec_persisted_global (pv_paths example_pv) (\<lambda>_. True) (\<lambda>_. True) (enc_legacy_global example_legacy) = Some p \<and>
     pg_key p = ''abc__db'' \<and> pg_name p = ''db''"
proof -
  have maps: "bm_ok (pr_services example_manifest)" "bm_ok (pr_env example_manifest)"
    "bm_ok (lg_env example_legacy)" "bm_ok (lg_services example_legacy)"
    by (simp_all add: example_manifest_def example_legacy_def bm_ok_def less_char_def)
  have key: "safe_name ''abc__db''" by (simp add: safe_name_def name_char_def char_class_defs)
  have path: "lg_manifest_path example_legacy = ''/d/globals'' @ ''/'' @ ''abc__db'' @ ''/manifest.json''"
    by (simp add: example_legacy_def)
  note all = legacy_manifests_read [OF maps(1,2) _ maps(3,4) key path, of _ "pv_paths example_pv" "\<lambda>_. True" "\<lambda>_. True"]
  have "\<exists>m. enc_persisted_run example_manifest = J_Obj m" by (simp add: enc_persisted_run_def)
  then show ?thesis using all by (auto simp: example_legacy_def split: option.splits)
qed

end
