(* ===== verification/Restore.thy ===== *)
theory Restore
  imports Manifests Daemon
begin

text \<open>
  Starting again from the manifests: \<open>src/src/persistence/daemon_state.rs\<close>. A manifest that is
  not restorable, whose snapshot of the configuration is missing or which does not fit it any
  more is passed over. The directory listing, the files and the loader of the configuration
  are parameters.
\<close>

section \<open>The disk\<close>

record disk =
  dk_exists :: "string \<Rightarrow> bool"
  dk_is_file :: "string \<Rightarrow> bool"
  dk_list :: "string \<Rightarrow> string result list result"
  dk_reader :: manifest_reader
  dk_config :: "string \<Rightarrow> config_file result"

definition load_global_at :: "path_env \<Rightarrow> disk \<Rightarrow> string \<Rightarrow> persisted_global result" where
  "load_global_at pe dk = load_global_manifest pe (dk_exists dk) (dk_is_file dk) (dk_reader dk)"

definition resolve_global_env_file_path :: "config_file \<Rightarrow> string \<Rightarrow> string option" where
  "resolve_global_env_file_path config config_dir =
     map_option (\<lambda>p. if is_absolute p then p else path_join config_dir p) (cf_env_file config)"

definition build_service_schemes :: "services \<Rightarrow> services \<Rightarrow> env_map" where
  "build_service_schemes services globals =
     bm_extend (bm_map (\<lambda>_. svc_scheme) services) (map (\<lambda>(name, svc). (name, svc_scheme svc)) globals)"

section \<open>One run\<close>

text \<open>The ports of the globals a run was started with: from their manifests, else as configured.\<close>

definition global_port_map :: "path_env \<Rightarrow> disk \<Rightarrow> string \<Rightarrow> services \<Rightarrow> port_map result" where
  "global_port_map pe dk project_dir globals =
     rmap (\<lambda>(name, svc).
       rbind (global_manifest_path pe project_dir name) (\<lambda>path.
         let fixed = Option.bind (sc_port svc) port_fixed in
         Inr (name, if dk_exists dk path
                    then (case load_global_at pe dk path of
                            Inr manifest \<Rightarrow> pe_port (pg_service manifest)
                          | Inl _ \<Rightarrow> fixed)
                    else fixed))) globals"

definition or_insert_all :: "(string, 'v) bmap \<Rightarrow> (string \<times> 'v) list \<Rightarrow> (string, 'v) bmap" where
  "or_insert_all m kvs = foldl (\<lambda>m (k, v). bm_or_insert k v m) m kvs"

definition with_saved_hash :: "persisted_service \<Rightarrow> prepared_service \<Rightarrow> prepared_service" where
  "with_saved_hash saved p =
     (case pe_watch_hash saved of None \<Rightarrow> p | Some h \<Rightarrow> p\<lparr>ps_watch_hash := h\<rparr>)"

definition restored_service :: "persisted_service \<Rightarrow> prepared_service \<Rightarrow> service_record" where
  "restored_service saved p =
     (let record = into_service_record (with_saved_hash saved p) (pe_state saved) (pe_last_failure saved)
                     (pe_last_started_at saved) in
      record\<lparr>sr_runtime := (sr_runtime record)\<lparr>rt_watch_paused := pe_watch_paused saved\<rparr>\<rparr>)"

fun restore_services ::
  "(string \<Rightarrow> service_config \<Rightarrow> prepared_service result) \<Rightarrow> (string, persisted_service) bmap \<Rightarrow> services \<Rightarrow>
     string list \<Rightarrow> (string, service_record) bmap \<Rightarrow> (string, service_record) bmap result" where
  "restore_services prepare saved configs [] records = Inr records"
| "restore_services prepare saved configs (name # names) records =
     (case (map_of saved name, map_of configs name) of
        (Some saved_service, Some config) \<Rightarrow>
          rbind (prepare name config) (\<lambda>p.
            restore_services prepare saved configs names (bm_insert name (restored_service saved_service p) records))
      | _ \<Rightarrow> restore_services prepare saved configs names records)"

definition convert_manifest_to_run_record ::
  "prepare_env \<Rightarrow> disk \<Rightarrow> persisted_run \<Rightarrow> config_file \<Rightarrow> run_record result" where
  "convert_manifest_to_run_record pv dk manifest config =
     (let scope = Scope_Run (pr_run_id manifest) (pr_stack manifest);
          project_dir = pr_project_dir manifest;
          config_dir = pr_config_dir manifest;
          services = pr_services manifest in
      rbind (stack_plan_of config (pr_stack manifest)) (\<lambda>plan.
      let globals = globals_map config in
      rbind (global_port_map (pv_paths pv) dk project_dir globals) (\<lambda>global_ports.
      let port_map = or_insert_all (bm_map (\<lambda>_. pe_port) services) global_ports;
          listen_port_map =
            or_insert_all (bm_map (\<lambda>_ s. opt_or (pe_listen_port s) (pe_port s)) services) global_ports;
          schemes = build_service_schemes (sp_services plan) globals;
          record = (new_run_record (pr_created_at manifest) (pr_run_id manifest) (pr_stack manifest)
                      project_dir config_dir (pr_env manifest))
                     \<lparr>rr_state := pr_state manifest, rr_stopped_at := pr_stopped_at manifest\<rparr> in
      rbind (restore_services
               (\<lambda>name svc. prepare_service pv scope project_dir config_dir name svc port_map listen_port_map schemes
                  (pr_env manifest) (cf_env config) (resolve_global_env_file_path config config_dir))
               services (sp_services plan) (sp_order plan) []) (\<lambda>records.
      Inr (record\<lparr>rr_services := records\<rparr>)))))"

text \<open>\<open>None\<close>: the entry is passed over. A run id that is no directory name ends the loading.\<close>

definition restore_run_at :: "prepare_env \<Rightarrow> disk \<Rightarrow> string \<Rightarrow> run_record option result" where
  "restore_run_at pv dk dir =
     (let manifest_path = path_join dir ''manifest.json'' in
      if \<not> dk_exists dk manifest_path then Inr None
      else (case load_run_manifest (dk_reader dk) manifest_path of
              Inl _ \<Rightarrow> Inr None
            | Inr manifest \<Rightarrow>
                if \<not> run_manifest_is_restorable (dk_exists dk) manifest then Inr None
                else rbind (run_snapshot_path (pv_paths pv) (pr_run_id manifest)) (\<lambda>snapshot_path.
                  if \<not> dk_exists dk snapshot_path then Inr None
                  else (case dk_config dk snapshot_path of
                          Inl _ \<Rightarrow> Inr None
                        | Inr config \<Rightarrow>
                            (case convert_manifest_to_run_record pv dk manifest config of
                               Inl _ \<Rightarrow> Inr None
                             | Inr record \<Rightarrow> Inr (Some record))))))"

fun load_entries ::
  "(string \<Rightarrow> 'a option result) \<Rightarrow> ('a \<Rightarrow> string) \<Rightarrow> string result list \<Rightarrow> (string, 'a) bmap \<Rightarrow>
     (string, 'a) bmap result" where
  "load_entries restore key [] found = Inr found"
| "load_entries restore key (entry # entries) found =
     rbind entry (\<lambda>dir.
     rbind (restore dir) (\<lambda>r.
     load_entries restore key entries (case r of None \<Rightarrow> found | Some x \<Rightarrow> bm_insert (key x) x found)))"

definition load_state_from_disk :: "prepare_env \<Rightarrow> disk \<Rightarrow> run_store result" where
  "load_state_from_disk pv dk =
     rbind (runs_dir (pv_paths pv)) (\<lambda>dir.
     if \<not> dk_exists dk dir then Inr []
     else rbind (dk_list dk dir) (\<lambda>entries. load_entries (restore_run_at pv dk) rr_run_id entries []))"

section \<open>One global\<close>

definition convert_manifest_to_global_record ::
  "prepare_env \<Rightarrow> persisted_global \<Rightarrow> config_file \<Rightarrow> global_record result" where
  "convert_manifest_to_global_record pv manifest config =
     (let name = pg_name manifest; key = pg_key manifest; project_dir = pg_project_dir manifest;
          config_path = pg_config_path manifest; service = pg_service manifest in
      case map_of (globals_map config) name of
        None \<Rightarrow> Inl (''global '' @ name @ '' missing from '' @ config_path)
      | Some service_config \<Rightarrow>
          (let scope = Scope_Global key project_dir name;
               port_map = [(name, pe_port service)];
               listen_port_map = [(name, opt_or (pe_listen_port service) (pe_port service))];
               schemes = [(name, svc_scheme service_config)];
               base_env = build_base_env scope project_dir port_map listen_port_map schemes;
               config_dir = unwrap_or (path_parent config_path) project_dir in
           rbind (prepare_service pv scope project_dir config_dir name service_config port_map listen_port_map
                    schemes base_env (cf_env config) (resolve_global_env_file_path config config_dir)) (\<lambda>p.
           Inr \<lparr>gr_key = key, gr_name = name, gr_project_dir = project_dir, gr_config_path = config_path,
                 gr_service_config = service_config, gr_tasks_map = unwrap_or (cf_tasks config) [],
                 gr_service = restored_service service p, gr_state = pg_state manifest,
                 gr_created_at = pg_created_at manifest, gr_stopped_at = pg_stopped_at manifest\<rparr>)))"

definition restore_global_at :: "prepare_env \<Rightarrow> disk \<Rightarrow> string \<Rightarrow> global_record option result" where
  "restore_global_at pv dk dir =
     (let manifest_path = path_join dir ''manifest.json'' in
      Inr (if \<not> dk_exists dk manifest_path then None
           else (case load_global_at (pv_paths pv) dk manifest_path of
                   Inl _ \<Rightarrow> None
                 | Inr manifest \<Rightarrow>
                     if \<not> global_manifest_is_restorable (dk_exists dk) manifest then None
                     else (case dk_config dk (pg_config_path manifest) of
                             Inl _ \<Rightarrow> None
                           | Inr config \<Rightarrow>
                               (case convert_manifest_to_global_record pv manifest config of
                                  Inl _ \<Rightarrow> None
                                | Inr record \<Rightarrow> Some record)))))"

definition load_globals_from_disk :: "prepare_env \<Rightarrow> disk \<Rightarrow> global_store result" where
  "load_globals_from_disk pv dk =
     rbind (globals_root (pv_paths pv)) (\<lambda>dir.
     if \<not> dk_exists dk dir then Inr []
     else rbind (dk_list dk dir) (\<lambda>entries. load_entries (restore_global_at pv dk) gr_key entries []))"

section \<open>Facts\<close>

lemma map_of_or_insert_all: "map_of (or_insert_all m kvs) k = (case map_of m k of Some v \<Rightarrow> Some v | None \<Rightarrow> map_of kvs k)"
proof (induction kvs arbitrary: m)
  case (Cons kv kvs)
  obtain k' v where kv: "kv = (k', v)" by fastforce
  have "or_insert_all m (kv # kvs) = or_insert_all (bm_or_insert k' v m) kvs" by (simp add: or_insert_all_def kv)
  moreover have "map_of (bm_or_insert k' v m) k = (case map_of m k of Some w \<Rightarrow> Some w | None \<Rightarrow> if k = k' then Some v else None)"
    by (auto simp: map_of_bm_or_insert split: option.split)
  ultimately show ?case using Cons.IH by (auto simp: kv split: option.splits if_splits)
qed (simp add: or_insert_all_def split: option.split)

lemma restored_service_fields [simp]:
  "sr_state (restored_service saved p) = pe_state saved"
  "rt_last_failure (sr_runtime (restored_service saved p)) = pe_last_failure saved"
  "rt_last_started_at (sr_runtime (restored_service saved p)) = pe_last_started_at saved"
  "rt_watch_paused (sr_runtime (restored_service saved p)) = pe_watch_paused saved"
  "sr_handles (restored_service saved p) = no_handles"
  "lp_port (sr_launch (restored_service saved p)) = ps_port p"
  "lp_listen_port (sr_launch (restored_service saved p)) = ps_listen_port p"
  "ss_name (sr_spec (restored_service saved p)) = ps_name p"
  "lp_watch_hash (sr_launch (restored_service saved p)) = unwrap_or (pe_watch_hash saved) (ps_watch_hash p)"
  by (simp_all add: restored_service_def with_saved_hash_def into_service_record_def new_service_record_def
      prepared_launch_plan_def prepared_spec_def Let_def split: option.split)

lemma restore_services_lookup:
  assumes "restore_services prepare saved configs names records = Inr out"
  shows "(\<forall>s c. map_of saved name = Some s \<longrightarrow> map_of configs name = Some c \<longrightarrow> name \<in> set names \<longrightarrow>
      (\<exists>p. prepare name c = Inr p \<and> map_of out name = Some (restored_service s p)))
    \<and> (map_of saved name = None \<or> map_of configs name = None \<or> name \<notin> set names \<longrightarrow> map_of out name = map_of records name)
    \<and> (bm_ok records \<longrightarrow> bm_ok out)"
  using assms
proof (induction names arbitrary: records)
  case (Cons n names)
  show ?case
  proof (cases "\<exists>s c. map_of saved n = Some s \<and> map_of configs n = Some c")
    case True
    then obtain s c where known: "map_of saved n = Some s" "map_of configs n = Some c" by blast
    then obtain p where p: "prepare n c = Inr p"
      and rest: "restore_services prepare saved configs names (bm_insert n (restored_service s p) records) = Inr out"
      using Cons.prems by (auto simp: rbind_eq_Inr)
    show ?thesis
      using Cons.IH [OF rest] known p by (cases "n \<in> set names"; cases "name = n") auto
  next
    case False
    then have rest: "restore_services prepare saved configs names records = Inr out"
      using Cons.prems by (auto split: option.splits)
    show ?thesis using Cons.IH [OF rest] False by auto
  qed
qed simp

text \<open>
  What a converted manifest is: its services that are still in the stack, prepared again with the
  ports they had.
\<close>

definition restored_from :: "persisted_service option \<Rightarrow> bool \<Rightarrow> service_name \<Rightarrow> service_record option \<Rightarrow> bool" where
  "restored_from saved planned name record \<longleftrightarrow>
     (case saved of
        None \<Rightarrow> record = None
      | Some s \<Rightarrow>
          if planned then
            \<exists>p. record = Some (restored_service s p) \<and> ps_name p = name \<and> ps_port p = pe_port s \<and>
              ps_listen_port p = opt_or (pe_listen_port s) (pe_port s)
          else record = None)"

definition run_of_manifest :: "persisted_run \<Rightarrow> stack_plan \<Rightarrow> run_record \<Rightarrow> bool" where
  "run_of_manifest manifest plan run \<longleftrightarrow>
     rr_run_id run = pr_run_id manifest \<and> rr_stack run = pr_stack manifest \<and>
     rr_project_dir run = pr_project_dir manifest \<and> rr_config_dir run = pr_config_dir manifest \<and>
     rr_base_env run = pr_env manifest \<and> rr_state run = pr_state manifest \<and>
     rr_created_at run = pr_created_at manifest \<and> rr_stopped_at run = pr_stopped_at manifest \<and>
     bm_ok (rr_services run) \<and>
     (\<forall>name. restored_from (map_of (pr_services manifest) name)
        (name \<in> set (sp_order plan) \<and> map_of (sp_services plan) name \<noteq> None) name (map_of (rr_services run) name))"

lemma converted_run:
  assumes "convert_manifest_to_run_record pv dk manifest config = Inr run"
  shows "\<exists>plan. stack_plan_of config (pr_stack manifest) = Inr plan \<and> run_of_manifest manifest plan run"
proof -
  define scope where "scope = Scope_Run (pr_run_id manifest) (pr_stack manifest)"
  obtain plan global_ports records where plan: "stack_plan_of config (pr_stack manifest) = Inr plan"
    and restored: "restore_services (\<lambda>name svc. prepare_service pv scope (pr_project_dir manifest) (pr_config_dir manifest)
        name svc (or_insert_all (bm_map (\<lambda>_. pe_port) (pr_services manifest)) global_ports)
        (or_insert_all (bm_map (\<lambda>_ s. opt_or (pe_listen_port s) (pe_port s)) (pr_services manifest)) global_ports)
        (build_service_schemes (sp_services plan) (globals_map config))
        (pr_env manifest) (cf_env config) (resolve_global_env_file_path config (pr_config_dir manifest)))
      (pr_services manifest) (sp_services plan) (sp_order plan) [] = Inr records"
    and run: "run = (new_run_record (pr_created_at manifest) (pr_run_id manifest) (pr_stack manifest)
        (pr_project_dir manifest) (pr_config_dir manifest) (pr_env manifest))
          \<lparr>rr_state := pr_state manifest, rr_stopped_at := pr_stopped_at manifest, rr_services := records\<rparr>"
    using assms by (auto simp: convert_manifest_to_run_record_def rbind_eq_Inr Let_def scope_def)
  note found = restore_services_lookup [OF restored]
  have "restored_from (map_of (pr_services manifest) name)
      (name \<in> set (sp_order plan) \<and> map_of (sp_services plan) name \<noteq> None) name (map_of records name)" for name
  proof (cases "\<exists>saved config. map_of (pr_services manifest) name = Some saved \<and> map_of (sp_services plan) name = Some config \<and>
      name \<in> set (sp_order plan)")
    case True
    then obtain saved config where known: "map_of (pr_services manifest) name = Some saved"
      "map_of (sp_services plan) name = Some config" "name \<in> set (sp_order plan)" by blast
    then obtain p where p: "map_of records name = Some (restored_service saved p)"
      and prepared: "ps_name p = name" "ps_port p = pe_port saved" "ps_listen_port p = opt_or (pe_listen_port saved) (pe_port saved)"
      using found [of name] by (auto simp: map_of_or_insert_all elim!: prepare_service_parts)
    have "\<exists>q. map_of records name = Some (restored_service saved q) \<and> ps_name q = name \<and> ps_port q = pe_port saved \<and>
        ps_listen_port q = opt_or (pe_listen_port saved) (pe_port saved)"
      by (rule exI [of _ p]) (simp add: p prepared)
    then show ?thesis by (simp add: restored_from_def known)
  next
    case False
    then show ?thesis using found [of name] by (auto simp: restored_from_def split: option.split)
  qed
  then show ?thesis using plan found by (auto simp: run_of_manifest_def run new_run_record_def)
qed

section \<open>What the loader finds\<close>

lemma load_entries_found:
  assumes "load_entries restore key entries found = Inr out" and "bm_ok found"
    and "\<And>dir x. restore dir = Inr (Some x) \<Longrightarrow> Q x" and "\<forall>(k, x) \<in> set found. key x = k \<and> Q x"
  shows "bm_ok out \<and> (\<forall>(k, x) \<in> set out. key x = k \<and> Q x)"
  using assms
proof (induction entries arbitrary: found)
  case (Cons entry entries)
  obtain dir r where r: "entry = Inr dir" "restore dir = Inr r"
    and rest: "load_entries restore key entries (case r of None \<Rightarrow> found | Some x \<Rightarrow> bm_insert (key x) x found) = Inr out"
    using Cons.prems(1) by (auto simp: rbind_eq_Inr)
  show ?case
  proof (cases r)
    case None
    then show ?thesis using Cons rest by simp
  next
    case (Some x)
    have ok: "bm_ok (bm_insert (key x) x found)" using Cons.prems(2) by blast
    have old: "key y = k \<and> Q y" if "map_of found k = Some y" for k y
      using Cons.prems(4) map_of_SomeD [OF that] by blast
    have "\<forall>(k, y) \<in> set (bm_insert (key x) x found). key y = k \<and> Q y"
      using old Cons.prems(3) [of dir x] r Some by (auto simp: bm_entry_iff [OF ok] split: if_splits)
    then show ?thesis using Cons.IH [OF _ ok Cons.prems(3)] rest Some by simp
  qed
qed simp

text \<open>What holds of every restored run.\<close>

definition run_restored :: "run_record \<Rightarrow> bool" where
  "run_restored run \<longleftrightarrow> rr_state run \<noteq> Run_Stopped \<and> rr_stopped_at run = None \<and> bm_ok (rr_services run) \<and>
     (\<forall>name record. map_of (rr_services run) name = Some record \<longrightarrow>
        sr_handles record = no_handles \<and> ss_name (sr_spec record) = name)"

lemma restore_run_at_Some:
  assumes "restore_run_at pv dk dir = Inr (Some run)"
  obtains manifest config snapshot where "load_run_manifest (dk_reader dk) (path_join dir ''manifest.json'') = Inr manifest"
    and "run_manifest_is_restorable (dk_exists dk) manifest"
    and "convert_manifest_to_run_record pv dk manifest config = Inr run"
    and "run_snapshot_path (pv_paths pv) (pr_run_id manifest) = Inr snapshot" and "dk_config dk snapshot = Inr config"
  using assms by (auto simp: restore_run_at_def Let_def rbind_eq_Inr split: if_splits sum.splits)

lemma restored_run: "restore_run_at pv dk dir = Inr (Some run) \<Longrightarrow> run_restored run"
proof -
  assume "restore_run_at pv dk dir = Inr (Some run)"
  then obtain manifest config where kept: "run_manifest_is_restorable (dk_exists dk) manifest"
    and converted: "convert_manifest_to_run_record pv dk manifest config = Inr run"
    by (rule restore_run_at_Some)
  obtain plan where run: "run_of_manifest manifest plan run" using converted_run [OF converted] by blast
  have "sr_handles r = no_handles \<and> ss_name (sr_spec r) = name"
    if "map_of (rr_services run) name = Some r" for name r
  proof -
    have "restored_from (map_of (pr_services manifest) name)
        (name \<in> set (sp_order plan) \<and> map_of (sp_services plan) name \<noteq> None) name (Some r)"
      using run unfolding run_of_manifest_def that [symmetric] by blast
    then show ?thesis by (auto simp: restored_from_def split: option.splits if_splits)
  qed
  then show ?thesis using run kept by (simp add: run_restored_def run_of_manifest_def run_manifest_is_restorable_def)
qed

lemma loaded_runs:
  assumes "load_state_from_disk pv dk = Inr runs"
  shows "bm_ok runs \<and> (\<forall>(run_id, run) \<in> set runs. rr_run_id run = run_id \<and> run_restored run)"
proof (cases "\<exists>dir entries. load_entries (restore_run_at pv dk) rr_run_id entries [] = Inr runs")
  case True
  then obtain entries where entries: "load_entries (restore_run_at pv dk) rr_run_id entries [] = Inr runs" by blast
  show ?thesis by (rule load_entries_found [OF entries]) (auto dest: restored_run)
next
  case False
  then have "runs = []" using assms by (auto simp: load_state_from_disk_def rbind_eq_Inr split: if_splits)
  then show ?thesis by simp
qed

section \<open>Properties\<close>

text \<open>
  C16. What a daemon loads when it starts: runs that were not stopped, under their own ids, whose
  services hold no helper; the state it starts in is one from which the ledger of helpers holds.
\<close>

theorem restarted_daemon_state:
  assumes "load_state_from_disk pv dk = Inr runs" and "ap_runs st = runs" and "ap_stopped st = []"
  shows "(\<forall>run_id run. map_of runs run_id = Some run \<longrightarrow> rr_run_id run = run_id \<and> rr_state run \<noteq> Run_Stopped \<and>
      rr_stopped_at run = None) \<and> daemon_reachable wo (st, {})"
proof -
  note loaded = loaded_runs [OF assms(1)]
  then have found: "rr_run_id run = run_id \<and> run_restored run" if "map_of runs run_id = Some run" for run_id run
    using map_of_SomeD [OF that] by blast
  have "runs_ok st" using found by (auto simp: runs_ok_def assms(2) run_restored_def)
  moreover have "slot st a = None" for a
  proof -
    obtain r s k where a: "a = (r, s, k)" by (metis surj_pair)
    have free: "sr_handles q = no_handles" if "map_of runs r = Some run" "map_of (rr_services run) s = Some q" for run q
      using found [OF that(1)] that(2) by (simp add: run_restored_def)
    show ?thesis
      by (cases "map_of runs r"; cases "map_of (rr_services (the (map_of runs r))) s")
        (simp_all add: a slot_def run_slot_def assms(2) free)
  qed
  ultimately have "daemon_reachable wo (st, {})" using assms(3) by (blast intro: Reach_Start)
  then show ?thesis using found by (auto simp: run_restored_def)
qed

definition idle_state :: "run_store \<Rightarrow> app_state" where
  "idle_state runs = fresh_daemon\<lparr>ap_runs := runs\<rparr>"

text \<open>A disk with the manifest of one run, whose service needs no preparation that could fail.\<close>

definition saved_run :: run_record where
  "saved_run = web_run (example_record ''web'' Sv_Ready)\<lparr>rr_state := Run_Running\<rparr>"

definition web_config :: config_file where
  "web_config = \<lparr>cf_version = 1, cf_stacks = [(''dev'', \<lparr>st_services = [(''web'', bare_service ''run'')]\<rparr>)],
     cf_default_stack = None, cf_globals = None, cf_tasks = None, cf_env = [], cf_env_file = None\<rparr>"

definition example_disk :: "(string \<Rightarrow> bool) \<Rightarrow> run_record \<Rightarrow> disk" where
  "example_disk exists run =
     \<lparr>dk_exists = exists, dk_is_file = exists, dk_list = (\<lambda>_. Inr [Inr ''/d/runs/r1'']),
      dk_reader = \<lparr>mr_read = (\<lambda>_. Some ''data''), mr_parse = (\<lambda>_. Some (enc_persisted_run (persisted_run_of run ''/d/runs/r1/manifest.json'')))\<rparr>,
      dk_config = (\<lambda>_. Inr web_config)\<rparr>"

lemma example_prepared:
  assumes "log_path_for_scope (pv_paths example_pv) scope project_dir name = Inr path"
  shows "\<exists>p. prepare_service example_pv scope project_dir config_dir name (bare_service c) ports listen schemes env [] None = Inr p"
proof -
  have pv: "pv_render example_pv t ctx = Inr t" "pv_json_to_vec example_pv j = Inr ''{}''"
    "pv_watch_hash example_pv a b d e f = Inr ''h''" "load_env_file example_pv env_file = Inr []" for t ctx j a b d e f env_file
    by (simp_all add: load_env_file_def example_pv_def)
  have svc: "sc_env (bare_service c) = []" "sc_env_file (bare_service c) = None"
    "sc_watch (bare_service c) = []" "sc_ignore (bare_service c) = []" "\<not> sc_auto_restart (bare_service c)"
    "sc_readiness (bare_service c) = None"
    by (simp_all add: bare_service_def)
  show ?thesis
    by (simp add: prepare_service_def Let_def resolve_cwd_path_def assms pv svc resolve_env_file_path_def
        resolve_rendered_path_def render_patterns_def prepared_env_def readiness_spec_of_def readiness_kind_of_def
        del: log_path_for_scope.simps)
qed

lemma saved_run_fields [simp]:
  "rr_services saved_run = [(''web'', example_record ''web'' Sv_Ready)]" "rr_run_id saved_run = ''r1''"
  "rr_stack saved_run = ''dev''" "rr_project_dir saved_run = ''/p''" "rr_config_dir saved_run = ''/p''"
  "rr_base_env saved_run = []" "rr_state saved_run = Run_Running" "rr_stopped_at saved_run = None"
  by (simp_all add: saved_run_def web_run_def new_run_record_def)

lemma example_restore:
  "\<exists>run. restore_run_at example_pv (example_disk (\<lambda>_. True) saved_run) ''/d/runs/r1'' = Inr (Some run) \<and> rr_run_id run = ''r1''"
proof -
  let ?manifest = "persisted_run_of saved_run ''/d/runs/r1/manifest.json''"
  have "bm_ok (pr_services ?manifest)" "bm_ok (pr_env ?manifest)" "trim (pr_config_dir ?manifest) \<noteq> []"
    by (simp_all add: persisted_run_of_def bm_ok_def bm_map_def trim_def trim_start_def trim_end_def is_whitespace_def)
  then have load: "load_run_manifest (dk_reader (example_disk (\<lambda>_. True) saved_run)) path = Inr ?manifest" for path
    by (simp add: load_run_manifest_def example_disk_def run_round_trip)
  have disk: "dk_exists (example_disk e run) = e" "dk_config (example_disk e run) path = Inr web_config" for e run path
    by (simp_all add: example_disk_def)
  have fields: "pr_run_id ?manifest = ''r1''" "pr_stack ?manifest = ''dev''" "pr_project_dir ?manifest = ''/p''"
    "pr_services ?manifest = [(''web'', persisted_service_of (example_record ''web'' Sv_Ready))]"
    "pr_state ?manifest = Run_Running" "pr_stopped_at ?manifest = None"
    by (simp_all add: persisted_run_of_def bm_map_def)
  have snapshot: "run_snapshot_path (pv_paths example_pv) ''r1'' = Inr ''/data/runs/r1/devstack.yml.snapshot''" by code_simp
  have plan: "stack_plan_of web_config ''dev'' = Inr \<lparr>sp_name = ''dev'', sp_services = [(''web'', bare_service ''run'')],
      sp_order = [''web'']\<rparr>" by code_simp
  have log: "log_path_for_scope (pv_paths example_pv) (Scope_Run ''r1'' ''dev'') ''/p'' ''web'' = Inr ''/data/runs/r1/logs/web.log''"
    by code_simp
  have config: "globals_map web_config = []" "cf_env web_config = []" "cf_env_file web_config = None"
    by (simp_all add: web_config_def globals_map_def)
  obtain run where run: "convert_manifest_to_run_record example_pv (example_disk (\<lambda>_. True) saved_run) ?manifest web_config = Inr run"
    using example_prepared [OF log]
    by (auto simp: convert_manifest_to_run_record_def fields plan config global_port_map_def resolve_global_env_file_path_def
        Let_def simp del: log_path_for_scope.simps) (metis rbind.simps(2))
  then have "rr_run_id run = ''r1''" using converted_run [OF run] by (auto simp: run_of_manifest_def fields)
  then show ?thesis
    using snapshot run by (auto simp: restore_run_at_def load fields run_manifest_is_restorable_def disk)
qed

theorem restarted_daemon_state_witness:
  "\<exists>runs run. load_state_from_disk example_pv (example_disk (\<lambda>_. True) saved_run) = Inr runs \<and>
     map_of runs ''r1'' = Some run \<and> rr_state run \<noteq> Run_Stopped \<and> daemon_reachable example_world (idle_state runs, {})"
proof -
  obtain run where run: "restore_run_at example_pv (example_disk (\<lambda>_. True) saved_run) ''/d/runs/r1'' = Inr (Some run)" "rr_run_id run = ''r1''"
    using example_restore by blast
  have "runs_dir (pv_paths example_pv) = Inr ''/data/runs''" by code_simp
  then have loaded: "load_state_from_disk example_pv (example_disk (\<lambda>_. True) saved_run) = Inr [(rr_run_id run, run)]"
    using run(1) by (simp add: load_state_from_disk_def) (simp add: example_disk_def)
  have "ap_runs (idle_state [(rr_run_id run, run)]) = [(rr_run_id run, run)]" "ap_stopped (idle_state [(rr_run_id run, run)]) = []"
    by (simp_all add: idle_state_def fresh_daemon_def example_state_def)
  note restarted_daemon_state [OF loaded this, of example_world]
  then show ?thesis using loaded run(2) by (intro exI [of _ "[(rr_run_id run, run)]"] exI [of _ run]) simp
qed

text \<open>
  C17. A run that is persisted and loaded again, after the daemon was restarted, is the same run: its
  identity, state, environment and times, and of every service that is in the stack of the run's
  configuration snapshot its state, failure, start time, pause flag, ports and watch hash; a service that is
  not in that stack is not restored, and none is added.
\<close>

theorem run_survives_restart:
  assumes "restore_run_at pv dk dir = Inr (Some run')" and "path = path_join dir ''manifest.json''"
    and "mr_read (dk_reader dk) path = Some bytes"
    and "mr_parse (dk_reader dk) bytes = Some (enc_persisted_run (persisted_run_of run path))"
    and "bm_ok (rr_services run)" and "bm_ok (rr_base_env run)" and "trim (rr_config_dir run) \<noteq> []"
    and "run_snapshot_path (pv_paths pv) (rr_run_id run) = Inr snapshot" and "dk_config dk snapshot = Inr config"
    and "map_of (cf_stacks config) (rr_stack run) = Some stack" and "bm_ok (st_services stack)"
  shows "rr_run_id run' = rr_run_id run \<and> rr_stack run' = rr_stack run \<and> rr_project_dir run' = rr_project_dir run \<and>
    rr_config_dir run' = rr_config_dir run \<and> rr_base_env run' = rr_base_env run \<and> rr_state run' = rr_state run \<and>
    rr_created_at run' = rr_created_at run \<and> rr_stopped_at run' = rr_stopped_at run \<and>
    (\<forall>name. case map_of (rr_services run') name of
         None \<Rightarrow> map_of (rr_services run) name = None \<or> map_of (st_services stack) name = None
       | Some s' \<Rightarrow>
           map_of (st_services stack) name \<noteq> None \<and>
           (\<exists>s. map_of (rr_services run) name = Some s \<and> sr_state s' = sr_state s \<and> sr_runtime s' = sr_runtime s \<and>
              lp_port (sr_launch s') = lp_port (sr_launch s) \<and>
              lp_listen_port (sr_launch s') = opt_or (lp_listen_port (sr_launch s)) (lp_port (sr_launch s)) \<and>
              lp_watch_hash (sr_launch s') = lp_watch_hash (sr_launch s) \<and> sr_handles s' = no_handles))"
proof -
  obtain manifest config' snapshot' where manifest: "load_run_manifest (dk_reader dk) path = Inr manifest"
    and converted: "convert_manifest_to_run_record pv dk manifest config' = Inr run'"
    and snapshot: "run_snapshot_path (pv_paths pv) (pr_run_id manifest) = Inr snapshot'" "dk_config dk snapshot' = Inr config'"
    using restore_run_at_Some [OF assms(1)] unfolding assms(2) by metis
  have "dec_persisted_run (enc_persisted_run (persisted_run_of run path)) = Some (persisted_run_of run path)"
    by (rule run_round_trip) (simp_all add: persisted_run_of_def assms(5-7))
  then have m: "manifest = persisted_run_of run path"
    using manifest by (simp add: load_run_manifest_def assms(3,4))
  have "config' = config" using snapshot assms(8,9) by (simp add: m persisted_run_of_def)
  then obtain plan where plan: "stack_plan_of config (rr_stack run) = Inr plan" and same: "run_of_manifest manifest plan run'"
    using converted_run [OF converted] by (auto simp: m persisted_run_of_def)
  have stack: "sp_services plan = st_services stack" "topo_sort (st_services stack) = Inr (sp_order plan)"
    using plan assms(10) by (auto simp: stack_plan_of_def Let_def rbind_eq_Inr)
  have planned: "name \<in> set (sp_order plan) \<and> map_of (sp_services plan) name \<noteq> None \<longleftrightarrow> map_of (st_services stack) name \<noteq> None" for name
    using topo_sort_sound(2) [OF assms(11) stack(2)] by (auto simp: stack(1) set_bm_keys)
  have saved: "map_of (pr_services manifest) name = map_option persisted_service_of (map_of (rr_services run) name)" for name
    by (simp add: m persisted_run_of_def)
  have services: "case map_of (rr_services run') name of
         None \<Rightarrow> map_of (rr_services run) name = None \<or> map_of (st_services stack) name = None
       | Some s' \<Rightarrow>
           map_of (st_services stack) name \<noteq> None \<and>
           (\<exists>s. map_of (rr_services run) name = Some s \<and> sr_state s' = sr_state s \<and> sr_runtime s' = sr_runtime s \<and>
              lp_port (sr_launch s') = lp_port (sr_launch s) \<and>
              lp_listen_port (sr_launch s') = opt_or (lp_listen_port (sr_launch s)) (lp_port (sr_launch s)) \<and>
              lp_watch_hash (sr_launch s') = lp_watch_hash (sr_launch s) \<and> sr_handles s' = no_handles)" for name
  proof -
    have "restored_from (map_of (pr_services manifest) name) (map_of (st_services stack) name \<noteq> None) name
        (map_of (rr_services run') name)"
      using same unfolding run_of_manifest_def planned by blast
    then show ?thesis
      unfolding saved by (auto simp: restored_from_def persisted_service_of_def split: option.splits if_splits)
  qed
  show ?thesis
    using same services by (auto simp: run_of_manifest_def m persisted_run_of_def)
qed

theorem run_survives_restart_witness:
  "\<exists>run'. restore_run_at example_pv (example_disk (\<lambda>_. True) saved_run) ''/d/runs/r1'' = Inr (Some run') \<and>
     rr_state run' = Run_Running \<and> map_of (rr_services run') ''web'' \<noteq> None"
proof -
  obtain run' where run: "restore_run_at example_pv (example_disk (\<lambda>_. True) saved_run) ''/d/runs/r1'' = Inr (Some run')"
    using example_restore by blast
  have path: "''/d/runs/r1/manifest.json'' = path_join ''/d/runs/r1'' ''manifest.json''" by code_simp
  have read: "mr_read (dk_reader (example_disk (\<lambda>_. True) saved_run)) ''/d/runs/r1/manifest.json'' = Some ''data''"
    "mr_parse (dk_reader (example_disk (\<lambda>_. True) saved_run)) ''data'' =
       Some (enc_persisted_run (persisted_run_of saved_run ''/d/runs/r1/manifest.json''))"
    "bm_ok (rr_services saved_run)" "bm_ok (rr_base_env saved_run)" "trim (rr_config_dir saved_run) \<noteq> []"
    by (simp_all add: example_disk_def bm_ok_def trim_def trim_start_def trim_end_def is_whitespace_def)
  have snapshot: "run_snapshot_path (pv_paths example_pv) (rr_run_id saved_run) = Inr ''/data/runs/r1/devstack.yml.snapshot''" by code_simp
  have config: "dk_config (example_disk (\<lambda>_. True) saved_run) ''/data/runs/r1/devstack.yml.snapshot'' = Inr web_config"
    by (simp add: example_disk_def)
  have stack: "map_of (cf_stacks web_config) (rr_stack saved_run) = Some \<lparr>st_services = [(''web'', bare_service ''run'')]\<rparr>"
    "bm_ok (st_services \<lparr>st_services = [(''web'', bare_service ''run'')]\<rparr>)"
    by (simp_all add: web_config_def bm_ok_def)
  note same = run_survives_restart [OF run path read snapshot config stack]
  have "map_of (rr_services run') ''web'' \<noteq> None"
    using same [THEN conjunct2, THEN conjunct2, THEN conjunct2, THEN conjunct2, THEN conjunct2, THEN conjunct2,
      THEN conjunct2, THEN conjunct2, THEN spec, of "''web''"] by (auto split: option.splits)
  moreover have "rr_state run' = Run_Running" using same by simp
  ultimately show ?thesis using run by blast
qed

text \<open>One manifest whose run id is no directory name ends the loading of all of them.\<close>

lemma bad_run_id_stops_loading:
  assumes "runs_dir (pv_paths pv) = Inr root" and "dk_exists dk root" and "dk_list dk root = Inr (map Inr dirs)"
    and "dir \<in> set dirs" and "dk_exists dk (path_join dir ''manifest.json'')"
    and "load_run_manifest (dk_reader dk) (path_join dir ''manifest.json'') = Inr manifest"
    and "run_manifest_is_restorable (dk_exists dk) manifest" and "\<not> safe_name (pr_run_id manifest)"
  shows "\<exists>e. load_state_from_disk pv dk = Inl e"
proof -
  obtain e where "run_snapshot_path (pv_paths pv) (pr_run_id manifest) = Inl e"
    using assms(8) validate_name_ok [of "''run id''" "pr_run_id manifest"]
    by (cases "validate_name_for_path_component ''run id'' (pr_run_id manifest)") (auto simp: run_snapshot_path_def run_dir_def)
  then have bad: "restore_run_at pv dk dir = Inl e"
    using assms(5-7) by (simp add: restore_run_at_def)
  have "\<exists>e. load_entries (restore_run_at pv dk) rr_run_id (map Inr dirs) found = Inl e" for found
    using assms(4)
  proof (induction dirs arbitrary: found)
    case (Cons d dirs)
    show ?case using Cons bad by (cases "restore_run_at pv dk d") auto
  qed simp
  then show ?thesis using assms(1-3) by (simp add: load_state_from_disk_def)
qed

end
