(* ===== verification/Watcher.thy ===== *)
theory Watcher
  imports Daemon
begin

text \<open>
  The loop of the watcher of a service (\<open>spawn_service_auto_restart_watcher\<close> in
  \<open>src/src/app/launch/watch.rs\<close>), one turn at a time: the events of the file system are collected
  until they have settled, then the files are hashed again and the service is restarted when the
  hash is new. What a turn receives, the times it reads and the hash it computes are its input.
\<close>

section \<open>One turn of the loop\<close>

datatype notify_kind = Notify_Any | Notify_Access | Notify_Create | Notify_Modify | Notify_Remove | Notify_Other

datatype watch_poll =
    Poll_Event notify_kind
  | Poll_Error
  | Poll_Closed
  | Poll_Timeout

record watch_loop =
  wl_pending :: bool
  wl_last_event_at :: nat

definition new_watch_loop :: "nat \<Rightarrow> watch_loop" where
  "new_watch_loop now = \<lparr>wl_pending = False, wl_last_event_at = now\<rparr>"

text \<open>What a turn finds, times in milliseconds. \<open>wi_hash\<close> is the answer of \<open>compute_watch_hash\<close>.\<close>

record watch_input =
  wi_poll :: watch_poll
  wi_polled_at :: nat
  wi_checked_at :: nat
  wi_hash :: "string result"

definition is_change :: "notify_kind \<Rightarrow> bool" where
  "is_change kind \<longleftrightarrow> kind \<in> {Notify_Any, Notify_Create, Notify_Modify, Notify_Remove}"

definition watch_listen :: "watch_input \<Rightarrow> watch_loop \<Rightarrow> watch_loop option" where
  "watch_listen inp w =
     (case wi_poll inp of
        Poll_Event kind \<Rightarrow>
          Some (if is_change kind then \<lparr>wl_pending = True, wl_last_event_at = wi_polled_at inp\<rparr> else w)
      | Poll_Error \<Rightarrow> Some w
      | Poll_Closed \<Rightarrow> None
      | Poll_Timeout \<Rightarrow> Some w)"

definition watch_settled :: "watch_input \<Rightarrow> watch_loop \<Rightarrow> bool" where
  "watch_settled inp w \<longleftrightarrow> wl_pending w \<and> \<not> wi_checked_at inp - wl_last_event_at w < 500"

definition watch_changed ::
  "world \<Rightarrow> run_id \<Rightarrow> service_name \<Rightarrow> handle_id \<Rightarrow> string \<Rightarrow> app_state \<Rightarrow> bool \<times> app_state" where
  "watch_changed wo run_id service handle next_hash st =
     (case with_run_state run_id (update_service service (fire_watch next_hash) None) st of
        (Inr (Some (paused, should_restart)), st1) \<Rightarrow>
          (let st2 = set_paused (Some handle) paused st1 in
           (True, if should_restart then snd (restart_service_no_wait wo run_id service st2) else st2))
      | (_, st1) \<Rightarrow> (False, st1))"

text \<open>
  One turn, for a service or a global: \<open>changed\<close> is the critical section with what follows it, and says
  whether the watched thing is still there. \<open>None\<close>: the watcher has ended.
\<close>

definition watch_round ::
  "bool \<Rightarrow> bool \<Rightarrow> (string \<Rightarrow> 's \<Rightarrow> bool \<times> 's) \<Rightarrow> watch_input \<Rightarrow> watch_loop \<Rightarrow> 's \<Rightarrow> watch_loop option \<times> 's" where
  "watch_round stopped paused changed inp w st =
     (if stopped then (None, st)
      else
        (case watch_listen inp w of
           None \<Rightarrow> (None, st)
         | Some w1 \<Rightarrow>
             if \<not> watch_settled inp w1 then (Some w1, st)
             else
               (let w2 = w1\<lparr>wl_pending := False\<rparr> in
                if paused then (Some w2, st)
                else
                  (case wi_hash inp of
                     Inl _ \<Rightarrow> (Some w2, st)
                   | Inr next_hash \<Rightarrow>
                       (case changed next_hash st of
                          (True, st1) \<Rightarrow> (Some w2, st1)
                        | (False, st1) \<Rightarrow> (None, st1))))))"

definition watch_turn ::
  "world \<Rightarrow> run_id \<Rightarrow> service_name \<Rightarrow> handle_id \<Rightarrow> watch_input \<Rightarrow> watch_loop \<Rightarrow> app_state \<Rightarrow>
     watch_loop option \<times> app_state" where
  "watch_turn wo run_id service handle inp w st =
     watch_round (handle \<in> set (ap_stopped st)) (map_of (ap_paused st) handle = Some True)
       (watch_changed wo run_id service handle) inp w st"

fun watch_turns ::
  "world \<Rightarrow> run_id \<Rightarrow> service_name \<Rightarrow> handle_id \<Rightarrow> watch_input list \<Rightarrow> watch_loop \<Rightarrow> app_state \<Rightarrow>
     watch_loop option \<times> app_state" where
  "watch_turns wo run_id service handle [] w st = (Some w, st)"
| "watch_turns wo run_id service handle (inp # inps) w st =
     (case watch_turn wo run_id service handle inp w st of
        (Some w1, st1) \<Rightarrow> watch_turns wo run_id service handle inps w1 st1
      | (None, st1) \<Rightarrow> (None, st1))"

section \<open>Facts\<close>

lemma persist_manifest_runs [simp]: "ap_runs (snd (persist_manifest wo run_id st)) = ap_runs st"
  by (simp add: persist_manifest_def write_daemon_state_def split: option.split sum.split)

lemma finish_with_response_runs [simp]: "ap_runs (snd (finish_with_response wo run_id st)) = ap_runs st"
  by (simp add: finish_with_response_def case_prod_beta split: sum.split)

lemma unit_call_runs [simp]: "ap_runs (snd (unit_call wo command st)) = ap_runs st"
  by (simp add: unit_call_def)

text \<open>What a service is to run, which its state does not touch.\<close>

definition plan_at :: "service_record \<Rightarrow> service_spec \<times> launch_plan" where
  "plan_at rcd = (sr_spec rcd, sr_launch rcd)"

lemma set_service_state_plan [simp]: "plan_at (snd (set_service_state now run_id service state rcd)) = plan_at rcd"
  by (simp add: set_service_state_def plan_at_def Let_def)

lemma runtime_plan [simp]:
  "plan_at (rcd\<lparr>sr_runtime := rt\<rparr>) = plan_at rcd" "plan_at (set_last_failure reason rcd) = plan_at rcd"
  by (simp_all add: plan_at_def set_last_failure_def)

lemma service_at_runs: "ap_runs st' = ap_runs st \<Longrightarrow> service_at st' = service_at st"
  by (simp add: service_at_def fun_eq_iff)

lemma recompute_services [simp]: "rr_services (snd (recompute_run_state run)) = rr_services run"
  by (simp add: recompute_run_state_def Let_def case_prod_beta)

text \<open>A restart leaves the launch plan of the service as it was.\<close>

lemma begin_restart_plan:
  "map_option plan_at (service_at (snd (with_run_state run_id (begin_restart now run_id service) st)) r s) =
   map_option plan_at (service_at st r s)"
  by (auto simp: with_run_state_eq service_at_def begin_restart_def case_prod_beta Let_def
      option.map_comp split: option.split)

lemma started_at_plan:
  "map_option plan_at (service_at (snd (with_run_state run_id (update_service service (set_started_at now) ()) st)) r s) =
   map_option plan_at (service_at st r s)"
  by (rule service_at_updated) (simp add: set_started_at_def)

lemma restart_no_wait_plan:
  "map_option plan_at (service_at (snd (restart_service_no_wait wo run_id service st)) r s) =
   map_option plan_at (service_at st r s)"
proof -
  let ?st1 = "snd (with_run_state run_id (begin_restart (wo_now wo) run_id service) st)"
  have same: "service_at st' r s = service_at st'' r s" if "ap_runs st' = ap_runs st''" for st' st''
    by (rule fun_cong [OF fun_cong [OF service_at_runs [OF that]]])
  have emitted: "map_option plan_at (service_at (emit_events es ?st1) r s) = map_option plan_at (service_at st r s)" for es
    using begin_restart_plan [of run_id "wo_now wo" service st r s] by (simp add: same [of "emit_events es ?st1" ?st1])
  have called: "map_option plan_at (service_at (snd (unit_call wo c (emit_events es ?st1))) r s) =
      map_option plan_at (service_at st r s)" for c es
    using emitted [of es] by (simp add: same [of "snd (unit_call wo c (emit_events es ?st1))" "emit_events es ?st1"])
  have started: "map_option plan_at (service_at (snd (with_run_state run_id
        (update_service service (set_started_at (wo_now wo)) ()) (snd (unit_call wo c (emit_events es ?st1))))) r s) =
      map_option plan_at (service_at st r s)" for c es
    unfolding started_at_plan by (rule called)
  have finished: "service_at (snd (finish_with_response wo run_id st')) r s = service_at st' r s"
    and background: "service_at (st'\<lparr>ap_background := b\<rparr>) r s = service_at st' r s" for st' b
    by (rule same; simp)+
  show ?thesis
    using begin_restart_plan [of run_id "wo_now wo" service st r s] emitted called started
    by (auto simp: restart_service_no_wait_def restart_service_inner_def case_prod_beta Let_def finished background
        split: sum.split)
qed

lemma restart_no_wait_units:
  assumes "service_at st run_id service = Some rcd"
  shows "ap_units (snd (restart_service_no_wait wo run_id service st)) \<in>
    {ap_units st, ap_units st @ [Unit_Restart (lp_unit_name (sr_launch rcd))]}"
proof -
  obtain run where run: "map_of (ap_runs st) run_id = Some run" "map_of (rr_services run) service = Some rcd"
    using assms by (auto simp: service_at_def bind_eq_Some_conv)
  have unit: "rs_unit_name (snapshot_of_record run' rcd') = lp_unit_name (sr_launch rcd')" for run' rcd'
    by (simp add: snapshot_of_record_def)
  show ?thesis
    using run
    by (auto simp: restart_service_no_wait_def restart_service_inner_def with_run_state_eq begin_restart_def unit
        unit_call_def set_last_failure_def case_prod_beta Let_def split: sum.split)
qed

lemma set_paused_runs [simp]: "ap_runs (set_paused h b st) = ap_runs st"
  by (simp add: set_paused_def split: option.split)

lemma set_paused_units [simp]: "ap_units (set_paused h b st) = ap_units st"
  by (simp add: set_paused_def split: option.split)

text \<open>The critical section restarts the service only for a hash that is new, and records it.\<close>

lemma watch_changed_effect:
  assumes "service_at st run_id service = Some rcd" and "watch_changed wo run_id service handle h st = (go, st')"
  shows "\<exists>rcd'. service_at st' run_id service = Some rcd' \<and> sr_spec rcd' = sr_spec rcd \<and>
    lp_unit_name (sr_launch rcd') = lp_unit_name (sr_launch rcd) \<and>
    (if ss_auto_restart (sr_spec rcd) \<and> \<not> rt_watch_paused (sr_runtime rcd) \<and> lp_watch_hash (sr_launch rcd) \<noteq> h
     then lp_watch_hash (sr_launch rcd') = h \<and>
       ap_units st' \<in> {ap_units st, ap_units st @ [Unit_Restart (lp_unit_name (sr_launch rcd))]}
     else sr_launch rcd' = sr_launch rcd \<and> ap_units st' = ap_units st)"
proof -
  obtain run where run: "map_of (ap_runs st) run_id = Some run" "map_of (rr_services run) service = Some rcd"
    using assms(1) by (auto simp: service_at_def bind_eq_Some_conv)
  let ?rcd1 = "snd (fire_watch h rcd)"
  let ?st1 = "snd (with_run_state run_id (update_service service (fire_watch h) None) st)"
  let ?st2 = "set_paused (Some handle) (rt_watch_paused (sr_runtime rcd)) ?st1"
  have at1: "service_at ?st1 run_id service = Some ?rcd1"
    using run by (simp add: with_run_state_eq update_service_eq service_at_def case_prod_beta Let_def)
  then have at2: "service_at ?st2 run_id service = Some ?rcd1" by (simp add: service_at_def)
  show ?thesis
  proof (cases "ss_auto_restart (sr_spec rcd) \<and> \<not> rt_watch_paused (sr_runtime rcd) \<and> lp_watch_hash (sr_launch rcd) \<noteq> h")
    case True
    have st': "st' = snd (restart_service_no_wait wo run_id service ?st2)"
      using assms(2) run True
      by (auto simp: watch_changed_def with_run_state_eq update_service_eq fire_watch_def case_prod_beta Let_def)
    obtain rcd' where rcd': "service_at st' run_id service = Some rcd'" "plan_at rcd' = plan_at ?rcd1"
      using restart_no_wait_plan [of wo run_id service ?st2 run_id service] at2 st' by auto
    have "ap_units st' \<in> {ap_units st, ap_units st @ [Unit_Restart (lp_unit_name (sr_launch rcd))]}"
      using restart_no_wait_units [OF at2, of wo] True unfolding st' by (auto simp: fire_watch_def Let_def)
    then show ?thesis using rcd' True by (intro exI [of _ rcd']) (auto simp: plan_at_def fire_watch_def Let_def)
  next
    case False
    then have st': "st' = ?st2" and "?rcd1 = rcd"
      using assms(2) run
      by (auto simp: watch_changed_def with_run_state_eq update_service_eq fire_watch_def case_prod_beta Let_def)
    then show ?thesis using at2 False by (intro exI [of _ rcd]) auto
  qed
qed

lemma watch_turn_effect:
  assumes "service_at st run_id service = Some rcd" and "watch_turn wo run_id service handle inp w st = (r, st')"
  shows "st' = st \<or> (\<exists>h go w1. wi_hash inp = Inr h \<and> watch_changed wo run_id service handle h st = (go, st') \<and>
    handle \<notin> set (ap_stopped st) \<and> map_of (ap_paused st) handle \<noteq> Some True \<and> watch_listen inp w = Some w1 \<and> watch_settled inp w1)"
  using assms(2) by (auto simp: watch_turn_def watch_round_def Let_def split: if_splits option.splits sum.splits prod.splits bool.splits)

text \<open>
  The debounce: the turn acts only when its events have been quiet for half a second, on a watcher that is
  neither stopped nor paused.
\<close>

lemma restart_needs_quiet:
  assumes "service_at st run_id service = Some rcd" and "watch_turn wo run_id service handle inp w st = (r, st')"
    and "ap_units st' \<noteq> ap_units st"
  shows "handle \<notin> set (ap_stopped st) \<and> map_of (ap_paused st) handle \<noteq> Some True \<and>
    (\<exists>w1. watch_listen inp w = Some w1 \<and> wl_pending w1 \<and> wl_last_event_at w1 + 500 \<le> wi_checked_at inp)"
proof -
  obtain h go w1 where "handle \<notin> set (ap_stopped st)" "map_of (ap_paused st) handle \<noteq> Some True"
      "watch_listen inp w = Some w1" "watch_settled inp w1"
    using watch_turn_effect [OF assms(1,2)] assms(3) by auto
  then show ?thesis by (auto simp: watch_settled_def)
qed

text \<open>
  C29. However many turns of a watcher see the same contents of the files, they restart the service at
  most once, by its own unit, and not at all when these are the contents it was last started with or when
  it does not restart itself.
\<close>

theorem watcher_restarts_once_per_change:
  assumes "service_at st run_id service = Some rcd" and "\<forall>inp \<in> set inps. \<forall>h'. wi_hash inp = Inr h' \<longrightarrow> h' = h"
    and "watch_turns wo run_id service handle inps w st = (r, st')"
  shows "ap_units st' = ap_units st \<or>
    h \<noteq> lp_watch_hash (sr_launch rcd) \<and> ss_auto_restart (sr_spec rcd) \<and>
    ap_units st' = ap_units st @ [Unit_Restart (lp_unit_name (sr_launch rcd))]"
  using assms
proof (induction inps arbitrary: w st rcd)
  case (Cons inp inps)
  obtain r1 st1 where turn: "watch_turn wo run_id service handle inp w st = (r1, st1)" by fastforce
  have rest: "st' = st1 \<or> (\<exists>w1. watch_turns wo run_id service handle inps w1 st1 = (r, st'))"
    using Cons.prems(3) turn by (auto split: option.splits)
  have same: "\<forall>inp \<in> set inps. \<forall>h'. wi_hash inp = Inr h' \<longrightarrow> h' = h" using Cons.prems(2) by simp
  show ?case
  proof (cases "st1 = st")
    case True
    then show ?thesis using rest Cons.IH [OF Cons.prems(1) same] by auto
  next
    case False
    then obtain go where "watch_changed wo run_id service handle h st = (go, st1)"
      using watch_turn_effect [OF Cons.prems(1) turn] Cons.prems(2) by auto
    from watch_changed_effect [OF Cons.prems(1) this] obtain rcd1 where
      rcd1: "service_at st1 run_id service = Some rcd1" "sr_spec rcd1 = sr_spec rcd"
        "lp_unit_name (sr_launch rcd1) = lp_unit_name (sr_launch rcd)"
        "if ss_auto_restart (sr_spec rcd) \<and> \<not> rt_watch_paused (sr_runtime rcd) \<and> lp_watch_hash (sr_launch rcd) \<noteq> h
         then lp_watch_hash (sr_launch rcd1) = h \<and>
           ap_units st1 \<in> {ap_units st, ap_units st @ [Unit_Restart (lp_unit_name (sr_launch rcd))]}
         else sr_launch rcd1 = sr_launch rcd \<and> ap_units st1 = ap_units st"
      by blast
    show ?thesis
    proof (cases "\<exists>w1. watch_turns wo run_id service handle inps w1 st1 = (r, st')")
      case True
      then obtain w1 where "watch_turns wo run_id service handle inps w1 st1 = (r, st')" by blast
      from Cons.IH [OF rcd1(1) same this] show ?thesis using rcd1(2-4) by (auto split: if_splits)
    next
      case False
      then show ?thesis using rest rcd1(4) by (auto split: if_splits)
    qed
  qed
qed simp

definition watched_state :: app_state where
  "watched_state = (example_state (api_run\<lparr>rr_services := [(''api'', watched_record)]\<rparr>))"

definition edited :: "nat \<Rightarrow> watch_input" where
  "edited t = \<lparr>wi_poll = Poll_Event Notify_Modify, wi_polled_at = t, wi_checked_at = t, wi_hash = Inr ''new''\<rparr>"

definition quiet :: "nat \<Rightarrow> watch_input" where
  "quiet t = \<lparr>wi_poll = Poll_Timeout, wi_polled_at = t, wi_checked_at = t, wi_hash = Inr ''new''\<rparr>"

text \<open>Without a snapshot of the configuration there are no post-init tasks, and the unit is restarted.\<close>

lemma restart_no_wait_commands:
  assumes "service_at st run_id service = Some rcd" and "run_snapshot_path (wo_paths wo) run_id = Inr path" and "\<not> wo_exists wo path"
  shows "ap_units (snd (restart_service_no_wait wo run_id service st)) =
    ap_units st @ [Unit_Restart (lp_unit_name (sr_launch rcd))]"
proof -
  obtain run where run: "map_of (ap_runs st) run_id = Some run" "map_of (rr_services run) service = Some rcd"
    using assms(1) by (auto simp: service_at_def bind_eq_Some_conv)
  have unit: "rs_unit_name (snapshot_of_record run' rcd') = lp_unit_name (sr_launch rcd')" for run' rcd'
    by (simp add: snapshot_of_record_def)
  show ?thesis
    using run assms(2,3)
    by (auto simp: restart_service_no_wait_def restart_service_inner_def with_run_state_eq begin_restart_def unit
        load_post_init_context_for_run_service_def unit_call_def set_last_failure_def case_prod_beta Let_def split: sum.split)
qed

lemma edit_restarts:
  "ap_units (snd (watch_turns example_world ''r1'' ''api'' 4 [edited 100, quiet 600] (new_watch_loop 0) watched_state)) =
     [Unit_Restart (lp_unit_name (sr_launch watched_record))]"
proof -
  have stopped: "ap_stopped watched_state = []" "ap_paused watched_state = []" "ap_units watched_state = []"
    by (simp_all add: watched_state_def example_state_def)
  let ?st1 = "snd (with_run_state ''r1'' (update_service ''api'' (fire_watch ''new'') None) watched_state)"
  let ?st2 = "set_paused (Some 4) False ?st1"
  have runs: "map_of (ap_runs watched_state) ''r1'' = Some (api_run\<lparr>rr_services := [(''api'', watched_record)]\<rparr>)"
    by (simp add: watched_state_def example_state_def api_run_def new_run_record_def)
  have fired: "fire_watch ''new'' watched_record =
      (Some (False, True), watched_record\<lparr>sr_launch := (sr_launch watched_record)\<lparr>lp_watch_hash := ''new''\<rparr>\<rparr>)"
    by (simp add: fire_watch_def watched_record_def example_record_def)
  have at: "service_at ?st2 ''r1'' ''api'' = Some (snd (fire_watch ''new'' watched_record))"
    using runs by (simp add: with_run_state_eq update_service_eq service_at_def case_prod_beta Let_def)
  have path: "run_snapshot_path (wo_paths example_world) ''r1'' = Inr ''/data/runs/r1/devstack.yml.snapshot''" by code_simp
  have "watch_changed example_world ''r1'' ''api'' 4 ''new'' watched_state =
      (True, snd (restart_service_no_wait example_world ''r1'' ''api'' ?st2))"
    by (simp add: watch_changed_def with_run_state_eq update_service_eq runs fired)
  then have "watch_turns example_world ''r1'' ''api'' 4 [edited 100, quiet 600] (new_watch_loop 0) watched_state =
      (Some \<lparr>wl_pending = False, wl_last_event_at = 100\<rparr>, snd (restart_service_no_wait example_world ''r1'' ''api'' ?st2))"
    by (simp add: stopped watch_turn_def watch_round_def watch_listen_def watch_settled_def quiet_def edited_def new_watch_loop_def is_change_def)
  then show ?thesis
    using restart_no_wait_commands [OF at path] stopped
    by (simp add: fired example_world_def)
qed

theorem watcher_restarts_once_per_change_witness:
  "length (ap_units (snd (watch_turns example_world ''r1'' ''api'' 4 [edited 100, quiet 600, edited 700, quiet 1300]
     (new_watch_loop 0) watched_state))) \<le> 1"
proof -
  let ?inps = "[edited 100, quiet 600, edited 700, quiet 1300]"
  have at: "service_at watched_state ''r1'' ''api'' = Some watched_record" and none: "ap_units watched_state = []"
    by (simp_all add: service_at_def watched_state_def example_state_def api_run_def new_run_record_def)
  have same: "\<forall>inp \<in> set ?inps. \<forall>h'. wi_hash inp = Inr h' \<longrightarrow> h' = ''new''"
    by (simp add: edited_def quiet_def)
  obtain r st' where turns: "watch_turns example_world ''r1'' ''api'' 4 ?inps (new_watch_loop 0) watched_state = (r, st')"
    by fastforce
  show ?thesis using watcher_restarts_once_per_change [OF at same turns] none unfolding turns by auto
qed

end
