(* ===== verification/Globals.thy ===== *)
theory Globals
  imports Watcher Restore
begin

text \<open>
  Services shared by the runs of a project: \<open>src/src/app/commands/ensure_globals.rs\<close>, the watcher of a
  global in \<open>src/src/app/launch/watch.rs\<close>, its manifest and the reservations read back from the
  manifests in \<open>src/src/app/runtime.rs\<close>. The state adds to that of the handlers the manifests of globals
  written by the daemon, the configurations it kept of its runs, the ports the system is still to offer, and
  the background waits.
\<close>

section \<open>State\<close>

record gapp =
  ga_app :: app_state
  ga_written :: "(string, persisted_global) bmap"
  ga_snapshots :: "(string, string) bmap"
  ga_answers :: "u16 result list"
  ga_waiting :: "(string \<times> prepared_service \<times> post_init_context option) list"

text \<open>\<open>gw_waits\<close> answers for \<open>wait_for_prepared_service\<close>; \<open>gw_mkdir\<close> for \<open>create_dir_all\<close>.\<close>

record gworld =
  gw_world :: world
  gw_prepare :: prepare_env
  gw_disk :: disk
  gw_mkdir :: "string \<Rightarrow> string option"
  gw_waits :: "service_name \<Rightarrow> prepared_service \<Rightarrow> post_init_context option \<Rightarrow> unit result"

definition on_app :: "(app_state \<Rightarrow> 'a \<times> app_state) \<Rightarrow> gapp \<Rightarrow> 'a \<times> gapp" where
  "on_app f ga = (let (r, st) = f (ga_app ga) in (r, ga\<lparr>ga_app := st\<rparr>))"

definition app_do :: "(app_state \<Rightarrow> app_state) \<Rightarrow> gapp \<Rightarrow> gapp" where
  "app_do f ga = ga\<lparr>ga_app := f (ga_app ga)\<rparr>"

definition with_global_state :: "string \<Rightarrow> (global_record \<Rightarrow> 'a \<times> global_record) \<Rightarrow> gapp \<Rightarrow> 'a result \<times> gapp" where
  "with_global_state key f =
     on_app (\<lambda>st. let (r, globals) = with_global_mut key f (ap_globals st) in (r, st\<lparr>ap_globals := globals\<rparr>))"

definition on_service :: "(service_record \<Rightarrow> 'a \<times> service_record) \<Rightarrow> global_record \<Rightarrow> 'a \<times> global_record" where
  "on_service f global = (let (r, service) = f (gr_service global) in (r, global\<lparr>gr_service := service\<rparr>))"

text \<open>The manifest of a global: what the daemon wrote last, else what is on disk.\<close>

definition existing_manifest :: "gworld \<Rightarrow> string \<Rightarrow> gapp \<Rightarrow> persisted_global option" where
  "existing_manifest gw path ga =
     (case map_of (ga_written ga) path of
        Some manifest \<Rightarrow> Some manifest
      | None \<Rightarrow>
          if dk_exists (gw_disk gw) path
          then (case load_global_at (wo_paths (gw_world gw)) (gw_disk gw) path of
                  Inr manifest \<Rightarrow> Some manifest
                | Inl _ \<Rightarrow> None)
          else None)"

section \<open>Manifests\<close>

definition persisted_global_from_record :: "global_record \<Rightarrow> string \<Rightarrow> persisted_global" where
  "persisted_global_from_record global path =
     \<lparr>pg_key = gr_key global, pg_name = gr_name global, pg_project_dir = gr_project_dir global,
      pg_config_path = gr_config_path global, pg_manifest_path = path,
      pg_service = persisted_service_of (gr_service global), pg_env = lp_env (sr_launch (gr_service global)),
      pg_state = gr_state global, pg_created_at = gr_created_at global, pg_stopped_at = gr_stopped_at global\<rparr>"

definition global_not_found :: "string \<Rightarrow> string" where
  "global_not_found key = ''global '' @ key @ '' not found''"

definition persist_global_manifest :: "gworld \<Rightarrow> string \<Rightarrow> gapp \<Rightarrow> unit result \<times> gapp" where
  "persist_global_manifest gw key ga =
     (case get_global key (ap_globals (ga_app ga)) of
        None \<Rightarrow> (Inl (global_not_found key), ga)
      | Some global \<Rightarrow>
          (case global_manifest_path (wo_paths (gw_world gw)) (gr_project_dir global) (gr_name global) of
             Inl e \<Rightarrow> (Inl (panicked e), ga)
           | Inr path \<Rightarrow>
               (case wo_write (gw_world gw) path of
                  Some e \<Rightarrow> (Inl e, ga)
                | None \<Rightarrow>
                    (Inr (), ga\<lparr>ga_written := bm_insert path (persisted_global_from_record global path) (ga_written ga)\<rparr>))))"

text \<open>Reservations are made again for every manifest that may be restored.\<close>

fun reserve_each :: "port_os \<Rightarrow> (u16 \<times> string) list \<Rightarrow> reg_file \<Rightarrow> unit result \<times> reg_file" where
  "reserve_each os [] file = (Inr (), file)"
| "reserve_each os ((port, owner) # ports) file =
     (case reserve_port os port owner file of
        (Inl e, file') \<Rightarrow> (Inl e, file')
      | (Inr _, file') \<Rightarrow> reserve_each os ports file')"

definition service_reservations :: "string \<Rightarrow> string \<Rightarrow> persisted_service \<Rightarrow> (u16 \<times> string) list" where
  "service_reservations run_id service saved =
     (case pe_port saved of None \<Rightarrow> [] | Some port \<Rightarrow> [(port, port_owner run_id service)]) @
     (case pe_listen_port saved of
        None \<Rightarrow> []
      | Some listen_port \<Rightarrow>
          if pe_capture_api saved \<and> Some listen_port \<noteq> pe_port saved
          then [(listen_port, capture_backend_port_owner run_id service)] else [])"

definition run_reservations :: "disk \<Rightarrow> string \<Rightarrow> (u16 \<times> string) list" where
  "run_reservations dk dir =
     (let path = path_join dir ''manifest.json'' in
      if \<not> dk_exists dk path then []
      else (case load_run_manifest (dk_reader dk) path of
              Inl _ \<Rightarrow> []
            | Inr manifest \<Rightarrow>
                if \<not> run_manifest_is_restorable (dk_exists dk) manifest then []
                else concat (map (\<lambda>(service, saved). service_reservations (pr_run_id manifest) service saved)
                               (pr_services manifest))))"

definition global_reservations :: "path_env \<Rightarrow> disk \<Rightarrow> string \<Rightarrow> (u16 \<times> string) list" where
  "global_reservations pe dk dir =
     (let path = path_join dir ''manifest.json'' in
      if \<not> dk_exists dk path then []
      else (case load_global_at pe dk path of
              Inl _ \<Rightarrow> []
            | Inr manifest \<Rightarrow>
                if \<not> global_manifest_is_restorable (dk_exists dk) manifest then []
                else (case pe_port (pg_service manifest) of
                        None \<Rightarrow> []
                      | Some port \<Rightarrow> [(port, global_port_owner (pg_key manifest) (pg_name manifest))])))"

fun reserve_entries ::
  "port_os \<Rightarrow> (string \<Rightarrow> (u16 \<times> string) list) \<Rightarrow> string result list \<Rightarrow> reg_file \<Rightarrow> unit result \<times> reg_file" where
  "reserve_entries os reservations [] file = (Inr (), file)"
| "reserve_entries os reservations (Inl e # entries) file = (Inl e, file)"
| "reserve_entries os reservations (Inr dir # entries) file =
     (case reserve_each os (reservations dir) file of
        (Inl e, file') \<Rightarrow> (Inl e, file')
      | (Inr _, file') \<Rightarrow> reserve_entries os reservations entries file')"

definition reserve_directory ::
  "port_os \<Rightarrow> disk \<Rightarrow> string result \<Rightarrow> (string \<Rightarrow> (u16 \<times> string) list) \<Rightarrow> reg_file \<Rightarrow> unit result \<times> reg_file" where
  "reserve_directory os dk root reservations file =
     (case root of
        Inl e \<Rightarrow> (Inl e, file)
      | Inr dir \<Rightarrow>
          if \<not> dk_exists dk dir then (Inr (), file)
          else (case dk_list dk dir of
                  Inl e \<Rightarrow> (Inl e, file)
                | Inr entries \<Rightarrow> reserve_entries os reservations entries file))"

definition sync_port_reservations_from_disk :: "path_env \<Rightarrow> port_os \<Rightarrow> disk \<Rightarrow> reg_file \<Rightarrow> unit result \<times> reg_file" where
  "sync_port_reservations_from_disk pe os dk file =
     (case reserve_directory os dk (runs_dir pe) (run_reservations dk) file of
        (Inl e, file') \<Rightarrow> (Inl e, file')
      | (Inr _, file') \<Rightarrow> reserve_directory os dk (globals_root pe) (global_reservations pe dk) file')"

section \<open>The watcher of a global\<close>

definition finish_global_watch :: "string \<Rightarrow> handle_id \<Rightarrow> gapp \<Rightarrow> gapp" where
  "finish_global_watch key handle ga =
     (case with_global_state key (on_service (install_watch handle)) ga of
        (Inr (Some paused), ga1) \<Rightarrow> app_do (set_paused (Some handle) paused) ga1
      | (_, ga1) \<Rightarrow> app_do (raise_flags [handle]) ga1)"

definition sync_global_auto_restart_watcher :: "gworld \<Rightarrow> string \<Rightarrow> gapp \<Rightarrow> unit result \<times> gapp" where
  "sync_global_auto_restart_watcher gw key ga =
     (case with_global_state key (\<lambda>global. let (d, global') = on_service decide_watch global in ((d, gr_name global), global')) ga of
        (Inr (Watch_Stop stopped, _), ga1) \<Rightarrow> (Inr (), app_do (raise_flags stopped) ga1)
      | (Inr (Watch_Keep h paused, _), ga1) \<Rightarrow> (Inr (), app_do (set_paused (Some h) paused) ga1)
      | (Inr (Watch_Start paused, name), ga1) \<Rightarrow>
          (case wo_watcher (gw_world gw) key name of
             Inl e \<Rightarrow> (Inl e, ga1)
           | Inr _ \<Rightarrow>
               (let (handle, ga2) = on_app new_handle ga1 in
                (Inr (), finish_global_watch key handle (app_do (set_paused (Some handle) paused) ga2))))
      | (_, ga1) \<Rightarrow> (Inr (), ga1))"

section \<open>Preparing a global\<close>

definition resolve_global_port ::
  "port_os \<Rightarrow> string \<Rightarrow> service_config \<Rightarrow> string \<Rightarrow> persisted_global option \<Rightarrow> bool \<Rightarrow> u16 result list \<Rightarrow>
     reg_file \<Rightarrow> ((u16 option \<times> u16 result list) result \<times> reg_file) option" where
  "resolve_global_port os name service owner existing active_existing answers file =
     (let reuse_port = Option.bind existing (\<lambda>manifest. pe_port (pg_service manifest)) in
      case sc_port service of
        Some (Port_Fixed value) \<Rightarrow>
          (case (if active_existing \<and> reuse_port = Some value then reserve_port os value owner file
                 else reserve_available_port os value owner file) of
             (Inl e, file') \<Rightarrow> Some (Inl e, file')
           | (Inr _, file') \<Rightarrow> Some (Inr (Some value, answers), file'))
      | Some (Port_None _) \<Rightarrow> Some (Inr (None, answers), file)
      | None \<Rightarrow>
          (case reuse_port of
             Some port \<Rightarrow>
               (case reserve_port os port owner file of
                  (Inl e, file') \<Rightarrow> Some (Inl e, file')
                | (Inr _, file') \<Rightarrow> Some (Inr (Some port, answers), file'))
           | None \<Rightarrow>
               (case allocate_ports os [(name, service)] (\<lambda>_. owner) answers file of
                  None \<Rightarrow> None
                | Some (Inl e, file') \<Rightarrow> Some (Inl e, file')
                | Some (Inr (allocated, rest), file') \<Rightarrow>
                    Some (Inr (unwrap_or (map_of allocated name) None, rest), file'))))"

definition prepare_global_service ::
  "prepare_env \<Rightarrow> string \<Rightarrow> string \<Rightarrow> service_config \<Rightarrow> string \<Rightarrow> string \<Rightarrow> u16 option \<Rightarrow> prepared_service result" where
  "prepare_global_service pv key name service_config project_dir config_dir port =
     (let scope = Scope_Global key project_dir name;
          port_map = [(name, port)];
          schemes = [(name, svc_scheme service_config)];
          base_env = build_base_env scope project_dir port_map port_map schemes in
      prepare_service pv scope project_dir config_dir name service_config port_map port_map schemes base_env [] None)"

definition build_global_record ::
  "string \<Rightarrow> string \<Rightarrow> string \<Rightarrow> string \<Rightarrow> service_config \<Rightarrow> (string, task_config) bmap \<Rightarrow> prepared_service \<Rightarrow>
     service_state \<Rightarrow> string option \<Rightarrow> string option \<Rightarrow> bool \<Rightarrow> run_lifecycle \<Rightarrow> string \<Rightarrow> string option \<Rightarrow> global_record" where
  "build_global_record key name project_dir config_path service_config tasks_map p state last_failure
      last_started_at watch_paused lifecycle created_at stopped_at =
     (let service = into_service_record p state last_failure last_started_at in
      \<lparr>gr_key = key, gr_name = name, gr_project_dir = project_dir, gr_config_path = config_path,
       gr_service_config = service_config, gr_tasks_map = tasks_map,
       gr_service = service\<lparr>sr_runtime := (sr_runtime service)\<lparr>rt_watch_paused := watch_paused\<rparr>\<rparr>,
       gr_state = lifecycle, gr_created_at = created_at, gr_stopped_at = stopped_at\<rparr>)"

definition upsert_global_state :: "global_record \<Rightarrow> app_state \<Rightarrow> app_state" where
  "upsert_global_state global st =
     (let (stopped, globals) = upsert_global global (ap_globals st) in
      raise_flags stopped (st\<lparr>ap_globals := globals\<rparr>))"

section \<open>Ensuring the globals\<close>

text \<open>The parameters of the command, which are the same for every global.\<close>

record global_request =
  gq_tasks_map :: "(string, task_config) bmap"
  gq_project_dir :: string
  gq_config_path :: string
  gq_config_dir :: string

definition quote_name :: "string \<Rightarrow> string" where
  "quote_name name = [CHR 0x27] @ name @ [CHR 0x27]"

text \<open>How a global that was not running came up: its state, the state of the global, its failure and its start.\<close>

record global_outcome =
  go_state :: service_state
  go_lifecycle :: run_lifecycle
  go_last_failure :: "string option"
  go_last_started_at :: "string option"

definition start_global ::
  "gworld \<Rightarrow> global_request \<Rightarrow> string \<Rightarrow> string \<Rightarrow> service_config \<Rightarrow> prepared_service \<Rightarrow> gapp \<Rightarrow> global_outcome \<times> gapp" where
  "start_global gw gq key name service_config p ga =
     (let started = \<lparr>go_state = Sv_Ready, go_lifecycle = Run_Running, go_last_failure = None,
                     go_last_started_at = Some (wo_now (gw_world gw))\<rparr>;
          failed = (\<lambda>message. \<lparr>go_state = Sv_Failed, go_lifecycle = Run_Degraded, go_last_failure = Some message,
                     go_last_started_at = None\<rparr>) in
      case on_app (start_prepared_service (gw_world gw) (Scope_Global key (gq_project_dir gq) name) p False) ga of
        (Inl _, ga1) \<Rightarrow> (failed (''start global service '' @ quote_name name), ga1)
      | (Inr _, ga1) \<Rightarrow>
          (case gw_waits gw name p (build_post_init_context service_config (gq_tasks_map gq) (gq_project_dir gq) None
                  (ps_env p) None) of
             Inl _ \<Rightarrow> (failed (''launch global service '' @ quote_name name), ga1)
           | Inr _ \<Rightarrow> (started, ga1)))"

text \<open>A unit that is active is taken over as it is; its manifest gives its start and its pause.\<close>

definition adopt_global :: "gworld \<Rightarrow> persisted_global option \<Rightarrow> global_outcome \<times> bool" where
  "adopt_global gw existing =
     (\<lparr>go_state = Sv_Ready, go_lifecycle = Run_Running, go_last_failure = None,
       go_last_started_at =
         opt_or (Option.bind existing (\<lambda>manifest. pe_last_started_at (pg_service manifest))) (Some (wo_now (gw_world gw)))\<rparr>,
      (case existing of Some manifest \<Rightarrow> pe_watch_paused (pg_service manifest) | None \<Rightarrow> False))"

definition store_global ::
  "gworld \<Rightarrow> string \<Rightarrow> global_record \<Rightarrow> gapp \<Rightarrow> unit result \<times> gapp" where
  "store_global gw key global ga =
     (case persist_global_manifest gw key (app_do (upsert_global_state global) ga) of
        (Inl e, ga1) \<Rightarrow> (Inl e, ga1)
      | (Inr _, ga1) \<Rightarrow> sync_global_auto_restart_watcher gw key ga1)"

definition emit_global_change :: "string \<Rightarrow> run_lifecycle option \<Rightarrow> run_lifecycle \<Rightarrow> gapp \<Rightarrow> gapp" where
  "emit_global_change key previous state ga =
     (if previous \<noteq> Some state then app_do (emit_events [global_state_changed_event key state]) ga else ga)"

definition bring_up_global ::
  "gworld \<Rightarrow> global_request \<Rightarrow> string \<Rightarrow> string \<Rightarrow> service_config \<Rightarrow> persisted_global option \<Rightarrow> bool \<Rightarrow>
     prepared_service \<Rightarrow> gapp \<Rightarrow> (global_outcome \<times> bool) \<times> gapp" where
  "bring_up_global gw gq key name service_config existing active_existing p ga =
     (if active_existing then (adopt_global gw existing, ga)
      else (let (outcome, ga1) = start_global gw gq key name service_config p ga in ((outcome, False), ga1)))"

definition launch_global ::
  "gworld \<Rightarrow> global_request \<Rightarrow> string \<Rightarrow> string \<Rightarrow> service_config \<Rightarrow> persisted_global option \<Rightarrow> bool \<Rightarrow>
     prepared_service \<Rightarrow> gapp \<Rightarrow> u16 option result \<times> gapp" where
  "launch_global gw gq key name service_config existing active_existing p ga =
     (let created_at = (case existing of Some manifest \<Rightarrow> pg_created_at manifest | None \<Rightarrow> wo_now (gw_world gw));
          ((outcome, paused), ga1) = bring_up_global gw gq key name service_config existing active_existing p ga;
          global = build_global_record key name (gq_project_dir gq) (gq_config_path gq) service_config (gq_tasks_map gq)
                     p (go_state outcome) (go_last_failure outcome) (go_last_started_at outcome) paused
                     (go_lifecycle outcome) created_at None in
      case store_global gw key global ga1 of
        (Inl e, ga2) \<Rightarrow> (Inl e, ga2)
      | (Inr _, ga2) \<Rightarrow>
          (let ga3 = emit_global_change key (map_option pg_state existing) (go_lifecycle outcome) ga2 in
           (case go_last_failure outcome of
              Some failure \<Rightarrow> (Inl failure, ga3)
            | None \<Rightarrow> (Inr (ps_port p), ga3))))"

definition global_layout ::
  "gworld \<Rightarrow> string \<Rightarrow> string \<Rightarrow> (string \<times> string) result" where
  "global_layout gw project_dir name =
     (let pe = wo_paths (gw_world gw);
          mkdir = (\<lambda>path. case gw_mkdir gw path of Some e \<Rightarrow> Inl e | None \<Rightarrow> Inr ()) in
      rbind (global_dir pe project_dir name) (\<lambda>dir.
      rbind (mkdir dir) (\<lambda>_.
      rbind (global_logs_dir pe project_dir name) (\<lambda>logs.
      rbind (mkdir logs) (\<lambda>_.
      rbind (global_key pe project_dir name) (\<lambda>key.
      rbind (global_manifest_path pe project_dir name) (\<lambda>path. Inr (key, path))))))))"

text \<open>One global. \<open>None\<close>: the search for a port does not end.\<close>

definition ensure_global ::
  "gworld \<Rightarrow> global_request \<Rightarrow> string \<Rightarrow> service_config \<Rightarrow> gapp \<Rightarrow> (u16 option result \<times> gapp) option" where
  "ensure_global gw gq name service_config ga =
     (case global_layout gw (gq_project_dir gq) name of
        Inl e \<Rightarrow> Some (Inl e, ga)
      | Inr (key, manifest_path) \<Rightarrow>
          (let existing = existing_manifest gw manifest_path ga;
               status = wo_unit_status (gw_world gw) (ap_units (ga_app ga)) 0 (unit_name_for_global key name);
               active_existing = (case status of Inr (Some s) \<Rightarrow> us_active_state s = ''active'' | _ \<Rightarrow> False) in
           case resolve_global_port (wo_os (gw_world gw)) name service_config (global_port_owner key name) existing
                  active_existing (ga_answers ga) (ap_ports (ga_app ga)) of
             None \<Rightarrow> None
           | Some (Inl e, file) \<Rightarrow> Some (Inl e, app_do (\<lambda>st. st\<lparr>ap_ports := file\<rparr>) ga)
           | Some (Inr (port, answers), file) \<Rightarrow>
               (let ga1 = (app_do (\<lambda>st. st\<lparr>ap_ports := file\<rparr>) ga)\<lparr>ga_answers := answers\<rparr> in
                case prepare_global_service (gw_prepare gw) key name service_config (gq_project_dir gq)
                       (gq_config_dir gq) port of
                  Inl e \<Rightarrow> Some (Inl e, ga1)
                | Inr p \<Rightarrow>
                    Some (launch_global gw gq key name service_config existing active_existing p ga1))))"

fun ensure_globals ::
  "gworld \<Rightarrow> global_request \<Rightarrow> (string \<times> service_config) list \<Rightarrow> port_map \<Rightarrow> gapp \<Rightarrow> (port_map result \<times> gapp) option" where
  "ensure_globals gw gq [] ports ga = Some (Inr ports, ga)"
| "ensure_globals gw gq ((name, service_config) # globals) ports ga =
     (case ensure_global gw gq name service_config ga of
        None \<Rightarrow> None
      | Some (Inl e, ga1) \<Rightarrow> Some (Inl e, ga1)
      | Some (Inr port, ga1) \<Rightarrow> ensure_globals gw gq globals (bm_insert name port ports) ga1)"

section \<open>Restarting a global\<close>

definition prepared_service_from_global :: "global_record \<Rightarrow> prepared_service" where
  "prepared_service_from_global global =
     (let spec = sr_spec (gr_service global); launch = sr_launch (gr_service global) in
      \<lparr>ps_name = ss_name spec, ps_unit_name = lp_unit_name launch, ps_port = lp_port launch,
       ps_listen_port = lp_listen_port launch, ps_scheme = lp_scheme launch, ps_url = lp_url launch,
       ps_capture_api = lp_capture_api launch, ps_capture_api_body_limit = lp_capture_api_body_limit launch,
       ps_capture_api_ignore = lp_capture_api_ignore launch, ps_deps = ss_deps spec,
       ps_readiness = ss_readiness spec, ps_log_path = lp_log_path launch, ps_cwd = lp_cwd launch,
       ps_env = lp_env launch, ps_cmd = lp_cmd launch, ps_watch_hash = lp_watch_hash launch,
       ps_watch_patterns = ss_watch_patterns spec, ps_ignore_patterns = ss_ignore_patterns spec,
       ps_watch_extra_files = lp_watch_extra_files launch, ps_watch_fingerprint = lp_watch_fingerprint launch,
       ps_auto_restart = ss_auto_restart spec\<rparr>)"

definition begin_global_restart :: "string \<Rightarrow> global_record \<Rightarrow> global_record \<times> global_record" where
  "begin_global_restart now global =
     (let service = gr_service global;
          runtime = (sr_runtime service)\<lparr>rt_state := Sv_Starting, rt_last_failure := None, rt_last_started_at := Some now\<rparr>;
          global' = global\<lparr>gr_service := service\<lparr>sr_runtime := runtime\<rparr>, gr_state := Run_Starting\<rparr> in
      (global', global'))"

definition restart_global_no_wait :: "gworld \<Rightarrow> string \<Rightarrow> gapp \<Rightarrow> unit result \<times> gapp" where
  "restart_global_no_wait gw key ga =
     (case with_global_state key (begin_global_restart (wo_now (gw_world gw))) ga of
        (Inl e, ga1) \<Rightarrow> (Inl e, ga1)
      | (Inr global, ga1) \<Rightarrow>
          (let p = prepared_service_from_global global in
           case persist_global_manifest gw key ga1 of
             (Inl e, ga2) \<Rightarrow> (Inl e, ga2)
           | (Inr _, ga2) \<Rightarrow>
               (case on_app (unit_call (gw_world gw) (Unit_Restart (ps_unit_name p)))
                       (app_do (emit_events [global_state_changed_event key Run_Starting]) ga2) of
                  (Inl e, ga3) \<Rightarrow> (Inl e, ga3)
                | (Inr _, ga3) \<Rightarrow>
                    (Inr (), ga3\<lparr>ga_waiting := ga_waiting ga3 @
                       [(key, p, build_post_init_context (gr_service_config global) (gr_tasks_map global)
                           (gr_project_dir global) None (ps_env p) None)]\<rparr>))))"

text \<open>What the background task does with the answer of its wait.\<close>

definition finish_global_restart :: "unit result \<Rightarrow> global_record \<Rightarrow> unit \<times> global_record" where
  "finish_global_restart waited global =
     (let service = gr_service global;
          (state, failure, lifecycle) =
            (case waited of
               Inr _ \<Rightarrow> (Sv_Ready, None, Run_Running)
             | Inl err \<Rightarrow> (Sv_Failed, Some err, Run_Degraded)) in
      ((), global\<lparr>gr_service := service\<lparr>sr_runtime := (sr_runtime service)\<lparr>rt_state := state, rt_last_failure := failure\<rparr>\<rparr>,
                  gr_state := lifecycle\<rparr>))"

definition global_restart_done :: "gworld \<Rightarrow> unit result \<Rightarrow> string \<Rightarrow> gapp \<Rightarrow> gapp" where
  "global_restart_done gw waited key ga =
     (let ga1 = snd (with_global_state key (finish_global_restart waited) ga);
          ga2 = snd (persist_global_manifest gw key ga1) in
      case get_global key (ap_globals (ga_app ga2)) of
        Some global \<Rightarrow> app_do (emit_events [global_state_changed_event key (gr_state global)]) ga2
      | None \<Rightarrow> ga2)"

text \<open>The critical section of the watcher of a global, and what follows it.\<close>

definition fire_global_watch :: "string \<Rightarrow> global_record \<Rightarrow> (bool \<times> bool) \<times> global_record" where
  "fire_global_watch next_hash global =
     (let service = gr_service global; paused = rt_watch_paused (sr_runtime service) in
      if \<not> ss_auto_restart (sr_spec service) \<or> paused \<or> lp_watch_hash (sr_launch service) = next_hash
      then ((paused, False), global)
      else ((paused, True),
            global\<lparr>gr_service := service\<lparr>sr_launch := (sr_launch service)\<lparr>lp_watch_hash := next_hash\<rparr>\<rparr>,
                   gr_state := Run_Starting\<rparr>))"

definition global_watch_changed :: "gworld \<Rightarrow> string \<Rightarrow> handle_id \<Rightarrow> string \<Rightarrow> gapp \<Rightarrow> bool \<times> gapp" where
  "global_watch_changed gw key handle next_hash ga =
     (case with_global_state key (fire_global_watch next_hash) ga of
        (Inl _, ga1) \<Rightarrow> (False, ga1)
      | (Inr (paused, should_restart), ga1) \<Rightarrow>
          (let ga2 = app_do (set_paused (Some handle) paused) ga1 in
           (True, if should_restart then snd (restart_global_no_wait gw key ga2) else ga2)))"

definition global_watch_turn ::
  "gworld \<Rightarrow> string \<Rightarrow> handle_id \<Rightarrow> watch_input \<Rightarrow> watch_loop \<Rightarrow> gapp \<Rightarrow> watch_loop option \<times> gapp" where
  "global_watch_turn gw key handle inp w ga =
     watch_round (handle \<in> set (ap_stopped (ga_app ga))) (map_of (ap_paused (ga_app ga)) handle = Some True)
       (global_watch_changed gw key handle) inp w ga"

section \<open>Ports of globals\<close>

text \<open>A step on the registry that gives a port to an owner, if at all, and takes none from anybody.\<close>

definition keeps_holders :: "port_os \<Rightarrow> reg_file \<Rightarrow> reg_file \<Rightarrow> bool" where
  "keeps_holders os file file' \<longleftrightarrow> (\<forall>p. holder os file p \<noteq> None \<longrightarrow> holder os file' p = holder os file p)"

definition port_claimed :: "port_os \<Rightarrow> reg_file \<Rightarrow> reg_file \<Rightarrow> string \<Rightarrow> u16 option \<Rightarrow> bool" where
  "port_claimed os file file' owner port \<longleftrightarrow>
     registry_usable os file' \<and> keeps_holders os file file' \<and> (\<forall>p. port = Some p \<longrightarrow> holder os file' p = Some owner)"

lemma keeps_holders_refl [simp]: "keeps_holders os file file"
  by (simp add: keeps_holders_def)

lemma keeps_holders_trans: "keeps_holders os a b \<Longrightarrow> keeps_holders os b c \<Longrightarrow> keeps_holders os a c"
  by (simp add: keeps_holders_def)

lemma reserved_claimed:
  assumes "registry_usable os file'" and "holder os file p \<in> {None, Some owner}" and "holder os file' = (holder os file)(p \<mapsto> owner)"
  shows "port_claimed os file file' owner (Some p)"
  using assms by (auto simp: port_claimed_def keeps_holders_def)

lemma allocate_ports_granted:
  assumes "registry_usable os file" and "allocate_ports os services owner_for answers file = Some (Inr (allocated, rest), file')"
  shows "registry_usable os file' \<and> keeps_holders os file file' \<and> map fst allocated = map fst services \<and>
    (\<forall>n p. (n, Some p) \<in> set allocated \<longrightarrow> holder os file' p = Some (owner_for n))"
proof -
  have pid: "is_pid_alive os (os_pid os)" using assms(1) by (simp add: registry_usable_def)
  obtain reg where reg: "live_registry os reg" "holder os file = owners reg"
    and run: "\<And>action :: registry \<Rightarrow> (((string \<times> u16 option) list \<times> u16 result list) result \<times> registry) option.
        with_registry_loop os action file = map_option (commit file) (action reg)"
    using with_registry_loop_usable [OF assms(1)] by metis
  obtain reg' where loop: "allocate_loop os owner_for services answers reg = Some (Inr (allocated, rest), reg')"
    and file': "file' = Reg_Stored reg'"
    using assms(2) by (auto simp: allocate_ports_def run commit_eq_Inr)
  note ih = allocate_loop_Inr [OF loop reg(1) pid]
  show ?thesis
    using ih usable_stored [OF assms(1), of reg'] by (simp add: keeps_holders_def file' holder_stored reg(2))
qed

lemma allocate_ports_claimed:
  assumes "registry_usable os file"
    and "allocate_ports os [(name, service)] (\<lambda>_. owner) answers file = Some (Inr (allocated, rest), file')"
  shows "port_claimed os file file' owner (unwrap_or (map_of allocated name) None)"
proof -
  note granted = allocate_ports_granted [OF assms]
  then obtain port where "allocated = [(name, port)]" by (cases allocated) auto
  then show ?thesis using granted by (auto simp: port_claimed_def)
qed

text \<open>An operation that fails on a working registry leaves it alone.\<close>

lemma with_registry_loop_Inl:
  assumes "registry_usable os file" and "with_registry_loop os action file = Some (Inl e, file')"
  shows "file' = file"
proof -
  obtain reg where "with_registry_loop os action file = map_option (commit file) (action reg)"
    using with_registry_loop_usable [OF assms(1)] by metis
  then show ?thesis using assms(2) commit_eq_Inl by (metis map_option_eq_Some)
qed

lemma with_registry_Inl:
  assumes "registry_usable os file" and "with_registry os action file = (Inl e, file')"
  shows "file' = file"
proof -
  obtain reg where "with_registry os action file = commit file (action reg)"
    using with_registry_usable [OF assms(1)] by metis
  then show ?thesis using assms(2) commit_eq_Inl by metis
qed

lemma resolve_global_port_Inl:
  assumes "registry_usable os file" and "resolve_global_port os name service owner existing active answers file = Some (Inl e, file')"
  shows "file' = file"
  using assms(2)
  by (auto simp: resolve_global_port_def Let_def reserve_port_def reserve_available_port_def allocate_ports_def
      split: option.splits port_config.splits sum.splits prod.splits if_splits
      dest!: with_registry_loop_Inl [OF assms(1)] with_registry_Inl [OF assms(1)])

lemma resolve_global_port_claimed:
  assumes "registry_usable os file"
    and "resolve_global_port os name service owner existing active answers file = Some (Inr (port, rest), file')"
  shows "port_claimed os file file' owner port"
proof (cases "sc_port service")
  case None
  show ?thesis
  proof (cases "Option.bind existing (\<lambda>manifest. pe_port (pg_service manifest))")
    case no_reuse: None
    then show ?thesis
      using assms(2) allocate_ports_claimed [OF assms(1)]
      by (auto simp: resolve_global_port_def None split: option.splits sum.splits)
  next
    case (Some p)
    then show ?thesis
      using assms(2) reserved_claimed [of os "file'" "file" p owner] reserve_port_ledger_Inr [OF assms(1), of p owner "file'"]
      by (auto simp: resolve_global_port_def None split: sum.splits prod.splits)
  qed
next
  case (Some c)
  show ?thesis
  proof (cases c)
    case (Port_Fixed v)
    then show ?thesis
      using assms(2) Some reserved_claimed [of os "file'" "file" v owner] reserve_port_ledger_Inr [OF assms(1), of v owner "file'"]
        reserve_available_port_ledger [OF assms(1), of v owner "file'"]
      by (auto simp: resolve_global_port_def split: sum.splits prod.splits if_splits)
  next
    case (Port_None u)
    then show ?thesis using assms Some by (simp add: resolve_global_port_def port_claimed_def)
  qed
qed

section \<open>What the operations on a global leave alone\<close>

abbreviation globals_of :: "gapp \<Rightarrow> global_store" where
  "globals_of ga \<equiv> ap_globals (ga_app ga)"

definition sans_global :: "global_record \<Rightarrow> global_record" where
  "sans_global global = global\<lparr>gr_service := sans_handles (gr_service global)\<rparr>"

lemma gapp_frame [simp]:
  "ga_written (app_do f ga) = ga_written ga" "ga_written (snd (on_app g ga)) = ga_written ga"
  "ga_app (app_do f ga) = f (ga_app ga)" "ga_app (snd (on_app g ga)) = snd (g (ga_app ga))"
  "fst (on_app g ga) = fst (g (ga_app ga))"
  by (simp_all add: app_do_def on_app_def case_prod_beta)

lemma effects_globals [simp]:
  "ap_globals (raise_flags hs st) = ap_globals st" "ap_globals (emit_events es st) = ap_globals st"
  "ap_globals (set_paused h b st) = ap_globals st" "ap_globals (snd (new_handle st)) = ap_globals st"
  "ap_globals (snd (unit_call wo c st)) = ap_globals st" "ap_globals (snd (start_prepared_service wo scope p restart st)) = ap_globals st"
  "ap_ports (set_paused h b st) = ap_ports st" "ap_ports (snd (new_handle st)) = ap_ports st"
  "ap_ports (snd (unit_call wo c st)) = ap_ports st" "ap_ports (snd (start_prepared_service wo scope p restart st)) = ap_ports st"
  by (simp_all add: raise_flags_def emit_events_def set_paused_def new_handle_def unit_call_def start_prepared_service_def
      case_prod_beta Let_def split: option.split)

lemma with_global_state_eq:
  "with_global_state key f ga =
     (case map_of (globals_of ga) key of
        None \<Rightarrow> (Inl (global_not_found key), ga)
      | Some global \<Rightarrow>
          (Inr (fst (f global)),
           ga\<lparr>ga_app := (ga_app ga)\<lparr>ap_globals := bm_update key (\<lambda>_. snd (f global)) (globals_of ga)\<rparr>\<rparr>))"
  by (cases ga; cases "ga_app ga")
    (simp add: with_global_state_def on_app_def with_global_mut_def global_not_found_def case_prod_beta split: option.split)

lemma with_global_state_frame [simp]:
  "ga_written (snd (with_global_state key f ga)) = ga_written ga"
  "ap_ports (ga_app (snd (with_global_state key f ga))) = ap_ports (ga_app ga)"
  by (simp_all add: with_global_state_eq split: option.split)

lemma with_global_state_sans:
  assumes "\<And>g. sans_global (snd (f g)) = sans_global g"
  shows "map_option sans_global (map_of (globals_of (snd (with_global_state key f ga))) k) = map_option sans_global (map_of (globals_of ga) k)"
  using assms by (auto simp: with_global_state_eq split: option.split)

lemma on_service_sans:
  assumes "\<And>s. sans_handles (snd (f s)) = sans_handles s"
  shows "sans_global (snd (on_service f g)) = sans_global g"
  using assms by (simp add: on_service_def sans_global_def case_prod_beta)

lemma finish_global_watch_frame [simp]:
  "ga_written (finish_global_watch key h ga) = ga_written ga"
  "ap_ports (ga_app (finish_global_watch key h ga)) = ap_ports (ga_app ga)"
  "map_option sans_global (map_of (globals_of (finish_global_watch key h ga)) k) = map_option sans_global (map_of (globals_of ga) k)"
  by (simp_all add: finish_global_watch_def case_prod_beta with_global_state_sans on_service_sans
      split: sum.split option.split)

lemma sync_global_watcher_frame [simp]:
  "ga_written (snd (sync_global_auto_restart_watcher gw key ga)) = ga_written ga"
  "ap_ports (ga_app (snd (sync_global_auto_restart_watcher gw key ga))) = ap_ports (ga_app ga)"
  "map_option sans_global (map_of (globals_of (snd (sync_global_auto_restart_watcher gw key ga))) k) =
     map_option sans_global (map_of (globals_of ga) k)"
  by (simp_all add: sync_global_auto_restart_watcher_def case_prod_beta Let_def with_global_state_sans on_service_sans
      split: sum.split watch_decision.split)

lemma persisted_sans [simp]:
  "persisted_global_from_record (sans_global g) path = persisted_global_from_record g path"
  by (simp add: persisted_global_from_record_def persisted_service_of_def sans_global_def sans_handles_def)

section \<open>Keys and manifests of different globals\<close>

lemma global_key_Inr:
  "global_key pe d n = Inr k \<longleftrightarrow> safe_name n \<and> k = project_hash pe d @ ''__'' @ n"
  by (auto simp: global_key_def rbind_eq_Inr validate_name_Inr)

lemma global_manifest_path_Inr:
  "global_manifest_path pe d n = Inr path \<longleftrightarrow>
     (\<exists>root k. globals_root pe = Inr root \<and> global_key pe d n = Inr k \<and> path = path_join root k @ ''/manifest.json'')"
proof -
  have "path_join (path_join root k) ''manifest.json'' = path_join root k @ ''/manifest.json''" if "global_key pe d n = Inr k" for root k
  proof -
    have "k \<noteq> []" "last k \<noteq> CHR ''/''" using that safe_name_nonempty [of n] safe_name_last [of n] by (auto simp: global_key_Inr)
    then show ?thesis using path_join_last [of k root] by (simp add: path_join_dir)
  qed
  then show ?thesis by (auto simp: global_manifest_path_def global_dir_def rbind_eq_Inr)
qed

lemma global_paths_differ:
  assumes "global_manifest_path pe d n = Inr p" and "global_manifest_path pe d n' = Inr p"
  shows "n = n'"
proof -
  obtain root k k' where k: "global_key pe d n = Inr k" "global_key pe d n' = Inr k'" "path_join root k = path_join root k'"
    using assms by (auto simp: global_manifest_path_Inr)
  have "k \<noteq> []" "k' \<noteq> []" "is_absolute k = is_absolute k'"
    using k(1,2) by (cases "project_hash pe d"; auto simp: global_key_Inr)+
  then have "k = k'" using k(3) by (auto simp: path_join_def split: if_splits)
  then show ?thesis using k(1,2) by (auto simp: global_key_Inr)
qed

section \<open>What ensuring one global does\<close>

lemma upsert_global_lookup:
  "map_of (ap_globals (upsert_global_state global st)) k = (if k = gr_key global then Some global else map_of (ap_globals st) k)"
  by (simp add: upsert_global_state_def upsert_global_def case_prod_beta Let_def)

lemma upsert_global_ports [simp]: "ap_ports (upsert_global_state global st) = ap_ports st"
  by (simp add: upsert_global_state_def case_prod_beta)

lemma persist_global_manifest_Inr:
  assumes "persist_global_manifest gw key ga = (Inr (), ga')"
  shows "\<exists>global path. map_of (globals_of ga) key = Some global \<and>
    global_manifest_path (wo_paths (gw_world gw)) (gr_project_dir global) (gr_name global) = Inr path \<and>
    ga' = ga\<lparr>ga_written := bm_insert path (persisted_global_from_record global path) (ga_written ga)\<rparr>"
  using assms by (auto simp: persist_global_manifest_def get_global_def split: option.splits sum.splits)

lemma store_global_Inr:
  assumes "store_global gw key global ga = (Inr (), ga')" and "gr_key global = key"
  obtains path where "global_manifest_path (wo_paths (gw_world gw)) (gr_project_dir global) (gr_name global) = Inr path"
    and "ga_written ga' = bm_insert path (persisted_global_from_record global path) (ga_written ga)"
    and "\<And>k. map_option sans_global (map_of (globals_of ga') k) =
      (if k = key then Some (sans_global global) else map_option sans_global (map_of (globals_of ga) k))"
    and "ap_ports (ga_app ga') = ap_ports (ga_app ga)"
proof -
  let ?ga0 = "app_do (upsert_global_state global) ga"
  obtain ga1 where persist: "persist_global_manifest gw key ?ga0 = (Inr (), ga1)"
    and sync: "ga' = snd (sync_global_auto_restart_watcher gw key ga1)"
    using assms(1) by (auto simp: store_global_def split: sum.splits prod.splits)
  have "map_of (globals_of ?ga0) key = Some global" by (simp add: upsert_global_lookup assms(2))
  then obtain path where path: "global_manifest_path (wo_paths (gw_world gw)) (gr_project_dir global) (gr_name global) = Inr path"
    "ga1 = ?ga0\<lparr>ga_written := bm_insert path (persisted_global_from_record global path) (ga_written ?ga0)\<rparr>"
    using persist_global_manifest_Inr [OF persist] by auto
  show ?thesis
    by (rule that [OF path(1)]) (simp_all add: sync path(2) upsert_global_lookup assms(2))
qed

lemma emit_global_change_frame [simp]:
  "ga_written (emit_global_change key prev state ga) = ga_written ga"
  "globals_of (emit_global_change key prev state ga) = globals_of ga"
  "ap_ports (ga_app (emit_global_change key prev state ga)) = ap_ports (ga_app ga)"
  by (simp_all add: emit_global_change_def)

lemma start_global_frame [simp]:
  "ga_written (snd (start_global gw gq key name svc p ga)) = ga_written ga"
  "globals_of (snd (start_global gw gq key name svc p ga)) = globals_of ga"
  "ap_ports (ga_app (snd (start_global gw gq key name svc p ga))) = ap_ports (ga_app ga)"
  by (simp_all add: start_global_def case_prod_beta Let_def split: sum.split)

lemma start_global_outcome:
  "go_last_failure (fst (start_global gw gq key name svc p ga)) = None \<Longrightarrow>
     go_state (fst (start_global gw gq key name svc p ga)) = Sv_Ready \<and>
     go_lifecycle (fst (start_global gw gq key name svc p ga)) = Run_Running"
  by (auto simp: start_global_def case_prod_beta Let_def split: sum.splits)

text \<open>A global that runs: its record, its manifest, its port.\<close>

definition global_up :: "gworld \<Rightarrow> string \<Rightarrow> gapp \<Rightarrow> string \<Rightarrow> u16 option \<Rightarrow> bool" where
  "global_up gw dir ga name port \<longleftrightarrow>
     (\<exists>key path g. global_key (wo_paths (gw_world gw)) dir name = Inr key \<and>
        global_manifest_path (wo_paths (gw_world gw)) dir name = Inr path \<and>
        map_of (globals_of ga) key = Some g \<and> gr_state g = Run_Running \<and> sr_state (gr_service g) = Sv_Ready \<and>
        lp_port (sr_launch (gr_service g)) = port \<and>
        map_of (ga_written ga) path = Some (persisted_global_from_record g path) \<and>
        (\<forall>p. port = Some p \<longrightarrow> holder (wo_os (gw_world gw)) (ap_ports (ga_app ga)) p = Some (global_port_owner key name)))"

lemma sans_global_fields:
  assumes "sans_global x = sans_global y"
  shows "gr_state x = gr_state y" "sr_state (gr_service x) = sr_state (gr_service y)" "sr_launch (gr_service x) = sr_launch (gr_service y)"
    "persisted_global_from_record x q = persisted_global_from_record y q"
proof -
  have kept: "gr_state (sans_global g) = gr_state g" "sr_runtime (gr_service (sans_global g)) = sr_runtime (gr_service g)"
    "sr_launch (gr_service (sans_global g)) = sr_launch (gr_service g)" for g
    by (simp_all add: sans_global_def sans_handles_def)
  show "gr_state x = gr_state y" "sr_state (gr_service x) = sr_state (gr_service y)"
    "sr_launch (gr_service x) = sr_launch (gr_service y)"
    using assms kept [of x] kept [of y] by simp_all
  show "persisted_global_from_record x q = persisted_global_from_record y q"
    using assms persisted_sans [of x q] persisted_sans [of y q] by simp
qed

lemma launch_global_Inr:
  assumes "launch_global gw gq key name svc existing active p ga = (Inr port, ga')"
  obtains g path where "port = ps_port p" and "gr_state g = Run_Running" and "sr_state (gr_service g) = Sv_Ready"
    and "lp_port (sr_launch (gr_service g)) = port" and "gr_key g = key"
    and "global_manifest_path (wo_paths (gw_world gw)) (gq_project_dir gq) name = Inr path"
    and "ga_written ga' = bm_insert path (persisted_global_from_record g path) (ga_written ga)"
    and "\<And>k. map_option sans_global (map_of (globals_of ga') k) =
      (if k = key then Some (sans_global g) else map_option sans_global (map_of (globals_of ga) k))"
    and "ap_ports (ga_app ga') = ap_ports (ga_app ga)"
proof -
  obtain outcome paused ga1 where came: "bring_up_global gw gq key name svc existing active p ga = ((outcome, paused), ga1)"
    by (metis surj_pair)
  have same: "ga_written ga1 = ga_written ga" "globals_of ga1 = globals_of ga" "ap_ports (ga_app ga1) = ap_ports (ga_app ga)"
    and running: "go_last_failure outcome = None \<Longrightarrow> go_state outcome = Sv_Ready \<and> go_lifecycle outcome = Run_Running"
    using came start_global_frame [of gw gq key name svc p ga] start_global_outcome [of gw gq key name svc p ga]
    by (auto simp: bring_up_global_def adopt_global_def case_prod_beta Let_def split: if_splits)
  let ?created = "case existing of Some manifest \<Rightarrow> pg_created_at manifest | None \<Rightarrow> wo_now (gw_world gw)"
  let ?g = "build_global_record key name (gq_project_dir gq) (gq_config_path gq) svc (gq_tasks_map gq)
      p (go_state outcome) (go_last_failure outcome) (go_last_started_at outcome) paused (go_lifecycle outcome) ?created None"
  obtain r ga2 where stored: "store_global gw key ?g ga1 = (r, ga2)" by fastforce
  have ok: "r = Inr ()" "go_last_failure outcome = None" "port = ps_port p"
      "ga' = emit_global_change key (map_option pg_state existing) (go_lifecycle outcome) ga2"
    using assms unfolding launch_global_def came Let_def prod.case stored by (auto split: sum.splits option.splits)
  have fields: "gr_key ?g = key" "gr_name ?g = name" "gr_project_dir ?g = gq_project_dir gq" "gr_state ?g = go_lifecycle outcome"
      "sr_state (gr_service ?g) = go_state outcome" "lp_port (sr_launch (gr_service ?g)) = ps_port p"
    by (simp_all add: build_global_record_def into_service_record_def new_service_record_def prepared_launch_plan_def Let_def)
  obtain path where path: "global_manifest_path (wo_paths (gw_world gw)) (gq_project_dir gq) name = Inr path"
    "ga_written ga2 = bm_insert path (persisted_global_from_record ?g path) (ga_written ga1)"
    "\<And>k. map_option sans_global (map_of (globals_of ga2) k) =
      (if k = key then Some (sans_global ?g) else map_option sans_global (map_of (globals_of ga1) k))"
    "ap_ports (ga_app ga2) = ap_ports (ga_app ga1)"
    using store_global_Inr [OF stored [unfolded ok(1)] fields(1)] fields(2,3) by metis
  show ?thesis
    by (rule that [of ?g path]) (use path same ok fields running in simp_all)
qed

lemma prepare_service_port:
  assumes "prepare_service pv scope d c name svc ports listen schemes base genv gfile = Inr p"
  shows "ps_port p = unwrap_or (map_of ports name) None"
  using assms by (auto simp: prepare_service_def Let_def rbind_eq_Inr split: if_splits)

lemma ensure_global_Inr:
  assumes "ensure_global gw gq name svc ga = Some (Inr port, ga')"
    and "registry_usable (wo_os (gw_world gw)) (ap_ports (ga_app ga))"
  shows "global_up gw (gq_project_dir gq) ga' name port \<and>
    registry_usable (wo_os (gw_world gw)) (ap_ports (ga_app ga')) \<and>
    keeps_holders (wo_os (gw_world gw)) (ap_ports (ga_app ga)) (ap_ports (ga_app ga')) \<and>
    (\<forall>name' port'. name' \<noteq> name \<longrightarrow> global_up gw (gq_project_dir gq) ga name' port' \<longrightarrow>
       global_up gw (gq_project_dir gq) ga' name' port')"
proof -
  let ?pe = "wo_paths (gw_world gw)" let ?os = "wo_os (gw_world gw)"
  obtain key path0 where layout: "global_layout gw (gq_project_dir gq) name = Inr (key, path0)"
    using assms(1) by (auto simp: ensure_global_def split: sum.splits)
  have key: "global_key ?pe (gq_project_dir gq) name = Inr key"
    using layout by (auto simp: global_layout_def Let_def rbind_eq_Inr)
  obtain existing active port0 rest reg p where
    port0: "resolve_global_port ?os name svc (global_port_owner key name) existing active (ga_answers ga) (ap_ports (ga_app ga)) =
      Some (Inr (port0, rest), reg)"
    and prep: "prepare_global_service (gw_prepare gw) key name svc (gq_project_dir gq) (gq_config_dir gq) port0 = Inr p"
    and launch: "launch_global gw gq key name svc existing active p
      ((app_do (\<lambda>st. st\<lparr>ap_ports := reg\<rparr>) ga)\<lparr>ga_answers := rest\<rparr>) = (Inr port, ga')"
    using assms(1) layout
    by (auto simp: ensure_global_def Let_def split: option.splits sum.splits prod.splits)
  note claimed = resolve_global_port_claimed [OF assms(2) port0]
  have "ps_port p = port0"
    using prep prepare_service_port by (fastforce simp: prepare_global_service_def Let_def)
  let ?ga0 = "(app_do (\<lambda>st. st\<lparr>ap_ports := reg\<rparr>) ga)\<lparr>ga_answers := rest\<rparr>"
  have start: "ga_written ?ga0 = ga_written ga" "globals_of ?ga0 = globals_of ga" "ap_ports (ga_app ?ga0) = reg"
    by (simp_all add: app_do_def)
  obtain g path where
    g0: "port = ps_port p" "gr_state g = Run_Running" "sr_state (gr_service g) = Sv_Ready"
      "lp_port (sr_launch (gr_service g)) = port" "global_manifest_path ?pe (gq_project_dir gq) name = Inr path"
      "ga_written ga' = bm_insert path (persisted_global_from_record g path) (ga_written ?ga0)"
      "\<And>k. map_option sans_global (map_of (globals_of ga') k) =
        (if k = key then Some (sans_global g) else map_option sans_global (map_of (globals_of ?ga0) k))"
      "ap_ports (ga_app ga') = ap_ports (ga_app ?ga0)"
    by (rule launch_global_Inr [OF launch]) blast
  note g = g0(1) [unfolded \<open>ps_port p = port0\<close>] g0(2-5) g0(6-8) [unfolded start]
  have written: "map_of (ga_written ga') q = (if q = path then Some (persisted_global_from_record g path) else map_of (ga_written ga) q)" for q
    by (simp add: g(6))
  have at: "\<exists>g'. map_of (globals_of ga') k = Some g' \<and> sans_global g' = sans_global (if k = key then g else h)"
    if "k = key \<or> map_of (globals_of ga) k = Some h" for k h
    using g(7) [of k] that by (auto split: if_splits)
  have "global_up gw (gq_project_dir gq) ga' name port"
  proof -
    obtain g' where g': "map_of (globals_of ga') key = Some g'" "sans_global g' = sans_global g" using at [of key] by auto
    show ?thesis
      unfolding global_up_def
      by (intro exI [of _ key] exI [of _ path] exI [of _ g'])
        (use key g g' written claimed sans_global_fields [OF g'(2)] in \<open>auto simp: port_claimed_def\<close>)
  qed
  moreover have "global_up gw (gq_project_dir gq) ga' name' port'"
    if "name' \<noteq> name" and up: "global_up gw (gq_project_dir gq) ga name' port'" for name' port'
  proof -
    obtain key' path' h where h: "global_key ?pe (gq_project_dir gq) name' = Inr key'"
      "global_manifest_path ?pe (gq_project_dir gq) name' = Inr path'" "map_of (globals_of ga) key' = Some h"
      "gr_state h = Run_Running" "sr_state (gr_service h) = Sv_Ready" "lp_port (sr_launch (gr_service h)) = port'"
      "map_of (ga_written ga) path' = Some (persisted_global_from_record h path')"
      "\<forall>p. port' = Some p \<longrightarrow> holder ?os (ap_ports (ga_app ga)) p = Some (global_port_owner key' name')"
      using up by (auto simp: global_up_def)
    have "key' \<noteq> key" using h(1) key that(1) by (auto simp: global_key_Inr)
    moreover have "path' \<noteq> path" using global_paths_differ [of ?pe _ name' path name] h(2) g(5) that(1) by auto
    moreover obtain h' where h': "map_of (globals_of ga') key' = Some h'" "sans_global h' = sans_global h"
      using at [of key' h] h(3) \<open>key' \<noteq> key\<close> by auto
    ultimately show ?thesis
      unfolding global_up_def
      by (intro exI [of _ key'] exI [of _ path'] exI [of _ h'])
        (use h h' g(8) written claimed sans_global_fields [OF h'(2)] in \<open>auto simp: port_claimed_def keeps_holders_def\<close>)
  qed
  ultimately show ?thesis using claimed g(8) by (auto simp: port_claimed_def)
qed

lemma ensure_globals_Inr:
  assumes "ensure_globals gw gq globals ports ga = Some (Inr ports', ga')" and "distinct (map fst globals)"
    and "registry_usable (wo_os (gw_world gw)) (ap_ports (ga_app ga))" and "set (bm_keys ports) \<inter> fst ` set globals = {}"
    and "\<forall>name port. map_of ports name = Some port \<longrightarrow> global_up gw (gq_project_dir gq) ga name port"
  shows "set (bm_keys ports') = set (bm_keys ports) \<union> fst ` set globals \<and>
    (\<forall>name port. map_of ports' name = Some port \<longrightarrow> global_up gw (gq_project_dir gq) ga' name port) \<and>
    keeps_holders (wo_os (gw_world gw)) (ap_ports (ga_app ga)) (ap_ports (ga_app ga'))"
  using assms
proof (induction globals arbitrary: ports ga)
  case (Cons ng globals)
  obtain name svc where ng: "ng = (name, svc)" by fastforce
  obtain port ga1 where one: "ensure_global gw gq name svc ga = Some (Inr port, ga1)"
    and more: "ensure_globals gw gq globals (bm_insert name port ports) ga1 = Some (Inr ports', ga')"
    using Cons.prems(1) by (auto simp: ng split: option.splits sum.splits prod.splits)
  note done_one = ensure_global_Inr [OF one Cons.prems(3)]
  have "set (bm_keys (bm_insert name port ports)) \<inter> fst ` set globals = {}"
    using Cons.prems(2,4) by (auto simp: ng set_bm_keys_insert image_iff)
  moreover have "\<forall>n q. map_of (bm_insert name port ports) n = Some q \<longrightarrow> global_up gw (gq_project_dir gq) ga1 n q"
    using done_one Cons.prems(5) by auto
  ultimately have "set (bm_keys ports') = set (bm_keys (bm_insert name port ports)) \<union> fst ` set globals \<and>
    (\<forall>name port. map_of ports' name = Some port \<longrightarrow> global_up gw (gq_project_dir gq) ga' name port) \<and>
    keeps_holders (wo_os (gw_world gw)) (ap_ports (ga_app ga1)) (ap_ports (ga_app ga'))"
    using Cons.IH [OF more] Cons.prems(2) done_one by (simp add: ng)
  then show ?case using done_one by (auto simp: ng set_bm_keys_insert intro: keeps_holders_trans)
qed auto

section \<open>The units that ensuring starts\<close>

abbreviation units_of :: "gapp \<Rightarrow> unit_command list" where
  "units_of ga \<equiv> ap_units (ga_app ga)"

lemma effects_units [simp]:
  "ap_units (raise_flags hs st) = ap_units st" "ap_units (emit_events es st) = ap_units st"
  "ap_units (set_paused h b st) = ap_units st" "ap_units (snd (new_handle st)) = ap_units st"
  "ap_units (upsert_global_state g st) = ap_units st"
  by (simp_all add: raise_flags_def emit_events_def set_paused_def new_handle_def upsert_global_state_def
      case_prod_beta Let_def split: option.split)

lemma with_global_state_units [simp]: "units_of (snd (with_global_state key f ga)) = units_of ga"
  by (simp add: with_global_state_eq split: option.split)

lemma finish_global_watch_units [simp]: "units_of (finish_global_watch key h ga) = units_of ga"
  by (simp add: finish_global_watch_def case_prod_beta split: sum.split option.split)

lemma sync_global_watcher_units [simp]: "units_of (snd (sync_global_auto_restart_watcher gw key ga)) = units_of ga"
  by (simp add: sync_global_auto_restart_watcher_def case_prod_beta Let_def split: sum.split watch_decision.split)

lemma persist_global_manifest_units [simp]: "units_of (snd (persist_global_manifest gw key ga)) = units_of ga"
  by (simp add: persist_global_manifest_def case_prod_beta split: option.split sum.split)

lemma store_global_units [simp]: "units_of (snd (store_global gw key global ga)) = units_of ga"
proof -
  let ?mid = "persist_global_manifest gw key (app_do (upsert_global_state global) ga)"
  have "units_of (snd ?mid) = units_of ga" by simp
  then show ?thesis by (cases ?mid) (simp add: store_global_def split: sum.split)
qed

lemma emit_global_change_units [simp]: "units_of (emit_global_change key prev state ga) = units_of ga"
  by (simp add: emit_global_change_def)

text \<open>
  What ensuring one global has systemd do, after the commands \<open>us\<close>: nothing if its unit is active, otherwise
  the start of its unit with the properties of the prepared service; the start is accepted and the wait that
  follows succeeds.
\<close>

definition started_global ::
  "gworld \<Rightarrow> global_request \<Rightarrow> string \<Rightarrow> service_config \<Rightarrow> u16 option \<Rightarrow> unit_command list \<Rightarrow> unit_command list \<Rightarrow> bool" where
  "started_global gw gq name svc port us cmds \<longleftrightarrow>
     (\<exists>key. global_key (wo_paths (gw_world gw)) (gq_project_dir gq) name = Inr key \<and>
        (if \<exists>s. wo_unit_status (gw_world gw) us 0 (unit_name_for_global key name) = Inr (Some s) \<and> us_active_state s = ''active''
         then cmds = []
         else \<exists>p start. prepare_global_service (gw_prepare gw) key name svc (gq_project_dir gq) (gq_config_dir gq) port = Inr p \<and>
           start = Unit_Start (unit_name_for_global key name) (shim_properties (gw_world gw) (Scope_Global key (gq_project_dir gq) name) p) \<and>
           cmds = [start] \<and> wo_unit (gw_world gw) us start = Inr () \<and>
           gw_waits gw name p (build_post_init_context svc (gq_tasks_map gq) (gq_project_dir gq) None (ps_env p) None) = Inr ()))"

lemma launch_global_units:
  assumes "launch_global gw gq key name svc existing active p ga = (Inr port, ga')"
  shows "if active then units_of ga' = units_of ga
    else (let start = Unit_Start (ps_unit_name p) (shim_properties (gw_world gw) (Scope_Global key (gq_project_dir gq) name) p) in
      units_of ga' = units_of ga @ [start] \<and> wo_unit (gw_world gw) (units_of ga) start = Inr () \<and>
      gw_waits gw name p (build_post_init_context svc (gq_tasks_map gq) (gq_project_dir gq) None (ps_env p) None) = Inr ())"
proof -
  obtain outcome paused ga1 where came: "bring_up_global gw gq key name svc existing active p ga = ((outcome, paused), ga1)"
    by (metis surj_pair)
  let ?created = "case existing of Some manifest \<Rightarrow> pg_created_at manifest | None \<Rightarrow> wo_now (gw_world gw)"
  let ?g = "build_global_record key name (gq_project_dir gq) (gq_config_path gq) svc (gq_tasks_map gq)
      p (go_state outcome) (go_last_failure outcome) (go_last_started_at outcome) paused (go_lifecycle outcome) ?created None"
  obtain r ga2 where stored: "store_global gw key ?g ga1 = (r, ga2)" by fastforce
  have ok: "go_last_failure outcome = None" "ga' = emit_global_change key (map_option pg_state existing) (go_lifecycle outcome) ga2"
    using assms unfolding launch_global_def came Let_def prod.case stored by (auto split: sum.splits option.splits)
  have "units_of ga' = units_of ga1"
    using store_global_units [of gw key ?g ga1] stored by (simp add: ok(2))
  then show ?thesis
    using came ok(1)
    by (auto simp: bring_up_global_def start_global_def start_prepared_service_def unit_call_def on_app_def case_prod_beta Let_def
        split: if_splits sum.splits)
qed

lemma prepare_global_unit_name:
  assumes "prepare_global_service pv key name svc dir cdir port = Inr p"
  shows "ps_unit_name p = unit_name_for_global key name \<and> ps_port p = port"
  using assms by (auto simp: prepare_global_service_def prepare_service_def Let_def rbind_eq_Inr split: if_splits)

lemma ensure_global_units:
  assumes "ensure_global gw gq name svc ga = Some (Inr port, ga')"
  shows "\<exists>cmds. units_of ga' = units_of ga @ cmds \<and> started_global gw gq name svc port (units_of ga) cmds"
proof -
  obtain key path0 where layout: "global_layout gw (gq_project_dir gq) name = Inr (key, path0)"
    using assms by (auto simp: ensure_global_def split: sum.splits)
  then have key: "global_key (wo_paths (gw_world gw)) (gq_project_dir gq) name = Inr key"
    by (auto simp: global_layout_def Let_def rbind_eq_Inr)
  let ?status = "wo_unit_status (gw_world gw) (units_of ga) 0 (unit_name_for_global key name)"
  define active where "active = (case ?status of Inr (Some s) \<Rightarrow> us_active_state s = ''active'' | _ \<Rightarrow> False)"
  obtain port0 rest reg p where prep: "prepare_global_service (gw_prepare gw) key name svc (gq_project_dir gq) (gq_config_dir gq) port0 = Inr p"
    and launch: "launch_global gw gq key name svc (existing_manifest gw path0 ga) active p
      ((app_do (\<lambda>st. st\<lparr>ap_ports := reg\<rparr>) ga)\<lparr>ga_answers := rest\<rparr>) = (Inr port, ga')"
    using assms unfolding ensure_global_def layout sum.case prod.case Let_def active_def [symmetric]
    by (auto split: option.splits sum.splits prod.splits)
  have "port = ps_port p" using launch by (elim launch_global_Inr)
  then have port: "port0 = port" using prepare_global_unit_name [OF prep] by simp
  have "active \<longleftrightarrow> (\<exists>s. ?status = Inr (Some s) \<and> us_active_state s = ''active'')"
    by (auto simp: active_def split: sum.splits option.splits)
  then show ?thesis
    using launch_global_units [OF launch] prepare_global_unit_name [OF prep] prep
    by (auto simp: started_global_def key port app_do_def Let_def)
qed

lemma ensure_globals_keep:
  assumes "ensure_globals gw gq globals ports ga = Some (Inr ports', ga')" and "name \<notin> fst ` set globals"
  shows "map_of ports' name = map_of ports name"
  using assms
  by (induction globals arbitrary: ports ga) (force split: option.splits sum.splits)+

lemma ensure_globals_units:
  assumes "ensure_globals gw gq globals ports ga = Some (Inr ports', ga')" and "distinct (map fst globals)"
  shows "\<exists>cmds. length cmds = length globals \<and> units_of ga' = units_of ga @ concat cmds \<and>
    (\<forall>i < length globals. \<exists>port. map_of ports' (fst (globals ! i)) = Some port \<and>
       started_global gw gq (fst (globals ! i)) (snd (globals ! i)) port (units_of ga @ concat (take i cmds)) (cmds ! i))"
  using assms
proof (induction globals arbitrary: ports ga)
  case (Cons ng globals)
  obtain name svc where ng: "ng = (name, svc)" by fastforce
  obtain port ga1 where one: "ensure_global gw gq name svc ga = Some (Inr port, ga1)"
    and more: "ensure_globals gw gq globals (bm_insert name port ports) ga1 = Some (Inr ports', ga')"
    using Cons.prems(1) by (auto simp: ng split: option.splits sum.splits prod.splits)
  obtain cmd where cmd: "units_of ga1 = units_of ga @ cmd" "started_global gw gq name svc port (units_of ga) cmd"
    using ensure_global_units [OF one] by blast
  have "map_of ports' name = Some port" using ensure_globals_keep [OF more] Cons.prems(2) by (simp add: ng)
  moreover obtain cmds where cmds: "length cmds = length globals" "units_of ga' = units_of ga1 @ concat cmds"
    "\<forall>i < length globals. \<exists>port. map_of ports' (fst (globals ! i)) = Some port \<and>
       started_global gw gq (fst (globals ! i)) (snd (globals ! i)) port (units_of ga1 @ concat (take i cmds)) (cmds ! i)"
    using Cons.IH [OF more] Cons.prems(2) by auto
  ultimately show ?case
    by (intro exI [of _ "cmd # cmds"]) (auto simp: ng cmd nth_Cons split: nat.splits)
qed simp

text \<open>
  C20. When the globals of a project are ensured, the answer has exactly these globals, and they are brought up
  one after the other: a global whose unit is active by then is left as it is, every other one has its unit
  started once with the properties of its prepared service, the start is accepted and the wait for readiness
  and the tasks succeeds, and no other unit is touched. Each is recorded as running and ready with the port of
  the answer, its manifest is the one of that record, and it holds its port in the registry. Nobody who held a
  port before has lost it.
\<close>

theorem ensured_globals_run:
  assumes "ensure_globals gw gq globals [] ga = Some (Inr ports, ga')" and "distinct (map fst globals)"
    and "registry_usable (wo_os (gw_world gw)) (ap_ports (ga_app ga))"
  shows "set (bm_keys ports) = fst ` set globals \<and>
    (\<exists>cmds. length cmds = length globals \<and> ap_units (ga_app ga') = ap_units (ga_app ga) @ concat cmds \<and>
       (\<forall>i < length globals. \<exists>port. map_of ports (fst (globals ! i)) = Some port \<and>
          started_global gw gq (fst (globals ! i)) (snd (globals ! i)) port
            (ap_units (ga_app ga) @ concat (take i cmds)) (cmds ! i))) \<and>
    (\<forall>name port. map_of ports name = Some port \<longrightarrow> global_up gw (gq_project_dir gq) ga' name port) \<and>
    (\<forall>p. holder (wo_os (gw_world gw)) (ap_ports (ga_app ga)) p \<noteq> None \<longrightarrow>
       holder (wo_os (gw_world gw)) (ap_ports (ga_app ga')) p = holder (wo_os (gw_world gw)) (ap_ports (ga_app ga)) p)"
  using ensure_globals_Inr [OF assms(1,2,3)] ensure_globals_units [OF assms(1,2)] by (simp add: keeps_holders_def)

section \<open>A global that comes up\<close>

lemma start_global_ok:
  assumes "wo_unit (gw_world gw) (ap_units (ga_app ga)) (Unit_Start (ps_unit_name p)
        (shim_properties (gw_world gw) (Scope_Global key (gq_project_dir gq) name) p)) = Inr ()"
    and "gw_waits gw name p (build_post_init_context svc (gq_tasks_map gq) (gq_project_dir gq) None (ps_env p) None) = Inr ()"
  shows "fst (start_global gw gq key name svc p ga) =
    \<lparr>go_state = Sv_Ready, go_lifecycle = Run_Running, go_last_failure = None, go_last_started_at = Some (wo_now (gw_world gw))\<rparr>"
  using assms by (simp add: start_global_def start_prepared_service_def unit_call_def on_app_def Let_def)

lemma launch_global_ok:
  assumes "\<And>c. wo_unit (gw_world gw) (ap_units (ga_app ga)) c = Inr ()" and "\<And>n p c. gw_waits gw n p c = Inr ()"
    and "\<And>path. wo_write (gw_world gw) path = None" and "\<And>k n. wo_watcher (gw_world gw) k n = Inr ()"
    and "global_manifest_path (wo_paths (gw_world gw)) (gq_project_dir gq) name = Inr path"
  shows "\<exists>ga'. launch_global gw gq key name svc None False p ga = (Inr (ps_port p), ga')"
proof -
  let ?g = "build_global_record key name (gq_project_dir gq) (gq_config_path gq) svc (gq_tasks_map gq) p Sv_Ready None
      (Some (wo_now (gw_world gw))) False Run_Running (wo_now (gw_world gw)) None"
  obtain ga1 where up: "bring_up_global gw gq key name svc None False p ga =
      ((\<lparr>go_state = Sv_Ready, go_lifecycle = Run_Running, go_last_failure = None, go_last_started_at = Some (wo_now (gw_world gw))\<rparr>, False), ga1)"
    using start_global_ok [of gw ga p key gq name svc] assms(1,2) by (auto simp: bring_up_global_def case_prod_beta Let_def)
  have "gr_key ?g = key" "gr_name ?g = name" "gr_project_dir ?g = gq_project_dir gq" by (simp_all add: build_global_record_def Let_def)
  then have "fst (persist_global_manifest gw key (app_do (upsert_global_state ?g) ga1)) = Inr ()"
    using assms(3,5) by (simp add: persist_global_manifest_def get_global_def upsert_global_lookup)
  moreover have "fst (sync_global_auto_restart_watcher gw key ga2) = Inr ()" for ga2
    using assms(4) by (simp add: sync_global_auto_restart_watcher_def case_prod_beta split: sum.split watch_decision.split)
  ultimately have "fst (store_global gw key ?g ga1) = Inr ()"
    by (auto simp: store_global_def case_prod_beta split: sum.split)
  then obtain ga2 where "store_global gw key ?g ga1 = (Inr (), ga2)" by (metis prod.collapse)
  then show ?thesis by (auto simp: launch_global_def up)
qed

definition empty_disk :: disk where
  "empty_disk = (example_disk (\<lambda>_. False) saved_run)"

definition example_gworld :: gworld where
  "example_gworld =
     \<lparr>gw_world = example_world, gw_prepare = example_pv, gw_disk = empty_disk, gw_mkdir = (\<lambda>_. None),
      gw_waits = (\<lambda>_ _ _. Inr ())\<rparr>"

definition example_request :: global_request where
  "example_request = \<lparr>gq_tasks_map = [], gq_project_dir = ''/p'', gq_config_path = ''/p/devstack.yml'', gq_config_dir = ''/p''\<rparr>"

definition example_gapp :: gapp where
  "example_gapp = \<lparr>ga_app = example_state running_run, ga_written = [], ga_snapshots = [], ga_answers = [Inr 6000], ga_waiting = []\<rparr>"

lemma example_global_port:
  "resolve_global_port example_os ''db'' (bare_service ''run'') owner None False [Inr 6000] Reg_Blank =
     Some (Inr (Some 6000, []), Reg_Stored [(6000, my_entry example_os owner)])"
  by (simp add: resolve_global_port_def bare_service_def allocate_ports_def with_registry_loop_def open_registry_def
      example_os_def cleanup_stale_def bm_retain_def finish_registry_def my_entry_def bm_contains_def)

lemma example_ensured:
  "\<exists>ga'. ensure_globals example_gworld example_request [(''db'', bare_service ''run'')] [] example_gapp =
     Some (Inr [(''db'', Some 6000)], ga')"
proof -
  have "safe_name ''db''" by code_simp
  then obtain key where k: "global_key (pv_paths example_pv) ''/p'' ''db'' = Inr key" by (simp add: global_key_Inr)
  obtain root where root: "globals_root (pv_paths example_pv) = Inr root"
    by (simp add: globals_root_def base_join_def example_pv_def example_path_env_def)
  obtain path where key: "global_layout example_gworld ''/p'' ''db'' = Inr (key, path)"
    and manifest: "global_manifest_path (wo_paths example_world) ''/p'' ''db'' = Inr path"
    by (simp add: global_layout_def global_dir_def global_logs_dir_def global_manifest_path_def k root Let_def
        example_gworld_def example_world_def)
  obtain q where "log_path_for_scope (pv_paths example_pv) (Scope_Global key ''/p'' ''db'') ''/p'' ''db'' = Inr q"
    using \<open>safe_name ''db''\<close>
    by (simp add: global_log_path_def global_logs_dir_def global_dir_def k root iffD2 [OF validate_name_ok])
  then obtain p where p: "prepare_global_service example_pv key ''db'' (bare_service ''run'') ''/p'' ''/p'' (Some 6000) = Inr p"
    using example_prepared unfolding prepare_global_service_def Let_def by metis
  then have "ps_port p = Some 6000"
    using prepare_service_port by (fastforce simp: prepare_global_service_def Let_def)
  let ?ga = "(app_do (\<lambda>st. st\<lparr>ap_ports := Reg_Stored [(6000, my_entry example_os (global_port_owner key ''db''))]\<rparr>) example_gapp)\<lparr>ga_answers := []\<rparr>"
  have "\<exists>ga'. launch_global example_gworld example_request key ''db'' (bare_service ''run'') None False p ?ga = (Inr (ps_port p), ga')"
    by (rule launch_global_ok [where path = path]) (use manifest in \<open>simp_all add: example_gworld_def example_world_def example_request_def\<close>)
  then obtain ga' where ga': "launch_global example_gworld example_request key ''db'' (bare_service ''run'') None False p ?ga =
      (Inr (Some 6000), ga')"
    using \<open>ps_port p = Some 6000\<close> by auto
  have parts: "gw_world example_gworld = example_world" "gw_prepare example_gworld = example_pv" "wo_os example_world = example_os"
    "ga_answers example_gapp = [Inr 6000]" "ap_ports (ga_app example_gapp) = Reg_Blank" "gq_project_dir example_request = ''/p''"
    "gq_config_dir example_request = ''/p''" "existing_manifest example_gworld path example_gapp = None"
    "wo_unit_status example_world us n u = Inr None" for us n u
    by (simp_all add: example_gworld_def example_world_def example_gapp_def example_request_def example_state_def
        existing_manifest_def empty_disk_def example_disk_def)
  have "ensure_global example_gworld example_request ''db'' (bare_service ''run'') example_gapp = Some (Inr (Some 6000), ga')"
    using ga' by (simp add: ensure_global_def key parts example_global_port p Let_def)
  then show ?thesis by simp
qed

theorem ensured_globals_run_witness:
  "\<exists>ga'. ensure_globals example_gworld example_request [(''db'', bare_service ''run'')] [] example_gapp =
     Some (Inr [(''db'', Some 6000)], ga') \<and> global_up example_gworld ''/p'' ga' ''db'' (Some 6000)"
proof -
  obtain ga' where ga': "ensure_globals example_gworld example_request [(''db'', bare_service ''run'')] [] example_gapp =
      Some (Inr [(''db'', Some 6000)], ga')" using example_ensured by blast
  have "registry_usable (wo_os (gw_world example_gworld)) (ap_ports (ga_app example_gapp))"
    by (simp add: example_gworld_def example_world_def example_gapp_def example_state_def registry_usable_def
        example_os_def is_pid_alive_def)
  from ensured_globals_run [OF ga' _ this] ga' show ?thesis by (simp add: example_request_def)
qed

section \<open>Reservations made again from the manifests\<close>

lemma reserve_each_Inr:
  assumes "reserve_each os ports file = (Inr (), file')" and "registry_usable os file"
  shows "registry_usable os file' \<and> keeps_holders os file file' \<and> (\<forall>(p, owner) \<in> set ports. holder os file' p = Some owner)"
  using assms
proof (induction os ports "file" rule: reserve_each.induct)
  case (2 os port owner ports before)
  obtain mid where mid: "reserve_port os port owner before = (Inr (), mid)" "reserve_each os ports mid = (Inr (), file')"
    using "2.prems"(1) by (auto split: prod.splits sum.splits)
  note one = reserve_port_ledger_Inr [OF "2.prems"(2) mid(1)]
  have "port_claimed os before mid owner (Some port)" using reserved_claimed one by blast
  then show ?case
    using "2.IH" [OF mid(1) [symmetric] refl mid(2)] one by (auto simp: port_claimed_def keeps_holders_def)
qed simp

lemma reserve_entries_Inr:
  assumes "reserve_entries os reservations entries file = (Inr (), file')" and "registry_usable os file"
  shows "registry_usable os file' \<and> keeps_holders os file file' \<and>
    (\<forall>dir. Inr dir \<in> set entries \<longrightarrow> (\<forall>(p, owner) \<in> set (reservations dir). holder os file' p = Some owner))"
  using assms
proof (induction os reservations entries "file" rule: reserve_entries.induct)
  case (3 os reservations dir entries before)
  obtain mid where mid: "reserve_each os (reservations dir) before = (Inr (), mid)"
      "reserve_entries os reservations entries mid = (Inr (), file')"
    using "3.prems"(1) by (auto split: prod.splits sum.splits)
  note one = reserve_each_Inr [OF mid(1) "3.prems"(2)]
  note rest = "3.IH" [OF mid(1) [symmetric] refl mid(2)]
  show ?case
    using one rest by (fastforce simp: keeps_holders_def)
qed auto

text \<open>
  After the reservations have been read back from disk, every service of a run that may be restored
  holds the port its manifest gives it, and the port behind its capture proxy; nobody who held a port
  before has lost it.
\<close>

theorem reservations_read_back:
  assumes "sync_port_reservations_from_disk pe os dk file = (Inr (), file')" and "registry_usable os file"
    and "runs_dir pe = Inr root" and "dk_exists dk root" and "dk_list dk root = Inr entries" and "Inr dir \<in> set entries"
    and "dk_exists dk (path_join dir ''manifest.json'')"
    and "load_run_manifest (dk_reader dk) (path_join dir ''manifest.json'') = Inr manifest"
    and "run_manifest_is_restorable (dk_exists dk) manifest" and "(service, saved) \<in> set (pr_services manifest)"
  shows "(\<forall>p. pe_port saved = Some p \<longrightarrow> holder os file' p = Some (port_owner (pr_run_id manifest) service)) \<and>
    (\<forall>p. pe_listen_port saved = Some p \<and> pe_capture_api saved \<and> pe_port saved \<noteq> Some p \<longrightarrow>
       holder os file' p = Some (capture_backend_port_owner (pr_run_id manifest) service)) \<and>
    (\<forall>p. holder os file p \<noteq> None \<longrightarrow> holder os file' p = holder os file p)"
proof -
  obtain mid where mid: "reserve_entries os (run_reservations dk) entries file = (Inr (), mid)"
      "reserve_directory os dk (globals_root pe) (global_reservations pe dk) mid = (Inr (), file')"
    using assms(1,3-5) by (auto simp: sync_port_reservations_from_disk_def reserve_directory_def split: prod.splits sum.splits)
  note runs = reserve_entries_Inr [OF mid(1) assms(2)]
  have globals: "keeps_holders os mid file'"
    using mid(2) reserve_entries_Inr [of os _ _ mid file'] runs
    by (auto simp: reserve_directory_def split: sum.splits if_splits)
  have held: "holder os file' p = Some owner" if "(p, owner) \<in> set (service_reservations (pr_run_id manifest) service saved)" for p owner
  proof -
    have "(p, owner) \<in> set (run_reservations dk dir)"
      using that assms(7-10) by (force simp: run_reservations_def Let_def)
    then have "holder os mid p = Some owner" using runs assms(6) by blast
    then show ?thesis using globals by (simp add: keeps_holders_def)
  qed
  show ?thesis
    using held keeps_holders_trans [of os "file" mid file'] runs globals
    by (auto simp: service_reservations_def keeps_holders_def split: option.splits if_splits)
qed

definition startup_disk :: disk where
  "startup_disk = example_disk (\<lambda>p. p \<in> {''/data/runs'', ''/d/runs/r1/manifest.json'', ''/p''}) saved_run"

theorem reservations_read_back_witness:
  "\<exists>file'. sync_port_reservations_from_disk (pv_paths example_pv) example_os startup_disk Reg_Blank = (Inr (), file') \<and>
     holder example_os file' 6000 = Some (port_owner ''r1'' ''web'')"
proof -
  let ?manifest = "persisted_run_of saved_run ''/d/runs/r1/manifest.json''"
  let ?path = "path_join ''/d/runs/r1'' ''manifest.json''"
  have "bm_ok (pr_services ?manifest)" "bm_ok (pr_env ?manifest)" "trim (pr_config_dir ?manifest) \<noteq> []"
    by (simp_all add: persisted_run_of_def bm_ok_def bm_map_def trim_def trim_start_def trim_end_def is_whitespace_def)
  then have load: "load_run_manifest (dk_reader startup_disk) path = Inr ?manifest" for path
    by (simp add: load_run_manifest_def startup_disk_def example_disk_def run_round_trip)
  have root: "runs_dir (pv_paths example_pv) = Inr ''/data/runs''" "globals_root (pv_paths example_pv) = Inr ''/data/globals''"
    and path: "?path = ''/d/runs/r1/manifest.json''" by code_simp+
  have disk: "dk_exists startup_disk ''/data/runs''" "\<not> dk_exists startup_disk ''/data/globals''" "dk_exists startup_disk ''/p''"
    "dk_exists startup_disk ?path" "dk_list startup_disk d = Inr [Inr ''/d/runs/r1'']" for d
    by (simp_all add: path) (simp_all add: startup_disk_def example_disk_def)
  have fields: "pr_run_id ?manifest = ''r1''" "pr_project_dir ?manifest = ''/p''"
    "pr_services ?manifest = [(''web'', persisted_service_of (example_record ''web'' Sv_Ready))]"
    "pr_state ?manifest = Run_Running" "pr_stopped_at ?manifest = None"
    by (simp_all add: persisted_run_of_def bm_map_def)
  have restorable: "run_manifest_is_restorable (dk_exists startup_disk) ?manifest"
    by (simp add: run_manifest_is_restorable_def fields disk)
  have saved: "pe_port (persisted_service_of (example_record ''web'' Sv_Ready)) = Some 6000"
    "pe_capture_api (persisted_service_of (example_record ''web'' Sv_Ready)) = False"
    by (simp_all add: persisted_service_of_def example_record_def)
  have "run_reservations startup_disk ''/d/runs/r1'' = [(6000, port_owner ''r1'' ''web'')]"
    by (simp add: run_reservations_def Let_def load disk restorable fields service_reservations_def saved split: option.split)
  moreover have "registry_usable example_os Reg_Blank"
    by (simp add: registry_usable_def example_os_def is_pid_alive_def)
  moreover obtain file' where "reserve_port example_os 6000 (port_owner ''r1'' ''web'') Reg_Blank = (Inr (), file')"
    using ports.reserve_free [OF calculation(2), of 6000 "port_owner ''r1'' ''web''"]
    by (auto simp: holder_def)
  ultimately have sync: "sync_port_reservations_from_disk (pv_paths example_pv) example_os startup_disk Reg_Blank = (Inr (), file')"
    and usable: "registry_usable example_os Reg_Blank"
    by (simp_all add: sync_port_reservations_from_disk_def reserve_directory_def root disk)
  have "(''web'', persisted_service_of (example_record ''web'' Sv_Ready)) \<in> set (pr_services ?manifest)" by (simp add: fields)
  from reservations_read_back [OF sync usable root(1) disk(1) disk(5) _ disk(4) load restorable this] sync
  show ?thesis using saved fields by auto
qed

text \<open>Whatever becomes of the globals, nobody loses a port to them.\<close>

lemma store_global_ports [simp]: "ap_ports (ga_app (snd (store_global gw key global ga))) = ap_ports (ga_app ga)"
proof -
  have "ap_ports (ga_app (snd (persist_global_manifest gw key ga'))) = ap_ports (ga_app ga')" for ga'
    by (simp add: persist_global_manifest_def split: option.split sum.split)
  then show ?thesis by (simp add: store_global_def case_prod_beta split: sum.split)
qed

lemma launch_global_ports [simp]:
  "ap_ports (ga_app (snd (launch_global gw gq key name svc existing active p ga))) = ap_ports (ga_app ga)"
  by (simp add: launch_global_def bring_up_global_def case_prod_beta Let_def split: sum.split option.split)

lemma ensure_global_ports:
  assumes "ensure_global gw gq name svc ga = Some (r, ga')" and "registry_usable (wo_os (gw_world gw)) (ap_ports (ga_app ga))"
  shows "registry_usable (wo_os (gw_world gw)) (ap_ports (ga_app ga')) \<and>
    keeps_holders (wo_os (gw_world gw)) (ap_ports (ga_app ga)) (ap_ports (ga_app ga'))"
proof (cases "global_layout gw (gq_project_dir gq) name")
  case (Inl e)
  then show ?thesis using assms by (simp add: ensure_global_def)
next
  case (Inr kp)
  obtain key path where kp: "kp = (key, path)" by fastforce
  obtain existing active out file' where port: "resolve_global_port (wo_os (gw_world gw)) name svc (global_port_owner key name)
      existing active (ga_answers ga) (ap_ports (ga_app ga)) = Some (out, file')"
    and ports: "ap_ports (ga_app ga') = file'"
    using assms(1) Inr kp
    by (auto simp: ensure_global_def Let_def split: option.splits sum.splits prod.splits
        dest!: arg_cong [where f = "\<lambda>r. ap_ports (ga_app (snd r))"])
  show ?thesis
  proof (cases out)
    case Inl': (Inl e)
    then show ?thesis using resolve_global_port_Inl [OF assms(2) port [unfolded Inl']] assms(2) ports by simp
  next
    case Inr': (Inr pr)
    obtain q rest where pr: "pr = (q, rest)" by fastforce
    show ?thesis
      using resolve_global_port_claimed [OF assms(2) port [unfolded Inr' pr]] ports by (simp add: port_claimed_def)
  qed
qed

lemma ensure_globals_ports:
  assumes "ensure_globals gw gq globals ports ga = Some (r, ga')" and "registry_usable (wo_os (gw_world gw)) (ap_ports (ga_app ga))"
  shows "registry_usable (wo_os (gw_world gw)) (ap_ports (ga_app ga')) \<and>
    keeps_holders (wo_os (gw_world gw)) (ap_ports (ga_app ga)) (ap_ports (ga_app ga'))"
  using assms
proof (induction globals arbitrary: ports ga)
  case (Cons ng globals)
  obtain name svc where ng: "ng = (name, svc)" by fastforce
  obtain out ga1 where one: "ensure_global gw gq name svc ga = Some (out, ga1)"
    using Cons.prems(1) by (auto simp: ng split: option.splits)
  note first = ensure_global_ports [OF one Cons.prems(2)]
  show ?case
  proof (cases out)
    case (Inl e)
    then show ?thesis using Cons.prems(1) first by (auto simp: ng one)
  next
    case (Inr port)
    then have "ensure_globals gw gq globals (bm_insert name port ports) ga1 = Some (r, ga')"
      using Cons.prems(1) by (simp add: ng one)
    from Cons.IH [OF this] first show ?thesis by (auto intro: keeps_holders_trans)
  qed
qed simp

end
