(* ===== verification/Up.thy ===== *)
theory Up
  imports Globals Handlers
begin

text \<open>
  Bringing a run up, \<open>up\<close> and \<open>refresh_run\<close> of \<open>src/src/app/commands/runs.rs\<close>: the stack that
  is asked for, the layout of a new run, its ports, environment and globals, and the launch of its
  services. The list of known projects that \<open>up\<close> touches is not part of the state. \<open>None\<close>: a search
  for a free port does not end. A \<open>build_base_env\<close> does not fail, so what follows a failure of it is
  not modelled.
\<close>

section \<open>The request\<close>

record up_request =
  uq_stack :: string
  uq_project_dir :: string
  uq_run_id :: "string option"
  uq_file :: "string option"
  uq_no_wait :: bool
  uq_new_run :: bool
  uq_force :: bool
  uq_services :: "string list"

text \<open>\<open>uw_canon\<close> answers \<open>canonicalize\<close>, \<open>uw_read\<close> reads a file, \<open>uw_digits\<close> are the random hexadecimal digits.\<close>

record up_world =
  uw_globals :: gworld
  uw_canon :: "string \<Rightarrow> string option"
  uw_read :: "string \<Rightarrow> string result"
  uw_digits :: "nat list"
  uw_answers :: "u16 result list"
  uw_init :: "prepared_service \<Rightarrow> unit result"
  uw_waits :: "prepared_service \<Rightarrow> unit result"

abbreviation uw_world :: "up_world \<Rightarrow> world" where
  "uw_world uw \<equiv> gw_world (uw_globals uw)"

abbreviation uw_disk :: "up_world \<Rightarrow> disk" where
  "uw_disk uw \<equiv> gw_disk (uw_globals uw)"

definition load_requested_stack ::
  "up_world \<Rightarrow> up_request \<Rightarrow> (string \<times> config_file \<times> stack_plan \<times> string) app_result" where
  "load_requested_stack uw request =
     (let project_dir = uq_project_dir request;
          config_path = (case uq_file request of
              Some path \<Rightarrow> path
            | None \<Rightarrow> config_default_path (dk_exists (uw_disk uw)) project_dir) in
      rbind (map_err Bad_Request (dk_config (uw_disk uw) config_path)) (\<lambda>config.
      rbind (map_err Bad_Request (stack_plan_filtered config (uq_stack request) (uq_services request))) (\<lambda>plan.
      Inr (config_path, config, plan, unwrap_or (path_parent config_path) project_dir))))"

definition build_tasks_map :: "config_file \<Rightarrow> (string, task_config) bmap" where
  "build_tasks_map config = unwrap_or (cf_tasks config) []"

definition generate_run_id :: "nat list \<Rightarrow> string \<Rightarrow> run_id" where
  "generate_run_id digits stack = stack @ ''-'' @ map hex_digit digits"

section \<open>Ports behind the capture proxies\<close>

definition listen_port_of ::
  "port_os \<Rightarrow> run_id \<Rightarrow> port_map \<Rightarrow> snapshots \<Rightarrow> bool \<Rightarrow> string \<Rightarrow> service_config \<Rightarrow> u16 result list \<Rightarrow> reg_file \<Rightarrow>
     ((u16 option \<times> u16 result list) result \<times> reg_file) option" where
  "listen_port_of os run_id port_map existing reuse_ports name service answers file =
     (let public_port = unwrap_or (map_of port_map name) None;
          owner = capture_backend_port_owner run_id name in
      if \<not> capture_api_enabled service True (public_port \<noteq> None) (svc_scheme service) then
        Some (Inr (public_port, answers), file)
      else if public_port = None then Some (Inr (None, answers), file)
      else
        (case (if reuse_ports then snapshot_listen_port existing name else None) of
           Some existing_port \<Rightarrow>
             if Some existing_port \<noteq> public_port then
               (case reserve_port os existing_port owner file of
                  (Inl e, file') \<Rightarrow> Some (Inl e, file')
                | (Inr _, file') \<Rightarrow> Some (Inr (Some existing_port, answers), file'))
             else
               map_option (\<lambda>(r, file'). (rbind r (\<lambda>(port, rest). Inr (Some port, rest)), file'))
                 (reserve_ephemeral_port os owner answers file)
         | None \<Rightarrow>
             map_option (\<lambda>(r, file'). (rbind r (\<lambda>(port, rest). Inr (Some port, rest)), file'))
               (reserve_ephemeral_port os owner answers file)))"

fun resolve_listen_ports_for_launch ::
  "port_os \<Rightarrow> run_id \<Rightarrow> (string \<times> service_config) list \<Rightarrow> port_map \<Rightarrow> snapshots \<Rightarrow> bool \<Rightarrow> port_map \<Rightarrow>
     u16 result list \<Rightarrow> reg_file \<Rightarrow> ((port_map \<times> u16 result list) result \<times> reg_file) option" where
  "resolve_listen_ports_for_launch os run_id [] port_map existing reuse_ports listen_ports answers file =
     Some (Inr (listen_ports, answers), file)"
| "resolve_listen_ports_for_launch os run_id ((name, service) # services) port_map existing reuse_ports listen_ports
      answers file =
     (case listen_port_of os run_id port_map existing reuse_ports name service answers file of
        None \<Rightarrow> None
      | Some (Inl e, file') \<Rightarrow> Some (Inl e, file')
      | Some (Inr (port, rest), file') \<Rightarrow>
          resolve_listen_ports_for_launch os run_id services port_map existing reuse_ports
            (bm_insert name port listen_ports) rest file')"

section \<open>Giving ports up\<close>

text \<open>One service; a release that fails is reported and ignored.\<close>

definition release_unpreserved ::
  "world \<Rightarrow> run_id \<Rightarrow> port_map \<Rightarrow> port_map \<Rightarrow> snapshots \<Rightarrow> service_name \<Rightarrow> app_state \<Rightarrow> app_state" where
  "release_unpreserved wo run_id port_map listen_port_map preserved name st =
     (let port = unwrap_or (map_of port_map name) None;
          listen_port = unwrap_or (map_of listen_port_map name) None;
          preserved_port = snapshot_port preserved name;
          preserved_listen_port = snapshot_listen_port preserved name;
          st1 = (if preserved_listen_port \<noteq> None \<and> preserved_listen_port \<noteq> preserved_port \<and> preserved_listen_port \<noteq> listen_port
                 then snd (release_service_capture_backend_port wo run_id name preserved_listen_port preserved_port st) else st);
          st2 = (if listen_port \<noteq> None \<and> listen_port \<noteq> port \<and> preserved_listen_port \<noteq> listen_port
                 then snd (release_service_capture_backend_port wo run_id name listen_port port st1) else st1) in
      if port \<noteq> None \<and> preserved_port \<noteq> port then snd (release_service_port wo run_id name port st2) else st2)"

definition release_unpreserved_stack_ports ::
  "world \<Rightarrow> run_id \<Rightarrow> stack_plan \<Rightarrow> port_map \<Rightarrow> port_map \<Rightarrow> snapshots \<Rightarrow> app_state \<Rightarrow> app_state" where
  "release_unpreserved_stack_ports wo run_id plan port_map listen_port_map preserved st =
     fold (release_unpreserved wo run_id port_map listen_port_map preserved) (bm_keys (sp_services plan)) st"

definition recorded_snapshots :: "run_record \<Rightarrow> snapshots" where
  "recorded_snapshots run = bm_map (\<lambda>_. snapshot_of_service) (rr_services run)"

definition release_unrecorded_stack_ports ::
  "world \<Rightarrow> run_id \<Rightarrow> stack_plan \<Rightarrow> launch_resources \<Rightarrow> app_state \<Rightarrow> app_state" where
  "release_unrecorded_stack_ports wo run_id plan resources st =
     (let recorded = (case with_run run_id recorded_snapshots (ap_runs st) of Inr snapshots \<Rightarrow> snapshots | Inl _ \<Rightarrow> []) in
      release_unpreserved_stack_ports wo run_id plan (lr_port_map resources) (lr_listen_port_map resources) recorded st)"

section \<open>The resources of a launch\<close>

definition sync_reservations :: "up_world \<Rightarrow> gapp \<Rightarrow> unit result \<times> gapp" where
  "sync_reservations uw =
     on_app (\<lambda>st. let (r, file) = sync_port_reservations_from_disk (wo_paths (uw_world uw)) (wo_os (uw_world uw)) (uw_disk uw)
                        (ap_ports st) in (r, st\<lparr>ap_ports := file\<rparr>))"

definition with_ports :: "reg_file \<Rightarrow> u16 result list \<Rightarrow> gapp \<Rightarrow> gapp" where
  "with_ports file answers ga = (app_do (\<lambda>st. st\<lparr>ap_ports := file\<rparr>) ga)\<lparr>ga_answers := answers\<rparr>"

definition with_global_ports :: "services \<Rightarrow> port_map \<Rightarrow> port_map \<Rightarrow> port_map" where
  "with_global_ports globals port_map listen_port_map =
     or_insert_all listen_port_map
       (List.map_filter (\<lambda>name. map_option (Pair name) (map_of port_map name)) (bm_keys globals))"

text \<open>
  From the ports of the stack to the resources, the part that a new run and a refresh share;
  \<open>preserved\<close> are the ports that stay when the globals fail.
\<close>

definition resources_from_ports ::
  "up_world \<Rightarrow> run_id \<Rightarrow> stack_plan \<Rightarrow> config_file \<Rightarrow> string \<Rightarrow> string \<Rightarrow> string \<Rightarrow> snapshots \<Rightarrow> snapshots \<Rightarrow> bool \<Rightarrow>
     port_map \<Rightarrow> gapp \<Rightarrow> (launch_resources app_result \<times> gapp) option" where
  "resources_from_ports uw run_id plan config project_dir config_path config_dir existing preserved reuse_ports port_map ga =
     (let tasks_map = build_tasks_map config;
          globals = globals_map config;
          gq = \<lparr>gq_tasks_map = tasks_map, gq_project_dir = project_dir, gq_config_path = config_path,
                gq_config_dir = config_dir\<rparr> in
      case ensure_globals (uw_globals uw) gq globals [] ga of
        None \<Rightarrow> None
      | Some (Inl e, ga1) \<Rightarrow>
          Some (Inl (Internal e),
                app_do (release_unpreserved_stack_ports (uw_world uw) run_id plan port_map [] preserved) ga1)
      | Some (Inr global_ports, ga1) \<Rightarrow>
          (let port_map1 = or_insert_all port_map global_ports in
           case resolve_listen_ports_for_launch (wo_os (uw_world uw)) run_id (sp_services plan) port_map1 existing reuse_ports
                  [] (ga_answers ga1) (ap_ports (ga_app ga1)) of
             None \<Rightarrow> None
           | Some (Inl e, file) \<Rightarrow> Some (Inl (Internal e), app_do (\<lambda>st. st\<lparr>ap_ports := file\<rparr>) ga1)
           | Some (Inr (listen_ports, answers), file) \<Rightarrow>
               (let listen_port_map = with_global_ports globals port_map1 listen_ports;
                    schemes = build_service_schemes (sp_services plan) globals in
                Some (Inr \<lparr>lr_config_dir = config_dir, lr_tasks_map = tasks_map, lr_port_map = port_map1,
                           lr_listen_port_map = listen_port_map, lr_service_schemes = schemes,
                           lr_base_env = build_base_env (Scope_Run run_id (sp_name plan)) project_dir port_map1
                                           listen_port_map schemes,
                           lr_global_env = cf_env config,
                           lr_global_env_file_path = resolve_global_env_file_path config config_dir\<rparr>,
                      with_ports file answers ga1))))"

definition build_new_launch_resources ::
  "up_world \<Rightarrow> run_id \<Rightarrow> stack_plan \<Rightarrow> config_file \<Rightarrow> string \<Rightarrow> string \<Rightarrow> string \<Rightarrow> gapp \<Rightarrow>
     (launch_resources app_result \<times> gapp) option" where
  "build_new_launch_resources uw run_id plan config project_dir config_path config_dir ga =
     (case sync_reservations uw ga of
        (Inl e, ga1) \<Rightarrow> Some (Inl (Internal e), ga1)
      | (Inr _, ga1) \<Rightarrow>
          (case allocate_ports (wo_os (uw_world uw)) (sp_services plan) (port_owner run_id) (ga_answers ga1)
                  (ap_ports (ga_app ga1)) of
             None \<Rightarrow> None
           | Some (Inl e, file) \<Rightarrow> Some (Inl (Bad_Request e), app_do (\<lambda>st. st\<lparr>ap_ports := file\<rparr>) ga1)
           | Some (Inr (port_map, answers), file) \<Rightarrow>
               resources_from_ports uw run_id plan config project_dir config_path config_dir [] [] False port_map
                 (with_ports file answers ga1)))"

text \<open>\<open>uw_answers\<close>: the ports the system offers once the ports of a refresh are found.\<close>

definition build_refresh_launch_resources ::
  "up_world \<Rightarrow> run_id \<Rightarrow> stack_plan \<Rightarrow> config_file \<Rightarrow> string \<Rightarrow> string \<Rightarrow> snapshots \<Rightarrow> bool \<Rightarrow> gapp \<Rightarrow>
     (launch_resources app_result \<times> gapp) option" where
  "build_refresh_launch_resources uw run_id plan config project_dir config_path existing reuse_ports ga =
     (let config_dir = unwrap_or (path_parent config_path) project_dir;
          preserved = (if reuse_ports then existing else []) in
      case sync_reservations uw ga of
        (Inl e, ga1) \<Rightarrow> Some (Inl (Internal e), ga1)
      | (Inr _, ga1) \<Rightarrow>
          (case resolve_ports_for_refresh (wo_os (uw_world uw)) run_id (sp_services plan) existing reuse_ports
                  (ga_answers ga1) (ap_ports (ga_app ga1)) of
             None \<Rightarrow> None
           | Some (Inl e, file) \<Rightarrow> Some (Inl (Internal e), app_do (\<lambda>st. st\<lparr>ap_ports := file\<rparr>) ga1)
           | Some (Inr port_map, file) \<Rightarrow>
               resources_from_ports uw run_id plan config project_dir config_path config_dir existing preserved reuse_ports
                 port_map (with_ports file (uw_answers uw) ga1)))"

section \<open>A new run\<close>

definition mkdirs :: "up_world \<Rightarrow> string result list \<Rightarrow> unit result" where
  "mkdirs uw = rforeach (\<lambda>path. rbind path (\<lambda>p. case gw_mkdir (uw_globals uw) p of Some e \<Rightarrow> Inl e | None \<Rightarrow> Inr ()))"

definition ensure_base_layout :: "up_world \<Rightarrow> unit result" where
  "ensure_base_layout uw =
     (let pe = wo_paths (uw_world uw) in
      mkdirs uw [daemon_dir pe, runs_dir pe, globals_root pe, base_join pe ''task-logs'', dashboard_dir pe, logs_index_dir pe])"

definition write_snapshot :: "up_world \<Rightarrow> string \<Rightarrow> string \<Rightarrow> gapp \<Rightarrow> unit result \<times> gapp" where
  "write_snapshot uw path raw ga =
     (case wo_write (uw_world uw) path of
        Some e \<Rightarrow> (Inl e, ga)
      | None \<Rightarrow> (Inr (), ga\<lparr>ga_snapshots := bm_insert path raw (ga_snapshots ga)\<rparr>))"

definition initialize_new_run_layout :: "up_world \<Rightarrow> run_id \<Rightarrow> string \<Rightarrow> gapp \<Rightarrow> unit app_result \<times> gapp" where
  "initialize_new_run_layout uw run_id config_path ga =
     (let pe = wo_paths (uw_world uw) in
      case rbind (ensure_base_layout uw) (\<lambda>_.
           rbind (run_dir pe run_id) (\<lambda>dir.
           rbind (run_logs_dir pe run_id) (\<lambda>logs.
           rbind (mkdirs uw [Inr logs, Inr dir]) (\<lambda>_.
           rbind (run_snapshot_path pe run_id) (\<lambda>path.
           rbind (uw_read uw config_path) (\<lambda>raw. Inr (path, raw))))))) of
        Inl e \<Rightarrow> (Inl (Internal e), ga)
      | Inr (path, raw) \<Rightarrow>
          (case write_snapshot uw path raw ga of
             (Inl e, ga1) \<Rightarrow> (Inl (Internal e), ga1)
           | (Inr _, ga1) \<Rightarrow> (let (r, ga2) = sync_reservations uw ga1 in (internal_error r, ga2))))"

text \<open>The launch itself: when it fails, the ports of the services that have no record go.\<close>

definition launch_stack ::
  "up_world \<Rightarrow> run_id \<Rightarrow> stack_plan \<Rightarrow> string \<Rightarrow> launch_resources \<Rightarrow> bool \<Rightarrow> bool \<Rightarrow> snapshots \<Rightarrow> app_state \<Rightarrow>
     run_response app_result \<times> app_state" where
  "launch_stack uw run_id plan project_dir resources no_wait force existing st =
     (case launch_services (uw_world uw) (gw_prepare (uw_globals uw)) (uw_init uw) (uw_waits uw) run_id plan project_dir
             resources no_wait force existing st of
        (Inl e, st1) \<Rightarrow> (Inl e, release_unrecorded_stack_ports (uw_world uw) run_id plan resources st1)
      | (Inr _, st1) \<Rightarrow> finalize_run_launch (uw_world uw) run_id st1)"

definition launch_new_run ::
  "up_world \<Rightarrow> run_id \<Rightarrow> stack_plan \<Rightarrow> string \<Rightarrow> launch_resources \<Rightarrow> bool \<Rightarrow> app_state \<Rightarrow>
     run_response app_result \<times> app_state" where
  "launch_new_run uw run_id plan project_dir resources no_wait st =
     (case create_run_record (uw_world uw) run_id plan project_dir resources st of
        (Inl e, st1) \<Rightarrow> (Inl e, st1)
      | (Inr _, st1) \<Rightarrow> launch_stack uw run_id plan project_dir resources no_wait False [] st1)"

definition start_new_run ::
  "up_world \<Rightarrow> run_id \<Rightarrow> stack_plan \<Rightarrow> config_file \<Rightarrow> string \<Rightarrow> string \<Rightarrow> string \<Rightarrow> bool \<Rightarrow> gapp \<Rightarrow>
     (run_response app_result \<times> gapp) option" where
  "start_new_run uw run_id plan config project_dir config_path config_dir no_wait ga =
     (case initialize_new_run_layout uw run_id config_path ga of
        (Inl e, ga1) \<Rightarrow> Some (Inl e, ga1)
      | (Inr _, ga1) \<Rightarrow>
          (case build_new_launch_resources uw run_id plan config project_dir config_path config_dir ga1 of
             None \<Rightarrow> None
           | Some (Inl e, ga2) \<Rightarrow> Some (Inl e, ga2)
           | Some (Inr resources, ga2) \<Rightarrow>
               Some (on_app (launch_new_run uw run_id plan project_dir resources no_wait) ga2)))"

section \<open>Refreshing a run\<close>

definition snapshot_run_config :: "up_world \<Rightarrow> run_id \<Rightarrow> string \<Rightarrow> gapp \<Rightarrow> unit app_result \<times> gapp" where
  "snapshot_run_config uw run_id config_path ga =
     (case run_snapshot_path (wo_paths (uw_world uw)) run_id of
        Inl e \<Rightarrow> (Inl (Internal e), ga)
      | Inr path \<Rightarrow>
          (Inr (), (case uw_read uw config_path of
                      Inr raw \<Rightarrow> snd (write_snapshot uw path raw ga)
                    | Inl _ \<Rightarrow> ga)))"

text \<open>What a refresh reads of the run first: its services, those that left the stack, and whether ports are kept.\<close>

definition refresh_view :: "stack_plan \<Rightarrow> run_record \<Rightarrow> snapshots \<times> service_name list \<times> bool" where
  "refresh_view plan run =
     (recorded_snapshots run, filter (\<lambda>name. \<not> bm_contains (sp_services plan) name) (bm_keys (rr_services run)),
      rr_stopped_at run = None)"

definition refresh_run ::
  "up_world \<Rightarrow> run_id \<Rightarrow> config_file \<Rightarrow> stack_plan \<Rightarrow> string \<Rightarrow> string \<Rightarrow> bool \<Rightarrow> bool \<Rightarrow> gapp \<Rightarrow>
     (run_response app_result \<times> gapp) option" where
  "refresh_run uw run_id config plan project_dir config_path no_wait force ga =
     (case with_run run_id (refresh_view plan) (ap_runs (ga_app ga)) of
        Inl _ \<Rightarrow> Some (Inl (Not_Found (run_not_found run_id)), ga)
      | Inr (existing, removed, reuse_ports) \<Rightarrow>
          (case on_app (remove_services_missing_from_stack (uw_world uw) run_id removed existing) ga of
             (Inl e, ga1) \<Rightarrow> Some (Inl e, ga1)
           | (Inr _, ga1) \<Rightarrow>
               (case build_refresh_launch_resources uw run_id plan config project_dir config_path existing reuse_ports ga1 of
                  None \<Rightarrow> None
                | Some (Inl e, ga2) \<Rightarrow> Some (Inl e, ga2)
                | Some (Inr resources, ga2) \<Rightarrow>
                    (case on_app (update_run_launch_resources run_id (lr_base_env resources)) ga2 of
                       (Inl e, ga3) \<Rightarrow> Some (Inl e, ga3)
                     | (Inr _, ga3) \<Rightarrow>
                         (case snapshot_run_config uw run_id config_path ga3 of
                            (Inl e, ga4) \<Rightarrow> Some (Inl e, ga4)
                          | (Inr _, ga4) \<Rightarrow>
                              Some (on_app (launch_stack uw run_id plan project_dir resources no_wait force existing) ga4))))))"

section \<open>Up\<close>

definition up :: "up_world \<Rightarrow> up_request \<Rightarrow> gapp \<Rightarrow> (run_response app_result \<times> gapp) option" where
  "up uw request ga =
     (let project_dir = uq_project_dir request in
      case load_requested_stack uw request of
        Inl e \<Rightarrow> Some (Inl e, ga)
      | Inr (config_path, config, plan, config_dir) \<Rightarrow>
          (case (if \<not> uq_new_run request \<and> uq_run_id request = None
                 then find_latest_run_for_project_stack (uw_canon uw) project_dir (uq_stack request) (ap_runs (ga_app ga))
                 else None) of
             Some existing \<Rightarrow>
               refresh_run uw existing config plan project_dir config_path (uq_no_wait request) (uq_force request) ga
           | None \<Rightarrow>
               start_new_run uw
                 (case uq_run_id request of Some rid \<Rightarrow> rid | None \<Rightarrow> generate_run_id (uw_digits uw) (uq_stack request))
                 plan config project_dir config_path config_dir (uq_no_wait request) ga))"

section \<open>What giving ports up does to the registry\<close>

text \<open>A release whose failure is ignored: it frees a port exactly when its owner holds it.\<close>

definition give_up :: "port_os \<Rightarrow> (u16 \<times> string) list \<Rightarrow> reg_file \<Rightarrow> reg_file" where
  "give_up os rels file = fold (\<lambda>(p, owner) f. snd (release_port os p owner f)) rels file"

lemma give_up_simps [simp]:
  "give_up os [] file = file" "give_up os ((p, owner) # rels) file = give_up os rels (snd (release_port os p owner file))"
  "give_up os (rels @ rels') file = give_up os rels' (give_up os rels file)"
  by (simp_all add: give_up_def)

lemma release_ignored:
  assumes "registry_usable os file"
  shows "registry_usable os (snd (release_port os p owner file)) \<and>
    holder os (snd (release_port os p owner file)) = (\<lambda>q. if q = p \<and> holder os file p = Some owner then None else holder os file q)"
proof (cases "holder os file p \<in> {None, Some owner}")
  case True
  from ports.release_own [OF assms True] show ?thesis using True by (auto simp: fun_eq_iff)
next
  case False
  from ports.release_other [OF assms False] show ?thesis using False assms by (auto simp: fun_eq_iff)
qed

lemma give_up_holder:
  assumes "registry_usable os file"
  shows "registry_usable os (give_up os rels file) \<and>
    (\<forall>q. holder os (give_up os rels file) q = (if \<exists>owner. (q, owner) \<in> set rels \<and> holder os file q = Some owner then None else holder os file q))"
  using assms
proof (induction rels arbitrary: "file")
  case (Cons po rels)
  obtain p owner where po: "po = (p, owner)" by fastforce
  note one = release_ignored [OF Cons.prems, of p owner]
  then show ?case using Cons.IH [of "snd (release_port os p owner file)"] by (auto simp: po)
qed simp

text \<open>The ports one service of the stack gives up.\<close>

definition unpreserved_ports :: "run_id \<Rightarrow> port_map \<Rightarrow> port_map \<Rightarrow> snapshots \<Rightarrow> service_name \<Rightarrow> (u16 \<times> string) list" where
  "unpreserved_ports run_id port_map listen_port_map preserved name =
     (let port = unwrap_or (map_of port_map name) None;
          listen_port = unwrap_or (map_of listen_port_map name) None;
          old = snapshot_port preserved name; old_listen = snapshot_listen_port preserved name;
          backend = (\<lambda>p. (p, capture_backend_port_owner run_id name)) in
      (case old_listen of Some p \<Rightarrow> if old_listen \<noteq> old \<and> old_listen \<noteq> listen_port then [backend p] else [] | None \<Rightarrow> []) @
      (case listen_port of Some p \<Rightarrow> if listen_port \<noteq> port \<and> old_listen \<noteq> listen_port then [backend p] else [] | None \<Rightarrow> []) @
      (case port of Some p \<Rightarrow> if old \<noteq> port then [(p, port_owner run_id name)] else [] | None \<Rightarrow> []))"

lemma release_service_ports_eq:
  "snd (release_service_port wo run_id name (Some p) st) = st\<lparr>ap_ports := give_up (wo_os wo) [(p, port_owner run_id name)] (ap_ports st)\<rparr>"
  "snd (release_service_capture_backend_port wo run_id name (Some p) q st) =
     (if q = Some p then st else st\<lparr>ap_ports := give_up (wo_os wo) [(p, capture_backend_port_owner run_id name)] (ap_ports st)\<rparr>)"
  by (simp_all add: release_service_port_def release_service_capture_backend_port_def case_prod_beta)

lemma release_unpreserved_eq:
  "release_unpreserved wo run_id port_map listen_port_map preserved name st =
     st\<lparr>ap_ports := give_up (wo_os wo) (unpreserved_ports run_id port_map listen_port_map preserved name) (ap_ports st)\<rparr>"
  by (cases "unwrap_or (map_of port_map name) None"; cases "unwrap_or (map_of listen_port_map name) None";
      cases "snapshot_listen_port preserved name")
    (simp_all add: release_unpreserved_def unpreserved_ports_def Let_def release_service_ports_eq)

lemma fold_release_unpreserved:
  "fold (release_unpreserved wo run_id port_map listen_port_map preserved) names st =
     st\<lparr>ap_ports := give_up (wo_os wo) (concat (map (unpreserved_ports run_id port_map listen_port_map preserved) names)) (ap_ports st)\<rparr>"
  by (induction names arbitrary: st) (simp_all add: release_unpreserved_eq)

lemma release_stack_ports_holder:
  assumes "registry_usable (wo_os wo) (ap_ports st)"
  shows "holder (wo_os wo) (ap_ports (release_unpreserved_stack_ports wo run_id plan port_map listen_port_map preserved st)) q =
    (if \<exists>name owner. name \<in> set (bm_keys (sp_services plan)) \<and>
          (q, owner) \<in> set (unpreserved_ports run_id port_map listen_port_map preserved name) \<and> holder (wo_os wo) (ap_ports st) q = Some owner
     then None else holder (wo_os wo) (ap_ports st) q)"
  using give_up_holder [OF assms]
  by (auto simp: release_unpreserved_stack_ports_def fold_release_unpreserved)

lemma unpreserved_fresh:
  "(p, owner) \<in> set (unpreserved_ports run_id port_map [] [] name) \<longleftrightarrow>
     map_of port_map name = Some (Some p) \<and> owner = port_owner run_id name"
  by (cases "map_of port_map name") (auto simp: unpreserved_ports_def snapshot_port_def snapshot_listen_port_def Let_def split: option.splits)

section \<open>Ports when the resources of a launch cannot be built\<close>

abbreviation held :: "up_world \<Rightarrow> gapp \<Rightarrow> u16 \<Rightarrow> string option" where
  "held uw ga \<equiv> holder (wo_os (uw_world uw)) (ap_ports (ga_app ga))"

abbreviation ports_usable :: "up_world \<Rightarrow> gapp \<Rightarrow> bool" where
  "ports_usable uw ga \<equiv> registry_usable (wo_os (uw_world uw)) (ap_ports (ga_app ga))"

lemma reserve_ephemeral_port_ports:
  assumes "reserve_ephemeral_port os owner answers file = Some (r, file')" and "registry_usable os file"
  shows "registry_usable os file' \<and> keeps_holders os file file'"
proof (cases r)
  case (Inl e)
  then have "with_registry_loop os (allocate_ephemeral_port os owner answers) file = Some (Inl e, file')"
    using assms(1) by (simp add: reserve_ephemeral_port_def)
  from with_registry_loop_Inl [OF assms(2) this] show ?thesis using assms(2) by simp
next
  case (Inr out)
  have pid: "is_pid_alive os (os_pid os)" using assms(2) by (simp add: registry_usable_def)
  obtain reg where reg: "live_registry os reg" "holder os file = owners reg"
    and run: "\<And>action :: registry \<Rightarrow> ((u16 \<times> u16 result list) result \<times> registry) option.
        with_registry_loop os action file = map_option (commit file) (action reg)"
    using with_registry_loop_usable [OF assms(2)] by metis
  obtain reg' where loop: "allocate_ephemeral_port os owner answers reg = Some (Inr out, reg')" and file': "file' = Reg_Stored reg'"
    using assms(1) Inr by (auto simp: reserve_ephemeral_port_def run commit_eq_Inr)
  obtain port rest where out: "out = (port, rest)" by fastforce
  note got = allocate_ephemeral_port_Inr [OF loop [unfolded out]]
  have "live_registry os reg'" using got live_registry_insert [OF reg(1) pid] by simp
  then show ?thesis
    using got usable_stored [OF assms(2), of reg'] by (auto simp: keeps_holders_def file' holder_stored reg(2) owners_insert)
qed

lemma listen_port_of_ports:
  assumes "listen_port_of os run_id port_map existing reuse name service answers file = Some (r, file')" and "registry_usable os file"
  shows "registry_usable os file' \<and> keeps_holders os file file'"
proof -
  have reserve: "registry_usable os file'' \<and> keeps_holders os file file''" if "reserve_port os p owner file = (r', file'')" for p owner r' file''
  proof (cases r')
    case (Inl e)
    then have "with_registry os (reserve_specific_port os p owner False) file = (Inl e, file'')"
      using that by (simp add: reserve_port_def)
    from with_registry_Inl [OF assms(2) this] show ?thesis using assms(2) by simp
  next
    case (Inr u)
    then have "reserve_port os p owner file = (Inr (), file'')" using that by simp
    from reserve_port_ledger_Inr [OF assms(2) this] show ?thesis by (auto simp: keeps_holders_def)
  qed
  show ?thesis
    using assms
    by (auto simp: listen_port_of_def Let_def split: if_splits option.splits prod.splits sum.splits
        dest: reserve_ephemeral_port_ports reserve)
qed

lemma resolve_listen_ports:
  assumes "resolve_listen_ports_for_launch os run_id services port_map existing reuse listen answers file = Some (r, file')"
    and "registry_usable os file"
  shows "registry_usable os file' \<and> keeps_holders os file file'"
  using assms
proof (induction services arbitrary: listen answers "file")
  case (Cons ns services)
  obtain name service where ns: "ns = (name, service)" by fastforce
  obtain out mid where one: "listen_port_of os run_id port_map existing reuse name service answers file = Some (out, mid)"
    using Cons.prems(1) by (auto simp: ns split: option.splits)
  note first = listen_port_of_ports [OF one Cons.prems(2)]
  show ?case
  proof (cases out)
    case (Inl e)
    then show ?thesis using Cons.prems(1) first by (auto simp: ns one)
  next
    case (Inr pr)
    obtain port rest where "pr = (port, rest)" by fastforce
    then have "resolve_listen_ports_for_launch os run_id services port_map existing reuse (bm_insert name port listen) rest mid = Some (r, file')"
      using Cons.prems(1) Inr by (simp add: ns one)
    from Cons.IH [OF this] first show ?thesis by (auto intro: keeps_holders_trans)
  qed
qed simp

lemma with_ports_app [simp]: "ap_ports (ga_app (with_ports file answers ga)) = file"
  by (simp add: with_ports_def)

text \<open>
  When a new run cannot be brought up because its globals fail, the ports allocated to its services are
  free again, and the ports of everybody else are held as before.
\<close>

theorem failed_globals_free_ports:
  assumes "sync_reservations uw ga = (Inr (), ga1)" and "ports_usable uw ga1"
    and "allocate_ports (wo_os (uw_world uw)) (sp_services plan) (port_owner run_id) (ga_answers ga1) (ap_ports (ga_app ga1)) =
      Some (Inr (port_map, answers), file)"
    and "ensure_globals (uw_globals uw)
      \<lparr>gq_tasks_map = build_tasks_map config, gq_project_dir = project_dir, gq_config_path = config_path, gq_config_dir = config_dir\<rparr>
      (globals_map config) [] (with_ports file answers ga1) = Some (Inl e, ga2)"
  shows "\<exists>ga'. build_new_launch_resources uw run_id plan config project_dir config_path config_dir ga = Some (Inl (Internal e), ga') \<and>
    (\<forall>name p. map_of port_map name = Some (Some p) \<longrightarrow> held uw ga' p = None) \<and>
    (\<forall>p. held uw ga1 p \<noteq> None \<longrightarrow> (\<forall>name. held uw ga1 p \<noteq> Some (port_owner run_id name)) \<longrightarrow> held uw ga' p = held uw ga1 p)"
proof -
  let ?os = "wo_os (uw_world uw)"
  let ?ga' = "app_do (release_unpreserved_stack_ports (uw_world uw) run_id plan port_map [] []) ga2"
  note got = allocate_ports_granted [OF assms(2,3)]
  have "ports_usable uw (with_ports file answers ga1)" using got by simp
  note kept = ensure_globals_ports [OF assms(4) this]
  have built: "build_new_launch_resources uw run_id plan config project_dir config_path config_dir ga = Some (Inl (Internal e), ?ga')"
    using assms(1,3,4) by (simp add: build_new_launch_resources_def resources_from_ports_def Let_def)
  have released: "held uw ?ga' q = (if \<exists>name. name \<in> set (bm_keys (sp_services plan)) \<and> map_of port_map name = Some (Some q) \<and>
      held uw ga2 q = Some (port_owner run_id name) then None else held uw ga2 q)" for q
    using release_stack_ports_holder [of "uw_world uw" "ga_app ga2" run_id plan port_map "[]" "[]" q] kept
    by (auto simp: unpreserved_fresh)
  have mine: "name \<in> set (bm_keys (sp_services plan)) \<and> held uw ga2 p = Some (port_owner run_id name)"
    if "map_of port_map name = Some (Some p)" for name p
  proof -
    have "(name, Some p) \<in> set port_map" using that by (rule map_of_SomeD)
    then have "holder ?os file p = Some (port_owner run_id name)" using got by blast
    moreover have "name \<in> set (map fst port_map)" using \<open>(name, Some p) \<in> set port_map\<close> by force
    ultimately show ?thesis using kept got by (auto simp: keeps_holders_def bm_keys_def)
  qed
  have others: "held uw ga2 p = held uw ga1 p" if "held uw ga1 p \<noteq> None" for p
    using that got kept by (simp add: keeps_holders_def)
  show ?thesis
    using built released mine others by (intro exI [of _ ?ga']) auto
qed

text \<open>
  When the port behind a capture proxy cannot be had, the ports already allocated to the services of the
  new run stay reserved although there is no run: nothing releases them.
\<close>

theorem failed_listen_ports_stay_reserved:
  assumes "sync_reservations uw ga = (Inr (), ga1)" and "ports_usable uw ga1"
    and "allocate_ports (wo_os (uw_world uw)) (sp_services plan) (port_owner run_id) (ga_answers ga1) (ap_ports (ga_app ga1)) =
      Some (Inr (port_map, answers), file)"
    and "ensure_globals (uw_globals uw)
      \<lparr>gq_tasks_map = build_tasks_map config, gq_project_dir = project_dir, gq_config_path = config_path, gq_config_dir = config_dir\<rparr>
      (globals_map config) [] (with_ports file answers ga1) = Some (Inr global_ports, ga2)"
    and "resolve_listen_ports_for_launch (wo_os (uw_world uw)) run_id (sp_services plan) (or_insert_all port_map global_ports) [] False []
      (ga_answers ga2) (ap_ports (ga_app ga2)) = Some (Inl e, file2)"
  shows "\<exists>ga'. build_new_launch_resources uw run_id plan config project_dir config_path config_dir ga = Some (Inl (Internal e), ga') \<and>
    (\<forall>name p. map_of port_map name = Some (Some p) \<longrightarrow> held uw ga' p = Some (port_owner run_id name))"
proof -
  let ?ga' = "app_do (\<lambda>st. st\<lparr>ap_ports := file2\<rparr>) ga2"
  note got = allocate_ports_granted [OF assms(2,3)]
  have "ports_usable uw (with_ports file answers ga1)" using got by simp
  note kept = ensure_globals_ports [OF assms(4) this]
  then have usable: "registry_usable (wo_os (uw_world uw)) (ap_ports (ga_app ga2))" by blast
  note listen = resolve_listen_ports [OF assms(5) usable]
  have built: "build_new_launch_resources uw run_id plan config project_dir config_path config_dir ga = Some (Inl (Internal e), ?ga')"
    using assms(1,3,4,5) by (simp add: build_new_launch_resources_def resources_from_ports_def Let_def)
  have "held uw ?ga' p = Some (port_owner run_id name)" if "map_of port_map name = Some (Some p)" for name p
  proof -
    have "(name, Some p) \<in> set port_map" using that by (rule map_of_SomeD)
    then have "holder (wo_os (uw_world uw)) file p = Some (port_owner run_id name)" using got by blast
    then show ?thesis using kept listen by (simp add: keeps_holders_def)
  qed
  with built show ?thesis by blast
qed

lemma refresh_ports_granted:
  assumes "registry_usable os file"
    and "resolve_ports_for_refresh os run_id services existing reuse answers file = Some (Inr ports, file')"
  shows "registry_usable os file' \<and> keeps_holders os file file'"
proof -
  obtain kept needs mid where loop: "refresh_ports_loop os run_id existing reuse services file = (Inr (kept, needs), mid)"
    and rest: "file' = mid \<or> (\<exists>allocated more. allocate_ports os needs (port_owner run_id) answers mid = Some (Inr (allocated, more), file'))"
    using assms(2) by (auto simp: resolve_ports_for_refresh_def split: prod.splits sum.splits option.splits if_splits)
  have first: "registry_usable os mid \<and> keeps_holders os file mid"
    using refresh_ports_loop_Inr [OF loop assms(1)] by (simp add: refresh_done_def keeps_holders_def)
  then show ?thesis using rest allocate_ports_granted [of os mid] by (auto intro: keeps_holders_trans)
qed

text \<open>
  When a refresh of a running run fails because of its globals, every running service loses the
  reservation of the port behind its capture proxy, which it goes on using.
\<close>

theorem failed_refresh_releases_backend:
  assumes "sync_reservations uw ga = (Inr (), ga1)" and "ports_usable uw ga1"
    and "resolve_ports_for_refresh (wo_os (uw_world uw)) run_id (sp_services plan) existing True (ga_answers ga1) (ap_ports (ga_app ga1)) =
      Some (Inr port_map, file)"
    and "ensure_globals (uw_globals uw)
      \<lparr>gq_tasks_map = build_tasks_map config, gq_project_dir = project_dir, gq_config_path = config_path,
       gq_config_dir = unwrap_or (path_parent config_path) project_dir\<rparr>
      (globals_map config) [] (with_ports file (uw_answers uw) ga1) = Some (Inl e, ga2)"
    and "map_of existing name = Some service" and "sn_listen_port service = Some p" and "sn_port service \<noteq> Some p"
    and "map_of (sp_services plan) name = Some svc"
    and "held uw ga1 p = Some (capture_backend_port_owner run_id name)"
  shows "\<exists>ga'. build_refresh_launch_resources uw run_id plan config project_dir config_path existing True ga = Some (Inl (Internal e), ga') \<and>
    held uw ga' p = None"
proof -
  let ?ga' = "app_do (release_unpreserved_stack_ports (uw_world uw) run_id plan port_map [] existing) ga2"
  note got = refresh_ports_granted [OF assms(2,3)]
  have "ports_usable uw (with_ports file (uw_answers uw) ga1)" using got by simp
  note kept = ensure_globals_ports [OF assms(4) this]
  have "held uw ga2 p = Some (capture_backend_port_owner run_id name)"
    using assms(9) got kept by (simp add: keeps_holders_def)
  moreover have "name \<in> set (bm_keys (sp_services plan))" using assms(8) by (auto simp: set_bm_keys)
  moreover have "(p, capture_backend_port_owner run_id name) \<in> set (unpreserved_ports run_id port_map [] existing name)"
    using assms(5-7) by (simp add: unpreserved_ports_def snapshot_port_def snapshot_listen_port_def Let_def)
  ultimately have "held uw ?ga' p = None"
    using release_stack_ports_holder [of "uw_world uw" "ga_app ga2" run_id plan port_map "[]" existing p] kept by auto
  moreover have "build_refresh_launch_resources uw run_id plan config project_dir config_path existing True ga = Some (Inl (Internal e), ?ga')"
    using assms(1,3,4) by (simp add: build_refresh_launch_resources_def resources_from_ports_def Let_def)
  ultimately show ?thesis by blast
qed

section \<open>Examples\<close>

definition denied_world :: up_world where
  "denied_world =
     \<lparr>uw_globals = example_gworld\<lparr>gw_mkdir := \<lambda>_. Some ''denied''\<rparr>, uw_canon = (\<lambda>_. None), uw_read = (\<lambda>_. Inr ''version: 1''),
      uw_digits = [1, 2, 3, 4, 5, 6, 7, 8], uw_answers = [], uw_init = (\<lambda>_. Inr ()), uw_waits = (\<lambda>_. Inr ())\<rparr>"

definition db_config :: config_file where
  "db_config = web_config\<lparr>cf_globals := Some [(''db'', bare_service ''run'')]\<rparr>"

definition web_plan :: "service_config \<Rightarrow> stack_plan" where
  "web_plan svc = \<lparr>sp_name = ''dev'', sp_services = [(''web'', svc)], sp_order = [''web'']\<rparr>"

abbreviation reserved :: "u16 \<Rightarrow> string \<Rightarrow> u16 \<times> reservation" where
  "reserved p owner \<equiv> (p, my_entry example_os owner)"

lemma example_worlds [simp]:
  "gw_world example_gworld = example_world" "wo_os example_world = example_os" "gw_disk example_gworld = empty_disk"
  "uw_world denied_world = example_world" "uw_disk denied_world = empty_disk" "uw_answers denied_world = []"
  "dk_exists empty_disk path = False"
  by (simp_all add: example_gworld_def example_world_def denied_world_def empty_disk_def example_disk_def)

lemma example_sync:
  "wo_paths (uw_world uw) = pv_paths example_pv \<Longrightarrow> uw_disk uw = empty_disk \<Longrightarrow> sync_reservations uw ga = (Inr (), ga)"
  by (simp add: sync_reservations_def on_app_def sync_port_reservations_from_disk_def reserve_directory_def runs_dir_def globals_root_def
      base_join_def example_pv_def)

lemma example_web_port:
  "allocate_ports example_os [(''web'', bare_service ''run''\<lparr>sc_scheme := s\<rparr>)] (port_owner ''r1'') (Inr 6000 # rest) Reg_Blank =
     Some (Inr ([(''web'', Some 6000)], rest), Reg_Stored [reserved 6000 (port_owner ''r1'' ''web'')])"
  by (simp add: bare_service_def allocate_ports_def with_registry_loop_def open_registry_def
      example_os_def cleanup_stale_def bm_retain_def finish_registry_def my_entry_def bm_contains_def)

lemma denied_globals:
  "ensure_globals (uw_globals denied_world) \<lparr>gq_tasks_map = m, gq_project_dir = ''/p'', gq_config_path = c, gq_config_dir = d\<rparr>
     (globals_map db_config) [] ga = Some (Inl ''denied'', ga)"
proof -
  have "safe_name ''db''" by code_simp
  then obtain key where k: "global_key (pv_paths example_pv) ''/p'' ''db'' = Inr key" by (simp add: global_key_Inr)
  have "globals_map db_config = [(''db'', bare_service ''run'')]" by (simp add: db_config_def globals_map_def)
  moreover have "globals_root (pv_paths example_pv) = Inr ''/data/globals''" by code_simp
  moreover have "wo_paths example_world = pv_paths example_pv" by (simp add: example_world_def)
  ultimately show ?thesis
    using k by (simp add: ensure_global_def global_layout_def global_dir_def denied_world_def Let_def)
qed

lemma example_paths: "wo_paths example_world = pv_paths example_pv"
  by (simp add: example_world_def)

theorem failed_globals_free_ports_witness:
  "\<exists>ga'. build_new_launch_resources denied_world ''r1'' (web_plan (bare_service ''run'')) db_config ''/p'' ''/p/devstack.yml'' ''/p'' example_gapp =
     Some (Inl (Internal ''denied''), ga') \<and> held denied_world ga' 6000 = None"
proof -
  have usable: "ports_usable denied_world example_gapp" 
    by (simp add: example_gapp_def example_state_def registry_usable_def example_os_def is_pid_alive_def)
  have alloc: "allocate_ports (wo_os (uw_world denied_world)) (sp_services (web_plan (bare_service ''run''))) (port_owner ''r1'')
      (ga_answers example_gapp) (ap_ports (ga_app example_gapp)) =
      Some (Inr ([(''web'', Some 6000)], []), Reg_Stored [reserved 6000 (port_owner ''r1'' ''web'')])"
    using example_web_port [of None "[]"] by (simp add: web_plan_def example_gapp_def example_state_def bare_service_def)
  show ?thesis
    using failed_globals_free_ports [OF example_sync usable alloc denied_globals, where config_path = "''/p/devstack.yml''" and config_dir = "''/p''"]
    by (auto simp: example_paths)
qed

definition http_service :: service_config where
  "http_service = bare_service ''run''\<lparr>sc_scheme := Some ''http''\<rparr>"

definition example_up_world :: up_world where
  "example_up_world = denied_world\<lparr>uw_globals := example_gworld\<rparr>"

lemma example_up_worlds [simp]:
  "uw_globals example_up_world = example_gworld" "globals_map web_config = []"
  by (simp_all add: example_up_world_def web_config_def globals_map_def)

theorem failed_listen_ports_stay_reserved_witness:
  "\<exists>ga'. build_new_launch_resources example_up_world ''r1'' (web_plan http_service) web_config ''/p'' ''/p/devstack.yml'' ''/p''
       (example_gapp\<lparr>ga_answers := [Inr 6000, Inl ''no port'']\<rparr>) = Some (Inl (Internal ''no port''), ga') \<and>
     held example_up_world ga' 6000 = Some (port_owner ''r1'' ''web'')"
proof -
  let ?ga = "example_gapp\<lparr>ga_answers := [Inr 6000, Inl ''no port'']\<rparr>"
  let ?file = "Reg_Stored [reserved 6000 (port_owner ''r1'' ''web'')]"
  have usable: "ports_usable example_up_world ?ga"
    by (simp add: example_gapp_def example_state_def registry_usable_def example_os_def is_pid_alive_def)
  have alloc: "allocate_ports (wo_os (uw_world example_up_world)) (sp_services (web_plan http_service)) (port_owner ''r1'')
      (ga_answers ?ga) (ap_ports (ga_app ?ga)) = Some (Inr ([(''web'', Some 6000)], [Inl ''no port'']), ?file)"
    using example_web_port by (simp add: web_plan_def http_service_def example_gapp_def example_state_def)
  have globals: "ensure_globals (uw_globals example_up_world) gq (globals_map web_config) [] (with_ports ?file [Inl ''no port''] ?ga) =
      Some (Inr [], with_ports ?file [Inl ''no port''] ?ga)" for gq
    by simp
  have capture: "capture_api_enabled http_service True True (svc_scheme http_service)" by code_simp
  have listen: "resolve_listen_ports_for_launch (wo_os (uw_world example_up_world)) ''r1'' (sp_services (web_plan http_service))
      (or_insert_all [(''web'', Some 6000)] []) [] False [] (ga_answers (with_ports ?file [Inl ''no port''] ?ga))
      (ap_ports (ga_app (with_ports ?file [Inl ''no port''] ?ga))) = Some (Inl ''no port'', ?file)"
    using capture
    by (simp add: web_plan_def or_insert_all_def listen_port_of_def with_ports_def Let_def reserve_ephemeral_port_def with_registry_loop_def
        open_registry_def finish_registry_def example_os_def)
  show ?thesis
    using failed_listen_ports_stay_reserved [OF example_sync usable alloc globals listen, where config_path = "''/p/devstack.yml''" and
        config_dir = "''/p''" and project_dir = "''/p''"]
    by (auto simp: example_paths)
qed

definition captured :: service_snapshot where
  "captured = \<lparr>sn_watch_hash = Some ''h'', sn_state = Sv_Ready, sn_port = Some 6000, sn_listen_port = Some 7000\<rparr>"

definition captured_ports :: reg_file where
  "captured_ports = Reg_Stored [reserved 6000 (port_owner ''r1'' ''web''), reserved 7000 (capture_backend_port_owner ''r1'' ''web'')]"

theorem failed_refresh_releases_backend_witness:
  "\<exists>ga'. build_refresh_launch_resources denied_world ''r1'' (web_plan http_service) db_config ''/p'' ''/p/devstack.yml''
       [(''web'', captured)] True (with_ports captured_ports [] example_gapp) = Some (Inl (Internal ''denied''), ga') \<and>
     held denied_world ga' 7000 = None"
proof -
  let ?ga = "with_ports captured_ports [] example_gapp"
  have usable: "ports_usable denied_world ?ga"
    by (simp add: captured_ports_def registry_usable_def example_os_def is_pid_alive_def bm_ok_def my_entry_def)
  have alive: "is_pid_alive example_os 7" "os_pid example_os = 7" by (simp_all add: example_os_def is_pid_alive_def)
  have kept: "reserve_port example_os 6000 (port_owner ''r1'' ''web'') captured_ports = (Inr (), captured_ports)"
    by (simp add: reserve_port_def with_registry_def open_registry_def captured_ports_def cleanup_stale_def bm_retain_def my_entry_def
        reserve_specific_port_def finish_registry_def example_os_def is_pid_alive_def)
  have refresh: "resolve_ports_for_refresh (wo_os (uw_world denied_world)) ''r1'' (sp_services (web_plan http_service)) [(''web'', captured)] True
      (ga_answers ?ga) (ap_ports (ga_app ?ga)) = Some (Inr [(''web'', Some 6000)], captured_ports)"
    using kept by (simp add: resolve_ports_for_refresh_def web_plan_def refresh_one_def http_service_def bare_service_def snapshot_port_def
        captured_def)
  have mine: "held denied_world ?ga 7000 = Some (capture_backend_port_owner ''r1'' ''web'')"
    using alive by (simp add: captured_ports_def holder_def cleanup_stale_def bm_retain_def my_entry_def owners_def)
  show ?thesis
    using failed_refresh_releases_backend [OF example_sync usable refresh denied_globals, where name = "''web''" and p = 7000 and
        service = captured and svc = http_service] mine
    by (auto simp: example_paths captured_def web_plan_def)
qed

section \<open>A run that has been brought up\<close>

text \<open>What a run is, and the names of its services.\<close>

definition outline :: "run_record \<Rightarrow> (string \<times> string \<times> string \<times> string \<times> env_map) \<times> string set" where
  "outline run =
     ((rr_run_id run, rr_stack run, rr_project_dir run, rr_config_dir run, rr_base_env run), set (bm_keys (rr_services run)))"

definition outlines :: "app_state \<Rightarrow> run_id \<Rightarrow> ((string \<times> string \<times> string \<times> string \<times> env_map) \<times> string set) option" where
  "outlines st r = map_option outline (map_of (ap_runs st) r)"

lemma outlines_runs: "ap_runs st' = ap_runs st \<Longrightarrow> outlines st' = outlines st"
  by (simp add: outlines_def fun_eq_iff)

lemma outline_services [simp]: "bm_keys services = bm_keys (rr_services run) \<Longrightarrow> outline (run\<lparr>rr_services := services\<rparr>) = outline run"
  by (simp add: outline_def)

lemma outline_closures [simp]:
  "outline (snd (update_service service f absent run)) = outline run" "outline (snd (recompute_run_state run)) = outline run"
  "outline (snd (then_recompute (update_service service g []) run)) = outline run"
  by (simp_all add: update_service_def recompute_run_state_def then_recompute_def outline_def case_prod_beta Let_def split: option.split)

lemma with_run_state_outlines:
  assumes "\<And>run. outline (snd (f run)) = outline run"
  shows "outlines (snd (with_run_state run_id f st)) = outlines st"
  using assms by (auto simp: outlines_def with_run_state_eq fun_eq_iff split: option.split)

lemma effects_outlines [simp]:
  "outlines (emit_events es st) = outlines st" "outlines (raise_flags hs st) = outlines st" "outlines (set_paused h b st) = outlines st"
  "outlines (snd (new_handle st)) = outlines st" "outlines (snd (unit_call wo c st)) = outlines st"
  "outlines (snd (persist_manifest wo run_id st)) = outlines st" "outlines (snd (start_prepared_service wo scope p restart st)) = outlines st"
  by (rule outlines_runs; simp add: start_prepared_service_def case_prod_beta Let_def)+

lemma mark_service_outlines [simp]:
  "outlines (snd (mark_service_ready wo run_id service st)) = outlines st"
  "outlines (snd (mark_service_failed wo run_id service reason st)) = outlines st"
proof -
  have "outlines (snd (with_run_state run_id (\<lambda>run.
         let ((start, events), run1) =
               update_service service (ready_service (wo_now wo) run_id service (ap_next_handle st)) (False, []) run;
             (ev, run2) = recompute_run_state run1 in
         ((start, events @ event_list ev), run2)) st)) = outlines st"
    by (rule with_run_state_outlines) (simp add: case_prod_beta Let_def)
  moreover have "outlines (st'\<lparr>ap_next_handle := n, ap_health := h, ap_background := b\<rparr>) = outlines st'" for st' n h b
    by (rule outlines_runs) simp
  ultimately show "outlines (snd (mark_service_ready wo run_id service st)) = outlines st"
    by (auto simp: mark_service_ready_def case_prod_beta Let_def split: sum.split)
  show "outlines (snd (mark_service_failed wo run_id service reason st)) = outlines st"
    by (simp add: mark_service_failed_def case_prod_beta with_run_state_outlines split: sum.split)
qed

lemma sync_outlines [simp]:
  "outlines (snd (sync_service_auto_restart_watcher wo run_id service st)) = outlines st"
  "outlines (snd (sync_service_api_capture_proxy wo run_id service st)) = outlines st"
  by (simp_all add: sync_service_auto_restart_watcher_def sync_service_api_capture_proxy_def finish_watch_def finish_capture_def
      case_prod_beta Let_def with_run_state_outlines split: sum.split watch_decision.split capture_decision.split option.split bool.split)

lemma after_start_outlines [simp]:
  "outlines (snd (after_start wo waited run_id project_dir service tasks p no_wait st)) = outlines st"
proof -
  have "outlines (st'\<lparr>ap_background := b\<rparr>) = outlines st'" for st' b by (rule outlines_runs) simp
  then have "outlines (snd (handle_readiness wo waited run_id p no_wait post st')) = outlines st'" for st' post
    by (auto simp: handle_readiness_def case_prod_beta Let_def split: sum.split)
  then show ?thesis by (auto simp: after_start_def case_prod_beta Let_def split: sum.split)
qed

definition add_name :: "string \<Rightarrow> 'a \<times> string set \<Rightarrow> 'a \<times> string set" where
  "add_name name o1 = (fst o1, insert name (snd o1))"

definition with_name :: "run_id \<Rightarrow> string \<Rightarrow> (run_id \<Rightarrow> ('a \<times> string set) option) \<Rightarrow> run_id \<Rightarrow> ('a \<times> string set) option" where
  "with_name run_id name os = os(run_id := map_option (add_name name) (os run_id))"

lemma replace_outlines:
  "outlines (snd (with_run_state run_id (replace_service_record name rcd) st)) = with_name run_id name (outlines st)"
  by (auto simp: outlines_def with_run_state_eq fun_eq_iff with_name_def outline_def add_name_def replace_service_record_def Let_def
      set_bm_keys_insert set_bm_keys split: option.split)

lemma start_and_store_outlines:
  assumes "start_and_store wo waited scope run_id project_dir service tasks p no_wait existing st = (Inr u, st')"
  shows "outlines st' = with_name run_id (ps_name p) (outlines st)"
proof -
  obtain start_result st1 where start: "start_prepared_service wo scope p (bm_contains existing (ps_name p)) st = (start_result, st1)"
    by fastforce
  obtain r2 st2 where release: "release_previous_ports wo run_id (ps_name p) existing p st1 = (r2, st2)" by fastforce
  obtain r3 st3 where store: "store_service_launch_result wo run_id (ps_name p) p start_result st2 = (r3, st3)" by fastforce
  have same: "outlines st2 = outlines st"
    using effects_outlines(7) [of wo scope p "bm_contains existing (ps_name p)" st] start
      outlines_runs [OF start_parts_keys(2) [of wo run_id "ps_name p" existing p st1]] release by simp
  have ok: "r2 = Inr ()" "r3 = Inr ()"
    using assms start release store by (auto simp: start_and_store_def split: sum.splits)
  have "outlines st3 = with_name run_id (ps_name p) (outlines st2)"
    using store unfolding ok(2)
    by (auto simp: store_service_launch_result_def case_prod_beta Let_def replace_outlines dest!: arg_cong [where f = "outlines \<circ> snd"] split: sum.splits)
  moreover have "outlines st' = outlines st3"
  proof (cases start_result)
    case (Inl e)
    then show ?thesis using assms start release store ok by (simp add: start_and_store_def)
  next
    case (Inr v)
    then have "after_start wo waited run_id project_dir service tasks p no_wait st3 = (Inr u, st')"
      using assms start release store ok by (simp add: start_and_store_def)
    then show ?thesis using after_start_outlines by (metis snd_conv)
  qed
  ultimately show ?thesis using same by simp
qed

lemma launch_service_outlines:
  assumes "launch_service wo pv init waits scope run_id plan project_dir resources no_wait force [] name st = (Inr u, st')"
  shows "bm_contains (sp_services plan) name \<and> outlines st' = with_name run_id name (outlines st)"
proof -
  obtain service where service: "map_of (sp_services plan) name = Some service"
    using assms by (auto simp: launch_service_def split: option.splits)
  obtain p where p: "prepare_service pv scope project_dir (lr_config_dir resources) name service (lr_port_map resources)
      (lr_listen_port_map resources) (lr_service_schemes resources) (lr_base_env resources) (lr_global_env resources)
      (lr_global_env_file_path resources) = Inr p"
    using assms service by (auto simp: launch_service_def split: sum.splits)
  have named: "ps_name p = name" using p by (auto simp: prepare_service_def Let_def rbind_eq_Inr split: if_splits)
  have "outlines st' = with_name run_id name (outlines st)"
  proof (cases "case sc_init service of None \<Rightarrow> Inr () | Some tasks \<Rightarrow> if tasks = [] then Inr () else init p")
    case (Inl e)
    then have failed: "record_failed_init_service wo run_id name p e st = (Inr u, st')"
      using assms service p by (auto simp: launch_service_def)
    let ?rcd = "into_service_record p Sv_Failed (Some (''init task failed: '' @ e)) None"
    obtain r st1 where replaced: "with_run_state run_id (replace_service_record name ?rcd) st = (r, st1)" by fastforce
    then have "outlines st1 = with_name run_id name (outlines st)"
      using replace_outlines [of run_id name ?rcd st] by simp
    then show ?thesis
      using failed replaced by (auto simp: record_failed_init_service_def Let_def split: sum.splits)
  next
    case (Inr v)
    then have "start_and_store wo (waits p) scope run_id project_dir service (resolve_service_tasks service (lr_tasks_map resources)) p
        no_wait [] st = (Inr u, st')"
      using assms service p by (auto simp: launch_service_def)
    from start_and_store_outlines [OF this] show ?thesis by (simp add: named)
  qed
  then show ?thesis using service by (simp add: bm_contains_def)
qed

lemma launch_each_outlines:
  assumes "launch_each (launch_service wo pv init waits scope run_id plan project_dir resources no_wait force []) names st = (Inr u, st')"
    and "outlines st run_id = Some (i, ns)"
  shows "outlines st' run_id = Some (i, set names \<union> ns)"
  using assms
proof (induction names arbitrary: st ns)
  case (Cons name names)
  obtain st1 where one: "launch_service wo pv init waits scope run_id plan project_dir resources no_wait force [] name st = (Inr (), st1)"
    and rest: "launch_each (launch_service wo pv init waits scope run_id plan project_dir resources no_wait force []) names st1 = (Inr u, st')"
    using Cons.prems(1) by (auto split: prod.splits sum.splits)
  have "outlines st1 run_id = Some (i, insert name ns)"
    using launch_service_outlines [OF one] Cons.prems(2) by (simp add: with_name_def add_name_def)
  from Cons.IH [OF rest this] show ?case by simp
qed simp

text \<open>The answer of a launch is about the run as it is stored and as its manifest has it.\<close>

lemma finish_with_response_Inr:
  assumes "finish_with_response wo run_id st = (Inr response, st')"
  shows "\<exists>run path. map_of (ap_runs st') run_id = Some run \<and> run_manifest_path (wo_paths wo) (rr_run_id run) = Inr path \<and>
    response = run_response_from_record run path \<and> map_of (ap_manifests st') path = Some (persisted_run_of run path) \<and>
    ap_state_file st' = Some (bm_keys (ap_runs st')) \<and> ap_runs st' = ap_runs st"
proof -
  obtain r st1 where persisted: "persist_manifest wo run_id st = (r, st1)" by fastforce
  have ok: "r = Inr ()" "st' = st1" "run_response_of wo run_id st1 = Inr response"
    using assms persisted by (cases r; cases "run_response_of wo run_id st1"; simp add: finish_with_response_def internal_error_def)+
  obtain run where run: "map_of (ap_runs st) run_id = Some run"
    using persisted ok(1) by (auto simp: persist_manifest_def get_run_def split: option.splits)
  obtain path where path: "run_manifest_path (wo_paths wo) (rr_run_id run) = Inr path"
    using persisted ok(1) run by (cases "run_manifest_path (wo_paths wo) (rr_run_id run)") (auto simp: persist_manifest_def get_run_def)
  let ?st2 = "st\<lparr>ap_manifests := bm_insert path (persisted_run_of run path) (ap_manifests st)\<rparr>"
  have "write_daemon_state wo ?st2 = (Inr (), st1)"
    using persisted ok(1) run path by (simp add: persist_manifest_def get_run_def split: option.splits)
  then have "st1 = ?st2\<lparr>ap_state_file := Some (bm_keys (ap_runs st))\<rparr>"
    by (auto simp: write_daemon_state_def split: sum.splits option.splits)
  then show ?thesis
    using run path ok by (intro exI [of _ run] exI [of _ path]) (simp add: run_response_of_def get_run_def)
qed

lemma finalize_run_launch_Inr:
  assumes "finalize_run_launch wo run_id st = (Inr response, st')"
  shows "outlines st' = outlines st \<and>
    (\<exists>run path. map_of (ap_runs st') run_id = Some run \<and> run_manifest_path (wo_paths wo) (rr_run_id run) = Inr path \<and>
       response = run_response_from_record run path \<and> map_of (ap_manifests st') path = Some (persisted_run_of run path) \<and>
       ap_state_file st' = Some (bm_keys (ap_runs st')))"
proof -
  obtain r st1 where first: "with_run_state run_id recompute_run_state st = (r, st1)" by fastforce
  obtain ev where ev: "r = Inr ev" "finish_with_response wo run_id (emit_events (event_list ev) st1) = (Inr response, st')"
    using assms first by (cases r) (auto simp: finalize_run_launch_def)
  have same: "outlines st1 = outlines st"
    using with_run_state_outlines [of recompute_run_state run_id st] first by simp
  note done_with = finish_with_response_Inr [OF ev(2)]
  then have "outlines st' = outlines st" using same outlines_runs [of st' st1] by auto
  then show ?thesis using done_with by blast
qed

text \<open>
  C21. When a new run is brought up, it is stored under its id with the stack, the directories and the
  environment it was launched with and exactly the services of the plan; its manifest on disk and the answer
  are those of the stored run, and the state file of the daemon lists it.
\<close>

theorem new_run_brought_up:
  assumes "launch_new_run uw run_id plan project_dir resources no_wait st = (Inr response, st')"
  shows "\<exists>run path. map_of (ap_runs st') run_id = Some run \<and> rr_run_id run = run_id \<and> rr_stack run = sp_name plan \<and>
    rr_project_dir run = project_dir \<and> rr_config_dir run = lr_config_dir resources \<and> rr_base_env run = lr_base_env resources \<and>
    set (bm_keys (rr_services run)) = set (sp_order plan) \<and> run_manifest_path (wo_paths (uw_world uw)) run_id = Inr path \<and>
    map_of (ap_manifests st') path = Some (persisted_run_of run path) \<and> response = run_response_from_record run path \<and>
    (\<exists>listed. ap_state_file st' = Some listed \<and> run_id \<in> set listed)"
proof -
  let ?wo = "uw_world uw"
  let ?new = "new_run_record (wo_now ?wo) run_id (sp_name plan) project_dir (lr_config_dir resources) (lr_base_env resources)"
  obtain st1 where created: "create_run_record ?wo run_id plan project_dir resources st = (Inr (), st1)"
    and stack: "launch_stack uw run_id plan project_dir resources no_wait False [] st1 = (Inr response, st')"
    using assms by (auto simp: launch_new_run_def split: sum.splits prod.splits)
  have "outlines st1 run_id = Some ((run_id, sp_name plan, project_dir, lr_config_dir resources, lr_base_env resources), {})"
    using created
    by (auto simp: create_run_record_def create_run_def outlines_def outline_def new_run_record_def get_run_def Let_def bm_keys_def
        split: if_splits sum.splits)
  moreover obtain st2 where launched: "launch_services ?wo (gw_prepare (uw_globals uw)) (uw_init uw) (uw_waits uw) run_id plan project_dir
      resources no_wait False [] st1 = (Inr (), st2)" and finished: "finalize_run_launch ?wo run_id st2 = (Inr response, st')"
    using stack by (auto simp: launch_stack_def split: sum.splits prod.splits)
  ultimately have "outlines st2 run_id = Some ((run_id, sp_name plan, project_dir, lr_config_dir resources, lr_base_env resources), set (sp_order plan))"
    using launch_each_outlines [OF launched [unfolded launch_services_def]] by simp
  moreover obtain run path where run: "map_of (ap_runs st') run_id = Some run" "run_manifest_path (wo_paths ?wo) (rr_run_id run) = Inr path"
      "response = run_response_from_record run path" "map_of (ap_manifests st') path = Some (persisted_run_of run path)"
      "ap_state_file st' = Some (bm_keys (ap_runs st'))" "outlines st' = outlines st2"
    using finalize_run_launch_Inr [OF finished] by blast
  ultimately have "outlines st' run_id = Some ((run_id, sp_name plan, project_dir, lr_config_dir resources, lr_base_env resources), set (sp_order plan))"
    by simp
  then have "outline run = ((run_id, sp_name plan, project_dir, lr_config_dir resources, lr_base_env resources), set (sp_order plan))"
    using run(1) by (simp add: outlines_def)
  then show ?thesis
    using run by (intro exI [of _ run] exI [of _ path]) (auto simp: outline_def set_bm_keys)
qed

lemma finalize_run_launch_ok:
  assumes "map_of (ap_runs st) run_id = Some run" and "run_manifest_path (wo_paths wo) (rr_run_id run) = Inr path"
    and "daemon_state_path (wo_paths wo) = Inr file" and "\<And>path. wo_write wo path = None"
  shows "\<exists>response st'. finalize_run_launch wo run_id st = (Inr response, st')"
  using assms
  by (simp add: finalize_run_launch_def finish_with_response_def persist_manifest_def write_daemon_state_def
      with_run_state_eq get_run_def run_response_of_def internal_error_def recompute_run_state_def case_prod_beta Let_def)

theorem new_run_brought_up_witness:
  "\<exists>response st' run. launch_new_run example_up_world ''r1'' pair_plan ''/p'' pair_resources True fresh_daemon = (Inr response, st') \<and>
     map_of (ap_runs st') ''r1'' = Some run \<and> rr_stack run = ''dev'' \<and> set (bm_keys (rr_services run)) = {''db'', ''api''} \<and>
     map_of (ap_manifests st') ''/data/runs/r1/manifest.json'' = Some (persisted_run_of run ''/data/runs/r1/manifest.json'') \<and>
     response = run_response_from_record run ''/data/runs/r1/manifest.json''"
proof -
  let ?uw = example_up_world
  have world: "gw_world example_gworld = example_world" "gw_prepare example_gworld = example_pv" "uw_init ?uw = (\<lambda>_. Inr ())" "uw_waits ?uw = (\<lambda>_. Inr ())"
    by (simp_all add: example_up_world_def denied_world_def example_gworld_def)
  have writes: "wo_write example_world p = None" for p by (simp add: example_world_def)
  obtain st1 where created: "create_run_record example_world ''r1'' pair_plan ''/p'' pair_resources fresh_daemon = (Inr (), st1)"
    and contains: "''r1'' \<in> set (bm_keys (ap_runs st1))"
    and id: "outlines st1 ''r1'' = Some ((''r1'', ''dev'', ''/p'', ''/p'', []), {})"
    by (simp add: create_run_record_def create_run_def fresh_daemon_def example_state_def new_run_record_def get_run_def
        bm_contains_def bm_keys_def outlines_def outline_def pair_plan_def pair_resources_def Let_def)
  have "fst (launch_services example_world example_pv (\<lambda>_. Inr ()) (\<lambda>_. Inr ()) ''r1'' pair_plan ''/p''
      pair_resources True False [] st1) = Inr ()"
    by (rule launch_services_ok [OF contains _ _ pair_ready]) (simp_all add: example_world_def)
  then obtain st2 where launched: "launch_services example_world example_pv (\<lambda>_. Inr ()) (\<lambda>_. Inr ()) ''r1'' pair_plan ''/p''
      pair_resources True False [] st1 = (Inr (), st2)"
    by (auto simp: prod_eq_iff)
  obtain run where run: "map_of (ap_runs st2) ''r1'' = Some run" "rr_run_id run = ''r1''"
    using launch_each_outlines [OF launched [unfolded launch_services_def] id] by (auto simp: outlines_def outline_def)
  obtain response st' where finished: "finalize_run_launch example_world ''r1'' st2 = (Inr response, st')"
    using finalize_run_launch_ok [OF run(1) _ example_down_paths(2)] run(2) example_down_paths(1) writes by fastforce
  have brought: "launch_new_run ?uw ''r1'' pair_plan ''/p'' pair_resources True fresh_daemon = (Inr response, st')"
    by (simp add: launch_new_run_def launch_stack_def world created launched finished)
  show ?thesis
    using new_run_brought_up [OF brought] brought example_down_paths(1)
    by (auto simp: world pair_plan_def)
qed

end
