(* ===== verification/Tasks.thy ===== *)
theory Tasks
  imports Lifecycle Manifests
begin

unbundle bit_operations_syntax

text \<open>
  Tasks: their execution (\<open>src/src/services/tasks\<close>), the init and post-init tasks of a service
  and the detached executions that a client starts (\<open>src/src/app/commands/tasks.rs\<close>), and the
  queries about them (\<open>src/src/app/queries/tasks.rs\<close>). A command that runs is a parameter: the
  lines it writes in the order the two pumps handle them, its exit code and its times. The shell
  quoting of \<open>shlex\<close> and the reader of env files are parameters too.
\<close>

section \<open>The records\<close>

record task_result =
  tr_exit_code :: int
  tr_duration :: nat
  tr_last_stderr_line :: "string option"

definition task_success :: "task_result \<Rightarrow> bool" where
  "task_success result \<longleftrightarrow> tr_exit_code result = 0"

record task_entry =
  ty_task :: string
  ty_started_at :: string
  ty_finished_at :: string
  ty_exit_code :: int
  ty_duration_ms :: nat
  ty_log_file :: string
  ty_scope :: string

type_synonym task_history = "task_entry list"

datatype task_scope = Scope_Task_Run run_id | Scope_Ad_Hoc

record service_log_sink =
  sl_path :: string
  sl_stream_prefix :: string

record shell_command =
  sh_cmd :: string
  sh_cwd :: string
  sh_env :: env_map

text \<open>
  A command that was started: the lines of the two pipes with the time their pump read them
  (\<open>True\<close> for the standard error), the answer of the wait, and the clock around it.
\<close>

record task_child =
  tc_spawn_error :: "string option"
  tc_output :: "(bool \<times> string \<times> string) list"
  tc_exit :: "int option result"
  tc_started_at :: string
  tc_finished_at :: string
  tc_duration :: nat

record task_world =
  tw_env :: prepare_env
  tw_loader :: config_loader
  tw_canon :: "string \<Rightarrow> string option"
  tw_quote :: "string \<Rightarrow> string result"
  tw_child :: "nat \<Rightarrow> shell_command \<Rightarrow> task_child"
  tw_mkdir :: "string \<Rightarrow> string option"
  tw_open :: "string \<Rightarrow> string option"
  tw_read :: "string \<Rightarrow> string option"
  tw_write :: "string \<Rightarrow> string option"
  tw_parse :: json_parser
  tw_print :: "json \<Rightarrow> string"

text \<open>
  What tasks leave behind: the history files as the values they hold, the stored hashes, the logs,
  and the commands that were started.
\<close>

record task_disk =
  tk_histories :: "(string, json) bmap"
  tk_hashes :: "(string, string) bmap"
  tk_logs :: "(string, string list) bmap"
  tk_service_logs :: "(string, string list) bmap"
  tk_started :: "shell_command list"

abbreviation tw_paths :: "task_world \<Rightarrow> path_env" where
  "tw_paths tw \<equiv> pv_paths (tw_env tw)"

section \<open>The history of a run or project\<close>

definition task_entry_fields :: "string list" where
  "task_entry_fields =
     [''task'', ''started_at'', ''finished_at'', ''exit_code'', ''duration_ms'', ''log_file'', ''scope'']"

definition enc_task_entry :: "task_entry \<Rightarrow> json" where
  "enc_task_entry e =
     J_Obj [(''task'', J_Str (ty_task e)), (''started_at'', J_Str (ty_started_at e)),
            (''finished_at'', J_Str (ty_finished_at e)), (''exit_code'', J_Num (ty_exit_code e)),
            (''duration_ms'', J_Num (int (ty_duration_ms e))), (''log_file'', J_Str (ty_log_file e)),
            (''scope'', J_Str (ty_scope e))]"

definition dec_task_entry :: "json \<Rightarrow> task_entry option" where
  "dec_task_entry = dec_object task_entry_fields (\<lambda>m.
     Option.bind (dec_field m ''task'' dec_str) (\<lambda>task.
     Option.bind (dec_field m ''started_at'' dec_str) (\<lambda>started_at.
     Option.bind (dec_field m ''finished_at'' dec_str) (\<lambda>finished_at.
     Option.bind (dec_field m ''exit_code'' dec_i32) (\<lambda>exit_code.
     Option.bind (dec_field m ''duration_ms'' dec_u64) (\<lambda>duration_ms.
     Option.bind (dec_field m ''log_file'' dec_str) (\<lambda>log_file.
     Option.bind (dec_field m ''scope'' dec_str) (\<lambda>scope.
       Some \<lparr>ty_task = task, ty_started_at = started_at, ty_finished_at = finished_at,
             ty_exit_code = exit_code, ty_duration_ms = duration_ms, ty_log_file = log_file,
             ty_scope = scope\<rparr>))))))))"

definition enc_task_history :: "task_history \<Rightarrow> json" where
  "enc_task_history executions = J_Obj [(''executions'', J_Arr (map enc_task_entry executions))]"

definition dec_task_history :: "json \<Rightarrow> task_history option" where
  "dec_task_history = dec_object [''executions''] (\<lambda>m. dec_field m ''executions'' (dec_list dec_task_entry))"

text \<open>\<open>TaskHistory::load\<close> and \<open>append\<close>: a missing file is an empty history.\<close>

definition load_history :: "task_world \<Rightarrow> string \<Rightarrow> task_disk \<Rightarrow> task_history result" where
  "load_history tw path tk =
     (case map_of (tk_histories tk) path of
        None \<Rightarrow> Inr []
      | Some stored \<Rightarrow>
          (case tw_read tw path of
             Some _ \<Rightarrow> Inl (''read task history '' @ path)
           | None \<Rightarrow> ok_or (''parse task history '' @ path) (dec_task_history stored)))"

definition append_history ::
  "task_world \<Rightarrow> task_history \<Rightarrow> task_entry \<Rightarrow> string \<Rightarrow> task_disk \<Rightarrow> unit result \<times> task_disk" where
  "append_history tw executions execution path tk =
     (case tw_write tw path of
        Some _ \<Rightarrow> (Inl (''write task history '' @ path), tk)
      | None \<Rightarrow>
          (Inr (), tk\<lparr>tk_histories := bm_insert path (enc_task_history (executions @ [execution])) (tk_histories tk)\<rparr>))"

fun task_scope_label :: "task_scope \<Rightarrow> string" where
  "task_scope_label (Scope_Task_Run run_id) = ''run:'' @ run_id"
| "task_scope_label Scope_Ad_Hoc = ''adhoc''"

fun scoped_log_path :: "path_env \<Rightarrow> string \<Rightarrow> string \<Rightarrow> task_scope \<Rightarrow> string result" where
  "scoped_log_path pe project_dir task_name (Scope_Task_Run run_id) = task_log_path pe run_id task_name"
| "scoped_log_path pe project_dir task_name Scope_Ad_Hoc = ad_hoc_task_log_path pe project_dir task_name"

definition task_entry_of :: "string \<Rightarrow> task_scope \<Rightarrow> string \<Rightarrow> string \<Rightarrow> task_result \<Rightarrow> task_entry" where
  "task_entry_of task_name scope started_at finished_at result =
     \<lparr>ty_task = task_name, ty_started_at = started_at, ty_finished_at = finished_at,
      ty_exit_code = tr_exit_code result, ty_duration_ms = min (tr_duration result) (2 ^ 64 - 1),
      ty_log_file = task_name @ ''.log'', ty_scope = task_scope_label scope\<rparr>"

definition append_task_execution ::
  "task_world \<Rightarrow> string \<Rightarrow> string \<Rightarrow> task_scope \<Rightarrow> string \<Rightarrow> string \<Rightarrow> task_result \<Rightarrow> task_disk \<Rightarrow>
     unit result \<times> task_disk" where
  "append_task_execution tw history_path task_name scope started_at finished_at result tk =
     (case load_history tw history_path tk of
        Inl e \<Rightarrow> (Inl e, tk)
      | Inr history \<Rightarrow>
          append_history tw history
            (task_entry_of task_name scope started_at finished_at result) history_path tk)"

text \<open>\<open>latest_by_task\<close>: an execution replaces the one before it unless that one ended later.\<close>

definition supersedes :: "task_entry \<Rightarrow> task_entry \<Rightarrow> bool" where
  "supersedes execution current \<longleftrightarrow>
     ty_finished_at current < ty_finished_at execution \<or>
     ty_finished_at execution = ty_finished_at current \<and> ty_started_at current \<le> ty_started_at execution"

definition latest_step :: "(string, task_entry) bmap \<Rightarrow> task_entry \<Rightarrow> (string, task_entry) bmap" where
  "latest_step latest execution =
     (case map_of latest (ty_task execution) of
        None \<Rightarrow> bm_insert (ty_task execution) execution latest
      | Some current \<Rightarrow>
          if supersedes execution current then bm_insert (ty_task execution) execution latest else latest)"

definition latest_by_task :: "task_history \<Rightarrow> (string, task_entry) bmap" where
  "latest_by_task history = foldl latest_step [] history"

section \<open>Running a task\<close>

fun task_cmd_parts :: "task_config \<Rightarrow> string \<times> string option \<times> env_map \<times> string option" where
  "task_cmd_parts (Task_Command cmd) = (cmd, None, [], None)"
| "task_cmd_parts (Task_Structured def) = (td_cmd def, td_cwd def, td_env def, td_env_file def)"

fun task_watch :: "task_config \<Rightarrow> string list" where
  "task_watch (Task_Command _) = []"
| "task_watch (Task_Structured def) = td_watch def"

definition joined_dir :: "string \<Rightarrow> string option \<Rightarrow> string" where
  "joined_dir base dir =
     (case dir of None \<Rightarrow> base | Some p \<Rightarrow> if is_absolute p then p else path_join base p)"

fun task_cwd :: "task_config \<Rightarrow> string \<Rightarrow> string" where
  "task_cwd (Task_Command _) project_dir = project_dir"
| "task_cwd (Task_Structured def) project_dir = joined_dir project_dir (td_cwd def)"

fun push_args :: "(string \<Rightarrow> string result) \<Rightarrow> string \<Rightarrow> string list \<Rightarrow> string result" where
  "push_args quote cmd [] = Inr cmd"
| "push_args quote cmd (arg # args) =
     (case quote arg of
        Inl e \<Rightarrow> Inl (''failed to shell-escape arg: '' @ e)
      | Inr quoted_arg \<Rightarrow> push_args quote (cmd @ '' '' @ quoted_arg) args)"

text \<open>The variables set on the command: the base, the env file, the task's own, later ones winning.\<close>

definition env_file_into :: "task_world \<Rightarrow> string \<Rightarrow> string option \<Rightarrow> env_map \<Rightarrow> env_map result" where
  "env_file_into tw cwd env_file vars =
     (case env_file of
        None \<Rightarrow> Inr vars
      | Some p \<Rightarrow>
          (let path = joined_dir cwd (Some p) in
           if \<not> pv_exists (tw_env tw) path then Inr vars
           else rbind (map_err (\<lambda>_. ''read env file '' @ path) (pv_dotenv (tw_env tw) path)) (\<lambda>items.
             map_err (\<lambda>_. ''parse env file '' @ path) (collect_env_items vars items))))"

definition task_command ::
  "task_world \<Rightarrow> task_config \<Rightarrow> string \<Rightarrow> string list \<Rightarrow> env_map \<Rightarrow> shell_command result" where
  "task_command tw task project_dir trailing_args base_env =
     (case task_cmd_parts task of (cmd, cwd, env, env_file) \<Rightarrow>
        rbind (push_args (tw_quote tw) cmd trailing_args) (\<lambda>cmd.
        let cwd = joined_dir project_dir cwd in
        rbind (env_file_into tw cwd env_file base_env) (\<lambda>vars.
        Inr \<lparr>sh_cmd = cmd, sh_cwd = cwd, sh_env = bm_extend vars env\<rparr>)))"

text \<open>
  \<open>spawn_log_pump\<close>: what one line adds to the log of the task, to the log of the service, and to
  the last line of the standard error that is not blank.
\<close>

definition clean_line :: "string \<Rightarrow> string" where
  "clean_line line = strip_ansi_if_needed (trim_newlines line)"

definition log_label :: "bool \<Rightarrow> string" where
  "log_label is_stderr = (if is_stderr then ''stderr'' else ''stdout'')"

definition task_log_line :: "bool \<times> string \<times> string \<Rightarrow> string" where
  "task_log_line = (\<lambda>(is_stderr, line, timestamp).
     ''['' @ timestamp @ ''] ['' @ log_label is_stderr @ ''] '' @ clean_line line)"

definition service_log_line :: "task_world \<Rightarrow> string \<Rightarrow> bool \<times> string \<times> string \<Rightarrow> string" where
  "service_log_line tw stream = (\<lambda>(_, line, timestamp).
     encode_log_line (tw_parse tw) (tw_print tw) stream (clean_line line) timestamp)"

fun last_stderr_line :: "string option \<Rightarrow> (bool \<times> string \<times> string) list \<Rightarrow> string option" where
  "last_stderr_line prev [] = prev"
| "last_stderr_line prev ((is_stderr, line, timestamp) # rest) =
     last_stderr_line
       (if is_stderr \<and> trim (clean_line line) \<noteq> [] then Some (clean_line line) else prev) rest"

definition append_lines :: "string \<Rightarrow> string list \<Rightarrow> (string, string list) bmap \<Rightarrow> (string, string list) bmap" where
  "append_lines path lines logs = bm_insert path (unwrap_or (map_of logs path) [] @ lines) logs"

definition pump_output ::
  "task_world \<Rightarrow> string \<Rightarrow> string \<Rightarrow> service_log_sink option \<Rightarrow> (bool \<times> string \<times> string) list \<Rightarrow> task_disk \<Rightarrow> task_disk" where
  "pump_output tw task_name log_path service_log output tk =
     (let tk1 = tk\<lparr>tk_logs := append_lines log_path (map task_log_line output) (tk_logs tk)\<rparr> in
      case service_log of
        None \<Rightarrow> tk1
      | Some sink \<Rightarrow>
          tk1\<lparr>tk_service_logs := append_lines (sl_path sink)
                (map (service_log_line tw (sl_stream_prefix sink @ '':'' @ task_name)) output) (tk_service_logs tk1)\<rparr>)"

definition started_command :: "shell_command \<Rightarrow> task_disk \<Rightarrow> task_disk" where
  "started_command sh tk = tk\<lparr>tk_started := tk_started tk @ [sh]\<rparr>"

definition result_of_child :: "task_child \<Rightarrow> int option \<Rightarrow> string option \<Rightarrow> task_result" where
  "result_of_child c exit_code last_line =
     \<lparr>tr_exit_code = unwrap_or exit_code 1, tr_duration = tc_duration c, tr_last_stderr_line = last_line\<rparr>"

definition record_execution ::
  "task_world \<Rightarrow> string \<Rightarrow> string \<Rightarrow> task_scope \<Rightarrow> task_child \<Rightarrow> task_result \<Rightarrow> task_disk \<Rightarrow>
     task_result result \<times> task_disk" where
  "record_execution tw history_path task_name scope c result tk =
     (case append_task_execution tw history_path task_name scope (tc_started_at c) (tc_finished_at c) result tk of
        (Inl e, tk1) \<Rightarrow> (Inl e, tk1)
      | (Inr _, tk1) \<Rightarrow> (Inr result, tk1))"

definition run_verbose ::
  "task_world \<Rightarrow> string \<Rightarrow> task_scope \<Rightarrow> string \<Rightarrow> shell_command \<Rightarrow> task_disk \<Rightarrow> task_result result \<times> task_disk" where
  "run_verbose tw task_name scope history_path sh tk =
     (let c = tw_child tw (length (tk_started tk)) sh in
      case tc_spawn_error c of
        Some _ \<Rightarrow> (Inl ''run task'', tk)
      | None \<Rightarrow>
          (case tc_exit c of
             Inl _ \<Rightarrow> (Inl ''run task'', started_command sh tk)
           | Inr exit_code \<Rightarrow>
               record_execution tw history_path task_name scope c (result_of_child c exit_code None) (started_command sh tk)))"

text \<open>The files are opened after the command was started: an error there leaves it running.\<close>

definition open_logs :: "task_world \<Rightarrow> string \<Rightarrow> service_log_sink option \<Rightarrow> task_disk \<Rightarrow> unit result \<times> task_disk" where
  "open_logs tw log_path service_log tk =
     (case tw_open tw log_path of
        Some _ \<Rightarrow> (Inl (''create task log '' @ log_path), tk)
      | None \<Rightarrow>
          (let tk1 = tk\<lparr>tk_logs := bm_insert log_path [] (tk_logs tk)\<rparr> in
           case service_log of
             None \<Rightarrow> (Inr (), tk1)
           | Some sink \<Rightarrow>
               (case Option.bind (path_parent (sl_path sink)) (\<lambda>dir. map_option (\<lambda>_. dir) (tw_mkdir tw dir)) of
                  Some dir \<Rightarrow> (Inl (''create service log dir '' @ dir), tk1)
                | None \<Rightarrow>
                    (case tw_open tw (sl_path sink) of
                       Some _ \<Rightarrow> (Inl (''open service log '' @ sl_path sink), tk1)
                     | None \<Rightarrow> (Inr (), tk1)))))"

definition run_logged ::
  "task_world \<Rightarrow> string \<Rightarrow> string \<Rightarrow> task_scope \<Rightarrow> string \<Rightarrow> service_log_sink option \<Rightarrow> shell_command \<Rightarrow> task_disk \<Rightarrow>
     task_result result \<times> task_disk" where
  "run_logged tw task_name project_dir scope history_path service_log sh tk =
     (case scoped_log_path (tw_paths tw) project_dir task_name scope of
        Inl e \<Rightarrow> (Inl e, tk)
      | Inr log_path \<Rightarrow>
          (case Option.bind (path_parent log_path) (\<lambda>dir. map_option (\<lambda>_. dir) (tw_mkdir tw dir)) of
             Some dir \<Rightarrow> (Inl (''create task log dir '' @ dir), tk)
           | None \<Rightarrow>
               (let c = tw_child tw (length (tk_started tk)) sh in
                case tc_spawn_error c of
                  Some _ \<Rightarrow> (Inl ''run task'', tk)
                | None \<Rightarrow>
                    (case open_logs tw log_path service_log (started_command sh tk) of
                       (Inl e, tk1) \<Rightarrow> (Inl e, tk1)
                     | (Inr _, tk1) \<Rightarrow>
                         (let tk2 = pump_output tw task_name log_path service_log (tc_output c) tk1 in
                          case tc_exit c of
                            Inl _ \<Rightarrow> (Inl ''wait for task'', tk2)
                          | Inr exit_code \<Rightarrow>
                              record_execution tw history_path task_name scope c
                                (result_of_child c exit_code (last_stderr_line None (tc_output c))) tk2)))))"

definition run_task ::
  "task_world \<Rightarrow> string \<Rightarrow> task_config \<Rightarrow> string \<Rightarrow> task_scope \<Rightarrow> string \<Rightarrow> bool \<Rightarrow> string list \<Rightarrow> env_map \<Rightarrow>
     service_log_sink option \<Rightarrow> task_disk \<Rightarrow> task_result result \<times> task_disk" where
  "run_task tw task_name task project_dir scope history_path verbose trailing_args base_env service_log tk =
     (case task_command tw task project_dir trailing_args base_env of
        Inl e \<Rightarrow> (Inl e, tk)
      | Inr sh \<Rightarrow>
          if verbose then run_verbose tw task_name scope history_path sh tk
          else run_logged tw task_name project_dir scope history_path service_log sh tk)"

section \<open>Init and post-init tasks\<close>

definition task_hash_path :: "path_env \<Rightarrow> string \<Rightarrow> string \<Rightarrow> string result" where
  "task_hash_path pe project_dir task_name =
     rbind (validate_name_for_path_component ''task'' task_name) (\<lambda>_.
     rbind (task_hashes_dir pe project_dir) (\<lambda>d. Inr (path_join d (task_name @ ''.sha256''))))"

definition task_watch_hash :: "task_world \<Rightarrow> string \<Rightarrow> string list \<Rightarrow> string result" where
  "task_watch_hash tw cwd watch = pv_watch_hash (tw_env tw) cwd (Some watch) [] [] ''task-watch-v1''"

definition load_stored_hash :: "task_world \<Rightarrow> string \<Rightarrow> string \<Rightarrow> task_disk \<Rightarrow> string option result" where
  "load_stored_hash tw project_dir task_name tk =
     rbind (task_hash_path (tw_paths tw) project_dir task_name) (\<lambda>path.
       case map_of (tk_hashes tk) path of
         None \<Rightarrow> Inr None
       | Some stored \<Rightarrow>
           (case tw_read tw path of
              Some _ \<Rightarrow> Inl (''read task hash '' @ path)
            | None \<Rightarrow> Inr (Some (trim stored))))"

definition store_hash :: "task_world \<Rightarrow> string \<Rightarrow> string \<Rightarrow> string \<Rightarrow> task_disk \<Rightarrow> unit result \<times> task_disk" where
  "store_hash tw project_dir task_name hash tk =
     (case task_hashes_dir (tw_paths tw) project_dir of
        Inl e \<Rightarrow> (Inl e, tk)
      | Inr dir \<Rightarrow>
          (case tw_mkdir tw dir of
             Some e \<Rightarrow> (Inl e, tk)
           | None \<Rightarrow>
               (case task_hash_path (tw_paths tw) project_dir task_name of
                  Inl e \<Rightarrow> (Inl e, tk)
                | Inr path \<Rightarrow>
                    (case tw_write tw path of
                       Some _ \<Rightarrow> (Inl (''write task hash '' @ path), tk)
                     | None \<Rightarrow> (Inr (), tk\<lparr>tk_hashes := bm_insert path hash (tk_hashes tk)\<rparr>)))))"

definition task_failed_with :: "string \<Rightarrow> string \<Rightarrow> task_result \<Rightarrow> string" where
  "task_failed_with phase name result =
     phase @ '' task '' @ quoted name @ '' failed with exit code '' @ show_int (tr_exit_code result)"

record task_phase =
  tp_tasks :: "(string, task_config) bmap"
  tp_project_dir :: string
  tp_scope :: task_scope
  tp_history_path :: string
  tp_verbose :: bool
  tp_skip_if_unchanged :: bool
  tp_phase :: string
  tp_base_env :: env_map
  tp_service_log :: "service_log_sink option"

definition run_checked :: "task_world \<Rightarrow> task_phase \<Rightarrow> string \<Rightarrow> task_config \<Rightarrow> task_disk \<Rightarrow> unit result \<times> task_disk" where
  "run_checked tw ph name task tk =
     (case run_task tw name task (tp_project_dir ph) (tp_scope ph) (tp_history_path ph) (tp_verbose ph) []
             (tp_base_env ph) (tp_service_log ph) tk of
        (Inl e, tk1) \<Rightarrow> (Inl e, tk1)
      | (Inr result, tk1) \<Rightarrow>
          (if task_success result then Inr () else Inl (task_failed_with (tp_phase ph) name result), tk1))"

definition run_watched ::
  "task_world \<Rightarrow> task_phase \<Rightarrow> string \<Rightarrow> task_config \<Rightarrow> task_disk \<Rightarrow> unit result \<times> task_disk" where
  "run_watched tw ph name task tk =
     (case task_watch_hash tw (task_cwd task (tp_project_dir ph)) (task_watch task) of
        Inl e \<Rightarrow> (Inl e, tk)
      | Inr new_hash \<Rightarrow>
          (case load_stored_hash tw (tp_project_dir ph) name tk of
             Inl e \<Rightarrow> (Inl e, tk)
           | Inr stored \<Rightarrow>
               if stored = Some new_hash then (Inr (), tk)
               else
                 (case run_checked tw ph name task tk of
                    (Inl e, tk1) \<Rightarrow> (Inl e, tk1)
                  | (Inr _, tk1) \<Rightarrow> store_hash tw (tp_project_dir ph) name new_hash tk1)))"

definition run_phase_task :: "task_world \<Rightarrow> task_phase \<Rightarrow> string \<Rightarrow> task_disk \<Rightarrow> unit result \<times> task_disk" where
  "run_phase_task tw ph name tk =
     (case map_of (tp_tasks ph) name of
        None \<Rightarrow> (Inl (''unknown '' @ tp_phase ph @ '' task '' @ quoted name), tk)
      | Some task \<Rightarrow>
          if tp_skip_if_unchanged ph \<and> task_watch task \<noteq> [] then run_watched tw ph name task tk
          else run_checked tw ph name task tk)"

fun run_service_tasks :: "task_world \<Rightarrow> task_phase \<Rightarrow> string list \<Rightarrow> task_disk \<Rightarrow> unit result \<times> task_disk" where
  "run_service_tasks tw ph [] tk = (Inr (), tk)"
| "run_service_tasks tw ph (name # names) tk =
     (case run_phase_task tw ph name tk of
        (Inl e, tk1) \<Rightarrow> (Inl e, tk1)
      | (Inr _, tk1) \<Rightarrow> run_service_tasks tw ph names tk1)"

definition run_init_tasks ::
  "task_world \<Rightarrow> (string, task_config) bmap \<Rightarrow> string list \<Rightarrow> string \<Rightarrow> task_scope \<Rightarrow> string \<Rightarrow> bool \<Rightarrow> env_map \<Rightarrow>
     service_log_sink option \<Rightarrow> task_disk \<Rightarrow> unit result \<times> task_disk" where
  "run_init_tasks tw tasks init project_dir scope history_path verbose base_env service_log =
     run_service_tasks tw
       \<lparr>tp_tasks = tasks, tp_project_dir = project_dir, tp_scope = scope, tp_history_path = history_path,
        tp_verbose = verbose, tp_skip_if_unchanged = True, tp_phase = ''init'', tp_base_env = base_env,
        tp_service_log = service_log\<rparr> init"

definition run_post_init_tasks ::
  "task_world \<Rightarrow> (string, task_config) bmap \<Rightarrow> string list \<Rightarrow> string \<Rightarrow> task_scope \<Rightarrow> string \<Rightarrow> bool \<Rightarrow> env_map \<Rightarrow>
     service_log_sink option \<Rightarrow> task_disk \<Rightarrow> unit result \<times> task_disk" where
  "run_post_init_tasks tw tasks post_init project_dir scope history_path verbose base_env service_log =
     run_service_tasks tw
       \<lparr>tp_tasks = tasks, tp_project_dir = project_dir, tp_scope = scope, tp_history_path = history_path,
        tp_verbose = verbose, tp_skip_if_unchanged = False, tp_phase = ''post_init'', tp_base_env = base_env,
        tp_service_log = service_log\<rparr> post_init"

section \<open>Detached executions\<close>

text \<open>
  The requests and answers of \<open>src/src/api.rs\<close>, and the state of the daemon the handlers work
  on: the store of executions, the events sent, the disk, the sources given to the log index and
  the executions spawned but not run yet.
\<close>

record start_task_request =
  sq_project_dir :: string
  sq_file :: "string option"
  sq_task :: string
  sq_args :: "string list"

record start_task_response =
  sa_execution_id :: string
  sa_task :: string
  sa_run_id :: "run_id option"

record task_app =
  tb_tasks :: task_store
  tb_events :: "daemon_event list"
  tb_disk :: task_disk
  tb_ingested :: "(run_id \<times> string \<times> string) list"
  tb_spawned :: "(task_execution \<times> task_config \<times> string list) list"

definition hex16 :: "u64 \<Rightarrow> string" where
  "hex16 w = map (\<lambda>i. hex_digit (unat (drop_bit (4 * i) w AND 15))) (rev [0..<16])"

definition new_execution_id :: "u64 \<Rightarrow> string" where
  "new_execution_id random = ''task-'' @ hex16 random"

definition requested_task :: "task_world \<Rightarrow> start_task_request \<Rightarrow> task_config app_result" where
  "requested_task tw req =
     (let config_path = (case sq_file req of
            Some path \<Rightarrow> path
          | None \<Rightarrow> config_default_path (pv_exists (tw_env tw)) (sq_project_dir req)) in
      rbind (map_err Bad_Request (load_from_path (tw_loader tw) config_path)) (\<lambda>config.
      ok_or (Bad_Request (''unknown task '' @ quoted (sq_task req)))
        (Option.bind (cf_tasks config) (\<lambda>tasks. map_of tasks (sq_task req)))))"

text \<open>A start whose check has come out well: the record is stored, the start is announced, the background task is spawned.\<close>

definition announce_detached :: "task_execution \<Rightarrow> task_app \<Rightarrow> task_app" where
  "announce_detached t tb = tb\<lparr>tb_events := tb_events tb @ [task_event t Task_Event_Started]\<rparr>"

definition spawn_detached :: "task_execution \<Rightarrow> task_config \<Rightarrow> string list \<Rightarrow> task_app \<Rightarrow> task_app" where
  "spawn_detached t task args tb = tb\<lparr>tb_spawned := tb_spawned tb @ [(t, task, args)]\<rparr>"

definition add_detached ::
  "task_execution \<Rightarrow> task_config \<Rightarrow> string list \<Rightarrow> task_app \<Rightarrow> start_task_response app_result \<times> task_app" where
  "add_detached t task args tb =
     (case add_task t (tb_tasks tb) of
        (Inl e, tasks) \<Rightarrow> (Inl (Internal e), tb\<lparr>tb_tasks := tasks\<rparr>)
      | (Inr _, tasks) \<Rightarrow>
          (Inr \<lparr>sa_execution_id = te_execution_id t, sa_task = te_task t, sa_run_id = te_run_id t\<rparr>,
           spawn_detached t task args (announce_detached t (tb\<lparr>tb_tasks := tasks\<rparr>))))"

definition start_task ::
  "task_world \<Rightarrow> string \<Rightarrow> nat \<Rightarrow> u64 \<Rightarrow> run_store \<Rightarrow> start_task_request \<Rightarrow> task_app \<Rightarrow>
     start_task_response app_result \<times> task_app" where
  "start_task tw now instant random runs req tb =
     (case requested_task tw req of
        Inl e \<Rightarrow> (Inl e, tb)
      | Inr task \<Rightarrow>
          (let run_id = find_latest_active_run_for_project (tw_canon tw) (sq_project_dir req) runs;
               t = new_task_execution now instant (new_execution_id random) (sq_task req) (sq_project_dir req) run_id in
           if has_running_task (tw_canon tw) (sq_task req) run_id (sq_project_dir req) (tb_tasks tb) then
             (Inl (Bad_Request (''task '' @ quoted (sq_task req) @ '' is already running'')), tb)
           else add_detached t task (sq_args req) tb))"

text \<open>The background part: the run of the command, and what is recorded and sent when it ends.\<close>

definition run_detached ::
  "task_world \<Rightarrow> task_execution \<Rightarrow> task_config \<Rightarrow> string list \<Rightarrow> task_disk \<Rightarrow> task_result result \<times> task_disk" where
  "run_detached tw t task args tk =
     (case te_run_id t of
        Some run_id \<Rightarrow>
          (case task_history_path (tw_paths tw) run_id of
             Inl e \<Rightarrow> (Inl e, tk)
           | Inr history_path \<Rightarrow>
               run_task tw (te_task t) task (te_project_dir t) (Scope_Task_Run run_id) history_path False args [] None tk)
      | None \<Rightarrow>
          (case ad_hoc_task_history_path (tw_paths tw) (te_project_dir t) of
             Inl e \<Rightarrow> (Inl e, tk)
           | Inr history_path \<Rightarrow>
               run_task tw (te_task t) task (te_project_dir t) Scope_Ad_Hoc history_path False args [] None tk))"

definition ingest_task_log :: "task_world \<Rightarrow> task_execution \<Rightarrow> task_app \<Rightarrow> task_app" where
  "ingest_task_log tw t tb =
     (case te_run_id t of
        None \<Rightarrow> tb
      | Some run_id \<Rightarrow>
          (case task_log_path (tw_paths tw) run_id (te_task t) of
             Inl _ \<Rightarrow> tb
           | Inr path \<Rightarrow>
               if bm_contains (tk_logs (tb_disk tb)) path
               then tb\<lparr>tb_ingested := tb_ingested tb @ [(run_id, ''task:'' @ te_task t, path)]\<rparr> else tb))"

definition task_end_event :: "task_execution \<Rightarrow> daemon_event" where
  "task_end_event t =
     task_event t (if te_state t = Task_Completed then Task_Event_Completed else Task_Event_Failed)"

definition record_detached_end ::
  "string \<Rightarrow> nat \<Rightarrow> task_execution \<Rightarrow> task_result result \<Rightarrow> task_app \<Rightarrow> task_execution \<times> task_app" where
  "record_detached_end now instant t result tb =
     (case update_task_state now instant (te_execution_id t)
             (case result of Inl _ \<Rightarrow> None | Inr r \<Rightarrow> Some (tr_exit_code r)) (tb_tasks tb) of
        (Inr updated, tasks) \<Rightarrow> (updated, tb\<lparr>tb_tasks := tasks\<rparr>)
      | (Inl _, tasks) \<Rightarrow> (t, tb\<lparr>tb_tasks := tasks\<rparr>))"

definition announce_detached_end :: "task_execution \<Rightarrow> task_app \<Rightarrow> task_app" where
  "announce_detached_end updated tb = tb\<lparr>tb_events := tb_events tb @ [task_end_event updated]\<rparr>"

text \<open>The whole of the background task, with nothing in between.\<close>

definition execute_detached_task ::
  "task_world \<Rightarrow> string \<Rightarrow> nat \<Rightarrow> task_execution \<Rightarrow> task_config \<Rightarrow> string list \<Rightarrow> task_app \<Rightarrow> task_app" where
  "execute_detached_task tw now instant t task args tb =
     (case run_detached tw t task args (tb_disk tb) of
        (result, tk) \<Rightarrow>
          (case record_detached_end now instant t result (tb\<lparr>tb_disk := tk\<rparr>) of
             (updated, tb1) \<Rightarrow> announce_detached_end updated (ingest_task_log tw updated tb1)))"

section \<open>Init tasks as the launch runs them\<close>

definition run_init_tasks_blocking ::
  "task_world \<Rightarrow> (string, task_config) bmap \<Rightarrow> string list \<Rightarrow> string \<Rightarrow> run_id \<Rightarrow> env_map \<Rightarrow> service_log_sink option \<Rightarrow>
     task_disk \<Rightarrow> unit result \<times> task_disk" where
  "run_init_tasks_blocking tw tasks_map init_tasks project_dir run_id base_env service_log tk =
     (case task_history_path (tw_paths tw) run_id of
        Inl e \<Rightarrow> (Inl e, tk)
      | Inr history_path \<Rightarrow>
          run_init_tasks tw tasks_map init_tasks project_dir (Scope_Task_Run run_id) history_path False base_env service_log tk)"

definition run_post_init_tasks_blocking ::
  "task_world \<Rightarrow> (string, task_config) bmap \<Rightarrow> string list \<Rightarrow> string \<Rightarrow> run_id option \<Rightarrow> env_map \<Rightarrow>
     service_log_sink option \<Rightarrow> task_disk \<Rightarrow> unit result \<times> task_disk" where
  "run_post_init_tasks_blocking tw tasks_map post_init_tasks project_dir run_id base_env service_log tk =
     (case (case run_id of
              Some r \<Rightarrow> task_history_path (tw_paths tw) r
            | None \<Rightarrow> ad_hoc_task_history_path (tw_paths tw) project_dir) of
        Inl e \<Rightarrow> (Inl e, tk)
      | Inr history_path \<Rightarrow>
          run_post_init_tasks tw tasks_map post_init_tasks project_dir
            (case run_id of Some r \<Rightarrow> Scope_Task_Run r | None \<Rightarrow> Scope_Ad_Hoc)
            history_path False base_env service_log tk)"

section \<open>Queries\<close>

record task_status_response =
  tu_execution_id :: string
  tu_task :: string
  tu_state :: task_state
  tu_project_dir :: string
  tu_run_id :: "run_id option"
  tu_started_at :: string
  tu_finished_at :: "string option"
  tu_exit_code :: "int option"
  tu_duration_ms :: nat

record task_summary =
  tz_task :: string
  tz_execution_id :: "string option"
  tz_state :: task_state
  tz_started_at :: string
  tz_finished_at :: "string option"
  tz_exit_code :: "int option"
  tz_duration_ms :: "nat option"

definition task_status_response_of :: "nat \<Rightarrow> task_execution \<Rightarrow> task_status_response" where
  "task_status_response_of instant t =
     \<lparr>tu_execution_id = te_execution_id t, tu_task = te_task t, tu_state = te_state t,
      tu_project_dir = te_project_dir t, tu_run_id = te_run_id t, tu_started_at = te_started_at t,
      tu_finished_at = te_finished_at t, tu_exit_code = te_exit_code t,
      tu_duration_ms = current_duration_ms instant t\<rparr>"

definition task_summary_from_history :: "task_entry \<Rightarrow> task_summary" where
  "task_summary_from_history e =
     \<lparr>tz_task = ty_task e, tz_execution_id = None,
      tz_state = (if ty_exit_code e = 0 then Task_Completed else Task_Failed),
      tz_started_at = ty_started_at e, tz_finished_at = Some (ty_finished_at e),
      tz_exit_code = Some (ty_exit_code e), tz_duration_ms = Some (ty_duration_ms e)\<rparr>"

definition task_summary_from_detached :: "nat \<Rightarrow> task_execution \<Rightarrow> task_summary" where
  "task_summary_from_detached instant t =
     \<lparr>tz_task = te_task t, tz_execution_id = Some (te_execution_id t), tz_state = te_state t,
      tz_started_at = te_started_at t, tz_finished_at = te_finished_at t,
      tz_exit_code = te_exit_code t, tz_duration_ms = Some (current_duration_ms instant t)\<rparr>"

definition merge_task_summary :: "(string, task_summary) bmap \<Rightarrow> task_summary \<Rightarrow> (string, task_summary) bmap" where
  "merge_task_summary tasks summary =
     (if (case map_of tasks (tz_task summary) of
            Some current \<Rightarrow> tz_started_at current \<le> tz_started_at summary
          | None \<Rightarrow> True)
      then bm_insert (tz_task summary) summary tasks else tasks)"

definition task_status :: "nat \<Rightarrow> string \<Rightarrow> task_app \<Rightarrow> task_status_response app_result" where
  "task_status instant execution_id tb =
     (case get_task execution_id (tb_tasks tb) of
        None \<Rightarrow> Inl (Not_Found (''task execution '' @ execution_id @ '' not found''))
      | Some t \<Rightarrow> Inr (task_status_response_of instant t))"

definition run_tasks ::
  "task_world \<Rightarrow> nat \<Rightarrow> run_id \<Rightarrow> run_store \<Rightarrow> task_app \<Rightarrow> task_summary list app_result" where
  "run_tasks tw instant run_id runs tb =
     rbind (map_err (\<lambda>_. Not_Found (''run '' @ run_id @ '' not found'')) (with_run run_id (\<lambda>_. ()) runs)) (\<lambda>_.
     rbind (map_err Internal (task_history_path (tw_paths tw) run_id)) (\<lambda>path.
     rbind (map_err Internal (load_history tw path (tb_disk tb))) (\<lambda>history.
     Inr (bm_values
       (foldl merge_task_summary
         (foldl merge_task_summary [] (map task_summary_from_history (bm_values (latest_by_task history))))
         (map (task_summary_from_detached instant) (list_tasks_for_run run_id (tb_tasks tb))))))))"

section \<open>Facts about the history\<close>

definition entry_fits :: "task_entry \<Rightarrow> bool" where
  "entry_fits e \<longleftrightarrow> - (2 ^ 31) \<le> ty_exit_code e \<and> ty_exit_code e < 2 ^ 31 \<and> ty_duration_ms e < 2 ^ 64"

lemma task_entry_round_trip: "entry_fits e \<Longrightarrow> dec_task_entry (enc_task_entry e) = Some e"
  by (simp add: entry_fits_def dec_task_entry_def enc_task_entry_def no_duplicate_def task_entry_fields_def dec_field_def)

interpretation entry_codec: codec enc_task_entry dec_task_entry entry_fits
  by unfold_locales (simp_all add: task_entry_round_trip, simp add: enc_task_entry_def)

lemma task_history_round_trip:
  "list_all entry_fits executions \<Longrightarrow> dec_task_history (enc_task_history executions) = Some executions"
  using entry_codec.list_round_trip
  by (simp add: dec_task_history_def enc_task_history_def no_duplicate_def dec_field_def)

lemma append_task_execution_hashes [simp]:
  "tk_hashes (snd (append_task_execution tw hp name scope s f result tk)) = tk_hashes tk"
  "tk_started (snd (append_task_execution tw hp name scope s f result tk)) = tk_started tk"
  by (simp_all add: append_task_execution_def append_history_def split: sum.split option.split)

lemma open_logs_frame [simp]:
  "tk_hashes (snd (open_logs tw path sink tk)) = tk_hashes tk"
  "tk_started (snd (open_logs tw path sink tk)) = tk_started tk"
  "tk_histories (snd (open_logs tw path sink tk)) = tk_histories tk"
  by (simp_all add: open_logs_def Let_def split: option.split)

lemma pump_output_frame [simp]:
  "tk_hashes (pump_output tw name path sink out tk) = tk_hashes tk"
  "tk_started (pump_output tw name path sink out tk) = tk_started tk"
  "tk_histories (pump_output tw name path sink out tk) = tk_histories tk"
  by (simp_all add: pump_output_def Let_def split: option.split)

lemma started_command_frame [simp]:
  "tk_hashes (started_command sh tk) = tk_hashes tk" "tk_histories (started_command sh tk) = tk_histories tk"
  "tk_started (started_command sh tk) = tk_started tk @ [sh]" "tk_logs (started_command sh tk) = tk_logs tk"
  by (simp_all add: started_command_def)

lemma record_execution_frame [simp]:
  "tk_hashes (snd (record_execution tw hp name scope c r tk)) = tk_hashes tk"
  "tk_started (snd (record_execution tw hp name scope c r tk)) = tk_started tk"
  by (simp_all add: record_execution_def case_prod_beta split: sum.split)

lemma run_logged_frame [simp]:
  "tk_hashes (snd (run_logged tw name dir scope hp sink sh tk)) = tk_hashes tk"
  by (simp add: run_logged_def Let_def case_prod_beta split: sum.split option.split)

lemma run_verbose_frame [simp]:
  "tk_hashes (snd (run_verbose tw name scope hp sh tk)) = tk_hashes tk"
  by (simp add: run_verbose_def Let_def split: sum.split option.split)

lemma run_task_hashes [simp]:
  "tk_hashes (snd (run_task tw name task dir scope hp verbose args base sink tk)) = tk_hashes tk"
  by (simp add: run_task_def split: sum.split)

lemma record_execution_Inr:
  assumes "record_execution tw hp name scope c result tk = (Inr r, tk')"
  shows "r = result \<and> (\<exists>history. load_history tw hp tk = Inr history \<and> tk_histories tk' = bm_insert hp
      (enc_task_history (history @ [task_entry_of name scope (tc_started_at c) (tc_finished_at c) r])) (tk_histories tk))"
proof -
  obtain history where history: "load_history tw hp tk = Inr history"
    using assms by (cases "load_history tw hp tk") (auto simp: record_execution_def append_task_execution_def)
  then show ?thesis
    using assms by (auto simp: record_execution_def append_task_execution_def append_history_def split: option.splits)
qed

lemma load_history_cong: "tk_histories tk = tk_histories tk' \<Longrightarrow> load_history tw hp tk = load_history tw hp tk'"
  by (simp add: load_history_def)

text \<open>A task that ran: one command, its result that of the child, one more entry in the history.\<close>

lemma run_task_Inr:
  assumes "run_task tw name task dir scope hp verbose args base sink tk = (Inr r, tk')"
  shows "\<exists>sh exit_code history. task_command tw task dir args base = Inr sh \<and> tk_started tk' = tk_started tk @ [sh] \<and>
    (let c = tw_child tw (length (tk_started tk)) sh in
     tc_spawn_error c = None \<and> tc_exit c = Inr exit_code \<and>
     r = result_of_child c exit_code (if verbose then None else last_stderr_line None (tc_output c)) \<and>
     load_history tw hp tk = Inr history \<and> tk_histories tk' = bm_insert hp
      (enc_task_history (history @ [task_entry_of name scope (tc_started_at c) (tc_finished_at c) r])) (tk_histories tk))"
proof -
  obtain sh where sh: "task_command tw task dir args base = Inr sh"
    using assms by (cases "task_command tw task dir args base") (simp_all add: run_task_def)
  define c where "c = tw_child tw (length (tk_started tk)) sh"
  obtain tk2 exit_code where ended: "tc_spawn_error c = None" "tc_exit c = Inr exit_code" "tk_started tk2 = tk_started tk @ [sh]"
      "tk_histories tk2 = tk_histories tk"
    and recorded: "record_execution tw hp name scope c
      (result_of_child c exit_code (if verbose then None else last_stderr_line None (tc_output c))) tk2 = (Inr r, tk')"
  proof (cases verbose)
    case True
    then show thesis
      using assms sh that [of _ "started_command sh tk"]
      by (auto simp: run_task_def run_verbose_def Let_def c_def split: option.splits sum.splits)
  next
    case False
    then have logged: "run_logged tw name dir scope hp sink sh tk = (Inr r, tk')"
      using assms sh by (simp add: run_task_def)
    obtain path where path: "scoped_log_path (tw_paths tw) dir name scope = Inr path"
      using logged by (cases "scoped_log_path (tw_paths tw) dir name scope") (simp_all add: run_logged_def)
    obtain u tk1 where opened: "open_logs tw path sink (started_command sh tk) = (Inr u, tk1)"
      using logged path
      by (cases "open_logs tw path sink (started_command sh tk)")
        (auto simp: run_logged_def Let_def split: option.splits sum.splits)
    show thesis
      using logged path opened False that [of _ "pump_output tw name path sink (tc_output c) tk1"]
        open_logs_frame [of tw path sink "started_command sh tk"]
      by (auto simp: run_logged_def Let_def c_def split: option.splits sum.splits)
  qed
  have "tk_started tk' = tk_started tk2"
    using record_execution_frame(2) [of tw hp name scope c _ tk2] recorded by (metis snd_conv)
  moreover have "load_history tw hp tk2 = load_history tw hp tk" by (rule load_history_cong [OF ended(4)])
  ultimately show ?thesis
    using record_execution_Inr [OF recorded] sh ended unfolding c_def [symmetric] Let_def
    by (intro exI [of _ sh] exI [of _ exit_code]) (auto simp: c_def)
qed

section \<open>Facts about the tasks of a service\<close>

lemma unit_result: "r = (Inr u :: unit result) \<longleftrightarrow> r = Inr ()"
  by simp

lemma task_hash_path_inj:
  assumes "task_hash_path pe dir n = Inr p" and "task_hash_path pe dir m = Inr p"
  shows "n = m"
proof -
  obtain d where "p = path_join d (n @ ''.sha256'')" "p = path_join d (m @ ''.sha256'')"
    and names: "validate_name_for_path_component ''task'' n = Inr ()" "validate_name_for_path_component ''task'' m = Inr ()"
    using assms by (auto simp: task_hash_path_def rbind_eq_Inr)
  moreover have "\<not> is_absolute (n @ ''.sha256'')" "\<not> is_absolute (m @ ''.sha256'')"
    using names by (simp_all add: validate_name_Inr is_absolute_append safe_name_simps)
  ultimately show ?thesis using path_join_inj by (metis append_same_eq)
qed

definition watched :: "task_phase \<Rightarrow> string \<Rightarrow> bool" where
  "watched ph name \<longleftrightarrow> tp_skip_if_unchanged ph \<and> (\<exists>task. map_of (tp_tasks ph) name = Some task \<and> task_watch task \<noteq> [])"

definition current_hash :: "task_world \<Rightarrow> task_phase \<Rightarrow> string \<Rightarrow> string result" where
  "current_hash tw ph name =
     (case map_of (tp_tasks ph) name of
        None \<Rightarrow> Inl ''unknown''
      | Some task \<Rightarrow> task_watch_hash tw (task_cwd task (tp_project_dir ph)) (task_watch task))"

definition up_to_date :: "task_world \<Rightarrow> task_phase \<Rightarrow> task_disk \<Rightarrow> string \<Rightarrow> bool" where
  "up_to_date tw ph tk name \<longleftrightarrow> watched ph name \<and>
     (\<exists>h. current_hash tw ph name = Inr h \<and> load_stored_hash tw (tp_project_dir ph) name tk = Inr (Some h))"

text \<open>A run of a command for a task: what was started, and that it ended well.\<close>

definition ran_well ::
  "task_world \<Rightarrow> task_phase \<Rightarrow> nat \<Rightarrow> string \<Rightarrow> shell_command \<Rightarrow> bool" where
  "ran_well tw ph k name sh \<longleftrightarrow>
     (\<exists>task. map_of (tp_tasks ph) name = Some task \<and>
        task_command tw task (tp_project_dir ph) [] (tp_base_env ph) = Inr sh \<and>
        tc_spawn_error (tw_child tw k sh) = None \<and> tc_exit (tw_child tw k sh) = Inr (Some 0))"

definition adds_entry :: "task_world \<Rightarrow> string \<Rightarrow> task_disk \<Rightarrow> task_entry list \<Rightarrow> task_disk \<Rightarrow> bool" where
  "adds_entry tw hp tk entries tk' \<longleftrightarrow>
     (\<forall>history. load_history tw hp tk = Inr history \<longrightarrow> tw_read tw hp = None \<longrightarrow> load_history tw hp tk' = Inr (history @ entries))"

lemma dec_entry_fits:
  assumes "dec_task_entry v = Some e"
  shows "entry_fits e"
proof -
  obtain i n where "dec_i32 i = Some (ty_exit_code e)" "dec_u64 n = Some (ty_duration_ms e)"
    using assms by (cases v) (auto simp: dec_task_entry_def dec_field_def bind_eq_Some_conv split: if_splits)
  then show ?thesis by (auto simp: entry_fits_def dest: dec_i32_Some dec_u64_Some)
qed

lemma omap_fits: "omap dec_task_entry vs = Some es \<Longrightarrow> list_all entry_fits es"
  by (induction vs arbitrary: es) (auto simp: bind_eq_Some_conv dec_entry_fits)

lemma load_history_fits:
  assumes "load_history tw hp tk = Inr history"
  shows "list_all entry_fits history"
proof (cases "map_of (tk_histories tk) hp")
  case (Some v)
  then have "dec_task_history v = Some history"
    using assms by (auto simp: load_history_def split: option.splits)
  then show ?thesis
    by (cases v) (auto simp: dec_task_history_def dec_field_def bind_eq_Some_conv elim!: dec_list.elims split: if_splits intro: omap_fits)
qed (use assms in \<open>simp add: load_history_def\<close>)

lemma load_history_appended:
  assumes "tk_histories tk' = bm_insert hp (enc_task_history (history @ [e])) m" and "list_all entry_fits history"
    and "entry_fits e" and "tw_read tw hp = None"
  shows "load_history tw hp tk' = Inr (history @ [e])"
  using assms task_history_round_trip [of "history @ [e]"] by (simp add: load_history_def map_of_bm_insert)

lemma run_checked_Inr:
  assumes "run_checked tw ph name task tk = (Inr u, tk')" and "map_of (tp_tasks ph) name = Some task"
  shows "\<exists>sh e. ran_well tw ph (length (tk_started tk)) name sh \<and> tk_started tk' = tk_started tk @ [sh] \<and>
    tk_hashes tk' = tk_hashes tk \<and> ty_task e = name \<and> ty_exit_code e = 0 \<and>
    adds_entry tw (tp_history_path ph) tk [e] tk'"
proof -
  obtain r where run: "run_task tw name task (tp_project_dir ph) (tp_scope ph) (tp_history_path ph) (tp_verbose ph) []
      (tp_base_env ph) (tp_service_log ph) tk = (Inr r, tk')" and ok: "tr_exit_code r = 0"
    using assms(1) by (auto simp: run_checked_def task_success_def split: sum.splits prod.splits if_splits)
  from run_task_Inr [OF run] obtain sh exit_code history where sh:
      "task_command tw task (tp_project_dir ph) [] (tp_base_env ph) = Inr sh" "tk_started tk' = tk_started tk @ [sh]"
      "tc_spawn_error (tw_child tw (length (tk_started tk)) sh) = None"
      "tc_exit (tw_child tw (length (tk_started tk)) sh) = Inr exit_code"
      "tr_exit_code r = unwrap_or exit_code 1" "load_history tw (tp_history_path ph) tk = Inr history"
      "tk_histories tk' = bm_insert (tp_history_path ph) (enc_task_history (history @ [task_entry_of name (tp_scope ph)
         (tc_started_at (tw_child tw (length (tk_started tk)) sh)) (tc_finished_at (tw_child tw (length (tk_started tk)) sh)) r]))
         (tk_histories tk)"
    by (auto simp: Let_def result_of_child_def)
  let ?e = "task_entry_of name (tp_scope ph) (tc_started_at (tw_child tw (length (tk_started tk)) sh))
    (tc_finished_at (tw_child tw (length (tk_started tk)) sh)) r"
  have "exit_code = Some 0" using ok sh(5) by (cases exit_code) simp_all
  then have "ran_well tw ph (length (tk_started tk)) name sh" using sh assms(2) by (simp add: ran_well_def)
  moreover have "tk_hashes tk' = tk_hashes tk"
    using run_task_hashes [of tw name task "tp_project_dir ph" "tp_scope ph" "tp_history_path ph" "tp_verbose ph" "[]"
      "tp_base_env ph" "tp_service_log ph" tk] run by simp
  moreover have "adds_entry tw (tp_history_path ph) tk [?e] tk'"
    using load_history_appended [OF sh(7) load_history_fits [OF sh(6)]] sh(6) ok
    by (auto simp: adds_entry_def entry_fits_def task_entry_of_def)
  ultimately show ?thesis
    using sh(2) ok by (intro exI [of _ sh] exI [of _ ?e]) (simp add: task_entry_of_def)
qed

lemma store_hash_Inr:
  assumes "store_hash tw dir name h tk = (Inr u, tk')"
  shows "\<exists>path. task_hash_path (tw_paths tw) dir name = Inr path \<and> tk' = tk\<lparr>tk_hashes := bm_insert path h (tk_hashes tk)\<rparr>"
  using assms by (auto simp: store_hash_def split: sum.splits option.splits)

lemma load_stored_hash_other:
  assumes "task_hash_path (tw_paths tw) dir name = Inr path" and "n \<noteq> name"
    and "tk_hashes tk' = bm_insert path h (tk_hashes tk)"
  shows "load_stored_hash tw dir n tk' = load_stored_hash tw dir n tk"
proof (cases "task_hash_path (tw_paths tw) dir n")
  case (Inr p)
  then have "p \<noteq> path" using task_hash_path_inj assms(1,2) by blast
  then show ?thesis using Inr assms(3) by (simp add: load_stored_hash_def map_of_bm_insert)
qed (simp add: load_stored_hash_def)

text \<open>One task of a phase that succeeds: left out because it is up to date, or run well and recorded.\<close>

lemma run_phase_task_Inr:
  assumes "run_phase_task tw ph name tk = (Inr u, tk')"
  shows "(if up_to_date tw ph tk name then tk' = tk
     else \<exists>sh e. ran_well tw ph (length (tk_started tk)) name sh \<and> tk_started tk' = tk_started tk @ [sh] \<and>
       ty_task e = name \<and> ty_exit_code e = 0 \<and> adds_entry tw (tp_history_path ph) tk [e] tk') \<and>
    (\<forall>n. n \<noteq> name \<longrightarrow> up_to_date tw ph tk' n = up_to_date tw ph tk n) \<and>
    (watched ph name \<longrightarrow> (\<exists>h path. current_hash tw ph name = Inr h \<and>
       task_hash_path (tw_paths tw) (tp_project_dir ph) name = Inr path \<and>
       (trim h = h \<and> tw_read tw path = None \<longrightarrow> up_to_date tw ph tk' name)))"
proof -
  obtain task where task: "map_of (tp_tasks ph) name = Some task"
    using assms by (auto simp: run_phase_task_def split: option.splits)
  show ?thesis
  proof (cases "watched ph name")
    case False
    then have "run_checked tw ph name task tk = (Inr u, tk')" and "\<not> up_to_date tw ph tk name"
      using assms task by (auto simp: run_phase_task_def watched_def up_to_date_def)
    with run_checked_Inr [OF this(1) task] False show ?thesis
      by (auto simp: up_to_date_def load_stored_hash_def)
  next
    case True
    then have watched: "run_watched tw ph name task tk = (Inr u, tk')"
      using assms task by (auto simp: run_phase_task_def watched_def)
    obtain h stored where h: "current_hash tw ph name = Inr h" and stored: "load_stored_hash tw (tp_project_dir ph) name tk = Inr stored"
      using watched task by (auto simp: run_watched_def current_hash_def split: sum.splits)
    obtain path where path: "task_hash_path (tw_paths tw) (tp_project_dir ph) name = Inr path"
      using stored by (auto simp: load_stored_hash_def rbind_eq_Inr)
    show ?thesis
    proof (cases "stored = Some h")
      case True
      then have "tk' = tk" using watched h stored task by (simp add: run_watched_def current_hash_def)
      then show ?thesis using True h stored path \<open>watched ph name\<close> by (auto simp: up_to_date_def)
    next
      case False
      then have stale: "\<not> up_to_date tw ph tk name" using h stored by (auto simp: up_to_date_def)
      obtain tk1 where ran: "run_checked tw ph name task tk = (Inr (), tk1)"
        and keep: "store_hash tw (tp_project_dir ph) name h tk1 = (Inr u, tk')"
        using watched h stored task False by (auto simp: run_watched_def current_hash_def split: sum.splits prod.splits)
      have tk': "tk' = tk1\<lparr>tk_hashes := bm_insert path h (tk_hashes tk1)\<rparr>" using store_hash_Inr [OF keep] path by auto
      from run_checked_Inr [OF ran task] obtain sh e where sh: "ran_well tw ph (length (tk_started tk)) name sh"
          "tk_started tk1 = tk_started tk @ [sh]" "tk_hashes tk1 = tk_hashes tk" "ty_task e = name" "ty_exit_code e = 0"
          "adds_entry tw (tp_history_path ph) tk [e] tk1" by blast
      have "adds_entry tw (tp_history_path ph) tk [e] tk'"
        using sh(6) load_history_cong [of tk' tk1] by (simp add: adds_entry_def tk')
      moreover have "up_to_date tw ph tk' n = up_to_date tw ph tk n" if "n \<noteq> name" for n
        using load_stored_hash_other [OF path that, of tk' h tk] sh(3) by (simp add: up_to_date_def tk')
      moreover have "up_to_date tw ph tk' name" if "trim h = h" "tw_read tw path = None"
        using that h path \<open>watched ph name\<close> by (simp add: up_to_date_def load_stored_hash_def tk' map_of_bm_insert)
      ultimately show ?thesis using stale sh h path by (auto simp: tk')
    qed
  qed
qed

lemma adds_entry_trans:
  "adds_entry tw hp tk es tk1 \<Longrightarrow> adds_entry tw hp tk1 es' tk2 \<Longrightarrow> adds_entry tw hp tk (es @ es') tk2"
  by (simp add: adds_entry_def)

lemma adds_entry_refl: "adds_entry tw hp tk [] tk"
  by (simp add: adds_entry_def)

text \<open>The commands that the tasks \<open>names\<close> start, the first of them the \<open>k\<close>-th of all.\<close>

fun commands_of :: "task_world \<Rightarrow> task_phase \<Rightarrow> nat \<Rightarrow> string list \<Rightarrow> shell_command list \<Rightarrow> bool" where
  "commands_of tw ph k [] shs \<longleftrightarrow> shs = []"
| "commands_of tw ph k (name # names) shs \<longleftrightarrow>
     (case shs of [] \<Rightarrow> False | sh # shs' \<Rightarrow> ran_well tw ph k name sh \<and> commands_of tw ph (Suc k) names shs')"

lemma run_service_tasks_Inr:
  assumes "run_service_tasks tw ph names tk = (Inr u, tk')" and "distinct names"
  shows "\<exists>shs entries. commands_of tw ph (length (tk_started tk)) (filter (\<lambda>n. \<not> up_to_date tw ph tk n) names) shs \<and>
    tk_started tk' = tk_started tk @ shs \<and> map ty_task entries = filter (\<lambda>n. \<not> up_to_date tw ph tk n) names \<and>
    (\<forall>e \<in> set entries. ty_exit_code e = 0) \<and> adds_entry tw (tp_history_path ph) tk entries tk'"
  using assms
proof (induction names arbitrary: tk)
  case Nil
  then show ?case by (auto simp: adds_entry_refl)
next
  case (Cons name names)
  obtain tk1 where one: "run_phase_task tw ph name tk = (Inr (), tk1)" and rest: "run_service_tasks tw ph names tk1 = (Inr u, tk')"
    using Cons.prems(1) by (auto split: prod.splits sum.splits)
  note step = run_phase_task_Inr [OF one]
  have "n \<in> set names \<Longrightarrow> up_to_date tw ph tk1 n = up_to_date tw ph tk n" for n
    using step Cons.prems(2) by (metis distinct.simps(2))
  then have same: "filter (\<lambda>n. \<not> up_to_date tw ph tk1 n) names = filter (\<lambda>n. \<not> up_to_date tw ph tk n) names"
    by (intro filter_cong) simp_all
  from Cons.IH [OF rest] Cons.prems(2) same obtain shs entries where
      ih: "commands_of tw ph (length (tk_started tk1)) (filter (\<lambda>n. \<not> up_to_date tw ph tk n) names) shs"
        "tk_started tk' = tk_started tk1 @ shs" "map ty_task entries = filter (\<lambda>n. \<not> up_to_date tw ph tk n) names"
        "\<forall>e \<in> set entries. ty_exit_code e = 0" "adds_entry tw (tp_history_path ph) tk1 entries tk'"
    by auto
  show ?case
  proof (cases "up_to_date tw ph tk name")
    case True
    then show ?thesis using ih step by auto
  next
    case False
    then obtain sh e where sh: "ran_well tw ph (length (tk_started tk)) name sh" "tk_started tk1 = tk_started tk @ [sh]"
        "ty_task e = name" "ty_exit_code e = 0" "adds_entry tw (tp_history_path ph) tk [e] tk1"
      using step by auto
    show ?thesis
      using ih sh False adds_entry_trans [OF sh(5) ih(5)]
      by (intro exI [of _ "sh # shs"] exI [of _ "e # entries"]) simp
  qed
qed

lemma run_service_tasks_current:
  assumes "run_service_tasks tw ph names tk = (Inr u, tk')" and "distinct names" and "name \<in> set names" and "watched ph name"
    and "\<And>h. current_hash tw ph name = Inr h \<Longrightarrow> trim h = h" and "\<And>path. tw_read tw path = None"
  shows "up_to_date tw ph tk' name"
  using assms(1-3)
proof (induction names arbitrary: tk)
  case (Cons n names)
  obtain tk1 where one: "run_phase_task tw ph n tk = (Inr (), tk1)" and rest: "run_service_tasks tw ph names tk1 = (Inr u, tk')"
    using Cons.prems(1) by (auto split: prod.splits sum.splits)
  have later: "up_to_date tw ph tk' m = up_to_date tw ph tk1 m" if "m \<notin> set names" for m
    using rest that
  proof (induction names arbitrary: tk1)
    case (Cons k names)
    obtain tk2 where "run_phase_task tw ph k tk1 = (Inr (), tk2)" "run_service_tasks tw ph names tk2 = (Inr u, tk')"
      using Cons.prems(1) by (auto split: prod.splits sum.splits)
    then show ?case using Cons.IH [of tk2] Cons.prems(2) run_phase_task_Inr [of tw ph k tk1 "()" tk2] by simp
  qed simp
  show ?case
  proof (cases "name = n")
    case True
    then have "up_to_date tw ph tk1 name"
      using run_phase_task_Inr [OF one] assms(4-6) by auto
    then show ?thesis using later True Cons.prems(2) by simp
  next
    case False
    then show ?thesis using Cons.IH [OF rest] Cons.prems(2,3) by simp
  qed
qed simp

lemma run_service_tasks_skipped:
  assumes "\<forall>name \<in> set names. up_to_date tw ph tk name"
  shows "run_service_tasks tw ph names tk = (Inr (), tk)"
  using assms
  by (induction names)
    (auto simp: run_phase_task_def run_watched_def up_to_date_def watched_def current_hash_def split: option.splits)

section \<open>Properties\<close>

abbreviation init_phase ::
  "(string, task_config) bmap \<Rightarrow> string \<Rightarrow> task_scope \<Rightarrow> string \<Rightarrow> bool \<Rightarrow> env_map \<Rightarrow> service_log_sink option \<Rightarrow> task_phase" where
  "init_phase tasks dir scope hp verbose base sink \<equiv>
     \<lparr>tp_tasks = tasks, tp_project_dir = dir, tp_scope = scope, tp_history_path = hp, tp_verbose = verbose,
      tp_skip_if_unchanged = True, tp_phase = ''init'', tp_base_env = base, tp_service_log = sink\<rparr>"

text \<open>
  C22. When the init tasks of a service succeed, exactly those that are not up to date ran, in the given
  order and once each, all ended with exit code zero, and the history gained one entry for each. Running
  the tasks with watched files again, nothing changed, starts no command and changes nothing.
\<close>

theorem init_tasks_run_once:
  assumes "run_init_tasks tw tasks names dir scope hp verbose base sink tk = (Inr (), tk')" and "distinct names"
    and "\<And>cwd patterns h. task_watch_hash tw cwd patterns = Inr h \<Longrightarrow> trim h = h" and "\<And>path. tw_read tw path = None"
  shows "(\<exists>shs entries. tk_started tk' = tk_started tk @ shs \<and>
      commands_of tw (init_phase tasks dir scope hp verbose base sink) (length (tk_started tk))
        (filter (\<lambda>n. \<not> up_to_date tw (init_phase tasks dir scope hp verbose base sink) tk n) names) shs \<and>
      map ty_task entries = filter (\<lambda>n. \<not> up_to_date tw (init_phase tasks dir scope hp verbose base sink) tk n) names \<and>
      (\<forall>e \<in> set entries. ty_exit_code e = 0) \<and> adds_entry tw hp tk entries tk') \<and>
    run_init_tasks tw tasks (filter (watched (init_phase tasks dir scope hp verbose base sink)) names)
      dir scope hp verbose base sink tk' = (Inr (), tk')"
proof -
  let ?ph = "init_phase tasks dir scope hp verbose base sink"
  have run: "run_service_tasks tw ?ph names tk = (Inr (), tk')" using assms(1) by (simp add: run_init_tasks_def)
  have hash: "current_hash tw ?ph n = Inr h \<Longrightarrow> trim h = h" for n h
    using assms(3) by (auto simp: current_hash_def split: option.splits)
  have "\<forall>n \<in> set (filter (watched ?ph) names). up_to_date tw ?ph tk' n"
    using run_service_tasks_current [OF run assms(2) _ _ hash assms(4)] by simp
  then have "run_init_tasks tw tasks (filter (watched ?ph) names) dir scope hp verbose base sink tk' = (Inr (), tk')"
    using run_service_tasks_skipped [of "filter (watched ?ph) names" tw ?ph tk'] by (simp add: run_init_tasks_def)
  then show ?thesis using run_service_tasks_Inr [OF run assms(2)] by auto
qed

definition example_task_world :: task_world where
  "example_task_world =
     \<lparr>tw_env = example_pv,
      tw_loader = \<lparr>cl_read = (\<lambda>_. Inl ''missing''), cl_utf8 = (\<lambda>s. Inr s), cl_toml = (\<lambda>_. Inl ''toml''), cl_yaml = (\<lambda>_. Inl ''yaml'')\<rparr>,
      tw_canon = (\<lambda>_. None), tw_quote = (\<lambda>s. Inr s),
      tw_child = (\<lambda>_ _. \<lparr>tc_spawn_error = None, tc_output = [(False, ''done'', ''t1'')], tc_exit = Inr (Some 0),
                        tc_started_at = ''t0'', tc_finished_at = ''t2'', tc_duration = 40\<rparr>),
      tw_mkdir = (\<lambda>_. None), tw_open = (\<lambda>_. None), tw_read = (\<lambda>_. None), tw_write = (\<lambda>_. None),
      tw_parse = (\<lambda>_. None), tw_print = (\<lambda>_. ''{}'')\<rparr>"

definition empty_task_disk :: task_disk where
  "empty_task_disk = \<lparr>tk_histories = [], tk_hashes = [], tk_logs = [], tk_service_logs = [], tk_started = []\<rparr>"

definition example_tasks :: "(string, task_config) bmap" where
  "example_tasks =
     [(''gen'', Task_Structured \<lparr>td_cmd = ''make'', td_cwd = None, td_watch = [''src''], td_env = [], td_env_file = None\<rparr>),
      (''seed'', Task_Command ''./seed'')]"

lemma example_task_paths:
  "scoped_log_path (pv_paths example_pv) ''/p'' ''gen'' (Scope_Task_Run ''r1'') = Inr ''/data/task-logs/r1/gen.log''"
  "scoped_log_path (pv_paths example_pv) ''/p'' ''seed'' (Scope_Task_Run ''r1'') = Inr ''/data/task-logs/r1/seed.log''"
  by code_simp+

lemma example_hash_path:
  "task_hash_path (pv_paths example_pv) ''/p'' ''gen'' = Inr ''/data/task-hashes/0/gen.sha256''"
  "task_hashes_dir (pv_paths example_pv) ''/p'' = Inr ''/data/task-hashes/0''"
  by code_simp+

lemma example_task_world [simp]:
  "tw_env example_task_world = example_pv" "tw_quote example_task_world s = Inr s"
  "tw_mkdir example_task_world p = None" "tw_open example_task_world p = None" "tw_read example_task_world p = None"
  "tw_write example_task_world p = None" "tc_spawn_error (tw_child example_task_world k sh) = None"
  "tc_exit (tw_child example_task_world k sh) = Inr (Some 0)" "tc_duration (tw_child example_task_world k sh) = 40"
  "task_watch_hash example_task_world cwd watch = Inr ''h''"
  by (simp_all add: example_task_world_def task_watch_hash_def example_pv_def)

lemma run_logged_ok:
  assumes "scoped_log_path (tw_paths tw) dir name scope = Inr path" and "\<And>p. tw_mkdir tw p = None" and "\<And>p. tw_open tw p = None"
    and "\<And>p. tw_write tw p = None" and "\<And>k. tc_spawn_error (tw_child tw k sh) = None" and "\<And>k. tc_exit (tw_child tw k sh) = Inr (Some 0)"
    and "load_history tw hp tk = Inr history"
  shows "\<exists>r tk'. run_logged tw name dir scope hp None sh tk = (Inr r, tk') \<and> tr_exit_code r = 0"
proof -
  obtain u tk1 where opened: "open_logs tw path None (started_command sh tk) = (Inr u, tk1)"
    using assms(2,3) by (auto simp: open_logs_def Let_def)
  then have "tk_histories tk1 = tk_histories tk" using open_logs_frame(3) [of tw path None "started_command sh tk"] by simp
  then have "load_history tw hp (pump_output tw name path None out tk1) = Inr history" for out
    using load_history_cong [of "pump_output tw name path None out tk1" tk tw hp] assms(7) by simp
  then show ?thesis
    using assms opened
    by (cases "path_parent path")
      (simp_all add: run_logged_def Let_def record_execution_def append_task_execution_def append_history_def result_of_child_def)
qed

lemma example_checked:
  assumes "map_of example_tasks name = Some task" and "load_history example_task_world ''/h'' tk = Inr history"
  shows "\<exists>tk' history'. run_checked example_task_world (init_phase example_tasks ''/p'' (Scope_Task_Run ''r1'') ''/h'' False [] None)
      name task tk = (Inr (), tk') \<and> load_history example_task_world ''/h'' tk' = Inr history'"
proof -
  let ?ph = "init_phase example_tasks ''/p'' (Scope_Task_Run ''r1'') ''/h'' False [] None"
  have name: "name = ''gen'' \<or> name = ''seed''" using assms(1) by (auto simp: example_tasks_def split: if_splits)
  obtain sh where sh: "task_command example_task_world task ''/p'' [] [] = Inr sh"
    using assms(1) by (auto simp: example_tasks_def task_command_def env_file_into_def Let_def split: if_splits)
  obtain path where "scoped_log_path (tw_paths example_task_world) ''/p'' name (Scope_Task_Run ''r1'') = Inr path"
    using name example_task_paths by auto
  from run_logged_ok [OF this _ _ _ _ _ assms(2), of sh]
  obtain tk' where ran: "run_checked example_task_world ?ph name task tk = (Inr (), tk')"
    by (auto simp: run_checked_def run_task_def sh task_success_def)
  have "adds_entry example_task_world ''/h'' tk [e] tk' \<Longrightarrow> \<exists>history'. load_history example_task_world ''/h'' tk' = Inr history'" for e
    using assms(2) by (simp add: adds_entry_def)
  then show ?thesis using run_checked_Inr [OF ran] assms(1) ran by auto
qed

theorem init_tasks_run_once_witness:
  "\<exists>tk' sh1 sh2. run_init_tasks example_task_world example_tasks [''gen'', ''seed''] ''/p'' (Scope_Task_Run ''r1'') ''/h'' False [] None
       empty_task_disk = (Inr (), tk') \<and> tk_started tk' = [sh1, sh2] \<and>
     run_init_tasks example_task_world example_tasks [''gen''] ''/p'' (Scope_Task_Run ''r1'') ''/h'' False [] None tk' = (Inr (), tk')"
proof -
  let ?tw = example_task_world
  let ?ph = "init_phase example_tasks ''/p'' (Scope_Task_Run ''r1'') ''/h'' False [] None"
  have tasks: "\<exists>task. map_of example_tasks ''gen'' = Some task \<and> task_watch task \<noteq> []"
      "\<exists>task. map_of example_tasks ''seed'' = Some task \<and> task_watch task = []"
    by (simp_all add: example_tasks_def)
  have start: "load_history ?tw ''/h'' empty_task_disk = Inr []" by (simp add: load_history_def empty_task_disk_def)
  obtain gen where gen: "map_of example_tasks ''gen'' = Some gen" "task_watch gen \<noteq> []" using tasks(1) by blast
  obtain seed where seed: "map_of example_tasks ''seed'' = Some seed" "task_watch seed = []" using tasks(2) by blast
  obtain tk0 history where ran: "run_checked ?tw ?ph ''gen'' gen empty_task_disk = (Inr (), tk0)" "load_history ?tw ''/h'' tk0 = Inr history"
    using example_checked [OF gen(1) start] by blast
  define tk1 where "tk1 = tk0\<lparr>tk_hashes := bm_insert ''/data/task-hashes/0/gen.sha256'' ''h'' (tk_hashes tk0)\<rparr>"
  have "load_stored_hash ?tw ''/p'' ''gen'' empty_task_disk = Inr None"
    by (simp add: load_stored_hash_def example_hash_path empty_task_disk_def)
  moreover have "store_hash ?tw ''/p'' ''gen'' ''h'' tk0 = (Inr (), tk1)"
    by (simp add: store_hash_def example_hash_path tk1_def)
  ultimately have one: "run_phase_task ?tw ?ph ''gen'' empty_task_disk = (Inr (), tk1)"
    using gen ran(1) by (simp add: run_phase_task_def run_watched_def)
  have "load_history ?tw ''/h'' tk1 = Inr history"
    using ran(2) load_history_cong [of tk1 tk0] by (simp add: tk1_def)
  then obtain tk' where two: "run_phase_task ?tw ?ph ''seed'' tk1 = (Inr (), tk')"
    using example_checked [OF seed(1)] seed by (auto simp: run_phase_task_def)
  have run: "run_init_tasks ?tw example_tasks [''gen'', ''seed''] ''/p'' (Scope_Task_Run ''r1'') ''/h'' False [] None
      empty_task_disk = (Inr (), tk')"
    by (simp add: run_init_tasks_def one two)
  have stale: "\<not> up_to_date ?tw ?ph empty_task_disk n" for n
    by (cases "task_hash_path (tw_paths ?tw) ''/p'' n") (simp_all add: up_to_date_def load_stored_hash_def empty_task_disk_def)
  have only: "filter (watched ?ph) [''gen'', ''seed''] = [''gen'']"
    using tasks by (auto simp: watched_def)
  have "trim ''h'' = ''h''" by code_simp
  then have "(\<exists>shs. tk_started tk' = shs \<and> commands_of ?tw ?ph 0 [''gen'', ''seed''] shs) \<and>
      run_init_tasks ?tw example_tasks [''gen''] ''/p'' (Scope_Task_Run ''r1'') ''/h'' False [] None tk' = (Inr (), tk')"
    using init_tasks_run_once [OF run] unfolding only by (auto simp: stale empty_task_disk_def [THEN arg_cong [where f = tk_started]])
  then show ?thesis using run by (auto split: list.splits)
qed

section \<open>Detached executions, interleaved\<close>

text \<open>
  The store is locked for each of its methods only, and the background task waits between its parts: an
  execution goes through these stages, and between any two of them the steps of others may come. The
  second component of a state holds the executions on their way; those that are spawned and have not run their
  command are in \<open>tb_spawned\<close>.
\<close>

datatype flight_stage = Checked | Inserted | Announced | Ran "task_result result" | Recorded | Log_Ingested

record flight =
  fl_stage :: flight_stage
  fl_task :: task_execution
  fl_config :: task_config
  fl_args :: "string list"

inductive task_step :: "task_world \<Rightarrow> task_app \<times> flight list \<Rightarrow> task_app \<times> flight list \<Rightarrow> bool" for tw where
  checked: "requested_task tw req = Inr task \<Longrightarrow>
     run_id = find_latest_active_run_for_project (tw_canon tw) (sq_project_dir req) runs \<Longrightarrow>
     \<not> has_running_task (tw_canon tw) (sq_task req) run_id (sq_project_dir req) (tb_tasks tb) \<Longrightarrow>
     task_step tw (tb, fl)
       (tb, \<lparr>fl_stage = Checked,
             fl_task = new_task_execution now instant (new_execution_id random) (sq_task req) (sq_project_dir req) run_id,
             fl_config = task, fl_args = sq_args req\<rparr> # fl)"
| inserted: "fl = before @ f # after \<Longrightarrow> fl_stage f = Checked \<Longrightarrow> add_task (fl_task f) (tb_tasks tb) = (Inr (), tasks) \<Longrightarrow>
     task_step tw (tb, fl) (tb\<lparr>tb_tasks := tasks\<rparr>, before @ f\<lparr>fl_stage := Inserted\<rparr> # after)"
| refused: "fl = before @ f # after \<Longrightarrow> fl_stage f = Checked \<Longrightarrow> add_task (fl_task f) (tb_tasks tb) = (Inl e, tasks) \<Longrightarrow>
     task_step tw (tb, fl) (tb\<lparr>tb_tasks := tasks\<rparr>, before @ after)"
| announced: "fl = before @ f # after \<Longrightarrow> fl_stage f = Inserted \<Longrightarrow>
     task_step tw (tb, fl) (announce_detached (fl_task f) tb, before @ f\<lparr>fl_stage := Announced\<rparr> # after)"
| spawned: "fl = before @ f # after \<Longrightarrow> fl_stage f = Announced \<Longrightarrow>
     task_step tw (tb, fl) (spawn_detached (fl_task f) (fl_config f) (fl_args f) tb, before @ after)"
| ran: "tb_spawned tb = before @ (t, task, args) # after \<Longrightarrow> run_detached tw t task args (tb_disk tb) = (result, tk) \<Longrightarrow>
     task_step tw (tb, fl) (tb\<lparr>tb_disk := tk, tb_spawned := before @ after\<rparr>,
       \<lparr>fl_stage = Ran result, fl_task = t, fl_config = task, fl_args = args\<rparr> # fl)"
| recorded: "fl = before @ f # after \<Longrightarrow> fl_stage f = Ran result \<Longrightarrow>
     record_detached_end now instant (fl_task f) result tb = (updated, tb') \<Longrightarrow>
     task_step tw (tb, fl) (tb', before @ f\<lparr>fl_stage := Recorded, fl_task := updated\<rparr> # after)"
| ingested: "fl = before @ f # after \<Longrightarrow> fl_stage f = Recorded \<Longrightarrow>
     task_step tw (tb, fl) (ingest_task_log tw (fl_task f) tb, before @ f\<lparr>fl_stage := Log_Ingested\<rparr> # after)"
| ended: "fl = before @ f # after \<Longrightarrow> fl_stage f = Log_Ingested \<Longrightarrow>
     task_step tw (tb, fl) (announce_detached_end (fl_task f) tb, before @ after)"
| disk_changed: "task_step tw (tb, fl) (tb\<lparr>tb_disk := tk\<rparr>, fl)"

abbreviation task_steps where "task_steps tw \<equiv> (task_step tw)\<^sup>*\<^sup>*"

definition fresh_task_app :: "task_disk \<Rightarrow> task_app" where
  "fresh_task_app tk = \<lparr>tb_tasks = [], tb_events = [], tb_disk = tk, tb_ingested = [], tb_spawned = []\<rparr>"

text \<open>What a record of an execution looks like in each of its states.\<close>

definition record_ok :: "task_execution \<Rightarrow> bool" where
  "record_ok t \<longleftrightarrow>
     (case te_state t of
        Task_Running \<Rightarrow> te_finished_at t = None \<and> te_exit_code t = None \<and> te_duration_ms t = None
      | Task_Completed \<Rightarrow> te_finished_at t \<noteq> None \<and> te_exit_code t = Some 0 \<and> te_duration_ms t \<noteq> None
      | Task_Failed \<Rightarrow> te_finished_at t \<noteq> None \<and> te_exit_code t \<noteq> Some 0 \<and> te_duration_ms t \<noteq> None)"

definition events_of :: "string \<Rightarrow> daemon_event list \<Rightarrow> daemon_event list" where
  "events_of k = filter (\<lambda>e. case e of Ev_Task _ t \<Rightarrow> te_execution_id t = k | _ \<Rightarrow> False)"

text \<open>Where the execution of an id is on its way: its stage, none for a spawned one, and the record carried.\<close>

definition spawned_as :: "string \<Rightarrow> (task_execution \<times> task_config \<times> string list) list \<Rightarrow> (flight_stage option \<times> task_execution) list" where
  "spawned_as k xs = map (\<lambda>(t, _). (None, t)) (filter (\<lambda>(t, _). te_execution_id t = k) xs)"

definition flying :: "string \<Rightarrow> flight list \<Rightarrow> (flight_stage option \<times> task_execution) list" where
  "flying k fl = map (\<lambda>f. (Some (fl_stage f), fl_task f))
     (filter (\<lambda>f. te_execution_id (fl_task f) = k \<and> fl_stage f \<noteq> Checked) fl)"

definition places :: "task_app \<Rightarrow> flight list \<Rightarrow> string \<Rightarrow> (flight_stage option \<times> task_execution) list" where
  "places tb fl k = spawned_as k (tb_spawned tb) @ flying k fl"

text \<open>The events of an execution in its stages.\<close>

definition stage_ok :: "flight_stage option \<Rightarrow> task_execution \<Rightarrow> daemon_event list \<Rightarrow> bool" where
  "stage_ok place t evs \<longleftrightarrow>
     (case place of
        Some Checked \<Rightarrow> False
      | Some Inserted \<Rightarrow> te_state t = Task_Running \<and> evs = []
      | Some Recorded \<Rightarrow> te_state t \<noteq> Task_Running \<and> (\<exists>t0. te_state t0 = Task_Running \<and> evs = [task_event t0 Task_Event_Started])
      | Some Log_Ingested \<Rightarrow> te_state t \<noteq> Task_Running \<and> (\<exists>t0. te_state t0 = Task_Running \<and> evs = [task_event t0 Task_Event_Started])
      | _ \<Rightarrow> te_state t = Task_Running \<and> evs = [task_event t Task_Event_Started])"

definition execution_ok :: "task_app \<Rightarrow> flight list \<Rightarrow> string \<Rightarrow> bool" where
  "execution_ok tb fl k \<longleftrightarrow>
     (case map_of (tb_tasks tb) k of
        None \<Rightarrow> events_of k (tb_events tb) = [] \<and> places tb fl k = []
      | Some t \<Rightarrow> te_execution_id t = k \<and> record_ok t \<and>
          (case places tb fl k of
             [] \<Rightarrow> te_state t \<noteq> Task_Running \<and> (\<exists>t0. te_state t0 = Task_Running \<and>
                 events_of k (tb_events tb) = [task_event t0 Task_Event_Started, task_end_event t])
           | [(place, t1)] \<Rightarrow> t1 = t \<and> stage_ok place t (events_of k (tb_events tb))
           | _ \<Rightarrow> False))"

definition started_ok :: "task_execution \<Rightarrow> bool" where
  "started_ok t \<longleftrightarrow> te_state t = Task_Running \<and> record_ok t"

definition tasks_ok :: "task_app \<times> flight list \<Rightarrow> bool" where
  "tasks_ok s \<longleftrightarrow> (\<forall>k. execution_ok (fst s) (snd s) k) \<and> (\<forall>f \<in> set (snd s). fl_stage f = Checked \<longrightarrow> started_ok (fl_task f))"

lemma started_ok_new: "started_ok (new_task_execution now instant k task dir run_id)"
  by (simp add: started_ok_def record_ok_def new_task_execution_def)

lemma events_of_append [simp]: "events_of k (evs @ evs') = events_of k evs @ events_of k evs'"
  by (simp add: events_of_def)

lemma events_of_task [simp]: "events_of k [task_event t kind] = (if te_execution_id t = k then [task_event t kind] else [])"
  by (simp add: events_of_def task_event_def)

lemma events_of_end [simp]: "events_of k [task_end_event t] = (if te_execution_id t = k then [task_end_event t] else [])"
  by (simp add: events_of_def task_end_event_def task_event_def)

lemma ingest_frame [simp]:
  "tb_tasks (ingest_task_log tw t tb) = tb_tasks tb" "tb_events (ingest_task_log tw t tb) = tb_events tb"
  "tb_spawned (ingest_task_log tw t tb) = tb_spawned tb" "tb_disk (ingest_task_log tw t tb) = tb_disk tb"
  by (simp_all add: ingest_task_log_def split: option.split sum.split)

lemma flying_simps [simp]:
  "flying k [] = []" "flying k (xs @ ys) = flying k xs @ flying k ys"
  "flying k (f # fl) = (if te_execution_id (fl_task f) = k \<and> fl_stage f \<noteq> Checked
     then (Some (fl_stage f), fl_task f) # flying k fl else flying k fl)"
  by (simp_all add: flying_def)

lemma spawned_as_simps [simp]:
  "spawned_as k [] = []" "spawned_as k (xs @ ys) = spawned_as k xs @ spawned_as k ys"
  "spawned_as k ((t, c) # xs) = (if te_execution_id t = k then (None, t) # spawned_as k xs else spawned_as k xs)"
  by (simp_all add: spawned_as_def)

lemma flying_id: "(place, t) \<in> set (flying k fl) \<Longrightarrow> te_execution_id t = k"
  by (auto simp: flying_def)

text \<open>An execution on its way is in one place, where its record is carried.\<close>

lemma one_place:
  assumes "execution_ok tb fl k" and "places tb fl k = A @ (place, t) # B"
  shows "A = [] \<and> B = [] \<and> map_of (tb_tasks tb) k = Some t \<and> te_execution_id t = k \<and> record_ok t \<and>
    stage_ok place t (events_of k (tb_events tb))"
proof -
  obtain r where r: "map_of (tb_tasks tb) k = Some r" using assms by (auto simp: execution_ok_def split: option.splits)
  have known: "te_execution_id r = k" "record_ok r" using assms(1) by (simp_all add: execution_ok_def r)
  show ?thesis
  proof (cases A)
    case Nil
    then show ?thesis using assms r known by (cases B) (simp_all add: execution_ok_def)
  next
    case (Cons p A')
    obtain q rest where "A' @ (place, t) # B = q # rest" by (cases A') auto
    then show ?thesis using assms Cons by (cases p) (simp add: execution_ok_def r)
  qed
qed

lemma execution_ok_cong:
  assumes "map_of (tb_tasks tb') k = map_of (tb_tasks tb) k" and "events_of k (tb_events tb') = events_of k (tb_events tb)"
    and "places tb' fl' k = places tb fl k"
  shows "execution_ok tb' fl' k = execution_ok tb fl k"
  unfolding execution_ok_def assms ..

text \<open>A step of one execution leaves the others alone.\<close>

lemma tasks_ok_moved:
  assumes "tasks_ok (tb, fl)" and "execution_ok tb' fl' k"
    and "\<And>j. j \<noteq> k \<Longrightarrow> map_of (tb_tasks tb') j = map_of (tb_tasks tb) j \<and> events_of j (tb_events tb') = events_of j (tb_events tb) \<and>
      places tb' fl' j = places tb fl j"
    and "\<And>f. f \<in> set fl' \<Longrightarrow> fl_stage f = Checked \<Longrightarrow> f \<in> set fl"
  shows "tasks_ok (tb', fl')"
proof -
  have "execution_ok tb' fl' j" for j
  proof (cases "j = k")
    case False
    have "execution_ok tb fl j" using assms(1) by (simp add: tasks_ok_def)
    then show ?thesis using assms(3) [OF False] execution_ok_cong [of tb' j tb fl' fl] by blast
  qed (use assms(2) in simp)
  then show ?thesis using assms(1,4) by (auto simp: tasks_ok_def)
qed

lemma tasks_ok_inserted:
  assumes ok: "tasks_ok (tb, before @ f # after)" and f: "fl_stage f = Checked"
    and add: "add_task (fl_task f) (tb_tasks tb) = (Inr (), tasks)"
  shows "tasks_ok (tb\<lparr>tb_tasks := tasks\<rparr>, before @ f\<lparr>fl_stage := Inserted\<rparr> # after)"
proof -
  let ?k = "te_execution_id (fl_task f)"
  have absent: "map_of (tb_tasks tb) ?k = None" and tasks: "tasks = bm_insert ?k (fl_task f) (tb_tasks tb)"
    using add by (auto simp: add_task_def bm_contains_def split: if_splits)
  have "execution_ok tb (before @ f # after) ?k" "started_ok (fl_task f)" using ok f by (simp_all add: tasks_ok_def)
  then have "execution_ok (tb\<lparr>tb_tasks := tasks\<rparr>) (before @ f\<lparr>fl_stage := Inserted\<rparr> # after) ?k"
    using absent f by (simp add: execution_ok_def tasks map_of_bm_insert places_def started_ok_def stage_ok_def)
  then show ?thesis
    by (rule tasks_ok_moved [OF ok]) (auto simp: tasks map_of_bm_insert places_def f)
qed

text \<open>The steps of an execution after it was inserted, of which \<open>f\<close> is the place.\<close>

lemma flight_place:
  assumes "tasks_ok (tb, before @ f # after)" and "fl_stage f \<noteq> Checked" and "k = te_execution_id (fl_task f)"
  shows "spawned_as k (tb_spawned tb) = []" and "flying k before = []" and "flying k after = []"
    and "map_of (tb_tasks tb) k = Some (fl_task f)" and "record_ok (fl_task f)"
    and "stage_ok (Some (fl_stage f)) (fl_task f) (events_of k (tb_events tb))"
proof -
  have "execution_ok tb (before @ f # after) k" using assms(1) by (simp add: tasks_ok_def)
  moreover have "places tb (before @ f # after) k =
      (spawned_as k (tb_spawned tb) @ flying k before) @ (Some (fl_stage f), fl_task f) # flying k after"
    using assms(2,3) by (simp add: places_def)
  ultimately have "spawned_as k (tb_spawned tb) @ flying k before = [] \<and> flying k after = [] \<and>
      map_of (tb_tasks tb) k = Some (fl_task f) \<and> record_ok (fl_task f) \<and>
      stage_ok (Some (fl_stage f)) (fl_task f) (events_of k (tb_events tb))"
    using one_place by blast
  then show "spawned_as k (tb_spawned tb) = []" and "flying k before = []" and "flying k after = []"
    and "map_of (tb_tasks tb) k = Some (fl_task f)" and "record_ok (fl_task f)"
    and "stage_ok (Some (fl_stage f)) (fl_task f) (events_of k (tb_events tb))" by simp_all
qed

lemma tasks_ok_announced:
  assumes ok: "tasks_ok (tb, before @ f # after)" and f: "fl_stage f = Inserted"
  shows "tasks_ok (announce_detached (fl_task f) tb, before @ f\<lparr>fl_stage := Announced\<rparr> # after)"
proof -
  let ?k = "te_execution_id (fl_task f)"
  note place = flight_place [OF ok, of ?k, unfolded f, simplified]
  have "execution_ok (announce_detached (fl_task f) tb) (before @ f\<lparr>fl_stage := Announced\<rparr> # after) ?k"
    using place by (simp add: execution_ok_def places_def announce_detached_def stage_ok_def)
  then show ?thesis
    by (rule tasks_ok_moved [OF ok]) (auto simp: places_def announce_detached_def f)
qed

lemma tasks_ok_spawned:
  assumes ok: "tasks_ok (tb, before @ f # after)" and f: "fl_stage f = Announced"
  shows "tasks_ok (spawn_detached (fl_task f) c args tb, before @ after)"
proof -
  let ?k = "te_execution_id (fl_task f)"
  note place = flight_place [OF ok, of ?k, unfolded f, simplified]
  have "execution_ok (spawn_detached (fl_task f) c args tb) (before @ after) ?k"
    using place by (simp add: execution_ok_def places_def spawn_detached_def stage_ok_def)
  then show ?thesis
    by (rule tasks_ok_moved [OF ok]) (auto simp: places_def spawn_detached_def f)
qed

lemma tasks_ok_ran:
  assumes ok: "tasks_ok (tb, fl)" and sp: "tb_spawned tb = before @ (t, task, args) # after"
  shows "tasks_ok (tb\<lparr>tb_disk := tk, tb_spawned := before @ after\<rparr>,
    \<lparr>fl_stage = Ran result, fl_task = t, fl_config = task, fl_args = args\<rparr> # fl)"
proof -
  let ?k = "te_execution_id t"
  have "execution_ok tb fl ?k" using ok by (simp add: tasks_ok_def)
  moreover have "places tb fl ?k = spawned_as ?k before @ (None, t) # (spawned_as ?k after @ flying ?k fl)"
    by (simp add: places_def sp)
  ultimately have place: "spawned_as ?k before = [] \<and> spawned_as ?k after @ flying ?k fl = [] \<and>
      map_of (tb_tasks tb) ?k = Some t \<and> te_execution_id t = ?k \<and> record_ok t \<and> stage_ok None t (events_of ?k (tb_events tb))"
    by (rule one_place)
  then have "execution_ok (tb\<lparr>tb_disk := tk, tb_spawned := before @ after\<rparr>)
      (\<lparr>fl_stage = Ran result, fl_task = t, fl_config = task, fl_args = args\<rparr> # fl) ?k"
    by (simp add: execution_ok_def places_def stage_ok_def)
  then show ?thesis
    by (rule tasks_ok_moved [OF ok]) (auto simp: places_def sp)
qed

lemma tasks_ok_recorded:
  assumes ok: "tasks_ok (tb, before @ f # after)" and f: "fl_stage f = Ran result"
    and rec: "record_detached_end now instant (fl_task f) result tb = (updated, tb')"
  shows "tasks_ok (tb', before @ f\<lparr>fl_stage := Recorded, fl_task := updated\<rparr> # after)"
proof -
  let ?k = "te_execution_id (fl_task f)"
  let ?exit = "case result of Inl _ \<Rightarrow> None | Inr r \<Rightarrow> Some (tr_exit_code r)"
  note place = flight_place [OF ok, of ?k, unfolded f, simplified]
  have running: "te_state (fl_task f) = Task_Running" "events_of ?k (tb_events tb) = [task_event (fl_task f) Task_Event_Started]"
    "te_exit_code (fl_task f) = None"
    using place by (simp_all add: stage_ok_def record_ok_def)
  have updated: "updated = (case ?exit of Some exit \<Rightarrow> mark_completed now instant exit (fl_task f) | None \<Rightarrow> mark_task_failed now instant (fl_task f))"
    and tb': "tb' = tb\<lparr>tb_tasks := bm_update ?k (\<lambda>_. updated) (tb_tasks tb)\<rparr>"
    using rec place by (auto simp: record_detached_end_def update_task_state_def Let_def)
  have u: "te_execution_id updated = ?k" "record_ok updated" "te_state updated \<noteq> Task_Running"
    using running(3) by (auto simp: updated mark_completed_def mark_task_failed_def record_ok_def split: sum.split)
  have "execution_ok tb' (before @ f\<lparr>fl_stage := Recorded, fl_task := updated\<rparr> # after) ?k"
    using place u running by (auto simp: execution_ok_def places_def stage_ok_def tb' map_of_bm_update)
  then show ?thesis
    by (rule tasks_ok_moved [OF ok]) (auto simp: places_def tb' f u map_of_bm_update)
qed

lemma tasks_ok_ingested:
  assumes ok: "tasks_ok (tb, before @ f # after)" and f: "fl_stage f = Recorded"
  shows "tasks_ok (ingest_task_log tw (fl_task f) tb, before @ f\<lparr>fl_stage := Log_Ingested\<rparr> # after)"
proof -
  let ?k = "te_execution_id (fl_task f)"
  note place = flight_place [OF ok, of ?k, unfolded f, simplified]
  have "execution_ok (ingest_task_log tw (fl_task f) tb) (before @ f\<lparr>fl_stage := Log_Ingested\<rparr> # after) ?k"
    using place by (simp add: execution_ok_def places_def stage_ok_def)
  then show ?thesis
    by (rule tasks_ok_moved [OF ok]) (auto simp: places_def f)
qed

lemma tasks_ok_ended:
  assumes ok: "tasks_ok (tb, before @ f # after)" and f: "fl_stage f = Log_Ingested"
  shows "tasks_ok (announce_detached_end (fl_task f) tb, before @ after)"
proof -
  let ?k = "te_execution_id (fl_task f)"
  note place = flight_place [OF ok, of ?k, unfolded f, simplified]
  have "execution_ok (announce_detached_end (fl_task f) tb) (before @ after) ?k"
    using place by (auto simp: execution_ok_def places_def announce_detached_end_def stage_ok_def)
  then show ?thesis
    by (rule tasks_ok_moved [OF ok]) (auto simp: places_def announce_detached_end_def f)
qed

lemma tasks_ok_step:
  assumes "task_step tw s s'" and "tasks_ok s"
  shows "tasks_ok s'"
  using assms
proof (induction rule: task_step.induct)
  case (checked req task run_id runs tb fl now instant random)
  let ?f = "\<lparr>fl_stage = Checked, fl_task = new_task_execution now instant (new_execution_id random) (sq_task req) (sq_project_dir req) run_id,
      fl_config = task, fl_args = sq_args req\<rparr>"
  have "execution_ok tb (?f # fl) k = execution_ok tb fl k" for k by (rule execution_ok_cong) (simp_all add: places_def)
  then show ?case using checked by (simp add: tasks_ok_def started_ok_new)
next
  case (refused fl before f after tb e tasks)
  then have "tasks = tb_tasks tb" by (simp add: add_task_def split: if_splits)
  then have "execution_ok (tb\<lparr>tb_tasks := tasks\<rparr>) (before @ after) k = execution_ok tb fl k" for k
    by (intro execution_ok_cong) (use refused in \<open>simp_all add: places_def\<close>)
  then show ?case using refused by (simp add: tasks_ok_def)
next
  case (disk_changed tb fl tk)
  have "execution_ok (tb\<lparr>tb_disk := tk\<rparr>) fl k = execution_ok tb fl k" for k by (rule execution_ok_cong) (simp_all add: places_def)
  then show ?case using disk_changed by (simp add: tasks_ok_def)
next
  case (inserted fl before f after tb tasks)
  then show ?case using tasks_ok_inserted [of tb before f after tasks] by simp
next
  case (announced fl before f after tb)
  then show ?case using tasks_ok_announced [of tb before f after] by simp
next
  case (spawned fl before f after tb)
  then show ?case using tasks_ok_spawned [of tb before f after] by simp
next
  case (ran tb before t task args after result tk fl)
  then show ?case using tasks_ok_ran [of tb fl before t task args after] by simp
next
  case (recorded fl before f after result now instant tb updated tb')
  then show ?case using tasks_ok_recorded [of tb before f after] by simp
next
  case (ingested fl before f after tb)
  then show ?case using tasks_ok_ingested [of tb before f after] by simp
next
  case (ended fl before f after tb)
  then show ?case using tasks_ok_ended [of tb before f after] by simp
qed

lemma tasks_ok_fresh: "tasks_ok (fresh_task_app tk, [])"
  by (simp add: tasks_ok_def execution_ok_def fresh_task_app_def events_of_def places_def)

lemma tasks_ok_reachable: "task_steps tw (fresh_task_app tk, []) s \<Longrightarrow> tasks_ok s"
  by (induction rule: rtranclp_induct) (auto intro: tasks_ok_fresh tasks_ok_step)

text \<open>
  C23. Whatever the interleaving of the parts of starts and ends, a record in the store is filed under its
  execution id and has the fields of its state: a running one has no end, exit code or duration, a completed one
  ended with exit code zero, a failed one with another or none. An execution is on its way in one place until its
  end has been sent, and in none afterwards. It has no event before it is announced, then its start event; its end
  event comes once, after the record has ended and the log was taken in, and carries the record.
\<close>

theorem detached_records_well_formed:
  assumes "task_steps tw (fresh_task_app tk, []) (tb, fl)" and "map_of (tb_tasks tb) k = Some t"
  shows "te_execution_id t = k \<and> record_ok t \<and>
    (if te_state t = Task_Running
     then \<exists>place. places tb fl k = [(place, t)] \<and> place \<notin> {Some Checked, Some Recorded, Some Log_Ingested} \<and>
       events_of k (tb_events tb) = (if place = Some Inserted then [] else [task_event t Task_Event_Started])
     else \<exists>t0. te_state t0 = Task_Running \<and>
       (places tb fl k = [] \<and> events_of k (tb_events tb) = [task_event t0 Task_Event_Started, task_end_event t] \<or>
        (\<exists>stage \<in> {Recorded, Log_Ingested}. places tb fl k = [(Some stage, t)]) \<and>
          events_of k (tb_events tb) = [task_event t0 Task_Event_Started]))"
proof -
  have ok: "execution_ok tb fl k" using tasks_ok_reachable [OF assms(1)] by (simp add: tasks_ok_def)
  show ?thesis
  proof (cases "places tb fl k")
    case Nil
    then show ?thesis using ok assms(2) by (auto simp: execution_ok_def)
  next
    case (Cons p rest)
    obtain place t1 where p: "p = (place, t1)" by fastforce
    have "rest = [] \<and> t1 = t \<and> te_execution_id t = k \<and> record_ok t \<and> stage_ok place t (events_of k (tb_events tb))"
      using one_place [OF ok, of "[]" place t1 rest] Cons p assms(2) by simp
    then show ?thesis using Cons p
      by (auto simp: stage_ok_def split: option.splits flight_stage.splits)
  qed
qed

text \<open>A start that nothing comes between.\<close>

lemma detached_added:
  assumes "k = te_execution_id (fl_task f)" and "\<not> bm_contains (tb_tasks tb) k" and "fl_stage f = Checked"
  shows "task_steps tw (tb, before @ f # after) (snd (add_detached (fl_task f) (fl_config f) (fl_args f) tb), before @ after)"
proof -
  let ?tb1 = "tb\<lparr>tb_tasks := bm_insert k (fl_task f) (tb_tasks tb)\<rparr>"
  have "task_step tw (tb, before @ f # after) (?tb1, before @ f\<lparr>fl_stage := Inserted\<rparr> # after)"
    by (rule task_step.inserted) (use assms in \<open>simp_all add: add_task_def\<close>)
  moreover have "task_step tw (?tb1, before @ f\<lparr>fl_stage := Inserted\<rparr> # after)
      (announce_detached (fl_task f) ?tb1, before @ f\<lparr>fl_stage := Announced\<rparr> # after)"
    using task_step.announced [OF refl, of "f\<lparr>fl_stage := Inserted\<rparr>"] by simp
  moreover have "task_step tw (announce_detached (fl_task f) ?tb1, before @ f\<lparr>fl_stage := Announced\<rparr> # after)
      (spawn_detached (fl_task f) (fl_config f) (fl_args f) (announce_detached (fl_task f) ?tb1), before @ after)"
    using task_step.spawned [OF refl, of "f\<lparr>fl_stage := Announced\<rparr>"] by simp
  moreover have "snd (add_detached (fl_task f) (fl_config f) (fl_args f) tb) =
      spawn_detached (fl_task f) (fl_config f) (fl_args f) (announce_detached (fl_task f) ?tb1)"
    using assms(1,2) by (simp add: add_detached_def add_task_def)
  ultimately show ?thesis by (simp add: converse_rtranclp_into_rtranclp)
qed

text \<open>
  The check for a running task and the insertion of the new execution are separate: two starts of
  the same task whose checks both come first leave two running executions of it in the same run or
  project. In turn, the second start is refused.
\<close>

theorem task_started_twice:
  assumes "requested_task tw req = Inr task" and "new_execution_id r1 \<noteq> new_execution_id r2"
  shows "(\<exists>tb t1 t2. task_steps tw (fresh_task_app tk, []) (tb, []) \<and>
      map_of (tb_tasks tb) (new_execution_id r1) = Some t1 \<and> map_of (tb_tasks tb) (new_execution_id r2) = Some t2 \<and>
      te_state t1 = Task_Running \<and> te_state t2 = Task_Running \<and> te_task t1 = sq_task req \<and> te_task t2 = sq_task req \<and>
      te_run_id t1 = te_run_id t2 \<and> te_project_dir t1 = te_project_dir t2) \<and>
    (\<exists>tb response. start_task tw now instant r1 runs req (fresh_task_app tk) = (Inr response, tb) \<and>
      start_task tw now' instant' r2 runs req tb =
        (Inl (Bad_Request (''task '' @ quoted (sq_task req) @ '' is already running'')), tb))"
proof -
  let ?run = "find_latest_active_run_for_project (tw_canon tw) (sq_project_dir req) runs"
  define t where "t = (\<lambda>r. new_task_execution now instant (new_execution_id r) (sq_task req) (sq_project_dir req) ?run)"
  let ?start = "\<lambda>stage r. \<lparr>fl_stage = stage, fl_task = t r, fl_config = task, fl_args = sq_args req\<rparr>"
  let ?tb0 = "fresh_task_app tk"
  have t: "te_execution_id (t r) = new_execution_id r" "te_state (t r) = Task_Running" "te_task (t r) = sq_task req"
      "te_run_id (t r) = ?run" "te_project_dir (t r) = sq_project_dir req" for r
    by (simp_all add: t_def new_task_execution_def)
  define tb1 where "tb1 = snd (add_detached (t r1) task (sq_args req) ?tb0)"
  define tb2 where "tb2 = snd (add_detached (t r2) task (sq_args req) tb1)"
  have tb1: "tb_tasks tb1 = [(new_execution_id r1, t r1)]"
    by (simp add: tb1_def add_detached_def add_task_def fresh_task_app_def t bm_contains_def spawn_detached_def announce_detached_def)
  have free: "\<not> has_running_task (tw_canon tw) (sq_task req) ?run (sq_project_dir req) (tb_tasks ?tb0)"
    by (simp add: has_running_task_def fresh_task_app_def bm_values_def)
  have check: "task_step tw (?tb0, fl) (?tb0, ?start Checked r # fl)" for fl r
    using task_step.checked [OF assms(1) refl free, of fl now instant r] by (simp add: t_def)
  have "task_steps tw (?tb0, []) (?tb0, [?start Checked r2, ?start Checked r1])"
    using check [of "[]" r1] check [of "[?start Checked r1]" r2] by (meson converse_rtranclp_into_rtranclp rtranclp.rtrancl_refl)
  moreover have "task_steps tw (?tb0, [?start Checked r2, ?start Checked r1]) (tb1, [?start Checked r2])"
    using detached_added [of "te_execution_id (t r1)" "?start Checked r1" ?tb0 tw "[?start Checked r2]" "[]"]
    by (simp add: tb1_def fresh_task_app_def bm_contains_def)
  moreover have "task_steps tw (tb1, [?start Checked r2]) (tb2, [])"
    using detached_added [of "te_execution_id (t r2)" "?start Checked r2" tb1 tw "[]" "[]"] assms(2)
    by (simp add: tb2_def tb1 t bm_contains_def)
  ultimately have steps: "task_steps tw (?tb0, []) (tb2, [])" by (meson rtranclp_trans)
  have "tb_tasks tb2 = bm_insert (new_execution_id r2) (t r2) (tb_tasks tb1)"
    using assms(2) by (simp add: tb2_def add_detached_def add_task_def t tb1 bm_contains_def spawn_detached_def announce_detached_def)
  then have "map_of (tb_tasks tb2) (new_execution_id r1) = Some (t r1)" "map_of (tb_tasks tb2) (new_execution_id r2) = Some (t r2)"
    using assms(2) by (simp_all add: map_of_bm_insert tb1)
  then have twice: "\<exists>tb t1 t2. task_steps tw (?tb0, []) (tb, []) \<and>
      map_of (tb_tasks tb) (new_execution_id r1) = Some t1 \<and> map_of (tb_tasks tb) (new_execution_id r2) = Some t2 \<and>
      te_state t1 = Task_Running \<and> te_state t2 = Task_Running \<and> te_task t1 = sq_task req \<and> te_task t2 = sq_task req \<and>
      te_run_id t1 = te_run_id t2 \<and> te_project_dir t1 = te_project_dir t2"
    using steps t by (intro exI [of _ tb2] exI [of _ "t r1"] exI [of _ "t r2"]) simp
  have "has_running_task (tw_canon tw) (sq_task req) ?run (sq_project_dir req) (tb_tasks tb1)"
    by (simp add: has_running_task_def tb1 bm_values_def t store_same_project_dir_def split: option.split)
  then have refused: "start_task tw now' instant' r2 runs req tb1 =
      (Inl (Bad_Request (''task '' @ quoted (sq_task req) @ '' is already running'')), tb1)"
    by (simp add: start_task_def assms(1) Let_def)
  have "start_task tw now instant r1 runs req ?tb0 = add_detached (t r1) task (sq_args req) ?tb0"
    using free by (simp add: start_task_def assms(1) t_def Let_def)
  moreover have "fst (add_detached (t r1) task (sq_args req) ?tb0) =
      Inr \<lparr>sa_execution_id = te_execution_id (t r1), sa_task = te_task (t r1), sa_run_id = te_run_id (t r1)\<rparr>"
    by (simp add: add_detached_def add_task_def fresh_task_app_def bm_contains_def)
  ultimately have "\<exists>response. start_task tw now instant r1 runs req ?tb0 = (Inr response, tb1)"
    by (simp add: tb1_def prod_eq_iff)
  then show ?thesis using twice refused by blast
qed

definition tasks_config :: config_file where
  "tasks_config =
     \<lparr>cf_version = 1, cf_stacks = [], cf_default_stack = None, cf_globals = None, cf_tasks = Some example_tasks,
      cf_env = [], cf_env_file = None\<rparr>"

definition loading_task_world :: task_world where
  "loading_task_world =
     example_task_world\<lparr>tw_loader := \<lparr>cl_read = (\<lambda>_. Inr ''raw''), cl_utf8 = (\<lambda>s. Inr s),
       cl_toml = (\<lambda>_. Inr tasks_config), cl_yaml = (\<lambda>_. Inl ''yaml'')\<rparr>\<rparr>"

definition seed_request :: start_task_request where
  "seed_request = \<lparr>sq_project_dir = ''/p'', sq_file = None, sq_task = ''seed'', sq_args = []\<rparr>"

lemma seed_requested: "requested_task loading_task_world seed_request = Inr (Task_Command ''./seed'')"
proof -
  have "validate_config tasks_config = Inr ()" by code_simp
  moreover have "path_extension ''/p/devstack.toml'' = Some ''toml''" by code_simp
  moreover have "config_default_path (pv_exists example_pv) ''/p'' = ''/p/devstack.toml''" by code_simp
  ultimately show ?thesis
    by (simp add: requested_task_def seed_request_def loading_task_world_def load_from_path_def parse_toml_def
        tasks_config_def example_tasks_def)
qed

lemma new_ids_differ: "new_execution_id 1 \<noteq> new_execution_id 2"
  by code_simp

text \<open>A task whose record has ended and whose end was not sent yet.\<close>

theorem detached_records_well_formed_witness:
  "\<exists>tb fl t t0. task_steps loading_task_world (fresh_task_app empty_task_disk, []) (tb, fl) \<and>
     map_of (tb_tasks tb) (new_execution_id 1) = Some t \<and> te_execution_id t = new_execution_id 1 \<and> record_ok t \<and>
     te_state t \<noteq> Task_Running \<and> places tb fl (new_execution_id 1) \<noteq> [] \<and>
     events_of (new_execution_id 1) (tb_events tb) = [task_event t0 Task_Event_Started]"
proof -
  let ?tw = loading_task_world and ?tb0 = "fresh_task_app empty_task_disk" and ?k = "new_execution_id 1"
  define t where "t = new_task_execution ''t0'' 0 (new_execution_id 1) ''seed'' ''/p'' None"
  let ?start = "\<lparr>fl_stage = Checked, fl_task = t, fl_config = Task_Command ''./seed'', fl_args = []\<rparr>"
  have none: "find_latest_active_run_for_project (tw_canon ?tw) ''/p'' [] = None"
    by (simp add: find_latest_active_run_for_project_def latest_candidate_def bm_values_def)
  have t: "te_execution_id t = ?k" "te_state t = Task_Running" "te_run_id t = None" "te_project_dir t = ''/p''" "te_task t = ''seed''"
    by (simp_all add: t_def new_task_execution_def)
  define tb1 where "tb1 = snd (add_detached t (Task_Command ''./seed'') [] ?tb0)"
  have tb1: "tb_tasks tb1 = [(?k, t)]" "tb_spawned tb1 = [(t, Task_Command ''./seed'', [])]" "tb_disk tb1 = empty_task_disk"
    by (simp_all add: tb1_def add_detached_def add_task_def fresh_task_app_def t bm_contains_def spawn_detached_def announce_detached_def)
  have "task_step ?tw (?tb0, []) (?tb0, [?start])"
    using task_step.checked [OF seed_requested refl, where tb = ?tb0 and runs = "[]" and fl = "[]" and now = "''t0''" and instant = 0 and random = 1] none
    by (simp add: t_def seed_request_def has_running_task_def fresh_task_app_def bm_values_def)
  moreover have "task_steps ?tw (?tb0, [?start]) (tb1, [])"
    using detached_added [of "te_execution_id t" ?start ?tb0 ?tw "[]" "[]"] by (simp add: tb1_def fresh_task_app_def bm_contains_def)
  ultimately have one: "task_steps ?tw (?tb0, []) (tb1, [])" by (rule converse_rtranclp_into_rtranclp)
  obtain result tk where run: "run_detached ?tw t (Task_Command ''./seed'') [] (tb_disk tb1) = (result, tk)" by fastforce
  let ?ran = "\<lparr>fl_stage = Ran result, fl_task = t, fl_config = Task_Command ''./seed'', fl_args = []\<rparr>"
  let ?tb2 = "tb1\<lparr>tb_disk := tk, tb_spawned := []\<rparr>"
  have "task_step ?tw (tb1, []) (?tb2, [?ran])"
    using task_step.ran [of tb1 "[]" t _ _ "[]", OF _ run] tb1(2) by simp
  moreover obtain updated tb3 where rec: "record_detached_end ''t1'' 5 t result ?tb2 = (updated, tb3)" by fastforce
  moreover have "task_step ?tw (?tb2, [?ran]) (tb3, [?ran\<lparr>fl_stage := Recorded, fl_task := updated\<rparr>])"
    using task_step.recorded [of "[?ran]" "[]" ?ran "[]" result "''t1''" 5 ?tb2 updated tb3 ?tw] rec by simp
  ultimately have steps: "task_steps ?tw (?tb0, []) (tb3, [?ran\<lparr>fl_stage := Recorded, fl_task := updated\<rparr>])"
    using one by (meson rtranclp.rtrancl_into_rtrancl)
  let ?exit = "case result of Inl _ \<Rightarrow> None | Inr r \<Rightarrow> Some (tr_exit_code r)"
  have updated: "updated = (case ?exit of Some exit \<Rightarrow> mark_completed ''t1'' 5 exit t | None \<Rightarrow> mark_task_failed ''t1'' 5 t)"
    and tb3: "tb_tasks tb3 = [(?k, updated)]"
    using rec t tb1(1) by (auto simp: record_detached_end_def update_task_state_def bm_update_def Let_def split: sum.splits)
  have state: "te_state updated \<noteq> Task_Running" "te_execution_id updated = ?k"
    using t by (simp_all add: updated mark_completed_def mark_task_failed_def split: sum.split)
  have filed: "map_of (tb_tasks tb3) ?k = Some updated" by (simp add: tb3)
  have "places tb3 [?ran\<lparr>fl_stage := Recorded, fl_task := updated\<rparr>] ?k \<noteq> []" by (simp add: places_def state)
  with detached_records_well_formed [OF steps filed] state(1) filed steps show ?thesis by auto
qed

theorem task_started_twice_witness:
  "\<exists>tb t1 t2. task_steps loading_task_world (fresh_task_app empty_task_disk, []) (tb, []) \<and>
      map_of (tb_tasks tb) (new_execution_id 1) = Some t1 \<and> map_of (tb_tasks tb) (new_execution_id 2) = Some t2 \<and>
      te_state t1 = Task_Running \<and> te_state t2 = Task_Running \<and> te_task t1 = ''seed'' \<and> te_task t2 = ''seed''"
  using task_started_twice [OF seed_requested new_ids_differ, where tk = empty_task_disk and now = "''t0''" and instant = 0
      and runs = "[]" and now' = "''t1''" and instant' = 5]
  by (fastforce simp: seed_request_def)

section \<open>The latest executions\<close>

definition not_after :: "task_entry \<Rightarrow> task_entry \<Rightarrow> bool" where
  "not_after a b \<longleftrightarrow> ty_finished_at a < ty_finished_at b \<or> ty_finished_at a = ty_finished_at b \<and> ty_started_at a \<le> ty_started_at b"

lemma supersedes_not_after: "supersedes e current \<longleftrightarrow> not_after current e"
  by (auto simp: supersedes_def not_after_def)

lemma not_after_refl: "not_after a a"
  by (simp add: not_after_def)

lemma not_after_trans: "not_after a b \<Longrightarrow> not_after b c \<Longrightarrow> not_after a c"
  by (auto simp: not_after_def)

lemma not_after_total: "not_after a b \<or> not_after b a"
  by (auto simp: not_after_def)

definition latest_of :: "task_history \<Rightarrow> string \<Rightarrow> task_entry \<Rightarrow> bool" where
  "latest_of history task e \<longleftrightarrow>
     e \<in> set history \<and> ty_task e = task \<and> (\<forall>x \<in> set history. ty_task x = task \<longrightarrow> not_after x e)"

lemma latest_by_task_ok:
  "bm_ok (latest_by_task history) \<and>
   (\<forall>task. case map_of (latest_by_task history) task of
      None \<Rightarrow> \<forall>x \<in> set history. ty_task x \<noteq> task
    | Some e \<Rightarrow> latest_of history task e)"
proof (induction history rule: rev_induct)
  case Nil
  then show ?case by (simp add: latest_by_task_def)
next
  case (snoc x history)
  let ?l = "latest_by_task history"
  have step: "latest_by_task (history @ [x]) = latest_step ?l x" by (simp add: latest_by_task_def)
  have absent: "map_of ?l t = None \<Longrightarrow> \<forall>x \<in> set history. ty_task x \<noteq> t"
    and present: "map_of ?l t = Some e \<Longrightarrow> latest_of history t e" for t e
    using snoc by (auto dest!: spec [of _ t])
  have "case map_of (latest_step ?l x) task of None \<Rightarrow> \<forall>y \<in> set (history @ [x]). ty_task y \<noteq> task
      | Some e \<Rightarrow> latest_of (history @ [x]) task e" for task
  proof (cases "ty_task x = task")
    case False
    then have "map_of (latest_step ?l x) task = map_of ?l task"
      by (simp add: latest_step_def map_of_bm_insert split: option.split)
    then show ?thesis using absent [of task] present [of task] False by (cases "map_of ?l task") (auto simp: latest_of_def)
  next
    case True
    show ?thesis
    proof (cases "map_of ?l task")
      case None
      then have "\<forall>y \<in> set history. ty_task y \<noteq> task" by (rule absent)
      then show ?thesis using True None
        by (auto simp: latest_step_def map_of_bm_insert latest_of_def not_after_refl)
    next
      case (Some c)
      then have c: "latest_of history task c" by (rule present)
      show ?thesis
      proof (cases "supersedes x c")
        case newer: True
        then have "not_after y x" if "y \<in> set history" "ty_task y = task" for y
          using c that not_after_trans [of y c x] by (auto simp: latest_of_def supersedes_not_after)
        then show ?thesis using True Some newer
          by (auto simp: latest_step_def map_of_bm_insert latest_of_def not_after_refl)
      next
        case False
        then show ?thesis using True Some c not_after_total [of x c]
          by (auto simp: latest_step_def latest_of_def supersedes_not_after)
      qed
    qed
  qed
  moreover have "bm_ok (latest_step ?l x)"
    using snoc by (simp add: latest_step_def bm_ok_insert split: option.split)
  ultimately show ?case unfolding step by blast
qed

lemma latest_by_task_lookup:
  "map_of (latest_by_task history) task = None \<Longrightarrow> \<forall>x \<in> set history. ty_task x \<noteq> task"
  "map_of (latest_by_task history) task = Some e \<Longrightarrow> latest_of history task e"
  using latest_by_task_ok [of history] by (auto dest!: spec [of _ task])

lemma merged_summaries:
  assumes "bm_ok m" and "\<And>t s. map_of m t = Some s \<Longrightarrow> tz_task s = t"
  shows "bm_ok (foldl merge_task_summary m ss) \<and>
    (\<forall>t. case map_of (foldl merge_task_summary m ss) t of
       None \<Rightarrow> map_of m t = None \<and> (\<forall>s \<in> set ss. tz_task s \<noteq> t)
     | Some s \<Rightarrow> tz_task s = t \<and> (map_of m t = Some s \<or> s \<in> set ss) \<and>
         (\<forall>s0. map_of m t = Some s0 \<longrightarrow> tz_started_at s0 \<le> tz_started_at s) \<and>
         (\<forall>s0 \<in> set ss. tz_task s0 = t \<longrightarrow> tz_started_at s0 \<le> tz_started_at s))"
  using assms
proof (induction ss rule: rev_induct)
  case Nil
  then show ?case by (simp split: option.split)
next
  case (snoc x ss)
  let ?m = "foldl merge_task_summary m ss"
  have ih: "bm_ok ?m" "case map_of ?m t of
       None \<Rightarrow> map_of m t = None \<and> (\<forall>s \<in> set ss. tz_task s \<noteq> t)
     | Some s \<Rightarrow> tz_task s = t \<and> (map_of m t = Some s \<or> s \<in> set ss) \<and>
         (\<forall>s0. map_of m t = Some s0 \<longrightarrow> tz_started_at s0 \<le> tz_started_at s) \<and>
         (\<forall>s0 \<in> set ss. tz_task s0 = t \<longrightarrow> tz_started_at s0 \<le> tz_started_at s)" for t
    using snoc.IH snoc.prems by blast+
  have "bm_ok (merge_task_summary ?m x)" using ih(1) by (simp add: merge_task_summary_def bm_ok_insert)
  moreover have "case map_of (merge_task_summary ?m x) t of
       None \<Rightarrow> map_of m t = None \<and> (\<forall>s \<in> set (ss @ [x]). tz_task s \<noteq> t)
     | Some s \<Rightarrow> tz_task s = t \<and> (map_of m t = Some s \<or> s \<in> set (ss @ [x])) \<and>
         (\<forall>s0. map_of m t = Some s0 \<longrightarrow> tz_started_at s0 \<le> tz_started_at s) \<and>
         (\<forall>s0 \<in> set (ss @ [x]). tz_task s0 = t \<longrightarrow> tz_started_at s0 \<le> tz_started_at s)" for t
    using ih(2) [of t] by (cases "map_of ?m t") (auto simp: merge_task_summary_def map_of_bm_insert)
  ultimately show ?case by simp
qed

text \<open>
  The answer about the tasks of a run lists each task of its history and of its detached executions
  once, in the order of the names, each by an execution that is the latest in the history or detached and
  that none of these started after.
\<close>

theorem run_tasks_lists_latest:
  assumes "run_tasks tw instant run_id runs tb = Inr summaries"
  shows "\<exists>path history. task_history_path (tw_paths tw) run_id = Inr path \<and> load_history tw path (tb_disk tb) = Inr history \<and>
    sorted_wrt (<) (map tz_task summaries) \<and>
    set (map tz_task summaries) = ty_task ` set history \<union> te_task ` set (list_tasks_for_run run_id (tb_tasks tb)) \<and>
    (\<forall>s \<in> set summaries.
      ((\<exists>e. latest_of history (tz_task s) e \<and> s = task_summary_from_history e) \<or>
       (\<exists>t \<in> set (list_tasks_for_run run_id (tb_tasks tb)). s = task_summary_from_detached instant t)) \<and>
      (\<forall>t \<in> set (list_tasks_for_run run_id (tb_tasks tb)). te_task t = tz_task s \<longrightarrow> te_started_at t \<le> tz_started_at s))"
proof -
  obtain path history where path: "task_history_path (tw_paths tw) run_id = Inr path" "load_history tw path (tb_disk tb) = Inr history"
    and answer: "summaries = bm_values (foldl merge_task_summary
         (foldl merge_task_summary [] (map task_summary_from_history (bm_values (latest_by_task history))))
         (map (task_summary_from_detached instant) (list_tasks_for_run run_id (tb_tasks tb))))"
    using assms by (auto simp: run_tasks_def rbind_eq_Inr)
  let ?old = "map task_summary_from_history (bm_values (latest_by_task history))"
  let ?new = "map (task_summary_from_detached instant) (list_tasks_for_run run_id (tb_tasks tb))"
  let ?m1 = "foldl merge_task_summary [] ?old" and ?m2 = "foldl merge_task_summary (foldl merge_task_summary [] ?old) ?new"
  have latest: "set (bm_values (latest_by_task history)) = ran (map_of (latest_by_task history))"
    using latest_by_task_ok [of history] by (simp add: set_bm_values)
  have entry: "latest_of history (ty_task e) e" if e: "e \<in> set (bm_values (latest_by_task history))" for e
  proof -
    obtain k where "map_of (latest_by_task history) k = Some e" using e by (auto simp: latest ran_def)
    then have "latest_of history k e" by (rule latest_by_task_lookup)
    then show ?thesis by (simp add: latest_of_def)
  qed
  have listed: "ty_task x \<in> ty_task ` set (bm_values (latest_by_task history))" if x: "x \<in> set history" for x
  proof -
    obtain e where e: "map_of (latest_by_task history) (ty_task x) = Some e"
      using x latest_by_task_lookup(1) [of history "ty_task x"] by (cases "map_of (latest_by_task history) (ty_task x)") auto
    then have "ty_task e = ty_task x" using latest_by_task_lookup(2) [OF e] by (simp add: latest_of_def)
    moreover have "e \<in> set (bm_values (latest_by_task history))" using e by (auto simp: latest intro: ranI)
    ultimately show ?thesis by (metis imageI)
  qed
  have fields: "tz_task (task_summary_from_history e) = ty_task e" "tz_task (task_summary_from_detached instant t) = te_task t"
      "tz_started_at (task_summary_from_detached instant t) = te_started_at t" for e t
    by (simp_all add: task_summary_from_history_def task_summary_from_detached_def)
  have first: "bm_ok ?m1" "map_of ?m1 t = Some s \<Longrightarrow> tz_task s = t \<and> s \<in> set ?old"
      "map_of ?m1 t = None \<Longrightarrow> \<forall>s \<in> set ?old. tz_task s \<noteq> t" for t s
    using merged_summaries [of "[]" ?old] by (auto dest!: spec [of _ t])
  have second: "bm_ok ?m2" "map_of ?m2 t = Some s \<Longrightarrow> tz_task s = t \<and> (map_of ?m1 t = Some s \<or> s \<in> set ?new) \<and>
      (\<forall>s0 \<in> set ?new. tz_task s0 = t \<longrightarrow> tz_started_at s0 \<le> tz_started_at s)"
      "map_of ?m2 t = None \<Longrightarrow> map_of ?m1 t = None \<and> (\<forall>s \<in> set ?new. tz_task s \<noteq> t)" for t s
    using merged_summaries [of ?m1 ?new] first(1,2) by (auto dest!: spec [of _ t])
  have lookup: "s \<in> set summaries \<longleftrightarrow> map_of ?m2 (tz_task s) = Some s" for s
    using second(1) second(2) [of _ s] by (auto simp: answer set_bm_values ran_def)
  have "map tz_task (map snd m) = map fst m" if "\<forall>(t, s) \<in> set m. tz_task s = t" for m :: "(string, task_summary) bmap"
    using that by (induction m) auto
  then have keys: "map tz_task summaries = bm_keys ?m2"
    using second(2) bm_entry_iff [OF second(1)] by (auto simp: answer bm_values_def bm_keys_def)
  have sources: "set (bm_keys ?m2) = tz_task ` set ?old \<union> tz_task ` set ?new"
  proof (intro set_eqI iffI)
    fix t
    assume "t \<in> set (bm_keys ?m2)"
    then obtain s where "map_of ?m2 t = Some s" by (auto simp: set_bm_keys)
    then show "t \<in> tz_task ` set ?old \<union> tz_task ` set ?new" using second(2) first(2) by blast
  next
    fix t
    assume "t \<in> tz_task ` set ?old \<union> tz_task ` set ?new"
    then show "t \<in> set (bm_keys ?m2)" using second(3) [of t] first(3) [of t] by (cases "map_of ?m2 t") (auto simp: set_bm_keys)
  qed
  have "ty_task ` set (bm_values (latest_by_task history)) = ty_task ` set history"
    using listed entry by (fastforce simp: latest_of_def)
  then have "set (map tz_task summaries) = ty_task ` set history \<union> te_task ` set (list_tasks_for_run run_id (tb_tasks tb))"
    using sources by (simp add: keys image_image fields)
  moreover have "sorted_wrt (<) (map tz_task summaries)" using second(1) by (simp add: keys bm_ok_def bm_keys_def)
  moreover have "(\<exists>e. latest_of history (tz_task s) e \<and> s = task_summary_from_history e) \<or>
       (\<exists>t \<in> set (list_tasks_for_run run_id (tb_tasks tb)). s = task_summary_from_detached instant t)"
    if "s \<in> set summaries" for s
  proof -
    have "s \<in> set ?old \<or> s \<in> set ?new"
      using second(2) first(2) lookup that by blast
    then consider e where "e \<in> set (bm_values (latest_by_task history))" "s = task_summary_from_history e"
      | t where "t \<in> set (list_tasks_for_run run_id (tb_tasks tb))" "s = task_summary_from_detached instant t" by auto
    then show ?thesis
    proof cases
      case 1
      then have "latest_of history (tz_task s) e" using entry by (simp add: fields)
      then show ?thesis using 1 by blast
    qed blast
  qed
  moreover have "te_started_at t \<le> tz_started_at s"
    if "s \<in> set summaries" "t \<in> set (list_tasks_for_run run_id (tb_tasks tb))" "te_task t = tz_task s" for s t
    using second(2) [of "tz_task s" s] lookup that by (auto simp: fields)
  ultimately show ?thesis using path by blast
qed

definition two_entries :: task_history where
  "two_entries =
     [\<lparr>ty_task = ''gen'', ty_started_at = ''t1'', ty_finished_at = ''t2'', ty_exit_code = 0, ty_duration_ms = 5,
       ty_log_file = ''gen.log'', ty_scope = ''run:r1''\<rparr>,
      \<lparr>ty_task = ''gen'', ty_started_at = ''t3'', ty_finished_at = ''t4'', ty_exit_code = 1, ty_duration_ms = 5,
       ty_log_file = ''gen.log'', ty_scope = ''run:r1''\<rparr>]"

theorem run_tasks_lists_latest_witness:
  "\<exists>summaries. run_tasks example_task_world 9 ''r1'' [(''r1'', running_run)]
      (fresh_task_app (empty_task_disk\<lparr>tk_histories := [(''/data/task-logs/r1/history.json'', enc_task_history two_entries)]\<rparr>)) =
      Inr summaries \<and> map tz_task summaries = [''gen''] \<and> (\<forall>s \<in> set summaries. tz_state s = Task_Failed)"
proof -
  let ?tb = "fresh_task_app (empty_task_disk\<lparr>tk_histories := [(''/data/task-logs/r1/history.json'', enc_task_history two_entries)]\<rparr>)"
  have path: "task_history_path (pv_paths example_pv) ''r1'' = Inr ''/data/task-logs/r1/history.json''"
    by code_simp
  have "list_all entry_fits two_entries" by (simp add: two_entries_def entry_fits_def)
  then have load: "load_history example_task_world ''/data/task-logs/r1/history.json'' (tb_disk ?tb) = Inr two_entries"
    by (simp add: load_history_def fresh_task_app_def task_history_round_trip)
  obtain summaries where run: "run_tasks example_task_world 9 ''r1'' [(''r1'', running_run)] ?tb = Inr summaries"
    by (simp add: run_tasks_def path load with_run_def)
  have none: "list_tasks_for_run ''r1'' (tb_tasks ?tb) = []" by (simp add: list_tasks_for_run_def fresh_task_app_def bm_values_def)
  have latest: "latest_of two_entries ''gen'' e \<Longrightarrow> ty_exit_code e = 1" for e
    by (auto simp: latest_of_def two_entries_def not_after_def)
  note listed = run_tasks_lists_latest [OF run, unfolded example_task_world path none]
  then have names: "sorted_wrt (<) (map tz_task summaries)" "set (map tz_task summaries) = {''gen''}"
    using load by (auto simp: two_entries_def)
  then have "map tz_task summaries = [''gen'']" by (cases summaries; cases "tl summaries") auto
  moreover have "tz_state s = Task_Failed" if s: "s \<in> set summaries" for s
  proof -
    have "tz_task s = ''gen''" using names(2) s by auto
    moreover obtain e where "latest_of two_entries (tz_task s) e" "s = task_summary_from_history e"
      using listed s load by auto
    ultimately show ?thesis using latest by (simp add: task_summary_from_history_def)
  qed
  ultimately show ?thesis using run by auto
qed

text \<open>
  A task that ran to its end: its log holds exactly the lines of its output, each cleaned of
  terminal escapes and marked with its time and stream; a service log gains the same lines wrapped for the
  stream of the task; the result has the exit code, 1 when a signal ended the command, and the last line of
  standard error that is not blank.
\<close>

theorem run_task_effects:
  assumes "run_task tw name task dir scope hp False args base sink tk = (Inr r, tk')"
  shows "\<exists>sh path c. task_command tw task dir args base = Inr sh \<and> c = tw_child tw (length (tk_started tk)) sh \<and>
    tk_started tk' = tk_started tk @ [sh] \<and> scoped_log_path (tw_paths tw) dir name scope = Inr path \<and>
    map_of (tk_logs tk') path = Some (map task_log_line (tc_output c)) \<and>
    (\<forall>s. sink = Some s \<longrightarrow> map_of (tk_service_logs tk') (sl_path s) = Some (unwrap_or (map_of (tk_service_logs tk) (sl_path s)) [] @
       map (service_log_line tw (sl_stream_prefix s @ '':'' @ name)) (tc_output c))) \<and>
    tr_last_stderr_line r = last_stderr_line None (tc_output c) \<and>
    (\<exists>exit_code. tc_exit c = Inr exit_code \<and> tr_exit_code r = unwrap_or exit_code 1)"
proof -
  obtain sh where sh: "task_command tw task dir args base = Inr sh"
    using assms by (cases "task_command tw task dir args base") (simp_all add: run_task_def)
  define c where "c = tw_child tw (length (tk_started tk)) sh"
  have logged: "run_logged tw name dir scope hp sink sh tk = (Inr r, tk')" using assms sh by (simp add: run_task_def)
  obtain path where path: "scoped_log_path (tw_paths tw) dir name scope = Inr path"
    using logged by (cases "scoped_log_path (tw_paths tw) dir name scope") (simp_all add: run_logged_def)
  obtain u tk1 where opened: "open_logs tw path sink (started_command sh tk) = (Inr u, tk1)"
    using logged path
    by (cases "open_logs tw path sink (started_command sh tk)") (auto simp: run_logged_def Let_def split: option.splits sum.splits)
  let ?tk2 = "pump_output tw name path sink (tc_output c) tk1"
  obtain exit_code where exit: "tc_exit c = Inr exit_code"
    and recorded: "record_execution tw hp name scope c (result_of_child c exit_code (last_stderr_line None (tc_output c))) ?tk2 = (Inr r, tk')"
    using logged path opened by (auto simp: run_logged_def Let_def c_def split: option.splits sum.splits)
  have "tk_logs tk1 = bm_insert path [] (tk_logs tk)" "tk_service_logs tk1 = tk_service_logs tk"
    using opened by (auto simp: open_logs_def started_command_def Let_def split: option.splits)
  then have "map_of (tk_logs ?tk2) path = Some (map task_log_line (tc_output c))"
    "sink = Some s \<Longrightarrow> map_of (tk_service_logs ?tk2) (sl_path s) = Some (unwrap_or (map_of (tk_service_logs tk) (sl_path s)) [] @
       map (service_log_line tw (sl_stream_prefix s @ '':'' @ name)) (tc_output c))" for s
    by (auto simp: pump_output_def append_lines_def map_of_bm_insert Let_def split: option.split)
  moreover have "tk_logs tk' = tk_logs ?tk2" "tk_service_logs tk' = tk_service_logs ?tk2"
    using recorded by (auto simp: record_execution_def append_task_execution_def append_history_def split: sum.splits option.splits)
  moreover have "tk_started tk' = tk_started tk @ [sh]" using run_task_Inr [OF assms] sh by auto
  moreover have "r = result_of_child c exit_code (last_stderr_line None (tc_output c))" using record_execution_Inr [OF recorded] by simp
  ultimately show ?thesis using sh path exit by (auto simp: c_def result_of_child_def)
qed

theorem run_task_effects_witness:
  "\<exists>r tk'. run_task example_task_world ''seed'' (Task_Command ''./seed'') ''/p'' (Scope_Task_Run ''r1'') ''/h'' False [] [] None empty_task_disk =
      (Inr r, tk') \<and> map_of (tk_logs tk') ''/data/task-logs/r1/seed.log'' = Some [task_log_line (False, ''done'', ''t1'')] \<and>
      tr_exit_code r = 0 \<and> tr_last_stderr_line r = None"
proof -
  let ?tw = example_task_world and ?task = "Task_Command ''./seed''"
  obtain sh where sh: "task_command ?tw ?task ''/p'' [] [] = Inr sh" by (auto simp: task_command_def env_file_into_def Let_def)
  have path: "scoped_log_path (tw_paths ?tw) ''/p'' ''seed'' (Scope_Task_Run ''r1'') = Inr ''/data/task-logs/r1/seed.log''"
    using example_task_paths by simp
  have "load_history ?tw ''/h'' empty_task_disk = Inr []" by (simp add: load_history_def empty_task_disk_def)
  from run_logged_ok [OF path _ _ _ _ _ this, of sh]
  obtain r tk' where run: "run_task ?tw ''seed'' ?task ''/p'' (Scope_Task_Run ''r1'') ''/h'' False [] [] None empty_task_disk = (Inr r, tk')"
    by (auto simp: run_task_def sh)
  have "tc_output (tw_child ?tw k sh) = [(False, ''done'', ''t1'')]" for k sh by (simp add: example_task_world_def)
  then show ?thesis using run_task_effects [OF run] run path by auto
qed

end
