(* ===== verification/Sources.thy ===== *)
theory Sources
  imports Manifests
begin

text \<open>
  Registered log sources, \<open>src/src/sources.rs\<close>: the ledger of sources and its file, the
  expansion of their patterns to log files, and the registry that keeps the ledger in memory as long as
  its file has not changed. The expansion of globs, whether a path is a file, the clocks and the outcome of
  writes are parameters.
\<close>

section \<open>The ledger\<close>

record source_entry =
  so_name :: string
  so_paths :: "string list"
  so_created_at :: string
  so_retention_seconds :: "u64 option"

type_synonym sources_ledger = "(string, source_entry) bmap"

record resolved_source =
  rp_service :: string
  rp_path :: string

datatype source_index_status = Index_Queued | Index_Indexing | Index_Current | Index_Error

record source_file_state =
  fs_service :: string
  fs_path :: string
  fs_len :: u64
  fs_modified_nanos :: "int option"
  fs_indexed_offset :: u64
  fs_next_seq :: u64
  fs_first_ts_nanos :: "int option"
  fs_last_ts_nanos :: "int option"
  fs_skipped_by_retention :: bool

record source_index_state =
  xs_name :: string
  xs_run_id :: string
  xs_status :: source_index_status
  xs_retention_seconds :: u64
  xs_retention_cutoff_nanos :: "int option"
  xs_retained_docs :: nat
  xs_retained_through_nanos :: "int option"
  xs_files :: "source_file_state list"
  xs_last_indexed_at :: "string option"
  xs_error :: "string option"

record index_state_file =
  xf_version :: nat
  xf_sources :: "(string, source_index_state) bmap"

text \<open>
  The two files: the ledger as the JSON value of its text with the time of its last change, and the
  index states as the value their text stands for.
\<close>

datatype 'a stored_file = No_File | Bad_File | Good_File 'a

record source_disk =
  sd_ledger :: "json option"
  sd_modified :: "nat option"
  sd_state :: "index_state_file stored_file"

record source_world =
  sw_now :: string
  sw_instant :: nat
  sw_write_time :: nat
  sw_home :: path_env
  sw_glob :: "string \<Rightarrow> string list result"
  sw_is_file :: "string \<Rightarrow> bool"
  sw_read :: "string option"
  sw_write :: "string option"

definition source_run_id :: "string \<Rightarrow> string" where
  "source_run_id name = ''source:'' @ name"

definition source_retention_duration :: "source_entry \<Rightarrow> nat \<Rightarrow> nat" where
  "source_retention_duration entry default_retention =
     (case so_retention_seconds entry of Some s \<Rightarrow> unat s * 1000 | None \<Rightarrow> default_retention)"

definition source_entry_fields :: "string list" where
  "source_entry_fields = [''name'', ''paths'', ''created_at'', ''retention_seconds'']"

definition enc_source_entry :: "source_entry \<Rightarrow> json" where
  "enc_source_entry e =
     J_Obj ([(''name'', J_Str (so_name e)), (''paths'', J_Arr (map J_Str (so_paths e))),
             (''created_at'', J_Str (so_created_at e))]
       @ some_entry ''retention_seconds'' enc_word (so_retention_seconds e))"

definition dec_source_entry :: "json \<Rightarrow> source_entry option" where
  "dec_source_entry = dec_object source_entry_fields (\<lambda>m.
     Option.bind (dec_field m ''name'' dec_str) (\<lambda>name.
     Option.bind (dec_field m ''paths'' (dec_list dec_str)) (\<lambda>paths.
     Option.bind (dec_field m ''created_at'' dec_str) (\<lambda>created_at.
     Option.bind (dec_optional m ''retention_seconds'' dec_word) (\<lambda>retention_seconds.
       Some \<lparr>so_name = name, so_paths = paths, so_created_at = created_at,
             so_retention_seconds = retention_seconds\<rparr>)))))"

definition enc_sources :: "sources_ledger \<Rightarrow> json" where
  "enc_sources ledger = J_Obj [(''sources'', enc_map enc_source_entry ledger)]"

definition dec_sources :: "json \<Rightarrow> sources_ledger option" where
  "dec_sources = dec_object [''sources''] (\<lambda>m. dec_field m ''sources'' (dec_map dec_source_entry))"

definition load_ledger :: "source_world \<Rightarrow> source_disk \<Rightarrow> sources_ledger result" where
  "load_ledger sw sd =
     (case sd_ledger sd of
        None \<Rightarrow> Inr []
      | Some v \<Rightarrow>
          (case sw_read sw of
             Some _ \<Rightarrow> Inl ''read sources ledger''
           | None \<Rightarrow> ok_or ''parse sources ledger'' (dec_sources v)))"

definition save_ledger :: "source_world \<Rightarrow> sources_ledger \<Rightarrow> source_disk \<Rightarrow> unit result \<times> source_disk" where
  "save_ledger sw ledger sd =
     (case sw_write sw of
        Some e \<Rightarrow> (Inl e, sd)
      | None \<Rightarrow> (Inr (), sd\<lparr>sd_ledger := Some (enc_sources ledger), sd_modified := Some (sw_write_time sw)\<rparr>))"

text \<open>The ledger is changed in memory first: a failed write leaves the change there.\<close>

definition add_at ::
  "source_world \<Rightarrow> string \<Rightarrow> string list \<Rightarrow> u64 option \<Rightarrow> sources_ledger \<Rightarrow> source_disk \<Rightarrow>
     unit result \<times> sources_ledger \<times> source_disk" where
  "add_at sw name paths retention_seconds ledger sd =
     (if trim name = [] then (Inl ''source name cannot be empty'', ledger, sd)
      else
        let normalized_paths = filter (\<lambda>p. p \<noteq> []) (map trim paths) in
        if normalized_paths = [] then (Inl ''source must include at least one path or glob'', ledger, sd)
        else
          let ledger1 = bm_insert name
                \<lparr>so_name = name, so_paths = normalized_paths, so_created_at = sw_now sw,
                 so_retention_seconds = retention_seconds\<rparr> ledger;
              (r, sd1) = save_ledger sw ledger1 sd in
          (r, ledger1, sd1))"

definition remove_at ::
  "source_world \<Rightarrow> string \<Rightarrow> sources_ledger \<Rightarrow> source_disk \<Rightarrow> bool result \<times> sources_ledger \<times> source_disk" where
  "remove_at sw name ledger sd =
     (if bm_contains ledger name then
        (let ledger1 = bm_remove name ledger; (r, sd1) = save_ledger sw ledger1 sd in
         ((case r of Inl e \<Rightarrow> Inl e | Inr _ \<Rightarrow> Inr True), ledger1, sd1))
      else (Inr False, ledger, sd))"

section \<open>From patterns to log files\<close>

definition contains_glob :: "string \<Rightarrow> bool" where
  "contains_glob pattern \<longleftrightarrow> CHR ''*'' \<in> set pattern \<or> CHR ''?'' \<in> set pattern \<or> CHR ''['' \<in> set pattern"

definition expand_pattern :: "source_world \<Rightarrow> string \<Rightarrow> string list result" where
  "expand_pattern sw pattern =
     (let expanded = expand_home (sw_home sw) pattern in
      if \<not> contains_glob expanded then Inr [expanded]
      else map_err (\<lambda>_. ''invalid glob pattern: '' @ expanded) (sw_glob sw expanded))"

text \<open>A \<open>BTreeSet\<close> of paths: the keys of an ordered map.\<close>

fun collect_files :: "source_world \<Rightarrow> string list \<Rightarrow> (string, unit) bmap \<Rightarrow> (string, unit) bmap result" where
  "collect_files sw [] resolved = Inr resolved"
| "collect_files sw (pattern # patterns) resolved =
     rbind (expand_pattern sw pattern) (\<lambda>candidates.
       collect_files sw patterns (foldl (\<lambda>m c. if sw_is_file sw c then bm_insert c () m else m) resolved candidates))"

definition resolve_paths :: "source_world \<Rightarrow> sources_ledger \<Rightarrow> string \<Rightarrow> string list result" where
  "resolve_paths sw ledger name =
     rbind (ok_or (''source '' @ name @ '' not found'') (map_of ledger name)) (\<lambda>entry.
     rbind (collect_files sw (so_paths entry) []) (\<lambda>resolved. Inr (bm_keys resolved)))"

text \<open>\<open>Path::file_stem\<close>: the file name up to its last dot, a leading dot excepted.\<close>

definition file_stem :: "string \<Rightarrow> string option" where
  "file_stem path =
     map_option (\<lambda>name.
       let after = takeWhile (\<lambda>c. c \<noteq> CHR ''.'') (rev name) in
       if length after = length name \<or> Suc (length after) = length name then name
       else take (length name - Suc (length after)) name) (path_file_name path)"

definition source_base :: "string \<Rightarrow> string \<Rightarrow> string" where
  "source_base source_name path =
     (case file_stem path of
        Some s \<Rightarrow> if trim s \<noteq> [] then s else source_name
      | None \<Rightarrow> source_name)"

definition numbered :: "string \<Rightarrow> nat \<Rightarrow> string" where
  "numbered base slot = (if slot = 1 then base else base @ ''-'' @ show_nat slot)"

fun number_services :: "string \<Rightarrow> (string, nat) bmap \<Rightarrow> string list \<Rightarrow> resolved_source list" where
  "number_services source_name seen [] = []"
| "number_services source_name seen (path # paths) =
     (let base = source_base source_name path;
          slot = Suc (unwrap_or (map_of seen base) 0) in
      \<lparr>rp_service = numbered base slot, rp_path = path\<rparr> # number_services source_name (bm_insert base slot seen) paths)"

definition resolved_paths_to_log_sources :: "string \<Rightarrow> string list \<Rightarrow> resolved_source list" where
  "resolved_paths_to_log_sources source_name paths =
     (if length paths \<le> 1 then map (\<lambda>path. \<lparr>rp_service = source_name, rp_path = path\<rparr>) paths
      else number_services source_name [] paths)"

definition ledger_log_sources :: "source_world \<Rightarrow> sources_ledger \<Rightarrow> string \<Rightarrow> resolved_source list result" where
  "ledger_log_sources sw ledger name =
     rbind (resolve_paths sw ledger name) (\<lambda>paths. Inr (resolved_paths_to_log_sources name paths))"

section \<open>The registry\<close>

record cache_entry =
  ce_paths :: "resolved_source list"
  ce_expires_at :: nat

record source_registry =
  sg_ledger :: sources_ledger
  sg_loaded_modified :: "nat option"
  sg_resolved :: "(string, cache_entry) bmap"

definition resolved_source_cache_ttl :: nat where
  "resolved_source_cache_ttl = 2000"

definition load_registry :: "source_world \<Rightarrow> source_disk \<Rightarrow> source_registry result" where
  "load_registry sw sd =
     rbind (load_ledger sw sd) (\<lambda>ledger.
     Inr \<lparr>sg_ledger = ledger, sg_loaded_modified = sd_modified sd, sg_resolved = []\<rparr>)"

definition refresh_if_changed :: "source_world \<Rightarrow> source_disk \<Rightarrow> source_registry \<Rightarrow> unit result \<times> source_registry" where
  "refresh_if_changed sw sd g =
     (if sd_modified sd = sg_loaded_modified g then (Inr (), g)
      else
        (case load_ledger sw sd of
           Inl e \<Rightarrow> (Inl e, g)
         | Inr ledger \<Rightarrow>
             (Inr (), g\<lparr>sg_ledger := ledger, sg_loaded_modified := sd_modified sd, sg_resolved := []\<rparr>)))"

definition refreshed ::
  "source_world \<Rightarrow> source_disk \<Rightarrow> source_registry \<Rightarrow> (source_registry \<Rightarrow> 'a result \<times> source_registry \<times> source_disk) \<Rightarrow>
     'a result \<times> source_registry \<times> source_disk" where
  "refreshed sw sd g f =
     (case refresh_if_changed sw sd g of
        (Inl e, g1) \<Rightarrow> (Inl e, g1, sd)
      | (Inr _, g1) \<Rightarrow> f g1)"

definition sources_list :: "source_world \<Rightarrow> source_disk \<Rightarrow> source_registry \<Rightarrow>
     source_entry list result \<times> source_registry \<times> source_disk" where
  "sources_list sw sd g = refreshed sw sd g (\<lambda>g1. (Inr (bm_values (sg_ledger g1)), g1, sd))"

definition sources_get :: "source_world \<Rightarrow> string \<Rightarrow> source_disk \<Rightarrow> source_registry \<Rightarrow>
     source_entry option result \<times> source_registry \<times> source_disk" where
  "sources_get sw name sd g = refreshed sw sd g (\<lambda>g1. (Inr (map_of (sg_ledger g1) name), g1, sd))"

definition sources_add ::
  "source_world \<Rightarrow> string \<Rightarrow> string list \<Rightarrow> u64 option \<Rightarrow> source_disk \<Rightarrow> source_registry \<Rightarrow>
     source_entry result \<times> source_registry \<times> source_disk" where
  "sources_add sw name paths retention_seconds sd g =
     refreshed sw sd g (\<lambda>g1.
       case add_at sw name paths retention_seconds (sg_ledger g1) sd of
         (Inl e, ledger, sd1) \<Rightarrow> (Inl e, g1\<lparr>sg_ledger := ledger\<rparr>, sd1)
       | (Inr _, ledger, sd1) \<Rightarrow>
           (ok_or (''source '' @ name @ '' was not persisted'') (map_of ledger name),
            g1\<lparr>sg_ledger := ledger, sg_loaded_modified := sd_modified sd1, sg_resolved := bm_remove name (sg_resolved g1)\<rparr>,
            sd1))"

definition load_index_state_file :: "source_world \<Rightarrow> source_disk \<Rightarrow> index_state_file result" where
  "load_index_state_file sw sd =
     (case sd_state sd of
        No_File \<Rightarrow> Inr \<lparr>xf_version = 0, xf_sources = []\<rparr>
      | Bad_File \<Rightarrow> Inl (if sw_read sw = None then ''parse source index state'' else ''read source index state'')
      | Good_File f \<Rightarrow> if sw_read sw = None then Inr f else Inl ''read source index state'')"

definition save_index_state_file :: "source_world \<Rightarrow> index_state_file \<Rightarrow> source_disk \<Rightarrow> unit result \<times> source_disk" where
  "save_index_state_file sw f sd =
     (case sw_write sw of Some e \<Rightarrow> (Inl e, sd) | None \<Rightarrow> (Inr (), sd\<lparr>sd_state := Good_File f\<rparr>))"

definition index_state :: "source_world \<Rightarrow> string \<Rightarrow> source_disk \<Rightarrow> source_index_state option result" where
  "index_state sw name sd = rbind (load_index_state_file sw sd) (\<lambda>f. Inr (map_of (xf_sources f) name))"

definition set_index_state :: "source_world \<Rightarrow> source_index_state \<Rightarrow> source_disk \<Rightarrow> unit result \<times> source_disk" where
  "set_index_state sw state sd =
     (case load_index_state_file sw sd of
        Inl e \<Rightarrow> (Inl e, sd)
      | Inr f \<Rightarrow>
          save_index_state_file sw \<lparr>xf_version = 1, xf_sources = bm_insert (xs_name state) state (xf_sources f)\<rparr> sd)"

definition remove_index_state :: "source_world \<Rightarrow> string \<Rightarrow> source_disk \<Rightarrow> unit result \<times> source_disk" where
  "remove_index_state sw name sd =
     (case load_index_state_file sw sd of
        Inl e \<Rightarrow> (Inl e, sd)
      | Inr f \<Rightarrow>
          if bm_contains (xf_sources f) name
          then save_index_state_file sw (f\<lparr>xf_sources := bm_remove name (xf_sources f)\<rparr>) sd
          else (Inr (), sd))"

definition sources_remove ::
  "source_world \<Rightarrow> string \<Rightarrow> source_disk \<Rightarrow> source_registry \<Rightarrow> bool result \<times> source_registry \<times> source_disk" where
  "sources_remove sw name sd g =
     refreshed sw sd g (\<lambda>g1.
       case remove_at sw name (sg_ledger g1) sd of
         (Inl e, ledger, sd1) \<Rightarrow> (Inl e, g1\<lparr>sg_ledger := ledger\<rparr>, sd1)
       | (Inr removed, ledger, sd1) \<Rightarrow>
           if \<not> removed then (Inr removed, g1\<lparr>sg_ledger := ledger\<rparr>, sd1)
           else
             (let g2 = g1\<lparr>sg_ledger := ledger, sg_loaded_modified := sd_modified sd1,
                          sg_resolved := bm_remove name (sg_resolved g1)\<rparr> in
              case remove_index_state sw name sd1 of
                (Inl e, sd2) \<Rightarrow> (Inl e, g2, sd2)
              | (Inr _, sd2) \<Rightarrow> (Inr removed, g2, sd2)))"

definition sources_resolve ::
  "source_world \<Rightarrow> string \<Rightarrow> source_disk \<Rightarrow> source_registry \<Rightarrow>
     resolved_source list result \<times> source_registry \<times> source_disk" where
  "sources_resolve sw name sd g =
     refreshed sw sd g (\<lambda>g1.
       if \<not> bm_contains (sg_ledger g1) name then (Inl (''source '' @ name @ '' not found''), g1, sd)
       else
         (case Option.bind (map_of (sg_resolved g1) name) (\<lambda>cached.
                 if sw_instant sw < ce_expires_at cached then Some (ce_paths cached) else None) of
            Some paths \<Rightarrow> (Inr paths, g1, sd)
          | None \<Rightarrow>
              (case ledger_log_sources sw (sg_ledger g1) name of
                 Inl e \<Rightarrow> (Inl e, g1, sd)
               | Inr resolved \<Rightarrow>
                   (Inr resolved, g1\<lparr>sg_resolved := bm_insert name
                      \<lparr>ce_paths = resolved, ce_expires_at = sw_instant sw + resolved_source_cache_ttl\<rparr> (sg_resolved g1)\<rparr>, sd))))"

section \<open>Facts about the ledger\<close>

lemma source_entry_round_trip: "dec_source_entry (enc_source_entry e) = Some e"
  by (simp add: dec_source_entry_def enc_source_entry_def source_entry_fields_def no_duplicate_def dec_field_def dec_optional_def
      dec_default_def some_entry_def str_codec.omap_enc split: option.split)

interpretation source_codec: codec enc_source_entry dec_source_entry "\<lambda>_. True"
  by unfold_locales (simp_all add: source_entry_round_trip, simp add: enc_source_entry_def)

lemma sources_round_trip: "bm_ok ledger \<Longrightarrow> dec_sources (enc_sources ledger) = Some ledger"
  using source_codec.map_round_trip
  by (simp add: dec_sources_def enc_sources_def no_duplicate_def dec_field_def)

lemma dec_map_ok: "dec_map dec v = Some m \<Longrightarrow> bm_ok m"
  by (cases v) (auto intro: bm_ok_extend)

lemma dec_sources_ok: "dec_sources v = Some ledger \<Longrightarrow> bm_ok ledger"
  by (cases v) (auto simp: dec_sources_def dec_field_def bind_eq_Some_conv split: if_splits intro: dec_map_ok)

text \<open>The ledger in the file, and a registry that knows it.\<close>

definition disk_ledger :: "source_disk \<Rightarrow> sources_ledger option" where
  "disk_ledger sd = (case sd_ledger sd of None \<Rightarrow> Some [] | Some v \<Rightarrow> dec_sources v)"

definition coherent :: "source_disk \<Rightarrow> source_registry \<Rightarrow> bool" where
  "coherent sd g \<longleftrightarrow> (sd_modified sd = sg_loaded_modified g \<longrightarrow> disk_ledger sd = Some (sg_ledger g))"

lemma disk_ledger_ok: "disk_ledger sd = Some ledger \<Longrightarrow> bm_ok ledger"
  by (auto simp: disk_ledger_def dec_sources_ok split: option.splits)

lemma load_ledger_disk: "sw_read sw = None \<Longrightarrow> disk_ledger sd = Some ledger \<Longrightarrow> load_ledger sw sd = Inr ledger"
  by (auto simp: load_ledger_def disk_ledger_def split: option.splits)

lemma refreshed_coherent:
  assumes "coherent sd g" and "disk_ledger sd = Some ledger" and "sw_read sw = None"
  shows "\<exists>g1. refreshed sw sd g f = f g1 \<and> sg_ledger g1 = ledger \<and> sg_loaded_modified g1 = sd_modified sd"
proof (cases "sd_modified sd = sg_loaded_modified g")
  case True
  then show ?thesis using assms by (auto simp: refreshed_def refresh_if_changed_def coherent_def)
next
  case False
  then show ?thesis using load_ledger_disk [OF assms(3,2)]
    by (intro exI [of _ "g\<lparr>sg_ledger := ledger, sg_loaded_modified := sd_modified sd, sg_resolved := []\<rparr>"])
      (simp add: refreshed_def refresh_if_changed_def)
qed

lemma load_registry_coherent:
  "load_registry sw sd = Inr g \<Longrightarrow> coherent sd g"
  by (auto simp: load_registry_def rbind_eq_Inr coherent_def load_ledger_def disk_ledger_def split: option.splits)

text \<open>The effect of each operation on a registry that knows its file.\<close>

lemma list_coherent:
  assumes "coherent sd g" and "disk_ledger sd = Some ledger" and "sw_read sw = None"
  shows "\<exists>g'. sources_list sw sd g = (Inr (bm_values ledger), g', sd) \<and> coherent sd g'"
  using refreshed_coherent [OF assms, of "\<lambda>g1. (Inr (bm_values (sg_ledger g1)), g1, sd)"] assms(2)
  by (auto simp: sources_list_def coherent_def)

lemma get_coherent:
  assumes "coherent sd g" and "disk_ledger sd = Some ledger" and "sw_read sw = None"
  shows "\<exists>g'. sources_get sw name sd g = (Inr (map_of ledger name), g', sd) \<and> coherent sd g'"
  using refreshed_coherent [OF assms, of "\<lambda>g1. (Inr (map_of (sg_ledger g1) name), g1, sd)"] assms(2)
  by (auto simp: sources_get_def coherent_def)

definition new_entry :: "source_world \<Rightarrow> string \<Rightarrow> string list \<Rightarrow> u64 option \<Rightarrow> source_entry" where
  "new_entry sw name paths retention =
     \<lparr>so_name = name, so_paths = filter (\<lambda>p. p \<noteq> []) (map trim paths), so_created_at = sw_now sw, so_retention_seconds = retention\<rparr>"

definition valid_source :: "string \<Rightarrow> string list \<Rightarrow> bool" where
  "valid_source name paths \<longleftrightarrow> trim name \<noteq> [] \<and> (\<exists>p \<in> set paths. trim p \<noteq> [])"

lemma add_at_valid:
  assumes "valid_source name paths"
  shows "add_at sw name paths retention ledger sd =
    (fst (save_ledger sw (bm_insert name (new_entry sw name paths retention) ledger) sd),
     bm_insert name (new_entry sw name paths retention) ledger,
     snd (save_ledger sw (bm_insert name (new_entry sw name paths retention) ledger) sd))"
proof -
  have "filter (\<lambda>p. p \<noteq> []) (map trim paths) \<noteq> []" using assms by (auto simp: valid_source_def filter_empty_conv)
  then show ?thesis using assms by (simp add: add_at_def valid_source_def new_entry_def Let_def case_prod_beta)
qed

lemma add_coherent:
  assumes "coherent sd g" and "disk_ledger sd = Some ledger" and "sw_read sw = None" and "sw_write sw = None"
    and "valid_source name paths"
  shows "\<exists>g' sd'. sources_add sw name paths retention sd g = (Inr (new_entry sw name paths retention), g', sd') \<and>
    disk_ledger sd' = Some (bm_insert name (new_entry sw name paths retention) ledger) \<and> coherent sd' g'"
proof -
  let ?ledger = "bm_insert name (new_entry sw name paths retention) ledger"
  let ?sd = "sd\<lparr>sd_ledger := Some (enc_sources ?ledger), sd_modified := Some (sw_write_time sw)\<rparr>"
  have disk: "disk_ledger ?sd = Some ?ledger"
    using sources_round_trip [OF bm_ok_insert [OF disk_ledger_ok [OF assms(2)]]] by (simp add: disk_ledger_def)
  obtain g1 where "sources_add sw name paths retention sd g =
      (case add_at sw name paths retention (sg_ledger g1) sd of
         (Inl e, ledger, sd1) \<Rightarrow> (Inl e, g1\<lparr>sg_ledger := ledger\<rparr>, sd1)
       | (Inr _, ledger, sd1) \<Rightarrow>
           (ok_or (''source '' @ name @ '' was not persisted'') (map_of ledger name),
            g1\<lparr>sg_ledger := ledger, sg_loaded_modified := sd_modified sd1, sg_resolved := bm_remove name (sg_resolved g1)\<rparr>,
            sd1))" "sg_ledger g1 = ledger"
    using refreshed_coherent [OF assms(1-3)] unfolding sources_add_def by blast
  then have "sources_add sw name paths retention sd g =
      (Inr (new_entry sw name paths retention),
       g1\<lparr>sg_ledger := ?ledger, sg_loaded_modified := sd_modified ?sd, sg_resolved := bm_remove name (sg_resolved g1)\<rparr>, ?sd)"
    using assms(4) by (simp add: add_at_valid [OF assms(5)] save_ledger_def map_of_bm_insert)
  then show ?thesis using disk by (simp add: coherent_def)
qed

lemma remove_index_state_ok:
  assumes "sw_read sw = None" and "sw_write sw = None" and "sd_state sd \<noteq> Bad_File"
  shows "\<exists>sd2. remove_index_state sw name sd = (Inr (), sd2) \<and> sd_ledger sd2 = sd_ledger sd \<and> sd_modified sd2 = sd_modified sd"
proof -
  obtain f where "load_index_state_file sw sd = Inr f"
    using assms by (cases "sd_state sd") (simp_all add: load_index_state_file_def)
  then show ?thesis using assms(2) by (simp add: remove_index_state_def save_index_state_file_def)
qed

lemma remove_coherent:
  assumes "coherent sd g" and "disk_ledger sd = Some ledger" and "sw_read sw = None" and "sw_write sw = None"
    and "sd_state sd \<noteq> Bad_File"
  shows "\<exists>g' sd'. sources_remove sw name sd g = (Inr (bm_contains ledger name), g', sd') \<and>
    disk_ledger sd' = Some (bm_remove name ledger) \<and> coherent sd' g'"
proof -
  obtain g1 where g1: "sources_remove sw name sd g =
      (case remove_at sw name (sg_ledger g1) sd of
         (Inl e, ledger, sd1) \<Rightarrow> (Inl e, g1\<lparr>sg_ledger := ledger\<rparr>, sd1)
       | (Inr removed, ledger, sd1) \<Rightarrow>
           if \<not> removed then (Inr removed, g1\<lparr>sg_ledger := ledger\<rparr>, sd1)
           else
             (let g2 = g1\<lparr>sg_ledger := ledger, sg_loaded_modified := sd_modified sd1,
                          sg_resolved := bm_remove name (sg_resolved g1)\<rparr> in
              case remove_index_state sw name sd1 of
                (Inl e, sd2) \<Rightarrow> (Inl e, g2, sd2)
              | (Inr _, sd2) \<Rightarrow> (Inr removed, g2, sd2)))" "sg_ledger g1 = ledger" "sg_loaded_modified g1 = sd_modified sd"
    using refreshed_coherent [OF assms(1-3)] unfolding sources_remove_def by blast
  show ?thesis
  proof (cases "bm_contains ledger name")
    case False
    then have "bm_remove name ledger = ledger"
      by (force simp: bm_remove_def bm_contains_iff bm_keys_def filter_id_conv)
    then show ?thesis using False g1 assms(2) by (auto simp: remove_at_def coherent_def)
  next
    case True
    let ?sd = "sd\<lparr>sd_ledger := Some (enc_sources (bm_remove name ledger)), sd_modified := Some (sw_write_time sw)\<rparr>"
    have disk: "disk_ledger ?sd = Some (bm_remove name ledger)"
      using sources_round_trip [OF bm_ok_remove [OF disk_ledger_ok [OF assms(2)]]] by (simp add: disk_ledger_def)
    obtain sd2 where "remove_index_state sw name ?sd = (Inr (), sd2)" "sd_ledger sd2 = sd_ledger ?sd" "sd_modified sd2 = sd_modified ?sd"
      using remove_index_state_ok [OF assms(3,4), of ?sd name] assms(5) by auto
    moreover from this have "disk_ledger sd2 = disk_ledger ?sd" by (simp add: disk_ledger_def)
    ultimately show ?thesis using True g1 assms(4) disk by (simp add: remove_at_def save_ledger_def coherent_def Let_def)
  qed
qed

section \<open>Properties\<close>

text \<open>
  C24. The registry is its file: as long as the file can be read and written and changes show in its time,
  listing and looking up give what the file holds, adding a source puts it into the file, replacing one of
  its name, removing takes it out, and the registry knows the file again afterwards.
\<close>

theorem registry_refines_file:
  assumes "coherent sd g" and "disk_ledger sd = Some ledger" and "sw_read sw = None" and "sw_write sw = None"
    and "valid_source name paths" and "sd_state sd \<noteq> Bad_File"
  shows "(\<exists>g'. sources_list sw sd g = (Inr (bm_values ledger), g', sd) \<and> coherent sd g') \<and>
    (\<exists>g'. sources_get sw name sd g = (Inr (map_of ledger name), g', sd) \<and> coherent sd g') \<and>
    (\<exists>g' sd'. sources_add sw name paths retention sd g = (Inr (new_entry sw name paths retention), g', sd') \<and>
       disk_ledger sd' = Some (bm_insert name (new_entry sw name paths retention) ledger) \<and> coherent sd' g') \<and>
    (\<exists>g' sd'. sources_remove sw name sd g = (Inr (bm_contains ledger name), g', sd') \<and>
       disk_ledger sd' = Some (bm_remove name ledger) \<and> coherent sd' g')"
  using list_coherent [OF assms(1-3)] get_coherent [OF assms(1-3)] add_coherent [OF assms(1-5)]
    remove_coherent [OF assms(1-4) assms(6)] by simp

text \<open>
  When the file cannot be written, the source that could not be added is listed all the same, as
  long as nobody else changes the file, although the file does not have it.
\<close>

theorem failed_add_listed:
  assumes "coherent sd g" and "disk_ledger sd = Some ledger" and "sw_read sw = None" and "sw_write sw = Some e"
    and "valid_source name paths" and "map_of ledger name = None"
  shows "\<exists>g'. sources_add sw name paths retention sd g = (Inl e, g', sd) \<and>
    (\<exists>g''. sources_list sw' sd g' = (Inr (bm_values (bm_insert name (new_entry sw name paths retention) ledger)), g'', sd)) \<and>
    disk_ledger sd \<noteq> Some (bm_insert name (new_entry sw name paths retention) ledger)"
proof -
  obtain g1 where g1: "sources_add sw name paths retention sd g =
      (case add_at sw name paths retention (sg_ledger g1) sd of
         (Inl e, ledger, sd1) \<Rightarrow> (Inl e, g1\<lparr>sg_ledger := ledger\<rparr>, sd1)
       | (Inr _, ledger, sd1) \<Rightarrow>
           (ok_or (''source '' @ name @ '' was not persisted'') (map_of ledger name),
            g1\<lparr>sg_ledger := ledger, sg_loaded_modified := sd_modified sd1, sg_resolved := bm_remove name (sg_resolved g1)\<rparr>,
            sd1))" "sg_ledger g1 = ledger" "sg_loaded_modified g1 = sd_modified sd"
    using refreshed_coherent [OF assms(1-3)] unfolding sources_add_def by blast
  let ?ledger = "bm_insert name (new_entry sw name paths retention) ledger"
  have "sources_add sw name paths retention sd g = (Inl e, g1\<lparr>sg_ledger := ?ledger\<rparr>, sd)"
    using g1 assms(4) by (simp add: add_at_valid [OF assms(5)] save_ledger_def)
  moreover have "sources_list sw' sd (g1\<lparr>sg_ledger := ?ledger\<rparr>) = (Inr (bm_values ?ledger), g1\<lparr>sg_ledger := ?ledger\<rparr>, sd)"
    using g1(3) by (simp add: sources_list_def refreshed_def refresh_if_changed_def)
  moreover have "?ledger \<noteq> ledger" using assms(6) by (metis map_of_bm_insert fun_upd_same option.distinct(1))
  ultimately show ?thesis using assms(2) by auto
qed

section \<open>The names of the log files of a source\<close>

lemma digits_no_dash: "CHR ''-'' \<notin> set (show_nat n)"
  using show_nat_digits [of "CHR ''-''" n] by (auto simp: is_ascii_digit_def)

lemma numbered_suffix_inj:
  assumes "b @ ''-'' @ show_nat k = b' @ ''-'' @ show_nat k'"
  shows "b = b' \<and> k = k'"
proof -
  have "rev (show_nat k) @ CHR ''-'' # rev b = rev (show_nat k') @ CHR ''-'' # rev b'"
    using arg_cong [OF assms, of rev] by simp
  then have "rev (show_nat k) = rev (show_nat k') \<and> rev b = rev b'"
    by (rule append_sep_inj) (simp_all add: digits_no_dash)
  then show ?thesis by (simp add: show_nat_inj)
qed

lemma number_services_from:
  "\<forall>r \<in> set (number_services source_name seen paths). \<exists>path \<in> set paths. \<exists>slot.
     rp_service r = numbered (source_base source_name path) slot \<and> unwrap_or (map_of seen (source_base source_name path)) 0 < slot"
proof (induction source_name seen paths rule: number_services.induct)
  case (2 source_name seen path paths)
  let ?b = "source_base source_name path"
  let ?slot = "Suc (unwrap_or (map_of seen ?b) 0)"
  have "\<exists>p \<in> set (path # paths). \<exists>slot. rp_service r = numbered (source_base source_name p) slot \<and>
      unwrap_or (map_of seen (source_base source_name p)) 0 < slot"
    if r: "r \<in> set (number_services source_name (bm_insert ?b ?slot seen) paths)" for r
  proof -
    obtain p slot where "p \<in> set paths" "rp_service r = numbered (source_base source_name p) slot"
        "unwrap_or (map_of (bm_insert ?b ?slot seen) (source_base source_name p)) 0 < slot"
      using 2 [OF refl refl] r by blast
    then show ?thesis by (cases "source_base source_name p = ?b") (auto simp: map_of_bm_insert intro: Suc_lessD)
  qed
  then show ?case by (auto simp: Let_def)
qed simp

definition plain_bases :: "string \<Rightarrow> string list \<Rightarrow> bool" where
  "plain_bases source_name paths \<longleftrightarrow>
     (\<forall>p \<in> set paths. \<forall>q \<in> set paths. \<forall>n. source_base source_name p \<noteq> source_base source_name q @ ''-'' @ show_nat n)"

lemma numbered_inj:
  assumes "numbered (source_base source_name p) k = numbered (source_base source_name q) l"
    and "plain_bases source_name paths" and "p \<in> set paths" and "q \<in> set paths"
  shows "source_base source_name p = source_base source_name q \<and> k = l"
  using assms numbered_suffix_inj [of "source_base source_name p" k "source_base source_name q" l]
  by (auto simp: numbered_def plain_bases_def split: if_splits) metis+

lemma number_services_distinct:
  assumes "plain_bases source_name all" and "set paths \<subseteq> set all"
  shows "distinct (map rp_service (number_services source_name seen paths))"
  using assms
proof (induction source_name seen paths rule: number_services.induct)
  case (2 source_name seen path paths)
  let ?b = "source_base source_name path"
  let ?slot = "Suc (unwrap_or (map_of seen ?b) 0)"
  have "rp_service r \<noteq> numbered ?b ?slot" if r: "r \<in> set (number_services source_name (bm_insert ?b ?slot seen) paths)" for r
  proof
    assume same: "rp_service r = numbered ?b ?slot"
    obtain p slot where p: "p \<in> set paths" "rp_service r = numbered (source_base source_name p) slot"
        "unwrap_or (map_of (bm_insert ?b ?slot seen) (source_base source_name p)) 0 < slot"
      using number_services_from r by blast
    have "numbered (source_base source_name p) slot = numbered ?b ?slot" using p(2) same by simp
    moreover have "p \<in> set all" "path \<in> set all" using p(1) 2(3) by auto
    ultimately have "source_base source_name p = ?b \<and> slot = ?slot" by (intro numbered_inj [OF _ 2(2)])
    then show False using p(3) by (simp add: map_of_bm_insert)
  qed
  then have "numbered ?b ?slot \<notin> rp_service ` set (number_services source_name (bm_insert ?b ?slot seen) paths)" by fastforce
  moreover have "distinct (map rp_service (number_services source_name (bm_insert ?b ?slot seen) paths))"
    using 2 by (simp add: Let_def)
  ultimately show ?case by (simp add: Let_def)
qed simp

lemma number_services_paths: "map rp_path (number_services source_name seen paths) = paths"
  by (induction source_name seen paths rule: number_services.induct) (simp_all add: Let_def)

text \<open>
  The files of a source keep their order and each has a name of its own, unless the name of one file
  is that of another followed by a dash and a number. Then two files share a name: \<open>a.log\<close> in two
  directories beside \<open>a-2.log\<close>.
\<close>

theorem log_services_distinct:
  assumes "plain_bases source_name paths"
  shows "map rp_path (resolved_paths_to_log_sources source_name paths) = paths \<and>
    distinct (map rp_service (resolved_paths_to_log_sources source_name paths)) \<and>
    map rp_service (resolved_paths_to_log_sources ''app'' [''/l/a-2.log'', ''/x/a.log'', ''/y/a.log'']) = [''a-2'', ''a'', ''a-2'']"
proof -
  have "distinct (map f xs)" if "length xs \<le> 1" for f :: "string \<Rightarrow> string" and xs
    using that by (cases xs) auto
  then have "distinct (map rp_service (resolved_paths_to_log_sources source_name paths))"
    using number_services_distinct [OF assms order_refl] by (simp add: resolved_paths_to_log_sources_def comp_def)
  moreover have "map rp_path (resolved_paths_to_log_sources source_name paths) = paths"
    by (simp add: resolved_paths_to_log_sources_def number_services_paths comp_def)
  moreover have "map rp_service (resolved_paths_to_log_sources ''app'' [''/l/a-2.log'', ''/x/a.log'', ''/y/a.log'']) = [''a-2'', ''a'', ''a-2'']"
    by code_simp
  ultimately show ?thesis by blast
qed

definition example_source_world :: source_world where
  "example_source_world =
     \<lparr>sw_now = ''t1'', sw_instant = 5, sw_write_time = 9, sw_home = \<lparr>pe_base_dir = Inr ''/data'', pe_home = None, pe_blake3_hex = id\<rparr>,
      sw_glob = (\<lambda>_. Inr []), sw_is_file = (\<lambda>_. True), sw_read = None, sw_write = None\<rparr>"

definition empty_sources :: source_disk where
  "empty_sources = \<lparr>sd_ledger = None, sd_modified = None, sd_state = No_File\<rparr>"

definition empty_registry :: source_registry where
  "empty_registry = \<lparr>sg_ledger = [], sg_loaded_modified = None, sg_resolved = []\<rparr>"

lemma empty_coherent: "coherent empty_sources empty_registry" "disk_ledger empty_sources = Some []" "sd_state empty_sources \<noteq> Bad_File"
  "valid_source ''app'' [''/l/a.log'']"
proof -
  have "trim ''app'' \<noteq> []" "trim ''/l/a.log'' \<noteq> []" by code_simp+
  then show "valid_source ''app'' [''/l/a.log'']" by (simp add: valid_source_def)
qed (simp_all add: coherent_def disk_ledger_def empty_sources_def empty_registry_def)

theorem registry_refines_file_witness:
  "\<exists>g' sd'. sources_add example_source_world ''app'' [''/l/a.log''] None empty_sources empty_registry =
      (Inr (new_entry example_source_world ''app'' [''/l/a.log''] None), g', sd') \<and>
    disk_ledger sd' = Some [(''app'', new_entry example_source_world ''app'' [''/l/a.log''] None)] \<and> coherent sd' g'"
  using registry_refines_file [OF empty_coherent(1,2), of example_source_world "''app''" "[''/l/a.log'']" None] empty_coherent(3,4)
  by (simp add: example_source_world_def)

definition full_disk_world :: source_world where
  "full_disk_world = example_source_world\<lparr>sw_write := Some ''disk full''\<rparr>"

theorem failed_add_listed_witness:
  "\<exists>g' g''. sources_add full_disk_world ''app'' [''/l/a.log''] None empty_sources empty_registry = (Inl ''disk full'', g', empty_sources) \<and>
    sources_list example_source_world empty_sources g' =
      (Inr [new_entry full_disk_world ''app'' [''/l/a.log''] None], g'', empty_sources)"
proof -
  have "sw_read full_disk_world = None" "sw_write full_disk_world = Some ''disk full''"
    by (simp_all add: full_disk_world_def example_source_world_def)
  from failed_add_listed [OF empty_coherent(1,2) this empty_coherent(4), of None example_source_world] show ?thesis
    by (auto simp: bm_values_def)
qed

theorem log_services_distinct_witness:
  "distinct (map rp_service (resolved_paths_to_log_sources ''app'' [''/x/a.log'', ''/y/a.log'']))"
proof -
  have "source_base ''app'' ''/x/a.log'' = ''a''" "source_base ''app'' ''/y/a.log'' = ''a''" by code_simp+
  then have "plain_bases ''app'' [''/x/a.log'', ''/y/a.log'']" by (auto simp: plain_bases_def)
  from log_services_distinct [OF this] show ?thesis by blast
qed

end
