(* ===== verification/Projects.thy ===== *)
theory Projects
  imports Manifests
begin

text \<open>
  The ledger of known projects, \<open>src/src/projects.rs\<close>, and the handlers about them
  (\<open>src/src/daemon/handlers/projects.rs\<close>). Canonical paths, directory listings, the values of
  files and the outcome of writes are parameters; every use of the ledger loads it from its file.
\<close>

section \<open>The ledger\<close>

record project_entry =
  pj_path :: string
  pj_name :: string
  pj_last_used :: "string option"

type_synonym projects_ledger = "(string, project_entry) bmap"

record project_world =
  jw_paths :: path_env
  jw_now :: string
  jw_canon :: "string \<Rightarrow> string option"
  jw_exists :: "string \<Rightarrow> bool"
  jw_loader :: config_loader
  jw_read :: "string option"
  jw_write :: "string option"
  jw_dir :: "string \<Rightarrow> string result list result"
  jw_manifest :: "string \<Rightarrow> json option"

text \<open>The disk here is the value of the file, if it exists.\<close>

type_synonym project_disk = "json option"

definition project_entry_fields :: "string list" where
  "project_entry_fields = [''path'', ''name'', ''last_used'']"

definition enc_project_entry :: "project_entry \<Rightarrow> json" where
  "enc_project_entry e =
     J_Obj [(''path'', J_Str (pj_path e)), (''name'', J_Str (pj_name e)), (''last_used'', enc_option J_Str (pj_last_used e))]"

definition dec_project_entry :: "json \<Rightarrow> project_entry option" where
  "dec_project_entry = dec_object project_entry_fields (\<lambda>m.
     Option.bind (dec_field m ''path'' dec_str) (\<lambda>path.
     Option.bind (dec_field m ''name'' dec_str) (\<lambda>name.
     Option.bind (dec_optional m ''last_used'' dec_str) (\<lambda>last_used.
       Some \<lparr>pj_path = path, pj_name = name, pj_last_used = last_used\<rparr>))))"

definition enc_projects :: "projects_ledger \<Rightarrow> json" where
  "enc_projects ledger = J_Obj [(''projects'', enc_map enc_project_entry ledger)]"

definition dec_projects :: "json \<Rightarrow> projects_ledger option" where
  "dec_projects = dec_object [''projects''] (\<lambda>m. dec_field m ''projects'' (dec_map dec_project_entry))"

definition load_projects :: "project_world \<Rightarrow> project_disk \<Rightarrow> projects_ledger result" where
  "load_projects jw d =
     rbind (projects_path (jw_paths jw)) (\<lambda>_.
     case d of
       None \<Rightarrow> Inr []
     | Some v \<Rightarrow>
         (case jw_read jw of
            Some _ \<Rightarrow> Inl ''read projects ledger''
          | None \<Rightarrow> ok_or ''parse projects ledger'' (dec_projects v)))"

definition save_projects :: "project_world \<Rightarrow> projects_ledger \<Rightarrow> project_disk \<Rightarrow> unit result \<times> project_disk" where
  "save_projects jw ledger d =
     (case projects_path (jw_paths jw) of
        Inl e \<Rightarrow> (Inl e, d)
      | Inr _ \<Rightarrow>
          (case jw_write jw of
             Some e \<Rightarrow> (Inl e, d)
           | None \<Rightarrow> (Inr (), Some (enc_projects ledger))))"

definition canonical_dir :: "project_world \<Rightarrow> string \<Rightarrow> string" where
  "canonical_dir jw project_dir = unwrap_or (jw_canon jw project_dir) project_dir"

definition project_id :: "project_world \<Rightarrow> string \<Rightarrow> string" where
  "project_id jw project_dir = project_hash (jw_paths jw) (canonical_dir jw project_dir)"

definition project_entry_of :: "project_world \<Rightarrow> string \<Rightarrow> string option \<Rightarrow> project_entry" where
  "project_entry_of jw project_dir last_used =
     \<lparr>pj_path = canonical_dir jw project_dir,
      pj_name = unwrap_or (path_file_name (canonical_dir jw project_dir)) ''unknown'', pj_last_used = last_used\<rparr>"

definition register ::
  "project_world \<Rightarrow> string \<Rightarrow> projects_ledger \<Rightarrow> project_disk \<Rightarrow> string result \<times> projects_ledger \<times> project_disk" where
  "register jw project_dir ledger d =
     (let pid = project_id jw project_dir;
          ledger1 = bm_insert pid (project_entry_of jw project_dir (Some (jw_now jw))) ledger;
          (r, d1) = save_projects jw ledger1 d in
      ((case r of Inl e \<Rightarrow> Inl e | Inr _ \<Rightarrow> Inr pid), ledger1, d1))"

definition touch ::
  "project_world \<Rightarrow> string \<Rightarrow> projects_ledger \<Rightarrow> project_disk \<Rightarrow> unit result \<times> projects_ledger \<times> project_disk" where
  "touch jw project_dir ledger d =
     (let pid = project_id jw project_dir in
      if bm_contains ledger pid then
        (let ledger1 = bm_update pid (\<lambda>e. e\<lparr>pj_last_used := Some (jw_now jw)\<rparr>) ledger;
             (r, d1) = save_projects jw ledger1 d in (r, ledger1, d1))
      else
        (case register jw project_dir ledger d of
           (Inl e, ledger1, d1) \<Rightarrow> (Inl e, ledger1, d1)
         | (Inr _, ledger1, d1) \<Rightarrow> (Inr (), ledger1, d1)))"

definition remove_project_entry ::
  "project_world \<Rightarrow> string \<Rightarrow> projects_ledger \<Rightarrow> project_disk \<Rightarrow> bool result \<times> projects_ledger \<times> project_disk" where
  "remove_project_entry jw pid ledger d =
     (if bm_contains ledger pid then
        (let ledger1 = bm_remove pid ledger; (r, d1) = save_projects jw ledger1 d in
         ((case r of Inl e \<Rightarrow> Inl e | Inr _ \<Rightarrow> Inr True), ledger1, d1))
      else (Inr False, ledger, d))"

record project_summary =
  py_id :: string
  py_path :: string
  py_name :: string
  py_stacks :: "string list"
  py_last_used :: "string option"
  py_config_exists :: bool

definition project_summary_of :: "project_world \<Rightarrow> string \<times> project_entry \<Rightarrow> project_summary" where
  "project_summary_of jw = (\<lambda>(pid, entry).
     let config_path = config_default_path (jw_exists jw) (pj_path entry);
         config_exists = jw_exists jw config_path in
     \<lparr>py_id = pid, py_path = pj_path entry, py_name = pj_name entry,
      py_stacks = (if config_exists
        then (case load_from_path (jw_loader jw) config_path of Inr c \<Rightarrow> bm_keys (cf_stacks c) | Inl _ \<Rightarrow> [])
        else []),
      py_last_used = pj_last_used entry, py_config_exists = config_exists\<rparr>)"

definition to_summaries :: "project_world \<Rightarrow> projects_ledger \<Rightarrow> project_summary list" where
  "to_summaries jw ledger = map (project_summary_of jw) ledger"

text \<open>The projects of the runs on disk: entries that cannot be used are passed over.\<close>

definition seeded_project :: "project_world \<Rightarrow> string \<Rightarrow> string option" where
  "seeded_project jw entry =
     (let manifest_path = path_join entry ''manifest.json'' in
      if \<not> jw_exists jw manifest_path then None
      else Option.bind (jw_manifest jw manifest_path)
        (dec_object [''project_dir''] (\<lambda>m. dec_field m ''project_dir'' dec_str)))"

definition seed_step :: "project_world \<Rightarrow> nat \<times> projects_ledger \<Rightarrow> string \<Rightarrow> nat \<times> projects_ledger" where
  "seed_step jw = (\<lambda>(count, ledger) entry.
     case seeded_project jw entry of
       None \<Rightarrow> (count, ledger)
     | Some project_dir \<Rightarrow>
         if bm_contains ledger (project_id jw project_dir) then (count, ledger)
         else (Suc count, bm_insert (project_id jw project_dir) (project_entry_of jw project_dir None) ledger))"

fun seed_entries :: "project_world \<Rightarrow> string result list \<Rightarrow> nat \<times> projects_ledger \<Rightarrow> unit result \<times> nat \<times> projects_ledger" where
  "seed_entries jw [] s = (Inr (), s)"
| "seed_entries jw (Inl e # entries) s = (Inl e, s)"
| "seed_entries jw (Inr entry # entries) s = seed_entries jw entries (seed_step jw s entry)"

definition seed_from_runs ::
  "project_world \<Rightarrow> string \<Rightarrow> projects_ledger \<Rightarrow> project_disk \<Rightarrow> nat result \<times> projects_ledger \<times> project_disk" where
  "seed_from_runs jw dir ledger d =
     (if \<not> jw_exists jw dir then (Inr 0, ledger, d)
      else
        (case jw_dir jw dir of
           Inl e \<Rightarrow> (Inl e, ledger, d)
         | Inr entries \<Rightarrow>
             (case seed_entries jw entries (0, ledger) of
                (Inl e, _, ledger1) \<Rightarrow> (Inl e, ledger1, d)
              | (Inr _, count, ledger1) \<Rightarrow>
                  if count > 0 then
                    (case save_projects jw ledger1 d of
                       (Inl e, d1) \<Rightarrow> (Inl e, ledger1, d1)
                     | (Inr _, d1) \<Rightarrow> (Inr count, ledger1, d1))
                  else (Inr count, ledger1, d))))"

section \<open>The handlers\<close>

definition list_projects :: "project_world \<Rightarrow> project_disk \<Rightarrow> project_summary list app_result" where
  "list_projects jw d = rbind (map_err Internal (load_projects jw d)) (\<lambda>ledger. Inr (to_summaries jw ledger))"

definition register_project :: "project_world \<Rightarrow> string \<Rightarrow> project_disk \<Rightarrow> project_summary app_result \<times> project_disk" where
  "register_project jw path d =
     (if \<not> jw_exists jw path then (Inl (Bad_Request (''path does not exist: '' @ path)), d)
      else
        (case load_projects jw d of
           Inl e \<Rightarrow> (Inl (Internal e), d)
         | Inr ledger \<Rightarrow>
             (case register jw path ledger d of
                (Inl e, _, d1) \<Rightarrow> (Inl (Internal e), d1)
              | (Inr pid, ledger1, d1) \<Rightarrow>
                  (ok_or (Internal ''failed to find registered project'')
                     (find (\<lambda>p. py_id p = pid) (to_summaries jw ledger1)), d1))))"

definition remove_project :: "project_world \<Rightarrow> string \<Rightarrow> project_disk \<Rightarrow> unit app_result \<times> project_disk" where
  "remove_project jw pid d =
     (case load_projects jw d of
        Inl e \<Rightarrow> (Inl (Internal e), d)
      | Inr ledger \<Rightarrow>
          (case remove_project_entry jw pid ledger d of
             (Inl e, _, d1) \<Rightarrow> (Inl (Internal e), d1)
           | (Inr removed, _, d1) \<Rightarrow>
               (if removed then Inr () else Inl (Not_Found (''project '' @ pid @ '' not found'')), d1)))"

text \<open>\<open>touch_project\<close> of a launch: whatever fails is ignored.\<close>

definition touch_project :: "project_world \<Rightarrow> string \<Rightarrow> project_disk \<Rightarrow> project_disk" where
  "touch_project jw project_dir d =
     (case load_projects jw d of Inl _ \<Rightarrow> d | Inr ledger \<Rightarrow> snd (snd (touch jw project_dir ledger d)))"

section \<open>Facts\<close>

lemma project_entry_round_trip: "dec_project_entry (enc_project_entry e) = Some e"
  by (cases e; cases "pj_last_used e")
    (simp_all add: dec_project_entry_def enc_project_entry_def project_entry_fields_def no_duplicate_def dec_field_def dec_optional_def
      dec_default_def enc_option_def)

interpretation project_codec: codec enc_project_entry dec_project_entry "\<lambda>_. True"
  by unfold_locales (simp_all add: project_entry_round_trip, simp add: enc_project_entry_def)

lemma projects_round_trip: "bm_ok ledger \<Longrightarrow> dec_projects (enc_projects ledger) = Some ledger"
  using project_codec.map_round_trip
  by (simp add: dec_projects_def enc_projects_def no_duplicate_def dec_field_def)

lemma saved_projects_load:
  assumes "save_projects jw ledger d = (Inr u, d')" and "bm_ok ledger" and "jw_read jw' = None" and "jw_paths jw' = jw_paths jw"
  shows "load_projects jw' d' = Inr ledger"
  using assms projects_round_trip [OF assms(2)]
  by (auto simp: save_projects_def load_projects_def split: sum.splits option.splits)

lemma seed_entries_ok:
  "seed_entries jw entries s = (Inr u, s') \<Longrightarrow> \<exists>es. entries = map Inr es \<and> s' = foldl (seed_step jw) s es"
proof (induction jw entries s rule: seed_entries.induct)
  case (3 jw entry entries s)
  then obtain es where "entries = map Inr es" "s' = foldl (seed_step jw) (seed_step jw s entry) es" by auto
  then show ?case by (intro exI [of _ "entry # es"]) simp
qed auto

lemma seed_entries_all: "seed_entries jw (map Inr es) s = (Inr (), foldl (seed_step jw) s es)"
  by (induction es arbitrary: s) auto

text \<open>One entry: it is passed over, known, or added.\<close>

lemma seed_step_cases:
  assumes "seed_step jw (n, ledger) entry = (m, ledger')"
  obtains (none) "seeded_project jw entry = None" "m = n" "ledger' = ledger"
  | (known) dir where "seeded_project jw entry = Some dir" "bm_contains ledger (project_id jw dir)" "m = n" "ledger' = ledger"
  | (fresh) dir where "seeded_project jw entry = Some dir" "map_of ledger (project_id jw dir) = None" "m = Suc n"
      "ledger' = bm_insert (project_id jw dir) (project_entry_of jw dir None) ledger"
  using assms by (auto simp: seed_step_def bm_contains_def split: option.splits if_splits)

lemma seed_step_keeps:
  assumes "seed_step jw (n, ledger) entry = (m, ledger')" and "map_of ledger k = Some e"
  shows "map_of ledger' k = Some e"
  using assms(1) by (cases rule: seed_step_cases) (use assms(2) in \<open>auto simp: map_of_bm_insert\<close>)

lemma seeded_keeps:
  "foldl (seed_step jw) (n, ledger) entries = (m, ledger') \<Longrightarrow> map_of ledger k = Some e \<Longrightarrow> map_of ledger' k = Some e"
proof (induction entries arbitrary: n ledger)
  case (Cons entry entries)
  obtain n1 ledger1 where "seed_step jw (n, ledger) entry = (n1, ledger1)" by fastforce
  then show ?case using Cons seed_step_keeps by auto
qed simp

lemma seeded_origin:
  "foldl (seed_step jw) (n, ledger) entries = (m, ledger') \<Longrightarrow> map_of ledger' k = Some e \<Longrightarrow> map_of ledger k = Some e \<or>
    (\<exists>entry \<in> set entries. \<exists>dir. seeded_project jw entry = Some dir \<and> k = project_id jw dir \<and> e = project_entry_of jw dir None)"
proof (induction entries arbitrary: n ledger)
  case (Cons entry entries)
  obtain n1 ledger1 where step: "seed_step jw (n, ledger) entry = (n1, ledger1)" by fastforce
  then have ih: "map_of ledger1 k = Some e \<or>
      (\<exists>entry \<in> set entries. \<exists>dir. seeded_project jw entry = Some dir \<and> k = project_id jw dir \<and> e = project_entry_of jw dir None)"
    using Cons by simp
  from step show ?case
    by (cases rule: seed_step_cases) (use ih in \<open>auto simp: map_of_bm_insert split: if_splits\<close>)
qed simp

lemma seeded_contains:
  "foldl (seed_step jw) (n, ledger) entries = (m, ledger') \<Longrightarrow> entry \<in> set entries \<Longrightarrow> seeded_project jw entry = Some dir \<Longrightarrow>
    bm_contains ledger' (project_id jw dir)"
proof (induction entries arbitrary: n ledger)
  case (Cons x entries)
  obtain n1 ledger1 where step: "seed_step jw (n, ledger) x = (n1, ledger1)" by fastforce
  then have rest: "foldl (seed_step jw) (n1, ledger1) entries = (m, ledger')" using Cons.prems(1) by simp
  show ?case
  proof (cases "entry \<in> set entries")
    case False
    then have "entry = x" using Cons.prems(2) by simp
    with step have "bm_contains ledger1 (project_id jw dir)"
      by (cases rule: seed_step_cases) (use Cons.prems(3) \<open>entry = x\<close> in \<open>auto simp: bm_contains_def map_of_bm_insert\<close>)
    then show ?thesis using seeded_keeps [OF rest] by (auto simp: bm_contains_def)
  qed (use Cons.IH [OF rest] Cons.prems(3) in simp)
qed simp

section \<open>Properties\<close>

text \<open>
  Seeding the ledger from the runs on disk keeps every entry it has, adds exactly the projects of the
  runs whose manifests can be read, as never used, and is done then: seeding again adds nothing.
\<close>

theorem seeding_settles:
  assumes "seed_from_runs jw dir ledger d = (Inr count, ledger', d')" and "jw_exists jw dir"
  shows "(\<exists>entries. jw_dir jw dir = Inr (map Inr entries) \<and>
      (\<forall>k e. map_of ledger' k = Some e \<longrightarrow> map_of ledger k = Some e \<or>
        (\<exists>entry \<in> set entries. \<exists>dir. seeded_project jw entry = Some dir \<and> k = project_id jw dir \<and> e = project_entry_of jw dir None)) \<and>
      (\<forall>entry \<in> set entries. \<forall>dir. seeded_project jw entry = Some dir \<longrightarrow> bm_contains ledger' (project_id jw dir))) \<and>
    (\<forall>k e. map_of ledger k = Some e \<longrightarrow> map_of ledger' k = Some e) \<and>
    seed_from_runs jw dir ledger' d' = (Inr 0, ledger', d')"
proof -
  obtain es where es: "jw_dir jw dir = Inr es"
    using assms by (cases "jw_dir jw dir") (simp_all add: seed_from_runs_def)
  obtain n where seeded: "seed_entries jw es (0, ledger) = (Inr (), n, ledger')"
    using assms(1,2) es by (auto simp: seed_from_runs_def split: sum.splits prod.splits if_splits)
  obtain entries where listing: "es = map Inr entries" and fold: "foldl (seed_step jw) (0, ledger) entries = (n, ledger')"
    using seed_entries_ok [OF seeded] by auto
  have "foldl (seed_step jw) (0, ledger') xs = (0, ledger')" if "set xs \<subseteq> set entries" for xs
    using that seeded_contains [OF fold] by (induction xs) (auto simp: seed_step_def split: option.split)
  then have "seed_from_runs jw dir ledger' d' = (Inr 0, ledger', d')"
    using assms(2) es listing by (simp add: seed_from_runs_def seed_entries_all)
  then show ?thesis using es listing seeded_origin [OF fold] seeded_contains [OF fold] seeded_keeps [OF fold] by blast
qed

definition example_project_world :: project_world where
  "example_project_world =
     \<lparr>jw_paths = \<lparr>pe_base_dir = Inr ''/data'', pe_home = None, pe_blake3_hex = (\<lambda>p. p)\<rparr>, jw_now = ''t1'', jw_canon = (\<lambda>_. None),
      jw_exists = (\<lambda>_. True), jw_loader = \<lparr>cl_read = (\<lambda>_. Inl ''missing''), cl_utf8 = (\<lambda>s. Inr s), cl_toml = (\<lambda>_. Inl ''toml''), cl_yaml = (\<lambda>_. Inl ''yaml'')\<rparr>,
      jw_read = None, jw_write = None, jw_dir = (\<lambda>_. Inr [Inr ''/data/runs/r1'']),
      jw_manifest = (\<lambda>_. Some (J_Obj [(''project_dir'', J_Str ''/home/u/app'')]))\<rparr>"

theorem seeding_settles_witness:
  "\<exists>ledger' d'. seed_from_runs example_project_world ''/data/runs'' [] None = (Inr 1, ledger', d') \<and>
     map_of ledger' (project_id example_project_world ''/home/u/app'') = Some (project_entry_of example_project_world ''/home/u/app'' None) \<and>
     seed_from_runs example_project_world ''/data/runs'' ledger' d' = (Inr 0, ledger', d')"
proof -
  let ?jw = example_project_world
  let ?ledger = "[(project_id ?jw ''/home/u/app'', project_entry_of ?jw ''/home/u/app'' None)]"
  have "seeded_project ?jw ''/data/runs/r1'' = Some ''/home/u/app''"
    by (simp add: seeded_project_def example_project_world_def no_duplicate_def dec_field_def)
  moreover have "\<exists>p. projects_path (jw_paths ?jw) = Inr p"
    by (simp add: projects_path_def base_join_def example_project_world_def)
  moreover have "jw_dir ?jw dir = Inr [Inr ''/data/runs/r1'']" "jw_exists ?jw dir" "jw_write ?jw = None" for dir
    by (simp_all add: example_project_world_def)
  ultimately have seeded: "seed_from_runs ?jw ''/data/runs'' [] None = (Inr 1, ?ledger, Some (enc_projects ?ledger))"
    by (auto simp: seed_from_runs_def seed_step_def bm_contains_def save_projects_def)
  moreover have "jw_exists ?jw ''/data/runs''" by (simp add: example_project_world_def)
  ultimately show ?thesis using seeding_settles [OF seeded] by simp
qed

end
