(* ===== verification/Local_Units.thy ===== *)
theory Local_Units
  imports Manifests
begin

text \<open>
  The local substitute for systemd, \<open>LocalSystemd\<close> of \<open>src/src/systemd.rs\<close>: units are
  child processes in groups of their own, kept in a map and in a registry file from which a later daemon
  takes them over. The operating system is the record \<open>unix\<close> over a state of its own: signals,
  the probe of a process group, spawning, waiting, the clock, and whether a write succeeds. A call holds
  the lock of the map twice at most, and between the two it stops and spawns without it: the two parts
  are \<open>take_unit\<close> and \<open>put_unit\<close>. The temporary file of a write is not modelled.
\<close>

section \<open>The operating system\<close>

datatype unix_exit = Exited "8 word" | Signaled "8 word"

record spawn_command =
  sc_program :: string
  sc_args :: "string list"
  sc_dir :: string
  sc_env :: "(string \<times> string) list"

type_synonym local_child = nat

record 'os unix =
  ux_kill :: "int \<Rightarrow> int \<Rightarrow> 'os \<Rightarrow> 'os"
  ux_probe :: "int \<Rightarrow> 'os \<Rightarrow> int option"
  ux_spawn :: "spawn_command \<Rightarrow> 'os \<Rightarrow> local_child result \<times> 'os"
  ux_child_id :: "local_child \<Rightarrow> 'os \<Rightarrow> u32 option"
  ux_try_wait :: "local_child \<Rightarrow> 'os \<Rightarrow> unix_exit option result \<times> 'os"
  ux_wait :: "local_child \<Rightarrow> nat \<Rightarrow> 'os \<Rightarrow> unix_exit result option \<times> 'os"
  ux_now :: "'os \<Rightarrow> nat"
  ux_sleep :: "nat \<Rightarrow> 'os \<Rightarrow> 'os"
  ux_write :: "'os \<Rightarrow> bool"
  ux_unlink :: "'os \<Rightarrow> bool"

abbreviation sigkill :: int where "sigkill \<equiv> 9"
abbreviation sigterm :: int where "sigterm \<equiv> 15"
abbreviation esrch :: int where "esrch \<equiv> 3"

text \<open>\<open>kill(-pgid, 0)\<close> succeeds or fails with an error number.\<close>

definition process_group_exists :: "'os unix \<Rightarrow> int \<Rightarrow> 'os \<Rightarrow> bool" where
  "process_group_exists ux pgid os \<longleftrightarrow>
     (case ux_probe ux (- pgid) os of None \<Rightarrow> True | Some errno \<Rightarrow> errno \<noteq> esrch)"

section \<open>Units\<close>

record local_exit =
  le_success :: bool
  le_code :: "int option"

fun exit_of :: "unix_exit \<Rightarrow> local_exit" where
  "exit_of (Exited n) = \<lparr>le_success = (n = 0), le_code = Some (uint n)\<rparr>"
| "exit_of (Signaled s) = \<lparr>le_success = False, le_code = None\<rparr>"

definition exit_result :: "local_exit \<Rightarrow> string" where
  "exit_result e = (if le_success e then ''success'' else ''exit-code'')"

record local_unit =
  lu_props :: unit_properties
  lu_child :: "local_child option"
  lu_pgid :: "int option"
  lu_last_status :: "local_exit option"

record persisted_unit =
  pu_props :: unit_properties
  pu_pgid :: "int option"
  pu_last_status :: "local_exit option"

type_synonym local_units = "(string, local_unit) bmap"

record 'os local_manager =
  lm_units :: local_units
  lm_file :: "json option"
  lm_os :: 'os

subsection \<open>The format of the registry file\<close>

definition dec_u32_nat :: "json \<Rightarrow> nat option" where
  "dec_u32_nat v = (case v of J_Num n \<Rightarrow> if 0 \<le> n \<and> n < 2 ^ 32 then Some (nat n) else None | _ \<Rightarrow> None)"

definition exec_start_fields :: "string list" where
  "exec_start_fields = [''path'', ''argv'', ''ignore_failure'']"

definition enc_exec_start :: "exec_start \<Rightarrow> json" where
  "enc_exec_start e =
     J_Obj [(''path'', J_Str (ex_path e)), (''argv'', J_Arr (map J_Str (ex_argv e))),
            (''ignore_failure'', J_Bool (ex_ignore_failure e))]"

definition dec_exec_start :: "json \<Rightarrow> exec_start option" where
  "dec_exec_start = dec_object exec_start_fields (\<lambda>m.
     Option.bind (dec_field m ''path'' dec_str) (\<lambda>path.
     Option.bind (dec_field m ''argv'' (dec_list dec_str)) (\<lambda>argv.
     Option.bind (dec_field m ''ignore_failure'' dec_bool) (\<lambda>ignore_failure.
       Some \<lparr>ex_path = path, ex_argv = argv, ex_ignore_failure = ignore_failure\<rparr>))))"

definition unit_properties_fields :: "string list" where
  "unit_properties_fields =
     [''description'', ''working_directory'', ''environment'', ''exec_start'', ''kill_mode'', ''kill_signal'',
      ''timeout_stop_usec'', ''send_sigkill'', ''restart'', ''restart_usec'', ''start_limit_interval_usec'',
      ''start_limit_burst'', ''remain_after_exit'']"

definition enc_unit_properties :: "unit_properties \<Rightarrow> json" where
  "enc_unit_properties p =
     J_Obj [(''description'', J_Str (up_description p)),
            (''working_directory'', J_Str (up_working_directory p)),
            (''environment'', J_Arr (map J_Str (up_environment p))),
            (''exec_start'', enc_exec_start (up_exec_start p)),
            (''kill_mode'', J_Str (up_kill_mode p)), (''kill_signal'', J_Num (up_kill_signal p)),
            (''timeout_stop_usec'', J_Num (int (up_timeout_stop_usec p))),
            (''send_sigkill'', J_Bool (up_send_sigkill p)), (''restart'', J_Str (up_restart p)),
            (''restart_usec'', J_Num (int (up_restart_usec p))),
            (''start_limit_interval_usec'', J_Num (int (up_start_limit_interval_usec p))),
            (''start_limit_burst'', J_Num (int (up_start_limit_burst p))),
            (''remain_after_exit'', J_Bool (up_remain_after_exit p))]"

definition dec_unit_properties :: "json \<Rightarrow> unit_properties option" where
  "dec_unit_properties = dec_object unit_properties_fields (\<lambda>m.
     Option.bind (dec_field m ''description'' dec_str) (\<lambda>description.
     Option.bind (dec_field m ''working_directory'' dec_str) (\<lambda>working_directory.
     Option.bind (dec_field m ''environment'' (dec_list dec_str)) (\<lambda>environment.
     Option.bind (dec_field m ''exec_start'' dec_exec_start) (\<lambda>exec.
     Option.bind (dec_field m ''kill_mode'' dec_str) (\<lambda>kill_mode.
     Option.bind (dec_field m ''kill_signal'' dec_i32) (\<lambda>kill_signal.
     Option.bind (dec_field m ''timeout_stop_usec'' dec_u64) (\<lambda>timeout_stop_usec.
     Option.bind (dec_field m ''send_sigkill'' dec_bool) (\<lambda>send_sigkill.
     Option.bind (dec_field m ''restart'' dec_str) (\<lambda>restart.
     Option.bind (dec_field m ''restart_usec'' dec_u64) (\<lambda>restart_usec.
     Option.bind (dec_field m ''start_limit_interval_usec'' dec_u64) (\<lambda>interval.
     Option.bind (dec_field m ''start_limit_burst'' dec_u32_nat) (\<lambda>burst.
     Option.bind (dec_field m ''remain_after_exit'' dec_bool) (\<lambda>remain_after_exit.
       Some \<lparr>up_description = description, up_working_directory = working_directory,
             up_environment = environment, up_exec_start = exec, up_kill_mode = kill_mode,
             up_kill_signal = kill_signal, up_timeout_stop_usec = timeout_stop_usec,
             up_send_sigkill = send_sigkill, up_restart = restart, up_restart_usec = restart_usec,
             up_start_limit_interval_usec = interval, up_start_limit_burst = burst,
             up_remain_after_exit = remain_after_exit\<rparr>))))))))))))))"

definition enc_local_exit :: "local_exit \<Rightarrow> json" where
  "enc_local_exit e = J_Obj [(''success'', J_Bool (le_success e)), (''code'', enc_option J_Num (le_code e))]"

definition dec_local_exit :: "json \<Rightarrow> local_exit option" where
  "dec_local_exit = dec_object [''success'', ''code''] (\<lambda>m.
     Option.bind (dec_field m ''success'' dec_bool) (\<lambda>success.
     Option.bind (dec_optional m ''code'' dec_i32) (\<lambda>code.
       Some \<lparr>le_success = success, le_code = code\<rparr>)))"

definition enc_persisted_unit :: "persisted_unit \<Rightarrow> json" where
  "enc_persisted_unit u =
     J_Obj [(''props'', enc_unit_properties (pu_props u)), (''pgid'', enc_option J_Num (pu_pgid u)),
            (''last_status'', enc_option enc_local_exit (pu_last_status u))]"

definition dec_persisted_unit :: "json \<Rightarrow> persisted_unit option" where
  "dec_persisted_unit = dec_object [''props'', ''pgid'', ''last_status''] (\<lambda>m.
     Option.bind (dec_field m ''props'' dec_unit_properties) (\<lambda>props.
     Option.bind (dec_optional m ''pgid'' dec_i32) (\<lambda>pgid.
     Option.bind (dec_optional m ''last_status'' dec_local_exit) (\<lambda>last_status.
       Some \<lparr>pu_props = props, pu_pgid = pgid, pu_last_status = last_status\<rparr>))))"

subsection \<open>Reading and writing the registry\<close>

definition persisted_of :: "local_unit \<Rightarrow> persisted_unit" where
  "persisted_of u = \<lparr>pu_props = lu_props u, pu_pgid = lu_pgid u, pu_last_status = lu_last_status u\<rparr>"

definition unit_of_persisted :: "persisted_unit \<Rightarrow> local_unit" where
  "unit_of_persisted u =
     \<lparr>lu_props = pu_props u, lu_child = None, lu_pgid = pu_pgid u, lu_last_status = pu_last_status u\<rparr>"

definition enc_units :: "local_units \<Rightarrow> json" where
  "enc_units units = enc_map enc_persisted_unit (bm_map (\<lambda>_. persisted_of) units)"

definition load_units :: "json option \<Rightarrow> local_units" where
  "load_units stored =
     (case Option.bind stored (dec_map dec_persisted_unit) of
        None \<Rightarrow> []
      | Some persisted \<Rightarrow> bm_map (\<lambda>_. unit_of_persisted) persisted)"

definition persist_units :: "'os unix \<Rightarrow> 'os local_manager \<Rightarrow> 'os local_manager" where
  "persist_units ux lm =
     (if lm_units lm = [] then (if ux_unlink ux (lm_os lm) then lm\<lparr>lm_file := None\<rparr> else lm)
      else if ux_write ux (lm_os lm) then lm\<lparr>lm_file := Some (enc_units (lm_units lm))\<rparr> else lm)"

definition should_keep_loaded_unit :: "'os unix \<Rightarrow> 'os \<Rightarrow> local_unit \<Rightarrow> bool" where
  "should_keep_loaded_unit ux os u \<longleftrightarrow>
     (up_remain_after_exit (lu_props u) \<and> lu_last_status u \<noteq> None) \<or>
     (case lu_pgid u of None \<Rightarrow> False | Some pgid \<Rightarrow> process_group_exists ux pgid os)"

definition with_registry_path :: "'os unix \<Rightarrow> json option \<Rightarrow> 'os \<Rightarrow> 'os local_manager" where
  "with_registry_path ux stored os =
     persist_units ux \<lparr>lm_units = bm_retain (\<lambda>_. should_keep_loaded_unit ux os) (load_units stored),
       lm_file = stored, lm_os = os\<rparr>"

section \<open>Processes\<close>

definition spawn_args :: "exec_start \<Rightarrow> string list" where
  "spawn_args e =
     (case ex_argv e of [] \<Rightarrow> [] | a # rest \<Rightarrow> if a = ex_path e then rest else a # rest)"

definition spawn_child :: "'os unix \<Rightarrow> unit_properties \<Rightarrow> 'os \<Rightarrow> local_child result \<times> 'os" where
  "spawn_child ux props os =
     (let (r, os1) = ux_spawn ux
        \<lparr>sc_program = ex_path (up_exec_start props), sc_args = spawn_args (up_exec_start props),
         sc_dir = up_working_directory props,
         sc_env = List.map_filter (find_char (CHR ''='')) (up_environment props)\<rparr> os in
      (map_err (\<lambda>_. ''spawn local service'') r, os1))"

text \<open>The group of a new unit is the process identifier, read as a signed number.\<close>

definition child_group :: "'os unix \<Rightarrow> local_child \<Rightarrow> 'os \<Rightarrow> int option" where
  "child_group ux child os = map_option sint (ux_child_id ux child os)"

definition signal_unit :: "'os unix \<Rightarrow> local_unit \<Rightarrow> int \<Rightarrow> 'os \<Rightarrow> 'os" where
  "signal_unit ux u signal os =
     (case lu_pgid u of
        Some pgid \<Rightarrow> ux_kill ux (- pgid) signal os
      | None \<Rightarrow>
          (case Option.bind (lu_child u) (\<lambda>c. ux_child_id ux c os) of
             Some pid \<Rightarrow> ux_kill ux (sint pid) signal os
           | None \<Rightarrow> os))"

text \<open>
  The wait sleeps 50 ms between two probes: until a deadline \<open>d\<close> milliseconds away it probes at
  most \<open>polls d\<close> times, which is the fuel.
\<close>

definition polls :: "nat \<Rightarrow> nat" where
  "polls ms = ms div 50 + 1"

fun wait_for_process_group_exit :: "'os unix \<Rightarrow> nat \<Rightarrow> int \<Rightarrow> nat \<Rightarrow> 'os \<Rightarrow> bool \<times> 'os" where
  "wait_for_process_group_exit ux 0 pgid deadline os = (\<not> process_group_exists ux pgid os, os)"
| "wait_for_process_group_exit ux (Suc n) pgid deadline os =
     (if ux_now ux os < deadline then
        if \<not> process_group_exists ux pgid os then (True, os)
        else wait_for_process_group_exit ux n pgid deadline (ux_sleep ux 50 os)
      else (\<not> process_group_exists ux pgid os, os))"

definition wait_group :: "'os unix \<Rightarrow> nat \<Rightarrow> int \<Rightarrow> 'os \<Rightarrow> bool \<times> 'os" where
  "wait_group ux ms pgid os = wait_for_process_group_exit ux (polls ms) pgid (ux_now ux os + ms) os"

text \<open>Stopping a unit; the unit, whose last status may change, is dropped by every caller.\<close>

definition stop_child :: "'os unix \<Rightarrow> int option \<Rightarrow> local_child \<Rightarrow> 'os \<Rightarrow> unit result \<times> 'os" where
  "stop_child ux pgid child os =
     (case ux_wait ux child 3000 os of
        (Some (Inr _), os1) \<Rightarrow> (Inr (), os1)
      | (Some (Inl _), os1) \<Rightarrow> (Inl ''wait for local service'', os1)
      | (None, os1) \<Rightarrow>
          (let os2 = (case pgid of Some g \<Rightarrow> ux_kill ux (- g) sigkill os1 | None \<Rightarrow> os1);
               (_, os3) = ux_wait ux child 1000 os2 in
           (Inr (), os3)))"

definition stop_group :: "'os unix \<Rightarrow> local_unit \<Rightarrow> int \<Rightarrow> 'os \<Rightarrow> 'os" where
  "stop_group ux u pgid os =
     (let (gone, os1) = wait_group ux 3000 pgid os in
      if gone then os1 else snd (wait_group ux 1000 pgid (signal_unit ux u sigkill os1)))"

definition stop_and_reap :: "'os unix \<Rightarrow> local_unit \<Rightarrow> int \<Rightarrow> 'os \<Rightarrow> unit result \<times> 'os" where
  "stop_and_reap ux u signal os =
     (let os1 = signal_unit ux u signal os in
      case lu_child u of
        Some child \<Rightarrow> stop_child ux (lu_pgid u) child os1
      | None \<Rightarrow>
          (case lu_pgid u of None \<Rightarrow> (Inr (), os1) | Some pgid \<Rightarrow> (Inr (), stop_group ux u pgid os1)))"

section \<open>The operations\<close>

definition take_unit :: "'os unix \<Rightarrow> string \<Rightarrow> 'os local_manager \<Rightarrow> local_unit option \<times> 'os local_manager" where
  "take_unit ux name lm =
     (map_of (lm_units lm) name, persist_units ux (lm\<lparr>lm_units := bm_remove name (lm_units lm)\<rparr>))"

definition put_unit :: "'os unix \<Rightarrow> string \<Rightarrow> local_unit \<Rightarrow> 'os local_manager \<Rightarrow> 'os local_manager" where
  "put_unit ux name u lm = persist_units ux (lm\<lparr>lm_units := bm_insert name u (lm_units lm)\<rparr>)"

definition stop_taken :: "'os unix \<Rightarrow> local_unit option \<Rightarrow> int \<Rightarrow> 'os local_manager \<Rightarrow> unit result \<times> 'os local_manager" where
  "stop_taken ux taken signal lm =
     (case taken of
        None \<Rightarrow> (Inr (), lm)
      | Some u \<Rightarrow> (let (r, os1) = stop_and_reap ux u signal (lm_os lm) in (r, lm\<lparr>lm_os := os1\<rparr>)))"

definition spawn_unit :: "'os unix \<Rightarrow> string \<Rightarrow> unit_properties \<Rightarrow> 'os local_manager \<Rightarrow> unit result \<times> 'os local_manager" where
  "spawn_unit ux name props lm =
     (case spawn_child ux props (lm_os lm) of
        (Inl e, os1) \<Rightarrow> (Inl e, lm\<lparr>lm_os := os1\<rparr>)
      | (Inr child, os1) \<Rightarrow>
          (Inr (), put_unit ux name
            \<lparr>lu_props = props, lu_child = Some child, lu_pgid = child_group ux child os1, lu_last_status = None\<rparr>
            (lm\<lparr>lm_os := os1\<rparr>)))"

definition start_transient_service ::
  "'os unix \<Rightarrow> string \<Rightarrow> unit_properties \<Rightarrow> 'os local_manager \<Rightarrow> unit result \<times> 'os local_manager" where
  "start_transient_service ux name props lm =
     (let (existing, lm1) = take_unit ux name lm in
      case stop_taken ux existing sigterm lm1 of
        (Inl e, lm2) \<Rightarrow> (Inl e, lm2)
      | (Inr _, lm2) \<Rightarrow> spawn_unit ux name props lm2)"

definition kill_unit :: "'os unix \<Rightarrow> string \<Rightarrow> int \<Rightarrow> 'os local_manager \<Rightarrow> unit result \<times> 'os local_manager" where
  "kill_unit ux name signal lm = (let (taken, lm1) = take_unit ux name lm in stop_taken ux taken signal lm1)"

definition stop_unit :: "'os unix \<Rightarrow> string \<Rightarrow> 'os local_manager \<Rightarrow> unit result \<times> 'os local_manager" where
  "stop_unit ux name lm = (let (taken, lm1) = take_unit ux name lm in stop_taken ux taken sigterm lm1)"

definition restart_unit :: "'os unix \<Rightarrow> string \<Rightarrow> 'os local_manager \<Rightarrow> unit result \<times> 'os local_manager" where
  "restart_unit ux name lm =
     (case take_unit ux name lm of
        (None, lm1) \<Rightarrow> (Inr (), lm1)
      | (Some u, lm1) \<Rightarrow>
          (case stop_taken ux (Some u) sigterm lm1 of
             (Inl e, lm2) \<Rightarrow> (Inl e, lm2)
           | (Inr _, lm2) \<Rightarrow> spawn_unit ux name (lu_props u) lm2))"

definition local_status :: "string \<Rightarrow> string \<Rightarrow> string option \<Rightarrow> unit_status" where
  "local_status active_state sub_state res =
     \<lparr>us_active_state = active_state, us_sub_state = sub_state, us_result = res\<rparr>"

definition settled_status ::
  "'os unix \<Rightarrow> string \<Rightarrow> local_unit \<Rightarrow> 'os local_manager \<Rightarrow> unit_status option result \<times> 'os local_manager" where
  "settled_status ux name u lm =
     (let res = map_option exit_result (lu_last_status u) in
      if up_remain_after_exit (lu_props u) \<and> lu_last_status u \<noteq> None then
        (Inr (Some (local_status ''active'' ''exited'' res)), lm)
      else if (case lu_pgid u of None \<Rightarrow> False | Some pgid \<Rightarrow> process_group_exists ux pgid (lm_os lm)) then
        (Inr (Some (local_status ''active'' ''running'' None)), lm)
      else
        (Inr (Some (local_status ''inactive'' ''exited'' res)),
         persist_units ux (lm\<lparr>lm_units := bm_remove name (lm_units lm)\<rparr>)))"

definition unit_status :: "'os unix \<Rightarrow> string \<Rightarrow> 'os local_manager \<Rightarrow> unit_status option result \<times> 'os local_manager" where
  "unit_status ux name lm =
     (case map_of (lm_units lm) name of
        None \<Rightarrow> (Inr None, lm)
      | Some u \<Rightarrow>
          (case lu_child u of
             None \<Rightarrow> settled_status ux name u lm
           | Some child \<Rightarrow>
               (case ux_try_wait ux child (lm_os lm) of
                  (Inl e, os1) \<Rightarrow> (Inl e, lm\<lparr>lm_os := os1\<rparr>)
                | (Inr (Some status), os1) \<Rightarrow>
                    (Inr (Some (local_status
                       (if up_remain_after_exit (lu_props u) then ''active'' else ''inactive'') ''exited''
                       (Some (exit_result (exit_of status))))),
                     persist_units ux (lm\<lparr>lm_os := os1, lm_units := bm_update name
                       (\<lambda>v. v\<lparr>lu_last_status := Some (exit_of status), lu_child := None\<rparr>) (lm_units lm)\<rparr>))
                | (Inr None, os1) \<Rightarrow>
                    (Inr (Some (local_status ''active'' ''running'' None)), lm\<lparr>lm_os := os1\<rparr>))))"

subsection \<open>The reaper, once a second\<close>

definition reap_unit :: "'os unix \<Rightarrow> local_unit \<Rightarrow> 'os \<Rightarrow> local_unit option \<times> bool \<times> 'os" where
  "reap_unit ux u os =
     (case lu_child u of
        Some child \<Rightarrow>
          (case ux_try_wait ux child os of
             (Inr (Some status), os1) \<Rightarrow>
               (if up_remain_after_exit (lu_props u)
                then Some (u\<lparr>lu_last_status := Some (exit_of status), lu_child := None\<rparr>) else None, True, os1)
           | (Inr None, os1) \<Rightarrow> (Some u, False, os1)
           | (Inl _, os1) \<Rightarrow> (None, True, os1))
      | None \<Rightarrow> (if should_keep_loaded_unit ux os u then (Some u, False, os) else (None, True, os)))"

fun reap_units :: "'os unix \<Rightarrow> local_units \<Rightarrow> 'os \<Rightarrow> local_units \<times> bool \<times> 'os" where
  "reap_units ux [] os = ([], False, os)"
| "reap_units ux ((name, u) # units) os =
     (let (kept, changed, os1) = reap_unit ux u os; (units', changed', os2) = reap_units ux units os1 in
      (case kept of Some v \<Rightarrow> (name, v) # units' | None \<Rightarrow> units', changed \<or> changed', os2))"

definition reaper_tick :: "'os unix \<Rightarrow> 'os local_manager \<Rightarrow> 'os local_manager" where
  "reaper_tick ux lm =
     (let (units', changed, os1) = reap_units ux (lm_units lm) (lm_os lm);
          lm1 = lm\<lparr>lm_units := units', lm_os := os1\<rparr> in
      if changed then persist_units ux lm1 else lm1)"

subsection \<open>Stopping what a registry holds\<close>

definition any_group_exists :: "'os unix \<Rightarrow> local_unit list \<Rightarrow> 'os \<Rightarrow> bool" where
  "any_group_exists ux units os \<longleftrightarrow>
     (\<exists>u \<in> set units. case lu_pgid u of None \<Rightarrow> False | Some pgid \<Rightarrow> process_group_exists ux pgid os)"

fun wait_for_groups :: "'os unix \<Rightarrow> nat \<Rightarrow> local_unit list \<Rightarrow> nat \<Rightarrow> 'os \<Rightarrow> 'os" where
  "wait_for_groups ux 0 units deadline os = os"
| "wait_for_groups ux (Suc n) units deadline os =
     (if ux_now ux os < deadline \<and> any_group_exists ux units os
      then wait_for_groups ux n units deadline (ux_sleep ux 50 os) else os)"

definition kill_left :: "'os unix \<Rightarrow> local_unit \<Rightarrow> 'os \<Rightarrow> 'os" where
  "kill_left ux u os =
     (if (case lu_pgid u of None \<Rightarrow> False | Some pgid \<Rightarrow> process_group_exists ux pgid os)
      then signal_unit ux u sigkill os else os)"

definition cleanup_registry :: "'os unix \<Rightarrow> json option \<Rightarrow> 'os \<Rightarrow> json option \<times> 'os" where
  "cleanup_registry ux stored os =
     (let units = bm_values (load_units stored);
          os1 = fold (\<lambda>u. signal_unit ux u sigterm) units os;
          os2 = wait_for_groups ux (polls 3000) units (ux_now ux os1 + 3000) os1;
          os3 = fold (kill_left ux) units os2 in
      (if ux_unlink ux os3 then None else stored, os3))"

text \<open>The interface of the manager as one function of its commands.\<close>

fun local_call :: "'os unix \<Rightarrow> unit_command \<Rightarrow> 'os local_manager \<Rightarrow> unit result \<times> 'os local_manager" where
  "local_call ux (Unit_Start name props) lm = start_transient_service ux name props lm"
| "local_call ux (Unit_Stop name) lm = stop_unit ux name lm"
| "local_call ux (Unit_Restart name) lm = restart_unit ux name lm"
| "local_call ux (Unit_Kill name signal) lm = kill_unit ux name signal lm"

section \<open>The registry file\<close>

definition i32_fits :: "int \<Rightarrow> bool" where
  "i32_fits n \<longleftrightarrow> - (2 ^ 31) \<le> n \<and> n < 2 ^ 31"

definition props_fit :: "unit_properties \<Rightarrow> bool" where
  "props_fit p \<longleftrightarrow>
     i32_fits (up_kill_signal p) \<and> up_timeout_stop_usec p < 2 ^ 64 \<and> up_restart_usec p < 2 ^ 64 \<and>
     up_start_limit_interval_usec p < 2 ^ 64 \<and> up_start_limit_burst p < 2 ^ 32"

definition exit_fits :: "local_exit \<Rightarrow> bool" where
  "exit_fits e \<longleftrightarrow> (\<forall>n \<in> set_option (le_code e). i32_fits n)"

definition persisted_fits :: "persisted_unit \<Rightarrow> bool" where
  "persisted_fits u \<longleftrightarrow>
     props_fit (pu_props u) \<and> (\<forall>g \<in> set_option (pu_pgid u). i32_fits g) \<and>
     (\<forall>e \<in> set_option (pu_last_status u). exit_fits e)"

abbreviation unit_fits :: "local_unit \<Rightarrow> bool" where
  "unit_fits u \<equiv> persisted_fits (persisted_of u)"

lemmas decode_simps = no_duplicate_def dec_field_def dec_optional_def dec_default_def

lemma u32_nat_round_trip [simp]: "n < 2 ^ 32 \<Longrightarrow> dec_u32_nat (J_Num (int n)) = Some n"
  by (simp add: dec_u32_nat_def)

lemma i32_codec_round_trip: "i32_fits n \<Longrightarrow> dec_i32 (J_Num n) = Some n"
  by (simp add: i32_fits_def)

interpretation i32_codec: codec J_Num dec_i32 i32_fits
  by unfold_locales (simp_all add: i32_codec_round_trip)

lemma exec_start_round_trip [simp]: "dec_exec_start (enc_exec_start e) = Some e"
  by (simp add: dec_exec_start_def enc_exec_start_def exec_start_fields_def decode_simps str_codec.omap_enc)

lemma unit_properties_round_trip: "props_fit p \<Longrightarrow> dec_unit_properties (enc_unit_properties p) = Some p"
  by (simp add: dec_unit_properties_def enc_unit_properties_def unit_properties_fields_def decode_simps
      str_codec.omap_enc props_fit_def i32_codec_round_trip)

lemma local_exit_round_trip: "exit_fits e \<Longrightarrow> dec_local_exit (enc_local_exit e) = Some e"
  by (simp add: dec_local_exit_def enc_local_exit_def decode_simps exit_fits_def i32_codec.option_round_trip)

interpretation exit_codec: codec enc_local_exit dec_local_exit exit_fits
  by unfold_locales (simp_all add: local_exit_round_trip, simp add: enc_local_exit_def)

lemma persisted_unit_round_trip: "persisted_fits u \<Longrightarrow> dec_persisted_unit (enc_persisted_unit u) = Some u"
  by (simp add: dec_persisted_unit_def enc_persisted_unit_def decode_simps persisted_fits_def
      unit_properties_round_trip i32_codec.option_round_trip exit_codec.option_round_trip)

interpretation unit_codec: codec enc_persisted_unit dec_persisted_unit persisted_fits
  by unfold_locales (simp_all add: persisted_unit_round_trip, simp add: enc_persisted_unit_def)

definition forget_child :: "local_unit \<Rightarrow> local_unit" where
  "forget_child u = u\<lparr>lu_child := None\<rparr>"

lemma unit_of_persisted_of: "unit_of_persisted (persisted_of u) = forget_child u"
  by (cases u) (simp add: unit_of_persisted_def persisted_of_def forget_child_def)

lemma bm_map_map: "bm_map f (bm_map g m) = bm_map (\<lambda>k v. f k (g k v)) m"
  by (simp add: bm_map_def split_def)

definition units_fit :: "local_units \<Rightarrow> bool" where
  "units_fit units \<longleftrightarrow> (\<forall>(name, u) \<in> set units. unit_fits u)"

lemma load_enc_units:
  assumes "bm_ok units" and "units_fit units"
  shows "load_units (Some (enc_units units)) = bm_map (\<lambda>_. forget_child) units"
proof -
  have "dec_map dec_persisted_unit (enc_units units) = Some (bm_map (\<lambda>_. persisted_of) units)"
    unfolding enc_units_def using assms
    by (intro unit_codec.map_round_trip) (simp, auto simp: units_fit_def bm_map_def)
  then show ?thesis by (simp add: load_units_def bm_map_map unit_of_persisted_of)
qed

text \<open>What is read from a file is an ordered map of units that can be written again.\<close>

lemma dec_u32_nat_Some: "dec_u32_nat v = Some n \<Longrightarrow> n < 2 ^ 32"
  by (auto simp: dec_u32_nat_def split: json.splits if_splits)

lemma dec_i32_fits: "dec_i32 v = Some n \<Longrightarrow> i32_fits n"
  using dec_i32_Some unfolding i32_fits_def .

lemma dec_option_Some: "dec_option dec v = Some w \<Longrightarrow> x \<in> set_option w \<Longrightarrow> dec v = Some x"
  by (cases v) auto

lemma dec_optional_all:
  assumes "dec_optional m k dec = Some w" and "\<And>v x. dec v = Some x \<Longrightarrow> P x"
  shows "\<forall>x \<in> set_option w. P x"
  using assms by (auto simp: dec_optional_def dec_default_def split: option.splits dest: dec_option_Some)

lemma dec_unit_properties_fit: "dec_unit_properties v = Some p \<Longrightarrow> props_fit p"
  by (cases v) (auto simp: dec_unit_properties_def dec_field_def bind_eq_Some_conv props_fit_def
      dest: dec_i32_fits dec_u64_Some dec_u32_nat_Some split: if_splits)

lemma dec_local_exit_fits: "dec_local_exit v = Some e \<Longrightarrow> exit_fits e"
  using dec_optional_all [where dec = dec_i32 and P = i32_fits, OF _ dec_i32_fits]
  by (cases v) (fastforce simp: dec_local_exit_def bind_eq_Some_conv exit_fits_def split: if_splits)+

lemma dec_persisted_unit_fits:
  assumes "dec_persisted_unit v = Some u"
  shows "persisted_fits u"
proof -
  obtain w g e props m where "dec_unit_properties w = Some props" "dec_optional m ''pgid'' dec_i32 = Some g"
    "dec_optional m ''last_status'' dec_local_exit = Some e"
    "u = \<lparr>pu_props = props, pu_pgid = g, pu_last_status = e\<rparr>"
    using assms by (cases v) (auto simp: dec_persisted_unit_def dec_field_def bind_eq_Some_conv split: if_splits)
  then show ?thesis
    using dec_optional_all [where dec = dec_i32 and P = i32_fits, OF _ dec_i32_fits]
      dec_optional_all [where dec = dec_local_exit and P = exit_fits, OF _ dec_local_exit_fits]
    by (auto simp: persisted_fits_def dec_unit_properties_fit)
qed

lemma set_bm_insert: "x \<in> set (bm_insert k v m) \<Longrightarrow> x = (k, v) \<or> x \<in> set m"
  by (induction k v m rule: bm_insert.induct) (auto split: if_splits)

lemma set_bm_extend: "x \<in> set (bm_extend m kvs) \<Longrightarrow> x \<in> set m \<union> set kvs"
  by (induction m kvs rule: bm_extend.induct) (auto dest!: set_bm_insert)

lemma omap_Some: "omap f xs = Some ys \<Longrightarrow> y \<in> set ys \<Longrightarrow> \<exists>x \<in> set xs. f x = Some y"
  by (induction xs arbitrary: ys) (auto simp: bind_eq_Some_conv)

lemma dec_map_Some:
  assumes "dec_map dec v = Some m" and "(k, x) \<in> set m"
  shows "\<exists>w. dec w = Some x"
  using assms by (cases v) (auto dest!: set_bm_extend omap_Some)

lemma load_units_good: "bm_ok (load_units stored) \<and> units_fit (load_units stored)"
proof (cases "Option.bind stored (dec_map dec_persisted_unit)")
  case None
  then show ?thesis by (simp add: load_units_def units_fit_def)
next
  case (Some persisted)
  obtain v where v: "dec_map dec_persisted_unit v = Some persisted"
    using Some by (auto simp: bind_eq_Some_conv)
  have ok: "bm_ok persisted" using v by (cases v) (auto intro: bm_ok_extend)
  have "persisted_fits u" if entry: "(name, u) \<in> set persisted" for name u
    using dec_map_Some [OF v entry] by (auto intro: dec_persisted_unit_fits)
  then have "units_fit (bm_map (\<lambda>_. unit_of_persisted) persisted)"
    by (auto simp: units_fit_def bm_map_def persisted_of_def unit_of_persisted_def persisted_fits_def)
  then show ?thesis using Some ok by (simp add: load_units_def)
qed

section \<open>Every interleaving keeps the file up to date\<close>

text \<open>
  The states a manager can get into, whatever calls are interleaved: each step is what happens under one
  lock, or a change of the system outside.
\<close>

inductive local_reach :: "'os unix \<Rightarrow> 'os local_manager \<Rightarrow> bool" for ux where
  opened: "local_reach ux (with_registry_path ux stored os)"
| taken: "local_reach ux lm \<Longrightarrow> local_reach ux (snd (take_unit ux name lm))"
| put: "local_reach ux lm \<Longrightarrow> unit_fits u \<Longrightarrow> local_reach ux (put_unit ux name u lm)"
| status: "local_reach ux lm \<Longrightarrow> local_reach ux (snd (unit_status ux name lm))"
| reaped: "local_reach ux lm \<Longrightarrow> local_reach ux (reaper_tick ux lm)"
| outside: "local_reach ux lm \<Longrightarrow> local_reach ux (lm\<lparr>lm_os := os\<rparr>)"

definition writable :: "'os unix \<Rightarrow> bool" where
  "writable ux \<longleftrightarrow> (\<forall>os. ux_write ux os \<and> ux_unlink ux os)"

definition good_units :: "local_units \<Rightarrow> bool" where
  "good_units units \<longleftrightarrow> bm_ok units \<and> units_fit units"

definition registry_current :: "'os local_manager \<Rightarrow> bool" where
  "registry_current lm \<longleftrightarrow>
     good_units (lm_units lm) \<and> load_units (lm_file lm) = bm_map (\<lambda>_. forget_child) (lm_units lm)"

lemma load_units_None [simp]: "load_units None = []"
  by (simp add: load_units_def)

lemma persist_fields [simp]:
  "lm_units (persist_units ux lm) = lm_units lm"
  "lm_os (persist_units ux lm) = lm_os lm"
  by (simp_all add: persist_units_def)

lemma persist_current: "writable ux \<Longrightarrow> good_units (lm_units lm) \<Longrightarrow> registry_current (persist_units ux lm)"
  by (auto simp: persist_units_def registry_current_def writable_def good_units_def load_enc_units bm_map_def)

lemma good_remove [simp]: "good_units units \<Longrightarrow> good_units (bm_remove name units)"
  by (auto simp: good_units_def units_fit_def bm_remove_def bm_ok_filter)

lemma good_insert [simp]: "good_units units \<Longrightarrow> unit_fits u \<Longrightarrow> good_units (bm_insert name u units)"
  by (auto simp: good_units_def units_fit_def dest!: set_bm_insert)

lemma good_retain [simp]: "good_units units \<Longrightarrow> good_units (bm_retain p units)"
  by (auto simp: good_units_def units_fit_def bm_retain_def bm_ok_filter)

lemma good_load [simp]: "good_units (load_units stored)"
  using load_units_good by (simp add: good_units_def)

lemma exit_of_fits [simp]: "exit_fits (exit_of status)"
proof (cases status)
  case (Exited n)
  then show ?thesis using uint_bounded [of n] order_trans [OF _ uint_ge_0 [of n], of "- (2 ^ 31)"]
    by (simp add: exit_fits_def i32_fits_def)
qed (simp add: exit_fits_def)

lemma unit_fits_exit [simp]: "unit_fits u \<Longrightarrow> unit_fits (u\<lparr>lu_last_status := Some (exit_of status), lu_child := c\<rparr>)"
  by (simp add: persisted_fits_def persisted_of_def)

lemma good_exit [simp]:
  "good_units units \<Longrightarrow>
   good_units (bm_update name (\<lambda>u. u\<lparr>lu_last_status := Some (exit_of status), lu_child := c\<rparr>) units)"
  unfolding good_units_def bm_ok_update by (auto simp: units_fit_def bm_update_def)

text \<open>The reaper: nothing has changed, or the units that stay are good.\<close>

lemma reap_unit_cases:
  assumes "reap_unit ux u os = (kept, changed, os1)"
  shows "(unit_fits u \<longrightarrow> (\<forall>v \<in> set_option kept. unit_fits v)) \<and> (\<not> changed \<longrightarrow> kept = Some u)"
  using assms by (auto simp: reap_unit_def split: option.splits sum.splits prod.splits if_splits)

lemma reap_units_keys: "set (bm_keys (fst (reap_units ux units os))) \<subseteq> set (bm_keys units)"
proof (induction ux units os rule: reap_units.induct)
  case (2 ux name u units os)
  obtain kept c os1 where r: "reap_unit ux u os = (kept, c, os1)" by (metis prod_cases3)
  have "set (bm_keys (fst (reap_units ux units os1))) \<subseteq> set (bm_keys units)"
    using 2 [OF r [symmetric] refl] by simp
  then show ?case by (auto simp: r split: prod.split option.split)
qed simp

lemma reap_units_good:
  assumes "reap_units ux units os = (units', changed, os')" and "good_units units"
  shows "good_units units' \<and> (\<not> changed \<longrightarrow> units' = units)"
  using assms
proof (induction ux units os arbitrary: units' changed os' rule: reap_units.induct)
  case (1 ux os)
  then show ?case by simp
next
  case (2 ux name u units os)
  obtain kept c os1 where r: "reap_unit ux u os = (kept, c, os1)" by (metis prod_cases3)
  obtain us d os2 where rs: "reap_units ux units os1 = (us, d, os2)" by (metis prod_cases3)
  have good: "good_units units" "unit_fits u"
    using 2(3) by (auto simp: good_units_def units_fit_def bm_ok_Cons)
  have us: "good_units us \<and> (\<not> d \<longrightarrow> us = units)"
    using 2(1) [OF r [symmetric] refl] rs good(1) by simp
  have "set (bm_keys us) \<subseteq> set (bm_keys units)"
    using reap_units_keys [of ux units os1] rs by simp
  then have "bm_ok ((name, v) # us)" for v
    using 2(3) us by (auto simp: good_units_def bm_ok_Cons)
  then show ?case
    using 2(2) us good reap_unit_cases [OF r] by (auto simp: r rs good_units_def units_fit_def split: option.splits)
qed

lemma current_os [simp]: "registry_current (lm\<lparr>lm_os := os\<rparr>) = registry_current lm"
  by (simp add: registry_current_def)

lemma current_good: "registry_current lm \<Longrightarrow> good_units (lm_units lm)"
  by (simp add: registry_current_def)

lemma reach_registry_current:
  assumes "local_reach ux lm" and "writable ux"
  shows "registry_current lm"
  using assms
proof (induction rule: local_reach.induct)
  case (opened stored os)
  then show ?case by (simp add: with_registry_path_def persist_current)
next
  case (taken lm name)
  then show ?case by (simp add: take_unit_def persist_current current_good)
next
  case (put lm u name)
  then show ?case by (simp add: put_unit_def persist_current current_good)
next
  case (status lm name)
  then have "good_units (lm_units lm)" "registry_current lm" by (simp_all add: registry_current_def)
  with status(3) show ?case
    by (auto simp: unit_status_def settled_status_def Let_def persist_current split: option.split sum.split prod.split)
next
  case (reaped lm)
  obtain units' changed os' where r: "reap_units ux (lm_units lm) (lm_os lm) = (units', changed, os')"
    by (metis prod_cases3)
  have good: "good_units units' \<and> (\<not> changed \<longrightarrow> units' = lm_units lm)"
    using reap_units_good [OF r] reaped by (simp add: current_good)
  then have "registry_current (lm\<lparr>lm_units := units', lm_os := os'\<rparr>)" if "\<not> changed"
    using that reaped by (simp add: registry_current_def)
  with good show ?case using reaped by (simp add: reaper_tick_def r Let_def persist_current)
next
  case (outside lm os)
  then show ?case by simp
qed

section \<open>The manager as the set of its units\<close>

text \<open>
  The contract of a unit manager: a command changes the set of known units as its outcome says, and
  nothing else. A start or restart that fails loses the unit, a stop loses it whatever its outcome.
\<close>

fun command_units :: "unit_command \<Rightarrow> unit result \<Rightarrow> string set \<Rightarrow> string set" where
  "command_units (Unit_Start name props) (Inr _) S = insert name S"
| "command_units (Unit_Start name props) (Inl _) S = S - {name}"
| "command_units (Unit_Restart name) (Inr _) S = S"
| "command_units (Unit_Restart name) (Inl _) S = S - {name}"
| "command_units (Unit_Stop name) _ S = S - {name}"
| "command_units (Unit_Kill name signal) _ S = S - {name}"

fun units_after :: "(unit_command \<times> unit result) list \<Rightarrow> string set \<Rightarrow> string set" where
  "units_after [] S = S"
| "units_after ((c, r) # rest) S = units_after rest (command_units c r S)"

fun run_commands :: "(unit_command \<Rightarrow> 's \<Rightarrow> unit result \<times> 's) \<Rightarrow> unit_command list \<Rightarrow> 's \<Rightarrow> unit result list \<times> 's" where
  "run_commands call [] s = ([], s)"
| "run_commands call (c # cs) s =
     (let (r, s1) = call c s; (rs, s2) = run_commands call cs s1 in (r # rs, s2))"

fun starts_unit :: "string \<Rightarrow> unit_command \<Rightarrow> bool" where
  "starts_unit name (Unit_Start name' props) \<longleftrightarrow> name' = name"
| "starts_unit name _ \<longleftrightarrow> False"

lemma units_after_not_started:
  "list_all (\<lambda>(c, r). \<not> starts_unit name c) crs \<Longrightarrow> name \<notin> S \<Longrightarrow> name \<notin> units_after crs S"
proof (induction crs S rule: units_after.induct)
  case (2 c r rest S)
  then show ?case by (cases c; cases r) auto
qed simp

lemma run_commands_Cons [simp]:
  "fst (run_commands call (c # cs) s) = fst (call c s) # fst (run_commands call cs (snd (call c s)))"
  "snd (run_commands call (c # cs) s) = snd (run_commands call cs (snd (call c s)))"
  by (simp_all add: split_def Let_def)

declare run_commands.simps(2) [simp del]

locale unit_manager =
  fixes call :: "unit_command \<Rightarrow> 's \<Rightarrow> unit result \<times> 's" and units :: "'s \<Rightarrow> string set"
  assumes call_units: "units (snd (call c s)) = command_units c (fst (call c s)) (units s)"
begin

lemma run_units:
  "units (snd (run_commands call cs s)) = units_after (zip cs (fst (run_commands call cs s))) (units s)"
proof (induction cs arbitrary: s)
  case (Cons c cs)
  then show ?case using call_units [of c s] by simp
qed simp

lemma stopped_stays_stopped:
  assumes "list_all (\<lambda>c. \<not> starts_unit name c) cs"
  shows "name \<notin> units (snd (run_commands call (Unit_Stop name # cs) s))"
proof -
  have "list_all (\<lambda>(c, r). \<not> starts_unit name c) (zip cs rs)" for rs
    using assms by (auto simp: list_all_iff dest: set_zip_leftD)
  then have "name \<notin> units_after (zip cs rs) (units s - {name})" for rs
    by (rule units_after_not_started) simp
  then show ?thesis using call_units [of "Unit_Stop name" s] by (simp add: run_units)
qed

end

abbreviation known_units :: "'os local_manager \<Rightarrow> string set" where
  "known_units lm \<equiv> dom (map_of (lm_units lm))"

lemma take_unit_facts [simp]:
  "fst (take_unit ux name lm) = map_of (lm_units lm) name"
  "lm_units (snd (take_unit ux name lm)) = bm_remove name (lm_units lm)"
  "lm_os (snd (take_unit ux name lm)) = lm_os lm"
  by (simp_all add: take_unit_def)

lemma put_unit_facts [simp]:
  "lm_units (put_unit ux name u lm) = bm_insert name u (lm_units lm)"
  "lm_os (put_unit ux name u lm) = lm_os lm"
  by (simp_all add: put_unit_def)

lemma stop_taken_units: "stop_taken ux taken signal lm = (r, lm') \<Longrightarrow> lm_units lm' = lm_units lm"
  by (auto simp: stop_taken_def split: option.splits prod.splits)

lemma spawn_unit_units:
  "spawn_unit ux name props lm = (Inr (), lm') \<Longrightarrow> known_units lm' = insert name (known_units lm)"
  "spawn_unit ux name props lm = (Inl e, lm') \<Longrightarrow> lm_units lm' = lm_units lm"
  by (auto simp: spawn_unit_def split: prod.splits sum.splits if_splits)

lemma stop_taken_known:
  "known_units (snd (stop_taken ux t s (snd (take_unit ux n lm)))) = known_units lm - {n}"
  using stop_taken_units [of ux t s "snd (take_unit ux n lm)"]
  by (cases "stop_taken ux t s (snd (take_unit ux n lm))") simp

lemma stop_then_spawn:
  assumes "(case stop_taken ux t s (snd (take_unit ux n lm)) of
              (Inl e, lm2) \<Rightarrow> (Inl e, lm2) | (Inr _, lm2) \<Rightarrow> spawn_unit ux n p lm2) = (r, lm')"
  shows "known_units lm' = (case r of Inl _ \<Rightarrow> known_units lm - {n} | Inr _ \<Rightarrow> insert n (known_units lm))"
proof -
  obtain q lm2 where stop: "stop_taken ux t s (snd (take_unit ux n lm)) = (q, lm2)" by fastforce
  have known: "known_units lm2 = known_units lm - {n}" using stop_taken_known [of ux t s n lm] stop by simp
  show ?thesis
  proof (cases q)
    case (Inl e)
    then have "r = Inl e \<and> lm' = lm2" using assms stop by simp
    then show ?thesis using known by simp
  next
    case (Inr x)
    then have spawn: "spawn_unit ux n p lm2 = (r, lm')" using assms stop by simp
    show ?thesis
    proof (cases r)
      case (Inl e)
      then show ?thesis using spawn_unit_units(2) [of ux n p lm2 e lm'] spawn known by simp
    next
      case (Inr y)
      then show ?thesis using spawn_unit_units(1) [of ux n p lm2 lm'] spawn known by simp
    qed
  qed
qed

lemma taken_pair:
  obtains lm1 where "take_unit ux n lm = (map_of (lm_units lm) n, lm1)" and "snd (take_unit ux n lm) = lm1"
  by (metis prod.collapse take_unit_facts(1))

lemma local_call_units:
  "known_units (snd (local_call ux c lm)) = command_units c (fst (local_call ux c lm)) (known_units lm)"
proof (cases c)
  case (Unit_Start n p)
  obtain lm1 where taken: "take_unit ux n lm = (map_of (lm_units lm) n, lm1)" "snd (take_unit ux n lm) = lm1"
    by (rule taken_pair)
  obtain r lm' where call: "start_transient_service ux n p lm = (r, lm')" by fastforce
  then have "known_units lm' = (case r of Inl _ \<Rightarrow> known_units lm - {n} | Inr _ \<Rightarrow> insert n (known_units lm))"
    by (intro stop_then_spawn [where t = "map_of (lm_units lm) n" and s = sigterm and ux = ux and p = p])
      (simp add: start_transient_service_def taken)
  then show ?thesis by (cases r) (simp_all add: Unit_Start call)
next
  case (Unit_Stop n)
  obtain lm1 where taken: "take_unit ux n lm = (map_of (lm_units lm) n, lm1)" "snd (take_unit ux n lm) = lm1"
    by (rule taken_pair)
  show ?thesis using stop_taken_known [of ux "map_of (lm_units lm) n" sigterm n lm] by (simp add: Unit_Stop stop_unit_def taken)
next
  case (Unit_Restart n)
  obtain lm1 where taken: "take_unit ux n lm = (map_of (lm_units lm) n, lm1)" "snd (take_unit ux n lm) = lm1"
    by (rule taken_pair)
  obtain r lm' where call: "restart_unit ux n lm = (r, lm')" by fastforce
  show ?thesis
  proof (cases "map_of (lm_units lm) n")
    case None
    then have "r = Inr () \<and> known_units lm' = known_units lm"
      using call taken take_unit_facts(2) [of ux n lm] by (auto simp: restart_unit_def)
    then show ?thesis by (simp add: Unit_Restart call)
  next
    case (Some u)
    then have "known_units lm' = (case r of Inl _ \<Rightarrow> known_units lm - {n} | Inr _ \<Rightarrow> insert n (known_units lm))"
      using call by (intro stop_then_spawn [where t = "Some u" and s = sigterm and ux = ux and p = "lu_props u"])
        (simp add: restart_unit_def taken)
    moreover have "insert n (known_units lm) = known_units lm" using Some by auto
    ultimately show ?thesis by (cases r) (simp_all add: Unit_Restart call)
  qed
next
  case (Unit_Kill n s)
  obtain lm1 where taken: "take_unit ux n lm = (map_of (lm_units lm) n, lm1)" "snd (take_unit ux n lm) = lm1"
    by (rule taken_pair)
  show ?thesis using stop_taken_known [of ux "map_of (lm_units lm) n" s n lm] by (simp add: Unit_Kill kill_unit_def taken)
qed

interpretation local_manager: unit_manager "local_call ux" known_units for ux
  by unfold_locales (rule local_call_units)

section \<open>Waiting and stopping\<close>

text \<open>The fuel of the wait is enough when a sleep of 50 ms takes at least 50 ms.\<close>

lemma wait_fuel:
  assumes "\<And>os. ux_now ux os + 50 \<le> ux_now ux (ux_sleep ux 50 os)" and "deadline < ux_now ux os + 50 * n"
    and "n \<le> k"
  shows "wait_for_process_group_exit ux k pgid deadline os = wait_for_process_group_exit ux n pgid deadline os"
  using assms(2,3)
proof (induction n arbitrary: k os)
  case 0
  then show ?case by (cases k) auto
next
  case (Suc n)
  then obtain j where k: "k = Suc j" "n \<le> j" by (cases k) auto
  have "deadline < ux_now ux (ux_sleep ux 50 os) + 50 * n" using Suc.prems(1) assms(1) [of os] by simp
  then show ?case using Suc.IH [of "ux_sleep ux 50 os" j] k by simp
qed

lemma wait_group_fuel:
  assumes "\<And>os. ux_now ux os + 50 \<le> ux_now ux (ux_sleep ux 50 os)" and "polls ms \<le> k"
  shows "wait_for_process_group_exit ux k pgid (ux_now ux os + ms) os = wait_group ux ms pgid os"
  unfolding wait_group_def
proof (rule wait_fuel [OF assms(1) _ assms(2)])
  have "ms < 50 * (ms div 50 + 1)" using div_mult_mod_eq [of ms 50] by simp
  then show "ux_now ux os + ms < ux_now ux os + 50 * polls ms" by (simp add: polls_def)
qed

lemma wait_answer:
  "wait_for_process_group_exit ux n pgid deadline os = (gone, os') \<Longrightarrow> gone \<longleftrightarrow> \<not> process_group_exists ux pgid os'"
  by (induction ux n pgid deadline os rule: wait_for_process_group_exit.induct) (auto split: if_splits)

lemma wait_gone:
  "\<not> process_group_exists ux pgid os \<Longrightarrow> wait_for_process_group_exit ux n pgid deadline os = (True, os)"
  by (cases n) auto

definition kills_groups :: "'os unix \<Rightarrow> bool" where
  "kills_groups ux \<longleftrightarrow> (\<forall>pgid os. \<not> process_group_exists ux pgid (ux_sleep ux 50 (ux_kill ux (- pgid) sigkill os)))"

lemma stop_group_gone:
  assumes "kills_groups ux" and "lu_pgid u = Some pgid"
  shows "\<not> process_group_exists ux pgid (stop_group ux u pgid os)"
proof -
  obtain gone os1 where w: "wait_group ux 3000 pgid os = (gone, os1)" by fastforce
  define os2 where "os2 = ux_kill ux (- pgid) sigkill os1"
  have dead: "\<not> process_group_exists ux pgid (ux_sleep ux 50 os2)"
    using assms(1) by (simp add: kills_groups_def os2_def)
  have "\<not> process_group_exists ux pgid (snd (wait_for_process_group_exit ux (Suc n) pgid (ux_now ux os2 + 1000) os2))" for n
    using dead by (simp add: wait_gone)
  from this [of 20] have "\<not> process_group_exists ux pgid (snd (wait_group ux 1000 pgid os2))"
    by (simp add: wait_group_def polls_def del: wait_for_process_group_exit.simps)
  then show ?thesis
    using w wait_answer [of ux "polls 3000" pgid "ux_now ux os + 3000" os gone os1] assms(2)
    by (auto simp: stop_group_def signal_unit_def os2_def wait_group_def)
qed

section \<open>Properties\<close>

lemma restored_units:
  assumes "local_reach ux lm" and "writable ux"
  shows "lm_units (with_registry_path ux (lm_file lm) os) =
      bm_retain (\<lambda>_. should_keep_loaded_unit ux os) (bm_map (\<lambda>_. forget_child) (lm_units lm))"
    and "registry_current (with_registry_path ux (lm_file lm) os)"
proof -
  show "registry_current (with_registry_path ux (lm_file lm) os)"
    by (rule reach_registry_current [OF local_reach.opened assms(2)])
  show "lm_units (with_registry_path ux (lm_file lm) os) =
      bm_retain (\<lambda>_. should_keep_loaded_unit ux os) (bm_map (\<lambda>_. forget_child) (lm_units lm))"
    using reach_registry_current [OF assms] by (simp add: with_registry_path_def registry_current_def)
qed

text \<open>
  C25. However calls to the local manager are interleaved, its registry file is current as long as writes
  succeed: a manager opened on it later, in whatever state the system is then, knows exactly the units of
  which a process is left, or that exited and remain, with the properties, groups and exit statuses they
  had.
\<close>

theorem local_units_restored:
  assumes "local_reach ux lm" and "writable ux"
  shows "lm_units (with_registry_path ux (lm_file lm) os) =
      bm_retain (\<lambda>_. should_keep_loaded_unit ux os) (bm_map (\<lambda>_. forget_child) (lm_units lm)) \<and>
    registry_current (with_registry_path ux (lm_file lm) os)"
  using restored_units [OF assms] by simp

text \<open>
  After any sequence of starts, stops, restarts and kills, the units the local manager knows are those
  the outcomes of the commands say, and a unit that was stopped is not known again unless it is started.
\<close>

theorem local_units_follow_commands:
  "known_units (snd (run_commands (local_call ux) cs lm)) =
     units_after (zip cs (fst (run_commands (local_call ux) cs lm))) (known_units lm) \<and>
   (list_all (\<lambda>c. \<not> starts_unit name c) cs \<longrightarrow>
     name \<notin> known_units (snd (run_commands (local_call ux) (Unit_Stop name # cs) lm)))"
  by (intro conjI impI local_manager.run_units local_manager.stopped_stays_stopped)

text \<open>
  Stopping a unit that was taken over from the registry file succeeds and ends its process group: when
  it has not ended within 3 s of SIGTERM it gets SIGKILL. Other units stay as they are.
\<close>

theorem stopped_group_is_gone:
  assumes "kills_groups ux" and "map_of (lm_units lm) name = Some u" and "lu_child u = None"
    and "lu_pgid u = Some pgid" and "stop_unit ux name lm = (r, lm')"
  shows "r = Inr () \<and> \<not> process_group_exists ux pgid (lm_os lm') \<and>
    map_of (lm_units lm') = (map_of (lm_units lm))(name := None)"
proof -
  define lm1 where "lm1 = snd (take_unit ux name lm)"
  have taken: "take_unit ux name lm = (Some u, lm1)"
    using assms(2) by (simp add: lm1_def prod_eq_iff)
  have units: "lm_units lm1 = bm_remove name (lm_units lm)" by (simp add: lm1_def)
  have "(r, lm') = (Inr (), lm1\<lparr>lm_os := stop_group ux u pgid (signal_unit ux u sigterm (lm_os lm1))\<rparr>)"
    using assms(3-5) by (simp add: stop_unit_def taken stop_taken_def stop_and_reap_def)
  then show ?thesis
    using stop_group_gone [OF assms(1,4)] units by simp
qed

text \<open>
  A restart that cannot spawn the process loses the unit: the error is reported once, then the unit has
  no status any more and further restarts succeed without starting anything.
\<close>

theorem failed_restart_forgets_unit:
  assumes "map_of (lm_units lm) name = Some u" and "restart_unit ux name lm = (Inl e, lm')"
  shows "unit_status ux name lm' = (Inr None, lm')"
    and "restart_unit ux name lm' = (Inr (), persist_units ux (lm'\<lparr>lm_units := bm_remove name (lm_units lm')\<rparr>))"
    and "bm_ok (lm_units lm') \<Longrightarrow> lm_units (snd (restart_unit ux name lm')) = lm_units lm'"
proof -
  have gone: "map_of (lm_units lm') name = None"
    using local_call_units [of ux "Unit_Restart name" lm] assms(2) by auto
  then show "unit_status ux name lm' = (Inr None, lm')" by (simp add: unit_status_def)
  show restart: "restart_unit ux name lm' = (Inr (), persist_units ux (lm'\<lparr>lm_units := bm_remove name (lm_units lm')\<rparr>))"
    using gone by (simp add: restart_unit_def take_unit_def)
  show "lm_units (snd (restart_unit ux name lm')) = lm_units lm'" if ok: "bm_ok (lm_units lm')"
    using gone ok by (simp add: restart bm_ok_eqI bm_ok_remove fun_upd_idem)
qed

text \<open>
  The lock is released between taking the old unit and putting the new one: when two starts of a name
  overlap, both spawn a process, and the group of the first is left running without a unit.
\<close>

definition overlapping_starts ::
  "'os unix \<Rightarrow> string \<Rightarrow> unit_properties \<Rightarrow> unit_properties \<Rightarrow> 'os local_manager \<Rightarrow> 'os local_manager" where
  "overlapping_starts ux name p q lm =
     (let (taken1, lm1) = take_unit ux name lm;
          (taken2, lm2) = take_unit ux name lm1;
          (_, lm3) = stop_taken ux taken1 sigterm lm2;
          (_, lm4) = spawn_unit ux name p lm3;
          (_, lm5) = stop_taken ux taken2 sigterm lm4 in
      snd (spawn_unit ux name q lm5))"

theorem overlapping_starts_leak:
  assumes new: "name \<notin> known_units lm"
    and first: "spawn_child ux p (lm_os lm) = (Inr c1, os1)" "child_group ux c1 os1 = Some g1"
    and second: "spawn_child ux q os1 = (Inr c2, os2)" "child_group ux c2 os2 = Some g2"
    and running: "process_group_exists ux g1 os2" "g1 \<noteq> g2"
    and others: "\<And>n u. map_of (lm_units lm) n = Some u \<Longrightarrow> lu_pgid u \<noteq> Some g1"
  shows "process_group_exists ux g1 (lm_os (overlapping_starts ux name p q lm))"
    and "map_of (lm_units (overlapping_starts ux name p q lm)) n = Some u \<Longrightarrow> lu_pgid u \<noteq> Some g1"
proof -
  define lm1 where "lm1 = snd (take_unit ux name lm)"
  define lm2 where "lm2 = snd (take_unit ux name lm1)"
  have none: "map_of (lm_units lm) name = None" using new by auto
  have taken: "take_unit ux name lm = (None, lm1)" "take_unit ux name lm1 = (None, lm2)"
    using none by (simp_all add: prod_eq_iff lm1_def lm2_def)
  have lm2: "lm_os lm2 = lm_os lm" "lm_units lm2 = bm_remove name (bm_remove name (lm_units lm))"
    by (simp_all add: lm1_def lm2_def)
  define u1 where "u1 = \<lparr>lu_props = p, lu_child = Some c1, lu_pgid = Some g1, lu_last_status = None\<rparr>"
  define u2 where "u2 = \<lparr>lu_props = q, lu_child = Some c2, lu_pgid = Some g2, lu_last_status = None\<rparr>"
  have "overlapping_starts ux name p q lm =
      put_unit ux name u2 ((put_unit ux name u1 (lm2\<lparr>lm_os := os1\<rparr>))\<lparr>lm_os := os2\<rparr>)"
    using first second
    by (simp add: overlapping_starts_def taken stop_taken_def spawn_unit_def lm2 u1_def u2_def)
  then show "process_group_exists ux g1 (lm_os (overlapping_starts ux name p q lm))"
    and "map_of (lm_units (overlapping_starts ux name p q lm)) n = Some u \<Longrightarrow> lu_pgid u \<noteq> Some g1"
    using running others by (auto simp: lm2 u2_def split: if_splits)
qed

section \<open>A small machine\<close>

text \<open>
  Processes are pairs of a group and whether they ignore SIGTERM; the leader of a group is waited for. A
  program named \<open>fork\<close> has a second process that ignores SIGTERM, and only \<open>missing\<close> cannot be
  started.
\<close>

record machine =
  mc_leaders :: "int list"
  mc_stubborn :: "int list"
  mc_clock :: nat
  mc_next :: nat

definition example_unix :: "machine unix" where
  "example_unix =
     \<lparr>ux_kill = (\<lambda>pid signal m. m\<lparr>mc_leaders := filter (\<lambda>g. g \<noteq> - pid) (mc_leaders m),
          mc_stubborn := (if signal = sigkill then filter (\<lambda>g. g \<noteq> - pid) (mc_stubborn m) else mc_stubborn m)\<rparr>),
      ux_probe = (\<lambda>pid m. if - pid \<in> set (mc_leaders m) \<union> set (mc_stubborn m) then None else Some esrch),
      ux_spawn = (\<lambda>c m. if sc_program c = ''missing'' then (Inl ''no such file'', m)
        else (Inr (mc_next m), m\<lparr>mc_leaders := int (mc_next m) # mc_leaders m,
               mc_stubborn := (if sc_program c = ''fork'' then int (mc_next m) # mc_stubborn m else mc_stubborn m),
               mc_next := mc_next m + 1\<rparr>)),
      ux_child_id = (\<lambda>c m. Some (word_of_nat c)),
      ux_try_wait = (\<lambda>c m. (Inr (if int c \<in> set (mc_leaders m) then None else Some (Signaled 15)), m)),
      ux_wait = (\<lambda>c ms m. if int c \<in> set (mc_leaders m) then (None, m\<lparr>mc_clock := mc_clock m + ms\<rparr>)
        else (Some (Inr (Signaled 15)), m)),
      ux_now = mc_clock, ux_sleep = (\<lambda>ms m. m\<lparr>mc_clock := mc_clock m + ms\<rparr>),
      ux_write = (\<lambda>_. True), ux_unlink = (\<lambda>_. True)\<rparr>"

definition example_machine :: machine where
  "example_machine = \<lparr>mc_leaders = [], mc_stubborn = [], mc_clock = 0, mc_next = 100\<rparr>"

definition example_props :: "string \<Rightarrow> unit_properties" where
  "example_props program = new_unit_properties ''web'' ''/srv'' [''PORT=80'']
     \<lparr>ex_path = program, ex_argv = [program], ex_ignore_failure = False\<rparr>"

definition fresh_manager :: "machine local_manager" where
  "fresh_manager = with_registry_path example_unix None example_machine"

definition running_manager :: "machine local_manager" where
  "running_manager = snd (start_transient_service example_unix ''web'' (example_props ''fork'') fresh_manager)"

definition reopened_manager :: "machine local_manager" where
  "reopened_manager = with_registry_path example_unix (lm_file running_manager) (lm_os running_manager)"

definition example_unit :: local_unit where
  "example_unit = \<lparr>lu_props = example_props ''fork'', lu_child = Some 100, lu_pgid = Some 100, lu_last_status = None\<rparr>"

lemma fresh_manager_fields [simp]:
  "lm_units fresh_manager = []" "lm_os fresh_manager = example_machine"
  by (simp_all add: fresh_manager_def with_registry_path_def bm_retain_def)

lemma running_manager_fields [simp]:
  "lm_units running_manager = [(''web'', example_unit)]"
  "lm_os running_manager = \<lparr>mc_leaders = [100], mc_stubborn = [100], mc_clock = 0, mc_next = 101\<rparr>"
  by (simp_all add: running_manager_def start_transient_service_def take_unit_def stop_taken_def spawn_unit_def
      spawn_child_def put_unit_def child_group_def example_unix_def example_machine_def example_props_def
      new_unit_properties_def example_unit_def bm_remove_def)

text \<open>
  Stopping a unit the manager started itself returns as soon as the leader of its group has exited:
  another process of the group that ignores SIGTERM keeps running, and no unit knows it any more.
\<close>

theorem stop_leaves_group_members:
  "map_option lu_pgid (map_of (lm_units running_manager) ''web'') = Some (Some 100)"
  "fst (stop_unit example_unix ''web'' running_manager) = Inr ()"
  "lm_units (snd (stop_unit example_unix ''web'' running_manager)) = []"
  "process_group_exists example_unix 100 (lm_os (snd (stop_unit example_unix ''web'' running_manager)))"
  by (simp_all add: stop_unit_def take_unit_def stop_taken_def stop_and_reap_def stop_child_def signal_unit_def
      example_unit_def example_unix_def process_group_exists_def bm_remove_def)

lemma example_writable [simp]: "writable example_unix"
  by (simp add: writable_def example_unix_def)

lemma example_kills: "kills_groups example_unix"
  by (simp add: kills_groups_def process_group_exists_def example_unix_def)

lemma example_unit_fits: "unit_fits example_unit"
  by (simp add: persisted_fits_def persisted_of_def example_unit_def example_props_def new_unit_properties_def
      props_fit_def i32_fits_def)

lemma running_reach: "local_reach example_unix running_manager"
proof -
  have "running_manager = put_unit example_unix ''web'' example_unit
      ((snd (take_unit example_unix ''web'' fresh_manager))\<lparr>lm_os := lm_os running_manager\<rparr>)"
    unfolding running_manager_fields
    by (simp add: running_manager_def start_transient_service_def take_unit_def stop_taken_def spawn_unit_def
        spawn_child_def child_group_def example_unix_def example_machine_def example_props_def
        new_unit_properties_def example_unit_def)
  also have "local_reach example_unix \<dots>"
    unfolding fresh_manager_def
    by (intro local_reach.put local_reach.outside local_reach.taken local_reach.opened example_unit_fits)
  finally show ?thesis .
qed

lemma reopened_units: "lm_units reopened_manager = [(''web'', forget_child example_unit)]"
  using restored_units(1) [OF running_reach example_writable, of "lm_os running_manager"]
  by (simp add: reopened_manager_def bm_map_def bm_retain_def should_keep_loaded_unit_def forget_child_def
      example_unit_def process_group_exists_def example_unix_def)

lemma example_groups [simp]:
  "process_group_exists example_unix 100 \<lparr>mc_leaders = [100], mc_stubborn = [100], mc_clock = 0, mc_next = 101\<rparr>"
  "\<not> process_group_exists example_unix 100 example_machine"
  by (simp_all add: process_group_exists_def example_unix_def example_machine_def)

theorem local_units_restored_witness:
  "local_reach example_unix running_manager \<and> writable example_unix \<and>
   lm_units (with_registry_path example_unix (lm_file running_manager) (lm_os running_manager)) =
     [(''web'', forget_child example_unit)] \<and>
   lm_units (with_registry_path example_unix (lm_file running_manager) example_machine) = []"
  using running_reach local_units_restored [OF running_reach example_writable]
  by (simp add: bm_map_def bm_retain_def should_keep_loaded_unit_def forget_child_def example_unit_def
      example_props_def new_unit_properties_def)

theorem local_units_follow_commands_witness:
  "list_all (\<lambda>c. \<not> starts_unit ''web'' c) [Unit_Restart ''web'', Unit_Kill ''db'' 9] \<and>
   ''web'' \<in> known_units running_manager \<and>
   ''web'' \<notin> known_units (snd (run_commands (local_call example_unix)
     (Unit_Stop ''web'' # [Unit_Restart ''web'', Unit_Kill ''db'' 9]) running_manager))"
  using local_units_follow_commands [of example_unix "[Unit_Restart ''web'', Unit_Kill ''db'' 9]" running_manager "''web''"]
  by simp

theorem stopped_group_is_gone_witness:
  "kills_groups example_unix \<and> map_of (lm_units reopened_manager) ''web'' = Some (forget_child example_unit) \<and>
   process_group_exists example_unix 100 (lm_os running_manager) \<and>
   \<not> process_group_exists example_unix 100 (lm_os (snd (stop_unit example_unix ''web'' reopened_manager)))"
  using stopped_group_is_gone [OF example_kills, of reopened_manager "''web''" "forget_child example_unit" 100
      "fst (stop_unit example_unix ''web'' reopened_manager)" "snd (stop_unit example_unix ''web'' reopened_manager)"]
  by (simp add: example_kills reopened_units) (simp add: forget_child_def example_unit_def)

definition moved_manager :: "machine local_manager" where
  "moved_manager = \<lparr>lm_units = [(''web'', \<lparr>lu_props = example_props ''missing'', lu_child = None, lu_pgid = None,
     lu_last_status = None\<rparr>)], lm_file = None, lm_os = example_machine\<rparr>"

theorem failed_restart_forgets_unit_witness:
  "fst (restart_unit example_unix ''web'' moved_manager) = Inl ''spawn local service'' \<and>
   map_of (lm_units moved_manager) ''web'' \<noteq> None \<and>
   fst (unit_status example_unix ''web'' (snd (restart_unit example_unix ''web'' moved_manager))) = Inr None \<and>
   fst (restart_unit example_unix ''web'' (snd (restart_unit example_unix ''web'' moved_manager))) = Inr ()"
proof -
  have fails: "fst (restart_unit example_unix ''web'' moved_manager) = Inl ''spawn local service''"
    by (simp add: restart_unit_def take_unit_def moved_manager_def stop_taken_def stop_and_reap_def signal_unit_def
        spawn_unit_def spawn_child_def example_unix_def example_props_def new_unit_properties_def)
  then have call: "restart_unit example_unix ''web'' moved_manager =
      (Inl ''spawn local service'', snd (restart_unit example_unix ''web'' moved_manager))"
    by (simp add: prod_eq_iff)
  show ?thesis
    using fails failed_restart_forgets_unit(1,2) [OF _ call] by (simp add: moved_manager_def)
qed

theorem overlapping_starts_leak_witness:
  "process_group_exists example_unix 100
     (lm_os (overlapping_starts example_unix ''web'' (example_props ''sh'') (example_props ''sh'') fresh_manager)) \<and>
   map_option lu_pgid (map_of (lm_units
     (overlapping_starts example_unix ''web'' (example_props ''sh'') (example_props ''sh'') fresh_manager)) ''web'') \<noteq>
     Some (Some 100)"
proof -
  define os1 where "os1 = \<lparr>mc_leaders = [100], mc_stubborn = [], mc_clock = 0, mc_next = 101\<rparr>"
  define os2 where "os2 = \<lparr>mc_leaders = [101, 100], mc_stubborn = [], mc_clock = 0, mc_next = 102\<rparr>"
  have spawn: "spawn_child example_unix (example_props ''sh'') (lm_os fresh_manager) = (Inr 100, os1)"
    "spawn_child example_unix (example_props ''sh'') os1 = (Inr 101, os2)"
    by (simp_all add: spawn_child_def example_unix_def example_machine_def example_props_def
        new_unit_properties_def os1_def os2_def)
  have groups: "child_group example_unix 100 os1 = Some 100" "child_group example_unix 101 os2 = Some 101"
    "process_group_exists example_unix 100 os2"
    by (simp_all add: child_group_def example_unix_def os2_def process_group_exists_def)
  have none: "''web'' \<notin> known_units fresh_manager" "(100::int) \<noteq> 101"
    "\<And>n u. map_of (lm_units fresh_manager) n = Some u \<Longrightarrow> lu_pgid u \<noteq> Some 100" by simp_all
  have "map_of (lm_units (overlapping_starts example_unix ''web'' (example_props ''sh'') (example_props ''sh'')
      fresh_manager)) ''web'' = Some u \<Longrightarrow> lu_pgid u \<noteq> Some 100" for u
    by (rule overlapping_starts_leak(2) [OF none(1) spawn(1) groups(1) spawn(2) groups(2,3) none(2,3)])
  then show ?thesis
    using overlapping_starts_leak(1) [OF none(1) spawn(1) groups(1) spawn(2) groups(2,3) none(2,3)]
    by (cases "map_of (lm_units (overlapping_starts example_unix ''web'' (example_props ''sh'') (example_props ''sh'')
      fresh_manager)) ''web''") simp_all
qed

end
