(* ===== verification/Utf8.thy ===== *)
theory Utf8
  imports Prelude
begin

text \<open>
  Bytes and UTF-8 as the standard library of Rust treats them: the longest valid prefix of a byte string
  (\<open>Utf8Error::valid_up_to\<close>), and \<open>String::from_utf8_lossy\<close>, which replaces every maximal
  invalid piece by the encoding of U+FFFD. Used where the sources count bytes.
\<close>

type_synonym bytes = "8 word list"

abbreviation newline :: "8 word" where "newline \<equiv> 0x0A"

definition continuation :: "8 word \<Rightarrow> bool" where
  "continuation b \<longleftrightarrow> 0x80 \<le> b \<and> b \<le> 0xBF"

text \<open>Which second byte may follow a lead byte, and how many bytes the lead byte announces.\<close>

definition second_byte :: "8 word \<Rightarrow> 8 word \<Rightarrow> bool" where
  "second_byte b b1 \<longleftrightarrow>
     (if b = 0xE0 then 0xA0 \<le> b1 \<and> b1 \<le> 0xBF
      else if b = 0xED then 0x80 \<le> b1 \<and> b1 \<le> 0x9F
      else if b = 0xF0 then 0x90 \<le> b1 \<and> b1 \<le> 0xBF
      else if b = 0xF4 then 0x80 \<le> b1 \<and> b1 \<le> 0x8F
      else continuation b1)"

definition sequence_length :: "8 word \<Rightarrow> nat" where
  "sequence_length b =
     (if b < 0x80 then 1
      else if 0xC2 \<le> b \<and> b \<le> 0xDF then 2
      else if 0xE0 \<le> b \<and> b \<le> 0xEF then 3
      else if 0xF0 \<le> b \<and> b \<le> 0xF4 then 4
      else 0)"

text \<open>How many bytes after the lead byte fit to it.\<close>

definition fitting :: "8 word \<Rightarrow> bytes \<Rightarrow> nat" where
  "fitting b rest =
     (case rest of
        [] \<Rightarrow> 0
      | b1 # more \<Rightarrow> if second_byte b b1 then Suc (length (takeWhile continuation more)) else 0)"

fun utf8_first :: "bytes \<Rightarrow> nat option" where
  "utf8_first [] = None"
| "utf8_first (b # rest) =
     (if sequence_length b = 1 then Some 1
      else if sequence_length b \<noteq> 0 \<and> sequence_length b \<le> Suc (fitting b rest) then Some (sequence_length b)
      else None)"

text \<open>The length of the invalid piece a byte string starts with.\<close>

fun utf8_invalid :: "bytes \<Rightarrow> nat" where
  "utf8_invalid [] = 0"
| "utf8_invalid (b # rest) = (if sequence_length b = 0 then 1 else Suc (fitting b rest))"

lemma fitting_bound: "fitting b rest \<le> length rest"
  by (auto simp: fitting_def split: list.split intro: order_trans [OF length_takeWhile_le])

lemma utf8_first_bounds: "utf8_first bs = Some n \<Longrightarrow> 0 < n \<and> n \<le> length bs"
  using fitting_bound by (cases bs) (auto split: if_splits intro: order_trans)

lemma utf8_first_Cons: "utf8_first bs = Some n \<Longrightarrow> bs \<noteq> []"
  by (cases bs) auto

function utf8_valid_up_to :: "bytes \<Rightarrow> nat" where
  "utf8_valid_up_to bs =
     (case utf8_first bs of None \<Rightarrow> 0 | Some n \<Rightarrow> n + utf8_valid_up_to (drop n bs))"
  by auto

termination
  by (relation "measure length") (auto dest: utf8_first_bounds)

declare utf8_valid_up_to.simps [simp del]

definition replacement :: bytes where
  "replacement = [0xEF, 0xBF, 0xBD]"

lemma utf8_invalid_pos: "bs \<noteq> [] \<Longrightarrow> 0 < utf8_invalid bs"
  by (cases bs) auto

function from_utf8_lossy :: "bytes \<Rightarrow> bytes" where
  "from_utf8_lossy bs =
     (if bs = [] then []
      else case utf8_first bs of
          Some n \<Rightarrow> take n bs @ from_utf8_lossy (drop n bs)
        | None \<Rightarrow> replacement @ from_utf8_lossy (drop (utf8_invalid bs) bs))"
  by auto

termination
  by (relation "measure length") (auto dest: utf8_first_bounds intro!: diff_less utf8_invalid_pos)

declare from_utf8_lossy.simps [simp del]

text \<open>The length in bytes of a string of this development.\<close>

definition utf8_length :: "string \<Rightarrow> nat" where
  "utf8_length s = sum_list (map (\<lambda>c. if (of_char c :: nat) < 128 then 1 else 2) s)"

section \<open>Valid text\<close>

definition utf8_valid :: "bytes \<Rightarrow> bool" where
  "utf8_valid bs \<longleftrightarrow> utf8_valid_up_to bs = length bs"

lemma valid_up_to_bound: "utf8_valid_up_to bs \<le> length bs"
proof (induction bs rule: utf8_valid_up_to.induct)
  case (1 bs)
  show ?case
  proof (cases "utf8_first bs")
    case None
    then show ?thesis by (simp add: utf8_valid_up_to.simps [of bs])
  next
    case (Some n)
    have "utf8_valid_up_to (drop n bs) \<le> length bs - n" and "n \<le> length bs"
      using 1 [OF Some] utf8_first_bounds [OF Some] by simp_all
    then show ?thesis using Some by (simp add: utf8_valid_up_to.simps [of bs])
  qed
qed

lemma utf8_valid_unfold:
  "utf8_valid bs \<longleftrightarrow> bs = [] \<or> (\<exists>n. utf8_first bs = Some n \<and> utf8_valid (drop n bs))"
proof (cases "utf8_first bs")
  case None
  then show ?thesis by (auto simp: utf8_valid_def utf8_valid_up_to.simps [of bs])
next
  case (Some n)
  then show ?thesis using utf8_first_bounds [OF Some]
    by (auto simp: utf8_valid_def utf8_valid_up_to.simps [of bs])
qed

lemma utf8_valid_Nil [simp]: "utf8_valid []"
  by (simp add: utf8_valid_def utf8_valid_up_to.simps)

text \<open>Induction over the sequences of a valid text.\<close>

lemma utf8_valid_induct [consumes 1, case_names Nil seq]:
  assumes "utf8_valid bs" and "P []"
    and "\<And>bs n. utf8_first bs = Some n \<Longrightarrow> utf8_valid (drop n bs) \<Longrightarrow> P (drop n bs) \<Longrightarrow> P bs"
  shows "P bs"
  using assms(1)
proof (induction "length bs" arbitrary: bs rule: less_induct)
  case less
  show ?case
  proof (cases "bs = []")
    case True
    then show ?thesis using assms(2) by simp
  next
    case False
    then obtain n where n: "utf8_first bs = Some n" "utf8_valid (drop n bs)"
      using less.prems utf8_valid_unfold by blast
    then have "length (drop n bs) < length bs" using utf8_first_bounds [OF n(1)] by (auto intro!: diff_less)
    then show ?thesis using less.hyps n assms(3) by blast
  qed
qed

lemma lossy_valid: "utf8_valid bs \<Longrightarrow> from_utf8_lossy bs = bs"
proof (induction rule: utf8_valid_induct)
  case Nil
  then show ?case by (simp add: from_utf8_lossy.simps)
next
  case (seq bs n)
  then show ?case using utf8_first_Cons [OF seq(1)] by (simp add: from_utf8_lossy.simps [of bs])
qed

text \<open>
  A byte below \<open>0x80\<close> is a sequence of its own: it is no part of a longer one, so a valid text
  stays valid on both sides of it.
\<close>

lemma second_byte_high: "second_byte b b1 \<Longrightarrow> 0x80 \<le> b1"
  using order_trans [of "0x80" "0xA0" b1] order_trans [of "0x80" "0x90" b1]
  by (auto simp: second_byte_def continuation_def split: if_splits)

lemma fitting_high: "i < fitting b rest \<Longrightarrow> 0x80 \<le> rest ! i"
proof (cases rest)
  case (Cons b1 more)
  assume less: "i < fitting b rest"
  then have b1: "second_byte b b1" by (auto simp: fitting_def Cons split: if_splits)
  show ?thesis
  proof (cases i)
    case 0
    then show ?thesis using second_byte_high [OF b1] by (simp add: Cons)
  next
    case (Suc j)
    then have "j < length (takeWhile continuation more)" using less b1 by (simp add: fitting_def Cons)
    then have "continuation (more ! j)" using nth_mem takeWhile_nth set_takeWhileD by metis
    then show ?thesis by (simp add: Cons Suc continuation_def)
  qed
qed (simp add: fitting_def)

lemma utf8_first_high:
  assumes "utf8_first bs = Some n" and "0 < i" and "i < n"
  shows "0x80 \<le> bs ! i"
proof (cases bs)
  case (Cons b rest)
  then have "i - 1 < fitting b rest" using assms by (auto split: if_splits)
  from fitting_high [OF this] show ?thesis using assms(2) by (simp add: Cons)
qed (use assms in simp)

lemma fitting_append_left:
  "k \<le> length xs \<Longrightarrow> k \<le> fitting b (xs @ ys) \<longleftrightarrow> k \<le> fitting b xs"
proof (cases xs)
  case (Cons b1 more)
  assume k: "k \<le> length xs"
  show ?thesis
  proof (cases "\<forall>x \<in> set more. continuation x")
    case True
    then have all: "takeWhile continuation more = more"
      "takeWhile continuation (more @ ys) = more @ takeWhile continuation ys"
      by (simp_all add: takeWhile_append)
    show ?thesis using k by (simp add: fitting_def Cons all)
  next
    case False
    then have "takeWhile continuation (more @ ys) = takeWhile continuation more" by (auto simp: takeWhile_append)
    then show ?thesis by (simp add: fitting_def Cons)
  qed
qed simp

lemma utf8_first_append:
  assumes "n \<le> length xs"
  shows "utf8_first (xs @ ys) = Some n \<longleftrightarrow> utf8_first xs = Some n"
proof (cases xs)
  case Nil
  then show ?thesis using assms utf8_first_bounds [of ys n] by auto
next
  case (Cons b rest)
  then have "n = 1 \<or> n - 1 \<le> fitting b (rest @ ys) \<longleftrightarrow> n = 1 \<or> n - 1 \<le> fitting b rest"
    using fitting_append_left [of "n - 1" rest b ys] assms by auto
  then show ?thesis using Cons by auto
qed

lemma utf8_valid_append:
  assumes "utf8_valid xs"
  shows "utf8_valid (xs @ ys) \<longleftrightarrow> utf8_valid ys"
  using assms
proof (induction rule: utf8_valid_induct)
  case (seq bs n)
  have n: "0 < n \<and> n \<le> length bs" by (rule utf8_first_bounds [OF seq(1)])
  have first: "utf8_first (bs @ ys) = Some n" using utf8_first_append [of n bs ys] n seq(1) by simp
  have "utf8_valid (bs @ ys) \<longleftrightarrow> utf8_valid (drop n (bs @ ys))"
    using first utf8_first_Cons [OF first] utf8_valid_unfold [of "bs @ ys"] by auto
  also have "drop n (bs @ ys) = drop n bs @ ys" using n by simp
  finally show ?case using seq(3) by simp
qed simp

lemma utf8_valid_split:
  assumes "utf8_valid (xs @ b # ys)" and "b < 0x80"
  shows "utf8_valid xs \<and> utf8_valid (b # ys)"
  using assms(1)
proof (induction "length xs" arbitrary: xs rule: less_induct)
  case less
  show ?case
  proof (cases "xs = []")
    case True
    then show ?thesis using less.prems by simp
  next
    case False
    obtain n where n: "utf8_first (xs @ b # ys) = Some n" "utf8_valid (drop n (xs @ b # ys))"
      using less.prems False by (auto simp: utf8_valid_unfold [of "xs @ b # ys"])
    have pos: "0 < n" using utf8_first_bounds [OF n(1)] by simp
    have le: "n \<le> length xs"
    proof (rule ccontr)
      assume "\<not> n \<le> length xs"
      then have "0x80 \<le> (xs @ b # ys) ! length xs" using utf8_first_high [OF n(1), of "length xs"] False by simp
      then show False using assms(2) by (simp add: nth_append)
    qed
    then have first: "utf8_first xs = Some n" using n(1) utf8_first_append by simp
    have "utf8_valid (drop n xs @ b # ys)" using n(2) le by simp
    then have "utf8_valid (drop n xs) \<and> utf8_valid (b # ys)"
      using less.hyps [of "drop n xs"] pos False by (auto intro!: diff_less)
    then show ?thesis using first utf8_valid_unfold [of xs] by blast
  qed
qed

end
