(* ===== verification/Api_Capture.thy ===== *)
theory Api_Capture
  imports Logfmt Utf8 "HOL-Library.Sublist"
begin

text \<open>
  The capture proxy in front of a service, \<open>src/src/services/api_capture.rs\<close>: which requests
  are recorded, what is forwarded in both directions, the recording of bodies while they stream, the
  entry written about an exchange, and the queue and writer of the capture log. The HTTP library is a
  parameter: \<open>http_world\<close> says how the service answers a request, whether a target is a valid
  URI, how a header value reads as text, and how far the two bodies were polled. A header map is the list
  of its entries in iteration order, names in lower case as the library keeps them.
\<close>

section \<open>Messages\<close>

type_synonym header_map = "(string \<times> bytes) list"

definition ascii_bytes :: "string \<Rightarrow> bytes" where
  "ascii_bytes s = map (\<lambda>c. of_nat (of_char c)) s"

definition hm_get_all :: "string \<Rightarrow> header_map \<Rightarrow> bytes list" where
  "hm_get_all name headers = map snd (filter (\<lambda>(n, v). n = name) headers)"

definition hm_get :: "string \<Rightarrow> header_map \<Rightarrow> bytes option" where
  "hm_get name headers = map_of headers name"

text \<open>\<open>append\<close> keeps the values there are, \<open>insert\<close> replaces them.\<close>

definition hm_append :: "string \<Rightarrow> bytes \<Rightarrow> header_map \<Rightarrow> header_map" where
  "hm_append name v headers = headers @ [(name, v)]"

definition hm_insert :: "string \<Rightarrow> bytes \<Rightarrow> header_map \<Rightarrow> header_map" where
  "hm_insert name v headers = filter (\<lambda>(n, w). n \<noteq> name) headers @ [(name, v)]"

text \<open>
  A body yields frames: data, trailers, or an error. Its data stream (\<open>into_data_stream\<close> of the library)
  yields the chunks of the data frames and the errors, and leaves the trailers out; the body made from a stream
  (\<open>Body::from_stream\<close>) has a data frame for every chunk.
\<close>

datatype body_frame = Data_Frame bytes | Trailer_Frame header_map | Frame_Failed

datatype body_event = Chunk bytes | Body_Failed

fun into_data_stream :: "body_frame list \<Rightarrow> body_event list" where
  "into_data_stream [] = []"
| "into_data_stream (Data_Frame c # frames) = Chunk c # into_data_stream frames"
| "into_data_stream (Trailer_Frame t # frames) = into_data_stream frames"
| "into_data_stream (Frame_Failed # frames) = Body_Failed # into_data_stream frames"

fun frame_of :: "body_event \<Rightarrow> body_frame" where
  "frame_of (Chunk c) = Data_Frame c"
| "frame_of Body_Failed = Frame_Failed"

definition body_from_stream :: "body_event list \<Rightarrow> body_frame list" where
  "body_from_stream events = map frame_of events"

record http_request =
  rq_method :: string
  rq_version :: string
  rq_path :: string
  rq_path_and_query :: "string option"
  rq_headers :: header_map
  rq_body :: "body_frame list"

record upstream_request =
  ur_method :: string
  ur_version :: string
  ur_uri :: string
  ur_headers :: header_map
  ur_body :: "body_frame list"

record http_response =
  rp_status :: nat
  rp_headers :: header_map
  rp_body :: "body_frame list"

datatype header_forward_mode = Forward_Standard | Forward_Upgrade

record capture_config =
  cc_run_id :: string
  cc_service :: string
  cc_public_port :: u16
  cc_target_port :: u16
  cc_body_limit :: usize
  cc_ignore_paths :: "string list"

record http_world =
  hw_send :: "upstream_request \<Rightarrow> http_response result"
  hw_valid_uri :: "string \<Rightarrow> bool"
  hw_to_str :: "bytes \<Rightarrow> string option"
  hw_decode :: "bytes \<Rightarrow> string"
  hw_parse :: "string \<Rightarrow> json option"
  hw_request_polls :: nat
  hw_response_polls :: nat
  hw_elapsed_ms :: nat

section \<open>Which requests are recorded\<close>

definition header_to_str :: "http_world \<Rightarrow> header_map \<Rightarrow> string \<Rightarrow> string option" where
  "header_to_str hw headers name = Option.bind (hm_get name headers) (hw_to_str hw)"

definition header_eq_ignore_ascii_case :: "http_world \<Rightarrow> header_map \<Rightarrow> string \<Rightarrow> string \<Rightarrow> bool" where
  "header_eq_ignore_ascii_case hw headers name expected \<longleftrightarrow>
     (case header_to_str hw headers name of None \<Rightarrow> False | Some v \<Rightarrow> eq_ignore_ascii_case v expected)"

definition accepts_html_document :: "http_world \<Rightarrow> header_map \<Rightarrow> bool" where
  "accepts_html_document hw headers \<longleftrightarrow>
     (case header_to_str hw headers ''accept'' of
        None \<Rightarrow> False
      | Some v \<Rightarrow> contains_str (lowercase v) ''text/html'' \<and> \<not> contains_str (lowercase v) ''application/json'')"

definition is_browser_non_xhr_request :: "http_world \<Rightarrow> string \<Rightarrow> header_map \<Rightarrow> bool" where
  "is_browser_non_xhr_request hw http_method headers \<longleftrightarrow>
     (if header_eq_ignore_ascii_case hw headers ''x-requested-with'' ''XMLHttpRequest'' then False
      else
        (case header_to_str hw headers ''sec-fetch-dest'' of
           Some dest \<Rightarrow> trim dest \<noteq> [] \<and> \<not> eq_ignore_ascii_case (trim dest) ''empty''
         | None \<Rightarrow> http_method = ''GET'' \<and> accepts_html_document hw headers))"

definition path_matches :: "string \<Rightarrow> string \<Rightarrow> bool" where
  "path_matches pattern path \<longleftrightarrow>
     (let p = trim pattern in
      if p = [] then False
      else if last p = CHR ''*'' then starts_with path (butlast p)
      else p = path)"

definition should_ignore_path :: "string list \<Rightarrow> string \<Rightarrow> bool" where
  "should_ignore_path patterns path \<longleftrightarrow> (\<exists>pattern \<in> set patterns. path_matches pattern path)"

definition should_capture_request :: "http_world \<Rightarrow> string list \<Rightarrow> string \<Rightarrow> string \<Rightarrow> header_map \<Rightarrow> bool" where
  "should_capture_request hw patterns http_method path headers \<longleftrightarrow>
     \<not> should_ignore_path patterns path \<and> \<not> is_browser_non_xhr_request hw http_method headers"

definition header_contains_token :: "http_world \<Rightarrow> header_map \<Rightarrow> string \<Rightarrow> string \<Rightarrow> bool" where
  "header_contains_token hw headers name token \<longleftrightarrow>
     (\<exists>v \<in> set (hm_get_all name headers). case hw_to_str hw v of
        None \<Rightarrow> False
      | Some text \<Rightarrow> \<exists>part \<in> set (split_on (CHR '','') text). eq_ignore_ascii_case (trim part) token)"

definition is_upgrade_request :: "http_world \<Rightarrow> header_map \<Rightarrow> bool" where
  "is_upgrade_request hw headers \<longleftrightarrow>
     header_contains_token hw headers ''connection'' ''upgrade'' \<and>
     header_eq_ignore_ascii_case hw headers ''upgrade'' ''websocket''"

section \<open>What is forwarded\<close>

definition hop_by_hop_names :: "string list" where
  "hop_by_hop_names =
     [''connection'', ''keep-alive'', ''proxy-authenticate'', ''proxy-authorization'', ''te'', ''trailer'',
      ''transfer-encoding'', ''upgrade'']"

definition is_hop_by_hop :: "string \<Rightarrow> bool" where
  "is_hop_by_hop name \<longleftrightarrow> name \<in> set hop_by_hop_names"

fun copy_forward_headers :: "header_map \<Rightarrow> header_map \<Rightarrow> header_forward_mode \<Rightarrow> header_map" where
  "copy_forward_headers [] target mode = target"
| "copy_forward_headers ((name, v) # from) target mode =
     (if mode = Forward_Standard \<and> is_hop_by_hop name then copy_forward_headers from target mode
      else copy_forward_headers from (hm_append name v target) mode)"

definition apply_forwarded_request_context :: "header_map \<Rightarrow> u16 \<Rightarrow> header_map \<Rightarrow> header_map" where
  "apply_forwarded_request_context inbound public_port outbound =
     (let public_host = unwrap_or (hm_get ''host'' inbound) (ascii_bytes (''127.0.0.1:'' @ show_word public_port)) in
      hm_insert ''x-forwarded-port'' (ascii_bytes (show_word public_port))
        (hm_insert ''x-forwarded-proto'' (ascii_bytes ''http'')
          (hm_insert ''x-forwarded-host'' public_host
            (hm_insert ''host'' public_host outbound))))"

definition build_upstream_request ::
  "http_world \<Rightarrow> capture_config \<Rightarrow> http_request \<Rightarrow> body_frame list \<Rightarrow> header_forward_mode \<Rightarrow> upstream_request result" where
  "build_upstream_request hw cc rq body mode =
     (let uri = ''http://127.0.0.1:'' @ show_word (cc_target_port cc) @ unwrap_or (rq_path_and_query rq) ''/'' in
      if \<not> hw_valid_uri hw uri then Inl ''build upstream URI''
      else Inr \<lparr>ur_method = rq_method rq, ur_version = rq_version rq, ur_uri = uri,
                ur_headers = apply_forwarded_request_context (rq_headers rq) (cc_public_port cc)
                  (copy_forward_headers (rq_headers rq) [] mode),
                ur_body = body\<rparr>)"

definition response_with_body ::
  "nat \<Rightarrow> header_map \<Rightarrow> body_frame list \<Rightarrow> header_forward_mode \<Rightarrow> http_response" where
  "response_with_body status headers body mode =
     \<lparr>rp_status = status, rp_headers = copy_forward_headers headers [] mode, rp_body = body\<rparr>"

section \<open>Recording a body\<close>

record captured_body =
  cb_total_bytes :: usize
  cb_captured :: bytes
  cb_limit :: usize

definition new_captured_body :: "usize \<Rightarrow> captured_body" where
  "new_captured_body limit = \<lparr>cb_total_bytes = 0, cb_captured = [], cb_limit = limit\<rparr>"

definition saturating_add :: "usize \<Rightarrow> nat \<Rightarrow> usize" where
  "saturating_add a n = (if unat a + n < 2 ^ 64 then a + of_nat n else - 1)"

definition append_chunk :: "bytes \<Rightarrow> captured_body \<Rightarrow> captured_body" where
  "append_chunk chunk body =
     (let body1 = body\<lparr>cb_total_bytes := saturating_add (cb_total_bytes body) (length chunk)\<rparr>;
          remaining = unat (cb_limit body) - length (cb_captured body) in
      if 0 < remaining
      then body1\<lparr>cb_captured := cb_captured body @ take (min remaining (length chunk)) chunk\<rparr>
      else body1)"

text \<open>
  The stream in front of the request body: a chunk is recorded and passed on, anything else is passed on. The
  library polls it as it sends; \<open>poll_request n\<close> is what \<open>n\<close> polls yield and leave behind.
\<close>

record request_stream =
  rs_inner :: "body_event list"
  rs_capture :: captured_body

definition poll_request_next :: "request_stream \<Rightarrow> body_event option \<times> request_stream" where
  "poll_request_next rs =
     (case rs_inner rs of
        [] \<Rightarrow> (None, rs)
      | Chunk c # inner \<Rightarrow> (Some (Chunk c), rs\<lparr>rs_inner := inner, rs_capture := append_chunk c (rs_capture rs)\<rparr>)
      | Body_Failed # inner \<Rightarrow> (Some Body_Failed, rs\<lparr>rs_inner := inner\<rparr>))"

fun poll_request :: "nat \<Rightarrow> request_stream \<Rightarrow> body_event list \<times> request_stream" where
  "poll_request 0 rs = ([], rs)"
| "poll_request (Suc n) rs =
     (case poll_request_next rs of
        (None, rs1) \<Rightarrow> ([], rs1)
      | (Some e, rs1) \<Rightarrow> (let (events, rs2) = poll_request n rs1 in (e # events, rs2)))"

text \<open>All a stream has to yield: it ends after as many polls as its inner stream has items.\<close>

definition request_stream_items :: "request_stream \<Rightarrow> body_event list" where
  "request_stream_items rs = fst (poll_request (Suc (length (rs_inner rs))) rs)"

definition capture_request_stream :: "capture_config \<Rightarrow> http_request \<Rightarrow> request_stream" where
  "capture_request_stream cc rq =
     \<lparr>rs_inner = into_data_stream (rq_body rq), rs_capture = new_captured_body (cc_body_limit cc)\<rparr>"

record capture_api_record =
  ca_method :: string
  ca_path :: string
  ca_target :: string
  ca_request_headers :: header_map
  ca_request_body :: captured_body
  ca_status :: nat
  ca_response_headers :: header_map
  ca_response_body :: captured_body
  ca_duration_ms :: nat

datatype capture_log_event = Log_Entry json | Log_Api capture_api_record

record capture_stream =
  cs_inner :: "body_event list"
  cs_response_body :: captured_body
  cs_logged :: bool
  cs_events :: "captured_body list"

text \<open>The bodies logged by a stream are \<open>cs_events\<close>; the rest of the record is fixed beforehand.\<close>

definition log_once :: "capture_stream \<Rightarrow> capture_stream" where
  "log_once cs =
     (if cs_logged cs then cs
      else cs\<lparr>cs_logged := True, cs_events := cs_events cs @ [cs_response_body cs]\<rparr>)"

definition poll_next :: "capture_stream \<Rightarrow> body_event option \<times> capture_stream" where
  "poll_next cs =
     (case cs_inner cs of
        [] \<Rightarrow> (None, log_once cs)
      | Chunk c # inner \<Rightarrow>
          (Some (Chunk c), cs\<lparr>cs_inner := inner, cs_response_body := append_chunk c (cs_response_body cs)\<rparr>)
      | Body_Failed # inner \<Rightarrow> (Some Body_Failed, log_once (cs\<lparr>cs_inner := inner\<rparr>)))"

text \<open>What the client gets in \<open>n\<close> polls, after which the stream is dropped.\<close>

fun poll_stream :: "nat \<Rightarrow> capture_stream \<Rightarrow> body_event list \<times> capture_stream" where
  "poll_stream 0 cs = ([], log_once cs)"
| "poll_stream (Suc n) cs =
     (case poll_next cs of
        (None, cs1) \<Rightarrow> (let (events, cs2) = poll_stream n cs1 in (events, cs2))
      | (Some e, cs1) \<Rightarrow> (let (events, cs2) = poll_stream n cs1 in (e # events, cs2)))"

section \<open>The proxy\<close>

text \<open>
  The answer to a request, with what the client reads of its body, and what is handed to the capture log
  for it.
\<close>

definition forward_plain :: "http_world \<Rightarrow> capture_config \<Rightarrow> http_request \<Rightarrow> (http_response \<times> capture_log_event list) result" where
  "forward_plain hw cc rq =
     rbind (build_upstream_request hw cc rq (rq_body rq) Forward_Standard) (\<lambda>up.
     rbind (map_err (\<lambda>_. ''forward request to service'') (hw_send hw up)) (\<lambda>response.
       Inr (response_with_body (rp_status response) (rp_headers response)
              (take (hw_response_polls hw) (rp_body response)) Forward_Standard, [])))"

definition api_record ::
  "http_world \<Rightarrow> http_request \<Rightarrow> http_response \<Rightarrow> captured_body \<Rightarrow> captured_body \<Rightarrow> capture_api_record" where
  "api_record hw rq response request_body response_body =
     \<lparr>ca_method = rq_method rq, ca_path = rq_path rq, ca_target = unwrap_or (rq_path_and_query rq) ''/'',
      ca_request_headers = rq_headers rq, ca_request_body = request_body,
      ca_status = rp_status response, ca_response_headers = rp_headers response,
      ca_response_body = response_body, ca_duration_ms = hw_elapsed_ms hw\<rparr>"

definition forward_captured :: "http_world \<Rightarrow> capture_config \<Rightarrow> http_request \<Rightarrow> (http_response \<times> capture_log_event list) result" where
  "forward_captured hw cc rq =
     (let stream = capture_request_stream cc rq in
      rbind (build_upstream_request hw cc rq (body_from_stream (request_stream_items stream)) Forward_Standard) (\<lambda>up.
      rbind (map_err (\<lambda>_. ''forward request to service'') (hw_send hw up)) (\<lambda>response.
        let request_body = rs_capture (snd (poll_request (hw_request_polls hw) stream));
            (body, cs) = poll_stream (hw_response_polls hw)
              \<lparr>cs_inner = into_data_stream (rp_body response), cs_response_body = new_captured_body (cc_body_limit cc),
               cs_logged = False, cs_events = []\<rparr> in
        Inr (response_with_body (rp_status response) (rp_headers response) (body_from_stream body) Forward_Standard,
             map (\<lambda>response_body. Log_Api (api_record hw rq response request_body response_body)) (cs_events cs)))))"

text \<open>The tunnel of an accepted upgrade copies bytes in both directions and is not modelled.\<close>

definition proxy_upgrade_request ::
  "http_world \<Rightarrow> capture_config \<Rightarrow> http_request \<Rightarrow> bool \<Rightarrow> (http_response \<times> capture_log_event list) result" where
  "proxy_upgrade_request hw cc rq capture =
     rbind (build_upstream_request hw cc rq [] Forward_Upgrade) (\<lambda>up.
     rbind (map_err (\<lambda>_. ''forward upgrade request to service'') (hw_send hw up)) (\<lambda>response.
       if rp_status response \<noteq> 101 then
         Inr (response_with_body (rp_status response) (rp_headers response)
                (take (hw_response_polls hw) (rp_body response)) Forward_Standard, [])
       else
         Inr (response_with_body (rp_status response) (rp_headers response) [] Forward_Upgrade,
              if capture then
                [Log_Api (api_record hw rq response (new_captured_body (cc_body_limit cc))
                   (new_captured_body (cc_body_limit cc)))]
              else [])))"

definition proxy_request_inner ::
  "http_world \<Rightarrow> capture_config \<Rightarrow> http_request \<Rightarrow> (http_response \<times> capture_log_event list) result" where
  "proxy_request_inner hw cc rq =
     (let capture = should_capture_request hw (cc_ignore_paths cc) (rq_method rq) (rq_path rq) (rq_headers rq) in
      if is_upgrade_request hw (rq_headers rq) then proxy_upgrade_request hw cc rq capture
      else if \<not> capture then forward_plain hw cc rq
      else forward_captured hw cc rq)"

definition proxy_request :: "http_world \<Rightarrow> capture_config \<Rightarrow> http_request \<Rightarrow> http_response \<times> capture_log_event list" where
  "proxy_request hw cc rq =
     (case proxy_request_inner hw cc rq of
        Inr answer \<Rightarrow> answer
      | Inl err \<Rightarrow>
          (response_with_body 502 []
             [Data_Frame (ascii_bytes (''devstack API capture proxy error: '' @ err @ [CHR 0x0A]))] Forward_Standard,
           [Log_Entry (J_Obj [(''level'', J_Str ''error''), (''event'', J_Str ''api_capture''),
              (''msg'', J_Str (''API capture proxy error: '' @ err)), (''error'', J_Str err)])]))"

section \<open>The entry about an exchange\<close>

definition captured_text :: "bytes \<Rightarrow> bytes option" where
  "captured_text bs =
     (let n = utf8_valid_up_to bs in
      if n = length bs then Some bs else if 0 < n then Some (take n bs) else None)"

definition is_char_boundary :: "string \<Rightarrow> nat \<Rightarrow> bool" where
  "is_char_boundary s n \<longleftrightarrow> (\<exists>k \<le> length s. utf8_length (take k s) = n)"

fun boundary_below :: "string \<Rightarrow> nat \<Rightarrow> nat" where
  "boundary_below s n = (if is_char_boundary s n \<or> n = 0 then n else boundary_below s (n - 1))"

declare boundary_below.simps [simp del]

fun take_bytes :: "nat \<Rightarrow> string \<Rightarrow> string" where
  "take_bytes n [] = []"
| "take_bytes n (c # s) =
     (let k = (if (of_char c :: nat) < 128 then 1 else 2) in if k \<le> n then c # take_bytes (n - k) s else [])"

definition trim_to_char_boundary :: "string \<Rightarrow> nat \<Rightarrow> string" where
  "trim_to_char_boundary s max_bytes =
     (if utf8_length s \<le> max_bytes then s else take_bytes (boundary_below s max_bytes) s)"

definition truncate_chars :: "string \<Rightarrow> nat \<Rightarrow> string" where
  "truncate_chars s max_bytes =
     (if utf8_length s \<le> max_bytes then s else trim_to_char_boundary s max_bytes @ ''...'')"

definition max_capture_header_bytes :: nat where
  "max_capture_header_bytes = 512"

definition header_value_to_string :: "http_world \<Rightarrow> bytes \<Rightarrow> string" where
  "header_value_to_string hw v = truncate_chars (unwrap_or (hw_to_str hw v) ''<non-utf8>'') max_capture_header_bytes"

definition is_sensitive_header :: "string \<Rightarrow> bool" where
  "is_sensitive_header name \<longleftrightarrow> name \<in> {''authorization'', ''cookie'', ''set-cookie'', ''proxy-authorization''}"

fun sanitized_into :: "http_world \<Rightarrow> header_map \<Rightarrow> json_map \<Rightarrow> json_map" where
  "sanitized_into hw [] out = out"
| "sanitized_into hw ((name, v) # headers) out =
     (let key = lowercase name;
          text = (if is_sensitive_header key then ''[redacted]'' else header_value_to_string hw v) in
      sanitized_into hw headers (jo_insert key (J_Str text) out))"

definition sanitized_headers :: "http_world \<Rightarrow> header_map \<Rightarrow> json" where
  "sanitized_headers hw headers = J_Obj (sanitized_into hw headers [])"

definition body_looks_json :: "http_world \<Rightarrow> header_map \<Rightarrow> string \<Rightarrow> bool" where
  "body_looks_json hw headers text \<longleftrightarrow>
     (case header_to_str hw headers ''content-type'' of None \<Rightarrow> False | Some v \<Rightarrow> contains_str (lowercase v) ''json'') \<or>
     starts_with (trim_start text) ''{'' \<or> starts_with (trim_start text) ''[''"

definition text_snapshot :: "http_world \<Rightarrow> header_map \<Rightarrow> string \<Rightarrow> string \<times> json" where
  "text_snapshot hw headers text =
     (case (if body_looks_json hw headers text then hw_parse hw text else None) of
        Some v \<Rightarrow> (''json'', v)
      | None \<Rightarrow> (''text'', J_Str text))"

definition body_snapshot :: "http_world \<Rightarrow> header_map \<Rightarrow> captured_body \<Rightarrow> json" where
  "body_snapshot hw headers body =
     (let total = unat (cb_total_bytes body); captured = cb_captured body;
          sizes = [(''bytes'', J_Num (int total)), (''captured_bytes'', J_Num (int (length captured))),
                   (''truncated'', J_Bool (length captured < total))] in
      if total = 0 then J_Obj [(''bytes'', J_Num 0), (''truncated'', J_Bool False)]
      else if captured = [] then J_Obj sizes
      else
        (case captured_text captured of
           Some text \<Rightarrow> J_Obj (sizes @ [text_snapshot hw headers (hw_decode hw text)])
         | None \<Rightarrow> J_Obj (sizes @ [(''binary'', J_Bool True)])))"

definition status_level :: "nat \<Rightarrow> string" where
  "status_level status =
     (if 500 \<le> status \<and> status < 600 then ''error'' else if 400 \<le> status \<and> status < 500 then ''warn'' else ''info'')"

definition capture_entry :: "http_world \<Rightarrow> capture_api_record \<Rightarrow> json" where
  "capture_entry hw ca =
     J_Obj [(''level'', J_Str (status_level (ca_status ca))), (''event'', J_Str ''api_capture''),
       (''msg'', J_Str (ca_method ca @ '' '' @ ca_target ca @ '' -> '' @ show_nat (ca_status ca) @ '' ('' @
          show_nat (ca_duration_ms ca) @ '' ms)'')),
       (''method'', J_Str (ca_method ca)), (''path'', J_Str (ca_path ca)), (''target'', J_Str (ca_target ca)),
       (''status'', J_Num (int (ca_status ca))), (''duration_ms'', J_Num (int (ca_duration_ms ca))),
       (''request'', J_Obj [(''headers'', sanitized_headers hw (ca_request_headers ca)),
          (''body'', body_snapshot hw (ca_request_headers ca) (ca_request_body ca))]),
       (''response'', J_Obj [(''headers'', sanitized_headers hw (ca_response_headers ca)),
          (''body'', body_snapshot hw (ca_response_headers ca) (ca_response_body ca))])]"

section \<open>The queue and the writer of the log\<close>

definition capture_log_queue :: nat where
  "capture_log_queue = 1024"

text \<open>The counter of dropped events is a number; it would wrap after \<open>2^64\<close> events between two summaries.\<close>

record capture_log =
  kl_queue :: "capture_log_event list"
  kl_closed :: bool
  kl_dropped :: nat
  kl_file :: string

definition log_write :: "capture_log_event \<Rightarrow> capture_log \<Rightarrow> capture_log" where
  "log_write event log =
     (if kl_closed log then log
      else if length (kl_queue log) < capture_log_queue then log\<lparr>kl_queue := kl_queue log @ [event]\<rparr>
      else log\<lparr>kl_dropped := kl_dropped log + 1\<rparr>)"

text \<open>
  The two writes of a line, each of which may fail: the world gives whether the text and the end of the
  line are written.
\<close>

record log_world =
  gw_http :: http_world
  gw_print :: "json \<Rightarrow> string"
  gw_now :: string
  gw_text_ok :: bool
  gw_end_ok :: bool

definition line_text :: "log_world \<Rightarrow> json \<Rightarrow> string" where
  "line_text gw entry =
     encode_log_line (hw_parse (gw_http gw)) (gw_print gw) ''api'' (gw_print gw entry) (gw_now gw)"

definition write_log_entry :: "log_world \<Rightarrow> json \<Rightarrow> capture_log \<Rightarrow> capture_log" where
  "write_log_entry gw entry log =
     (if \<not> gw_text_ok gw then log
      else log\<lparr>kl_file := kl_file log @ line_text gw entry @ (if gw_end_ok gw then [CHR 0x0A] else [])\<rparr>)"

definition dropped_entry :: "nat \<Rightarrow> json" where
  "dropped_entry count =
     J_Obj [(''level'', J_Str ''warn''), (''event'', J_Str ''api_capture_dropped''),
       (''msg'', J_Str (''dropped '' @ show_nat count @ '' API capture events because the capture log queue was full'')),
       (''dropped_events'', J_Num (int count))]"

definition write_dropped_summary :: "log_world \<Rightarrow> capture_log \<Rightarrow> capture_log" where
  "write_dropped_summary gw log =
     (if kl_dropped log = 0 then log
      else write_log_entry gw (dropped_entry (kl_dropped log)) (log\<lparr>kl_dropped := 0\<rparr>))"

fun event_entry :: "http_world \<Rightarrow> capture_log_event \<Rightarrow> json" where
  "event_entry hw (Log_Entry entry) = entry"
| "event_entry hw (Log_Api ca) = capture_entry hw ca"

text \<open>One turn of the writer: an event, if there is one, after what was dropped before it.\<close>

definition write_event :: "log_world \<Rightarrow> capture_log \<Rightarrow> capture_log" where
  "write_event gw log =
     (case kl_queue log of
        [] \<Rightarrow> log
      | event # queue \<Rightarrow>
          write_log_entry gw (event_entry (gw_http gw) event)
            (write_dropped_summary gw (log\<lparr>kl_queue := queue\<rparr>)))"

text \<open>When every sender is gone and the queue is empty, the writer ends.\<close>

definition finish_capture_log :: "log_world \<Rightarrow> capture_log \<Rightarrow> capture_log" where
  "finish_capture_log gw log = (write_dropped_summary gw log)\<lparr>kl_closed := True\<rparr>"

text \<open>The log file is opened for appending; a directory or file that cannot be made is an error.\<close>

definition open_capture_log :: "bool \<Rightarrow> bool \<Rightarrow> string \<Rightarrow> capture_log result" where
  "open_capture_log dir_ok file_ok stored =
     (if \<not> dir_ok then Inl ''create API capture log directory''
      else if \<not> file_ok then Inl ''open API capture log''
      else Inr \<lparr>kl_queue = [], kl_closed = False, kl_dropped = 0, kl_file = stored\<rparr>)"

section \<open>Binding the public port\<close>

datatype bind_answer = Bound | Address_In_Use | Bind_Failed string

definition bind_retry_timeout :: nat where "bind_retry_timeout = 750"
definition bind_retry_delay :: nat where "bind_retry_delay = 25"

text \<open>
  The attempts, each with its answer and the milliseconds that had passed when it was judged; the list
  ends where the system stops answering.
\<close>

fun bind_capture_listener :: "capture_config \<Rightarrow> (bind_answer \<times> nat) list \<Rightarrow> unit result option" where
  "bind_capture_listener cc [] = None"
| "bind_capture_listener cc ((Bound, elapsed) # attempts) = Some (Inr ())"
| "bind_capture_listener cc ((Address_In_Use, elapsed) # attempts) =
     (if elapsed < bind_retry_timeout then bind_capture_listener cc attempts
      else Some (Inl (''bind API capture proxy for '' @ cc_run_id cc @ ''.'' @ cc_service cc @ '' on 0.0.0.0:'' @
        show_word (cc_public_port cc))))"
| "bind_capture_listener cc ((Bind_Failed e, elapsed) # attempts) =
     Some (Inl (''bind API capture proxy for '' @ cc_run_id cc @ ''.'' @ cc_service cc @ '' on 0.0.0.0:'' @
        show_word (cc_public_port cc)))"

text \<open>\<open>start_api_capture_proxy\<close>: the port first, then the log.\<close>

definition start_api_capture_proxy ::
  "capture_config \<Rightarrow> (bind_answer \<times> nat) list \<Rightarrow> bool \<Rightarrow> bool \<Rightarrow> string \<Rightarrow> capture_log result option" where
  "start_api_capture_proxy cc attempts dir_ok file_ok stored =
     map_option (\<lambda>r. rbind r (\<lambda>_. open_capture_log dir_ok file_ok stored)) (bind_capture_listener cc attempts)"

section \<open>Facts about bodies\<close>

fun chunks_of :: "body_event list \<Rightarrow> bytes" where
  "chunks_of [] = []"
| "chunks_of (Chunk c # body) = c @ chunks_of body"
| "chunks_of (Body_Failed # body) = chunks_of body"

text \<open>What has been recorded of the bytes \<open>seen\<close>.\<close>

definition recorded :: "usize \<Rightarrow> bytes \<Rightarrow> captured_body" where
  "recorded limit seen =
     \<lparr>cb_total_bytes = saturating_add 0 (length seen), cb_captured = take (unat limit) seen, cb_limit = limit\<rparr>"

lemma recorded_Nil: "recorded limit [] = new_captured_body limit"
  by (simp add: recorded_def new_captured_body_def saturating_add_def)

lemma saturating_add_assoc: "saturating_add (saturating_add 0 m) n = saturating_add 0 (m + n)"
proof (cases "m < 2 ^ 64")
  case True
  then show ?thesis by (simp add: saturating_add_def unat_of_nat)
next
  case False
  have "unat (- 1 :: usize) = 2 ^ 64 - 1" by (simp add: unsigned_minus_1_eq_mask mask_eq_exp_minus_1)
  then show ?thesis using False by (simp add: saturating_add_def)
qed

lemma append_recorded: "append_chunk c (recorded limit seen) = recorded limit (seen @ c)"
proof -
  have "take (unat limit) seen @ take (min (unat limit - length seen) (length c)) c = take (unat limit) (seen @ c)"
    by (simp add: min_def)
  then show ?thesis
    by (auto simp: append_chunk_def recorded_def Let_def saturating_add_assoc min_def)
qed

lemma poll_request_passes:
  "fst (poll_request n rs) = take n (rs_inner rs) \<and>
   (rs_capture rs = recorded limit seen \<longrightarrow>
      rs_capture (snd (poll_request n rs)) = recorded limit (seen @ chunks_of (take n (rs_inner rs))))"
proof (induction n arbitrary: rs seen)
  case (Suc n)
  show ?case
  proof (cases "rs_inner rs")
    case Nil
    then show ?thesis by (simp add: poll_request_next_def)
  next
    case (Cons e inner)
    show ?thesis
    proof (cases e)
      case (Chunk c)
      then show ?thesis
        using Suc [of "rs\<lparr>rs_inner := inner, rs_capture := append_chunk c (rs_capture rs)\<rparr>" "seen @ c"] Cons
        by (auto simp: poll_request_next_def split_def Let_def append_recorded)
    next
      case Body_Failed
      then show ?thesis using Suc [of "rs\<lparr>rs_inner := inner\<rparr>" seen] Cons
        by (auto simp: poll_request_next_def split_def Let_def)
    qed
  qed
qed simp

text \<open>The frames of a body without its trailers.\<close>

abbreviation not_trailers :: "body_frame \<Rightarrow> bool" where
  "not_trailers frame \<equiv> \<forall>t. frame \<noteq> Trailer_Frame t"

lemma data_stream_body: "body_from_stream (into_data_stream frames) = filter not_trailers frames"
  by (induction frames rule: into_data_stream.induct) (simp_all add: body_from_stream_def)

lemma take_stream_body:
  "body_from_stream (take n (into_data_stream frames)) = take n (filter not_trailers frames)"
  using data_stream_body [of frames] by (simp add: body_from_stream_def take_map [symmetric])

lemma request_stream_items_eq: "request_stream_items rs = rs_inner rs"
  using poll_request_passes [of "Suc (length (rs_inner rs))" rs] by (simp add: request_stream_items_def)

lemma poll_stream_logged:
  "cs_logged cs \<Longrightarrow> fst (poll_stream n cs) = take n (cs_inner cs) \<and> cs_events (snd (poll_stream n cs)) = cs_events cs"
proof (induction n arbitrary: cs)
  case 0
  then show ?case by (simp add: log_once_def)
next
  case (Suc n)
  then show ?case
    by (cases "cs_inner cs") (auto simp: poll_next_def log_once_def split_def Let_def split: body_event.split)
qed

abbreviation not_failed :: "body_event \<Rightarrow> bool" where
  "not_failed e \<equiv> e \<noteq> Body_Failed"

lemma poll_stream_records:
  "fst (poll_stream n \<lparr>cs_inner = inner, cs_response_body = recorded limit seen, cs_logged = False, cs_events = []\<rparr>) =
     take n inner \<and>
   cs_events (snd (poll_stream n \<lparr>cs_inner = inner, cs_response_body = recorded limit seen, cs_logged = False, cs_events = []\<rparr>)) =
     [recorded limit (seen @ chunks_of (takeWhile not_failed (take n inner)))]"
proof (induction n arbitrary: inner seen)
  case 0
  then show ?case by (simp add: log_once_def)
next
  case (Suc n)
  show ?case
  proof (cases inner)
    case Nil
    then show ?thesis
      using poll_stream_logged [of "\<lparr>cs_inner = [], cs_response_body = recorded limit seen, cs_logged = True,
        cs_events = [recorded limit seen]\<rparr>" n]
      by (simp add: poll_next_def log_once_def split_def Let_def)
  next
    case (Cons e rest)
    show ?thesis
    proof (cases e)
      case (Chunk c)
      then show ?thesis using Suc [of rest "seen @ c"] Cons
        by (simp add: poll_next_def split_def Let_def append_recorded)
    next
      case Body_Failed
      then show ?thesis
        using Cons poll_stream_logged [of "\<lparr>cs_inner = rest, cs_response_body = recorded limit seen, cs_logged = True,
          cs_events = [recorded limit seen]\<rparr>" n]
        by (simp add: poll_next_def log_once_def split_def Let_def)
    qed
  qed
qed

section \<open>Facts about headers\<close>

lemma copy_standard: "copy_forward_headers from target Forward_Standard = target @ filter (\<lambda>(n, v). \<not> is_hop_by_hop n) from"
  by (induction "from" target Forward_Standard rule: copy_forward_headers.induct) (simp_all add: hm_append_def)

lemma copy_upgrade: "copy_forward_headers from target Forward_Upgrade = target @ from"
  by (induction "from" target Forward_Upgrade rule: copy_forward_headers.induct) (simp_all add: hm_append_def)

lemma get_all_insert: "hm_get_all name (hm_insert n v headers) = (if name = n then [v] else hm_get_all name headers)"
  by (auto simp: hm_get_all_def hm_insert_def filter_empty_conv intro!: arg_cong [where f = "map snd"] filter_cong)

lemma get_all_filter:
  "\<not> is_hop_by_hop name \<Longrightarrow> hm_get_all name (filter (\<lambda>(n, v). \<not> is_hop_by_hop n) headers) = hm_get_all name headers"
  unfolding hm_get_all_def filter_filter
  by (intro arg_cong [where f = "map snd"] filter_cong) auto

definition forwarded_names :: "string list" where
  "forwarded_names = [''host'', ''x-forwarded-host'', ''x-forwarded-proto'', ''x-forwarded-port'']"

lemma forwarded_get_all:
  "name \<notin> set forwarded_names \<Longrightarrow> hm_get_all name (apply_forwarded_request_context inbound port outbound) = hm_get_all name outbound"
  by (simp add: apply_forwarded_request_context_def get_all_insert forwarded_names_def Let_def)

lemma forwarded_host:
  "hm_get_all ''host'' (apply_forwarded_request_context inbound port outbound) =
     [unwrap_or (hm_get ''host'' inbound) (ascii_bytes (''127.0.0.1:'' @ show_word port))]"
  by (simp add: apply_forwarded_request_context_def get_all_insert Let_def)

section \<open>Facts about entries\<close>

text \<open>Two lists of headers that differ at most in the values of credentials.\<close>

definition same_but_credentials :: "header_map \<Rightarrow> header_map \<Rightarrow> bool" where
  "same_but_credentials hs hs' \<longleftrightarrow>
     list_all2 (\<lambda>(n, v) (n', v'). n = n' \<and>
       (lowercase n \<notin> {''authorization'', ''cookie'', ''set-cookie'', ''proxy-authorization''} \<longrightarrow> v = v')) hs hs'"

lemma sanitized_into_same:
  "same_but_credentials hs hs' \<Longrightarrow> sanitized_into hw hs out = sanitized_into hw hs' out"
proof (induction hs arbitrary: hs' out)
  case (Cons h hs)
  then obtain h' rest where "hs' = h' # rest" "same_but_credentials hs rest"
    by (cases hs') (simp_all add: same_but_credentials_def)
  then show ?case using Cons
    by (cases h; cases h') (auto simp: same_but_credentials_def is_sensitive_header_def Let_def)
qed (simp add: same_but_credentials_def)

lemma content_type_same:
  "same_but_credentials hs hs' \<Longrightarrow> hm_get ''content-type'' hs = hm_get ''content-type'' hs'"
proof (induction hs arbitrary: hs')
  case (Cons h hs)
  have plain: "lowercase ''content-type'' = ''content-type''"
    by (simp add: lowercase_def to_ascii_lowercase_def is_ascii_upper_def)
  obtain h' rest where "hs' = h' # rest" "same_but_credentials hs rest"
    using Cons.prems by (cases hs') (simp_all add: same_but_credentials_def)
  then show ?case using Cons
    by (cases h; cases h') (auto simp: same_but_credentials_def hm_get_def plain)
qed (simp add: same_but_credentials_def hm_get_def)

lemma body_snapshot_same:
  assumes "same_but_credentials hs hs'"
  shows "body_snapshot hw hs body = body_snapshot hw hs' body"
proof -
  have "body_looks_json hw hs s = body_looks_json hw hs' s" for s
    using content_type_same [OF assms] by (simp add: body_looks_json_def header_to_str_def)
  then have "text_snapshot hw hs = text_snapshot hw hs'"
    by (simp add: text_snapshot_def fun_eq_iff)
  then show ?thesis unfolding body_snapshot_def by metis
qed

lemma sanitized_into_absent:
  "k \<notin> (lowercase \<circ> fst) ` set hs \<Longrightarrow> map_of (sanitized_into hw hs out) k = map_of out k"
  by (induction hs arbitrary: out) (auto simp: Let_def)

lemma sanitized_into_at:
  "lowercase n \<notin> (lowercase \<circ> fst) ` set post \<Longrightarrow>
   map_of (sanitized_into hw (pre @ (n, v) # post) out) (lowercase n) =
     Some (J_Str (if is_sensitive_header (lowercase n) then ''[redacted]'' else header_value_to_string hw v))"
proof (induction pre arbitrary: out)
  case Nil
  then show ?case using sanitized_into_absent [of "lowercase n" post hw] by (simp add: Let_def)
next
  case (Cons h pre)
  then show ?case by (cases h) (simp add: Let_def)
qed

section \<open>Every event is written, waiting or counted\<close>

text \<open>
  A run of the log: what was handed to it, and what was written, each item with the world it was written
  in. An item is an event or a number of events that were dropped.
\<close>

type_synonym written_item = "log_world \<times> (capture_log_event + nat)"

fun written_line :: "written_item \<Rightarrow> string" where
  "written_line (gw, Inl event) = line_text gw (event_entry (gw_http gw) event) @ [CHR 0x0A]"
| "written_line (gw, Inr count) = line_text gw (dropped_entry count) @ [CHR 0x0A]"

definition summary_of :: "log_world \<Rightarrow> capture_log \<Rightarrow> written_item list" where
  "summary_of gw log = (if kl_dropped log = 0 then [] else [(gw, Inr (kl_dropped log))])"

inductive capture_run :: "string \<Rightarrow> capture_log_event list \<Rightarrow> written_item list \<Rightarrow> capture_log \<Rightarrow> bool"
  for stored where
  opened: "open_capture_log True True stored = Inr log \<Longrightarrow> capture_run stored [] [] log"
| offered: "capture_run stored offered written log \<Longrightarrow> \<not> kl_closed log \<Longrightarrow>
    capture_run stored (offered @ [event]) written (log_write event log)"
| wrote: "capture_run stored offered written log \<Longrightarrow> gw_text_ok gw \<Longrightarrow> gw_end_ok gw \<Longrightarrow>
    kl_queue log = event # queue \<Longrightarrow>
    capture_run stored offered (written @ summary_of gw log @ [(gw, Inl event)]) (write_event gw log)"
| ticked: "capture_run stored offered written log \<Longrightarrow> gw_text_ok gw \<Longrightarrow> gw_end_ok gw \<Longrightarrow>
    capture_run stored offered (written @ summary_of gw log) (write_dropped_summary gw log)"
| finished: "capture_run stored offered written log \<Longrightarrow> gw_text_ok gw \<Longrightarrow> gw_end_ok gw \<Longrightarrow>
    kl_queue log = [] \<Longrightarrow>
    capture_run stored offered (written @ summary_of gw log) (finish_capture_log gw log)"

definition written_events :: "written_item list \<Rightarrow> capture_log_event list" where
  "written_events written = List.map_filter (\<lambda>(gw, item). case item of Inl event \<Rightarrow> Some event | Inr _ \<Rightarrow> None) written"

definition reported_drops :: "written_item list \<Rightarrow> nat" where
  "reported_drops written = sum_list (map (\<lambda>(gw, item). case item of Inl _ \<Rightarrow> 0 | Inr n \<Rightarrow> n) written)"

lemma written_append [simp]:
  "written_events (xs @ ys) = written_events xs @ written_events ys"
  "reported_drops (xs @ ys) = reported_drops xs + reported_drops ys"
  by (simp_all add: written_events_def reported_drops_def map_filter_def)

lemma written_singletons [simp]:
  "written_events [(gw, Inl event)] = [event]" "written_events (summary_of gw log) = []" "written_events [] = []"
  "reported_drops [(gw, Inl event)] = 0" "reported_drops (summary_of gw log) = kl_dropped log" "reported_drops [] = 0"
  by (simp_all add: written_events_def reported_drops_def summary_of_def map_filter_def)

lemma write_summary_fields:
  assumes "gw_text_ok gw" and "gw_end_ok gw"
  shows "kl_queue (write_dropped_summary gw log) = kl_queue log"
    and "kl_dropped (write_dropped_summary gw log) = 0"
    and "kl_file (write_dropped_summary gw log) = kl_file log @ concat (map written_line (summary_of gw log))"
  using assms by (simp_all add: write_dropped_summary_def write_log_entry_def summary_of_def)

lemma write_event_fields:
  assumes "gw_text_ok gw" and "gw_end_ok gw" and "kl_queue log = event # queue"
  shows "kl_queue (write_event gw log) = queue"
    and "kl_dropped (write_event gw log) = 0"
    and "kl_file (write_event gw log) =
      kl_file log @ concat (map written_line (summary_of gw log @ [(gw, Inl event)]))"
  using assms write_summary_fields [OF assms(1,2), of "log\<lparr>kl_queue := queue\<rparr>"]
  by (simp_all add: write_event_def write_log_entry_def summary_of_def)

definition log_invariant :: "string \<Rightarrow> capture_log_event list \<Rightarrow> written_item list \<Rightarrow> capture_log \<Rightarrow> bool" where
  "log_invariant stored offered written log \<longleftrightarrow>
     subseq (written_events written @ kl_queue log) offered \<and>
     length offered = length (written_events written) + length (kl_queue log) + kl_dropped log + reported_drops written \<and>
     length (kl_queue log) \<le> capture_log_queue \<and>
     kl_file log = stored @ concat (map written_line written)"

lemma capture_run_invariant: "capture_run stored offered written log \<Longrightarrow> log_invariant stored offered written log"
proof (induction rule: capture_run.induct)
  case (opened log)
  then show ?case by (auto simp: open_capture_log_def log_invariant_def)
next
  case (offered given written log event)
  then have kept: "subseq (written_events written @ kl_queue log) given" by (simp add: log_invariant_def)
  have "subseq (written_events written @ kl_queue log) (given @ [event])"
    using list_emb_append_mono [OF kept, of "[]" "[event]"] by simp
  moreover have "subseq (written_events written @ kl_queue log @ [event]) (given @ [event])"
    using list_emb_append_mono [OF kept, of "[event]" "[event]"] by simp
  ultimately show ?case using offered by (simp add: log_invariant_def log_write_def)
next
  case (wrote given written log gw event queue)
  then show ?case using write_event_fields [OF wrote(2,3,4)] by (simp add: log_invariant_def)
next
  case (ticked given written log gw)
  then show ?case using write_summary_fields [OF ticked(2,3), of log] by (simp add: log_invariant_def)
next
  case (finished given written log gw)
  then show ?case using write_summary_fields [OF finished(2,3), of log]
    by (simp add: log_invariant_def finish_capture_log_def)
qed

section \<open>Properties\<close>

lemma poll_stream_new:
  "fst (poll_stream n \<lparr>cs_inner = inner, cs_response_body = new_captured_body limit, cs_logged = False, cs_events = []\<rparr>) =
     take n inner \<and>
   cs_events (snd (poll_stream n \<lparr>cs_inner = inner, cs_response_body = new_captured_body limit, cs_logged = False, cs_events = []\<rparr>)) =
     [recorded limit (chunks_of (takeWhile not_failed (take n inner)))]"
  using poll_stream_records [of n inner limit "[]"] by (simp add: recorded_Nil)

lemma poll_request_new:
  "rs_capture (snd (poll_request n (capture_request_stream cc rq))) =
     recorded (cc_body_limit cc) (chunks_of (take n (into_data_stream (rq_body rq))))"
  using poll_request_passes [of n "capture_request_stream cc rq" "cc_body_limit cc" "[]"]
  by (simp add: capture_request_stream_def recorded_Nil)

lemma capture_body: "body_from_stream (request_stream_items (capture_request_stream cc rq)) = filter not_trailers (rq_body rq)"
  by (simp add: request_stream_items_eq capture_request_stream_def data_stream_body)

abbreviation captures :: "http_world \<Rightarrow> capture_config \<Rightarrow> http_request \<Rightarrow> bool" where
  "captures hw cc rq \<equiv> should_capture_request hw (cc_ignore_paths cc) (rq_method rq) (rq_path rq) (rq_headers rq)"

lemma proxy_request_forwarded:
  assumes "\<not> is_upgrade_request hw (rq_headers rq)"
    and "build_upstream_request hw cc rq (if captures hw cc rq then filter not_trailers (rq_body rq) else rq_body rq)
      Forward_Standard = Inr up" and "hw_send hw up = Inr response"
  shows "proxy_request hw cc rq =
    (response_with_body (rp_status response) (rp_headers response)
       (take (hw_response_polls hw) (if captures hw cc rq then filter not_trailers (rp_body response) else rp_body response))
       Forward_Standard,
     if captures hw cc rq
     then [Log_Api (api_record hw rq response
        (recorded (cc_body_limit cc) (chunks_of (take (hw_request_polls hw) (into_data_stream (rq_body rq)))))
        (recorded (cc_body_limit cc)
          (chunks_of (takeWhile not_failed (take (hw_response_polls hw) (into_data_stream (rp_body response)))))))]
     else [])"
  using assms poll_stream_new [of "hw_response_polls hw" "into_data_stream (rp_body response)" "cc_body_limit cc"]
  by (simp add: proxy_request_def proxy_request_inner_def forward_plain_def forward_captured_def poll_request_new
      capture_body take_stream_body Let_def split_def split: if_splits)

lemma upstream_parts:
  assumes "build_upstream_request hw cc rq body Forward_Standard = Inr up"
  shows "ur_method up = rq_method rq \<and> ur_version up = rq_version rq \<and> ur_body up = body"
    and "ur_uri up = ''http://127.0.0.1:'' @ show_word (cc_target_port cc) @ unwrap_or (rq_path_and_query rq) ''/''"
    and "\<not> is_hop_by_hop name \<Longrightarrow> name \<notin> set forwarded_names \<Longrightarrow>
      hm_get_all name (ur_headers up) = hm_get_all name (rq_headers rq)"
    and "hm_get_all ''host'' (ur_headers up) =
      [unwrap_or (hm_get ''host'' (rq_headers rq)) (ascii_bytes (''127.0.0.1:'' @ show_word (cc_public_port cc)))]"
proof -
  have up: "up = \<lparr>ur_method = rq_method rq, ur_version = rq_version rq,
      ur_uri = ''http://127.0.0.1:'' @ show_word (cc_target_port cc) @ unwrap_or (rq_path_and_query rq) ''/'',
      ur_headers = apply_forwarded_request_context (rq_headers rq) (cc_public_port cc)
        (filter (\<lambda>(n, v). \<not> is_hop_by_hop n) (rq_headers rq)),
      ur_body = body\<rparr>"
    using assms by (simp add: build_upstream_request_def Let_def copy_standard split: if_splits)
  show "ur_method up = rq_method rq \<and> ur_version up = rq_version rq \<and> ur_body up = body"
    and "ur_uri up = ''http://127.0.0.1:'' @ show_word (cc_target_port cc) @ unwrap_or (rq_path_and_query rq) ''/''"
    and "\<not> is_hop_by_hop name \<Longrightarrow> name \<notin> set forwarded_names \<Longrightarrow>
      hm_get_all name (ur_headers up) = hm_get_all name (rq_headers rq)"
    and "hm_get_all ''host'' (ur_headers up) =
      [unwrap_or (hm_get ''host'' (rq_headers rq)) (ascii_bytes (''127.0.0.1:'' @ show_word (cc_public_port cc)))]"
    using forwarded_host by (simp_all add: up forwarded_get_all get_all_filter)
qed

text \<open>
  C26. What the proxy forwards of an exchange that is no upgrade, recorded or not: the service gets the method,
  version and target of the request, every header that is not hop-by-hop or about the proxy, the public host,
  and the frames of the body in their order; the client gets the status, the headers that are not hop-by-hop
  and the frames of the answer as far as they are polled. Recording costs the trailers of both bodies, and
  nothing else.
\<close>

theorem capture_is_transparent:
  assumes "\<not> is_upgrade_request hw (rq_headers rq)"
    and "captured = should_capture_request hw (cc_ignore_paths cc) (rq_method rq) (rq_path rq) (rq_headers rq)"
    and "passed = (\<lambda>frames. if captured then filter (\<lambda>frame. \<forall>t. frame \<noteq> Trailer_Frame t) frames else frames)"
    and "build_upstream_request hw cc rq (passed (rq_body rq)) Forward_Standard = Inr up" and "hw_send hw up = Inr response"
  shows "fst (proxy_request hw cc rq) =
      \<lparr>rp_status = rp_status response, rp_headers = filter (\<lambda>(n, v). \<not> is_hop_by_hop n) (rp_headers response),
       rp_body = take (hw_response_polls hw) (passed (rp_body response))\<rparr> \<and>
    ur_method up = rq_method rq \<and> ur_version up = rq_version rq \<and> ur_body up = passed (rq_body rq) \<and>
    ur_uri up = ''http://127.0.0.1:'' @ show_word (cc_target_port cc) @ unwrap_or (rq_path_and_query rq) ''/'' \<and>
    (\<forall>name. \<not> is_hop_by_hop name \<longrightarrow> name \<notin> set forwarded_names \<longrightarrow>
      hm_get_all name (ur_headers up) = hm_get_all name (rq_headers rq)) \<and>
    hm_get_all ''host'' (ur_headers up) =
      [unwrap_or (hm_get ''host'' (rq_headers rq)) (ascii_bytes (''127.0.0.1:'' @ show_word (cc_public_port cc)))]"
proof -
  have "fst (proxy_request hw cc rq) =
      \<lparr>rp_status = rp_status response, rp_headers = filter (\<lambda>(n, v). \<not> is_hop_by_hop n) (rp_headers response),
       rp_body = take (hw_response_polls hw) (passed (rp_body response))\<rparr>"
    using proxy_request_forwarded [of hw rq cc up response] assms
    by (simp add: response_with_body_def copy_standard split: if_splits)
  then show ?thesis using upstream_parts [OF assms(4)] by blast
qed

text \<open>
  C27. An exchange that is to be recorded is handed to the log exactly once, however often its body is
  polled and whether it ends, fails or is dropped: with the first bytes of the data of both bodies up to the
  limit, as far as they were read, and the number of bytes read.
\<close>

theorem exchange_recorded_once:
  assumes "\<not> is_upgrade_request hw (rq_headers rq)"
    and "should_capture_request hw (cc_ignore_paths cc) (rq_method rq) (rq_path rq) (rq_headers rq)"
    and "build_upstream_request hw cc rq (filter (\<lambda>frame. \<forall>t. frame \<noteq> Trailer_Frame t) (rq_body rq)) Forward_Standard = Inr up"
    and "hw_send hw up = Inr response"
  shows "snd (proxy_request hw cc rq) = [Log_Api (api_record hw rq response
      (recorded (cc_body_limit cc) (chunks_of (take (hw_request_polls hw) (into_data_stream (rq_body rq)))))
      (recorded (cc_body_limit cc)
        (chunks_of (takeWhile not_failed (take (hw_response_polls hw) (into_data_stream (rp_body response)))))))]"
  using proxy_request_forwarded [of hw rq cc up response] assms by simp

text \<open>
  C28. The values of credential headers do not reach the log: two exchanges that differ only in the values of
  authorization, cookie, set-cookie and proxy-authorization headers, whatever their number and the case of
  their names, give the same entry. Every other header is shown with its value, the last one of its name.
\<close>

theorem credentials_not_logged:
  assumes "same_but_credentials (ca_request_headers ca) request_headers"
    and "same_but_credentials (ca_response_headers ca) response_headers"
  shows "capture_entry hw (ca\<lparr>ca_request_headers := request_headers, ca_response_headers := response_headers\<rparr>) = capture_entry hw ca \<and>
    (\<forall>pre n v post. lowercase n \<notin> {''authorization'', ''cookie'', ''set-cookie'', ''proxy-authorization''} \<longrightarrow>
       lowercase n \<notin> (lowercase \<circ> fst) ` set post \<longrightarrow>
       (\<exists>shown. sanitized_headers hw (pre @ (n, v) # post) = J_Obj shown \<and>
          map_of shown (lowercase n) = Some (J_Str (header_value_to_string hw v))))"
proof -
  have "sanitized_headers hw request_headers = sanitized_headers hw (ca_request_headers ca)"
    "sanitized_headers hw response_headers = sanitized_headers hw (ca_response_headers ca)"
    using sanitized_into_same [OF assms(1)] sanitized_into_same [OF assms(2)] by (simp_all add: sanitized_headers_def)
  then have "capture_entry hw (ca\<lparr>ca_request_headers := request_headers, ca_response_headers := response_headers\<rparr>) = capture_entry hw ca"
    using body_snapshot_same [OF assms(1)] body_snapshot_same [OF assms(2)] by (simp add: capture_entry_def)
  moreover have "map_of (sanitized_into hw (pre @ (n, v) # post) []) (lowercase n) = Some (J_Str (header_value_to_string hw v))"
    if "lowercase n \<notin> {''authorization'', ''cookie'', ''set-cookie'', ''proxy-authorization''}"
      and "lowercase n \<notin> (lowercase \<circ> fst) ` set post" for pre n v post
    using sanitized_into_at [OF that(2)] that(1) by (simp add: is_sensitive_header_def)
  ultimately show ?thesis by (auto simp: sanitized_headers_def)
qed

lemma log_accounts:
  assumes "capture_run stored offered written log"
  shows "subseq (written_events written @ kl_queue log) offered"
    and "length offered =
      length (written_events written) + length (kl_queue log) + kl_dropped log + reported_drops written"
    and "length (kl_queue log) \<le> 1024"
    and "kl_file log = stored @ concat (map written_line written)"
    and "kl_dropped log = 0 \<Longrightarrow> reported_drops written = 0 \<Longrightarrow> written_events written @ kl_queue log = offered"
proof -
  have inv: "log_invariant stored offered written log" by (rule capture_run_invariant [OF assms])
  then show kept: "subseq (written_events written @ kl_queue log) offered"
    and count: "length offered =
      length (written_events written) + length (kl_queue log) + kl_dropped log + reported_drops written"
    and "length (kl_queue log) \<le> 1024" and "kl_file log = stored @ concat (map written_line written)"
    by (simp_all add: log_invariant_def capture_log_queue_def)
  show "written_events written @ kl_queue log = offered" if "kl_dropped log = 0" "reported_drops written = 0"
    using subseq_same_length [OF kept] count that by simp
qed

text \<open>
  Whatever is handed to an open log is written, waits in the bounded queue, or is counted as dropped and
  reported: nothing is lost silently, nothing is written twice, and the events are written in the order they
  came.
\<close>

theorem capture_log_accounts_for_events:
  assumes "capture_run stored offered written log"
  shows "subseq (written_events written @ kl_queue log) offered \<and>
    length offered =
      length (written_events written) + length (kl_queue log) + kl_dropped log + reported_drops written \<and>
    length (kl_queue log) \<le> 1024 \<and>
    kl_file log = stored @ concat (map written_line written) \<and>
    (kl_dropped log = 0 \<longrightarrow> reported_drops written = 0 \<longrightarrow> written_events written @ kl_queue log = offered)"
  using log_accounts [OF assms] by blast

text \<open>
  A body that starts with text and goes on with bytes that are none is shown as that text, not as binary and
  not as truncated.
\<close>

theorem binary_body_shown_as_text:
  assumes "cb_captured body = bs" and "unat (cb_total_bytes body) = length bs"
    and "utf8_valid_up_to bs = n" and "0 < n" and "n < length bs"
  shows "body_snapshot hw headers body = J_Obj [(''bytes'', J_Num (int (length bs))),
     (''captured_bytes'', J_Num (int (length bs))), (''truncated'', J_Bool False),
     text_snapshot hw headers (hw_decode hw (take n bs))]"
  using assms by (auto simp: body_snapshot_def captured_text_def Let_def)

text \<open>An upgrade the service refuses is not recorded, whatever the configuration says.\<close>

theorem refused_upgrade_not_recorded:
  assumes "is_upgrade_request hw (rq_headers rq)"
    and "build_upstream_request hw cc rq [] Forward_Upgrade = Inr up" and "hw_send hw up = Inr response"
    and "rp_status response \<noteq> 101"
  shows "snd (proxy_request hw cc rq) = []"
  using assms by (simp add: proxy_request_def proxy_request_inner_def proxy_upgrade_request_def)

text \<open>
  Binding the public port is tried for a bounded time: when every wait takes at least its 25 ms, one of
  the first 31 attempts ends it, with the port or with an error.
\<close>

theorem bind_attempts_bounded:
  assumes "\<And>i. i < length attempts \<Longrightarrow> 25 * i \<le> snd (attempts ! i)" and "31 \<le> length attempts"
  shows "bind_capture_listener cc (take 31 attempts) \<noteq> None"
proof -
  have "bind_capture_listener cc (take (31 - k) (drop k attempts)) \<noteq> None" if "k \<le> 30" for k
    using that
  proof (induction "30 - k" arbitrary: k)
    case 0
    then have "k = 30" by simp
    then obtain a e rest where drop: "drop 30 attempts = (a, e) # rest"
      using assms(2) by (cases "drop 30 attempts") auto
    then have "attempts ! 30 = (a, e)" using assms(2) by (metis nth_via_drop)
    then have "750 \<le> e" using assms(1) [of 30] assms(2) by simp
    then show ?case using drop \<open>k = 30\<close> by (cases a) (simp_all add: bind_retry_timeout_def)
  next
    case (Suc n)
    then obtain a e rest where drop: "drop k attempts = (a, e) # rest"
      using assms(2) by (cases "drop k attempts") auto
    then have rest: "rest = drop (Suc k) attempts" by (metis drop_Suc list.sel(3) tl_drop)
    have "31 - k = Suc (31 - Suc k)" using Suc(2) by simp
    then show ?case using Suc(1) [of "Suc k"] Suc(2,3) drop rest by (cases a) (auto simp: rest)
  qed
  from this [of 0] show ?thesis by simp
qed

text \<open>
  The line written about an exchange is read back by the log reader as what it is: a line of the stream
  api with the time it was written, the message that names the exchange, and a level that follows the status.
  (The printer and the parser round-trip on the two objects.)
\<close>

lemma status_level_token: "normalize_level_token (status_level status) = Some (status_level status)"
proof -
  have "normalize_level_token ''error'' = Some ''error''" "normalize_level_token ''warn'' = Some ''warn''"
    "normalize_level_token ''info'' = Some ''info''"
    by code_simp+
  then show ?thesis by (simp add: status_level_def)
qed

lemma braces_no_newline: "trim_newlines (''{'' @ s @ ''}'') = ''{'' @ s @ ''}''"
  by (simp add: trim_newlines_def)

lemma braces_start: "starts_with (trim_start (''{'' @ s @ ''}'')) ''{''"
  by (simp add: trim_start_def is_whitespace_def)

definition exchange_message :: "capture_api_record \<Rightarrow> string" where
  "exchange_message ca = ca_method ca @ '' '' @ ca_target ca @ '' -> '' @ show_nat (ca_status ca) @ '' ('' @
     show_nat (ca_duration_ms ca) @ '' ms)''"

definition entry_fields :: "json \<Rightarrow> json_map" where
  "entry_fields entry = (case entry of J_Obj m \<Rightarrow> m | _ \<Rightarrow> [])"

definition wrapped_entry :: "log_world \<Rightarrow> json \<Rightarrow> json_map" where
  "wrapped_entry gw entry =
     jo_insert ''stream'' (J_Str ''api'') (jo_insert ''time'' (J_Str (gw_now gw)) (entry_fields entry))"

theorem captured_line_read_back:
  assumes "gw_print gw (capture_entry (gw_http gw) ca) = ''{'' @ b1 @ ''}''"
    and "hw_parse (gw_http gw) (''{'' @ b1 @ ''}'') = Some (capture_entry (gw_http gw) ca)"
    and "gw_print gw (J_Obj (wrapped_entry gw (capture_entry (gw_http gw) ca))) = ''{'' @ b2 @ ''}''"
    and "hw_parse (gw_http gw) (''{'' @ b2 @ ''}'') = Some (J_Obj (wrapped_entry gw (capture_entry (gw_http gw) ca)))"
  shows "parse_log_line (hw_parse (gw_http gw)) (line_text gw (capture_entry (gw_http gw) ca)) =
    \<lparr>pl_timestamp = Some (gw_now gw), pl_stream = ''api'', pl_message = exchange_message ca,
     pl_level = status_level (ca_status ca),
     pl_json = Some (wrapped_entry gw (capture_entry (gw_http gw) ca))\<rparr>"
proof -
  define m where "m = entry_fields (capture_entry (gw_http gw) ca)"
  define w where "w = wrapped_entry gw (capture_entry (gw_http gw) ca)"
  have entry: "capture_entry (gw_http gw) ca = J_Obj m"
    by (simp add: m_def entry_fields_def capture_entry_def)
  have line: "line_text gw (capture_entry (gw_http gw) ca) = ''{'' @ b2 @ ''}''"
    using assms(1-3) braces_start [of b1] braces_no_newline [of b1]
    by (simp add: line_text_def encode_log_line_def log_payload_def wrapped_entry_def entry entry_fields_def)
  have object: "parse_json_object (hw_parse (gw_http gw)) (''{'' @ b2 @ ''}'') = Some w"
    using assms(4) trim_braces [of b2] by (simp add: parse_json_object_def w_def)
  have fields: "map_of w ''stream'' = Some (J_Str ''api'')" "map_of w ''time'' = Some (J_Str (gw_now gw))"
    "map_of w ''msg'' = Some (J_Str (exchange_message ca))"
    "map_of w ''level'' = Some (J_Str (status_level (ca_status ca)))"
    by (simp_all add: w_def wrapped_entry_def entry_fields_def capture_entry_def exchange_message_def)
  show ?thesis
    unfolding line parse_log_line_def object w_def [symmetric]
    by (simp add: first_field_def List.map_filter_simps object_stream_def object_message_def object_level_def fields
        normalize_level_value_def status_level_token)
qed

section \<open>Witnesses\<close>

definition example_http :: http_world where
  "example_http =
     \<lparr>hw_send = (\<lambda>up. Inr \<lparr>rp_status = 200, rp_headers = [(''connection'', [1]), (''set-cookie'', [2])],
          rp_body = [Data_Frame [104, 105], Data_Frame [33], Trailer_Frame [], Frame_Failed]\<rparr>),
      hw_valid_uri = (\<lambda>_. True), hw_to_str = (\<lambda>_. Some ''text''), hw_decode = (\<lambda>bs. map (\<lambda>b. char_of (unat b)) bs),
      hw_parse = (\<lambda>_. None), hw_request_polls = 1, hw_response_polls = 5, hw_elapsed_ms = 12\<rparr>"

definition example_capture :: capture_config where
  "example_capture = \<lparr>cc_run_id = ''r1'', cc_service = ''web'', cc_public_port = 3000, cc_target_port = 3001,
     cc_body_limit = 2, cc_ignore_paths = [''/health*'']\<rparr>"

definition example_request :: http_request where
  "example_request = \<lparr>rq_method = ''POST'', rq_version = ''HTTP/1.1'', rq_path = ''/a'',
     rq_path_and_query = Some ''/a?q=1'', rq_headers = [(''host'', [9]), (''accept'', [7]), (''te'', [5])],
     rq_body = [Data_Frame [1, 2, 3], Data_Frame [4], Trailer_Frame []]\<rparr>"

definition example_upstream :: upstream_request where
  "example_upstream = \<lparr>ur_method = ''POST'', ur_version = ''HTTP/1.1'', ur_uri = ''http://127.0.0.1:3001/a?q=1'',
     ur_headers = [(''accept'', [7]), (''host'', [9]), (''x-forwarded-host'', [9]),
       (''x-forwarded-proto'', ascii_bytes ''http''), (''x-forwarded-port'', ascii_bytes ''3000'')],
     ur_body = [Data_Frame [1, 2, 3], Data_Frame [4]]\<rparr>"

lemma example_exchange:
  "\<not> is_upgrade_request example_http (rq_headers example_request)"
  "should_capture_request example_http (cc_ignore_paths example_capture) (rq_method example_request)
     (rq_path example_request) (rq_headers example_request)"
  "hw_send example_http up = Inr \<lparr>rp_status = 200, rp_headers = [(''connection'', [1]), (''set-cookie'', [2])],
     rp_body = [Data_Frame [104, 105], Data_Frame [33], Trailer_Frame [], Frame_Failed]\<rparr>"
  by (simp_all add: is_upgrade_request_def header_contains_token_def hm_get_all_def example_request_def example_capture_def
      example_http_def should_capture_request_def should_ignore_path_def path_matches_def trim_def trim_start_def
      trim_end_def is_whitespace_def is_browser_non_xhr_request_def header_eq_ignore_ascii_case_def header_to_str_def hm_get_def)

lemma example_built:
  "build_upstream_request example_http example_capture example_request
     (filter (\<lambda>frame. \<forall>t. frame \<noteq> Trailer_Frame t) (rq_body example_request)) Forward_Standard = Inr example_upstream"
proof -
  have "show_word (3001 :: u16) = ''3001''" "show_word (3000 :: u16) = ''3000''" by code_simp+
  then show ?thesis
    by (simp add: build_upstream_request_def example_http_def example_capture_def example_request_def example_upstream_def
        apply_forwarded_request_context_def hm_get_def hm_insert_def copy_standard is_hop_by_hop_def hop_by_hop_names_def Let_def)
qed

theorem capture_is_transparent_witness:
  "fst (proxy_request example_http example_capture example_request) =
     \<lparr>rp_status = 200, rp_headers = [(''set-cookie'', [2])], rp_body = [Data_Frame [104, 105], Data_Frame [33], Frame_Failed]\<rparr> \<and>
   ur_body example_upstream = [Data_Frame [1, 2, 3], Data_Frame [4]]"
proof -
  have captured: "True = should_capture_request example_http (cc_ignore_paths example_capture) (rq_method example_request)
     (rq_path example_request) (rq_headers example_request)"
    using example_exchange(2) by simp
  note fact = capture_is_transparent [OF example_exchange(1) captured refl _ example_exchange(3), of example_upstream]
  show ?thesis using fact example_built
    by (simp add: is_hop_by_hop_def hop_by_hop_names_def example_http_def example_upstream_def)
qed

text \<open>A cookie and a token with other values, in a message that also has a content type.\<close>

definition secret_exchange :: capture_api_record where
  "secret_exchange = \<lparr>ca_method = ''GET'', ca_path = ''/a'', ca_target = ''/a'',
     ca_request_headers = [(''Cookie'', [1]), (''content-type'', [2]), (''authorization'', [3])],
     ca_request_body = new_captured_body 0, ca_status = 200, ca_response_headers = [(''set-cookie'', [4])],
     ca_response_body = new_captured_body 0, ca_duration_ms = 1\<rparr>"

theorem credentials_not_logged_witness:
  "capture_entry example_http (secret_exchange\<lparr>
     ca_request_headers := [(''Cookie'', [7, 8]), (''content-type'', [2]), (''authorization'', [])],
     ca_response_headers := [(''set-cookie'', [9])]\<rparr>) = capture_entry example_http secret_exchange"
proof -
  have lower: "lowercase ''Cookie'' = ''cookie''" "lowercase ''authorization'' = ''authorization''"
    "lowercase ''set-cookie'' = ''set-cookie''"
    by code_simp+
  show ?thesis
    by (rule conjunct1 [OF credentials_not_logged])
      (simp_all add: same_but_credentials_def secret_exchange_def lower)
qed

theorem exchange_recorded_once_witness:
  "snd (proxy_request example_http example_capture example_request) =
     [Log_Api (api_record example_http example_request
        \<lparr>rp_status = 200, rp_headers = [(''connection'', [1]), (''set-cookie'', [2])],
         rp_body = [Data_Frame [104, 105], Data_Frame [33], Trailer_Frame [], Frame_Failed]\<rparr>
        \<lparr>cb_total_bytes = 3, cb_captured = [1, 2], cb_limit = 2\<rparr>
        \<lparr>cb_total_bytes = 3, cb_captured = [104, 105], cb_limit = 2\<rparr>)]"
  using exchange_recorded_once [OF example_exchange(1,2) example_built example_exchange(3)]
  by (simp add: recorded_def saturating_add_def example_capture_def example_http_def example_request_def)

definition example_log_world :: log_world where
  "example_log_world = \<lparr>gw_http = example_http, gw_print = (\<lambda>_. ''{}''), gw_now = ''now'', gw_text_ok = True, gw_end_ok = True\<rparr>"

definition example_log :: capture_log where
  "example_log = \<lparr>kl_queue = [], kl_closed = False, kl_dropped = 0, kl_file = ''''\<rparr>"

theorem capture_log_accounts_for_events_witness:
  "capture_run '''' [Log_Entry J_Null] [(example_log_world, Inl (Log_Entry J_Null))]
     (write_event example_log_world (log_write (Log_Entry J_Null) example_log)) \<and>
   subseq [Log_Entry J_Null] [Log_Entry J_Null] \<and>
   kl_file (write_event example_log_world (log_write (Log_Entry J_Null) example_log)) = ''{}'' @ [CHR 0x0A]"
proof -
  have run: "capture_run '''' ([] @ [Log_Entry J_Null]) [] (log_write (Log_Entry J_Null) example_log)"
    by (intro capture_run.offered capture_run.opened) (simp_all add: open_capture_log_def example_log_def)
  have run2: "capture_run '''' [Log_Entry J_Null] [(example_log_world, Inl (Log_Entry J_Null))]
     (write_event example_log_world (log_write (Log_Entry J_Null) example_log))"
    using capture_run.wrote [OF run, of example_log_world "Log_Entry J_Null" "[]"]
    by (simp add: example_log_world_def example_log_def log_write_def capture_log_queue_def summary_of_def)
  then show ?thesis
    using capture_log_accounts_for_events [OF run2]
    by (simp add: line_text_def encode_log_line_def example_log_world_def)
qed

theorem bind_attempts_bounded_witness:
  "bind_capture_listener example_capture (take 31 (map (\<lambda>i. (Address_In_Use, 25 * i)) [0..<40])) \<noteq> None"
  by (rule bind_attempts_bounded) simp_all

theorem binary_body_shown_as_text_witness:
  "body_snapshot example_http [] \<lparr>cb_total_bytes = 4, cb_captured = [0x1F, 0x8B, 8, 0], cb_limit = 100\<rparr> =
     J_Obj [(''bytes'', J_Num 4), (''captured_bytes'', J_Num 4), (''truncated'', J_Bool False), (''text'', J_Str [CHR 0x1F])]"
proof -
  have n: "utf8_valid_up_to [0x1F, 0x8B, 8, 0] = 1"
    by (simp add: utf8_valid_up_to.simps sequence_length_def)
  have decoded: "text_snapshot example_http [] (hw_decode example_http [0x1F]) = (''text'', J_Str [CHR 0x1F])"
    by code_simp
  show ?thesis
    using binary_body_shown_as_text [of "\<lparr>cb_total_bytes = 4, cb_captured = [0x1F, 0x8B, 8, 0], cb_limit = 100\<rparr>"
        "[0x1F, 0x8B, 8, 0]" 1 example_http "[]"] n decoded
    by simp
qed

definition plain_exchange :: capture_api_record where
  "plain_exchange = \<lparr>ca_method = ''POST'', ca_path = ''/a'', ca_target = ''/a?q=1'', ca_request_headers = [],
     ca_request_body = new_captured_body 0, ca_status = 404, ca_response_headers = [],
     ca_response_body = new_captured_body 0, ca_duration_ms = 12\<rparr>"

definition round_trip_world :: log_world where
  "round_trip_world =
     (let entry = capture_entry example_http plain_exchange in
      \<lparr>gw_http = example_http\<lparr>hw_parse := (\<lambda>s. if s = ''{a}'' then Some entry else
          Some (J_Obj (jo_insert ''stream'' (J_Str ''api'') (jo_insert ''time'' (J_Str ''now'') (entry_fields entry)))))\<rparr>,
       gw_print = (\<lambda>v. if v = entry then ''{a}'' else ''{b}''), gw_now = ''now'', gw_text_ok = True, gw_end_ok = True\<rparr>)"

lemma plain_entry: "capture_entry (example_http\<lparr>hw_parse := p\<rparr>) plain_exchange = capture_entry example_http plain_exchange"
  by (simp add: capture_entry_def plain_exchange_def sanitized_headers_def body_snapshot_def new_captured_body_def)

theorem captured_line_read_back_witness:
  "parse_log_line (hw_parse (gw_http round_trip_world)) (line_text round_trip_world (capture_entry (gw_http round_trip_world) plain_exchange)) =
    \<lparr>pl_timestamp = Some ''now'', pl_stream = ''api'', pl_message = ''POST /a?q=1 -> 404 (12 ms)'',
     pl_level = ''warn'', pl_json = Some (wrapped_entry round_trip_world (capture_entry (gw_http round_trip_world) plain_exchange))\<rparr>"
proof -
  have entry: "capture_entry (gw_http round_trip_world) plain_exchange = capture_entry example_http plain_exchange"
    by (simp add: round_trip_world_def Let_def plain_entry)
  have other: "J_Obj (wrapped_entry round_trip_world (capture_entry example_http plain_exchange)) \<noteq>
      capture_entry example_http plain_exchange"
    by (simp add: wrapped_entry_def entry_fields_def capture_entry_def)
  have message: "exchange_message plain_exchange = ''POST /a?q=1 -> 404 (12 ms)''" "status_level (ca_status plain_exchange) = ''warn''"
    by (simp_all add: exchange_message_def plain_exchange_def status_level_def) code_simp
  have "gw_print round_trip_world (capture_entry (gw_http round_trip_world) plain_exchange) = ''{'' @ ''a'' @ ''}''"
    "hw_parse (gw_http round_trip_world) (''{'' @ ''a'' @ ''}'') = Some (capture_entry (gw_http round_trip_world) plain_exchange)"
    "gw_print round_trip_world (J_Obj (wrapped_entry round_trip_world (capture_entry (gw_http round_trip_world) plain_exchange))) = ''{'' @ ''b'' @ ''}''"
    "hw_parse (gw_http round_trip_world) (''{'' @ ''b'' @ ''}'') =
      Some (J_Obj (wrapped_entry round_trip_world (capture_entry (gw_http round_trip_world) plain_exchange)))"
    unfolding entry using other by (simp_all add: round_trip_world_def Let_def wrapped_entry_def)
  from captured_line_read_back [OF this] show ?thesis
    unfolding message by (simp add: round_trip_world_def Let_def)
qed

end
