(* ===== verification/Log_Index.thy ===== *)
theory Log_Index
  imports Logfmt Utf8
begin

text \<open>
  The index of log lines, \<open>src/src/infra/logs/index/\<close>: how log files are read from where the last
  reading ended, split into lines and turned into documents, how documents and cursors are committed, and
  how runs and old documents are removed. The search library keeps a set of documents, here the list in
  the order they were added: deleting by a query, adding and committing are its documented operations,
  and whether a commit, the reload of the reader or a write of the state succeeds is a parameter. What is
  queued in its writer by a commit that fails is not modelled.
\<close>

section \<open>State\<close>

record log_source =
  lg_run_id :: string
  lg_service :: string
  lg_path :: string

text \<open>Offsets and sequence numbers are 64 bits wide, and additions saturate.\<close>

definition sat_add :: "nat \<Rightarrow> nat \<Rightarrow> nat" where
  "sat_add a b = min (a + b) (2 ^ 64 - 1)"

record ingest_cursor =
  ic_offset :: nat
  ic_next_seq :: nat

definition default_cursor :: ingest_cursor where
  "default_cursor = \<lparr>ic_offset = 0, ic_next_seq = 0\<rparr>"

record ingest_state =
  ig_version :: nat
  ig_sources :: "(string, ingest_cursor) bmap"
  ig_facet_fields :: "(string, (string, unit) bmap) bmap"

record log_doc =
  ld_run_id :: string
  ld_service :: string
  ld_stream :: string
  ld_level :: string
  ld_ts_nanos :: int
  ld_ts :: string
  ld_seq :: nat
  ld_message :: string
  ld_raw :: string
  ld_attrs :: "(string, string) bmap"

record facet_cache_key =
  fk_run_id :: string
  fk_service :: "string option"
  fk_since :: "string option"
  fk_search :: "string option"
  fk_level :: "string option"
  fk_stream :: "string option"

text \<open>The cache of answers about facets holds answers of some type \<open>'r\<close>.\<close>

record 'r log_index =
  li_docs :: "log_doc list"
  li_ingest :: ingest_state
  li_stored :: "ingest_state option"
  li_facet_cache :: "(facet_cache_key \<times> 'r) list"

record pending_update =
  gu_key :: string
  gu_cursor :: ingest_cursor
  gu_run_id :: string
  gu_service :: string
  gu_delete_from_seq :: "nat option"

record ingest_batch =
  bt_updates :: "pending_update list"
  bt_docs :: "log_doc list"
  bt_doc_bytes :: nat
  bt_field_names :: "(string, (string, unit) bmap) bmap"

definition empty_batch :: ingest_batch where
  "empty_batch = \<lparr>bt_updates = [], bt_docs = [], bt_doc_bytes = 0, bt_field_names = []\<rparr>"

text \<open>
  What is outside: the metadata of a path (a regular file or not, its length); the chunks that are read
  from an offset to the end; the text of valid UTF-8; the parsers of JSON and timestamps; and which
  commits, reloads and writes fail.
\<close>

record index_world =
  xw_meta :: "string \<Rightarrow> (bool \<times> nat) option"
  xw_read :: "string \<Rightarrow> nat \<Rightarrow> bytes result list result"
  xw_text :: "bytes \<Rightarrow> string"
  xw_parse :: json_parser
  xw_nanos :: "string \<Rightarrow> int option"
  xw_commit :: "pending_update list \<Rightarrow> string option"
  xw_reload :: "string option"
  xw_save :: "string option"

definition source_key :: "string \<Rightarrow> string \<Rightarrow> string" where
  "source_key run_id service = run_id @ ''/'' @ service"

definition ingest_cursor_of :: "string \<Rightarrow> string \<Rightarrow> 'r log_index \<Rightarrow> ingest_cursor option" where
  "ingest_cursor_of run_id service li = map_of (ig_sources (li_ingest li)) (source_key run_id service)"

definition sources_are_current :: "index_world \<Rightarrow> log_source list \<Rightarrow> 'r log_index \<Rightarrow> bool" where
  "sources_are_current xw sources li \<longleftrightarrow>
     list_all (\<lambda>s. case xw_meta xw (lg_path s) of
        None \<Rightarrow> True
      | Some (is_file, len) \<Rightarrow>
          if \<not> is_file then True
          else (case ingest_cursor_of (lg_run_id s) (lg_service s) li of
                  None \<Rightarrow> False | Some cursor \<Rightarrow> ic_offset cursor = len)) sources"

section \<open>Fields of a JSON line\<close>

fun normalize_chars :: "bool \<Rightarrow> string \<Rightarrow> string" where
  "normalize_chars last_was_underscore [] = []"
| "normalize_chars last_was_underscore (c # cs) =
     (if is_ascii_alphanumeric c then to_ascii_lowercase c # normalize_chars False cs
      else if \<not> last_was_underscore then CHR ''_'' # normalize_chars True cs
      else normalize_chars True cs)"

definition trim_underscores :: "string \<Rightarrow> string" where
  "trim_underscores s = rev (dropWhile (\<lambda>c. c = CHR ''_'') (rev (dropWhile (\<lambda>c. c = CHR ''_'') s)))"

definition normalize_dynamic_field_name :: "string \<Rightarrow> string option" where
  "normalize_dynamic_field_name name =
     (let normalized = trim_underscores (normalize_chars False name) in
      if normalized = [] then None else Some normalized)"

definition reserved_dynamic_fields :: "string list" where
  "reserved_dynamic_fields =
     [''time'', ''ts'', ''timestamp'', ''msg'', ''message'', ''level'', ''severity'', ''stream'', ''run_id'',
      ''service'', ''ts_nanos'', ''seq'', ''raw'']"

definition dynamic_value_to_string :: "json \<Rightarrow> string option" where
  "dynamic_value_to_string v =
     (case value_as_string v of
        None \<Rightarrow> None
      | Some s \<Rightarrow> if s = [] \<or> 256 < length s then None else Some s)"

definition dynamic_field :: "string \<times> json \<Rightarrow> (string \<times> string) option" where
  "dynamic_field = (\<lambda>(name, v).
     Option.bind (normalize_dynamic_field_name name) (\<lambda>field.
       if field \<in> set reserved_dynamic_fields then None
       else map_option (Pair field) (dynamic_value_to_string v)))"

definition extract_dynamic_json_fields :: "json_map \<Rightarrow> (string, string) bmap" where
  "extract_dynamic_json_fields m =
     fold (\<lambda>(field, v) fields. bm_or_insert field v fields) (List.map_filter dynamic_field m) []"

section \<open>Collecting lines\<close>

text \<open>\<open>split_inclusive('\n')\<close> and \<open>trim_end_matches(['\r', '\n'])\<close> on the bytes of a text.\<close>

fun split_inclusive :: "bytes \<Rightarrow> bytes list" where
  "split_inclusive [] = []"
| "split_inclusive (b # bs) =
     (if b = newline then [b] # split_inclusive bs
      else (case split_inclusive bs of [] \<Rightarrow> [[b]] | l # ls \<Rightarrow> (b # l) # ls))"

definition trim_line_end :: "bytes \<Rightarrow> bytes" where
  "trim_line_end l = rev (dropWhile (\<lambda>b. b = 0x0D \<or> b = newline) (rev l))"

text \<open>The document of a line, and whether it is old enough to be left out.\<close>

definition line_doc :: "index_world \<Rightarrow> log_source \<Rightarrow> nat \<Rightarrow> bytes \<Rightarrow> log_doc" where
  "line_doc xw s seq raw =
     (let line = strip_ansi_if_needed (xw_text xw raw);
          parsed = parse_log_line (xw_parse xw) line;
          ts = unwrap_or (pl_timestamp parsed) [] in
      \<lparr>ld_run_id = lg_run_id s, ld_service = lg_service s, ld_stream = pl_stream parsed,
       ld_level = pl_level parsed, ld_ts_nanos = unwrap_or (xw_nanos xw ts) 0, ld_ts = ts, ld_seq = seq,
       ld_message = pl_message parsed, ld_raw = line,
       ld_attrs = (case pl_json parsed of None \<Rightarrow> [] | Some m \<Rightarrow> extract_dynamic_json_fields m)\<rparr>)"

definition too_old :: "int option \<Rightarrow> log_doc \<Rightarrow> bool" where
  "too_old min_ts_nanos d \<longleftrightarrow> (case min_ts_nanos of None \<Rightarrow> False | Some min_ts \<Rightarrow> ld_ts_nanos d < min_ts)"

definition add_field_names :: "string \<Rightarrow> string list \<Rightarrow> (string, (string, unit) bmap) bmap \<Rightarrow> (string, (string, unit) bmap) bmap" where
  "add_field_names key names m =
     (if names = [] then m
      else bm_insert key (fold (\<lambda>name fields. bm_insert name () fields) names (unwrap_or (map_of m key) [])) m)"

definition add_doc :: "log_doc \<Rightarrow> ingest_batch \<Rightarrow> ingest_batch" where
  "add_doc d batch =
     batch\<lparr>bt_doc_bytes := sat_add (sat_add (bt_doc_bytes batch) (utf8_length (ld_raw d))) (utf8_length (ld_message d)),
           bt_field_names := add_field_names (source_key (ld_run_id d) (ld_service d)) (bm_keys (ld_attrs d))
             (bt_field_names batch),
           bt_docs := bt_docs batch @ [d]\<rparr>"

fun record_update_in :: "pending_update \<Rightarrow> pending_update list \<Rightarrow> pending_update list" where
  "record_update_in u [] = [u]"
| "record_update_in u (existing # rest) =
     (if gu_key existing = gu_key u then
        existing\<lparr>gu_cursor := gu_cursor u,
          gu_delete_from_seq := opt_or (gu_delete_from_seq existing) (gu_delete_from_seq u)\<rparr> # rest
      else existing # record_update_in u rest)"

definition record_update :: "pending_update \<Rightarrow> ingest_batch \<Rightarrow> ingest_batch" where
  "record_update u batch = batch\<lparr>bt_updates := record_update_in u (bt_updates batch)\<rparr>"

definition ingest_commit_doc_limit :: nat where "ingest_commit_doc_limit = 10000"
definition ingest_commit_byte_limit :: nat where "ingest_commit_byte_limit = 8 * 1024 * 1024"

definition should_flush :: "ingest_batch \<Rightarrow> bool" where
  "should_flush batch \<longleftrightarrow>
     ingest_commit_doc_limit \<le> length (bt_docs batch) \<or> ingest_commit_byte_limit \<le> bt_doc_bytes batch"

text \<open>The lines of a text: the bytes consumed, the next sequence number and the batch.\<close>

fun collect_lines ::
  "index_world \<Rightarrow> log_source \<Rightarrow> int option \<Rightarrow> bytes list \<Rightarrow> nat \<times> nat \<times> ingest_batch \<Rightarrow> nat \<times> nat \<times> ingest_batch" where
  "collect_lines xw s min_ts [] st = st"
| "collect_lines xw s min_ts (l # ls) (consumed, seq, batch) =
     (let consumed1 = sat_add consumed (length l); raw = trim_line_end l in
      if raw = [] then collect_lines xw s min_ts ls (consumed1, seq, batch)
      else
        (let d = line_doc xw s seq raw; seq1 = sat_add seq 1 in
         if too_old min_ts d then collect_lines xw s min_ts ls (consumed1, seq1, batch)
         else collect_lines xw s min_ts ls (consumed1, seq1, add_doc d batch)))"

definition source_update :: "log_source \<Rightarrow> ingest_cursor \<Rightarrow> nat option \<Rightarrow> pending_update" where
  "source_update s cursor delete_from_seq =
     \<lparr>gu_key = source_key (lg_run_id s) (lg_service s), gu_cursor = cursor, gu_run_id = lg_run_id s,
      gu_service = lg_service s, gu_delete_from_seq = delete_from_seq\<rparr>"

text \<open>
  The bytes consumed are those of the text in which invalid bytes have been replaced, not those of the file.
\<close>

definition collect_complete_lines ::
  "index_world \<Rightarrow> log_source \<Rightarrow> ingest_cursor \<Rightarrow> nat option \<Rightarrow> bytes \<Rightarrow> int option \<Rightarrow> ingest_batch \<Rightarrow> ingest_cursor \<times> ingest_batch" where
  "collect_complete_lines xw s cursor delete_from_seq complete min_ts batch =
     (let lines = split_inclusive (from_utf8_lossy complete);
          (consumed, seq, batch1) = collect_lines xw s min_ts lines (0, ic_next_seq cursor, batch) in
      if lines = [] then (cursor\<lparr>ic_next_seq := seq\<rparr>, batch1)
      else
        (let cursor1 = \<lparr>ic_offset = sat_add (ic_offset cursor) consumed, ic_next_seq = seq\<rparr> in
         (cursor1, record_update (source_update s cursor1 delete_from_seq) batch1)))"

section \<open>Committing\<close>

definition deleted_by :: "pending_update list \<Rightarrow> log_doc \<Rightarrow> bool" where
  "deleted_by updates d \<longleftrightarrow>
     (\<exists>u \<in> set updates. gu_run_id u = ld_run_id d \<and> gu_service u = ld_service d \<and>
        (case gu_delete_from_seq u of None \<Rightarrow> False | Some from \<Rightarrow> from \<le> ld_seq d))"

definition insert_cursors :: "pending_update list \<Rightarrow> (string, ingest_cursor) bmap \<Rightarrow> (string, ingest_cursor) bmap" where
  "insert_cursors updates m = fold (\<lambda>u m. bm_insert (gu_key u) (gu_cursor u) m) updates m"

definition extend_field_names ::
  "(string, (string, unit) bmap) bmap \<Rightarrow> (string, (string, unit) bmap) bmap \<Rightarrow> (string, (string, unit) bmap) bmap" where
  "extend_field_names names m = fold (\<lambda>(key, fields) m. add_field_names key (bm_keys fields) m) names m"

definition commit_ingest_batch ::
  "index_world \<Rightarrow> ingest_batch \<Rightarrow> 'r log_index \<Rightarrow> unit result \<times> ingest_batch \<times> 'r log_index" where
  "commit_ingest_batch xw batch li =
     (if bt_updates batch = [] then (Inr (), batch, li)
      else
        (case xw_commit xw (bt_updates batch) of
           Some e \<Rightarrow> (Inl e, empty_batch, li)
         | None \<Rightarrow>
             (let li1 = li\<lparr>li_docs := filter (\<lambda>d. \<not> deleted_by (bt_updates batch) d) (li_docs li) @ bt_docs batch\<rparr> in
              case xw_reload xw of
                Some e \<Rightarrow> (Inl e, empty_batch, li1)
              | None \<Rightarrow>
                  (let ingest = (li_ingest li)\<lparr>ig_version := 1,
                         ig_sources := insert_cursors (bt_updates batch) (ig_sources (li_ingest li)),
                         ig_facet_fields := extend_field_names (bt_field_names batch) (ig_facet_fields (li_ingest li))\<rparr>;
                       li2 = li1\<lparr>li_facet_cache := [], li_ingest := ingest\<rparr> in
                   case xw_save xw of
                     Some e \<Rightarrow> (Inl e, empty_batch, li2)
                   | None \<Rightarrow> (Inr (), empty_batch, li2\<lparr>li_stored := Some ingest\<rparr>)))))"

section \<open>Reading a file\<close>

text \<open>Up to and with the last newline.\<close>

definition complete_length :: "bytes \<Rightarrow> nat" where
  "complete_length bs = length bs - length (takeWhile (\<lambda>b. b \<noteq> newline) (rev bs))"

fun ingest_chunks ::
  "index_world \<Rightarrow> log_source \<Rightarrow> int option \<Rightarrow> bytes result list \<Rightarrow> bytes \<Rightarrow> ingest_cursor \<Rightarrow> nat option \<Rightarrow>
     ingest_batch \<Rightarrow> 'r log_index \<Rightarrow> unit result \<times> ingest_batch \<times> 'r log_index" where
  "ingest_chunks xw s min_ts [] carry cursor delete_from batch li = (Inr (), batch, li)"
| "ingest_chunks xw s min_ts (Inl e # chunks) carry cursor delete_from batch li = (Inl e, batch, li)"
| "ingest_chunks xw s min_ts (Inr chunk # chunks) carry cursor delete_from batch li =
     (let carry1 = carry @ chunk; n = complete_length carry1 in
      if n = 0 then ingest_chunks xw s min_ts chunks carry1 cursor delete_from batch li
      else
        (let (cursor1, batch1) = collect_complete_lines xw s cursor delete_from (take n carry1) min_ts batch;
             (cursor2, batch2) =
               (if ic_offset cursor1 = ic_offset cursor then
                  (let c = cursor1\<lparr>ic_offset := sat_add (ic_offset cursor1) n\<rparr> in
                   (c, record_update (source_update s c None) batch1))
                else (cursor1, batch1)) in
         if should_flush batch2 then
           (case commit_ingest_batch xw batch2 li of
              (Inl e, batch3, li1) \<Rightarrow> (Inl e, batch3, li1)
            | (Inr _, batch3, li1) \<Rightarrow> ingest_chunks xw s min_ts chunks (drop n carry1) cursor2 None batch3 li1)
         else ingest_chunks xw s min_ts chunks (drop n carry1) cursor2 None batch2 li))"

definition ingest_from ::
  "index_world \<Rightarrow> log_source \<Rightarrow> int option \<Rightarrow> ingest_cursor \<Rightarrow> ingest_batch \<Rightarrow> 'r log_index \<Rightarrow>
     unit result \<times> ingest_batch \<times> 'r log_index" where
  "ingest_from xw s min_ts cursor batch li =
     (case xw_read xw (lg_path s) (ic_offset cursor) of
        Inl e \<Rightarrow> (Inl e, batch, li)
      | Inr chunks \<Rightarrow> ingest_chunks xw s min_ts chunks [] cursor (Some (ic_next_seq cursor)) batch li)"

text \<open>A file that has become shorter is read again from its start.\<close>

definition ingest_source ::
  "index_world \<Rightarrow> int option \<Rightarrow> (string, ingest_cursor) bmap \<Rightarrow> log_source \<Rightarrow> ingest_batch \<Rightarrow> 'r log_index \<Rightarrow>
     unit result \<times> ingest_batch \<times> 'r log_index" where
  "ingest_source xw min_ts cursors s batch li =
     (case xw_meta xw (lg_path s) of
        None \<Rightarrow> (Inr (), batch, li)
      | Some (is_file, file_len) \<Rightarrow>
          if \<not> is_file then (Inr (), batch, li)
          else
            (let cursor = unwrap_or (map_of cursors (source_key (lg_run_id s) (lg_service s))) default_cursor in
             if file_len < ic_offset cursor then ingest_from xw s min_ts default_cursor batch li
             else if file_len = ic_offset cursor then (Inr (), batch, li)
             else ingest_from xw s min_ts cursor batch li))"

fun ingest_loop ::
  "index_world \<Rightarrow> int option \<Rightarrow> (string, ingest_cursor) bmap \<Rightarrow> log_source list \<Rightarrow> ingest_batch \<Rightarrow> 'r log_index \<Rightarrow>
     unit result \<times> 'r log_index" where
  "ingest_loop xw min_ts cursors [] batch li =
     (case commit_ingest_batch xw batch li of (r, _, li1) \<Rightarrow> (r, li1))"
| "ingest_loop xw min_ts cursors (s # sources) batch li =
     (case ingest_source xw min_ts cursors s batch li of
        (Inl e, _, li1) \<Rightarrow> (Inl e, li1)
      | (Inr _, batch1, li1) \<Rightarrow> ingest_loop xw min_ts cursors sources batch1 li1)"

definition ingest_sources_after ::
  "index_world \<Rightarrow> log_source list \<Rightarrow> int option \<Rightarrow> 'r log_index \<Rightarrow> unit result \<times> 'r log_index" where
  "ingest_sources_after xw sources min_ts li =
     (if sources = [] then (Inr (), li)
      else ingest_loop xw min_ts (ig_sources (li_ingest li)) sources empty_batch li)"

definition ingest_sources :: "index_world \<Rightarrow> log_source list \<Rightarrow> 'r log_index \<Rightarrow> unit result \<times> 'r log_index" where
  "ingest_sources xw sources li = ingest_sources_after xw sources None li"

definition save_ingest :: "index_world \<Rightarrow> 'r log_index \<Rightarrow> unit result \<times> 'r log_index" where
  "save_ingest xw li =
     (case xw_save xw of
        Some e \<Rightarrow> (Inl e, li)
      | None \<Rightarrow> (Inr (), li\<lparr>li_stored := Some (li_ingest li)\<rparr>))"

definition mark_current :: "index_world \<Rightarrow> log_source \<Rightarrow> (string, ingest_cursor) bmap \<Rightarrow> (string, ingest_cursor) bmap" where
  "mark_current xw s m =
     (case xw_meta xw (lg_path s) of
        None \<Rightarrow> m
      | Some (is_file, len) \<Rightarrow>
          if \<not> is_file then m
          else
            (let key = source_key (lg_run_id s) (lg_service s);
                 cursor = unwrap_or (map_of m key) default_cursor in
             bm_insert key \<lparr>ic_offset = len, ic_next_seq = (if len < ic_offset cursor then 0 else ic_next_seq cursor)\<rparr> m))"

definition mark_sources_current :: "index_world \<Rightarrow> log_source list \<Rightarrow> 'r log_index \<Rightarrow> unit result \<times> 'r log_index" where
  "mark_sources_current xw sources li =
     (if sources = [] then (Inr (), li)
      else save_ingest xw (li\<lparr>li_ingest := (li_ingest li)\<lparr>ig_version := 1,
        ig_sources := fold (mark_current xw) sources (ig_sources (li_ingest li))\<rparr>\<rparr>))"

section \<open>Removing\<close>

definition delete_run :: "index_world \<Rightarrow> string \<Rightarrow> 'r log_index \<Rightarrow> unit result \<times> 'r log_index" where
  "delete_run xw run_id li =
     (case xw_commit xw [] of
        Some e \<Rightarrow> (Inl e, li)
      | None \<Rightarrow>
          (let keep = (\<lambda>key. \<not> starts_with key (run_id @ ''/'')) in
           save_ingest xw (li\<lparr>li_docs := filter (\<lambda>d. ld_run_id d \<noteq> run_id) (li_docs li), li_facet_cache := [],
             li_ingest := (li_ingest li)\<lparr>ig_sources := bm_retain (\<lambda>key _. keep key) (ig_sources (li_ingest li)),
               ig_facet_fields := bm_retain (\<lambda>key _. keep key) (ig_facet_fields (li_ingest li))\<rparr>\<rparr>)))"

definition evict_older_than :: "index_world \<Rightarrow> int \<Rightarrow> 'r log_index \<Rightarrow> nat result \<times> 'r log_index" where
  "evict_older_than xw cutoff_nanos li =
     (let old = filter (\<lambda>d. ld_ts_nanos d < cutoff_nanos) (li_docs li) in
      if old = [] then (Inr 0, li)
      else
        (case xw_commit xw [] of
           Some e \<Rightarrow> (Inl e, li)
         | None \<Rightarrow> (Inr (length old),
             li\<lparr>li_docs := filter (\<lambda>d. \<not> ld_ts_nanos d < cutoff_nanos) (li_docs li), li_facet_cache := []\<rparr>)))"

text \<open>
  The number of documents that fit, a product of floating point numbers, is a parameter. The newest of the
  oldest documents to be removed gives the time up to which all are removed.
\<close>

definition evict_to_size ::
  "index_world \<Rightarrow> (nat \<Rightarrow> nat) \<Rightarrow> nat \<Rightarrow> nat \<Rightarrow> 'r log_index \<Rightarrow> nat result \<times> 'r log_index" where
  "evict_to_size xw target current_size max_bytes li =
     (let total = length (li_docs li); remove = total - target total in
      if current_size \<le> max_bytes \<or> total = 0 \<or> remove = 0 then (Inr 0, li)
      else
        (let cutoff = sort (map ld_ts_nanos (li_docs li)) ! (remove - 1) in
         case xw_commit xw [] of
           Some e \<Rightarrow> (Inl e, li)
         | None \<Rightarrow> (Inr remove,
             li\<lparr>li_docs := filter (\<lambda>d. \<not> ld_ts_nanos d \<le> cutoff) (li_docs li), li_facet_cache := []\<rparr>)))"

definition evict ::
  "index_world \<Rightarrow> int \<Rightarrow> (nat \<Rightarrow> nat) \<Rightarrow> nat \<Rightarrow> nat \<Rightarrow> 'r log_index \<Rightarrow> (nat \<times> nat) result \<times> 'r log_index" where
  "evict xw cutoff_nanos target current_size max_bytes li =
     (case evict_older_than xw cutoff_nanos li of
        (Inl e, li1) \<Rightarrow> (Inl e, li1)
      | (Inr age_deleted, li1) \<Rightarrow>
          (case evict_to_size xw target current_size max_bytes li1 of
             (Inl e, li2) \<Rightarrow> (Inl e, li2)
           | (Inr size_deleted, li2) \<Rightarrow> (Inr (age_deleted, size_deleted), li2)))"

definition count_run :: "string \<Rightarrow> 'r log_index \<Rightarrow> nat" where
  "count_run run_id li = length (filter (\<lambda>d. ld_run_id d = run_id) (li_docs li))"

section \<open>What the index should hold\<close>

abbreviation key_of :: "log_source \<Rightarrow> string" where
  "key_of s \<equiv> source_key (lg_run_id s) (lg_service s)"

abbreviation of_source :: "log_source \<Rightarrow> log_doc \<Rightarrow> bool" where
  "of_source s d \<equiv> ld_run_id d = lg_run_id s \<and> ld_service d = lg_service s"

text \<open>The documents of a list of lines, numbered from \<open>seq\<close>.\<close>

fun number_lines :: "index_world \<Rightarrow> log_source \<Rightarrow> int option \<Rightarrow> nat \<Rightarrow> bytes list \<Rightarrow> log_doc list" where
  "number_lines xw s min_ts seq [] = []"
| "number_lines xw s min_ts seq (l # ls) =
     (if trim_line_end l = [] then number_lines xw s min_ts seq ls
      else (if too_old min_ts (line_doc xw s seq (trim_line_end l)) then [] else [line_doc xw s seq (trim_line_end l)])
        @ number_lines xw s min_ts (Suc seq) ls)"

definition count_lines :: "bytes list \<Rightarrow> nat" where
  "count_lines ls = length (filter (\<lambda>l. trim_line_end l \<noteq> []) ls)"

definition file_docs :: "index_world \<Rightarrow> log_source \<Rightarrow> int option \<Rightarrow> bytes \<Rightarrow> log_doc list" where
  "file_docs xw s min_ts content = number_lines xw s min_ts 0 (split_inclusive content)"

definition cursor_at :: "bytes \<Rightarrow> ingest_cursor" where
  "cursor_at p = \<lparr>ic_offset = length p, ic_next_seq = count_lines (split_inclusive p)\<rparr>"

definition complete_part :: "bytes \<Rightarrow> bytes" where
  "complete_part bs = take (complete_length bs) bs"

definition ends_line :: "bytes \<Rightarrow> bool" where
  "ends_line p \<longleftrightarrow> p = [] \<or> last p = newline"

section \<open>Facts about lines\<close>

lemma split_inclusive_append: "ends_line p \<Longrightarrow> split_inclusive (p @ q) = split_inclusive p @ split_inclusive q"
proof (induction p rule: split_inclusive.induct)
  case (2 b bs)
  show ?case
  proof (cases "bs = []")
    case True
    then show ?thesis using 2(3) by (simp add: ends_line_def)
  next
    case False
    then have ends: "ends_line bs" using 2(3) by (simp add: ends_line_def)
    have "split_inclusive bs \<noteq> []" using False by (cases bs) (auto split: list.splits)
    then show ?thesis using 2(1,2) ends by (cases "split_inclusive bs") auto
  qed
qed simp

lemma split_inclusive_Nil [simp]: "split_inclusive bs = [] \<longleftrightarrow> bs = []"
  by (cases bs) (auto split: list.splits)

lemma concat_split_inclusive [simp]: "concat (split_inclusive bs) = bs"
  by (induction bs rule: split_inclusive.induct) (auto split: list.splits)

lemma number_lines_append:
  "number_lines xw s min_ts seq (ls @ ms) =
     number_lines xw s min_ts seq ls @ number_lines xw s min_ts (seq + count_lines ls) ms"
  by (induction xw s min_ts seq ls rule: number_lines.induct) (auto simp: count_lines_def)

lemma line_doc_fields [simp]:
  "ld_run_id (line_doc xw s seq raw) = lg_run_id s" "ld_service (line_doc xw s seq raw) = lg_service s"
  "ld_seq (line_doc xw s seq raw) = seq"
  by (simp_all add: line_doc_def Let_def)

lemma number_lines_doc:
  "d \<in> set (number_lines xw s min_ts seq ls) \<Longrightarrow> of_source s d \<and> seq \<le> ld_seq d \<and> ld_seq d < seq + count_lines ls"
  by (induction xw s min_ts seq ls rule: number_lines.induct) (fastforce simp: count_lines_def split: if_splits)+

lemma count_lines_append [simp]: "count_lines (ls @ ms) = count_lines ls + count_lines ms"
  by (simp add: count_lines_def)

lemma file_docs_append:
  "ends_line p \<Longrightarrow> file_docs xw s min_ts (p @ q) =
     file_docs xw s min_ts p @ number_lines xw s min_ts (count_lines (split_inclusive p)) (split_inclusive q)"
  by (simp add: file_docs_def split_inclusive_append number_lines_append)

lemma file_docs_Nil [simp]: "file_docs xw s min_ts [] = []"
  by (simp add: file_docs_def)

lemma count_lines_le: "count_lines ls \<le> length ls"
  by (simp add: count_lines_def)

lemma length_split_inclusive: "length (split_inclusive bs) \<le> length bs"
  by (induction bs rule: split_inclusive.induct) (auto split: list.splits)

lemma count_lines_bound: "count_lines (split_inclusive bs) \<le> length bs"
  using count_lines_le length_split_inclusive order_trans by blast

text \<open>The complete part of a text.\<close>

lemma complete_length_Nil [simp]: "complete_length [] = 0"
  by (simp add: complete_length_def)

lemma complete_length_le: "complete_length bs \<le> length bs"
  by (simp add: complete_length_def)

lemma complete_length_zero: "complete_length bs = 0 \<longleftrightarrow> newline \<notin> set bs"
proof -
  have "complete_length bs = 0 \<longleftrightarrow> length (takeWhile (\<lambda>b. b \<noteq> newline) (rev bs)) = length (rev bs)"
    using length_takeWhile_le [of "\<lambda>b. b \<noteq> newline" "rev bs"] by (auto simp: complete_length_def)
  also have "\<dots> \<longleftrightarrow> takeWhile (\<lambda>b. b \<noteq> newline) (rev bs) = rev bs"
    using takeWhile_eq_take [of "\<lambda>b. b \<noteq> newline" "rev bs"] by (metis take_all order_refl)
  also have "\<dots> \<longleftrightarrow> newline \<notin> set bs" by (auto simp: takeWhile_eq_all_conv)
  finally show ?thesis .
qed

lemma complete_length_append:
  "complete_length (xs @ ys) = (if newline \<in> set ys then length xs + complete_length ys else complete_length xs)"
proof (cases "newline \<in> set ys")
  case True
  then have "takeWhile (\<lambda>b. b \<noteq> newline) (rev ys @ rev xs) = takeWhile (\<lambda>b. b \<noteq> newline) (rev ys)"
    by (auto simp: takeWhile_append)
  then show ?thesis
    using True length_takeWhile_le [of "\<lambda>b. b \<noteq> newline" "rev ys"] by (simp add: complete_length_def)
next
  case False
  then have "takeWhile (\<lambda>b. b \<noteq> newline) (rev ys @ rev xs) = rev ys @ takeWhile (\<lambda>b. b \<noteq> newline) (rev xs)"
    by (auto simp: takeWhile_append)
  then show ?thesis using False by (simp add: complete_length_def)
qed

lemma ends_complete: "ends_line (complete_part bs)"
proof (cases "newline \<in> set bs")
  case False
  then show ?thesis by (simp add: complete_part_def ends_line_def flip: complete_length_zero)
next
  case True
  then obtain xs ys where bs: "bs = xs @ newline # ys" "newline \<notin> set ys" by (meson split_list_last)
  then have "complete_length bs = Suc (length xs)"
    using complete_length_append [of "xs @ [newline]" ys] complete_length_append [of xs "[newline]"]
    by (simp add: complete_length_def)
  then show ?thesis by (simp add: complete_part_def ends_line_def bs)
qed

lemma complete_rest: "newline \<notin> set (drop (complete_length bs) bs)"
proof
  assume rest: "newline \<in> set (drop (complete_length bs) bs)"
  have "complete_length (take (complete_length bs) bs @ drop (complete_length bs) bs) =
      length (take (complete_length bs) bs) + complete_length (drop (complete_length bs) bs)"
    using rest by (simp only: complete_length_append if_True)
  then have "complete_length (drop (complete_length bs) bs) = 0"
    using complete_length_le [of bs] by simp
  then show False using rest by (simp add: complete_length_zero)
qed

lemma complete_part_append:
  "complete_part (xs @ ys) = (if newline \<in> set ys then xs @ complete_part ys else complete_part xs)"
  using complete_length_le [of xs] by (simp add: complete_part_def complete_length_append)

section \<open>The index with a batch in front of it\<close>

text \<open>
  What a batch will do to one source, and the documents and cursor the index has once it is committed. The
  sources \<open>S\<close> of one call have keys of their own.
\<close>

definition update_of :: "log_source \<Rightarrow> ingest_batch \<Rightarrow> pending_update option" where
  "update_of s batch = find (\<lambda>u. gu_key u = key_of s) (bt_updates batch)"

definition delete_of :: "log_source \<Rightarrow> ingest_batch \<Rightarrow> nat option" where
  "delete_of s batch = Option.bind (update_of s batch) gu_delete_from_seq"

definition kept :: "nat option \<Rightarrow> log_doc \<Rightarrow> bool" where
  "kept from d \<longleftrightarrow> (case from of None \<Rightarrow> True | Some n \<Rightarrow> ld_seq d < n)"

definition view_docs :: "log_source \<Rightarrow> ingest_batch \<Rightarrow> 'r log_index \<Rightarrow> log_doc list" where
  "view_docs s batch li =
     filter (\<lambda>d. of_source s d \<and> kept (delete_of s batch) d) (li_docs li) @ filter (of_source s) (bt_docs batch)"

definition view_cursor :: "log_source \<Rightarrow> ingest_batch \<Rightarrow> 'r log_index \<Rightarrow> ingest_cursor option" where
  "view_cursor s batch li =
     (case update_of s batch of Some u \<Rightarrow> Some (gu_cursor u) | None \<Rightarrow> map_of (ig_sources (li_ingest li)) (key_of s))"

definition batch_ok :: "log_source list \<Rightarrow> ingest_batch \<Rightarrow> bool" where
  "batch_ok S batch \<longleftrightarrow>
     distinct (map gu_key (bt_updates batch)) \<and>
     (\<forall>u \<in> set (bt_updates batch). \<exists>s \<in> set S. gu_key u = key_of s \<and> gu_run_id u = lg_run_id s \<and> gu_service u = lg_service s) \<and>
     (bt_updates batch = [] \<longrightarrow> bt_docs batch = [])"

definition no_failures :: "index_world \<Rightarrow> bool" where
  "no_failures xw \<longleftrightarrow> (\<forall>updates. xw_commit xw updates = None) \<and> xw_reload xw = None \<and> xw_save xw = None"

lemma empty_batch_ok [simp]: "batch_ok S empty_batch"
  by (simp add: batch_ok_def empty_batch_def)

lemma empty_update [simp]: "update_of s empty_batch = None" "delete_of s empty_batch = None" "bt_docs empty_batch = []"
  by (simp_all add: update_of_def delete_of_def empty_batch_def)

lemma find_key:
  assumes "distinct (map k xs)" and "x \<in> set xs" and "k x = key"
  shows "find (\<lambda>x. k x = key) xs = Some x"
  using assms by (induction xs) force+

lemma update_of_Some: "update_of s batch = Some u \<Longrightarrow> u \<in> set (bt_updates batch) \<and> gu_key u = key_of s"
  by (auto simp: update_of_def find_Some_iff)

lemma deleted_by_kept:
  assumes "batch_ok S batch" and "distinct (map key_of S)" and "s \<in> set S" and "of_source s d"
  shows "deleted_by (bt_updates batch) d \<longleftrightarrow> \<not> kept (delete_of s batch) d"
proof
  assume "deleted_by (bt_updates batch) d"
  then obtain u n where u: "u \<in> set (bt_updates batch)" "gu_run_id u = ld_run_id d" "gu_service u = ld_service d"
      "gu_delete_from_seq u = Some n" "n \<le> ld_seq d"
    by (auto simp: deleted_by_def split: option.splits)
  obtain t where "gu_key u = key_of t" "gu_run_id u = lg_run_id t" "gu_service u = lg_service t"
    using assms(1) u(1) by (auto simp: batch_ok_def)
  then have "gu_key u = key_of s" using u assms(4) by simp
  then have "update_of s batch = Some u"
    using assms(1) u(1) by (simp add: update_of_def batch_ok_def find_key)
  then show "\<not> kept (delete_of s batch) d" using u by (simp add: delete_of_def kept_def)
next
  assume "\<not> kept (delete_of s batch) d"
  then obtain u n where u: "update_of s batch = Some u" "gu_delete_from_seq u = Some n" "n \<le> ld_seq d"
    by (auto simp: kept_def delete_of_def bind_eq_Some_conv split: option.splits)
  obtain t where t: "t \<in> set S" "gu_key u = key_of t" "gu_run_id u = lg_run_id t" "gu_service u = lg_service t"
    using assms(1) update_of_Some [OF u(1)] by (auto simp: batch_ok_def)
  then have "t = s" using assms(2,3) update_of_Some [OF u(1)] by (auto simp: distinct_map dest: inj_onD)
  then show "deleted_by (bt_updates batch) d"
    using u t update_of_Some [OF u(1)] assms(4) by (auto simp: deleted_by_def)
qed

lemma map_of_insert_cursors:
  "distinct (map gu_key updates) \<Longrightarrow>
   map_of (insert_cursors updates m) key =
     (case find (\<lambda>u. gu_key u = key) updates of Some u \<Rightarrow> Some (gu_cursor u) | None \<Rightarrow> map_of m key)"
proof (induction updates arbitrary: m)
  case (Cons u updates)
  have "gu_key v \<noteq> gu_key u" if "v \<in> set updates" for v
    using Cons.prems imageI [OF that, of gu_key] by auto
  then have "find (\<lambda>v. gu_key v = gu_key u) updates = None" by (simp add: find_None_iff)
  then show ?case using Cons by (auto simp: insert_cursors_def split: option.split)
qed (simp add: insert_cursors_def)

text \<open>Committing a batch gives the index that was seen through it.\<close>

lemma commit_view:
  assumes "no_failures xw" and "batch_ok S batch" and "distinct (map key_of S)"
  obtains batch' li' where "commit_ingest_batch xw batch li = (Inr (), batch', li')"
    and "batch_ok S batch'" and "bt_updates batch' = []"
    and "\<And>s. s \<in> set S \<Longrightarrow> view_docs s batch' li' = view_docs s batch li"
    and "\<And>s. s \<in> set S \<Longrightarrow> view_cursor s batch' li' = view_cursor s batch li"
proof (cases "bt_updates batch = []")
  case True
  then show thesis using assms that [of batch li] by (simp add: commit_ingest_batch_def)
next
  case False
  define li' where "li' = snd (snd (commit_ingest_batch xw batch li))"
  have commit: "commit_ingest_batch xw batch li = (Inr (), empty_batch, li')"
    using False assms(1) by (simp add: li'_def commit_ingest_batch_def no_failures_def Let_def)
  have no_failure: "xw_commit xw [] = None" using assms(1) by (simp add: no_failures_def)
  have docs: "li_docs li' = filter (\<lambda>d. \<not> deleted_by (bt_updates batch) d) (li_docs li) @ bt_docs batch"
    and cursors: "ig_sources (li_ingest li') = insert_cursors (bt_updates batch) (ig_sources (li_ingest li))"
    using False assms(1) by (simp_all add: li'_def commit_ingest_batch_def no_failures_def Let_def)
  have "view_docs s empty_batch li' = view_docs s batch li" if s: "s \<in> set S" for s
  proof -
    have "filter (\<lambda>d. of_source s d \<and> \<not> deleted_by (bt_updates batch) d) (li_docs li) =
        filter (\<lambda>d. of_source s d \<and> kept (delete_of s batch) d) (li_docs li)"
      using deleted_by_kept [OF assms(2,3) s] by (intro filter_cong) auto
    then show ?thesis by (simp add: view_docs_def docs kept_def conj_ac filter_filter)
  qed
  moreover have "view_cursor s empty_batch li' = view_cursor s batch li" for s
    using assms(2) by (simp add: view_cursor_def cursors map_of_insert_cursors batch_ok_def update_of_def empty_batch_def)
  ultimately show thesis using that [OF commit] by (simp add: empty_batch_def [THEN arg_cong [where f = bt_updates]])
qed

section \<open>Reading one file\<close>

lemma record_update_in_keys:
  "map gu_key (record_update_in u us) = (if gu_key u \<in> gu_key ` set us then map gu_key us else map gu_key us @ [gu_key u])"
  by (induction u us rule: record_update_in.induct) auto

lemma find_record_update:
  "find (\<lambda>v. gu_key v = key) (record_update_in u us) =
     (if key = gu_key u
      then (case find (\<lambda>v. gu_key v = key) us of
              None \<Rightarrow> Some u
            | Some v \<Rightarrow> Some (v\<lparr>gu_cursor := gu_cursor u,
                gu_delete_from_seq := opt_or (gu_delete_from_seq v) (gu_delete_from_seq u)\<rparr>))
      else find (\<lambda>v. gu_key v = key) us)"
  by (induction u us rule: record_update_in.induct) auto

lemma set_record_update:
  "v \<in> set (record_update_in u us) \<Longrightarrow>
   v = u \<or> v \<in> set us \<or> (\<exists>w \<in> set us. gu_key v = gu_key w \<and> gu_run_id v = gu_run_id w \<and> gu_service v = gu_service w)"
  by (induction u us rule: record_update_in.induct) (auto split: if_splits)

lemma add_doc_fields [simp]: "bt_updates (add_doc d batch) = bt_updates batch" "bt_docs (add_doc d batch) = bt_docs batch @ [d]"
  by (simp_all add: add_doc_def)

lemma sat_add_small [simp]: "a + b < 2 ^ 64 \<Longrightarrow> sat_add a b = a + b"
  by (simp add: sat_add_def)

lemma collect_lines_result:
  assumes "consumed + length (concat ls) < 2 ^ 64" and "seq + count_lines ls < 2 ^ 64"
  shows "\<exists>batch'. collect_lines xw s min_ts ls (consumed, seq, batch) =
      (consumed + length (concat ls), seq + count_lines ls, batch') \<and>
    bt_updates batch' = bt_updates batch \<and> bt_docs batch' = bt_docs batch @ number_lines xw s min_ts seq ls"
  using assms
proof (induction ls arbitrary: consumed seq batch)
  case (Cons l ls)
  have c: "sat_add consumed (length l) = consumed + length l" using Cons.prems(1) by simp
  show ?case
  proof (cases "trim_line_end l = []")
    case True
    then show ?thesis using Cons.IH [of "consumed + length l" seq batch] Cons.prems c
      by (simp add: count_lines_def ac_simps)
  next
    case False
    then have "sat_add seq 1 = Suc seq" using Cons.prems(2) by (simp add: count_lines_def)
    moreover define batch1 where
      "batch1 = (if too_old min_ts (line_doc xw s seq (trim_line_end l)) then batch
         else add_doc (line_doc xw s seq (trim_line_end l)) batch)"
    ultimately show ?thesis
      using False Cons.prems c Cons.IH [of "consumed + length l" "Suc seq" batch1]
      by (auto simp: count_lines_def Let_def ac_simps split: if_splits)
  qed
qed (simp add: count_lines_def)

lemma collect_complete_result:
  assumes valid: "utf8_valid complete" "complete \<noteq> []"
    and small: "ic_offset cursor + length complete < 2 ^ 64" "ic_next_seq cursor + count_lines (split_inclusive complete) < 2 ^ 64"
    and S: "s \<in> set S" "distinct (map key_of S)" "batch_ok S batch"
  obtains batch' where
    "collect_complete_lines xw s cursor from complete min_ts batch =
      (\<lparr>ic_offset = ic_offset cursor + length complete,
        ic_next_seq = ic_next_seq cursor + count_lines (split_inclusive complete)\<rparr>, batch')"
    and "batch_ok S batch'"
    and "bt_docs batch' = bt_docs batch @ number_lines xw s min_ts (ic_next_seq cursor) (split_inclusive complete)"
    and "delete_of s batch' = opt_or (delete_of s batch) from"
    and "map_option gu_cursor (update_of s batch') = Some \<lparr>ic_offset = ic_offset cursor + length complete,
        ic_next_seq = ic_next_seq cursor + count_lines (split_inclusive complete)\<rparr>"
    and "\<And>t. t \<in> set S \<Longrightarrow> t \<noteq> s \<Longrightarrow> update_of t batch' = update_of t batch"
proof -
  define c where "c = \<lparr>ic_offset = ic_offset cursor + length complete,
    ic_next_seq = ic_next_seq cursor + count_lines (split_inclusive complete)\<rparr>"
  obtain batch1 where b1: "collect_lines xw s min_ts (split_inclusive complete) (0, ic_next_seq cursor, batch) =
      (length complete, ic_next_seq c, batch1)"
    "bt_updates batch1 = bt_updates batch"
    "bt_docs batch1 = bt_docs batch @ number_lines xw s min_ts (ic_next_seq cursor) (split_inclusive complete)"
    using collect_lines_result [of 0 "split_inclusive complete" "ic_next_seq cursor"] small c_def by fastforce
  define u where "u = source_update s c from"
  define batch2 where "batch2 = record_update u batch1"
  have call: "collect_complete_lines xw s cursor from complete min_ts batch = (c, batch2)"
    using valid small b1(1) by (simp add: collect_complete_lines_def lossy_valid c_def u_def batch2_def Let_def)
  have u: "gu_key u = key_of s" "gu_cursor u = c" "gu_delete_from_seq u = from" "gu_run_id u = lg_run_id s" "gu_service u = lg_service s"
    by (simp_all add: u_def source_update_def)
  have updates: "bt_updates batch2 = record_update_in u (bt_updates batch)"
    and docs: "bt_docs batch2 = bt_docs batch1"
    by (simp_all add: batch2_def record_update_def b1(2))
  have key: "key_of t \<noteq> key_of s" if "t \<in> set S" "t \<noteq> s" for t
    using S that by (auto simp: distinct_map dest: inj_onD)
  have own: "update_of s batch2 = (case update_of s batch of None \<Rightarrow> Some u
      | Some v \<Rightarrow> Some (v\<lparr>gu_cursor := c, gu_delete_from_seq := opt_or (gu_delete_from_seq v) from\<rparr>))"
    by (simp add: update_of_def updates find_record_update u split: option.split)
  have "distinct (map gu_key (bt_updates batch2))"
    using S(3) by (auto simp: batch_ok_def updates record_update_in_keys)
  moreover have "\<exists>t \<in> set S. gu_key v = key_of t \<and> gu_run_id v = lg_run_id t \<and> gu_service v = lg_service t"
    if "v \<in> set (bt_updates batch2)" for v
    using set_record_update [OF that [unfolded updates]] S(1,3) u by (auto simp: batch_ok_def)
  moreover have "bt_updates batch2 \<noteq> []"
    using arg_cong [OF record_update_in_keys [of u "bt_updates batch"], of length] by (auto simp: updates split: if_splits)
  ultimately have "batch_ok S batch2" by (simp add: batch_ok_def)
  then show thesis
    using that [of batch2] call docs b1(3) own key
    by (auto simp: c_def [symmetric] delete_of_def update_of_def updates find_record_update u split: option.split)
qed

text \<open>
  Reading of \<open>s\<close> has come to \<open>p\<close>. As long as \<open>from\<close> is given, nothing has been added for
  it and what the index has from there on is still to be deleted.
\<close>

definition in_progress ::
  "index_world \<Rightarrow> log_source list \<Rightarrow> int option \<Rightarrow> log_source \<Rightarrow> bytes \<Rightarrow> nat option \<Rightarrow> ingest_batch \<Rightarrow> 'r log_index \<Rightarrow> bool" where
  "in_progress xw S min_ts s p from batch li \<longleftrightarrow>
     ends_line p \<and> batch_ok S batch \<and>
     (case from of
        Some n \<Rightarrow> n = count_lines (split_inclusive p) \<and> update_of s batch = None \<and> filter (of_source s) (bt_docs batch) = [] \<and>
          filter (\<lambda>d. of_source s d \<and> ld_seq d < n) (li_docs li) = file_docs xw s min_ts p
      | None \<Rightarrow> view_docs s batch li = file_docs xw s min_ts p \<and> view_cursor s batch li = Some (cursor_at p))"

definition fresh :: "log_source \<Rightarrow> ingest_batch \<Rightarrow> bool" where
  "fresh t batch \<longleftrightarrow> update_of t batch = None \<and> filter (of_source t) (bt_docs batch) = []"

text \<open>Nothing changes for another source.\<close>

definition unaffected :: "log_source \<Rightarrow> ingest_batch \<Rightarrow> 'r log_index \<Rightarrow> ingest_batch \<Rightarrow> 'r log_index \<Rightarrow> bool" where
  "unaffected t batch li batch' li' \<longleftrightarrow>
     view_docs t batch' li' = view_docs t batch li \<and> view_cursor t batch' li' = view_cursor t batch li \<and>
     (fresh t batch \<longrightarrow> fresh t batch')"

lemma unaffected_refl [simp]: "unaffected t batch li batch li"
  by (simp add: unaffected_def)

lemma unaffected_trans:
  "unaffected t b1 l1 b2 l2 \<Longrightarrow> unaffected t b2 l2 b3 l3 \<Longrightarrow> unaffected t b1 l1 b3 l3"
  by (simp add: unaffected_def)

lemma number_lines_of [simp]:
  "filter (of_source s) (number_lines xw s min_ts seq ls) = number_lines xw s min_ts seq ls"
  using number_lines_doc by (intro filter_True) blast

lemma other_source:
  assumes "distinct (map key_of S)" and "s \<in> set S" and "t \<in> set S" and "t \<noteq> s"
  shows "filter (of_source t) (number_lines xw s min_ts seq ls) = []"
proof -
  have "key_of t \<noteq> key_of s" using assms by (auto simp: distinct_map dest: inj_onD)
  then show ?thesis using number_lines_doc by (fastforce simp: filter_empty_conv)
qed

lemma cursor_at_append:
  "ends_line p \<Longrightarrow> cursor_at (p @ c) = \<lparr>ic_offset = ic_offset (cursor_at p) + length c,
     ic_next_seq = ic_next_seq (cursor_at p) + count_lines (split_inclusive c)\<rparr>"
  by (simp add: cursor_at_def split_inclusive_append)

lemma collect_progress:
  assumes progress: "in_progress xw S min_ts s p from batch li"
    and c: "utf8_valid c" "c \<noteq> []" "ends_line c" "length (p @ c) < 2 ^ 64"
    and S: "s \<in> set S" "distinct (map key_of S)"
  obtains batch' where "collect_complete_lines xw s (cursor_at p) from c min_ts batch = (cursor_at (p @ c), batch')"
    and "in_progress xw S min_ts s (p @ c) None batch' li"
    and "\<And>t. t \<in> set S \<Longrightarrow> t \<noteq> s \<Longrightarrow> unaffected t batch li batch' li"
proof -
  have ends: "ends_line p" and ok: "batch_ok S batch" using progress by (simp_all add: in_progress_def)
  have small: "ic_offset (cursor_at p) + length c < 2 ^ 64"
    "ic_next_seq (cursor_at p) + count_lines (split_inclusive c) < 2 ^ 64"
    using c(4) count_lines_bound [of p] count_lines_bound [of c] by (simp_all add: cursor_at_def)
  obtain batch' where b: "collect_complete_lines xw s (cursor_at p) from c min_ts batch = (cursor_at (p @ c), batch')"
    "batch_ok S batch'"
    "bt_docs batch' = bt_docs batch @ number_lines xw s min_ts (ic_next_seq (cursor_at p)) (split_inclusive c)"
    "delete_of s batch' = opt_or (delete_of s batch) from"
    "map_option gu_cursor (update_of s batch') = Some (cursor_at (p @ c))"
    "\<And>t. t \<in> set S \<Longrightarrow> t \<noteq> s \<Longrightarrow> update_of t batch' = update_of t batch"
    using collect_complete_result [OF c(1,2) small S ok, of xw "from" min_ts] cursor_at_append [OF ends, of c] by metis
  have new: "file_docs xw s min_ts (p @ c) =
      file_docs xw s min_ts p @ number_lines xw s min_ts (ic_next_seq (cursor_at p)) (split_inclusive c)"
    by (simp add: file_docs_append ends cursor_at_def)
  have "view_docs s batch' li = file_docs xw s min_ts (p @ c)"
  proof (cases "from")
    case None
    then have "delete_of s batch' = delete_of s batch" using b(4) by (cases "delete_of s batch") simp_all
    then show ?thesis using progress None by (simp add: in_progress_def view_docs_def b(3) new)
  next
    case (Some n)
    then have "delete_of s batch' = Some n" using b(4) progress by (simp add: in_progress_def delete_of_def)
    then show ?thesis using progress by (auto simp: Some in_progress_def view_docs_def b(3) new kept_def)
  qed
  moreover have "view_cursor s batch' li = Some (cursor_at (p @ c))"
    using b(5) by (auto simp: view_cursor_def split: option.split)
  moreover have "ends_line (p @ c)" using c(2,3) by (simp add: ends_line_def)
  ultimately have "in_progress xw S min_ts s (p @ c) None batch' li" using b(2) by (simp add: in_progress_def)
  moreover have "unaffected t batch li batch' li" if t: "t \<in> set S" "t \<noteq> s" for t
    using b(6) [OF t] other_source [OF S(2,1) t]
    by (simp add: unaffected_def view_docs_def view_cursor_def fresh_def delete_of_def b(3))
  ultimately show thesis using that b(1) by blast
qed

lemma valid_line_split:
  assumes "utf8_valid (c @ x)" and "ends_line c"
  shows "utf8_valid c \<and> utf8_valid x"
proof (cases "c = []")
  case False
  then obtain q where c: "c = q @ [newline]" using assms(2) by (metis append_butlast_last_id ends_line_def)
  have q: "utf8_valid q" "utf8_valid (newline # x)" using assms(1) utf8_valid_split [of q newline x] by (simp_all add: c)
  have "utf8_valid [newline]" using utf8_valid_split [of "[]" newline "[]"]
    by (simp add: utf8_valid_unfold [of "[newline]"] sequence_length_def)
  then show ?thesis using q utf8_valid_append [of "[newline]" x] utf8_valid_append [of q "[newline]"] by (simp add: c)
qed (use assms in simp)

lemma commit_progress:
  assumes "no_failures xw" and "in_progress xw S min_ts s p None batch li" and "s \<in> set S" and "distinct (map key_of S)"
  obtains batch' li' where "commit_ingest_batch xw batch li = (Inr (), batch', li')"
    and "in_progress xw S min_ts s p None batch' li'" and "\<And>t. t \<in> set S \<Longrightarrow> unaffected t batch li batch' li'"
proof -
  have ok: "batch_ok S batch" using assms(2) by (simp add: in_progress_def)
  obtain batch' li' where c: "commit_ingest_batch xw batch li = (Inr (), batch', li')" "batch_ok S batch'"
    "bt_updates batch' = []" "\<And>s. s \<in> set S \<Longrightarrow> view_docs s batch' li' = view_docs s batch li"
    "\<And>s. s \<in> set S \<Longrightarrow> view_cursor s batch' li' = view_cursor s batch li"
    using commit_view [OF assms(1) ok assms(4)] by metis
  have "fresh t batch'" for t using c(2,3) by (simp add: fresh_def update_of_def batch_ok_def)
  then show thesis using that [OF c(1)] assms(2,3) c by (simp add: in_progress_def unaffected_def)
qed

lemma ingest_chunks_result:
  assumes xw: "no_failures xw" and S: "s \<in> set S" "distinct (map key_of S)"
    and progress: "in_progress xw S min_ts s p from batch li" and carry: "newline \<notin> set carry"
    and small: "length (p @ carry @ concat bs) < 2 ^ 64"
    and valid: "utf8_valid (complete_part (carry @ concat bs))"
  shows "\<exists>batch' li'. ingest_chunks xw s min_ts (map Inr bs) carry (cursor_at p) from batch li = (Inr (), batch', li') \<and>
    in_progress xw S min_ts s (p @ complete_part (carry @ concat bs))
      (if newline \<in> set (concat bs) then None else from) batch' li' \<and>
    (\<forall>t \<in> set S. t \<noteq> s \<longrightarrow> unaffected t batch li batch' li')"
  using progress carry small valid
proof (induction bs arbitrary: p "from" batch li carry)
  case Nil
  then have "complete_part carry = []" by (simp add: complete_part_def complete_length_zero)
  then show ?case using Nil by simp
next
  case (Cons b bs)
  define n where "n = complete_length (carry @ b)"
  define c where "c = complete_part (carry @ b)"
  define rest where "rest = drop n (carry @ b)"
  have split: "carry @ b = c @ rest" by (simp only: c_def rest_def n_def complete_part_def append_take_drop_id)
  have rest: "newline \<notin> set rest" unfolding rest_def n_def by (rule complete_rest)
  have ends: "ends_line c" unfolding c_def by (rule ends_complete)
  show ?case
  proof (cases "n = 0")
    case True
    then have b: "newline \<notin> set (carry @ b)" by (simp add: n_def complete_length_zero)
    have "newline \<in> set (concat (b # bs)) \<longleftrightarrow> newline \<in> set (concat bs)" using b by auto
    moreover have "ingest_chunks xw s min_ts (map Inr (b # bs)) carry (cursor_at p) from batch li =
        ingest_chunks xw s min_ts (map Inr bs) (carry @ b) (cursor_at p) from batch li"
      using True by (simp add: n_def)
    ultimately show ?thesis
      using Cons.IH [OF Cons.prems(1), of "carry @ b"] b Cons.prems(3,4) by simp
  next
    case False
    have c: "c \<noteq> []" using False complete_length_le [of "carry @ b"] by (auto simp: c_def complete_part_def n_def)
    have "newline \<in> set b" using False Cons.prems(2) by (simp add: n_def complete_length_zero)
    have whole: "complete_part (carry @ concat (b # bs)) = c @ complete_part (rest @ concat bs)"
    proof -
      have "complete_part (carry @ concat (b # bs)) = complete_part (c @ (rest @ concat bs))"
        using split by (metis append.assoc concat.simps(2))
      also have "\<dots> = c @ complete_part (rest @ concat bs)"
      proof (cases "newline \<in> set (rest @ concat bs)")
        case True
        then show ?thesis by (simp only: complete_part_append if_True)
      next
        case no: False
        have "complete_length (c @ rest) = complete_length c" using rest by (simp only: complete_length_append if_False)
        then have "complete_length c = n" using split by (simp add: n_def)
        moreover have "length c = n"
          using complete_length_le [of "carry @ b"] by (simp only: c_def complete_part_def n_def length_take min_absorb2)
        ultimately have "complete_part c = c" by (simp add: complete_part_def)
        moreover have "complete_length (rest @ concat bs) = 0" using no by (simp only: complete_length_zero not_False_eq_True)
        then have "complete_part (rest @ concat bs) = []" by (simp only: complete_part_def take_0)
        ultimately show ?thesis using no by (simp only: complete_part_append if_False append_Nil2)
      qed
      finally show ?thesis .
    qed
    have valid: "utf8_valid c" "utf8_valid (complete_part (rest @ concat bs))"
      using Cons.prems(4) valid_line_split [OF _ ends] by (simp_all only: whole)
    have len: "length (carry @ concat (b # bs)) = length c + length (rest @ concat bs)"
      using arg_cong [OF split, of length] by simp
    have small: "length (p @ c) < 2 ^ 64" "length ((p @ c) @ rest @ concat bs) < 2 ^ 64"
      using Cons.prems(3) len by simp_all
    obtain batch1 where collect: "collect_complete_lines xw s (cursor_at p) from c min_ts batch = (cursor_at (p @ c), batch1)"
      and progress1: "in_progress xw S min_ts s (p @ c) None batch1 li"
      and other1: "\<And>t. t \<in> set S \<Longrightarrow> t \<noteq> s \<Longrightarrow> unaffected t batch li batch1 li"
      using collect_progress [OF Cons.prems(1) valid(1) c ends small(1) S] by metis
    have moved: "ic_offset (cursor_at (p @ c)) \<noteq> ic_offset (cursor_at p)" using c by (simp add: cursor_at_def)
    have take_n: "take n (carry @ b) = c" by (simp only: c_def complete_part_def n_def)
    have turn: "ingest_chunks xw s min_ts (map Inr (b # bs)) carry (cursor_at p) from batch li =
        (if should_flush batch1 then
           (case commit_ingest_batch xw batch1 li of
              (Inl e, batch3, li1) \<Rightarrow> (Inl e, batch3, li1)
            | (Inr _, batch3, li1) \<Rightarrow> ingest_chunks xw s min_ts (map Inr bs) rest (cursor_at (p @ c)) None batch3 li1)
         else ingest_chunks xw s min_ts (map Inr bs) rest (cursor_at (p @ c)) None batch1 li)"
      using False moved
      by (simp only: list.map ingest_chunks.simps(3) Let_def n_def [symmetric] take_n rest_def [symmetric] collect
          prod.case if_False)
    obtain batch2 li2 where step: "ingest_chunks xw s min_ts (map Inr (b # bs)) carry (cursor_at p) from batch li =
        ingest_chunks xw s min_ts (map Inr bs) rest (cursor_at (p @ c)) None batch2 li2"
      and progress2: "in_progress xw S min_ts s (p @ c) None batch2 li2"
      and other2: "\<And>t. t \<in> set S \<Longrightarrow> unaffected t batch1 li batch2 li2"
    proof (cases "should_flush batch1")
      case True
      obtain batch2 li2 where "commit_ingest_batch xw batch1 li = (Inr (), batch2, li2)"
        "in_progress xw S min_ts s (p @ c) None batch2 li2" "\<And>t. t \<in> set S \<Longrightarrow> unaffected t batch1 li batch2 li2"
        using commit_progress [OF xw progress1 S] by metis
      then show thesis using that [of batch2 li2] True turn by simp
    next
      case no_flush: False
      then show thesis using that [of batch1 li] turn progress1 by simp
    qed
    obtain batch3 li3 where last: "ingest_chunks xw s min_ts (map Inr bs) rest (cursor_at (p @ c)) None batch2 li2 = (Inr (), batch3, li3)"
      "in_progress xw S min_ts s ((p @ c) @ complete_part (rest @ concat bs)) (if newline \<in> set (concat bs) then None else None) batch3 li3"
      "\<forall>t \<in> set S. t \<noteq> s \<longrightarrow> unaffected t batch2 li2 batch3 li3"
      using Cons.IH [OF progress2 rest small(2) valid(2)] by metis
    have "unaffected t batch li batch3 li3" if "t \<in> set S" "t \<noteq> s" for t
      using other1 [OF that] other2 [OF that(1)] last(3) that unaffected_trans by blast
    then show ?thesis using step last(1,2) whole \<open>newline \<in> set b\<close> by simp
  qed
qed

section \<open>Reading all files\<close>

definition index_cursor :: "log_source \<Rightarrow> 'r log_index \<Rightarrow> ingest_cursor" where
  "index_cursor s li = unwrap_or (map_of (ig_sources (li_ingest li)) (key_of s)) default_cursor"

definition index_docs :: "log_source \<Rightarrow> 'r log_index \<Rightarrow> log_doc list" where
  "index_docs s li = filter (of_source s) (li_docs li)"

text \<open>The index holds exactly the complete lines of a file, and knows how far it has read.\<close>

definition indexed :: "index_world \<Rightarrow> int option \<Rightarrow> log_source \<Rightarrow> bytes \<Rightarrow> 'r log_index \<Rightarrow> bool" where
  "indexed xw min_ts s content li \<longleftrightarrow>
     index_docs s li = file_docs xw s min_ts (complete_part content) \<and>
     index_cursor s li = cursor_at (complete_part content)"

text \<open>
  The file can be read further: it was cut, and has a line; or the cursor stands behind a complete line
  up to which the index is right. What the index has beyond is of no account when there is a new line.
\<close>

definition resumable :: "index_world \<Rightarrow> int option \<Rightarrow> log_source \<Rightarrow> bytes \<Rightarrow> 'r log_index \<Rightarrow> bool" where
  "resumable xw min_ts s content li \<longleftrightarrow>
     (let n = ic_offset (index_cursor s li); p = take n content in
      if length content < n then newline \<in> set content
      else ends_line p \<and> index_cursor s li = cursor_at p \<and>
        (if newline \<in> set (drop n content)
         then filter (\<lambda>d. ld_seq d < ic_next_seq (cursor_at p)) (index_docs s li) = file_docs xw s min_ts p
         else index_docs s li = file_docs xw s min_ts p))"

definition readable :: "index_world \<Rightarrow> log_source \<Rightarrow> bytes \<Rightarrow> bool" where
  "readable xw s content \<longleftrightarrow>
     xw_meta xw (lg_path s) = Some (True, length content) \<and> length content < 2 ^ 64 \<and>
     utf8_valid (complete_part content) \<and>
     (\<forall>n \<le> length content. \<exists>bs. xw_read xw (lg_path s) n = Inr (map Inr bs) \<and> concat bs = drop n content)"

lemma ends_line_complete: "ends_line p \<Longrightarrow> complete_part p = p"
proof (cases "p = []")
  case False
  assume "ends_line p"
  then obtain q where "p = q @ [newline]" using False by (metis append_butlast_last_id ends_line_def)
  then show ?thesis by (simp add: complete_part_append) (simp add: complete_part_def complete_length_def)
qed (simp add: complete_part_def)

lemma complete_part_none: "newline \<notin> set bs \<Longrightarrow> complete_part bs = []"
  by (simp add: complete_part_def flip: complete_length_zero)

lemma ingest_chunks_no_line:
  "newline \<notin> set (carry @ concat bs) \<Longrightarrow> ingest_chunks xw s min_ts (map Inr bs) carry cursor from batch li = (Inr (), batch, li)"
proof (induction bs arbitrary: carry)
  case (Cons b bs)
  then have "complete_length (carry @ b) = 0" by (simp add: complete_length_zero)
  then show ?case using Cons by simp
qed simp

lemma fresh_view:
  assumes "fresh s batch"
  shows "view_docs s batch li = index_docs s li" and "view_cursor s batch li = map_of (ig_sources (li_ingest li)) (key_of s)"
  using assms by (simp_all add: fresh_def view_docs_def view_cursor_def index_docs_def delete_of_def kept_def)

definition view_indexed :: "index_world \<Rightarrow> int option \<Rightarrow> log_source \<Rightarrow> bytes \<Rightarrow> ingest_batch \<Rightarrow> 'r log_index \<Rightarrow> bool" where
  "view_indexed xw min_ts s content batch li \<longleftrightarrow>
     view_docs s batch li = file_docs xw s min_ts (complete_part content) \<and>
     unwrap_or (view_cursor s batch li) default_cursor = cursor_at (complete_part content)"

lemma ingest_from_result:
  assumes xw: "no_failures xw" and S: "s \<in> set S" "distinct (map key_of S)"
    and is_readable: "readable xw s (p @ q)" and line: "newline \<in> set q" and ends: "ends_line p"
    and ok: "batch_ok S batch" "fresh s batch"
    and docs: "filter (\<lambda>d. ld_seq d < ic_next_seq (cursor_at p)) (index_docs s li) = file_docs xw s min_ts p"
  shows "\<exists>batch' li'. ingest_from xw s min_ts (cursor_at p) batch li = (Inr (), batch', li') \<and>
    batch_ok S batch' \<and> view_indexed xw min_ts s (p @ q) batch' li' \<and>
    (\<forall>t \<in> set S. t \<noteq> s \<longrightarrow> unaffected t batch li batch' li')"
proof -
  obtain bs where bs: "xw_read xw (lg_path s) (length p) = Inr (map Inr bs)" "concat bs = q"
    using is_readable by (auto simp: readable_def dest!: spec [of _ "length p"])
  have progress: "in_progress xw S min_ts s p (Some (ic_next_seq (cursor_at p))) batch li"
    using ends ok docs by (simp add: in_progress_def fresh_def cursor_at_def index_docs_def conj_ac)
  have whole: "complete_part (p @ q) = p @ complete_part q" using line by (simp add: complete_part_append)
  have "utf8_valid (complete_part ([] @ concat bs))"
    using is_readable ends whole valid_line_split [of p "complete_part q"] by (simp add: readable_def bs(2))
  moreover have "length (p @ [] @ concat bs) < 2 ^ 64" using is_readable by (simp add: readable_def bs(2))
  ultimately obtain batch' li' where r:
    "ingest_chunks xw s min_ts (map Inr bs) [] (cursor_at p) (Some (ic_next_seq (cursor_at p))) batch li = (Inr (), batch', li')"
    "in_progress xw S min_ts s (p @ complete_part q) None batch' li'"
    "\<forall>t \<in> set S. t \<noteq> s \<longrightarrow> unaffected t batch li batch' li'"
    using ingest_chunks_result [OF xw S progress, of "[]" bs] line bs(2) by auto
  have "view_indexed xw min_ts s (p @ q) batch' li'" "batch_ok S batch'"
    using r(2) by (simp_all add: in_progress_def view_indexed_def whole)
  then show ?thesis using r bs(1) by (simp add: ingest_from_def cursor_at_def)
qed

lemma ingest_source_result:
  assumes xw: "no_failures xw" and S: "s \<in> set S" "distinct (map key_of S)"
    and is_readable: "readable xw s content" and resume: "resumable xw min_ts s content li"
    and ok: "batch_ok S batch" "fresh s batch"
    and cursors: "map_of cursors (key_of s) = map_of (ig_sources (li_ingest li)) (key_of s)"
  shows "\<exists>batch' li'. ingest_source xw min_ts cursors s batch li = (Inr (), batch', li') \<and>
    batch_ok S batch' \<and> view_indexed xw min_ts s content batch' li' \<and>
    (\<forall>t \<in> set S. t \<noteq> s \<longrightarrow> unaffected t batch li batch' li')"
proof -
  define n where "n = ic_offset (index_cursor s li)"
  define p where "p = take n content"
  define q where "q = drop n content"
  have content: "content = p @ q" by (simp add: p_def q_def)
  have meta: "xw_meta xw (lg_path s) = Some (True, length content)" using is_readable by (simp add: readable_def)
  have call: "ingest_source xw min_ts cursors s batch li =
      (if length content < n then ingest_from xw s min_ts (cursor_at []) batch li
       else if length content = n then (Inr (), batch, li)
       else ingest_from xw s min_ts (index_cursor s li) batch li)"
    by (simp add: ingest_source_def meta cursors n_def index_cursor_def Let_def cursor_at_def default_cursor_def count_lines_def)
  show ?thesis
  proof (cases "length content < n")
    case True
    then have "newline \<in> set content" using resume by (simp add: resumable_def n_def)
    then show ?thesis
      using ingest_from_result [OF xw S, of "[]" content batch li min_ts] is_readable ok True call
      by (simp add: ends_line_def cursor_at_def count_lines_def)
  next
    case False
    then have "ends_line p \<and> index_cursor s li = cursor_at p \<and>
      (if newline \<in> set q then filter (\<lambda>d. ld_seq d < ic_next_seq (cursor_at p)) (index_docs s li) = file_docs xw s min_ts p
         else index_docs s li = file_docs xw s min_ts p)"
      using resume unfolding resumable_def n_def p_def q_def Let_def by (rule iffD1 [OF if_not_P])
    then have at: "ends_line p" "index_cursor s li = cursor_at p"
      and docs: "if newline \<in> set q then filter (\<lambda>d. ld_seq d < ic_next_seq (cursor_at p)) (index_docs s li) = file_docs xw s min_ts p
         else index_docs s li = file_docs xw s min_ts p"
      by blast+
    show ?thesis
    proof (cases "newline \<in> set q")
      case True
      then have "length content \<noteq> n" by (auto simp: q_def)
      then show ?thesis
        using ingest_from_result [OF xw S, of p q batch li min_ts] is_readable at docs ok True False call content by simp
    next
      case no_line: False
      then have "complete_part content = p" using at(1) by (simp add: content complete_part_append ends_line_complete)
      then have whole_done: "view_indexed xw min_ts s content batch li"
        using docs no_line fresh_view [OF ok(2), of li] at(2) by (simp add: view_indexed_def index_cursor_def)
      have "\<exists>bs. xw_read xw (lg_path s) n = Inr (map Inr bs) \<and> concat bs = q"
        using is_readable False by (simp add: readable_def q_def)
      then obtain bs where bs: "xw_read xw (lg_path s) n = Inr (map Inr bs)" "concat bs = q" by blast
      have "ingest_from xw s min_ts (index_cursor s li) batch li = (Inr (), batch, li)"
        using ingest_chunks_no_line [of "[]" bs] no_line bs by (simp add: ingest_from_def n_def)
      then show ?thesis using call False whole_done ok by simp
    qed
  qed
qed

lemma ingest_loop_result:
  assumes xw: "no_failures xw" and S: "distinct (map key_of S)"
    and ok: "batch_ok S batch" and sub: "set rem \<subseteq> set S" "distinct rem"
    and each: "\<And>s. s \<in> set rem \<Longrightarrow> fresh s batch \<and> readable xw s (content s) \<and> resumable xw min_ts s (content s) li \<and>
      map_of cursors (key_of s) = map_of (ig_sources (li_ingest li)) (key_of s)"
  shows "\<exists>li'. ingest_loop xw min_ts cursors rem batch li = (Inr (), li') \<and>
    (\<forall>s \<in> set rem. indexed xw min_ts s (content s) li') \<and>
    (\<forall>t \<in> set S - set rem. index_docs t li' = view_docs t batch li \<and>
       index_cursor t li' = unwrap_or (view_cursor t batch li) default_cursor)"
  using ok sub each
proof (induction rem arbitrary: batch li)
  case Nil
  obtain batch' li' where c: "commit_ingest_batch xw batch li = (Inr (), batch', li')"
    "batch_ok S batch'" "bt_updates batch' = []"
    "\<And>s. s \<in> set S \<Longrightarrow> view_docs s batch' li' = view_docs s batch li"
    "\<And>s. s \<in> set S \<Longrightarrow> view_cursor s batch' li' = view_cursor s batch li"
    using commit_view [OF xw Nil.prems(1) S] by blast
  have "fresh t batch'" for t using c(2,3) by (simp add: fresh_def update_of_def batch_ok_def)
  then have "index_docs t li' = view_docs t batch' li' \<and> index_cursor t li' = unwrap_or (view_cursor t batch' li') default_cursor" for t
    using fresh_view [of t batch' li'] by (simp add: index_cursor_def)
  then show ?case using c by simp
next
  case (Cons s rem)
  have s: "s \<in> set S" "fresh s batch" "readable xw s (content s)" "resumable xw min_ts s (content s) li"
    "map_of cursors (key_of s) = map_of (ig_sources (li_ingest li)) (key_of s)"
    using Cons.prems by auto
  obtain batch1 li1 where step: "ingest_source xw min_ts cursors s batch li = (Inr (), batch1, li1)"
    "batch_ok S batch1" "view_indexed xw min_ts s (content s) batch1 li1"
    "\<forall>t \<in> set S. t \<noteq> s \<longrightarrow> unaffected t batch li batch1 li1"
    using ingest_source_result [OF xw s(1) S s(3,4) Cons.prems(1) s(2,5)] by blast
  have next_ok: "fresh t batch1 \<and> readable xw t (content t) \<and> resumable xw min_ts t (content t) li1 \<and>
      map_of cursors (key_of t) = map_of (ig_sources (li_ingest li1)) (key_of t)" if t: "t \<in> set rem" for t
  proof -
    have old: "fresh t batch" "readable xw t (content t)" "resumable xw min_ts t (content t) li"
      "map_of cursors (key_of t) = map_of (ig_sources (li_ingest li)) (key_of t)"
      using Cons.prems(4) [of t] t by simp_all
    have "t \<in> set S" "t \<noteq> s" using t Cons.prems(2,3) by auto
    then have same: "unaffected t batch li batch1 li1" using step(4) by blast
    then have new: "fresh t batch1" using old(1) by (simp add: unaffected_def)
    then have view: "index_docs t li1 = index_docs t li"
        "map_of (ig_sources (li_ingest li1)) (key_of t) = map_of (ig_sources (li_ingest li)) (key_of t)"
      using same fresh_view [of t batch1 li1] fresh_view [OF old(1), of li] by (simp_all add: unaffected_def)
    then have "index_cursor t li1 = index_cursor t li" by (simp add: index_cursor_def)
    then have "resumable xw min_ts t (content t) li1" using old(3) unfolding resumable_def by (simp only: view)
    then show ?thesis using old new view by simp
  qed
  obtain li' where "ingest_loop xw min_ts cursors rem batch1 li1 = (Inr (), li')"
    "\<forall>s \<in> set rem. indexed xw min_ts s (content s) li'"
    "\<forall>t \<in> set S - set rem. index_docs t li' = view_docs t batch1 li1 \<and>
       index_cursor t li' = unwrap_or (view_cursor t batch1 li1) default_cursor"
    using Cons.IH [OF step(2) _ _ next_ok] Cons.prems(2,3) by auto
  then show ?case
    using step Cons.prems s(1) by (auto simp: indexed_def view_indexed_def unaffected_def)
qed


text \<open>What an index that is ahead of its cursor has below it is what was there when the cursor was kept.\<close>

lemma filter_number_lines:
  "filter (\<lambda>d. ld_seq d < n) (number_lines xw s min_ts n ls) = []"
  using number_lines_doc by (fastforce simp: filter_empty_conv)

lemma filter_file_docs [simp]:
  "filter (\<lambda>d. ld_seq d < count_lines (split_inclusive p)) (file_docs xw s min_ts p) = file_docs xw s min_ts p"
  using number_lines_doc by (intro filter_True) (fastforce simp: file_docs_def)

lemma ahead_resumable:
  assumes "ends_line p" and "newline \<in> set q"
    and "index_cursor s li = cursor_at p" and "index_docs s li = file_docs xw s min_ts (p @ c)"
  shows "resumable xw min_ts s (p @ q) li"
  using assms by (simp add: resumable_def Let_def cursor_at_def file_docs_append filter_number_lines)

text \<open>An index that is right for a file can be carried on when the file grows.\<close>

lemma indexed_resumable:
  assumes "indexed xw min_ts s content li"
  shows "resumable xw min_ts s (content @ appended) li"
proof -
  define p where "p = complete_part content"
  define q where "q = drop (complete_length content) content @ appended"
  have whole: "content @ appended = p @ q" by (simp add: p_def q_def complete_part_def)
  have cursor: "index_cursor s li = cursor_at p" and docs: "index_docs s li = file_docs xw s min_ts p"
    using assms by (simp_all add: indexed_def p_def)
  have ends: "ends_line p" by (simp add: p_def ends_complete)
  show ?thesis
    unfolding whole resumable_def Let_def by (simp add: cursor docs ends) (simp add: cursor_at_def ends)
qed

text \<open>A file that was never read, and one that was cut.\<close>

lemma unread_resumable:
  "map_of (ig_sources (li_ingest li)) (key_of s) = None \<Longrightarrow> index_docs s li = [] \<Longrightarrow> resumable xw min_ts s content li"
  by (simp add: resumable_def Let_def index_cursor_def default_cursor_def cursor_at_def ends_line_def count_lines_def)

text \<open>
  C30. When nothing fails, one call over files that can be carried on leaves for every file exactly the
  documents of its complete lines, numbered in the order of the lines, and the cursor behind the last of
  them, whatever the chunks in which the file is read and wherever the batches are committed.
\<close>

theorem ingest_completes_index:
  assumes "no_failures xw" and "distinct (map key_of S)"
    and "\<And>s. s \<in> set S \<Longrightarrow> readable xw s (content s) \<and> resumable xw min_ts s (content s) li"
  shows "fst (ingest_sources_after xw S min_ts li) = Inr () \<and>
    (\<forall>s \<in> set S. indexed xw min_ts s (content s) (snd (ingest_sources_after xw S min_ts li)))"
proof (cases "S = []")
  case False
  have fresh: "fresh s empty_batch" for s by (simp add: fresh_def)
  have "\<exists>li'. ingest_loop xw min_ts (ig_sources (li_ingest li)) S empty_batch li = (Inr (), li') \<and>
    (\<forall>s \<in> set S. indexed xw min_ts s (content s) li') \<and>
    (\<forall>t \<in> set S - set S. index_docs t li' = view_docs t empty_batch li \<and>
       index_cursor t li' = unwrap_or (view_cursor t empty_batch li) default_cursor)"
    using assms(2,3) fresh by (intro ingest_loop_result [OF assms(1,2)]) (auto simp: distinct_map)
  then show ?thesis using False by (auto simp: ingest_sources_after_def)
qed (simp add: ingest_sources_after_def)

text \<open>Going on after the file has grown, and after documents were committed without their cursor.\<close>

theorem ingest_follows_growth:
  assumes "no_failures xw" and "no_failures xw'" and "distinct (map key_of S)"
    and "xw_text xw' = xw_text xw" and "xw_parse xw' = xw_parse xw" and "xw_nanos xw' = xw_nanos xw"
    and "\<And>s. s \<in> set S \<Longrightarrow> readable xw s (content s) \<and> resumable xw min_ts s (content s) li \<and>
      readable xw' s (content s @ appended s)"
  shows "\<forall>s \<in> set S. indexed xw' min_ts s (content s @ appended s)
    (snd (ingest_sources_after xw' S min_ts (snd (ingest_sources_after xw S min_ts li))))"
proof -
  have line: "line_doc xw' = line_doc xw"
    by (intro ext) (simp add: line_doc_def assms(4-6))
  have number: "number_lines xw' s m n ls = number_lines xw s m n ls" for s m n ls
    by (induction ls arbitrary: n) (simp_all add: line)
  then have same: "resumable xw' = resumable xw"
    by (intro ext) (simp add: resumable_def file_docs_def)
  define li1 where "li1 = snd (ingest_sources_after xw S min_ts li)"
  have "indexed xw min_ts s (content s) li1" if "s \<in> set S" for s
    using ingest_completes_index [OF assms(1,3), of content min_ts li] assms(7) that by (simp add: li1_def)
  then have "readable xw' s (content s @ appended s) \<and> resumable xw' min_ts s (content s @ appended s) li1"
    if "s \<in> set S" for s
    using that assms(7) by (simp add: same indexed_resumable)
  from ingest_completes_index [OF assms(2,3), of "\<lambda>s. content s @ appended s" min_ts li1, OF this]
  show ?thesis by (simp add: li1_def)
qed

text \<open>
  C31. When the documents of some lines were committed and the process ended before the cursor was saved,
  the next call repeats none of them and misses none: the index is right for the file as soon as it holds
  a new complete line after the saved cursor.
\<close>

theorem interrupted_ingest_repeats_nothing:
  assumes "no_failures xw" and "readable xw s (p @ q)" and "ends_line p" and "newline \<in> set q"
    and "index_cursor s li = cursor_at p" and "index_docs s li = file_docs xw s min_ts (p @ c)"
  shows "indexed xw min_ts s (p @ q) (snd (ingest_sources_after xw [s] min_ts li))"
  using ingest_completes_index [OF assms(1), of "[s]" "\<lambda>_. p @ q" min_ts li] assms(2) ahead_resumable [OF assms(3-6)]
  by simp

section \<open>Removing documents\<close>

lemma retain_keys: "map_of (bm_retain (\<lambda>key _. keep key) m) key = (if keep key then map_of m key else None)"
  by (induction m) (auto simp: bm_retain_def)

theorem run_deletion_exact:
  assumes "no_failures xw" and "delete_run xw run_id li = (r, li')"
  shows "r = Inr () \<and> count_run run_id li' = 0 \<and>
    (\<forall>other. other \<noteq> run_id \<longrightarrow> filter (\<lambda>d. ld_run_id d = other) (li_docs li') = filter (\<lambda>d. ld_run_id d = other) (li_docs li)) \<and>
    (\<forall>key. map_of (ig_sources (li_ingest li')) key =
       (if starts_with key (run_id @ ''/'') then None else map_of (ig_sources (li_ingest li)) key)) \<and>
    li_stored li' = Some (li_ingest li')"
proof -
  have "filter (\<lambda>d. ld_run_id d = other) (filter (\<lambda>d. ld_run_id d \<noteq> run_id) ds) = filter (\<lambda>d. ld_run_id d = other) ds"
    if "other \<noteq> run_id" for other ds
    unfolding filter_filter using that by (intro filter_cong) auto
  then show ?thesis
    using assms by (auto simp: delete_run_def save_ingest_def no_failures_def Let_def count_run_def retain_keys)
qed

lemma filter_le_nth_sort:
  assumes "0 < r" and "r \<le> length (xs :: int list)"
  shows "r \<le> length (filter (\<lambda>x. x \<le> sort xs ! (r - 1)) xs)"
proof -
  have "\<forall>x \<in> set (take r (sort xs)). x \<le> sort xs ! (r - 1)"
    using assms by (auto simp: in_set_conv_nth intro!: sorted_nth_mono) (use assms in linarith)+
  then have "take r (sort xs) = filter (\<lambda>x. x \<le> sort xs ! (r - 1)) (take r (sort xs))" by (simp add: filter_id_conv)
  then have "r \<le> length (filter (\<lambda>x. x \<le> sort xs ! (r - 1)) (take r (sort xs)))" using assms by simp
  also have "\<dots> \<le> length (filter (\<lambda>x. x \<le> sort xs ! (r - 1)) (take r (sort xs) @ drop r (sort xs)))"
    by (simp only: filter_append length_append)
  also have "\<dots> = length (sort (filter (\<lambda>x. x \<le> sort xs ! (r - 1)) xs))"
    by (simp only: append_take_drop_id filter_sort)
  also have "\<dots> = length (filter (\<lambda>x. x \<le> sort xs ! (r - 1)) xs)" by simp
  finally show ?thesis .
qed

theorem size_eviction_oldest_first:
  assumes "no_failures xw" and "target (length (li_docs li)) \<le> length (li_docs li)"
    and "evict_to_size xw target current_size max_bytes li = (r, li')"
  shows "(current_size \<le> max_bytes \<longrightarrow> li' = li) \<and>
    (max_bytes < current_size \<longrightarrow> length (li_docs li') \<le> target (length (li_docs li))) \<and>
    set (li_docs li') \<subseteq> set (li_docs li) \<and>
    (\<forall>d \<in> set (li_docs li). \<forall>e \<in> set (li_docs li'). d \<notin> set (li_docs li') \<longrightarrow> ld_ts_nanos d < ld_ts_nanos e)"
proof (cases "max_bytes < current_size \<and> target (length (li_docs li)) < length (li_docs li)")
  case False
  then show ?thesis using assms by (auto simp: evict_to_size_def Let_def)
next
  case True
  define total where "total = length (li_docs li)"
  define cutoff where "cutoff = sort (map ld_ts_nanos (li_docs li)) ! (total - target total - 1)"
  have no_failure: "xw_commit xw [] = None" using assms(1) by (simp add: no_failures_def)
  have docs: "li_docs li' = filter (\<lambda>d. \<not> ld_ts_nanos d \<le> cutoff) (li_docs li)"
    using True assms(3) no_failure by (auto simp: evict_to_size_def Let_def total_def cutoff_def split: if_splits)
  have "total - target total \<le> length (filter (\<lambda>x. x \<le> cutoff) (map ld_ts_nanos (li_docs li)))"
    unfolding cutoff_def by (rule filter_le_nth_sort) (use True in \<open>simp_all add: total_def\<close>)
  then have "total - target total \<le> length (filter (\<lambda>d. ld_ts_nanos d \<le> cutoff) (li_docs li))"
    by (simp add: filter_map comp_def)
  moreover have "length (filter (\<lambda>d. ld_ts_nanos d \<le> cutoff) (li_docs li)) + length (li_docs li') = total"
    unfolding docs total_def by (rule sum_length_filter_compl)
  ultimately have "length (li_docs li') \<le> target total" using True by (simp add: total_def)
  then show ?thesis using True by (auto simp: docs total_def)
qed

lemma untimed_lines_evicted:
  assumes "no_failures xw" and "0 < cutoff"
    and "xw_nanos xw ts = None" and "pl_timestamp (parse_log_line (xw_parse xw) (strip_ansi_if_needed (xw_text xw raw))) = Some ts"
  shows "line_doc xw s seq raw \<notin> set (li_docs (snd (evict_older_than xw cutoff li)))"
  using assms by (auto simp: evict_older_than_def no_failures_def Let_def line_doc_def filter_empty_conv)

text \<open>With a least time, lines that carry no time are taken to be of the year 1970 and left out.\<close>

lemma untimed_lines_left_out:
  assumes "0 < min_ts"
    and "\<And>l. l \<in> set ls \<Longrightarrow> xw_nanos xw (unwrap_or (pl_timestamp (parse_log_line (xw_parse xw)
        (strip_ansi_if_needed (xw_text xw (trim_line_end l))))) []) = None"
  shows "number_lines xw s (Some min_ts) seq ls = []"
  using assms(2) by (induction ls arbitrary: seq) (simp_all add: too_old_def line_doc_def Let_def assms(1))

section \<open>Examples\<close>

definition example_log :: log_source where
  "example_log = \<lparr>lg_run_id = ''r'', lg_service = ''web'', lg_path = ''/logs/web.log''\<rparr>"

definition example_index_world :: "bytes \<Rightarrow> index_world" where
  "example_index_world content = \<lparr>xw_meta = (\<lambda>_. Some (True, length content)),
     xw_read = (\<lambda>_ n. Inr (map Inr [drop n content])), xw_text = map (\<lambda>b. char_of (unat b)),
     xw_parse = (\<lambda>_. None), xw_nanos = (\<lambda>_. None), xw_commit = (\<lambda>_. None), xw_reload = None, xw_save = None\<rparr>"

definition empty_index :: "unit log_index" where
  "empty_index = \<lparr>li_docs = [], li_ingest = \<lparr>ig_version = 0, ig_sources = [], ig_facet_fields = []\<rparr>,
     li_stored = None, li_facet_cache = []\<rparr>"

lemma example_index_world_ok:
  "no_failures (example_index_world content)"
  "utf8_valid (complete_part content) \<Longrightarrow> length content < 2 ^ 64 \<Longrightarrow> readable (example_index_world content) s content"
  by (simp_all add: no_failures_def readable_def example_index_world_def exI [of _ "[drop n content]" for n])

lemma empty_index_resumable: "resumable xw min_ts s content empty_index"
  by (rule unread_resumable) (simp_all add: empty_index_def index_docs_def)

definition example_lines :: bytes where
  "example_lines = [0x61, newline, 0x62, newline, 0x63]"

lemma example_lines_ok:
  "utf8_valid (complete_part example_lines)" "utf8_valid (complete_part (example_lines @ [newline]))"
  by code_simp+

theorem ingest_completes_index_witness:
  "no_failures (example_index_world example_lines) \<and>
   indexed (example_index_world example_lines) None example_log example_lines
     (snd (ingest_sources_after (example_index_world example_lines) [example_log] None empty_index)) \<and>
   map ld_seq (file_docs (example_index_world example_lines) example_log None (complete_part example_lines)) = [0, 1]"
proof -
  have "readable (example_index_world example_lines) example_log example_lines"
    by (rule example_index_world_ok) (simp_all add: example_lines_ok, simp add: example_lines_def)
  then have "indexed (example_index_world example_lines) None example_log example_lines
     (snd (ingest_sources_after (example_index_world example_lines) [example_log] None empty_index))"
    using ingest_completes_index [OF example_index_world_ok(1), of "[example_log]" example_lines "\<lambda>_. example_lines" None empty_index]
    by (simp add: empty_index_resumable)
  moreover have "map ld_seq (file_docs (example_index_world example_lines) example_log None (complete_part example_lines)) = [0, 1]"
    by code_simp
  ultimately show ?thesis by (simp add: example_index_world_ok)
qed

theorem interrupted_ingest_repeats_nothing_witness:
  "\<exists>li :: unit log_index.
     index_cursor example_log li = cursor_at [0x61, newline] \<and> length (index_docs example_log li) = 2 \<and>
     indexed (example_index_world example_lines) None example_log example_lines
       (snd (ingest_sources_after (example_index_world example_lines) [example_log] None li))"
proof -
  let ?xw = "example_index_world example_lines"
  let ?p = "[0x61, newline] :: bytes"
  define li :: "unit log_index" where
    "li = \<lparr>li_docs = file_docs ?xw example_log None (?p @ [0x62, newline]),
       li_ingest = \<lparr>ig_version = 1, ig_sources = [(key_of example_log, cursor_at ?p)], ig_facet_fields = []\<rparr>,
       li_stored = None, li_facet_cache = []\<rparr>"
  have split: "?p @ [0x62, newline, 0x63] = example_lines" by (simp add: example_lines_def)
  have "readable ?xw example_log (?p @ [0x62, newline, 0x63])"
    unfolding split by (rule example_index_world_ok) (simp_all add: example_lines_ok, simp add: example_lines_def)
  moreover have cursor: "index_cursor example_log li = cursor_at ?p" by (simp add: li_def index_cursor_def)
  moreover have docs: "index_docs example_log li = file_docs ?xw example_log None (?p @ [0x62, newline])"
    by (simp add: li_def index_docs_def file_docs_def)
  ultimately have "indexed ?xw None example_log (?p @ [0x62, newline, 0x63])
      (snd (ingest_sources_after ?xw [example_log] None li))"
    by (intro interrupted_ingest_repeats_nothing [where c = "[0x62, newline]"])
      (simp_all add: example_index_world_ok ends_line_def)
  moreover have "length (file_docs ?xw example_log None (?p @ [0x62, newline])) = 2" by code_simp
  ultimately show ?thesis using cursor docs unfolding split by auto
qed

theorem ingest_follows_growth_witness:
  "indexed (example_index_world (example_lines @ [newline])) None example_log (example_lines @ [newline])
    (snd (ingest_sources_after (example_index_world (example_lines @ [newline])) [example_log] None
      (snd (ingest_sources_after (example_index_world example_lines) [example_log] None empty_index))))"
proof -
  have "readable (example_index_world example_lines) example_log example_lines"
    "readable (example_index_world (example_lines @ [newline])) example_log (example_lines @ [newline])"
    by (intro example_index_world_ok; simp add: example_lines_ok; simp add: example_lines_def)+
  then show ?thesis
    using ingest_follows_growth [OF example_index_world_ok(1) example_index_world_ok(1), of "[example_log]"
        "example_lines @ [newline]" example_lines "\<lambda>_. example_lines" None empty_index "\<lambda>_. [newline]"]
    by (simp add: empty_index_resumable) (simp add: example_index_world_def)
qed

theorem run_deletion_exact_witness:
  "fst (delete_run (example_index_world []) ''r'' empty_index) = Inr () \<and>
   count_run ''r'' (snd (delete_run (example_index_world []) ''r'' empty_index)) = 0"
  using run_deletion_exact [OF example_index_world_ok(1) prod.collapse [symmetric]] by blast

definition dated_doc :: "int \<Rightarrow> log_doc" where
  "dated_doc t = \<lparr>ld_run_id = ''r'', ld_service = ''web'', ld_stream = ''stdout'', ld_level = ''info'',
     ld_ts_nanos = t, ld_ts = '''', ld_seq = 0, ld_message = '''', ld_raw = '''', ld_attrs = []\<rparr>"

theorem size_eviction_oldest_first_witness:
  "let li = empty_index\<lparr>li_docs := map dated_doc [3, 1, 2, 2]\<rparr>;
       li' = snd (evict_to_size (example_index_world []) (\<lambda>n. n div 2) 20 10 li) in
   length (li_docs li') \<le> 2 \<and> map ld_ts_nanos (li_docs li') = [3]"
proof -
  let ?li = "empty_index\<lparr>li_docs := map dated_doc [3, 1, 2, 2]\<rparr>"
  let ?li' = "snd (evict_to_size (example_index_world []) (\<lambda>n. n div 2) 20 10 ?li)"
  have "length (li_docs ?li') \<le> length (li_docs ?li) div 2"
    using size_eviction_oldest_first [OF _ _ prod.collapse [symmetric],
        where xw = "example_index_world []" and target = "\<lambda>n. n div 2" and li = ?li and current_size = 20 and max_bytes = 10]
    by (simp add: example_index_world_ok)
  moreover have "map ld_ts_nanos (li_docs ?li') = [3]" by code_simp
  ultimately show ?thesis by simp
qed

end
