(* ===== verification/Log_Query.thy ===== *)
theory Log_Query
  imports Log_Index Sources
begin

text \<open>
  Reading the index of log lines: \<open>src/src/infra/logs/index/query.rs\<close> and
  \<open>facets.rs\<close>, the handlers \<open>daemon/handlers/logs.rs\<close> and
  \<open>app/queries/logs.rs\<close>, and the part of \<open>cli/commands/logs.rs\<close> that asks for
  pages of lines and follows them. A query of the search library is the set of documents it matches; its
  parser for the text of a search, and whether a search succeeds, are parameters. The library returns the
  documents with the best value of a field, and of equal ones those with the lower address, which here is
  the place in the list of documents.
\<close>

section \<open>Queries and answers\<close>

record log_filter =
  lf_last :: "nat option"
  lf_since :: "string option"
  lf_search :: "string option"
  lf_level :: "string option"
  lf_stream :: "string option"

record logs_query =
  lq_filter :: log_filter
  lq_after :: "nat option"

record logs_response =
  ls_lines :: "string list"
  ls_truncated :: bool
  ls_total :: nat
  ls_error_count :: nat
  ls_warn_count :: nat
  ls_next_after :: "nat option"
  ls_matched_total :: nat

record log_entry =
  le_ts :: string
  le_service :: string
  le_stream :: string
  le_level :: string
  le_message :: string
  le_raw :: string
  le_json :: "json option"
  le_attributes :: "(string, string) bmap"

record log_view_query =
  vq_filter :: log_filter
  vq_service :: "string option"
  vq_include_entries :: bool
  vq_include_facets :: bool
  vq_include_total :: bool

record facet_value =
  fv_value :: string
  fv_count :: nat

record facet_filter =
  ff_field :: string
  ff_kind :: string
  ff_values :: "facet_value list"

record log_view_response =
  vr_entries :: "log_entry list"
  vr_truncated :: bool
  vr_total :: nat
  vr_total_exact :: bool
  vr_filters :: "facet_filter list"

type_synonym doc_query = "log_doc \<Rightarrow> bool"

text \<open>The parser of search texts over the message of a document, and the failure of a search.\<close>

record query_world =
  qw_index :: index_world
  qw_parse :: "string \<Rightarrow> doc_query result"
  qw_fail :: "string option"

section \<open>The documents asked for\<close>

definition build_scope_query ::
  "string \<Rightarrow> string option \<Rightarrow> int option \<Rightarrow> string option \<Rightarrow> nat option \<Rightarrow> doc_query option \<Rightarrow> doc_query" where
  "build_scope_query run_id service since_nanos stream after_seq extra d \<longleftrightarrow>
     ld_run_id d = run_id \<and>
     (case service of None \<Rightarrow> True | Some s \<Rightarrow> ld_service d = s) \<and>
     (case stream of None \<Rightarrow> True | Some s \<Rightarrow> s = [] \<or> s = ''all'' \<or> ld_stream d = s) \<and>
     (case since_nanos of None \<Rightarrow> True | Some since \<Rightarrow> since \<le> ld_ts_nanos d) \<and>
     (case after_seq of None \<Rightarrow> True | Some after \<Rightarrow> after < ld_seq d) \<and>
     (case extra of None \<Rightarrow> True | Some q \<Rightarrow> q d)"

definition add_level_filter :: "doc_query \<Rightarrow> string \<Rightarrow> doc_query" where
  "add_level_filter base level =
     (let level = trim level in
      if level = [] \<or> level = ''all'' then base
      else if level = ''error'' then (\<lambda>d. base d \<and> ld_level d = ''error'')
      else if level = ''warn'' then (\<lambda>d. base d \<and> ld_level d = ''warn'')
      else base)"

definition add_text_query :: "query_world \<Rightarrow> doc_query \<Rightarrow> string option \<Rightarrow> doc_query result" where
  "add_text_query qw base query =
     (case query of
        None \<Rightarrow> Inr base
      | Some text \<Rightarrow>
          (let text = trim text in
           if text = [] then Inr base
           else (case qw_parse qw text of
                   Inl e \<Rightarrow> Inl (''bad_query: '' @ e)
                 | Inr parsed \<Rightarrow> Inr (\<lambda>d. base d \<and> parsed d))))"

definition since_nanos_of :: "query_world \<Rightarrow> log_filter \<Rightarrow> int option" where
  "since_nanos_of qw f = Option.bind (lf_since f) (xw_nanos (qw_index qw))"

text \<open>The first documents in the order of a key.\<close>

definition top_docs :: "nat \<Rightarrow> (log_doc \<Rightarrow> 'k::linorder) \<Rightarrow> log_doc list \<Rightarrow> log_doc list" where
  "top_docs limit key docs = take limit (sort_key key docs)"

section \<open>The lines of a service\<close>

definition max_seq :: "nat option \<Rightarrow> log_doc list \<Rightarrow> nat option" where
  "max_seq next_after docs =
     fold (\<lambda>d next. Some (case next of None \<Rightarrow> ld_seq d | Some n \<Rightarrow> max n (ld_seq d))) docs next_after"

definition error_docs :: "log_doc list \<Rightarrow> nat" where
  "error_docs docs = length (filter (\<lambda>d. ld_level d = ''error'') docs)"

definition warn_docs :: "log_doc list \<Rightarrow> nat" where
  "warn_docs docs = length (filter (\<lambda>d. ld_level d = ''warn'') docs)"

text \<open>The answer from the documents in scope and those that match.\<close>

definition service_page :: "nat \<Rightarrow> nat option \<Rightarrow> log_doc list \<Rightarrow> log_doc list \<Rightarrow> logs_response" where
  "service_page tail after scope matching =
     (let top = (if tail = 0 then []
                 else if after \<noteq> None then top_docs tail ld_seq matching
                 else top_docs tail (\<lambda>d. - ld_ts_nanos d) matching);
          lines = (if after \<noteq> None then top else sort_key ld_ts_nanos (sort_key ld_seq top)) in
      \<lparr>ls_lines = map ld_raw lines, ls_truncated = (tail < length matching \<and> 0 < tail), ls_total = length scope,
       ls_error_count = error_docs scope, ls_warn_count = warn_docs scope, ls_next_after = max_seq None top,
       ls_matched_total = length matching\<rparr>)"

definition search_service ::
  "query_world \<Rightarrow> string \<Rightarrow> string \<Rightarrow> string \<Rightarrow> logs_query \<Rightarrow> 'r log_index \<Rightarrow> logs_response result \<times> 'r log_index" where
  "search_service qw run_id service log_path query li =
     (case ingest_sources (qw_index qw) [\<lparr>lg_run_id = run_id, lg_service = service, lg_path = log_path\<rparr>] li of
        (Inl e, li1) \<Rightarrow> (Inl e, li1)
      | (Inr _, li1) \<Rightarrow>
          (let f = lq_filter query;
               tail = unwrap_or (lf_last f) 500;
               since = since_nanos_of qw f;
               scope = build_scope_query run_id (Some service) since (lf_stream f) None None;
               base = build_scope_query run_id (Some service) since (lf_stream f) (lq_after query) None in
           case add_text_query qw (add_level_filter base (unwrap_or (lf_level f) ''all'')) (lf_search f) of
             Inl e \<Rightarrow> (Inl e, li1)
           | Inr result_query \<Rightarrow>
               (case qw_fail qw of
                  Some e \<Rightarrow> (Inl e, li1)
                | None \<Rightarrow>
                    (Inr (service_page tail (lq_after query) (filter scope (li_docs li1)) (filter result_query (li_docs li1))), li1))))"

section \<open>Facets\<close>

definition facet_terms_limit :: nat where "facet_terms_limit = 50"

definition facet_fields_for_scope :: "string \<Rightarrow> string option \<Rightarrow> 'r log_index \<Rightarrow> string list" where
  "facet_fields_for_scope run_id service li =
     (let by_source = ig_facet_fields (li_ingest li);
          names = (case service of
              Some s \<Rightarrow> (case map_of by_source (source_key run_id s) of None \<Rightarrow> [] | Some names \<Rightarrow> bm_keys names)
            | None \<Rightarrow> concat (map (\<lambda>(key, names). if starts_with key (run_id @ ''/'') then bm_keys names else []) by_source)) in
      [''service'', ''level'', ''stream''] @ sort (remdups names))"

text \<open>The value a document has in the column of a facet field.\<close>

definition facet_value_of :: "string \<Rightarrow> log_doc \<Rightarrow> string option" where
  "facet_value_of field d =
     (if field = ''service'' then Some (ld_service d)
      else if field = ''level'' then Some (ld_level d)
      else if field = ''stream'' then Some (ld_stream d)
      else map_of (ld_attrs d) field)"

definition count_value :: "string \<Rightarrow> (string, nat) bmap \<Rightarrow> (string, nat) bmap" where
  "count_value v counts = bm_insert v (unwrap_or (map_of counts v) 0 + 1) counts"

definition facet_counts :: "string \<Rightarrow> log_doc list \<Rightarrow> (string, nat) bmap" where
  "facet_counts field docs =
     fold count_value (filter (\<lambda>v. v \<noteq> []) (List.map_filter (facet_value_of field) docs)) []"

definition facet_values_from_counts :: "(string, nat) bmap option \<Rightarrow> facet_value list" where
  "facet_values_from_counts counts =
     (case counts of
        None \<Rightarrow> []
      | Some m \<Rightarrow>
          take facet_terms_limit
            (sort_key (\<lambda>v. - int (fv_count v))
              (map (\<lambda>(value, count). \<lparr>fv_value = value, fv_count = count\<rparr>) (filter (\<lambda>(value, _). value \<noteq> []) m))))"

definition facet_kind_for :: "string \<Rightarrow> string" where
  "facet_kind_for field = (if field = ''level'' \<or> field = ''stream'' then ''toggle'' else ''select'')"

definition facet_sort_rank :: "string \<Rightarrow> nat" where
  "facet_sort_rank field =
     (if field = ''service'' then 0 else if field = ''level'' then 1 else if field = ''stream'' then 2 else 3)"

definition facet_filters :: "string list \<Rightarrow> log_doc list \<Rightarrow> facet_filter list" where
  "facet_filters specs docs =
     sort_key (\<lambda>f. facet_sort_rank (ff_field f)) (sort_key ff_field
       (List.map_filter (\<lambda>field.
          (let values = facet_values_from_counts (Some (facet_counts field docs)) in
           if values = [] then None
           else Some \<lparr>ff_field = field, ff_kind = facet_kind_for field, ff_values = values\<rparr>)) specs))"

section \<open>The view of a run\<close>

definition parse_raw_json_object :: "json_parser \<Rightarrow> string \<Rightarrow> json option" where
  "parse_raw_json_object parse raw =
     (if \<not> starts_with (trim raw) ''{'' then None
      else (case parse (trim raw) of Some (J_Obj m) \<Rightarrow> Some (J_Obj m) | _ \<Rightarrow> None))"

definition attributes_from_value :: "(string, string) bmap \<Rightarrow> (string, string) bmap" where
  "attributes_from_value attrs = filter (\<lambda>(_, v). v \<noteq> []) attrs"

definition entry_of_doc :: "json_parser \<Rightarrow> log_doc \<Rightarrow> log_entry" where
  "entry_of_doc parse d =
     \<lparr>le_ts = ld_ts d, le_service = ld_service d, le_stream = ld_stream d, le_level = ld_level d,
      le_message = ld_message d, le_raw = ld_raw d, le_json = parse_raw_json_object parse (ld_raw d),
      le_attributes = attributes_from_value (ld_attrs d)\<rparr>"

definition view_cache_key :: "string \<Rightarrow> log_view_query \<Rightarrow> facet_cache_key option" where
  "view_cache_key run_id q =
     (if vq_include_facets q \<and> \<not> vq_include_entries q then
        Some \<lparr>fk_run_id = run_id, fk_service = vq_service q, fk_since = lf_since (vq_filter q),
          fk_search = lf_search (vq_filter q), fk_level = lf_level (vq_filter q), fk_stream = lf_stream (vq_filter q)\<rparr>
      else None)"

text \<open>
  The documents found, their number, whether it is exact and whether there are more, for each combination
  of what is asked for.
\<close>

definition view_page :: "nat \<Rightarrow> bool \<Rightarrow> bool \<Rightarrow> bool \<Rightarrow> log_doc list \<Rightarrow> nat \<times> bool \<times> log_doc list \<times> bool" where
  "view_page tail entries facets with_total docs =
     (let total = length docs; newest = (\<lambda>n. top_docs n (\<lambda>d. - ld_ts_nanos d) docs) in
      if entries then
        (if facets \<or> with_total then (total, True, newest tail, tail < total)
         else
           (let found = newest (tail + 1); truncated = tail < length found in
            (if truncated then tail + 1 else length found, False, take tail found, truncated)))
      else if facets \<or> with_total then (total, True, [], False)
      else (0, False, [], False))"

definition view_answer :: "query_world \<Rightarrow> log_view_query \<Rightarrow> string list \<Rightarrow> log_doc list \<Rightarrow> log_view_response" where
  "view_answer qw q specs docs =
     (let tail = unwrap_or (lf_last (vq_filter q)) 500;
          entries = (vq_include_entries q \<and> 0 < tail);
          facets = (vq_include_facets q \<and> specs \<noteq> []);
          (total, exact, top, truncated) = view_page tail entries facets (vq_include_total q) docs in
      \<lparr>vr_entries = (if entries then map (entry_of_doc (xw_parse (qw_index qw))) (sort_key ld_ts_nanos (sort_key ld_seq top))
                    else []),
       vr_truncated = (vq_include_entries q \<and> truncated), vr_total = total, vr_total_exact = exact,
       vr_filters = (if vq_include_facets q then facet_filters specs (if facets then docs else []) else [])\<rparr>)"

definition view_query :: "query_world \<Rightarrow> string \<Rightarrow> log_view_query \<Rightarrow> doc_query result" where
  "view_query qw run_id q =
     (let f = vq_filter q in
      add_text_query qw
        (add_level_filter (build_scope_query run_id (vq_service q) (since_nanos_of qw f) (lf_stream f) None None)
          (unwrap_or (lf_level f) ''all''))
        (lf_search f))"

text \<open>
  A view takes three separate looks at the index: at the cache, at the names of the facet fields, and at the
  documents, each under its own lock; then its answer is stored in the cache, under the lock again.
\<close>

definition lookup_view :: "string \<Rightarrow> log_view_query \<Rightarrow> 'r log_index \<Rightarrow> 'r option" where
  "lookup_view run_id q li = Option.bind (view_cache_key run_id q) (map_of (li_facet_cache li))"

definition view_fields :: "string \<Rightarrow> log_view_query \<Rightarrow> 'r log_index \<Rightarrow> string list" where
  "view_fields run_id q li = (if vq_include_facets q then facet_fields_for_scope run_id (vq_service q) li else [])"

definition search_view :: "query_world \<Rightarrow> string \<Rightarrow> log_view_query \<Rightarrow> string list \<Rightarrow> log_doc list \<Rightarrow> log_view_response result" where
  "search_view qw run_id q names docs =
     (case view_query qw run_id q of
        Inl e \<Rightarrow> Inl e
      | Inr matching \<Rightarrow>
          (case qw_fail qw of
             Some e \<Rightarrow> Inl e
           | None \<Rightarrow> Inr (view_answer qw q names (filter matching docs))))"

definition cache_insert :: "facet_cache_key \<Rightarrow> 'r \<Rightarrow> (facet_cache_key \<times> 'r) list \<Rightarrow> (facet_cache_key \<times> 'r) list" where
  "cache_insert key r cache = (key, r) # filter (\<lambda>(k, _). k \<noteq> key) cache"

text \<open>The answer is stored whatever has happened to the cache since it was computed.\<close>

definition store_view :: "string \<Rightarrow> log_view_query \<Rightarrow> 'r \<Rightarrow> 'r log_index \<Rightarrow> 'r log_index" where
  "store_view run_id q response li =
     (case view_cache_key run_id q of
        None \<Rightarrow> li
      | Some key \<Rightarrow> li\<lparr>li_facet_cache := cache_insert key response (li_facet_cache li)\<rparr>)"

text \<open>What an index in this state answers when it computes the view.\<close>

definition query_view_uncached ::
  "query_world \<Rightarrow> string \<Rightarrow> log_view_query \<Rightarrow> log_view_response log_index \<Rightarrow> log_view_response result" where
  "query_view_uncached qw run_id q li = search_view qw run_id q (view_fields run_id q li) (li_docs li)"

text \<open>A whole call with nothing in between; calls that overlap changes of the index are below.\<close>

definition query_view ::
  "query_world \<Rightarrow> string \<Rightarrow> log_view_query \<Rightarrow> log_view_response log_index \<Rightarrow>
     log_view_response result \<times> log_view_response log_index" where
  "query_view qw run_id q li =
     (case lookup_view run_id q li of
        Some response \<Rightarrow> (Inr response, li)
      | None \<Rightarrow>
          (case search_view qw run_id q (view_fields run_id q li) (li_docs li) of
             Inl e \<Rightarrow> (Inl e, li)
           | Inr response \<Rightarrow> (Inr response, store_view run_id q response li)))"

definition default_filter :: log_filter where
  "default_filter = \<lparr>lf_last = None, lf_since = None, lf_search = None, lf_level = None, lf_stream = None\<rparr>"

definition warm_facets :: "query_world \<Rightarrow> string \<Rightarrow> log_view_response log_index \<Rightarrow> log_view_response log_index" where
  "warm_facets qw run_id li =
     snd (query_view qw run_id \<lparr>vq_filter = default_filter, vq_service = None, vq_include_entries = False,
       vq_include_facets = True, vq_include_total = True\<rparr> li)"

section \<open>Handlers\<close>

definition map_log_index_error :: "string \<Rightarrow> app_error" where
  "map_log_index_error message =
     (case strip_prefix message ''bad_query:'' of
        Some rest \<Rightarrow> Bad_Request (trim rest)
      | None \<Rightarrow> Internal message)"

definition no_lines :: logs_response where
  "no_lines = \<lparr>ls_lines = [], ls_truncated = False, ls_total = 0, ls_error_count = 0, ls_warn_count = 0,
     ls_next_after = None, ls_matched_total = 0\<rparr>"

text \<open>\<open>exists_at\<close> is \<open>Path::exists\<close>.\<close>

definition read_service_logs ::
  "query_world \<Rightarrow> (string \<Rightarrow> bool) \<Rightarrow> run_store \<Rightarrow> run_id \<Rightarrow> service_name \<Rightarrow> logs_query \<Rightarrow> 'r log_index \<Rightarrow>
     logs_response app_result \<times> 'r log_index" where
  "read_service_logs qw exists_at runs run_id service query li =
     (case with_run run_id (\<lambda>run. map_option (\<lambda>record. lp_log_path (sr_launch record)) (map_of (rr_services run) service)) runs of
        Inl _ \<Rightarrow> (Inl (Not_Found (''run '' @ run_id @ '' not found'')), li)
      | Inr None \<Rightarrow> (Inl (Not_Found (''service '' @ service @ '' not found'')), li)
      | Inr (Some log_path) \<Rightarrow>
          if \<not> exists_at log_path then (Inr no_lines, li)
          else (case search_service qw run_id service log_path query li of
                  (Inl e, li1) \<Rightarrow> (Inl (map_log_index_error e), li1)
                | (Inr response, li1) \<Rightarrow> (Inr response, li1)))"

text \<open>
  The task logs of a run: the entries of the directory, each a path and whether it is a regular file.
\<close>

definition task_log_source :: "run_id \<Rightarrow> string \<times> bool \<Rightarrow> log_source option" where
  "task_log_source run_id = (\<lambda>(path, is_file).
     if \<not> is_file \<or> path_extension path \<noteq> Some ''log'' then None
     else map_option (\<lambda>name. \<lparr>lg_run_id = run_id, lg_service = ''task:'' @ name, lg_path = path\<rparr>) (file_stem path))"

definition discover_task_log_sources ::
  "path_env \<Rightarrow> (string \<Rightarrow> bool) \<Rightarrow> (string \<Rightarrow> (string \<times> bool) result list result) \<Rightarrow> run_id \<Rightarrow> log_source list result" where
  "discover_task_log_sources pe exists_at list_dir run_id =
     rbind (run_task_logs_dir pe run_id) (\<lambda>dir.
       if \<not> exists_at dir then Inr []
       else rbind (list_dir dir) (\<lambda>entries.
         rbind (rmap (\<lambda>entry. entry) entries) (\<lambda>entries.
           Inr (sort_key lg_service (List.map_filter (task_log_source run_id) entries)))))"

definition run_log_sources :: "run_id \<Rightarrow> run_record \<Rightarrow> log_source list" where
  "run_log_sources run_id run =
     map (\<lambda>(service, record). \<lparr>lg_run_id = run_id, lg_service = service, lg_path = lp_log_path (sr_launch record)\<rparr>)
       (rr_services run)"

definition logs_view ::
  "query_world \<Rightarrow> path_env \<Rightarrow> (string \<Rightarrow> bool) \<Rightarrow> (string \<Rightarrow> (string \<times> bool) result list result) \<Rightarrow> run_store \<Rightarrow>
     run_id \<Rightarrow> log_view_query \<Rightarrow> log_view_response log_index \<Rightarrow> log_view_response app_result \<times> log_view_response log_index" where
  "logs_view qw pe exists_at list_dir runs run_id query li =
     (case with_run run_id (run_log_sources run_id) runs of
        Inl _ \<Rightarrow> (Inl (Not_Found (''run '' @ run_id @ '' not found'')), li)
      | Inr sources \<Rightarrow>
          (case discover_task_log_sources pe exists_at list_dir run_id of
             Inl e \<Rightarrow> (Inl (Internal e), li)
           | Inr task_sources \<Rightarrow>
               (case ingest_sources (qw_index qw) (sources @ task_sources) li of
                  (Inl e, li1) \<Rightarrow> (Inl (map_log_index_error e), li1)
                | (Inr _, li1) \<Rightarrow>
                    (case query_view qw run_id query li1 of
                       (Inl e, li2) \<Rightarrow> (Inl (map_log_index_error e), li2)
                     | (Inr response, li2) \<Rightarrow> (Inr response, li2)))))"

section \<open>Pages follow the sequence of the lines\<close>

lemma max_seq_fold:
  "max_seq (Some n) docs = Some (fold max (map ld_seq docs) n)"
  by (induction docs arbitrary: n) (simp_all add: max_seq_def max.commute)

lemma max_seq_None: "max_seq None docs = (if docs = [] then None else Some (Max (ld_seq ` set docs)))"
proof (cases docs)
  case (Cons d ds)
  have "max_seq None docs = max_seq (Some (ld_seq d)) ds" by (simp add: Cons max_seq_def)
  also have "\<dots> = Some (Max (set (ld_seq d # map ld_seq ds)))" by (simp only: max_seq_fold Max.set_eq_fold)
  finally show ?thesis by (simp add: Cons image_image)
qed (simp add: max_seq_def)

definition in_order :: "log_doc list \<Rightarrow> bool" where
  "in_order docs \<longleftrightarrow> sorted_wrt (<) (map ld_seq docs)"

text \<open>What is left to read after a line.\<close>

definition unread :: "nat option \<Rightarrow> log_doc list \<Rightarrow> log_doc list" where
  "unread after docs = filter (\<lambda>d. case after of None \<Rightarrow> True | Some n \<Rightarrow> n < ld_seq d) docs"

lemma in_order_sorted: "in_order docs \<Longrightarrow> sorted (map ld_seq docs)"
  by (auto simp: in_order_def intro: strict_sorted_imp_sorted)

lemma in_order_filter: "in_order docs \<Longrightarrow> in_order (filter P docs)"
  by (induction docs) (auto simp: in_order_def)

lemma in_order_append [simp]:
  "in_order (xs @ ys) \<longleftrightarrow> in_order xs \<and> in_order ys \<and> (\<forall>x \<in> set xs. \<forall>y \<in> set ys. ld_seq x < ld_seq y)"
  by (auto simp: in_order_def sorted_wrt_append)

lemma sort_key_in_order: "in_order docs \<Longrightarrow> sort_key ld_seq docs = docs"
  by (rule sort_key_id_if_sorted) (rule in_order_sorted)

lemma page_lines:
  assumes "in_order docs"
  shows "service_page tail (Some after) scope (unread (Some after) docs) =
    (let top = take tail (unread (Some after) docs) in
     \<lparr>ls_lines = map ld_raw top, ls_truncated = (tail < length (unread (Some after) docs) \<and> 0 < tail),
      ls_total = length scope, ls_error_count = error_docs scope, ls_warn_count = warn_docs scope,
      ls_next_after = (if top = [] then None else Some (ld_seq (last top))), ls_matched_total = length (unread (Some after) docs)\<rparr>)"
proof -
  let ?u = "unread (Some after) docs"
  have order: "in_order ?u" unfolding unread_def using assms by (rule in_order_filter)
  have top: "(if tail = 0 then [] else top_docs tail ld_seq ?u) = take tail ?u"
    by (simp add: top_docs_def sort_key_in_order [OF order])
  have "max_seq None (take tail ?u) = (if take tail ?u = [] then None else Some (ld_seq (last (take tail ?u))))"
  proof (cases "take tail ?u" rule: rev_cases)
    case (snoc init d)
    have "in_order (take tail ?u)" using order append_take_drop_id [of tail ?u] in_order_append by metis
    then have "\<forall>x \<in> set init. ld_seq x < ld_seq d" by (simp add: snoc)
    then have "Max (ld_seq ` set (take tail ?u)) = ld_seq d" by (intro Max_eqI) (auto simp: snoc less_imp_le)
    then show ?thesis by (simp add: max_seq_None snoc)
  qed (simp add: max_seq_None)
  then show ?thesis
    by (simp only: service_page_def Let_def option.distinct(2) not_False_eq_True if_True top)
qed


section \<open>Following the lines of a service\<close>

text \<open>
  The loop of the client: each poll is one request, which asks for the lines after the largest sequence
  number seen, and its answer is printed.
\<close>

definition build_logs_query ::
  "nat \<Rightarrow> nat option \<Rightarrow> string option \<Rightarrow> string option \<Rightarrow> string option \<Rightarrow> string option \<Rightarrow> logs_query" where
  "build_logs_query tail after query level stream since =
     \<lparr>lq_filter = \<lparr>lf_last = Some tail, lf_since = since, lf_search = query, lf_level = level, lf_stream = stream\<rparr>,
      lq_after = after\<rparr>"

definition max_after :: "nat option \<Rightarrow> nat option \<Rightarrow> nat option" where
  "max_after after next = (case next of None \<Rightarrow> after | Some n \<Rightarrow> Some (case after of None \<Rightarrow> n | Some c \<Rightarrow> max c n))"

fun follow_loop ::
  "(nat \<Rightarrow> nat option \<Rightarrow> logs_response result) list \<Rightarrow> nat option \<Rightarrow> string list list result" where
  "follow_loop [] after = Inr []"
| "follow_loop (fetch # polls) after =
     (case fetch 500 after of
        Inl e \<Rightarrow> Inl e
      | Inr response \<Rightarrow>
          rbind (follow_loop polls (max_after after (ls_next_after response))) (\<lambda>printed.
            Inr (ls_lines response # printed)))"

definition stream_service_logs_api ::
  "nat \<Rightarrow> (nat \<Rightarrow> nat option \<Rightarrow> logs_response result) \<Rightarrow> (nat \<Rightarrow> nat option \<Rightarrow> logs_response result) list \<Rightarrow>
     string list list result" where
  "stream_service_logs_api initial_tail first polls =
     (case first initial_tail None of
        Inl e \<Rightarrow> Inl e
      | Inr response \<Rightarrow>
          rbind (follow_loop polls (ls_next_after response)) (\<lambda>printed. Inr (ls_lines response # printed)))"

text \<open>A poll of an index whose documents in scope and matching documents are given.\<close>

definition poll :: "log_doc list \<times> log_doc list \<Rightarrow> nat \<Rightarrow> nat option \<Rightarrow> logs_response result" where
  "poll docs tail after = Inr (service_page tail after (fst docs) (unread after (snd docs)))"

fun grows :: "log_doc list \<Rightarrow> (log_doc list \<times> log_doc list) list \<Rightarrow> bool" where
  "grows docs [] = True"
| "grows docs (d # ds) = ((\<exists>new. snd d = docs @ new) \<and> grows (snd d) ds)"

lemma unread_page:
  assumes "in_order docs" and "take n (unread (Some a) docs) \<noteq> []"
  shows "unread (Some (ld_seq (last (take n (unread (Some a) docs))))) docs = drop n (unread (Some a) docs)"
proof -
  let ?u = "unread (Some a) docs"
  let ?t = "take n ?u"
  let ?l = "ld_seq (last ?t)"
  have u: "in_order ?u" unfolding unread_def using assms(1) by (rule in_order_filter)
  have "last ?t \<in> set ?u" using assms(2) by (meson in_set_takeD last_in_set)
  then have al: "a < ?l" by (simp add: unread_def)
  obtain init where t: "?t = init @ [last ?t]" using assms(2) append_butlast_last_id by metis
  have order: "in_order (?t @ drop n ?u)" using u by simp
  have later: "\<forall>y \<in> set (drop n ?u). ?l < ld_seq y"
    using order assms(2) last_in_set [OF assms(2)] unfolding in_order_append by blast
  have earlier: "\<forall>x \<in> set ?t. \<not> ?l < ld_seq x"
  proof
    fix x assume x: "x \<in> set ?t"
    have "in_order ?t" using order in_order_append by blast
    then have "in_order (init @ [last ?t])" using t by metis
    then have "\<forall>x \<in> set init. ld_seq x < ?l" by simp
    moreover have "x \<in> set (init @ [last ?t])" using x t by metis
    ultimately show "\<not> ?l < ld_seq x" by auto
  qed
  have "unread (Some ?l) docs = filter (\<lambda>d. ?l < ld_seq d) ?u"
    using al by (auto simp: unread_def intro!: filter_cong)
  also have "\<dots> = filter (\<lambda>d. ?l < ld_seq d) (?t @ drop n ?u)" by simp
  also have "\<dots> = drop n ?u" using earlier later by (simp only: filter_append) (simp add: filter_empty_conv filter_id_conv)
  finally show ?thesis .
qed


lemma take_length_append: "take (length xs + n) (xs @ ys) = xs @ take n ys"
  by simp

text \<open>What the polls print is, without gap or repetition, the lines after the first ones read.\<close>

lemma follow_loop_prints:
  assumes "grows docs polls" and "in_order (snd (last ((scope, docs) # polls)))"
  shows "\<exists>printed n. follow_loop (map poll polls) (Some a) = Inr printed \<and>
    concat printed = map ld_raw (take n (unread (Some a) (snd (last ((scope, docs) # polls))))) \<and>
    (polls \<noteq> [] \<longrightarrow> min 500 (length (unread (Some a) (snd (last ((scope, docs) # polls))))) \<le> n)"
  using assms
proof (induction polls arbitrary: docs scope a)
  case Nil
  have "concat [] = map ld_raw (take 0 (unread (Some a) (snd (last [(scope, docs)]))))" by simp
  then show ?case by (metis follow_loop.simps(1) list.simps(8))
next
  case (Cons p polls)
  obtain scope1 docs1 where p: "p = (scope1, docs1)" by fastforce
  define final where "final = snd (last ((scope1, docs1) # polls))"
  have final: "final = snd (last ((scope, docs) # p # polls))" by (simp add: final_def p)
  have grow: "grows docs1 polls" using Cons.prems(1) by (simp add: p)
  then have "\<exists>new. final = docs1 @ new"
    unfolding final_def by (induction polls arbitrary: scope1 docs1) (auto, metis append_assoc snd_conv)
  then obtain new where new: "final = docs1 @ new" by blast
  have order: "in_order final" using Cons.prems(2) final by simp
  then have order1: "in_order docs1" by (simp add: new)
  let ?u = "unread (Some a) docs1"
  let ?top = "take 500 ?u"
  define after where "after = max_after (Some a) (if ?top = [] then None else Some (ld_seq (last ?top)))"
  obtain a1 where a1: "after = Some a1" by (cases "?top = []") (auto simp: after_def max_after_def)
  obtain printed n where rest: "follow_loop (map poll polls) (Some a1) = Inr printed"
    "concat printed = map ld_raw (take n (unread (Some a1) final))"
    "polls \<noteq> [] \<longrightarrow> min 500 (length (unread (Some a1) final)) \<le> n"
    using Cons.IH [OF grow, of scope1 a1] order by (auto simp: final_def)
  obtain r where r: "poll p 500 (Some a) = Inr r" "ls_lines r = map ld_raw ?top"
      "ls_next_after r = (if ?top = [] then None else Some (ld_seq (last ?top)))"
    unfolding poll_def p fst_conv snd_conv page_lines [OF order1] Let_def by fastforce
  have "max_after (Some a) (ls_next_after r) = Some a1" using a1 r(3) by (simp only: after_def)
  then have here: "follow_loop (map poll (p # polls)) (Some a) = Inr (map ld_raw ?top # printed)"
    using rest(1) r(1,2) by simp
  have "unread (Some a) final = ?top @ unread (Some a1) final"
  proof (cases "?top = []")
    case True
    then show ?thesis using a1 by (simp add: after_def max_after_def)
  next
    case False
    have "last ?top \<in> set ?u" using False by (meson in_set_takeD last_in_set)
    then have l: "a < ld_seq (last ?top)" "last ?top \<in> set docs1" by (simp_all add: unread_def)
    then have a1': "a1 = ld_seq (last ?top)" using a1 False by (simp add: after_def max_after_def)
    have "\<forall>d \<in> set new. a1 < ld_seq d" using order l(2) unfolding new in_order_append a1' by blast
    then have "unread (Some a1) new = new" "unread (Some a) new = new"
      using l(1) a1' by (auto simp: unread_def filter_id_conv)
    then have "unread (Some a) final = ?u @ new" "unread (Some a1) final = drop 500 ?u @ new"
      using unread_page [OF order1 False] a1' by (simp_all add: new unread_def)
    then show ?thesis by simp
  qed
  then have all: "unread (Some a) final = ?top @ unread (Some a1) final" .
  then have "concat (map ld_raw ?top # printed) = map ld_raw (take (length ?top + n) (unread (Some a) final))"
    using rest(2) by (simp only: concat.simps take_length_append map_append)
  moreover have "min 500 (length (unread (Some a) final)) \<le> length ?top + n"
  proof (cases "polls = []")
    case True
    then have "final = docs1" by (simp add: final_def)
    then show ?thesis by simp
  next
    case False
    then show ?thesis using rest(3) arg_cong [OF all, of length] by simp
  qed
  ultimately show ?case using here unfolding final by blast
qed


text \<open>The documents of one service that a search finds, whatever was read before.\<close>

definition service_docs ::
  "query_world \<Rightarrow> string \<Rightarrow> string \<Rightarrow> logs_query \<Rightarrow> 'r log_index \<Rightarrow> (log_doc list \<times> log_doc list) result" where
  "service_docs qw run_id service query li =
     (let f = lq_filter query;
          scope = build_scope_query run_id (Some service) (since_nanos_of qw f) (lf_stream f) None None in
      rbind (add_text_query qw (add_level_filter scope (unwrap_or (lf_level f) ''all'')) (lf_search f)) (\<lambda>found.
        case qw_fail qw of
          Some e \<Rightarrow> Inl e
        | None \<Rightarrow> Inr (filter scope (li_docs li), filter found (li_docs li))))"

abbreviation after_line :: "nat option \<Rightarrow> doc_query" where
  "after_line after d \<equiv> (case after of None \<Rightarrow> True | Some n \<Rightarrow> n < ld_seq d)"

lemma scope_after:
  "build_scope_query run_id service since stream after None =
     (\<lambda>d. build_scope_query run_id service since stream None None d \<and> after_line after d)"
  by (intro ext) (simp add: build_scope_query_def conj_ac)

lemma level_conj: "add_level_filter (\<lambda>d. base d \<and> c d) l = (\<lambda>d. add_level_filter base l d \<and> c d)"
  by (auto simp: add_level_filter_def Let_def fun_eq_iff)

lemma text_conj:
  "add_text_query qw (\<lambda>d. base d \<and> c d) t = rbind (add_text_query qw base t) (\<lambda>q. Inr (\<lambda>d. q d \<and> c d))"
  by (auto simp: add_text_query_def Let_def fun_eq_iff split: option.split sum.split)

lemma unread_filter: "unread after (filter q ds) = filter (\<lambda>d. q d \<and> after_line after d) ds"
  by (simp add: unread_def conj_commute)

lemma search_service_polls:
  assumes "ingest_sources (qw_index qw) [\<lparr>lg_run_id = run_id, lg_service = service, lg_path = path\<rparr>] li = (Inr (), li1)"
    and "service_docs qw run_id service query li1 = Inr docs"
  shows "search_service qw run_id service path query li =
    (poll docs (unwrap_or (lf_last (lq_filter query)) 500) (lq_after query), li1)"
proof -
  define f where "f = lq_filter query"
  define scope where "scope = build_scope_query run_id (Some service) (since_nanos_of qw f) (lf_stream f) None None"
  obtain q where q: "add_text_query qw (add_level_filter scope (unwrap_or (lf_level f) ''all'')) (lf_search f) = Inr q"
    and docs: "docs = (filter scope (li_docs li1), filter q (li_docs li1))" "qw_fail qw = None"
    using assms(2) by (auto simp: service_docs_def Let_def rbind_eq_Inr f_def [symmetric] scope_def [symmetric] split: option.splits)
  have after: "build_scope_query run_id (Some service) (since_nanos_of qw f) (lf_stream f) (lq_after query) None =
      (\<lambda>d. scope d \<and> after_line (lq_after query) d)"
    unfolding scope_def by (rule scope_after)
  show ?thesis
    unfolding search_service_def assms(1) Let_def f_def [symmetric] after scope_def [symmetric]
    by (simp add: level_conj text_conj q docs poll_def unread_filter)
qed

definition service_fetch ::
  "string \<Rightarrow> string \<Rightarrow> string \<Rightarrow> string option \<Rightarrow> string option \<Rightarrow> string option \<Rightarrow> string option \<Rightarrow>
     query_world \<times> 'r log_index \<Rightarrow> nat \<Rightarrow> nat option \<Rightarrow> logs_response result" where
  "service_fetch run_id service path query level stream since = (\<lambda>(qw, li) tail after.
     fst (search_service qw run_id service path (build_logs_query tail after query level stream since) li))"

lemma service_fetch_polls:
  assumes "ingest_sources (qw_index qw) [\<lparr>lg_run_id = run_id, lg_service = service, lg_path = path\<rparr>] li = (Inr (), li1)"
    and "service_docs qw run_id service (build_logs_query 500 None query level stream since) li1 = Inr docs"
  shows "service_fetch run_id service path query level stream since (qw, li) = poll docs"
proof (intro ext)
  fix tail after
  have "service_docs qw run_id service (build_logs_query tail after query level stream since) li1 =
      service_docs qw run_id service (build_logs_query 500 None query level stream since) li1"
    unfolding service_docs_def build_logs_query_def since_nanos_of_def Let_def logs_query.simps log_filter.simps by (rule refl)
  then have "service_docs qw run_id service (build_logs_query tail after query level stream since) li1 = Inr docs"
    using assms(2) by simp
  then show "service_fetch run_id service path query level stream since (qw, li) tail after = poll docs tail after"
    using search_service_polls [OF assms(1)] by (simp add: service_fetch_def build_logs_query_def)
qed

text \<open>
  C33. While the lines that match only grow at their end, following a service after the line \<open>a\<close>
  prints the lines that come after it in their order, none twice and none left out between two that are
  printed, and all of them when no more than a page of them is there at the last poll.
\<close>

theorem follow_prints_each_line_once:
  assumes "list_all2 (\<lambda>(qw, li) docs. \<exists>li1.
        ingest_sources (qw_index qw) [\<lparr>lg_run_id = run_id, lg_service = service, lg_path = path\<rparr>] li = (Inr (), li1) \<and>
        service_docs qw run_id service (build_logs_query 500 None query level stream since) li1 = Inr docs) polls found"
    and "grows docs found" and "in_order (snd (last ((scope, docs) # found)))"
  shows "\<exists>printed n. follow_loop (map (service_fetch run_id service path query level stream since) polls) (Some a) = Inr printed \<and>
    concat printed = map ld_raw (take n (unread (Some a) (snd (last ((scope, docs) # found))))) \<and>
    (polls \<noteq> [] \<longrightarrow> min 500 (length (unread (Some a) (snd (last ((scope, docs) # found))))) \<le> n)"
proof -
  have one: "service_fetch run_id service path query level stream since p = poll docs"
    if "case p of (qw, li) \<Rightarrow> \<exists>li1.
        ingest_sources (qw_index qw) [\<lparr>lg_run_id = run_id, lg_service = service, lg_path = path\<rparr>] li = (Inr (), li1) \<and>
        service_docs qw run_id service (build_logs_query 500 None query level stream since) li1 = Inr docs" for p docs
    using that service_fetch_polls by (cases p) blast
  then have "list_all2 (\<lambda>p docs. service_fetch run_id service path query level stream since p = poll docs) polls found"
    by (rule list_all2_mono [OF assms(1)]) (auto intro: one)
  then have fetches: "map (service_fetch run_id service path query level stream since) polls = map poll found"
    by (simp add: list_all2_conv_all_nth list_eq_iff_nth_eq)
  have empty: "polls = [] \<longleftrightarrow> found = []" using list_all2_lengthD [OF assms(1)] by auto
  show ?thesis unfolding fetches empty by (rule follow_loop_prints [OF assms(2,3)])
qed

section \<open>The cache of facets\<close>

text \<open>
  Every operation on the index either empties the cache or leaves it and everything an answer depends on
  as it was.
\<close>

definition keeps_answers :: "'r log_index \<Rightarrow> 'r log_index \<Rightarrow> bool" where
  "keeps_answers li li' \<longleftrightarrow>
     li_facet_cache li' = [] \<or>
     (li_docs li' = li_docs li \<and> ig_facet_fields (li_ingest li') = ig_facet_fields (li_ingest li) \<and>
      li_facet_cache li' = li_facet_cache li)"

lemma keeps_refl [simp]: "keeps_answers li li"
  by (simp add: keeps_answers_def)

lemma keeps_trans: "keeps_answers li li1 \<Longrightarrow> keeps_answers li1 li2 \<Longrightarrow> keeps_answers li li2"
  by (auto simp: keeps_answers_def)

lemma commit_keeps:
  assumes "xw_reload xw = None" and "commit_ingest_batch xw batch li = (r, batch', li')"
  shows "keeps_answers li li'"
  using assms by (auto simp: commit_ingest_batch_def keeps_answers_def Let_def split: if_splits option.splits)

lemma ingest_chunks_keeps:
  assumes "xw_reload xw = None"
  shows "ingest_chunks xw s min_ts chunks carry cursor delete_from batch li = (r, batch', li') \<Longrightarrow> keeps_answers li li'"
proof (induction chunks arbitrary: carry cursor delete_from batch li)
  case (Cons chunk chunks)
  show ?case
  proof (cases chunk)
    case (Inr bytes)
    have flushed: "keeps_answers li li'"
      if "commit_ingest_batch xw b li = (r1, b1, li1)"
        and "(case r1 of Inl e \<Rightarrow> (Inl e, b1, li1) | Inr _ \<Rightarrow> ingest_chunks xw s min_ts chunks ca cu None b1 li1) = (r, batch', li')"
      for b r1 b1 li1 ca cu
    proof (cases r1)
      case (Inl e)
      then show ?thesis using commit_keeps [OF assms that(1)] that(2) by simp
    next
      case (Inr u)
      then have "keeps_answers li1 li'" using that(2) Cons.IH by simp
      then show ?thesis using commit_keeps [OF assms that(1)] keeps_trans by blast
    qed
    show ?thesis
      using Cons.prems unfolding Inr ingest_chunks.simps Let_def
      by (auto split: if_splits prod.splits intro: Cons.IH flushed)
  qed (use Cons.prems in auto)
qed simp

lemma ingest_source_keeps:
  assumes "xw_reload xw = None" and "ingest_source xw min_ts cursors s batch li = (r, batch', li')"
  shows "keeps_answers li li'"
  using assms(2) ingest_chunks_keeps [OF assms(1)]
  by (auto simp: ingest_source_def ingest_from_def Let_def split: option.splits if_splits sum.splits)

lemma ingest_loop_keeps:
  assumes "xw_reload xw = None"
  shows "keeps_answers li (snd (ingest_loop xw min_ts cursors S batch li))"
proof (induction S arbitrary: batch li)
  case Nil
  show ?case using commit_keeps [OF assms] by (auto split: prod.split)
next
  case (Cons s S)
  obtain r batch1 li1 where step: "ingest_source xw min_ts cursors s batch li = (r, batch1, li1)" by (metis prod_cases3)
  then have "keeps_answers li li1" by (rule ingest_source_keeps [OF assms])
  then show ?case using Cons.IH [of li1 batch1] keeps_trans by (auto simp: step split: sum.split)
qed

lemma ingest_keeps: "xw_reload xw = None \<Longrightarrow> keeps_answers li (snd (ingest_sources_after xw S min_ts li))"
  by (simp add: ingest_sources_after_def ingest_loop_keeps)

lemma delete_run_keeps: "keeps_answers li (snd (delete_run xw run_id li))"
  by (simp add: delete_run_def save_ingest_def keeps_answers_def Let_def split: option.split)

lemma mark_keeps: "keeps_answers li (snd (mark_sources_current xw S li))"
  by (simp add: mark_sources_current_def save_ingest_def keeps_answers_def Let_def split: option.split)

lemma evict_older_keeps: "keeps_answers li (snd (evict_older_than xw cutoff li))"
  by (simp add: evict_older_than_def keeps_answers_def Let_def split: option.split)

lemma evict_size_keeps: "keeps_answers li (snd (evict_to_size xw target current_size max_bytes li))"
  by (simp add: evict_to_size_def keeps_answers_def Let_def split: option.split)

lemma evict_keeps: "keeps_answers li (snd (evict xw cutoff target current_size max_bytes li))"
proof -
  obtain r li1 where step: "evict_older_than xw cutoff li = (r, li1)" by fastforce
  then have "keeps_answers li li1" using evict_older_keeps [of li xw cutoff] by simp
  moreover obtain r2 li2 where size: "evict_to_size xw target current_size max_bytes li1 = (r2, li2)" by fastforce
  then have "keeps_answers li1 li2" using evict_size_keeps [of li1 xw target current_size max_bytes] by simp
  ultimately have "keeps_answers li li1" "keeps_answers li li2" using keeps_trans by blast+
  then show ?thesis by (simp add: evict_def step size split: sum.split)
qed

text \<open>
  The index with the calls for a view that are under way: each has missed the cache and then read the names of
  the facet fields, then computed its answer. \<open>vc_late\<close> is not part of the program: it says that the index
  changed after the call read the names.
\<close>

datatype view_stage = Missed | With_Fields "string list" | Answered log_view_response

record view_call =
  vc_run_id :: string
  vc_query :: log_view_query
  vc_stage :: view_stage
  vc_late :: bool

text \<open>
  A change of the index: its documents become visible, then the cache is emptied, then what is known of the
  sources is recorded. \<open>vs_changes\<close> has the changes under way and whether each has emptied the cache;
  \<open>vs_late_keys\<close>, which is not part of the program, has the keys whose cached answer came from a late call.
\<close>

record view_state =
  vs_index :: "log_view_response log_index"
  vs_changes :: "bool list"
  vs_calls :: "view_call list"
  vs_late_keys :: "facet_cache_key set"

definition late_calls :: "bool \<Rightarrow> view_call list \<Rightarrow> view_call list" where
  "late_calls changed calls = map (\<lambda>c. c\<lparr>vc_late := vc_late c \<or> changed\<rparr>) calls"

definition same_answers :: "'r log_index \<Rightarrow> 'r log_index \<Rightarrow> bool" where
  "same_answers li li' \<longleftrightarrow> li_docs li' = li_docs li \<and> ig_facet_fields (li_ingest li') = ig_facet_fields (li_ingest li)"

text \<open>An operation on the index between two steps of the calls.\<close>

definition operate :: "log_view_response log_index \<Rightarrow> view_state \<Rightarrow> view_state" where
  "operate li' s = s\<lparr>vs_index := li', vs_calls := late_calls (\<not> same_answers (vs_index s) li') (vs_calls s),
     vs_late_keys := if li_facet_cache li' = [] then {} else vs_late_keys s\<rparr>"

definition remove_nth :: "nat \<Rightarrow> 'a list \<Rightarrow> 'a list" where
  "remove_nth i xs = take i xs @ drop (Suc i) xs"

inductive view_reachable :: "query_world \<Rightarrow> view_state \<Rightarrow> bool" for qw where
  opened: "li_facet_cache li = [] \<Longrightarrow>
    view_reachable qw \<lparr>vs_index = li, vs_changes = [], vs_calls = [], vs_late_keys = {}\<rparr>"
| missed: "view_reachable qw s \<Longrightarrow> lookup_view run_id q (vs_index s) = None \<Longrightarrow>
    view_reachable qw (s\<lparr>vs_calls := vs_calls s @
      [\<lparr>vc_run_id = run_id, vc_query = q, vc_stage = Missed, vc_late = False\<rparr>]\<rparr>)"
| fields_read: "view_reachable qw s \<Longrightarrow> i < length (vs_calls s) \<Longrightarrow> vs_calls s ! i = c \<Longrightarrow> vc_stage c = Missed \<Longrightarrow>
    view_reachable qw (s\<lparr>vs_calls := (vs_calls s)[i := c\<lparr>
      vc_stage := With_Fields (view_fields (vc_run_id c) (vc_query c) (vs_index s)), vc_late := vs_changes s \<noteq> []\<rparr>]\<rparr>)"
| searched: "view_reachable qw s \<Longrightarrow> i < length (vs_calls s) \<Longrightarrow> vs_calls s ! i = c \<Longrightarrow> vc_stage c = With_Fields names \<Longrightarrow>
    search_view qw (vc_run_id c) (vc_query c) names (li_docs (vs_index s)) = Inr response \<Longrightarrow>
    view_reachable qw (s\<lparr>vs_calls := (vs_calls s)[i := c\<lparr>vc_stage := Answered response\<rparr>]\<rparr>)"
| stored: "view_reachable qw s \<Longrightarrow> i < length (vs_calls s) \<Longrightarrow> vs_calls s ! i = c \<Longrightarrow> vc_stage c = Answered response \<Longrightarrow>
    view_reachable qw (s\<lparr>vs_index := store_view (vc_run_id c) (vc_query c) response (vs_index s),
      vs_calls := remove_nth i (vs_calls s),
      vs_late_keys := (case view_cache_key (vc_run_id c) (vc_query c) of
          None \<Rightarrow> vs_late_keys s
        | Some key \<Rightarrow> if vc_late c then insert key (vs_late_keys s) else vs_late_keys s - {key})\<rparr>)"
| given_up: "view_reachable qw s \<Longrightarrow> view_reachable qw (s\<lparr>vs_calls := remove_nth i (vs_calls s)\<rparr>)"
| ingested: "view_reachable qw s \<Longrightarrow> xw_reload xw = None \<Longrightarrow>
    view_reachable qw (operate (snd (ingest_sources_after xw S min_ts (vs_index s))) s)"
| marked: "view_reachable qw s \<Longrightarrow> view_reachable qw (operate (snd (mark_sources_current xw S (vs_index s))) s)"
| run_deleted: "view_reachable qw s \<Longrightarrow> view_reachable qw (operate (snd (delete_run xw run_id (vs_index s))) s)"
| evicted: "view_reachable qw s \<Longrightarrow>
    view_reachable qw (operate (snd (evict xw cutoff target current_size max_bytes (vs_index s))) s)"
| visible: "view_reachable qw s \<Longrightarrow>
    view_reachable qw (s\<lparr>vs_index := (vs_index s)\<lparr>li_docs := docs\<rparr>, vs_changes := vs_changes s @ [False],
      vs_calls := late_calls True (vs_calls s)\<rparr>)"
| emptied: "view_reachable qw s \<Longrightarrow> i < length (vs_changes s) \<Longrightarrow>
    view_reachable qw (s\<lparr>vs_index := (vs_index s)\<lparr>li_facet_cache := []\<rparr>, vs_changes := (vs_changes s)[i := True],
      vs_late_keys := {}\<rparr>)"
| noted: "view_reachable qw s \<Longrightarrow> i < length (vs_changes s) \<Longrightarrow> vs_changes s ! i \<Longrightarrow>
    view_reachable qw (s\<lparr>vs_index := (vs_index s)\<lparr>li_ingest := ingest, li_stored := on_disk\<rparr>,
      vs_changes := remove_nth i (vs_changes s), vs_calls := late_calls True (vs_calls s)\<rparr>)"

lemma uncached_same:
  assumes "same_answers li li'"
  shows "query_view_uncached qw run_id q li' = query_view_uncached qw run_id q li"
proof -
  have "view_fields run_id q li' = view_fields run_id q li"
    using assms by (simp add: view_fields_def facet_fields_for_scope_def same_answers_def)
  then show ?thesis using assms unfolding query_view_uncached_def same_answers_def by simp
qed

lemma cached_answer_by_key:
  assumes "view_cache_key run_id q = Some key" and "view_cache_key run_id' q' = Some key"
  shows "query_view_uncached qw run_id q li = query_view_uncached qw run_id' q' li"
  using assms
  by (auto simp: view_cache_key_def query_view_uncached_def search_view_def view_fields_def view_query_def view_answer_def
      view_page_def since_nanos_of_def Let_def facet_fields_for_scope_def split: if_splits sum.split option.split)

text \<open>What is true of a call that is not late, and of a cached answer that did not come from one.\<close>

definition call_current :: "query_world \<Rightarrow> log_view_response log_index \<Rightarrow> view_call \<Rightarrow> bool" where
  "call_current qw li c \<longleftrightarrow>
     (case vc_stage c of
        Missed \<Rightarrow> True
      | With_Fields names \<Rightarrow> names = view_fields (vc_run_id c) (vc_query c) li
      | Answered response \<Rightarrow> query_view_uncached qw (vc_run_id c) (vc_query c) li = Inr response)"

definition cache_current :: "query_world \<Rightarrow> facet_cache_key set \<Rightarrow> log_view_response log_index \<Rightarrow> bool" where
  "cache_current qw late li \<longleftrightarrow>
     (\<forall>key r run_id q. map_of (li_facet_cache li) key = Some r \<longrightarrow> key \<notin> late \<longrightarrow> view_cache_key run_id q = Some key \<longrightarrow>
        query_view_uncached qw run_id q li = Inr r)"

definition views_ok :: "query_world \<Rightarrow> view_state \<Rightarrow> bool" where
  "views_ok qw s \<longleftrightarrow>
     (\<forall>c \<in> set (vs_calls s). vc_late c \<or> call_current qw (vs_index s) c) \<and>
     (vs_changes s = [] \<longrightarrow> cache_current qw (vs_late_keys s) (vs_index s)) \<and>
     (vs_changes s \<noteq> [] \<longrightarrow> (\<forall>c \<in> set (vs_calls s). vc_late c \<or> vc_stage c = Missed) \<and>
        (False \<notin> set (vs_changes s) \<longrightarrow> fst ` set (li_facet_cache (vs_index s)) \<subseteq> vs_late_keys s))"

lemma late_calls_simps [simp]:
  "c \<in> set (late_calls True calls) \<Longrightarrow> vc_late c"
  "late_calls False calls = calls"
  by (auto simp: late_calls_def)

lemma set_remove_nth: "set (remove_nth i xs) \<subseteq> set xs"
  by (auto simp: remove_nth_def dest: in_set_takeD in_set_dropD)

lemma call_current_same: "same_answers li li' \<Longrightarrow> call_current qw li' c = call_current qw li c"
  by (cases "vc_stage c")
    (simp_all add: call_current_def uncached_same, simp add: view_fields_def facet_fields_for_scope_def same_answers_def)

lemma late_all_keys: "fst ` set (li_facet_cache li) \<subseteq> late \<Longrightarrow> cache_current qw late li"
  unfolding cache_current_def by (metis map_of_eq_None_iff option.distinct(1) subsetD)

lemma operate_ok:
  assumes keeps: "keeps_answers (vs_index s) li'" and ok: "views_ok qw s"
  shows "views_ok qw (operate li' s)"
proof (cases "same_answers (vs_index s) li'")
  case True
  have "cache_current qw (if li_facet_cache li' = [] then {} else vs_late_keys s) li'"
    if "cache_current qw (vs_late_keys s) (vs_index s)"
    using that keeps uncached_same [OF True] by (auto simp: cache_current_def keeps_answers_def)
  then show ?thesis
    using ok keeps call_current_same [OF True] True
    by (auto simp: views_ok_def operate_def keeps_answers_def image_subset_iff)
next
  case False
  then have "li_facet_cache li' = []" using keeps by (auto simp: keeps_answers_def same_answers_def)
  then show ?thesis using False by (auto simp: views_ok_def operate_def cache_current_def)
qed

lemma store_view_same: "same_answers li (store_view run_id q response li)"
  by (simp add: store_view_def same_answers_def split: option.split)

lemma map_of_cache_insert: "map_of (cache_insert key response m) k = (if k = key then Some response else map_of m k)"
  by (induction m) (auto simp: cache_insert_def)

lemma store_ok:
  assumes ok: "views_ok qw s" and c: "i < length (vs_calls s)" "vs_calls s ! i = c" "vc_stage c = Answered response"
  shows "views_ok qw (s\<lparr>vs_index := store_view (vc_run_id c) (vc_query c) response (vs_index s),
      vs_calls := remove_nth i (vs_calls s),
      vs_late_keys := (case view_cache_key (vc_run_id c) (vc_query c) of
          None \<Rightarrow> vs_late_keys s
        | Some key \<Rightarrow> if vc_late c then insert key (vs_late_keys s) else vs_late_keys s - {key})\<rparr>)"
proof (cases "view_cache_key (vc_run_id c) (vc_query c)")
  case None
  then show ?thesis using ok set_remove_nth [of i "vs_calls s"] by (auto simp: views_ok_def store_view_def)
next
  case (Some key)
  let ?li = "store_view (vc_run_id c) (vc_query c) response (vs_index s)"
  have "c \<in> set (vs_calls s)" using c(1,2) by auto
  then have asked: "vc_late c \<or> query_view_uncached qw (vc_run_id c) (vc_query c) (vs_index s) = Inr response"
    and busy: "vs_changes s \<noteq> [] \<Longrightarrow> vc_late c"
    using ok c(3) by (auto simp: views_ok_def call_current_def)
  have cache: "li_facet_cache ?li = cache_insert key response (li_facet_cache (vs_index s))"
    by (simp add: store_view_def Some)
  have "cache_current qw (if vc_late c then insert key (vs_late_keys s) else vs_late_keys s - {key}) ?li"
    if "cache_current qw (vs_late_keys s) (vs_index s)"
    using that asked cached_answer_by_key [OF _ Some]
    unfolding cache_current_def uncached_same [OF store_view_same] cache map_of_cache_insert by auto
  moreover have "fst ` set (li_facet_cache ?li) \<subseteq> insert key (vs_late_keys s)"
    if "fst ` set (li_facet_cache (vs_index s)) \<subseteq> vs_late_keys s"
    using that by (auto simp: cache cache_insert_def)
  ultimately show ?thesis
    using ok busy set_remove_nth [of i "vs_calls s"] call_current_same [OF store_view_same]
    by (auto simp: views_ok_def Some)
qed

lemma fields_read_ok:
  assumes "views_ok qw s" and "vc_stage c = Missed"
  shows "views_ok qw (s\<lparr>vs_calls := (vs_calls s)[i := c\<lparr>
      vc_stage := With_Fields (view_fields (vc_run_id c) (vc_query c) (vs_index s)), vc_late := vs_changes s \<noteq> []\<rparr>]\<rparr>)"
  using assms by (auto simp: views_ok_def call_current_def dest!: subsetD [OF set_update_subset_insert])

lemma searched_ok:
  assumes "views_ok qw s" and "i < length (vs_calls s)" and "vs_calls s ! i = c" and "vc_stage c = With_Fields names"
    and "search_view qw (vc_run_id c) (vc_query c) names (li_docs (vs_index s)) = Inr response"
  shows "views_ok qw (s\<lparr>vs_calls := (vs_calls s)[i := c\<lparr>vc_stage := Answered response\<rparr>]\<rparr>)"
proof -
  have "c \<in> set (vs_calls s)" using assms(2,3) by auto
  then have "vc_late c \<or> names = view_fields (vc_run_id c) (vc_query c) (vs_index s)" "vs_changes s \<noteq> [] \<Longrightarrow> vc_late c"
    using assms(1,4) by (auto simp: views_ok_def call_current_def)
  then show ?thesis
    using assms(1,5) by (auto simp: views_ok_def call_current_def query_view_uncached_def dest!: subsetD [OF set_update_subset_insert])
qed

lemma view_state_ok: "view_reachable qw s \<Longrightarrow> views_ok qw s"
proof (induction rule: view_reachable.induct)
  case (opened li)
  then show ?case by (simp add: views_ok_def cache_current_def)
next
  case (missed s run_id q)
  then show ?case by (auto simp: views_ok_def call_current_def)
next
  case (fields_read s i c)
  then show ?case using fields_read_ok by blast
next
  case (searched s i c names response)
  then show ?case using searched_ok by blast
next
  case (stored s i c response)
  then show ?case using store_ok by blast
next
  case (given_up s i)
  then show ?case using set_remove_nth [of i "vs_calls s"] by (auto simp: views_ok_def)
next
  case (visible s docs)
  then show ?case by (auto simp: views_ok_def)
next
  case (emptied s i)
  have "same_answers (vs_index s) ((vs_index s)\<lparr>li_facet_cache := []\<rparr>)" by (simp add: same_answers_def)
  then show ?case using emptied call_current_same by (auto simp: views_ok_def)
next
  case (noted s i on_disk ingest)
  have all: "fst ` set (li_facet_cache (vs_index s)) \<subseteq> vs_late_keys s" if "False \<notin> set (remove_nth i (vs_changes s))"
  proof -
    have "vs_changes s = take i (vs_changes s) @ vs_changes s ! i # drop (Suc i) (vs_changes s)"
      using noted(2) by (rule id_take_nth_drop)
    then have "False \<notin> set (vs_changes s)" "vs_changes s \<noteq> []"
      using that noted(2,3) by (auto simp: remove_nth_def dest: arg_cong [where f = set])
    then show ?thesis using noted(4) by (simp add: views_ok_def)
  qed
  let ?li = "(vs_index s)\<lparr>li_ingest := ingest, li_stored := on_disk\<rparr>"
  have "cache_current qw (vs_late_keys s) ?li" if "remove_nth i (vs_changes s) = []"
    by (rule late_all_keys) (use all that in simp)
  then show ?case using all by (auto simp: views_ok_def image_subset_iff)
qed (use operate_ok ingest_keeps delete_run_keeps mark_keeps evict_keeps in blast)+

lemma lookup_current:
  assumes "views_ok qw s" and "vs_changes s = []" and "view_cache_key run_id q \<notin> Some ` vs_late_keys s"
  shows "fst (query_view qw run_id q (vs_index s)) = query_view_uncached qw run_id q (vs_index s)"
  using assms
  by (auto simp: query_view_def lookup_view_def views_ok_def cache_current_def query_view_uncached_def bind_eq_Some_conv image_iff
      split: option.split sum.split)



section \<open>Examples\<close>

definition example_query_world :: "bytes \<Rightarrow> query_world" where
  "example_query_world content = \<lparr>qw_index = example_index_world content, qw_parse = (\<lambda>_. Inl ''unreadable''), qw_fail = None\<rparr>"

definition facets_query :: log_view_query where
  "facets_query = \<lparr>vq_filter = default_filter, vq_service = None, vq_include_entries = False, vq_include_facets = True,
     vq_include_total = True\<rparr>"

definition view_index :: "log_doc list \<Rightarrow> log_view_response log_index" where
  "view_index docs = \<lparr>li_docs = docs, li_ingest = \<lparr>ig_version = 0, ig_sources = [], ig_facet_fields = []\<rparr>,
     li_stored = None, li_facet_cache = []\<rparr>"

lemma view_alone_reachable:
  assumes "li_facet_cache li = []" and "lookup_view run_id q li = None"
    and "search_view qw run_id q (view_fields run_id q li) (li_docs li) = Inr response"
    and "view_cache_key run_id q = Some key"
  shows "view_reachable qw \<lparr>vs_index = store_view run_id q response li, vs_changes = [], vs_calls = [], vs_late_keys = {}\<rparr>"
proof -
  let ?s = "\<lambda>calls. \<lparr>vs_index = li, vs_changes = [], vs_calls = calls, vs_late_keys = {}\<rparr>"
  let ?c = "\<lambda>stage. \<lparr>vc_run_id = run_id, vc_query = q, vc_stage = stage, vc_late = False\<rparr>"
  have "view_reachable qw (?s [?c Missed])"
    using view_reachable.missed [OF view_reachable.opened [OF assms(1)], of run_id q] assms(2) by simp
  from view_reachable.fields_read [OF this, of 0 "?c Missed"]
  have "view_reachable qw (?s [?c (With_Fields (view_fields run_id q li))])" by simp
  from view_reachable.searched [OF this, of 0 "?c (With_Fields (view_fields run_id q li))"] assms(3)
  have "view_reachable qw (?s [?c (Answered response)])" by simp
  from view_reachable.stored [OF this, of 0 "?c (Answered response)"] show ?thesis
    by (simp add: remove_nth_def assms(4))
qed


text \<open>
  An answer that was computed before a commit and is stored after the commit has emptied the cache stays
  there, although the index has changed.
\<close>

lemma late_answer_is_stale:
  "let qw = example_query_world [];
       early = projr (query_view_uncached qw ''r'' facets_query (view_index []));
       li = store_view ''r'' facets_query early (view_index [dated_doc 1]) in
   map_option vr_total (case fst (query_view qw ''r'' facets_query li) of Inl _ \<Rightarrow> None | Inr r \<Rightarrow> Some r) = Some 0 \<and>
   map_option vr_total (case query_view_uncached qw ''r'' facets_query li of Inl _ \<Rightarrow> None | Inr r \<Rightarrow> Some r) = Some 1"
  by code_simp

text \<open>
  The cache is emptied before the names of new fields are recorded: a view that is asked for in between is
  cached without these fields, and stays so.
\<close>

lemma new_field_missed:
  "let qw = example_query_world []; d = (dated_doc 1)\<lparr>ld_attrs := [(''user'', ''ann'')]\<rparr>;
       between = snd (query_view qw ''r'' facets_query (view_index [d]));
       li = between\<lparr>li_ingest := (li_ingest between)\<lparr>ig_facet_fields := [(source_key ''r'' ''web'', [(''user'', ())])]\<rparr>\<rparr>;
       shown = (\<lambda>r. case r of Inl _ \<Rightarrow> [] | Inr v \<Rightarrow> map ff_field (vr_filters v)) in
   shown (fst (query_view qw ''r'' facets_query li)) = [''service'', ''level'', ''stream''] \<and>
   shown (query_view_uncached qw ''r'' facets_query li) = [''service'', ''level'', ''stream'', ''user'']"
  by code_simp

definition numbered_doc :: "nat \<Rightarrow> log_doc" where
  "numbered_doc n = (dated_doc 0)\<lparr>ld_seq := n, ld_raw := show_nat n\<rparr>"

text \<open>
  Of documents with the same time, which all lines without a time have, the last lines asked for are the
  first in the index. Asking for no line before following a service gives no line to follow from, and the
  first poll prints lines that were there before. A level other than two is not looked at.
\<close>

lemma last_of_untimed_lines:
  "ls_lines (service_page 2 None [] (map numbered_doc [0, 1, 2, 3])) = [''0'', ''1'']"
  by code_simp

lemma follow_from_nothing:
  "stream_service_logs_api 0 (poll ([], map numbered_doc [0, 1])) [poll ([], map numbered_doc [0, 1])] = Inr [[], [''0'', ''1'']]"
  by code_simp

lemma other_levels_ignored:
  "trim level \<notin> {''error'', ''warn''} \<Longrightarrow> add_level_filter base level = base"
  by (auto simp: add_level_filter_def Let_def)

end
