(* ===== verification/Log_Examples.thy ===== *)
theory Log_Examples
  imports Log_Query "HOL-Library.Code_Target_Nat"
begin

text \<open>
  Runs of the log index on concrete files. Natural numbers are computed as binary integers here, since
  offsets are bounded by numbers of 64 bits.
\<close>

text \<open>
  A byte that is not part of a character counts as the three bytes of the replacement character: the
  offset goes past what was read, and the line that follows in its place is never read.
\<close>

lemma invalid_byte_loses_line:
  "let before = [0xFF, newline]; after = before @ [0x61, newline];
       li1 = snd (ingest_sources (example_index_world before) [example_log] empty_index);
       li2 = snd (ingest_sources (example_index_world after) [example_log] li1) in
   ic_offset (index_cursor example_log li1) = 4 \<and> length (index_docs example_log li2) = 1 \<and>
   sources_are_current (example_index_world after) [example_log] li2 \<and>
   length (file_docs (example_index_world after) example_log None after) = 2"
  by code_simp

theorem follow_prints_each_line_once_witness:
  "\<exists>printed. follow_loop (map (service_fetch ''r'' ''web'' ''/logs/web.log'' None None None None)
      [(example_query_world [0x61, newline, 0x62, newline], empty_index)]) (Some 0) = Inr printed \<and>
    concat printed = [''b'']"
proof -
  define qw where "qw = example_query_world [0x61, newline, 0x62, newline]"
  define ingest where "ingest = ingest_sources (qw_index qw)
    [\<lparr>lg_run_id = ''r'', lg_service = ''web'', lg_path = ''/logs/web.log''\<rparr>] empty_index"
  define li where "li = snd ingest"
  define found where "found = service_docs qw ''r'' ''web'' (build_logs_query 500 None None None None None) li"
  have "fst ingest = Inr ()" unfolding ingest_def qw_def by code_simp
  then have ingested: "ingest = (Inr (), li)" by (simp add: li_def prod_eq_iff)
  have "case found of Inl _ \<Rightarrow> False | Inr (scope, docs) \<Rightarrow> in_order docs \<and> map ld_raw (unread (Some 0) docs) = [''b'']"
    unfolding found_def li_def ingest_def qw_def by code_simp
  then obtain scope docs where docs: "found = Inr (scope, docs)" "in_order docs" "map ld_raw (unread (Some 0) docs) = [''b'']"
    by (auto split: sum.splits)
  have "\<exists>printed n. follow_loop (map (service_fetch ''r'' ''web'' ''/logs/web.log'' None None None None) [(qw, empty_index)]) (Some 0) = Inr printed \<and>
    concat printed = map ld_raw (take n (unread (Some 0) (snd (last (([], []) # [(scope, docs)]))))) \<and>
    ([(qw, empty_index)] \<noteq> [] \<longrightarrow> min 500 (length (unread (Some 0) (snd (last (([], []) # [(scope, docs)]))))) \<le> n)"
    by (rule follow_prints_each_line_once) (use docs ingested in \<open>simp_all add: found_def ingest_def\<close>)
  then obtain printed n where r: "follow_loop (map (service_fetch ''r'' ''web'' ''/logs/web.log'' None None None None) [(qw, empty_index)]) (Some 0) = Inr printed"
    "concat printed = map ld_raw (take n (unread (Some 0) docs))" "min 500 (length (unread (Some 0) docs)) \<le> n"
    by auto
  have "length (unread (Some 0) docs) = 1" using docs(3) by (metis length_map length_Cons list.size(3) One_nat_def)
  then have "concat printed = [''b'']" using r(2,3) docs(3) by (simp add: take_map)
  then show ?thesis using r(1) unfolding qw_def by blast
qed

end
