(* ===== verification/Source_Ingest.thy ===== *)
theory Source_Ingest
  imports Log_Query
begin

text \<open>
  Keeping the index of registered log sources up to date, \<open>src/src/daemon/source_ingest.rs\<close>, and
  the handlers of sources, \<open>daemon/handlers/sources.rs\<close>: which files are read for a query, in
  which batches the others follow, what the state of a source says, and what adding, asking for and
  removing a source do to the ledger, the states and the index. The files are a parameter: the times they
  were changed and their bytes, besides what the index asks for.
\<close>

section \<open>Files\<close>

definition sync_max_bytes :: nat where "sync_max_bytes = 32 * 1024 * 1024"
definition sync_max_files :: nat where "sync_max_files = 32"
definition backfill_batch_max_bytes :: nat where "backfill_batch_max_bytes = 16 * 1024 * 1024"
definition backfill_batch_max_files :: nat where "backfill_batch_max_files = 8"
definition warmup_max_bytes :: nat where "warmup_max_bytes = 16 * 1024 * 1024"
definition warmup_max_files :: nat where "warmup_max_files = 8"
definition timestamp_sample_bytes :: nat where "timestamp_sample_bytes = 1024 * 1024"

text \<open>
  \<open>gw_modified\<close> is the time of the last change in nanoseconds since 1970 when the system gives one
  that fits, \<open>gw_content\<close> the bytes of a file that can be read.
\<close>

record ingest_world =
  gw_query :: query_world
  gw_modified :: "string \<Rightarrow> int option"
  gw_content :: "string \<Rightarrow> bytes result"
  gw_now_nanos :: nat

abbreviation gw_index :: "ingest_world \<Rightarrow> index_world" where
  "gw_index gw \<equiv> qw_index (gw_query gw)"

record source_file =
  sf_source :: log_source
  sf_modified_nanos :: int
  sf_len :: nat
  sf_first_ts_nanos :: "int option"
  sf_last_ts_nanos :: "int option"

fun split_lines :: "bytes \<Rightarrow> bytes list" where
  "split_lines [] = [[]]"
| "split_lines (b # bs) =
     (if b = newline then [] # split_lines bs
      else (case split_lines bs of [] \<Rightarrow> [[b]] | l # ls \<Rightarrow> (b # l) # ls))"

fun timestamp_from_lines :: "index_world \<Rightarrow> bytes list \<Rightarrow> int option" where
  "timestamp_from_lines xw [] = None"
| "timestamp_from_lines xw (l # ls) =
     (if l = [] then timestamp_from_lines xw ls
      else
        (case Option.bind (extract_timestamp_str (xw_parse xw) (xw_text xw (from_utf8_lossy l))) (xw_nanos xw) of
           Some nanos \<Rightarrow> Some nanos
         | None \<Rightarrow> timestamp_from_lines xw ls))"

definition read_prefix :: "ingest_world \<Rightarrow> string \<Rightarrow> nat \<Rightarrow> bytes result" where
  "read_prefix gw path max_bytes = rbind (gw_content gw path) (\<lambda>bs. Inr (take max_bytes bs))"

definition read_suffix :: "ingest_world \<Rightarrow> string \<Rightarrow> nat \<Rightarrow> bytes result" where
  "read_suffix gw path max_bytes = rbind (gw_content gw path) (\<lambda>bs. Inr (drop (length bs - max_bytes) bs))"

definition first_timestamp_nanos :: "ingest_world \<Rightarrow> string \<Rightarrow> int option result" where
  "first_timestamp_nanos gw path =
     rbind (read_prefix gw path timestamp_sample_bytes) (\<lambda>bs. Inr (timestamp_from_lines (gw_index gw) (split_lines bs)))"

definition last_timestamp_nanos :: "ingest_world \<Rightarrow> string \<Rightarrow> int option result" where
  "last_timestamp_nanos gw path =
     rbind (read_suffix gw path timestamp_sample_bytes) (\<lambda>bs. Inr (timestamp_from_lines (gw_index gw) (rev (split_lines bs))))"

text \<open>\<open>ok().flatten()\<close>.\<close>

definition ok_flatten :: "'a option result \<Rightarrow> 'a option" where
  "ok_flatten r = (case r of Inl _ \<Rightarrow> None | Inr v \<Rightarrow> v)"

definition source_file_of :: "ingest_world \<Rightarrow> log_source \<Rightarrow> source_file option" where
  "source_file_of gw s =
     (case xw_meta (gw_index gw) (lg_path s) of
        None \<Rightarrow> None
      | Some (is_file, len) \<Rightarrow>
          if \<not> is_file then None
          else Some \<lparr>sf_source = s, sf_modified_nanos = unwrap_or (gw_modified gw (lg_path s)) 0, sf_len = len,
                 sf_first_ts_nanos = ok_flatten (first_timestamp_nanos gw (lg_path s)),
                 sf_last_ts_nanos = ok_flatten (last_timestamp_nanos gw (lg_path s))\<rparr>)"

definition is_before_retention :: "int \<Rightarrow> source_file \<Rightarrow> bool" where
  "is_before_retention cutoff_nanos f \<longleftrightarrow>
     sf_len f = 0 \<or>
     (case sf_last_ts_nanos f of
        Some last_ts \<Rightarrow> last_ts < cutoff_nanos
      | None \<Rightarrow> 0 < sf_modified_nanos f \<and> sf_modified_nanos f < cutoff_nanos)"

definition expired :: "int option \<Rightarrow> source_file \<Rightarrow> bool" where
  "expired min_ts f \<longleftrightarrow> (case min_ts of None \<Rightarrow> False | Some cutoff \<Rightarrow> is_before_retention cutoff f)"

text \<open>\<open>Path\<close>s are compared by their components; the paths here are absolute.\<close>

definition path_components :: "string \<Rightarrow> string list" where
  "path_components path = filter (\<lambda>c. c \<noteq> [] \<and> c \<noteq> ''.'') (split_on (CHR ''/'') path)"

text \<open>Newest first, files of the same time in the order of their paths.\<close>

definition source_files_newest_first :: "ingest_world \<Rightarrow> log_source list \<Rightarrow> source_file list" where
  "source_files_newest_first gw sources =
     sort_key (\<lambda>f. - sf_modified_nanos f) (sort_key (\<lambda>f. path_components (lg_path (sf_source f))) (List.map_filter (source_file_of gw) sources))"

definition count_complete_lines_up_to :: "ingest_world \<Rightarrow> string \<Rightarrow> nat \<Rightarrow> nat result" where
  "count_complete_lines_up_to gw path limit =
     (if limit = 0 then Inr 0
      else rbind (gw_content gw path) (\<lambda>bs. Inr (min limit (length (filter (\<lambda>b. b = newline) bs)))))"

section \<open>What is read at once\<close>

fun add_bytes :: "nat option \<Rightarrow> nat list \<Rightarrow> nat option" where
  "add_bytes so_far [] = so_far"
| "add_bytes None lens = None"
| "add_bytes (Some so_far) (len # lens) =
     add_bytes (if so_far + len < 2 ^ 64 \<and> so_far + len \<le> sync_max_bytes then Some (so_far + len) else None) lens"

definition should_ingest_source_synchronously :: "ingest_world \<Rightarrow> log_source list \<Rightarrow> bool" where
  "should_ingest_source_synchronously gw sources \<longleftrightarrow>
     \<not> sync_max_files < length sources \<and>
     add_bytes (Some 0) (List.map_filter (\<lambda>s. map_option snd (xw_meta (gw_index gw) (lg_path s))) sources) \<noteq> None"

text \<open>The conversion to 64 bits wraps around.\<close>

definition retention_cutoff_nanos :: "ingest_world \<Rightarrow> nat \<Rightarrow> int" where
  "retention_cutoff_nanos gw max_age_ms = sint (word_of_nat (gw_now_nanos gw - max_age_ms * 10 ^ 6) :: 64 word)"

fun batches_from ::
  "int option \<Rightarrow> source_file list \<Rightarrow> log_source list \<Rightarrow> nat \<Rightarrow> log_source list list \<times> log_source list" where
  "batches_from min_ts [] current current_bytes = (if current = [] then ([], []) else ([current], []))"
| "batches_from min_ts (f # files) current current_bytes =
     (if expired min_ts f then
        (let (batches, skipped) = batches_from min_ts files current current_bytes in (batches, sf_source f # skipped))
      else
        (let would_exceed_bytes = (0 < current_bytes \<and> backfill_batch_max_bytes < sat_add current_bytes (sf_len f));
             would_exceed_files = (backfill_batch_max_files \<le> length current) in
         if current \<noteq> [] \<and> (would_exceed_bytes \<or> would_exceed_files) then
           (let (batches, skipped) = batches_from min_ts files [sf_source f] (sat_add 0 (sf_len f)) in
            (current # batches, skipped))
         else batches_from min_ts files (current @ [sf_source f]) (sat_add current_bytes (sf_len f))))"

definition priority_source_batches ::
  "ingest_world \<Rightarrow> log_source list \<Rightarrow> int option \<Rightarrow> log_source list list \<times> log_source list" where
  "priority_source_batches gw sources min_ts = batches_from min_ts (source_files_newest_first gw sources) [] 0"

fun ingest_batches ::
  "index_world \<Rightarrow> int option \<Rightarrow> log_source list list \<Rightarrow> 'r log_index \<Rightarrow> unit result \<times> 'r log_index" where
  "ingest_batches xw min_ts [] li = (Inr (), li)"
| "ingest_batches xw min_ts (batch # batches) li =
     (case ingest_sources_after xw batch min_ts li of
        (Inl e, li1) \<Rightarrow> (Inl e, li1)
      | (Inr _, li1) \<Rightarrow> ingest_batches xw min_ts batches li1)"

definition ingest_sources_in_priority_batches ::
  "ingest_world \<Rightarrow> log_source list \<Rightarrow> int option \<Rightarrow> 'r log_index \<Rightarrow> unit result \<times> 'r log_index" where
  "ingest_sources_in_priority_batches gw sources min_ts li =
     (let (batches, skipped) = priority_source_batches gw sources min_ts in
      case (if skipped = [] then (Inr (), li) else mark_sources_current (gw_index gw) skipped li) of
        (Inl e, li1) \<Rightarrow> (Inl e, li1)
      | (Inr _, li1) \<Rightarrow> ingest_batches (gw_index gw) min_ts batches li1)"


section \<open>What is read for a query\<close>

definition asks :: "string option \<Rightarrow> bool" where
  "asks v \<longleftrightarrow> (case v of None \<Rightarrow> False | Some s \<Rightarrow> trim s \<noteq> [])"

definition asks_but_all :: "string option \<Rightarrow> bool" where
  "asks_but_all v \<longleftrightarrow> (case v of None \<Rightarrow> False | Some s \<Rightarrow> trim s \<noteq> [] \<and> s \<noteq> ''all'')"

definition selective_query :: "log_view_query \<Rightarrow> bool" where
  "selective_query q \<longleftrightarrow>
     vq_include_facets q \<or> asks (lf_search (vq_filter q)) \<or> asks_but_all (lf_level (vq_filter q)) \<or>
     asks_but_all (lf_stream (vq_filter q))"

fun warmup_loop ::
  "ingest_world \<Rightarrow> int option \<Rightarrow> int option \<Rightarrow> bool \<Rightarrow> nat \<Rightarrow> source_file list \<Rightarrow> log_source list \<Rightarrow> nat \<Rightarrow> nat \<Rightarrow>
     log_source list result" where
  "warmup_loop gw min_ts since selective target_lines [] selected selected_bytes selected_lines = Inr selected"
| "warmup_loop gw min_ts since selective target_lines (f # files) selected selected_bytes selected_lines =
     (if expired min_ts f then warmup_loop gw min_ts since selective target_lines files selected selected_bytes selected_lines
      else if warmup_max_files \<le> length selected \<or> warmup_max_bytes \<le> selected_bytes then Inr selected
      else if (case since of None \<Rightarrow> False
               | Some t \<Rightarrow> 0 < sf_modified_nanos f \<and> sf_modified_nanos f < t \<and> selected = []) then Inr selected
      else
        rbind (if \<not> selective \<and> selected_lines < target_lines
               then rbind (count_complete_lines_up_to gw (lg_path (sf_source f)) (target_lines - selected_lines))
                      (\<lambda>n. Inr (sat_add selected_lines n))
               else Inr selected_lines) (\<lambda>lines.
          let selected1 = selected @ [sf_source f] in
          if \<not> selective \<and> target_lines \<le> lines then Inr selected1
          else if since \<noteq> None \<and> target_lines \<le> lines then Inr selected1
          else warmup_loop gw min_ts since selective target_lines files selected1 (sat_add selected_bytes (sf_len f)) lines))"

definition warmup_sources_for_query ::
  "ingest_world \<Rightarrow> log_source list \<Rightarrow> log_view_query \<Rightarrow> int option \<Rightarrow> log_source list result" where
  "warmup_sources_for_query gw sources q min_ts =
     (if \<not> vq_include_entries q \<and> \<not> vq_include_facets q then Inr []
      else warmup_loop gw min_ts (since_nanos_of (gw_query gw) (vq_filter q)) (selective_query q)
             (max (unwrap_or (lf_last (vq_filter q)) 500) 1) (source_files_newest_first gw sources) [] 0 0)"

section \<open>The state of a source\<close>

definition source_log_sources ::
  "source_world \<Rightarrow> string \<Rightarrow> source_disk \<Rightarrow> source_registry \<Rightarrow> log_source list result \<times> source_registry \<times> source_disk" where
  "source_log_sources sw name sd g =
     (case sources_resolve sw name sd g of
        (r, g1, sd1) \<Rightarrow>
          (rbind r (\<lambda>items. Inr (map (\<lambda>item.
             \<lparr>lg_run_id = source_run_id name, lg_service = rp_service item, lg_path = rp_path item\<rparr>) items)), g1, sd1))"

definition file_index_state :: "ingest_world \<Rightarrow> 'r log_index \<Rightarrow> int option \<Rightarrow> log_source \<Rightarrow> source_file_state option" where
  "file_index_state gw li cutoff s =
     map_option (\<lambda>f.
       let cursor = unwrap_or (ingest_cursor_of (lg_run_id s) (lg_service s) li) default_cursor in
       \<lparr>fs_service = lg_service s, fs_path = lg_path s, fs_len = word_of_nat (sf_len f),
        fs_modified_nanos = (if 0 < sf_modified_nanos f then Some (sf_modified_nanos f) else None),
        fs_indexed_offset = word_of_nat (ic_offset cursor), fs_next_seq = word_of_nat (ic_next_seq cursor),
        fs_first_ts_nanos = sf_first_ts_nanos f, fs_last_ts_nanos = sf_last_ts_nanos f,
        fs_skipped_by_retention = expired cutoff f\<rparr>) (source_file_of gw s)"

definition max_option :: "int list \<Rightarrow> int option" where
  "max_option xs = (case xs of [] \<Rightarrow> None | x # rest \<Rightarrow> Some (fold max rest x))"

definition source_state ::
  "ingest_world \<Rightarrow> source_world \<Rightarrow> 'r log_index \<Rightarrow> string \<Rightarrow> log_source list \<Rightarrow> nat \<Rightarrow> int option \<Rightarrow> source_index_status \<Rightarrow>
     string option \<Rightarrow> source_index_state" where
  "source_state gw sw li name sources retention cutoff status error =
     (let files = List.map_filter (file_index_state gw li cutoff) sources in
      \<lparr>xs_name = name, xs_run_id = source_run_id name, xs_status = status,
       xs_retention_seconds = word_of_nat (retention div 1000), xs_retention_cutoff_nanos = cutoff,
       xs_retained_docs = (if qw_fail (gw_query gw) = None then count_run (source_run_id name) li else 0),
       xs_retained_through_nanos =
         max_option (List.map_filter fs_last_ts_nanos (filter (\<lambda>f. \<not> fs_skipped_by_retention f) files)),
       xs_files = files, xs_last_indexed_at = Some (sw_now sw), xs_error = error\<rparr>)"

definition record_source_state ::
  "ingest_world \<Rightarrow> source_world \<Rightarrow> 'r log_index \<Rightarrow> string \<Rightarrow> log_source list \<Rightarrow> nat \<Rightarrow> int option \<Rightarrow> source_index_status \<Rightarrow>
     source_disk \<Rightarrow> unit result \<times> source_disk" where
  "record_source_state gw sw li name sources retention cutoff status sd =
     set_index_state sw (source_state gw sw li name sources retention cutoff status None) sd"

text \<open>The states of the index and of the files on disk, through operations that may fail.\<close>

type_synonym 'r ingest_state_pair = "'r log_index \<times> source_disk"

definition record_step ::
  "ingest_world \<Rightarrow> source_world \<Rightarrow> string \<Rightarrow> log_source list \<Rightarrow> nat \<Rightarrow> int option \<Rightarrow> source_index_status \<Rightarrow>
     'r ingest_state_pair \<Rightarrow> unit result \<times> 'r ingest_state_pair" where
  "record_step gw sw name sources retention cutoff status = (\<lambda>(li, sd).
     case record_source_state gw sw li name sources retention cutoff status sd of (r, sd1) \<Rightarrow> (r, li, sd1))"

definition index_step ::
  "('r log_index \<Rightarrow> unit result \<times> 'r log_index) \<Rightarrow> 'r ingest_state_pair \<Rightarrow> unit result \<times> 'r ingest_state_pair" where
  "index_step f = (\<lambda>(li, sd). case f li of (r, li1) \<Rightarrow> (r, li1, sd))"

fun try_steps :: "('s \<Rightarrow> unit result \<times> 's) list \<Rightarrow> 's \<Rightarrow> unit result \<times> 's" where
  "try_steps [] s = (Inr (), s)"
| "try_steps (f # fs) s = (case f s of (Inl e, s1) \<Rightarrow> (Inl e, s1) | (Inr _, s1) \<Rightarrow> try_steps fs s1)"

definition replace_source_index ::
  "ingest_world \<Rightarrow> source_world \<Rightarrow> string \<Rightarrow> log_source list \<Rightarrow> nat \<Rightarrow> int option \<Rightarrow>
     'r ingest_state_pair \<Rightarrow> unit result \<times> 'r ingest_state_pair" where
  "replace_source_index gw sw name sources retention min_ts =
     try_steps
       [record_step gw sw name sources retention min_ts Index_Indexing,
        index_step (delete_run (gw_index gw) (source_run_id name)),
        (if sources = [] then Pair (Inr ()) else index_step (ingest_sources_in_priority_batches gw sources min_ts)),
        record_step gw sw name sources retention min_ts Index_Current]"

definition warm_step :: "ingest_world \<Rightarrow> string \<Rightarrow> log_view_response log_index \<Rightarrow> unit result \<times> log_view_response log_index" where
  "warm_step gw run_id li = (Inr (), warm_facets (gw_query gw) run_id li)"

text \<open>The part of a backfill that runs in the background, and what it leaves when it fails.\<close>

definition backfill_steps ::
  "ingest_world \<Rightarrow> source_world \<Rightarrow> string \<Rightarrow> log_source list \<Rightarrow> nat \<Rightarrow> int option \<Rightarrow>
     log_view_response ingest_state_pair \<Rightarrow> unit result \<times> log_view_response ingest_state_pair" where
  "backfill_steps gw sw name sources retention min_ts =
     try_steps
       [record_step gw sw name sources retention min_ts Index_Indexing,
        (\<lambda>(li, sd). if sources_are_current (gw_index gw) sources li then (Inr (), li, sd)
           else try_steps [index_step (ingest_sources_in_priority_batches gw sources min_ts),
                  index_step (warm_step gw (source_run_id name))] (li, sd)),
        record_step gw sw name sources retention min_ts Index_Current]"

definition source_backfill ::
  "ingest_world \<Rightarrow> source_world \<Rightarrow> string \<Rightarrow> log_source list \<Rightarrow> nat \<Rightarrow> int option \<Rightarrow>
     log_view_response ingest_state_pair \<Rightarrow> log_view_response ingest_state_pair" where
  "source_backfill gw sw name sources retention min_ts st =
     (case backfill_steps gw sw name sources retention min_ts st of
        (Inr _, st1) \<Rightarrow> st1
      | (Inl e, li, sd) \<Rightarrow>
          (li, snd (set_index_state sw (source_state gw sw li name sources retention min_ts Index_Error (Some e)) sd)))"

text \<open>When the daemon has started: every registered source in turn, and an error ends the whole round.\<close>

type_synonym source_state_triple = "log_view_response log_index \<times> source_disk \<times> source_registry"

definition backfill_registered_source ::
  "ingest_world \<Rightarrow> source_world \<Rightarrow> nat \<Rightarrow> source_entry \<Rightarrow> source_state_triple \<Rightarrow> unit result \<times> source_state_triple" where
  "backfill_registered_source gw sw default_retention entry = (\<lambda>(li, sd, g).
     let retention = source_retention_duration entry default_retention;
         min_ts = Some (retention_cutoff_nanos gw retention) in
     case source_log_sources sw (so_name entry) sd g of
       (Inl e, g1, sd1) \<Rightarrow> (Inl e, li, sd1, g1)
     | (Inr sources, g1, sd1) \<Rightarrow>
         (case try_steps
            [record_step gw sw (so_name entry) sources retention min_ts Index_Queued,
             (\<lambda>(li, sd). if sources_are_current (gw_index gw) sources li then (Inr (), li, sd)
                else try_steps
                  [record_step gw sw (so_name entry) sources retention min_ts Index_Indexing,
                   index_step (ingest_sources_in_priority_batches gw sources min_ts),
                   index_step (warm_step gw (source_run_id (so_name entry)))] (li, sd)),
             record_step gw sw (so_name entry) sources retention min_ts Index_Current] (li, sd1) of
            (r, li2, sd2) \<Rightarrow> (r, li2, sd2, g1)))"

definition registered_source_backfill ::
  "ingest_world \<Rightarrow> source_world \<Rightarrow> nat \<Rightarrow> source_state_triple \<Rightarrow> unit result \<times> source_state_triple" where
  "registered_source_backfill gw sw default_retention = (\<lambda>(li, sd, g).
     case sources_list sw sd g of
       (Inl e, g1, sd1) \<Rightarrow> (Inl e, li, sd1, g1)
     | (Inr entries, g1, sd1) \<Rightarrow>
         try_steps (map (backfill_registered_source gw sw default_retention) entries) (li, sd1, g1))"

section \<open>Handlers\<close>

record backfill_job =
  bj_name :: string
  bj_sources :: "log_source list"
  bj_retention :: nat
  bj_min_ts :: "int option"

definition spawn_source_backfill ::
  "ingest_world \<Rightarrow> source_world \<Rightarrow> string \<Rightarrow> log_source list \<Rightarrow> nat \<Rightarrow> int option \<Rightarrow> 'r log_index \<Rightarrow> source_disk \<Rightarrow>
     source_disk \<times> backfill_job" where
  "spawn_source_backfill gw sw name sources retention min_ts li sd =
     (snd (record_source_state gw sw li name sources retention min_ts Index_Queued sd),
      \<lparr>bj_name = name, bj_sources = sources, bj_retention = retention, bj_min_ts = min_ts\<rparr>)"

record source_summary =
  su_name :: string
  su_paths :: "string list"
  su_created_at :: string
  su_retention_seconds :: "u64 option"
  su_effective_retention_seconds :: u64

definition source_summary :: "source_entry \<Rightarrow> nat \<Rightarrow> source_summary" where
  "source_summary entry default_retention =
     \<lparr>su_name = so_name entry, su_paths = so_paths entry, su_created_at = so_created_at entry,
      su_retention_seconds = so_retention_seconds entry,
      su_effective_retention_seconds = word_of_nat (source_retention_duration entry default_retention div 1000)\<rparr>"

text \<open>\<open>parse\<close> is the parser of durations, giving whole seconds.\<close>

definition parse_retention_seconds :: "(string \<Rightarrow> u64 result) \<Rightarrow> string option \<Rightarrow> u64 option app_result" where
  "parse_retention_seconds parse retention =
     (case retention of
        None \<Rightarrow> Inr None
      | Some r \<Rightarrow>
          (let r = trim r in
           if r = [] \<or> eq_ignore_ascii_case r ''default'' then Inr None
           else (case parse r of
                   Inl e \<Rightarrow> Inl (Bad_Request (''invalid source retention '' @ debug_str r @ '': '' @ e))
                 | Inr secs \<Rightarrow> Inr (Some secs))))"

definition list_sources ::
  "source_world \<Rightarrow> nat \<Rightarrow> source_disk \<Rightarrow> source_registry \<Rightarrow> source_summary list app_result \<times> source_registry \<times> source_disk" where
  "list_sources sw default_retention sd g =
     (case sources_list sw sd g of
        (r, g1, sd1) \<Rightarrow> (internal_error (rbind r (\<lambda>entries. Inr (map (\<lambda>e. source_summary e default_retention) entries))), g1, sd1))"

definition add_source ::
  "ingest_world \<Rightarrow> source_world \<Rightarrow> (string \<Rightarrow> u64 result) \<Rightarrow> nat \<Rightarrow> string \<Rightarrow> string list \<Rightarrow> string option \<Rightarrow>
     source_state_triple \<Rightarrow> source_summary app_result \<times> backfill_job option \<times> source_state_triple" where
  "add_source gw sw parse default_retention name paths retention_text = (\<lambda>(li, sd, g).
     case parse_retention_seconds parse retention_text of
       Inl e \<Rightarrow> (Inl e, None, li, sd, g)
     | Inr retention_seconds \<Rightarrow>
         (case sources_add sw name paths retention_seconds sd g of
            (Inl e, g1, sd1) \<Rightarrow> (Inl (Bad_Request e), None, li, sd1, g1)
          | (Inr entry, g1, sd1) \<Rightarrow>
              (case source_log_sources sw name sd1 g1 of
                 (Inl e, g2, sd2) \<Rightarrow> (Inl (Internal e), None, li, sd2, g2)
               | (Inr sources, g2, sd2) \<Rightarrow>
                   (let retention = source_retention_duration entry default_retention;
                        min_ts = Some (retention_cutoff_nanos gw retention);
                        answer = Inr (source_summary entry default_retention) in
                    if should_ingest_source_synchronously gw sources then
                      (case replace_source_index gw sw name sources retention min_ts (li, sd2) of
                         (Inl e, li3, sd3) \<Rightarrow> (Inl (Internal e), None, li3, sd3, g2)
                       | (Inr _, li3, sd3) \<Rightarrow> (answer, None, li3, sd3, g2))
                    else
                      (case delete_run (gw_index gw) (source_run_id name) li of
                         (Inl e, li3) \<Rightarrow> (Inl (Internal e), None, li3, sd2, g2)
                       | (Inr _, li3) \<Rightarrow>
                           (let (sd3, job) = spawn_source_backfill gw sw name sources retention min_ts li3 sd2 in
                            (answer, Some job, li3, sd3, g2)))))))"

definition source_not_found :: "string \<Rightarrow> app_error" where
  "source_not_found name = Not_Found (''source '' @ name @ '' not found'')"

definition source_status ::
  "source_world \<Rightarrow> nat \<Rightarrow> string \<Rightarrow> source_disk \<Rightarrow> source_registry \<Rightarrow>
     (source_summary \<times> source_index_state option) app_result \<times> source_registry \<times> source_disk" where
  "source_status sw default_retention name sd g =
     (case sources_get sw name sd g of
        (Inl e, g1, sd1) \<Rightarrow> (Inl (Internal e), g1, sd1)
      | (Inr None, g1, sd1) \<Rightarrow> (Inl (source_not_found name), g1, sd1)
      | (Inr (Some entry), g1, sd1) \<Rightarrow>
          (internal_error (rbind (Sources.index_state sw name sd1) (\<lambda>index.
             Inr (source_summary entry default_retention, index))), g1, sd1))"

definition remove_source ::
  "ingest_world \<Rightarrow> source_world \<Rightarrow> string \<Rightarrow> source_state_triple \<Rightarrow> unit app_result \<times> source_state_triple" where
  "remove_source gw sw name = (\<lambda>(li, sd, g).
     case sources_remove sw name sd g of
       (Inl e, g1, sd1) \<Rightarrow> (Inl (Internal e), li, sd1, g1)
     | (Inr removed, g1, sd1) \<Rightarrow>
         if \<not> removed then (Inl (source_not_found name), li, sd1, g1)
         else (case delete_run (gw_index gw) (source_run_id name) li of
                 (Inl e, li1) \<Rightarrow> (Inl (Internal e), li1, sd1, g1)
               | (Inr _, li1) \<Rightarrow> (Inr (), li1, sd1, g1)))"

definition ingest_and_view ::
  "ingest_world \<Rightarrow> log_source list \<Rightarrow> int option \<Rightarrow> string \<Rightarrow> log_view_query \<Rightarrow> log_view_response log_index \<Rightarrow>
     log_view_response app_result \<times> log_view_response log_index" where
  "ingest_and_view gw sources min_ts run_id q li =
     (case ingest_sources_after (gw_index gw) sources min_ts li of
        (Inl e, li1) \<Rightarrow> (Inl (map_log_index_error e), li1)
      | (Inr _, li1) \<Rightarrow>
          (case query_view (gw_query gw) run_id q li1 of (r, li2) \<Rightarrow> (map_err map_log_index_error r, li2)))"

definition source_logs_view ::
  "ingest_world \<Rightarrow> source_world \<Rightarrow> nat \<Rightarrow> string \<Rightarrow> log_view_query \<Rightarrow> source_state_triple \<Rightarrow>
     log_view_response app_result \<times> backfill_job option \<times> source_state_triple" where
  "source_logs_view gw sw default_retention name q = (\<lambda>(li, sd, g).
     case sources_get sw name sd g of
       (Inl e, g1, sd1) \<Rightarrow> (Inl (Internal e), None, li, sd1, g1)
     | (Inr None, g1, sd1) \<Rightarrow> (Inl (source_not_found name), None, li, sd1, g1)
     | (Inr (Some entry), g1, sd1) \<Rightarrow>
         (case source_log_sources sw name sd1 g1 of
            (Inl e, g2, sd2) \<Rightarrow> (Inl (Internal e), None, li, sd2, g2)
          | (Inr sources, g2, sd2) \<Rightarrow>
              (let retention = source_retention_duration entry default_retention;
                   min_ts = Some (retention_cutoff_nanos gw retention); run_id = source_run_id name in
               if should_ingest_source_synchronously gw sources then
                 (case ingest_and_view gw sources min_ts run_id q li of (r, li1) \<Rightarrow> (r, None, li1, sd2, g2))
               else
                 (case warmup_sources_for_query gw sources q min_ts of
                    Inl e \<Rightarrow> (Inl (Internal e), None, li, sd2, g2)
                  | Inr warmup \<Rightarrow>
                      (case (if warmup \<noteq> [] \<and> \<not> sources_are_current (gw_index gw) warmup li
                             then ingest_and_view gw warmup min_ts run_id q li
                             else (case query_view (gw_query gw) run_id q li of (r, li1) \<Rightarrow> (map_err map_log_index_error r, li1))) of
                         (Inl e, li1) \<Rightarrow> (Inl e, None, li1, sd2, g2)
                       | (Inr response, li1) \<Rightarrow>
                           if sources_are_current (gw_index gw) sources li1 then (Inr response, None, li1, sd2, g2)
                           else
                             (let (sd3, job) = spawn_source_backfill gw sw name sources retention min_ts li1 sd2 in
                              (Inr response, Some job, li1, sd3, g2)))))))"

section \<open>Batches\<close>

definition file_len_of :: "ingest_world \<Rightarrow> log_source \<Rightarrow> nat" where
  "file_len_of gw s = (case xw_meta (gw_index gw) (lg_path s) of None \<Rightarrow> 0 | Some (_, len) \<Rightarrow> len)"

definition batch_bytes :: "ingest_world \<Rightarrow> log_source list \<Rightarrow> nat" where
  "batch_bytes gw b = sum_list (map (file_len_of gw) b)"

text \<open>A batch stays within both limits, but a file is never cut: one that is too large is alone with empty files.\<close>

definition fits :: "ingest_world \<Rightarrow> log_source list \<Rightarrow> bool" where
  "fits gw b \<longleftrightarrow> length b \<le> backfill_batch_max_files \<and>
     (batch_bytes gw b \<le> backfill_batch_max_bytes \<or> length (filter (\<lambda>s. 0 < file_len_of gw s) b) \<le> 1)"

lemma batch_bytes_append [simp]: "batch_bytes gw (b @ c) = batch_bytes gw b + batch_bytes gw c"
  by (simp add: batch_bytes_def)

lemma batch_bytes_zero: "batch_bytes gw b = 0 \<Longrightarrow> filter (\<lambda>s. 0 < file_len_of gw s) b = []"
  by (auto simp: batch_bytes_def filter_empty_conv)

abbreviation batch_full :: "source_file \<Rightarrow> log_source list \<Rightarrow> nat \<Rightarrow> bool" where
  "batch_full f current current_bytes \<equiv> current \<noteq> [] \<and>
     (0 < current_bytes \<and> backfill_batch_max_bytes < sat_add current_bytes (sf_len f) \<or> backfill_batch_max_files \<le> length current)"

lemma batches_from_Cons:
  "batches_from min_ts (f # files) current current_bytes =
     (if expired min_ts f then apsnd (Cons (sf_source f)) (batches_from min_ts files current current_bytes)
      else if batch_full f current current_bytes
      then apfst (Cons current) (batches_from min_ts files [sf_source f] (sat_add 0 (sf_len f)))
      else batches_from min_ts files (current @ [sf_source f]) (sat_add current_bytes (sf_len f)))"
  by (simp add: Let_def split_beta apfst_def apsnd_def map_prod_def)

lemma batches_from_files:
  "concat (fst (batches_from min_ts files current current_bytes)) = current @ map sf_source (filter (\<lambda>f. \<not> expired min_ts f) files) \<and>
   snd (batches_from min_ts files current current_bytes) = map sf_source (filter (expired min_ts) files) \<and>
   (\<forall>b \<in> set (fst (batches_from min_ts files current current_bytes)). b \<noteq> [])"
proof (induction files arbitrary: current current_bytes)
  case (Cons f files)
  then show ?case unfolding batches_from_Cons by simp
qed simp

lemma batches_from_fit:
  assumes "\<And>f. f \<in> set files \<Longrightarrow> sf_len f = file_len_of gw (sf_source f)"
    and "current_bytes = sat_add 0 (batch_bytes gw current)" and "fits gw current"
    and "b \<in> set (fst (batches_from min_ts files current current_bytes))"
  shows "fits gw b"
  using assms
proof (induction files arbitrary: current current_bytes)
  case Nil
  then show ?case by (simp split: if_splits)
next
  case (Cons f files)
  have len: "sf_len f = file_len_of gw (sf_source f)" using Cons.prems(1) by simp
  have single: "fits gw [sf_source f]" by (simp add: fits_def backfill_batch_max_files_def)
  have files: "\<And>f. f \<in> set files \<Longrightarrow> sf_len f = file_len_of gw (sf_source f)" using Cons.prems(1) by simp
  consider "expired min_ts f" | "\<not> expired min_ts f" "batch_full f current current_bytes"
    | "\<not> expired min_ts f" "\<not> batch_full f current current_bytes"
    by blast
  then show ?case
  proof cases
    case 1
    then show ?thesis using Cons.IH [OF files Cons.prems(2,3)] Cons.prems(4) unfolding batches_from_Cons by simp
  next
    case 2
    have start: "sat_add 0 (sf_len f) = sat_add 0 (batch_bytes gw [sf_source f])" by (simp add: batch_bytes_def len)
    have "b = current \<or> b \<in> set (fst (batches_from min_ts files [sf_source f] (sat_add 0 (sf_len f))))"
      using Cons.prems(4) 2 unfolding batches_from_Cons by simp
    then show ?thesis using Cons.IH [OF files start single] Cons.prems(3) by blast
  next
    case 3
    have "fits gw (current @ [sf_source f])"
    proof (cases "current = []")
      case True
      then show ?thesis using single by simp
    next
      case False
      then have short: "length current < backfill_batch_max_files"
        and small: "current_bytes = 0 \<or> sat_add current_bytes (sf_len f) \<le> backfill_batch_max_bytes"
        using 3 by auto
      from small show ?thesis
      proof
        assume "current_bytes = 0"
        then have "batch_bytes gw current = 0" using Cons.prems(2) by (simp add: sat_add_def min_def split: if_splits)
        then show ?thesis using short batch_bytes_zero by (simp add: fits_def)
      next
        assume "sat_add current_bytes (sf_len f) \<le> backfill_batch_max_bytes"
        then have "batch_bytes gw current + sf_len f \<le> backfill_batch_max_bytes"
          using Cons.prems(2) by (simp add: sat_add_def backfill_batch_max_bytes_def min_def split: if_splits)
        then show ?thesis using short len by (simp add: fits_def batch_bytes_def)
      qed
    qed
    moreover have "sat_add current_bytes (sf_len f) = sat_add 0 (batch_bytes gw (current @ [sf_source f]))"
      using Cons.prems(2) len by (simp add: sat_add_def batch_bytes_def)
    moreover have "b \<in> set (fst (batches_from min_ts files (current @ [sf_source f]) (sat_add current_bytes (sf_len f))))"
      using Cons.prems(4) unfolding batches_from_Cons if_not_P [OF 3(1)] if_not_P [OF 3(2)] .
    ultimately show ?thesis using Cons.IH [OF files] by blast
  qed
qed

lemma source_file_fields:
  "source_file_of gw s = Some f \<Longrightarrow> sf_source f = s \<and> sf_len f = file_len_of gw s"
  by (auto simp: source_file_of_def file_len_of_def split: option.splits if_splits)

lemma set_map_filter_iff: "y \<in> set (List.map_filter f xs) \<longleftrightarrow> (\<exists>x \<in> set xs. f x = Some y)"
  by (induction xs) (auto simp: List.map_filter_simps split: option.split)

lemma newest_first_files:
  "f \<in> set (source_files_newest_first gw sources) \<longleftrightarrow> (\<exists>s \<in> set sources. source_file_of gw s = Some f)"
  by (simp add: source_files_newest_first_def set_map_filter_iff)

lemma backfill_batches_files:
  assumes "priority_source_batches gw sources min_ts = (batches, skipped)"
  shows "concat batches = map sf_source (filter (\<lambda>f. \<not> expired min_ts f) (source_files_newest_first gw sources))"
    and "skipped = map sf_source (filter (expired min_ts) (source_files_newest_first gw sources))"
    and "\<forall>b \<in> set batches. b \<noteq> []"
  using batches_from_files [of min_ts "source_files_newest_first gw sources" "[]" 0] assms
  by (simp_all add: priority_source_batches_def)

text \<open>
  The files that are not expired come in batches, newest first and each once; every batch keeps to the
  limit of files, and to the limit of bytes unless one file alone exceeds it. The expired files are set
  aside.
\<close>

theorem backfill_batches:
  assumes "priority_source_batches gw sources min_ts = (batches, skipped)"
  shows "concat batches = map sf_source (filter (\<lambda>f. \<not> expired min_ts f) (source_files_newest_first gw sources)) \<and>
    skipped = map sf_source (filter (expired min_ts) (source_files_newest_first gw sources)) \<and>
    (\<forall>b \<in> set batches. b \<noteq> [] \<and> length b \<le> 8 \<and>
      (batch_bytes gw b \<le> 16 * 1024 * 1024 \<or> length (filter (\<lambda>s. 0 < file_len_of gw s) b) \<le> 1))"
proof -
  have lens: "sf_len f = file_len_of gw (sf_source f)" if "f \<in> set (source_files_newest_first gw sources)" for f
    using that source_file_fields unfolding newest_first_files by auto
  have "fits gw b" if "b \<in> set batches" for b
    using batches_from_fit [where files = "source_files_newest_first gw sources" and gw = gw and current_bytes = 0 and current = "[]"
        and b = b and min_ts = min_ts, OF lens] that assms
    by (simp add: priority_source_batches_def batch_bytes_def sat_add_def fits_def)
  then show ?thesis using backfill_batches_files [OF assms] by (simp add: fits_def backfill_batch_max_files_def backfill_batch_max_bytes_def)
qed

section \<open>What the batches leave in the index\<close>

abbreviation same_source :: "log_source \<Rightarrow> 'r log_index \<Rightarrow> 'r log_index \<Rightarrow> bool" where
  "same_source t li li' \<equiv> index_docs t li' = index_docs t li \<and> index_cursor t li' = index_cursor t li"

lemma same_resumable: "same_source t li li' \<Longrightarrow> resumable xw m t c li \<Longrightarrow> resumable xw m t c li'"
  unfolding resumable_def by (simp only:)

lemma ingest_after_frame:
  assumes xw: "no_failures xw" and S: "distinct (map key_of S)" and sub: "set batch \<subseteq> set S" "distinct batch"
    and each: "\<And>s. s \<in> set batch \<Longrightarrow> readable xw s (content s) \<and> resumable xw min_ts s (content s) li"
  shows "\<exists>li'. ingest_sources_after xw batch min_ts li = (Inr (), li') \<and>
    (\<forall>s \<in> set batch. indexed xw min_ts s (content s) li') \<and> (\<forall>t \<in> set S - set batch. same_source t li li')"
proof (cases "batch = []")
  case False
  have fresh: "fresh s empty_batch" for s by (simp add: fresh_def)
  have "\<exists>li'. ingest_loop xw min_ts (ig_sources (li_ingest li)) batch empty_batch li = (Inr (), li') \<and>
    (\<forall>s \<in> set batch. indexed xw min_ts s (content s) li') \<and>
    (\<forall>t \<in> set S - set batch. index_docs t li' = view_docs t empty_batch li \<and>
       index_cursor t li' = unwrap_or (view_cursor t empty_batch li) default_cursor)"
    using each fresh by (intro ingest_loop_result [OF xw S _ sub]) auto
  moreover have "view_docs t empty_batch li = index_docs t li"
    and "unwrap_or (view_cursor t empty_batch li) default_cursor = index_cursor t li" for t
    using fresh_view [OF fresh, of t li] by (simp_all add: index_cursor_def)
  ultimately show ?thesis using False by (auto simp: ingest_sources_after_def)
qed (simp add: ingest_sources_after_def)

lemma indexed_same: "same_source s li li' \<Longrightarrow> indexed xw m s c li \<Longrightarrow> indexed xw m s c li'"
  by (simp add: indexed_def)

lemma ingest_batches_result:
  assumes xw: "no_failures xw" and S: "distinct (map key_of S)" and sub: "set (concat batches) \<subseteq> set S" "distinct (concat batches)"
    and each: "\<And>s. s \<in> set (concat batches) \<Longrightarrow> readable xw s (content s) \<and> resumable xw min_ts s (content s) li"
  shows "\<exists>li'. ingest_batches xw min_ts batches li = (Inr (), li') \<and>
    (\<forall>s \<in> set (concat batches). indexed xw min_ts s (content s) li') \<and>
    (\<forall>t \<in> set S - set (concat batches). same_source t li li')"
  using sub each
proof (induction batches arbitrary: li)
  case (Cons batch batches)
  have "set batch \<subseteq> set S" "distinct batch" using Cons.prems(1,2) by auto
  moreover have "readable xw s (content s) \<and> resumable xw min_ts s (content s) li" if "s \<in> set batch" for s
    using Cons.prems(3) that by simp
  ultimately obtain li1 where step: "ingest_sources_after xw batch min_ts li = (Inr (), li1)"
    "\<forall>s \<in> set batch. indexed xw min_ts s (content s) li1" "\<forall>t \<in> set S - set batch. same_source t li li1"
    using ingest_after_frame [OF xw S, of batch content min_ts li] by blast
  have rest: "set (concat batches) \<subseteq> set S - set batch" "set (concat batches) \<subseteq> set S" "distinct (concat batches)"
    using Cons.prems(1,2) by auto
  have "readable xw s (content s) \<and> resumable xw min_ts s (content s) li1" if s: "s \<in> set (concat batches)" for s
  proof -
    have "s \<in> set S - set batch" using rest(1) s by blast
    then have same: "same_source s li li1" using step(3) by blast
    have "readable xw s (content s)" "resumable xw min_ts s (content s) li" using Cons.prems(3) [of s] s by simp_all
    then show ?thesis using same_resumable [OF same] by blast
  qed
  then obtain li2 where more: "ingest_batches xw min_ts batches li1 = (Inr (), li2)"
    "\<forall>s \<in> set (concat batches). indexed xw min_ts s (content s) li2"
    "\<forall>t \<in> set S - set (concat batches). same_source t li1 li2"
    using Cons.IH [OF rest(2,3)] by blast
  have "indexed xw min_ts s (content s) li2" if s: "s \<in> set batch" for s
  proof -
    have "s \<in> set S - set (concat batches)" using s Cons.prems(1,2) by auto
    then have same: "same_source s li1 li2" using more(3) by blast
    show ?thesis using step(2) s indexed_same [OF same] by blast
  qed
  then show ?case using step more by auto
qed simp

lemma mark_current_other:
  "key \<noteq> key_of s \<Longrightarrow> map_of (mark_current xw s m) key = map_of m key"
  by (auto simp: mark_current_def Let_def bmap_simps split: option.split)

lemma mark_fold_other:
  "key \<notin> key_of ` set S \<Longrightarrow> map_of (fold (mark_current xw) S m) key = map_of m key"
  by (induction S arbitrary: m) (simp_all add: mark_current_other)

lemma mark_fold_marked:
  assumes "distinct (map key_of S)" and "s \<in> set S" and "xw_meta xw (lg_path s) = Some (True, len)"
  shows "\<exists>n. map_of (fold (mark_current xw) S m) (key_of s) = Some \<lparr>ic_offset = len, ic_next_seq = n\<rparr>"
  using assms
proof (induction S arbitrary: m)
  case (Cons t S)
  show ?case
  proof (cases "t = s")
    case True
    then have "key_of s \<notin> key_of ` set S" using Cons.prems(1) by simp
    then show ?thesis using Cons.prems(3) True by (simp add: mark_fold_other) (simp add: mark_current_def Let_def bmap_simps)
  next
    case False
    then show ?thesis using Cons by simp
  qed
qed simp

lemma mark_result:
  assumes xw: "no_failures xw" and S: "distinct (map key_of S)"
    and meta: "\<And>s. s \<in> set S \<Longrightarrow> xw_meta xw (lg_path s) = Some (True, len s)"
  shows "\<exists>li'. mark_sources_current xw S li = (Inr (), li') \<and> li_docs li' = li_docs li \<and>
    (\<forall>s \<in> set S. ic_offset (index_cursor s li') = len s) \<and>
    (\<forall>t. key_of t \<notin> key_of ` set S \<longrightarrow> same_source t li li')"
proof (cases "S = []")
  case False
  have "ic_offset (unwrap_or (map_of (fold (mark_current xw) S m) (key_of s)) default_cursor) = len s" if "s \<in> set S" for s m
    using mark_fold_marked [OF S that meta [OF that], of m] by auto
  then show ?thesis
    using xw False by (auto simp: mark_sources_current_def save_ingest_def no_failures_def index_cursor_def index_docs_def mark_fold_other)
qed (simp add: mark_sources_current_def)

text \<open>The batches hold the files that are not expired, the others are set aside.\<close>

lemma backfill_parts:
  assumes "distinct sources" and to_file: "\<And>s. s \<in> set sources \<Longrightarrow> \<exists>f. source_file_of gw s = Some f \<and> sf_source f = s"
    and b: "priority_source_batches gw sources min_ts = (batches, skipped)"
  shows "s \<in> set (concat batches) \<longleftrightarrow> s \<in> set sources \<and> \<not> expired min_ts (the (source_file_of gw s))"
    and "s \<in> set skipped \<longleftrightarrow> s \<in> set sources \<and> expired min_ts (the (source_file_of gw s))"
    and "distinct (concat batches)" and "distinct skipped"
proof -
  define files where "files = source_files_newest_first gw sources"
  have spec: "concat batches = map sf_source (filter (\<lambda>f. \<not> expired min_ts f) files)" "skipped = map sf_source (filter (expired min_ts) files)"
    using backfill_batches_files [OF b] by (simp_all add: files_def)
  have in_files: "f \<in> set files \<longleftrightarrow> sf_source f \<in> set sources \<and> source_file_of gw (sf_source f) = Some f" for f
    unfolding files_def newest_first_files using source_file_fields by blast
  have "map sf_source (List.map_filter (source_file_of gw) ss) = ss" if "set ss \<subseteq> set sources" for ss
    using that by (induction ss) (use to_file in \<open>fastforce simp: List.map_filter_simps\<close>)+
  then have "distinct (map sf_source (List.map_filter (source_file_of gw) sources))" using assms(1) by simp
  then have distinct: "distinct (map sf_source files)"
    unfolding files_def source_files_newest_first_def by (simp add: distinct_map)
  show "s \<in> set (concat batches) \<longleftrightarrow> s \<in> set sources \<and> \<not> expired min_ts (the (source_file_of gw s))"
    unfolding spec(1) using to_file in_files by (auto simp: image_iff) (metis option.sel)
  show "s \<in> set skipped \<longleftrightarrow> s \<in> set sources \<and> expired min_ts (the (source_file_of gw s))"
    unfolding spec(2) using to_file in_files by (auto simp: image_iff) (metis option.sel)
  show "distinct (concat batches)" "distinct skipped"
    using distinct unfolding spec by (simp_all add: distinct_map inj_on_def)
qed

lemma backfill_result:
  assumes xw: "no_failures (gw_index gw)" and S: "distinct (map key_of sources)"
    and all: "\<And>s. s \<in> set sources \<Longrightarrow> readable (gw_index gw) s (content s)"
    and resume: "\<And>s. s \<in> set sources \<Longrightarrow> \<not> expired min_ts (the (source_file_of gw s)) \<Longrightarrow>
      resumable (gw_index gw) min_ts s (content s) li"
  shows "fst (ingest_sources_in_priority_batches gw sources min_ts li) = Inr () \<and>
    (\<forall>s \<in> set sources.
      if expired min_ts (the (source_file_of gw s))
      then index_docs s (snd (ingest_sources_in_priority_batches gw sources min_ts li)) = index_docs s li \<and>
        ic_offset (index_cursor s (snd (ingest_sources_in_priority_batches gw sources min_ts li))) = length (content s)
      else indexed (gw_index gw) min_ts s (content s) (snd (ingest_sources_in_priority_batches gw sources min_ts li)))"
proof -
  obtain batches skipped where b: "priority_source_batches gw sources min_ts = (batches, skipped)" by fastforce
  have files: "\<exists>f. source_file_of gw s = Some f \<and> sf_source f = s" if "s \<in> set sources" for s
    using all [OF that] by (auto simp: readable_def source_file_of_def)
  have "distinct sources" using S by (simp add: distinct_map)
  note retained = backfill_parts(1) [OF this files b] and set_aside = backfill_parts(2) [OF this files b]
    and apart = backfill_parts(3,4) [OF this files b]
  have "inj_on key_of (set sources)" using S by (simp add: distinct_map)
  then have keys: "distinct (map key_of skipped)" "\<And>t. t \<in> set sources \<Longrightarrow> t \<notin> set skipped \<Longrightarrow> key_of t \<notin> key_of ` set skipped"
    using apart(2) set_aside by (auto simp: distinct_map inj_on_def)
  have meta: "xw_meta (gw_index gw) (lg_path s) = Some (True, length (content s))" if "s \<in> set skipped" for s
    using all set_aside that by (simp add: readable_def)
  obtain li1 where marked: "mark_sources_current (gw_index gw) skipped li = (Inr (), li1)" "li_docs li1 = li_docs li"
    "\<forall>s \<in> set skipped. ic_offset (index_cursor s li1) = length (content s)"
    "\<forall>t. key_of t \<notin> key_of ` set skipped \<longrightarrow> same_source t li li1"
    using mark_result [OF xw keys(1) meta, of li] by blast
  have same1: "same_source s li li1" if "s \<in> set (concat batches)" for s
    using that marked(4) keys(2) retained set_aside by blast
  have "readable (gw_index gw) s (content s) \<and> resumable (gw_index gw) min_ts s (content s) li1" if "s \<in> set (concat batches)" for s
    using that all resume retained same_resumable [OF same1 [OF that]] by blast
  then obtain li2 where done2: "ingest_batches (gw_index gw) min_ts batches li1 = (Inr (), li2)"
    "\<forall>s \<in> set (concat batches). indexed (gw_index gw) min_ts s (content s) li2"
    "\<forall>t \<in> set sources - set (concat batches). same_source t li1 li2"
    using ingest_batches_result [OF xw S _ apart(1), of content min_ts li1] retained by blast
  have "(if skipped = [] then (Inr (), li) else mark_sources_current (gw_index gw) skipped li) = (Inr (), li1)"
    using marked(1) by (auto simp: mark_sources_current_def)
  then have result: "ingest_sources_in_priority_batches gw sources min_ts li = (Inr (), li2)"
    using done2(1) by (simp add: ingest_sources_in_priority_batches_def b)
  have "index_docs s li2 = index_docs s li \<and> ic_offset (index_cursor s li2) = length (content s)"
    if "s \<in> set sources" "expired min_ts (the (source_file_of gw s))" for s
  proof -
    have "s \<in> set skipped" "s \<in> set sources - set (concat batches)" using that retained set_aside by blast+
    then show ?thesis using marked(2,3) done2(3) by (simp add: index_docs_def)
  qed
  moreover have "indexed (gw_index gw) min_ts s (content s) li2"
    if "s \<in> set sources" "\<not> expired min_ts (the (source_file_of gw s))" for s
    using done2(2) retained that by blast
  ultimately show ?thesis unfolding result by simp
qed

text \<open>
  C34. A backfill, when nothing fails, over files that can be read and whose index can be carried on: each is
  unread, has been cut and has a line again, or has a cursor behind complete lines whose documents, those not
  before the cutoff, the index holds. With a cutoff, a file is set aside if it is empty, or its last time is
  before the cutoff, or it shows no time and was modified before it; such a file keeps its documents and gets
  its cursor at its end. Every other file has exactly the documents of its complete lines that are not before the
  cutoff, in whatever batch it was, and its cursor behind the last of them.
\<close>

theorem backfill_indexes_source:
  assumes xw: "no_failures (gw_index gw)" and S: "distinct (map key_of sources)"
    and all: "\<And>s. s \<in> set sources \<Longrightarrow> readable (gw_index gw) s (content s)"
    and old: "old = (\<lambda>s. \<exists>cutoff. min_ts = Some cutoff \<and>
      (content s = [] \<or>
       (case last_timestamp_nanos gw (lg_path s) of
          Inr (Some time) \<Rightarrow> time < cutoff
        | _ \<Rightarrow> (\<exists>modified. gw_modified gw (lg_path s) = Some modified \<and> 0 < modified \<and> modified < cutoff))))"
    and resume: "\<And>s. s \<in> set sources \<Longrightarrow> \<not> old s \<Longrightarrow> resumable (gw_index gw) min_ts s (content s) li"
  shows "fst (ingest_sources_in_priority_batches gw sources min_ts li) = Inr () \<and>
    (\<forall>s \<in> set sources. old s \<longrightarrow>
      index_docs s (snd (ingest_sources_in_priority_batches gw sources min_ts li)) = index_docs s li \<and>
      ic_offset (index_cursor s (snd (ingest_sources_in_priority_batches gw sources min_ts li))) = length (content s)) \<and>
    (\<forall>s \<in> set sources. \<not> old s \<longrightarrow>
      index_docs s (snd (ingest_sources_in_priority_batches gw sources min_ts li)) =
        file_docs (gw_index gw) s min_ts (complete_part (content s)) \<and>
      index_cursor s (snd (ingest_sources_in_priority_batches gw sources min_ts li)) = cursor_at (complete_part (content s)))"
proof -
  have same: "expired min_ts (the (source_file_of gw s)) \<longleftrightarrow> old s" if "s \<in> set sources" for s
    using all [OF that]
    by (cases "gw_modified gw (lg_path s)") (auto simp: old readable_def source_file_of_def expired_def is_before_retention_def ok_flatten_def
        split: option.splits sum.splits)
  have "\<And>s. s \<in> set sources \<Longrightarrow> \<not> expired min_ts (the (source_file_of gw s)) \<Longrightarrow>
      resumable (gw_index gw) min_ts s (content s) li"
    using resume same by blast
  from backfill_result [OF xw S all this] same show ?thesis
    by (auto simp: indexed_def split: if_splits)
qed

text \<open>
  A file whose last line is not complete is never current, so every view of a source that is too large to
  be read at once starts another backfill.
\<close>

lemma partial_line_never_current:
  assumes "readable xw s content" and "indexed xw min_ts s content li" and "complete_part content \<noteq> content"
  shows "\<not> sources_are_current xw [s] li"
proof -
  have "length (complete_part content) \<noteq> length content"
    using assms(3) by (auto simp: complete_part_def dest: arg_cong [of _ _ length])
  then show ?thesis
    using assms(1,2)
    by (auto simp: sources_are_current_def readable_def indexed_def ingest_cursor_of_def index_cursor_def source_key_def cursor_at_def
        split: option.split)
qed

section \<open>What is read for a query\<close>

text \<open>The complete lines of files, as far as a query for \<open>target\<close> lines counts them.\<close>

definition newlines :: "ingest_world \<Rightarrow> log_source \<Rightarrow> nat" where
  "newlines gw s = (case gw_content gw (lg_path s) of Inl _ \<Rightarrow> 0 | Inr bs \<Rightarrow> length (filter (\<lambda>b. b = newline) bs))"

definition retained_files :: "ingest_world \<Rightarrow> log_source list \<Rightarrow> int option \<Rightarrow> source_file list" where
  "retained_files gw sources min_ts = filter (\<lambda>f. \<not> expired min_ts f) (source_files_newest_first gw sources)"

definition enough :: "ingest_world \<Rightarrow> int option \<Rightarrow> bool \<Rightarrow> nat \<Rightarrow> log_source list \<Rightarrow> bool" where
  "enough gw since selective target result \<longleftrightarrow>
     length result = 8 \<or> 16 * 1024 * 1024 \<le> batch_bytes gw result \<or> (since \<noteq> None \<and> result = []) \<or>
     (\<not> selective \<and> target \<le> sum_list (map (newlines gw) result))"

lemma counted_lines:
  assumes "count_complete_lines_up_to gw (lg_path s) limit = Inr n"
  shows "n \<le> newlines gw s"
  using assms
  by (auto simp: count_complete_lines_up_to_def newlines_def rbind_eq_Inr split: if_splits)

lemma warmup_loop_result:
  assumes "warmup_loop gw min_ts since sel target files selected bytes lines = Inr result"
    and "\<And>f. f \<in> set files \<Longrightarrow> sf_len f = file_len_of gw (sf_source f)"
    and "length selected \<le> 8" and "bytes = sat_add 0 (batch_bytes gw selected)"
    and "lines < target" and "lines \<le> sum_list (map (newlines gw) selected)"
  shows "\<exists>n. result = selected @ map sf_source (take n (filter (\<lambda>f. \<not> expired min_ts f) files)) \<and> length result \<le> 8 \<and>
    (n < length (filter (\<lambda>f. \<not> expired min_ts f) files) \<longrightarrow> enough gw since sel target result)"
  using assms
proof (induction files arbitrary: selected bytes lines)
  case Nil
  then show ?case by auto
next
  case (Cons f files)
  have len: "sf_len f = file_len_of gw (sf_source f)" "\<And>f. f \<in> set files \<Longrightarrow> sf_len f = file_len_of gw (sf_source f)"
    using Cons.prems(2) by simp_all
  let ?rest = "filter (\<lambda>f. \<not> expired min_ts f) files"
  show ?case
  proof (cases "expired min_ts f")
    case True
    then show ?thesis using Cons.IH [OF _ len(2) Cons.prems(3-6)] Cons.prems(1) by simp
  next
    case False
    consider "warmup_max_files \<le> length selected \<or> warmup_max_bytes \<le> bytes" "result = selected"
      | "since \<noteq> None" "selected = []" "result = selected"
      | lines1 where "length selected < 8" "\<not> sel \<Longrightarrow> lines1 \<le> lines + newlines gw (sf_source f)"
          "sel \<Longrightarrow> lines1 = lines"
          "result = selected @ [sf_source f] \<and> \<not> sel \<and> target \<le> lines1 \<or> lines1 < target \<and>
             warmup_loop gw min_ts since sel target files (selected @ [sf_source f]) (sat_add bytes (sf_len f)) lines1 = Inr result"
    proof -
      let ?cut = "case since of None \<Rightarrow> False | Some t \<Rightarrow> 0 < sf_modified_nanos f \<and> sf_modified_nanos f < t \<and> selected = []"
      let ?go = "\<lambda>lines1. result = selected @ [sf_source f] \<and> \<not> sel \<and> target \<le> lines1 \<or> lines1 < target \<and>
        warmup_loop gw min_ts since sel target files (selected @ [sf_source f]) (sat_add bytes (sf_len f)) lines1 = Inr result"
      show thesis
      proof (cases "warmup_max_files \<le> length selected \<or> warmup_max_bytes \<le> bytes")
        case True
        then show thesis using that(1) Cons.prems(1) False by simp
      next
        case limits: False
        show thesis
        proof (cases ?cut)
          case True
          then have "result = selected" using Cons.prems(1) False limits by (simp split: option.splits)
          then show thesis using that(2) True by (cases since) auto
        next
          case no_cut: False
          have short: "length selected < 8" using limits by (simp add: warmup_max_files_def)
          have run: "warmup_loop gw min_ts since sel target (f # files) selected bytes lines =
            rbind (if \<not> sel \<and> lines < target
               then rbind (count_complete_lines_up_to gw (lg_path (sf_source f)) (target - lines)) (\<lambda>n. Inr (sat_add lines n))
               else Inr lines) (\<lambda>lines.
              if \<not> sel \<and> target \<le> lines then Inr (selected @ [sf_source f])
              else if since \<noteq> None \<and> target \<le> lines then Inr (selected @ [sf_source f])
              else warmup_loop gw min_ts since sel target files (selected @ [sf_source f]) (sat_add bytes (sf_len f)) lines)"
            using False limits no_cut unfolding warmup_loop.simps Let_def by (simp only: if_False)
          show thesis
          proof (cases sel)
            case True
            then have "warmup_loop gw min_ts since sel target files (selected @ [sf_source f]) (sat_add bytes (sf_len f)) lines = Inr result"
              using Cons.prems(1,5) unfolding run by simp
            then show thesis using that(3) [OF short] Cons.prems(5) True by simp
          next
            case False
            then obtain n where n: "count_complete_lines_up_to gw (lg_path (sf_source f)) (target - lines) = Inr n"
              "(if \<not> sel \<and> target \<le> sat_add lines n then Inr (selected @ [sf_source f])
                else if since \<noteq> None \<and> target \<le> sat_add lines n then Inr (selected @ [sf_source f])
                else warmup_loop gw min_ts since sel target files (selected @ [sf_source f]) (sat_add bytes (sf_len f)) (sat_add lines n)) =
                Inr result"
              using Cons.prems(1,5) unfolding run by (auto simp: rbind_eq_Inr)
            have go: "?go (sat_add lines n)"
              using n(2) False by (cases "target \<le> sat_add lines n") auto
            have "sat_add lines n \<le> lines + newlines gw (sf_source f)"
              using counted_lines [OF n(1)] by (simp add: sat_add_def)
            then show thesis using that(3) [OF short _ _ go] False by blast
          qed
        qed
      qed
    qed
    then show ?thesis
    proof cases
      case 1
      then have "enough gw since sel target result"
        using Cons.prems(3,4) by (auto simp: enough_def warmup_max_files_def warmup_max_bytes_def sat_add_def)
      then show ?thesis using 1(2) Cons.prems(3) by (intro exI [of _ 0]) simp
    next
      case 2
      then show ?thesis by (intro exI [of _ 0]) (simp add: enough_def)
    next
      case (3 lines1)
      have read: "lines1 \<le> sum_list (map (newlines gw) (selected @ [sf_source f]))"
        using 3(2,3) Cons.prems(6) by (cases sel) auto
      from 3(4) show ?thesis
      proof
        assume "result = selected @ [sf_source f] \<and> \<not> sel \<and> target \<le> lines1"
        then show ?thesis using read 3(1) False by (intro exI [of _ 1]) (simp add: enough_def)
      next
        assume more: "lines1 < target \<and>
          warmup_loop gw min_ts since sel target files (selected @ [sf_source f]) (sat_add bytes (sf_len f)) lines1 = Inr result"
        have bytes1: "sat_add bytes (sf_len f) = sat_add 0 (batch_bytes gw (selected @ [sf_source f]))"
          using Cons.prems(4) len(1) by (simp add: sat_add_def batch_bytes_def)
        have "length (selected @ [sf_source f]) \<le> 8" using 3(1) by simp
        from Cons.IH [OF conjunct2 [OF more] len(2) this bytes1 conjunct1 [OF more] read] obtain n where "result = (selected @ [sf_source f]) @ map sf_source (take n ?rest)" "length result \<le> 8"
          "n < length ?rest \<longrightarrow> enough gw since sel target result"
          by blast
        then show ?thesis using False by (intro exI [of _ "Suc n"]) simp
      qed
    qed
  qed
qed

text \<open>
  For a query the newest files that are not expired are read, at most eight; no file is left out unless
  eight or sixteen megabytes are read, or the query has a least time and the newest file is older, or the
  query is not selective and the files read have the lines asked for.
\<close>

theorem warmup_reads_newest:
  assumes "warmup_sources_for_query gw sources q min_ts = Inr result" and "vq_include_entries q \<or> vq_include_facets q"
  shows "\<exists>n. result = map sf_source (take n (retained_files gw sources min_ts)) \<and> length result \<le> 8 \<and>
    (n < length (retained_files gw sources min_ts) \<longrightarrow>
      enough gw (since_nanos_of (gw_query gw) (vq_filter q)) (selective_query q) (max (unwrap_or (lf_last (vq_filter q)) 500) 1) result)"
proof -
  have lens: "sf_len f = file_len_of gw (sf_source f)" if "f \<in> set (source_files_newest_first gw sources)" for f
    using that source_file_fields unfolding newest_first_files by auto
  have "warmup_loop gw min_ts (since_nanos_of (gw_query gw) (vq_filter q)) (selective_query q)
      (max (unwrap_or (lf_last (vq_filter q)) 500) 1) (source_files_newest_first gw sources) [] 0 0 = Inr result"
    using assms by (auto simp: warmup_sources_for_query_def)
  from warmup_loop_result [OF this lens] show ?thesis
    by (simp add: retained_files_def sat_add_def batch_bytes_def)
qed

section \<open>Backfills and removals\<close>

text \<open>
  A backfill that ends after its source was removed writes a state for it, and its documents, although
  nothing is registered any more; and one source that cannot be resolved ends the round at the start of
  the daemon for all that come after it.
\<close>

lemma try_steps_keep:
  assumes "\<And>f s. f \<in> set fs \<Longrightarrow> P s \<Longrightarrow> P (snd (f s))" and "P s"
  shows "P (snd (try_steps fs s))"
  using assms
proof (induction fs arbitrary: s)
  case (Cons f fs)
  have "P (snd (f s))" using Cons.prems by simp
  then show ?case using Cons.IH [of "snd (f s)"] Cons.prems(1) by (auto split: prod.split sum.split)
qed simp

lemma try_steps_snoc:
  "try_steps (fs @ [f]) s = (case try_steps fs s of (Inl e, s1) \<Rightarrow> (Inl e, s1) | (Inr _, s1) \<Rightarrow> f s1)"
  by (induction fs arbitrary: s) (auto split: prod.split sum.split)

lemma set_index_state_stored:
  assumes "sw_read sw = None" and "sw_write sw = None" and "sd_state sd \<noteq> Bad_File"
  shows "\<exists>sd1. set_index_state sw st sd = (Inr (), sd1) \<and> sd_state sd1 \<noteq> Bad_File \<and>
    Sources.index_state sw (xs_name st) sd1 = Inr (Some st)"
  using assms
  by (cases "sd_state sd")
    (auto simp: set_index_state_def load_index_state_file_def save_index_state_file_def Sources.index_state_def bmap_simps)

lemma late_backfill_revives_source:
  assumes sw: "sw_read sw = None" "sw_write sw = None" and sd: "sd_state sd \<noteq> Bad_File"
    and run: "source_backfill gw sw name sources retention min_ts (li, sd) = (li', sd')"
  shows "\<exists>state. Sources.index_state sw name sd' = Inr (Some state)"
proof -
  define P :: "log_view_response ingest_state_pair \<Rightarrow> bool" where "P = (\<lambda>(li, sd). sd_state sd \<noteq> Bad_File)"
  have record_keeps: "P (snd (record_step gw sw name sources retention min_ts status s))" if "P s" for status s
  proof -
    obtain li0 sd0 where s: "s = (li0, sd0)" by fastforce
    then have "sd_state sd0 \<noteq> Bad_File" using that by (simp add: P_def)
    then show ?thesis
      using set_index_state_stored [OF sw, of sd0 "source_state gw sw li0 name sources retention min_ts status None"]
      by (auto simp: P_def s record_step_def record_source_state_def)
  qed
  have index_keeps: "P (snd (index_step f s))" if "P s" for f s
    using that by (cases s) (auto simp: P_def index_step_def split: prod.split)
  define middle where "middle = (\<lambda>(li, sd). if sources_are_current (gw_index gw) sources li then (Inr (), li, sd)
    else try_steps [index_step (ingest_sources_in_priority_batches gw sources min_ts),
                  index_step (warm_step gw (source_run_id name))] (li, sd))"
  have middle_keeps: "P (snd (middle s))" if "P s" for s
    using that index_keeps try_steps_keep [of "[index_step (ingest_sources_in_priority_batches gw sources min_ts),
                  index_step (warm_step gw (source_run_id name))]" P s]
    by (cases s) (auto simp: middle_def)
  let ?first = "[record_step gw sw name sources retention min_ts Index_Indexing, middle]"
  have steps: "backfill_steps gw sw name sources retention min_ts s =
      try_steps (?first @ [record_step gw sw name sources retention min_ts Index_Current]) s" for s
    by (simp add: backfill_steps_def middle_def)
  have start: "P (li, sd)" using sd by (simp add: P_def)
  obtain r s1 where first: "try_steps ?first (li, sd) = (r, s1)" by (cases "try_steps ?first (li, sd)")
  have "P (snd (try_steps ?first (li, sd)))"
    by (rule try_steps_keep [where P = P, OF _ start]) (use record_keeps middle_keeps in auto)
  then have kept: "P s1" unfolding first by simp
  obtain li1 sd1 where s1: "s1 = (li1, sd1)" by fastforce
  have good: "sd_state sd1 \<noteq> Bad_File" using kept by (simp add: P_def s1)
  show ?thesis
  proof (cases r)
    case (Inl e)
    then have "backfill_steps gw sw name sources retention min_ts (li, sd) = (Inl e, li1, sd1)"
      unfolding steps try_steps_snoc first s1 by simp
    then show ?thesis
      using run set_index_state_stored [OF sw good, of "source_state gw sw li1 name sources retention min_ts Index_Error (Some e)"]
      by (auto simp: source_backfill_def) (simp add: source_state_def Let_def)
  next
    case (Inr u)
    obtain sd2 where last: "set_index_state sw (source_state gw sw li1 name sources retention min_ts Index_Current None) sd1 = (Inr (), sd2)"
      "Sources.index_state sw (xs_name (source_state gw sw li1 name sources retention min_ts Index_Current None)) sd2 =
        Inr (Some (source_state gw sw li1 name sources retention min_ts Index_Current None))"
      using set_index_state_stored [OF sw good] by blast
    have "backfill_steps gw sw name sources retention min_ts (li, sd) = (Inr (), li1, sd2)"
      unfolding steps try_steps_snoc first s1 Inr by (simp add: record_step_def record_source_state_def last(1))
    then have "sd' = sd2" using run by (simp add: source_backfill_def)
    then show ?thesis using last(2) by (simp add: source_state_def Let_def)
  qed
qed

lemma failed_source_ends_round:
  assumes "backfill_registered_source gw sw default_retention entry st = (Inl e, st1)"
  shows "try_steps (map (backfill_registered_source gw sw default_retention) (entry # entries)) st = (Inl e, st1)"
  using assms by simp


end
