(* ===== verification/Source_Examples.thy ===== *)
theory Source_Examples
  imports Source_Ingest "HOL-Library.Code_Target_Nat"
begin

text \<open>
  The theorems on backfills and warming up applied to two files of three lines. Natural numbers are
  computed as binary integers here, since the limits are large.
\<close>

definition example_ingest_world :: "bytes \<Rightarrow> ingest_world" where
  "example_ingest_world content = \<lparr>gw_query = example_query_world content, gw_modified = (\<lambda>_. Some 5),
     gw_content = (\<lambda>_. Inr content), gw_now_nanos = 0\<rparr>"

definition second_log :: log_source where
  "second_log = \<lparr>lg_run_id = ''r'', lg_service = ''db'', lg_path = ''/logs/db.log''\<rparr>"

theorem backfill_batches_witness:
  "\<exists>batches skipped. priority_source_batches (example_ingest_world example_lines) [example_log, second_log] None = (batches, skipped) \<and>
    concat batches = [second_log, example_log] \<and> (\<forall>b \<in> set batches. length b \<le> 8)"
proof -
  obtain batches skipped where b: "priority_source_batches (example_ingest_world example_lines) [example_log, second_log] None = (batches, skipped)"
    by fastforce
  have "map sf_source (filter (\<lambda>f. \<not> expired None f) (source_files_newest_first (example_ingest_world example_lines) [example_log, second_log])) =
      [second_log, example_log]"
    by code_simp
  then show ?thesis using backfill_batches [OF b] b by auto
qed

lemma example_index: "gw_index (example_ingest_world content) = example_index_world content"
  by (simp add: example_ingest_world_def example_query_world_def)

text \<open>Every line is of time 20, the cutoff is 10; one file was modified at 2 and the other at 50.\<close>

definition retention_world :: ingest_world where
  "retention_world = (example_ingest_world example_lines)\<lparr>
     gw_query := (example_query_world example_lines)\<lparr>qw_index := (example_index_world example_lines)\<lparr>xw_nanos := (\<lambda>_. Some 20)\<rparr>\<rparr>,
     gw_modified := (\<lambda>path. if path = ''/logs/db.log'' then Some 2 else Some 50)\<rparr>"

theorem backfill_indexes_source_witness:
  "let li = snd (ingest_sources_in_priority_batches retention_world [example_log, second_log] (Some 10) empty_index) in
   index_docs second_log li = [] \<and> ic_offset (index_cursor second_log li) = 5 \<and>
   map ld_seq (index_docs example_log li) = [0, 1] \<and> ic_offset (index_cursor example_log li) = 4"
proof -
  let ?xw = "(example_index_world example_lines)\<lparr>xw_nanos := (\<lambda>_. Some 20)\<rparr>"
  let ?old = "\<lambda>s. \<exists>cutoff. Some (10 :: int) = Some cutoff \<and>
      (example_lines = [] \<or>
       (case last_timestamp_nanos retention_world (lg_path s) of
          Inr (Some time) \<Rightarrow> time < cutoff
        | _ \<Rightarrow> (\<exists>modified. gw_modified retention_world (lg_path s) = Some modified \<and> 0 < modified \<and> modified < cutoff)))"
  have world: "gw_index retention_world = ?xw" by (simp add: retention_world_def)
  have xw: "no_failures ?xw" by (simp add: no_failures_def example_index_world_def)
  have readable: "readable ?xw s example_lines" for s
    using example_index_world_ok(2) [OF example_lines_ok(1), of s]
    by (simp add: readable_def example_index_world_def example_lines_def)
  have keys: "distinct (map key_of [example_log, second_log])" by code_simp
  have "last_timestamp_nanos retention_world (lg_path s) = Inr None" if "s \<in> {example_log, second_log}" for s
    using that by (elim insertE emptyE; simp only:) code_simp+
  then have old: "?old second_log" "\<not> ?old example_log"
    by (simp_all add: retention_world_def example_lines_def) (simp_all add: second_log_def example_log_def)
  have docs: "map ld_seq (file_docs ?xw example_log (Some 10) (complete_part example_lines)) = [0, 1]"
    "cursor_at (complete_part example_lines) = \<lparr>ic_offset = 4, ic_next_seq = 2\<rparr>" "length example_lines = 5"
    by code_simp+
  note result = backfill_indexes_source [of retention_world "[example_log, second_log]" "\<lambda>_. example_lines" ?old "Some 10" empty_index,
      unfolded world, OF xw keys readable refl empty_index_resumable]
  have "index_docs second_log empty_index = []" by (simp add: index_docs_def empty_index_def)
  then show ?thesis using result old docs by (simp add: Let_def)
qed

theorem warmup_reads_newest_witness:
  "\<exists>result. warmup_sources_for_query (example_ingest_world example_lines) [example_log, second_log]
      (facets_query\<lparr>vq_include_entries := True, vq_include_facets := False, vq_filter := default_filter\<lparr>lf_last := Some 2\<rparr>\<rparr>) None = Inr result \<and>
    result = [second_log] \<and> length result \<le> 8"
proof -
  let ?q = "facets_query\<lparr>vq_include_entries := True, vq_include_facets := False, vq_filter := default_filter\<lparr>lf_last := Some 2\<rparr>\<rparr>"
  have r: "warmup_sources_for_query (example_ingest_world example_lines) [example_log, second_log] ?q None = Inr [second_log]"
    by code_simp
  show ?thesis using warmup_reads_newest [OF r] r by simp
qed

end
