(* ===== verification/Cli_Context.thy ===== *)
theory Cli_Context
  imports Manifests Status Config_Validate "HOL-Library.Multiset"
begin

text \<open>
  What a command of the client works on, \<open>src/src/cli/context.rs\<close>, and the commands on runs,
  \<open>cli/commands/lifecycle.rs\<close>: the project and its configuration, the stack, the run that is meant
  when none is named, and the requests that are sent. The answers of the daemon, the files, the parser of
  configurations and that of times are parameters; what is printed is not modelled.
\<close>

record run_summary =
  rs_run_id :: string
  rs_stack :: string
  rs_project_dir :: string
  rs_state :: run_lifecycle
  rs_created_at :: string
  rs_stopped_at :: "string option"

text \<open>
  \<open>cx_runs\<close> is the daemon's list of runs, \<open>cx_run_dirs\<close> the entries of the directory of
  runs, \<open>cx_manifest\<close> what loading a manifest gives and \<open>cx_time\<close> a parsed time.
\<close>

record cli_world =
  cx_interactive :: bool
  cx_cwd :: "string result"
  cx_paths :: path_env
  cx_is_file :: "string \<Rightarrow> bool"
  cx_exists :: "string \<Rightarrow> bool"
  cx_canon :: "string \<Rightarrow> string option"
  cx_load :: "string \<Rightarrow> config_file result"
  cx_manifest :: "string \<Rightarrow> persisted_run result"
  cx_time :: "string \<Rightarrow> int option"
  cx_runs :: "run_summary list result"
  cx_run_dirs :: "string result list result"

section \<open>The project\<close>

record project_context =
  pc_project_dir :: string
  pc_config_path :: "string option"

definition default_noninteractive_follow_for :: nat where "default_noninteractive_follow_for = 15"

definition resolve_follow_for :: "bool \<Rightarrow> nat option \<Rightarrow> bool \<Rightarrow> nat option" where
  "resolve_follow_for follow follow_for interactive =
     (if \<not> follow then None
      else if follow_for \<noteq> None then follow_for
      else if interactive then None
      else Some default_noninteractive_follow_for)"

definition resolve_project_context_with_cwd ::
  "cli_world \<Rightarrow> string \<Rightarrow> string option \<Rightarrow> string option \<Rightarrow> project_context" where
  "resolve_project_context_with_cwd cx cwd project file =
     (case file of
        Some file \<Rightarrow>
          (let file_path = absolutize_path (cx_paths cx) cwd file in
           \<lparr>pc_project_dir = (case project of
                Some p \<Rightarrow> absolutize_path (cx_paths cx) cwd p
              | None \<Rightarrow> unwrap_or (path_parent file_path) cwd),
            pc_config_path = Some file_path\<rparr>)
      | None \<Rightarrow>
          (case project of
             Some p \<Rightarrow>
               (let dir = absolutize_path (cx_paths cx) cwd p in
                \<lparr>pc_project_dir = dir, pc_config_path = Some (config_default_path (cx_exists cx) dir)\<rparr>)
           | None \<Rightarrow>
               (case find_nearest_path (cx_is_file cx) (path_ancestors cwd) of
                  Some config_path \<Rightarrow>
                    \<lparr>pc_project_dir = unwrap_or (path_parent config_path) cwd, pc_config_path = Some config_path\<rparr>
                | None \<Rightarrow> \<lparr>pc_project_dir = cwd, pc_config_path = None\<rparr>)))"

definition resolve_project_context :: "cli_world \<Rightarrow> string option \<Rightarrow> string option \<Rightarrow> project_context result" where
  "resolve_project_context cx project file =
     rbind (cx_cwd cx) (\<lambda>cwd. Inr (resolve_project_context_with_cwd cx cwd project file))"

definition resolve_project_dir_from_cwd :: "cli_world \<Rightarrow> string result" where
  "resolve_project_dir_from_cwd cx = rbind (resolve_project_context cx None None) (\<lambda>c. Inr (pc_project_dir c))"

definition looks_like_config_path :: "string \<Rightarrow> bool" where
  "looks_like_config_path value =
     (let lower = map to_ascii_lowercase value in
      ends_with lower ''.toml'' \<or> ends_with lower ''.yaml'' \<or> ends_with lower ''.yml'')"

definition resolve_up_context ::
  "cli_world \<Rightarrow> string option \<Rightarrow> string option \<Rightarrow> string option \<Rightarrow> (project_context \<times> string option) result" where
  "resolve_up_context cx stack project file =
     rbind (cx_cwd cx) (\<lambda>cwd.
       let as_file = (case (file, stack) of
             (None, Some candidate) \<Rightarrow>
               if looks_like_config_path candidate \<and> cx_is_file cx (absolutize_path (cx_paths cx) cwd candidate)
               then Some (absolutize_path (cx_paths cx) cwd candidate) else None
           | _ \<Rightarrow> None);
           (stack1, file1) = (case as_file of Some path \<Rightarrow> (None, Some path) | None \<Rightarrow> (stack, file)) in
       Inr (resolve_project_context_with_cwd cx cwd project file1, stack1))"

definition no_config_error :: string where
  "no_config_error = ''no devstack config found; run devstack init or pass --file''"

definition resolve_stack_name :: "cli_world \<Rightarrow> string option \<Rightarrow> string option \<Rightarrow> string result" where
  "resolve_stack_name cx stack config_path =
     (case stack of
        Some name \<Rightarrow>
          (let path = Option.bind config_path (\<lambda>p. if cx_is_file cx p then Some p else None) in
           case (path, map_option (cx_load cx) path) of
             (Some p, Some (Inr config)) \<Rightarrow>
               if \<not> bm_contains (cf_stacks config) name \<and> bm_keys (cf_stacks config) \<noteq> [] then
                 Inl (''stack '' @ quoted name @ '' not found in '' @ p @ ''; available stacks: '' @
                   join_with '', '' (bm_keys (cf_stacks config)))
               else Inr name
           | _ \<Rightarrow> Inr name)
      | None \<Rightarrow>
          rbind (ok_or no_config_error config_path) (\<lambda>p.
            if \<not> cx_is_file cx p then Inl (''config not found at '' @ p @ ''; run devstack init or pass --file'')
            else rbind (cx_load cx p) (\<lambda>config.
              case cf_default_stack config of
                Some default_stack \<Rightarrow> Inr default_stack
              | None \<Rightarrow>
                  (case bm_keys (cf_stacks config) of
                     [] \<Rightarrow> Inl (''no stacks defined in '' @ p @ ''; add one or pass --stack'')
                   | [only] \<Rightarrow> Inr only
                   | stacks \<Rightarrow> Inl (''multiple stacks found in '' @ p @ '': '' @ join_with '', '' stacks @
                       '' (use --stack or default_stack)'')))))"

section \<open>The run that is meant\<close>

definition summary_of_manifest :: "persisted_run \<Rightarrow> run_summary" where
  "summary_of_manifest m =
     \<lparr>rs_run_id = pr_run_id m, rs_stack = pr_stack m, rs_project_dir = pr_project_dir m, rs_state = pr_state m,
      rs_created_at = pr_created_at m, rs_stopped_at = pr_stopped_at m\<rparr>"

fun manifests_in :: "cli_world \<Rightarrow> string result list \<Rightarrow> run_summary list result" where
  "manifests_in cx [] = Inr []"
| "manifests_in cx (entry # entries) =
     rbind entry (\<lambda>dir.
       let manifest_path = path_join dir ''manifest.json'' in
       if \<not> cx_exists cx manifest_path then manifests_in cx entries
       else (case cx_manifest cx manifest_path of
               Inl _ \<Rightarrow> manifests_in cx entries
             | Inr m \<Rightarrow> rbind (manifests_in cx entries) (\<lambda>rest. Inr (summary_of_manifest m # rest))))"

definition runs_from_disk :: "cli_world \<Rightarrow> run_summary list result" where
  "runs_from_disk cx =
     rbind (runs_dir (cx_paths cx)) (\<lambda>root.
       if \<not> cx_exists cx root then Inr []
       else rbind (cx_run_dirs cx) (manifests_in cx))"

definition fetch_runs_with_fallback :: "cli_world \<Rightarrow> (run_summary list \<times> bool) result" where
  "fetch_runs_with_fallback cx =
     (case cx_runs cx of
        Inr runs \<Rightarrow> Inr (runs, False)
      | Inl e \<Rightarrow> (case runs_from_disk cx of Inr runs \<Rightarrow> Inr (runs, True) | Inl _ \<Rightarrow> Inl e))"

definition fetch_runs :: "cli_world \<Rightarrow> run_summary list result" where
  "fetch_runs cx = rbind (fetch_runs_with_fallback cx) (\<lambda>(runs, _). Inr runs)"

datatype ordering = Less | Equal | Greater

definition compare_keys :: "'a::linorder \<Rightarrow> 'a \<Rightarrow> ordering" where
  "compare_keys a b = (if a < b then Less else if a = b then Equal else Greater)"

definition compare_run_recency :: "cli_world \<Rightarrow> run_summary \<Rightarrow> run_summary \<Rightarrow> ordering" where
  "compare_run_recency cx a b =
     (case (cx_time cx (rs_created_at a), cx_time cx (rs_created_at b)) of
        (Some a_time, Some b_time) \<Rightarrow> compare_keys a_time b_time
      | (Some _, None) \<Rightarrow> Greater
      | (None, Some _) \<Rightarrow> Less
      | (None, None) \<Rightarrow> compare_keys (rs_created_at a) (rs_created_at b))"

text \<open>\<open>max_by\<close> keeps the later of equal elements.\<close>

fun max_by_from :: "('a \<Rightarrow> 'a \<Rightarrow> ordering) \<Rightarrow> 'a \<Rightarrow> 'a list \<Rightarrow> 'a" where
  "max_by_from cmp best [] = best"
| "max_by_from cmp best (x # xs) = max_by_from cmp (if cmp best x = Greater then best else x) xs"

definition max_by :: "('a \<Rightarrow> 'a \<Rightarrow> ordering) \<Rightarrow> 'a list \<Rightarrow> 'a option" where
  "max_by cmp xs = (case xs of [] \<Rightarrow> None | x # rest \<Rightarrow> Some (max_by_from cmp x rest))"

definition select_latest_run :: "cli_world \<Rightarrow> string \<Rightarrow> run_summary list \<Rightarrow> run_summary option" where
  "select_latest_run cx project_dir runs =
     max_by (compare_run_recency cx) (filter (\<lambda>run. same_project_dir (cx_canon cx) (rs_project_dir run) project_dir) runs)"

definition select_latest_active_run :: "cli_world \<Rightarrow> string \<Rightarrow> run_summary list \<Rightarrow> run_summary option" where
  "select_latest_active_run cx project_dir runs =
     max_by (compare_run_recency cx)
       (filter (\<lambda>run. rs_state run \<noteq> Run_Stopped \<and> rs_stopped_at run = None)
         (filter (\<lambda>run. same_project_dir (cx_canon cx) (rs_project_dir run) project_dir) runs))"

definition resolve_run_id :: "cli_world \<Rightarrow> string \<Rightarrow> string option \<Rightarrow> string result" where
  "resolve_run_id cx project_dir run_id =
     (case run_id of
        Some run_id \<Rightarrow> Inr run_id
      | None \<Rightarrow>
          rbind (fetch_runs cx) (\<lambda>runs.
            rbind (ok_or (''no runs found for project '' @ project_dir @ '' (use --run or devstack ls --all)'')
                (select_latest_run cx project_dir runs)) (\<lambda>latest. Inr (rs_run_id latest))))"

definition resolve_latest_run_id :: "cli_world \<Rightarrow> string \<Rightarrow> string option result" where
  "resolve_latest_run_id cx project_dir =
     rbind (fetch_runs_with_fallback cx) (\<lambda>(runs, _). Inr (map_option rs_run_id (select_latest_run cx project_dir runs)))"

definition resolve_active_run_id :: "cli_world \<Rightarrow> string \<Rightarrow> string option result" where
  "resolve_active_run_id cx project_dir =
     rbind (fetch_runs_with_fallback cx) (\<lambda>(runs, _). Inr (map_option rs_run_id (select_latest_active_run cx project_dir runs)))"

text \<open>A stable sort by a comparison.\<close>

fun insert_by :: "('a \<Rightarrow> 'a \<Rightarrow> ordering) \<Rightarrow> 'a \<Rightarrow> 'a list \<Rightarrow> 'a list" where
  "insert_by cmp x [] = [x]"
| "insert_by cmp x (y # ys) = (if cmp x y = Greater then y # insert_by cmp x ys else x # y # ys)"

fun sort_by :: "('a \<Rightarrow> 'a \<Rightarrow> ordering) \<Rightarrow> 'a list \<Rightarrow> 'a list" where
  "sort_by cmp [] = []"
| "sort_by cmp (x # xs) = insert_by cmp x (sort_by cmp xs)"

definition project_order :: "cli_world \<Rightarrow> string \<Rightarrow> run_summary \<Rightarrow> run_summary \<Rightarrow> ordering" where
  "project_order cx project_dir a b =
     (case (same_project_dir (cx_canon cx) (rs_project_dir a) project_dir, same_project_dir (cx_canon cx) (rs_project_dir b) project_dir) of
        (True, False) \<Rightarrow> Less
      | (False, True) \<Rightarrow> Greater
      | _ \<Rightarrow> compare_run_recency cx b a)"

definition sort_runs_for_project :: "cli_world \<Rightarrow> string \<Rightarrow> run_summary list \<Rightarrow> run_summary list" where
  "sort_runs_for_project cx project_dir runs = sort_by (project_order cx project_dir) runs"

definition status_from_manifest :: "cli_world \<Rightarrow> string \<Rightarrow> run_status result" where
  "status_from_manifest cx run_id =
     rbind (run_manifest_path (cx_paths cx) run_id) (\<lambda>path.
       rbind (cx_manifest cx path) (\<lambda>m.
         let desired = (if pr_state m = Run_Stopped then ''stopped'' else ''running'') in
         Inr \<lparr>vr_run_id = pr_run_id m, vr_stack = pr_stack m, vr_project_dir = pr_project_dir m, vr_state = pr_state m,
           vr_services = bm_map (\<lambda>_ svc.
             \<lparr>vs_desired = desired, vs_systemd = None, vs_ready = (pe_state svc = Sv_Ready), vs_state = pe_state svc,
              vs_last_failure = pe_last_failure svc, vs_health = None, vs_health_check_stats = None,
              vs_uptime_seconds = None, vs_recent_errors = [], vs_url = pe_url svc, vs_auto_restart = False,
              vs_watch_paused = False, vs_watch_active = False\<rparr>) (pr_services m)\<rparr>))"

section \<open>Comparisons\<close>

text \<open>
  What the maximum and the sort need of a comparison, and what they then promise. Both comparisons of
  the client keep it: runs are totally preordered by their time, and by the project first.
\<close>

locale comparison =
  fixes cmp :: "'a \<Rightarrow> 'a \<Rightarrow> ordering"
  assumes swap: "cmp y x = Greater \<longleftrightarrow> cmp x y = Less"
    and chain: "cmp x y \<noteq> Greater \<Longrightarrow> cmp y z \<noteq> Greater \<Longrightarrow> cmp x z \<noteq> Greater"
begin

lemma not_both: "cmp x y = Greater \<Longrightarrow> cmp y x \<noteq> Greater"
  using swap by (metis ordering.distinct(3))

lemma self: "cmp x x \<noteq> Greater"
  using not_both by blast

lemma max_by_from_in: "max_by_from cmp best xs \<in> insert best (set xs)"
  by (induction xs arbitrary: best) (auto split: if_splits)

lemma max_by_from_bound: "x \<in> insert best (set xs) \<Longrightarrow> cmp x (max_by_from cmp best xs) \<noteq> Greater"
proof (induction xs arbitrary: best x)
  case Nil
  then show ?case using self by simp
next
  case (Cons y ys)
  let ?b = "if cmp best y = Greater then best else y"
  have step: "cmp best ?b \<noteq> Greater" "cmp y ?b \<noteq> Greater" using self not_both by auto
  have best: "cmp ?b (max_by_from cmp ?b ys) \<noteq> Greater" by (rule Cons.IH) simp
  have "cmp best (max_by_from cmp ?b ys) \<noteq> Greater" "cmp y (max_by_from cmp ?b ys) \<noteq> Greater"
    by (rule chain [OF step(1) best], rule chain [OF step(2) best])
  moreover have "cmp z (max_by_from cmp ?b ys) \<noteq> Greater" if "z \<in> set ys" for z
    by (rule Cons.IH) (simp add: that)
  ultimately show ?case using Cons.prems by auto
qed

lemma max_by_is_maximum: "max_by cmp xs = Some m \<Longrightarrow> m \<in> set xs \<and> (\<forall>x \<in> set xs. cmp x m \<noteq> Greater)"
  using max_by_from_in max_by_from_bound by (cases xs) (auto simp: max_by_def)

lemma max_by_none: "max_by cmp xs = None \<longleftrightarrow> xs = []"
  by (simp add: max_by_def split: list.split)

lemma insert_by_set [simp]: "set (insert_by cmp x xs) = insert x (set xs)"
  by (induction xs) auto

lemma insert_by_mset: "mset (insert_by cmp x xs) = add_mset x (mset xs)"
  by (induction xs) auto

lemma sort_by_mset: "mset (sort_by cmp xs) = mset xs"
  by (induction xs) (auto simp: insert_by_mset)

lemma insert_by_sorted:
  "sorted_wrt (\<lambda>x y. cmp x y \<noteq> Greater) xs \<Longrightarrow> sorted_wrt (\<lambda>x y. cmp x y \<noteq> Greater) (insert_by cmp x xs)"
proof (induction xs)
  case (Cons y ys)
  show ?case
  proof (cases "cmp x y = Greater")
    case True
    then show ?thesis using Cons not_both [OF True] by simp
  next
    case False
    then have "\<forall>z \<in> set ys. cmp x z \<noteq> Greater" using Cons.prems chain by fastforce
    then show ?thesis using Cons.prems False by simp
  qed
qed simp

lemma sort_by_sorted: "sorted_wrt (\<lambda>x y. cmp x y \<noteq> Greater) (sort_by cmp xs)"
  by (induction xs) (simp_all add: insert_by_sorted)

end

lemma compare_keys_Greater [simp]: "compare_keys a b = Greater \<longleftrightarrow> b < a"
  by (auto simp: compare_keys_def)

lemma compare_keys_Less [simp]: "compare_keys a b = Less \<longleftrightarrow> a < b"
  by (auto simp: compare_keys_def)

interpretation recency: comparison "compare_run_recency cx"
  by unfold_locales (auto simp: compare_run_recency_def split: option.splits)

interpretation for_project: comparison "project_order cx project_dir"
proof
  fix x y z
  show "project_order cx project_dir y x = Greater \<longleftrightarrow> project_order cx project_dir x y = Less"
    using recency.swap by (auto simp: project_order_def split: bool.splits)
  show "project_order cx project_dir x y \<noteq> Greater \<Longrightarrow> project_order cx project_dir y z \<noteq> Greater \<Longrightarrow>
      project_order cx project_dir x z \<noteq> Greater"
    using recency.chain by (auto simp: project_order_def split: bool.splits)
qed

text \<open>
  The run a command means when none is named, the latest one of the project, is a run of the project
  and none of the project's runs is more recent: where both times parse the later one wins, a run whose
  time does not parse never wins over one whose time does.
\<close>

theorem latest_run_is_most_recent:
  assumes "select_latest_run cx project_dir runs = Some run"
  shows "run \<in> {r \<in> set runs. same_project_dir (cx_canon cx) (rs_project_dir r) project_dir \<and>
    (\<forall>other \<in> set runs. same_project_dir (cx_canon cx) (rs_project_dir other) project_dir \<longrightarrow>
       compare_run_recency cx other r \<noteq> Greater)}"
  using recency.max_by_is_maximum [of cx] assms unfolding select_latest_run_def by fastforce

text \<open>The list of runs that is shown is a permutation of the runs, those of the project first, the most recent first.\<close>

lemma sorted_runs_are_a_permutation: "mset (sort_runs_for_project cx project_dir runs) = mset runs"
  by (simp add: sort_runs_for_project_def for_project.sort_by_mset)

lemma sorted_runs_project_first:
  "sorted_wrt (\<lambda>a b. same_project_dir (cx_canon cx) (rs_project_dir b) project_dir \<longrightarrow>
      same_project_dir (cx_canon cx) (rs_project_dir a) project_dir)
    (sort_runs_for_project cx project_dir runs)"
proof -
  have "sorted_wrt (\<lambda>a b. project_order cx project_dir a b \<noteq> Greater) (sort_runs_for_project cx project_dir runs)"
    unfolding sort_runs_for_project_def by (rule for_project.sort_by_sorted)
  then show ?thesis
    by (rule sorted_wrt_mono_rel [rotated]) (auto simp: project_order_def split: bool.splits)
qed

text \<open>A command fails for the want of a run only when the project has none, neither with the daemon nor on the disk.\<close>

lemma run_resolved_when_there_is_one:
  assumes "fetch_runs cx = Inr runs"
    and "\<exists>r \<in> set runs. same_project_dir (cx_canon cx) (rs_project_dir r) project_dir"
  shows "\<exists>r \<in> set runs. resolve_run_id cx project_dir None = Inr (rs_run_id r)"
proof -
  obtain r where "select_latest_run cx project_dir runs = Some r"
    using assms(2) recency.max_by_none [of cx] unfolding select_latest_run_def
    by (metis (no_types, lifting) filter_empty_conv not_None_eq)
  moreover from this have "r \<in> set runs"
    using recency.max_by_is_maximum [of cx] unfolding select_latest_run_def by fastforce
  ultimately show ?thesis by (auto simp: resolve_run_id_def assms(1))
qed

end
