(* ===== verification/Cli_Commands.thy ===== *)
theory Cli_Commands
  imports Cli_Context Up Projects
begin

text \<open>
  The commands of the client on runs and projects, \<open>src/src/cli/commands/lifecycle.rs\<close> and
  \<open>cli/commands/projects.rs\<close>: which requests they send and what they answer. The daemon is a
  parameter: it answers a request and keeps a state of its own between two requests. What is printed, the
  browser and the process of \<open>exec\<close> are not modelled.
\<close>

record intent_request =
  ir_run_id :: "string option"
  ir_service :: "string option"
  ir_search :: "string option"
  ir_level :: "string option"
  ir_stream :: "string option"
  ir_since :: "string option"
  ir_last :: "nat option"

datatype request_body =
    Body_Up up_request
  | Body_Watch "string option"
  | Body_Down string bool
  | Body_Kill string
  | Body_Gc "string option" bool
  | Body_Intent intent_request
  | Body_Register string
  | Body_Source string "string list" "string option"

record cli_request =
  cr_method :: string
  cr_path :: string
  cr_body :: "request_body option"

datatype daemon_answer =
    Ans_Json json
  | Ans_Status run_status
  | Ans_Projects "project_summary list"

type_synonym 's daemon = "cli_request \<Rightarrow> 's \<Rightarrow> daemon_answer result \<times> 's"

definition get_request :: "string \<Rightarrow> cli_request" where
  "get_request path = \<lparr>cr_method = ''GET'', cr_path = path, cr_body = None\<rparr>"

definition post_request :: "string \<Rightarrow> request_body \<Rightarrow> cli_request" where
  "post_request path body = \<lparr>cr_method = ''POST'', cr_path = path, cr_body = Some body\<rparr>"

section \<open>Up\<close>

fun split_up_targets :: "string list \<Rightarrow> string option \<times> string list" where
  "split_up_targets [] = (None, [])"
| "split_up_targets (stack # services) = (Some stack, services)"

record up_flags =
  uf_targets :: "string list"
  uf_stack :: "string option"
  uf_new :: bool
  uf_force :: bool
  uf_all :: bool
  uf_project :: "string option"
  uf_run_id :: "string option"
  uf_file :: "string option"
  uf_no_wait :: bool

definition up_all_request :: "up_flags \<Rightarrow> string \<Rightarrow> string \<Rightarrow> string \<Rightarrow> cli_request" where
  "up_all_request flags project_dir config_path stack_name =
     post_request ''/v1/runs/up'' (Body_Up
       \<lparr>uq_stack = stack_name, uq_project_dir = project_dir, uq_run_id = None, uq_file = Some config_path,
        uq_no_wait = uf_no_wait flags, uq_new_run = uf_new flags, uq_force = uf_force flags, uq_services = []\<rparr>)"

fun send_all :: "'s daemon \<Rightarrow> cli_request list \<Rightarrow> 's \<Rightarrow> daemon_answer list result \<times> 's" where
  "send_all daemon [] s = (Inr [], s)"
| "send_all daemon (request # requests) s =
     (case daemon request s of
        (Inl e, s) \<Rightarrow> (Inl e, s)
      | (Inr response, s) \<Rightarrow>
          (case send_all daemon requests s of
             (Inl e, s) \<Rightarrow> (Inl e, s)
           | (Inr responses, s) \<Rightarrow> (Inr (response # responses), s)))"

text \<open>The requests of \<open>up\<close>: one, or one per stack with \<open>--all\<close>.\<close>

definition up_requests :: "cli_world \<Rightarrow> up_flags \<Rightarrow> cli_request list result" where
  "up_requests cx flags =
     (let (stack_positional, services) = split_up_targets (uf_targets flags);
          stack = (case uf_stack flags of Some s \<Rightarrow> Some s | None \<Rightarrow> stack_positional) in
      rbind (resolve_up_context cx stack (uf_project flags) (uf_file flags)) (\<lambda>(context, stack).
        if uf_all flags then
          rbind (ok_or no_config_error (pc_config_path context)) (\<lambda>config_path.
            rbind (cx_load cx config_path) (\<lambda>config.
              Inr (map (up_all_request flags (pc_project_dir context) config_path) (bm_keys (cf_stacks config)))))
        else
          rbind (resolve_stack_name cx stack (pc_config_path context)) (\<lambda>stack.
            Inr [post_request ''/v1/runs/up'' (Body_Up
              \<lparr>uq_stack = stack, uq_project_dir = pc_project_dir context, uq_run_id = uf_run_id flags,
               uq_file = pc_config_path context, uq_no_wait = uf_no_wait flags, uq_new_run = uf_new flags,
               uq_force = uf_force flags, uq_services = services\<rparr>)])))"

definition up_command :: "cli_world \<Rightarrow> 's daemon \<Rightarrow> up_flags \<Rightarrow> 's \<Rightarrow> daemon_answer list result \<times> 's" where
  "up_command cx daemon flags s =
     (case up_requests cx flags of Inl e \<Rightarrow> (Inl e, s) | Inr requests \<Rightarrow> send_all daemon requests s)"

section \<open>The other commands on runs\<close>

text \<open>A command on the run that is meant.\<close>

definition on_run :: "cli_world \<Rightarrow> string option \<Rightarrow> (string \<Rightarrow> 'a result) \<Rightarrow> 'a result" where
  "on_run cx run_id f =
     rbind (resolve_project_dir_from_cwd cx) (\<lambda>project_dir. rbind (resolve_run_id cx project_dir run_id) f)"

definition status_request :: "string \<Rightarrow> cli_request" where
  "status_request run_id = get_request (''/v1/runs/'' @ run_id @ ''/status'')"

definition request_status :: "'s daemon \<Rightarrow> string \<Rightarrow> 's \<Rightarrow> run_status result \<times> 's" where
  "request_status daemon run_id s =
     (case daemon (status_request run_id) s of
        (Inl e, s) \<Rightarrow> (Inl e, s)
      | (Inr (Ans_Status st), s) \<Rightarrow> (Inr st, s)
      | (Inr _, s) \<Rightarrow> (Inl ''unexpected answer'', s))"

text \<open>
  The status, and whether it is that of the manifest: only when the daemon does not answer, or answers an
  error; an answer that cannot be decoded is an error of the command.
\<close>

definition status_command :: "cli_world \<Rightarrow> 's daemon \<Rightarrow> string option \<Rightarrow> 's \<Rightarrow> (run_status \<times> bool) result \<times> 's" where
  "status_command cx daemon run_id s =
     (case on_run cx run_id Inr of
        Inl e \<Rightarrow> (Inl e, s)
      | Inr run_id \<Rightarrow>
          (case daemon (status_request run_id) s of
             (Inr (Ans_Status st), s) \<Rightarrow> (Inr (st, False), s)
           | (Inr _, s) \<Rightarrow> (Inl ''unexpected answer'', s)
           | (Inl e, s) \<Rightarrow>
               (case status_from_manifest cx run_id of Inr st \<Rightarrow> (Inr (st, True), s) | Inl _ \<Rightarrow> (Inl e, s))))"

datatype watch_action = Watch_Pause "string option" | Watch_Resume "string option"

definition fetch_watch_status :: "string \<Rightarrow> cli_request" where
  "fetch_watch_status run_id = get_request (''/v1/runs/'' @ run_id @ ''/watch'')"

definition update_watch_state :: "string \<Rightarrow> string \<Rightarrow> string option \<Rightarrow> cli_request" where
  "update_watch_state run_id action service =
     post_request (''/v1/runs/'' @ run_id @ ''/watch/'' @ action) (Body_Watch service)"

definition watch_request :: "cli_world \<Rightarrow> watch_action option \<Rightarrow> cli_request result" where
  "watch_request cx action =
     on_run cx None (\<lambda>run_id. Inr (case action of
         None \<Rightarrow> fetch_watch_status run_id
       | Some (Watch_Pause service) \<Rightarrow> update_watch_state run_id ''pause'' service
       | Some (Watch_Resume service) \<Rightarrow> update_watch_state run_id ''resume'' service))"

definition down_request :: "cli_world \<Rightarrow> string option \<Rightarrow> bool \<Rightarrow> cli_request result" where
  "down_request cx run_id purge =
     on_run cx run_id (\<lambda>run_id. Inr (post_request ''/v1/runs/down'' (Body_Down run_id purge)))"

definition kill_request :: "cli_world \<Rightarrow> string option \<Rightarrow> cli_request result" where
  "kill_request cx run_id = on_run cx run_id (\<lambda>run_id. Inr (post_request ''/v1/runs/kill'' (Body_Kill run_id)))"

definition gc_request :: "string option \<Rightarrow> bool \<Rightarrow> cli_request" where
  "gc_request older_than everything = post_request ''/v1/gc'' (Body_Gc older_than everything)"

text \<open>The runs that are listed, and whether they are those of the manifests.\<close>

definition listed_runs :: "cli_world \<Rightarrow> bool \<Rightarrow> (run_summary list \<times> bool) result" where
  "listed_runs cx everything =
     rbind (resolve_project_dir_from_cwd cx) (\<lambda>project_dir.
       rbind (fetch_runs_with_fallback cx) (\<lambda>(runs, fallback).
         Inr (if everything then runs else filter (\<lambda>run. same_project_dir (cx_canon cx) (rs_project_dir run) project_dir) runs,
              fallback)))"

text \<open>\<open>since_arg\<close> normalises a point in time.\<close>

definition show_request ::
  "cli_world \<Rightarrow> (string option \<Rightarrow> string option result) \<Rightarrow> intent_request \<Rightarrow> cli_request result" where
  "show_request cx since_arg args =
     rbind (resolve_project_dir_from_cwd cx) (\<lambda>project_dir.
       rbind (case ir_run_id args of Some run_id \<Rightarrow> Inr (Some run_id) | None \<Rightarrow> resolve_latest_run_id cx project_dir) (\<lambda>run_id.
         rbind (since_arg (ir_since args)) (\<lambda>since.
           Inr (post_request ''/v1/navigation/intent'' (Body_Intent (args\<lparr>ir_run_id := run_id, ir_since := since\<rparr>))))))"

text \<open>The process that \<open>exec\<close> starts: its command, arguments, directory and the variables that are added.\<close>

definition exec_command :: "cli_world \<Rightarrow> string \<Rightarrow> string list \<Rightarrow> (string \<times> string list \<times> string \<times> env_map) result" where
  "exec_command cx run_id command =
     (case command of
        [] \<Rightarrow> Inl ''exec requires a command''
      | program # args \<Rightarrow>
          rbind (run_manifest_path (cx_paths cx) run_id) (\<lambda>path.
            rbind (cx_manifest cx path) (\<lambda>m. Inr (program, args, pr_project_dir m, pr_env m))))"

definition exec_request :: "cli_world \<Rightarrow> string option \<Rightarrow> string list \<Rightarrow> (string \<times> string list \<times> string \<times> env_map) result" where
  "exec_request cx run_id command = on_run cx run_id (\<lambda>run_id. exec_command cx run_id command)"

section \<open>Projects\<close>

definition find_project_id :: "string \<Rightarrow> project_summary list \<Rightarrow> string option" where
  "find_project_id project projects =
     (case find (\<lambda>p. py_id p = project) projects of
        Some p \<Rightarrow> Some (py_id p)
      | None \<Rightarrow> map_option py_id (find (\<lambda>p. py_path p = project \<or> py_name p = project) projects))"

definition projects_remove :: "'s daemon \<Rightarrow> string \<Rightarrow> 's \<Rightarrow> string result \<times> 's" where
  "projects_remove daemon project s =
     (case daemon (get_request ''/v1/projects'') s of
        (Inl e, s) \<Rightarrow> (Inl e, s)
      | (Inr (Ans_Projects projects), s) \<Rightarrow>
          (case find_project_id project projects of
             None \<Rightarrow> (Inl (''project not found: '' @ project), s)
           | Some pid \<Rightarrow>
               (case daemon \<lparr>cr_method = ''DELETE'', cr_path = ''/v1/projects/'' @ pid, cr_body = None\<rparr> s of
                  (Inl e, s) \<Rightarrow> (Inl e, s)
                | (Inr _, s) \<Rightarrow> (Inr pid, s)))
      | (Inr _, s) \<Rightarrow> (Inl ''unexpected answer'', s))"

definition projects_add :: "cli_world \<Rightarrow> string \<Rightarrow> cli_request result" where
  "projects_add cx path =
     rbind (ok_or (''path does not exist: '' @ path) (cx_canon cx path)) (\<lambda>abs_path.
       Inr (post_request ''/v1/projects/register'' (Body_Register abs_path)))"

section \<open>What is sent\<close>

lemma rbind_Inr_iff [result_simps]: "rbind r f = Inr y \<longleftrightarrow> (\<exists>x. r = Inr x \<and> f x = Inr y)"
  by (cases r) auto

text \<open>A configuration that the loader gives is valid and its maps have distinct keys.\<close>

definition valid_config :: "config_file \<Rightarrow> bool" where
  "valid_config config \<longleftrightarrow> validate_config config = Inr () \<and> bm_ok (cf_stacks config) \<and>
     (\<forall>(name, stack) \<in> set (cf_stacks config). bm_ok (st_services stack))"

lemma valid_config_plans:
  assumes "valid_config config" and "bm_contains (cf_stacks config) name"
  shows "\<exists>plan. stack_plan_filtered config name [] = Inr plan"
proof -
  obtain stack where stack: "map_of (cf_stacks config) name = Some stack"
    using assms(2) by (auto simp: bm_contains_def)
  then have "bm_ok (st_services stack)" using assms(1) map_of_SomeD by (fastforce simp: valid_config_def)
  then show ?thesis
    using validated_config_plans [OF _ _ stack] assms(1) by (auto simp: valid_config_def stack_plan_filtered_def)
qed

lemma default_stack_defined:
  assumes "valid_config config" and "cf_default_stack config = Some name"
  shows "bm_contains (cf_stacks config) name"
  using assms by (auto simp: valid_config_def validate_config_def split: if_splits)

lemma resolved_default_stack:
  assumes "resolve_stack_name cx None path = Inr name" and "\<And>p config. cx_load cx p = Inr config \<Longrightarrow> valid_config config"
  shows "\<exists>p config. path = Some p \<and> cx_load cx p = Inr config \<and> bm_contains (cf_stacks config) name"
proof -
  obtain p config where "path = Some p" and load: "cx_load cx p = Inr config"
    and name: "(case cf_default_stack config of Some d \<Rightarrow> Inr d | None \<Rightarrow>
        (case bm_keys (cf_stacks config) of [] \<Rightarrow> Inl (''no stacks defined in '' @ p @ ''; add one or pass --stack'')
         | [only] \<Rightarrow> Inr only
         | stacks \<Rightarrow> Inl (''multiple stacks found in '' @ p @ '': '' @ join_with '', '' stacks @
                       '' (use --stack or default_stack)''))) = Inr name"
    using assms(1) by (cases path) (auto simp: resolve_stack_name_def result_simps split: if_splits)
  have "bm_contains (cf_stacks config) name"
    using name default_stack_defined [OF assms(2) [OF load]]
    by (auto simp: bm_contains_iff split: option.splits list.splits)
  then show ?thesis using \<open>path = Some p\<close> load by blast
qed

text \<open>
  C35. When no stack is named, or all are asked for, every request that \<open>up\<close> sends names a stack that
  the daemon plans from the same file, provided that what loads is a valid configuration.
\<close>

theorem default_up_is_planned:
  assumes "up_requests cx flags = Inr requests" and "uf_all flags \<or> uf_targets flags = [] \<and> uf_stack flags = None"
    and "\<And>p config. cx_load cx p = Inr config \<Longrightarrow> valid_config config"
    and "dk_config (uw_disk uw) = cx_load cx" and "request \<in> set requests"
  shows "\<exists>u. cr_body request = Some (Body_Up u) \<and> (\<exists>planned. load_requested_stack uw u = Inr planned)"
proof -
  have planned: "\<exists>planned. load_requested_stack uw u = Inr planned"
    if "uq_file u = Some p" "cx_load cx p = Inr config" "bm_contains (cf_stacks config) (uq_stack u)" "uq_services u = []"
    for u p config
    using valid_config_plans [OF assms(3) [OF that(2)] that(3)] that(1,2,4) assms(4)
    by (auto simp: load_requested_stack_def)
  show ?thesis
  proof (cases "uf_all flags")
    case True
    then obtain ctxt p config name where "cx_load cx p = Inr config" "name \<in> set (bm_keys (cf_stacks config))"
      and "request = up_all_request flags (pc_project_dir (ctxt :: project_context)) p name"
      using assms(1,5) by (auto simp: up_requests_def result_simps split: prod.splits)
    then show ?thesis
      using planned by (auto simp: up_all_request_def post_request_def bm_contains_iff)
  next
    case False
    then have "uf_targets flags = []" "uf_stack flags = None" using assms(2) by auto
    then obtain ctxt named stack where up: "resolve_up_context cx None (uf_project flags) (uf_file flags) = Inr (ctxt, named)"
      and resolved: "resolve_stack_name cx named (pc_config_path ctxt) = Inr stack"
      and sent: "request = post_request ''/v1/runs/up'' (Body_Up
              \<lparr>uq_stack = stack, uq_project_dir = pc_project_dir ctxt, uq_run_id = uf_run_id flags,
               uq_file = pc_config_path ctxt, uq_no_wait = uf_no_wait flags, uq_new_run = uf_new flags,
               uq_force = uf_force flags, uq_services = []\<rparr>)"
      using assms(1,5) False by (auto simp: up_requests_def result_simps)
    have "named = None" using up by (auto simp: resolve_up_context_def result_simps split: option.splits)
    with resolved have "resolve_stack_name cx None (pc_config_path ctxt) = Inr stack" by simp
    then show ?thesis
      using planned resolved_default_stack [OF _ assms(3)] sent by (fastforce simp: post_request_def)
  qed
qed

text \<open>Requests are sent in order, up to the first that fails.\<close>

lemma send_all_stops: "fst (send_all daemon requests s) = Inr responses \<Longrightarrow> length responses = length requests"
proof (induction requests arbitrary: s responses)
  case (Cons request requests)
  then show ?case using Cons.IH by (auto split: prod.splits sum.splits) (metis fst_conv)
qed simp

text \<open>A project that is removed is one of the daemon's projects, and the one with the id that was named, if there is one.\<close>

lemma removed_project_matches:
  assumes "find_project_id project projects = Some pid"
  shows "\<exists>p \<in> set projects. py_id p = pid \<and> (py_id p = project \<or> py_path p = project \<or> py_name p = project)"
  using assms by (auto simp: find_project_id_def find_Some_iff split: option.splits)

lemma removed_project_id_first:
  "p \<in> set projects \<Longrightarrow> py_id p = project \<Longrightarrow> find_project_id project projects = Some project"
  by (auto simp: find_project_id_def find_None_iff find_Some_iff split: option.splits)

section \<open>A run of the client\<close>

definition example_cli :: cli_world where
  "example_cli =
     \<lparr>cx_interactive = False, cx_cwd = Inr ''/p'', cx_paths = example_path_env, cx_is_file = (\<lambda>p. p = ''/p/devstack.toml''),
      cx_exists = (\<lambda>p. p = ''/p/devstack.toml''), cx_canon = (\<lambda>p. Some p),
      cx_load = (\<lambda>p. if p = ''/p/devstack.toml'' then Inr example_config else Inl ''no file''),
      cx_manifest = (\<lambda>_. Inl ''no file''), cx_time = (\<lambda>_. None), cx_runs = Inl ''no daemon'', cx_run_dirs = Inr []\<rparr>"

definition plain_up :: up_flags where
  "plain_up =
     \<lparr>uf_targets = [], uf_stack = None, uf_new = False, uf_force = False, uf_all = False, uf_project = None,
      uf_run_id = None, uf_file = Some ''devstack.toml'', uf_no_wait = False\<rparr>"

definition planning_world :: up_world where
  "planning_world = example_up_world\<lparr>uw_globals := example_gworld\<lparr>gw_disk := (gw_disk example_gworld)\<lparr>dk_config := cx_load example_cli\<rparr>\<rparr>\<rparr>"

lemma plain_up_requests: "\<exists>request. up_requests example_cli plain_up = Inr [request]"
proof -
  have "case up_requests example_cli plain_up of Inr [_] \<Rightarrow> True | _ \<Rightarrow> False" by code_simp
  then show ?thesis by (auto split: sum.splits list.splits)
qed

lemma example_config_loads: "cx_load example_cli p = Inr config \<Longrightarrow> valid_config config"
  using example_config_valid example_services_ok
  by (auto simp: example_cli_def valid_config_def example_config_def bm_ok_def split: if_splits)

theorem default_up_is_planned_witness:
  "\<exists>request u planned. up_requests example_cli plain_up = Inr [request] \<and> cr_body request = Some (Body_Up u) \<and>
     load_requested_stack planning_world u = Inr planned"
proof -
  obtain request where request: "up_requests example_cli plain_up = Inr [request]" using plain_up_requests by blast
  have unnamed: "uf_all plain_up \<or> uf_targets plain_up = [] \<and> uf_stack plain_up = None" by (simp add: plain_up_def)
  have same: "dk_config (uw_disk planning_world) = cx_load example_cli" by (simp add: planning_world_def)
  show ?thesis
    using default_up_is_planned [OF request unnamed example_config_loads same, where request = request] request by auto
qed

end
