(* ===== verification/Cli_Logs.thy ===== *)
theory Cli_Logs
  imports Cli_Commands Source_Ingest
begin

text \<open>
  The client's commands on logs and sources, \<open>src/src/cli/commands/logs.rs\<close> and
  \<open>cli/commands/sources.rs\<close>, and the queries as they go over the wire, \<open>src/src/api.rs\<close>. The
  encoder of URLs, the splitting of a query string into its pairs and the parsers of times and durations
  are parameters.
\<close>

section \<open>Queries on the wire\<close>

type_synonym params = "(string \<times> string) list"

definition build_query_string :: "(string \<Rightarrow> string) \<Rightarrow> params \<Rightarrow> string" where
  "build_query_string enc params =
     foldl (\<lambda>out (key, value).
       if value = [] then out
       else out @ (if out = [] then ''?'' else ''&'') @ key @ ''='' @ enc value) [] params"

definition opt_param :: "string \<Rightarrow> string option \<Rightarrow> params" where
  "opt_param key value = (case value of None \<Rightarrow> [] | Some v \<Rightarrow> [(key, v)])"

definition push_log_filter_query_params :: "log_filter \<Rightarrow> params" where
  "push_log_filter_query_params f =
     opt_param ''last'' (map_option show_nat (lf_last f)) @
     opt_param ''search'' (lf_search f) @
     opt_param ''level'' (case lf_level f of Some level \<Rightarrow> if level \<noteq> ''all'' then Some level else None | None \<Rightarrow> None) @
     opt_param ''stream'' (lf_stream f) @
     opt_param ''since'' (lf_since f)"

definition view_params :: "log_view_query \<Rightarrow> params" where
  "view_params q =
     push_log_filter_query_params (vq_filter q) @
     opt_param ''service'' (vq_service q) @
     (if \<not> vq_include_entries q then [(''include_entries'', ''false'')] else []) @
     (if vq_include_facets q then [(''include_facets'', ''true'')] else []) @
     (if \<not> vq_include_total q then [(''include_total'', ''false'')] else [])"

definition build_log_view_query_string :: "(string \<Rightarrow> string) \<Rightarrow> log_view_query \<Rightarrow> string" where
  "build_log_view_query_string enc q = build_query_string enc (view_params q)"

definition logs_params :: "logs_query \<Rightarrow> params" where
  "logs_params q = push_log_filter_query_params (lq_filter q) @ opt_param ''after'' (map_option show_nat (lq_after q))"

definition build_logs_query_string :: "(string \<Rightarrow> string) \<Rightarrow> logs_query \<Rightarrow> string" where
  "build_logs_query_string enc q = build_query_string enc (logs_params q)"

text \<open>
  How the daemon reads the pairs: a field may have an alias, may come once at most, and has a default;
  what it does not know is passed over.
\<close>

definition named :: "string list \<Rightarrow> params \<Rightarrow> params" where
  "named names params = filter (\<lambda>(k, _). k \<in> set names) params"

definition wire_field :: "string list \<Rightarrow> params \<Rightarrow> string option result" where
  "wire_field names params =
     (case named names params of
        [] \<Rightarrow> Inr None
      | [(_, v)] \<Rightarrow> Inr (Some v)
      | _ \<Rightarrow> Inl (''duplicate field '' @ hd names))"

definition wire_number :: "string \<Rightarrow> nat result" where
  "wire_number s =
     (let digits = (case s of c # rest \<Rightarrow> if c = CHR ''+'' then rest else s | [] \<Rightarrow> s) in
      if digits = [] \<or> \<not> list_all is_ascii_digit digits \<or> 2 ^ 64 \<le> digits_value digits then Inl ''invalid number''
      else Inr (digits_value digits))"

definition wire_bool :: "string \<Rightarrow> bool result" where
  "wire_bool s = (if s = ''true'' then Inr True else if s = ''false'' then Inr False else Inl ''invalid boolean'')"

definition wire_opt :: "(string \<Rightarrow> 'a result) \<Rightarrow> string option \<Rightarrow> 'a option result" where
  "wire_opt f v = (case v of None \<Rightarrow> Inr None | Some s \<Rightarrow> rbind (f s) (\<lambda>x. Inr (Some x)))"

definition wire_filter :: "params \<Rightarrow> log_filter result" where
  "wire_filter params =
     rbind (rbind (wire_field [''last'', ''tail''] params) (wire_opt wire_number)) (\<lambda>last.
     rbind (wire_field [''since''] params) (\<lambda>since.
     rbind (wire_field [''search'', ''q''] params) (\<lambda>search.
     rbind (wire_field [''level''] params) (\<lambda>level.
     rbind (wire_field [''stream''] params) (\<lambda>stream.
       Inr \<lparr>lf_last = last, lf_since = since, lf_search = search, lf_level = level, lf_stream = stream\<rparr>)))))"

definition decode_logs_query :: "params \<Rightarrow> logs_query result" where
  "decode_logs_query params =
     rbind (wire_filter params) (\<lambda>f.
     rbind (rbind (wire_field [''after''] params) (wire_opt wire_number)) (\<lambda>after.
       Inr \<lparr>lq_filter = f, lq_after = after\<rparr>))"

definition decode_log_view_query :: "params \<Rightarrow> log_view_query result" where
  "decode_log_view_query params =
     rbind (wire_filter params) (\<lambda>f.
     rbind (wire_field [''service''] params) (\<lambda>service.
     rbind (rbind (wire_field [''include_entries''] params) (wire_opt wire_bool)) (\<lambda>entries.
     rbind (rbind (wire_field [''include_facets''] params) (wire_opt wire_bool)) (\<lambda>facets.
     rbind (rbind (wire_field [''include_total''] params) (wire_opt wire_bool)) (\<lambda>with_total.
       Inr \<lparr>vq_filter = f, vq_service = service, vq_include_entries = unwrap_or entries True,
            vq_include_facets = unwrap_or facets False, vq_include_total = unwrap_or with_total True\<rparr>)))))"

section \<open>Arguments\<close>

text \<open>\<open>ca_is_time\<close> says what is a time in RFC 3339, \<open>ca_ago\<close> is the time that a duration before now gives.\<close>

record cli_clock =
  ca_is_time :: "string \<Rightarrow> bool"
  ca_ago :: "string \<Rightarrow> string option"

definition normalize_since_arg :: "cli_clock \<Rightarrow> string option \<Rightarrow> string option result" where
  "normalize_since_arg ca since =
     (case since of
        None \<Rightarrow> Inr None
      | Some text \<Rightarrow>
          (let since = trim text in
           if since = [] then Inr None
           else if ca_is_time ca since then Inr (Some since)
           else (case ca_ago ca since of
                   Some timestamp \<Rightarrow> Inr (Some timestamp)
                 | None \<Rightarrow> Inl (''invalid --since value '' @ debug_str since @
                     ''; use RFC3339 (e.g. 2025-01-01T00:00:00Z) or a duration (e.g. 5m, 1h)''))))"

definition absolutize_source_patterns :: "cli_world \<Rightarrow> string list \<Rightarrow> string list result" where
  "absolutize_source_patterns cx patterns =
     rbind (cx_cwd cx) (\<lambda>cwd. Inr (map (\<lambda>pattern.
       let expanded = expand_home (cx_paths cx) pattern in
       if is_absolute expanded then expanded else path_join cwd expanded) patterns))"

text \<open>
  The target of \<open>logs\<close>: a service of the run before a source, and a service when it is neither.
  \<open>services\<close> are those in the daemon's status of a run, \<open>ledger\<close> is what loading the sources gives.
\<close>

definition resolve_log_target ::
  "cli_world \<Rightarrow> (string \<Rightarrow> string list result) \<Rightarrow> sources_ledger result \<Rightarrow> string \<Rightarrow> string option \<Rightarrow> string option \<Rightarrow>
     string option \<Rightarrow> string option \<Rightarrow> string option \<times> string option" where
  "resolve_log_target cx services ledger project_dir target source_flag service_flag run_id =
     (if source_flag \<noteq> None \<or> service_flag \<noteq> None then (source_flag, service_flag)
      else
        (case target of
           None \<Rightarrow> (None, None)
         | Some target \<Rightarrow>
             (let run_id = (case run_id of
                    Some rid \<Rightarrow> Some rid
                  | None \<Rightarrow> (case resolve_latest_run_id cx project_dir of Inr rid \<Rightarrow> rid | Inl _ \<Rightarrow> None)) in
              if (case run_id of
                    Some rid \<Rightarrow> (case services rid of Inr names \<Rightarrow> target \<in> set names | Inl _ \<Rightarrow> False)
                  | None \<Rightarrow> False)
              then (None, Some target)
              else if (case ledger of Inr ledger \<Rightarrow> bm_contains ledger target | Inl _ \<Rightarrow> False) then (Some target, None)
              else (None, Some target))))"

section \<open>Task logs\<close>

definition push_unique :: "'a list \<Rightarrow> 'a \<Rightarrow> 'a list" where
  "push_unique paths path = (if path \<in> set paths then paths else paths @ [path])"

definition task_log_path_candidates_for ::
  "cli_world \<Rightarrow> string \<Rightarrow> string \<Rightarrow> string option \<Rightarrow> string option \<Rightarrow> string option \<Rightarrow> string list result" where
  "task_log_path_candidates_for cx project_dir task_name explicit active latest =
     (let of_run = (\<lambda>run_id candidates. case run_id of
            None \<Rightarrow> Inr candidates
          | Some rid \<Rightarrow> rbind (task_log_path (cx_paths cx) rid task_name) (\<lambda>p. Inr (push_unique candidates p))) in
      if explicit \<noteq> None then of_run explicit []
      else rbind (of_run active []) (\<lambda>c1.
           rbind (of_run latest c1) (\<lambda>c2.
           rbind (ad_hoc_task_log_path (cx_paths cx) project_dir task_name) (\<lambda>p. Inr (push_unique c2 p)))))"

definition task_log_path_candidates :: "cli_world \<Rightarrow> string \<Rightarrow> string \<Rightarrow> string option \<Rightarrow> string list result" where
  "task_log_path_candidates cx project_dir task_name explicit =
     (if explicit \<noteq> None then task_log_path_candidates_for cx project_dir task_name explicit None None
      else rbind (resolve_active_run_id cx project_dir) (\<lambda>active.
           rbind (resolve_latest_run_id cx project_dir) (\<lambda>latest.
             task_log_path_candidates_for cx project_dir task_name None active latest)))"

section \<open>The command\<close>

record logs_args =
  la_run_id :: "string option"
  la_source :: "string option"
  la_facets :: bool
  la_all :: bool
  la_target :: "string option"
  la_service :: "string option"
  la_task :: "string option"
  la_tail :: "nat option"
  la_q :: "string option"
  la_level :: "string option"
  la_errors :: bool
  la_stream :: "string option"
  la_since :: "string option"
  la_follow :: bool
  la_follow_for :: "nat option"

text \<open>What is done in the end: a view of a source or a run, a file, or the lines of a service once or followed.\<close>

datatype log_action =
    Act_Source string log_view_query
  | Act_Run_View string log_view_query
  | Act_File string string "nat option" bool "nat option"
  | Act_Service string string logs_query
  | Act_Follow string string logs_query "nat option"

record logs_world =
  lw_cli :: cli_world
  lw_clock :: cli_clock
  lw_services :: "string \<Rightarrow> string list result"
  lw_ledger :: "sources_ledger result"

text \<open>The arguments once the target, the level and the point in time are resolved.\<close>

record logs_choice =
  lc_source :: "string option"
  lc_service :: "string option"
  lc_filter :: log_filter
  lc_follow_for :: "nat option"

definition logs_choice_of :: "logs_world \<Rightarrow> string \<Rightarrow> logs_args \<Rightarrow> logs_choice result" where
  "logs_choice_of lw project_dir la =
     (let (source, service) = resolve_log_target (lw_cli lw) (lw_services lw) (lw_ledger lw) project_dir
            (la_target la) (la_source la) (la_service la) (la_run_id la) in
      rbind (normalize_since_arg (lw_clock lw) (la_since la)) (\<lambda>since.
        Inr \<lparr>lc_source = source, lc_service = service,
             lc_filter = \<lparr>lf_last = None, lf_since = since, lf_search = la_q la,
               lf_level = (if la_errors la then Some ''error'' else la_level la), lf_stream = la_stream la\<rparr>,
             lc_follow_for = resolve_follow_for (la_follow la) (la_follow_for la) (cx_interactive (lw_cli lw))\<rparr>))"

definition view_query_of :: "logs_choice \<Rightarrow> nat option \<Rightarrow> bool \<Rightarrow> bool \<Rightarrow> log_view_query" where
  "view_query_of lc tail entries facets =
     \<lparr>vq_filter = (lc_filter lc)\<lparr>lf_last := tail\<rparr>, vq_service = lc_service lc, vq_include_entries = entries,
      vq_include_facets = facets, vq_include_total = True\<rparr>"

definition service_query :: "logs_choice \<Rightarrow> nat \<Rightarrow> nat option \<Rightarrow> logs_query" where
  "service_query lc tail after =
     (let f = lc_filter lc in build_logs_query tail after (lf_search f) (lf_level f) (lf_stream f) (lf_since f))"

definition filtered :: "logs_choice \<Rightarrow> bool" where
  "filtered lc \<longleftrightarrow> lf_search (lc_filter lc) \<noteq> None \<or> lf_level (lc_filter lc) \<noteq> None \<or>
     lf_stream (lc_filter lc) \<noteq> None \<or> lf_since (lc_filter lc) \<noteq> None"

definition task_action :: "logs_world \<Rightarrow> string \<Rightarrow> logs_args \<Rightarrow> logs_choice \<Rightarrow> string \<Rightarrow> log_action result" where
  "task_action lw project_dir la lc task_name =
     (if la_all la \<or> lc_service lc \<noteq> None \<or> filtered lc then
        Inl ''--task cannot be combined with --all, --service, --search, --level, --stream, or --since''
      else
        rbind (task_log_path_candidates (lw_cli lw) project_dir task_name (la_run_id la)) (\<lambda>candidates.
          case find (cx_exists (lw_cli lw)) candidates of
            None \<Rightarrow> Inl (''task log not found for '' @ quoted task_name @ '' (looked at '' @ join_with '', '' candidates @ '')'')
          | Some log_path \<Rightarrow> Inr (Act_File log_path task_name (la_tail la) (la_follow la) (lc_follow_for lc))))"

definition run_action :: "logs_args \<Rightarrow> logs_choice \<Rightarrow> string \<Rightarrow> log_action result" where
  "run_action la lc run_id =
     (if la_all la then
        (if la_follow la then Inl ''--follow requires --service (cannot be used with --all)''
         else Inr (Act_Run_View run_id (view_query_of lc (Some (unwrap_or (la_tail la) 500)) True False)))
      else
        (case lc_service lc of
           None \<Rightarrow> Inl ''--service is required unless --all or --task is set''
         | Some service \<Rightarrow>
             if la_follow la then
               Inr (Act_Follow run_id service (service_query lc (unwrap_or (la_tail la) 200) None) (lc_follow_for lc))
             else Inr (Act_Service run_id service (service_query lc (unwrap_or (la_tail la) 500) None))))"

definition logs_action :: "logs_world \<Rightarrow> string \<Rightarrow> logs_args \<Rightarrow> logs_choice \<Rightarrow> log_action result" where
  "logs_action lw project_dir la lc =
     (case lc_source lc of
        Some source_name \<Rightarrow>
          if la_follow la then Inl ''--follow is not supported with --source''
          else Inr (Act_Source source_name
            (view_query_of lc (case la_tail la of Some n \<Rightarrow> Some n | None \<Rightarrow> Some 500) (\<not> la_facets la) (la_facets la)))
      | None \<Rightarrow>
          if la_facets la then
            rbind (resolve_run_id (lw_cli lw) project_dir (la_run_id la)) (\<lambda>run_id.
              Inr (Act_Run_View run_id (view_query_of lc None False True)))
          else
            (case la_task la of
               Some task_name \<Rightarrow> task_action lw project_dir la lc task_name
             | None \<Rightarrow> rbind (resolve_run_id (lw_cli lw) project_dir (la_run_id la)) (run_action la lc)))"

text \<open>
  \<open>perform\<close> does an action. When following a service fails and no filter needs the daemon, the log file
  of the service is read instead; an answer that is not followed has no such fallback.
\<close>

definition logs_run :: "logs_world \<Rightarrow> (log_action \<Rightarrow> unit result) \<Rightarrow> logs_args \<Rightarrow> unit result" where
  "logs_run lw perform la =
     rbind (resolve_project_dir_from_cwd (lw_cli lw)) (\<lambda>project_dir.
     rbind (logs_choice_of lw project_dir la) (\<lambda>lc.
     rbind (logs_action lw project_dir la lc) (\<lambda>action.
       case action of
         Act_Follow run_id service q limit \<Rightarrow>
           (case perform action of
              Inr _ \<Rightarrow> Inr ()
            | Inl e \<Rightarrow>
                if filtered lc then Inl e
                else rbind (run_log_path (cx_paths (lw_cli lw)) run_id service) (\<lambda>log_path.
                  perform (Act_File log_path service (la_tail la) (la_follow la) (lc_follow_for lc))))
       | _ \<Rightarrow> perform action)))"

section \<open>Requests\<close>

definition service_logs_request :: "(string \<Rightarrow> string) \<Rightarrow> string \<Rightarrow> string \<Rightarrow> logs_query \<Rightarrow> cli_request" where
  "service_logs_request enc run_id service q =
     get_request (''/v1/runs/'' @ run_id @ ''/logs/'' @ service @ build_logs_query_string enc q)"

definition run_log_view_request :: "(string \<Rightarrow> string) \<Rightarrow> string \<Rightarrow> log_view_query \<Rightarrow> cli_request" where
  "run_log_view_request enc run_id q = get_request (''/v1/runs/'' @ run_id @ ''/logs'' @ build_log_view_query_string enc q)"

definition source_log_view_request :: "(string \<Rightarrow> string) \<Rightarrow> string \<Rightarrow> log_view_query \<Rightarrow> cli_request" where
  "source_log_view_request enc source_name q =
     get_request (''/v1/sources/'' @ source_name @ ''/logs'' @ build_log_view_query_string enc q)"

section \<open>Sources without a daemon\<close>

text \<open>\<open>default_retention\<close> is the age that the index keeps.\<close>

definition cli_source_log_sources :: "source_world \<Rightarrow> sources_ledger \<Rightarrow> string \<Rightarrow> log_source list result" where
  "cli_source_log_sources sw ledger source_name =
     rbind (ledger_log_sources sw ledger source_name) (\<lambda>resolved. Inr (map (\<lambda>item.
       \<lparr>lg_run_id = source_run_id source_name, lg_service = rp_service item, lg_path = rp_path item\<rparr>) resolved))"

definition ledger_retention :: "sources_ledger \<Rightarrow> nat \<Rightarrow> string \<Rightarrow> nat" where
  "ledger_retention ledger default_retention source_name =
     (case map_of ledger source_name of
        Some entry \<Rightarrow> source_retention_duration entry default_retention
      | None \<Rightarrow> default_retention)"

definition query_source_log_view_local ::
  "ingest_world \<Rightarrow> source_world \<Rightarrow> nat \<Rightarrow> sources_ledger \<Rightarrow> string \<Rightarrow> log_view_query \<Rightarrow> log_view_response log_index \<Rightarrow>
     log_view_response result \<times> log_view_response log_index" where
  "query_source_log_view_local gw sw default_retention ledger source_name q li =
     (case cli_source_log_sources sw ledger source_name of
        Inl e \<Rightarrow> (Inl e, li)
      | Inr [] \<Rightarrow> (Inr \<lparr>vr_entries = [], vr_truncated = False, vr_total = 0, vr_total_exact = True, vr_filters = []\<rparr>, li)
      | Inr sources \<Rightarrow>
          (case ingest_sources_after (gw_index gw) sources
                  (Some (retention_cutoff_nanos gw (ledger_retention ledger default_retention source_name))) li of
             (Inl e, li) \<Rightarrow> (Inl e, li)
           | (Inr _, li) \<Rightarrow> query_view (gw_query gw) (source_run_id source_name) q li))"

definition refresh_source_index ::
  "ingest_world \<Rightarrow> source_world \<Rightarrow> nat \<Rightarrow> string \<Rightarrow> source_disk \<Rightarrow> 'r log_index \<Rightarrow> unit result \<times> 'r log_index" where
  "refresh_source_index gw sw default_retention source_name sd li =
     (case delete_run (gw_index gw) (source_run_id source_name) li of
        (Inl e, li) \<Rightarrow> (Inl e, li)
      | (Inr _, li) \<Rightarrow>
          (case load_ledger sw sd of
             Inl e \<Rightarrow> (Inl e, li)
           | Inr ledger \<Rightarrow>
               if \<not> bm_contains ledger source_name then (Inr (), li)
               else
                 (case cli_source_log_sources sw ledger source_name of
                    Inl e \<Rightarrow> (Inl e, li)
                  | Inr sources \<Rightarrow>
                      if sources = [] then (Inr (), li)
                      else ingest_sources_after (gw_index gw) sources
                        (Some (retention_cutoff_nanos gw (ledger_retention ledger default_retention source_name))) li)))"

text \<open>
  \<open>sources add\<close> and \<open>sources rm\<close> when no socket of a daemon exists: the ledger is loaded, changed and
  written, and the index follows.
\<close>

definition cli_parse_retention_seconds :: "(string \<Rightarrow> u64 result) \<Rightarrow> string option \<Rightarrow> u64 option result" where
  "cli_parse_retention_seconds parse retention =
     (case retention of
        None \<Rightarrow> Inr None
      | Some r \<Rightarrow>
          (let r = trim r in
           if r = [] \<or> eq_ignore_ascii_case r ''default'' then Inr None
           else rbind (parse r) (\<lambda>secs. Inr (Some secs))))"

definition cli_sources_add_local ::
  "ingest_world \<Rightarrow> source_world \<Rightarrow> nat \<Rightarrow> string \<Rightarrow> string list \<Rightarrow> u64 option \<Rightarrow> source_disk \<Rightarrow> 'r log_index \<Rightarrow>
     unit result \<times> source_disk \<times> 'r log_index" where
  "cli_sources_add_local gw sw default_retention name patterns retention_seconds sd li =
     (case load_ledger sw sd of
        Inl e \<Rightarrow> (Inl e, sd, li)
      | Inr ledger \<Rightarrow>
          (case add_at sw name patterns retention_seconds ledger sd of
             (Inl e, _, sd) \<Rightarrow> (Inl e, sd, li)
           | (Inr _, _, sd) \<Rightarrow>
               (case refresh_source_index gw sw default_retention name sd li of (r, li) \<Rightarrow> (r, sd, li))))"

definition cli_sources_remove_local ::
  "ingest_world \<Rightarrow> source_world \<Rightarrow> nat \<Rightarrow> string \<Rightarrow> source_disk \<Rightarrow> 'r log_index \<Rightarrow> unit result \<times> source_disk \<times> 'r log_index" where
  "cli_sources_remove_local gw sw default_retention name sd li =
     (case load_ledger sw sd of
        Inl e \<Rightarrow> (Inl e, sd, li)
      | Inr ledger \<Rightarrow>
          (case remove_at sw name ledger sd of
             (Inl e, _, sd) \<Rightarrow> (Inl e, sd, li)
           | (Inr removed, _, sd) \<Rightarrow>
               if \<not> removed then (Inl (''source not found: '' @ name), sd, li)
               else (case refresh_source_index gw sw default_retention name sd li of (r, li) \<Rightarrow> (r, sd, li))))"

text \<open>With a socket, the daemon is asked instead.\<close>

datatype source_route = Ask_Daemon cli_request | On_Disk

definition sources_add_route ::
  "cli_world \<Rightarrow> bool \<Rightarrow> (string \<Rightarrow> u64 result) \<Rightarrow> string \<Rightarrow> string list \<Rightarrow> string option \<Rightarrow>
     (source_route \<times> string list \<times> u64 option) result" where
  "sources_add_route cx socket_exists parse name paths retention =
     rbind (absolutize_source_patterns cx paths) (\<lambda>patterns.
     rbind (cli_parse_retention_seconds parse retention) (\<lambda>retention_seconds.
       Inr (if socket_exists then Ask_Daemon (post_request ''/v1/sources'' (Body_Source name patterns retention)) else On_Disk,
            patterns, retention_seconds)))"

definition sources_remove_route :: "bool \<Rightarrow> string \<Rightarrow> source_route" where
  "sources_remove_route socket_exists name =
     (if socket_exists then Ask_Daemon \<lparr>cr_method = ''DELETE'', cr_path = ''/v1/sources/'' @ name, cr_body = None\<rparr> else On_Disk)"

section \<open>The query string loses nothing\<close>

text \<open>
  What is relied on of the library that encodes and of the one that splits and decodes: pairs whose keys are
  plain words come back as they were.
\<close>

definition plain_key :: "string \<Rightarrow> bool" where
  "plain_key k \<longleftrightarrow> k \<noteq> [] \<and> list_all (\<lambda>c. is_ascii_lower c \<or> c = CHR ''_'') k"

definition url_codec :: "(string \<Rightarrow> string) \<Rightarrow> (string \<Rightarrow> params) \<Rightarrow> bool" where
  "url_codec enc parse \<longleftrightarrow>
     (\<forall>params. list_all (\<lambda>(k, v). plain_key k \<and> v \<noteq> []) params \<longrightarrow>
        parse (join_with ''&'' (map (\<lambda>(k, v). k @ ''='' @ enc v) params)) = params)"

text \<open>The part of a request after the question mark.\<close>

definition query_part :: "string \<Rightarrow> string" where
  "query_part s = (case s of [] \<Rightarrow> [] | _ # rest \<Rightarrow> rest)"

definition present :: "string option \<Rightarrow> string option" where
  "present v = (if v = Some [] then None else v)"

definition sent_level :: "string option \<Rightarrow> string option" where
  "sent_level level = (if level = Some ''all'' then None else level)"

definition canonical_filter :: "log_filter \<Rightarrow> log_filter" where
  "canonical_filter f =
     \<lparr>lf_last = lf_last f, lf_since = present (lf_since f), lf_search = present (lf_search f),
      lf_level = present (sent_level (lf_level f)), lf_stream = present (lf_stream f)\<rparr>"

definition canonical_view :: "log_view_query \<Rightarrow> log_view_query" where
  "canonical_view q = q\<lparr>vq_filter := canonical_filter (vq_filter q), vq_service := present (vq_service q)\<rparr>"

definition kept_params :: "params \<Rightarrow> params" where
  "kept_params params = filter (\<lambda>(k, v). v \<noteq> []) params"

definition rendered :: "(string \<Rightarrow> string) \<Rightarrow> params \<Rightarrow> string" where
  "rendered enc params = (if params = [] then [] else ''?'' @ join_with ''&'' (map (\<lambda>(k, v). k @ ''='' @ enc v) params))"

lemma join_with_snoc: "xs \<noteq> [] \<Longrightarrow> join_with sep (xs @ [x]) = join_with sep xs @ sep @ x"
  by (induction sep xs rule: join_with.induct) (auto split: list.splits)

lemma rendered_snoc: "rendered enc (ps @ [(k, v)]) = rendered enc ps @ (if rendered enc ps = [] then ''?'' else ''&'') @ k @ ''='' @ enc v"
  by (simp add: rendered_def join_with_snoc)

lemma build_query_string_rendered: "build_query_string enc params = rendered enc (kept_params params)"
proof -
  have "foldl (\<lambda>out (key, value).
       if value = [] then out
       else out @ (if out = [] then ''?'' else ''&'') @ key @ ''='' @ enc value) (rendered enc ps) params =
     rendered enc (ps @ kept_params params)" for ps
  proof (induction params arbitrary: ps)
    case (Cons p params)
    obtain k v where p: "p = (k, v)" by (cases p)
    show ?case
    proof (cases "v = []")
      case True
      then show ?thesis using Cons.IH [of ps] p by (simp add: kept_params_def)
    next
      case False
      then show ?thesis using Cons.IH [of "ps @ [(k, v)]"] p by (simp add: kept_params_def rendered_snoc)
    qed
  qed (simp add: kept_params_def)
  from this [of "[]"] show ?thesis by (simp add: build_query_string_def rendered_def)
qed

lemma query_string_parsed:
  assumes "url_codec enc parse" and "list_all (\<lambda>(k, _). plain_key k) params"
  shows "parse (query_part (build_query_string enc params)) = kept_params params"
proof -
  have "list_all (\<lambda>(k, v). plain_key k \<and> v \<noteq> []) (kept_params params)"
    using assms(2) by (auto simp: kept_params_def list_all_iff)
  then have "parse (join_with ''&'' (map (\<lambda>(k, v). k @ ''='' @ enc v) (kept_params params))) = kept_params params"
    using assms(1) by (simp add: url_codec_def)
  then show ?thesis by (auto simp: build_query_string_rendered rendered_def query_part_def)
qed

lemma kept_opt_param [simp]: "kept_params (opt_param key v) = opt_param key (present v)"
  by (auto simp: kept_params_def opt_param_def present_def split: option.splits)

lemma kept_params_append [simp]: "kept_params (ps @ qs) = kept_params ps @ kept_params qs"
  by (simp add: kept_params_def)

lemma named_opt_param [simp]: "named names (opt_param key v) = (if key \<in> set names then opt_param key v else [])"
  by (auto simp: named_def opt_param_def split: option.splits)

lemma named_append [simp]: "named names (ps @ qs) = named names ps @ named names qs"
  by (simp add: named_def)

lemma wire_field_one: "named names ps = opt_param key v \<Longrightarrow> wire_field names ps = Inr v"
  by (auto simp: wire_field_def opt_param_def split: option.splits)

lemma flag_param: "(if b then [(key, v)] else []) = opt_param key (if b then Some v else None)"
  by (simp add: opt_param_def)

lemma wire_number_show_nat: "n < 2 ^ 64 \<Longrightarrow> wire_number (show_nat n) = Inr n"
proof -
  assume small: "n < 2 ^ 64"
  obtain c s where cs: "show_nat n = c # s" using show_nat_nonempty [of n] by (cases "show_nat n") auto
  then have "c \<noteq> CHR ''+''" using show_nat_digits [of c n] by (auto simp: is_ascii_digit_def)
  then have "(case show_nat n of c # rest \<Rightarrow> if c = CHR ''+'' then rest else show_nat n | [] \<Rightarrow> show_nat n) = show_nat n"
    by (simp add: cs)
  moreover have "list_all is_ascii_digit (show_nat n)" using show_nat_digits by (auto simp: list_all_iff)
  ultimately show ?thesis using small by (simp add: wire_number_def digits_value_show_nat)
qed

lemma wire_opt_number: "(\<And>n. v = Some n \<Longrightarrow> n < 2 ^ 64) \<Longrightarrow> wire_opt wire_number (map_option show_nat v) = Inr v"
  by (cases v) (simp_all add: wire_opt_def wire_number_show_nat)

lemma present_number [simp]: "present (map_option show_nat v) = map_option show_nat v"
  by (cases v) (simp_all add: present_def)

lemma plain_keys [simp]:
  "plain_key ''last''" "plain_key ''search''" "plain_key ''level''" "plain_key ''stream''" "plain_key ''since''"
  "plain_key ''service''" "plain_key ''after''" "plain_key ''include_entries''" "plain_key ''include_facets''"
  "plain_key ''include_total''"
  by code_simp+

lemma plain_params: "list_all (\<lambda>(k, _). plain_key k) (view_params q)"
  by (auto simp: view_params_def push_log_filter_query_params_def opt_param_def split: option.splits)

lemma plain_logs_params: "list_all (\<lambda>(k, _). plain_key k) (logs_params q)"
  by (auto simp: logs_params_def push_log_filter_query_params_def opt_param_def split: option.splits)

abbreviation filter_params :: "log_filter \<Rightarrow> params" where
  "filter_params f \<equiv> opt_param ''last'' (map_option show_nat (lf_last f)) @ opt_param ''search'' (present (lf_search f)) @
     opt_param ''level'' (present (sent_level (lf_level f))) @ opt_param ''stream'' (present (lf_stream f)) @
     opt_param ''since'' (present (lf_since f))"

lemma kept_filter_params: "kept_params (push_log_filter_query_params f) = filter_params f"
proof -
  have "(case lf_level f of Some level \<Rightarrow> if level \<noteq> ''all'' then Some level else None | None \<Rightarrow> None) = sent_level (lf_level f)"
    by (auto simp: sent_level_def split: option.splits)
  then show ?thesis by (simp add: push_log_filter_query_params_def)
qed

lemma wire_filter_of:
  assumes "\<And>n. lf_last f = Some n \<Longrightarrow> n < 2 ^ 64"
    and "named [''last'', ''tail'', ''since'', ''search'', ''q'', ''level'', ''stream''] others = []"
  shows "wire_filter (filter_params f @ others) = Inr (canonical_filter f)"
proof -
  have rest: "named names others = []"
    if "set names \<subseteq> set [''last'', ''tail'', ''since'', ''search'', ''q'', ''level'', ''stream'']" for names
    using assms(2) that by (fastforce simp: named_def filter_empty_conv)
  have fields: "wire_field [''last'', ''tail''] (filter_params f @ others) = Inr (map_option show_nat (lf_last f))"
    "wire_field [''since''] (filter_params f @ others) = Inr (present (lf_since f))"
    "wire_field [''search'', ''q''] (filter_params f @ others) = Inr (present (lf_search f))"
    "wire_field [''level''] (filter_params f @ others) = Inr (present (sent_level (lf_level f)))"
    "wire_field [''stream''] (filter_params f @ others) = Inr (present (lf_stream f))"
    by (rule wire_field_one [where key = "''last''"], simp add: rest,
        rule wire_field_one [where key = "''since''"], simp add: rest,
        rule wire_field_one [where key = "''search''"], simp add: rest,
        rule wire_field_one [where key = "''level''"], simp add: rest,
        rule wire_field_one [where key = "''stream''"], simp add: rest)
  show ?thesis
    unfolding wire_filter_def fields
    using wire_opt_number [of "lf_last f"] assms(1) by (simp add: canonical_filter_def)
qed

lemma view_query_decoded:
  assumes "\<And>n. lf_last (vq_filter q) = Some n \<Longrightarrow> n < 2 ^ 64"
  shows "decode_log_view_query (kept_params (view_params q)) = Inr (canonical_view q)"
proof -
  define flags where "flags = opt_param ''service'' (present (vq_service q)) @
     opt_param ''include_entries'' (if \<not> vq_include_entries q then Some ''false'' else None) @
     opt_param ''include_facets'' (if vq_include_facets q then Some ''true'' else None) @
     opt_param ''include_total'' (if \<not> vq_include_total q then Some ''false'' else None)"
  have kept: "kept_params (view_params q) = filter_params (vq_filter q) @ flags"
    by (simp add: view_params_def kept_filter_params flag_param flags_def present_def)
  have filters: "wire_filter (filter_params (vq_filter q) @ flags) = Inr (canonical_filter (vq_filter q))"
    by (rule wire_filter_of [OF assms]) (simp_all add: flags_def)
  have fields: "wire_field [''service''] (filter_params (vq_filter q) @ flags) = Inr (present (vq_service q))"
    "wire_field [''include_entries''] (filter_params (vq_filter q) @ flags) = Inr (if \<not> vq_include_entries q then Some ''false'' else None)"
    "wire_field [''include_facets''] (filter_params (vq_filter q) @ flags) = Inr (if vq_include_facets q then Some ''true'' else None)"
    "wire_field [''include_total''] (filter_params (vq_filter q) @ flags) = Inr (if \<not> vq_include_total q then Some ''false'' else None)"
    by (rule wire_field_one [where key = "''service''"], simp add: flags_def,
        rule wire_field_one [where key = "''include_entries''"], simp add: flags_def,
        rule wire_field_one [where key = "''include_facets''"], simp add: flags_def,
        rule wire_field_one [where key = "''include_total''"], simp add: flags_def)
  show ?thesis
    unfolding kept decode_log_view_query_def filters fields
    by (simp add: wire_opt_def wire_bool_def canonical_view_def)
qed

lemma logs_query_decoded:
  assumes "\<And>n. lf_last (lq_filter q) = Some n \<Longrightarrow> n < 2 ^ 64" and "\<And>n. lq_after q = Some n \<Longrightarrow> n < 2 ^ 64"
  shows "decode_logs_query (kept_params (logs_params q)) = Inr (q\<lparr>lq_filter := canonical_filter (lq_filter q)\<rparr>)"
proof -
  define after where "after = opt_param ''after'' (map_option show_nat (lq_after q))"
  have kept: "kept_params (logs_params q) = filter_params (lq_filter q) @ after"
    by (simp add: logs_params_def kept_filter_params after_def)
  have filters: "wire_filter (filter_params (lq_filter q) @ after) = Inr (canonical_filter (lq_filter q))"
    by (rule wire_filter_of [OF assms(1)]) (simp_all add: after_def)
  have "wire_field [''after''] (filter_params (lq_filter q) @ after) = Inr (map_option show_nat (lq_after q))"
    by (rule wire_field_one [where key = "''after''"]) (simp add: after_def)
  then show ?thesis
    unfolding kept decode_logs_query_def filters
    using wire_opt_number [of "lq_after q"] assms(2) by simp
qed

text \<open>What the normal form leaves out is what the daemon takes for no filter.\<close>

lemma trim_words [simp]: "trim ''all'' = ''all''" "trim [] = []"
  by code_simp+

lemma level_canonical:
  "add_level_filter base (unwrap_or (present (sent_level level)) ''all'') = add_level_filter base (unwrap_or level ''all'')"
  by (cases level) (auto simp: present_def sent_level_def add_level_filter_def)

lemma stream_canonical:
  "build_scope_query run_id service since (present stream) after extra = build_scope_query run_id service since stream after extra"
  by (rule ext) (auto simp: present_def build_scope_query_def)

lemma search_canonical: "add_text_query qw base (present search) = add_text_query qw base search"
  by (auto simp: present_def add_text_query_def)

lemma since_canonical:
  "xw_nanos (qw_index qw) [] = None \<Longrightarrow> since_nanos_of qw (canonical_filter f) = since_nanos_of qw f"
  by (auto simp: present_def since_nanos_of_def canonical_filter_def)

lemma canonical_parts:
  "lf_last (canonical_filter f) = lf_last f" "lf_stream (canonical_filter f) = present (lf_stream f)"
  "lf_level (canonical_filter f) = present (sent_level (lf_level f))" "lf_search (canonical_filter f) = present (lf_search f)"
  by (simp_all add: canonical_filter_def)

lemma view_query_canonical:
  assumes "vq_service q \<noteq> Some []" and "xw_nanos (qw_index qw) [] = None"
  shows "query_view_uncached qw run_id (canonical_view q) li = query_view_uncached qw run_id q li"
proof -
  have service: "present (vq_service q) = vq_service q" using assms(1) by (simp add: present_def)
  have "view_query qw run_id (canonical_view q) = view_query qw run_id q"
    unfolding view_query_def Let_def canonical_view_def
    by (simp add: service since_canonical [OF assms(2)] canonical_parts level_canonical search_canonical stream_canonical)
  moreover have "view_answer qw (canonical_view q) specs docs = view_answer qw q specs docs" for specs docs
    by (simp add: view_answer_def canonical_view_def canonical_filter_def)
  ultimately show ?thesis
    by (simp add: query_view_uncached_def search_view_def view_fields_def canonical_view_def service split: sum.split option.split)
qed

text \<open>
  C36. A view that is asked of the daemon is the view that was meant: the query that the daemon decodes
  from the query string gets the same answer from the index as the query of the client, for every
  filter, page and kind of answer. Empty filters and the level \<open>all\<close>, which are not sent, filter
  nothing.
\<close>

theorem view_query_survives_the_url:
  assumes "url_codec enc parse" and "\<And>n. lf_last (vq_filter q) = Some n \<Longrightarrow> n < 2 ^ 64"
    and "vq_service q \<noteq> Some []" and "xw_nanos (qw_index qw) [] = None"
  shows "\<exists>q'. decode_log_view_query (parse (query_part (build_log_view_query_string enc q))) = Inr q' \<and>
    query_view_uncached qw run_id q' li = query_view_uncached qw run_id q li"
proof -
  have "parse (query_part (build_log_view_query_string enc q)) = kept_params (view_params q)"
    unfolding build_log_view_query_string_def by (rule query_string_parsed [OF assms(1) plain_params])
  then show ?thesis
    using view_query_decoded [OF assms(2)] view_query_canonical [OF assms(3,4)] by auto
qed

text \<open>The same for the lines of a service.\<close>

lemma logs_query_survives_the_url:
  assumes "url_codec enc parse" and "\<And>n. lf_last (lq_filter q) = Some n \<Longrightarrow> n < 2 ^ 64"
    and "\<And>n. lq_after q = Some n \<Longrightarrow> n < 2 ^ 64" and "xw_nanos (qw_index qw) [] = None"
  shows "\<exists>q'. decode_logs_query (parse (query_part (build_logs_query_string enc q))) = Inr q' \<and>
    search_service qw run_id service log_path q' li = search_service qw run_id service log_path q li"
proof -
  have "parse (query_part (build_logs_query_string enc q)) = kept_params (logs_params q)"
    unfolding build_logs_query_string_def by (rule query_string_parsed [OF assms(1) plain_logs_params])
  moreover have "search_service qw run_id service log_path (q\<lparr>lq_filter := canonical_filter (lq_filter q)\<rparr>) li =
      search_service qw run_id service log_path q li"
  proof -
    obtain r li1 where ingested:
      "ingest_sources (qw_index qw) [\<lparr>lg_run_id = run_id, lg_service = service, lg_path = log_path\<rparr>] li = (r, li1)"
      by fastforce
    show ?thesis
      unfolding search_service_def ingested
      by (cases r) (simp_all add: canonical_parts since_canonical [OF assms(4)] level_canonical search_canonical
          stream_canonical Let_def split: sum.split option.split)
  qed
  ultimately show ?thesis using logs_query_decoded [OF assms(2,3)] by auto
qed

text \<open>A codec: each character as its number in unary.\<close>

definition unary_encode :: "string \<Rightarrow> string" where
  "unary_encode v = concat (map (\<lambda>c. replicate (of_char c) CHR ''1'' @ ''0'') v)"

fun unary_decode :: "nat \<Rightarrow> string \<Rightarrow> string" where
  "unary_decode n [] = []"
| "unary_decode n (c # s) = (if c = CHR ''1'' then unary_decode (Suc n) s else char_of n # unary_decode 0 s)"

definition unary_parse :: "string \<Rightarrow> params" where
  "unary_parse s =
     map (\<lambda>p. case split_on (CHR ''='') p of [k, v] \<Rightarrow> (k, unary_decode 0 v) | _ \<Rightarrow> ([], []))
       (if s = [] then [] else split_on (CHR ''&'') s)"

lemma unary_decode_ones: "unary_decode n (replicate k CHR ''1'' @ s) = unary_decode (n + k) s"
  by (induction k arbitrary: n) simp_all

lemma unary_decode_encode: "unary_decode 0 (unary_encode v) = v"
  by (induction v) (simp_all add: unary_encode_def unary_decode_ones)

lemma unary_encode_chars: "set (unary_encode v) \<subseteq> set ''01''"
  by (auto simp: unary_encode_def)

lemma split_join:
  "ps \<noteq> [] \<Longrightarrow> (\<And>p. p \<in> set ps \<Longrightarrow> c \<notin> set p) \<Longrightarrow> split_on c (join_with [c] ps) = ps"
proof (induction "[c]" ps rule: join_with.induct)
  case (3 p q ps)
  then show ?case by (simp add: split_on_append_sep)
qed (simp_all add: split_on_absent)

lemma plain_key_clear: "plain_key k \<Longrightarrow> CHR ''&'' \<notin> set k" "plain_key k \<Longrightarrow> CHR ''='' \<notin> set k"
  by (auto simp: plain_key_def list_all_iff is_ascii_lower_def)

lemma unary_clear: "CHR ''&'' \<notin> set (unary_encode v)" "CHR ''='' \<notin> set (unary_encode v)"
  using unary_encode_chars [of v] by auto

lemma unary_pair: "plain_key k \<Longrightarrow> split_on (CHR ''='') (k @ ''='' @ unary_encode v) = [k, unary_encode v]"
  using split_on_append_sep [OF plain_key_clear(2), of k "unary_encode v"] split_on_absent [OF unary_clear(2)] by simp

lemma unary_codec: "url_codec unary_encode unary_parse"
  unfolding url_codec_def
proof (intro allI impI)
  fix params :: params
  assume plain: "list_all (\<lambda>(k, v). plain_key k \<and> v \<noteq> []) params"
  define parts where "parts = map (\<lambda>(k, v). k @ ''='' @ unary_encode v) params"
  have clear: "CHR ''&'' \<notin> set part" if "part \<in> set parts" for part
    using that plain plain_key_clear(1) unary_clear(1) unfolding parts_def by (fastforce simp: list_all_iff)
  have decoded: "map (\<lambda>p. case split_on (CHR ''='') p of [k, v] \<Rightarrow> (k, unary_decode 0 v) | _ \<Rightarrow> ([], [])) parts = params"
    using plain unfolding parts_def
  proof (induction params)
    case (Cons p ps)
    obtain k v where p: "p = (k, v)" by (cases p)
    then have "plain_key k" using Cons.prems by simp
    from unary_pair [OF this, of v] show ?case using Cons by (simp add: p unary_decode_encode)
  qed simp
  show "unary_parse (join_with ''&'' (map (\<lambda>(k, v). k @ ''='' @ unary_encode v) params)) = params"
  proof (cases parts)
    case Nil
    then show ?thesis by (simp add: unary_parse_def parts_def)
  next
    case (Cons part rest)
    have split: "split_on (CHR ''&'') (join_with ''&'' parts) = parts"
      by (rule split_join) (use Cons clear in auto)
    have "part \<noteq> []" using Cons unfolding parts_def by (cases params) auto
    then have "join_with ''&'' parts \<noteq> []" by (cases rest) (simp_all add: Cons)
    then show ?thesis using split decoded unfolding parts_def [symmetric] by (simp add: unary_parse_def)
  qed
qed

definition named_view :: log_view_query where
  "named_view =
     \<lparr>vq_filter = \<lparr>lf_last = Some 2, lf_since = None, lf_search = Some [], lf_level = Some ''all'', lf_stream = Some ''stderr''\<rparr>,
      vq_service = Some ''web'', vq_include_entries = True, vq_include_facets = False, vq_include_total = True\<rparr>"

theorem view_query_survives_the_url_witness:
  "\<exists>q'. decode_log_view_query (unary_parse (query_part (build_log_view_query_string unary_encode named_view))) = Inr q' \<and>
    query_view_uncached (example_query_world []) ''r1'' q' (view_index []) = query_view_uncached (example_query_world []) ''r1'' named_view (view_index [])"
  by (rule view_query_survives_the_url [OF unary_codec])
    (simp_all add: named_view_def example_query_world_def example_index_world_def)

section \<open>What is done\<close>

text \<open>A service is followed only when that is asked for, so that a single answer has no fallback to the log file.\<close>

lemma follow_action: "logs_action lw project_dir la lc = Inr (Act_Follow run_id service q limit) \<Longrightarrow> la_follow la"
  by (auto simp: logs_action_def task_action_def run_action_def result_simps split: option.splits if_splits)

lemma single_answer_has_no_fallback:
  assumes "\<not> la_follow la"
  shows "logs_run lw perform la =
    rbind (resolve_project_dir_from_cwd (lw_cli lw)) (\<lambda>project_dir.
    rbind (logs_choice_of lw project_dir la) (\<lambda>lc. rbind (logs_action lw project_dir la lc) perform))"
proof -
  have "rbind (logs_action lw project_dir la lc) (\<lambda>action.
       case action of
         Act_Follow run_id service q limit \<Rightarrow>
           (case perform action of
              Inr _ \<Rightarrow> Inr ()
            | Inl e \<Rightarrow>
                if filtered lc then Inl e
                else rbind (run_log_path (cx_paths (lw_cli lw)) run_id service) (\<lambda>log_path.
                  perform (Act_File log_path service (la_tail la) (la_follow la) (lc_follow_for lc))))
       | _ \<Rightarrow> perform action) = rbind (logs_action lw project_dir la lc) perform" for project_dir lc
    using follow_action [of lw project_dir la lc] assms
    by (cases "logs_action lw project_dir la lc") (auto split: log_action.split)
  then show ?thesis by (simp add: logs_run_def)
qed

text \<open>The places where the log of a task is looked for are distinct.\<close>

lemma task_log_candidates_distinct:
  "task_log_path_candidates cx project_dir task_name explicit = Inr candidates \<Longrightarrow> distinct candidates"
  by (auto simp: task_log_path_candidates_def task_log_path_candidates_for_def Let_def result_simps push_unique_def
      split: option.splits if_splits)

end
