(* ===== verification/Log_Tail.thy ===== *)
theory Log_Tail
  imports Log_Query
begin

text \<open>
  Lines of log files as they are written: the tail that feeds the daemon's events,
  \<open>src/src/daemon/log_tailing.rs\<close> and its subscriptions in \<open>daemon/handlers/events.rs\<close>, and
  \<open>src/src/logs.rs\<close>, which prints files and follows them. A file is a byte string at every reading;
  the notifications of the file system are a parameter, the tasks of the runtime are the steps by which
  subscriptions, releases and tails go on, and the writing to the terminal is not modelled.
\<close>

section \<open>Lines of a text\<close>

text \<open>
  \<open>str::lines\<close>: pieces between newlines, without the carriage return before a newline and without an
  empty last piece.
\<close>

definition strip_line_end :: "bytes \<Rightarrow> bytes" where
  "strip_line_end l =
     (case rev l of
        b # rest \<Rightarrow>
          if b = newline then (case rest of c # rest' \<Rightarrow> if c = 0x0D then rev rest' else rev rest | [] \<Rightarrow> [])
          else l
      | [] \<Rightarrow> [])"

definition text_lines :: "bytes \<Rightarrow> bytes list" where
  "text_lines t = map strip_line_end (split_inclusive t)"

lemma text_lines_append: "ends_line p \<Longrightarrow> text_lines (p @ q) = text_lines p @ text_lines q"
  by (simp add: text_lines_def split_inclusive_append)

section \<open>Subscriptions\<close>

text \<open>The task of a run is known by a number; the next one is counted.\<close>

record tail_handle =
  th_subscribers :: nat
  th_task :: nat

record tail_registry =
  tr_runs :: "(string, tail_handle) bmap"
  tr_next :: nat

datatype tail_effect = Tail_Started nat | Tail_Aborted nat

definition retain_run_log_tail :: "string \<Rightarrow> tail_registry \<Rightarrow> tail_effect list \<times> tail_registry" where
  "retain_run_log_tail run_id reg =
     (case map_of (tr_runs reg) run_id of
        Some handle \<Rightarrow>
          ([], reg\<lparr>tr_runs := bm_insert run_id (handle\<lparr>th_subscribers := Suc (th_subscribers handle)\<rparr>) (tr_runs reg)\<rparr>)
      | None \<Rightarrow>
          ([Tail_Started (tr_next reg)],
           reg\<lparr>tr_runs := bm_insert run_id \<lparr>th_subscribers = 1, th_task = tr_next reg\<rparr> (tr_runs reg),
             tr_next := Suc (tr_next reg)\<rparr>))"

definition release_run_log_tail :: "string \<Rightarrow> tail_registry \<Rightarrow> tail_effect list \<times> tail_registry" where
  "release_run_log_tail run_id reg =
     (case map_of (tr_runs reg) run_id of
        None \<Rightarrow> ([], reg)
      | Some entry \<Rightarrow>
          if 1 < th_subscribers entry then
            ([], reg\<lparr>tr_runs := bm_insert run_id (entry\<lparr>th_subscribers := th_subscribers entry - 1\<rparr>) (tr_runs reg)\<rparr>)
          else ([Tail_Aborted (th_task entry)], reg\<lparr>tr_runs := bm_remove run_id (tr_runs reg)\<rparr>))"

text \<open>A client of the event stream: the run has to exist.\<close>

definition events_subscribe ::
  "(string \<Rightarrow> bool) \<Rightarrow> string option \<Rightarrow> tail_registry \<Rightarrow> unit app_result \<times> tail_effect list \<times> tail_registry" where
  "events_subscribe contains_run run_id reg =
     (case run_id of
        None \<Rightarrow> (Inr (), [], reg)
      | Some rid \<Rightarrow>
          if \<not> contains_run rid then (Inl (Not_Found (''run '' @ rid @ '' not found'')), [], reg)
          else (case retain_run_log_tail rid reg of (effects, reg) \<Rightarrow> (Inr (), effects, reg)))"

text \<open>When the subscription is dropped, a task is spawned that releases the run later.\<close>

definition drop_log_tail_subscription :: "string option \<Rightarrow> string list \<Rightarrow> string list" where
  "drop_log_tail_subscription run_id releases = (case run_id of None \<Rightarrow> releases | Some rid \<Rightarrow> releases @ [rid])"

section \<open>Events of log lines\<close>

record log_event =
  lv_run_id :: string
  lv_service :: string
  lv_ts :: string
  lv_stream :: string
  lv_level :: string
  lv_message :: string
  lv_raw :: string
  lv_json :: "json option"
  lv_attributes :: "(string, string) bmap"

text \<open>\<open>tv_text\<close> is the text that valid bytes stand for.\<close>

record tail_world =
  tv_parse :: json_parser
  tv_text :: "bytes \<Rightarrow> string"

definition trim_end_line :: "string \<Rightarrow> string" where
  "trim_end_line s = rev (dropWhile (\<lambda>c. c = CHR 0x0D \<or> c = CHR 0x0A) (rev s))"

definition extract_log_json :: "json_parser \<Rightarrow> string \<Rightarrow> json option" where
  "extract_log_json parse line =
     (let trimmed = trim line in
      if \<not> starts_with trimmed ''{'' then None
      else Option.bind (parse trimmed) (\<lambda>v. case v of J_Obj m \<Rightarrow> Some (J_Obj m) | _ \<Rightarrow> None))"

definition normalize_log_attribute_name :: "string \<Rightarrow> string option" where
  "normalize_log_attribute_name field_name =
     (let normalized = trim_underscores (normalize_chars False field_name) in
      if normalized = [] then None else Some normalized)"

definition is_reserved_log_attribute :: "string \<Rightarrow> bool" where
  "is_reserved_log_attribute field_name \<longleftrightarrow>
     field_name \<in> {''time'', ''ts'', ''timestamp'', ''msg'', ''message'', ''level'', ''severity'', ''stream'', ''run_id'',
       ''service'', ''ts_nanos'', ''seq'', ''raw''}"

definition log_attribute_value_to_string :: "json \<Rightarrow> string option" where
  "log_attribute_value_to_string v =
     Option.bind (case v of
         J_Str s \<Rightarrow> Some s
       | J_Num n \<Rightarrow> Some (show_int n)
       | J_Bool b \<Rightarrow> Some (if b then ''true'' else ''false'')
       | _ \<Rightarrow> None) (\<lambda>text. if text = [] \<or> 256 < length text then None else Some text)"

fun collect_attributes :: "json_map \<Rightarrow> (string, string) bmap \<Rightarrow> (string, string) bmap" where
  "collect_attributes [] attributes = attributes"
| "collect_attributes ((field_name, v) # m) attributes =
     collect_attributes m
       (case normalize_log_attribute_name field_name of
          None \<Rightarrow> attributes
        | Some name \<Rightarrow>
            if is_reserved_log_attribute name then attributes
            else (case log_attribute_value_to_string v of
                    None \<Rightarrow> attributes
                  | Some text \<Rightarrow> bm_or_insert name text attributes))"

definition extract_log_attributes :: "json_parser \<Rightarrow> string \<Rightarrow> (string, string) bmap" where
  "extract_log_attributes parse line =
     (let trimmed = trim line in
      if \<not> starts_with trimmed ''{'' then []
      else (case parse trimmed of Some (J_Obj m) \<Rightarrow> collect_attributes m [] | _ \<Rightarrow> []))"

definition parse_log_tail_event :: "tail_world \<Rightarrow> string \<Rightarrow> string \<Rightarrow> string \<Rightarrow> log_event option" where
  "parse_log_tail_event tv run_id service raw_line =
     (let raw = strip_ansi_if_needed (trim_end_line raw_line) in
      if raw = [] then None
      else
        (let (stream, message) = extract_log_content (tv_parse tv) raw in
         Some \<lparr>lv_run_id = run_id, lv_service = service, lv_ts = unwrap_or (extract_timestamp_str (tv_parse tv) raw) [],
           lv_stream = stream, lv_level = classify_line_level (tv_parse tv) raw, lv_message = message, lv_raw = raw,
           lv_json = extract_log_json (tv_parse tv) raw, lv_attributes = extract_log_attributes (tv_parse tv) raw\<rparr>))"

definition events_of_bytes :: "tail_world \<Rightarrow> string \<Rightarrow> string \<Rightarrow> bytes \<Rightarrow> log_event list" where
  "events_of_bytes tv run_id service complete =
     List.map_filter (\<lambda>l. parse_log_tail_event tv run_id service (tv_text tv l)) (text_lines (from_utf8_lossy complete))"

text \<open>
  One reading of a file whose bytes are \<open>content\<close>: what follows the cursor up to the last newline. The
  name of the service is the stem of the path; the cursor has moved when there is none.
\<close>

definition read_new_log_events ::
  "tail_world \<Rightarrow> string \<Rightarrow> string option \<Rightarrow> bytes \<Rightarrow> nat \<Rightarrow> log_event list result \<times> nat" where
  "read_new_log_events tv run_id stem content offset0 =
     (let offset = (if length content < offset0 then 0 else offset0);
          buf = drop offset content in
      if newline \<notin> set buf then (Inr [], offset)
      else
        (let complete = take (complete_length buf) buf; offset1 = sat_add offset (complete_length buf) in
         (case stem of
            None \<Rightarrow> (Inl ''invalid log path'', offset1)
          | Some service \<Rightarrow> (Inr (events_of_bytes tv run_id service complete), offset1))))"

section \<open>The tail of a run\<close>

datatype notify_kind = Kind_Any | Kind_Create | Kind_Modify | Kind_Remove | Kind_Other

type_synonym cursors = "(string, nat) bmap"

text \<open>\<open>stem\<close> and \<open>is_log\<close> read a path, \<open>files\<close> gives the bytes of the files that exist.\<close>

record tail_dir =
  td_stem :: "string \<Rightarrow> string option"
  td_is_log :: "string \<Rightarrow> bool"

fun tail_paths ::
  "tail_world \<Rightarrow> tail_dir \<Rightarrow> string \<Rightarrow> (string \<Rightarrow> bytes option) \<Rightarrow> string list \<Rightarrow> cursors \<Rightarrow> log_event list \<times> cursors" where
  "tail_paths tv td run_id files [] cursors = ([], cursors)"
| "tail_paths tv td run_id files (path # paths) cursors =
     (if \<not> td_is_log td path then tail_paths tv td run_id files paths cursors
      else (case files path of
          None \<Rightarrow> tail_paths tv td run_id files paths (bm_remove path cursors)
        | Some content \<Rightarrow>
            (let (r, offset) = read_new_log_events tv run_id (td_stem td path) content (unwrap_or (map_of cursors path) 0);
                 (events, cursors1) = tail_paths tv td run_id files paths (bm_insert path offset cursors) in
             ((case r of Inr es \<Rightarrow> es | Inl _ \<Rightarrow> []) @ events, cursors1))))"

definition tail_notified ::
  "tail_world \<Rightarrow> tail_dir \<Rightarrow> string \<Rightarrow> (string \<Rightarrow> bytes option) \<Rightarrow> notify_kind \<Rightarrow> string list \<Rightarrow> cursors \<Rightarrow> log_event list \<times> cursors" where
  "tail_notified tv td run_id files kind paths cursors =
     (case kind of
        Kind_Remove \<Rightarrow> ([], foldl (\<lambda>m p. bm_remove p m) cursors paths)
      | Kind_Other \<Rightarrow> ([], cursors)
      | _ \<Rightarrow> tail_paths tv td run_id files paths cursors)"

fun tail_run_logs ::
  "tail_world \<Rightarrow> tail_dir \<Rightarrow> string \<Rightarrow> ((string \<Rightarrow> bytes option) \<times> (notify_kind \<times> string list)) list \<Rightarrow> cursors \<Rightarrow> log_event list" where
  "tail_run_logs tv td run_id [] cursors = []"
| "tail_run_logs tv td run_id ((files, kind, paths) # notified) cursors =
     (let (events, cursors1) = tail_notified tv td run_id files kind paths cursors in
      events @ tail_run_logs tv td run_id notified cursors1)"

text \<open>At the start every log of the directory is at its end.\<close>

definition initial_log_tail_cursors :: "tail_dir \<Rightarrow> (string \<Rightarrow> bytes option) \<Rightarrow> string list \<Rightarrow> cursors" where
  "initial_log_tail_cursors td files entries =
     foldl (\<lambda>m path. if td_is_log td path then bm_insert path (case files path of Some c \<Rightarrow> length c | None \<Rightarrow> 0) m else m)
       [] entries"

definition is_tailed_log_path :: "string \<Rightarrow> bool" where
  "is_tailed_log_path path =
     (case path_file_name path of
        None \<Rightarrow> False
      | Some name \<Rightarrow> ends_with name ''.log'' \<and> name \<noteq> ''.log'')"

section \<open>Printing lines\<close>

record structured_log_line =
  sl_timestamp :: "string option"
  sl_service :: string
  sl_stream :: string
  sl_level :: "string option"
  sl_message :: string
  sl_attributes :: "(string, string) bmap"

datatype log_output_format = Format_Text | Format_Json

text \<open>What is printed: a text, or a structure written as JSON.\<close>

datatype rendered_line = Plain_Line string | Json_Line structured_log_line

definition normalize_level :: "string option \<Rightarrow> string \<Rightarrow> string option" where
  "normalize_level level message =
     (let from_message = (let found = detect_log_level message in
            if found = ''error'' then Some ''error'' else if found = ''warn'' then Some ''warn'' else None) in
      case level of
        None \<Rightarrow> from_message
      | Some level \<Rightarrow>
          (let lower = map to_ascii_lowercase (trim level) in
           if lower = ''info'' \<or> lower = [] then from_message else Some lower))"

definition structured_log_from_raw :: "json_parser \<Rightarrow> string \<Rightarrow> string \<Rightarrow> structured_log_line" where
  "structured_log_from_raw parse service line =
     (let clean = strip_ansi_if_needed line; (stream, message) = extract_log_content parse clean in
      \<lparr>sl_timestamp = extract_timestamp_str parse clean, sl_service = service, sl_stream = stream,
       sl_level = normalize_level (Some (classify_line_level parse clean)) message, sl_message = message, sl_attributes = []\<rparr>)"

definition structured_log_from_entry :: "log_entry \<Rightarrow> structured_log_line" where
  "structured_log_from_entry entry =
     (let message = strip_ansi_if_needed (le_message entry) in
      \<lparr>sl_timestamp = (if trim (le_ts entry) = [] then None else Some (le_ts entry)), sl_service = le_service entry,
       sl_stream = (if le_stream entry = [] then ''stdout'' else le_stream entry),
       sl_level = normalize_level (Some (le_level entry)) message, sl_message = message,
       sl_attributes = le_attributes entry\<rparr>)"

definition render_log_entry :: "log_entry \<Rightarrow> log_output_format \<Rightarrow> bool \<Rightarrow> rendered_line option" where
  "render_log_entry entry format no_health =
     (if no_health \<and> is_health_check_message (le_message entry) then None
      else Some (case format of
          Format_Text \<Rightarrow> Plain_Line (''['' @ le_service entry @ ''] '' @ le_raw entry)
        | Format_Json \<Rightarrow> Json_Line (structured_log_from_entry entry)))"

definition render_log_line :: "json_parser \<Rightarrow> string \<Rightarrow> string \<Rightarrow> log_output_format \<Rightarrow> bool \<Rightarrow> rendered_line option" where
  "render_log_line parse service line format no_health =
     (if no_health \<and> is_health_check_line parse line then None
      else Some (case format of
          Format_Text \<Rightarrow> Plain_Line line
        | Format_Json \<Rightarrow> Json_Line (structured_log_from_raw parse service line)))"

section \<open>Following a file\<close>

text \<open>The lines that a reading prints, before they are rendered, and the offset after it.\<close>

definition read_new_lines :: "bytes \<Rightarrow> nat \<Rightarrow> bytes list \<times> nat" where
  "read_new_lines content offset =
     (if length content < offset then ([], length content)
      else if length content = offset then ([], offset)
      else (text_lines (from_utf8_lossy (drop offset content)), length content))"

fun follow_file :: "bytes list \<Rightarrow> nat \<Rightarrow> bytes list" where
  "follow_file [] offset = []"
| "follow_file (content # contents) offset =
     (let (lines, offset1) = read_new_lines content offset in lines @ follow_file contents offset1)"

text \<open>
  The lines printed of a file whose bytes are first \<open>content\<close> and then, at each reading, those of
  \<open>contents\<close>. A file that is not valid UTF-8 counts as an empty text.
\<close>

definition stream_logs :: "bytes option \<Rightarrow> nat option \<Rightarrow> bool \<Rightarrow> bytes list \<Rightarrow> bytes list result" where
  "stream_logs file_content tail follow contents =
     (case file_content of
        None \<Rightarrow> Inl ''log file not found''
      | Some bytes0 \<Rightarrow>
          (let content = (if utf8_valid bytes0 then bytes0 else []);
               lines = text_lines content;
               start = (case tail of None \<Rightarrow> 0 | Some n \<Rightarrow> length lines - n) in
           Inr (drop start lines @ (if follow then follow_file contents (length content) else []))))"

section \<open>Subscriptions and tasks\<close>

text \<open>
  The open subscriptions, the releases that are still to run, the tasks whose handle was taken out of the
  registry but not aborted yet, and the tasks that run, next to the registry. \<open>ts_ended\<close> has the tasks that
  ended by themselves, with an error: their handle stays in the registry. Retaining and releasing hold the lock
  of the registry; the abort comes after the lock is released.
\<close>

record tail_system =
  ts_registry :: tail_registry
  ts_open :: "string list"
  ts_releases :: "string list"
  ts_aborting :: "nat set"
  ts_running :: "nat set"
  ts_ended :: "nat set"

definition started_tasks :: "tail_effect list \<Rightarrow> nat set" where
  "started_tasks effects = {t. Tail_Started t \<in> set effects}"

definition aborted_tasks :: "tail_effect list \<Rightarrow> nat set" where
  "aborted_tasks effects = {t. Tail_Aborted t \<in> set effects}"

inductive tail_step :: "tail_system \<Rightarrow> tail_system \<Rightarrow> bool" where
  Step_Subscribe: "events_subscribe contains_run (Some rid) (ts_registry ts) = (Inr (), effects, reg) \<Longrightarrow>
    tail_step ts (ts\<lparr>ts_registry := reg, ts_open := rid # ts_open ts, ts_running := ts_running ts \<union> started_tasks effects\<rparr>)"
| Step_Leave: "rid \<in> set (ts_open ts) \<Longrightarrow>
    tail_step ts (ts\<lparr>ts_open := remove1 rid (ts_open ts), ts_releases := drop_log_tail_subscription (Some rid) (ts_releases ts)\<rparr>)"
| Step_Release: "rid \<in> set (ts_releases ts) \<Longrightarrow> release_run_log_tail rid (ts_registry ts) = (effects, reg) \<Longrightarrow>
    tail_step ts (ts\<lparr>ts_registry := reg, ts_releases := remove1 rid (ts_releases ts),
      ts_aborting := ts_aborting ts \<union> aborted_tasks effects\<rparr>)"
| Step_Abort: "t \<in> ts_aborting ts \<Longrightarrow>
    tail_step ts (ts\<lparr>ts_aborting := ts_aborting ts - {t}, ts_running := ts_running ts - {t}\<rparr>)"
| Step_End: "t \<in> ts_running ts \<Longrightarrow>
    tail_step ts (ts\<lparr>ts_running := ts_running ts - {t}, ts_ended := insert t (ts_ended ts)\<rparr>)"

inductive tail_reachable :: "tail_system \<Rightarrow> bool" where
  Tail_Start: "tail_reachable \<lparr>ts_registry = \<lparr>tr_runs = [], tr_next = 0\<rparr>, ts_open = [], ts_releases = [], ts_aborting = {},
    ts_running = {}, ts_ended = {}\<rparr>"
| Tail_Step: "tail_reachable ts \<Longrightarrow> tail_step ts ts' \<Longrightarrow> tail_reachable ts'"

definition subscribed :: "tail_registry \<Rightarrow> string \<Rightarrow> nat" where
  "subscribed reg rid = (case map_of (tr_runs reg) rid of None \<Rightarrow> 0 | Some h \<Rightarrow> th_subscribers h)"

definition task_of :: "tail_registry \<Rightarrow> string \<Rightarrow> nat option" where
  "task_of reg rid = map_option th_task (map_of (tr_runs reg) rid)"

text \<open>The subscriptions of a run that the registry has to count.\<close>

definition counted :: "tail_system \<Rightarrow> string list" where
  "counted ts = ts_open ts @ ts_releases ts"

definition tail_inv :: "tail_system \<Rightarrow> bool" where
  "tail_inv ts \<longleftrightarrow>
     (\<forall>rid. subscribed (ts_registry ts) rid = count_list (counted ts) rid) \<and>
     (\<forall>rid. task_of (ts_registry ts) rid \<noteq> None \<longleftrightarrow> rid \<in> set (counted ts)) \<and>
     (\<forall>t \<in> ts_running ts. t \<in> ts_aborting ts \<or> t \<in> ran (task_of (ts_registry ts))) \<and>
     (\<forall>t \<in> ran (task_of (ts_registry ts)). t \<in> ts_running ts \<or> t \<in> ts_ended ts) \<and>
     (\<forall>t \<in> ran (task_of (ts_registry ts)). t \<notin> ts_aborting ts) \<and>
     inj_on (task_of (ts_registry ts)) (dom (task_of (ts_registry ts))) \<and>
     (\<forall>t \<in> ran (task_of (ts_registry ts)) \<union> ts_aborting ts \<union> ts_running ts. t < tr_next (ts_registry ts))"

lemma retain_effect:
  assumes "retain_run_log_tail rid reg = (effects, reg')"
  shows "(case task_of reg rid of
      Some t \<Rightarrow> effects = [] \<and> task_of reg' = task_of reg \<and> tr_next reg' = tr_next reg
    | None \<Rightarrow> effects = [Tail_Started (tr_next reg)] \<and> task_of reg' = (task_of reg)(rid \<mapsto> tr_next reg) \<and>
        tr_next reg' = Suc (tr_next reg)) \<and>
    subscribed reg' = (subscribed reg)(rid := Suc (subscribed reg rid))"
  using assms by (auto simp: retain_run_log_tail_def task_of_def subscribed_def fun_eq_iff split: option.splits)

lemma release_effect:
  assumes "release_run_log_tail rid reg = (effects, reg')" and "task_of reg rid = Some t"
  shows "(if 1 < subscribed reg rid then effects = [] \<and> task_of reg' = task_of reg
      else effects = [Tail_Aborted t] \<and> task_of reg' = (task_of reg)(rid := None)) \<and>
    subscribed reg' = (subscribed reg)(rid := subscribed reg rid - 1) \<and> tr_next reg' = tr_next reg"
  using assms by (auto simp: release_run_log_tail_def task_of_def subscribed_def fun_eq_iff split: option.splits if_splits)

lemma count_list_remove1: "count_list (remove1 x xs) y = (if x = y then count_list xs y - 1 else count_list xs y)"
  by (induction xs) auto

lemma count_list_pos: "0 < count_list xs x \<longleftrightarrow> x \<in> set xs"
  by (induction xs) auto

lemma inj_fresh: "inj_on m (dom m) \<Longrightarrow> t \<notin> ran m \<Longrightarrow> inj_on (m(k \<mapsto> t)) (dom (m(k \<mapsto> t)))"
  by (auto simp: inj_on_def ran_def)

lemma ran_without:
  assumes "inj_on m (dom m)" and "m k = Some t"
  shows "ran (m(k := None)) = ran m - {t}"
proof -
  have "a \<noteq> k" if "m a = Some x" "x \<noteq> t" for a x using that assms(2) by auto
  moreover have "a = k" if "m a = Some t" for a using inj_onD [OF assms(1), of a k] assms(2) that by auto
  ultimately show ?thesis by (auto simp: ran_def)
qed

lemma tail_inv_subscribe:
  assumes inv: "tail_inv ts" and "retain_run_log_tail rid (ts_registry ts) = (effects, reg)"
  shows "tail_inv (ts\<lparr>ts_registry := reg, ts_open := rid # ts_open ts, ts_running := ts_running ts \<union> started_tasks effects\<rparr>)"
proof (cases "task_of (ts_registry ts) rid")
  case None
  let ?next = "tr_next (ts_registry ts)" let ?m = "task_of (ts_registry ts)"
  note r = retain_effect [OF assms(2), unfolded None option.case]
  have old: "?next \<notin> ran ?m" "?next \<notin> ts_aborting ts" "inj_on ?m (dom ?m)" using inv by (auto simp: tail_inv_def)
  have ran: "ran (task_of reg) = insert ?next (ran ?m)" using r None by (simp add: ran_map_upd)
  have "inj_on (task_of reg) (dom (task_of reg))" using r inj_fresh [OF old(3,1)] by simp
  moreover have "started_tasks effects = {?next}" using r by (simp add: started_tasks_def)
  ultimately show ?thesis using inv r old ran None by (auto simp: tail_inv_def counted_def less_Suc_eq)
next
  case (Some t)
  note r = retain_effect [OF assms(2), unfolded Some option.case]
  have "rid \<in> set (counted ts)" using inv Some by (auto simp: tail_inv_def)
  then show ?thesis using inv r by (auto simp: tail_inv_def counted_def started_tasks_def)
qed

lemma tail_inv_leave:
  assumes "tail_inv ts" and "rid \<in> set (ts_open ts)"
  shows "tail_inv (ts\<lparr>ts_open := remove1 rid (ts_open ts), ts_releases := ts_releases ts @ [rid]\<rparr>)"
proof -
  let ?ts = "ts\<lparr>ts_open := remove1 rid (ts_open ts), ts_releases := ts_releases ts @ [rid]\<rparr>"
  have "count_list (counted ?ts) x = count_list (counted ts) x" for x
    using assms(2) count_list_pos [of "ts_open ts" rid] by (auto simp: counted_def count_list_remove1)
  moreover have "x \<in> set (counted ?ts) \<longleftrightarrow> x \<in> set (counted ts)" for x
    using calculation count_list_pos by metis
  ultimately show ?thesis using assms(1) by (simp add: tail_inv_def)
qed

lemma tail_inv_release:
  assumes inv: "tail_inv ts" and "rid \<in> set (ts_releases ts)" and "release_run_log_tail rid (ts_registry ts) = (effects, reg)"
  shows "tail_inv (ts\<lparr>ts_registry := reg, ts_releases := remove1 rid (ts_releases ts),
      ts_aborting := ts_aborting ts \<union> aborted_tasks effects\<rparr>)"
proof -
  let ?ts = "ts\<lparr>ts_registry := reg, ts_releases := remove1 rid (ts_releases ts),
      ts_aborting := ts_aborting ts \<union> aborted_tasks effects\<rparr>"
  let ?m = "task_of (ts_registry ts)"
  obtain t where t: "?m rid = Some t" using inv assms(2) by (fastforce simp: tail_inv_def counted_def)
  note r = release_effect [OF assms(3) t]
  have inj: "inj_on ?m (dom ?m)" and count: "subscribed (ts_registry ts) x = count_list (counted ts) x" for x
    using inv by (simp_all add: tail_inv_def)
  have less: "count_list (counted ?ts) x = (if x = rid then count_list (counted ts) x - 1 else count_list (counted ts) x)" for x
    using assms(2) count_list_pos [of "ts_releases ts" rid] by (auto simp: counted_def count_list_remove1)
  have still: "x \<in> set (counted ?ts) \<longleftrightarrow> (if x = rid then 1 < subscribed (ts_registry ts) rid else x \<in> set (counted ts))" for x
    using count_list_pos [of "counted ?ts" x] count_list_pos [of "counted ts" x] less [of x] count [of x] by auto
  show ?thesis
  proof (cases "1 < subscribed (ts_registry ts) rid")
    case True
    then show ?thesis using inv r still less by (auto simp: tail_inv_def aborted_tasks_def)
  next
    case False
    have parts: "aborted_tasks effects = {t}" "task_of reg = ?m(rid := None)"
      "subscribed reg = (subscribed (ts_registry ts))(rid := subscribed (ts_registry ts) rid - 1)"
      "tr_next reg = tr_next (ts_registry ts)" "ran (task_of reg) = ran ?m - {t}"
      using r False ran_without [OF inj t] by (simp_all add: aborted_tasks_def)
    have "t \<in> ran ?m" using t by (auto simp: ran_def)
    moreover have "inj_on (task_of reg) (dom (task_of reg))" using inj by (auto simp: parts(2) inj_on_def)
    ultimately show ?thesis
      using inv still less False by (auto simp: tail_inv_def parts ran_without [OF inj t])
  qed
qed

lemma tail_inv_reachable: "tail_reachable ts \<Longrightarrow> tail_inv ts"
proof (induction rule: tail_reachable.induct)
  case Tail_Start
  have "task_of \<lparr>tr_runs = [], tr_next = 0\<rparr> = (\<lambda>_. None)" by (simp add: task_of_def fun_eq_iff)
  then show ?case by (simp add: tail_inv_def subscribed_def counted_def)
next
  case (Tail_Step ts ts')
  from Tail_Step.hyps(2) show ?case
  proof cases
    case (Step_Subscribe contains_run rid effects reg)
    then show ?thesis
      using tail_inv_subscribe [OF Tail_Step.IH] by (auto simp: events_subscribe_def split: if_splits prod.splits)
  next
    case (Step_Leave rid)
    then show ?thesis using tail_inv_leave [OF Tail_Step.IH] by (simp add: drop_log_tail_subscription_def)
  next
    case (Step_Release rid effects reg)
    then show ?thesis using tail_inv_release [OF Tail_Step.IH] by simp
  next
    case (Step_Abort t)
    then show ?thesis using Tail_Step.IH by (auto simp: tail_inv_def counted_def)
  next
    case (Step_End t)
    then show ?thesis using Tail_Step.IH by (auto simp: tail_inv_def counted_def)
  qed
qed

lemma one_run_per_task:
  assumes "tail_inv ts" and "t \<in> ran (task_of (ts_registry ts))"
  shows "\<exists>!rid. task_of (ts_registry ts) rid = Some t"
proof -
  have inj: "inj_on (task_of (ts_registry ts)) (dom (task_of (ts_registry ts)))" using assms(1) by (simp add: tail_inv_def)
  obtain rid where rid: "task_of (ts_registry ts) rid = Some t" using assms(2) by (auto simp: ran_def)
  show ?thesis
    by (rule ex1I [of _ rid]) (use rid inj_onD [OF inj, of _ rid] in auto)
qed

text \<open>
  C37. In every state that subscribing, leaving, the releases that run later, the aborts after them and tasks that
  end by themselves lead to: the registry counts, for each run, the subscriptions that are open or not yet
  released; it holds one task for a run as long as there are any, and this task runs unless it ended by itself;
  and every running task is the one task of one run or about to be aborted.
\<close>

theorem tail_runs_while_subscribed:
  assumes "tail_reachable ts"
  shows "subscribed (ts_registry ts) rid = count_list (ts_open ts) rid + count_list (ts_releases ts) rid \<and>
    (rid \<in> set (ts_open ts) \<union> set (ts_releases ts) \<longrightarrow>
       (\<exists>t. task_of (ts_registry ts) rid = Some t \<and> (t \<in> ts_running ts \<or> t \<in> ts_ended ts) \<and> t \<notin> ts_aborting ts)) \<and>
    (rid \<notin> set (ts_open ts) \<union> set (ts_releases ts) \<longrightarrow> task_of (ts_registry ts) rid = None) \<and>
    (\<forall>t \<in> ts_running ts. t \<in> ts_aborting ts \<or> (\<exists>!rid. task_of (ts_registry ts) rid = Some t))"
proof -
  note inv = tail_inv_reachable [OF assms]
  have "subscribed (ts_registry ts) rid = count_list (ts_open ts) rid + count_list (ts_releases ts) rid"
    and entry: "task_of (ts_registry ts) rid \<noteq> None \<longleftrightarrow> rid \<in> set (ts_open ts) \<union> set (ts_releases ts)"
    using inv by (simp_all add: tail_inv_def counted_def)
  moreover have "(t \<in> ts_running ts \<or> t \<in> ts_ended ts) \<and> t \<notin> ts_aborting ts" if "task_of (ts_registry ts) rid = Some t" for t
    using inv that by (auto simp: tail_inv_def ran_def)
  moreover have "t \<in> ts_aborting ts \<or> (\<exists>!rid. task_of (ts_registry ts) rid = Some t)" if "t \<in> ts_running ts" for t
  proof -
    have "t \<in> ts_aborting ts \<or> t \<in> ran (task_of (ts_registry ts))" using inv that by (simp add: tail_inv_def)
    then show ?thesis using one_run_per_task [OF inv] by blast
  qed
  ultimately show ?thesis by auto
qed

text \<open>Two clients, of which one leaves; its release is still to run.\<close>

theorem tail_runs_while_subscribed_witness:
  "\<exists>ts. tail_reachable ts \<and> ts_open ts = [''r1''] \<and> ts_releases ts = [''r1''] \<and> subscribed (ts_registry ts) ''r1'' = 2 \<and>
     (\<exists>t. task_of (ts_registry ts) ''r1'' = Some t \<and> (t \<in> ts_running ts \<or> t \<in> ts_ended ts))"
proof -
  let ?ts = "\<lambda>runs n opened releases running. \<lparr>ts_registry = \<lparr>tr_runs = runs, tr_next = n\<rparr>, ts_open = opened, ts_releases = releases,
    ts_aborting = {}, ts_running = running, ts_ended = {}\<rparr>"
  let ?one = "?ts [(''r1'', \<lparr>th_subscribers = 1, th_task = 0\<rparr>)] 1 [''r1''] [] {0}"
  let ?two = "?ts [(''r1'', \<lparr>th_subscribers = 2, th_task = 0\<rparr>)] 1 [''r1'', ''r1''] [] {0}"
  let ?left = "?ts [(''r1'', \<lparr>th_subscribers = 2, th_task = 0\<rparr>)] 1 [''r1''] [''r1''] {0}"
  have "tail_step (?ts [] 0 [] [] {}) ?one"
    using Step_Subscribe [of "\<lambda>_. True" "''r1''" "?ts [] 0 [] [] {}" "[Tail_Started 0]" "ts_registry ?one"]
    by (simp add: events_subscribe_def retain_run_log_tail_def started_tasks_def)
  moreover have "tail_step ?one ?two"
    using Step_Subscribe [of "\<lambda>_. True" "''r1''" ?one "[]" "ts_registry ?two"]
    by (simp add: events_subscribe_def retain_run_log_tail_def started_tasks_def)
  moreover have "tail_step ?two ?left"
    using Step_Leave [of "''r1''" ?two] by (simp add: drop_log_tail_subscription_def)
  ultimately have "tail_reachable ?left" by (meson Tail_Start Tail_Step)
  from tail_runs_while_subscribed [OF this, of "''r1''"] this show ?thesis
    by (intro exI [of _ ?left]) auto
qed

text \<open>
  A task that has failed stays in the registry: a client that joins the others does not start it again, and
  gets no lines of the run until all have left.
\<close>

lemma failed_tail_not_restarted:
  "task_of reg rid = Some t \<Longrightarrow> fst (retain_run_log_tail rid reg) = []"
  by (auto simp: retain_run_log_tail_def task_of_def)

section \<open>Lines are emitted once\<close>

lemma newline_first: "utf8_first (newline # q) = Some 1"
  by (simp add: sequence_length_def)

lemma fitting_short:
  assumes "rest \<noteq> []" and "last rest = newline"
  shows "fitting b rest < length rest"
proof -
  have "fitting b rest \<noteq> length rest"
  proof
    assume full: "fitting b rest = length rest"
    then have "0x80 \<le> rest ! (length rest - 1)" using assms(1) by (intro fitting_high [of _ b]) simp
    moreover have "rest ! (length rest - 1) = newline" using assms by (simp add: last_conv_nth)
    ultimately show False by simp
  qed
  then show ?thesis using fitting_bound [of b rest] by simp
qed

lemma fitting_ends_line:
  assumes "rest \<noteq> []" and "last rest = newline"
  shows "fitting b (rest @ q) = fitting b rest"
proof -
  note less = fitting_short [OF assms, of b]
  then have "fitting b rest \<le> fitting b (rest @ q)" using fitting_append_left [of "fitting b rest" rest b q] by simp
  moreover have "\<not> Suc (fitting b rest) \<le> fitting b (rest @ q)"
    using fitting_append_left [of "Suc (fitting b rest)" rest b q] less by simp
  ultimately show ?thesis by simp
qed

text \<open>Text up to a newline is decoded the same whatever follows, valid or not.\<close>

lemma lossy_ends_line: "ends_line p \<Longrightarrow> from_utf8_lossy (p @ q) = from_utf8_lossy p @ from_utf8_lossy q"
proof (induction "length p" arbitrary: p rule: less_induct)
  case less
  show ?case
  proof (cases p)
    case Nil
    then show ?thesis by (simp add: from_utf8_lossy.simps)
  next
    case (Cons b rest)
    have rest: "ends_line (drop n p)" for n
      using less.prems by (cases "n < length p") (auto simp: ends_line_def last_drop)
    have same: "utf8_first (p @ q) = utf8_first p \<and> (utf8_first p = None \<longrightarrow> utf8_invalid (p @ q) = utf8_invalid p \<and> utf8_invalid p \<le> length p)"
    proof (cases "rest = []")
      case True
      then have "p = [newline]" using Cons less.prems by (simp add: ends_line_def)
      then show ?thesis by (simp add: sequence_length_def)
    next
      case False
      then have "fitting b (rest @ q) = fitting b rest"
        using fitting_ends_line less.prems Cons by (simp add: ends_line_def)
      then show ?thesis using Cons fitting_bound [of b rest] by simp
    qed
    have ne: "p \<noteq> []" "p @ q \<noteq> []" using Cons by simp_all
    have step: "from_utf8_lossy (drop n p @ q) = from_utf8_lossy (drop n p) @ from_utf8_lossy q" if "0 < n" for n
      by (rule less.hyps [OF _ rest]) (use ne that in simp)
    show ?thesis
    proof (cases "utf8_first p")
      case None
      have n: "utf8_invalid p \<le> length p" "utf8_invalid (p @ q) = utf8_invalid p" "utf8_first (p @ q) = None"
        using same None by auto
      show ?thesis
        unfolding from_utf8_lossy.simps [of p] from_utf8_lossy.simps [of "p @ q"]
        using step [OF utf8_invalid_pos [OF ne(1)]] None n ne by (simp del: utf8_invalid.simps utf8_first.simps)
    next
      case (Some n)
      have n: "n \<le> length p" "0 < n" using utf8_first_bounds [OF Some] by auto
      show ?thesis
        unfolding from_utf8_lossy.simps [of p] from_utf8_lossy.simps [of "p @ q"]
        using step [OF n(2)] Some same n ne by (simp del: utf8_invalid.simps utf8_first.simps)
    qed
  qed
qed

lemma lossy_last: "p \<noteq> [] \<Longrightarrow> last p = newline \<Longrightarrow> \<exists>x. from_utf8_lossy p = x @ [newline]"
proof (induction "length p" arbitrary: p rule: less_induct)
  case less
  obtain b rest where p: "p = b # rest" using less.prems(1) by (cases p) auto
  show ?case
  proof (cases "utf8_first p")
    case None
    let ?n = "utf8_invalid p"
    have "rest \<noteq> []" using None less.prems(2) p by (auto simp: sequence_length_def)
    then have n: "0 < ?n" "?n < length p" using fitting_short [of rest b] less.prems(2) p by auto
    then have "\<exists>x. from_utf8_lossy (drop ?n p) = x @ [newline]" using less.prems by (intro less.hyps) (auto simp: last_drop)
    then show ?thesis
      unfolding from_utf8_lossy.simps [of p] using None less.prems(1) by (auto simp del: utf8_invalid.simps utf8_first.simps)
  next
    case (Some n)
    have n: "n \<le> length p" "0 < n" using utf8_first_bounds [OF Some] by auto
    show ?thesis
    proof (cases "n = length p")
      case True
      then have "from_utf8_lossy p = p"
        using Some less.prems(1) by (simp add: from_utf8_lossy.simps [of p] from_utf8_lossy.simps [of "[]"])
      then show ?thesis using less.prems by (metis append_butlast_last_id)
    next
      case False
      then have "\<exists>x. from_utf8_lossy (drop n p) = x @ [newline]" using less.prems n by (intro less.hyps) (auto simp: last_drop)
      then show ?thesis using Some less.prems(1) by (auto simp: from_utf8_lossy.simps [of p])
    qed
  qed
qed

lemma lossy_keeps_end: "ends_line p \<Longrightarrow> ends_line (from_utf8_lossy p)"
  using lossy_last [of p] by (cases "p = []") (auto simp: ends_line_def from_utf8_lossy.simps [of "[]"])

declare map_filter_append [simp]

lemma events_of_bytes_append:
  "ends_line p \<Longrightarrow> events_of_bytes tv run_id service (p @ q) = events_of_bytes tv run_id service p @ events_of_bytes tv run_id service q"
  by (simp add: events_of_bytes_def lossy_ends_line text_lines_append lossy_keeps_end)

lemma events_of_nothing [simp]: "events_of_bytes tv run_id service [] = []"
  by (simp add: events_of_bytes_def from_utf8_lossy.simps [of "[]"] text_lines_def List.map_filter_def)

text \<open>The readings of one file, each seeing the bytes it then has.\<close>

fun readings :: "tail_world \<Rightarrow> string \<Rightarrow> string \<Rightarrow> bytes list \<Rightarrow> nat \<Rightarrow> log_event list" where
  "readings tv run_id service [] offset = []"
| "readings tv run_id service (content # contents) offset =
     (case read_new_log_events tv run_id (Some service) content offset of
        (r, offset1) \<Rightarrow> (case r of Inr es \<Rightarrow> es | Inl _ \<Rightarrow> []) @ readings tv run_id service contents offset1)"

fun grown :: "bytes \<Rightarrow> bytes list \<Rightarrow> bool" where
  "grown c [] = True"
| "grown c (d # ds) = (take (length c) d = c \<and> grown d ds)"

lemma complete_part_after: "ends_line p \<Longrightarrow> complete_part (p @ q) = p @ complete_part q"
  by (auto simp: complete_part_append ends_line_complete complete_part_none)

lemma complete_part_split: "bs = complete_part bs @ drop (length (complete_part bs)) bs"
  using complete_length_le [of bs] by (simp add: complete_part_def)

lemma complete_part_grows:
  assumes "take (length c) d = c"
  shows "complete_part d = complete_part c @ complete_part (drop (length (complete_part c)) d)"
proof -
  obtain t where "d = c @ t" using assms by (metis append_take_drop_id)
  then have "d = complete_part c @ drop (length (complete_part c)) d"
    using complete_part_split [of c] complete_length_le [of c] by (metis append.assoc append_eq_conv_conj)
  then show ?thesis using complete_part_after [OF ends_complete] by metis
qed

lemma grown_complete: "grown d ds \<Longrightarrow> \<exists>t. complete_part (last (d # ds)) = complete_part d @ t"
proof (induction ds arbitrary: d)
  case (Cons e ds)
  then obtain t where "complete_part (last (e # ds)) = complete_part e @ t" by auto
  moreover obtain u where "complete_part e = complete_part d @ u" using complete_part_grows Cons.prems by auto
  ultimately show ?case by auto
qed simp

lemma complete_part_length: "length (complete_part bs) = complete_length bs"
  by (simp add: complete_part_def complete_length_le)

lemma complete_part_dropped:
  assumes "n \<le> length d" and "newline \<in> set (drop n d)"
  shows "complete_part (drop n d) = drop n (complete_part d) \<and> length (complete_part d) = n + length (complete_part (drop n d))"
proof -
  have "complete_part (take n d @ drop n d) = take n d @ complete_part (drop n d)"
    using assms(2) by (simp only: complete_part_append if_True)
  then have "complete_part d = take n d @ complete_part (drop n d)" by simp
  then show ?thesis using assms(1) by simp
qed

lemma complete_part_before:
  assumes "newline \<notin> set (drop n d)"
  shows "length (complete_part d) \<le> n"
proof -
  have "complete_part d = complete_part (take n d)"
    using assms complete_part_append [of "take n d" "drop n d"] by simp
  then show ?thesis using complete_length_le [of "take n d"] by (simp add: complete_part_length)
qed

lemma read_between:
  assumes "n \<le> length d" and "length d < 2 ^ 64"
  shows "read_new_log_events tv run_id (Some service) d n =
    (if newline \<in> set (drop n d) then (Inr (events_of_bytes tv run_id service (drop n (complete_part d))), length (complete_part d))
     else (Inr [], n))"
proof (cases "newline \<in> set (drop n d)")
  case True
  note part = complete_part_dropped [OF assms(1) True]
  have "sat_add n (complete_length (drop n d)) = length (complete_part d)"
    using part complete_length_le [of d] assms(2) by (simp add: sat_add_def complete_part_length)
  moreover have "take (complete_length (drop n d)) (drop n d) = drop n (complete_part d)"
    using part by (simp add: complete_part_def)
  ultimately show ?thesis using True assms(1) by (simp add: read_new_log_events_def Let_def)
qed (use assms(1) in \<open>simp add: read_new_log_events_def\<close>)

text \<open>From an offset after the last complete line, also within a line.\<close>

lemma readings_from:
  assumes "grown c contents" and "length (complete_part c) \<le> n" and "n \<le> length c"
    and "list_all (\<lambda>d. length d < 2 ^ 64) contents"
  shows "readings tv run_id service contents n =
    events_of_bytes tv run_id service (drop n (complete_part (last (c # contents))))"
  using assms
proof (induction contents arbitrary: c n)
  case (Cons d ds)
  have d: "take (length c) d = c" "length d < 2 ^ 64" "grown d ds" using Cons.prems by auto
  have "length c \<le> length d" using d(1) by (metis nat_le_linear take_all)
  then have n: "n \<le> length d" using Cons.prems(3) by simp
  obtain t where t: "complete_part (last (d # ds)) = complete_part d @ t" using grown_complete [OF d(3)] by blast
  show ?case
  proof (cases "newline \<in> set (drop n d)")
    case False
    then show ?thesis
      using Cons.IH [OF d(3) complete_part_before [OF False] n] Cons.prems(4) by (simp add: read_between [OF n d(2)])
  next
    case True
    note part = complete_part_dropped [OF n True]
    have line: "ends_line (drop n (complete_part d))" unfolding part [THEN conjunct1, symmetric] by (rule ends_complete)
    have le: "n \<le> length (complete_part d)" using part by linarith
    have "readings tv run_id service ds (length (complete_part d)) =
        events_of_bytes tv run_id service (drop (length (complete_part d)) (complete_part (last (d # ds))))"
      by (rule Cons.IH [OF d(3) order.refl]) (use Cons.prems(4) complete_length_le [of d] in \<open>simp_all add: complete_part_length\<close>)
    then have rest: "readings tv run_id service ds (length (complete_part d)) = events_of_bytes tv run_id service t"
      by (simp only: t) simp
    have whole: "drop n (complete_part (last (c # d # ds))) = drop n (complete_part d) @ t"
      using t le by simp
    show ?thesis
      unfolding readings.simps read_between [OF n d(2)] whole events_of_bytes_append [OF line]
      using True by (simp add: rest)
  qed
qed simp

text \<open>What an event says of its line.\<close>

lemma parse_event_fields:
  "parse_log_tail_event tv run_id service line = Some e \<Longrightarrow>
     lv_raw e = strip_ansi_if_needed (trim_end_line line) \<and> lv_run_id e = run_id \<and> lv_service e = service \<and>
     (lv_stream e, lv_message e) = extract_log_content (tv_parse tv) (lv_raw e) \<and>
     lv_level e = classify_line_level (tv_parse tv) (lv_raw e)"
  by (auto simp: parse_log_tail_event_def Let_def split: if_splits prod.splits)

lemma event_texts:
  "map lv_raw (List.map_filter (\<lambda>l. parse_log_tail_event tv run_id service (f l)) ls) =
     filter (\<lambda>text. text \<noteq> []) (map (\<lambda>l. strip_ansi_if_needed (trim_end_line (f l))) ls)"
  by (induction ls) (auto simp: List.map_filter_simps parse_log_tail_event_def Let_def split: prod.split)

lemma events_of_bytes_facts:
  "map lv_raw (events_of_bytes tv run_id service bs) =
     filter (\<lambda>text. text \<noteq> []) (map (\<lambda>l. strip_ansi_if_needed (trim_end_line (tv_text tv l))) (text_lines (from_utf8_lossy bs)))"
  "e \<in> set (events_of_bytes tv run_id service bs) \<Longrightarrow>
     lv_run_id e = run_id \<and> lv_service e = service \<and>
     (lv_stream e, lv_message e) = extract_log_content (tv_parse tv) (lv_raw e) \<and>
     lv_level e = classify_line_level (tv_parse tv) (lv_raw e)"
proof -
  show "map lv_raw (events_of_bytes tv run_id service bs) =
     filter (\<lambda>text. text \<noteq> []) (map (\<lambda>l. strip_ansi_if_needed (trim_end_line (tv_text tv l))) (text_lines (from_utf8_lossy bs)))"
    by (simp only: events_of_bytes_def event_texts)
  show "lv_run_id e = run_id \<and> lv_service e = service \<and>
     (lv_stream e, lv_message e) = extract_log_content (tv_parse tv) (lv_raw e) \<and>
     lv_level e = classify_line_level (tv_parse tv) (lv_raw e)" if "e \<in> set (events_of_bytes tv run_id service bs)"
  proof -
    obtain l where "parse_log_tail_event tv run_id service (tv_text tv l) = Some e"
      using \<open>e \<in> set _\<close> by (auto simp: events_of_bytes_def List.map_filter_def)
    then show ?thesis using parse_event_fields by blast
  qed
qed

lemma initial_cursor:
  "td_is_log td path \<Longrightarrow> map_of (initial_log_tail_cursors td files entries) path =
     (if path \<in> set entries then Some (case files path of Some c \<Rightarrow> length c | None \<Rightarrow> 0) else None)"
proof -
  have "map_of (foldl (\<lambda>m p. if td_is_log td p then bm_insert p (case files p of Some c \<Rightarrow> length c | None \<Rightarrow> 0) m else m) m0 entries) path =
      (if path \<in> set entries then Some (case files path of Some c \<Rightarrow> length c | None \<Rightarrow> 0) else map_of m0 path)"
    if "td_is_log td path" for m0
    using that by (induction entries arbitrary: m0) auto
  then show "td_is_log td path \<Longrightarrow> ?thesis" by (simp add: initial_log_tail_cursors_def)
qed

text \<open>The notifications of one file, with the bytes it has at each.\<close>

abbreviation notices :: "string \<Rightarrow> (bytes \<times> notify_kind) list \<Rightarrow> ((string \<Rightarrow> bytes option) \<times> (notify_kind \<times> string list)) list" where
  "notices path seen \<equiv> map (\<lambda>(content, kind). (\<lambda>_. Some content, kind, [path])) seen"

lemma tail_reads:
  assumes "td_is_log td path" and "td_stem td path = Some service" and "snd ` set seen \<subseteq> {Kind_Any, Kind_Create, Kind_Modify}"
  shows "tail_run_logs tv td run_id (notices path seen) cursors =
    readings tv run_id service (map fst seen) (unwrap_or (map_of cursors path) 0)"
  using assms(3)
proof (induction seen arbitrary: cursors)
  case (Cons ck seen)
  obtain content kind where ck: "ck = (content, kind)" by fastforce
  then have "kind \<in> {Kind_Any, Kind_Create, Kind_Modify}" "snd ` set seen \<subseteq> {Kind_Any, Kind_Create, Kind_Modify}"
    using Cons.prems by auto
  then show ?case
    using Cons.IH assms(1,2) by (auto simp: ck tail_notified_def Let_def split: prod.split)
qed simp

lemma tail_of_growing_file:
  assumes "td_is_log td path" and "td_stem td path = Some service" and "snd ` set seen \<subseteq> {Kind_Any, Kind_Create, Kind_Modify}"
    and "start = (if path \<in> set entries then unwrap_or (files path) [] else [])"
    and "grown start (map fst seen)" and "list_all (\<lambda>content. length content < 2 ^ 64) (map fst seen)"
  shows "tail_run_logs tv td run_id (notices path seen) (initial_log_tail_cursors td files entries) =
    events_of_bytes tv run_id service (drop (length start) (complete_part (last (start # map fst seen))))"
proof -
  have "unwrap_or (map_of (initial_log_tail_cursors td files entries) path) 0 = length start"
    by (auto simp: initial_cursor [OF assms(1)] assms(4) split: option.split)
  then show ?thesis
    using readings_from [OF assms(5) _ order.refl assms(6)] complete_length_le [of start]
    by (simp add: tail_reads [OF assms(1-3)] complete_part_length)
qed

text \<open>
  C38. The events of a log file are what is written to it after the tail has begun, each line once and in order:
  whatever the moments at which the growing file is read, also within a line or a character, the texts of all
  events together are the non-empty lines of the bytes between the length the file had and its last newline,
  without escape sequences. A line that had been begun before gives its second part. Each event names the run
  and the service and has the stream, message and level of its text. (The notifications are those of one file
  that exists; it is read up to \<open>2^64\<close> bytes.)
\<close>

theorem tail_emits_each_line_once:
  assumes "td_is_log td path" and "td_stem td path = Some service" and "snd ` set seen \<subseteq> {Kind_Any, Kind_Create, Kind_Modify}"
    and "start = (if path \<in> set entries then unwrap_or (files path) [] else [])"
    and "grown start (map fst seen)" and "list_all (\<lambda>content. length content < 2 ^ 64) (map fst seen)"
    and "events = tail_run_logs tv td run_id (map (\<lambda>(content, kind). (\<lambda>_. Some content, kind, [path])) seen)
      (initial_log_tail_cursors td files entries)"
  shows "map lv_raw events = filter (\<lambda>text. text \<noteq> []) (map (\<lambda>l. strip_ansi_if_needed (trim_end_line (tv_text tv l)))
      (text_lines (from_utf8_lossy (drop (length start) (complete_part (last (start # map fst seen))))))) \<and>
    (\<forall>e \<in> set events. lv_run_id e = run_id \<and> lv_service e = service \<and>
      (lv_stream e, lv_message e) = extract_log_content (tv_parse tv) (lv_raw e) \<and>
      lv_level e = classify_line_level (tv_parse tv) (lv_raw e))"
proof -
  have "events = events_of_bytes tv run_id service (drop (length start) (complete_part (last (start # map fst seen))))"
    unfolding assms(7) by (rule tail_of_growing_file) (use assms in blast)+
  then show ?thesis using events_of_bytes_facts by blast
qed

definition plain_tail_world :: tail_world where
  "plain_tail_world = \<lparr>tv_parse = (\<lambda>_. None), tv_text = map (\<lambda>b. char_of (unat b))\<rparr>"

definition plain_tail_dir :: tail_dir where
  "plain_tail_dir = \<lparr>td_stem = (\<lambda>_. Some ''web''), td_is_log = (\<lambda>_. True)\<rparr>"

text \<open>The tail begins within a line; the next line is written in two pieces.\<close>

theorem tail_emits_each_line_once_witness:
  "map lv_raw (tail_run_logs plain_tail_world plain_tail_dir ''r1''
     (map (\<lambda>(content, kind). (\<lambda>_. Some content, kind, [''w.log'']))
       [([0x61, 0x62, newline, 0x63], Kind_Modify), ([0x61, 0x62, newline, 0x63, 0x64, newline], Kind_Any)])
     (initial_log_tail_cursors plain_tail_dir (\<lambda>_. Some [0x61]) [''w.log''])) = [''b'', ''cd'']"
proof -
  let ?seen = "[([0x61, 0x62, newline, 0x63], Kind_Modify), ([0x61, 0x62, newline, 0x63, 0x64, newline], Kind_Any)]"
  have complete: "complete_part [0x61, 0x62, newline, 0x63, 0x64, newline] = [0x61, 0x62, newline, 0x63, 0x64, newline]" by code_simp
  have shown: "filter (\<lambda>text. text \<noteq> []) (map (\<lambda>l. strip_ansi_if_needed (trim_end_line (tv_text plain_tail_world l)))
      (text_lines (from_utf8_lossy [0x62, newline, 0x63, 0x64, newline]))) = [''b'', ''cd'']" by code_simp
  show ?thesis
    using conjunct1 [OF tail_emits_each_line_once [of plain_tail_dir "''w.log''" "''web''" ?seen "[0x61]" "[''w.log'']"
      "\<lambda>_. Some [0x61]" _ plain_tail_world "''r1''"]] complete shown
    by (simp add: plain_tail_dir_def)
qed

section \<open>A live line and the line of the index\<close>

lemma attributes_agree: "collect_attributes m attrs = fold (\<lambda>(field, v) attrs. bm_or_insert field v attrs) (List.map_filter dynamic_field m) attrs"
proof (induction m arbitrary: attrs)
  case (Cons p m)
  obtain k v where p: "p = (k, v)" by (cases p)
  have printed: "log_attribute_value_to_string v = dynamic_value_to_string v"
    by (cases v) (simp_all add: log_attribute_value_to_string_def dynamic_value_to_string_def)
  have names: "normalize_log_attribute_name k = normalize_dynamic_field_name k" "is_reserved_log_attribute n \<longleftrightarrow> n \<in> set reserved_dynamic_fields" for n
    by (simp_all add: normalize_log_attribute_name_def normalize_dynamic_field_name_def is_reserved_log_attribute_def reserved_dynamic_fields_def)
  show ?case
    by (cases "normalize_dynamic_field_name k"; cases "dynamic_value_to_string v")
      (auto simp: p Cons.IH printed names dynamic_field_def List.map_filter_simps)
qed (simp add: List.map_filter_simps)

text \<open>An event as an entry of a view.\<close>

definition entry_of_event :: "log_event \<Rightarrow> log_entry" where
  "entry_of_event e =
     \<lparr>le_ts = lv_ts e, le_service = lv_service e, le_stream = lv_stream e, le_level = lv_level e,
      le_message = lv_message e, le_raw = lv_raw e, le_json = lv_json e, le_attributes = lv_attributes e\<rparr>"

lemma bm_insert_values: "snd ` set (bm_insert k v m) \<subseteq> insert v (snd ` set m)"
  by (induction k v m rule: bm_insert.induct) (auto split: if_splits)

lemma attributes_nonempty: "[] \<notin> snd ` set attrs \<Longrightarrow> [] \<notin> snd ` set (collect_attributes m attrs)"
proof (induction m attrs rule: collect_attributes.induct)
  case (2 field_name v m attrs)
  have inserted: "[] \<notin> snd ` set (bm_or_insert name t attrs)" if "t \<noteq> []" for name t
    using bm_insert_values [of name t attrs] 2(2) that by (auto simp: bm_or_insert_def)
  show ?case
    unfolding collect_attributes.simps
    by (rule 2(1)) (use 2(2) inserted in
      \<open>auto simp: log_attribute_value_to_string_def bind_eq_Some_conv simp del: image_iff split: option.split if_splits\<close>)
qed simp

text \<open>
  C39. What a client of the event stream is told of a line is what a query of the log view answers for it: the
  time, service, stream, level, message, text, object and attributes of the event are those of the entry
  of the line's document.
\<close>

theorem live_event_is_the_indexed_entry:
  assumes "parse_log_tail_event tv run_id service line = Some e" and "tv_parse tv = xw_parse xw"
    and "xw_text xw raw = trim_end_line line"
  shows "entry_of_event e =
    entry_of_doc (xw_parse xw) (line_doc xw \<lparr>lg_run_id = run_id, lg_service = service, lg_path = path\<rparr> seq raw)"
proof -
  let ?text = "strip_ansi_if_needed (trim_end_line line)"
  let ?parsed = "parse_log_line (xw_parse xw) ?text"
  obtain stream message where content: "extract_log_content (xw_parse xw) ?text = (stream, message)" by fastforce
  have parts: "pl_timestamp ?parsed = extract_timestamp_str (xw_parse xw) ?text" "pl_stream ?parsed = stream"
    "pl_message ?parsed = message" "pl_level ?parsed = classify_line_level (xw_parse xw) ?text"
    using parse_log_line_parts [of "xw_parse xw" ?text] content by simp_all
  have json: "extract_log_json (xw_parse xw) ?text = parse_raw_json_object (xw_parse xw) ?text"
    by (simp add: extract_log_json_def parse_raw_json_object_def Let_def split: option.split)
  have attributes: "extract_log_attributes (xw_parse xw) ?text =
      attributes_from_value (case pl_json ?parsed of None \<Rightarrow> [] | Some m \<Rightarrow> extract_dynamic_json_fields m)"
  proof -
    have "attributes_from_value (collect_attributes m []) = collect_attributes m []" for m
      using attributes_nonempty [of "[]" m] by (force simp: attributes_from_value_def filter_id_conv)
    moreover have "extract_dynamic_json_fields m = collect_attributes m []" for m
      by (simp add: extract_dynamic_json_fields_def attributes_agree)
    moreover have "attributes_from_value [] = []" by (simp add: attributes_from_value_def)
    ultimately show ?thesis
      by (simp add: extract_log_attributes_def parse_log_line_json parse_json_object_def Let_def split: option.split json.split)
  qed
  show ?thesis
    using assms(1) unfolding assms(2) parse_log_tail_event_def line_doc_def Let_def content
    by (auto simp: entry_of_event_def entry_of_doc_def assms(3) parts json attributes split: if_splits)
qed

theorem live_event_is_the_indexed_entry_witness:
  "\<exists>e. parse_log_tail_event plain_tail_world ''r1'' ''web'' ''[stderr] no port'' = Some e \<and>
     entry_of_event e = entry_of_doc (\<lambda>_. None)
       (line_doc (example_index_world []) \<lparr>lg_run_id = ''r1'', lg_service = ''web'', lg_path = ''/logs/web.log''\<rparr> 0
         (map (\<lambda>c. word_of_nat (of_char c)) ''[stderr] no port''))"
proof -
  have "strip_ansi_if_needed (trim_end_line ''[stderr] no port'') \<noteq> []" by code_simp
  then have "parse_log_tail_event plain_tail_world ''r1'' ''web'' ''[stderr] no port'' \<noteq> None"
    by (simp add: parse_log_tail_event_def Let_def split: prod.split)
  then obtain e where e: "parse_log_tail_event plain_tail_world ''r1'' ''web'' ''[stderr] no port'' = Some e" by blast
  have parse: "tv_parse plain_tail_world = xw_parse (example_index_world [])"
    by (simp add: plain_tail_world_def example_index_world_def)
  have same: "xw_text (example_index_world []) (map (\<lambda>c. word_of_nat (of_char c)) ''[stderr] no port'') = trim_end_line ''[stderr] no port''"
    by code_simp
  show ?thesis
    using live_event_is_the_indexed_entry [OF e parse same, where path = "''/logs/web.log''" and seq = 0] e
    by (simp add: example_index_world_def)
qed

section \<open>Following a file\<close>

text \<open>
  A file that grows by whole lines is printed line by line, all of them once. The client looks at the whole
  of what is new: a line written in two pieces is printed as two, and what a truncated file holds when it
  is next read is passed over.
\<close>

fun grown_by_lines :: "bytes \<Rightarrow> bytes list \<Rightarrow> bool" where
  "grown_by_lines c [] = True"
| "grown_by_lines c (d # ds) = (take (length c) d = c \<and> ends_line d \<and> grown_by_lines d ds)"

lemma text_lines_Nil [simp]: "text_lines [] = []" "from_utf8_lossy [] = []"
  by (simp_all add: text_lines_def from_utf8_lossy.simps)

lemma grown_by_lines_prefix: "grown_by_lines c ds \<Longrightarrow> \<exists>t. last (c # ds) = c @ t"
proof (induction ds arbitrary: c)
  case (Cons d ds)
  then obtain t where "last (d # ds) = d @ t" by auto
  moreover obtain u where "d = c @ u" using Cons.prems by (metis append_take_drop_id grown_by_lines.simps(2))
  ultimately show ?case by auto
qed simp

lemma follow_file_prints_lines:
  assumes "grown_by_lines c ds" and "ends_line c"
  shows "follow_file ds (length c) = text_lines (from_utf8_lossy (drop (length c) (last (c # ds))))"
  using assms
proof (induction ds arbitrary: c)
  case (Cons d ds)
  obtain u where d: "d = c @ u" using Cons.prems(1) by (metis append_take_drop_id grown_by_lines.simps(2))
  obtain t where t: "last (d # ds) = d @ t" using grown_by_lines_prefix [of d ds] Cons.prems(1) by auto
  have u: "ends_line u" using Cons.prems(1) d by (cases "u = []") (auto simp: ends_line_def)
  have IH: "follow_file ds (length d) = text_lines (from_utf8_lossy t)"
    using Cons.IH [of d] Cons.prems(1) t by simp
  have "text_lines (from_utf8_lossy (u @ t)) = text_lines (from_utf8_lossy u) @ text_lines (from_utf8_lossy t)"
    using u by (simp add: lossy_ends_line text_lines_append lossy_keeps_end)
  then show ?case using IH t d by (auto simp: read_new_lines_def)
qed simp

lemma split_line_printed_twice:
  "follow_file [[0x61], [0x61, 0x62, newline]] 0 = [[0x61], [0x62]] \<and> text_lines [0x61, 0x62, newline] = [[0x61, 0x62]]"
  by code_simp

lemma truncated_file_passed_over: "length content < offset \<Longrightarrow> fst (read_new_lines content offset) = []"
  by (simp add: read_new_lines_def)

text \<open>A file with one byte that is no character prints nothing, and is printed as a whole once it is followed.\<close>

lemma undecodable_file_prints_nothing:
  "\<not> utf8_valid content \<Longrightarrow> stream_logs (Some content) tail False contents = Inr []"
  by (simp add: stream_logs_def)

end
