(* ===== verification/Agents.thy ===== *)
theory Agents
  imports Log_Tail Cli_Commands
begin

text \<open>
  Coding agents next to a run: the handlers of agent sessions and of the navigation intent,
  \<open>src/src/app/commands/agent.rs\<close>, \<open>app/commands/navigation.rs\<close> with their queries, and the client that
  wraps an agent, \<open>src/src/agent/\<close>, which types the messages of its session and the notices about new
  errors into the terminal of the agent. The pseudo terminal, its size and modes, signals and the child
  process are not modelled.
\<close>

section \<open>Handlers of agent sessions\<close>

record share_request =
  hr_project_dir :: string
  hr_command :: "string option"
  hr_message :: string

definition register_agent_session ::
  "kill_answer \<Rightarrow> string \<Rightarrow> string \<Rightarrow> string \<Rightarrow> string option \<Rightarrow> string \<Rightarrow> u32 \<Rightarrow> agent_store \<Rightarrow> agent_session \<times> agent_store" where
  "register_agent_session alive now agent_id project_dir stack command pid st =
     register_session alive now agent_id project_dir stack command pid st"

definition unregister_agent_session :: "kill_answer \<Rightarrow> string \<Rightarrow> agent_store \<Rightarrow> unit app_result \<times> agent_store" where
  "unregister_agent_session alive agent_id st =
     (case unregister_session alive agent_id st of
        (removed, st1) \<Rightarrow> (if removed then Inr () else Inl (Not_Found (session_not_found agent_id)), st1))"

definition post_agent_message :: "kill_answer \<Rightarrow> string \<Rightarrow> string \<Rightarrow> agent_store \<Rightarrow> nat app_result \<times> agent_store" where
  "post_agent_message alive agent_id message st =
     (case queue_message alive agent_id message st of (r, st1) \<Rightarrow> (internal_error r, st1))"

definition poll_agent_messages :: "kill_answer \<Rightarrow> string \<Rightarrow> agent_store \<Rightarrow> string list app_result \<times> agent_store" where
  "poll_agent_messages alive agent_id st =
     (case poll_messages alive agent_id st of (r, st1) \<Rightarrow> (internal_error r, st1))"

definition shared_text :: "share_request \<Rightarrow> string" where
  "shared_text request =
     (case hr_command request of
        Some command \<Rightarrow>
          if command \<noteq> [] then hr_message request @ [CHR 0x0A] @ ''Run `'' @ command @ ''`'' else hr_message request
      | None \<Rightarrow> hr_message request)"

definition share_agent_message ::
  "kill_answer \<Rightarrow> share_request \<Rightarrow> agent_store \<Rightarrow> (string \<times> nat) app_result \<times> agent_store" where
  "share_agent_message alive request st =
     (case find_latest_for_project alive (hr_project_dir request) st of
        (None, st1) \<Rightarrow>
          (Inl (Not_Found (''no active agent session found for project '' @ hr_project_dir request)), st1)
      | (Some session, st1) \<Rightarrow>
          (case queue_message alive (as_agent_id session) (shared_text request) st1 of
             (r, st2) \<Rightarrow> (internal_error (rbind r (\<lambda>queued. Inr (as_agent_id session, queued))), st2)))"

definition latest_agent_session :: "kill_answer \<Rightarrow> string \<Rightarrow> agent_store \<Rightarrow> agent_session option \<times> agent_store" where
  "latest_agent_session alive project_dir st = find_latest_for_project alive project_dir st"

section \<open>Navigation\<close>

record navigation_intent =
  ni_run_id :: "string option"
  ni_service :: "string option"
  ni_search :: "string option"
  ni_level :: "string option"
  ni_stream :: "string option"
  ni_since :: "string option"
  ni_last :: "nat option"
  ni_created_at :: string

definition set_navigation_intent ::
  "string \<Rightarrow> intent_request \<Rightarrow> navigation_intent option \<Rightarrow> navigation_intent \<times> navigation_intent option" where
  "set_navigation_intent now request store =
     (let intent = \<lparr>ni_run_id = ir_run_id request, ni_service = ir_service request, ni_search = ir_search request,
            ni_level = ir_level request, ni_stream = ir_stream request, ni_since = ir_since request,
            ni_last = ir_last request, ni_created_at = now\<rparr> in (intent, set_intent intent store))"

definition clear_navigation_intent :: "navigation_intent option \<Rightarrow> bool \<times> navigation_intent option" where
  "clear_navigation_intent store = clear_intent store"

definition get_navigation_intent :: "navigation_intent option \<Rightarrow> navigation_intent option" where
  "get_navigation_intent store = get_intent store"

section \<open>Sharing errors\<close>

datatype auto_share_level = Share_Error | Share_Warn

record auto_share_config =
  ac_level :: auto_share_level
  ac_run_id :: string
  ac_services :: "string list"

definition resolve_auto_share :: "string option \<Rightarrow> bool \<Rightarrow> auto_share_level option result" where
  "resolve_auto_share auto_share no_auto_share =
     (if no_auto_share then Inr None
      else (case auto_share of
          None \<Rightarrow> Inr None
        | Some level \<Rightarrow>
            if level = ''error'' then Inr (Some Share_Error)
            else if level = ''warn'' then Inr (Some Share_Warn)
            else Inl (''invalid auto-share level: '' @ level)))"

definition resolve_latest_run_id_for_cwd :: "string result \<Rightarrow> run_summary list result \<Rightarrow> string option result" where
  "resolve_latest_run_id_for_cwd cwd runs =
     rbind runs (\<lambda>runs.
       let cwd = (case cwd of Inr d \<Rightarrow> d | Inl _ \<Rightarrow> []) in
       Inr (map_option rs_run_id (max_by (\<lambda>a b. compare_keys (rs_created_at a) (rs_created_at b))
         (filter (\<lambda>run. rs_project_dir run = cwd \<and> rs_state run \<noteq> Run_Stopped) runs))))"

text \<open>\<open>services\<close> gives the names of the services in the status of a run; warnings are not modelled.\<close>

definition configure_auto_share ::
  "auto_share_level option \<Rightarrow> string option \<Rightarrow> string list \<Rightarrow> string option result \<Rightarrow> (string \<Rightarrow> string list result) \<Rightarrow>
     auto_share_config option" where
  "configure_auto_share level run_id watch latest services =
     Option.bind level (\<lambda>level.
     Option.bind (case run_id of Some rid \<Rightarrow> Some rid | None \<Rightarrow> (case latest of Inr rid \<Rightarrow> rid | Inl _ \<Rightarrow> None)) (\<lambda>run_id.
     Option.bind (if watch = [] then (case services run_id of Inr names \<Rightarrow> if names \<noteq> [] then Some (sort names) else None | Inl _ \<Rightarrow> None)
                  else Some watch) (\<lambda>names.
       Some \<lparr>ac_level = level, ac_run_id = run_id, ac_services = names\<rparr>)))"

fun threshold_matches :: "string option \<Rightarrow> auto_share_level \<Rightarrow> bool" where
  "threshold_matches level Share_Error = (level = Some ''error'')"
| "threshold_matches level Share_Warn = (level = Some ''warn'' \<or> level = Some ''error'')"

fun trigger_from ::
  "json_parser \<Rightarrow> string \<Rightarrow> auto_share_level \<Rightarrow> bool \<Rightarrow> string list \<Rightarrow> auto_share_level option" where
  "trigger_from parse service threshold saw_warn [] =
     (if saw_warn \<and> threshold = Share_Warn then Some Share_Warn else None)"
| "trigger_from parse service threshold saw_warn (line # lines) =
     (let level = unwrap_or (sl_level (structured_log_from_raw parse service line)) ''info'' in
      if level = ''error'' \<and> threshold_matches (Some ''error'') threshold then Some Share_Error
      else trigger_from parse service threshold (saw_warn \<or> level = ''warn'') lines)"

definition detect_trigger_level :: "json_parser \<Rightarrow> string \<Rightarrow> string list \<Rightarrow> auto_share_level \<Rightarrow> auto_share_level option" where
  "detect_trigger_level parse service lines threshold = trigger_from parse service threshold False lines"

fun level_word :: "auto_share_level \<Rightarrow> string" where
  "level_word Share_Error = ''error''"
| "level_word Share_Warn = ''warn''"

definition build_logs_command :: "string \<Rightarrow> string \<Rightarrow> auto_share_level \<Rightarrow> string" where
  "build_logs_command run_id service level =
     ''devstack logs --run '' @ run_id @ '' --service '' @ service @ '' --level '' @ level_word level @ '' --since 5m --last 200''"

definition build_auto_share_message :: "string \<Rightarrow> string \<Rightarrow> auto_share_level \<Rightarrow> string" where
  "build_auto_share_message run_id service level =
     ''[devstack auto-share] Detected new '' @ level_word level @ '' logs for '' @ service @ ''. Investigate with:'' @ [CHR 0x0A] @
       build_logs_command run_id service level"

text \<open>Times in milliseconds.\<close>

definition auto_share_rate_limit :: nat where "auto_share_rate_limit = 30000"

definition should_emit_auto_share :: "string \<Rightarrow> nat \<Rightarrow> (string, nat) bmap \<Rightarrow> bool \<times> (string, nat) bmap" where
  "should_emit_auto_share service now last_sent =
     (case map_of last_sent service of
        Some previous \<Rightarrow>
          if now - previous < auto_share_rate_limit then (False, last_sent) else (True, bm_insert service now last_sent)
      | None \<Rightarrow> (True, bm_insert service now last_sent))"

definition build_auto_share_notification ::
  "json_parser \<Rightarrow> auto_share_config \<Rightarrow> string \<Rightarrow> string list \<Rightarrow> nat \<Rightarrow> (string, nat) bmap \<Rightarrow> string option \<times> (string, nat) bmap" where
  "build_auto_share_notification parse config service lines now last_sent =
     (if service \<notin> set (ac_services config) then (None, last_sent)
      else (case detect_trigger_level parse service lines (ac_level config) of
          None \<Rightarrow> (None, last_sent)
        | Some level \<Rightarrow>
            (case should_emit_auto_share service now last_sent of
               (False, last_sent) \<Rightarrow> (None, last_sent)
             | (True, last_sent) \<Rightarrow> (Some (build_auto_share_message (ac_run_id config) service level), last_sent))))"

definition format_message_for_pty :: "string \<Rightarrow> string" where
  "format_message_for_pty message = message @ [CHR 0x0D]"

text \<open>
  The monitor: the places in the logs, when each service was last reported, and what is typed, with its
  service and time. In a round \<open>fetch\<close> answers the request for the lines of a service after a place.
\<close>

record share_state =
  sh_cursors :: "(string, nat) bmap"
  sh_last_sent :: "(string, nat) bmap"

type_synonym share_round = "(string \<Rightarrow> nat \<Rightarrow> logs_response result) \<times> (string \<Rightarrow> nat)"

definition share_service ::
  "json_parser \<Rightarrow> auto_share_config \<Rightarrow> share_round \<Rightarrow> string \<Rightarrow> share_state \<Rightarrow> (string \<times> nat \<times> string) list \<times> share_state" where
  "share_service parse config round service ss =
     (let (fetch, clock) = round; after = unwrap_or (map_of (sh_cursors ss) service) 0 in
      case fetch service after of
        Inl _ \<Rightarrow> ([], ss)
      | Inr response \<Rightarrow>
          (let cursors = (case ls_next_after response of
                 Some next_after \<Rightarrow> bm_insert service next_after (sh_cursors ss)
               | None \<Rightarrow> sh_cursors ss);
               (note, last_sent) = build_auto_share_notification parse config service (ls_lines response) (clock service) (sh_last_sent ss) in
           ((case note of Some message \<Rightarrow> [(service, clock service, format_message_for_pty message)] | None \<Rightarrow> []),
            \<lparr>sh_cursors = cursors, sh_last_sent = last_sent\<rparr>)))"

fun share_services ::
  "json_parser \<Rightarrow> auto_share_config \<Rightarrow> share_round \<Rightarrow> string list \<Rightarrow> share_state \<Rightarrow> (string \<times> nat \<times> string) list \<times> share_state" where
  "share_services parse config round [] ss = ([], ss)"
| "share_services parse config round (service # services) ss =
     (case share_service parse config round service ss of
        (typed, ss1) \<Rightarrow>
          (case share_services parse config round services ss1 of (typed', ss2) \<Rightarrow> (typed @ typed', ss2)))"

fun share_rounds :: "json_parser \<Rightarrow> auto_share_config \<Rightarrow> share_round list \<Rightarrow> share_state \<Rightarrow> (string \<times> nat \<times> string) list" where
  "share_rounds parse config [] ss = []"
| "share_rounds parse config (round # rounds) ss =
     (case share_services parse config round (ac_services config) ss of
        (typed, ss1) \<Rightarrow> typed @ share_rounds parse config rounds ss1)"

definition fetch_latest_service_cursor :: "(string \<Rightarrow> logs_response result) \<Rightarrow> string \<Rightarrow> nat" where
  "fetch_latest_service_cursor latest service =
     (case latest service of Inr response \<Rightarrow> unwrap_or (ls_next_after response) 0 | Inl _ \<Rightarrow> 0)"

definition run_auto_share_monitor ::
  "json_parser \<Rightarrow> auto_share_config \<Rightarrow> (string \<Rightarrow> logs_response result) \<Rightarrow> share_round list \<Rightarrow> (string \<times> nat \<times> string) list" where
  "run_auto_share_monitor parse config latest rounds =
     share_rounds parse config rounds
       \<lparr>sh_cursors = foldl (\<lambda>m s. bm_insert s (fetch_latest_service_cursor latest s) m) [] (ac_services config),
        sh_last_sent = []\<rparr>"

section \<open>The wrapped agent\<close>

text \<open>A poll of the session's messages, as they are typed.\<close>

definition proxy_poll :: "string list app_result \<Rightarrow> string list" where
  "proxy_poll answer = (case answer of Inr messages \<Rightarrow> map format_message_for_pty messages | Inl _ \<Rightarrow> [])"

definition session_path :: "string \<Rightarrow> string" where
  "session_path agent_id = ''/v1/agent/sessions/'' @ agent_id"

definition unregister_request :: "string \<Rightarrow> cli_request" where
  "unregister_request agent_id = \<lparr>cr_method = ''DELETE'', cr_path = session_path agent_id, cr_body = None\<rparr>"

definition poll_messages_request :: "string \<Rightarrow> cli_request" where
  "poll_messages_request agent_id = get_request (session_path agent_id @ ''/messages/poll'')"

definition generate_agent_id :: "nat list \<Rightarrow> string" where
  "generate_agent_id digits = ''agent-'' @ map hex_digit (take 16 digits)"

section \<open>Messages arrive\<close>

text \<open>
  Calls of any clients on the sessions, each under the lock of the store with what \<open>kill\<close> answers at that
  moment. Sharing a message is the search for the latest session and then posting.
\<close>

datatype agent_call =
    Call_Register string string string "string option" string u32
  | Call_Unregister string
  | Call_Post string string
  | Call_Poll string
  | Call_Latest string

datatype agent_event = Accepted string string | Delivered string "string list"

fun agent_step :: "kill_answer \<Rightarrow> agent_call \<Rightarrow> agent_store \<Rightarrow> agent_event list \<times> agent_store" where
  "agent_step alive (Call_Register now agent_id project_dir stack command pid) st =
     ([], snd (register_agent_session alive now agent_id project_dir stack command pid st))"
| "agent_step alive (Call_Unregister agent_id) st = ([], snd (unregister_agent_session alive agent_id st))"
| "agent_step alive (Call_Post agent_id message) st =
     (case post_agent_message alive agent_id message st of
        (r, st1) \<Rightarrow> (case r of Inr _ \<Rightarrow> [Accepted agent_id message] | Inl _ \<Rightarrow> [], st1))"
| "agent_step alive (Call_Poll agent_id) st =
     (case poll_agent_messages alive agent_id st of
        (r, st1) \<Rightarrow> (case r of Inr messages \<Rightarrow> [Delivered agent_id messages] | Inl _ \<Rightarrow> [], st1))"
| "agent_step alive (Call_Latest project_dir) st = ([], snd (latest_agent_session alive project_dir st))"

fun agent_calls :: "(kill_answer \<times> agent_call) list \<Rightarrow> agent_store \<Rightarrow> agent_event list \<times> agent_store" where
  "agent_calls [] st = ([], st)"
| "agent_calls ((alive, call) # calls) st =
     (case agent_step alive call st of
        (events, st1) \<Rightarrow> (case agent_calls calls st1 of (events', st2) \<Rightarrow> (events @ events', st2)))"

definition accepted_for :: "string \<Rightarrow> agent_event list \<Rightarrow> string list" where
  "accepted_for a events = concat (map (\<lambda>e. case e of Accepted b m \<Rightarrow> if b = a then [m] else [] | _ \<Rightarrow> []) events)"

definition delivered_to :: "string \<Rightarrow> agent_event list \<Rightarrow> string list" where
  "delivered_to a events = concat (map (\<lambda>e. case e of Delivered b ms \<Rightarrow> if b = a then ms else [] | _ \<Rightarrow> []) events)"

text \<open>The session is not given up, and its process lives at every call; registering again may name another process.\<close>

fun session_kept :: "string \<Rightarrow> u32 \<Rightarrow> (kill_answer \<times> agent_call) list \<Rightarrow> bool" where
  "session_kept a pid [] = True"
| "session_kept a pid ((alive, call) # calls) =
     (agent_pid_alive alive pid \<and>
      (case call of
         Call_Unregister b \<Rightarrow> b \<noteq> a \<and> session_kept a pid calls
       | Call_Register now b project_dir stack command pid' \<Rightarrow> session_kept a (if b = a then pid' else pid) calls
       | _ \<Rightarrow> session_kept a pid calls))"

lemma messages_append [simp]:
  "accepted_for a (es @ es') = accepted_for a es @ accepted_for a es'"
  "delivered_to a (es @ es') = delivered_to a es @ delivered_to a es'"
  by (simp_all add: accepted_for_def delivered_to_def)

lemma messages_simps [simp]:
  "accepted_for a [] = []" "delivered_to a [] = []"
  "accepted_for a [Accepted b m] = (if b = a then [m] else [])" "accepted_for a [Delivered b ms] = []"
  "delivered_to a [Accepted b m] = []" "delivered_to a [Delivered b ms] = (if b = a then ms else [])"
  by (simp_all add: accepted_for_def delivered_to_def)

lemmas agent_ops = register_agent_session_def unregister_agent_session_def post_agent_message_def poll_agent_messages_def
  latest_agent_session_def register_session_def unregister_session_def queue_message_def poll_messages_def
  find_latest_for_project_def agent_queue_message_def agent_drain_messages_def agent_update_def internal_error_def Let_def

definition next_pid :: "string \<Rightarrow> agent_call \<Rightarrow> u32 \<Rightarrow> u32" where
  "next_pid a call pid = (case call of Call_Register now b project_dir stack command pid' \<Rightarrow> if b = a then pid' else pid | _ \<Rightarrow> pid)"

lemma agent_step_keeps:
  assumes "bm_ok st" and "map_of st a = Some session" and "agent_pid_alive alive (as_pid session)"
    and "call \<noteq> Call_Unregister a" and "agent_step alive call st = (events, st')"
  shows "bm_ok st' \<and> (\<exists>session'. map_of st' a = Some session' \<and> as_pid session' = next_pid a call (as_pid session) \<and>
    as_pending session @ accepted_for a events = delivered_to a events @ as_pending session')"
proof -
  have guard: "bm_ok (cleanup_stale_sessions_internal alive st)" "map_of (cleanup_stale_sessions_internal alive st) a = Some session"
    using cleanup_ok [OF assms(1), of alive] cleanup_get [OF assms(1), of alive a] assms(2,3) by auto
  show ?thesis
    using assms(4,5) guard
    by (cases call)
      (auto simp: agent_ops next_pid_def map_of_bm_or_insert split: option.splits prod.splits sum.splits if_splits)
qed

lemma agent_calls_keep:
  "bm_ok st \<Longrightarrow> map_of st a = Some session \<Longrightarrow> session_kept a (as_pid session) calls \<Longrightarrow> agent_calls calls st = (events, st') \<Longrightarrow>
     \<exists>session'. map_of st' a = Some session' \<and>
       as_pending session @ accepted_for a events = delivered_to a events @ as_pending session'"
proof (induction calls arbitrary: st session events st')
  case (Cons c calls)
  obtain alive call where c: "c = (alive, call)" by (cases c)
  obtain events1 st1 where first: "agent_step alive call st = (events1, st1)" by fastforce
  obtain events2 st2 where rest: "agent_calls calls st1 = (events2, st2)" by fastforce
  have kept: "agent_pid_alive alive (as_pid session)" "call \<noteq> Call_Unregister a" "session_kept a (next_pid a call (as_pid session)) calls"
    using Cons.prems(3) by (auto simp: c next_pid_def split: agent_call.splits)
  obtain session1 where s1: "bm_ok st1" "map_of st1 a = Some session1" "as_pid session1 = next_pid a call (as_pid session)"
    "as_pending session @ accepted_for a events1 = delivered_to a events1 @ as_pending session1"
    using agent_step_keeps [OF Cons.prems(1,2) kept(1,2) first] by blast
  obtain session2 where s2: "map_of st2 a = Some session2"
    "as_pending session1 @ accepted_for a events2 = delivered_to a events2 @ as_pending session2"
    using Cons.IH [OF s1(1,2) _ rest] kept(3) s1(3) by auto
  have "st' = st2" "events = events1 @ events2" using Cons.prems(4) by (simp_all add: c first rest)
  then show ?case using s1(4) s2 by (metis append.assoc messages_append)
qed simp

text \<open>
  C40. An agent gets its messages: as long as its session is kept and its process lives, every message that was
  accepted for it, by whichever client, is delivered by one of its polls exactly once and in the order of
  acceptance, or is still waiting; calls on other sessions do not matter.
\<close>

theorem agent_messages_arrive_in_order:
  assumes "bm_ok st" and "map_of st a = Some session" and "session_kept a (as_pid session) calls"
  shows "\<exists>session'. map_of (snd (agent_calls calls st)) a = Some session' \<and>
    as_pending session @ accepted_for a (fst (agent_calls calls st)) =
      delivered_to a (fst (agent_calls calls st)) @ as_pending session'"
  using agent_calls_keep [OF assms] by (cases "agent_calls calls st") simp

theorem agent_messages_arrive_in_order_witness:
  "\<exists>calls st session. map_of st ''a1'' = Some session \<and> session_kept ''a1'' (as_pid session) calls \<and>
     delivered_to ''a1'' (fst (agent_calls calls st)) = [''hello'', ''world''] \<and>
     (\<exists>session'. map_of (snd (agent_calls calls st)) ''a1'' = Some session' \<and>
        as_pending session @ accepted_for ''a1'' (fst (agent_calls calls st)) = [''hello'', ''world''] @ as_pending session')"
proof -
  let ?alive = "\<lambda>_ :: u32. None :: int option"
  let ?calls = "[(?alive, Call_Post ''a1'' ''hello''), (?alive, Call_Register ''t'' ''a2'' ''/p'' None ''other'' 8),
    (?alive, Call_Post ''a1'' ''world''), (?alive, Call_Poll ''a1''), (?alive, Call_Post ''a1'' ''later'')]"
  let ?st = "snd (register_agent_session ?alive ''t'' ''a1'' ''/p'' None ''agent'' 7 [])"
  have empty: "cleanup_stale_sessions_internal ?alive [] = []" "bm_ok ([] :: agent_store)"
    by (simp_all add: cleanup_stale_sessions_internal_def bm_retain_def bm_ok_def)
  have ok: "bm_ok ?st" using bm_ok_or_insert [OF empty(2)] by (simp add: agent_ops empty(1))
  have "\<exists>session. map_of ?st ''a1'' = Some session \<and> as_pid session = 7"
    by (simp add: agent_ops empty(1) map_of_bm_or_insert)
  then obtain session where session: "map_of ?st ''a1'' = Some session" "as_pid session = 7" by blast
  have kept: "session_kept ''a1'' (as_pid session) ?calls" by (simp add: session(2) agent_pid_alive_def)
  have got: "delivered_to ''a1'' (fst (agent_calls ?calls ?st)) = [''hello'', ''world'']" by code_simp
  from agent_messages_arrive_in_order [OF ok session(1) kept] got session(1) kept show ?thesis by metis
qed

section \<open>Notices are rare\<close>

text \<open>What is typed keeps its distance from what was typed for the same service before.\<close>

fun spaced_from :: "(string \<Rightarrow> nat option) \<Rightarrow> (string \<times> nat \<times> string) list \<Rightarrow> bool" where
  "spaced_from prev [] = True"
| "spaced_from prev ((s, t, m) # typed) =
     ((\<forall>p. prev s = Some p \<longrightarrow> p + auto_share_rate_limit \<le> t) \<and> spaced_from (prev(s \<mapsto> t)) typed)"

definition last_typed :: "(string \<times> nat \<times> string) list \<Rightarrow> (string \<Rightarrow> nat option) \<Rightarrow> string \<Rightarrow> nat option" where
  "last_typed typed prev = foldl (\<lambda>prev (s, t, m). prev(s \<mapsto> t)) prev typed"

lemma spaced_from_append: "spaced_from prev (xs @ ys) \<longleftrightarrow> spaced_from prev xs \<and> spaced_from (last_typed xs prev) ys"
  by (induction prev xs rule: spaced_from.induct) (simp_all add: last_typed_def del: fun_upd_apply)

lemma last_typed_append [simp]: "last_typed (xs @ ys) prev = last_typed ys (last_typed xs prev)"
  by (simp add: last_typed_def)

lemma spaced_from_sorted:
  "spaced_from prev typed \<Longrightarrow>
     (\<forall>(s, t, m) \<in> set typed. \<forall>p. prev s = Some p \<longrightarrow> p + auto_share_rate_limit \<le> t) \<and>
     sorted_wrt (\<lambda>(s1, t1, m1) (s2, t2, m2). s1 = s2 \<longrightarrow> t1 + auto_share_rate_limit \<le> t2) typed"
proof (induction prev typed rule: spaced_from.induct)
  case (2 prev s t m typed)
  then have IH: "\<forall>(s', t', m') \<in> set typed. \<forall>p. (prev(s \<mapsto> t)) s' = Some p \<longrightarrow> p + auto_share_rate_limit \<le> t'"
    "sorted_wrt (\<lambda>(s1, t1, m1) (s2, t2, m2). s1 = s2 \<longrightarrow> t1 + auto_share_rate_limit \<le> t2) typed"
    and first: "\<forall>p. prev s = Some p \<longrightarrow> p + auto_share_rate_limit \<le> t"
    by (auto simp del: fun_upd_apply)
  have "p + auto_share_rate_limit \<le> t'" if "(s', t', m') \<in> set typed" "prev s' = Some p" for s' t' m' p
  proof (cases "s' = s")
    case True
    then have "p + auto_share_rate_limit \<le> t" "t + auto_share_rate_limit \<le> t'" using first IH(1) that by fastforce+
    then show ?thesis by simp
  next
    case False
    then show ?thesis using IH(1) that by fastforce
  qed
  then show ?case using first IH by fastforce
qed simp

lemma share_service_spaced:
  assumes "share_service parse config round service ss = (typed, ss')"
  shows "spaced_from (map_of (sh_last_sent ss)) typed \<and> map_of (sh_last_sent ss') = last_typed typed (map_of (sh_last_sent ss)) \<and>
    (\<forall>(s, t, m) \<in> set typed. s = service)"
  using assms
  by (auto simp: share_service_def build_auto_share_notification_def should_emit_auto_share_def last_typed_def Let_def
      auto_share_rate_limit_def split: prod.splits sum.splits option.splits if_splits bool.splits)

lemma share_services_spaced:
  "share_services parse config round services ss = (typed, ss') \<Longrightarrow>
     spaced_from (map_of (sh_last_sent ss)) typed \<and> map_of (sh_last_sent ss') = last_typed typed (map_of (sh_last_sent ss)) \<and>
     (\<forall>(s, t, m) \<in> set typed. s \<in> set services)"
proof (induction services arbitrary: ss typed ss')
  case (Cons service services)
  obtain typed1 ss1 where first: "share_service parse config round service ss = (typed1, ss1)" by fastforce
  obtain typed2 ss2 where rest: "share_services parse config round services ss1 = (typed2, ss2)" by fastforce
  show ?case
    using Cons.prems first rest share_service_spaced [OF first] Cons.IH [OF rest] by (auto simp: spaced_from_append)
qed (simp add: last_typed_def)

lemma share_rounds_spaced:
  "spaced_from (map_of (sh_last_sent ss)) (share_rounds parse config rounds ss) \<and>
   (\<forall>(s, t, m) \<in> set (share_rounds parse config rounds ss). s \<in> set (ac_services config))"
proof (induction rounds arbitrary: ss)
  case (Cons round rounds)
  obtain typed ss1 where first: "share_services parse config round (ac_services config) ss = (typed, ss1)" by fastforce
  show ?case using share_services_spaced [OF first] Cons.IH [of ss1] by (auto simp: first spaced_from_append)
qed simp

text \<open>
  An agent is not flooded: whatever the logs answer and whenever, the notices that are typed are about
  services that are watched, and two about the same service are at least thirty seconds apart.
\<close>

theorem auto_share_is_rate_limited:
  "(\<forall>(service, t, m) \<in> set (run_auto_share_monitor parse config latest rounds). service \<in> set (ac_services config)) \<and>
   sorted_wrt (\<lambda>(s1, t1, m1) (s2, t2, m2). s1 = s2 \<longrightarrow> t1 + 30000 \<le> t2) (run_auto_share_monitor parse config latest rounds)"
  using share_rounds_spaced spaced_from_sorted unfolding run_auto_share_monitor_def auto_share_rate_limit_def by blast

text \<open>
  An error among the lines of an answer is reported, unless the service was reported in the last thirty
  seconds.
\<close>

lemma trigger_from_error:
  "line \<in> set lines \<Longrightarrow> sl_level (structured_log_from_raw parse service line) = Some ''error'' \<Longrightarrow>
     trigger_from parse service threshold saw_warn lines = Some Share_Error"
  by (induction lines arbitrary: saw_warn) (cases threshold; auto simp: Let_def)+

lemma error_is_shared:
  assumes "line \<in> set lines" and "sl_level (structured_log_from_raw parse service line) = Some ''error''"
    and "service \<in> set (ac_services config)"
    and "\<And>p. map_of last_sent service = Some p \<Longrightarrow> p + 30000 \<le> now"
  shows "fst (build_auto_share_notification parse config service lines now last_sent) =
    Some (build_auto_share_message (ac_run_id config) service Share_Error)"
  using assms(3,4) trigger_from_error [OF assms(1,2)]
  by (auto simp: build_auto_share_notification_def detect_trigger_level_def should_emit_auto_share_def auto_share_rate_limit_def
      split: option.splits)

text \<open>
  The first line of a service that has written nothing when the monitor starts is never seen: the place is
  then 0, which is the number of that line, and the request asks for what comes after.
\<close>

lemma first_line_never_shared:
  assumes "latest service = Inr response" and "ls_next_after response = None" and "ld_seq d = 0"
  shows "d \<notin> set (unread (Some (fetch_latest_service_cursor latest service)) docs)"
  using assms by (simp add: fetch_latest_service_cursor_def unread_def)

end
