(* ===== verification/Diagnose.thy ===== *)
theory Diagnose
  imports Log_Tail Status
begin

text \<open>
  Which processes listen on a port and whether they belong to a unit,
  \<open>src/src/services/readiness/port_ownership.rs\<close> (its Linux part), and the report about a run that is
  made of it, \<open>src/src/diagnose.rs\<close>. What \<open>ss\<close> and \<open>systemctl\<close> print and the files under
  \<open>/proc\<close> are parameters.
\<close>

section \<open>The system\<close>

text \<open>
  Outputs are \<open>None\<close> when the program cannot be run, fails or prints invalid UTF-8. A process has its
  name under \<open>/proc\<close> and, when they can be read, the targets of its descriptors. The lines of a log are
  those that can be decoded.
\<close>

record diagnose_world =
  dw_ss :: "u16 \<Rightarrow> string option"
  dw_systemctl :: "string \<Rightarrow> string option"
  dw_read :: "string \<Rightarrow> string option"
  dw_read_bytes :: "string \<Rightarrow> bytes option"
  dw_text :: "bytes \<Rightarrow> string"
  dw_processes :: "(string \<times> string list option) list"
  dw_log :: "string \<Rightarrow> string option list result option"

definition parse_unsigned :: "nat \<Rightarrow> string \<Rightarrow> nat option" where
  "parse_unsigned bits s =
     (let digits = (case s of c # rest \<Rightarrow> if c = CHR ''+'' then rest else s | [] \<Rightarrow> s) in
      if digits = [] \<or> \<not> list_all is_ascii_digit digits \<or> 2 ^ bits \<le> digits_value digits then None
      else Some (digits_value digits))"

definition hex_value :: "char \<Rightarrow> nat option" where
  "hex_value c =
     (if is_ascii_digit c then Some (code c - 48)
      else (let l = code (to_ascii_lowercase c) in if 97 \<le> l \<and> l \<le> 102 then Some (l - 87) else None))"

definition parse_hex :: "nat \<Rightarrow> string \<Rightarrow> nat option" where
  "parse_hex bits s =
     (let digits = (case s of c # rest \<Rightarrow> if c = CHR ''+'' then rest else s | [] \<Rightarrow> s) in
      if digits = [] \<or> list_ex (\<lambda>c. hex_value c = None) digits then None
      else (let n = foldl (\<lambda>n c. 16 * n + the (hex_value c)) 0 digits in if 2 ^ bits \<le> n then None else Some n))"

section \<open>Listeners of a port\<close>

definition pid_of_part :: "string \<Rightarrow> nat option" where
  "pid_of_part part = Option.bind (strip_prefix part ''pid='') (parse_unsigned 32)"

definition pids_of_ss_line :: "string \<Rightarrow> nat list" where
  "pids_of_ss_line line =
     (if trim line = [] then []
      else (case rev (split_whitespace line) of
          [] \<Rightarrow> []
        | process_info # _ \<Rightarrow>
            if contains_str process_info ''pid='' then List.map_filter pid_of_part (split_on (CHR '','') process_info) else []))"

definition parse_ss_output_for_pids :: "string \<Rightarrow> bool \<times> nat list" where
  "parse_ss_output_for_pids output =
     (let lines = drop 1 (lines_of output) in
      (list_ex (\<lambda>line. trim line \<noteq> []) lines, concat (map pids_of_ss_line lines)))"

definition linux_port_binding_info_from_ss :: "diagnose_world \<Rightarrow> u16 \<Rightarrow> (bool \<times> nat list) option" where
  "linux_port_binding_info_from_ss dw port = map_option parse_ss_output_for_pids (dw_ss dw port)"

definition inode_of_line :: "u16 \<Rightarrow> string \<Rightarrow> nat option" where
  "inode_of_line port line =
     (let fs = split_whitespace line in
      if length fs < 10 then None
      else if fs ! 3 \<noteq> ''0A'' then None
      else (case split_on (CHR '':'') (fs ! 1) of
          _ # p # ps \<Rightarrow>
            if parse_hex 16 (join_with '':'' (p # ps)) = Some (unat port) then parse_unsigned 64 (fs ! 9) else None
        | _ \<Rightarrow> None))"

definition linux_collect_inodes_from_proc_net :: "diagnose_world \<Rightarrow> string \<Rightarrow> u16 \<Rightarrow> nat list \<Rightarrow> nat list" where
  "linux_collect_inodes_from_proc_net dw path port into =
     (case dw_read dw path of
        None \<Rightarrow> into
      | Some content \<Rightarrow> into @ List.map_filter (inode_of_line port) (drop 1 (lines_of content)))"

definition linux_listen_inodes_for_port :: "diagnose_world \<Rightarrow> u16 \<Rightarrow> nat list" where
  "linux_listen_inodes_for_port dw port =
     linux_collect_inodes_from_proc_net dw ''/proc/net/tcp6'' port
       (linux_collect_inodes_from_proc_net dw ''/proc/net/tcp'' port [])"

definition inode_of_link :: "string \<Rightarrow> nat option" where
  "inode_of_link target =
     (if starts_with target ''socket:['' \<and> ends_with target '']''
      then parse_unsigned 64 (drop 8 (butlast target)) else None)"

definition linux_pids_for_inodes :: "diagnose_world \<Rightarrow> nat list \<Rightarrow> nat list" where
  "linux_pids_for_inodes dw inodes =
     List.map_filter (\<lambda>(name, links).
       case parse_unsigned 32 name of
         None \<Rightarrow> None
       | Some pid \<Rightarrow>
           (case links of
              None \<Rightarrow> None
            | Some targets \<Rightarrow>
                if list_ex (\<lambda>t. case inode_of_link t of None \<Rightarrow> False | Some i \<Rightarrow> i \<in> set inodes) targets then Some pid else None))
       (dw_processes dw)"

section \<open>Processes of a unit\<close>

definition linux_unit_control_group :: "diagnose_world \<Rightarrow> string \<Rightarrow> string option" where
  "linux_unit_control_group dw unit_name =
     Option.bind (dw_systemctl dw unit_name) (\<lambda>out.
       case List.map_filter (\<lambda>line. Option.bind (strip_prefix line ''ControlGroup='') (\<lambda>g. if g \<noteq> [] then Some g else None))
           (lines_of out) of
         [] \<Rightarrow> None
       | g # _ \<Rightarrow> Some g)"

definition cgroup_content_mentions_unit :: "string \<Rightarrow> string \<Rightarrow> bool" where
  "cgroup_content_mentions_unit content unit_name = contains_str content unit_name"

definition cgroup_path_from_line :: "string \<Rightarrow> string option" where
  "cgroup_path_from_line line =
     (case split_on (CHR '':'') line of
        _ # _ # p # ps \<Rightarrow> Some (join_with '':'' (p # ps))
      | _ \<Rightarrow> None)"

definition cgroup_content_has_path :: "string \<Rightarrow> string \<Rightarrow> bool" where
  "cgroup_content_has_path content target = list_ex (\<lambda>line. cgroup_path_from_line line = Some target) (lines_of content)"

definition pid_in_unit_cgroup :: "diagnose_world \<Rightarrow> nat \<Rightarrow> string \<Rightarrow> string option \<Rightarrow> bool" where
  "pid_in_unit_cgroup dw pid unit_name control_group =
     (case dw_read dw (''/proc/'' @ show_nat pid @ ''/cgroup'') of
        None \<Rightarrow> False
      | Some content \<Rightarrow>
          cgroup_content_mentions_unit content unit_name \<or>
          (case control_group of None \<Rightarrow> False | Some target_path \<Rightarrow> cgroup_content_has_path content target_path))"

record port_binding_info =
  bi_probe_supported :: bool
  bi_has_listener :: bool
  bi_listening_pids :: "nat list"
  bi_owned_by_unit :: "bool option"

definition owned_by_unit :: "diagnose_world \<Rightarrow> string option \<Rightarrow> nat list \<Rightarrow> bool option" where
  "owned_by_unit dw unit_name pids =
     map_option (\<lambda>name. list_ex (\<lambda>pid. pid_in_unit_cgroup dw pid name (linux_unit_control_group dw name)) pids) unit_name"

definition linux_port_binding_info :: "diagnose_world \<Rightarrow> u16 \<Rightarrow> string option \<Rightarrow> port_binding_info" where
  "linux_port_binding_info dw port unit_name =
     (case linux_port_binding_info_from_ss dw port of
        Some (bound, pids) \<Rightarrow>
          \<lparr>bi_probe_supported = True, bi_has_listener = bound, bi_listening_pids = pids,
           bi_owned_by_unit = owned_by_unit dw unit_name pids\<rparr>
      | None \<Rightarrow>
          (let inodes = linux_listen_inodes_for_port dw port; pids = linux_pids_for_inodes dw inodes in
           \<lparr>bi_probe_supported = True, bi_has_listener = (inodes \<noteq> []), bi_listening_pids = pids,
            bi_owned_by_unit = owned_by_unit dw unit_name pids\<rparr>))"

definition verify_port_binding :: "diagnose_world \<Rightarrow> u16 \<Rightarrow> string option \<Rightarrow> unit result" where
  "verify_port_binding dw port unit_name =
     (let info = linux_port_binding_info dw port unit_name in
      if \<not> bi_has_listener info then Inl (''port '' @ show_word port @ '' is not bound by any process'')
      else (case unit_name of
          None \<Rightarrow> Inr ()
        | Some name \<Rightarrow>
            if bi_owned_by_unit info = Some False then
              Inl (''port '' @ show_word port @ '' is bound but not by unit '' @ quoted name @ '' (bound by PIDs: ['' @
                   join_with '', '' (map show_nat (bi_listening_pids info)) @ ''])'')
            else Inr ()))"

section \<open>The report\<close>

record diagnose_pid =
  dp_pid :: nat
  dp_comm :: "string option"
  dp_cmdline :: "string option"

record diagnose_port_binding =
  db_listening_pids :: "diagnose_pid list"
  db_owned_by_unit :: "bool option"

record diagnose_service =
  ds_name :: string
  ds_daemon_state :: service_state
  ds_systemd :: "unit_status option"
  ds_health :: "health_snapshot option"
  ds_expected_port :: "u16 option"
  ds_port_binding :: "diagnose_port_binding option"
  ds_last_log_lines :: "string list"
  ds_issues :: "string list"

record diagnose_response =
  dr_run_id :: string
  dr_stack :: string
  dr_project_dir :: string
  dr_generated_at :: string
  dr_services :: "diagnose_service list"

definition pid_comm :: "diagnose_world \<Rightarrow> nat \<Rightarrow> string option" where
  "pid_comm dw pid = map_option trim (dw_read dw (''/proc/'' @ show_nat pid @ ''/comm''))"

fun split_zero :: "bytes \<Rightarrow> bytes list" where
  "split_zero [] = [[]]"
| "split_zero (b # bs) =
     (if b = 0 then [] # split_zero bs
      else (case split_zero bs of [] \<Rightarrow> [[b]] | p # ps \<Rightarrow> (b # p) # ps))"

definition pid_cmdline :: "diagnose_world \<Rightarrow> nat \<Rightarrow> string option" where
  "pid_cmdline dw pid =
     Option.bind (dw_read_bytes dw (''/proc/'' @ show_nat pid @ ''/cmdline'')) (\<lambda>bytes.
       let parts = map (\<lambda>p. dw_text dw (from_utf8_lossy p)) (filter (\<lambda>p. p \<noteq> []) (split_zero bytes)) in
       if bytes = [] \<or> parts = [] then None else Some (join_with '' '' parts))"

definition describe_port_binding :: "diagnose_world \<Rightarrow> port_binding_info \<Rightarrow> diagnose_port_binding" where
  "describe_port_binding dw info =
     \<lparr>db_listening_pids =
        map (\<lambda>pid. \<lparr>dp_pid = pid, dp_comm = pid_comm dw pid, dp_cmdline = pid_cmdline dw pid\<rparr>) (bi_listening_pids info),
      db_owned_by_unit = bi_owned_by_unit info\<rparr>"

definition ring_push :: "nat \<Rightarrow> string list \<Rightarrow> string option \<Rightarrow> string list" where
  "ring_push max_lines ring line =
     (let clean = strip_ansi_if_needed (unwrap_or line []) in
      (if length ring = max_lines then tl ring else ring) @ [clean])"

definition tail_file_lines :: "diagnose_world \<Rightarrow> string \<Rightarrow> nat \<Rightarrow> string list result" where
  "tail_file_lines dw path max_lines =
     (if max_lines = 0 then Inr []
      else (case dw_log dw path of
          None \<Rightarrow> Inr []
        | Some (Inl e) \<Rightarrow> Inl e
        | Some (Inr lines) \<Rightarrow> Inr (foldl (ring_push max_lines) [] lines)))"

definition detect_issues :: "service_status \<Rightarrow> u16 option \<Rightarrow> port_binding_info option \<Rightarrow> string list" where
  "detect_issues svc expected_port binding =
     (case vs_systemd svc of
        None \<Rightarrow> []
      | Some sys \<Rightarrow>
          (if us_active_state sys = ''failed'' \<or> us_result sys = Some ''start-limit-hit'' then [''crash-looping''] else []) @
          (if vs_desired svc = ''running'' \<and> us_active_state sys = ''inactive'' then [''inactive''] else [])) @
     (if vs_state svc = Sv_Degraded then [''degraded''] else []) @
     (if vs_state svc = Sv_Failed then [''failed''] else []) @
     (if expected_port = None then []
      else (case binding of
          None \<Rightarrow> [''port-not-bound'']
        | Some b \<Rightarrow>
            if \<not> bi_probe_supported b then []
            else if \<not> bi_has_listener b then [''port-not-bound'']
            else if bi_listening_pids b \<noteq> [] \<and> bi_owned_by_unit b = Some False then [''wrong-port-or-orphan-listener'']
            else [])) @
     (case vs_health svc of
        None \<Rightarrow> []
      | Some health \<Rightarrow> if 3 \<le> hs_consecutive_failures health then [''health-checks-failing''] else [])"

definition diagnose_service_of ::
  "diagnose_world \<Rightarrow> path_env \<Rightarrow> string \<Rightarrow> run_status \<Rightarrow> persisted_run \<Rightarrow> string \<Rightarrow> diagnose_service result" where
  "diagnose_service_of dw pe run_id status manifest name =
     (case map_of (vr_services status) name of
        None \<Rightarrow> Inl ''missing service status''
      | Some svc_status \<Rightarrow>
          (let expected_port = Option.bind (map_of (pr_services manifest) name) pe_port;
               unit_name = unit_name_for_run run_id name;
               binding_info = map_option (\<lambda>port. linux_port_binding_info dw port (Some unit_name)) expected_port in
           rbind (run_log_path pe run_id name) (\<lambda>log_path.
           rbind (tail_file_lines dw log_path 10) (\<lambda>last_log_lines.
             Inr \<lparr>ds_name = name, ds_daemon_state = vs_state svc_status, ds_systemd = vs_systemd svc_status,
               ds_health = vs_health svc_status, ds_expected_port = expected_port,
               ds_port_binding = map_option (describe_port_binding dw) binding_info, ds_last_log_lines = last_log_lines,
               ds_issues = detect_issues svc_status expected_port binding_info\<rparr>))))"

definition diagnose_run ::
  "diagnose_world \<Rightarrow> path_env \<Rightarrow> string \<Rightarrow> string \<Rightarrow> run_status \<Rightarrow> persisted_run \<Rightarrow> string option \<Rightarrow> diagnose_response result" where
  "diagnose_run dw pe now run_id status manifest service_filter =
     (let names = filter (\<lambda>name. case service_filter of None \<Rightarrow> True | Some f \<Rightarrow> f = name) (bm_keys (vr_services status)) in
      rbind (rmap (diagnose_service_of dw pe run_id status manifest) names) (\<lambda>services.
        Inr \<lparr>dr_run_id = vr_run_id status, dr_stack = vr_stack status, dr_project_dir = vr_project_dir status,
          dr_generated_at = now, dr_services = services\<rparr>))"

section \<open>Lines of the log\<close>

lemma ring_lines:
  assumes "0 < max_lines" and "length ring \<le> max_lines"
  shows "foldl (ring_push max_lines) ring lines =
    (let kept = ring @ map (\<lambda>l. strip_ansi_if_needed (unwrap_or l [])) lines in drop (length kept - max_lines) kept)"
  using assms(2)
proof (induction lines arbitrary: ring)
  case (Cons l lines)
  let ?clean = "strip_ansi_if_needed (unwrap_or l [])" and ?rest = "map (\<lambda>l. strip_ansi_if_needed (unwrap_or l [])) lines"
  show ?case
  proof (cases "length ring = max_lines")
    case True
    then obtain x xs where ring: "ring = x # xs" "length xs = max_lines - 1" using assms(1) by (cases ring) auto
    then show ?thesis
      using Cons.IH [of "xs @ [?clean]"] True assms(1) by (simp add: ring_push_def Let_def)
  next
    case False
    then show ?thesis using Cons.IH [of "ring @ [?clean]"] Cons.prems by (simp add: ring_push_def Let_def)
  qed
qed (simp add: Let_def)

text \<open>The log in a report is the last lines of the file, whatever could not be decoded as empty lines.\<close>

lemma tail_keeps_last_lines:
  assumes "dw_log dw path = Some (Inr lines)"
  shows "tail_file_lines dw path max_lines =
    Inr (drop (length lines - max_lines) (map (\<lambda>l. strip_ansi_if_needed (unwrap_or l [])) lines))"
  using ring_lines [of max_lines "[]" lines] by (cases "max_lines = 0") (simp_all add: tail_file_lines_def assms Let_def)

section \<open>What ss prints\<close>

text \<open>The processes of a listener in the last column, with their descriptors.\<close>

definition ss_process :: "string \<times> nat \<times> nat \<Rightarrow> string" where
  "ss_process p = (case p of (name, pid, fd) \<Rightarrow>
     ''(\"'' @ name @ ''\",pid='' @ show_nat pid @ '',fd='' @ show_nat fd @ '')'')"

definition ss_users :: "(string \<times> nat \<times> nat) list \<Rightarrow> string" where
  "ss_users procs = ''users:('' @ join_with '','' (map ss_process procs) @ '')''"

lemma split_whitespace_word:
  "list_all (\<lambda>c. \<not> is_whitespace c) w \<Longrightarrow> word @ w \<noteq> [] \<Longrightarrow> split_whitespace_from word w = [rev word @ w]"
  by (induction word w rule: split_whitespace_from.induct) auto

lemma split_whitespace_last:
  assumes "list_all (\<lambda>c. \<not> is_whitespace c) w" and "w \<noteq> []"
  shows "\<exists>words. split_whitespace_from word (front @ CHR '' '' # w) = words @ [w]"
proof (induction front arbitrary: word)
  case Nil
  have "is_whitespace (CHR '' '')" by code_simp
  then show ?case using split_whitespace_word [OF assms(1), of "[]"] assms(2) by auto
next
  case (Cons c front)
  show ?case using Cons.IH [of "[]"] Cons.IH [of "c # word"] by (auto intro: exI [of _ "rev word # _"])
qed

lemma part_of_pid: "pid < 2 ^ 32 \<Longrightarrow> pid_of_part (''pid='' @ show_nat pid) = Some pid"
proof -
  assume small: "pid < 2 ^ 32"
  have ascii: "list_all is_ascii_digit (show_nat pid)" using show_nat_digits by (auto simp: list_all_iff)
  obtain c rest where s: "show_nat pid = c # rest" using show_nat_nonempty [of pid] by (cases "show_nat pid") auto
  have "c \<noteq> CHR ''+''" using ascii by (auto simp: s is_ascii_digit_def)
  then show ?thesis
    using small ascii digits_value_show_nat [of pid]
    by (simp add: pid_of_part_def strip_prefix_def parse_unsigned_def s starts_with_iff Let_def)
qed

lemma trim_nonempty: "c \<in> set s \<Longrightarrow> \<not> is_whitespace c \<Longrightarrow> trim s \<noteq> []"
proof -
  assume c: "c \<in> set s" "\<not> is_whitespace c"
  then have "c \<in> set (dropWhile is_whitespace s)"
    using takeWhile_dropWhile_id [of is_whitespace s] set_takeWhileD by (metis Un_iff set_append)
  then show "trim s \<noteq> []" using c(2) by (auto simp: trim_def trim_start_def trim_end_def)
qed

definition plain_process :: "string \<times> nat \<times> nat \<Rightarrow> bool" where
  "plain_process p = (case p of (name, pid, fd) \<Rightarrow> pid < 2 ^ 32 \<and> list_all (\<lambda>c. \<not> is_whitespace c \<and> c \<noteq> CHR '','') name)"

lemma digit_plain: "is_ascii_digit c \<Longrightarrow> \<not> is_whitespace c \<and> c \<noteq> CHR '',''"
  by (auto simp: is_ascii_digit_def is_whitespace_def)

lemma map_filter_Cons: "List.map_filter f (x # xs) = (case f x of None \<Rightarrow> [] | Some y \<Rightarrow> [y]) @ List.map_filter f xs"
  by (simp add: List.map_filter_simps split: option.split)

lemma show_nat_no_comma: "CHR '','' \<notin> set (show_nat n)"
  using show_nat_digits digit_plain by blast

lemma two_parts:
  assumes "CHR '','' \<notin> set a" and "pid_of_part a = None" and "CHR '','' \<notin> set b" and "pid_of_part b = Some n"
  shows "List.map_filter pid_of_part (split_on (CHR '','') (a @ CHR '','' # b @ CHR '','' # c)) =
    n # List.map_filter pid_of_part (split_on (CHR '','') c)"
  using assms by (simp add: split_on_append_sep map_filter_Cons)

text \<open>The parts of a process between commas: the opening with the name, the pid, the descriptor.\<close>

lemma parts_of_process:
  assumes "plain_process p" and "p = (name, pid, fd)" and "CHR '','' \<notin> set front"
    and "front = [] \<or> hd front \<noteq> CHR ''p''"
  shows "List.map_filter pid_of_part (split_on (CHR '','') (front @ ss_process p @ rest)) =
    pid # List.map_filter pid_of_part (split_on (CHR '','') (''fd='' @ show_nat fd @ '')'' @ rest))"
proof -
  let ?open = "front @ ''(\"'' @ name @ ''\"''" and ?pid = "''pid='' @ show_nat pid"
  have plain: "CHR '','' \<notin> set name" "pid < 2 ^ 32" using assms(1,2) by (auto simp: plain_process_def list_all_iff)
  have "front @ ss_process p @ rest = ?open @ CHR '','' # (?pid @ CHR '','' # (''fd='' @ show_nat fd @ '')'' @ rest))"
    by (simp add: ss_process_def assms(2))
  moreover have "CHR '','' \<notin> set ?open" "CHR '','' \<notin> set ?pid" using assms(3) plain(1) show_nat_no_comma by simp_all
  moreover have "pid_of_part ?open = None"
    using assms(4) by (cases front) (auto simp: pid_of_part_def strip_prefix_def)
  ultimately show ?thesis
    using two_parts [of ?open ?pid pid "''fd='' @ show_nat fd @ '')'' @ rest"] part_of_pid [OF plain(2)] by simp
qed

lemma descriptor_part:
  assumes "CHR '','' \<notin> set tail"
  shows "List.map_filter pid_of_part (split_on (CHR '','') (''fd='' @ show_nat fd @ tail)) = []"
    and "List.map_filter pid_of_part (split_on (CHR '','') (''fd='' @ show_nat fd @ tail @ CHR '','' # rest)) =
      List.map_filter pid_of_part (split_on (CHR '','') rest)"
proof -
  have none: "pid_of_part (''fd='' @ s) = None" for s by (simp add: pid_of_part_def strip_prefix_def)
  have clear: "CHR '','' \<notin> set (''fd='' @ show_nat fd @ tail)" using assms show_nat_no_comma by simp
  show "List.map_filter pid_of_part (split_on (CHR '','') (''fd='' @ show_nat fd @ tail)) = []"
    using split_on_absent [OF clear] none by (simp add: List.map_filter_simps)
  show "List.map_filter pid_of_part (split_on (CHR '','') (''fd='' @ show_nat fd @ tail @ CHR '','' # rest)) =
      List.map_filter pid_of_part (split_on (CHR '','') rest)"
    using split_on_append_sep [OF clear, of rest] none [of "show_nat fd @ tail"]
    by (simp add: List.map_filter_simps)
qed

lemma pids_of_users:
  assumes "list_all plain_process procs" and "procs \<noteq> []" and "CHR '','' \<notin> set front" and "front = [] \<or> hd front \<noteq> CHR ''p''"
  shows "List.map_filter pid_of_part (split_on (CHR '','') (front @ join_with '','' (map ss_process procs) @ '')'')) =
    map (fst \<circ> snd) procs"
  using assms
proof (induction procs arbitrary: front)
  case (Cons p procs)
  obtain name pid fd where p: "p = (name, pid, fd)" by (cases p)
  show ?case
  proof (cases procs)
    case Nil
    have "List.map_filter pid_of_part (split_on (CHR '','') (front @ ss_process p @ '')'')) = [pid]"
      using parts_of_process [OF _ p Cons.prems(3,4), of "'')''"] Cons.prems(1) descriptor_part(1) [of "''))''" fd] by simp
    then show ?thesis by (simp add: Nil p)
  next
    case (Cons q procs')
    let ?rest = "join_with '','' (map ss_process procs) @ '')''"
    have joined: "join_with '','' (map ss_process (p # procs)) @ '')'' = ss_process p @ CHR '','' # ?rest"
      by (simp add: Cons)
    have "List.map_filter pid_of_part (split_on (CHR '','') (front @ ss_process p @ CHR '','' # ?rest)) =
        pid # List.map_filter pid_of_part (split_on (CHR '','') ?rest)"
      using parts_of_process [OF _ p Cons.prems(3,4), of "CHR '','' # ?rest"] Cons.prems(1) descriptor_part(2) [of "'')''" fd ?rest]
      by simp
    moreover have "List.map_filter pid_of_part (split_on (CHR '','') ?rest) = map (fst \<circ> snd) procs"
      using Cons.IH [of "[]"] Cons.prems(1) Cons by simp
    ultimately show ?thesis unfolding joined by (simp add: p)
  qed
qed simp

text \<open>Only the last word of a line is read: a process whose name has a blank hides those before it.\<close>

lemma last_word_read:
  assumes "list_all (\<lambda>c. \<not> is_whitespace c) w" and "w \<noteq> []"
  shows "pids_of_ss_line (front @ CHR '' '' # w) =
    (if contains_str w ''pid='' then List.map_filter pid_of_part (split_on (CHR '','') w) else [])"
proof -
  obtain words where words: "split_whitespace (front @ CHR '' '' # w) = words @ [w]"
    using split_whitespace_last [OF assms, of "[]" front] by (auto simp: split_whitespace_def)
  obtain c where "c \<in> set w" "\<not> is_whitespace c" using assms by (cases w) auto
  then have "trim (front @ CHR '' '' # w) \<noteq> []" by (intro trim_nonempty [of c]) simp_all
  then show ?thesis by (simp add: pids_of_ss_line_def words)
qed

text \<open>
  The processes of a listener are read back from a line of \<open>ss\<close> whose last column they are, if their
  names have no blanks and no commas.
\<close>

lemma ss_line_round_trip:
  assumes "list_all plain_process procs" and "procs \<noteq> []"
  shows "pids_of_ss_line (front @ CHR '' '' # ss_users procs) = map (fst \<circ> snd) procs"
proof -
  have word: "list_all (\<lambda>c. \<not> is_whitespace c) (ss_users procs)"
  proof -
    have process: "list_all (\<lambda>c. \<not> is_whitespace c) (ss_process p)" if "p \<in> set procs" for p
    proof -
      obtain name pid fd where p: "p = (name, pid, fd)" by (cases p)
      have "list_all (\<lambda>c. \<not> is_whitespace c) name" using assms(1) that by (auto simp: p plain_process_def list_all_iff)
      moreover have "list_all (\<lambda>c. \<not> is_whitespace c) (show_nat n)" for n
        using show_nat_digits digit_plain by (auto simp: list_all_iff)
      ultimately show ?thesis by (simp add: p ss_process_def is_whitespace_def)
    qed
    have "list_all (\<lambda>c. \<not> is_whitespace c) (join_with '','' ws)" if "\<forall>w \<in> set ws. list_all (\<lambda>c. \<not> is_whitespace c) w" for ws
      using that by (induction "'',''" ws rule: join_with.induct) (auto simp: is_whitespace_def)
    from this [of "map ss_process procs"] process show ?thesis by (simp add: ss_users_def is_whitespace_def)
  qed
  have users: "ss_users procs = ''users:('' @ join_with '','' (map ss_process procs) @ '')''" by (simp add: ss_users_def)
  have "List.map_filter pid_of_part (split_on (CHR '','') (ss_users procs)) = map (fst \<circ> snd) procs"
    unfolding users by (rule pids_of_users [OF assms]) simp_all
  moreover have "contains_str (ss_users procs) ''pid=''"
  proof -
    obtain name pid fd rest where procs: "procs = (name, pid, fd) # rest" using assms(2) by (cases procs) auto
    obtain t where "join_with '','' (map ss_process procs) = ss_process (name, pid, fd) @ t"
      unfolding procs by (cases rest) auto
    then have "ss_users procs = (''users:((\"'' @ name @ ''\",'') @ ''pid='' @ show_nat pid @ '',fd='' @ show_nat fd @ '')'' @ t @ '')''"
      by (simp add: users ss_process_def)
    then show ?thesis unfolding contains_str_iff by blast
  qed
  moreover have "ss_users procs \<noteq> []" by (simp add: users)
  ultimately show ?thesis using last_word_read [OF word] by simp
qed

section \<open>Who listens\<close>

lemma wrong_port_issue:
  "''wrong-port-or-orphan-listener'' \<in> set (detect_issues svc (Some port) (Some b)) \<longleftrightarrow>
     bi_probe_supported b \<and> bi_has_listener b \<and> bi_listening_pids b \<noteq> [] \<and> bi_owned_by_unit b = Some False"
  by (simp add: detect_issues_def split: option.split)

text \<open>
  A foreign listener is reported for a service exactly when some process listens on its port, processes are
  known, and none of them is in the control group of the unit. The proxy that captures the requests of a
  service listens on its port within the daemon, so a captured service is reported too.
\<close>

lemma foreign_listener_reported:
  assumes "diagnose_service_of dw pe run_id status manifest name = Inr ds"
    and "Option.bind (map_of (pr_services manifest) name) pe_port = Some port"
    and "dw_ss dw port = Some out" and "parse_ss_output_for_pids out = (bound, pids)"
  shows "''wrong-port-or-orphan-listener'' \<in> set (ds_issues ds) \<longleftrightarrow>
    bound \<and> pids \<noteq> [] \<and>
    (\<forall>pid \<in> set pids. \<not> pid_in_unit_cgroup dw pid (unit_name_for_run run_id name)
      (linux_unit_control_group dw (unit_name_for_run run_id name)))"
proof -
  let ?unit = "unit_name_for_run run_id name"
  have info: "linux_port_binding_info dw port (Some ?unit) =
      \<lparr>bi_probe_supported = True, bi_has_listener = bound, bi_listening_pids = pids, bi_owned_by_unit = owned_by_unit dw (Some ?unit) pids\<rparr>"
    using assms(3,4) by (simp add: linux_port_binding_info_def linux_port_binding_info_from_ss_def)
  obtain svc where "ds_issues ds = detect_issues svc (Some port) (Some (linux_port_binding_info dw port (Some ?unit)))"
    using assms(1,2) by (auto simp: diagnose_service_of_def Let_def rbind_eq_Inr split: option.splits)
  then show ?thesis by (simp add: wrong_port_issue info owned_by_unit_def list_ex_iff)
qed

text \<open>The services of a report are those of the status, in the order of their names, or the one that was asked for.\<close>

lemma diagnosed_services:
  assumes "diagnose_run dw pe now run_id status manifest service_filter = Inr r"
  shows "map ds_name (dr_services r) =
    filter (\<lambda>name. case service_filter of None \<Rightarrow> True | Some f \<Rightarrow> f = name) (bm_keys (vr_services status))"
proof -
  have name: "ds_name ds = name" if "diagnose_service_of dw pe run_id status manifest name = Inr ds" for name ds
    using that by (auto simp: diagnose_service_of_def Let_def rbind_eq_Inr split: option.splits)
  have "map ds_name services = names" if "rmap (diagnose_service_of dw pe run_id status manifest) names = Inr services" for names services
    using that by (induction names arbitrary: services) (auto simp: rbind_eq_Inr name)
  then show ?thesis using assms by (auto simp: diagnose_run_def Let_def rbind_eq_Inr)
qed

end
