(* ===== verification/Spec2Isabelle.thy ===== *)
theory Spec2Isabelle
  imports Config_Plan Config_Validate Env Ports Stores Prepare Housekeeping Status Handlers Restore Globals Up Tasks Sources Projects Local_Units Api_Capture Log_Examples Source_Examples Cli_Logs Agents Diagnose
begin

text \<open>
  devstack: a daemon that brings up stacks of services described by a configuration file, and a client
  that talks to it. This development models the program under \<open>src/src\<close> (Rust) and proves
  what its parts promise. Every theory opens with what it holds; this is the map.

  The parts and how they work together. A client sends a request to the daemon. The daemon loads and
  validates the configuration of the project, plans the stack (an order in which dependencies come first),
  allocates ports in a registry shared by all processes, ensures the globals of the project, prepares every
  service (templates, environment, readiness), starts a unit per service, waits for readiness, and keeps
  monitors, file watchers and capture proxies running beside them. Runs and globals are kept in stores in
  memory and in manifests on disk, from which a new daemon starts.

  Theories and sources.
  \<^item> \<open>Prelude\<close>, \<open>Rust_Strings\<close>, \<open>Json\<close>: results, ordered maps, words, the
    string functions of Rust, JSON values.
  \<^item> \<open>Names\<close>: \<open>util.rs\<close>, \<open>ids.rs\<close>, \<open>paths.rs\<close>,
    \<open>instance_scope.rs\<close>: checked names, paths of the data directory, unit names, port owners.
  \<^item> \<open>Config\<close>, \<open>Config_Plan\<close>, \<open>Config_Validate\<close>: \<open>config/\<close>.
  \<^item> \<open>Env\<close>, \<open>Prepare\<close>: \<open>config/env.rs\<close>, \<open>app/launch/context.rs\<close>,
    \<open>prepare.rs\<close>: variables, templates, the preparation of a service and the ports of a refresh.
  \<^item> \<open>Ports\<close>: \<open>port.rs\<close>, the registry file and allocation under its lock.
  \<^item> \<open>Model\<close>, \<open>Stores\<close>: \<open>model/\<close>, \<open>stores/\<close>: records, events and
    the stores, each method one atomic step.
  \<^item> \<open>Readiness\<close>: \<open>services/readiness/\<close>; \<open>Logfmt\<close>: \<open>logfmt.rs\<close>.
  \<^item> \<open>App\<close>, \<open>Launch\<close>, \<open>Lifecycle\<close>, \<open>Housekeeping\<close>: the
    state of the handlers, \<open>app/launch/\<close> and the commands on runs: launch, restart, down, kill,
    collection, watcher pauses, health monitors.
  \<^item> \<open>Watcher\<close>, \<open>Globals\<close>, \<open>Up\<close>: the loop of a file watcher,
    \<open>ensure_globals.rs\<close>, and \<open>up\<close> with its refresh from \<open>runs.rs\<close>.
  \<^item> \<open>Daemon\<close>, \<open>Handlers\<close>: the critical sections of handlers, monitors, watchers and globals as a
    step relation, its invariant, and the proof that the entry points on runs are sequences of such steps.
  \<^item> \<open>Manifests\<close>, \<open>Restore\<close>: \<open>persistence/\<close>: the formats on disk
    and the start of a daemon from them.
  \<^item> \<open>Status\<close>: \<open>app/queries/status.rs\<close>, \<open>reconcile.rs\<close>.
  \<^item> \<open>Tasks\<close>: \<open>services/tasks/\<close>, \<open>app/commands/tasks.rs\<close> and the queries.
  \<^item> \<open>Sources\<close>, \<open>Projects\<close>: \<open>sources.rs\<close>, \<open>projects.rs\<close>: the
    ledgers of log sources and projects, their files, the cache over them, and the handlers of projects.
  \<^item> \<open>Local_Units\<close>: \<open>systemd.rs\<close>: the manager of units that stands in for systemd.
  \<^item> \<open>Utf8\<close>, \<open>Api_Capture\<close>: \<open>services/api_capture.rs\<close>: the proxy that
    records the requests of a service. A body is its frames: data, trailers or a failure. Recording turns it
    into a stream of data and back, which loses the trailers.
  \<^item> \<open>Log_Index\<close>, \<open>Log_Query\<close>: \<open>infra/logs/index/\<close>,
    \<open>app/queries/logs.rs\<close>, \<open>daemon/handlers/logs.rs\<close>: files read into documents with their
    cursors, deletion and eviction; pages of a service, views, facets and their cache. A call
    for a view is three looks at the index and a store, among which changes of the index run.
  \<^item> \<open>Source_Ingest\<close>: \<open>daemon/source_ingest.rs\<close>, \<open>daemon/handlers/sources.rs\<close>:
    which files of a log source are read, when, and how far.
  \<^item> \<open>Log_Tail\<close>: \<open>daemon/log_tailing.rs\<close>, \<open>daemon/handlers/events.rs\<close>,
    \<open>logs.rs\<close>: lines sent to clients of the event stream, files printed and followed.
    A client that leaves is released later, and a tail may end by itself.
  \<^item> \<open>Diagnose\<close>: \<open>port_ownership.rs\<close>, \<open>diagnose.rs\<close>: who listens on a port, and
    the report about a run.
  \<^item> \<open>Agents\<close>: \<open>agent/\<close>, \<open>app/commands/agent.rs\<close>,
    \<open>navigation.rs\<close>: sessions of agents, their messages, notices about new errors.
  \<^item> \<open>Cli_Context\<close>, \<open>Cli_Commands\<close>, \<open>Cli_Logs\<close>: \<open>cli/context.rs\<close> and
    \<open>cli/commands/\<close> (\<open>lifecycle\<close>, \<open>projects\<close>, \<open>logs\<close>,
    \<open>sources\<close>), with the queries of \<open>api.rs\<close> on the wire: how the client finds the
    project, the stack and the run, what it asks of the daemon and what it does without it.
  \<^item> \<open>Log_Examples\<close>, \<open>Source_Examples\<close>: concrete runs of the index and the ingestion, kept
    apart because they import \<open>Code_Target_Nat\<close> to compute with large numbers.

  How code becomes definitions. A struct is a record, an enum a datatype, a \<open>BTreeMap\<close> the sorted
  list of its entries, an integer of fixed width a word. A fallible function returns \<open>Inl\<close> an error
  or \<open>Inr\<close> a value, and every early return is a branch. A handler takes the state it may change and
  returns it changed. What the program asks of the world outside (the system clock, the operating system,
  \<open>systemd\<close>, parsers and template engines of other packages, file contents) is an argument, in
  records named \<open>world\<close>, \<open>prepare_env\<close>, \<open>probes\<close> and the like, and no
  theorem assumes more of it than its statement says. Calls that run in parallel are cut at their locks:
  the steps of \<open>Daemon\<close>, \<open>Tasks\<close>, \<open>Log_Query\<close> and \<open>Log_Tail\<close> are what
  happens under one lock or between two of them, in any order.

  What the groups of lemmas show: orders and validity of plans; exclusiveness of ports and that failed
  operations on the registry change nothing; what prepared services find in their environment; when waiting
  for a service ends and succeeds; that restarts are bounded; that no helper which is held has been
  told to stop, as an invariant of every interleaving; what bringing a run up, taking it down, refreshing and collecting it do to
  units, ports, manifests and records; that manifests are read back as written and a daemon starts from them
  in a good state; that the status follows the units; that init tasks run once and in order, and that the
  records of detached tasks are well formed, with their events in order; that every complete line of a log becomes one document and one
  event, and both say the same; that recording an exchange costs its trailers only and shows no
  credentials; which cached views are current, and that a query means the same on both sides of the
  wire; that messages to an agent arrive once and in order.

  Fuel. Loops that end are recursive functions with their measures. The search for free ports and the wait
  for readiness take their answers from a list or a clock and are options or take fuel: theorems state how
  many answers or which clock are enough.

  Not modelled: parsing of arguments by \<open>clap\<close>, completions, printing and installation
  (\<open>cli/args.rs\<close>, \<open>output.rs\<close>, \<open>completions.rs\<close>, \<open>setup.rs\<close>), routes
  and transport (\<open>daemon/router.rs\<close>, \<open>bootstrap.rs\<close>, \<open>infra/ipc\<close>), the
  pseudo terminal of an agent (\<open>agent/pty_proxy.rs\<close>), the search library \<open>tantivy\<close> itself
  with the schema, merging and disk size of its index, the walk and hash of watched files
  (\<open>watch.rs\<close>), the process shim and the D-Bus calls of
  \<open>RealSystemd\<close>: input and output around libraries. Memory, panics of the allocator and
  poisoned locks are not modelled.
\<close>

end
